(* ===== verification/Prelude.thy ===== *)
theory Prelude
  imports Main "HOL-Library.Word"
begin

text \<open>
  Shared vocabulary of the development: the fixed-width integer types of
  \<^verbatim>\<open>typedefs.h\<close>, bit sets (\<^verbatim>\<open>std::bitset<N>\<close>, modelled as Boolean lists of
  length \<open>N\<close>), the collections of facts the component theories share, and generic lemmas
  on lists and words.
\<close>

unbundle bit_operations_syntax

subsection \<open>Collections of facts\<close>

named_theorems cc_defs \<open>definitions of the bit-level helpers, unfolded in evaluation\<close>
named_theorems tag_simps \<open>effect of the tag-array operations on their fields\<close>
named_theorems queue_simps \<open>effect of the ring-buffer operations on their fields\<close>
named_theorems uop_defs \<open>definitions of the micro-operations\<close>
named_theorems cache_simps \<open>effect of the cache operations on their fields\<close>

subsection \<open>Machine integers\<close>

type_synonym W64 = "64 word"
type_synonym W32 = "32 word"
type_synonym W16 = "16 word"
type_synonym W8 = "8 word"

subsection \<open>Bit sets\<close>

type_synonym bitset = "bool list"

definition bs_all :: "bitset \<Rightarrow> bool" where
  "bs_all bs \<longleftrightarrow> list_all id bs"

definition bs_none :: "bitset \<Rightarrow> bool" where
  "bs_none bs \<longleftrightarrow> list_all Not bs"

definition bs_any :: "bitset \<Rightarrow> bool" where
  "bs_any bs \<longleftrightarrow> \<not> bs_none bs"

definition bs_not :: "bitset \<Rightarrow> bitset" where
  "bs_not bs = map Not bs"

definition bs_and :: "bitset \<Rightarrow> bitset \<Rightarrow> bitset" where
  "bs_and as bs = map2 (\<and>) as bs"

definition bs_or :: "bitset \<Rightarrow> bitset \<Rightarrow> bitset" where
  "bs_or as bs = map2 (\<or>) as bs"

definition bs_count :: "bitset \<Rightarrow> nat" where
  "bs_count bs = length (filter id bs)"

definition bs_zero :: "nat \<Rightarrow> bitset" where
  "bs_zero n = replicate n False"

definition bs_ones :: "nat \<Rightarrow> bitset" where
  "bs_ones n = replicate n True"

lemma bs_length [simp]:
  "length (bs_not bs) = length bs"
  "length (bs_and as bs) = min (length as) (length bs)"
  "length (bs_or as bs) = min (length as) (length bs)"
  "length (bs_zero n) = n"
  "length (bs_ones n) = n"
  by (simp_all add: bs_not_def bs_and_def bs_or_def bs_zero_def bs_ones_def)

lemma bs_nth [simp]:
  "i < length bs \<Longrightarrow> bs_not bs ! i = (\<not> bs ! i)"
  "i < length as \<Longrightarrow> i < length bs \<Longrightarrow> bs_and as bs ! i = (as ! i \<and> bs ! i)"
  "i < length as \<Longrightarrow> i < length bs \<Longrightarrow> bs_or as bs ! i = (as ! i \<or> bs ! i)"
  "i < n \<Longrightarrow> bs_zero n ! i = False"
  "i < n \<Longrightarrow> bs_ones n ! i = True"
  by (simp_all add: bs_not_def bs_and_def bs_or_def bs_zero_def bs_ones_def)

lemma bs_all_iff: "bs_all bs \<longleftrightarrow> (\<forall>i < length bs. bs ! i)"
  by (auto simp: bs_all_def list_all_length)

lemma bs_none_iff: "bs_none bs \<longleftrightarrow> (\<forall>i < length bs. \<not> bs ! i)"
  by (auto simp: bs_none_def list_all_length)

lemma bs_any_iff: "bs_any bs \<longleftrightarrow> (\<exists>i < length bs. bs ! i)"
  by (auto simp: bs_any_def bs_none_iff)

lemma bs_count_Nil [simp]: "bs_count [] = 0"
  by (simp add: bs_count_def)

lemma bs_count_Cons [simp]: "bs_count (b # bs) = (if b then Suc (bs_count bs) else bs_count bs)"
  by (simp add: bs_count_def)

lemma bs_count_le: "bs_count bs \<le> length bs"
  by (simp add: bs_count_def)

lemma bs_count_zero [simp]: "bs_count (bs_zero n) = 0"
  by (simp add: bs_count_def bs_zero_def)

lemma bs_count_ones [simp]: "bs_count (bs_ones n) = n"
  by (simp add: bs_count_def bs_ones_def)

lemma bs_count_update:
  "i < length bs \<Longrightarrow>
     bs_count (bs[i := b]) + of_bool (bs ! i) = bs_count bs + of_bool b"
proof (induction bs arbitrary: i)
  case (Cons x xs)
  then show ?case by (cases i) auto
qed simp

lemma bs_count_set:
  "i < length bs \<Longrightarrow> \<not> bs ! i \<Longrightarrow> bs_count (bs[i := True]) = Suc (bs_count bs)"
  using bs_count_update [of i bs True] by simp

lemma bs_count_clear:
  "i < length bs \<Longrightarrow> bs ! i \<Longrightarrow> Suc (bs_count (bs[i := False])) = bs_count bs"
  using bs_count_update [of i bs False] by simp

lemma bs_count_pos: "i < length bs \<Longrightarrow> bs ! i \<Longrightarrow> 0 < bs_count bs"
  using bs_count_clear [of i bs] by simp

lemma bs_count_eq_length: "bs_count bs = length bs \<longleftrightarrow> bs_all bs"
proof (induction bs)
  case (Cons b bs)
  then show ?case using bs_count_le [of bs] by (auto simp: bs_all_def)
qed (simp add: bs_all_def)

lemma bs_count_eq_0: "bs_count bs = 0 \<longleftrightarrow> bs_none bs"
  by (induction bs) (auto simp: bs_none_def)

subsection \<open>The least significant set bit\<close>

text \<open>
  \<^verbatim>\<open>lsb(const std::bitset<N>&)\<close> is \<^verbatim>\<open>std::countr_zero(bits.to_ullong())\<close>: the index of
  the first set bit, and 64 (the width of \<^verbatim>\<open>unsigned long long\<close>, not \<open>N\<close>) when no bit is
  set. \<^verbatim>\<open>to_ullong\<close> throws when a bit above 63 is set, so the helper is used for
  \<open>N \<le> 64\<close> only.
\<close>

definition lsb :: "bitset \<Rightarrow> nat" where
  "lsb bs = (if bs_none bs then 64 else length (takeWhile Not bs))"

lemma lsb_none: "bs_none bs \<Longrightarrow> lsb bs = 64"
  by (simp add: lsb_def)

lemma takeWhile_Not_less: "\<not> list_all Not bs \<Longrightarrow> length (takeWhile Not bs) < length bs"
  by (induction bs) auto

lemma lsb_less: "\<not> bs_none bs \<Longrightarrow> lsb bs < length bs"
  by (simp add: lsb_def bs_none_def takeWhile_Not_less)

lemma lsb_set: "\<not> bs_none bs \<Longrightarrow> bs ! lsb bs"
  using nth_length_takeWhile [of Not bs] takeWhile_Not_less [of bs]
  by (simp add: lsb_def bs_none_def)

lemma lsb_below: "\<not> bs_none bs \<Longrightarrow> i < lsb bs \<Longrightarrow> \<not> bs ! i"
  using nth_mem [of i "takeWhile Not bs"] takeWhile_nth [of i Not bs] set_takeWhileD
  by (fastforce simp: lsb_def)

lemma bs_none_not: "bs_none (bs_not bs) \<longleftrightarrow> bs_all bs"
  by (auto simp: bs_none_iff bs_all_iff)

lemma lsb_not_less: "\<not> bs_all bs \<Longrightarrow> lsb (bs_not bs) < length bs"
  using lsb_less [of "bs_not bs"] by (simp add: bs_none_not)

lemma lsb_not_clear: "\<not> bs_all bs \<Longrightarrow> \<not> bs ! lsb (bs_not bs)"
  using lsb_set [of "bs_not bs"] lsb_not_less [of bs] by (simp add: bs_none_not)

subsection \<open>Lists\<close>

lemma sum_list_single_index:
  fixes f :: "nat \<Rightarrow> 'b::comm_monoid_add"
  assumes "k < n" and "\<And>i. i < n \<Longrightarrow> i \<noteq> k \<Longrightarrow> f i = 0"
  shows "sum_list (map f [0..<n]) = f k"
proof -
  have "sum_list (map f [0..<n]) = (\<Sum>i = 0..<n. f i)"
    by (simp add: interv_sum_list_conv_sum_set_nat)
  also have "\<dots> = f k"
    using assms by (subst sum.remove [of _ k]) (auto intro: sum.neutral)
  finally show ?thesis .
qed

lemma sum_list_all_zero:
  fixes f :: "nat \<Rightarrow> 'b::comm_monoid_add"
  assumes "\<And>i. i < n \<Longrightarrow> f i = 0"
  shows "sum_list (map f [0..<n]) = 0"
  using assms by (simp add: interv_sum_list_conv_sum_set_nat)

lemma nth_list_update_same [simp]:
  "i < length xs \<Longrightarrow> xs[i := x] ! j = (if i = j then x else xs ! j)"
  by (simp add: nth_list_update)

subsection \<open>Simulation\<close>

text \<open>
  Running a list of operations collects their outcomes. A component whose every operation,
  under its invariant, has the outcome and the abstract effect of a specification produces the
  same outcomes as the specification on every sequence of operations.
\<close>

fun run :: "('op \<Rightarrow> 's \<Rightarrow> 'out \<times> 's) \<Rightarrow> 'op list \<Rightarrow> 's \<Rightarrow> 'out list \<times> 's" where
  "run step [] s = ([], s)"
| "run step (op # ops) s =
     (let (out, s1) = step op s; (outs, s2) = run step ops s1 in (out # outs, s2))"

lemma length_run: "length (fst (run step ops s)) = length ops"
  by (induction ops arbitrary: s) (simp_all add: Let_def split_beta)

lemma run_append:
  "run step (xs @ ys) s =
     (let (o1, s1) = run step xs s; (o2, s2) = run step ys s1 in (o1 @ o2, s2))"
  by (induction xs arbitrary: s) (auto simp: Let_def split: prod.splits)

locale simulation =
  fixes step :: "'op \<Rightarrow> 's \<Rightarrow> 'out \<times> 's"
    and spec :: "'op \<Rightarrow> 'a \<Rightarrow> 'out \<times> 'a"
    and abs :: "'s \<Rightarrow> 'a"
    and inv :: "'s \<Rightarrow> bool"
  assumes step_inv: "inv s \<Longrightarrow> step op s = (out, s') \<Longrightarrow> inv s'"
    and step_sim: "inv s \<Longrightarrow> step op s = (out, s') \<Longrightarrow> spec op (abs s) = (out, abs s')"
begin

lemma run_inv: "inv s \<Longrightarrow> inv (snd (run step ops s))"
proof (induction ops arbitrary: s)
  case (Cons op ops)
  then show ?case
    using step_inv [OF Cons.prems prod.collapse [symmetric], of op] by (simp add: Let_def split_beta)
qed simp

lemma run_sim: "inv s \<Longrightarrow> run spec ops (abs s) = map_prod id abs (run step ops s)"
proof (induction ops arbitrary: s)
  case (Cons op ops)
  obtain out s1 where st: "step op s = (out, s1)" by fastforce
  with Cons show ?case
    using step_inv [OF Cons.prems st] step_sim [OF Cons.prems st]
    by (auto simp: Let_def split: prod.splits)
qed simp

end

text \<open>
  The same for step relations: when every step of the implementation from a state satisfying the
  invariant is a step of the specification, so is every run.
\<close>

locale relational_refinement =
  fixes step :: "'s \<Rightarrow> 's \<Rightarrow> bool"
    and spec :: "'a \<Rightarrow> 'a \<Rightarrow> bool"
    and abs :: "'s \<Rightarrow> 'a"
    and inv :: "'s \<Rightarrow> bool"
  assumes step_keeps: "inv s \<Longrightarrow> step s s' \<Longrightarrow> inv s'"
    and step_refines: "inv s \<Longrightarrow> step s s' \<Longrightarrow> spec (abs s) (abs s')"
begin

lemma run_keeps: "rtranclp step s s' \<Longrightarrow> inv s \<Longrightarrow> inv s'"
  by (induction rule: rtranclp_induct) (auto intro: step_keeps)

lemma run_refines: "rtranclp step s s' \<Longrightarrow> inv s \<Longrightarrow> rtranclp spec (abs s) (abs s')"
proof (induction rule: rtranclp_induct)
  case (step s1 s2)
  then show ?case using step_refines [OF run_keeps [OF step.hyps(1) step.prems]] by (meson rtranclp.rtrancl_into_rtrancl)
qed simp

lemma run_monotone:
  assumes "\<And>a b. spec a b \<Longrightarrow> le (f a) (f b)" "\<And>x. le x x" "\<And>x y z. le x y \<Longrightarrow> le y z \<Longrightarrow> le x z"
    and "rtranclp step s s'" "inv s"
  shows "le (f (abs s)) (f (abs s'))"
  using run_refines [OF assms(4,5)]
proof (induction rule: rtranclp_induct)
  case base
  show ?case by (rule assms(2))
next
  case (step a b)
  then show ?case using assms(1) [OF step.hyps(2)] assms(3) by blast
qed

end

subsection \<open>Words\<close>

lemma of_nat_eqI: "unat w = n \<Longrightarrow> w = of_nat n" for w :: "'a::len word"
  by (auto simp: of_nat_unat)

lemma sint_eq_uint_minus:
  "sint w = uint w - 2 ^ LENGTH('a) * of_bool (bit w (LENGTH('a) - 1))" for w :: "'a::len word"
proof -
  have "Suc (LENGTH('a) - Suc 0) = LENGTH('a)" by simp
  moreover have "take_bit LENGTH('a) (uint w) = uint w"
    by (rule take_bit_int_eq_self) auto
  ultimately show ?thesis
    by (simp add: sint_uint signed_take_bit_eq_take_bit_minus bit_uint_iff
      del: Suc_pred)
qed

lemma sint_neg_iff: "sint w < 0 \<longleftrightarrow> bit w (LENGTH('a) - 1)" for w :: "'a::len word"
  by (simp flip: bit_last_iff)

lemma bit_last_iff_uint: "bit w (LENGTH('a) - 1) \<longleftrightarrow> 2 ^ (LENGTH('a) - 1) \<le> uint w"
  for w :: "'a::len word"
proof -
  have "(2 :: int) ^ LENGTH('a) = 2 * 2 ^ (LENGTH('a) - 1)"
    by (metis len_not_eq_0 power_eq_if)
  then show ?thesis
    using sint_eq_uint_minus [of w] sint_ge [of w] sint_lt [of w]
    by (cases "bit w (LENGTH('a) - 1)") auto
qed

lemma sint_cases:
  "sint w = (if uint w < 2 ^ (LENGTH('a) - 1) then uint w else uint w - 2 ^ LENGTH('a))"
  for w :: "'a::len word"
  using sint_eq_uint_minus [of w] bit_last_iff_uint [of w] by auto

lemma unat_minus_one_word: "unat (-1 :: 'a::len word) = 2 ^ LENGTH('a) - 1"
  by (simp add: unsigned_minus_1_eq_mask mask_eq_exp_minus_1)

lemma unat_minus_word: "unat (- w) = (if w = 0 then 0 else 2 ^ LENGTH('a) - unat w)"
  for w :: "'a::len word"
  using unat_sub_if_size [of 0 w] by (auto simp: word_size unat_eq_zero)

lemma unat_not_word: "unat (NOT w) = 2 ^ LENGTH('a) - 1 - unat w" for w :: "'a::len word"
proof -
  have "NOT w = -1 - w" by (simp add: not_eq_complement)
  moreover have "unat w \<le> unat (-1 :: 'a word)"
    by (simp add: word_le_nat_alt [symmetric])
  ultimately show ?thesis
    by (simp add: unat_sub_if_size unat_minus_one_word)
qed

end
