(* ===== verification/Bit_Utils.thy ===== *)
theory Bit_Utils
  imports Prelude
begin

text \<open>
  The bit-manipulation macros and inline functions of \<^verbatim>\<open>src/x86sim/globals.h\<close> that every
  other component uses: field extraction, sign extension, alignment, bit test and set,
  rotates, bit scans and modular index arithmetic. A C++ shift by at least the width of its
  operand is undefined; the lemmas below that depend on it carry the bound.
\<close>

subsection \<open>Fields and masks\<close>

definition bitmask :: "nat \<Rightarrow> W64" where
  [cc_defs]: "bitmask l = (if l = 64 then -1 else push_bit l 1 - 1)"

definition bit_macro :: "W64 \<Rightarrow> nat \<Rightarrow> W64" where
  [cc_defs]: "bit_macro x n = drop_bit n x AND 1"

definition bits :: "W64 \<Rightarrow> nat \<Rightarrow> nat \<Rightarrow> W64" where
  [cc_defs]: "bits x i l = drop_bit i x AND bitmask l"

definition lowbits :: "W64 \<Rightarrow> nat \<Rightarrow> W64" where
  [cc_defs]: "lowbits x l = bits x 0 l"

definition signext64 :: "W64 \<Rightarrow> nat \<Rightarrow> W64" where
  [cc_defs]: "signext64 x i = signed_drop_bit (64 - i) (push_bit (64 - i) x)"

definition bitsext64 :: "W64 \<Rightarrow> nat \<Rightarrow> nat \<Rightarrow> W64" where
  [cc_defs]: "bitsext64 x i l = signext64 (bits x i l) l"

definition fits_in_signed_nbit :: "W64 \<Rightarrow> nat \<Rightarrow> bool" where
  [cc_defs]: "fits_in_signed_nbit v b \<longleftrightarrow>
     sint (- push_bit (b - 1) (1 :: W64)) \<le> sint v \<and> sint v \<le> sint (push_bit (b - 1) (1 :: W64) - 1)"

definition mux64 :: "W64 \<Rightarrow> W64 \<Rightarrow> W64 \<Rightarrow> W64" where
  [cc_defs]: "mux64 sel v0 v1 = (sel AND v1) OR (NOT sel AND v0)"

definition HI32 :: "W64 \<Rightarrow> W32" where
  [cc_defs]: "HI32 x = ucast (drop_bit 32 x)"

definition LO32 :: "W64 \<Rightarrow> W32" where
  [cc_defs]: "LO32 x = ucast (x AND 0xffffffff)"

definition CONCAT64 :: "W32 \<Rightarrow> W32 \<Rightarrow> W64" where
  [cc_defs]: "CONCAT64 hi lo = push_bit 32 (ucast hi) + (ucast lo AND 0xffffffff)"

subsection \<open>Alignment\<close>

definition floor_align :: "'a::len word \<Rightarrow> 'a word \<Rightarrow> 'a word" where
  [cc_defs]: "floor_align x a = x AND NOT (a - 1)"

definition ceil_align :: "'a::len word \<Rightarrow> 'a word \<Rightarrow> 'a word" where
  [cc_defs]: "ceil_align x a = (x + (a - 1)) AND NOT (a - 1)"

definition mask_align :: "'a::len word \<Rightarrow> 'a word \<Rightarrow> 'a word" where
  [cc_defs]: "mask_align x a = x AND (a - 1)"

definition aligned :: "W64 \<Rightarrow> W64 \<Rightarrow> bool" where
  [cc_defs]: "aligned address sz \<longleftrightarrow> address AND (sz - 1) = 0"

subsection \<open>Bit test and set, rotates\<close>

definition x86_bt :: "'a::len word \<Rightarrow> 'a word \<Rightarrow> bool" where
  [cc_defs]: "x86_bt r b \<longleftrightarrow> drop_bit (unat b mod LENGTH('a)) r AND 1 \<noteq> 0"

definition x86_bts :: "'a::len word \<Rightarrow> 'a word \<Rightarrow> W64" where
  [cc_defs]: "x86_bts r b = ucast (r OR push_bit (unat b mod LENGTH('a)) 1)"

definition x86_btr :: "'a::len word \<Rightarrow> 'a word \<Rightarrow> W64" where
  [cc_defs]: "x86_btr r b = ucast (r AND NOT (push_bit (unat b mod LENGTH('a)) 1))"

definition x86_btc :: "'a::len word \<Rightarrow> 'a word \<Rightarrow> W64" where
  [cc_defs]: "x86_btc r b = ucast (r XOR push_bit (unat b mod LENGTH('a)) 1)"

definition x86_test_bts :: "'a::len word \<Rightarrow> 'a word \<Rightarrow> bool \<times> 'a word" where
  [cc_defs]: "x86_test_bts r b = (x86_bt r b, ucast (x86_bts r b))"

definition x86_test_btr :: "'a::len word \<Rightarrow> 'a word \<Rightarrow> bool \<times> 'a word" where
  [cc_defs]: "x86_test_btr r b = (x86_bt r b, ucast (x86_btr r b))"

definition x86_test_btc :: "'a::len word \<Rightarrow> 'a word \<Rightarrow> bool \<times> 'a word" where
  [cc_defs]: "x86_test_btc r b = (x86_bt r b, ucast (x86_btc r b))"

definition x86_ror :: "'a::len word \<Rightarrow> nat \<Rightarrow> 'a word" where
  [cc_defs]: "x86_ror r n = word_rotr n r"

definition x86_rol :: "'a::len word \<Rightarrow> nat \<Rightarrow> 'a word" where
  [cc_defs]: "x86_rol r n = word_rotl n r"

subsection \<open>Bit scans\<close>

definition countr_zero :: "'a::len word \<Rightarrow> nat" where
  [cc_defs]: "countr_zero n = length (takeWhile (\<lambda>i. \<not> bit n i) [0..<LENGTH('a)])"

definition countl_zero :: "'a::len word \<Rightarrow> nat" where
  [cc_defs]: "countl_zero n = length (takeWhile (\<lambda>i. \<not> bit n i) (rev [0..<LENGTH('a)]))"

definition lsbindex64 :: "W64 \<Rightarrow> nat" where
  [cc_defs]: "lsbindex64 n = (if n \<noteq> 0 then countr_zero n else 0)"

definition lsbindexi64 :: "W64 \<Rightarrow> W32" where
  [cc_defs]: "lsbindexi64 n = (let r = of_nat (lsbindex64 n) in if n \<noteq> 0 then r else -1)"

definition msbindex64 :: "W64 \<Rightarrow> nat" where
  [cc_defs]: "msbindex64 n = (if n \<noteq> 0 then (64 - countl_zero n) - 1 else 0)"

definition msbindexi64 :: "W64 \<Rightarrow> W32" where
  [cc_defs]: "msbindexi64 n = (let r = of_nat (msbindex64 n) in if n \<noteq> 0 then r else -1)"

subsection \<open>Index arithmetic and static logarithms\<close>

definition add_index_modulo :: "int \<Rightarrow> int \<Rightarrow> int \<Rightarrow> int" where
  [cc_defs]: "add_index_modulo index increment bufsize =
     (let index1 = index + increment;
          index2 = (if index1 < 0 then index1 + bufsize else index1);
          index3 = (if bufsize \<le> index2 then index2 - bufsize else index2)
      in index3)"

fun lg :: "nat \<Rightarrow> nat" where
  "lg n = (if n \<le> 1 then 0 else 1 + lg (n div 2))"

declare lg.simps [simp del]

definition foldbits_rounds :: "nat \<Rightarrow> nat \<Rightarrow> nat" where
  "foldbits_rounds B N = B div N + (if B mod N \<noteq> 0 then 1 else 0)"

fun foldbits_loop :: "nat \<Rightarrow> nat \<Rightarrow> W64 \<Rightarrow> W64 \<Rightarrow> W64" where
  "foldbits_loop 0 N a z = z"
| "foldbits_loop (Suc k) N a z = foldbits_loop k N (drop_bit N a) (z XOR a)"

definition foldbits :: "nat \<Rightarrow> W64 \<Rightarrow> W64" where
  "foldbits N a = (if N = 0 then 0 else lowbits (foldbits_loop (foldbits_rounds 64 N) N a 0) N)"

subsection \<open>Fields and masks: lemmas\<close>

lemma bitmask_eq_mask: "l \<le> 64 \<Longrightarrow> bitmask l = mask l"
  by (cases "l = 64") (auto intro!: bit_word_eqI simp: bitmask_def bit_simps push_bit_eq_mult
    simp flip: mask_eq_exp_minus_1)

lemma bits_eq_take_drop: "l \<le> 64 \<Longrightarrow> bits x i l = take_bit l (drop_bit i x)"
  by (simp add: bits_def bitmask_eq_mask take_bit_eq_mask)

lemma lowbits_eq_take_bit: "l \<le> 64 \<Longrightarrow> lowbits x l = take_bit l x"
  by (simp add: lowbits_def bits_eq_take_drop)

lemma unat_bits_less: "l < 64 \<Longrightarrow> unat (bits x i l) < 2 ^ l"
  by (simp add: bits_eq_take_drop unsigned_take_bit_eq)

lemma unat_lowbits: "l \<le> 64 \<Longrightarrow> unat (lowbits x l) = unat x mod 2 ^ l"
  by (simp add: lowbits_eq_take_bit unsigned_take_bit_eq flip: take_bit_eq_mod)

lemma bit_signext64:
  assumes "0 < i" "i \<le> 64" "n < 64"
  shows "bit (signext64 x i) n \<longleftrightarrow> bit x (if n < i then n else i - 1)"
  using assms by (auto simp: signext64_def bit_signed_drop_bit_iff bit_push_bit_iff)

lemma sint_signext64:
  assumes "0 < i" "i \<le> 64"
  shows "sint (signext64 x i) = signed_take_bit (i - 1) (uint x)"
proof (rule bit_eqI)
  fix n
  have *: "bit (sint (signext64 x i)) n = bit (signext64 x i) (min n 63)"
    by (auto simp: bit_sint_iff not_less min_def dest: bit_imp_le_length)
  from assms obtain j where j: "i = Suc j" "j < 64"
    by (cases i) auto
  then show "bit (sint (signext64 x i)) n = bit (signed_take_bit (i - 1) (uint x)) n"
    unfolding * using assms
    by (cases "j = 63")
      (auto simp: bit_signext64 bit_signed_take_bit_iff bit_uint_iff min_def less_Suc_eq)
qed

lemma mux64_select: "mux64 0 v0 v1 = v0" "mux64 (-1) v0 v1 = v1"
  by (simp_all add: mux64_def)

lemma mask_32: "0xffffffff = (mask 32 :: W64)"
  by (simp add: mask_eq_exp_minus_1)

lemma CONCAT64_HI_LO: "CONCAT64 (HI32 x) (LO32 x) = x"
proof -
  have hi: "push_bit 32 (ucast (HI32 x)) = push_bit 32 (drop_bit 32 x)"
    and lo: "ucast (LO32 x) AND 0xffffffff = take_bit 32 x"
    unfolding mask_32 take_bit_eq_mask
    by (auto intro!: bit_word_eqI simp: HI32_def LO32_def mask_32 bit_simps)
  have "CONCAT64 (HI32 x) (LO32 x) = push_bit 32 (drop_bit 32 x) + take_bit 32 x"
    by (simp only: CONCAT64_def hi lo)
  also have "\<dots> = x"
    by (simp add: bits_ident)
  finally show ?thesis .
qed

subsection \<open>Alignment: lemmas\<close>

lemma floor_align_pow2: "floor_align x (2 ^ k) = push_bit k (drop_bit k x)"
  by (auto intro!: bit_word_eqI simp: floor_align_def bit_simps simp flip: mask_eq_exp_minus_1)

lemma mask_align_pow2: "mask_align x (2 ^ k) = take_bit k x"
  by (simp add: mask_align_def take_bit_eq_mask flip: mask_eq_exp_minus_1)

lemma floor_mask_align: "floor_align x (2 ^ k) + mask_align x (2 ^ k) = x"
  by (simp add: floor_align_pow2 mask_align_pow2 bits_ident)

lemma unat_floor_align:
  fixes x :: "'a::len word"
  assumes "k < LENGTH('a)"
  shows "unat (floor_align x (2 ^ k)) = unat x - unat x mod 2 ^ k"
proof -
  have "unat (floor_align x (2 ^ k)) = unat x div 2 ^ k * 2 ^ k"
    unfolding floor_align_pow2 unsigned_push_bit_eq unat_drop_bit_eq
    by (simp add: push_bit_eq_mult drop_bit_eq_div take_bit_eq_mod)
      (metis mod_less order_le_less_trans div_times_less_eq_dividend unsigned_less)
  then show ?thesis
    by (simp add: minus_mod_eq_div_mult)
qed

lemma floor_align_le: "k < LENGTH('a) \<Longrightarrow> floor_align (x :: 'a::len word) (2 ^ k) \<le> x"
  by (simp add: word_le_nat_alt unat_floor_align)

lemma floor_align_idem: "floor_align (floor_align x a) a = floor_align x a"
  by (simp add: floor_align_def and.assoc)

subsection \<open>Bit scans: lemmas\<close>

lemma countr_zero_less: "n \<noteq> 0 \<Longrightarrow> countr_zero (n :: 'a::len word) < LENGTH('a)"
proof -
  assume "n \<noteq> 0"
  then obtain i where i: "i < LENGTH('a)" "bit n i"
    by (auto simp: bit_eq_iff)
  have "\<not> (\<forall>j \<in> set [0..<LENGTH('a)]. \<not> bit n j)"
    using i by auto
  then have "takeWhile (\<lambda>i. \<not> bit n i) [0..<LENGTH('a)] \<noteq> [0..<LENGTH('a)]"
    by (metis takeWhile_eq_all_conv)
  then show ?thesis
    unfolding countr_zero_def
    by (metis length_takeWhile_le le_neq_implies_less length_upt diff_zero takeWhile_eq_take take_all order_refl)
qed

lemma countr_zero_set:
  fixes n :: "'a::len word"
  shows "n \<noteq> 0 \<Longrightarrow> bit n (countr_zero n)"
  using nth_length_takeWhile [of "\<lambda>i. \<not> bit n i" "[0..<LENGTH('a)]"] countr_zero_less [of n]
  by (simp add: countr_zero_def)

lemma countr_zero_below:
  fixes n :: "'a::len word"
  assumes i: "i < countr_zero n"
  shows "\<not> bit n i"
proof -
  from i have "takeWhile (\<lambda>i. \<not> bit n i) [0..<LENGTH('a)] ! i \<in> {j. \<not> bit n j}"
    unfolding countr_zero_def using set_takeWhileD nth_mem by fastforce
  moreover have "i < LENGTH('a)"
    using i length_takeWhile_le [of "\<lambda>i. \<not> bit n i" "[0..<LENGTH('a)]"] by (simp add: countr_zero_def)
  ultimately show ?thesis
    using i takeWhile_nth [of i "\<lambda>i. \<not> bit n i" "[0..<LENGTH('a)]"] by (simp add: countr_zero_def)
qed

subsection \<open>Index arithmetic: lemmas\<close>

lemma add_index_modulo_mod:
  assumes "0 \<le> i" "i < n" "- n \<le> d" "d \<le> n"
  shows "add_index_modulo i d n = (i + d) mod n"
proof -
  consider "i + d < 0" | "0 \<le> i + d" "i + d < n" | "n \<le> i + d" by linarith
  then show ?thesis
  proof cases
    case 1
    then have "(i + d) mod n = (i + d + n) mod n" by simp
    also have "\<dots> = i + d + n"
      using 1 assms by (intro mod_pos_pos_trivial) auto
    finally show ?thesis using 1 assms by (simp add: add_index_modulo_def)
  next
    case 2
    with assms show ?thesis by (simp add: add_index_modulo_def mod_pos_pos_trivial)
  next
    case 3
    then have "(i + d) mod n = (i + d - n) mod n" by simp
    also have "\<dots> = i + d - n"
      using 3 assms by (intro mod_pos_pos_trivial) auto
    finally show ?thesis using 3 assms by (simp add: add_index_modulo_def)
  qed
qed

lemma add_index_modulo_range:
  "0 \<le> i \<Longrightarrow> i < n \<Longrightarrow> - n \<le> d \<Longrightarrow> d \<le> n \<Longrightarrow>
     0 \<le> add_index_modulo i d n \<and> add_index_modulo i d n < n"
  by (simp add: add_index_modulo_mod)

lemma lg_pow2: "lg (2 ^ k) = k"
proof (induction k)
  case 0
  show ?case by (subst lg.simps) simp
next
  case (Suc k)
  moreover have "1 < (2 :: nat) ^ Suc k"
    by (rule one_less_power) auto
  ultimately show ?case by (subst lg.simps) simp
qed

end
