(* ===== verification/Long_Div.thy ===== *)
theory Long_Div
  imports Bit_Utils "HOL-Library.Signed_Division"
begin

text \<open>
  The non-excepting x86 divide of \<^verbatim>\<open>src/x86sim/superstl.cpp\<close>: the 128-by-64 bit
  shift-and-subtract loop \<^verbatim>\<open>long_div\<close> on pairs of 64-bit words, its signed wrapper
  \<^verbatim>\<open>long_idiv\<close>, and the four \<^verbatim>\<open>div_rem\<close> / \<^verbatim>\<open>div_rem_s\<close> instances that the divide
  micro-operations call. The result of \<^verbatim>\<open>div_rem\<close> is the triple of its return value and the
  two reference parameters. The host's signed division traps on \<open>INT64_MIN / -1\<close>; this is the
  \<open>Inl\<close> branch of the narrow signed divide.
\<close>

subsection \<open>128-bit values as pairs\<close>

record W128 =
  lo128 :: W64
  hi128 :: W64

definition long_neg :: "W128 \<Rightarrow> W128" where
  "long_neg n =
     (let t = lo128 n;
          h = (if t - 1 > t then hi128 n - 1 else hi128 n)
      in \<lparr>lo128 = - lo128 n, hi128 = NOT h\<rparr>)"

definition long_shl :: "W128 \<Rightarrow> W128" where
  "long_shl a =
     (let c = drop_bit 63 (lo128 a)
      in \<lparr>lo128 = push_bit 1 (lo128 a), hi128 = push_bit 1 (hi128 a) OR c\<rparr>)"

definition long_shr :: "W128 \<Rightarrow> W128" where
  "long_shr a =
     (let c = push_bit 63 (hi128 a)
      in \<lparr>lo128 = drop_bit 1 (lo128 a) OR c, hi128 = drop_bit 1 (hi128 a)\<rparr>)"

definition long_sub :: "W128 \<Rightarrow> W128 \<Rightarrow> W128 \<times> bool" where
  "long_sub a b =
     (let l = lo128 a - lo128 b;
          c = (if l > lo128 a then 1 else 0);
          h = hi128 a - (hi128 b + c)
      in (\<lparr>lo128 = l, hi128 = h\<rparr>, h > hi128 a))"

definition long_le :: "W128 \<Rightarrow> W128 \<Rightarrow> bool" where
  "long_le a b =
     (if hi128 a = hi128 b then lo128 a \<le> lo128 b else hi128 a \<le> hi128 b)"

subsection \<open>The division loop\<close>

text \<open>The first loop shifts the divisor up, the second shifts it down again and subtracts.\<close>

function long_div_up :: "W128 \<Rightarrow> W128 \<Rightarrow> nat \<Rightarrow> W128 \<times> nat" where
  "long_div_up d acc n =
     (if long_le d acc \<and> n < 128 then long_div_up (long_shl d) acc (Suc n) else (d, n))"
  by pat_completeness auto
termination
  by (relation "measure (\<lambda>(d, acc, n). 128 - n)") auto

declare long_div_up.simps [simp del]

fun long_div_down :: "nat \<Rightarrow> W128 \<Rightarrow> W128 \<Rightarrow> W128 \<Rightarrow> W128 \<times> W128" where
  "long_div_down 0 d acc q = (q, acc)"
| "long_div_down (Suc n) d acc q =
     (let d1 = long_shr d;
          q1 = long_shl q;
          (acc1, c) = long_sub acc d1
      in if c then long_div_down n d1 acc q1
         else long_div_down n d1 acc1 (q1\<lparr>lo128 := lo128 q1 + 1\<rparr>))"

definition long_div :: "W128 \<Rightarrow> W64 \<Rightarrow> W128 \<times> W64" where
  "long_div dividend divisor =
     (let (d, n) = long_div_up \<lparr>lo128 = divisor, hi128 = 0\<rparr> dividend 0;
          (q, acc) = long_div_down n d dividend \<lparr>lo128 = 0, hi128 = 0\<rparr>
      in (q, lo128 acc))"

definition long_idiv :: "W128 \<Rightarrow> W64 \<Rightarrow> W128 \<times> W64" where
  "long_idiv dividend divisor =
     (let dividend_was_negative = sint (hi128 dividend) < 0;
          divisor_was_negative = sint divisor < 0;
          temp = (if dividend_was_negative then long_neg dividend else dividend);
          divisor' = (if divisor_was_negative then - divisor else divisor);
          (quotient, remainder) = long_div temp divisor';
          quotient' = (if dividend_was_negative \<noteq> divisor_was_negative then long_neg quotient
                       else quotient);
          remainder' = (if dividend_was_negative then - remainder else remainder)
      in (quotient', remainder'))"

subsection \<open>Divide and remainder\<close>

definition div_rem_W64 :: "W64 \<Rightarrow> W64 \<Rightarrow> W64 \<Rightarrow> bool \<times> W64 \<times> W64" where
  "div_rem_W64 dividend_hi dividend_lo divisor =
     (if divisor = 0 then (False, 0, 0)
      else let (quotient, remainder) = long_div \<lparr>lo128 = dividend_lo, hi128 = dividend_hi\<rparr> divisor
           in if hi128 quotient \<noteq> 0 then (False, 0, 0)
              else (True, lo128 quotient, remainder))"

definition div_rem_s_W64 :: "W64 \<Rightarrow> W64 \<Rightarrow> W64 \<Rightarrow> bool \<times> W64 \<times> W64" where
  "div_rem_s_W64 dividend_hi dividend_lo divisor =
     (if divisor = 0 then (False, 0, 0)
      else if divisor = -1 \<and> dividend_hi = 0x8000000000000000 \<and> dividend_lo = 0 then (False, 0, 0)
      else let (quotient, remainder) = long_idiv \<lparr>lo128 = dividend_lo, hi128 = dividend_hi\<rparr> divisor
           in if (lo128 quotient AND 0x8000000000000000 = 0 \<and> hi128 quotient \<noteq> 0)
                 \<or> (lo128 quotient AND 0x8000000000000000 \<noteq> 0 \<and> hi128 quotient \<noteq> 0xffffffffffffffff)
              then (False, 0, 0)
              else (True, lo128 quotient, remainder))"

definition div_rem :: "'a::len word \<Rightarrow> 'a word \<Rightarrow> 'a word \<Rightarrow> bool \<times> 'a word \<times> 'a word" where
  "div_rem dividend_hi dividend_lo divisor =
     (let dividend = push_bit LENGTH('a) (ucast dividend_hi :: W64) + ucast dividend_lo
      in if divisor = 0 then (False, 0, 0)
         else let quotient = dividend div ucast divisor;
                  remainder = ucast (dividend mod ucast divisor);
                  quotientlo = ucast quotient
              in if quotient \<noteq> ucast quotientlo then (False, 0, 0)
                 else (True, quotientlo, remainder))"

datatype host_fault = HostDivideOverflow

definition div_rem_s ::
  "'a::len word \<Rightarrow> 'a word \<Rightarrow> 'a word \<Rightarrow> host_fault + bool \<times> 'a word \<times> 'a word" where
  "div_rem_s dividend_hi dividend_lo udivisor =
     (let B = LENGTH('a);
          dividend = push_bit B (signext64 (ucast dividend_hi) B) + ucast dividend_lo;
          divisor = signext64 (ucast udivisor) B
      in if divisor = 0 then Inr (False, 0, 0)
         else if dividend = signext64 (push_bit (B * 2 - 1) 1) (B * 2) \<and> divisor = bitmask B
         then Inr (False, 0, 0)
         else if sint dividend = - (2 ^ 63) \<and> sint divisor = -1 then Inl HostDivideOverflow
         else let quotient = word_of_int (sint dividend sdiv sint divisor) :: W64;
                  remainder = word_of_int (sint dividend smod sint divisor);
                  quotientlo = ucast quotient
              in if quotient \<noteq> signext64 (ucast quotientlo) B then Inr (False, 0, 0)
                 else Inr (True, quotientlo, remainder))"

subsection \<open>Reading a pair as a number\<close>

definition val128 :: "W128 \<Rightarrow> nat" where
  "val128 a = unat (hi128 a) * 2 ^ 64 + unat (lo128 a)"

definition sval128 :: "W128 \<Rightarrow> int" where
  "sval128 a = sint (hi128 a) * 2 ^ 64 + uint (lo128 a)"

lemma unat_less_64: "unat (x :: W64) < 18446744073709551616"
  using unsigned_less [of x] by simp

lemma val128_less: "val128 a < 2 ^ 128"
proof -
  have "h * 18446744073709551616 + l < 340282366920938463463374607431768211456"
    if "h < 18446744073709551616" "l < 18446744073709551616" for h l :: nat
    using that by linarith
  from this [OF unat_less_64 unat_less_64] show ?thesis
    by (simp add: val128_def)
qed

lemma val128_inject: "val128 a = val128 b \<longleftrightarrow> lo128 a = lo128 b \<and> hi128 a = hi128 b"
proof
  assume "val128 a = val128 b"
  then have "val128 a mod 2 ^ 64 = val128 b mod 2 ^ 64" "val128 a div 2 ^ 64 = val128 b div 2 ^ 64"
    by simp_all
  then show "lo128 a = lo128 b \<and> hi128 a = hi128 b"
    using unat_less_64 by (simp add: val128_def word_unat_eq_iff)
qed (simp add: val128_def)

lemma long_le_val: "long_le a b \<longleftrightarrow> val128 a \<le> val128 b"
proof -
  have "(if h = h' then l \<le> l' else h \<le> h') \<longleftrightarrow>
      h * 18446744073709551616 + l \<le> h' * 18446744073709551616 + l'"
    if "l < 18446744073709551616" "l' < 18446744073709551616" for h h' l l' :: nat
    using that by auto
  from this [OF unat_less_64 unat_less_64, of "unat (hi128 a)" "unat (hi128 b)" "lo128 a" "lo128 b"] show ?thesis
    unfolding long_le_def val128_def word_le_nat_alt word_unat_eq_iff by simp
qed

lemma unat_push_bit: "unat (push_bit n x) = unat x * 2 ^ n mod 2 ^ LENGTH('a)"
  for x :: "'a::len word"
  unfolding unsigned_push_bit_eq by (simp add: push_bit_eq_mult take_bit_eq_mod)

lemma unat_drop_bit: "unat (drop_bit n x) = unat x div 2 ^ n" for x :: "'a::len word"
  unfolding unat_drop_bit_eq by (simp add: drop_bit_eq_div)

lemma unat_or_disjoint:
  fixes x y :: "'a::len word"
  assumes "x AND y = 0"
  shows "unat (x OR y) = unat x + unat y"
proof -
  have "unat x AND unat y = 0"
    using assms by (metis unsigned_and_eq unsigned_0)
  then show ?thesis
    by (simp add: unsigned_or_eq disjunctive_add_eq_or flip: disjunctive_add_eq_or)
qed

definition cat128 :: "W128 \<Rightarrow> 128 word" where
  "cat128 a = push_bit 64 (ucast (hi128 a)) OR ucast (lo128 a)"

lemma unat_ucast_up: "unat (ucast x :: 'b::len word) = unat x"
  if "LENGTH('a) \<le> LENGTH('b)" for x :: "'a::len word"
proof -
  have "unat x < 2 ^ LENGTH('b)"
    by (rule less_le_trans [OF unsigned_less power_increasing [OF that]]) simp
  then show ?thesis
    by (simp add: unsigned_ucast_eq take_bit_nat_eq_self)
qed

lemma unat_cat128: "unat (cat128 a) = val128 a"
proof -
  have "push_bit 64 (ucast (hi128 a) :: 128 word) AND ucast (lo128 a) = 0"
    by (rule bit_word_eqI)
      (simp only: bit_and_iff bit_push_bit_iff bit_ucast_iff, auto dest: bit_imp_le_length)
  moreover have "unat (hi128 a) * 2 ^ 64 < 2 ^ 128"
    using unat_less_64 [of "hi128 a"] by simp
  moreover have "unat (ucast x :: 128 word) = unat x" for x :: W64
    by (rule unat_ucast_up) simp
  ultimately show ?thesis
    unfolding cat128_def val128_def
    by (simp only: unat_or_disjoint unat_push_bit) simp
qed

lemma bit_cat128:
  "bit (cat128 a) n \<longleftrightarrow> (if n < 64 then bit (lo128 a) n else bit (hi128 a) (n - 64))"
  by (auto simp: cat128_def bit_or_iff bit_push_bit_iff bit_ucast_iff dest: bit_imp_le_length)

lemma val128_shl: "val128 (long_shl a) = 2 * val128 a mod 2 ^ 128"
proof -
  have "cat128 (long_shl a) = push_bit 1 (cat128 a)"
  proof (rule bit_word_eqI)
    fix n assume "n < LENGTH(128)"
    then consider "n = 0" | "0 < n" "n < 64" | "n = 64" | "64 < n" "n < 128" by fastforce
    then show "bit (cat128 (long_shl a)) n = bit (push_bit 1 (cat128 a)) n"
      unfolding long_shl_def Let_def bit_push_bit_iff bit_cat128 W128.simps bit_or_iff
        bit_drop_bit_eq
      by cases (auto simp: diff_right_commute dest: bit_imp_le_length)
  qed
  then have "val128 (long_shl a) = unat (push_bit 1 (cat128 a))"
    by (simp add: unat_cat128 [symmetric])
  then show ?thesis
    by (simp only: unat_push_bit unat_cat128) (simp add: mult.commute)
qed

lemma val128_shr: "val128 (long_shr a) = val128 a div 2"
proof -
  have "cat128 (long_shr a) = drop_bit 1 (cat128 a)"
  proof (rule bit_word_eqI)
    fix n assume "n < LENGTH(128)"
    then consider "n < 63" | "n = 63" | "63 < n" "n < 127" | "n = 127" by fastforce
    then show "bit (cat128 (long_shr a)) n = bit (drop_bit 1 (cat128 a)) n"
      by cases (auto simp: bit_cat128 long_shr_def Let_def bit_or_iff bit_push_bit_iff
        bit_drop_bit_eq Suc_diff_Suc [symmetric] dest: bit_imp_le_length)
  qed
  then have "val128 (long_shr a) = unat (drop_bit 1 (cat128 a))"
    by (simp add: unat_cat128 [symmetric])
  then show ?thesis
    by (simp only: unat_drop_bit unat_cat128) simp
qed

lemma unat_sub_borrow: "unat (x - y) = (if unat y \<le> unat x then unat x - unat y
    else 2 ^ LENGTH('a) + unat x - unat y)" for x y :: "'a::len word"
  by (simp add: unat_sub_if_size word_size add.commute)

lemma val128_sub:
  assumes "hi128 b \<noteq> -1"
  shows "snd (long_sub a b) \<longleftrightarrow> val128 a < val128 b"
    and "val128 b \<le> val128 a \<Longrightarrow> val128 (fst (long_sub a b)) = val128 a - val128 b"
proof -
  define ah al bh bl where "ah = unat (hi128 a)" "al = unat (lo128 a)"
    "bh = unat (hi128 b)" "bl = unat (lo128 b)"
  note names = this
  have le: "ah < 2 ^ 64" "al < 2 ^ 64" "bh < 2 ^ 64" "bl < 2 ^ 64"
    using unat_less_64 by (simp_all add: names)
  define c where "c = (if al < bl then 1 else 0 :: nat)"
  have c: "(if lo128 a - lo128 b > lo128 a then 1 else 0 :: W64) = of_nat c"
    using le by (auto simp: c_def names word_less_nat_alt unat_sub_borrow)
  have ne: "bh \<noteq> 2 ^ 64 - 1"
    using assms by (auto simp: names word_unat_eq_iff unat_minus_one_word)
  then have hc: "unat (hi128 b + of_nat c) = bh + c"
    using le by (auto simp: names c_def unat_word_ariths)
  have h: "unat (hi128 a - (hi128 b + of_nat c)) =
      (if bh + c \<le> ah then ah - (bh + c) else 2 ^ 64 + ah - (bh + c))"
    by (simp only: unat_sub_borrow hc flip: names) simp
  have l: "unat (lo128 a - lo128 b) = (if bl \<le> al then al - bl else 2 ^ 64 + al - bl)"
    by (simp only: unat_sub_borrow flip: names) simp
  have eq: "long_sub a b = (\<lparr>lo128 = lo128 a - lo128 b, hi128 = hi128 a - (hi128 b + of_nat c)\<rparr>,
      hi128 a < hi128 a - (hi128 b + of_nat c))"
    by (simp only: long_sub_def Let_def c)
  show "snd (long_sub a b) \<longleftrightarrow> val128 a < val128 b"
    unfolding eq val128_def snd_conv word_less_nat_alt h
    using le ne by (simp flip: names) (auto simp: c_def)
  show "val128 (fst (long_sub a b)) = val128 a - val128 b" if "val128 b \<le> val128 a"
    unfolding eq val128_def fst_conv W128.simps h l
    using le that by (simp add: val128_def flip: names) (auto simp: c_def)
qed

lemma val128_incr:
  assumes "even (val128 q)"
  shows "val128 (q\<lparr>lo128 := lo128 q + 1\<rparr>) = Suc (val128 q)"
proof -
  have "even (unat (lo128 q))"
    using assms by (simp add: val128_def)
  then have "unat (lo128 q) \<noteq> 2 ^ 64 - 1"
    by (auto dest: arg_cong [where f = even])
  then have "unat (lo128 q + 1) = Suc (unat (lo128 q))"
    using unat_less_64 [of "lo128 q"] by (simp add: unat_word_ariths)
  then show ?thesis by (simp add: val128_def)
qed

subsection \<open>The loops\<close>

lemma long_div_up_spec:
  assumes "val128 d = D * 2 ^ n mod 2 ^ 128" "n \<le> 128" "long_div_up d acc n = (d', n')"
  shows "val128 d' = D * 2 ^ n' mod 2 ^ 128 \<and> n \<le> n' \<and> n' \<le> 128 \<and>
    (n' < 128 \<longrightarrow> val128 acc < val128 d') \<and>
    (\<forall>j. n \<le> j \<and> j < n' \<longrightarrow> D * 2 ^ j mod 2 ^ 128 \<le> val128 acc)"
  using assms
proof (induction d acc n rule: long_div_up.induct)
  case (1 d acc n)
  show ?case
  proof (cases "long_le d acc \<and> n < 128")
    case True
    have step: "val128 (long_shl d) = D * 2 ^ Suc n mod 2 ^ 128"
      using "1.prems"(1) by (simp add: val128_shl mod_mult_right_eq mult.assoc mult.left_commute)
    have "long_div_up (long_shl d) acc (Suc n) = (d', n')"
      using True "1.prems"(3) by (subst (asm) long_div_up.simps) simp
    moreover have "Suc n \<le> 128" using True by simp
    ultimately have IH: "val128 d' = D * 2 ^ n' mod 2 ^ 128" "Suc n \<le> n'" "n' \<le> 128"
      "n' < 128 \<longrightarrow> val128 acc < val128 d'"
      "\<forall>j. Suc n \<le> j \<and> j < n' \<longrightarrow> D * 2 ^ j mod 2 ^ 128 \<le> val128 acc"
      using "1.IH" [OF True step] by blast+
    have "D * 2 ^ n mod 2 ^ 128 \<le> val128 acc"
      using True "1.prems"(1) by (simp add: long_le_val)
    then have "D * 2 ^ j mod 2 ^ 128 \<le> val128 acc" if "n \<le> j" "j < n'" for j
      using IH(5) that by (cases "j = n") auto
    with IH show ?thesis by auto
  next
    case False
    then have "d' = d" "n' = n"
      using "1.prems"(3) by (auto simp: long_div_up.simps [of d acc n] split: if_splits)
    with False "1.prems" show ?thesis by (auto simp: long_le_val)
  qed
qed

lemma hi_shr_small: "hi128 (long_shr d) \<noteq> -1"
proof
  assume "hi128 (long_shr d) = -1"
  then have "drop_bit 1 (hi128 d) = -1"
    by (simp only: long_shr_def Let_def W128.simps)
  then have "bit (drop_bit 1 (hi128 d)) 63"
    by (simp only:) simp
  then show False
    by (simp add: bit_drop_bit_eq) (auto dest: bit_imp_le_length)
qed

text \<open>One round of the second loop, on the numbers the pairs stand for.\<close>

lemma long_div_down_round:
  obtains (borrow) "val128 acc < val128 d div 2"
      "long_div_down (Suc n) d acc q = long_div_down n (long_shr d) acc (long_shl q)"
  | (fits) acc1 q1 where "val128 d div 2 \<le> val128 acc"
      "val128 acc1 = val128 acc - val128 d div 2"
      "val128 q1 = Suc (2 * val128 q mod 2 ^ 128)"
      "long_div_down (Suc n) d acc q = long_div_down n (long_shr d) acc1 q1"
proof (cases "val128 acc < val128 d div 2")
  case True
  then have "snd (long_sub acc (long_shr d))"
    using val128_sub(1) [OF hi_shr_small] by (simp add: val128_shr)
  with True show thesis
    by (intro borrow) (auto simp: Let_def split: prod.splits)
next
  case False
  then have sub: "\<not> snd (long_sub acc (long_shr d))"
    and val: "val128 (fst (long_sub acc (long_shr d))) = val128 acc - val128 d div 2"
    using val128_sub(1) [OF hi_shr_small, of acc d] val128_sub(2) [OF hi_shr_small, of d acc]
    by (simp_all add: val128_shr)
  have "even (val128 (long_shl q))"
    unfolding val128_shl by (rule dvd_mod) simp_all
  then show thesis
    using False sub val
    by (intro fits [of "fst (long_sub acc (long_shr d))"
          "(long_shl q)\<lparr>lo128 := lo128 (long_shl q) + 1\<rparr>"])
      (auto simp: Let_def val128_incr val128_shl split: prod.splits)
qed

lemma double_no_wrap:
  assumes "Suc v * 2 ^ Suc n \<le> (M :: nat)"
  shows "2 * v mod M = 2 * v"
proof -
  have "Suc v * 2 ^ 1 \<le> Suc v * 2 ^ Suc n"
    by (intro mult_left_mono power_increasing) auto
  with assms show ?thesis by simp
qed

lemma long_div_down_spec:
  assumes "0 < D" "val128 d = D * 2 ^ n" "val128 acc < D * 2 ^ n"
    "Suc (val128 q) * 2 ^ n \<le> 2 ^ 128" "long_div_down n d acc q = (q', acc')"
  shows "val128 q' = val128 q * 2 ^ n + val128 acc div D \<and> val128 acc' = val128 acc mod D"
  using assms
proof (induction n arbitrary: d acc q)
  case 0
  then show ?case by simp
next
  case (Suc n)
  have d1: "val128 (long_shr d) = D * 2 ^ n" and half: "val128 d div 2 = D * 2 ^ n"
    using Suc.prems(2) by (simp_all add: val128_shr)
  note q2 = double_no_wrap [OF Suc.prems(4)]
  from long_div_down_round [of acc d n q] show ?case
  proof cases
    case borrow
    have "val128 (long_shl q) = 2 * val128 q"
      by (simp only: val128_shl q2)
    moreover have "long_div_down n (long_shr d) acc (long_shl q) = (q', acc')"
      using borrow(2) Suc.prems(5) by simp
    ultimately show ?thesis
      using Suc.IH [OF Suc.prems(1) d1, of acc "long_shl q"] borrow(1) Suc.prems(4) half
      by (simp add: algebra_simps)
  next
    case (fits acc1 q1)
    have "long_div_down n (long_shr d) acc1 q1 = (q', acc')"
      using fits(4) Suc.prems(5) by simp
    moreover have acc: "val128 acc = val128 acc1 + D * 2 ^ n"
      using fits(1,2) half by simp
    moreover have "(val128 acc1 + D * 2 ^ n) div D = 2 ^ n + val128 acc1 div D"
      using Suc.prems(1) by simp
    ultimately show ?thesis
      using Suc.IH [OF Suc.prems(1) d1, of acc1 q1] fits(3) q2 Suc.prems(3,4)
      by (simp add: algebra_simps)
  qed
qed

lemma long_div_down_lower:
  assumes "Suc (val128 q) * 2 ^ n \<le> 2 ^ 128" "long_div_down n d acc q = (q', acc')"
  shows "val128 q * 2 ^ n \<le> val128 q'"
  using assms
proof (induction n arbitrary: d acc q)
  case 0
  then show ?case by simp
next
  case (Suc n)
  note q2 = double_no_wrap [OF Suc.prems(1)]
  from long_div_down_round [of acc d n q] show ?case
  proof cases
    case borrow
    have "val128 (long_shl q) = 2 * val128 q"
      by (simp only: val128_shl q2)
    then show ?thesis
      using Suc.IH [of "long_shl q" "long_shr d" acc] borrow(2) Suc.prems by simp
  next
    case (fits acc1 q1)
    then show ?thesis
      using Suc.IH [of q1 "long_shr d" acc1] q2 Suc.prems by simp
  qed
qed

lemma long_div_unwrapped:
  assumes "0 < unat D" "long_div_up \<lparr>lo128 = D, hi128 = 0\<rparr> a 0 = (d, n)"
    "val128 d = unat D * 2 ^ n" "val128 a < val128 d"
  shows "val128 (fst (long_div a D)) = val128 a div unat D"
    and "unat (snd (long_div a D)) = val128 a mod unat D"
proof -
  obtain q acc where down: "long_div_down n d a \<lparr>lo128 = 0, hi128 = 0\<rparr> = (q, acc)" by fastforce
  have D: "unat D < 2 ^ 64" using unat_less_64 [of D] by auto
  have "1 * 2 ^ n \<le> unat D * 2 ^ n" using assms(1) by (intro mult_right_mono) auto
  then have "(2 :: nat) ^ n \<le> 2 ^ 128" using assms(3) val128_less [of d] by linarith
  with long_div_down_spec [OF assms(1,3) _ _ down] assms(3,4)
  have r: "val128 q = val128 a div unat D" "val128 acc = val128 a mod unat D"
    by (simp_all add: val128_def)
  have "val128 acc < 2 ^ 64"
    using r(2) D mod_less_divisor [OF assms(1), of "val128 a"] by linarith
  then have "unat (hi128 acc) = 0" by (simp add: val128_def)
  then have "hi128 acc = 0" by (simp add: unat_eq_zero)
  with r assms(2) down show "val128 (fst (long_div a D)) = val128 a div unat D"
    "unat (snd (long_div a D)) = val128 a mod unat D"
    by (simp_all add: long_div_def val128_def)
qed

lemma long_div_exact:
  assumes "unat (hi128 a) < unat D"
  shows "val128 (fst (long_div a D)) = val128 a div unat D"
    and "unat (snd (long_div a D)) = val128 a mod unat D"
proof -
  obtain d n where up: "long_div_up \<lparr>lo128 = D, hi128 = 0\<rparr> a 0 = (d, n)" by fastforce
  have D: "0 < unat D" "unat D < 2 ^ 64" using assms unat_less_64 [of D] by auto
  have a: "val128 a < unat D * 2 ^ 64"
    using assms unat_less_64 [of "lo128 a"] by (simp add: val128_def)
  from long_div_up_spec [OF _ _ up, of "unat D"] D
  have u: "val128 d = unat D * 2 ^ n mod 2 ^ 128" "n < 128 \<longrightarrow> val128 a < val128 d"
    "\<forall>j < n. unat D * 2 ^ j mod 2 ^ 128 \<le> val128 a"
    by (auto simp: val128_def)
  have n: "n \<le> 64"
  proof (rule ccontr)
    assume "\<not> n \<le> 64"
    then have "64 < n" by simp
    with u(3) have "unat D * 2 ^ 64 mod 2 ^ 128 \<le> val128 a" by blast
    with a D show False by simp
  qed
  then have "unat D * 2 ^ n \<le> unat D * 2 ^ 64" by (intro mult_left_mono power_increasing) auto
  also have "\<dots> < 2 ^ 128" using D by simp
  finally have "val128 d = unat D * 2 ^ n" using u(1) by simp
  with n u(2) show "val128 (fst (long_div a D)) = val128 a div unat D"
    "unat (snd (long_div a D)) = val128 a mod unat D"
    using long_div_unwrapped [OF D(1) up] by simp_all
qed

lemma long_div_exact_small:
  assumes "0 < unat D" "val128 a < 2 ^ 127"
  shows "val128 (fst (long_div a D)) = val128 a div unat D"
    and "unat (snd (long_div a D)) = val128 a mod unat D"
proof -
  obtain d n where up: "long_div_up \<lparr>lo128 = D, hi128 = 0\<rparr> a 0 = (d, n)" by fastforce
  have D: "unat D < 2 ^ 64" using unat_less_64 [of D] by auto
  from long_div_up_spec [OF _ _ up, of "unat D"] D
  have u: "val128 d = unat D * 2 ^ n mod 2 ^ 128" "n < 128 \<longrightarrow> val128 a < val128 d" "n \<le> 128"
    "\<forall>j < n. unat D * 2 ^ j mod 2 ^ 128 \<le> val128 a"
    by (auto simp: val128_def)
  have nowrap: "unat D * 2 ^ j < 2 ^ 128" if "j \<le> n" for j
    using that
  proof (induction j)
    case 0
    then show ?case using D by simp
  next
    case (Suc j)
    then have "j < n" by simp
    with u(4) have "unat D * 2 ^ j mod 2 ^ 128 \<le> val128 a" by blast
    with Suc assms(2) show ?case by simp
  qed
  have "1 * 2 ^ n \<le> unat D * 2 ^ n" using assms(1) by (intro mult_right_mono) auto
  then have "(2 :: nat) ^ n < 2 ^ 128" using nowrap [of n] by linarith
  then have "n < 128" by (simp only: power_strict_increasing_iff)
  moreover have "val128 d = unat D * 2 ^ n" using u(1) nowrap [of n] by simp
  ultimately show "val128 (fst (long_div a D)) = val128 a div unat D"
    "unat (snd (long_div a D)) = val128 a mod unat D"
    using long_div_unwrapped [OF assms(1) up] u(2) by simp_all
qed

lemma long_div_overflow:
  assumes "0 < unat D" "unat D \<le> unat (hi128 a)"
  shows "2 ^ 64 \<le> val128 (fst (long_div a D))"
proof -
  obtain d n where up: "long_div_up \<lparr>lo128 = D, hi128 = 0\<rparr> a 0 = (d, n)" by fastforce
  obtain q acc where down: "long_div_down n d a \<lparr>lo128 = 0, hi128 = 0\<rparr> = (q, acc)" by fastforce
  have D: "unat D < 2 ^ 64" using unat_less_64 [of D] by auto
  have a: "unat D * 2 ^ 64 \<le> val128 a"
    using assms by (simp add: val128_def)
  from long_div_up_spec [OF _ _ up, of "unat D"] D
  have u: "val128 d = unat D * 2 ^ n mod 2 ^ 128" "n < 128 \<longrightarrow> val128 a < val128 d" "n \<le> 128"
    "\<forall>j < n. unat D * 2 ^ j mod 2 ^ 128 \<le> val128 a"
    by (auto simp: val128_def)
  have n: "65 \<le> n"
  proof (rule ccontr)
    assume n: "\<not> 65 \<le> n"
    then have "unat D * 2 ^ n \<le> unat D * 2 ^ 64" by (intro mult_left_mono power_increasing) auto
    moreover have "val128 d \<le> unat D * 2 ^ n" using u(1) by simp
    ultimately show False using u(2) n a by linarith
  qed
  then obtain m where m: "n = Suc m" "64 \<le> m" by (cases n) auto
  have "val128 d = 2 * (unat D * 2 ^ m mod 2 ^ 127)"
    using u(1) m(1) by (simp add: mult_mod_right mult.left_commute)
  then have "val128 d div 2 = unat D * 2 ^ m mod 2 ^ 127" by simp
  also have "\<dots> = unat D * 2 ^ m mod 2 ^ 128 mod 2 ^ 127"
    by (rule mod_mod_cancel [symmetric]) simp
  also have "\<dots> \<le> unat D * 2 ^ m mod 2 ^ 128"
    by (rule mod_less_eq_dividend)
  also have "\<dots> \<le> val128 a" using u(4) m(1) by simp
  finally have half: "val128 d div 2 \<le> val128 a" .
  have down': "long_div_down (Suc m) d a \<lparr>lo128 = 0, hi128 = 0\<rparr> = (q, acc)" using down m by simp
  have "(2 :: nat) ^ m \<le> val128 q"
    using long_div_down_round [of a d m "\<lparr>lo128 = 0, hi128 = 0\<rparr>"]
  proof cases
    case borrow
    with half show ?thesis by simp
  next
    case (fits acc1 q1)
    have q1: "val128 q1 = 1" using fits(3) by (simp add: val128_def)
    have "Suc (val128 q1) * 2 ^ m \<le> 2 ^ 128"
      using q1 m(1) u(3) power_increasing [of "Suc m" 128 "2 :: nat"] by simp
    with long_div_down_lower [of q1 m "long_shr d" acc1 q acc] fits(4) down' q1 show ?thesis
      by simp
  qed
  moreover have "(2 :: nat) ^ 64 \<le> 2 ^ m" using m by (intro power_increasing) auto
  moreover have "fst (long_div a D) = q" using up down by (simp add: long_div_def)
  ultimately show ?thesis by (metis order_trans)
qed

subsection \<open>The divide instances\<close>

lemma quotient_fits_iff:
  fixes h l K d :: nat
  assumes "l < K" "0 < d"
  shows "(h * K + l) div d < K \<longleftrightarrow> h < d"
proof
  assume "h < d"
  then have "Suc h * K \<le> d * K" by (intro mult_right_mono) auto
  with assms show "(h * K + l) div d < K" by (simp add: div_less_iff_less_mult mult.commute)
next
  assume "(h * K + l) div d < K"
  then have "h * K + l < d * K" using assms by (simp add: div_less_iff_less_mult mult.commute)
  then have "h * K < d * K" by linarith
  then show "h < d" by simp
qed

text \<open>
  The 64-bit unsigned divide is exact: it reports success precisely when the divisor
  is not zero and the quotient of the 128-bit dividend fits in 64 bits, and it then returns the
  mathematical quotient and remainder; otherwise it reports failure with both results zero.
\<close>

theorem div_rem_W64_correct:
  "div_rem_W64 hi lo d =
     (let A = unat hi * 2 ^ 64 + unat lo
      in if d \<noteq> 0 \<and> A div unat d < 2 ^ 64
         then (True, of_nat (A div unat d), of_nat (A mod unat d)) else (False, 0, 0))"
proof (cases "d = 0")
  case True
  then show ?thesis by (simp add: div_rem_W64_def)
next
  case False
  define a where "a = \<lparr>lo128 = lo, hi128 = hi\<rparr>"
  have val: "unat hi * 2 ^ 64 + unat lo = val128 a" by (simp add: a_def val128_def)
  have d: "0 < unat d" using False by (simp add: unat_gt_0)
  have fits: "val128 a div unat d < 2 ^ 64 \<longleftrightarrow> unat hi < unat d"
    unfolding val [symmetric] using d unat_less_64 [of lo] by (intro quotient_fits_iff) simp_all
  show ?thesis
  proof (cases "unat hi < unat d")
    case True
    then have hi: "unat (hi128 a) < unat d" by (simp add: a_def)
    note ex = long_div_exact [OF hi]
    have "val128 (fst (long_div a d)) < 2 ^ 64" using ex(1) fits True by simp
    then have "unat (hi128 (fst (long_div a d))) = 0" by (simp add: val128_def)
    then have h0: "hi128 (fst (long_div a d)) = 0" by (simp add: unat_eq_zero)
    have "lo128 (fst (long_div a d)) = of_nat (val128 a div unat d)"
      using ex(1) h0 by (intro of_nat_eqI) (simp add: val128_def)
    moreover have "snd (long_div a d) = of_nat (val128 a mod unat d)"
      using ex(2) by (rule of_nat_eqI)
    ultimately show ?thesis
      using False True h0 fits unfolding val
      by (simp add: div_rem_W64_def Let_def split_beta flip: a_def)
  next
    case nf: False
    then have "2 ^ 64 \<le> val128 (fst (long_div a d))"
      using long_div_overflow [OF d, of a] by (simp add: a_def)
    then have "hi128 (fst (long_div a d)) \<noteq> 0"
      using unat_less_64 [of "lo128 (fst (long_div a d))"] by (auto simp: val128_def)
    then show ?thesis
      using False nf fits unfolding val
      by (simp add: div_rem_W64_def Let_def split_beta flip: a_def)
  qed
qed


text \<open>The signed wrapper: negation and sign of a pair.\<close>

lemma sval128_val128:
  "sval128 a = (if val128 a < 2 ^ 127 then int (val128 a) else int (val128 a) - 2 ^ 128)"
proof -
  have "val128 a < 2 ^ 127 \<longleftrightarrow> uint (hi128 a) < 2 ^ 63"
    using unat_less_64 [of "lo128 a"] by (simp add: val128_def uint_nat del: of_nat_unat) linarith
  moreover have "int (val128 a) = uint (hi128 a) * 2 ^ 64 + uint (lo128 a)"
    by (simp add: val128_def)
  ultimately show ?thesis
    using sint_cases [of "hi128 a"] by (simp add: sval128_def)
qed

lemma sval128_neg_iff: "sint (hi128 a) < 0 \<longleftrightarrow> sval128 a < 0"
proof -
  have "h < 0 \<longleftrightarrow> h * 2 ^ 64 + l < 0" if "0 \<le> l" "l < 2 ^ 64" for h l :: int
    using that by auto
  moreover have "uint (lo128 a) < 2 ^ 64" using uint_lt2p [of "lo128 a"] by simp
  ultimately show ?thesis
    unfolding sval128_def by blast
qed

lemma val128_neg: "val128 (long_neg a) = (if val128 a = 0 then 0 else 2 ^ 128 - val128 a)"
proof (cases "lo128 a = 0")
  case True
  then have "long_neg a = \<lparr>lo128 = 0, hi128 = - hi128 a\<rparr>"
    by (simp add: long_neg_def Let_def not_eq_complement word_less_nat_alt unat_minus_one_word)
  then show ?thesis
    using True unat_less_64 [of "hi128 a"]
    by (simp add: val128_def unat_minus_word unat_eq_zero diff_mult_distrib)
next
  case False
  have "\<not> lo128 a < lo128 a - 1"
    using False by (simp add: word_less_nat_alt unat_minus_one)
  then have "long_neg a = \<lparr>lo128 = - lo128 a, hi128 = NOT (hi128 a)\<rparr>"
    by (simp add: long_neg_def Let_def)
  then show ?thesis
    using False unat_less_64 [of "hi128 a"] unat_less_64 [of "lo128 a"]
    by (simp add: val128_def unat_minus_word unat_not_word unat_eq_zero)
qed

lemma sval128_neg: "sval128 a \<noteq> - (2 ^ 127) \<Longrightarrow> sval128 (long_neg a) = - sval128 a"
  using val128_less [of a] unfolding sval128_val128 val128_neg
  by (cases "val128 a = 0"; cases "val128 a < 2 ^ 127") (simp_all add: of_nat_diff)

lemma word_of_sval128: "word_of_int (sval128 a) = lo128 a"
proof -
  have "word_of_int (2 ^ 64) = (0 :: W64)" by simp
  then show ?thesis unfolding sval128_def of_int_add of_int_mult by (simp only: mult_zero_right) simp
qed

lemma word_minus_one_W64: "(0xffffffffffffffff :: W64) = -1"
  by simp

lemma sval128_fits:
  "\<not> ((lo128 p AND 0x8000000000000000 = 0 \<and> hi128 p \<noteq> 0)
      \<or> (lo128 p AND 0x8000000000000000 \<noteq> 0 \<and> hi128 p \<noteq> 0xffffffffffffffff))
   \<longleftrightarrow> - (2 ^ 63) \<le> sval128 p \<and> sval128 p < 2 ^ 63"
proof -
  have msb: "lo128 p AND 0x8000000000000000 = 0 \<longleftrightarrow> uint (lo128 p) < 2 ^ 63"
    using bit_last_iff_uint [of "lo128 p"] and_exp_eq_0_iff_not_bit [of "lo128 p" 63] by (simp add: not_le)
  have h0: "hi128 p = 0 \<longleftrightarrow> sint (hi128 p) = 0"
    by (metis signed_0 signed_word_eqI)
  have h1: "hi128 p = 0xffffffffffffffff \<longleftrightarrow> sint (hi128 p) = -1"
    by (metis signed_minus_1 signed_word_eqI word_minus_one_W64)
  have "0 \<le> l \<Longrightarrow> l < 2 ^ 64 \<Longrightarrow>
      (l < 2 ^ 63 \<longrightarrow> h = 0) \<and> (\<not> l < 2 ^ 63 \<longrightarrow> h = -1) \<longleftrightarrow>
      - (2 ^ 63) \<le> h * 2 ^ 64 + l \<and> h * 2 ^ 64 + l < 2 ^ 63" for h l :: int
    by auto
  moreover have "uint (lo128 p) < 2 ^ 64" using uint_lt2p [of "lo128 p"] by simp
  ultimately have "(uint (lo128 p) < 2 ^ 63 \<longrightarrow> sint (hi128 p) = 0) \<and>
      (\<not> uint (lo128 p) < 2 ^ 63 \<longrightarrow> sint (hi128 p) = -1) \<longleftrightarrow>
      - (2 ^ 63) \<le> sval128 p \<and> sval128 p < 2 ^ 63"
    unfolding sval128_def by blast
  then show ?thesis
    unfolding msb h0 h1 by blast
qed


lemma nat_abs_sval:
  assumes "sval128 a \<noteq> - (2 ^ 127)"
  shows "int (val128 (if sint (hi128 a) < 0 then long_neg a else a)) = \<bar>sval128 a\<bar>"
    and "val128 (if sint (hi128 a) < 0 then long_neg a else a) < 2 ^ 127"
  using assms sval128_neg_iff [of a] val128_less [of a] unfolding sval128_val128
  by (auto simp: val128_neg of_nat_diff split: if_splits)

lemma nat_abs_sint: "int (unat (if sint d < 0 then - d else d)) = \<bar>sint d\<bar>" for d :: W64
proof -
  have sint: "sint d = (if unat d < 2 ^ 63 then int (unat d) else int (unat d) - 2 ^ 64)"
    using sint_cases [of d] unfolding uint_nat by (simp del: of_nat_unat)
  have minus: "int (unat (- d)) = (if d = 0 then 0 else 2 ^ 64 - int (unat d))"
    using unat_less_64 [of d] unfolding unat_minus_word by (auto simp del: of_nat_unat)
  show ?thesis
    using unat_less_64 [of d] unfolding if_distrib [of unat] if_distrib [of int] minus sint
    by (auto simp del: of_nat_unat simp: unat_eq_zero split: if_splits)
qed

lemma long_idiv_spec:
  assumes "sval128 a \<noteq> - (2 ^ 127)" "d \<noteq> 0"
  shows "sval128 (fst (long_idiv a d)) = sval128 a sdiv sint d"
    and "snd (long_idiv a d) = word_of_int (sval128 a smod sint d)"
proof -
  define t where "t = (if sint (hi128 a) < 0 then long_neg a else a)"
  define e where "e = (if sint d < 0 then - d else d)"
  have t: "int (val128 t) = \<bar>sval128 a\<bar>" "val128 t < 2 ^ 127"
    using nat_abs_sval [OF assms(1)] by (simp_all add: t_def)
  have e: "int (unat e) = \<bar>sint d\<bar>" unfolding e_def by (rule nat_abs_sint)
  have "sint d \<noteq> 0" using assms(2) by (metis signed_0 signed_word_eqI)
  with e have "0 < unat e" by linarith
  note ld = long_div_exact_small [OF this t(2)]
  have q: "int (val128 (fst (long_div t e))) = \<bar>sval128 a\<bar> div \<bar>sint d\<bar>"
    and r: "int (unat (snd (long_div t e))) = \<bar>sval128 a\<bar> mod \<bar>sint d\<bar>"
    by (simp_all only: ld zdiv_int zmod_int t e)
  have "val128 (fst (long_div t e)) < 2 ^ 127"
    unfolding ld(1) using le_less_trans [OF div_le_dividend t(2)] .
  then have sq: "sval128 (fst (long_div t e)) = \<bar>sval128 a\<bar> div \<bar>sint d\<bar>"
    "sval128 (fst (long_div t e)) \<noteq> - (2 ^ 127)"
    using q by (simp_all add: sval128_val128)
  have fst: "fst (long_idiv a d) = (if (sint (hi128 a) < 0) \<noteq> (sint d < 0)
      then long_neg (fst (long_div t e)) else fst (long_div t e))"
    and snd: "snd (long_idiv a d) = (if sint (hi128 a) < 0 then - snd (long_div t e)
      else snd (long_div t e))"
    unfolding t_def e_def long_idiv_def Let_def split_beta by simp_all
  show "sval128 (fst (long_idiv a d)) = sval128 a sdiv sint d"
    unfolding fst sval128_neg_iff using sq(1) sval128_neg [OF sq(2)] \<open>sint d \<noteq> 0\<close>
    by (auto simp: signed_divide_int_def sgn_if)
  have "snd (long_div t e) = word_of_int (\<bar>sval128 a\<bar> mod \<bar>sint d\<bar>)"
    by (simp flip: r)
  then show "snd (long_idiv a d) = word_of_int (sval128 a smod sint d)"
    unfolding snd sval128_neg_iff by (auto simp: signed_modulo_int_def sgn_if)
qed

text \<open>
  Claim C36. The 64-bit signed divide is exact for every dividend but the most negative one: it
  reports success precisely when the divisor is not zero and the truncated quotient fits in a
  signed 64-bit word, and it then returns the quotient rounded towards zero and the remainder
  with the sign of the dividend; otherwise it reports failure with both results zero.
\<close>

theorem div_rem_s_W64_correct:
  assumes "sint hi * 2 ^ 64 + uint lo \<noteq> - (2 ^ 127)"
  shows "div_rem_s_W64 hi lo d =
    (let S = sint hi * 2 ^ 64 + uint lo; Q = S sdiv sint d
     in if d \<noteq> 0 \<and> - (2 ^ 63) \<le> Q \<and> Q < 2 ^ 63
        then (True, word_of_int Q, word_of_int (S smod sint d)) else (False, 0, 0))"
proof (cases "d = 0")
  case True
  then show ?thesis by (simp add: div_rem_s_W64_def)
next
  case False
  define a where "a = \<lparr>lo128 = lo, hi128 = hi\<rparr>"
  have val: "sint hi * 2 ^ 64 + uint lo = sval128 a" by (simp add: a_def sval128_def)
  have guard: "\<not> (d = -1 \<and> hi = 0x8000000000000000 \<and> lo = 0)"
    using assms by auto
  note spec = long_idiv_spec [OF assms [unfolded val] False]
  note fits = sval128_fits [of "fst (long_idiv a d)", unfolded spec(1)]
  have lo: "lo128 (fst (long_idiv a d)) = word_of_int (sval128 a sdiv sint d)"
    using word_of_sval128 [of "fst (long_idiv a d)"] spec(1) by simp
  have "div_rem_s_W64 hi lo d =
      (if - (2 ^ 63) \<le> sval128 a sdiv sint d \<and> sval128 a sdiv sint d < 2 ^ 63
       then (True, lo128 (fst (long_idiv a d)), snd (long_idiv a d)) else (False, 0, 0))"
    unfolding fits [symmetric] div_rem_s_W64_def Let_def split_beta if_not_P [OF False]
      if_not_P [OF guard] a_def [symmetric] by (simp only: if_not_P not_not split: if_split) blast
  then show ?thesis
    unfolding val Let_def spec(2) lo using False by simp
qed

text \<open>With the most negative dividend and divisor one the shifted divisor wraps to zero.\<close>

lemma long_div_down_zero:
  assumes "val128 d = 0" "Suc (val128 q) = 2 ^ k" "k + n \<le> 128"
    "long_div_down n d acc q = (q', acc')"
  shows "Suc (val128 q') = 2 ^ (k + n) \<and> val128 acc' = val128 acc"
  using assms
proof (induction n arbitrary: d acc q k)
  case 0
  then show ?case by simp
next
  case (Suc n)
  show ?case
  proof (rule long_div_down_round [of acc d n q])
    assume "val128 acc < val128 d div 2"
    with Suc.prems(1) show ?thesis by simp
  next
    fix acc1 q1
    assume a: "val128 acc1 = val128 acc - val128 d div 2"
      "val128 q1 = Suc (2 * val128 q mod 2 ^ 128)"
      "long_div_down (Suc n) d acc q = long_div_down n (long_shr d) acc1 q1"
    have "Suc (val128 q) * 2 ^ Suc n \<le> 2 ^ 128"
      unfolding Suc.prems(2) power_add [symmetric] using Suc.prems(3) by (intro power_increasing) auto
    from double_no_wrap [OF this] a(2) Suc.prems(2) have "Suc (val128 q1) = 2 ^ Suc k" by simp
    moreover have "val128 (long_shr d) = 0" "Suc k + n \<le> 128" "val128 acc1 = val128 acc"
      using Suc.prems(1,3) a(1) by (simp_all add: val128_shr)
    moreover have "long_div_down n (long_shr d) acc1 q1 = (q', acc')"
      using a(3) Suc.prems(4) by simp
    ultimately show ?thesis using Suc.IH [of "long_shr d" q1 "Suc k" acc1] by simp
  qed
qed

lemma long_div_all_ones:
  "long_div \<lparr>lo128 = 0, hi128 = 0x8000000000000000\<rparr> 1 = (\<lparr>lo128 = -1, hi128 = -1\<rparr>, 0)"
proof -
  define m where "m = \<lparr>lo128 = 0, hi128 = 0x8000000000000000 :: W64\<rparr>"
  have m: "val128 m = 2 ^ 127" by (simp add: m_def val128_def)
  have one: "val128 \<lparr>lo128 = 1, hi128 = 0\<rparr> = 1" by (simp add: val128_def)
  obtain d n where up: "long_div_up \<lparr>lo128 = 1, hi128 = 0\<rparr> m 0 = (d, n)" by fastforce
  have u: "val128 d = 2 ^ n mod 2 ^ 128" "n \<le> 128" "n < 128 \<longrightarrow> val128 m < val128 d"
    using long_div_up_spec [OF _ _ up, of 1] one by auto
  have "n = 128"
  proof (rule ccontr)
    assume "n \<noteq> 128"
    with u(2) have n: "n \<le> 127" by simp
    then have "(2 :: nat) ^ n \<le> 2 ^ 127" by (intro power_increasing) auto
    with u(1,3) n m show False by (simp add: mod_less)
  qed
  with u(1) have d: "val128 d = 0" by simp
  obtain q acc where down: "long_div_down 128 d m \<lparr>lo128 = 0, hi128 = 0\<rparr> = (q, acc)" by fastforce
  from long_div_down_zero [OF d _ _ down, of 0] have "Suc (val128 q) = 2 ^ 128" "val128 acc = val128 m"
    by (simp_all add: val128_def)
  moreover have "Suc (val128 \<lparr>lo128 = -1, hi128 = -1\<rparr>) = 2 ^ 128"
    by (simp add: val128_def unat_minus_one_word)
  ultimately have "val128 q = val128 \<lparr>lo128 = -1, hi128 = -1\<rparr>" "val128 acc = val128 m"
    by linarith+
  then have "q = \<lparr>lo128 = -1, hi128 = -1\<rparr>" "lo128 acc = 0"
    unfolding val128_inject by (simp_all add: m_def)
  with up down \<open>n = 128\<close> show ?thesis by (simp add: long_div_def m_def)
qed

text \<open>
  For the most negative dividend the 64-bit signed divide is wrong: dividing
  \<open>- (2 ^ 127)\<close> by one must report a divide error, since the quotient does not fit, but the
  shift loop loses the top bit of the divisor and the routine reports success with quotient 1.
\<close>

theorem div_rem_s_W64_min_dividend:
  "div_rem_s_W64 0x8000000000000000 0 1 = (True, 1, 0)"
proof -
  define m where "m = \<lparr>lo128 = 0, hi128 = 0x8000000000000000 :: W64\<rparr>"
  define ones where "ones = \<lparr>lo128 = -1, hi128 = -1 :: W64\<rparr>"
  have neg: "long_neg m = m" "long_neg ones = \<lparr>lo128 = 1, hi128 = 0\<rparr>"
    by (simp_all add: m_def ones_def long_neg_def word_gt_0)
  have "long_div m 1 = (ones, 0)"
    unfolding m_def ones_def by (rule long_div_all_ones)
  then have "long_idiv m 1 = (\<lparr>lo128 = 1, hi128 = 0\<rparr>, 0)"
    using neg by (simp add: long_idiv_def m_def [symmetric]) (simp add: m_def)
  then show ?thesis
    by (simp add: div_rem_s_W64_def m_def)
qed

theorem div_rem_s_W64_correct_witness:
  "sint (-1 :: W64) * 2 ^ 64 + uint (-7 :: W64) \<noteq> - (2 ^ 127) \<and>
   div_rem_s_W64 (-1) (-7) 2 = (True, -3, -1)"
  using div_rem_s_W64_correct [of "-1" "-7" 2] by simp

subsection \<open>The narrow divides\<close>

lemma unat_narrow_dividend:
  fixes hi lo :: "'a::len word"
  assumes "LENGTH('a) \<le> 32"
  shows "unat (push_bit LENGTH('a) (ucast hi :: W64) + ucast lo) =
    unat hi * 2 ^ LENGTH('a) + unat lo"
proof -
  define K where "K = (2 :: nat) ^ LENGTH('a)"
  have lt: "unat hi < K" "unat lo < K"
    unfolding K_def by (rule unsigned_less)+
  have "K * K \<le> 2 ^ 64"
    unfolding K_def power_add [symmetric] using assms by (intro power_increasing) auto
  moreover have "unat hi * K + unat lo < K * K"
    using lt mult_le_mono1 [of "Suc (unat hi)" K K] by (simp add: Suc_le_eq)
  ultimately have bound: "unat hi * K + unat lo < 2 ^ 64" by linarith
  have "unat (push_bit LENGTH('a) (ucast hi :: W64)) = unat hi * K"
    using bound assms by (simp add: unat_push_bit unat_ucast_up K_def)
  then show ?thesis
    using bound assms unat_ucast_up [of lo, where 'b = 64]
    by (simp add: unat_word_ariths K_def)
qed

lemma ucast_ucast_eq_iff:
  fixes q :: W64
  assumes "LENGTH('a) \<le> 32"
  shows "q = ucast (ucast q :: 'a::len word) \<longleftrightarrow> unat q < 2 ^ LENGTH('a)"
proof -
  have "unat (ucast (ucast q :: 'a word) :: W64) = unat q mod 2 ^ LENGTH('a)"
    using assms unat_ucast_up [of "ucast q :: 'a word", where 'b = 64]
    by (simp only: unsigned_ucast_eq take_bit_eq_mod) simp
  then show ?thesis
    by (metis word_unat_eq_iff mod_less mod_less_divisor zero_less_numeral zero_less_power)
qed

text \<open>
  The 8, 16 and 32-bit unsigned divides, which work on a 64-bit dividend with the
  host's division, meet the same specification as the 64-bit one: success exactly when the
  divisor is not zero and the quotient fits, with the exact quotient and remainder.
\<close>

theorem div_rem_correct:
  fixes hi lo d :: "'a::len word"
  assumes "LENGTH('a) \<le> 32"
  shows "div_rem hi lo d =
     (let A = unat hi * 2 ^ LENGTH('a) + unat lo
      in if d \<noteq> 0 \<and> A div unat d < 2 ^ LENGTH('a)
         then (True, of_nat (A div unat d), of_nat (A mod unat d)) else (False, 0, 0))"
proof -
  note dividend = unat_narrow_dividend [OF assms, of hi lo]
  have d: "unat (ucast d :: W64) = unat d"
    using assms by (simp add: unat_ucast_up)
  define a where "a = push_bit LENGTH('a) (ucast hi :: W64) + ucast lo"
  have q: "unat (a div ucast d) = (unat hi * 2 ^ LENGTH('a) + unat lo) div unat d"
    and r: "unat (a mod ucast d) = (unat hi * 2 ^ LENGTH('a) + unat lo) mod unat d"
    unfolding unat_div_distrib unat_mod_distrib d a_def dividend by (rule refl)+
  have qr: "(ucast (a div ucast d) :: 'a word) = of_nat (unat (a div ucast d))"
    "(ucast (a mod ucast d) :: 'a word) = of_nat (unat (a mod ucast d))" by simp_all
  show ?thesis
    unfolding div_rem_def Let_def a_def [symmetric] ucast_ucast_eq_iff [OF assms] qr q r by auto
qed

theorem div_rem_correct_witness:
  "div_rem (1 :: W8) 4 7 = (True, 37, 1)"
  using div_rem_correct [of "1 :: W8" 4 7] by simp

lemma signext64_ucast:
  fixes w :: "'a::len word"
  assumes "LENGTH('a) \<le> 64"
  shows "signext64 (ucast w) LENGTH('a) = scast w"
proof (rule bit_word_eqI)
  fix n assume "n < LENGTH(64)"
  then show "bit (signext64 (ucast w) LENGTH('a)) n = bit (scast w :: W64) n"
    using assms bit_signext64 [of "LENGTH('a)" n "ucast w"]
    by (cases "n = LENGTH('a) - 1")
      (auto simp: bit_ucast_iff bit_signed_iff min_def dest: bit_imp_le_length)
qed

lemma sint_scast_up: "sint (scast w :: 'b::len word) = sint w"
  if "LENGTH('a) \<le> LENGTH('b)" for w :: "'a::len word"
proof -
  have "(2 :: int) ^ (LENGTH('a) - 1) \<le> 2 ^ (LENGTH('b) - 1)"
    using that by (intro power_increasing) auto
  then have "- (2 ^ (LENGTH('b) - 1)) \<le> sint w" "sint w < 2 ^ (LENGTH('b) - 1)"
    using sint_ge [of w] sint_lt [of w] by linarith+
  then show ?thesis
    unfolding signed_scast_eq by (intro signed_take_bit_int_eq_self) simp_all
qed

lemma sdiv_bounds:
  fixes s d M :: int
  assumes "d \<noteq> 0" "- M \<le> s" "s < M" "\<not> (s = - M \<and> d = -1)"
  shows "- M \<le> s sdiv d" "s sdiv d < M"
proof -
  have le: "\<bar>s\<bar> div \<bar>d\<bar> \<le> \<bar>s\<bar>" "0 \<le> \<bar>s\<bar> div \<bar>d\<bar>"
    using zdiv_mono2 [of "\<bar>s\<bar>" 1 "\<bar>d\<bar>"] assms(1) by (simp_all add: pos_imp_zdiv_nonneg_iff)
  define k where "k = \<bar>s\<bar> div \<bar>d\<bar>"
  have "k < M" if "sgn s = sgn d"
  proof (cases "s = - M")
    case True
    have "1 < \<bar>d\<bar>" "0 < \<bar>s\<bar>" using that True assms by (auto simp: sgn_if split: if_splits)
    then have "k < \<bar>s\<bar>" unfolding k_def by (rule int_div_less_self [rotated])
    then show ?thesis using True assms(3) by simp
  next
    case False
    then show ?thesis using le assms by (simp add: k_def)
  qed
  with le assms show "- M \<le> s sdiv d" "s sdiv d < M"
    unfolding signed_divide_int_def k_def [symmetric] by (auto simp: sgn_if split: if_splits)
qed

lemma sint_narrow_quotient:
  fixes Q :: int
  assumes "LENGTH('a::len) \<le> 32" "- (2 ^ 63) \<le> Q" "Q < 2 ^ 63"
  shows "(word_of_int Q :: W64) = signext64 (ucast (word_of_int Q :: 'a word)) LENGTH('a)
    \<longleftrightarrow> - (2 ^ (LENGTH('a) - 1)) \<le> Q \<and> Q < 2 ^ (LENGTH('a) - 1)"
    and "(ucast (word_of_int Q :: W64) :: 'a word) = word_of_int Q"
proof -
  show u: "(ucast (word_of_int Q :: W64) :: 'a word) = word_of_int Q"
    using assms(1) by (intro bit_word_eqI) (simp add: bit_ucast_iff bit_word_of_int_iff)
  have "sint (word_of_int Q :: W64) = Q"
    using assms by (simp add: signed_of_int signed_take_bit_int_eq_self)
  moreover have "sint (scast (word_of_int Q :: 'a word) :: W64) = signed_take_bit (LENGTH('a) - 1) Q"
  proof -
    have "sint (scast (word_of_int Q :: 'a word) :: W64) = sint (word_of_int Q :: 'a word)"
      using assms(1) by (simp add: sint_scast_up)
    then show ?thesis by (simp add: signed_of_int)
  qed
  ultimately have "(word_of_int Q :: W64) = scast (word_of_int Q :: 'a word)
      \<longleftrightarrow> Q = signed_take_bit (LENGTH('a) - 1) Q"
    by (metis signed_word_eqI)
  also have "\<dots> \<longleftrightarrow> - (2 ^ (LENGTH('a) - 1)) \<le> Q \<and> Q < 2 ^ (LENGTH('a) - 1)"
    by (metis signed_take_bit_int_eq_self_iff)
  finally show "(word_of_int Q :: W64) = signext64 (ucast (word_of_int Q :: 'a word)) LENGTH('a)
    \<longleftrightarrow> - (2 ^ (LENGTH('a) - 1)) \<le> Q \<and> Q < 2 ^ (LENGTH('a) - 1)"
    using assms(1) by (simp add: signext64_ucast)
qed

lemma narrow_dividend_s:
  fixes hi lo :: "'a::len word"
  assumes "LENGTH('a) \<le> 32"
  defines "S \<equiv> sint hi * 2 ^ LENGTH('a) + uint lo"
  shows "sint (push_bit LENGTH('a) (scast hi :: W64) + ucast lo) = S"
    and "- (2 ^ (2 * LENGTH('a) - 1)) \<le> S" "S < 2 ^ (2 * LENGTH('a) - 1)"
proof -
  define K where "K = (2 :: int) ^ (LENGTH('a) - 1)"
  have K: "2 ^ LENGTH('a) = 2 * K" "2 ^ (2 * LENGTH('a) - 1) = K * (2 * K)"
    unfolding K_def power_Suc [symmetric] power_add [symmetric] by simp_all
  have h: "- K \<le> sint hi" "sint hi + 1 \<le> K"
    using sint_ge [of hi] sint_lt [of hi] by (simp_all add: K_def)
  have l: "0 \<le> uint lo" "uint lo < 2 * K" using uint_lt2p [of lo] by (simp_all add: K(1))
  have "- K * (2 * K) \<le> sint hi * (2 * K)" "(sint hi + 1) * (2 * K) \<le> K * (2 * K)"
    using h by (intro mult_right_mono; simp add: K_def)+
  then have "- (K * (2 * K)) \<le> sint hi * (2 * K)" "sint hi * (2 * K) + 2 * K \<le> K * (2 * K)"
    by (simp_all only: distrib_right mult_1 mult_minus_left)
  with l show S: "- (2 ^ (2 * LENGTH('a) - 1)) \<le> S" "S < 2 ^ (2 * LENGTH('a) - 1)"
    unfolding S_def K by linarith+
  have "(2 :: int) ^ (2 * LENGTH('a) - 1) \<le> 2 ^ 63"
    using assms by (intro power_increasing) auto
  with S have "signed_take_bit 63 S = S"
    by (intro signed_take_bit_int_eq_self) auto
  moreover have "push_bit LENGTH('a) (scast hi :: W64) + ucast lo = word_of_int S"
    by (simp add: S_def push_bit_eq_mult)
  ultimately show "sint (push_bit LENGTH('a) (scast hi :: W64) + ucast lo) = S"
    by (simp add: signed_of_int)
qed

lemma narrow_mask_positive:
  assumes "LENGTH('a::len) \<le> 32"
  shows "2 ^ (LENGTH('a) - 1) \<le> sint (bitmask LENGTH('a))"
proof -
  define K where "K = (2 :: int) ^ (LENGTH('a) - 1)"
  have K: "1 \<le> K" "2 ^ LENGTH('a) = 2 * K"
    by (simp_all add: K_def flip: power_Suc)
  have "2 * K \<le> 2 ^ 63"
    unfolding K(2) [symmetric] by (rule power_increasing) (use assms in auto)
  have "bitmask LENGTH('a) = word_of_int (2 ^ LENGTH('a) - 1)"
    using assms by (simp add: bitmask_def push_bit_eq_mult)
  then have "bitmask LENGTH('a) = word_of_int (2 * K - 1)" by (simp only: K)
  moreover have "signed_take_bit 63 (2 * K - 1) = 2 * K - 1"
    using K \<open>2 * K \<le> 2 ^ 63\<close> by (intro signed_take_bit_int_eq_self) auto
  ultimately have "sint (bitmask LENGTH('a)) = 2 * K - 1"
    by (simp only: signed_of_int of_int_eq_id id_apply) simp
  then show ?thesis using K(1) unfolding K_def [symmetric] by linarith
qed

text \<open>
  The narrow signed divides return the quotient rounded towards zero and the
  remainder with the sign of the dividend when that quotient fits, and report failure
  otherwise, with one exception: the 32-bit divide of the most negative dividend by -1 passes
  the guard that should reject it (the guard compares the sign-extended divisor with an
  unsigned all-ones mask) and reaches the host's division, which traps.
\<close>

theorem div_rem_s_correct:
  fixes hi lo d :: "'a::len word"
  assumes "LENGTH('a) \<le> 32"
  shows "div_rem_s hi lo d =
    (let S = sint hi * 2 ^ LENGTH('a) + uint lo; Q = S sdiv sint d
     in if d = 0 then Inr (False, 0, 0)
        else if S = - (2 ^ 63) \<and> sint d = -1 then Inl HostDivideOverflow
        else if - (2 ^ (LENGTH('a) - 1)) \<le> Q \<and> Q < 2 ^ (LENGTH('a) - 1)
        then Inr (True, word_of_int Q, word_of_int (S smod sint d)) else Inr (False, 0, 0))"
proof (cases "d = 0")
  case True
  then show ?thesis unfolding div_rem_s_def Let_def by (simp add: signext64_def)
next
  case False
  define S where "S = sint hi * 2 ^ LENGTH('a) + uint lo"
  define a where "a = push_bit LENGTH('a) (scast hi :: W64) + ucast lo"
  have a: "sint a = S" using narrow_dividend_s [OF assms, of hi lo] by (simp add: a_def S_def)
  have d: "sint (scast d :: W64) = sint d" "sint d \<noteq> 0"
    using assms False by (simp add: sint_scast_up, metis signed_0 signed_word_eqI)
  have d0: "(scast d :: W64) \<noteq> 0" using d by (metis signed_0)
  have guard: "(scast d :: W64) \<noteq> bitmask LENGTH('a)"
    using d sint_lt [of d] narrow_mask_positive [OF assms] by auto
  have S: "- (2 ^ 63) \<le> S" "S < 2 ^ 63"
    using sint_ge [of a] sint_lt [of a] by (simp_all add: a)
  have ext: "signext64 (ucast d) LENGTH('a) = scast d" "signext64 (ucast hi) LENGTH('a) = scast hi"
    using assms by (simp_all add: signext64_ucast)
  show ?thesis
  proof (cases "S = - (2 ^ 63) \<and> sint d = -1")
    case True
    then show ?thesis
      unfolding div_rem_s_def Let_def ext a_def [symmetric] S_def [symmetric] a d(1)
      using d0 guard False by simp
  next
    case nf: False
    note Q = sdiv_bounds [OF d(2) S nf]
    show ?thesis
      unfolding div_rem_s_def Let_def ext a_def [symmetric] S_def [symmetric] a d(1)
        sint_narrow_quotient(1) [OF assms Q] sint_narrow_quotient(2) [OF assms Q] if_not_P [OF nf]
      using d0 guard False by simp
  qed
qed

theorem div_rem_s_correct_witness:
  "div_rem_s (-1 :: W8) (-7) 2 = Inr (True, -3, -1) \<and>
   div_rem_s (0x80000000 :: W32) 0 (-1) = Inl HostDivideOverflow"
  using div_rem_s_correct [of "-1 :: W8" "-7" 2] div_rem_s_correct [of "0x80000000 :: W32" 0 "-1"]
  by simp

end
