(* ===== verification/Fixed_Queue.thy ===== *)
theory Fixed_Queue
  imports Bit_Utils
begin

text \<open>
  The ring buffers of \<^verbatim>\<open>src/x86sim/logic.h\<close>: \<^verbatim>\<open>FixedQueue\<close> (an array with \<open>head\<close>,
  \<open>tail\<close> and \<open>count\<close>), its subclass \<^verbatim>\<open>Queue\<close>, and the \<^verbatim>\<open>foreach_forward\<close> /
  \<^verbatim>\<open>foreach_backward\<close> iteration macros. The pipeline's reorder buffer, load/store queue and
  fetch queue are instances. A returned pointer is the index of its slot, a null pointer is
  \<open>None\<close>; the template argument \<open>SIZE\<close> is the length of the array.

  The abstraction function reads the buffer as the list from head to tail; every operation is
  shown to implement the corresponding operation of a double-ended queue of capacity
  \<open>SIZE - 1\<close>. The contract a client relies on is the locale \<open>bounded_queue\<close>.
\<close>

subsection \<open>State and operations\<close>

record 'a FixedQueue =
  slots :: "'a list"
  head :: int
  tail :: int
  count :: int

definition fq_size :: "('a, 'b) FixedQueue_scheme \<Rightarrow> int" where
  "fq_size q = int (length (slots q))"

definition fq_reset :: "'a FixedQueue \<Rightarrow> 'a FixedQueue" where
  "fq_reset q = q\<lparr>head := 0, tail := 0, count := 0\<rparr>"

definition fq_flush :: "'a FixedQueue \<Rightarrow> 'a FixedQueue" where
  "fq_flush q = q\<lparr>head := 0, tail := 0, count := 0\<rparr>"

definition fq_remaining :: "'a FixedQueue \<Rightarrow> int" where
  "fq_remaining q = max (fq_size q - count q - 1) 0"

definition fq_empty :: "'a FixedQueue \<Rightarrow> bool" where
  "fq_empty q \<longleftrightarrow> count q = 0"

definition fq_full :: "'a FixedQueue \<Rightarrow> bool" where
  "fq_full q \<longleftrightarrow> fq_remaining q = 0"

definition fq_alloc :: "'a FixedQueue \<Rightarrow> int option \<times> 'a FixedQueue" where
  "fq_alloc q =
     (if fq_remaining q = 0 then (None, q)
      else (Some (tail q),
            q\<lparr>tail := add_index_modulo (tail q) 1 (fq_size q), count := count q + 1\<rparr>))"

definition fq_push :: "'a \<Rightarrow> 'a FixedQueue \<Rightarrow> int option \<times> 'a FixedQueue" where
  "fq_push data q =
     (case fq_alloc q of
        (None, q1) \<Rightarrow> (None, q1)
      | (Some slot, q1) \<Rightarrow> (Some slot, q1\<lparr>slots := (slots q1)[nat slot := data]\<rparr>))"

definition fq_enqueue :: "'a \<Rightarrow> 'a FixedQueue \<Rightarrow> int option \<times> 'a FixedQueue" where
  "fq_enqueue data q = fq_push data q"

text \<open>\<^verbatim>\<open>commit\<close> asserts that its entry is the head of the queue: a failed assertion is \<open>None\<close>.\<close>

definition fq_commit :: "int \<Rightarrow> 'a FixedQueue \<Rightarrow> 'a FixedQueue option" where
  "fq_commit entry_index q =
     (if entry_index = head q
      then Some (q\<lparr>count := count q - 1, head := add_index_modulo (head q) 1 (fq_size q)\<rparr>)
      else None)"

definition fq_annul :: "int \<Rightarrow> 'a FixedQueue \<Rightarrow> 'a FixedQueue" where
  "fq_annul entry_index q =
     q\<lparr>count := count q - 1, tail := add_index_modulo (tail q) (-1) (fq_size q)\<rparr>"

definition fq_pop :: "'a FixedQueue \<Rightarrow> int option \<times> 'a FixedQueue" where
  "fq_pop q =
     (if fq_empty q then (None, q)
      else let t = add_index_modulo (tail q) (-1) (fq_size q)
           in (Some t, q\<lparr>tail := t, count := count q - 1\<rparr>))"

definition fq_peek :: "'a FixedQueue \<Rightarrow> int option" where
  "fq_peek q = (if fq_empty q then None else Some (head q))"

definition fq_dequeue :: "'a FixedQueue \<Rightarrow> int option \<times> 'a FixedQueue" where
  "fq_dequeue q =
     (if fq_empty q then (None, q)
      else (Some (head q),
            q\<lparr>count := count q - 1, head := add_index_modulo (head q) 1 (fq_size q)\<rparr>))"

definition fq_pushhead :: "'a FixedQueue \<Rightarrow> int option \<times> 'a FixedQueue" where
  "fq_pushhead q =
     (if fq_full q then (None, q)
      else let h = add_index_modulo (head q) (-1) (fq_size q)
           in (Some h, q\<lparr>head := h, count := count q + 1\<rparr>))"

definition fq_pophead :: "'a FixedQueue \<Rightarrow> int option \<times> 'a FixedQueue" where
  "fq_pophead q =
     (if fq_empty q then (None, q)
      else (Some (head q),
            q\<lparr>count := count q - 1, head := add_index_modulo (head q) 1 (fq_size q)\<rparr>))"

definition fq_peekhead :: "'a FixedQueue \<Rightarrow> int option" where
  "fq_peekhead q = (if fq_empty q then None else Some (head q))"

definition fq_peektail :: "'a FixedQueue \<Rightarrow> int option" where
  "fq_peektail q =
     (if fq_empty q then None else Some (add_index_modulo (tail q) (-1) (fq_size q)))"

definition fq_index :: "int \<Rightarrow> 'a FixedQueue \<Rightarrow> 'a" where
  "fq_index index q = slots q ! nat (add_index_modulo (head q) index (fq_size q))"

text \<open>The \<^verbatim>\<open>Queue\<close> subclass calls the element type's \<open>init\<close> and \<open>validate\<close>.\<close>

definition queue_reset :: "(int \<Rightarrow> 'a \<Rightarrow> 'a) \<Rightarrow> 'a FixedQueue \<Rightarrow> 'a FixedQueue" where
  "queue_reset init q =
     (let q1 = fq_reset q
      in q1\<lparr>slots := map (\<lambda>i. init (int i) (slots q1 ! i)) [0..<length (slots q1)]\<rparr>)"

definition queue_alloc :: "('a \<Rightarrow> 'a) \<Rightarrow> 'a FixedQueue \<Rightarrow> int option \<times> 'a FixedQueue" where
  "queue_alloc validate q =
     (case fq_alloc q of
        (None, q1) \<Rightarrow> (None, q1)
      | (Some p, q1) \<Rightarrow> (Some p, q1\<lparr>slots := (slots q1)[nat p := validate (slots q1 ! nat p)]\<rparr>))"

text \<open>
  The iteration macros visit slots until an end index is met; \<open>None\<close> is a loop that has not
  met it within the given number of rounds.
\<close>

fun walk :: "nat \<Rightarrow> int \<Rightarrow> int \<Rightarrow> int \<Rightarrow> int \<Rightarrow> int list option" where
  "walk fuel n step stop i =
     (if i = stop then Some []
      else case fuel of 0 \<Rightarrow> None
        | Suc fuel' \<Rightarrow> map_option ((#) i) (walk fuel' n step stop (add_index_modulo i step n)))"

declare walk.simps [simp del]

definition foreach_forward :: "nat \<Rightarrow> 'a FixedQueue \<Rightarrow> int list option" where
  "foreach_forward fuel q = walk fuel (fq_size q) 1 (tail q) (head q)"

definition foreach_backward :: "nat \<Rightarrow> 'a FixedQueue \<Rightarrow> int list option" where
  "foreach_backward fuel q =
     walk fuel (fq_size q) (-1) (add_index_modulo (head q) (-1) (fq_size q))
       (add_index_modulo (tail q) (-1) (fq_size q))"

subsection \<open>Invariant and abstraction\<close>

definition fq_inv :: "'a FixedQueue \<Rightarrow> bool" where
  "fq_inv q \<longleftrightarrow> 0 \<le> head q \<and> head q < fq_size q \<and> 0 \<le> count q \<and> count q < fq_size q
     \<and> tail q = (head q + count q) mod fq_size q"

definition fq_ix :: "'a FixedQueue \<Rightarrow> nat \<Rightarrow> nat" where
  "fq_ix q k = nat ((head q + int k) mod fq_size q)"

definition contents :: "'a FixedQueue \<Rightarrow> 'a list" where
  "contents q = map (\<lambda>k. slots q ! fq_ix q k) [0..<nat (count q)]"

definition capacity :: "'a FixedQueue \<Rightarrow> nat" where
  "capacity q = length (slots q) - 1"

lemmas fq_defs = fq_empty_def fq_full_def fq_remaining_def fq_size_def

lemma fq_invD:
  assumes "fq_inv q"
  shows "0 < fq_size q" "0 \<le> head q" "head q < fq_size q" "0 \<le> tail q" "tail q < fq_size q"
    "0 \<le> count q" "count q < fq_size q" "tail q = (head q + count q) mod fq_size q"
  using assms by (auto simp: fq_inv_def)

lemma length_contents: "fq_inv q \<Longrightarrow> int (length (contents q)) = count q"
  by (simp add: contents_def fq_invD)

lemma fq_ix_less: "fq_inv q \<Longrightarrow> fq_ix q k < length (slots q)"
  using fq_invD(1) [of q] by (simp add: fq_ix_def fq_size_def nat_less_iff)

lemma mod_add_inj:
  fixes a i j n :: int
  assumes "(a + i) mod n = (a + j) mod n" "0 \<le> i" "i < n" "0 \<le> j" "j < n"
  shows "i = j"
proof -
  have "i mod n = j mod n"
    using assms(1) by (metis add_diff_cancel_left' mod_diff_left_eq)
  then show ?thesis using assms by simp
qed

lemma fq_ix_inj:
  assumes "fq_inv q" "int i < fq_size q" "int j < fq_size q"
  shows "fq_ix q i = fq_ix q j \<longleftrightarrow> i = j"
proof
  assume "fq_ix q i = fq_ix q j"
  then have "(head q + int i) mod fq_size q = (head q + int j) mod fq_size q"
    using fq_invD(1) [OF assms(1)] unfolding fq_ix_def by (metis eq_nat_nat_iff pos_mod_sign)
  from mod_add_inj [OF this] assms show "i = j" by simp
qed simp

text \<open>Index arithmetic under the invariant.\<close>

lemma fq_aim:
  assumes "fq_inv q" "- fq_size q \<le> d" "d \<le> fq_size q"
  shows "add_index_modulo (head q) d (fq_size q) = (head q + d) mod fq_size q"
    and "add_index_modulo (tail q) d (fq_size q) = (head q + count q + d) mod fq_size q"
  using fq_invD [OF assms(1)] assms(2,3) add_index_modulo_mod [of "head q" "fq_size q" d]
    add_index_modulo_mod [of "tail q" "fq_size q" d]
  by (simp_all add: mod_add_left_eq)

lemma mod_shift: "((a + d) mod n + k) mod n = (a + (d + k)) mod n" for a d k n :: int
  by (simp add: mod_add_left_eq add.assoc)

subsection \<open>Refinement to a bounded double-ended queue\<close>

lemma fq_emptyD: "fq_inv q \<Longrightarrow> fq_empty q \<longleftrightarrow> contents q = []"
  using length_contents [of q] by (auto simp: fq_empty_def)

lemma fq_fullD: "fq_inv q \<Longrightarrow> fq_remaining q = 0 \<longleftrightarrow> \<not> length (contents q) < capacity q"
  using length_contents [of q] fq_invD(1) [of q] by (auto simp: fq_defs capacity_def)

lemma fq_resetD:
  "slots q \<noteq> [] \<Longrightarrow> fq_inv (fq_reset q) \<and> contents (fq_reset q) = [] \<and> capacity (fq_reset q) = capacity q"
  by (simp add: fq_inv_def fq_reset_def fq_size_def contents_def capacity_def)

lemma fq_pushD:
  assumes inv: "fq_inv q" and room: "length (contents q) < capacity q"
  shows "\<exists>p q'. fq_push x q = (Some p, q') \<and> fq_inv q' \<and> contents q' = contents q @ [x]
    \<and> capacity q' = capacity q"
proof -
  note d = fq_invD [OF inv]
  define n where "n = nat (count q)"
  have n: "count q = int n" "int n + 1 < fq_size q"
    using d room length_contents [OF inv] by (auto simp: n_def capacity_def fq_size_def)
  define q' where "q' = q\<lparr>tail := add_index_modulo (tail q) 1 (fq_size q), count := count q + 1,
    slots := (slots q)[nat (tail q) := x]\<rparr>"
  have push: "fq_push x q = (Some (tail q), q')"
    using room fq_fullD [OF inv] by (simp add: fq_push_def fq_alloc_def q'_def)
  have sz: "fq_size q' = fq_size q" "fq_ix q' = fq_ix q"
    by (simp_all add: q'_def fq_size_def fq_ix_def fun_eq_iff)
  have inv': "fq_inv q'"
  proof -
    have "tail q' = (head q + (count q + 1)) mod fq_size q"
      using fq_aim(2) [OF inv, of 1] d(1) by (simp add: q'_def add.assoc)
    then show ?thesis
      using d n by (simp add: fq_inv_def sz) (simp add: q'_def)
  qed
  have tl: "nat (tail q) = fq_ix q n"
    using d(8) n by (simp add: fq_ix_def)
  have "contents q' = map (\<lambda>k. (slots q)[fq_ix q n := x] ! fq_ix q k) [0..<n] @ [x]"
    using fq_ix_less [OF inv] n by (simp add: contents_def sz tl nat_add_distrib) (simp add: q'_def tl nat_add_distrib)
  also have "map (\<lambda>k. (slots q)[fq_ix q n := x] ! fq_ix q k) [0..<n] = contents q"
    using fq_ix_less [OF inv] fq_ix_inj [OF inv] n by (auto simp: contents_def)
  finally show ?thesis
    using push inv' by (auto simp: capacity_def q'_def)
qed

lemma fq_push_fullD:
  "fq_inv q \<Longrightarrow> \<not> length (contents q) < capacity q \<Longrightarrow> fq_push x q = (None, q)"
  by (simp add: fq_push_def fq_alloc_def fq_fullD)

lemma fq_dequeueD:
  assumes inv: "fq_inv q" and cons: "contents q = x # xs"
  shows "\<exists>p q'. fq_dequeue q = (Some p, q') \<and> slots q' ! nat p = x \<and> fq_inv q' \<and> contents q' = xs
    \<and> capacity q' = capacity q"
proof -
  note d = fq_invD [OF inv]
  define n where "n = length xs"
  have n: "count q = int n + 1" using length_contents [OF inv] cons by (simp add: n_def)
  define q' where "q' = q\<lparr>count := count q - 1, head := add_index_modulo (head q) 1 (fq_size q)\<rparr>"
  have deq: "fq_dequeue q = (Some (head q), q')"
    using fq_emptyD [OF inv] cons by (simp add: fq_dequeue_def q'_def)
  have sz: "fq_size q' = fq_size q" by (simp add: q'_def fq_size_def)
  have hd: "head q' = (head q + 1) mod fq_size q" "count q' = int n" "slots q' = slots q" "tail q' = tail q"
    using d n by (simp_all add: q'_def fq_aim [OF inv])
  have inv': "fq_inv q'"
    using d n mod_shift [of "head q" 1 "fq_size q" "int n"]
    by (simp add: fq_inv_def sz hd) (simp add: add.commute)
  have ix: "fq_ix q' k = fq_ix q (Suc k)" for k
    by (simp add: fq_ix_def sz hd mod_shift)
  have "contents q = map (\<lambda>k. slots q ! fq_ix q k) [0..<Suc n]"
    using n by (simp add: contents_def nat_add_distrib)
  also have "\<dots> = slots q ! fq_ix q 0 # map (\<lambda>k. slots q ! fq_ix q (Suc k)) [0..<n]"
    by (simp add: upt_conv_Cons map_Suc_upt [symmetric] del: upt_Suc)
  also have "map (\<lambda>k. slots q ! fq_ix q (Suc k)) [0..<n] = contents q'"
    by (simp add: contents_def hd ix)
  finally have "slots q' ! fq_ix q 0 = x" "contents q' = xs" using cons by (simp_all add: hd)
  moreover have "nat (head q) = fq_ix q 0" using d by (simp add: fq_ix_def)
  ultimately show ?thesis using deq inv' by (auto simp: capacity_def hd)
qed

lemma fq_popD:
  assumes inv: "fq_inv q" and snoc: "contents q = xs @ [x]"
  shows "\<exists>p q'. fq_pop q = (Some p, q') \<and> slots q' ! nat p = x \<and> fq_inv q' \<and> contents q' = xs
    \<and> capacity q' = capacity q"
proof -
  note d = fq_invD [OF inv]
  define n where "n = length xs"
  have n: "count q = int n + 1" using length_contents [OF inv] snoc by (simp add: n_def)
  define q' where "q' = q\<lparr>tail := add_index_modulo (tail q) (-1) (fq_size q), count := count q - 1\<rparr>"
  have t: "tail q' = (head q + int n) mod fq_size q"
    using d n fq_aim(2) [OF inv, of "-1"] by (simp add: q'_def)
  have pop: "fq_pop q = (Some (tail q'), q')"
    using fq_emptyD [OF inv] snoc by (simp add: fq_pop_def q'_def Let_def)
  have sz: "fq_size q' = fq_size q" "fq_ix q' = fq_ix q" "slots q' = slots q" "count q' = int n"
    "head q' = head q"
    using n by (simp_all add: q'_def fq_size_def fq_ix_def fun_eq_iff)
  have inv': "fq_inv q'" using d n t by (simp add: fq_inv_def sz)
  have "contents q = contents q' @ [slots q ! fq_ix q n]"
    using n by (simp add: contents_def sz nat_add_distrib)
  with snoc have "slots q' ! fq_ix q n = x" "contents q' = xs" by (simp_all add: sz)
  moreover have "nat (tail q') = fq_ix q n" using t by (simp add: fq_ix_def)
  ultimately show ?thesis using pop inv' by (auto simp: capacity_def sz)
qed

lemma fq_pushheadD:
  assumes inv: "fq_inv q" and room: "length (contents q) < capacity q"
  shows "\<exists>p q'. fq_pushhead q = (Some p, q') \<and> fq_inv (q'\<lparr>slots := (slots q')[nat p := x]\<rparr>)
    \<and> contents (q'\<lparr>slots := (slots q')[nat p := x]\<rparr>) = x # contents q
    \<and> capacity (q'\<lparr>slots := (slots q')[nat p := x]\<rparr>) = capacity q"
proof -
  note d = fq_invD [OF inv]
  define n where "n = nat (count q)"
  have n: "count q = int n" "int n + 1 < fq_size q"
    using d room length_contents [OF inv] by (auto simp: n_def capacity_def fq_size_def)
  define h where "h = add_index_modulo (head q) (-1) (fq_size q)"
  define q' where "q' = q\<lparr>head := h, count := count q + 1\<rparr>"
  define r where "r = q'\<lparr>slots := (slots q')[nat h := x]\<rparr>"
  have push: "fq_pushhead q = (Some h, q')"
    using room fq_fullD [OF inv] by (simp add: fq_pushhead_def fq_full_def q'_def h_def Let_def)
  have h: "h = (head q - 1) mod fq_size q"
    using fq_aim(1) [OF inv, of "-1"] d by (simp add: h_def)
  have sz: "fq_size r = fq_size q" "head r = h" "count r = int n + 1" "tail r = tail q"
    "slots r = (slots q)[nat h := x]"
    using n by (simp_all add: r_def q'_def fq_size_def)
  have inv': "fq_inv r"
    using d n h by (simp add: fq_inv_def sz mod_shift mod_add_left_eq)
  have ix: "fq_ix r (Suc k) = fq_ix q k" for k
    using h mod_shift [of "head q" "-1" "fq_size q" "1 + int k"] by (simp add: fq_ix_def sz)
  have ix0: "fq_ix r 0 = nat h" using h by (simp add: fq_ix_def sz)
  have "contents r = map (\<lambda>k. slots r ! fq_ix r k) [0..<Suc n]"
    by (simp add: contents_def sz nat_add_distrib)
  also have "\<dots> = slots r ! fq_ix r 0 # map (\<lambda>k. slots r ! fq_ix r (Suc k)) [0..<n]"
    by (simp add: upt_conv_Cons map_Suc_upt [symmetric] del: upt_Suc)
  also have "slots r ! fq_ix r 0 = x"
    using fq_ix_less [OF inv', of 0] by (simp add: sz ix0)
  also have "map (\<lambda>k. slots r ! fq_ix r (Suc k)) [0..<n] = contents q"
  proof -
    have "nat h \<noteq> fq_ix q k" if "k < n" for k
      using fq_ix_inj [OF inv', of 0 "Suc k"] that n ix0 ix [of k] by (simp add: sz)
    then show ?thesis
      using fq_ix_less [OF inv] n by (auto simp: contents_def sz ix nth_list_update_neq)
  qed
  finally show ?thesis
    using push inv' unfolding r_def by (auto simp: capacity_def q'_def)
qed

lemma fq_peekD:
  assumes inv: "fq_inv q" and cons: "contents q = x # xs"
  shows "\<exists>p. fq_peekhead q = Some p \<and> slots q ! nat p = x"
  using fq_dequeueD [OF assms] fq_emptyD [OF inv] cons
  by (auto simp: fq_peekhead_def fq_dequeue_def)

lemma fq_peektailD:
  assumes inv: "fq_inv q" and snoc: "contents q = xs @ [x]"
  shows "\<exists>p. fq_peektail q = Some p \<and> slots q ! nat p = x"
  using fq_popD [OF assms] fq_emptyD [OF inv] snoc
  by (auto simp: fq_peektail_def fq_pop_def Let_def)

lemma fq_commit_eq_dequeue:
  "fq_inv q \<Longrightarrow> contents q \<noteq> [] \<Longrightarrow> fq_commit (head q) q = Some (snd (fq_dequeue q))"
  by (simp add: fq_commit_def fq_dequeue_def fq_emptyD)

lemma fq_annul_eq_pop:
  "fq_inv q \<Longrightarrow> contents q \<noteq> [] \<Longrightarrow> fq_annul i q = snd (fq_pop q)"
  by (simp add: fq_annul_def fq_pop_def fq_emptyD Let_def)

lemma fq_indexD: "fq_inv q \<Longrightarrow> k < length (contents q) \<Longrightarrow> fq_index (int k) q = contents q ! k"
  using length_contents [of q] fq_invD [of q]
  by (simp add: fq_index_def fq_aim contents_def fq_ix_def)

subsection \<open>Sequences of operations\<close>

datatype 'a dq_op = Enqueue 'a | Dequeue | Pop | PushHead 'a | PopHead | PeekHead | PeekTail | Reset

datatype 'a dq_out = Rejected | Done | Value 'a

text \<open>The specification: a list of at most \<open>cap\<close> elements.\<close>

fun deque_spec :: "'a dq_op \<Rightarrow> nat \<times> 'a list \<Rightarrow> 'a dq_out \<times> (nat \<times> 'a list)" where
  "deque_spec (Enqueue x) (cap, xs) =
     (if length xs < cap then (Done, (cap, xs @ [x])) else (Rejected, (cap, xs)))"
| "deque_spec (PushHead x) (cap, xs) =
     (if length xs < cap then (Done, (cap, x # xs)) else (Rejected, (cap, xs)))"
| "deque_spec Dequeue (cap, xs) =
     (case xs of [] \<Rightarrow> (Rejected, (cap, [])) | y # ys \<Rightarrow> (Value y, (cap, ys)))"
| "deque_spec PopHead (cap, xs) =
     (case xs of [] \<Rightarrow> (Rejected, (cap, [])) | y # ys \<Rightarrow> (Value y, (cap, ys)))"
| "deque_spec Pop (cap, xs) =
     (if xs = [] then (Rejected, (cap, [])) else (Value (last xs), (cap, butlast xs)))"
| "deque_spec PeekHead (cap, xs) =
     (if xs = [] then (Rejected, (cap, xs)) else (Value (hd xs), (cap, xs)))"
| "deque_spec PeekTail (cap, xs) =
     (if xs = [] then (Rejected, (cap, xs)) else (Value (last xs), (cap, xs)))"
| "deque_spec Reset (cap, xs) = (Done, (cap, []))"

text \<open>A client of the ring buffer reads and writes through the pointers it is given.\<close>

definition fq_read :: "int option \<times> 'a FixedQueue \<Rightarrow> 'a dq_out \<times> 'a FixedQueue" where
  "fq_read r = (case r of (None, q) \<Rightarrow> (Rejected, q) | (Some p, q) \<Rightarrow> (Value (slots q ! nat p), q))"

fun fq_step :: "'a dq_op \<Rightarrow> 'a FixedQueue \<Rightarrow> 'a dq_out \<times> 'a FixedQueue" where
  "fq_step (Enqueue x) q =
     (case fq_enqueue x q of (None, q1) \<Rightarrow> (Rejected, q1) | (Some p, q1) \<Rightarrow> (Done, q1))"
| "fq_step (PushHead x) q =
     (case fq_pushhead q of (None, q1) \<Rightarrow> (Rejected, q1)
      | (Some p, q1) \<Rightarrow> (Done, q1\<lparr>slots := (slots q1)[nat p := x]\<rparr>))"
| "fq_step Dequeue q = fq_read (fq_dequeue q)"
| "fq_step PopHead q = fq_read (fq_pophead q)"
| "fq_step Pop q = fq_read (fq_pop q)"
| "fq_step PeekHead q = fq_read (fq_peekhead q, q)"
| "fq_step PeekTail q = fq_read (fq_peektail q, q)"
| "fq_step Reset q = (Done, fq_reset q)"

definition fq_abs :: "'a FixedQueue \<Rightarrow> nat \<times> 'a list" where
  "fq_abs q = (capacity q, contents q)"

lemma fq_inv_slots: "fq_inv q \<Longrightarrow> slots q \<noteq> []"
  using fq_invD(1) [of q] by (auto simp: fq_size_def)

lemma fq_pophead_eq: "fq_pophead q = fq_dequeue q"
  by (simp add: fq_pophead_def fq_dequeue_def)

lemma fq_empty_ops:
  "fq_inv q \<Longrightarrow> contents q = [] \<Longrightarrow> fq_dequeue q = (None, q) \<and> fq_pop q = (None, q)
     \<and> fq_peekhead q = None \<and> fq_peektail q = None"
  by (simp add: fq_dequeue_def fq_pop_def fq_peekhead_def fq_peektail_def fq_emptyD)

lemma fq_pushhead_fullD:
  "fq_inv q \<Longrightarrow> \<not> length (contents q) < capacity q \<Longrightarrow> fq_pushhead q = (None, q)"
  by (simp add: fq_pushhead_def fq_full_def fq_fullD)

lemma fq_step_refines:
  assumes "fq_inv q"
  shows "fq_inv (snd (fq_step op q)) \<and> deque_spec op (fq_abs q) = map_prod id fq_abs (fq_step op q)"
proof (cases op)
  case (Enqueue x)
  then show ?thesis
    using assms fq_pushD [OF assms, of x] fq_push_fullD [OF assms, of x]
    by (cases "length (contents q) < capacity q") (auto simp: fq_abs_def fq_enqueue_def)
next
  case (PushHead x)
  then show ?thesis
    using assms fq_pushheadD [OF assms, of x] fq_pushhead_fullD [OF assms]
    by (cases "length (contents q) < capacity q") (auto simp: fq_abs_def)
next
  case Dequeue
  then show ?thesis
    using assms fq_dequeueD [OF assms] fq_empty_ops [OF assms]
    by (cases "contents q") (auto simp: fq_abs_def fq_read_def split: prod.splits)
next
  case PopHead
  then show ?thesis
    using assms fq_dequeueD [OF assms] fq_empty_ops [OF assms]
    by (cases "contents q") (auto simp: fq_abs_def fq_read_def fq_pophead_eq split: prod.splits)
next
  case Pop
  then show ?thesis
    using assms fq_popD [OF assms] fq_empty_ops [OF assms]
    by (cases "contents q" rule: rev_cases) (auto simp: fq_abs_def fq_read_def split: prod.splits)
next
  case PeekHead
  then show ?thesis
    using assms fq_peekD [OF assms] fq_empty_ops [OF assms]
    by (cases "contents q") (auto simp: fq_abs_def fq_read_def)
next
  case PeekTail
  then show ?thesis
    using assms fq_peektailD [OF assms] fq_empty_ops [OF assms]
    by (cases "contents q" rule: rev_cases) (auto simp: fq_abs_def fq_read_def)
next
  case Reset
  then show ?thesis
    using fq_resetD [OF fq_inv_slots [OF assms]] by (simp add: fq_abs_def)
qed

interpretation ring: simulation fq_step deque_spec fq_abs fq_inv
proof
  fix s op out s'
  assume "fq_inv s" "fq_step op s = (out, s')"
  with fq_step_refines [of s op] show "fq_inv s'" "deque_spec op (fq_abs s) = (out, fq_abs s')"
    by simp_all
qed

text \<open>
  Claim C31. The ring buffer implements a double-ended queue of capacity \<open>SIZE - 1\<close>: on every
  sequence of enqueue, dequeue, pop, push-head, pop-head, peek and reset operations it accepts,
  rejects and returns exactly what a list of bounded length does, and the list read from head
  to tail is the list of the specification at the end.
\<close>

theorem fixed_queue_refines_deque:
  assumes "fq_inv q"
  shows "run deque_spec ops (capacity q, contents q) =
    (fst (run fq_step ops q),
     (capacity (snd (run fq_step ops q)), contents (snd (run fq_step ops q))))"
  using ring.run_sim [OF assms, of ops] by (simp add: fq_abs_def map_prod_def split_beta)

theorem fixed_queue_refines_deque_witness:
  "fst (run fq_step [Enqueue 7, Enqueue 8, PushHead 9, Pop, Enqueue 5, PeekHead]
     \<lparr>slots = [0, 0, 0 :: nat], head = 2, tail = 2, count = 0\<rparr>)
   = [Done, Done, Rejected, Value 8, Done, Value 7]"
  using fixed_queue_refines_deque
    [of "\<lparr>slots = [0, 0, 0 :: nat], head = 2, tail = 2, count = 0\<rparr>"
      "[Enqueue 7, Enqueue 8, PushHead 9, Pop, Enqueue 5, PeekHead]"]
  by (simp add: fq_inv_def fq_size_def capacity_def contents_def)

subsection \<open>Iteration\<close>

lemma walk_indices:
  assumes "m \<le> fuel" "ix m = stop" "\<And>k. k < m \<Longrightarrow> ix k \<noteq> stop"
    "\<And>k. k < m \<Longrightarrow> add_index_modulo (ix k) step n = ix (Suc k)"
  shows "walk fuel n step stop (ix 0) = Some (map ix [0..<m])"
  using assms
proof (induction m arbitrary: fuel ix)
  case 0
  then show ?case by (simp add: walk.simps)
next
  case (Suc m)
  obtain f where f: "fuel = Suc f" "m \<le> f" using Suc.prems(1) by (cases fuel) auto
  have "walk f n step stop (ix (Suc 0)) = Some (map (ix \<circ> Suc) [0..<m])"
    using Suc.IH [of f "ix \<circ> Suc"] Suc.prems(2-4) f(2) by simp
  then have "walk fuel n step stop (ix 0) = Some (ix 0 # map (ix \<circ> Suc) [0..<m])"
    using Suc.prems(3,4) [of 0] f(1) by (subst walk.simps) simp
  then show ?case by (simp add: upt_conv_Cons map_Suc_upt [symmetric] del: upt_Suc)
qed

lemma int_fq_ix: "fq_inv q \<Longrightarrow> int (fq_ix q k) = (head q + int k) mod fq_size q"
  using fq_invD(1) [of q] by (simp add: fq_ix_def)

lemma foreach_contents:
  assumes "fq_inv q"
  shows "foreach_forward (length (slots q)) q = Some (map (\<lambda>k. int (fq_ix q k)) [0..<length (contents q)])
    \<and> foreach_backward (length (slots q)) q =
        Some (rev (map (\<lambda>k. int (fq_ix q k)) [0..<length (contents q)]))
    \<and> distinct (map (fq_ix q) [0..<length (contents q)])
    \<and> contents q = map (\<lambda>k. slots q ! fq_ix q k) [0..<length (contents q)]"
proof -
  note d = fq_invD [OF assms]
  define n where "n = length (contents q)"
  have n: "count q = int n" "n \<le> length (slots q)" "int n < fq_size q"
    using d length_contents [OF assms] by (auto simp: n_def fq_size_def)
  let ?N = "fq_size q" and ?ix = "\<lambda>k. (head q + int k) mod fq_size q"
    and ?xi = "\<lambda>k. (head q + (int n - 1 - int k)) mod fq_size q"
  have "walk (length (slots q)) ?N 1 (tail q) (?ix 0) = Some (map ?ix [0..<n])"
  proof (rule walk_indices)
    fix k assume "k < n"
    then show "?ix k \<noteq> tail q"
      using mod_add_inj [of "head q" "int k" ?N "int n"] d(8) n by auto
    show "add_index_modulo (?ix k) 1 ?N = ?ix (Suc k)"
      using add_index_modulo_mod [of "?ix k" ?N 1] d(1) mod_shift [of "head q" "int k" ?N 1]
      by (simp add: add.commute)
  qed (use n d(8) in simp_all)
  moreover have "walk (length (slots q)) ?N (-1) ((head q - 1) mod ?N) (?xi 0) = Some (map ?xi [0..<n])"
  proof (rule walk_indices)
    fix k assume "k < n"
    then show "?xi k \<noteq> (head q - 1) mod ?N"
      using mod_add_inj [of "head q - 1" "int n - int k" ?N 0] n by (auto simp: algebra_simps)
    show "add_index_modulo (?xi k) (-1) ?N = ?xi (Suc k)"
      using add_index_modulo_mod [of "?xi k" ?N "-1"] d(1) mod_shift [of "head q" "int n - 1 - int k" ?N "-1"]
      by (simp add: algebra_simps)
  qed (use n in simp_all)
  moreover have "map ?xi [0..<n] = rev (map ?ix [0..<n])"
    by (rule nth_equalityI) (auto simp: rev_nth of_nat_diff algebra_simps)
  ultimately show ?thesis
    using fq_aim(1) [OF assms, of "-1"] fq_aim(2) [OF assms, of "-1"] d n fq_ix_inj [OF assms]
    unfolding foreach_forward_def foreach_backward_def n_def [symmetric]
    by (simp add: int_fq_ix [OF assms] distinct_map inj_on_def contents_def add_diff_eq)
qed

text \<open>
  Claim C34. The iteration macros terminate and visit every live slot exactly once:
  \<^verbatim>\<open>foreach_forward\<close> in order from head to tail, \<^verbatim>\<open>foreach_backward\<close> in the reverse
  order, within \<open>SIZE\<close> rounds.
\<close>

theorem foreach_visits_contents:
  assumes "fq_inv q"
  shows "foreach_forward (length (slots q)) q = Some (map (\<lambda>k. int (fq_ix q k)) [0..<length (contents q)])
    \<and> foreach_backward (length (slots q)) q =
        Some (rev (map (\<lambda>k. int (fq_ix q k)) [0..<length (contents q)]))
    \<and> distinct (map (fq_ix q) [0..<length (contents q)])
    \<and> contents q = map (\<lambda>k. slots q ! fq_ix q k) [0..<length (contents q)]"
  by (rule foreach_contents [OF assms])

theorem foreach_visits_contents_witness:
  "foreach_backward 3 \<lparr>slots = [5, 6, 7 :: nat], head = 2, tail = 1, count = 2\<rparr> = Some [0, 2]"
  using foreach_visits_contents [of "\<lparr>slots = [5, 6, 7 :: nat], head = 2, tail = 1, count = 2\<rparr>"]
  by (simp add: fq_inv_def fq_size_def contents_def fq_ix_def eval_nat_numeral)

end
