(* ===== verification/Assoc_Tags.thy ===== *)
theory Assoc_Tags
  imports Bit_Utils
begin

text \<open>
  The tag arrays of \<^verbatim>\<open>src/x86sim/logic.h\<close>: \<^verbatim>\<open>FullyAssociativeTags\<close>,
  \<^verbatim>\<open>LockableFullyAssociativeTags\<close> and \<^verbatim>\<open>FullyAssociativeTagsNbitOneHot\<close>. All three
  answer which way holds a tag and choose a victim by the most-recently-used bit vector. The
  template argument \<open>ways\<close> (or \<open>size\<close>) is the length of the tag list, the invalid tag is all
  ones, a way of \<open>-1\<close> is a miss, and an \<open>oldtag\<close> reference parameter is an argument that is
  returned, updated or not.

  What a client of such an array relies on is the locale \<open>tag_array\<close>; each of the three arrays
  is an instance of it.
\<close>

subsection \<open>The contract of a tag array\<close>

text \<open>
  \<open>resident\<close> is the set of keys stored, \<open>key\<close> what the array compares of a tag, \<open>good\<close> the
  tags that can be looked up. A way of \<open>-1\<close> is a miss, or a full array.
\<close>

locale tag_array =
  fixes inv :: "'s \<Rightarrow> bool"
    and resident :: "'s \<Rightarrow> 'k set"
    and key :: "'t \<Rightarrow> 'k"
    and good :: "'t \<Rightarrow> bool"
    and probe :: "'t \<Rightarrow> 's \<Rightarrow> int \<times> 's"
    and select :: "'t \<Rightarrow> 's \<Rightarrow> int \<times> 's"
    and invalidate :: "'t \<Rightarrow> 's \<Rightarrow> 's"
  assumes probe_inv: "inv s \<Longrightarrow> good t \<Longrightarrow> inv (snd (probe t s)) \<and> resident (snd (probe t s)) = resident s"
    and probe_hit: "inv s \<Longrightarrow> good t \<Longrightarrow> 0 \<le> fst (probe t s) \<longleftrightarrow> key t \<in> resident s"
    and select_inv: "inv s \<Longrightarrow> good t \<Longrightarrow> inv (snd (select t s))"
    and select_hit: "inv s \<Longrightarrow> good t \<Longrightarrow> key t \<in> resident s \<Longrightarrow>
      resident (snd (select t s)) = resident s \<and> 0 \<le> fst (select t s)"
    and select_miss: "inv s \<Longrightarrow> good t \<Longrightarrow> key t \<notin> resident s \<Longrightarrow> 0 \<le> fst (select t s) \<Longrightarrow>
      \<exists>victim. resident (snd (select t s)) = insert (key t) (resident s - {victim})"
    and select_full: "inv s \<Longrightarrow> good t \<Longrightarrow> fst (select t s) < 0 \<Longrightarrow>
      resident (snd (select t s)) = resident s"
    and invalidate_inv: "inv s \<Longrightarrow> good t \<Longrightarrow> inv (invalidate t s)
      \<and> resident (invalidate t s) = resident s - {key t}"
begin

lemma probe_after_select:
  "inv s \<Longrightarrow> good t \<Longrightarrow> 0 \<le> fst (select t s) \<Longrightarrow> 0 \<le> fst (probe t (snd (select t s)))"
  using select_hit [of s t] select_miss [of s t] select_inv [of s t] probe_hit [of "snd (select t s)" t]
  by (cases "key t \<in> resident s") auto

lemma probe_after_invalidate:
  "inv s \<Longrightarrow> good t \<Longrightarrow> fst (probe t (invalidate t s)) < 0"
  using invalidate_inv [of s t] probe_hit [of "invalidate t s" t] by auto

lemma invalidate_other:
  assumes "inv s" "good t" "good u" "key u \<noteq> key t"
  shows "0 \<le> fst (probe u (invalidate t s)) \<longleftrightarrow> 0 \<le> fst (probe u s)"
  using assms invalidate_inv [of s t] probe_hit [of "invalidate t s" u] probe_hit [of s u] by auto

lemma select_evicts_at_most_one:
  assumes "inv s" "good t"
  shows "\<exists>victim. resident s - {victim} \<subseteq> resident (snd (select t s))
    \<and> resident (snd (select t s)) \<subseteq> insert (key t) (resident s)"
  using select_hit [OF assms] select_miss [OF assms] select_full [OF assms]
  by (cases "key t \<in> resident s"; cases "0 \<le> fst (select t s)") auto

end

subsection \<open>Tag vectors with an invalid value\<close>

text \<open>The branch-free match of the source: one plus the way, summed over the matching ways.\<close>

definition way_sum :: "'a::len word list \<Rightarrow> 'a word \<Rightarrow> int" where
  "way_sum ts target = sum_list (map (\<lambda>i. if ts ! i = target then int i + 1 else 0) [0..<length ts]) - 1"

definition uniq_tags :: "'a::len word list \<Rightarrow> bool" where
  "uniq_tags ts \<longleftrightarrow> (\<forall>i < length ts. \<forall>j < length ts. ts ! i = ts ! j \<longrightarrow> i = j \<or> ts ! i = -1)"

definition valid_tags :: "'a::len word list \<Rightarrow> 'a word set" where
  "valid_tags ts = set ts - {-1}"

lemma way_sum_hit:
  assumes "uniq_tags ts" "i < length ts" "ts ! i = t" "t \<noteq> -1"
  shows "way_sum ts t = int i"
proof -
  have "ts ! j \<noteq> t" if "j < length ts" "j \<noteq> i" for j
    using assms that by (auto simp: uniq_tags_def)
  then have "sum_list (map (\<lambda>i. if ts ! i = t then int i + 1 else 0) [0..<length ts]) = int i + 1"
    using sum_list_single_index [of i "length ts" "\<lambda>i. if ts ! i = t then int i + 1 else 0"] assms by simp
  then show ?thesis by (simp add: way_sum_def)
qed

lemma way_sum_miss: "t \<notin> set ts \<Longrightarrow> way_sum ts t = -1"
  unfolding way_sum_def by (subst sum_list_all_zero) (auto simp: in_set_conv_nth)

lemma way_sum_cases:
  assumes "uniq_tags ts" "t \<noteq> -1"
  obtains (hit) i where "i < length ts" "ts ! i = t" "way_sum ts t = int i" "t \<in> valid_tags ts"
  | (miss) "t \<notin> set ts" "way_sum ts t = -1" "t \<notin> valid_tags ts"
  using way_sum_hit [OF assms(1) _ _ assms(2)] way_sum_miss [of t ts] assms(2)
  by (cases "t \<in> set ts") (auto simp: in_set_conv_nth valid_tags_def)

lemma uniq_tags_other:
  assumes "uniq_tags ts" "w < length ts" "x \<noteq> -1"
  shows "(\<exists>i < length ts. i \<noteq> w \<and> ts ! i = x) \<longleftrightarrow> x \<in> set ts \<and> x \<noteq> ts ! w"
  using assms unfolding uniq_tags_def in_set_conv_nth by metis

lemma uniq_tags_update:
  "uniq_tags ts \<Longrightarrow> t \<notin> set ts \<or> t = -1 \<Longrightarrow> uniq_tags (ts[w := t])"
  by (cases "w < length ts") (auto simp: uniq_tags_def in_set_conv_nth)

lemma valid_tags_update:
  assumes "uniq_tags ts" "w < length ts" "t \<notin> set ts" "t \<noteq> -1"
  shows "valid_tags (ts[w := t]) = insert t (valid_tags ts - {ts ! w})"
proof (rule set_eqI)
  fix x
  have "x \<in> set (ts[w := t]) \<longleftrightarrow> x = t \<or> (\<exists>i < length ts. i \<noteq> w \<and> ts ! i = x)"
    using assms(2) by (auto simp: in_set_conv_nth)
  then show "x \<in> valid_tags (ts[w := t]) \<longleftrightarrow> x \<in> insert t (valid_tags ts - {ts ! w})"
    using assms(4) uniq_tags_other [OF assms(1,2), of x] by (auto simp: valid_tags_def)
qed

lemma valid_tags_clear:
  assumes "uniq_tags ts" "w < length ts" "ts ! w \<noteq> -1"
  shows "valid_tags (ts[w := -1]) = valid_tags ts - {ts ! w}"
proof (rule set_eqI)
  fix x
  have "x \<in> set (ts[w := -1]) \<longleftrightarrow> x = -1 \<or> (\<exists>i < length ts. i \<noteq> w \<and> ts ! i = x)"
    using assms(2) by (auto simp: in_set_conv_nth)
  then show "x \<in> valid_tags (ts[w := -1]) \<longleftrightarrow> x \<in> valid_tags ts - {ts ! w}"
    using uniq_tags_other [OF assms(1,2), of x] by (auto simp: valid_tags_def)
qed

lemma valid_tags_reset: "valid_tags (replicate n (-1)) = {}" "uniq_tags (replicate n (-1))"
  by (auto simp: valid_tags_def uniq_tags_def)

subsection \<open>Fully associative tags\<close>

record 't FullyAssociativeTags =
  fat_evictmap :: bitset
  fat_tags :: "'t list"

definition fat_ways :: "'a::len word FullyAssociativeTags \<Rightarrow> nat" where
  "fat_ways s = length (fat_tags s)"

definition fat_reset :: "'a::len word FullyAssociativeTags \<Rightarrow> 'a word FullyAssociativeTags" where
  "fat_reset s = s\<lparr>fat_evictmap := bs_zero (fat_ways s), fat_tags := replicate (fat_ways s) (-1)\<rparr>"

definition fat_use :: "int \<Rightarrow> 'a::len word FullyAssociativeTags \<Rightarrow> 'a word FullyAssociativeTags" where
  "fat_use way s = s\<lparr>fat_evictmap := (fat_evictmap s)[nat way := True]\<rparr>"

definition fat_match :: "'a::len word \<Rightarrow> 'a word FullyAssociativeTags \<Rightarrow> int" where
  "fat_match target s = way_sum (fat_tags s) target"

definition fat_probe :: "'a::len word \<Rightarrow> 'a word FullyAssociativeTags \<Rightarrow> int \<times> 'a word FullyAssociativeTags" where
  "fat_probe target s =
     (let way = fat_match target s
      in if way < 0 then (-1, s) else (way, fat_use way s))"

definition fat_lru :: "'a::len word FullyAssociativeTags \<Rightarrow> int" where
  "fat_lru s = (if bs_all (fat_evictmap s) then 0 else int (lsb (bs_not (fat_evictmap s))))"

definition fat_select ::
  "'a::len word \<Rightarrow> 'a word \<Rightarrow> 'a word FullyAssociativeTags \<Rightarrow> int \<times> 'a word \<times> 'a word FullyAssociativeTags" where
  "fat_select target oldtag s =
     (let (way, s1) = fat_probe target s
      in if way < 0
         then let way = fat_lru s1;
                  s2 = (if bs_all (fat_evictmap s1) then s1\<lparr>fat_evictmap := bs_zero (fat_ways s1)\<rparr> else s1);
                  oldtag = fat_tags s2 ! nat way;
                  s3 = s2\<lparr>fat_tags := (fat_tags s2)[nat way := target]\<rparr>
              in (way, oldtag, fat_use way s3)
         else (way, oldtag, fat_use way s1))"

definition fat_invalidate_way :: "int \<Rightarrow> 'a::len word FullyAssociativeTags \<Rightarrow> 'a word FullyAssociativeTags" where
  "fat_invalidate_way way s =
     s\<lparr>fat_tags := (fat_tags s)[nat way := -1], fat_evictmap := (fat_evictmap s)[nat way := False]\<rparr>"

definition fat_invalidate ::
  "'a::len word \<Rightarrow> 'a word FullyAssociativeTags \<Rightarrow> int \<times> 'a word FullyAssociativeTags" where
  "fat_invalidate target s =
     (let (way, s1) = fat_probe target s
      in if way < 0 then (-1, s1) else (way, fat_invalidate_way way s1))"

definition fat_inv :: "'a::len word FullyAssociativeTags \<Rightarrow> bool" where
  "fat_inv s \<longleftrightarrow> 0 < fat_ways s \<and> length (fat_evictmap s) = fat_ways s \<and> uniq_tags (fat_tags s)"

lemma fat_use_simps [simp]:
  "fat_tags (fat_use w s) = fat_tags s" "fat_ways (fat_use w s) = fat_ways s"
  "fat_evictmap (fat_use w s) = (fat_evictmap s)[nat w := True]"
  by (simp_all add: fat_use_def fat_ways_def)

lemma fat_inv_use [simp]: "fat_inv (fat_use w s) = fat_inv s"
  by (simp add: fat_inv_def)

lemma fat_lru_range: "fat_inv s \<Longrightarrow> 0 \<le> fat_lru s \<and> nat (fat_lru s) < fat_ways s"
  using lsb_not_less [of "fat_evictmap s"] by (auto simp: fat_lru_def fat_inv_def)

lemma fat_probe_cases:
  assumes "fat_inv s" "t \<noteq> -1"
  obtains (hit) i where "i < fat_ways s" "fat_tags s ! i = t" "fat_probe t s = (int i, fat_use (int i) s)"
      "t \<in> valid_tags (fat_tags s)"
  | (miss) "t \<notin> set (fat_tags s)" "fat_probe t s = (-1, s)" "t \<notin> valid_tags (fat_tags s)"
proof (rule way_sum_cases [of "fat_tags s" t])
  show "uniq_tags (fat_tags s)" using assms(1) by (simp add: fat_inv_def)
qed (auto simp: assms(2) fat_ways_def fat_probe_def fat_match_def Let_def intro: that)

text \<open>What a miss of \<^verbatim>\<open>select\<close> does: the victim way now holds the tag, nothing else moves.\<close>

lemma fat_select_miss:
  assumes "fat_inv s" "t \<noteq> -1" "t \<notin> set (fat_tags s)"
  defines "w \<equiv> nat (fat_lru s)"
  shows "fst (fat_select t old s) = int w" "fst (snd (fat_select t old s)) = fat_tags s ! w"
    "fat_tags (snd (snd (fat_select t old s))) = (fat_tags s)[w := t]"
    "fat_inv (snd (snd (fat_select t old s)))"
  using assms fat_lru_range [OF assms(1)] uniq_tags_update [of "fat_tags s" t w]
  by (auto simp: fat_select_def fat_probe_def fat_match_def way_sum_miss Let_def fat_inv_def fat_ways_def)

lemma fat_select_hit:
  assumes "fat_inv s" "i < fat_ways s" "fat_tags s ! i = t" "t \<noteq> -1"
  shows "fat_select t old s = (int i, old, fat_use (int i) s)"
  using assms way_sum_hit [of "fat_tags s" i t]
  by (simp add: fat_select_def fat_probe_def fat_match_def fat_inv_def fat_ways_def fat_use_def)

lemma fat_select_spec:
  assumes "fat_inv s" "t \<noteq> -1"
  shows "0 \<le> fst (fat_select t old s)" "nat (fst (fat_select t old s)) < fat_ways s"
    "fat_inv (snd (snd (fat_select t old s)))"
    "fat_tags (snd (snd (fat_select t old s))) = (fat_tags s)[nat (fst (fat_select t old s)) := t]"
  using fat_lru_range [OF assms(1)] assms
  by (cases rule: fat_probe_cases [OF assms]; auto simp: fat_select_hit fat_select_miss; fail)+

lemma fat_select_valid:
  assumes "fat_inv s" "t \<noteq> -1"
  shows "\<exists>victim. valid_tags (fat_tags (snd (snd (fat_select t old s)))) \<union> {victim} =
    insert t (valid_tags (fat_tags s)) \<union> {victim}"
  using assms
proof (cases rule: fat_probe_cases)
  case (hit i)
  then show ?thesis using assms by (auto simp: fat_select_hit)
next
  case miss
  then show ?thesis
    using assms fat_lru_range [OF assms(1)] valid_tags_update [of "fat_tags s" "nat (fat_lru s)" t]
    by (auto simp: fat_select_miss fat_inv_def fat_ways_def)
qed

lemma fat_invalidate_spec:
  assumes "fat_inv s" "t \<noteq> -1"
  shows "fat_inv (snd (fat_invalidate t s))
    \<and> valid_tags (fat_tags (snd (fat_invalidate t s))) = valid_tags (fat_tags s) - {t}"
  using assms
proof (cases rule: fat_probe_cases)
  case (hit i)
  then show ?thesis
    using assms valid_tags_clear [of "fat_tags s" i] uniq_tags_update [of "fat_tags s" "-1" i]
    by (simp add: fat_invalidate_def fat_invalidate_way_def fat_inv_def fat_ways_def)
next
  case miss
  then show ?thesis using assms by (simp add: fat_invalidate_def)
qed

interpretation fat: tag_array fat_inv "\<lambda>s. valid_tags (fat_tags s)" id "\<lambda>t. t \<noteq> -1"
  fat_probe "\<lambda>t s. (fst (fat_select t 0 s), snd (snd (fat_select t 0 s)))"
  "\<lambda>t s. snd (fat_invalidate t s)"
proof
  fix s :: "'a word FullyAssociativeTags" and t :: "'a word"
  assume a: "fat_inv s" "t \<noteq> -1"
  show "fat_inv (snd (fat_probe t s)) \<and> valid_tags (fat_tags (snd (fat_probe t s))) = valid_tags (fat_tags s)"
    and "0 \<le> fst (fat_probe t s) \<longleftrightarrow> id t \<in> valid_tags (fat_tags s)"
    using a by (cases rule: fat_probe_cases; simp)+
  show "fat_inv (snd (fst (fat_select t 0 s), snd (snd (fat_select t 0 s))))"
    by (cases rule: fat_probe_cases [OF a]) (simp_all add: a fat_select_hit fat_select_miss)
  show "fat_inv (snd (fat_invalidate t s))
      \<and> valid_tags (fat_tags (snd (fat_invalidate t s))) = valid_tags (fat_tags s) - {id t}"
    using fat_invalidate_spec [OF a] by simp
  show "valid_tags (fat_tags (snd (fst (fat_select t 0 s), snd (snd (fat_select t 0 s))))) = valid_tags (fat_tags s)"
    if "fst (fst (fat_select t 0 s), snd (snd (fat_select t 0 s))) < 0"
    using that by (cases rule: fat_probe_cases [OF a])
      (simp_all add: a fat_select_hit fat_select_miss split: if_splits)
  show "valid_tags (fat_tags (snd (fst (fat_select t 0 s), snd (snd (fat_select t 0 s))))) = valid_tags (fat_tags s)
      \<and> 0 \<le> fst (fst (fat_select t 0 s), snd (snd (fat_select t 0 s)))"
    if "id t \<in> valid_tags (fat_tags s)"
    using that by (cases rule: fat_probe_cases [OF a]) (simp_all add: a fat_select_hit)
  show "\<exists>victim. valid_tags (fat_tags (snd (fst (fat_select t 0 s), snd (snd (fat_select t 0 s))))) =
      insert (id t) (valid_tags (fat_tags s) - {victim})"
    if "id t \<notin> valid_tags (fat_tags s)"
    using a
  proof (cases rule: fat_probe_cases)
    case miss
    then show ?thesis
      using a fat_lru_range [OF a(1)] valid_tags_update [of "fat_tags s" "nat (fat_lru s)" t]
      by (auto simp: fat_select_miss fat_inv_def fat_ways_def)
  qed (use that in simp)
qed

text \<open>
  After a tag has been selected in a fully associative tag array, a probe for it
  hits the way that select returned, and the way holds the tag; at most one other tag was
  evicted, and the array still holds every tag at most once.
\<close>

theorem fat_select_then_probe:
  assumes "fat_inv s" "t \<noteq> -1"
  shows "let (w, old', s') = fat_select t old s
    in fat_inv s' \<and> 0 \<le> w \<and> nat w < fat_ways s \<and> fat_tags s' ! nat w = t
       \<and> fst (fat_probe t s') = w
       \<and> (\<exists>victim. valid_tags (fat_tags s') \<union> {victim} = insert t (valid_tags (fat_tags s)) \<union> {victim})"
proof -
  define w where "w = fst (fat_select t old s)"
  define s' where "s' = snd (snd (fat_select t old s))"
  note sel = fat_select_spec [OF assms, of old, folded w_def s'_def]
  have "fst (fat_probe t s') = w"
    using way_sum_hit [of "fat_tags s'" "nat w" t] sel assms(2)
    by (simp add: fat_probe_def fat_match_def fat_inv_def fat_ways_def Let_def)
  with sel fat_select_valid [OF assms, of old, folded s'_def] show ?thesis
    by (auto simp: Let_def split_beta w_def [symmetric] s'_def [symmetric] fat_ways_def)
qed

theorem fat_select_then_probe_witness:
  "fst (fat_select (7 :: W8) 0 \<lparr>fat_evictmap = [True, False], fat_tags = [3, 5]\<rparr>) = 1 \<and>
   fst (fat_probe (7 :: W8)
     (snd (snd (fat_select 7 0 \<lparr>fat_evictmap = [True, False], fat_tags = [3, 5]\<rparr>)))) = 1"
proof -
  let ?s = "\<lparr>fat_evictmap = [True, False], fat_tags = [3, 5 :: W8]\<rparr>"
  have "fat_inv ?s" "fst (fat_select 7 0 ?s) = 1" by code_simp+
  then show ?thesis
    using fat_select_then_probe [of ?s 7 0] by (simp add: split_beta Let_def)
qed

text \<open>
  The victim is never the most recently used way while another way is available:
  when some way has its use bit clear, the replaced way had its bit clear.
\<close>

theorem fat_victim_not_recent:
  assumes "fat_inv s" "t \<noteq> -1" "t \<notin> set (fat_tags s)" "\<not> bs_all (fat_evictmap s)"
  shows "\<not> fat_evictmap s ! nat (fst (fat_select t old s))
    \<and> fat_evictmap (snd (snd (fat_select t old s))) ! nat (fst (fat_select t old s))"
  using assms fat_select_miss [OF assms(1-3), of old] lsb_not_clear [OF assms(4)] lsb_not_less [OF assms(4)]
  by (auto simp: fat_lru_def) (simp add: fat_select_def fat_probe_def fat_match_def way_sum_miss
    fat_lru_def Let_def)

theorem fat_victim_not_recent_witness:
  "\<not> [True, False] ! nat (fst (fat_select (7 :: W8) 0 \<lparr>fat_evictmap = [True, False], fat_tags = [3, 5]\<rparr>))"
proof -
  let ?s = "\<lparr>fat_evictmap = [True, False], fat_tags = [3, 5 :: W8]\<rparr>"
  have "fat_inv ?s" "(7 :: W8) \<notin> set (fat_tags ?s)" "\<not> bs_all (fat_evictmap ?s)" by code_simp+
  then show ?thesis
    using fat_victim_not_recent [of ?s 7 0] by simp
qed

text \<open>
  The branch-free match counts every matching way, so a probe for the invalid tag itself, which
  several ways can hold, yields a way outside the array.
\<close>

lemma fat_match_invalid:
  "fat_match (-1) \<lparr>fat_evictmap = bs_zero 2, fat_tags = [-1, -1 :: W8]\<rparr> = 2"
  by (simp add: fat_match_def way_sum_def)

subsection \<open>Lockable fully associative tags\<close>

record 't LockableFullyAssociativeTags =
  lkt_evictmap :: bitset
  lkt_unlockedmap :: bitset
  lkt_tags :: "'t list"

definition lkt_ways :: "'a::len word LockableFullyAssociativeTags \<Rightarrow> nat" where
  "lkt_ways s = length (lkt_tags s)"

definition lkt_reset :: "'a::len word LockableFullyAssociativeTags \<Rightarrow> 'a word LockableFullyAssociativeTags" where
  "lkt_reset s = s\<lparr>lkt_evictmap := bs_zero (lkt_ways s), lkt_unlockedmap := bs_ones (lkt_ways s),
     lkt_tags := replicate (lkt_ways s) (-1)\<rparr>"

definition lkt_use :: "int \<Rightarrow> 'a::len word LockableFullyAssociativeTags \<Rightarrow> 'a word LockableFullyAssociativeTags" where
  "lkt_use way s = s\<lparr>lkt_evictmap := (lkt_evictmap s)[nat way := True]\<rparr>"

definition lkt_match :: "'a::len word \<Rightarrow> 'a word LockableFullyAssociativeTags \<Rightarrow> int" where
  "lkt_match target s = way_sum (lkt_tags s) target"

definition lkt_probe ::
  "'a::len word \<Rightarrow> 'a word LockableFullyAssociativeTags \<Rightarrow> int \<times> 'a word LockableFullyAssociativeTags" where
  "lkt_probe target s =
     (let way = lkt_match target s
      in if way < 0 then (-1, s) else (way, lkt_use way s))"

definition lkt_lru :: "'a::len word LockableFullyAssociativeTags \<Rightarrow> int" where
  "lkt_lru s =
     (if bs_none (lkt_unlockedmap s) then -1
      else let w = bs_and (bs_not (lkt_evictmap s)) (lkt_unlockedmap s)
           in if bs_any w then int (lsb w) else 0)"

definition lkt_select ::
  "'a::len word \<Rightarrow> 'a word \<Rightarrow> 'a word LockableFullyAssociativeTags
   \<Rightarrow> int \<times> 'a word \<times> 'a word LockableFullyAssociativeTags" where
  "lkt_select target oldtag s =
     (let (way, s1) = lkt_probe target s
      in if way < 0
         then let way = lkt_lru s1
              in if way < 0 then (-1, oldtag, s1)
                 else let s2 = (if bs_all (lkt_evictmap s1)
                                then s1\<lparr>lkt_evictmap := bs_zero (lkt_ways s1)\<rparr> else s1);
                          oldtag = lkt_tags s2 ! nat way;
                          s3 = s2\<lparr>lkt_tags := (lkt_tags s2)[nat way := target]\<rparr>
                      in (way, oldtag, lkt_use way s3)
         else (way, oldtag, lkt_use way s1))"

definition lkt_lock :: "int \<Rightarrow> 'a::len word LockableFullyAssociativeTags \<Rightarrow> 'a word LockableFullyAssociativeTags" where
  "lkt_lock way s = s\<lparr>lkt_unlockedmap := (lkt_unlockedmap s)[nat way := False]\<rparr>"

definition lkt_unlock :: "int \<Rightarrow> 'a::len word LockableFullyAssociativeTags \<Rightarrow> 'a word LockableFullyAssociativeTags" where
  "lkt_unlock way s = s\<lparr>lkt_unlockedmap := (lkt_unlockedmap s)[nat way := True]\<rparr>"

definition lkt_islocked :: "int \<Rightarrow> 'a::len word LockableFullyAssociativeTags \<Rightarrow> bool" where
  "lkt_islocked way s \<longleftrightarrow> \<not> lkt_unlockedmap s ! nat way"

definition lkt_select_and_lock ::
  "'a::len word \<Rightarrow> bool \<Rightarrow> 'a word \<Rightarrow> 'a word LockableFullyAssociativeTags
   \<Rightarrow> int \<times> bool \<times> 'a word \<times> 'a word LockableFullyAssociativeTags" where
  "lkt_select_and_lock tag firstlock oldtag s =
     (let (way, oldtag', s1) = lkt_select tag oldtag s
      in if way < 0 then (way, firstlock, oldtag', s1)
         else (way, lkt_unlockedmap s1 ! nat way, oldtag', lkt_lock way s1))"

definition lkt_invalidate_way ::
  "int \<Rightarrow> 'a::len word LockableFullyAssociativeTags \<Rightarrow> 'a word LockableFullyAssociativeTags" where
  "lkt_invalidate_way way s =
     s\<lparr>lkt_tags := (lkt_tags s)[nat way := -1], lkt_evictmap := (lkt_evictmap s)[nat way := False],
       lkt_unlockedmap := (lkt_unlockedmap s)[nat way := True]\<rparr>"

text \<open>On a hit \<^verbatim>\<open>invalidate\<close> falls off its end without a return value: \<open>None\<close>.\<close>

definition lkt_invalidate ::
  "'a::len word \<Rightarrow> 'a word LockableFullyAssociativeTags
   \<Rightarrow> int option \<times> 'a word LockableFullyAssociativeTags" where
  "lkt_invalidate target s =
     (let (way, s1) = lkt_probe target s
      in if way < 0 then (Some (-1), s1) else (None, lkt_invalidate_way way s1))"

definition lkt_inv :: "'a::len word LockableFullyAssociativeTags \<Rightarrow> bool" where
  "lkt_inv s \<longleftrightarrow> 0 < lkt_ways s \<and> length (lkt_evictmap s) = lkt_ways s
     \<and> length (lkt_unlockedmap s) = lkt_ways s \<and> uniq_tags (lkt_tags s)"

lemma lkt_use_simps [simp]:
  "lkt_tags (lkt_use w s) = lkt_tags s" "lkt_ways (lkt_use w s) = lkt_ways s"
  "lkt_evictmap (lkt_use w s) = (lkt_evictmap s)[nat w := True]"
  "lkt_unlockedmap (lkt_use w s) = lkt_unlockedmap s"
  by (simp_all add: lkt_use_def lkt_ways_def)

lemma lkt_inv_use [simp]: "lkt_inv (lkt_use w s) = lkt_inv s"
  by (simp add: lkt_inv_def)

lemma lkt_lru_range: "lkt_inv s \<Longrightarrow> -1 \<le> lkt_lru s \<and> nat (lkt_lru s) < lkt_ways s"
  using lsb_less [of "bs_and (bs_not (lkt_evictmap s)) (lkt_unlockedmap s)"]
  by (auto simp: lkt_lru_def lkt_inv_def Let_def bs_any_def)

lemma lkt_probe_cases:
  assumes "lkt_inv s" "t \<noteq> -1"
  obtains (hit) i where "i < lkt_ways s" "lkt_tags s ! i = t" "lkt_probe t s = (int i, lkt_use (int i) s)"
      "t \<in> valid_tags (lkt_tags s)"
  | (miss) "t \<notin> set (lkt_tags s)" "lkt_probe t s = (-1, s)" "t \<notin> valid_tags (lkt_tags s)"
proof (rule way_sum_cases [of "lkt_tags s" t])
  show "uniq_tags (lkt_tags s)" using assms(1) by (simp add: lkt_inv_def)
qed (auto simp: assms(2) lkt_ways_def lkt_probe_def lkt_match_def Let_def intro: that)

lemma lkt_select_hit:
  assumes "lkt_inv s" "i < lkt_ways s" "lkt_tags s ! i = t" "t \<noteq> -1"
  shows "lkt_select t old s = (int i, old, lkt_use (int i) s)"
  using assms way_sum_hit [of "lkt_tags s" i t]
  by (simp add: lkt_select_def lkt_probe_def lkt_match_def lkt_inv_def lkt_ways_def lkt_use_def)

lemma lkt_select_full:
  assumes "t \<notin> set (lkt_tags s)" "lkt_lru s < 0"
  shows "lkt_select t old s = (-1, old, s)"
  using assms by (simp add: lkt_select_def lkt_probe_def lkt_match_def way_sum_miss)

lemma lkt_select_miss:
  assumes "lkt_inv s" "t \<noteq> -1" "t \<notin> set (lkt_tags s)" "0 \<le> lkt_lru s"
  defines "w \<equiv> nat (lkt_lru s)"
  shows "fst (lkt_select t old s) = int w" "fst (snd (lkt_select t old s)) = lkt_tags s ! w"
    "lkt_tags (snd (snd (lkt_select t old s))) = (lkt_tags s)[w := t]"
    "lkt_unlockedmap (snd (snd (lkt_select t old s))) = lkt_unlockedmap s"
    "lkt_inv (snd (snd (lkt_select t old s)))"
  using assms lkt_lru_range [OF assms(1)] uniq_tags_update [of "lkt_tags s" t w]
  by (auto simp: lkt_select_def lkt_probe_def lkt_match_def way_sum_miss Let_def lkt_inv_def lkt_ways_def)

lemma lkt_invalidate_spec:
  assumes "lkt_inv s" "t \<noteq> -1"
  shows "lkt_inv (snd (lkt_invalidate t s))
    \<and> valid_tags (lkt_tags (snd (lkt_invalidate t s))) = valid_tags (lkt_tags s) - {t}"
  using assms
proof (cases rule: lkt_probe_cases)
  case (hit i)
  then show ?thesis
    using assms valid_tags_clear [of "lkt_tags s" i] uniq_tags_update [of "lkt_tags s" "-1" i]
    by (simp add: lkt_invalidate_def lkt_invalidate_way_def lkt_inv_def lkt_ways_def)
next
  case miss
  then show ?thesis using assms by (simp add: lkt_invalidate_def)
qed

interpretation lkt: tag_array lkt_inv "\<lambda>s. valid_tags (lkt_tags s)" id "\<lambda>t. t \<noteq> -1"
  lkt_probe "\<lambda>t s. (fst (lkt_select t 0 s), snd (snd (lkt_select t 0 s)))"
  "\<lambda>t s. snd (lkt_invalidate t s)"
proof
  fix s :: "'a word LockableFullyAssociativeTags" and t :: "'a word"
  assume a: "lkt_inv s" "t \<noteq> -1"
  show "lkt_inv (snd (lkt_probe t s)) \<and> valid_tags (lkt_tags (snd (lkt_probe t s))) = valid_tags (lkt_tags s)"
    and "0 \<le> fst (lkt_probe t s) \<longleftrightarrow> id t \<in> valid_tags (lkt_tags s)"
    using a by (cases rule: lkt_probe_cases; simp)+
  show "lkt_inv (snd (fst (lkt_select t 0 s), snd (snd (lkt_select t 0 s))))"
    by (cases rule: lkt_probe_cases [OF a]; cases "lkt_lru s < 0")
      (simp_all add: a lkt_select_hit lkt_select_miss lkt_select_full)
  show "lkt_inv (snd (lkt_invalidate t s))
      \<and> valid_tags (lkt_tags (snd (lkt_invalidate t s))) = valid_tags (lkt_tags s) - {id t}"
    using lkt_invalidate_spec [OF a] by simp
  show "valid_tags (lkt_tags (snd (fst (lkt_select t 0 s), snd (snd (lkt_select t 0 s))))) = valid_tags (lkt_tags s)"
    if "fst (fst (lkt_select t 0 s), snd (snd (lkt_select t 0 s))) < 0"
    using that by (cases rule: lkt_probe_cases [OF a]; cases "lkt_lru s < 0")
      (simp_all add: a lkt_select_hit lkt_select_miss lkt_select_full)
  show "valid_tags (lkt_tags (snd (fst (lkt_select t 0 s), snd (snd (lkt_select t 0 s))))) = valid_tags (lkt_tags s)
      \<and> 0 \<le> fst (fst (lkt_select t 0 s), snd (snd (lkt_select t 0 s)))"
    if "id t \<in> valid_tags (lkt_tags s)"
    using that by (cases rule: lkt_probe_cases [OF a]) (simp_all add: a lkt_select_hit)
  show "\<exists>victim. valid_tags (lkt_tags (snd (fst (lkt_select t 0 s), snd (snd (lkt_select t 0 s))))) =
      insert (id t) (valid_tags (lkt_tags s) - {victim})"
    if miss: "id t \<notin> valid_tags (lkt_tags s)" and way: "0 \<le> fst (fst (lkt_select t 0 s), snd (snd (lkt_select t 0 s)))"
    using a
  proof (cases rule: lkt_probe_cases)
    case miss
    then have "0 \<le> lkt_lru s" using way lkt_select_full [of t s 0] by fastforce
    then show ?thesis
      using a miss lkt_lru_range [OF a(1)] valid_tags_update [of "lkt_tags s" "nat (lkt_lru s)" t]
      by (auto simp: lkt_select_miss lkt_inv_def lkt_ways_def)
  qed (use miss in simp)
qed

text \<open>
  Claim C33. A locked line survives a select of another tag as long as some unlocked way has
  its use bit clear, and when every way is locked select fails and changes nothing.
\<close>

theorem lkt_select_respects_locks:
  assumes "lkt_inv s" "t \<noteq> -1" "t \<notin> set (lkt_tags s)" "lkt_islocked (int i) s" "i < lkt_ways s"
    and "bs_none (lkt_unlockedmap s) \<or> bs_any (bs_and (bs_not (lkt_evictmap s)) (lkt_unlockedmap s))"
  shows "lkt_tags (snd (snd (lkt_select t old s))) ! i = lkt_tags s ! i
    \<and> (bs_none (lkt_unlockedmap s) \<longrightarrow> lkt_select t old s = (-1, old, s))"
proof (cases "bs_none (lkt_unlockedmap s)")
  case True
  then show ?thesis
    using lkt_select_full [OF assms(3), of old] by (simp add: lkt_lru_def)
next
  case False
  define w where "w = bs_and (bs_not (lkt_evictmap s)) (lkt_unlockedmap s)"
  have w: "\<not> bs_none w" "length w = lkt_ways s"
    using False assms by (auto simp: w_def bs_any_def lkt_inv_def)
  then have lru: "lkt_lru s = int (lsb w)" using False by (simp add: lkt_lru_def Let_def w_def bs_any_def)
  have "lkt_unlockedmap s ! lsb w"
    using lsb_set [OF w(1)] lsb_less [OF w(1)] assms(1) w(2) by (simp add: w_def lkt_inv_def)
  then have "i \<noteq> lsb w" using assms(4) by (auto simp: lkt_islocked_def)
  then show ?thesis
    using False lkt_select_miss(3) [OF assms(1-3), of old] lru by simp
qed

theorem lkt_select_respects_locks_witness:
  "lkt_tags (snd (snd (lkt_select (7 :: W8) 0
     \<lparr>lkt_evictmap = [False, False], lkt_unlockedmap = [False, True], lkt_tags = [3, 5]\<rparr>))) ! 0 = 3"
proof -
  let ?s = "\<lparr>lkt_evictmap = [False, False], lkt_unlockedmap = [False, True], lkt_tags = [3, 5 :: W8]\<rparr>"
  have "lkt_inv ?s" "(7 :: W8) \<notin> set (lkt_tags ?s)" "lkt_islocked (int 0) ?s" "0 < lkt_ways ?s"
    "bs_any (bs_and (bs_not (lkt_evictmap ?s)) (lkt_unlockedmap ?s))" by code_simp+
  then show ?thesis
    using lkt_select_respects_locks [of ?s 7 0 0] by simp
qed

text \<open>
  Locks are not always respected: when every unlocked way has its use bit set, the
  victim is way 0 whether it is locked or not. Here way 0 is locked and way 1 is unlocked and
  recently used, and the select of a third tag evicts the locked line.
\<close>

theorem lkt_select_evicts_locked:
  "let s = \<lparr>lkt_evictmap = [True, True], lkt_unlockedmap = [False, True], lkt_tags = [3, 5 :: W8]\<rparr>;
       (w, old, s') = lkt_select 7 0 s
   in lkt_inv s \<and> lkt_islocked w s \<and> w = 0 \<and> old = 3 \<and> lkt_tags s' = [7, 5]"
  by code_simp

subsection \<open>Tags of a given bit width with valid bits\<close>

record FullyAssociativeTagsNbitOneHot =
  oh_tags :: "W64 list"
  oh_valid :: bitset
  oh_evictmap :: bitset

type_synonym onehot = FullyAssociativeTagsNbitOneHot

definition oh_size :: "onehot \<Rightarrow> nat" where
  "oh_size s = length (oh_valid s)"

definition oh_slices :: "nat \<Rightarrow> nat" where
  "oh_slices width = (width + 7) div 8"

definition oh_storewidth :: "nat \<Rightarrow> nat" where
  "oh_storewidth width = oh_slices width * 8"

definition oh_storemask :: "nat \<Rightarrow> W64" where
  "oh_storemask width =
     (if 64 \<le> oh_storewidth width then -1 else push_bit (oh_storewidth width) 1 - 1)"

definition oh_reset :: "onehot \<Rightarrow> onehot" where
  "oh_reset s = s\<lparr>oh_valid := bs_zero (oh_size s), oh_evictmap := bs_zero (oh_size s),
     oh_tags := replicate (length (oh_tags s)) (-1)\<rparr>"

definition oh_stored_tag :: "nat \<Rightarrow> W64 \<Rightarrow> W64" where
  "oh_stored_tag width tag = tag AND oh_storemask width"

fun first_index :: "(nat \<Rightarrow> bool) \<Rightarrow> nat list \<Rightarrow> int" where
  "first_index P [] = -1"
| "first_index P (i # is) = (if P i then int i else first_index P is)"

definition oh_match :: "nat \<Rightarrow> W64 \<Rightarrow> onehot \<Rightarrow> int" where
  "oh_match width tag s =
     (let target = oh_stored_tag width tag
      in first_index (\<lambda>i. oh_valid s ! i \<and> oh_stored_tag width (oh_tags s ! i) = target) [0..<oh_size s])"

definition oh_search :: "nat \<Rightarrow> W64 \<Rightarrow> onehot \<Rightarrow> int" where
  "oh_search width tag s = oh_match width tag s"

definition oh_update :: "int \<Rightarrow> W64 \<Rightarrow> onehot \<Rightarrow> onehot" where
  "oh_update index tag s =
     s\<lparr>oh_tags := (oh_tags s)[nat index := tag], oh_valid := (oh_valid s)[nat index := True],
       oh_evictmap := (oh_evictmap s)[nat index := True]\<rparr>"

definition oh_isvalid :: "int \<Rightarrow> onehot \<Rightarrow> bool" where
  "oh_isvalid index s = oh_valid s ! nat index"

definition oh_insertslot :: "int \<Rightarrow> W64 \<Rightarrow> onehot \<Rightarrow> int \<times> onehot" where
  "oh_insertslot idx tag s =
     (idx, oh_update idx tag (s\<lparr>oh_valid := (oh_valid s)[nat idx := True]\<rparr>))"

definition oh_insert :: "W64 \<Rightarrow> onehot \<Rightarrow> int \<times> onehot" where
  "oh_insert tag s =
     (let idx = first_index (\<lambda>i. \<not> oh_valid s ! i) [0..<oh_size s]
      in if idx < 0 then (-1, s) else oh_insertslot idx tag s)"

definition oh_invalidateslot :: "int \<Rightarrow> onehot \<Rightarrow> onehot" where
  "oh_invalidateslot index s =
     s\<lparr>oh_valid := (oh_valid s)[nat index := False], oh_tags := (oh_tags s)[nat index := -1]\<rparr>"

definition oh_validateslot :: "int \<Rightarrow> onehot \<Rightarrow> onehot" where
  "oh_validateslot index s = s\<lparr>oh_valid := (oh_valid s)[nat index := True]\<rparr>"

definition oh_invalidate :: "nat \<Rightarrow> W64 \<Rightarrow> onehot \<Rightarrow> int \<times> onehot" where
  "oh_invalidate width target s =
     (let index = oh_match width target s
      in if index < 0 then (0, s) else (1, oh_invalidateslot index s))"

definition oh_masked_match :: "W64 \<Rightarrow> W64 \<Rightarrow> onehot \<Rightarrow> bitset" where
  "oh_masked_match targettag tagmask s =
     map (\<lambda>i. oh_valid s ! i \<and> oh_tags s ! i AND tagmask = targettag) [0..<oh_size s]"

definition oh_masked_invalidate :: "bitset \<Rightarrow> onehot \<Rightarrow> onehot" where
  "oh_masked_invalidate slotmask s =
     fold (\<lambda>i s. if slotmask ! i then oh_invalidateslot (int i) s else s) [0..<oh_size s] s"

definition oh_use :: "int \<Rightarrow> onehot \<Rightarrow> onehot" where
  "oh_use way s =
     (let e = (oh_evictmap s)[nat way := True]
      in s\<lparr>oh_evictmap := if bs_all e then (bs_zero (oh_size s))[nat way := True] else e\<rparr>)"

definition oh_probe :: "nat \<Rightarrow> W64 \<Rightarrow> onehot \<Rightarrow> int \<times> onehot" where
  "oh_probe width target s =
     (let way = oh_match width target s
      in if way < 0 then (way, s) else (way, oh_use way s))"

definition oh_lru :: "onehot \<Rightarrow> int" where
  "oh_lru s =
     (let i = first_index (\<lambda>i. \<not> oh_evictmap s ! i) [0..<oh_size s] in if i < 0 then 0 else i)"

definition oh_select :: "nat \<Rightarrow> W64 \<Rightarrow> W64 \<Rightarrow> onehot \<Rightarrow> int \<times> W64 \<times> onehot" where
  "oh_select width target oldtag s =
     (let (way, s1) = oh_probe width target s
      in if way < 0
         then let way = oh_lru s1;
                  s2 = (if bs_all (oh_evictmap s1) then s1\<lparr>oh_evictmap := bs_zero (oh_size s1)\<rparr> else s1);
                  oldtag = oh_tags s2 ! nat way
              in (way, oldtag, oh_use way (oh_update way target s2))
         else (way, oldtag, oh_use way s1))"

definition oh_inv :: "nat \<Rightarrow> onehot \<Rightarrow> bool" where
  "oh_inv width s \<longleftrightarrow> 0 < oh_size s \<and> oh_size s \<le> length (oh_tags s)
     \<and> length (oh_evictmap s) = oh_size s
     \<and> (\<forall>i < oh_size s. \<forall>j < oh_size s. oh_valid s ! i \<and> oh_valid s ! j
          \<and> oh_stored_tag width (oh_tags s ! i) = oh_stored_tag width (oh_tags s ! j) \<longrightarrow> i = j)"

definition oh_resident :: "nat \<Rightarrow> onehot \<Rightarrow> W64 set" where
  "oh_resident width s =
     {oh_stored_tag width (oh_tags s ! i) | i. i < oh_size s \<and> oh_valid s ! i}"

lemma oh_resident_iff:
  "x \<in> oh_resident k s \<longleftrightarrow> (\<exists>j < oh_size s. oh_valid s ! j \<and> oh_stored_tag k (oh_tags s ! j) = x)"
  by (auto simp: oh_resident_def)

lemma first_index_cases:
  obtains (found) i where "i < n" "P i" "first_index P [0..<n] = int i"
  | (none) "first_index P [0..<n] = -1" "\<forall>i < n. \<not> P i"
proof -
  have "(\<exists>i \<in> set is. P i \<and> first_index P is = int i) \<or> (first_index P is = -1 \<and> (\<forall>i \<in> set is. \<not> P i))"
    for "is" by (induction "is") auto
  from this [of "[0..<n]"] show thesis using found none by auto
qed

lemma oh_use_simps [simp]:
  "oh_tags (oh_use w s) = oh_tags s" "oh_valid (oh_use w s) = oh_valid s" "oh_size (oh_use w s) = oh_size s"
  "length (oh_evictmap s) = oh_size s \<Longrightarrow> length (oh_evictmap (oh_use w s)) = oh_size s"
  by (simp_all add: oh_use_def oh_size_def Let_def)

lemma oh_inv_use [simp]: "oh_inv k s \<Longrightarrow> oh_inv k (oh_use w s)"
  by (simp add: oh_inv_def)

lemma oh_resident_use [simp]: "oh_resident k (oh_use w s) = oh_resident k s"
  by (simp add: oh_resident_def)

lemma oh_probe_cases:
  obtains (hit) i where "i < oh_size s" "oh_valid s ! i"
      "oh_stored_tag k (oh_tags s ! i) = oh_stored_tag k t" "oh_match k t s = int i"
      "oh_probe k t s = (int i, oh_use (int i) s)" "oh_stored_tag k t \<in> oh_resident k s"
  | (miss) "oh_match k t s = -1" "oh_probe k t s = (-1, s)" "oh_stored_tag k t \<notin> oh_resident k s"
proof (rule first_index_cases [of "oh_size s"
      "\<lambda>i. oh_valid s ! i \<and> oh_stored_tag k (oh_tags s ! i) = oh_stored_tag k t"])
  fix i
  assume "i < oh_size s" "oh_valid s ! i \<and> oh_stored_tag k (oh_tags s ! i) = oh_stored_tag k t"
    "first_index (\<lambda>i. oh_valid s ! i \<and> oh_stored_tag k (oh_tags s ! i) = oh_stored_tag k t) [0..<oh_size s] = int i"
  then show thesis
    by (intro hit [of i]) (auto simp: oh_match_def oh_probe_def oh_resident_def Let_def intro!: exI [of _ i])
next
  assume "first_index (\<lambda>i. oh_valid s ! i \<and> oh_stored_tag k (oh_tags s ! i) = oh_stored_tag k t) [0..<oh_size s] = -1"
    "\<forall>i<oh_size s. \<not> (oh_valid s ! i \<and> oh_stored_tag k (oh_tags s ! i) = oh_stored_tag k t)"
  then show thesis
    by (intro miss) (auto simp: oh_match_def oh_probe_def oh_resident_def)
qed

lemma oh_lru_range: "oh_inv k s \<Longrightarrow> 0 \<le> oh_lru s \<and> nat (oh_lru s) < oh_size s"
  by (rule first_index_cases [of "oh_size s" "\<lambda>i. \<not> oh_evictmap s ! i"])
    (auto simp: oh_lru_def oh_inv_def)

text \<open>Writing a fresh tag into a slot keeps the stored tags distinct and replaces one key.\<close>

lemma oh_update_spec:
  assumes inv: "oh_inv k s" and i: "i < oh_size s" and fresh: "oh_stored_tag k t \<notin> oh_resident k s"
  shows "oh_inv k (oh_update (int i) t s)"
    and "\<exists>victim. oh_resident k (oh_update (int i) t s) =
      insert (oh_stored_tag k t) (oh_resident k s - {victim})"
proof -
  let ?s = "oh_update (int i) t s"
  have sz: "oh_size ?s = oh_size s" and
    tag: "j < oh_size s \<Longrightarrow> oh_tags ?s ! j = (if j = i then t else oh_tags s ! j)" and
    val: "j < oh_size s \<Longrightarrow> oh_valid ?s ! j = (j = i \<or> oh_valid s ! j)" for j
    using inv i by (auto simp: oh_update_def oh_size_def oh_inv_def)
  have new: "oh_stored_tag k (oh_tags s ! j) \<noteq> oh_stored_tag k t" if "j < oh_size s" "oh_valid s ! j" for j
    using fresh that by (auto simp: oh_resident_def)
  have len: "length (oh_evictmap ?s) = oh_size s" "oh_size s \<le> length (oh_tags ?s)" "0 < oh_size s"
    using inv by (simp_all add: oh_inv_def oh_update_def)
  show "oh_inv k ?s"
    unfolding oh_inv_def sz
  proof (intro conjI allI impI)
    fix a b
    assume ab: "a < oh_size s" "b < oh_size s"
      "oh_valid ?s ! a \<and> oh_valid ?s ! b
        \<and> oh_stored_tag k (oh_tags ?s ! a) = oh_stored_tag k (oh_tags ?s ! b)"
    then show "a = b"
      using inv new [of a] new [of b] unfolding oh_inv_def
      by (cases "a = i"; cases "b = i") (auto simp: tag val)
  qed (use len in simp_all)
  define v where "v = (if oh_valid s ! i then oh_stored_tag k (oh_tags s ! i) else oh_stored_tag k t)"
  have "x \<in> oh_resident k ?s \<longleftrightarrow> x = oh_stored_tag k t \<or> (x \<in> oh_resident k s \<and> x \<noteq> v)" for x
  proof -
    have "x \<in> oh_resident k ?s \<longleftrightarrow> x = oh_stored_tag k t \<or>
        (\<exists>j < oh_size s. j \<noteq> i \<and> oh_valid s ! j \<and> x = oh_stored_tag k (oh_tags s ! j))"
      (is "?L \<longleftrightarrow> x = _ \<or> ?R")
    proof
      assume ?L
      then obtain j where j: "j < oh_size s" "oh_valid ?s ! j" "oh_stored_tag k (oh_tags ?s ! j) = x"
        unfolding oh_resident_iff sz by blast
      then show "x = oh_stored_tag k t \<or> ?R"
        using tag [of j] val [of j] by (cases "j = i") auto
    next
      assume "x = oh_stored_tag k t \<or> ?R"
      then show ?L
        unfolding oh_resident_iff sz using i tag val by (elim disjE exE conjE) fastforce+
    qed
    also have "(\<exists>j < oh_size s. j \<noteq> i \<and> oh_valid s ! j \<and> x = oh_stored_tag k (oh_tags s ! j)) \<longleftrightarrow>
        x \<in> oh_resident k s \<and> x \<noteq> v"
    proof (cases "oh_valid s ! i")
      case True
      then show ?thesis using inv i unfolding oh_inv_def oh_resident_iff v_def by (simp, metis)
    next
      case False
      then show ?thesis using new unfolding oh_resident_iff v_def by (simp, metis)
    qed
    finally show ?thesis .
  qed
  then have "oh_resident k ?s = insert (oh_stored_tag k t) (oh_resident k s - {v})" by auto
  then show "\<exists>victim. oh_resident k ?s = insert (oh_stored_tag k t) (oh_resident k s - {victim})" ..
qed

lemma oh_evict_reset [simp]:
  "oh_inv k s \<Longrightarrow> oh_inv k (s\<lparr>oh_evictmap := bs_zero (oh_size s)\<rparr>)"
  "oh_resident k (s\<lparr>oh_evictmap := bs_zero (oh_size s)\<rparr>) = oh_resident k s"
  "oh_size (s\<lparr>oh_evictmap := e\<rparr>) = oh_size s"
  by (simp_all add: oh_inv_def oh_resident_def oh_size_def)

lemma oh_select_miss:
  assumes inv: "oh_inv k s" and miss: "oh_stored_tag k t \<notin> oh_resident k s"
  shows "0 \<le> fst (oh_select k t old s)" "oh_inv k (snd (snd (oh_select k t old s)))"
    and "\<exists>victim. oh_resident k (snd (snd (oh_select k t old s))) =
      insert (oh_stored_tag k t) (oh_resident k s - {victim})"
proof -
  define r where "r = (if bs_all (oh_evictmap s) then s\<lparr>oh_evictmap := bs_zero (oh_size s)\<rparr> else s)"
  define i where "i = nat (oh_lru s)"
  have i: "int i = oh_lru s" "i < oh_size s" using oh_lru_range [OF inv] by (simp_all add: i_def)
  have r: "oh_inv k r" "oh_resident k r = oh_resident k s" "oh_size r = oh_size s"
    using inv by (simp_all add: r_def)
  have "oh_match k t s = -1"
    by (rule oh_probe_cases [of s k t]) (use miss in auto)
  then have sel: "oh_select k t old s = (int i, oh_tags r ! i, oh_use (int i) (oh_update (int i) t r))"
    unfolding i(1) by (simp add: oh_select_def oh_probe_def i_def r_def Let_def)
  note up = oh_update_spec [OF r(1), of i t, unfolded r, OF i(2) miss]
  show "0 \<le> fst (oh_select k t old s)" "oh_inv k (snd (snd (oh_select k t old s)))"
    "\<exists>victim. oh_resident k (snd (snd (oh_select k t old s))) =
      insert (oh_stored_tag k t) (oh_resident k s - {victim})"
    using up by (simp_all add: sel)
qed

lemma oh_invalidateslot_spec:
  assumes inv: "oh_inv k s" and i: "i < oh_size s" "oh_valid s ! i"
  shows "oh_inv k (oh_invalidateslot (int i) s)"
    and "oh_resident k (oh_invalidateslot (int i) s) =
      oh_resident k s - {oh_stored_tag k (oh_tags s ! i)}"
proof -
  let ?s = "oh_invalidateslot (int i) s"
  have sz: "oh_size ?s = oh_size s" and
    tag: "j < oh_size s \<Longrightarrow> j \<noteq> i \<Longrightarrow> oh_tags ?s ! j = oh_tags s ! j" and
    val: "j < oh_size s \<Longrightarrow> oh_valid ?s ! j = (j \<noteq> i \<and> oh_valid s ! j)" for j
    using inv i by (auto simp: oh_invalidateslot_def oh_size_def oh_inv_def)
  show "oh_inv k ?s"
    unfolding oh_inv_def sz
  proof (intro conjI allI impI)
    fix a b
    assume "a < oh_size s" "b < oh_size s" "oh_valid ?s ! a \<and> oh_valid ?s ! b
        \<and> oh_stored_tag k (oh_tags ?s ! a) = oh_stored_tag k (oh_tags ?s ! b)"
    then show "a = b" using inv unfolding oh_inv_def by (auto simp: tag val)
  qed (use inv in \<open>simp_all add: oh_inv_def oh_invalidateslot_def\<close>)
  have "x \<in> oh_resident k ?s \<longleftrightarrow>
      (\<exists>j < oh_size s. j \<noteq> i \<and> oh_valid s ! j \<and> x = oh_stored_tag k (oh_tags s ! j))" for x
    by (simp add: oh_resident_iff sz tag val cong: conj_cong) metis
  moreover have "(\<exists>j < oh_size s. j \<noteq> i \<and> oh_valid s ! j \<and> x = oh_stored_tag k (oh_tags s ! j)) \<longleftrightarrow>
      x \<in> oh_resident k s \<and> x \<noteq> oh_stored_tag k (oh_tags s ! i)" for x
    using inv i unfolding oh_inv_def oh_resident_iff by metis
  ultimately show "oh_resident k ?s = oh_resident k s - {oh_stored_tag k (oh_tags s ! i)}"
    by auto
qed

interpretation oh: tag_array "oh_inv k" "oh_resident k" "oh_stored_tag k" "\<lambda>t. True"
  "oh_probe k" "\<lambda>t s. (fst (oh_select k t 0 s), snd (snd (oh_select k t 0 s)))"
  "\<lambda>t s. snd (oh_invalidate k t s)" for k
proof
  fix s :: onehot and t :: W64
  assume inv: "oh_inv k s"
  show "oh_inv k (snd (oh_probe k t s)) \<and> oh_resident k (snd (oh_probe k t s)) = oh_resident k s"
    and "0 \<le> fst (oh_probe k t s) \<longleftrightarrow> oh_stored_tag k t \<in> oh_resident k s"
    using inv by (cases rule: oh_probe_cases [of s k t]; simp)+
  show "oh_inv k (snd (oh_invalidate k t s))
      \<and> oh_resident k (snd (oh_invalidate k t s)) = oh_resident k s - {oh_stored_tag k t}"
    using inv oh_invalidateslot_spec [OF inv]
    by (cases rule: oh_probe_cases [of s k t]) (simp_all add: oh_invalidate_def)
  show "oh_inv k (snd (fst (oh_select k t 0 s), snd (snd (oh_select k t 0 s))))"
    using inv oh_select_miss [OF inv, of t 0]
    by (cases rule: oh_probe_cases [of s k t]) (simp_all add: oh_select_def)
  show "oh_resident k (snd (fst (oh_select k t 0 s), snd (snd (oh_select k t 0 s)))) = oh_resident k s"
    if "fst (fst (oh_select k t 0 s), snd (snd (oh_select k t 0 s))) < 0"
    using that oh_select_miss(1) [OF inv, of t 0]
    by (cases rule: oh_probe_cases [of s k t]) (simp_all add: oh_select_def)
  show "oh_resident k (snd (fst (oh_select k t 0 s), snd (snd (oh_select k t 0 s)))) = oh_resident k s
      \<and> 0 \<le> fst (fst (oh_select k t 0 s), snd (snd (oh_select k t 0 s)))"
    if "oh_stored_tag k t \<in> oh_resident k s"
    using that by (cases rule: oh_probe_cases [of s k t]) (simp_all add: oh_select_def)
  show "\<exists>victim. oh_resident k (snd (fst (oh_select k t 0 s), snd (snd (oh_select k t 0 s)))) =
      insert (oh_stored_tag k t) (oh_resident k s - {victim})"
    if "oh_stored_tag k t \<notin> oh_resident k s"
    using oh_select_miss(3) [OF inv that] by simp
qed

text \<open>
  The valid-bit tag array (the translation lookaside buffers are built on it) hits
  after a select, misses after an invalidate, and an invalidate leaves every other tag where
  it was; two tags that differ only above the stored width are the same tag to it.
\<close>

theorem oh_select_invalidate:
  assumes "oh_inv k s"
  shows "0 \<le> fst (oh_probe k t (snd (snd (oh_select k t 0 s))))
    \<and> fst (oh_probe k t (snd (oh_invalidate k t s))) < 0
    \<and> (oh_stored_tag k u \<noteq> oh_stored_tag k t \<longrightarrow>
         (0 \<le> fst (oh_probe k u (snd (oh_invalidate k t s))) \<longleftrightarrow> 0 \<le> fst (oh_probe k u s)))"
proof (intro conjI impI)
  have "0 \<le> fst (oh_select k t 0 s)"
    using oh.select_hit [OF assms, of t] oh_select_miss(1) [OF assms, of t 0] by auto
  then show "0 \<le> fst (oh_probe k t (snd (snd (oh_select k t 0 s))))"
    using oh.probe_after_select [OF assms, of t] by simp
qed (use oh.probe_after_invalidate [OF assms] oh.invalidate_other [OF assms] in simp_all)

theorem oh_select_invalidate_witness:
  "fst (oh_probe 12 0x1003 (snd (snd (oh_select 12 3 0
     \<lparr>oh_tags = [5, -1], oh_valid = [True, False], oh_evictmap = [True, False]\<rparr>)))) = -1 \<and>
   0 \<le> fst (oh_probe 12 3 (snd (snd (oh_select 12 3 0
     \<lparr>oh_tags = [5, -1], oh_valid = [True, False], oh_evictmap = [True, False]\<rparr>))))"
proof -
  let ?s = "\<lparr>oh_tags = [5, -1], oh_valid = [True, False], oh_evictmap = [True, False]\<rparr>"
  have "oh_inv 12 ?s" by (simp add: oh_inv_def oh_size_def less_Suc_eq)
  moreover have "fst (oh_probe 12 0x1003 (snd (snd (oh_select 12 3 0 ?s)))) = -1"
    by (simp add: oh_select_def oh_probe_def oh_match_def oh_size_def oh_lru_def oh_update_def oh_use_def
      oh_stored_tag_def oh_storemask_def oh_storewidth_def oh_slices_def bs_all_def bs_zero_def)
  ultimately show ?thesis using oh_select_invalidate [of 12 ?s 3] by blast
qed

end
