(* ===== verification/Assoc_Arrays.thy ===== *)
theory Assoc_Arrays
  imports Assoc_Tags
begin

text \<open>
  The data-carrying associative arrays of \<^verbatim>\<open>src/x86sim/logic.h\<close>:
  \<^verbatim>\<open>FullyAssociativeArray\<close> (a tag array beside an array of values) and
  \<^verbatim>\<open>AssociativeArray\<close> (one such array per set, indexed by address bits), which the caches
  and the branch target buffer instantiate, their lockable variants, and the issue queue's
  \<^verbatim>\<open>FullyAssociativeTagsNbit\<close>. A pointer to a value is its way, or its set and way;
  \<open>null\<close> is \<open>None\<close>. The statistics collectors are static hooks without effect on the array and
  are left out; \<open>vreset\<close> is the value type's \<^verbatim>\<open>reset\<close> method.
\<close>

subsection \<open>Fully associative array\<close>

record ('t, 'v) FullyAssociativeArray =
  faa_tags :: "'t FullyAssociativeTags"
  faa_data :: "'v list"

type_synonym 'v faset = "(W64, 'v) FullyAssociativeArray"

definition faa_reset :: "('v \<Rightarrow> 'v) \<Rightarrow> 'v faset \<Rightarrow> 'v faset" where
  "faa_reset vreset a = \<lparr>faa_tags = fat_reset (faa_tags a), faa_data = map vreset (faa_data a)\<rparr>"

definition faa_probe :: "W64 \<Rightarrow> 'v faset \<Rightarrow> int option \<times> 'v faset" where
  "faa_probe tag a =
     (let (way, t) = fat_probe tag (faa_tags a); a1 = a\<lparr>faa_tags := t\<rparr>
      in if way < 0 then (None, a1) else (Some way, a1))"

definition faa_select :: "W64 \<Rightarrow> W64 \<Rightarrow> 'v faset \<Rightarrow> int \<times> W64 \<times> 'v faset" where
  "faa_select tag oldtag a =
     (let (way, old, t) = fat_select tag oldtag (faa_tags a)
      in (way, old, a\<lparr>faa_tags := t\<rparr>))"

definition faa_tagof :: "int \<Rightarrow> 'v faset \<Rightarrow> W64" where
  "faa_tagof way a = fat_tags (faa_tags a) ! nat way"

definition faa_invalidate_way :: "('v \<Rightarrow> 'v) \<Rightarrow> int \<Rightarrow> 'v faset \<Rightarrow> 'v faset" where
  "faa_invalidate_way vreset way a =
     a\<lparr>faa_tags := fat_invalidate_way way (faa_tags a),
       faa_data := (faa_data a)[nat way := vreset (faa_data a ! nat way)]\<rparr>"

definition faa_invalidate :: "('v \<Rightarrow> 'v) \<Rightarrow> W64 \<Rightarrow> 'v faset \<Rightarrow> int \<times> 'v faset" where
  "faa_invalidate vreset tag a =
     (let (way, t) = fat_probe tag (faa_tags a); a1 = a\<lparr>faa_tags := t\<rparr>
      in if way < 0 then (-1, a1) else (way, faa_invalidate_way vreset way a1))"

definition faa_store :: "int \<Rightarrow> 'v \<Rightarrow> 'v faset \<Rightarrow> 'v faset" where
  "faa_store way v a = a\<lparr>faa_data := (faa_data a)[nat way := v]\<rparr>"

definition faa_inv :: "'v faset \<Rightarrow> bool" where
  "faa_inv a \<longleftrightarrow> fat_inv (faa_tags a) \<and> length (faa_data a) = fat_ways (faa_tags a)"

text \<open>The value an array holds for a tag.\<close>

definition faa_lookup :: "W64 \<Rightarrow> 'v faset \<Rightarrow> 'v option" where
  "faa_lookup tag a =
     (let way = fat_match tag (faa_tags a) in if way < 0 then None else Some (faa_data a ! nat way))"

lemma fat_match_cases:
  assumes "fat_inv s" "t \<noteq> -1"
  obtains (hit) i where "i < fat_ways s" "fat_tags s ! i = t" "fat_match t s = int i"
  | (miss) "t \<notin> set (fat_tags s)" "fat_match t s = -1"
  using assms way_sum_cases [of "fat_tags s" t thesis]
  by (auto simp: fat_inv_def fat_ways_def fat_match_def)

lemma faa_lookup_hit:
  "faa_inv a \<Longrightarrow> i < fat_ways (faa_tags a) \<Longrightarrow> fat_tags (faa_tags a) ! i = t \<Longrightarrow> t \<noteq> -1 \<Longrightarrow>
     faa_lookup t a = Some (faa_data a ! i)"
  by (simp add: faa_lookup_def fat_match_def way_sum_hit faa_inv_def fat_inv_def fat_ways_def)

lemma faa_lookup_miss: "t \<notin> set (fat_tags (faa_tags a)) \<Longrightarrow> faa_lookup t a = None"
  by (simp add: faa_lookup_def fat_match_def way_sum_miss)

lemma faa_probe_spec:
  assumes "faa_inv a" "t \<noteq> -1"
  shows "map_option (\<lambda>w. faa_data a ! nat w) (fst (faa_probe t a)) = faa_lookup t a"
    and "faa_inv (snd (faa_probe t a))" "faa_lookup u (snd (faa_probe t a)) = faa_lookup u a"
  using assms
  by (auto simp: faa_probe_def faa_lookup_def fat_probe_def faa_inv_def Let_def fat_match_def)

lemma faa_select_range:
  assumes "faa_inv a" "t \<noteq> -1"
  shows "0 \<le> fst (faa_select t old a)" "nat (fst (faa_select t old a)) < length (faa_data a)"
    "faa_inv (snd (snd (faa_select t old a)))"
    "fat_tags (faa_tags (snd (snd (faa_select t old a)))) ! nat (fst (faa_select t old a)) = t"
    "faa_data (snd (snd (faa_select t old a))) = faa_data a"
  using fat_select_spec [of "faa_tags a" t old] assms
  by (auto simp: faa_select_def faa_inv_def fat_ways_def split_beta)

lemma faa_store_simps [simp]:
  "faa_tags (faa_store w v a) = faa_tags a" "faa_inv (faa_store w v a) = faa_inv a"
  by (simp_all add: faa_store_def faa_inv_def)

definition faa_put :: "W64 \<Rightarrow> 'v \<Rightarrow> 'v faset \<Rightarrow> 'v faset" where
  "faa_put t v a = (let (w, old, a1) = faa_select t 0 a in faa_store w v a1)"

lemma faa_put_spec:
  assumes inv: "faa_inv a" and t: "t \<noteq> -1"
  shows "faa_inv (faa_put t v a)" "faa_lookup t (faa_put t v a) = Some v"
    and "u \<noteq> -1 \<Longrightarrow> u \<noteq> t \<Longrightarrow>
      faa_lookup u (faa_put t v a) = faa_lookup u a \<or> faa_lookup u (faa_put t v a) = None"
proof -
  define w where "w = nat (fst (faa_select t 0 a))"
  define a' where "a' = faa_put t v a"
  note sel = faa_select_range [OF inv t, of 0, folded w_def]
  have data: "faa_data a' = (faa_data a)[w := v]"
    by (simp add: a'_def faa_put_def split_beta Let_def w_def faa_store_def sel)
  have tags: "fat_tags (faa_tags a') = (fat_tags (faa_tags a))[w := t]"
    using fat_select_spec(4) [of "faa_tags a" t 0] inv t
    by (simp add: a'_def faa_put_def split_beta Let_def w_def faa_select_def faa_inv_def)
  show inv': "faa_inv (faa_put t v a)"
    using sel by (simp add: faa_put_def split_beta Let_def)
  have w: "w < fat_ways (faa_tags a)" using sel inv by (simp add: faa_inv_def)
  have "faa_lookup t a' = Some (faa_data a' ! w)"
    using w tags inv' t by (intro faa_lookup_hit) (simp_all add: a'_def fat_ways_def)
  then show "faa_lookup t (faa_put t v a) = Some v"
    using sel(2) data by (simp add: a'_def)
  assume u: "u \<noteq> -1" "u \<noteq> t"
  show "faa_lookup u (faa_put t v a) = faa_lookup u a \<or> faa_lookup u (faa_put t v a) = None"
  proof (rule fat_match_cases [of "faa_tags a'" u])
    show "fat_inv (faa_tags a')" using inv' by (simp add: a'_def faa_inv_def)
  next
    fix i assume i: "i < fat_ways (faa_tags a')" "fat_tags (faa_tags a') ! i = u"
    have "i \<noteq> w" using i u tags w by (auto simp: fat_ways_def)
    moreover from this i have "i < fat_ways (faa_tags a)" "fat_tags (faa_tags a) ! i = u"
      using tags by (simp_all add: fat_ways_def)
    ultimately show ?thesis
      using faa_lookup_hit [OF inv, of i u] faa_lookup_hit [of a' i u] inv' i u data
      by (simp add: a'_def)
  next
    assume "u \<notin> set (fat_tags (faa_tags a'))"
    then show ?thesis using faa_lookup_miss [of u a'] by (simp add: a'_def)
  qed (use u in simp)
qed

lemma faa_invalidate_spec:
  assumes inv: "faa_inv a" and t: "t \<noteq> -1"
  shows "faa_inv (snd (faa_invalidate r t a))" "faa_lookup t (snd (faa_invalidate r t a)) = None"
    and "u \<noteq> -1 \<Longrightarrow> u \<noteq> t \<Longrightarrow> faa_lookup u (snd (faa_invalidate r t a)) = faa_lookup u a"
proof -
  define a' where "a' = snd (faa_invalidate r t a)"
  have fat: "fat_inv (faa_tags a)" using inv by (simp add: faa_inv_def)
  have "faa_tags a' = snd (fat_invalidate t (faa_tags a))"
    by (simp add: a'_def faa_invalidate_def fat_invalidate_def faa_invalidate_way_def split_beta Let_def)
  with fat_invalidate_spec [OF fat t] have
    f: "fat_inv (faa_tags a')" "valid_tags (fat_tags (faa_tags a')) = valid_tags (fat_tags (faa_tags a)) - {t}"
    by simp_all
  have ways: "fat_ways (faa_tags a') = fat_ways (faa_tags a)" "length (faa_data a') = length (faa_data a)"
    by (auto simp: a'_def faa_invalidate_def fat_probe_def faa_invalidate_way_def fat_invalidate_way_def
      fat_ways_def Let_def)
  show inv': "faa_inv (snd (faa_invalidate r t a))"
    using f ways inv by (simp add: faa_inv_def a'_def)
  have "t \<notin> set (fat_tags (faa_tags a'))" using f(2) t by (auto simp: valid_tags_def)
  then show "faa_lookup t (snd (faa_invalidate r t a)) = None"
    using faa_lookup_miss by (simp add: a'_def)
  assume u: "u \<noteq> -1" "u \<noteq> t"
  show "faa_lookup u (snd (faa_invalidate r t a)) = faa_lookup u a"
    using fat u(1)
  proof (cases rule: fat_match_cases)
    case (hit i)
    have "fat_tags (faa_tags a') ! i = u \<and> faa_data a' ! i = faa_data a ! i"
    proof (rule fat_match_cases [OF fat t])
      fix k assume k: "fat_tags (faa_tags a) ! k = t" "fat_match t (faa_tags a) = int k"
      then have "k \<noteq> i" using hit u by auto
      with k hit show ?thesis
        by (simp add: a'_def faa_invalidate_def fat_probe_def faa_invalidate_way_def
          fat_invalidate_way_def Let_def)
    next
      assume "fat_match t (faa_tags a) = -1"
      with hit show ?thesis by (simp add: a'_def faa_invalidate_def fat_probe_def)
    qed
    then show ?thesis
      using faa_lookup_hit [OF inv hit(1,2) u(1)] faa_lookup_hit [of a' i u] inv' hit u ways
      by (simp add: a'_def)
  next
    case miss
    then have "u \<notin> set (fat_tags (faa_tags a'))" using f(2) u by (auto simp: valid_tags_def)
    then show ?thesis
      using faa_lookup_miss [OF miss(1)] faa_lookup_miss [of u a'] by (simp add: a'_def)
  qed
qed

subsection \<open>A map that may forget\<close>

text \<open>
  A cache is a map that may drop entries but never returns a stale one. \<open>line\<close> is what
  distinguishes keys, \<open>good\<close> the keys that can be stored.
\<close>

datatype ('k, 'v) map_op = Put 'k 'v | Del 'k

fun map_op_key :: "('k, 'v) map_op \<Rightarrow> 'k" where
  "map_op_key (Put k v) = k"
| "map_op_key (Del k) = k"

fun lossy_run :: "('k \<Rightarrow> 'v \<Rightarrow> 's \<Rightarrow> 's) \<Rightarrow> ('k \<Rightarrow> 's \<Rightarrow> 's) \<Rightarrow> ('k, 'v) map_op list \<Rightarrow> 's \<Rightarrow> 's" where
  "lossy_run put del [] s = s"
| "lossy_run put del (Put k v # ops) s = lossy_run put del ops (put k v s)"
| "lossy_run put del (Del k # ops) s = lossy_run put del ops (del k s)"

fun map_run :: "('k \<Rightarrow> 'l) \<Rightarrow> ('k, 'v) map_op list \<Rightarrow> ('l \<rightharpoonup> 'v) \<Rightarrow> ('l \<rightharpoonup> 'v)" where
  "map_run line [] m = m"
| "map_run line (Put k v # ops) m = map_run line ops (m(line k \<mapsto> v))"
| "map_run line (Del k # ops) m = map_run line ops (m(line k := None))"

locale lossy_map =
  fixes inv :: "'s \<Rightarrow> bool"
    and good :: "'k \<Rightarrow> bool"
    and line :: "'k \<Rightarrow> 'l"
    and lookup :: "'k \<Rightarrow> 's \<Rightarrow> 'v option"
    and put :: "'k \<Rightarrow> 'v \<Rightarrow> 's \<Rightarrow> 's"
    and del :: "'k \<Rightarrow> 's \<Rightarrow> 's"
  assumes put_inv: "inv s \<Longrightarrow> good k \<Longrightarrow> inv (put k v s)"
    and put_same: "inv s \<Longrightarrow> good k \<Longrightarrow> good j \<Longrightarrow> line j = line k \<Longrightarrow> lookup j (put k v s) = Some v"
    and put_other: "inv s \<Longrightarrow> good k \<Longrightarrow> good j \<Longrightarrow> line j \<noteq> line k \<Longrightarrow>
      lookup j (put k v s) = lookup j s \<or> lookup j (put k v s) = None"
    and del_inv: "inv s \<Longrightarrow> good k \<Longrightarrow> inv (del k s)"
    and del_same: "inv s \<Longrightarrow> good k \<Longrightarrow> good j \<Longrightarrow> line j = line k \<Longrightarrow> lookup j (del k s) = None"
    and del_other: "inv s \<Longrightarrow> good k \<Longrightarrow> good j \<Longrightarrow> line j \<noteq> line k \<Longrightarrow>
      lookup j (del k s) = lookup j s"
begin

lemma run_inv: "inv s \<Longrightarrow> list_all (good \<circ> map_op_key) ops \<Longrightarrow> inv (lossy_run put del ops s)"
proof (induction ops arbitrary: s)
  case (Cons op ops)
  then show ?case by (cases op) (auto intro: put_inv del_inv)
qed simp

text \<open>No sequence of insertions and removals makes a lookup return an outdated value.\<close>

lemma never_stale:
  assumes "inv s" "list_all (good \<circ> map_op_key) ops" "good j"
    and "lookup j s = None \<or> lookup j s = m (line j)"
  shows "lookup j (lossy_run put del ops s) = None
    \<or> lookup j (lossy_run put del ops s) = map_run line ops m (line j)"
  using assms
proof (induction ops arbitrary: s m)
  case Nil
  then show ?case by simp
next
  case (Cons op ops)
  show ?case
  proof (cases op)
    case (Put k v)
    have "lookup j (put k v s) = None \<or> lookup j (put k v s) = (m(line k \<mapsto> v)) (line j)"
      using Cons.prems put_same [of s k j v] put_other [of s k j v] Put
      by (cases "line j = line k") auto
    with Cons.IH [OF put_inv] Cons.prems Put show ?thesis by simp
  next
    case (Del k)
    have "lookup j (del k s) = None \<or> lookup j (del k s) = (m(line k := None)) (line j)"
      using Cons.prems del_same [of s k j] del_other [of s k j] Del
      by (cases "line j = line k") auto
    with Cons.IH [OF del_inv] Cons.prems Del show ?thesis by simp
  qed
qed

end

interpretation faa: lossy_map faa_inv "\<lambda>t. t \<noteq> -1" id faa_lookup faa_put
  "\<lambda>t a. snd (faa_invalidate r t a)" for r
  by unfold_locales (simp_all add: faa_put_spec faa_invalidate_spec)

subsection \<open>Set-associative array\<close>

record 'v AssociativeArray =
  aa_sets :: "'v faset list"

definition aa_reset :: "('v \<Rightarrow> 'v) \<Rightarrow> 'v AssociativeArray \<Rightarrow> 'v AssociativeArray" where
  "aa_reset vreset a = a\<lparr>aa_sets := map (faa_reset vreset) (aa_sets a)\<rparr>"

definition aa_setof :: "nat \<Rightarrow> nat \<Rightarrow> W64 \<Rightarrow> nat" where
  "aa_setof setcount linesize addr = unat (bits addr (lg linesize) (lg setcount))"

definition aa_tagof :: "nat \<Rightarrow> W64 \<Rightarrow> W64" where
  "aa_tagof linesize addr = floor_align addr (of_nat linesize)"

definition aa_probe ::
  "nat \<Rightarrow> W64 \<Rightarrow> 'v AssociativeArray \<Rightarrow> (nat \<times> int) option \<times> 'v AssociativeArray" where
  "aa_probe linesize addr a =
     (let set = aa_setof (length (aa_sets a)) linesize addr;
          (p, f) = faa_probe (aa_tagof linesize addr) (aa_sets a ! set)
      in (map_option (Pair set) p, a\<lparr>aa_sets := (aa_sets a)[set := f]\<rparr>))"

definition aa_select ::
  "nat \<Rightarrow> W64 \<Rightarrow> W64 \<Rightarrow> 'v AssociativeArray \<Rightarrow> (nat \<times> int) \<times> W64 \<times> 'v AssociativeArray" where
  "aa_select linesize addr oldaddr a =
     (let set = aa_setof (length (aa_sets a)) linesize addr;
          (w, old, f) = faa_select (aa_tagof linesize addr) oldaddr (aa_sets a ! set)
      in ((set, w), old, a\<lparr>aa_sets := (aa_sets a)[set := f]\<rparr>))"

definition aa_invalidate ::
  "('v \<Rightarrow> 'v) \<Rightarrow> nat \<Rightarrow> W64 \<Rightarrow> 'v AssociativeArray \<Rightarrow> 'v AssociativeArray" where
  "aa_invalidate vreset linesize addr a =
     (let set = aa_setof (length (aa_sets a)) linesize addr;
          (w, f) = faa_invalidate vreset (aa_tagof linesize addr) (aa_sets a ! set)
      in a\<lparr>aa_sets := (aa_sets a)[set := f]\<rparr>)"

definition aa_store :: "nat \<times> int \<Rightarrow> 'v \<Rightarrow> 'v AssociativeArray \<Rightarrow> 'v AssociativeArray" where
  "aa_store p v a = a\<lparr>aa_sets := (aa_sets a)[fst p := faa_store (snd p) v (aa_sets a ! fst p)]\<rparr>"

definition aa_put :: "nat \<Rightarrow> W64 \<Rightarrow> 'v \<Rightarrow> 'v AssociativeArray \<Rightarrow> 'v AssociativeArray" where
  "aa_put linesize addr v a = (let (p, old, a1) = aa_select linesize addr 0 a in aa_store p v a1)"

definition aa_lookup :: "nat \<Rightarrow> W64 \<Rightarrow> 'v AssociativeArray \<Rightarrow> 'v option" where
  "aa_lookup linesize addr a =
     faa_lookup (aa_tagof linesize addr) (aa_sets a ! aa_setof (length (aa_sets a)) linesize addr)"

text \<open>\<open>setcount = 2 ^ sb\<close> sets, every one of them well formed.\<close>

definition aa_inv :: "nat \<Rightarrow> 'v AssociativeArray \<Rightarrow> bool" where
  "aa_inv sb a \<longleftrightarrow> sb < 64 \<and> length (aa_sets a) = 2 ^ sb \<and> list_all faa_inv (aa_sets a)"

lemma aa_setof_less: "sb < 64 \<Longrightarrow> aa_setof (2 ^ sb) ls addr < 2 ^ sb"
  by (simp add: aa_setof_def lg_pow2 unat_bits_less)

lemma aa_setof_tagof:
  assumes "sb < 64"
  shows "aa_setof (2 ^ sb) (2 ^ lb) (aa_tagof (2 ^ lb) addr) = aa_setof (2 ^ sb) (2 ^ lb) addr"
proof -
  have "drop_bit lb (push_bit lb (drop_bit lb addr)) = drop_bit lb addr"
    by (rule bit_word_eqI) (auto simp: bit_simps dest: bit_imp_le_length)
  then show ?thesis
    by (simp add: aa_setof_def aa_tagof_def floor_align_pow2 lg_pow2 bits_def)
qed

lemma aa_tagof_setof:
  "sb < 64 \<Longrightarrow> aa_tagof (2 ^ lb) x = aa_tagof (2 ^ lb) y \<Longrightarrow>
     aa_setof (2 ^ sb) (2 ^ lb) x = aa_setof (2 ^ sb) (2 ^ lb) y"
  by (metis aa_setof_tagof)

lemma aa_tagof_valid: "0 < lb \<Longrightarrow> lb < 64 \<Longrightarrow> aa_tagof (2 ^ lb) addr \<noteq> -1"
proof
  assume lb: "0 < lb" "lb < 64" and "aa_tagof (2 ^ lb) addr = -1"
  then have "bit (push_bit lb (drop_bit lb addr)) 0"
    by (simp add: aa_tagof_def floor_align_pow2)
  with lb show False by (simp add: bit_push_bit_iff)
qed

lemma aa_inv_set: "aa_inv sb a \<Longrightarrow> i < 2 ^ sb \<Longrightarrow> faa_inv (aa_sets a ! i)"
  by (simp add: aa_inv_def list_all_length)

text \<open>Both updates act on one set, through the set's own operation.\<close>

lemma aa_put_sets:
  fixes addr :: W64 and lb :: nat
  assumes "aa_inv sb a" "sb < 64"
  defines "i \<equiv> aa_setof (2 ^ sb) (2 ^ lb) addr"
  shows "aa_sets (aa_put (2 ^ lb) addr v a) =
    (aa_sets a)[i := faa_put (aa_tagof (2 ^ lb) addr) v (aa_sets a ! i)]"
  using assms aa_setof_less [of sb "2 ^ lb" addr]
  by (simp add: aa_put_def aa_select_def aa_store_def faa_put_def aa_inv_def split_beta Let_def)

lemma aa_invalidate_sets:
  fixes addr :: W64 and lb :: nat
  assumes "aa_inv sb a"
  defines "i \<equiv> aa_setof (2 ^ sb) (2 ^ lb) addr"
  shows "aa_sets (aa_invalidate r (2 ^ lb) addr a) =
    (aa_sets a)[i := snd (faa_invalidate r (aa_tagof (2 ^ lb) addr) (aa_sets a ! i))]"
  using assms by (simp add: aa_invalidate_def aa_inv_def split_beta Let_def)

lemma aa_inv_update:
  "aa_inv sb a \<Longrightarrow> faa_inv f \<Longrightarrow> aa_sets b = (aa_sets a)[i := f] \<Longrightarrow> aa_inv sb b"
  by (cases "i < length (aa_sets a)") (auto simp: aa_inv_def list_all_length nth_list_update)

lemma aa_lookup_update:
  assumes "aa_inv sb a" "sb < 64" "aa_sets b = (aa_sets a)[i := f]"
  shows "aa_lookup (2 ^ lb) addr b =
    (if aa_setof (2 ^ sb) (2 ^ lb) addr = i then faa_lookup (aa_tagof (2 ^ lb) addr) f
     else aa_lookup (2 ^ lb) addr a)"
  using assms aa_setof_less [of sb "2 ^ lb" addr] by (auto simp: aa_lookup_def aa_inv_def)

text \<open>The array of \<open>2 ^ sb\<close> sets with lines of \<open>2 ^ lb\<close> bytes is a lossy map.\<close>

interpretation aa: lossy_map "aa_inv sb" "\<lambda>addr. aa_tagof (2 ^ lb) addr \<noteq> -1"
  "aa_tagof (2 ^ lb)" "aa_lookup (2 ^ lb)" "aa_put (2 ^ lb)" "aa_invalidate r (2 ^ lb)" for sb lb r
proof
  fix a :: "'a AssociativeArray" and k j :: W64 and v :: 'a
  let ?i = "aa_setof (2 ^ sb) (2 ^ lb) k"
  assume inv: "aa_inv sb a" and k: "aa_tagof (2 ^ lb) k \<noteq> -1"
  have sb: "sb < 64" using inv by (simp add: aa_inv_def)
  have f: "faa_inv (aa_sets a ! ?i)" using aa_inv_set [OF inv aa_setof_less [OF sb]] .
  note put = faa_put_spec [OF f k, where v = v] and pset = aa_put_sets [OF inv sb, of lb k v]
  note del = faa_invalidate_spec [OF f k, where r = r] and dset = aa_invalidate_sets [OF inv, of r lb k]
  show "aa_inv sb (aa_put (2 ^ lb) k v a)" "aa_inv sb (aa_invalidate r (2 ^ lb) k a)"
    using aa_inv_update [OF inv put(1) pset] aa_inv_update [OF inv del(1) dset] .
  assume j: "aa_tagof (2 ^ lb) j \<noteq> -1"
  show "aa_lookup (2 ^ lb) j (aa_put (2 ^ lb) k v a) = Some v"
    and "aa_lookup (2 ^ lb) j (aa_invalidate r (2 ^ lb) k a) = None"
    if "aa_tagof (2 ^ lb) j = aa_tagof (2 ^ lb) k"
    using that put(2) del(2) aa_tagof_setof [OF sb that]
    by (simp_all add: aa_lookup_update [OF inv sb pset] aa_lookup_update [OF inv sb dset])
  show "aa_lookup (2 ^ lb) j (aa_put (2 ^ lb) k v a) = aa_lookup (2 ^ lb) j a
      \<or> aa_lookup (2 ^ lb) j (aa_put (2 ^ lb) k v a) = None"
    and "aa_lookup (2 ^ lb) j (aa_invalidate r (2 ^ lb) k a) = aa_lookup (2 ^ lb) j a"
    if "aa_tagof (2 ^ lb) j \<noteq> aa_tagof (2 ^ lb) k"
    using put(3) [OF j that] del(3) [OF j that] inv
    by (auto simp: aa_lookup_update [OF inv sb pset] aa_lookup_update [OF inv sb dset]
      aa_lookup_def [of _ _ a] aa_inv_def)
qed

definition faa_shape :: "'v faset \<Rightarrow> bool" where
  "faa_shape f \<longleftrightarrow> 0 < fat_ways (faa_tags f) \<and> length (faa_data f) = fat_ways (faa_tags f)"

lemma fat_reset_inv: "0 < fat_ways s \<Longrightarrow> fat_inv (fat_reset s)"
  by (simp add: fat_inv_def fat_reset_def fat_ways_def valid_tags_reset)

lemma aa_reset_spec:
  assumes "sb < 64" "length (aa_sets a) = 2 ^ sb" "list_all faa_shape (aa_sets a)"
  shows "aa_inv sb (aa_reset r a)"
    and "aa_tagof (2 ^ lb) j \<noteq> -1 \<Longrightarrow> aa_lookup (2 ^ lb) j (aa_reset r a) = None"
proof -
  show "aa_inv sb (aa_reset r a)"
    using assms fat_reset_inv
    by (auto simp: aa_inv_def aa_reset_def list_all_length faa_shape_def faa_inv_def faa_reset_def)
      (simp add: fat_reset_def fat_ways_def)
  assume "aa_tagof (2 ^ lb) j \<noteq> -1"
  then have "faa_lookup (aa_tagof (2 ^ lb) j) (faa_reset r f) = None" for f
    by (intro faa_lookup_miss) (auto simp: faa_reset_def fat_reset_def)
  then show "aa_lookup (2 ^ lb) j (aa_reset r a) = None"
    using aa_setof_less [OF assms(1), of "2 ^ lb" j] assms(2) by (simp add: aa_lookup_def aa_reset_def)
qed

text \<open>
  Claim C32. A set-associative array never returns stale data: starting from a reset array, after
  any sequence of line fills (select, then a store through the returned pointer) and
  invalidations, looking up an address either misses or returns the value of the last fill of
  its line that has not been invalidated since.
\<close>

theorem assoc_array_never_stale:
  assumes "sb < 64" "length (aa_sets a) = 2 ^ sb" "list_all faa_shape (aa_sets a)"
    and "list_all (\<lambda>op. aa_tagof (2 ^ lb) (map_op_key op) \<noteq> -1) ops" "aa_tagof (2 ^ lb) j \<noteq> -1"
  shows "let final = lossy_run (aa_put (2 ^ lb)) (aa_invalidate r (2 ^ lb)) ops (aa_reset r a)
    in aa_lookup (2 ^ lb) j final = None
      \<or> aa_lookup (2 ^ lb) j final = map_run (aa_tagof (2 ^ lb)) ops Map.empty (aa_tagof (2 ^ lb) j)"
  using aa.never_stale [where m = Map.empty, OF aa_reset_spec(1) [OF assms(1-3)] _ assms(5), of ops r r]
    assms(4) aa_reset_spec(2) [OF assms(1-3,5)]
  by (simp add: Let_def comp_def)

theorem assoc_array_never_stale_witness:
  "let set = \<lparr>faa_tags = \<lparr>fat_evictmap = [False, False], fat_tags = [0, 0]\<rparr>, faa_data = [0, 0 :: nat]\<rparr>;
       final = lossy_run (aa_put (2 ^ 6)) (aa_invalidate id (2 ^ 6))
         [Put 0x1040 7, Put 0x1048 9, Put 0x2000 1] (aa_reset id \<lparr>aa_sets = [set, set]\<rparr>)
   in aa_lookup (2 ^ 6) 0x1044 final = None \<or> aa_lookup (2 ^ 6) 0x1044 final = Some 9"
proof -
  let ?set = "\<lparr>faa_tags = \<lparr>fat_evictmap = [False, False], fat_tags = [0, 0]\<rparr>, faa_data = [0, 0 :: nat]\<rparr>"
  have "list_all faa_shape [?set, ?set]" by (simp add: faa_shape_def fat_ways_def)
  moreover have "aa_tagof (2 ^ 6) x \<noteq> -1" for x by (rule aa_tagof_valid) simp_all
  moreover have "map_run (aa_tagof (2 ^ 6)) [Put 0x1040 (7 :: nat), Put 0x1048 9, Put 0x2000 1] Map.empty
      (aa_tagof (2 ^ 6) 0x1044) = Some 9"
    by (simp add: aa_tagof_def floor_align_def)
  ultimately show ?thesis
    using assoc_array_never_stale [of 1 "\<lparr>aa_sets = [?set, ?set]\<rparr>" 6
      "[Put 0x1040 7, Put 0x1048 9, Put 0x2000 1]" "0x1044" id]
    unfolding Let_def by (simp del: lossy_run.simps map_run.simps)
qed

lemma aa_probe_data [simp]: "faa_data (aa_sets (snd (aa_probe ls addr a)) ! s) = faa_data (aa_sets a ! s)"
  by (cases "aa_setof (length (aa_sets a)) ls addr < length (aa_sets a)")
    (simp_all add: aa_probe_def faa_probe_def Let_def split_beta list_update_beyond not_less)

text \<open>A probe answers the lookup and, but for the use bits, leaves the array as it is.\<close>

lemma aa_probe_lookup:
  assumes "aa_inv sb a" "aa_tagof (2 ^ lb) addr \<noteq> -1"
  shows "map_option (\<lambda>(s, w). faa_data (aa_sets a ! s) ! nat w) (fst (aa_probe (2 ^ lb) addr a)) =
      aa_lookup (2 ^ lb) addr a"
    and "aa_inv sb (snd (aa_probe (2 ^ lb) addr a))"
    and "aa_lookup (2 ^ lb) x (snd (aa_probe (2 ^ lb) addr a)) = aa_lookup (2 ^ lb) x a"
proof -
  let ?i = "aa_setof (2 ^ sb) (2 ^ lb) addr"
  have sb: "sb < 64" "length (aa_sets a) = 2 ^ sb" using assms by (simp_all add: aa_inv_def)
  note p = faa_probe_spec [OF aa_inv_set [OF assms(1) aa_setof_less [OF sb(1), of "2 ^ lb" addr]] assms(2)]
  have sets: "aa_sets (snd (aa_probe (2 ^ lb) addr a)) =
      (aa_sets a)[?i := snd (faa_probe (aa_tagof (2 ^ lb) addr) (aa_sets a ! ?i))]"
    by (simp add: aa_probe_def sb split_beta Let_def)
  show "map_option (\<lambda>(s, w). faa_data (aa_sets a ! s) ! nat w) (fst (aa_probe (2 ^ lb) addr a)) =
      aa_lookup (2 ^ lb) addr a"
    using p(1) by (simp add: aa_probe_def aa_lookup_def sb split_beta Let_def option.map_comp comp_def)
  show "aa_inv sb (snd (aa_probe (2 ^ lb) addr a))" by (rule aa_inv_update [OF assms(1) p(2) sets])
  show "aa_lookup (2 ^ lb) x (snd (aa_probe (2 ^ lb) addr a)) = aa_lookup (2 ^ lb) x a"
    unfolding aa_lookup_update [OF assms(1) sb(1) sets] by (simp add: p(3)) (simp add: aa_lookup_def sb)
qed

subsection \<open>Lockable arrays\<close>

record ('t, 'v) LockableFullyAssociativeArray =
  lka_tags :: "'t LockableFullyAssociativeTags"
  lka_data :: "'v list"

type_synonym 'v lkset = "(W64, 'v) LockableFullyAssociativeArray"

definition lka_reset :: "('v \<Rightarrow> 'v) \<Rightarrow> 'v lkset \<Rightarrow> 'v lkset" where
  "lka_reset vreset a = \<lparr>lka_tags = lkt_reset (lka_tags a), lka_data = map vreset (lka_data a)\<rparr>"

definition lka_probe :: "W64 \<Rightarrow> 'v lkset \<Rightarrow> int option \<times> 'v lkset" where
  "lka_probe tag a =
     (let (way, t) = lkt_probe tag (lka_tags a); a1 = a\<lparr>lka_tags := t\<rparr>
      in if way < 0 then (None, a1) else (Some way, a1))"

definition lka_select :: "W64 \<Rightarrow> W64 \<Rightarrow> 'v lkset \<Rightarrow> int option \<times> W64 \<times> 'v lkset" where
  "lka_select tag oldtag a =
     (let (way, old, t) = lkt_select tag oldtag (lka_tags a); a1 = a\<lparr>lka_tags := t\<rparr>
      in if way < 0 then (None, old, a1) else (Some way, old, a1))"

definition lka_select_and_lock ::
  "W64 \<Rightarrow> bool \<Rightarrow> W64 \<Rightarrow> 'v lkset \<Rightarrow> int option \<times> bool \<times> W64 \<times> 'v lkset" where
  "lka_select_and_lock tag firstlock oldtag a =
     (let (way, fl, old, t) = lkt_select_and_lock tag firstlock oldtag (lka_tags a);
          a1 = a\<lparr>lka_tags := t\<rparr>
      in if way < 0 then (None, fl, old, a1) else (Some way, fl, old, a1))"

definition lka_tagof :: "int \<Rightarrow> 'v lkset \<Rightarrow> W64" where
  "lka_tagof way a = lkt_tags (lka_tags a) ! nat way"

definition lka_unlock_way :: "int \<Rightarrow> 'v lkset \<Rightarrow> 'v lkset" where
  "lka_unlock_way way a = a\<lparr>lka_tags := lkt_unlock way (lka_tags a)\<rparr>"

definition lka_invalidate_way :: "('v \<Rightarrow> 'v) \<Rightarrow> int \<Rightarrow> 'v lkset \<Rightarrow> 'v lkset" where
  "lka_invalidate_way vreset way a =
     (let a1 = lka_unlock_way way a
      in a1\<lparr>lka_tags := lkt_invalidate_way way (lka_tags a1),
            lka_data := (lka_data a1)[nat way := vreset (lka_data a1 ! nat way)]\<rparr>)"

definition lka_invalidate :: "('v \<Rightarrow> 'v) \<Rightarrow> W64 \<Rightarrow> 'v lkset \<Rightarrow> int \<times> 'v lkset" where
  "lka_invalidate vreset tag a =
     (let (way, t) = lkt_probe tag (lka_tags a); a1 = a\<lparr>lka_tags := t\<rparr>
      in if way < 0 then (-1, a1) else (way, lka_invalidate_way vreset way a1))"

definition lka_unlock :: "W64 \<Rightarrow> 'v lkset \<Rightarrow> int \<times> 'v lkset" where
  "lka_unlock tag a =
     (let (way, t) = lkt_probe tag (lka_tags a); a1 = a\<lparr>lka_tags := t\<rparr>
      in if way < 0 then (0, a1) else (way, lka_unlock_way way a1))"

record 'v LockableAssociativeArray =
  laa_sets :: "'v lkset list"

definition laa_reset :: "('v \<Rightarrow> 'v) \<Rightarrow> 'v LockableAssociativeArray \<Rightarrow> 'v LockableAssociativeArray" where
  "laa_reset vreset a = a\<lparr>laa_sets := map (lka_reset vreset) (laa_sets a)\<rparr>"

definition laa_setof :: "nat \<Rightarrow> nat \<Rightarrow> W64 \<Rightarrow> nat" where
  "laa_setof setcount linesize addr = unat (bits addr (lg linesize) (lg setcount))"

definition laa_tagof :: "nat \<Rightarrow> W64 \<Rightarrow> W64" where
  "laa_tagof linesize addr = floor_align addr (of_nat linesize)"

definition laa_probe ::
  "nat \<Rightarrow> W64 \<Rightarrow> 'v LockableAssociativeArray \<Rightarrow> (nat \<times> int) option \<times> 'v LockableAssociativeArray" where
  "laa_probe linesize addr a =
     (let set = laa_setof (length (laa_sets a)) linesize addr;
          (p, f) = lka_probe (laa_tagof linesize addr) (laa_sets a ! set)
      in (map_option (Pair set) p, a\<lparr>laa_sets := (laa_sets a)[set := f]\<rparr>))"

definition laa_select ::
  "nat \<Rightarrow> W64 \<Rightarrow> W64 \<Rightarrow> 'v LockableAssociativeArray
   \<Rightarrow> (nat \<times> int) option \<times> W64 \<times> 'v LockableAssociativeArray" where
  "laa_select linesize addr oldaddr a =
     (let set = laa_setof (length (laa_sets a)) linesize addr;
          (p, old, f) = lka_select (laa_tagof linesize addr) oldaddr (laa_sets a ! set)
      in (map_option (Pair set) p, old, a\<lparr>laa_sets := (laa_sets a)[set := f]\<rparr>))"

definition laa_invalidate ::
  "('v \<Rightarrow> 'v) \<Rightarrow> nat \<Rightarrow> W64 \<Rightarrow> 'v LockableAssociativeArray \<Rightarrow> 'v LockableAssociativeArray" where
  "laa_invalidate vreset linesize addr a =
     (let set = laa_setof (length (laa_sets a)) linesize addr;
          (w, f) = lka_invalidate vreset (laa_tagof linesize addr) (laa_sets a ! set)
      in a\<lparr>laa_sets := (laa_sets a)[set := f]\<rparr>)"

definition laa_select_and_lock ::
  "nat \<Rightarrow> W64 \<Rightarrow> bool \<Rightarrow> W64 \<Rightarrow> 'v LockableAssociativeArray
   \<Rightarrow> (nat \<times> int) option \<times> bool \<times> W64 \<times> 'v LockableAssociativeArray" where
  "laa_select_and_lock linesize addr firstlock oldtag a =
     (let set = laa_setof (length (laa_sets a)) linesize addr;
          (p, fl, old, f) = lka_select_and_lock (laa_tagof linesize addr) firstlock oldtag (laa_sets a ! set)
      in (map_option (Pair set) p, fl, old, a\<lparr>laa_sets := (laa_sets a)[set := f]\<rparr>))"

text \<open>
  Locking is exclusive bookkeeping: a successful \<^verbatim>\<open>select_and_lock\<close> leaves the
  returned way holding the tag and locked, reports through \<open>firstlock\<close> whether the way was
  unlocked before, and a following \<^verbatim>\<open>unlock\<close> of the same tag releases exactly that way.
\<close>

theorem lkt_lock_then_unlock:
  assumes "lkt_inv s" "t \<noteq> -1" "lkt_select_and_lock t fl old s = (w, fl', old', s')" "0 \<le> w"
  shows "lkt_inv s' \<and> nat w < lkt_ways s' \<and> lkt_tags s' ! nat w = t \<and> lkt_islocked w s'
    \<and> fl' = (\<not> lkt_islocked w s) \<and> fst (lkt_probe t s') = w
    \<and> lkt_unlockedmap (lkt_unlock w (snd (lkt_probe t s'))) = (lkt_unlockedmap s)[nat w := True]"
proof -
  define s1 where "s1 = snd (snd (lkt_select t old s))"
  have sel: "fst (lkt_select t old s) = w" "s' = lkt_lock w s1" "fl' = lkt_unlockedmap s1 ! nat w"
    using assms(3,4) by (auto simp: lkt_select_and_lock_def s1_def split_beta Let_def split: if_splits)
  have "nat w < lkt_ways s \<and> lkt_inv s1 \<and> lkt_tags s1 ! nat w = t
      \<and> lkt_ways s1 = lkt_ways s \<and> lkt_unlockedmap s1 = lkt_unlockedmap s"
    using assms(1,2)
  proof (cases rule: lkt_probe_cases)
    case (hit i)
    then show ?thesis using sel(1) assms by (auto simp: s1_def lkt_select_hit)
  next
    case miss
    then have "0 \<le> lkt_lru s" using sel(1) assms(4) lkt_select_full [of t s old] by fastforce
    then show ?thesis
      using lkt_select_miss [OF assms(1,2) miss(1), of old] sel(1) lkt_lru_range [OF assms(1)]
      by (auto simp: s1_def lkt_ways_def)
  qed
  moreover from this have "way_sum (lkt_tags s1) t = w"
    using way_sum_hit [of "lkt_tags s1" "nat w" t] assms(2,4) by (simp add: lkt_inv_def lkt_ways_def)
  ultimately show ?thesis
    using sel assms(1,4)
    by (auto simp: lkt_lock_def lkt_unlock_def lkt_islocked_def lkt_inv_def lkt_ways_def lkt_probe_def
      lkt_match_def Let_def)
qed

theorem lkt_lock_then_unlock_witness:
  "let s = \<lparr>lkt_evictmap = [False, False], lkt_unlockedmap = [True, True], lkt_tags = [3, 5 :: W8]\<rparr>;
       (w, fl, old, s') = lkt_select_and_lock 7 False 0 s
   in w = 0 \<and> fl \<and> lkt_islocked w s' \<and> lkt_tags s' ! nat w = 7"
proof -
  let ?s = "\<lparr>lkt_evictmap = [False, False], lkt_unlockedmap = [True, True], lkt_tags = [3, 5 :: W8]\<rparr>"
  let ?r = "\<lparr>lkt_evictmap = [True, False], lkt_unlockedmap = [False, True], lkt_tags = [7, 5 :: W8]\<rparr>"
  have "lkt_inv ?s" by code_simp
  moreover have "lkt_select_and_lock 7 False 0 ?s = (0, True, 3, ?r)" by code_simp
  ultimately show ?thesis
    using lkt_lock_then_unlock [of ?s 7 False 0 0 True 3 ?r] by simp
qed

subsection \<open>Narrow tags with valid bits\<close>

text \<open>
  \<^verbatim>\<open>FullyAssociativeTagsNbit\<close> holds the operand tags of an issue queue. \<open>size\<close> is the
  length of the valid vector; the tag array has \<open>padsize\<close> further elements.
\<close>

record 't FullyAssociativeTagsNbit =
  nb_tags :: "'t list"
  nb_valid :: bitset

definition nb_size :: "'t FullyAssociativeTagsNbit \<Rightarrow> nat" where
  "nb_size s = length (nb_valid s)"

definition nb_reset :: "'a::len word FullyAssociativeTagsNbit \<Rightarrow> 'a word FullyAssociativeTagsNbit" where
  "nb_reset s = s\<lparr>nb_valid := bs_zero (nb_size s), nb_tags := replicate (length (nb_tags s)) (-1)\<rparr>"

definition nb_prep :: "'a::len word \<Rightarrow> 'a word list" where
  "nb_prep tag = replicate (16 div (LENGTH('a) div 8)) tag"

definition nb_insertslot ::
  "nat \<Rightarrow> 'a::len word \<Rightarrow> 'a word FullyAssociativeTagsNbit \<Rightarrow> int \<times> 'a word FullyAssociativeTagsNbit" where
  "nb_insertslot idx tag s =
     (int idx, s\<lparr>nb_valid := (nb_valid s)[idx := True], nb_tags := (nb_tags s)[idx := tag]\<rparr>)"

definition nb_insert ::
  "'a::len word \<Rightarrow> 'a word FullyAssociativeTagsNbit \<Rightarrow> int \<times> 'a word FullyAssociativeTagsNbit" where
  "nb_insert tag s =
     (if bs_all (nb_valid s) then (-1, s) else nb_insertslot (lsb (bs_not (nb_valid s))) tag s)"

definition nb_match :: "'a::len word list \<Rightarrow> 'a word FullyAssociativeTagsNbit \<Rightarrow> bitset" where
  "nb_match target s =
     bs_and (map (\<lambda>i. nb_tags s ! i = target ! (i mod length target)) [0..<nb_size s]) (nb_valid s)"

definition nb_matchany :: "'a::len word list \<Rightarrow> 'a word FullyAssociativeTagsNbit \<Rightarrow> bitset" where
  "nb_matchany target s =
     bs_and (map (\<lambda>i. nb_tags s ! i AND target ! (i mod length target) \<noteq> 0) [0..<nb_size s]) (nb_valid s)"

definition nb_search :: "'a::len word list \<Rightarrow> 'a word FullyAssociativeTagsNbit \<Rightarrow> int" where
  "nb_search target s =
     (let bitmap = nb_match target s in if bs_none bitmap then -1 else int (lsb bitmap))"

definition nb_extract ::
  "'a::len word list \<Rightarrow> 'a word FullyAssociativeTagsNbit \<Rightarrow> int \<times> 'a word FullyAssociativeTagsNbit" where
  "nb_extract target s =
     (let idx = nb_search target s
      in (idx, if 0 \<le> idx then s\<lparr>nb_valid := (nb_valid s)[nat idx := False]\<rparr> else s))"

definition nb_invalidateslot ::
  "nat \<Rightarrow> 'a::len word FullyAssociativeTagsNbit \<Rightarrow> 'a word FullyAssociativeTagsNbit" where
  "nb_invalidateslot index s = s\<lparr>nb_valid := (nb_valid s)[index := False]\<rparr>"

definition nb_invalidatemask ::
  "bitset \<Rightarrow> 'a::len word FullyAssociativeTagsNbit \<Rightarrow> bitset \<times> 'a word FullyAssociativeTagsNbit" where
  "nb_invalidatemask slotmask s =
     (slotmask, s\<lparr>nb_valid := bs_and (nb_valid s) (bs_not slotmask)\<rparr>)"

definition nb_invalidate ::
  "'a::len word list \<Rightarrow> 'a word FullyAssociativeTagsNbit \<Rightarrow> bitset \<times> 'a word FullyAssociativeTagsNbit" where
  "nb_invalidate target s = nb_invalidatemask (nb_match target s) s"

text \<open>The two shifting loops of \<^verbatim>\<open>collapse\<close>.\<close>

definition shift_down :: "nat \<Rightarrow> 'b list \<Rightarrow> 'b list" where
  "shift_down index xs = fold (\<lambda>i xs. xs[i := xs ! (i + 1)]) [index..<length xs - 1] xs"

definition nb_collapse ::
  "nat \<Rightarrow> 'a::len word FullyAssociativeTagsNbit \<Rightarrow> 'a word FullyAssociativeTagsNbit" where
  "nb_collapse index s =
     s\<lparr>nb_tags := (shift_down index (nb_tags s))[length (nb_tags s) - 1 := -1],
       nb_valid := (shift_down index (nb_valid s))[nb_size s - 1 := False]\<rparr>"

definition nb_decrement ::
  "'a::len word \<Rightarrow> 'a word FullyAssociativeTagsNbit \<Rightarrow> 'a word FullyAssociativeTagsNbit" where
  "nb_decrement amount s =
     s\<lparr>nb_tags := map (\<lambda>t. if t < amount then 0 else t - amount) (take (nb_size s) (nb_tags s))
          @ drop (nb_size s) (nb_tags s)\<rparr>"

definition nb_increment ::
  "'a::len word \<Rightarrow> 'a word FullyAssociativeTagsNbit \<Rightarrow> 'a word FullyAssociativeTagsNbit" where
  "nb_increment amount s =
     s\<lparr>nb_tags := map (\<lambda>t. if t > -1 - amount then -1 else t + amount) (take (nb_size s) (nb_tags s))
          @ drop (nb_size s) (nb_tags s)\<rparr>"

lemma shift_down_nth:
  assumes "index \<le> k" "k < length xs"
  shows "length (fold (\<lambda>i xs. xs[i := xs ! (i + 1)]) [index..<k] xs) = length xs
    \<and> (\<forall>j < length xs. fold (\<lambda>i xs. xs[i := xs ! (i + 1)]) [index..<k] xs ! j =
        (if index \<le> j \<and> j < k then xs ! (j + 1) else xs ! j))"
  using assms
proof (induction k rule: dec_induct)
  case (step k)
  then have IH: "length (fold (\<lambda>i xs. xs[i := xs ! (i + 1)]) [index..<k] xs) = length xs"
    "\<And>j. j < length xs \<Longrightarrow> fold (\<lambda>i xs. xs[i := xs ! (i + 1)]) [index..<k] xs ! j =
        (if index \<le> j \<and> j < k then xs ! (j + 1) else xs ! j)" by auto
  with step.prems step.hyps show ?case by (auto simp: less_Suc_eq)
qed auto

lemma shift_down_delete:
  assumes "index < length xs"
  shows "(shift_down index xs)[length xs - 1 := x] = take index xs @ drop (Suc index) xs @ [x]"
proof (rule nth_equalityI)
  have s: "length (shift_down index xs) = length xs"
    "\<And>j. j < length xs \<Longrightarrow> shift_down index xs ! j =
        (if index \<le> j \<and> j < length xs - 1 then xs ! (j + 1) else xs ! j)"
    using shift_down_nth [of index "length xs - 1" xs] assms by (auto simp: shift_down_def)
  then show "length ((shift_down index xs)[length xs - 1 := x]) =
      length (take index xs @ drop (Suc index) xs @ [x])"
    using assms by simp
  fix j assume "j < length ((shift_down index xs)[length xs - 1 := x])"
  then show "(shift_down index xs)[length xs - 1 := x] ! j = (take index xs @ drop (Suc index) xs @ [x]) ! j"
    using s assms by (auto simp: nth_append nth_list_update)
qed

text \<open>
  Collapsing slot \<open>index\<close> deletes exactly that slot from the tags and from the valid
  bits, keeps the order of the others and frees the last slot.
\<close>

theorem nb_collapse_deletes:
  assumes "index < nb_size s" "nb_size s \<le> length (nb_tags s)"
  shows "nb_collapse index s = s\<lparr>
    nb_tags := take index (nb_tags s) @ drop (Suc index) (nb_tags s) @ [-1],
    nb_valid := take index (nb_valid s) @ drop (Suc index) (nb_valid s) @ [False]\<rparr>"
  using assms shift_down_delete [of index "nb_tags s" "-1"] shift_down_delete [of index "nb_valid s" False]
  by (simp add: nb_collapse_def nb_size_def)

theorem nb_collapse_deletes_witness:
  "nb_collapse 1 \<lparr>nb_tags = [4, 5, 6 :: W8, -1], nb_valid = [True, True, True]\<rparr> =
     \<lparr>nb_tags = [4, 6, -1, -1], nb_valid = [True, True, False]\<rparr>"
  using nb_collapse_deletes [of 1 "\<lparr>nb_tags = [4, 5, 6 :: W8, -1], nb_valid = [True, True, True]\<rparr>"]
  by (simp add: nb_size_def)

lemma nb_match_nth:
  assumes "LENGTH('a::len) \<in> {8, 16}" "i < nb_size s" "nb_size s \<le> length (nb_tags s)"
  shows "nb_match (nb_prep (t :: 'a word)) s ! i \<longleftrightarrow> nb_valid s ! i \<and> nb_tags s ! i = t"
  using assms by (auto simp: nb_match_def nb_prep_def nb_size_def)

text \<open>
  A tag inserted into a narrow tag array is found: insertion takes a free slot, the
  search for the tag answers a valid slot holding it, and insertion fails exactly when every
  slot is taken.
\<close>

theorem nb_insert_then_search:
  fixes t :: "'a::len word"
  assumes "LENGTH('a) \<in> {8, 16}" "nb_size s \<le> length (nb_tags s)"
  shows "let (i, s') = nb_insert t s; k = nb_search (nb_prep t) s'
    in (i = -1 \<longleftrightarrow> bs_all (nb_valid s)) \<and> (i = -1 \<longrightarrow> s' = s)
     \<and> (i \<noteq> -1 \<longrightarrow> \<not> nb_valid s ! nat i \<and> 0 \<le> k \<and> nb_valid s' ! nat k \<and> nb_tags s' ! nat k = t)"
proof (cases "bs_all (nb_valid s)")
  case True
  then show ?thesis by (simp add: nb_insert_def Let_def)
next
  case False
  define i where "i = lsb (bs_not (nb_valid s))"
  have i: "i < nb_size s" "\<not> nb_valid s ! i"
    using lsb_not_less [OF False] lsb_not_clear [OF False] by (simp_all add: i_def nb_size_def)
  define s' where "s' = s\<lparr>nb_valid := (nb_valid s)[i := True], nb_tags := (nb_tags s)[i := t]\<rparr>"
  have s': "nb_size s' = nb_size s" "nb_size s' \<le> length (nb_tags s')" "nb_valid s' ! i" "nb_tags s' ! i = t"
    using i assms(2) by (simp_all add: s'_def nb_size_def)
  define m where "m = nb_match (nb_prep t) s'"
  have len: "length m = nb_size s" using s' by (simp add: m_def nb_match_def nb_size_def)
  have "m ! i" unfolding m_def using nb_match_nth [OF assms(1), of i s' t] i s' by simp
  then have any: "\<not> bs_none m" using i len by (auto simp: bs_none_iff)
  have "nb_valid s' ! lsb m" "nb_tags s' ! lsb m = t"
    using nb_match_nth [OF assms(1), of "lsb m" s' t] lsb_set [OF any] lsb_less [OF any] len s'
    by (simp_all add: m_def [symmetric])
  then show ?thesis
    using False any i by (simp add: nb_insert_def nb_insertslot_def i_def [symmetric] s'_def [symmetric]
      nb_search_def m_def [symmetric] Let_def)
qed

theorem nb_insert_then_search_witness:
  "snd (nb_insert (9 :: W8) \<lparr>nb_tags = [4, 5, 6, -1], nb_valid = [True, False, True]\<rparr>) =
     \<lparr>nb_tags = [4, 9, 6, -1], nb_valid = [True, True, True]\<rparr> \<and>
   0 \<le> nb_search (nb_prep (9 :: W8)) \<lparr>nb_tags = [4, 9, 6, -1], nb_valid = [True, True, True]\<rparr>"
proof -
  let ?s = "\<lparr>nb_tags = [4, 5, 6 :: W8, -1], nb_valid = [True, False, True]\<rparr>"
  have "nb_insert 9 ?s = (1, \<lparr>nb_tags = [4, 9, 6, -1], nb_valid = [True, True, True]\<rparr>)" by code_simp
  then show ?thesis
    using nb_insert_then_search [of ?s 9] by (simp add: nb_size_def Let_def)
qed

end
