(* ===== verification/Branch_Pred.thy ===== *)
theory Branch_Pred
  imports Fixed_Queue Assoc_Arrays
begin

text \<open>
  The branch predictor of \<^verbatim>\<open>src/x86sim/branchpred.cpp\<close>: the bimodal and two-level
  direction predictors, the branch target buffer (a set-associative array with one-byte lines),
  the return address stack on top of the ring buffer, and the combined predictor that selects
  between them. The counters a prediction used are remembered as references into the tables
  (\<open>ctr_ref\<close>), as the source keeps pointers. A failed assertion, or a null pointer that would
  be dereferenced, is \<open>None\<close>. Statistics and logging are left out.
\<close>

subsection \<open>Direction predictors\<close>

record BimodalPredictor =
  bim_table :: "W8 list"

definition bim_reset :: "BimodalPredictor \<Rightarrow> BimodalPredictor" where
  "bim_reset b = b\<lparr>bim_table := replicate (length (bim_table b)) 1\<rparr>"

definition bim_hash :: "W64 \<Rightarrow> BimodalPredictor \<Rightarrow> nat" where
  "bim_hash branchaddr b =
     unat (lowbits (drop_bit 16 branchaddr XOR branchaddr) (lg (length (bim_table b))))"

definition bim_predict :: "W64 \<Rightarrow> BimodalPredictor \<Rightarrow> nat" where
  "bim_predict branchaddr b = bim_hash branchaddr b"

record TwoLevelPredictor =
  tl_shiftregs :: "W32 list"
  tl_L2table :: "W8 list"

definition tl_reset :: "TwoLevelPredictor \<Rightarrow> TwoLevelPredictor" where
  "tl_reset t = t\<lparr>tl_L2table := replicate (length (tl_L2table t)) 1\<rparr>"

definition tl_predict :: "nat \<Rightarrow> bool \<Rightarrow> W64 \<Rightarrow> TwoLevelPredictor \<Rightarrow> nat" where
  "tl_predict SHIFTWIDTH HISTORYXOR branchaddr t =
     (let L1index = unat (lowbits branchaddr (lg (length (tl_shiftregs t))));
          L2index = tl_shiftregs t ! L1index;
          L2index = (if HISTORYXOR then L2index XOR ucast branchaddr
                     else L2index OR ucast (push_bit SHIFTWIDTH branchaddr))
      in unat (lowbits (scast L2index) (lg (length (tl_L2table t)))))"

subsection \<open>Return address stack\<close>

record ReturnAddressStackEntry =
  ras_idx :: int
  ras_uuid :: W32
  ras_rip :: W64

type_synonym ras = "ReturnAddressStackEntry FixedQueue"

definition ras_reset :: "ras \<Rightarrow> ras" where
  "ras_reset q = queue_reset (\<lambda>i e. e\<lparr>ras_idx := i\<rparr>) q"

definition ras_push :: "W64 \<Rightarrow> W64 \<Rightarrow> ras \<Rightarrow> (ReturnAddressStackEntry \<times> ras) option" where
  "ras_push uuid rip q =
     (let q1 = (if fq_full q then snd (fq_pophead q) else q)
      in case fq_alloc q1 of
           (None, q2) \<Rightarrow> None
         | (Some p, q2) \<Rightarrow>
             let e = slots q2 ! nat p
             in Some (e, q2\<lparr>slots := (slots q2)[nat p := e\<lparr>ras_uuid := ucast uuid, ras_rip := rip\<rparr>]\<rparr>))"

definition ras_pop :: "ras \<Rightarrow> ReturnAddressStackEntry \<times> ras" where
  "ras_pop q =
     (case fq_pop q of
        (None, q1) \<Rightarrow> (\<lparr>ras_idx = -1, ras_uuid = 0, ras_rip = 0\<rparr>, q1)
      | (Some p, q1) \<Rightarrow> (slots q1 ! nat p, q1))"

definition ras_peek :: "ras \<Rightarrow> W64" where
  "ras_peek q = (case fq_peektail q of None \<Rightarrow> 0 | Some p \<Rightarrow> ras_rip (slots q ! nat p))"

definition ras_annulpush :: "ReturnAddressStackEntry \<Rightarrow> ras \<Rightarrow> ras option" where
  "ras_annulpush old q =
     (case fq_peektail q of
        None \<Rightarrow> Some q
      | Some p \<Rightarrow>
          let e = (slots q ! nat p)\<lparr>ras_uuid := ras_uuid old, ras_rip := ras_rip old\<rparr>;
              q1 = q\<lparr>slots := (slots q)[nat p := e]\<rparr>;
              q2 = snd (ras_pop q1)
          in if ras_idx (slots q2 ! nat p) = tail q2 then Some q2 else None)"

definition ras_annulpop :: "ReturnAddressStackEntry \<Rightarrow> ras \<Rightarrow> ras option" where
  "ras_annulpop old q =
     (if fq_full q then Some q
      else if ras_idx old = tail q
      then map_option snd (ras_push (ucast (ras_uuid old)) (ras_rip old) q)
      else None)"

subsection \<open>The combined predictor\<close>

definition BRANCH_HINT_COND :: W32 where "BRANCH_HINT_COND = 1"
definition BRANCH_HINT_INDIRECT :: W32 where "BRANCH_HINT_INDIRECT = 2"
definition BRANCH_HINT_CALL :: W32 where "BRANCH_HINT_CALL = 4"
definition BRANCH_HINT_RET :: W32 where "BRANCH_HINT_RET = 8"

lemmas branch_hints = BRANCH_HINT_COND_def BRANCH_HINT_INDIRECT_def BRANCH_HINT_CALL_def BRANCH_HINT_RET_def

datatype ctr_ref = Bimodal_ctr nat | TwoLevel_ctr nat | Meta_ctr nat

record PredictorUpdate =
  pu_uuid :: W64
  pu_cp1 :: "ctr_ref option"
  pu_cp2 :: "ctr_ref option"
  pu_cpmeta :: "ctr_ref option"
  pu_flags :: W8
  pu_bimodal :: bool
  pu_twolevel :: bool
  pu_meta :: bool
  pu_ras_push :: bool
  pu_ras_old :: ReturnAddressStackEntry

record BTBEntry =
  btb_target :: W64

record CombinedPredictor =
  cp_twolevel :: TwoLevelPredictor
  cp_bimodal :: BimodalPredictor
  cp_meta :: BimodalPredictor
  cp_btb :: "BTBEntry AssociativeArray"
  cp_ras :: ras

definition cp_reset :: "CombinedPredictor \<Rightarrow> CombinedPredictor" where
  "cp_reset p = \<lparr>cp_twolevel = tl_reset (cp_twolevel p), cp_bimodal = bim_reset (cp_bimodal p),
     cp_meta = bim_reset (cp_meta p), cp_btb = aa_reset (\<lambda>e. e\<lparr>btb_target := 0\<rparr>) (cp_btb p),
     cp_ras = ras_reset (cp_ras p)\<rparr>"

definition has_hint :: "W32 \<Rightarrow> W32 \<Rightarrow> bool" where
  "has_hint type h \<longleftrightarrow> type AND h \<noteq> 0"

definition cp_updateras ::
  "PredictorUpdate \<Rightarrow> W64 \<Rightarrow> CombinedPredictor \<Rightarrow> (PredictorUpdate \<times> CombinedPredictor) option" where
  "cp_updateras predinfo rip p =
     (if has_hint (ucast (pu_flags predinfo)) BRANCH_HINT_RET
      then let (old, r) = ras_pop (cp_ras p)
           in Some (predinfo\<lparr>pu_ras_push := False, pu_ras_old := old\<rparr>, p\<lparr>cp_ras := r\<rparr>)
      else if has_hint (ucast (pu_flags predinfo)) BRANCH_HINT_CALL
      then case ras_push (pu_uuid predinfo) rip (cp_ras p) of
             None \<Rightarrow> None
           | Some (old, r) \<Rightarrow>
               Some (predinfo\<lparr>pu_ras_push := True, pu_ras_old := old\<rparr>, p\<lparr>cp_ras := r\<rparr>)
      else Some (predinfo, p))"

fun read_ctr :: "ctr_ref \<Rightarrow> CombinedPredictor \<Rightarrow> W8" where
  "read_ctr (Bimodal_ctr i) p = bim_table (cp_bimodal p) ! i"
| "read_ctr (TwoLevel_ctr i) p = tl_L2table (cp_twolevel p) ! i"
| "read_ctr (Meta_ctr i) p = bim_table (cp_meta p) ! i"

fun write_ctr :: "ctr_ref \<Rightarrow> W8 \<Rightarrow> CombinedPredictor \<Rightarrow> CombinedPredictor" where
  "write_ctr (Bimodal_ctr i) c p =
     p\<lparr>cp_bimodal := (cp_bimodal p)\<lparr>bim_table := (bim_table (cp_bimodal p))[i := c]\<rparr>\<rparr>"
| "write_ctr (TwoLevel_ctr i) c p =
     p\<lparr>cp_twolevel := (cp_twolevel p)\<lparr>tl_L2table := (tl_L2table (cp_twolevel p))[i := c]\<rparr>\<rparr>"
| "write_ctr (Meta_ctr i) c p =
     p\<lparr>cp_meta := (cp_meta p)\<lparr>bim_table := (bim_table (cp_meta p))[i := c]\<rparr>\<rparr>"

definition cp_predict ::
  "nat \<Rightarrow> bool \<Rightarrow> bool \<Rightarrow> PredictorUpdate \<Rightarrow> W32 \<Rightarrow> W64 \<Rightarrow> W64 \<Rightarrow> CombinedPredictor
   \<Rightarrow> W64 \<times> PredictorUpdate \<times> CombinedPredictor" where
  "cp_predict SHIFTWIDTH HISTORYXOR static_branchpred update type branchaddr target p =
     (let u = update\<lparr>pu_cp1 := None, pu_cp2 := None, pu_cpmeta := None, pu_flags := ucast type\<rparr>
      in if type AND (BRANCH_HINT_COND OR BRANCH_HINT_INDIRECT) = 0 then (target, u, p)
         else
           let u = (if has_hint type BRANCH_HINT_COND
                    then let bimodalctr = Bimodal_ctr (bim_predict branchaddr (cp_bimodal p));
                             twolevelctr = TwoLevel_ctr (tl_predict SHIFTWIDTH HISTORYXOR branchaddr (cp_twolevel p));
                             metactr = Meta_ctr (bim_predict branchaddr (cp_meta p));
                             u1 = u\<lparr>pu_cpmeta := Some metactr, pu_meta := read_ctr metactr p \<ge> 2,
                                    pu_bimodal := read_ctr bimodalctr p \<ge> 2,
                                    pu_twolevel := read_ctr twolevelctr p \<ge> 2\<rparr>
                         in if read_ctr metactr p \<ge> 2
                            then u1\<lparr>pu_cp1 := Some twolevelctr, pu_cp2 := Some bimodalctr\<rparr>
                            else u1\<lparr>pu_cp1 := Some bimodalctr, pu_cp2 := Some twolevelctr\<rparr>
                    else u)
           in if has_hint type BRANCH_HINT_RET then (ras_peek (cp_ras p), u, p)
              else let (pbtb, b) = aa_probe 1 branchaddr (cp_btb p);
                       p1 = p\<lparr>cp_btb := b\<rparr>;
                       entry = (\<lambda>(s, w). faa_data (aa_sets b ! s) ! nat w)
                   in if \<not> has_hint type BRANCH_HINT_COND
                      then ((case pbtb of None \<Rightarrow> target | Some e \<Rightarrow> btb_target (entry e)), u, p1)
                      else if pbtb = None \<and> static_branchpred
                      then (if target < branchaddr then target else branchaddr, u, p1)
                      else (if read_ctr (the (pu_cp1 u)) p1 \<ge> 2 then target else branchaddr, u, p1))"

definition clamp_ctr :: "W8 \<Rightarrow> bool \<Rightarrow> W8" where
  "clamp_ctr counter up = of_int (max 0 (min 3 (uint counter + (if up then 1 else -1))))"

definition bump_ctr :: "ctr_ref option \<Rightarrow> bool \<Rightarrow> CombinedPredictor \<Rightarrow> CombinedPredictor" where
  "bump_ctr r up p =
     (case r of None \<Rightarrow> p | Some c \<Rightarrow> write_ctr c (clamp_ctr (read_ctr c p) up) p)"

definition cp_update ::
  "nat \<Rightarrow> PredictorUpdate \<Rightarrow> W64 \<Rightarrow> W64 \<Rightarrow> CombinedPredictor \<Rightarrow> CombinedPredictor" where
  "cp_update SHIFTWIDTH update branchaddr target p =
     (let type = ucast (pu_flags update); taken = (target \<noteq> branchaddr)
      in if has_hint type BRANCH_HINT_INDIRECT \<and> has_hint type BRANCH_HINT_RET then p
         else
           let p1 = (if has_hint type BRANCH_HINT_COND
                     then let t = cp_twolevel p;
                              l1index = unat (lowbits branchaddr (lg (length (tl_shiftregs t))));
                              sr = push_bit 1 (tl_shiftregs t ! l1index) OR of_bool taken
                          in p\<lparr>cp_twolevel := t\<lparr>tl_shiftregs :=
                                 (tl_shiftregs t)[l1index := ucast (lowbits (scast sr) SHIFTWIDTH)]\<rparr>\<rparr>
                     else p);
               (pbtb, old, b) = aa_select 1 branchaddr 0 (cp_btb p1);
               p2 = p1\<lparr>cp_btb := b\<rparr>;
               p3 = bump_ctr (pu_cp1 update) taken p2;
               p4 = bump_ctr (pu_cp2 update) taken p3;
               p5 = (if pu_cpmeta update \<noteq> None \<and> pu_bimodal update \<noteq> pu_twolevel update
                     then bump_ctr (pu_cpmeta update) (pu_twolevel update = taken) p4 else p4);
               e = (faa_data (aa_sets (cp_btb p5) ! fst pbtb) ! nat (snd pbtb))\<lparr>btb_target := target\<rparr>
           in p5\<lparr>cp_btb := aa_store pbtb e (cp_btb p5)\<rparr>)"

definition cp_annulras :: "PredictorUpdate \<Rightarrow> CombinedPredictor \<Rightarrow> CombinedPredictor option" where
  "cp_annulras predinfo p =
     map_option (\<lambda>r. p\<lparr>cp_ras := r\<rparr>)
       (if pu_ras_push predinfo then ras_annulpush (pu_ras_old predinfo) (cp_ras p)
        else ras_annulpop (pu_ras_old predinfo) (cp_ras p))"

text \<open>
  The implementation instance: 65536 bimodal and meta counters, one history register of 16 bits
  xored with the address, 65536 second-level counters, 1024 sets of 4 BTB ways and a return
  address stack of 1024 entries. \<open>junk\<close> is the memory of the new object, which only
  \<^verbatim>\<open>reset\<close> initialises.
\<close>

definition bp_init :: "CombinedPredictor \<Rightarrow> CombinedPredictor" where
  "bp_init junk = cp_reset junk"

definition bp_geometry :: "CombinedPredictor \<Rightarrow> bool" where
  "bp_geometry p \<longleftrightarrow> length (bim_table (cp_bimodal p)) = 65536 \<and> length (bim_table (cp_meta p)) = 65536
     \<and> length (tl_shiftregs (cp_twolevel p)) = 1 \<and> length (tl_L2table (cp_twolevel p)) = 65536
     \<and> length (aa_sets (cp_btb p)) = 1024
     \<and> list_all (\<lambda>s. faa_shape s \<and> fat_ways (faa_tags s) = 4) (aa_sets (cp_btb p))
     \<and> length (slots (cp_ras p)) = 1024"

definition bp_predict ::
  "bool \<Rightarrow> PredictorUpdate \<Rightarrow> W32 \<Rightarrow> W64 \<Rightarrow> W64 \<Rightarrow> CombinedPredictor
   \<Rightarrow> W64 \<times> PredictorUpdate \<times> CombinedPredictor" where
  "bp_predict = cp_predict 16 True"

definition bp_update :: "PredictorUpdate \<Rightarrow> W64 \<Rightarrow> W64 \<Rightarrow> CombinedPredictor \<Rightarrow> CombinedPredictor" where
  "bp_update = cp_update 16"

subsection \<open>Speculation on the return address stack\<close>

definition ras_inv :: "ras \<Rightarrow> bool" where
  "ras_inv q \<longleftrightarrow> fq_inv q \<and> 2 \<le> length (slots q) \<and> (\<forall>i < length (slots q). ras_idx (slots q ! i) = int i)"

lemma aim_inverse:
  "0 \<le> t \<Longrightarrow> t < n \<Longrightarrow> add_index_modulo (add_index_modulo t 1 n) (-1) n = t"
  "0 \<le> t \<Longrightarrow> t < n \<Longrightarrow> add_index_modulo (add_index_modulo t (-1) n) 1 n = t"
  by (auto simp: add_index_modulo_def Let_def)

lemma ras_invD:
  assumes "ras_inv q"
  shows "fq_inv q" "0 \<le> tail q" "nat (tail q) < length (slots q)"
    "ras_idx (slots q ! nat (tail q)) = tail q" "2 \<le> length (slots q)"
  using assms fq_invD(4,5) [of q] by (auto simp: ras_inv_def fq_size_def)

lemma ras_push_eq:
  assumes "ras_inv q" "\<not> fq_full q"
  shows "ras_push uuid rip q = Some (slots q ! nat (tail q),
    q\<lparr>tail := add_index_modulo (tail q) 1 (fq_size q), count := count q + 1,
      slots := (slots q)[nat (tail q) := (slots q ! nat (tail q))\<lparr>ras_uuid := ucast uuid, ras_rip := rip\<rparr>]\<rparr>)"
  using assms by (simp add: ras_push_def fq_alloc_def fq_full_def Let_def)

lemma ras_inv_update:
  "ras_inv q \<Longrightarrow> fq_inv (q\<lparr>head := h, tail := t, count := c\<rparr>) \<Longrightarrow>
     ras_inv (q\<lparr>head := h, tail := t, count := c,
       slots := (slots q)[i := (slots q ! i)\<lparr>ras_uuid := u, ras_rip := r\<rparr>]\<rparr>)"
  by (cases "i < length (slots q)")
    (auto simp: ras_inv_def fq_inv_def fq_size_def)

lemma ras_push_some:
  assumes "ras_inv q"
  shows "\<exists>old q'. ras_push uuid rip q = Some (old, q') \<and> ras_inv q'
    \<and> contents q' = (if fq_full q then tl (contents q) else contents q)
        @ [(slots q ! nat (tail q))\<lparr>ras_uuid := ucast uuid, ras_rip := rip\<rparr>]"
proof -
  note d = ras_invD [OF assms]
  define q1 where "q1 = (if fq_full q then snd (fq_dequeue q) else q)"
  define x where "x = (slots q ! nat (tail q))\<lparr>ras_uuid := ucast uuid, ras_rip := rip\<rparr>"
  have cap: "0 < capacity q" using d(5) by (simp add: capacity_def)
  have q1: "fq_inv q1 \<and> length (contents q1) < capacity q1 \<and> slots q1 = slots q \<and> tail q1 = tail q
      \<and> contents q1 = (if fq_full q then tl (contents q) else contents q)"
  proof (cases "fq_full q")
    case True
    then obtain y ys where cons: "contents q = y # ys"
      using fq_fullD [OF d(1)] cap by (cases "contents q") (auto simp: fq_full_def)
    have "length (contents q) \<le> capacity q"
      using length_contents [OF d(1)] fq_invD(7) [OF d(1)] by (simp add: capacity_def fq_size_def)
    moreover have "slots (snd (fq_dequeue q)) = slots q" "tail (snd (fq_dequeue q)) = tail q"
      by (simp_all add: fq_dequeue_def)
    ultimately show ?thesis
      using fq_dequeueD [OF d(1) cons] True cons by (auto simp: q1_def)
  next
    case False
    then show ?thesis using d fq_fullD [OF d(1)] by (simp add: q1_def fq_full_def)
  qed
  then have "ras_inv q1" using assms by (simp add: ras_inv_def)
  have notfull: "\<not> fq_full q1" using q1 fq_fullD [of q1] unfolding fq_full_def by blast
  have "ras_push uuid rip q = ras_push uuid rip q1"
    using notfull by (simp add: ras_push_def q1_def fq_pophead_eq)
  moreover obtain p q' where push: "fq_push x q1 = (Some p, q')" "fq_inv q'" "contents q' = contents q1 @ [x]"
    using fq_pushD [of q1 x] q1 by blast
  moreover have "q' = q1\<lparr>tail := add_index_modulo (tail q1) 1 (fq_size q1), count := count q1 + 1,
      slots := (slots q1)[nat (tail q1) := x]\<rparr>"
    using push(1) notfull by (auto simp: fq_push_def fq_alloc_def fq_full_def)
  moreover have "ras_inv q'"
    using \<open>ras_inv q1\<close> push(2) calculation(5) d q1
    by (auto simp: ras_inv_def x_def nth_list_update)
  ultimately show ?thesis
    using ras_push_eq [OF \<open>ras_inv q1\<close> notfull, of uuid rip] q1 by (auto simp: x_def)
qed

lemma ras_pop_inv: "ras_inv q \<Longrightarrow> ras_inv (snd (ras_pop q))"
proof -
  assume q: "ras_inv q"
  have "fq_inv (snd (fq_pop q))"
    using fq_popD [of q] fq_empty_ops [of q] ras_invD(1) [OF q]
    by (cases "contents q" rule: rev_cases) auto
  moreover have "slots (snd (fq_pop q)) = slots q" by (simp add: fq_pop_def Let_def)
  moreover have "snd (ras_pop q) = snd (fq_pop q)" by (simp add: ras_pop_def split: prod.split option.split)
  ultimately show ?thesis using q by (simp add: ras_inv_def)
qed

lemma annul_push:
  assumes "ras_inv q" "\<not> fq_full q" "ras_push uuid rip q = Some (old, q')"
  shows "ras_annulpush old q' = Some q"
proof -
  note d = ras_invD [OF assms(1)]
  let ?e = "slots q ! nat (tail q)"
  have q': "old = ?e" "q' = q\<lparr>tail := add_index_modulo (tail q) 1 (fq_size q), count := count q + 1,
      slots := (slots q)[nat (tail q) := ?e\<lparr>ras_uuid := ucast uuid, ras_rip := rip\<rparr>]\<rparr>"
    using assms(3) ras_push_eq [OF assms(1,2), of uuid rip] by auto
  have aim: "add_index_modulo (tail q') (-1) (fq_size q') = tail q"
    using d(2,3) aim_inverse(1) [of "tail q" "fq_size q"] by (simp add: q' fq_size_def)
  have cnt: "count q' \<noteq> 0" using fq_invD(6) [OF d(1)] by (simp add: q')
  have restore: "(slots q' ! nat (tail q))\<lparr>ras_uuid := ras_uuid old, ras_rip := ras_rip old\<rparr> = ?e"
    using d(3) by (simp add: q')
  have slots: "(slots q')[nat (tail q) := ?e] = slots q" by (simp add: q')
  define q1 where "q1 = q'\<lparr>slots := slots q\<rparr>"
  have "add_index_modulo (tail q1) (-1) (fq_size q1) = tail q"
    using aim by (simp add: q1_def q' fq_size_def)
  then have pop: "snd (ras_pop q1) = q"
    using cnt by (simp add: ras_pop_def fq_pop_def fq_empty_def Let_def) (simp add: q1_def q')
  have "fq_peektail q' = Some (tail q)"
    using aim cnt by (simp add: fq_peektail_def fq_empty_def)
  then show ?thesis
    using pop d(4) by (simp add: ras_annulpush_def Let_def restore slots q1_def [symmetric])
qed

lemma annul_pop:
  assumes "ras_inv q" "\<not> fq_empty q" "ras_pop q = (old, q')"
  shows "ras_annulpop old q' = Some q"
proof -
  note d = ras_invD [OF assms(1)]
  let ?t = "add_index_modulo (tail q) (-1) (fq_size q)"
  have q': "q' = q\<lparr>tail := ?t, count := count q - 1\<rparr>" "old = slots q ! nat ?t"
    using assms(2,3) by (auto simp: ras_pop_def fq_pop_def Let_def)
  have t: "0 \<le> ?t" "?t < fq_size q"
    using add_index_modulo_range [of "tail q" "fq_size q" "-1"] fq_invD(1,4,5) [OF d(1)] by simp_all
  then have idx: "ras_idx old = ?t"
    using assms(1) q' by (simp add: ras_inv_def fq_size_def)
  have inv': "ras_inv q'" using ras_pop_inv [OF assms(1)] assms(3) by simp
  have notfull: "\<not> fq_full q'"
    using fq_invD(7) [OF d(1)] by (simp add: q' fq_full_def fq_remaining_def fq_size_def)
  have "add_index_modulo ?t 1 (fq_size q) = tail q"
    using aim_inverse(2) [of "tail q" "fq_size q"] fq_invD(4,5) [OF d(1)] by simp
  moreover have "fq_size q' = fq_size q" by (simp add: q' fq_size_def)
  moreover have "(ucast (ucast v :: W64) :: W32) = v" for v :: W32
    by (rule bit_word_eqI) (simp add: bit_ucast_iff)
  ultimately show ?thesis
    using notfull idx ras_push_eq [OF inv' notfull, of "ucast (ras_uuid old)" "ras_rip old"]
    by (simp add: ras_annulpop_def q')
qed

text \<open>
  A wrong-path sequence of calls and returns, and its annulment in the reverse order. \<open>None\<close>
  stands for a failed assertion or a null pointer.
\<close>

fun speculate :: "(PredictorUpdate \<times> W64) list \<Rightarrow> CombinedPredictor
    \<Rightarrow> (PredictorUpdate list \<times> CombinedPredictor) option" where
  "speculate [] p = Some ([], p)"
| "speculate ((u, rip) # bs) p =
     (case cp_updateras u rip p of None \<Rightarrow> None
      | Some (u', p1) \<Rightarrow>
          (case speculate bs p1 of None \<Rightarrow> None | Some (us, p2) \<Rightarrow> Some (u' # us, p2)))"

fun annul_all :: "PredictorUpdate list \<Rightarrow> CombinedPredictor \<Rightarrow> CombinedPredictor option" where
  "annul_all [] p = Some p"
| "annul_all (u # us) p = (case cp_annulras u p of None \<Rightarrow> None | Some p1 \<Rightarrow> annul_all us p1)"

text \<open>
  The stack neither overflows nor underflows on the path, and every branch on it is a call or a
  return (the pipeline annuls only those).
\<close>

fun safe_path :: "(PredictorUpdate \<times> W64) list \<Rightarrow> int \<Rightarrow> int \<Rightarrow> bool" where
  "safe_path [] cap n = True"
| "safe_path ((u, rip) # bs) cap n =
     (if has_hint (ucast (pu_flags u)) BRANCH_HINT_RET then 0 < n \<and> safe_path bs cap (n - 1)
      else has_hint (ucast (pu_flags u)) BRANCH_HINT_CALL \<and> n < cap \<and> safe_path bs cap (n + 1))"

lemma annul_all_append:
  "annul_all (us @ vs) p = (case annul_all us p of None \<Rightarrow> None | Some p1 \<Rightarrow> annul_all vs p1)"
  by (induction us arbitrary: p) (auto split: option.splits)

lemma updateras_annul:
  assumes "ras_inv (cp_ras p)" "safe_path [(u, rip)] (int (capacity (cp_ras p))) (count (cp_ras p))"
  shows "\<exists>u' p1. cp_updateras u rip p = Some (u', p1) \<and> cp_annulras u' p1 = Some p
    \<and> ras_inv (cp_ras p1) \<and> capacity (cp_ras p1) = capacity (cp_ras p)
    \<and> count (cp_ras p1) =
        count (cp_ras p) + (if has_hint (ucast (pu_flags u)) BRANCH_HINT_RET then -1 else 1)"
proof (cases "has_hint (ucast (pu_flags u)) BRANCH_HINT_RET")
  case True
  obtain old r where pop: "ras_pop (cp_ras p) = (old, r)" by fastforce
  have ne: "\<not> fq_empty (cp_ras p)" using True assms by (simp add: fq_empty_def)
  moreover from this pop have "count r = count (cp_ras p) - 1" "capacity r = capacity (cp_ras p)"
    by (auto simp: ras_pop_def fq_pop_def Let_def capacity_def)
  ultimately show ?thesis
    using True annul_pop [OF assms(1) ne pop] ras_pop_inv [OF assms(1)] pop
    by (simp add: cp_updateras_def cp_annulras_def)
next
  case False
  then have call: "has_hint (ucast (pu_flags u)) BRANCH_HINT_CALL" and nf: "\<not> fq_full (cp_ras p)"
    using assms(2) ras_invD(5) [OF assms(1)]
    by (auto simp: fq_full_def fq_remaining_def capacity_def fq_size_def of_nat_diff split: if_splits)
  obtain old r where push: "ras_push (pu_uuid u) rip (cp_ras p) = Some (old, r)" "ras_inv r"
    using ras_push_some [OF assms(1)] by blast
  moreover from this ras_push_eq [OF assms(1) nf] have
    "count r = count (cp_ras p) + 1" "capacity r = capacity (cp_ras p)" by (auto simp: capacity_def)
  ultimately show ?thesis
    using False call annul_push [OF assms(1) nf push(1)] by (simp add: cp_updateras_def cp_annulras_def)
qed

text \<open>
  Claim C12. Speculation on the return address stack is undone exactly: after any sequence of
  calls and returns along a wrong path on which the stack neither overflows nor underflows,
  annulling the branches youngest first succeeds and restores the whole predictor state.
\<close>

theorem speculate_annul:
  assumes "ras_inv (cp_ras p)" "safe_path bs (int (capacity (cp_ras p))) (count (cp_ras p))"
  shows "\<exists>us p'. speculate bs p = Some (us, p') \<and> annul_all (rev us) p' = Some p"
  using assms
proof (induction bs arbitrary: p)
  case (Cons b bs)
  obtain u rip where b: "b = (u, rip)" by fastforce
  with Cons.prems(2) have "safe_path [(u, rip)] (int (capacity (cp_ras p))) (count (cp_ras p))"
    by (auto split: if_splits)
  from updateras_annul [OF Cons.prems(1) this] obtain u' p1 where u: "cp_updateras u rip p = Some (u', p1)"
    "cp_annulras u' p1 = Some p" "ras_inv (cp_ras p1)" "capacity (cp_ras p1) = capacity (cp_ras p)"
    "count (cp_ras p1) = count (cp_ras p) + (if has_hint (ucast (pu_flags u)) BRANCH_HINT_RET then -1 else 1)"
    by blast
  have "safe_path bs (int (capacity (cp_ras p1))) (count (cp_ras p1))"
    using Cons.prems(2) u(4,5) b by (auto split: if_splits)
  from Cons.IH [OF u(3) this] u(1,2) b show ?case
    by (auto simp: annul_all_append)
qed simp

definition empty_ras :: ras where
  "empty_ras = \<lparr>slots = [\<lparr>ras_idx = 0, ras_uuid = 0, ras_rip = 0\<rparr>, \<lparr>ras_idx = 1, ras_uuid = 0, ras_rip = 0\<rparr>,
     \<lparr>ras_idx = 2, ras_uuid = 0, ras_rip = 0\<rparr>], head = 0, tail = 0, count = 0\<rparr>"

definition small_predictor :: CombinedPredictor where
  "small_predictor = \<lparr>cp_twolevel = \<lparr>tl_shiftregs = [0], tl_L2table = [1, 1, 1, 1]\<rparr>,
     cp_bimodal = \<lparr>bim_table = [1, 1]\<rparr>, cp_meta = \<lparr>bim_table = [1, 1]\<rparr>,
     cp_btb = aa_reset id \<lparr>aa_sets = [\<lparr>faa_tags = \<lparr>fat_evictmap = [False], fat_tags = [0]\<rparr>,
       faa_data = [\<lparr>btb_target = 0\<rparr>]\<rparr>]\<rparr>,
     cp_ras = empty_ras\<rparr>"

definition branch_info :: "W8 \<Rightarrow> PredictorUpdate" where
  "branch_info flags = \<lparr>pu_uuid = 1, pu_cp1 = None, pu_cp2 = None, pu_cpmeta = None, pu_flags = flags,
     pu_bimodal = False, pu_twolevel = False, pu_meta = False, pu_ras_push = False,
     pu_ras_old = \<lparr>ras_idx = 0, ras_uuid = 0, ras_rip = 0\<rparr>\<rparr>"

lemma empty_ras_inv: "ras_inv empty_ras"
  by (auto simp: ras_inv_def empty_ras_def fq_inv_def fq_size_def nth_Cons less_Suc_eq split: nat.splits)

theorem speculate_annul_witness:
  "\<exists>us p'. speculate [(branch_info 4, 0x400), (branch_info 4, 0x500), (branch_info 8, 0x600)] small_predictor
     = Some (us, p') \<and> annul_all (rev us) p' = Some small_predictor"
proof (rule speculate_annul)
  show "ras_inv (cp_ras small_predictor)" by (simp add: small_predictor_def empty_ras_inv)
  show "safe_path [(branch_info 4, 0x400), (branch_info 4, 0x500), (branch_info 8, 0x600)]
      (int (capacity (cp_ras small_predictor))) (count (cp_ras small_predictor))"
    by (simp add: small_predictor_def empty_ras_def capacity_def branch_info_def has_hint_def branch_hints)
qed

text \<open>
  Claim C35. A return on an empty stack cannot be annulled: the pop answers an entry with index
  \<open>-1\<close>, and annulling that return fails the assertion that the index is the tail, whatever
  the (empty) stack, unless the stack has become full.
\<close>

theorem annul_of_underflow_fails:
  assumes "ras_inv (cp_ras p)" "fq_empty (cp_ras p)"
    and "has_hint (ucast (pu_flags u)) BRANCH_HINT_RET"
  shows "\<exists>u' p1. cp_updateras u rip p = Some (u', p1) \<and> p1 = p \<and> cp_annulras u' p1 = None"
proof -
  note d = ras_invD [OF assms(1)]
  have pop: "ras_pop (cp_ras p) = (\<lparr>ras_idx = -1, ras_uuid = 0, ras_rip = 0\<rparr>, cp_ras p)"
    using assms(2) by (simp add: ras_pop_def fq_pop_def)
  have "\<not> fq_full (cp_ras p)"
    using assms(2) d(5) by (simp add: fq_full_def fq_remaining_def fq_empty_def fq_size_def)
  then show ?thesis
    using assms(3) pop d(2) by (simp add: cp_updateras_def cp_annulras_def ras_annulpop_def)
qed

theorem annul_of_underflow_fails_witness:
  "\<exists>u' p1. cp_updateras (branch_info 8) 0 small_predictor = Some (u', p1) \<and> p1 = small_predictor
     \<and> cp_annulras u' p1 = None"
proof (rule annul_of_underflow_fails)
  show "ras_inv (cp_ras small_predictor)" by (simp add: small_predictor_def empty_ras_inv)
  show "fq_empty (cp_ras small_predictor)" by (simp add: small_predictor_def empty_ras_def fq_empty_def)
  show "has_hint (ucast (pu_flags (branch_info 8))) BRANCH_HINT_RET"
    by (simp add: branch_info_def has_hint_def branch_hints)
qed

subsection \<open>Well-formedness of the predictor\<close>

text \<open>All tables have power-of-two sizes and all counters are two-bit values.\<close>

definition ctrs_ok :: "W8 list \<Rightarrow> bool" where
  "ctrs_ok cs \<longleftrightarrow> list_all (\<lambda>c. c \<le> 3) cs"

definition pow2_table :: "'b list \<Rightarrow> bool" where
  "pow2_table xs \<longleftrightarrow> (\<exists>k < 64. length xs = 2 ^ k)"

definition cp_inv :: "nat \<Rightarrow> CombinedPredictor \<Rightarrow> bool" where
  "cp_inv sb p \<longleftrightarrow> ctrs_ok (bim_table (cp_bimodal p)) \<and> pow2_table (bim_table (cp_bimodal p))
     \<and> ctrs_ok (bim_table (cp_meta p)) \<and> pow2_table (bim_table (cp_meta p))
     \<and> ctrs_ok (tl_L2table (cp_twolevel p)) \<and> pow2_table (tl_L2table (cp_twolevel p))
     \<and> pow2_table (tl_shiftregs (cp_twolevel p)) \<and> aa_inv sb (cp_btb p) \<and> ras_inv (cp_ras p)"

fun valid_ref :: "CombinedPredictor \<Rightarrow> ctr_ref \<Rightarrow> bool" where
  "valid_ref p (Bimodal_ctr i) = (i < length (bim_table (cp_bimodal p)))"
| "valid_ref p (TwoLevel_ctr i) = (i < length (tl_L2table (cp_twolevel p)))"
| "valid_ref p (Meta_ctr i) = (i < length (bim_table (cp_meta p)))"

lemma lowbits_table: "pow2_table xs \<Longrightarrow> unat (lowbits a (lg (length xs))) < length xs"
  by (auto simp: pow2_table_def lg_pow2 lowbits_def unat_bits_less)

lemma predict_refs_valid:
  assumes "cp_inv sb p"
  shows "valid_ref p (Bimodal_ctr (bim_predict a (cp_bimodal p)))"
    "valid_ref p (Meta_ctr (bim_predict a (cp_meta p)))"
    "valid_ref p (TwoLevel_ctr (tl_predict sw hx a (cp_twolevel p)))"
  using assms lowbits_table
  by (auto simp: cp_inv_def bim_predict_def bim_hash_def tl_predict_def Let_def)

lemma clamp_ctr_range: "clamp_ctr c up \<le> 3"
proof -
  have "uint (clamp_ctr c up) = max 0 (min 3 (uint c + (if up then 1 else -1)))"
    by (simp add: clamp_ctr_def uint_word_of_int)
  then show ?thesis by (simp add: word_le_def)
qed

lemma ctrs_ok_update: "ctrs_ok cs \<Longrightarrow> c \<le> 3 \<Longrightarrow> ctrs_ok (cs[i := c])"
  using set_update_subset_insert [of cs i c] by (auto simp: ctrs_ok_def list_all_iff)

lemma write_ctr_inv: "cp_inv sb p \<Longrightarrow> c \<le> 3 \<Longrightarrow> cp_inv sb (write_ctr r c p)"
  by (cases r) (auto simp: cp_inv_def pow2_table_def intro: ctrs_ok_update)

lemma bump_ctr_inv: "cp_inv sb p \<Longrightarrow> cp_inv sb (bump_ctr r up p)"
  by (simp add: bump_ctr_def write_ctr_inv clamp_ctr_range split: option.split)

lemma bump_ctr_btb [simp]: "cp_btb (bump_ctr r up p) = cp_btb p" "cp_ras (bump_ctr r up p) = cp_ras p"
proof -
  have "cp_btb (write_ctr c x p) = cp_btb p" "cp_ras (write_ctr c x p) = cp_ras p" for c x
    by (cases c; simp)+
  then show "cp_btb (bump_ctr r up p) = cp_btb p" "cp_ras (bump_ctr r up p) = cp_ras p"
    by (simp_all add: bump_ctr_def split: option.split)
qed

text \<open>The branch target buffer after an update, in terms of the array's own insertion.\<close>

lemma BTBEntry_set: "e\<lparr>btb_target := t\<rparr> = \<lparr>btb_target = t\<rparr>"
  by (cases e) simp

lemma cp_update_btb:
  "\<not> (has_hint (ucast (pu_flags u)) BRANCH_HINT_INDIRECT \<and> has_hint (ucast (pu_flags u)) BRANCH_HINT_RET) \<Longrightarrow>
     cp_btb (cp_update sw u a t p) = aa_put 1 a \<lparr>btb_target = t\<rparr> (cp_btb p)"
  by (auto simp: cp_update_def Let_def split_beta aa_put_def BTBEntry_set simp del: BTBEntry.update_convs)

lemma hint_or: "type AND (h OR h') = 0 \<longleftrightarrow> \<not> has_hint type h \<and> \<not> has_hint type h'"
  by (simp add: has_hint_def bit.conj_disj_distrib or_eq_0_iff)

lemma btb_tagof: "aa_tagof 1 a = a" "aa_tagof (Suc 0) a = a"
  by (simp_all add: aa_tagof_def floor_align_def)

lemma cp_update_inv:
  assumes "cp_inv sb p" "branchaddr \<noteq> -1"
  shows "cp_inv sb (cp_update sw u branchaddr target p)"
proof (cases "has_hint (ucast (pu_flags u)) BRANCH_HINT_INDIRECT \<and> has_hint (ucast (pu_flags u)) BRANCH_HINT_RET")
  case True
  then show ?thesis using assms by (simp add: cp_update_def)
next
  case False
  have strip: "cp_inv sb q \<longleftrightarrow> cp_inv sb (q\<lparr>cp_btb := b\<rparr>) \<and> aa_inv sb (cp_btb q)" if "aa_inv sb b" for q b
    using that by (auto simp: cp_inv_def)
  have btb: "aa_inv sb (cp_btb (cp_update sw u branchaddr target p))"
    unfolding cp_update_btb [OF False]
    using aa.put_inv [of sb "cp_btb p" 0 branchaddr] assms by (simp add: btb_tagof cp_inv_def)
  define p1 where "p1 = (if has_hint (ucast (pu_flags u)) BRANCH_HINT_COND
      then let t = cp_twolevel p;
               l1index = unat (lowbits branchaddr (lg (length (tl_shiftregs t))));
               sr = push_bit 1 (tl_shiftregs t ! l1index) OR of_bool (target \<noteq> branchaddr)
           in p\<lparr>cp_twolevel := t\<lparr>tl_shiftregs := (tl_shiftregs t)[l1index := ucast (lowbits (scast sr) sw)]\<rparr>\<rparr>
      else p)"
  have "cp_inv sb p1" using assms(1) by (simp add: p1_def cp_inv_def pow2_table_def Let_def)
  define p5 where "p5 = (let p4 = bump_ctr (pu_cp2 u) (target \<noteq> branchaddr) (bump_ctr (pu_cp1 u) (target \<noteq> branchaddr)
      (p1\<lparr>cp_btb := snd (snd (aa_select 1 branchaddr 0 (cp_btb p1)))\<rparr>))
    in if pu_cpmeta u \<noteq> None \<and> pu_bimodal u \<noteq> pu_twolevel u
       then bump_ctr (pu_cpmeta u) (pu_twolevel u = (target \<noteq> branchaddr)) p4 else p4)"
  have "\<exists>b. cp_update sw u branchaddr target p = p5\<lparr>cp_btb := b\<rparr>"
    using False by (auto simp: cp_update_def Let_def split_beta p1_def p5_def)
  then obtain b where b: "cp_update sw u branchaddr target p = p5\<lparr>cp_btb := b\<rparr>" ..
  have any: "cp_inv sb (bump_ctr r up q\<lparr>cp_btb := c\<rparr>)" if "cp_inv sb (q\<lparr>cp_btb := c\<rparr>)" for r up q c
  proof -
    have "bump_ctr r up q\<lparr>cp_btb := c\<rparr> = bump_ctr r up (q\<lparr>cp_btb := c\<rparr>)"
    proof (cases r)
      case (Some k)
      then show ?thesis by (cases k) (simp_all add: bump_ctr_def)
    qed (simp add: bump_ctr_def)
    then show ?thesis using bump_ctr_inv [OF that] by simp
  qed
  have "cp_inv sb (p1\<lparr>cp_btb := b\<rparr>)"
    using \<open>cp_inv sb p1\<close> btb b by (simp add: cp_inv_def)
  then have "cp_inv sb (p5\<lparr>cp_btb := b\<rparr>)"
    by (auto simp: p5_def Let_def intro!: any)
  with b show ?thesis by simp
qed

lemma cp_predict_inv:
  assumes "cp_inv sb p" "branchaddr \<noteq> -1"
  shows "cp_inv sb (snd (snd (cp_predict sw hx st u type branchaddr target p)))"
proof -
  have "aa_inv sb (snd (aa_probe 1 branchaddr (cp_btb p)))"
    using aa_probe_lookup(2) [of sb "cp_btb p" 0 branchaddr] assms by (simp add: btb_tagof cp_inv_def)
  with assms show ?thesis
    by (auto simp: cp_predict_def Let_def split_beta cp_inv_def)
qed

text \<open>
  The predictor stays well formed: starting from well-formed tables, predicting and
  updating keep every table index within its table and every counter of the bimodal, two-level
  and meta predictors a two-bit value.
\<close>

theorem predictor_invariant:
  assumes "cp_inv sb p" "branchaddr \<noteq> -1"
  shows "cp_inv sb (cp_update sw u branchaddr target p)
    \<and> cp_inv sb (snd (snd (cp_predict sw hx st u type branchaddr target p)))
    \<and> valid_ref p (Bimodal_ctr (bim_predict branchaddr (cp_bimodal p)))
    \<and> valid_ref p (Meta_ctr (bim_predict branchaddr (cp_meta p)))
    \<and> valid_ref p (TwoLevel_ctr (tl_predict sw hx branchaddr (cp_twolevel p)))"
  using cp_update_inv [OF assms] cp_predict_inv [OF assms] predict_refs_valid [OF assms(1)] by blast

lemma pow2_table_small: "pow2_table [x]" "pow2_table [x, y]" "pow2_table [x, y, z, w]"
  using exI [of "\<lambda>k. k < 64 \<and> length [x] = 2 ^ k" 0] exI [of "\<lambda>k. k < 64 \<and> length [x, y] = 2 ^ k" 1]
    exI [of "\<lambda>k. k < 64 \<and> length [x, y, z, w] = 2 ^ k" 2]
  by (simp_all add: pow2_table_def)

lemma small_predictor_inv: "cp_inv 0 small_predictor"
proof -
  have "aa_inv 0 (cp_btb small_predictor)"
    unfolding small_predictor_def CombinedPredictor.simps
    by (rule aa_reset_spec) (simp_all add: faa_shape_def fat_ways_def)
  then show ?thesis
    by (simp add: cp_inv_def small_predictor_def ctrs_ok_def empty_ras_inv pow2_table_small)
qed

theorem predictor_invariant_witness:
  "cp_inv 0 (cp_update 2 (branch_info 1) 0x40 0x80 small_predictor)"
  using predictor_invariant [OF small_predictor_inv, of "0x40" 2 "branch_info 1" "0x80"] by simp

text \<open>
  The branch target buffer learns: after a branch that is not a return is updated
  with its target, the next prediction of an indirect jump at that address is that target.
\<close>

theorem btb_learns:
  assumes "cp_inv sb p" "a \<noteq> -1"
    and "\<not> (has_hint (ucast (pu_flags u)) BRANCH_HINT_INDIRECT \<and> has_hint (ucast (pu_flags u)) BRANCH_HINT_RET)"
    and "has_hint type BRANCH_HINT_INDIRECT" "\<not> has_hint type BRANCH_HINT_COND" "\<not> has_hint type BRANCH_HINT_RET"
  shows "fst (cp_predict sw hx st u' type a t' (cp_update sw u a t p)) = t"
proof -
  let ?p = "cp_update sw u a t p"
  have inv: "aa_inv sb (cp_btb p)" "aa_inv sb (cp_btb ?p)"
    using assms(1) cp_update_inv [OF assms(1,2)] by (simp_all add: cp_inv_def)
  have "aa_lookup 1 a (cp_btb ?p) = Some \<lparr>btb_target = t\<rparr>"
    unfolding cp_update_btb [OF assms(3)]
    using aa.put_same [of sb "cp_btb p" 0 a a] inv(1) assms(2) by (simp add: btb_tagof)
  then have "map_option (\<lambda>(s, w). faa_data (aa_sets (cp_btb ?p) ! s) ! nat w)
      (fst (aa_probe 1 a (cp_btb ?p))) = Some \<lparr>btb_target = t\<rparr>"
    using aa_probe_lookup(1) [OF inv(2), of 0 a] assms(2) by (simp add: btb_tagof)
  then obtain s w where sw: "fst (aa_probe 1 a (cp_btb ?p)) = Some (s, w)"
    "faa_data (aa_sets (cp_btb ?p) ! s) ! nat w = \<lparr>btb_target = t\<rparr>" by auto
  then show ?thesis
    using assms(4-6) sw
    by (simp add: cp_predict_def Let_def split_beta hint_or)
qed

theorem btb_learns_witness:
  "fst (cp_predict 2 True False (branch_info 0) 2 0x40 0x999 (cp_update 2 (branch_info 2) 0x40 0x80 small_predictor)) = 0x80"
  by (rule btb_learns [OF small_predictor_inv])
    (simp_all add: branch_info_def has_hint_def branch_hints)

text \<open>
  A matched call and return are predicted: after a call has pushed its return
  address, also on a full stack, a return is predicted to go there.
\<close>

theorem return_after_call_predicted:
  assumes "ras_inv (cp_ras p)" "has_hint (ucast (pu_flags u)) BRANCH_HINT_CALL"
    "\<not> has_hint (ucast (pu_flags u)) BRANCH_HINT_RET"
    "has_hint type BRANCH_HINT_INDIRECT" "has_hint type BRANCH_HINT_RET"
  shows "\<exists>u' p1. cp_updateras u rip p = Some (u', p1)
    \<and> fst (cp_predict sw hx st v type branchaddr target p1) = rip"
proof -
  obtain old q where push: "ras_push (pu_uuid u) rip (cp_ras p) = Some (old, q)" "ras_inv q"
    "contents q = (if fq_full (cp_ras p) then tl (contents (cp_ras p)) else contents (cp_ras p))
      @ [(slots (cp_ras p) ! nat (tail (cp_ras p)))\<lparr>ras_uuid := ucast (pu_uuid u), ras_rip := rip\<rparr>]"
    using ras_push_some [OF assms(1)] by blast
  have "ras_peek q = rip"
    using fq_peektailD [OF ras_invD(1) [OF push(2)] push(3)] by (auto simp: ras_peek_def)
  with push(1) assms(2-5) show ?thesis
    by (simp add: cp_updateras_def cp_predict_def Let_def hint_or)
qed

theorem return_after_call_predicted_witness:
  "\<exists>u' p1. cp_updateras (branch_info 4) 0x1234 small_predictor = Some (u', p1)
    \<and> fst (cp_predict 2 True False (branch_info 0) 10 0x40 0x80 p1) = 0x1234"
  by (rule return_after_call_predicted)
    (simp_all add: small_predictor_def empty_ras_inv branch_info_def has_hint_def branch_hints)

text \<open>One round of prediction and update of a conditional branch.\<close>

definition train :: "nat \<Rightarrow> bool \<Rightarrow> bool \<Rightarrow> PredictorUpdate \<Rightarrow> W32 \<Rightarrow> W64 \<Rightarrow> W64 \<Rightarrow> W64
    \<Rightarrow> CombinedPredictor \<Rightarrow> CombinedPredictor" where
  "train sw hx st u type a static_target outcome p =
     (let (pred, u1, p1) = cp_predict sw hx st u type a static_target p in cp_update sw u1 a outcome p1)"

lemma has_hint_bit:
  "has_hint x BRANCH_HINT_COND \<longleftrightarrow> bit x 0" "has_hint x BRANCH_HINT_INDIRECT \<longleftrightarrow> bit x 1"
  "has_hint x BRANCH_HINT_CALL \<longleftrightarrow> bit x 2" "has_hint x BRANCH_HINT_RET \<longleftrightarrow> bit x 3"
  using and_exp_eq_0_iff_not_bit [of x 0] and_exp_eq_0_iff_not_bit [of x 1]
    and_exp_eq_0_iff_not_bit [of x 2] and_exp_eq_0_iff_not_bit [of x 3]
  by (simp_all add: has_hint_def branch_hints)

lemma train_bimodal:
  fixes a :: W64 and p :: CombinedPredictor
  assumes "has_hint type BRANCH_HINT_COND" "\<not> has_hint type BRANCH_HINT_RET"
  defines "i \<equiv> bim_predict a (cp_bimodal p)"
  shows "bim_table (cp_bimodal (train sw hx st u type a t outcome p)) =
    (bim_table (cp_bimodal p))[i := clamp_ctr (bim_table (cp_bimodal p) ! i) (outcome \<noteq> a)]"
  using assms
  by (simp add: train_def cp_predict_def cp_update_def Let_def split_beta has_hint_bit hint_or bit_ucast_iff
    bump_ctr_def)

lemma clamp_twice:
  assumes "c \<le> 3"
  shows "clamp_ctr (clamp_ctr c up) up \<ge> 2 \<longleftrightarrow> up"
proof -
  have "uint (clamp_ctr x up) = max 0 (min 3 (uint x + (if up then 1 else -1)))" for x
    by (simp add: clamp_ctr_def uint_word_of_int)
  moreover have "0 \<le> uint c" "uint c \<le> 3" using assms by (simp_all add: word_le_def)
  ultimately show ?thesis by (auto simp: word_le_def max_def min_def)
qed

text \<open>
  The bimodal predictor learns a stable branch in two rounds: whatever the meta and
  two-level predictors say, after a conditional branch has twice gone the same way its bimodal
  counter predicts that way.
\<close>

theorem bimodal_learns:
  assumes "cp_inv sb p" "has_hint type BRANCH_HINT_COND" "\<not> has_hint type BRANCH_HINT_RET"
  shows "let q = train sw hx st u' type a t' outcome (train sw hx st u type a t outcome p)
    in read_ctr (Bimodal_ctr (bim_predict a (cp_bimodal q))) q \<ge> 2 \<longleftrightarrow> outcome \<noteq> a"
proof -
  define i where "i = bim_predict a (cp_bimodal p)"
  define p1 where "p1 = train sw hx st u type a t outcome p"
  define c where "c = bim_table (cp_bimodal p) ! i"
  have i: "i < length (bim_table (cp_bimodal p))"
    using predict_refs_valid(1) [OF assms(1), of a] by (simp add: i_def)
  have same: "bim_predict a b = bim_predict a b'" if "length (bim_table b) = length (bim_table b')" for b b'
    using that by (simp add: bim_predict_def bim_hash_def)
  have t1: "bim_table (cp_bimodal p1) = (bim_table (cp_bimodal p))[i := clamp_ctr c (outcome \<noteq> a)]"
    using train_bimodal [OF assms(2,3), where a = a and p = p and sw = sw and hx = hx and st = st and u = u and t = t
        and outcome = outcome] by (simp add: p1_def i_def c_def)
  then have "bim_predict a (cp_bimodal p1) = i" using same [of "cp_bimodal p1" "cp_bimodal p"] by (simp add: i_def)
  then have t2: "bim_table (cp_bimodal (train sw hx st u' type a t' outcome p1)) =
      (bim_table (cp_bimodal p))[i := clamp_ctr (clamp_ctr c (outcome \<noteq> a)) (outcome \<noteq> a)]"
    using train_bimodal [OF assms(2,3), where a = a and p = p1 and sw = sw and hx = hx and st = st and u = u'
        and t = t' and outcome = outcome] t1 i by simp
  then have "bim_predict a (cp_bimodal (train sw hx st u' type a t' outcome p1)) = i"
    using same [of "cp_bimodal (train sw hx st u' type a t' outcome p1)" "cp_bimodal p"] by (simp add: i_def)
  moreover have "c \<le> 3" using assms(1) i by (simp add: cp_inv_def ctrs_ok_def list_all_length c_def)
  ultimately show ?thesis
    using t2 i clamp_twice [of c "outcome \<noteq> a"] by (simp add: Let_def p1_def [symmetric])
qed

theorem bimodal_learns_witness:
  "let q = train 2 True False (branch_info 0) 1 0x40 0x80 0x80
      (train 2 True False (branch_info 0) 1 0x40 0x80 0x80 small_predictor)
   in read_ctr (Bimodal_ctr (bim_predict 0x40 (cp_bimodal q))) q \<ge> 2"
  using bimodal_learns [OF small_predictor_inv, of 1 2 True False "branch_info 0" "0x40" "0x80" "0x80"
      "branch_info 0" "0x80"] by (simp add: has_hint_def branch_hints Let_def)

end
