(* ===== verification/Addr_Space.thy ===== *)
theory Addr_Space
  imports Bit_Utils
begin

text \<open>
  The guest address space of \<^verbatim>\<open>include/x86sim/addrspace.hpp\<close> and
  \<^verbatim>\<open>src/x86sim/addrspace.cpp\<close>: a sparse map of 4 KiB pages, four shadow bit maps
  (read, write, execute, dirty) held in lazily allocated chunks, and the operations that map,
  unmap, protect, read, write, check and clone. All address arithmetic is on 64-bit words and
  wraps as in the source.

  \<^verbatim>\<open>std::expected\<close> is the type \<open>mem_result\<close>, with a third outcome for a failed
  assertion. Allocation of pages is assumed to succeed; the out-of-memory branch that the code
  takes itself, for a size that cannot be rounded up, is modelled. The calls that drop decoded
  code are recorded in \<open>invalidated\<close> when a machine is attached.
\<close>

subsection \<open>Types and constants\<close>

datatype MemoryError = unaligned_address | zero_size | unmapped_address | out_of_memory | mapping_failed

datatype 'a mem_result = Returned 'a | Failed MemoryError | Asserted

type_synonym Protection = W8

definition Protection_none :: Protection where "Protection_none = 0"
definition Protection_read :: Protection where "Protection_read = 1"
definition Protection_write :: Protection where "Protection_write = 2"
definition Protection_execute :: Protection where "Protection_execute = 4"

lemmas protection_defs = Protection_none_def Protection_read_def Protection_write_def Protection_execute_def

definition has_protection :: "Protection \<Rightarrow> Protection \<Rightarrow> bool" where
  "has_protection value flag \<longleftrightarrow> value AND flag = flag"

definition address_space_bits :: nat where "address_space_bits = 48"
definition address_space_size :: W64 where "address_space_size = push_bit 48 1"
definition address_space_mask :: W64 where "address_space_mask = address_space_size - 1"
definition page_bits :: nat where "page_bits = 12"
definition page_size :: W64 where "page_size = 4096"
definition page_mask :: W64 where "page_mask = page_size - 1"
definition spat_pages_per_chunk_bits :: nat where "spat_pages_per_chunk_bits = 19"
definition spat_bytes_per_chunk :: W64 where "spat_bytes_per_chunk = push_bit 19 1 div 8"

definition page_floor :: "W64 \<Rightarrow> W64" where
  "page_floor v = v AND NOT page_mask"

definition page_ceil :: "W64 \<Rightarrow> W64 option" where
  "page_ceil v = (if v > -1 - page_mask then None else Some ((v + page_mask) AND NOT page_mask))"

definition range_overflows :: "W64 \<Rightarrow> W64 \<Rightarrow> bool" where
  "range_overflows start n \<longleftrightarrow> n \<noteq> 0 \<and> start > -1 - (n - 1)"

subsection \<open>Shadow maps\<close>

text \<open>A chunk maps a byte index to its byte; a fresh chunk is all zero.\<close>

record ShadowMap =
  chunks :: "W64 \<rightharpoonup> (W64 \<Rightarrow> W8)"

definition sm_chunkid :: "W64 \<Rightarrow> W64" where
  "sm_chunkid pageid = drop_bit spat_pages_per_chunk_bits pageid"

definition sm_byteid :: "W64 \<Rightarrow> W64" where
  "sm_byteid pageid = drop_bit 3 pageid AND (spat_bytes_per_chunk - 1)"

definition sm_bitmask :: "W64 \<Rightarrow> W8" where
  "sm_bitmask pageid = push_bit (unat (pageid AND 7)) 1"

definition byte_for_page :: "W64 \<Rightarrow> ShadowMap \<Rightarrow> W8 \<times> ShadowMap" where
  "byte_for_page pageid m =
     (let m1 = (if chunks m (sm_chunkid pageid) = None
                then m\<lparr>chunks := (chunks m)(sm_chunkid pageid \<mapsto> (\<lambda>_. 0))\<rparr> else m)
      in (the (chunks m1 (sm_chunkid pageid)) (sm_byteid pageid), m1))"

definition bit_for_page :: "W64 \<Rightarrow> ShadowMap \<Rightarrow> bool" where
  "bit_for_page pageid m =
     (case chunks m (sm_chunkid pageid) of
        None \<Rightarrow> False
      | Some c \<Rightarrow> c (sm_byteid pageid) AND sm_bitmask pageid \<noteq> 0)"

definition write_byte :: "W64 \<Rightarrow> W8 \<Rightarrow> ShadowMap \<Rightarrow> ShadowMap" where
  "write_byte pageid v m =
     m\<lparr>chunks := (chunks m)(sm_chunkid pageid \<mapsto> (the (chunks m (sm_chunkid pageid)))(sm_byteid pageid := v))\<rparr>"

definition set_page :: "W64 \<Rightarrow> ShadowMap \<Rightarrow> ShadowMap" where
  "set_page pageid m =
     (let (v, m1) = byte_for_page pageid m in write_byte pageid (v OR sm_bitmask pageid) m1)"

definition clear_page :: "W64 \<Rightarrow> ShadowMap \<Rightarrow> ShadowMap" where
  "clear_page pageid m =
     (let (v, m1) = byte_for_page pageid m in write_byte pageid (v AND NOT (sm_bitmask pageid)) m1)"

subsection \<open>State\<close>

type_synonym page = "W8 list"

record AddressSpace =
  mapped_mem :: "W64 \<rightharpoonup> page"
  readmap :: ShadowMap
  writemap :: ShadowMap
  execmap :: ShadowMap
  dirtymap :: ShadowMap
  attached :: bool
  invalidated :: "W64 list"

definition as_new :: AddressSpace where
  "as_new = \<lparr>mapped_mem = Map.empty, readmap = \<lparr>chunks = Map.empty\<rparr>, writemap = \<lparr>chunks = Map.empty\<rparr>,
     execmap = \<lparr>chunks = Map.empty\<rparr>, dirtymap = \<lparr>chunks = Map.empty\<rparr>, attached = False, invalidated = []\<rparr>"

definition as_attach :: "AddressSpace \<Rightarrow> AddressSpace" where
  "as_attach s = s\<lparr>attached := True\<rparr>"

subsection \<open>Loops over pages\<close>

text \<open>\<^verbatim>\<open>for (page = first; page <= final; ++page)\<close>, for \<open>final\<close> below the largest word.\<close>

definition pages_upto :: "W64 \<Rightarrow> W64 \<Rightarrow> W64 list" where
  "pages_upto first final = map of_nat [unat first..<Suc (unat final)]"

text \<open>\<^verbatim>\<open>for (page = start; page < end; page += kPageSize)\<close>, for page-aligned bounds.\<close>

definition page_starts :: "W64 \<Rightarrow> W64 \<Rightarrow> W64 list" where
  "page_starts start stop = map (\<lambda>i. start + of_nat i * page_size) [0..<(unat stop - unat start) div 4096]"

definition pageid :: "W64 \<Rightarrow> W64" where
  "pageid address = drop_bit page_bits (address AND address_space_mask)"

definition range_fits :: "W64 \<Rightarrow> W64 \<Rightarrow> bool" where
  "range_fits address n \<longleftrightarrow> (address + n + page_mask) AND NOT page_mask \<le> address_space_size"

definition make_accessible :: "W64 \<Rightarrow> W64 \<Rightarrow> ShadowMap \<Rightarrow> ShadowMap option" where
  "make_accessible address n topm =
     (let address = address AND address_space_mask;
          firstpage = drop_bit page_bits address;
          lastpage = drop_bit page_bits (address + n - 1)
      in if range_fits address n then Some (fold set_page (pages_upto firstpage lastpage) topm) else None)"

definition make_inaccessible :: "W64 \<Rightarrow> W64 \<Rightarrow> ShadowMap \<Rightarrow> ShadowMap option" where
  "make_inaccessible address n topm =
     (let address = address AND address_space_mask;
          firstpage = drop_bit page_bits address;
          lastpage = drop_bit page_bits (address + n - 1)
      in if range_fits address n then Some (fold clear_page (pages_upto firstpage lastpage) topm) else None)"

definition make_page_accessible :: "W64 \<Rightarrow> ShadowMap \<Rightarrow> ShadowMap" where
  "make_page_accessible address topm = set_page (pageid address) topm"

definition make_page_inaccessible :: "W64 \<Rightarrow> ShadowMap \<Rightarrow> ShadowMap" where
  "make_page_inaccessible address topm = clear_page (pageid address) topm"

definition set_access :: "bool \<Rightarrow> W64 \<Rightarrow> W64 \<Rightarrow> ShadowMap \<Rightarrow> ShadowMap option" where
  "set_access on start n m = (if on then make_accessible start n m else make_inaccessible start n m)"

definition setattr :: "W64 \<Rightarrow> W64 \<Rightarrow> Protection \<Rightarrow> AddressSpace \<Rightarrow> AddressSpace option" where
  "setattr start n prot s =
     (case set_access (has_protection prot Protection_read) start n (readmap s) of None \<Rightarrow> None
      | Some r \<Rightarrow>
     (case set_access (has_protection prot Protection_write) start n (writemap s) of None \<Rightarrow> None
      | Some w \<Rightarrow>
     (case set_access (has_protection prot Protection_execute) start n (execmap s) of None \<Rightarrow> None
      | Some x \<Rightarrow> Some (s\<lparr>readmap := r, writemap := w, execmap := x\<rparr>))))"

definition invalidate_decoded_code :: "W64 \<Rightarrow> W64 \<Rightarrow> AddressSpace \<Rightarrow> AddressSpace" where
  "invalidate_decoded_code start n s =
     (if \<not> attached s \<or> n = 0 then s
      else let first_mfn = drop_bit page_bits (page_floor start);
               last_mfn = drop_bit page_bits (start + (n - 1))
           in s\<lparr>invalidated := invalidated s @ pages_upto first_mfn last_mfn\<rparr>)"

subsection \<open>Operations\<close>

definition map_pages :: "W64 \<Rightarrow> nat \<Rightarrow> (W64 \<rightharpoonup> page) \<Rightarrow> (W64 \<rightharpoonup> page)" where
  "map_pages start n m =
     fold (\<lambda>i m. m(start + of_nat i * page_size \<mapsto> replicate 4096 0)) [0..<n] m"

definition map_or_throw :: "W64 \<Rightarrow> W64 \<Rightarrow> Protection \<Rightarrow> AddressSpace \<Rightarrow> AddressSpace mem_result" where
  "map_or_throw start n prot s =
     (let start = page_floor start
      in case page_ceil n of
           None \<Rightarrow> Failed out_of_memory
         | Some aligned_size \<Rightarrow>
             let num_pages = unat (aligned_size div page_size);
                 s1 = s\<lparr>mapped_mem := map_pages start num_pages (mapped_mem s)\<rparr>
             in case setattr start aligned_size prot s1 of None \<Rightarrow> Asserted | Some s2 \<Rightarrow> Returned s2)"

definition as_map :: "W64 \<Rightarrow> W64 \<Rightarrow> Protection \<Rightarrow> AddressSpace \<Rightarrow> AddressSpace mem_result" where
  "as_map start n prot s =
     (if n = 0 then Failed zero_size
      else if range_overflows start n then Failed mapping_failed
      else case map_or_throw start n prot s of
             Returned s1 \<Rightarrow> Returned (invalidate_decoded_code start n s1)
           | Failed e \<Rightarrow> Failed e
           | Asserted \<Rightarrow> Asserted)"

definition as_unmap :: "W64 \<Rightarrow> W64 \<Rightarrow> AddressSpace \<Rightarrow> AddressSpace mem_result" where
  "as_unmap start n s =
     (if n = 0 \<or> range_overflows start n then Returned s
      else let start = page_floor start
           in case page_ceil (start + n) of
                None \<Rightarrow> Returned s
              | Some stop \<Rightarrow>
                  let s1 = s\<lparr>mapped_mem := fold (\<lambda>p m. m(p := None)) (page_starts start stop) (mapped_mem s)\<rparr>
                  in case setattr start (stop - start) Protection_none s1 of
                       None \<Rightarrow> Asserted
                     | Some s2 \<Rightarrow> Returned (invalidate_decoded_code start (stop - start) s2))"

definition as_protect :: "W64 \<Rightarrow> W64 \<Rightarrow> Protection \<Rightarrow> AddressSpace \<Rightarrow> AddressSpace mem_result" where
  "as_protect start n prot s =
     (if n = 0 then Failed zero_size
      else if range_overflows start n then Failed unmapped_address
      else let start = page_floor start
           in case page_ceil (start + n) of
                None \<Rightarrow> Failed unmapped_address
              | Some stop \<Rightarrow>
                  if list_ex (\<lambda>p. mapped_mem s p = None) (page_starts start stop) then Failed unmapped_address
                  else case setattr start (stop - start) prot s of
                         None \<Rightarrow> Asserted
                       | Some s1 \<Rightarrow> Returned (invalidate_decoded_code start (stop - start) s1))"

text \<open>A mapped address is its page and the offset of the byte in it.\<close>

definition page_virt_to_mapped :: "W64 \<Rightarrow> AddressSpace \<Rightarrow> (W64 \<times> nat) option" where
  "page_virt_to_mapped addr s =
     (case mapped_mem s (page_floor addr) of
        None \<Rightarrow> None | Some p \<Rightarrow> Some (page_floor addr, unat (addr AND page_mask)))"

definition chunk_len :: "W64 \<Rightarrow> nat \<Rightarrow> nat \<Rightarrow> nat" where
  "chunk_len addr len processed = min (len - processed) (4096 - unat (addr AND page_mask))"

lemma page_offset_take: "a AND page_mask = take_bit 12 a"
  by (simp add: take_bit_eq_mask mask_eq_exp_minus_1 page_mask_def page_size_def)

lemma page_offset_unat: "unat (a AND page_mask) = unat a mod 4096"
  unfolding page_offset_take unsigned_take_bit_eq by (simp add: take_bit_eq_mod)

lemma page_offset_less: "unat (addr AND page_mask) < 4096"
  by (simp add: page_offset_unat)

lemma chunk_len_pos: "processed < len \<Longrightarrow> 0 < chunk_len addr len processed"
  using page_offset_less [of addr] by (simp add: chunk_len_def)

function read_loop :: "AddressSpace \<Rightarrow> W64 \<Rightarrow> nat \<Rightarrow> nat \<Rightarrow> W8 list \<Rightarrow> W8 list mem_result" where
  "read_loop s start len processed out =
     (if processed < len
      then let addr = start + of_nat processed
           in case page_virt_to_mapped addr s of
                None \<Rightarrow> Failed unmapped_address
              | Some (p, off) \<Rightarrow>
                  let chunk = chunk_len addr len processed
                  in read_loop s start len (processed + chunk)
                       (out @ take chunk (drop off (the (mapped_mem s p))))
      else Returned out)"
  by pat_completeness auto
termination
  by (relation "measure (\<lambda>(s, start, len, processed, out). len - processed)")
    (auto simp: chunk_len_pos dest: chunk_len_pos intro!: diff_less_mono2)

declare read_loop.simps [simp del]

definition as_read :: "W64 \<Rightarrow> nat \<Rightarrow> AddressSpace \<Rightarrow> W8 list mem_result" where
  "as_read start n s =
     (if n = 0 then Failed zero_size
      else if range_overflows start (of_nat n) then Failed unmapped_address
      else read_loop s start n 0 [])"

definition poke :: "W64 \<Rightarrow> nat \<Rightarrow> W8 list \<Rightarrow> AddressSpace \<Rightarrow> AddressSpace" where
  "poke p off bs s =
     (let pg = the (mapped_mem s p)
      in s\<lparr>mapped_mem := (mapped_mem s)(p \<mapsto> take off pg @ bs @ drop (off + length bs) pg)\<rparr>)"

text \<open>A write that meets an unmapped page has already changed the pages before it.\<close>

function write_loop ::
  "W64 \<Rightarrow> W8 list \<Rightarrow> nat \<Rightarrow> AddressSpace \<Rightarrow> unit mem_result \<times> AddressSpace" where
  "write_loop start bytes processed s =
     (if processed < length bytes
      then let addr = start + of_nat processed
           in case page_virt_to_mapped addr s of
                None \<Rightarrow> (Failed unmapped_address, s)
              | Some (p, off) \<Rightarrow>
                  let chunk = chunk_len addr (length bytes) processed
                  in write_loop start bytes (processed + chunk)
                       (poke p off (take chunk (drop processed bytes)) s)
      else (Returned (), s))"
  by pat_completeness auto
termination
  by (relation "measure (\<lambda>(start, bytes, processed, s). length bytes - processed)")
    (auto simp: chunk_len_pos dest: chunk_len_pos intro!: diff_less_mono2)

declare write_loop.simps [simp del]

definition as_write :: "W64 \<Rightarrow> W8 list \<Rightarrow> AddressSpace \<Rightarrow> unit mem_result \<times> AddressSpace" where
  "as_write start bytes s =
     (if bytes = [] then (Failed zero_size, s)
      else if range_overflows start (of_nat (length bytes)) then (Failed unmapped_address, s)
      else write_loop start bytes 0 s)"

definition protection_at :: "W64 \<Rightarrow> AddressSpace \<Rightarrow> Protection" where
  "protection_at address s =
     (let page = pageid (address AND address_space_mask)
      in (if bit_for_page page (readmap s) then Protection_read else Protection_none)
         OR (if bit_for_page page (writemap s) then Protection_write else Protection_none)
         OR (if bit_for_page page (execmap s) then Protection_execute else Protection_none))"

definition fastcheck :: "W64 \<Rightarrow> ShadowMap \<Rightarrow> bool" where
  "fastcheck addr topm \<longleftrightarrow> drop_bit address_space_bits addr = 0 \<and> bit_for_page (pageid addr) topm"

definition as_check :: "W64 \<Rightarrow> Protection \<Rightarrow> AddressSpace \<Rightarrow> bool" where
  "as_check address prot s \<longleftrightarrow>
     (if has_protection prot Protection_read \<and> \<not> fastcheck address (readmap s) then False
      else if has_protection prot Protection_write \<and> \<not> fastcheck address (writemap s) then False
      else if has_protection prot Protection_execute \<and> \<not> fastcheck address (execmap s) then False
      else True)"

definition isdirty :: "W64 \<Rightarrow> AddressSpace \<Rightarrow> bool" where
  "isdirty mfn s \<longleftrightarrow> fastcheck (push_bit page_bits mfn) (dirtymap s)"

definition setdirty :: "W64 \<Rightarrow> AddressSpace \<Rightarrow> AddressSpace" where
  "setdirty mfn s = s\<lparr>dirtymap := make_page_accessible (push_bit page_bits mfn) (dirtymap s)\<rparr>"

definition cleardirty :: "W64 \<Rightarrow> AddressSpace \<Rightarrow> AddressSpace" where
  "cleardirty mfn s = s\<lparr>dirtymap := make_page_inaccessible (push_bit page_bits mfn) (dirtymap s)\<rparr>"

text \<open>The copy constructor visits the pages in the hash map's order \<open>keys\<close>.\<close>

fun copy_pages :: "AddressSpace \<Rightarrow> W64 list \<Rightarrow> AddressSpace \<Rightarrow> AddressSpace mem_result" where
  "copy_pages other [] s = Returned s"
| "copy_pages other (k # ks) s =
     (case map_or_throw k page_size (protection_at k other) s of
        Returned s1 \<Rightarrow> copy_pages other ks (s1\<lparr>mapped_mem := (mapped_mem s1)(k := mapped_mem other k)\<rparr>)
      | Failed e \<Rightarrow> Failed e
      | Asserted \<Rightarrow> Asserted)"

definition as_copy :: "W64 list \<Rightarrow> AddressSpace \<Rightarrow> AddressSpace mem_result" where
  "as_copy keys other =
     (case copy_pages other keys as_new of
        Returned s \<Rightarrow> Returned (s\<lparr>attached := attached other\<rparr>)
      | Failed e \<Rightarrow> Failed e
      | Asserted \<Rightarrow> Asserted)"

subsection \<open>Page arithmetic\<close>

lemma page_floor_align: "page_floor a = floor_align a (2 ^ 12)"
  by (simp add: page_floor_def floor_align_def page_mask_def page_size_def)

lemma unat_page_floor: "unat (page_floor a) = unat a - unat a mod 4096"
  unfolding page_floor_align by (subst unat_floor_align) simp_all

lemma page_floor_eq_iff: "page_floor a = page_floor b \<longleftrightarrow> unat a div 4096 = unat b div 4096"
  by (simp add: word_unat_eq_iff unat_page_floor minus_mod_eq_mult_div)

lemma page_floor_idem [simp]: "page_floor (page_floor a) = page_floor a"
  unfolding page_floor_align by (rule floor_align_idem)

lemma unat_less_2p64: "unat (a :: W64) < 18446744073709551616"
  using unsigned_less [of a] by simp

lemma page_step:
  assumes "unat (a AND page_mask) + k < 4096"
  shows "page_floor (a + of_nat k) = page_floor a"
    and "unat ((a + of_nat k) AND page_mask) = unat (a AND page_mask) + k"
proof -
  define q where "q = unat a div 4096"
  define r where "r = unat a mod 4096"
  have a: "unat a = q * 4096 + r" "r + k < 4096"
    using assms by (simp_all add: q_def r_def page_offset_unat)
  have "q < 4503599627370496"
    using unat_less_2p64 [of a] unfolding q_def by (simp add: div_less_iff_less_mult)
  with a have lt: "unat a + k < 18446744073709551616" by linarith
  have "unat (of_nat k :: W64) = k" using a(2) by (simp add: unat_of_nat)
  then have u: "unat (a + of_nat k) = q * 4096 + (r + k)"
    using lt a(1) by (simp add: unat_word_ariths)
  show "page_floor (a + of_nat k) = page_floor a"
    unfolding page_floor_eq_iff u a(1) using a(2) by simp
  show "unat ((a + of_nat k) AND page_mask) = unat (a AND page_mask) + k"
    unfolding page_offset_unat u a(1) using a(2) by simp
qed

lemma page_and_offset:
  "page_floor a = page_floor b \<Longrightarrow> unat (a AND page_mask) = unat (b AND page_mask) \<Longrightarrow> a = b"
  using page_floor_eq_iff [of a b] unfolding page_offset_unat
  by (metis div_mult_mod_eq word_unat_eq_iff)

subsection \<open>Memory as a map of bytes\<close>

definition mem_byte :: "AddressSpace \<Rightarrow> W64 \<rightharpoonup> W8" where
  "mem_byte s a =
     (case mapped_mem s (page_floor a) of
        None \<Rightarrow> None | Some pg \<Rightarrow> Some (pg ! unat (a AND page_mask)))"

definition as_inv :: "AddressSpace \<Rightarrow> bool" where
  "as_inv s \<longleftrightarrow> (\<forall>p pg. mapped_mem s p = Some pg \<longrightarrow> length pg = 4096 \<and> page_floor p = p)"

lemma mem_byte_chunk:
  assumes "mapped_mem s (page_floor a) = Some pg" "unat (a AND page_mask) + k < 4096"
  shows "mem_byte s (a + of_nat k) = Some (pg ! (unat (a AND page_mask) + k))"
  using page_step [OF assms(2)] assms(1) by (simp add: mem_byte_def)

lemma read_loop_spec:
  assumes "as_inv s" "p \<le> n"
  shows "read_loop s start n p out =
    (if \<forall>i \<in> {p..<n}. mem_byte s (start + of_nat i) \<noteq> None
     then Returned (out @ map (\<lambda>i. the (mem_byte s (start + of_nat i))) [p..<n])
     else Failed unmapped_address)"
  using assms
proof (induction s start n p out rule: read_loop.induct)
  case (1 s start n p out)
  define a where "a = start + of_nat p"
  define off where "off = unat (a AND page_mask)"
  define c where "c = chunk_len a n p"
  show ?case
  proof (cases "p < n")
    case False
    with 1 show ?thesis by (subst read_loop.simps) simp
  next
    case True
    note c0 = chunk_len_pos [OF True, of a, folded c_def]
    have c: "p + c \<le> n" "off + c \<le> 4096"
      using True page_offset_less [of a] by (auto simp: c_def chunk_len_def off_def)
    show ?thesis
    proof (cases "mapped_mem s (page_floor a)")
      case None
      then have "mem_byte s (start + of_nat p) = None" by (simp add: mem_byte_def a_def)
      with True None show ?thesis
        by (subst read_loop.simps) (auto simp: page_virt_to_mapped_def a_def)
    next
      case (Some pg)
      have mb: "mem_byte s (start + of_nat (p + k)) = Some (pg ! (off + k))" if "k < c" for k
        using mem_byte_chunk [OF Some, of k] c(2) that by (simp add: off_def a_def add.assoc)
      have mbi: "mem_byte s (start + of_nat i) = Some (pg ! (off + (i - p)))" if "p \<le> i" "i < p + c" for i
        using mb [of "i - p"] that by simp
      have len: "length pg = 4096" using 1(2) Some by (simp add: as_inv_def)
      have chunk: "take c (drop off pg) = map (\<lambda>i. the (mem_byte s (start + of_nat i))) [p..<p + c]"
        using c len mb by (intro nth_equalityI) simp_all
      have rec: "read_loop s start n p out = read_loop s start n (p + c) (out @ take c (drop off pg))"
        using True Some by (subst read_loop.simps)
          (simp add: page_virt_to_mapped_def Let_def a_def c_def off_def)
      have IH: "read_loop s start n (p + c) (out @ take c (drop off pg)) =
        (if \<forall>i \<in> {p + c..<n}. mem_byte s (start + of_nat i) \<noteq> None
         then Returned ((out @ take c (drop off pg)) @
           map (\<lambda>i. the (mem_byte s (start + of_nat i))) [p + c..<n])
         else Failed unmapped_address)"
        using 1(1) [OF True refl, of "(page_floor a, off)" "page_floor a" off c] Some 1(2) c(1)
        by (simp add: page_virt_to_mapped_def a_def c_def off_def)
      have "(\<forall>i \<in> {p..<n}. mem_byte s (start + of_nat i) \<noteq> None) \<longleftrightarrow>
          (\<forall>i \<in> {p + c..<n}. mem_byte s (start + of_nat i) \<noteq> None)"
        using mbi by (metis atLeastLessThan_iff le_add1 not_le option.distinct(1) order_trans)
      moreover have "[p..<n] = [p..<p + c] @ [p + c..<n]"
        using c(1) upt_add_eq_append [of p "p + c" "n - (p + c)"] by simp
      ultimately show ?thesis
        unfolding rec IH by (simp add: chunk)
    qed
  qed
qed

lemma mem_byte_poke:
  assumes "mapped_mem s p = Some pg" "length pg = 4096" "off + length bs \<le> 4096"
  shows "mem_byte (poke p off bs s) a =
    (if page_floor a = p \<and> off \<le> unat (a AND page_mask) \<and> unat (a AND page_mask) < off + length bs
     then Some (bs ! (unat (a AND page_mask) - off)) else mem_byte s a)"
  using assms page_offset_less [of a]
  by (auto simp: mem_byte_def poke_def Let_def nth_append min_def not_less)

lemma as_inv_poke:
  "as_inv s \<Longrightarrow> mapped_mem s p = Some pg \<Longrightarrow> off + length bs \<le> 4096 \<Longrightarrow> as_inv (poke p off bs s)"
  by (auto simp: as_inv_def poke_def Let_def)

lemma poke_frame: "s' = poke p off bs s \<Longrightarrow> s'\<lparr>mapped_mem := m\<rparr> = s\<lparr>mapped_mem := m\<rparr>"
  by (simp add: poke_def Let_def)

text \<open>
  The addresses of a range are distinct, so that a byte written by one round of the loop is not
  overwritten by a later one.
\<close>

lemma range_inj:
  fixes start :: W64
  assumes "start + of_nat i = start + of_nat j" "i < 2 ^ 64" "j < 2 ^ 64"
  shows "i = j"
proof -
  have "(of_nat i :: W64) = of_nat j" using assms(1) by simp
  then show ?thesis using assms(2,3) by (simp add: word_of_nat_eq_iff take_bit_nat_eq_self)
qed

definition in_range :: "W64 \<Rightarrow> nat \<Rightarrow> nat \<Rightarrow> W64 \<Rightarrow> bool" where
  "in_range start p n a \<longleftrightarrow> (\<exists>i. p \<le> i \<and> i < n \<and> a = start + of_nat i)"

text \<open>One round of the write loop: the bytes \<open>bs\<close> land at the addresses from \<open>a\<close> on.\<close>

lemma write_chunk:
  assumes inv: "as_inv s" and pg: "mapped_mem s (page_floor a) = Some pg"
    and off: "unat (a AND page_mask) + length bs \<le> 4096"
  defines "s1 \<equiv> poke (page_floor a) (unat (a AND page_mask)) bs s"
  shows "as_inv s1" "mem_byte s1 x = None \<longleftrightarrow> mem_byte s x = None"
    "k < length bs \<Longrightarrow> mem_byte s1 (a + of_nat k) = Some (bs ! k)"
    "\<not> in_range a 0 (length bs) x \<Longrightarrow> mem_byte s1 x = mem_byte s x"
    "s1\<lparr>mapped_mem := mapped_mem s\<rparr> = s"
proof -
  have len: "length pg = 4096" using inv pg by (simp add: as_inv_def)
  note pk = mem_byte_poke [OF pg len off, folded s1_def]
  show "as_inv s1" using as_inv_poke [OF inv pg off] by (simp add: s1_def)
  show "mem_byte s1 x = None \<longleftrightarrow> mem_byte s x = None"
    unfolding pk using pg by (auto simp: mem_byte_def)
  show "mem_byte s1 (a + of_nat k) = Some (bs ! k)" if "k < length bs"
    unfolding pk using that off page_step [of a k] by simp
  show "s1\<lparr>mapped_mem := mapped_mem s\<rparr> = s" by (simp add: s1_def poke_def Let_def)
  assume out: "\<not> in_range a 0 (length bs) x"
  show "mem_byte s1 x = mem_byte s x"
  proof (rule ccontr)
    assume "mem_byte s1 x \<noteq> mem_byte s x"
    then have x: "page_floor x = page_floor a" "unat (a AND page_mask) \<le> unat (x AND page_mask)"
      "unat (x AND page_mask) < unat (a AND page_mask) + length bs"
      unfolding pk by (auto split: if_splits)
    define k where "k = unat (x AND page_mask) - unat (a AND page_mask)"
    have k: "k < length bs" "unat (a AND page_mask) + k = unat (x AND page_mask)"
      using x by (auto simp: k_def)
    have "unat (a AND page_mask) + k < 4096" using k(1) off by linarith
    from page_step [OF this] have "page_floor x = page_floor (a + of_nat k)"
      "unat (x AND page_mask) = unat ((a + of_nat k) AND page_mask)" using k(2) x(1) by metis+
    then have "x = a + of_nat k" by (rule page_and_offset)
    with k(1) out show False by (auto simp: in_range_def)
  qed
qed

lemma in_range_shift:
  "in_range (start + of_nat p) 0 c x \<longleftrightarrow> in_range start p (p + c) x"
proof
  assume "in_range (start + of_nat p) 0 c x"
  then obtain i where "i < c" "x = start + of_nat p + of_nat i" by (auto simp: in_range_def)
  then show "in_range start p (p + c) x"
    unfolding in_range_def by (intro exI [of _ "p + i"]) (simp add: add.assoc)
next
  assume "in_range start p (p + c) x"
  then obtain i where "p \<le> i" "i < p + c" "x = start + of_nat i" by (auto simp: in_range_def)
  then show "in_range (start + of_nat p) 0 c x"
    unfolding in_range_def by (intro exI [of _ "i - p"]) (auto simp: add.assoc simp flip: of_nat_add)
qed

lemma in_range_append:
  "p \<le> q \<Longrightarrow> q \<le> n \<Longrightarrow> in_range start p n a \<longleftrightarrow> in_range start p q a \<or> in_range start q n a"
proof -
  assume "p \<le> q" "q \<le> n"
  then have "p \<le> i \<and> i < n \<longleftrightarrow> (p \<le> i \<and> i < q) \<or> (q \<le> i \<and> i < n)" for i by auto
  then show ?thesis unfolding in_range_def by blast
qed

lemma write_loop_spec:
  assumes "as_inv s" "p \<le> length bytes" "length bytes \<le> 2 ^ 64"
    and "\<forall>i \<in> {p..<length bytes}. mem_byte s (start + of_nat i) \<noteq> None"
  shows "\<exists>s'. write_loop start bytes p s = (Returned (), s') \<and> as_inv s'
    \<and> s'\<lparr>mapped_mem := mapped_mem s\<rparr> = s
    \<and> (\<forall>i. p \<le> i \<and> i < length bytes \<longrightarrow> mem_byte s' (start + of_nat i) = Some (bytes ! i))
    \<and> (\<forall>a. \<not> in_range start p (length bytes) a \<longrightarrow> mem_byte s' a = mem_byte s a)"
  using assms
proof (induction start bytes p s rule: write_loop.induct)
  case (1 start bytes p s)
  define a where "a = start + of_nat p"
  define c where "c = chunk_len a (length bytes) p"
  show ?case
  proof (cases "p < length bytes")
    case False
    with 1 show ?thesis by (subst write_loop.simps) auto
  next
    case True
    have "mem_byte s a \<noteq> None" using 1(5) True by (simp add: a_def)
    then obtain pg where pg: "mapped_mem s (page_floor a) = Some pg"
      by (auto simp: mem_byte_def split: option.splits)
    define bs where "bs = take c (drop p bytes)"
    define s1 where "s1 = poke (page_floor a) (unat (a AND page_mask)) bs s"
    have c: "p + c \<le> length bytes" "unat (a AND page_mask) + length bs \<le> 4096" "length bs = c"
      using True page_offset_less [of a] by (auto simp: c_def chunk_len_def bs_def)
    note w = write_chunk [OF 1(2) pg c(2), folded s1_def, unfolded c(3)]
    have rec: "write_loop start bytes p s = write_loop start bytes (p + c) s1"
      using True pg by (subst write_loop.simps)
        (simp add: page_virt_to_mapped_def Let_def a_def c_def s1_def bs_def)
    have "\<exists>s'. write_loop start bytes (p + c) s1 = (Returned (), s') \<and> as_inv s'
      \<and> s'\<lparr>mapped_mem := mapped_mem s1\<rparr> = s1
      \<and> (\<forall>i. p + c \<le> i \<and> i < length bytes \<longrightarrow> mem_byte s' (start + of_nat i) = Some (bytes ! i))
      \<and> (\<forall>x. \<not> in_range start (p + c) (length bytes) x \<longrightarrow> mem_byte s' x = mem_byte s1 x)"
    proof -
      have "\<forall>i \<in> {p + c..<length bytes}. mem_byte s1 (start + of_nat i) \<noteq> None"
        using 1(5) unfolding w(2) by simp
      moreover have "page_virt_to_mapped a s = Some (page_floor a, unat (a AND page_mask))"
        using pg by (simp add: page_virt_to_mapped_def)
      ultimately show ?thesis
        using 1(1) [OF True a_def _ refl c_def] w(1) c(1) 1(4) unfolding s1_def bs_def by blast
    qed
    then obtain s' where s': "write_loop start bytes (p + c) s1 = (Returned (), s')" "as_inv s'"
      "s'\<lparr>mapped_mem := mapped_mem s1\<rparr> = s1"
      "\<And>i. p + c \<le> i \<Longrightarrow> i < length bytes \<Longrightarrow> mem_byte s' (start + of_nat i) = Some (bytes ! i)"
      "\<And>x. \<not> in_range start (p + c) (length bytes) x \<Longrightarrow> mem_byte s' x = mem_byte s1 x" by blast
    have "mem_byte s' (start + of_nat i) = Some (bytes ! i)" if i: "p \<le> i" "i < length bytes" for i
    proof (cases "i < p + c")
      case True
      have "\<not> in_range start (p + c) (length bytes) (start + of_nat i)"
        using True i(2) 1(4) range_inj [of start i] by (fastforce simp: in_range_def)
      then show ?thesis
        using s'(5) w(3) [of "i - p"] True i by (simp add: a_def bs_def add.assoc flip: of_nat_add)
    qed (use s'(4) i in simp)
    moreover have "mem_byte s' x = mem_byte s x" if "\<not> in_range start p (length bytes) x" for x
      using s'(5) [of x] w(4) [of x] that in_range_append [of p "p + c" "length bytes" start x] c(1)
      by (simp add: a_def in_range_shift)
    moreover have "s'\<lparr>mapped_mem := mapped_mem s\<rparr> = s"
      using w(5) by (subst (asm) s'(3) [symmetric]) simp
    ultimately show ?thesis using s'(1,2) rec by auto
  qed
qed

text \<open>
  Reading a range returns its bytes exactly when every address of the range is
  mapped, however many pages it spans; a range with an unmapped address, or one that wraps around
  the end of the address space, is refused, and so is an empty one.
\<close>

theorem as_read_correct:
  assumes "as_inv s"
  shows "as_read start n s =
    (if n = 0 then Failed zero_size
     else if range_overflows start (of_nat n) then Failed unmapped_address
     else if list_all (\<lambda>i. mem_byte s (start + of_nat i) \<noteq> None) [0..<n]
     then Returned (map (\<lambda>i. the (mem_byte s (start + of_nat i))) [0..<n])
     else Failed unmapped_address)"
  using read_loop_spec [OF assms, of 0 n start "[]"]
  unfolding as_read_def list_all_iff set_upt by auto

text \<open>
  Claim C19. What is written is read back: a write to a mapped range succeeds, a read of the
  same range returns the bytes written, every other byte of memory keeps its value, no page is
  mapped or unmapped and no protection changes.
\<close>

theorem as_write_then_read:
  assumes "as_inv s" "bytes \<noteq> []" "length bytes < 2 ^ 64" "\<not> range_overflows start (of_nat (length bytes))"
    and "list_all (\<lambda>i. mem_byte s (start + of_nat i) \<noteq> None) [0..<length bytes]"
  shows "\<exists>s'. as_write start bytes s = (Returned (), s') \<and> as_inv s'
    \<and> as_read start (length bytes) s' = Returned bytes
    \<and> (\<forall>a. \<not> in_range start 0 (length bytes) a \<longrightarrow> mem_byte s' a = mem_byte s a)
    \<and> s'\<lparr>mapped_mem := mapped_mem s\<rparr> = s"
proof -
  have "\<forall>i \<in> {0..<length bytes}. mem_byte s (start + of_nat i) \<noteq> None"
    using assms(5) by (simp add: list_all_iff)
  from write_loop_spec [OF assms(1) _ _ this] assms(3) obtain s' where
    s': "write_loop start bytes 0 s = (Returned (), s')" "as_inv s'" "s'\<lparr>mapped_mem := mapped_mem s\<rparr> = s"
    "\<And>i. i < length bytes \<Longrightarrow> mem_byte s' (start + of_nat i) = Some (bytes ! i)"
    "\<And>a. \<not> in_range start 0 (length bytes) a \<Longrightarrow> mem_byte s' a = mem_byte s a" by auto
  have "map (\<lambda>i. the (mem_byte s' (start + of_nat i))) [0..<length bytes] = bytes"
    using s'(4) by (intro nth_equalityI) simp_all
  then have "as_read start (length bytes) s' = Returned bytes"
    using read_loop_spec [OF s'(2), of 0 "length bytes" start "[]"] assms(2,4) s'(4)
    by (simp add: as_read_def)
  with s' assms(2,4) show ?thesis by (auto simp: as_write_def)
qed

subsection \<open>Shadow maps as sets of pages\<close>

lemma sm_position:
  "sm_chunkid p = sm_chunkid q \<and> sm_byteid p = sm_byteid q \<and> unat (p AND 7) = unat (q AND 7) \<longleftrightarrow> p = q"
proof (intro iffI)
  assume a: "sm_chunkid p = sm_chunkid q \<and> sm_byteid p = sm_byteid q \<and> unat (p AND 7) = unat (q AND 7)"
  have m: "spat_bytes_per_chunk - 1 = mask 16" "(7 :: W64) = mask 3"
    by (simp_all add: spat_bytes_per_chunk_def mask_eq_exp_minus_1)
  show "p = q"
  proof (rule bit_word_eqI)
    fix n assume "n < LENGTH(64)"
    then consider "n < 3" | "3 \<le> n" "n < 19" | "19 \<le> n" "n < 64" by fastforce
    then show "bit p n = bit q n"
    proof cases
      case 1
      have "bit (p AND 7) n = bit (q AND 7) n" using a by (metis word_unat_eq_iff)
      with 1 show ?thesis by (simp add: m bit_simps)
    next
      case 2
      have "bit (sm_byteid p) (n - 3) = bit (sm_byteid q) (n - 3)" using a by simp
      moreover have "n - 3 < 16" "n - 3 < 64" using 2 by auto
      ultimately show ?thesis using 2 by (simp add: sm_byteid_def m bit_simps)
    next
      case 3
      have "bit (sm_chunkid p) (n - 19) = bit (sm_chunkid q) (n - 19)" using a by simp
      with 3 show ?thesis by (simp add: sm_chunkid_def spat_pages_per_chunk_bits_def bit_simps)
    qed
  qed
qed simp

lemma unat_and_7: "unat (p AND 7 :: W64) < 8"
proof -
  have "p AND 7 = take_bit 3 p" by (simp add: take_bit_eq_mask mask_eq_exp_minus_1)
  then have "unat (p AND 7) = take_bit 3 (unat p)" by (simp only: unsigned_take_bit_eq)
  then show ?thesis by (simp add: take_bit_eq_mod)
qed

lemma sm_bitmask_bits:
  "x AND sm_bitmask p = 0 \<longleftrightarrow> \<not> bit x (unat (p AND 7))"
  "bit (sm_bitmask q) (unat (p AND 7)) \<longleftrightarrow> unat (p AND 7) = unat (q AND 7)"
proof -
  have "sm_bitmask p = 2 ^ unat (p AND 7)" for p by (simp add: sm_bitmask_def push_bit_eq_mult)
  then show "x AND sm_bitmask p = 0 \<longleftrightarrow> \<not> bit x (unat (p AND 7))"
    "bit (sm_bitmask q) (unat (p AND 7)) \<longleftrightarrow> unat (p AND 7) = unat (q AND 7)"
    using unat_and_7 [of q] by (simp add: and_exp_eq_0_iff_not_bit, auto simp: bit_exp_iff)
qed

lemma bit_for_set_page: "bit_for_page p (set_page q m) \<longleftrightarrow> p = q \<or> bit_for_page p m"
  using sm_position [of p q]
  by (auto simp: bit_for_page_def set_page_def byte_for_page_def write_byte_def sm_bitmask_bits
    bit_or_iff Let_def split: option.splits)

lemma bit_for_clear_page: "bit_for_page p (clear_page q m) \<longleftrightarrow> p \<noteq> q \<and> bit_for_page p m"
  using sm_position [of p q] unat_and_7 [of p]
  by (auto simp: bit_for_page_def clear_page_def byte_for_page_def write_byte_def sm_bitmask_bits
    bit_and_iff bit_not_iff Let_def split: option.splits)

lemma bit_for_set_pages: "bit_for_page p (fold set_page ps m) \<longleftrightarrow> p \<in> set ps \<or> bit_for_page p m"
  by (induction ps arbitrary: m) (auto simp: bit_for_set_page)

lemma bit_for_clear_pages: "bit_for_page p (fold clear_page ps m) \<longleftrightarrow> p \<notin> set ps \<and> bit_for_page p m"
  by (induction ps arbitrary: m) (auto simp: bit_for_clear_page)

lemma set_pages_upto: "set (pages_upto a b) = {p. a \<le> p \<and> p \<le> b}"
proof (rule set_eqI)
  fix p
  have "p \<in> set (pages_upto a b) \<longleftrightarrow> (\<exists>i. unat a \<le> i \<and> i \<le> unat b \<and> p = of_nat i)"
    by (auto simp: pages_upto_def image_iff less_Suc_eq_le)
  also have "\<dots> \<longleftrightarrow> unat a \<le> unat p \<and> unat p \<le> unat b"
  proof
    assume "\<exists>i. unat a \<le> i \<and> i \<le> unat b \<and> p = of_nat i"
    then obtain i where i: "unat a \<le> i" "i \<le> unat b" "p = of_nat i" by blast
    then have "unat p = i" using unat_less_2p64 [of b] by (simp add: unat_of_nat take_bit_nat_eq_self)
    with i show "unat a \<le> unat p \<and> unat p \<le> unat b" by simp
  qed (auto intro!: exI [of _ "unat p"])
  finally show "p \<in> set (pages_upto a b) \<longleftrightarrow> p \<in> {p. a \<le> p \<and> p \<le> b}"
    by (simp add: word_le_nat_alt)
qed

subsection \<open>Ranges of pages\<close>

definition ceil_4096 :: "nat \<Rightarrow> nat" where
  "ceil_4096 n = (n + 4095) div 4096 * 4096"

lemma page_mask_value: "page_mask = 4095" "unat page_mask = 4095"
  by (simp_all add: page_mask_def page_size_def)

lemma page_aligned_dvd: "page_floor a = a \<longleftrightarrow> 4096 dvd unat a"
  using mod_less_eq_dividend [of "unat a" 4096]
  by (auto simp: word_unat_eq_iff unat_page_floor dvd_eq_mod_eq_0)

lemma unat_add_small: "unat a + unat b < 18446744073709551616 \<Longrightarrow> unat (a + b :: W64) = unat a + unat b"
  by (simp add: unat_word_ariths)

lemma page_ceil_spec:
  assumes "unat n \<le> 18446744073709547520"
  shows "\<exists>c. page_ceil n = Some c \<and> unat c = ceil_4096 (unat n)"
proof -
  have le: "\<not> n > -1 - page_mask"
    using assms by (simp add: word_less_nat_alt page_mask_value unat_sub_if_size unat_minus_one_word)
  have "unat (n + page_mask) = unat n + 4095"
    using assms unat_add_small [of n page_mask] by (simp add: page_mask_value)
  then have "unat (page_floor (n + page_mask)) = ceil_4096 (unat n)"
    by (simp add: unat_page_floor ceil_4096_def minus_mod_eq_div_mult)
  with le show ?thesis by (simp add: page_ceil_def page_floor_def)
qed

lemma ceil_4096_bounds: "n \<le> ceil_4096 n" "ceil_4096 n < n + 4096" "4096 dvd ceil_4096 n"
  "0 < n \<Longrightarrow> 0 < ceil_4096 n"
  by (simp_all add: ceil_4096_def)

lemma ceil_4096_shift: "ceil_4096 (4096 * k + n) = 4096 * k + ceil_4096 n"
proof -
  have "4096 * k + n + 4095 = n + 4095 + k * 4096" by simp
  then have "(4096 * k + n + 4095) div 4096 = k + (n + 4095) div 4096"
    by (simp only: div_mult_self1)
  then show ?thesis by (simp add: ceil_4096_def)
qed

lemma address_space_take: "a AND address_space_mask = take_bit 48 a"
  by (simp add: address_space_mask_def address_space_size_def take_bit_eq_mask mask_eq_exp_minus_1)

lemma address_space_low: "unat a < 281474976710656 \<Longrightarrow> a AND address_space_mask = a"
  unfolding address_space_take word_unat_eq_iff unsigned_take_bit_eq by (simp add: take_bit_nat_eq_self)

lemma unat_drop_12: "unat (drop_bit page_bits a :: W64) = unat a div 4096"
  unfolding unat_drop_bit_eq by (simp add: drop_bit_eq_div page_bits_def)

definition in_span :: "nat \<Rightarrow> nat \<Rightarrow> W64 \<Rightarrow> bool" where
  "in_span lo n a \<longleftrightarrow> lo \<le> unat a \<and> unat a < lo + n"

definition page_span :: "W64 \<Rightarrow> W64 \<Rightarrow> bool" where
  "page_span start n \<longleftrightarrow> 4096 dvd unat start \<and> 4096 dvd unat n \<and> n \<noteq> 0
     \<and> unat start + unat n \<le> 281474976710656"

lemma page_span_shift:
  fixes a lo n :: nat
  assumes "4096 dvd lo" "4096 dvd n"
  shows "lo div 4096 \<le> a div 4096 \<and> a div 4096 < (lo + n) div 4096 \<longleftrightarrow> lo \<le> a \<and> a < lo + n"
  using assms by (auto elim!: dvdE)

lemma set_access_spec:
  assumes "page_span start n"
  shows "\<exists>m'. set_access on start n m = Some m' \<and>
    (\<forall>a. fastcheck a m' \<longleftrightarrow> (if in_span (unat start) (unat n) a then on else fastcheck a m))"
proof -
  define S N where "S = unat start" "N = unat n"
  have SN: "4096 dvd S" "4096 dvd N" "0 < N" "S + N \<le> 281474976710656"
    using assms by (auto simp: page_span_def S_N_def unat_gt_0)
  have low: "start AND address_space_mask = start"
    using SN by (intro address_space_low) (simp add: S_N_def)
  have sum: "unat (start + n) = S + N" using SN unat_add_small [of start n] by (simp add: S_N_def)
  have last: "unat (start + n - 1) = S + N - 1"
    using SN sum by (simp add: unat_sub_if_size)
  have ext: "unat (start + n + page_mask) = S + N + 4095"
    using unat_add_small [of "start + n" page_mask] SN sum by (simp add: page_mask_value)
  have "unat (page_floor (start + n + page_mask)) = S + N"
  proof -
    obtain k where "S + N = 4096 * k" using SN(1,2) by (metis dvd_add dvdE)
    then show ?thesis using ext by (simp add: unat_page_floor)
  qed
  then have fits: "range_fits start n"
    using SN by (simp add: range_fits_def page_floor_def [symmetric] word_le_nat_alt address_space_size_def)
  define ps where "ps = pages_upto (drop_bit page_bits start) (drop_bit page_bits (start + n - 1))"
  have ps: "p \<in> set ps \<longleftrightarrow> S div 4096 \<le> unat p \<and> unat p < (S + N) div 4096" for p
    unfolding ps_def set_pages_upto mem_Collect_eq word_le_nat_alt unat_drop_12 last S_N_def(1) [symmetric]
    using SN by (auto elim!: dvdE)
  have span: "pageid a \<in> set ps \<longleftrightarrow> in_span S N a" if "unat a < 281474976710656" for a
    using page_span_shift [OF SN(1,2), of "unat a"] that
    by (simp add: ps pageid_def address_space_low unat_drop_12 in_span_def)
  have high: "drop_bit address_space_bits a = 0 \<longleftrightarrow> unat a < 281474976710656" for a :: W64
    unfolding word_unat_eq_iff unat_drop_bit_eq by (simp add: drop_bit_eq_div address_space_bits_def div_eq_0_iff)
  show ?thesis
  proof (cases on)
    case True
    have "set_access on start n m = Some (fold set_page ps m)"
      using True fits low by (simp add: set_access_def make_accessible_def ps_def Let_def)
    moreover have "fastcheck a (fold set_page ps m) \<longleftrightarrow> in_span S N a \<or> fastcheck a m" for a
      using span [of a] SN(4) by (auto simp: fastcheck_def high bit_for_set_pages in_span_def)
    ultimately show ?thesis using True by (auto simp: S_N_def)
  next
    case False
    have "set_access on start n m = Some (fold clear_page ps m)"
      using False fits low by (simp add: set_access_def make_inaccessible_def ps_def Let_def)
    moreover have "fastcheck a (fold clear_page ps m) \<longleftrightarrow> \<not> in_span S N a \<and> fastcheck a m" for a
      using span [of a] by (auto simp: fastcheck_def high bit_for_clear_pages)
    ultimately show ?thesis using False by (auto simp: S_N_def)
  qed
qed

text \<open>The permissions of an address, as the accessibility test sees them.\<close>

definition perms :: "AddressSpace \<Rightarrow> W64 \<Rightarrow> bool \<times> bool \<times> bool" where
  "perms s a = (fastcheck a (readmap s), fastcheck a (writemap s), fastcheck a (execmap s))"

definition granted :: "Protection \<Rightarrow> bool \<times> bool \<times> bool" where
  "granted prot = (has_protection prot Protection_read, has_protection prot Protection_write,
     has_protection prot Protection_execute)"

lemma setattr_spec:
  assumes "page_span start n"
  shows "\<exists>s'. setattr start n prot s = Some s' \<and> mapped_mem s' = mapped_mem s \<and> dirtymap s' = dirtymap s
    \<and> attached s' = attached s \<and> invalidated s' = invalidated s
    \<and> (\<forall>a. perms s' a = (if in_span (unat start) (unat n) a then granted prot else perms s a))"
proof -
  obtain r where r: "set_access (has_protection prot Protection_read) start n (readmap s) = Some r"
    "\<And>a. fastcheck a r \<longleftrightarrow> (if in_span (unat start) (unat n) a then has_protection prot Protection_read
      else fastcheck a (readmap s))" using set_access_spec [OF assms] by blast
  obtain w where w: "set_access (has_protection prot Protection_write) start n (writemap s) = Some w"
    "\<And>a. fastcheck a w \<longleftrightarrow> (if in_span (unat start) (unat n) a then has_protection prot Protection_write
      else fastcheck a (writemap s))" using set_access_spec [OF assms] by blast
  obtain x where x: "set_access (has_protection prot Protection_execute) start n (execmap s) = Some x"
    "\<And>a. fastcheck a x \<longleftrightarrow> (if in_span (unat start) (unat n) a then has_protection prot Protection_execute
      else fastcheck a (execmap s))" using set_access_spec [OF assms] by blast
  show ?thesis
    unfolding setattr_def r(1) w(1) x(1) by (simp add: perms_def granted_def r(2) w(2) x(2))
qed

lemma page_start_cover:
  assumes "4096 dvd unat start" "unat start + k * 4096 \<le> 281474976710656"
  shows "(\<exists>i < k. page_floor a = start + of_nat i * page_size) \<longleftrightarrow> in_span (unat start) (k * 4096) a"
proof -
  obtain S where S: "unat start = 4096 * S" using assms(1) by (auto elim: dvdE)
  have val: "unat (start + of_nat i * page_size) = 4096 * (S + i)" if "i < k" for i
  proof -
    have "i * 4096 < 281474976710656" using that assms(2) by linarith
    then have "unat (of_nat i * page_size :: W64) = i * 4096"
      by (simp add: unat_word_ariths page_size_def unat_of_nat)
    then show ?thesis using S assms(2) that unat_add_small [of start "of_nat i * page_size"] by simp
  qed
  have "(\<exists>i < k. page_floor a = start + of_nat i * page_size) \<longleftrightarrow> (\<exists>i < k. unat a div 4096 = S + i)"
    using val by (auto simp: word_unat_eq_iff unat_page_floor minus_mod_eq_mult_div)
  also have "\<dots> \<longleftrightarrow> S \<le> unat a div 4096 \<and> unat a div 4096 < S + k"
    by (auto intro!: exI [of _ "unat a div 4096 - S"])
  also have "\<dots> \<longleftrightarrow> in_span (unat start) (k * 4096) a"
    using page_span_shift [of "unat start" "k * 4096" "unat a"] assms(1) S by (simp add: in_span_def)
  finally show ?thesis .
qed

lemma page_aligned_step:
  "4096 dvd unat start \<Longrightarrow> page_floor (start + of_nat i * page_size) = start + of_nat i * page_size"
  unfolding page_aligned_dvd by (simp add: unat_word_ariths page_size_def dvd_mod)

lemma map_pages_apply:
  "map_pages start n m p =
     (if \<exists>i < n. p = start + of_nat i * page_size then Some (replicate 4096 0) else m p)"
  unfolding map_pages_def by (induction n) (auto simp: less_Suc_eq)

lemma fold_unmap_apply: "fold (\<lambda>p m. m(p := None)) ps m q = (if q \<in> set ps then None else m q)"
  by (induction ps arbitrary: m) auto

lemma set_page_starts:
  "p \<in> set (page_starts start stop) \<longleftrightarrow>
     (\<exists>i < (unat stop - unat start) div 4096. p = start + of_nat i * page_size)"
  by (auto simp: page_starts_def)

lemma mem_byte_cong: "mapped_mem s' = mapped_mem s \<Longrightarrow> mem_byte s' = mem_byte s"
  by (simp add: mem_byte_def fun_eq_iff)

lemma perms_invalidate [simp]:
  "perms (invalidate_decoded_code start n s) a = perms s a"
  "mapped_mem (invalidate_decoded_code start n s) = mapped_mem s"
  by (simp_all add: invalidate_decoded_code_def Let_def perms_def)

lemma map_or_throw_spec:
  assumes inv: "as_inv s" and n: "n \<noteq> 0"
    and fit: "unat (page_floor start) + ceil_4096 (unat n) \<le> 281474976710656"
  shows "\<exists>s'. map_or_throw start n prot s = Returned s' \<and> as_inv s'
    \<and> (\<forall>a. mem_byte s' a = (if in_span (unat (page_floor start)) (ceil_4096 (unat n)) a then Some 0 else mem_byte s a))
    \<and> (\<forall>a. perms s' a = (if in_span (unat (page_floor start)) (ceil_4096 (unat n)) a then granted prot else perms s a))
    \<and> dirtymap s' = dirtymap s \<and> attached s' = attached s \<and> invalidated s' = invalidated s
    \<and> mapped_mem s' = map_pages (page_floor start) (ceil_4096 (unat n) div 4096) (mapped_mem s)"
proof -
  let ?S = "page_floor start" and ?L = "ceil_4096 (unat n)"
  have "unat n \<le> 18446744073709547520" using fit ceil_4096_bounds(1) [of "unat n"] by linarith
  then obtain c where c: "page_ceil n = Some c" "unat c = ?L" using page_ceil_spec by blast
  have al: "4096 dvd unat ?S" using page_aligned_dvd [of ?S] by simp
  have "0 < unat n" using n by (simp add: unat_gt_0)
  then have L: "4096 dvd ?L" "0 < ?L" using ceil_4096_bounds [of "unat n"] by simp_all
  then have span: "page_span ?S c" using al c fit by (auto simp: page_span_def)
  have np: "unat (c div page_size) = ?L div 4096" by (simp add: unat_div_distrib c page_size_def)
  define m where "m = map_pages ?S (?L div 4096) (mapped_mem s)"
  obtain s' where s': "setattr ?S c prot (s\<lparr>mapped_mem := m\<rparr>) = Some s'" "mapped_mem s' = m"
    "dirtymap s' = dirtymap s" "attached s' = attached s" "invalidated s' = invalidated s"
    "\<And>a. perms s' a = (if in_span (unat ?S) ?L a then granted prot else perms s a)"
    using setattr_spec [OF span, of prot "s\<lparr>mapped_mem := m\<rparr>"] by (auto simp: c perms_def)
  have cover: "(\<exists>i < ?L div 4096. page_floor a = ?S + of_nat i * page_size) \<longleftrightarrow> in_span (unat ?S) ?L a" for a
    using page_start_cover [OF al, of "?L div 4096" a] fit L(1) by simp
  have mb: "mem_byte s' a = (if in_span (unat ?S) ?L a then Some 0 else mem_byte s a)" for a
    using cover [of a] page_offset_less [of a] by (simp add: mem_byte_def s'(2) m_def map_pages_apply)
  have "as_inv s'"
    unfolding as_inv_def s'(2) m_def
  proof (intro allI impI)
    fix p pg assume p: "map_pages ?S (?L div 4096) (mapped_mem s) p = Some pg"
    show "length pg = 4096 \<and> page_floor p = p"
    proof (cases "\<exists>i < ?L div 4096. p = ?S + of_nat i * page_size")
      case True
      have "page_floor p = p"
        using True al page_aligned_step by blast
      then show ?thesis using True p by (auto simp: map_pages_apply)
    next
      case False
      then have "mapped_mem s p = Some pg" using p unfolding map_pages_apply by (simp only: if_False)
      then show ?thesis using inv by (simp add: as_inv_def)
    qed
  qed
  moreover have "map_or_throw start n prot s = Returned s'"
    using s'(1) by (simp add: map_or_throw_def c np m_def Let_def)
  ultimately show ?thesis using mb s' by (auto simp: m_def)
qed

lemma no_overflow:
  assumes "n \<noteq> 0" "unat start + unat n \<le> 18446744073709551616"
  shows "\<not> range_overflows start n"
proof -
  have "unat (-1 - (n - 1)) = 18446744073709551616 - unat n"
    using assms(1) by (simp add: unat_minus_word)
  then show ?thesis using assms(2) unfolding range_overflows_def word_less_nat_alt by linarith
qed

lemma span_in_memory:
  assumes "unat (page_floor start) + ceil_4096 (unat n) \<le> 281474976710656"
  shows "unat start + unat n \<le> 18446744073709551616"
  using assms ceil_4096_bounds(1) [of "unat n"] page_offset_less [of start] mod_less_eq_dividend [of "unat start" 4096]
  by (simp add: unat_page_floor page_offset_unat)

text \<open>
  Claim C20. Mapping a range inside the 48-bit address space succeeds; the pages from the page of
  \<open>start\<close> on, as many as the size rounded up to pages, are then mapped and zero-filled with
  exactly the requested protection, and every other address keeps its contents and protection.
\<close>

theorem as_map_correct:
  assumes "as_inv s" "n \<noteq> 0" "unat (page_floor start) + ceil_4096 (unat n) \<le> 2 ^ 48"
  shows "\<exists>s'. as_map start n prot s = Returned s' \<and> as_inv s'
    \<and> (\<forall>a. mem_byte s' a = (if in_span (unat (page_floor start)) (ceil_4096 (unat n)) a then Some 0 else mem_byte s a))
    \<and> (\<forall>a. perms s' a = (if in_span (unat (page_floor start)) (ceil_4096 (unat n)) a then granted prot else perms s a))"
proof -
  have fit: "unat (page_floor start) + ceil_4096 (unat n) \<le> 281474976710656" using assms(3) by simp
  from map_or_throw_spec [OF assms(1,2) this, of prot] obtain s' where
    s': "map_or_throw start n prot s = Returned s'" "as_inv s'"
    "\<forall>a. mem_byte s' a = (if in_span (unat (page_floor start)) (ceil_4096 (unat n)) a then Some 0 else mem_byte s a)"
    "\<forall>a. perms s' a = (if in_span (unat (page_floor start)) (ceil_4096 (unat n)) a then granted prot else perms s a)"
    by blast
  have "as_map start n prot s = Returned (invalidate_decoded_code start n s')"
    using s'(1) assms(2) no_overflow [OF assms(2) span_in_memory [OF fit]] by (simp add: as_map_def)
  moreover have "as_inv (invalidate_decoded_code start n s')" using s'(2) by (simp add: as_inv_def)
  moreover have "mem_byte (invalidate_decoded_code start n s') = mem_byte s'" by (rule mem_byte_cong) simp
  ultimately show ?thesis using s'(3,4) by simp
qed

text \<open>
  A range that does not start on a page boundary loses its last page: the size is
  rounded up from the page of the start and not from the start itself, so when the bytes do not
  fit in that many pages, mapping the range leaves its last byte as it was, unmapped or not.
\<close>

theorem as_map_misses_last_page:
  assumes "as_inv s" "n \<noteq> 0" "unat (page_floor start) + ceil_4096 (unat n) \<le> 2 ^ 48"
    and "ceil_4096 (unat n) < unat start mod 4096 + unat n"
  shows "\<exists>s'. as_map start n prot s = Returned s' \<and> mem_byte s' (start + (n - 1)) = mem_byte s (start + (n - 1))"
proof -
  have fit: "unat (page_floor start) + ceil_4096 (unat n) \<le> 281474976710656" using assms(3) by simp
  have n: "0 < unat n" using assms(2) by (simp add: unat_gt_0)
  then have n1: "unat (n - 1) = unat n - 1" by (simp add: unat_sub_if_size)
  have "unat start + (unat n - 1) < 18446744073709551616" using span_in_memory [OF fit] n by linarith
  then have "unat (start + (n - 1)) = unat start + unat n - 1"
    using n n1 unat_add_small [of start "n - 1"] by simp
  then have "\<not> in_span (unat (page_floor start)) (ceil_4096 (unat n)) (start + (n - 1))"
    using assms(4) n mod_less_eq_dividend [of "unat start" 4096]
    unfolding in_span_def unat_page_floor by linarith
  moreover from map_or_throw_spec [OF assms(1,2) fit, of prot] obtain s' where
    s': "map_or_throw start n prot s = Returned s'"
    "\<And>a. mem_byte s' a = (if in_span (unat (page_floor start)) (ceil_4096 (unat n)) a then Some 0 else mem_byte s a)"
    by blast
  moreover have "as_map start n prot s = Returned (invalidate_decoded_code start n s')"
    using s'(1) assms(2) no_overflow [OF assms(2) span_in_memory [OF fit]] by (simp add: as_map_def)
  moreover have "mem_byte (invalidate_decoded_code start n s') = mem_byte s'" by (rule mem_byte_cong) simp
  ultimately show ?thesis by simp
qed

text \<open>The range computed by unmap and protect is the same span of pages as the one map uses.\<close>

lemma span_stop:
  assumes n: "n \<noteq> 0" and fit: "unat (page_floor start) + ceil_4096 (unat n) \<le> 281474976710656"
  shows "\<exists>stop. page_ceil (page_floor start + n) = Some stop
    \<and> unat stop = unat (page_floor start) + ceil_4096 (unat n)
    \<and> unat (stop - page_floor start) = ceil_4096 (unat n)
    \<and> page_span (page_floor start) (stop - page_floor start)"
proof -
  let ?S = "page_floor start"
  have al: "4096 dvd unat ?S" using page_aligned_dvd [of ?S] by simp
  have "unat (?S + n) = unat ?S + unat n"
    using fit ceil_4096_bounds(1) [of "unat n"] by (intro unat_add_small) linarith
  moreover have "ceil_4096 (unat ?S + unat n) = unat ?S + ceil_4096 (unat n)"
    using al by (auto simp: ceil_4096_shift elim!: dvdE)
  moreover have "unat (?S + n) \<le> 18446744073709547520"
    using calculation(1) fit ceil_4096_bounds(1) [of "unat n"] by linarith
  ultimately obtain stop where stop: "page_ceil (?S + n) = Some stop" "unat stop = unat ?S + ceil_4096 (unat n)"
    using page_ceil_spec [of "?S + n"] by auto
  then have diff: "unat (stop - ?S) = ceil_4096 (unat n)" by (simp add: unat_sub_if_size)
  have "0 < unat n" using n by (simp add: unat_gt_0)
  then have "page_span ?S (stop - ?S)"
    using al fit diff ceil_4096_bounds [of "unat n"] by (auto simp: page_span_def)
  with stop diff show ?thesis by blast
qed

lemma page_starts_cover:
  assumes "4096 dvd unat start" "unat stop = unat start + L" "4096 dvd L" "unat start + L \<le> 281474976710656"
  shows "page_floor a \<in> set (page_starts start stop) \<longleftrightarrow> in_span (unat start) L a"
  using page_start_cover [OF assms(1), of "L div 4096" a] assms by (simp add: set_page_starts)

text \<open>
  Claim C21. Unmapping a range removes exactly the pages of its span: no byte of them can be read
  or written and none of the three permissions is granted there, while every other address
  keeps its contents and permissions.
\<close>

theorem as_unmap_correct:
  assumes "as_inv s" "n \<noteq> 0" "unat (page_floor start) + ceil_4096 (unat n) \<le> 2 ^ 48"
  shows "\<exists>s'. as_unmap start n s = Returned s' \<and> as_inv s'
    \<and> (\<forall>a. mem_byte s' a = (if in_span (unat (page_floor start)) (ceil_4096 (unat n)) a then None else mem_byte s a))
    \<and> (\<forall>a. perms s' a = (if in_span (unat (page_floor start)) (ceil_4096 (unat n)) a
          then (False, False, False) else perms s a))"
proof -
  let ?S = "page_floor start" and ?L = "ceil_4096 (unat n)"
  have fit: "unat ?S + ?L \<le> 281474976710656" using assms(3) by simp
  obtain stop where stop: "page_ceil (?S + n) = Some stop" "unat stop = unat ?S + ?L"
    "unat (stop - ?S) = ?L" "page_span ?S (stop - ?S)" using span_stop [OF assms(2) fit] by blast
  define s1 where "s1 = s\<lparr>mapped_mem := fold (\<lambda>p m. m(p := None)) (page_starts ?S stop) (mapped_mem s)\<rparr>"
  obtain s2 where s2: "setattr ?S (stop - ?S) Protection_none s1 = Some s2" "mapped_mem s2 = mapped_mem s1"
    "\<And>a. perms s2 a = (if in_span (unat ?S) ?L a then granted Protection_none else perms s1 a)"
    using setattr_spec [OF stop(4), of Protection_none s1] stop(3) by auto
  have "as_unmap start n s = Returned (invalidate_decoded_code ?S (stop - ?S) s2)"
    using assms(2) no_overflow [OF assms(2) span_in_memory [OF fit]] stop(1) s2(1)
    by (simp add: as_unmap_def s1_def Let_def)
  moreover have cover: "page_floor a \<in> set (page_starts ?S stop) \<longleftrightarrow> in_span (unat ?S) ?L a" for a
    using page_starts_cover [of ?S stop ?L a] stop fit ceil_4096_bounds(3) page_aligned_dvd [of ?S] by simp
  moreover have "mapped_mem (invalidate_decoded_code ?S (stop - ?S) s2) =
      (\<lambda>q. if q \<in> set (page_starts ?S stop) then None else mapped_mem s q)"
    by (simp add: s2(2) s1_def fold_unmap_apply fun_eq_iff)
  moreover have "granted Protection_none = (False, False, False)"
    by (simp add: granted_def has_protection_def protection_defs)
  moreover have "perms s1 a = perms s a" for a by (simp add: s1_def perms_def)
  ultimately show ?thesis
    using assms(1) s2(3) by (simp add: as_inv_def mem_byte_def)
qed

text \<open>
  Changing the protection of a range needs every page of its span to be mapped. If
  so, exactly the pages of the span get the new protection and no byte changes; if not, the
  call fails and nothing changes.
\<close>

theorem as_protect_correct:
  assumes "as_inv s" "n \<noteq> 0" "unat (page_floor start) + ceil_4096 (unat n) \<le> 2 ^ 48"
  shows "if \<exists>a. in_span (unat (page_floor start)) (ceil_4096 (unat n)) a \<and> mem_byte s a = None
    then as_protect start n prot s = Failed unmapped_address
    else \<exists>s'. as_protect start n prot s = Returned s' \<and> as_inv s' \<and> mem_byte s' = mem_byte s
      \<and> (\<forall>a. perms s' a = (if in_span (unat (page_floor start)) (ceil_4096 (unat n)) a
            then granted prot else perms s a))"
proof -
  let ?S = "page_floor start" and ?L = "ceil_4096 (unat n)"
  have fit: "unat ?S + ?L \<le> 281474976710656" using assms(3) by simp
  obtain stop where stop: "page_ceil (?S + n) = Some stop" "unat stop = unat ?S + ?L"
    "unat (stop - ?S) = ?L" "page_span ?S (stop - ?S)" using span_stop [OF assms(2) fit] by blast
  have al: "4096 dvd unat ?S" using page_aligned_dvd [of ?S] by simp
  have cover: "page_floor a \<in> set (page_starts ?S stop) \<longleftrightarrow> in_span (unat ?S) ?L a" for a
    using page_starts_cover [of ?S stop ?L a] stop fit ceil_4096_bounds(3) al by simp
  have pages: "page_floor p = p" if "p \<in> set (page_starts ?S stop)" for p
    using that al by (auto simp: set_page_starts page_aligned_step)
  have none: "list_ex (\<lambda>p. mapped_mem s p = None) (page_starts ?S stop) \<longleftrightarrow>
      (\<exists>a. in_span (unat ?S) ?L a \<and> mem_byte s a = None)" (is "?A \<longleftrightarrow> ?B")
  proof
    assume ?A
    then obtain p where p: "p \<in> set (page_starts ?S stop)" "mapped_mem s p = None" by (auto simp: list_ex_iff)
    then have "in_span (unat ?S) ?L p \<and> mem_byte s p = None"
      using pages [OF p(1)] cover [of p] by (simp add: mem_byte_def)
    then show ?B ..
  next
    assume ?B
    then show ?A using cover by (force simp: list_ex_iff mem_byte_def split: option.splits)
  qed
  obtain s2 where s2: "setattr ?S (stop - ?S) prot s = Some s2" "mapped_mem s2 = mapped_mem s"
    "\<And>a. perms s2 a = (if in_span (unat ?S) ?L a then granted prot else perms s a)"
    using setattr_spec [OF stop(4), of prot s] stop(3) by auto
  have "as_protect start n prot s = (if ?B then Failed unmapped_address
      else Returned (invalidate_decoded_code ?S (stop - ?S) s2))"
    using assms(2) no_overflow [OF assms(2) span_in_memory [OF fit]] stop(1) s2(1) none
    by (simp add: as_protect_def Let_def)
  moreover have "mem_byte (invalidate_decoded_code ?S (stop - ?S) s2) = mem_byte s"
    by (rule mem_byte_cong) (simp add: s2(2))
  ultimately show ?thesis
    using assms(1) s2 by (auto simp: as_inv_def)
qed

subsection \<open>Cloning\<close>

lemma in_page_span:
  assumes "page_floor k = k" "unat k < 281474976710656"
  shows "in_span (unat k) 4096 a \<longleftrightarrow> page_floor a = k"
proof -
  have "unat k + 1 * 4096 \<le> 281474976710656"
    using assms page_aligned_dvd [of k] by (auto elim!: dvdE)
  from page_start_cover [OF _ this, of a] assms(1) page_aligned_dvd [of k] show ?thesis
    by (simp add: page_size_def)
qed

lemma same_page_perms:
  assumes "page_floor a = page_floor b" "unat a < 281474976710656" "unat b < 281474976710656"
  shows "perms s a = perms s b"
proof -
  have "drop_bit page_bits a = drop_bit page_bits b"
    using assms(1) unfolding page_floor_eq_iff by (metis unat_drop_12 word_unat_eq_iff)
  then have "pageid a = pageid b" using assms(2,3) by (simp add: pageid_def address_space_low)
  moreover have "drop_bit address_space_bits x = 0" if "unat x < 281474976710656" for x :: W64
    using that unfolding word_unat_eq_iff unat_drop_bit_eq
    by (simp add: drop_bit_eq_div address_space_bits_def div_eq_0_iff)
  ultimately show ?thesis using assms(2,3) by (simp add: perms_def fastcheck_def)
qed

lemma granted_protection_at:
  assumes "unat k < 281474976710656"
  shows "granted (protection_at k s) = perms s k"
proof -
  have "drop_bit address_space_bits k = 0"
    using assms unfolding word_unat_eq_iff unat_drop_bit_eq
    by (simp add: drop_bit_eq_div address_space_bits_def div_eq_0_iff)
  then show ?thesis
    using address_space_low [OF assms]
    by (simp add: granted_def perms_def fastcheck_def protection_at_def has_protection_def protection_defs Let_def)
qed

text \<open>Only mapped pages below \<open>2 ^ 48\<close> carry permissions.\<close>

definition coherent :: "AddressSpace \<Rightarrow> bool" where
  "coherent s \<longleftrightarrow> as_inv s \<and> (\<forall>p \<in> dom (mapped_mem s). unat p < 2 ^ 48)
     \<and> (\<forall>a. perms s a \<noteq> (False, False, False) \<longrightarrow> mem_byte s a \<noteq> None)"

lemma copy_pages_spec:
  assumes "as_inv other" "set ks \<subseteq> dom (mapped_mem other)" "\<forall>p \<in> dom (mapped_mem other). unat p < 281474976710656"
    and "as_inv s"
  shows "\<exists>s'. copy_pages other ks s = Returned s' \<and> as_inv s'
    \<and> (\<forall>p. mapped_mem s' p = (if p \<in> set ks then mapped_mem other p else mapped_mem s p))
    \<and> (\<forall>a. perms s' a = (if page_floor a \<in> set ks then perms other a else perms s a))"
  using assms
proof (induction ks arbitrary: s)
  case (Cons k ks)
  have k: "page_floor k = k" "unat k < 281474976710656" "mapped_mem other k \<noteq> None"
    using Cons.prems by (auto simp: as_inv_def)
  have c: "ceil_4096 (unat page_size) = 4096" by (simp add: ceil_4096_def page_size_def)
  have fit: "unat (page_floor k) + ceil_4096 (unat page_size) \<le> 281474976710656"
    unfolding k(1) c using k(1,2) page_aligned_dvd [of k] by (auto elim!: dvdE)
  obtain s1 where s1: "map_or_throw k page_size (protection_at k other) s = Returned s1" "as_inv s1"
    "\<And>a. perms s1 a = (if page_floor a = k then granted (protection_at k other) else perms s a)"
    "mapped_mem s1 = map_pages k 1 (mapped_mem s)"
    using map_or_throw_spec [OF Cons.prems(4) _ fit, of "protection_at k other"] in_page_span [OF k(1,2)]
    unfolding k(1) c by (auto simp: page_size_def)
  define s2 where "s2 = s1\<lparr>mapped_mem := (mapped_mem s1)(k := mapped_mem other k)\<rparr>"
  have m2: "mapped_mem s2 = (mapped_mem s)(k := mapped_mem other k)"
    by (simp add: s2_def s1(4) map_pages_def)
  then have inv2: "as_inv s2" using Cons.prems(1,4) k by (auto simp: as_inv_def)
  have p2: "perms s2 a = (if page_floor a = k then perms other a else perms s a)" for a
  proof -
    have "perms other a = perms other k" if "page_floor a = k"
    proof (rule same_page_perms)
      show "unat a < 281474976710656"
        using in_page_span [OF k(1,2), of a] that fit unfolding k(1) c in_span_def by simp
    qed (use that k in simp_all)
    then show ?thesis using s1(3) granted_protection_at [OF k(2), of other] by (simp add: s2_def perms_def)
  qed
  obtain s' where s': "copy_pages other ks s2 = Returned s'" "as_inv s'"
    "\<And>p. mapped_mem s' p = (if p \<in> set ks then mapped_mem other p else mapped_mem s2 p)"
    "\<And>a. perms s' a = (if page_floor a \<in> set ks then perms other a else perms s2 a)"
    using Cons.IH [OF Cons.prems(1) _ Cons.prems(3) inv2] Cons.prems(2) by auto
  then show ?case using s1(1) m2 p2 by (auto simp: s2_def)
qed simp

text \<open>
  Claim C37. Cloning an address space gives a deep copy: whatever the order in which the page
  table is visited, the copy has the same bytes at the same addresses and grants the same
  permissions.
\<close>

theorem as_copy_correct:
  assumes "coherent other" "set keys = dom (mapped_mem other)"
  shows "\<exists>s'. as_copy keys other = Returned s' \<and> as_inv s' \<and> mem_byte s' = mem_byte other
    \<and> (\<forall>a. perms s' a = perms other a) \<and> attached s' = attached other"
proof -
  have low: "\<forall>p \<in> dom (mapped_mem other). unat p < 281474976710656"
    using assms(1) by (simp add: coherent_def)
  have new: "as_inv as_new" "perms as_new a = (False, False, False)" for a
    by (simp_all add: as_inv_def as_new_def perms_def fastcheck_def bit_for_page_def)
  obtain s' where s': "copy_pages other keys as_new = Returned s'" "as_inv s'"
    "\<And>p. mapped_mem s' p = (if p \<in> set keys then mapped_mem other p else None)"
    "\<And>a. perms s' a = (if page_floor a \<in> set keys then perms other a else (False, False, False))"
    using copy_pages_spec [of other keys as_new] assms low new by (auto simp: coherent_def as_new_def)
  have "mapped_mem s' = mapped_mem other"
    using s'(3) assms(2) by (force simp: fun_eq_iff domIff)
  moreover have "perms s' a = perms other a" for a
  proof (cases "page_floor a \<in> set keys")
    case False
    then have "mem_byte other a = None" using assms(2) by (simp add: mem_byte_def domIff)
    then have "perms other a = (False, False, False)" using assms(1) unfolding coherent_def by blast
    then show ?thesis using s'(4) False by simp
  qed (use s'(4) in simp)
  ultimately show ?thesis
    using s'(1,2) by (auto simp: as_copy_def as_inv_def perms_def mem_byte_def fun_eq_iff)
qed

subsection \<open>Coherence with decoded code\<close>

lemma invalidated_span:
  assumes "attached s" "n \<noteq> 0" "in_span (unat (page_floor start)) (ceil_4096 (unat n)) a"
    and "unat start + unat n \<le> 18446744073709551616"
  shows "drop_bit page_bits a \<in> set (invalidated (invalidate_decoded_code start n s))"
proof -
  have n: "0 < unat n" using assms(2) by (simp add: unat_gt_0)
  then have "unat (n - 1) = unat n - 1" by (simp add: unat_sub_if_size)
  then have last: "unat (start + (n - 1)) = unat start + unat n - 1"
    using unat_add_small [of start "n - 1"] assms(4) n by simp
  obtain S r where S: "unat start = 4096 * S + r" "r < 4096"
    by (metis mod_less_divisor mult_div_mod_eq zero_less_numeral)
  have "unat (page_floor start) = 4096 * S" using S by (simp add: unat_page_floor)
  with assms(3) have a: "4096 * S \<le> unat a" "unat a < 4096 * S + ceil_4096 (unat n)"
    by (simp_all add: in_span_def)
  have "unat a div 4096 \<le> (unat start + unat n - 1) div 4096"
  proof -
    obtain k where k: "unat n = Suc k" using n by (cases "unat n") auto
    have "ceil_4096 (unat n) = (k + 1 * 4096) div 4096 * 4096" by (simp add: ceil_4096_def k add.commute)
    then have "ceil_4096 (unat n) = (k div 4096 + 1) * 4096" by (simp only: div_mult_self1) simp
    with a(2) have "unat a < (S + k div 4096 + 1) * 4096" by simp
    then have "unat a div 4096 < S + k div 4096 + 1" by (rule less_mult_imp_div_less)
    then have "unat a div 4096 \<le> S + k div 4096" by simp
    also have "\<dots> = (4096 * S + k) div 4096" by simp
    also have "\<dots> \<le> (unat start + unat n - 1) div 4096"
      using S k by (intro div_le_mono) simp
    finally show ?thesis .
  qed
  moreover have "unat (page_floor start) div 4096 \<le> unat a div 4096"
    using a(1) \<open>unat (page_floor start) = 4096 * S\<close> by (simp add: div_le_mono)
  ultimately have "drop_bit page_bits a \<in> set (pages_upto (drop_bit page_bits (page_floor start))
      (drop_bit page_bits (start + (n - 1))))"
    by (simp add: set_pages_upto word_le_nat_alt unat_drop_12 last)
  then show ?thesis using assms(1,2) by (simp add: invalidate_decoded_code_def Let_def)
qed

text \<open>
  The code cache stays coherent: when a machine is attached, mapping a range drops
  the decoded code of every page whose contents or protection the call may have changed.
\<close>

theorem as_map_invalidates_code:
  assumes "as_inv s" "n \<noteq> 0" "unat (page_floor start) + ceil_4096 (unat n) \<le> 2 ^ 48" "attached s"
  shows "\<exists>s'. as_map start n prot s = Returned s' \<and>
    (\<forall>a. mem_byte s' a \<noteq> mem_byte s a \<or> perms s' a \<noteq> perms s a \<longrightarrow>
       drop_bit page_bits a \<in> set (invalidated s'))"
proof -
  have fit: "unat (page_floor start) + ceil_4096 (unat n) \<le> 281474976710656" using assms(3) by simp
  note bound = span_in_memory [OF fit]
  from map_or_throw_spec [OF assms(1,2) fit, of prot] obtain s' where
    s': "map_or_throw start n prot s = Returned s'" "attached s' = attached s"
    "\<And>a. mem_byte s' a = (if in_span (unat (page_floor start)) (ceil_4096 (unat n)) a then Some 0 else mem_byte s a)"
    "\<And>a. perms s' a = (if in_span (unat (page_floor start)) (ceil_4096 (unat n)) a then granted prot else perms s a)"
    by blast
  have "as_map start n prot s = Returned (invalidate_decoded_code start n s')"
    using s'(1) assms(2) no_overflow [OF assms(2) bound] by (simp add: as_map_def)
  moreover have "mem_byte (invalidate_decoded_code start n s') = mem_byte s'" by (rule mem_byte_cong) simp
  ultimately show ?thesis
    using invalidated_span [of s' n start] s' assms(2,4) bound by (auto split: if_splits)
qed


subsection \<open>A concrete address space\<close>

definition demo_space :: AddressSpace where
  "demo_space = as_new\<lparr>mapped_mem := [0x1000 \<mapsto> replicate 4096 0], attached := True\<rparr>"

lemma demo_inv: "as_inv demo_space" "attached demo_space"
  by (simp_all add: as_inv_def demo_space_def page_floor_def page_mask_def page_size_def)

lemma demo_mem:
  "mem_byte demo_space 0x1010 = Some 0" "mem_byte demo_space 0x1011 = Some 0" "mem_byte demo_space 0x2000 = None"
  by (simp_all add: mem_byte_def demo_space_def as_new_def page_floor_def page_mask_def page_size_def)

lemma demo_perms: "perms demo_space a = (False, False, False)"
  by (simp add: perms_def fastcheck_def bit_for_page_def demo_space_def as_new_def)

theorem as_read_correct_witness:
  "as_read 0x1010 2 demo_space = Returned [0, 0] \<and> as_read 0x2000 1 demo_space = Failed unmapped_address"
  using as_read_correct [OF demo_inv(1), of "0x1010" 2] as_read_correct [OF demo_inv(1), of "0x2000" 1]
  by (simp add: range_overflows_def demo_mem upt_rec)

theorem as_write_then_read_witness:
  "\<exists>s'. as_write 0x1010 [7, 8] demo_space = (Returned (), s') \<and> as_read 0x1010 2 s' = Returned [7, 8]"
proof -
  have "\<not> range_overflows 0x1010 2" by (simp add: range_overflows_def)
  moreover have "length [7, 8 :: W8] = 2" by simp
  moreover have "list_all (\<lambda>i. mem_byte demo_space (0x1010 + of_nat i) \<noteq> None) [0..<2]"
    by (simp add: demo_mem upt_rec)
  ultimately show ?thesis
    using as_write_then_read [OF demo_inv(1), of "[7, 8]" "0x1010"] unfolding \<open>length [7, 8] = 2\<close> by auto
qed

theorem as_map_correct_witness:
  "\<exists>s'. as_map 0x2000 100 Protection_read demo_space = Returned s' \<and> mem_byte s' 0x2010 = Some 0
     \<and> perms s' 0x2010 = granted Protection_read \<and> mem_byte s' 0x1010 = mem_byte demo_space 0x1010"
proof -
  have "page_floor 0x2000 = 0x2000" "ceil_4096 100 = 4096"
    by (simp_all add: page_floor_def page_mask_def page_size_def ceil_4096_def)
  then show ?thesis
    using as_map_correct [OF demo_inv(1), of 100 "0x2000" Protection_read] by (auto simp: in_span_def)
qed

theorem as_map_misses_last_page_witness:
  "\<exists>s'. as_map 0x1800 0x1000 Protection_read demo_space = Returned s' \<and> mem_byte s' 0x27ff = None"
proof -
  have miss: "mem_byte demo_space 0x27ff = None"
    by (simp add: mem_byte_def demo_space_def as_new_def page_floor_def page_mask_def page_size_def)
  have "page_floor 0x1800 = 0x1000" "ceil_4096 4096 = 4096" "page_floor 0x27ff = 0x2000"
    by (simp_all add: page_floor_def page_mask_def page_size_def ceil_4096_def)
  then show ?thesis
    using as_map_misses_last_page [OF demo_inv(1), of "0x1000" "0x1800" Protection_read] miss by auto
qed

theorem as_unmap_correct_witness:
  "\<exists>s'. as_unmap 0x1234 1 demo_space = Returned s' \<and> mem_byte s' 0x1010 = None"
proof -
  have "page_floor 0x1234 = 0x1000" "ceil_4096 1 = 4096"
    by (simp_all add: page_floor_def page_mask_def page_size_def ceil_4096_def)
  then show ?thesis
    using as_unmap_correct [OF demo_inv(1), of 1 "0x1234"] by (auto simp: in_span_def)
qed

theorem as_protect_correct_witness:
  "as_protect 0x2000 1 Protection_read demo_space = Failed unmapped_address"
proof -
  have p: "page_floor 0x2000 = 0x2000" "ceil_4096 1 = 4096"
    by (simp_all add: page_floor_def page_mask_def page_size_def ceil_4096_def)
  have "in_span (unat (0x2000 :: W64)) 4096 0x2000" by (simp add: in_span_def)
  then show ?thesis
    using as_protect_correct [OF demo_inv(1), of 1 "0x2000" Protection_read] demo_mem(3) p by (auto split: if_splits)
qed

theorem as_copy_correct_witness:
  "\<exists>s'. as_copy [0x1000] demo_space = Returned s' \<and> mem_byte s' 0x1010 = Some 0"
proof -
  have "coherent demo_space"
    unfolding coherent_def demo_perms using demo_inv(1) by (simp add: demo_space_def as_new_def)
  moreover have "set [0x1000] = dom (mapped_mem demo_space)" by (simp add: demo_space_def as_new_def)
  ultimately show ?thesis using as_copy_correct [of demo_space "[0x1000]"] demo_mem(1) by fastforce
qed

theorem as_map_invalidates_code_witness:
  "\<exists>s'. as_map 0x1000 4096 Protection_execute demo_space = Returned s' \<and>
     (perms s' 0x1010 \<noteq> perms demo_space 0x1010 \<longrightarrow> drop_bit page_bits 0x1010 \<in> set (invalidated s'))"
proof -
  have "page_floor 0x1000 = 0x1000" "ceil_4096 4096 = 4096"
    by (simp_all add: page_floor_def page_mask_def page_size_def ceil_4096_def)
  then show ?thesis
    using as_map_invalidates_code [OF demo_inv(1) _ _ demo_inv(2), of 4096 "0x1000" Protection_execute] by auto
qed

end
