(* ===== verification/Uop_Alu.thy ===== *)
theory Uop_Alu
  imports Bit_Utils
begin

text \<open>
  The integer micro-operations of \<^verbatim>\<open>src/x86sim/uopimpl.cpp\<close>, first part: flag
  generation, register merging, the logical, bit-test, bit-scan, add, subtract, shift and
  rotate implementations, with the flag constants and the input and result structures of
  \<^verbatim>\<open>src/x86sim/ptlhwdef.h\<close>.

  A template parameter \<open>T\<close> is a word type, its width \<open>LENGTH('a)\<close>; the code
  instantiates 8, 16, 32 and 64 bits. The \<^verbatim>\<open>byte& cf, byte& of\<close> outputs hold 0 or 1 and
  are Booleans here. The integer promotions of narrow operands do not show, because every
  result is truncated to \<open>T\<close> again.
\<close>

subsection \<open>Flags, inputs and results\<close>

definition FLAG_CF :: "'a::len word" where [uop_defs]: "FLAG_CF = 0x001"
definition FLAG_INV :: "'a::len word" where [uop_defs]: "FLAG_INV = 0x002"
definition FLAG_PF :: "'a::len word" where [uop_defs]: "FLAG_PF = 0x004"
definition FLAG_WAIT :: "'a::len word" where [uop_defs]: "FLAG_WAIT = 0x008"
definition FLAG_AF :: "'a::len word" where [uop_defs]: "FLAG_AF = 0x010"
definition FLAG_ZF :: "'a::len word" where [uop_defs]: "FLAG_ZF = 0x040"
definition FLAG_SF :: "'a::len word" where [uop_defs]: "FLAG_SF = 0x080"
definition FLAG_OF :: "'a::len word" where [uop_defs]: "FLAG_OF = 0x800"
definition FLAG_BR_TK :: "'a::len word" where [uop_defs]: "FLAG_BR_TK = 0x8000"
definition FLAG_ZAPS :: "'a::len word" where [uop_defs]: "FLAG_ZAPS = 0x0d4"

definition FLAG_NOT_WAIT_INV :: "'a::len word" where
  [uop_defs]: "FLAG_NOT_WAIT_INV = FLAG_ZAPS OR FLAG_CF OR FLAG_OF"

definition SETFLAG_ZF :: W8 where [uop_defs]: "SETFLAG_ZF = push_bit 0 1"
definition SETFLAG_CF :: W8 where [uop_defs]: "SETFLAG_CF = push_bit 1 1"
definition SETFLAG_OF :: W8 where [uop_defs]: "SETFLAG_OF = push_bit 2 1"

record UopInputs =
  ra :: W64
  rb :: W64
  rc :: W64
  raflags :: W16
  rbflags :: W16
  rcflags :: W16
  riptaken :: W64
  ripseq :: W64

record UopResult =
  rddata :: W64
  rdflags :: W16
  addr :: W64

definition uop_out :: "W64 \<Rightarrow> W16 \<Rightarrow> UopResult" where
  [uop_defs]: "uop_out data flags = \<lparr>rddata = data, rdflags = flags, addr = 0\<rparr>"

definition popcount :: "'a::len word \<Rightarrow> nat" where
  [uop_defs]: "popcount w = length (filter (bit w) [0..<LENGTH('a)])"

definition x86_genflags :: "'a::len word \<Rightarrow> W8" where
  "x86_genflags r =
     (let flags = 0;
          flags = (if drop_bit (LENGTH('a) - 1) r AND 1 \<noteq> 0 then flags OR FLAG_SF else flags);
          flags = (if r = 0 then flags OR FLAG_ZF else flags)
      in if popcount (ucast (r AND 0xff) :: W32) mod 2 = 0 then flags OR FLAG_PF else flags)"

definition x86_merge :: "'a::len itself \<Rightarrow> W64 \<Rightarrow> W64 \<Rightarrow> W64" where
  "x86_merge T rd a =
     (if LENGTH('a) = 8 then rd AND NOT 0xff OR a AND 0xff
      else if LENGTH('a) = 16 then rd AND NOT 0xffff OR a AND 0xffff
      else if LENGTH('a) = 32 then ucast (LO32 a)
      else if LENGTH('a) = 64 then a
      else rd)"

subsection \<open>The ALU wrapper\<close>

text \<open>An operation gets the flags to generate, three operands and their flags, and answers
  the result with carry and overflow.\<close>

type_synonym 'a alufunc =
  "W8 \<Rightarrow> 'a word \<Rightarrow> 'a word \<Rightarrow> 'a word \<Rightarrow> W16 \<Rightarrow> W16 \<Rightarrow> W16 \<Rightarrow> 'a word \<times> bool \<times> bool"

definition pack_flags :: "bool \<Rightarrow> bool \<Rightarrow> W8 \<Rightarrow> W16" where
  "pack_flags cf ov zaps = push_bit 11 (of_bool ov) OR of_bool cf OR ucast zaps"

definition aluop :: "'a::len alufunc \<Rightarrow> W8 \<Rightarrow> UopInputs \<Rightarrow> UopResult" where
  "aluop f genflags i =
     (let (rt, cf, ov) = f genflags (ucast (ra i)) (ucast (rb i)) (ucast (rc i)) (raflags i) (rbflags i) (rcflags i)
      in uop_out (x86_merge TYPE('a) (ra i) (ucast rt))
           (pack_flags cf ov (if genflags AND SETFLAG_ZF \<noteq> 0 then x86_genflags rt else 0)))"

definition make_exp_aluop :: "('a::len word \<Rightarrow> 'a word \<Rightarrow> 'a word \<Rightarrow> bool \<times> 'a word) \<Rightarrow> 'a alufunc" where
  "make_exp_aluop expr genflags a b c fa fb fc = (let (cf, rd) = expr a b c in (rd, cf, False))"

definition x86_aluop2 ::
  "bool \<Rightarrow> bool \<Rightarrow> bool \<Rightarrow> W8 \<Rightarrow> 'a::len word \<Rightarrow> 'a word \<Rightarrow> W16 \<Rightarrow> 'a word \<times> bool \<times> bool" where
  "x86_aluop2 subtract carry_in input_flags genflags a b fc =
     (let carry = (if input_flags \<and> carry_in \<and> fc AND FLAG_CF \<noteq> 0 then 1 else 0);
          sign_bit = push_bit (LENGTH('a) - 1) 1;
          intermediate = (if subtract then a - b else a + b);
          result = (if subtract then intermediate - carry else intermediate + carry);
          carry_out = (if subtract then a < b \<or> intermediate < carry else intermediate < a \<or> result < intermediate);
          rhs_sign = (if subtract then NOT b else b);
          overflow = NOT (a XOR rhs_sign) AND (a XOR result) AND sign_bit \<noteq> 0
      in (result, genflags AND SETFLAG_CF \<noteq> 0 \<and> carry_out, genflags AND SETFLAG_OF \<noteq> 0 \<and> overflow))"

subsection \<open>Moves, logic and masked arithmetic\<close>

definition uop_impl_nop :: "UopInputs \<Rightarrow> UopResult" where
  "uop_impl_nop i = uop_out 0 0"

definition exp_op_mov :: "'a::len itself \<Rightarrow> UopInputs \<Rightarrow> UopResult" where
  "exp_op_mov T i = uop_out (x86_merge T (ra i) (rb i)) (rbflags i)"

definition exp_op_and :: "'a::len alufunc" where "exp_op_and = make_exp_aluop (\<lambda>a b c. (False, a AND b))"
definition exp_op_or :: "'a::len alufunc" where "exp_op_or = make_exp_aluop (\<lambda>a b c. (False, a OR b))"
definition exp_op_xor :: "'a::len alufunc" where "exp_op_xor = make_exp_aluop (\<lambda>a b c. (False, a XOR b))"
definition exp_op_andnot :: "'a::len alufunc" where "exp_op_andnot = make_exp_aluop (\<lambda>a b c. (False, NOT a AND b))"
definition exp_op_ornot :: "'a::len alufunc" where "exp_op_ornot = make_exp_aluop (\<lambda>a b c. (False, NOT a OR b))"
definition exp_op_nand :: "'a::len alufunc" where "exp_op_nand = make_exp_aluop (\<lambda>a b c. (False, NOT (a AND b)))"
definition exp_op_nor :: "'a::len alufunc" where "exp_op_nor = make_exp_aluop (\<lambda>a b c. (False, NOT (a OR b)))"
definition exp_op_eqv :: "'a::len alufunc" where "exp_op_eqv = make_exp_aluop (\<lambda>a b c. (False, NOT (a XOR b)))"
definition exp_op_addm :: "'a::len alufunc" where "exp_op_addm = make_exp_aluop (\<lambda>a b c. (False, (a + b) AND c))"
definition exp_op_subm :: "'a::len alufunc" where "exp_op_subm = make_exp_aluop (\<lambda>a b c. (False, (a - b) AND c))"

subsection \<open>Bit tests, byte swap and bit scans\<close>

definition bt_index :: "'a::len word \<Rightarrow> nat" where
  "bt_index b = unat (lowbits (ucast b) (lg LENGTH('a)))"

definition exp_op_bt :: "'a::len alufunc" where
  "exp_op_bt = make_exp_aluop (\<lambda>a b c.
     let cf = bit_macro (ucast a) (bt_index b) \<noteq> 0 in (cf, if cf then -1 else 1))"

definition exp_op_bts :: "'a::len alufunc" where
  "exp_op_bts = make_exp_aluop (\<lambda>a b c.
     (bit_macro (ucast a) (bt_index b) \<noteq> 0, ucast (ucast a OR push_bit (bt_index b) (1 :: W64))))"

definition exp_op_btr :: "'a::len alufunc" where
  "exp_op_btr = make_exp_aluop (\<lambda>a b c.
     (bit_macro (ucast a) (bt_index b) \<noteq> 0, ucast (ucast a AND NOT (push_bit (bt_index b) (1 :: W64)))))"

definition exp_op_btc :: "'a::len alufunc" where
  "exp_op_btc = make_exp_aluop (\<lambda>a b c.
     (bit_macro (ucast a) (bt_index b) \<noteq> 0, ucast (ucast a XOR push_bit (bt_index b) (1 :: W64))))"

definition byteswap :: "'a::len word \<Rightarrow> 'a word" where
  "byteswap w = fold (\<lambda>i r. push_bit 8 r OR (drop_bit (8 * i) w AND 0xff)) [0..<LENGTH('a) div 8] 0"

definition exp_op_bswap :: "'a::len alufunc" where
  "exp_op_bswap = make_exp_aluop (\<lambda>a b c. (False, if LENGTH('a) \<ge> 32 then byteswap b else 0))"

definition ctzclzop :: "'a::len alufunc \<Rightarrow> W8 \<Rightarrow> UopInputs \<Rightarrow> UopResult" where
  "ctzclzop f genflags i =
     (let (rt, cf, ov) = f genflags (ucast (ra i)) (ucast (rb i)) (ucast (rc i)) (raflags i) (rbflags i) (rcflags i)
      in uop_out (x86_merge TYPE('a) (ra i) (ucast rt)) (if (ucast (rb i) :: 'a word) = 0 then FLAG_ZF else 0))"

definition exp_op_ctz :: "'a::len alufunc" where
  "exp_op_ctz = make_exp_aluop (\<lambda>a b c. (False, if b \<noteq> 0 then of_nat (lsbindex64 (ucast b)) else 0))"

definition exp_op_clz :: "'a::len alufunc" where
  "exp_op_clz = make_exp_aluop (\<lambda>a b c. (False, if b \<noteq> 0 then of_nat (msbindex64 (ucast b)) else 0))"

subsection \<open>Condition code movement\<close>

definition uop_impl_collcc :: "UopInputs \<Rightarrow> UopResult" where
  "uop_impl_collcc i =
     (let flags = raflags i AND FLAG_ZAPS OR rbflags i AND FLAG_CF OR rcflags i AND FLAG_OF
      in uop_out (ucast flags) flags)"

definition uop_impl_movrcc :: "UopInputs \<Rightarrow> UopResult" where
  "uop_impl_movrcc i = (let flags = rb i AND FLAG_NOT_WAIT_INV in uop_out flags (ucast flags))"

definition uop_impl_movccr :: "UopInputs \<Rightarrow> UopResult" where
  "uop_impl_movccr i = uop_out (ucast (rbflags i)) (rbflags i)"

definition uop_impl_andcc :: "UopInputs \<Rightarrow> UopResult" where
  "uop_impl_andcc i = uop_out 0 ((raflags i AND rbflags i) AND FLAG_NOT_WAIT_INV)"

definition uop_impl_orcc :: "UopInputs \<Rightarrow> UopResult" where
  "uop_impl_orcc i = uop_out 0 ((raflags i OR rbflags i) AND FLAG_NOT_WAIT_INV)"

definition uop_impl_ornotcc :: "UopInputs \<Rightarrow> UopResult" where
  "uop_impl_ornotcc i = uop_out 0 ((raflags i OR NOT (rbflags i)) AND FLAG_NOT_WAIT_INV)"

definition uop_impl_xorcc :: "UopInputs \<Rightarrow> UopResult" where
  "uop_impl_xorcc i = uop_out 0 ((raflags i XOR rbflags i) AND FLAG_NOT_WAIT_INV)"

subsection \<open>Add and subtract\<close>

definition x86_op_add :: "'a::len alufunc" where
  "x86_op_add genflags a b c fa fb fc = x86_aluop2 False True True genflags a b fc"

definition x86_op_sub :: "'a::len alufunc" where
  "x86_op_sub genflags a b c fa fb fc = x86_aluop2 True True True genflags a b fc"

definition aluop3s :: "'a::len alufunc \<Rightarrow> W8 \<Rightarrow> nat \<Rightarrow> UopInputs \<Rightarrow> UopResult" where
  "aluop3s f genflags rcshift i =
     (let (rt, cf, ov) = f genflags (ucast (ra i)) (ucast (rb i)) (ucast (push_bit rcshift (rc i)))
                           (raflags i) (rbflags i) (rcflags i)
      in uop_out (x86_merge TYPE('a) (ra i) (ucast rt)) (ucast (x86_genflags rt)))"

definition exp_op_adda :: "'a::len alufunc" where "exp_op_adda = make_exp_aluop (\<lambda>a b c. (False, a + b + c))"
definition exp_op_suba :: "'a::len alufunc" where "exp_op_suba = make_exp_aluop (\<lambda>a b c. (False, a - b + c))"


subsection \<open>Reading flags\<close>

lemma flag_exp:
  "FLAG_CF = 2 ^ 0" "FLAG_INV = 2 ^ 1" "FLAG_PF = 2 ^ 2" "FLAG_ZF = 2 ^ 6" "FLAG_SF = 2 ^ 7" "FLAG_OF = 2 ^ 11"
  "FLAG_BR_TK = 2 ^ 15"
  by (simp_all add: FLAG_CF_def FLAG_INV_def FLAG_PF_def FLAG_ZF_def FLAG_SF_def FLAG_OF_def FLAG_BR_TK_def)

lemma flag_test:
  "f AND FLAG_CF = 0 \<longleftrightarrow> \<not> bit f 0" "f AND FLAG_INV = 0 \<longleftrightarrow> \<not> bit f 1"
  "f AND FLAG_PF = 0 \<longleftrightarrow> \<not> bit f 2" "f AND FLAG_ZF = 0 \<longleftrightarrow> \<not> bit f 6"
  "f AND FLAG_SF = 0 \<longleftrightarrow> \<not> bit f 7" "f AND FLAG_OF = 0 \<longleftrightarrow> \<not> bit f 11"
  "f AND FLAG_BR_TK = 0 \<longleftrightarrow> \<not> bit f 15"
  for f :: W16
  unfolding flag_exp by (rule and_exp_eq_0_iff_not_bit)+

lemma bit_flag:
  "bit (FLAG_CF :: W16) n \<longleftrightarrow> n = 0" "bit (FLAG_INV :: W16) n \<longleftrightarrow> n = 1"
  "bit (FLAG_PF :: W8) n \<longleftrightarrow> n = 2" "bit (FLAG_ZF :: W8) n \<longleftrightarrow> n = 6" "bit (FLAG_SF :: W8) n \<longleftrightarrow> n = 7"
  "bit (FLAG_BR_TK :: W16) n \<longleftrightarrow> n = 15" "bit (FLAG_OF :: W16) n \<longleftrightarrow> n = 11"
  unfolding flag_exp bit_exp_iff by auto

lemma and_one_bit: "drop_bit n w AND 1 \<noteq> 0 \<longleftrightarrow> bit w n" for w :: "'a::len word"
  by (simp add: and_one_eq bit_iff_odd_drop_bit mod_2_eq_odd)

text \<open>The low byte has an even number of ones.\<close>

definition even_parity :: "'a::len word \<Rightarrow> bool" where
  "even_parity r \<longleftrightarrow> even (length (filter (bit r) [0..<8]))"

lemma low_byte_ones:
  "length (filter (bit (ucast (r AND 0xff) :: W32)) [0..<32]) = length (filter (bit r) [0..<8])"
  for r :: "'a::len word"
proof -
  have ff: "(0xff :: 'a word) = mask 8" by (simp add: mask_eq_exp_minus_1)
  have "bit (ucast (r AND 0xff) :: W32) n \<longleftrightarrow> n < 8 \<and> bit r n" for n
    unfolding ff by (auto simp: bit_simps dest: bit_imp_le_length)
  then have "filter (bit (ucast (r AND 0xff) :: W32)) [0..<32] = filter (bit r) [0..<8]"
    by (simp add: upt_rec)
  then show ?thesis by simp
qed

lemma bit_genflags:
  "bit (x86_genflags r) n \<longleftrightarrow>
     (n = 7 \<and> bit r (LENGTH('a) - 1)) \<or> (n = 6 \<and> r = 0) \<or> (n = 2 \<and> even_parity r)"
  for r :: "'a::len word"
  by (auto simp: x86_genflags_def and_one_bit bit_or_iff bit_flag popcount_def low_byte_ones even_parity_def Let_def
    even_iff_mod_2_eq_zero)

lemma bit_pack_flags:
  "bit (pack_flags cf ov zaps) n \<longleftrightarrow> (n = 11 \<and> ov) \<or> (n = 0 \<and> cf) \<or> bit zaps n"
  unfolding pack_flags_def bit_or_iff bit_push_bit_iff bit_of_bool_iff bit_unsigned_iff
  by (auto dest: bit_imp_le_length)

subsection \<open>Exact addition and subtraction\<close>

definition fits_signed :: "'a::len itself \<Rightarrow> int \<Rightarrow> bool" where
  "fits_signed T x \<longleftrightarrow> - (2 ^ (LENGTH('a) - 1)) \<le> x \<and> x < 2 ^ (LENGTH('a) - 1)"

lemma two_power_length: "(2 :: int) ^ LENGTH('a::len) = 2 * 2 ^ (LENGTH('a) - 1)"
  by (metis Suc_diff_1 len_gt_0 power_Suc)

lemma two_le_power_length: "(2 :: int) \<le> 2 ^ LENGTH('a::len)"
  unfolding two_power_length by simp

lemma mod_below_double: "0 \<le> S \<Longrightarrow> S < 2 * m \<Longrightarrow> S mod m = (if S < m then S else S - m)" for S m :: int
  using mod_pos_pos_trivial [of S m] mod_pos_pos_trivial [of "S - m" m] minus_mod_self2 [of S m] by auto

lemma uint_add_carry:
  "uint (a + b + of_bool c) =
     (let S = uint a + uint b + of_bool c in if S < 2 ^ LENGTH('a) then S else S - 2 ^ LENGTH('a))"
  for a b :: "'a::len word"
proof -
  let ?S = "uint a + uint b + of_bool c" and ?m = "2 ^ LENGTH('a) :: int"
  have S: "uint (a + b + of_bool c) = ?S mod ?m"
    by (cases c) (simp_all add: uint_word_ariths mod_simps)
  have "0 \<le> ?S" by simp
  moreover have "(of_bool c :: int) \<le> 1" by simp
  then have "?S < 2 * ?m" using uint_lt2p [of a] uint_lt2p [of b] by linarith
  ultimately have "?S mod ?m = (if ?S < ?m then ?S else ?S - ?m)" by (rule mod_below_double)
  with S show ?thesis by simp
qed

lemma signed_add_overflow_int:
  fixes A B C R h :: int
  assumes "0 \<le> A" "A < 2 * h" "0 \<le> B" "B < 2 * h" "C = 0 \<or> C = 1"
    and "R = (if A + B + C < 2 * h then A + B + C else A + B + C - 2 * h)"
  shows "(h \<le> A) = (h \<le> B) \<and> (h \<le> A) \<noteq> (h \<le> R) \<longleftrightarrow>
    \<not> (- h \<le> A - 2 * h * of_bool (h \<le> A) + (B - 2 * h * of_bool (h \<le> B)) + C
       \<and> A - 2 * h * of_bool (h \<le> A) + (B - 2 * h * of_bool (h \<le> B)) + C < h)"
  using assms by (cases "h \<le> A"; cases "h \<le> B") auto

lemma signed_add_overflow:
  "bit a (LENGTH('a) - 1) = bit b (LENGTH('a) - 1) \<and>
     bit a (LENGTH('a) - 1) \<noteq> bit (a + b + of_bool c) (LENGTH('a) - 1)
   \<longleftrightarrow> \<not> fits_signed TYPE('a) (sint a + sint b + of_bool c)"
  for a b :: "'a::len word"
  unfolding bit_last_iff_uint fits_signed_def sint_eq_uint_minus [of a] sint_eq_uint_minus [of b] two_power_length
proof (rule signed_add_overflow_int)
  show "uint a < 2 * 2 ^ (LENGTH('a) - 1)" "uint b < 2 * 2 ^ (LENGTH('a) - 1)"
    unfolding two_power_length [symmetric] by (rule uint_lt2p)+
  show "uint (a + b + of_bool c) =
    (if uint a + uint b + of_bool c < 2 * 2 ^ (LENGTH('a) - 1) then uint a + uint b + of_bool c
     else uint a + uint b + of_bool c - 2 * 2 ^ (LENGTH('a) - 1))"
    unfolding two_power_length [symmetric] uint_add_carry Let_def ..
qed simp_all

lemma overflow_mask:
  "NOT (a XOR r) AND (a XOR s) AND push_bit (LENGTH('a) - 1) 1 \<noteq> 0 \<longleftrightarrow>
     bit a (LENGTH('a) - 1) = bit r (LENGTH('a) - 1) \<and> bit a (LENGTH('a) - 1) \<noteq> bit s (LENGTH('a) - 1)"
  for a r s :: "'a::len word"
  using and_exp_eq_0_iff_not_bit [of "NOT (a XOR r) AND (a XOR s)" "LENGTH('a) - 1"]
  by (simp add: push_bit_eq_mult and.assoc bit_simps)

lemma add_carry_out_int:
  fixes A B C m :: int
  assumes "0 \<le> A" "A < m" "0 \<le> B" "B < m" "C = 0 \<or> C = 1" "2 \<le> m"
  shows "(if A + B < m then A + B else A + B - m) < A \<or>
      (if A + B + C < m then A + B + C else A + B + C - m) < (if A + B < m then A + B else A + B - m)
    \<longleftrightarrow> m \<le> A + B + C"
  using assms by auto

lemma aluop2_add:
  "x86_aluop2 False True True g a b fc =
     (let c = of_bool (bit fc 0)
      in (word_of_int (uint a + uint b + c), g AND SETFLAG_CF \<noteq> 0 \<and> 2 ^ LENGTH('a) \<le> uint a + uint b + c,
          g AND SETFLAG_OF \<noteq> 0 \<and> \<not> fits_signed TYPE('a) (sint a + sint b + c)))"
  for a b :: "'a::len word"
proof -
  let ?c = "bit fc 0"
  have c: "(if True \<and> True \<and> fc AND FLAG_CF \<noteq> 0 then 1 else 0) = (of_bool ?c :: 'a word)"
    by (simp add: flag_test)
  have r: "a + b + of_bool ?c = word_of_int (uint a + uint b + of_bool ?c)" by simp
  have cf: "a + b < a \<or> a + b + of_bool ?c < a + b \<longleftrightarrow> 2 ^ LENGTH('a) \<le> uint a + uint b + of_bool ?c"
    unfolding word_less_def uint_add_carry [of a b ?c] uint_add_carry [of a b False, simplified] Let_def
    by (rule add_carry_out_int) (simp_all add: uint_lt2p two_le_power_length)
  show ?thesis
    unfolding x86_aluop2_def Let_def if_False c overflow_mask cf signed_add_overflow r [symmetric] ..
qed

lemma sint_not_word: "sint (NOT w) = - sint w - 1" for w :: "'a::len word"
proof -
  have n: "NOT w = -1 - w" by (simp add: not_eq_complement)
  have "uint (NOT w) = 2 ^ LENGTH('a) - 1 - uint w"
    unfolding n using uint_sub_if' [of "-1" w] uint_lt2p [of w]
    by (simp add: unsigned_minus_1_eq_mask mask_eq_exp_minus_1)
  then show ?thesis
    unfolding sint_eq_uint_minus by (simp add: bit_simps)
qed

lemma aluop2_sub:
  "x86_aluop2 True True True g a b fc =
     (let c = of_bool (bit fc 0)
      in (word_of_int (uint a - uint b - c), g AND SETFLAG_CF \<noteq> 0 \<and> uint a < uint b + c,
          g AND SETFLAG_OF \<noteq> 0 \<and> \<not> fits_signed TYPE('a) (sint a - sint b - c)))"
  for a b :: "'a::len word"
proof -
  let ?c = "bit fc 0"
  have c: "(if True \<and> True \<and> fc AND FLAG_CF \<noteq> 0 then 1 else 0) = (of_bool ?c :: 'a word)"
    by (simp add: flag_test)
  have r: "word_of_int (uint a - uint b - of_bool ?c) = a - b - of_bool ?c" by simp
  have cf: "a < b \<or> a - b < of_bool ?c \<longleftrightarrow> uint a < uint b + of_bool ?c"
    by (cases ?c) (auto simp: word_less_1 word_le_def [symmetric] word_less_def [symmetric] zle_add1_eq_le)
  have "NOT b = - b - 1" by (simp add: not_eq_complement)
  then have n: "a - b - of_bool ?c = a + NOT b + of_bool (\<not> ?c)" by simp
  have ov: "\<not> fits_signed TYPE('a) (sint a + sint (NOT b) + of_bool (\<not> ?c)) \<longleftrightarrow>
      \<not> fits_signed TYPE('a) (sint a - sint b - of_bool ?c)"
    by (simp add: sint_not_word algebra_simps)
  show ?thesis
    unfolding x86_aluop2_def Let_def if_True c overflow_mask cf r unfolding n signed_add_overflow ov ..
qed

lemma setflag_all:
  "g = SETFLAG_ZF OR SETFLAG_CF OR SETFLAG_OF \<Longrightarrow>
     g AND SETFLAG_ZF \<noteq> 0 \<and> g AND SETFLAG_CF \<noteq> 0 \<and> g AND SETFLAG_OF \<noteq> 0"
  by (simp add: SETFLAG_ZF_def SETFLAG_CF_def SETFLAG_OF_def)

lemma merge_64 [simp]: "x86_merge TYPE(64) d a = a"
  by (simp add: x86_merge_def)

abbreviation all_flags :: W8 where "all_flags \<equiv> SETFLAG_ZF OR SETFLAG_CF OR SETFLAG_OF"

text \<open>Claim C11. At every width, add with carry answers the sum of both operands and the carry
  flag of rc modulo the width, sets CF exactly when the unsigned sum does not fit and OF
  exactly when the signed sum does not fit; subtract with borrow likewise with the difference,
  CF being the borrow.\<close>

theorem add_sub_exact:
  fixes a b c d :: "'a::len word"
  shows "let k = of_bool (bit fc 0)
    in x86_op_add all_flags a b c fa fb fc =
         (word_of_int (uint a + uint b + k), 2 ^ LENGTH('a) \<le> uint a + uint b + k,
          \<not> fits_signed TYPE('a) (sint a + sint b + k))
     \<and> x86_op_sub all_flags a b d fa fb fc =
         (word_of_int (uint a - uint b - k), uint a < uint b + k,
          \<not> fits_signed TYPE('a) (sint a - sint b - k))"
  using setflag_all [OF refl]
  by (simp add: x86_op_add_def x86_op_sub_def aluop2_add aluop2_sub Let_def)

subsection \<open>Multi-word arithmetic\<close>

text \<open>A sequence of 64-bit add micro-operations over the limbs of two numbers, least
  significant first, where each takes its carry from the flags the one before it wrote.\<close>

fun add_chain :: "(W64 \<times> W64) list \<Rightarrow> W16 \<Rightarrow> W64 list \<times> W16" where
  "add_chain [] flags = ([], flags)"
| "add_chain ((a, b) # ps) flags =
     (let out = aluop (x86_op_add :: 64 alufunc) all_flags
                  \<lparr>ra = a, rb = b, rc = 0, raflags = 0, rbflags = 0, rcflags = flags, riptaken = 0, ripseq = 0\<rparr>;
          (ws, flags') = add_chain ps (rdflags out)
      in (rddata out # ws, flags'))"

fun limbs :: "W64 list \<Rightarrow> int" where
  "limbs [] = 0"
| "limbs (w # ws) = uint w + 2 ^ 64 * limbs ws"

lemma add_uop_64:
  "let out = aluop (x86_op_add :: 64 alufunc) all_flags i; S = uint (ra i) + uint (rb i) + of_bool (bit (rcflags i) 0)
   in uint (rddata out) + 2 ^ 64 * of_bool (bit (rdflags out) 0) = S"
proof -
  let ?c = "bit (rcflags i) 0" and ?S = "uint (ra i) + uint (rb i) + of_bool (bit (rcflags i) 0)"
  have "word_of_int ?S = ra i + rb i + of_bool ?c" by simp
  then have "uint (word_of_int ?S :: W64) = (if ?S < 2 ^ 64 then ?S else ?S - 2 ^ 64)"
    using uint_add_carry [of "ra i" "rb i" ?c] by (simp add: Let_def)
  then show ?thesis
    using setflag_all [OF refl]
    by (simp add: aluop_def x86_op_add_def aluop2_add uop_out_def Let_def bit_pack_flags bit_genflags)
qed

text \<open>Claim C22. A chain of 64-bit add micro-operations, each reading the carry flag the one
  before it wrote, adds two numbers of any number of limbs exactly: the result limbs and the
  final carry flag represent the sum of the operands and the initial carry.\<close>

theorem add_chain_exact:
  "let (ws, flags') = add_chain ps flags
   in length ws = length ps
      \<and> limbs ws + 2 ^ (64 * length ps) * of_bool (bit flags' 0) =
        limbs (map fst ps) + limbs (map snd ps) + of_bool (bit flags 0)"
proof (induction ps arbitrary: flags)
  case (Cons p ps)
  obtain a b where p: "p = (a, b)" by (cases p)
  define i where "i = \<lparr>ra = a, rb = b, rc = 0, raflags = 0, rbflags = 0, rcflags = flags, riptaken = 0, ripseq = 0\<rparr>"
  define out where "out = aluop (x86_op_add :: 64 alufunc) all_flags i"
  obtain ws flags' where r: "add_chain ps (rdflags out) = (ws, flags')" by fastforce
  have "limbs ws + 2 ^ (64 * length ps) * of_bool (bit flags' 0) =
      limbs (map fst ps) + limbs (map snd ps) + of_bool (bit (rdflags out) 0)" and len: "length ws = length ps"
    using Cons.IH [of "rdflags out"] by (simp_all add: r)
  moreover have "uint (rddata out) + 2 ^ 64 * of_bool (bit (rdflags out) 0) = uint a + uint b + of_bool (bit flags 0)"
    using add_uop_64 [of i] by (simp add: out_def i_def Let_def)
  ultimately have "limbs (rddata out # ws) + 2 ^ (64 * Suc (length ps)) * of_bool (bit flags' 0) =
      limbs (a # map fst ps) + limbs (b # map snd ps) + of_bool (bit flags 0)"
    by (simp add: power_add algebra_simps)
  then show ?case
    using r len by (simp add: p out_def i_def Let_def)
qed simp

end
