(* ===== verification/Uop_Mul.thy ===== *)
theory Uop_Mul
  imports Uop_Alu Long_Div
begin

text \<open>
  Multiply, divide, remainder, minimum and maximum micro-operations of
  \<^verbatim>\<open>src/x86sim/uopimpl.cpp\<close>. The double-width products of the source
  (\<^verbatim>\<open>double_width<T>\<close>) never overflow and are integers here; a conversion back to a
  fixed width is written out.
\<close>

subsection \<open>Multiplication\<close>

datatype MulKind = Low | HighSigned | HighUnsigned

definition x86_mul :: "MulKind \<Rightarrow> 'a::len alufunc" where
  "x86_mul kind genflags a b c fa fb fc =
     (let width = LENGTH('a);
          sprod = sint a * sint b;
          uprod = uint a * uint b;
          cf = (if kind = HighUnsigned then uprod div 2 ^ width \<noteq> 0
                else sprod \<noteq> sint (word_of_int sprod :: 'a word))
      in (if kind = Low then word_of_int sprod
          else if kind = HighSigned then word_of_int (sprod mod 2 ^ (2 * width) div 2 ^ width)
          else word_of_int (uprod div 2 ^ width), cf, cf))"

definition x86_op_mull :: "'a::len alufunc" where "x86_op_mull = x86_mul Low"
definition x86_op_mulh :: "'a::len alufunc" where "x86_op_mulh = x86_mul HighSigned"
definition x86_op_mulhu :: "'a::len alufunc" where "x86_op_mulhu = x86_mul HighUnsigned"

definition uop_impl_mulhl :: "'a::len itself \<Rightarrow> UopInputs \<Rightarrow> UopResult" where
  "uop_impl_mulhl T i =
     (let a = ucast (ra i) :: 'a word; b = ucast (rb i) :: 'a word; z = ucast a * ucast b
      in uop_out z (ucast (x86_genflags z)))"

subsection \<open>Division\<close>

definition EXCEPTION_BranchMispredict :: W64 where "EXCEPTION_BranchMispredict = 2"
definition EXCEPTION_DivideOverflow :: W64 where "EXCEPTION_DivideOverflow = 14"

text \<open>The first argument of the unsigned operations is the instance of \<^verbatim>\<open>div_rem<T>\<close>, of the
  signed ones that of \<^verbatim>\<open>div_rem_s<T>\<close>, which may trap in the host division.\<close>

type_synonym 'a divfunc = "'a word \<Rightarrow> 'a word \<Rightarrow> 'a word \<Rightarrow> bool \<times> 'a word \<times> 'a word"
type_synonym 'a sdivfunc = "'a word \<Rightarrow> 'a word \<Rightarrow> 'a word \<Rightarrow> host_fault + bool \<times> 'a word \<times> 'a word"

definition x86_div :: "'a::len divfunc \<Rightarrow> UopInputs \<Rightarrow> UopResult" where
  "x86_div divf i =
     (let (ok, quotient, remainder) = divf (ucast (ra i)) (ucast (rb i)) (ucast (rc i))
      in if \<not> ok then uop_out EXCEPTION_DivideOverflow FLAG_INV
         else uop_out (x86_merge TYPE('a) (rb i) (ucast quotient)) (ucast (x86_genflags quotient)))"

definition x86_rem :: "'a::len divfunc \<Rightarrow> UopInputs \<Rightarrow> UopResult" where
  "x86_rem divf i =
     (let (ok, quotient, remainder) = divf (ucast (ra i)) (ucast (rb i)) (ucast (rc i))
      in if \<not> ok then uop_out EXCEPTION_DivideOverflow FLAG_INV
         else uop_out (x86_merge TYPE('a) (ra i) (ucast remainder)) (ucast (x86_genflags remainder)))"

definition x86_divs :: "'a::len sdivfunc \<Rightarrow> UopInputs \<Rightarrow> host_fault + UopResult" where
  "x86_divs divf i =
     map_sum id (\<lambda>(ok, quotient, remainder).
        if \<not> ok then uop_out EXCEPTION_DivideOverflow FLAG_INV
        else uop_out (x86_merge TYPE('a) (rb i) (ucast quotient)) (ucast (x86_genflags quotient)))
      (divf (ucast (ra i)) (ucast (rb i)) (ucast (rc i)))"

definition x86_rems :: "'a::len sdivfunc \<Rightarrow> UopInputs \<Rightarrow> host_fault + UopResult" where
  "x86_rems divf i =
     map_sum id (\<lambda>(ok, quotient, remainder).
        if \<not> ok then uop_out EXCEPTION_DivideOverflow FLAG_INV
        else uop_out (x86_merge TYPE('a) (ra i) (ucast remainder)) (ucast (x86_genflags remainder)))
      (divf (ucast (ra i)) (ucast (rb i)) (ucast (rc i)))"

subsection \<open>Minimum and maximum\<close>

definition uop_impl_min_max :: "'a::len itself \<Rightarrow> bool \<Rightarrow> bool \<Rightarrow> UopInputs \<Rightarrow> UopResult" where
  "uop_impl_min_max T is_signed compare_for_max i =
     (let a = ucast (ra i) :: 'a word; b = ucast (rb i) :: 'a word;
          less = (\<lambda>x y. if is_signed then x <s y else x < y);
          z = (if compare_for_max then (if less a b then b else a) else (if less b a then b else a))
      in uop_out (x86_merge T (ra i) (ucast z)) (ucast (x86_genflags z)))"

subsection \<open>Exact products\<close>

lemma div_between:
  fixes P h m :: int
  assumes "0 < m" "- (h * m) \<le> P" "P < h * m"
  shows "- h \<le> P div m" "P div m < h"
proof -
  show "- h \<le> P div m" using zdiv_mono1 [OF assms(2,1)] assms(1) by (simp flip: mult_minus_left)
  have "P div m * m \<le> P" using pos_mod_sign [OF assms(1), of P] by (simp add: minus_mod_eq_div_mult [symmetric])
  with assms(3) have "P div m * m < h * m" by simp
  then show "P div m < h" using assms(1) by simp
qed

lemma sprod_bounds:
  fixes a b :: "'a::len word"
  shows "- (2 ^ (LENGTH('a) - 1)) \<le> sint a * sint b div 2 ^ LENGTH('a)"
    and "sint a * sint b div 2 ^ LENGTH('a) < 2 ^ (LENGTH('a) - 1)"
proof -
  let ?h = "2 ^ (LENGTH('a) - 1) :: int"
  have "\<bar>sint a\<bar> \<le> ?h" "\<bar>sint b\<bar> \<le> ?h"
    using sint_ge [of a] sint_lt [of a] sint_ge [of b] sint_lt [of b] by (simp_all add: abs_le_iff)
  then have "\<bar>sint a * sint b\<bar> \<le> ?h * ?h"
    unfolding abs_mult by (intro mult_mono) auto
  moreover have "?h * 2 ^ LENGTH('a) = ?h * ?h + ?h * ?h" "0 < ?h * ?h" unfolding two_power_length by simp_all
  ultimately have "- (?h * 2 ^ LENGTH('a)) \<le> sint a * sint b" "sint a * sint b < ?h * 2 ^ LENGTH('a)" by linarith+
  then show "- ?h \<le> sint a * sint b div 2 ^ LENGTH('a)" "sint a * sint b div 2 ^ LENGTH('a) < ?h"
    by (auto intro: div_between)
qed

lemma high_half:
  "(word_of_int (P mod 2 ^ (2 * LENGTH('a)) div 2 ^ LENGTH('a)) :: 'a::len word) = word_of_int (P div 2 ^ LENGTH('a))"
proof -
  have "P mod 2 ^ (2 * LENGTH('a)) div 2 ^ LENGTH('a) = take_bit LENGTH('a) (P div 2 ^ LENGTH('a))"
    by (simp add: drop_bit_take_bit flip: take_bit_eq_mod drop_bit_eq_div)
  then show ?thesis by (simp add: word_of_int_eq_iff)
qed

lemma sint_of_int_small:
  "- (2 ^ (LENGTH('a) - 1)) \<le> x \<Longrightarrow> x < 2 ^ (LENGTH('a) - 1) \<Longrightarrow> sint (word_of_int x :: 'a::len word) = x"
  unfolding sint_sbintrunc' by (rule signed_take_bit_int_eq_self)

lemma sint_word_of_int_eq_iff: "x = sint (word_of_int x :: 'a::len word) \<longleftrightarrow> fits_signed TYPE('a) x"
proof
  assume "x = sint (word_of_int x :: 'a word)"
  then show "fits_signed TYPE('a) x"
    using sint_ge [of "word_of_int x :: 'a word"] sint_lt [of "word_of_int x :: 'a word"] by (simp add: fits_signed_def)
next
  assume "fits_signed TYPE('a) x"
  then show "x = sint (word_of_int x :: 'a word)" by (simp add: fits_signed_def sint_of_int_small)
qed

text \<open>Claim C28. At every width the high and low halves the multiply operations answer
  represent the exact signed product (mulh with mull) and the exact unsigned product (mulhu with
  mull). CF and OF say, for the signed forms, that the product is not the sign extension of its
  low half and, for the unsigned form, that the high half is not zero.\<close>

theorem mul_exact:
  fixes a b c :: "'a::len word"
  shows "let (lo, cfl, ofl) = x86_op_mull g a b c fa fb fc; (hi, cfh, ofh) = x86_op_mulh g a b c fa fb fc;
             (hu, cfu, ofu) = x86_op_mulhu g a b c fa fb fc
         in sint hi * 2 ^ LENGTH('a) + uint lo = sint a * sint b
          \<and> uint hu * 2 ^ LENGTH('a) + uint lo = uint a * uint b
          \<and> (cfl \<longleftrightarrow> \<not> fits_signed TYPE('a) (sint a * sint b)) \<and> cfh = cfl \<and> ofl = cfl \<and> ofh = cfl
          \<and> (cfu \<longleftrightarrow> 2 ^ LENGTH('a) \<le> uint a * uint b) \<and> ofu = cfu"
proof -
  let ?m = "2 ^ LENGTH('a) :: int"
  have m: "0 < ?m" by simp
  have hi: "sint (word_of_int (sint a * sint b div ?m) :: 'a word) = sint a * sint b div ?m"
    using sprod_bounds [of a b] by (rule sint_of_int_small)
  have "uint a * uint b < ?m * ?m" by (intro mult_strict_mono) (simp_all add: uint_lt2p)
  then have "uint a * uint b div ?m < ?m" by (intro div_between(2)) (auto intro: order_trans [of _ 0])
  moreover have "0 \<le> uint a * uint b div ?m" by (simp add: pos_imp_zdiv_nonneg_iff)
  ultimately have hu: "uint (word_of_int (uint a * uint b div ?m) :: 'a word) = uint a * uint b div ?m"
    by (simp add: uint_word_of_int mod_pos_pos_trivial)
  have eq: "(word_of_int (sint a * sint b) :: 'a word) = word_of_int (uint a * uint b)" by simp
  have los: "uint (word_of_int (sint a * sint b) :: 'a word) = sint a * sint b mod ?m"
    by (rule uint_word_of_int)
  have lou: "uint (word_of_int (sint a * sint b) :: 'a word) = uint a * uint b mod ?m"
    unfolding eq by (rule uint_word_of_int)
  have carry: "uint a * uint b div ?m \<noteq> 0 \<longleftrightarrow> ?m \<le> uint a * uint b"
    using \<open>0 \<le> uint a * uint b div ?m\<close> pos_imp_zdiv_pos_iff [OF m, of "uint a * uint b"] by linarith
  show ?thesis
    unfolding x86_op_mull_def x86_op_mulh_def x86_op_mulhu_def x86_mul_def Let_def high_half prod.case
      sint_word_of_int_eq_iff [symmetric]
    using hi hu los lou carry div_mult_mod_eq [of "sint a * sint b" ?m] div_mult_mod_eq [of "uint a * uint b" ?m]
    by simp
qed

subsection \<open>The divide micro-operations\<close>

text \<open>The 64-bit unsigned divide and remainder operations divide the 128-bit number
  with high half ra and low half rb by rc exactly; when the divisor is zero or the quotient
  needs more than 64 bits, both answer the divide exception with the invalid flag set.\<close>

theorem div_uop_64:
  "let N = unat (ra i) * 2 ^ 64 + unat (rb i); D = unat (rc i)
   in if rc i \<noteq> 0 \<and> N div D < 2 ^ 64
      then unat (rddata (x86_div div_rem_W64 i)) * D + unat (rddata (x86_rem div_rem_W64 i)) = N
         \<and> unat (rddata (x86_rem div_rem_W64 i)) < D
         \<and> \<not> bit (rdflags (x86_div div_rem_W64 i)) 1 \<and> \<not> bit (rdflags (x86_rem div_rem_W64 i)) 1
      else x86_div div_rem_W64 i = uop_out EXCEPTION_DivideOverflow FLAG_INV
         \<and> x86_rem div_rem_W64 i = uop_out EXCEPTION_DivideOverflow FLAG_INV"
proof -
  let ?N = "unat (ra i) * 2 ^ 64 + unat (rb i)" and ?D = "unat (rc i)"
  show ?thesis
  proof (cases "rc i \<noteq> 0 \<and> ?N div ?D < 2 ^ 64")
    case True
    then have D: "0 < ?D" by (simp add: unat_gt_0)
    have m: "?N mod ?D < ?D" "?N mod ?D < 2 ^ 64"
      using D mod_less_divisor [OF D, of ?N] unsigned_less [of "rc i", where 'a = nat] by simp_all
    have q: "unat (of_nat (?N div ?D) :: W64) = ?N div ?D" "unat (of_nat (?N mod ?D) :: W64) = ?N mod ?D"
      using True m(2) by (simp_all only: unat_of_nat, simp_all)
    show ?thesis
      using True m(1) q div_mult_mod_eq [of ?N ?D]
      by (simp add: x86_div_def x86_rem_def div_rem_W64_correct uop_out_def bit_unsigned_iff bit_genflags Let_def)
  next
    case False
    then show ?thesis
      by (auto simp: x86_div_def x86_rem_def div_rem_W64_correct Let_def)
  qed
qed

end
