(* ===== verification/Uop_Cond.thy ===== *)
theory Uop_Cond
  imports Uop_Mul
begin

text \<open>
  Condition evaluation and the micro-operations that use it in
  \<^verbatim>\<open>src/x86sim/uopimpl.cpp\<close>: select, set, branch and check, with the combined
  compare-and-branch forms.
\<close>

subsection \<open>Conditions\<close>

definition evaluate_cond :: "nat \<Rightarrow> W16 \<Rightarrow> W16 \<Rightarrow> bool" where
  "evaluate_cond evaltype a b =
     (if evaltype = 0 then b AND FLAG_OF \<noteq> 0
      else if evaltype = 1 then b AND FLAG_OF = 0
      else if evaltype = 2 then b AND FLAG_CF \<noteq> 0
      else if evaltype = 3 then b AND FLAG_CF = 0
      else if evaltype = 4 then a AND FLAG_ZF \<noteq> 0
      else if evaltype = 5 then a AND FLAG_ZF = 0
      else if evaltype = 6 then a AND FLAG_ZF \<noteq> 0 \<or> b AND FLAG_CF \<noteq> 0
      else if evaltype = 7 then \<not> (a AND FLAG_ZF \<noteq> 0 \<or> b AND FLAG_CF \<noteq> 0)
      else if evaltype = 8 then a AND FLAG_SF \<noteq> 0
      else if evaltype = 9 then a AND FLAG_SF = 0
      else if evaltype = 10 then a AND FLAG_PF \<noteq> 0
      else if evaltype = 11 then a AND FLAG_PF = 0
      else if evaltype = 12 then (a AND FLAG_SF \<noteq> 0) \<noteq> (b AND FLAG_OF \<noteq> 0)
      else if evaltype = 13 then (\<not> a AND FLAG_SF \<noteq> 0) \<noteq> (b AND FLAG_OF \<noteq> 0)
      else if evaltype = 14 then a AND FLAG_ZF \<noteq> 0 \<or> ((a AND FLAG_SF \<noteq> 0) \<noteq> (b AND FLAG_OF \<noteq> 0))
      else \<not> (a AND FLAG_ZF \<noteq> 0 \<or> ((a AND FLAG_SF \<noteq> 0) \<noteq> (b AND FLAG_OF \<noteq> 0))))"

definition invert_cond :: "nat \<Rightarrow> nat" where
  "invert_cond cond = cond XOR 1"

definition sub_flag_gen_op :: "'a::len word \<Rightarrow> 'a word \<Rightarrow> W16" where
  "sub_flag_gen_op a b =
     (let (rd, cf, ov) = x86_op_sub (SETFLAG_ZF OR SETFLAG_CF OR SETFLAG_OF) a b 0 0 0 0
      in pack_flags cf ov (x86_genflags rd))"

definition and_flag_gen_op :: "'a::len word \<Rightarrow> 'a word \<Rightarrow> W16" where
  "and_flag_gen_op a b = ucast (x86_genflags (a AND b))"

subsection \<open>Select and set\<close>

definition uop_impl_sel :: "'a::len itself \<Rightarrow> nat \<Rightarrow> UopInputs \<Rightarrow> UopResult" where
  "uop_impl_sel T evaltype i =
     (let istrue = evaluate_cond evaltype (rcflags i) (rcflags i)
      in uop_out (x86_merge T (ra i) (if istrue then rb i else ra i)) (if istrue then rbflags i else raflags i))"

definition uop_impl_sel_cmp :: "'m::len itself \<Rightarrow> 'c::len itself \<Rightarrow> nat \<Rightarrow> UopInputs \<Rightarrow> UopResult" where
  "uop_impl_sel_cmp Tmerge Tcompare evaltype i =
     (let flags = ucast (x86_genflags (ucast (rc i) :: 'c word));
          istrue = evaluate_cond evaltype flags flags
      in uop_out (x86_merge Tmerge (ra i) (if istrue then rb i else ra i)) (if istrue then rbflags i else raflags i))"

definition uop_impl_set :: "'a::len itself \<Rightarrow> nat \<Rightarrow> UopInputs \<Rightarrow> UopResult" where
  "uop_impl_set T evaltype i =
     (let istrue = evaluate_cond evaltype (raflags i) (rbflags i)
      in uop_out (x86_merge T (rc i) (if istrue then 1 else 0)) (if istrue then FLAG_CF else 0))"

definition uop_impl_set_and :: "'m::len itself \<Rightarrow> 'c::len itself \<Rightarrow> nat \<Rightarrow> UopInputs \<Rightarrow> UopResult" where
  "uop_impl_set_and Tmerge Tcompare evaltype i =
     (let flags = and_flag_gen_op (ucast (ra i) :: 'c word) (ucast (rb i));
          istrue = evaluate_cond evaltype flags flags
      in uop_out (x86_merge Tmerge (rc i) (if istrue then 1 else 0)) (if istrue then FLAG_CF else 0))"

definition uop_impl_set_sub :: "'m::len itself \<Rightarrow> 'c::len itself \<Rightarrow> nat \<Rightarrow> UopInputs \<Rightarrow> UopResult" where
  "uop_impl_set_sub Tmerge Tcompare evaltype i =
     (let flags = sub_flag_gen_op (ucast (ra i) :: 'c word) (ucast (rb i));
          istrue = evaluate_cond evaltype flags flags
      in uop_out (x86_merge Tmerge (rc i) (if istrue then 1 else 0)) (if istrue then FLAG_CF else 0))"

subsection \<open>Branches\<close>

definition branch_out :: "bool \<Rightarrow> bool \<Rightarrow> W16 \<Rightarrow> UopInputs \<Rightarrow> UopResult" where
  "branch_out excepting taken flags i =
     (let out = uop_out (if taken then riptaken i else ripseq i) (flags OR (if taken then FLAG_BR_TK else 0))
      in if excepting \<and> \<not> taken
         then out\<lparr>rddata := EXCEPTION_BranchMispredict, rdflags := rdflags out OR FLAG_INV\<rparr>
         else out)"

definition uop_impl_condbranch :: "nat \<Rightarrow> bool \<Rightarrow> UopInputs \<Rightarrow> UopResult" where
  "uop_impl_condbranch evaltype excepting i =
     branch_out excepting (evaluate_cond evaltype (raflags i) (rbflags i)) 0 i"

definition uop_impl_alu_and_condbranch ::
  "('a::len word \<Rightarrow> 'a word \<Rightarrow> W16) \<Rightarrow> nat \<Rightarrow> bool \<Rightarrow> UopInputs \<Rightarrow> UopResult" where
  "uop_impl_alu_and_condbranch f evaltype excepting i =
     (let flags = f (ucast (ra i)) (ucast (rb i))
      in branch_out excepting (evaluate_cond evaltype flags flags) flags i)"

definition uop_impl_jmp :: "UopInputs \<Rightarrow> UopResult" where
  "uop_impl_jmp i = (let taken = riptaken i = ra i in uop_out (ra i) (if taken then FLAG_BR_TK else 0))"

definition uop_impl_jmp_ex :: "UopInputs \<Rightarrow> UopResult" where
  "uop_impl_jmp_ex i =
     (let taken = riptaken i = ra i;
          out = uop_out (ra i) (if taken then FLAG_BR_TK else 0)
      in if \<not> taken then out\<lparr>rddata := EXCEPTION_BranchMispredict, rdflags := rdflags out OR FLAG_INV\<rparr> else out)"

definition uop_impl_bru :: "UopInputs \<Rightarrow> UopResult" where
  "uop_impl_bru i = uop_out (riptaken i) FLAG_BR_TK"

definition uop_impl_brp :: "UopInputs \<Rightarrow> UopResult" where
  "uop_impl_brp i = uop_out (riptaken i) FLAG_BR_TK"

subsection \<open>Checks\<close>

definition check_out :: "bool \<Rightarrow> UopInputs \<Rightarrow> UopResult" where
  "check_out passed i = uop_out (if passed then 0 else rc i) (if passed then 0 else FLAG_INV)"

definition uop_impl_chk :: "nat \<Rightarrow> UopInputs \<Rightarrow> UopResult" where
  "uop_impl_chk evaltype i = check_out (evaluate_cond evaltype (raflags i) (rbflags i)) i"

definition uop_impl_chk_sub :: "'a::len itself \<Rightarrow> nat \<Rightarrow> UopInputs \<Rightarrow> UopResult" where
  "uop_impl_chk_sub T evaltype i =
     (let flags = sub_flag_gen_op (ucast (ra i) :: 'a word) (ucast (rb i))
      in check_out (evaluate_cond evaltype flags flags) i)"

definition uop_impl_chk_and :: "'a::len itself \<Rightarrow> nat \<Rightarrow> UopInputs \<Rightarrow> UopResult" where
  "uop_impl_chk_and T evaltype i =
     (let flags = and_flag_gen_op (ucast (ra i) :: 'a word) (ucast (rb i))
      in check_out (evaluate_cond evaltype flags flags) i)"

subsection \<open>What the conditions mean after a compare\<close>

text \<open>The relation between the operands of a compare that each x86 condition stands for.\<close>

definition cond_holds :: "nat \<Rightarrow> 'a::len word \<Rightarrow> 'a word \<Rightarrow> bool" where
  "cond_holds c a b =
     ([\<not> fits_signed TYPE('a) (sint a - sint b), fits_signed TYPE('a) (sint a - sint b),
       a < b, b \<le> a, a = b, a \<noteq> b, a \<le> b, b < a,
       sint (a - b) < 0, 0 \<le> sint (a - b), even_parity (a - b), \<not> even_parity (a - b),
       sint a < sint b, sint b \<le> sint a, sint a \<le> sint b, sint b < sint a] ! c)"

lemma bit_sub_flags:
  "bit (sub_flag_gen_op a b) n \<longleftrightarrow>
     (n = 11 \<and> \<not> fits_signed TYPE('a) (sint a - sint b)) \<or> (n = 0 \<and> a < b)
     \<or> (n = 7 \<and> bit (a - b) (LENGTH('a) - 1)) \<or> (n = 6 \<and> a = b) \<or> (n = 2 \<and> even_parity (a - b))"
  for a b :: "'a::len word"
  using setflag_all [OF refl]
  by (simp add: sub_flag_gen_op_def x86_op_sub_def aluop2_sub Let_def bit_pack_flags bit_genflags word_less_def)

text \<open>The sign of the difference, corrected by the overflow, is the signed order.\<close>

lemma sign_overflow_less:
  "bit (a - b) (LENGTH('a) - 1) \<noteq> (\<not> fits_signed TYPE('a) (sint a - sint b)) \<longleftrightarrow> sint a < sint b"
  for a b :: "'a::len word"
proof -
  let ?h = "2 ^ (LENGTH('a) - 1) :: int" and ?D = "sint a - sint b"
  have D: "- (2 * ?h) \<le> ?D" "?D < 2 * ?h"
    using sint_ge [of a] sint_lt [of a] sint_ge [of b] sint_lt [of b] by simp_all
  have "sint (a - b) = (?D + ?h) mod (2 * ?h) - ?h"
    by (simp add: sint_word_ariths(2) signed_take_bit_eq_take_bit_shift take_bit_eq_mod algebra_simps
      two_power_length)
  moreover have "(?D + ?h) mod (2 * ?h) =
      (if ?D + ?h < 0 then ?D + ?h + 2 * ?h else if ?D + ?h < 2 * ?h then ?D + ?h else ?D + ?h - 2 * ?h)"
    using D mod_pos_pos_trivial [of "?D + ?h" "2 * ?h"] mod_pos_pos_trivial [of "?D + ?h + 2 * ?h" "2 * ?h"]
      mod_pos_pos_trivial [of "?D + ?h - 2 * ?h" "2 * ?h"] minus_mod_self2 [of "?D + ?h" "2 * ?h"]
      mod_add_self2 [of "?D + ?h" "2 * ?h"]
    by auto
  ultimately have S: "sint (a - b) = (if ?D + ?h < 0 then ?D + 2 * ?h else if ?D + ?h < 2 * ?h then ?D else ?D - 2 * ?h)"
    by simp
  show ?thesis
    unfolding sint_neg_iff [symmetric] S fits_signed_def using D by auto
qed

lemma cond_after_sub:
  fixes a b :: "'a::len word"
  assumes "c < 16"
  shows "evaluate_cond c (sub_flag_gen_op a b) (sub_flag_gen_op a b) \<longleftrightarrow> cond_holds c a b"
proof -
  let ?f = "sub_flag_gen_op a b"
  have flags: "?f AND FLAG_OF = 0 \<longleftrightarrow> fits_signed TYPE('a) (sint a - sint b)" "?f AND FLAG_CF = 0 \<longleftrightarrow> b \<le> a"
    "?f AND FLAG_ZF = 0 \<longleftrightarrow> a \<noteq> b" "?f AND FLAG_SF = 0 \<longleftrightarrow> 0 \<le> sint (a - b)"
    "?f AND FLAG_PF = 0 \<longleftrightarrow> \<not> even_parity (a - b)"
    by (simp_all add: flag_test bit_sub_flags not_less [symmetric] sint_neg_iff)
  have le: "sint a \<le> sint b \<longleftrightarrow> a = b \<or> sint a < sint b" "sint b < sint a \<longleftrightarrow> a \<noteq> b \<and> \<not> sint a < sint b"
    by (auto simp: le_less intro: signed_word_eqI)
  have less: "(sint (a - b) < 0) = fits_signed TYPE('a) (sint a - sint b) \<longleftrightarrow> sint a < sint b"
    using sign_overflow_less [of a b] by (auto simp: sint_neg_iff)
  have "c \<in> {0, 1, 2, 3, 4, 5, 6, 7, 8, 9, 10, 11, 12, 13, 14, 15}"
    using assms by (auto simp: numeral_eq_Suc less_Suc_eq)
  then show ?thesis
    by (elim insertE emptyE) (use less in \<open>auto simp: evaluate_cond_def cond_holds_def flags le\<close>)
qed

lemma out_simps [simp]:
  "rddata (uop_out d f) = d" "rdflags (uop_out d f) = f" "addr (uop_out d f) = 0"
  by (simp_all add: uop_out_def)

lemma branch_taken_bit:
  "bit (rdflags (branch_out exc taken (sub_flag_gen_op a b) i)) 15 \<longleftrightarrow> taken"
  "bit (rdflags (branch_out exc taken (sub_flag_gen_op a b) i)) 1 \<longleftrightarrow> exc \<and> \<not> taken"
  by (auto simp: branch_out_def Let_def bit_or_iff bit_flag bit_sub_flags)

text \<open>Claim C10. The fused compare micro-operations decide by the x86 meaning of their
  condition at every operand width: compare-and-branch goes to the taken or the sequential
  target (its excepting form raises a branch mispredict instead of falling through), and marks
  the outcome in its flags; compare-and-set writes the truth value into the merged register;
  compare-and-check passes or raises the exception in rc.\<close>

theorem fused_compare_correct:
  fixes a b :: "'a::len word"
  assumes "c < 16" "a = ucast (ra i)" "b = ucast (rb i)"
  shows "(let out = uop_impl_alu_and_condbranch (sub_flag_gen_op :: 'a word \<Rightarrow> _) c excepting i
          in rddata out = (if cond_holds c a b then riptaken i
                           else if excepting then EXCEPTION_BranchMispredict else ripseq i)
           \<and> (bit (rdflags out) 15 \<longleftrightarrow> cond_holds c a b) \<and> (bit (rdflags out) 1 \<longleftrightarrow> excepting \<and> \<not> cond_holds c a b))
      \<and> uop_impl_set_sub TYPE('m::len) TYPE('a) c i =
          uop_out (x86_merge TYPE('m) (rc i) (of_bool (cond_holds c a b))) (of_bool (cond_holds c a b))
      \<and> uop_impl_chk_sub TYPE('a) c i = (if cond_holds c a b then uop_out 0 0 else uop_out (rc i) FLAG_INV)"
proof (intro conjI)
  note cond = cond_after_sub [OF assms(1), of a b, unfolded assms(2,3)]
  show "let out = uop_impl_alu_and_condbranch (sub_flag_gen_op :: 'a word \<Rightarrow> _) c excepting i
         in rddata out = (if cond_holds c a b then riptaken i
                          else if excepting then EXCEPTION_BranchMispredict else ripseq i)
          \<and> (bit (rdflags out) 15 \<longleftrightarrow> cond_holds c a b) \<and> (bit (rdflags out) 1 \<longleftrightarrow> excepting \<and> \<not> cond_holds c a b)"
    by (simp add: uop_impl_alu_and_condbranch_def cond assms(2,3) branch_taken_bit branch_taken_bit(2) [simplified] Let_def)
      (simp add: branch_out_def Let_def)
  show "uop_impl_set_sub TYPE('m::len) TYPE('a) c i =
         uop_out (x86_merge TYPE('m) (rc i) (of_bool (cond_holds c a b))) (of_bool (cond_holds c a b))"
    by (simp add: uop_impl_set_sub_def cond assms(2,3) FLAG_CF_def Let_def)
  show "uop_impl_chk_sub TYPE('a) c i = (if cond_holds c a b then uop_out 0 0 else uop_out (rc i) FLAG_INV)"
    by (simp add: uop_impl_chk_sub_def check_out_def cond assms(2,3) Let_def)
qed

definition demo_inputs :: "W64 \<Rightarrow> W64 \<Rightarrow> UopInputs" where
  "demo_inputs a b =
     \<lparr>ra = a, rb = b, rc = 9, raflags = 0, rbflags = 0, rcflags = 0, riptaken = 0x400000, ripseq = 0x401000\<rparr>"

theorem fused_compare_correct_witness:
  "rddata (uop_impl_alu_and_condbranch (sub_flag_gen_op :: W8 \<Rightarrow> _) 12 False (demo_inputs 0xff 1)) = 0x400000 \<and>
   rddata (uop_impl_alu_and_condbranch (sub_flag_gen_op :: W16 \<Rightarrow> _) 12 True (demo_inputs 0xff 1)) =
     EXCEPTION_BranchMispredict"
proof -
  have "cond_holds 12 (0xff :: W8) 1" "\<not> cond_holds 12 (0xff :: W16) 1"
    by (simp_all add: cond_holds_def)
  then show ?thesis
    using fused_compare_correct [where 'm = 8, of 12 "0xff :: W8" "demo_inputs 0xff 1" 1 False]
      fused_compare_correct [where 'm = 8, of 12 "0xff :: W16" "demo_inputs 0xff 1" 1 True]
    by (simp add: demo_inputs_def Let_def)
qed

text \<open>Flipping bit zero of a condition code inverts the condition, for all flags.\<close>

theorem invert_cond_negates:
  assumes "c < 16"
  shows "invert_cond c < 16 \<and> evaluate_cond (invert_cond c) a b = (\<not> evaluate_cond c a b)"
proof -
  have "c \<in> {0, 1, 2, 3, 4, 5, 6, 7, 8, 9, 10, 11, 12, 13, 14, 15}"
    using assms by (auto simp: numeral_eq_Suc less_Suc_eq)
  then show ?thesis
    by (elim insertE emptyE) (simp_all add: invert_cond_def evaluate_cond_def)
qed

theorem invert_cond_negates_witness: "evaluate_cond (invert_cond 12) 0x80 0 = (\<not> evaluate_cond 12 0x80 0)"
  using invert_cond_negates [of 12 "0x80" 0] by simp

end
