(* ===== verification/Uop_Shift.thy ===== *)
theory Uop_Shift
  imports Uop_Alu
begin

text \<open>
  Shift, rotate, bit-field and byte-permute micro-operations of
  \<^verbatim>\<open>src/x86sim/uopimpl.cpp\<close>.
\<close>

subsection \<open>Shifts and rotates\<close>

definition x86_shift_count :: "'a::len word \<Rightarrow> nat" where
  "x86_shift_count b = unat ((ucast b :: W8) AND (if LENGTH('a) = 64 then 0x3f else 0x1f))"

definition flag_bit :: "W16 \<Rightarrow> W16 \<Rightarrow> bool" where
  "flag_bit flags flag \<longleftrightarrow> flags AND flag \<noteq> 0"

definition high_bit :: "'a::len word \<Rightarrow> bool" where
  "high_bit v \<longleftrightarrow> drop_bit (LENGTH('a) - 1) v AND 1 \<noteq> 0"

record 'u ShiftResult =
  sh_value :: 'u
  sh_count :: nat
  sh_cf :: bool
  sh_of :: bool

type_synonym 'a shiftfunc = "'a word \<Rightarrow> 'a word \<Rightarrow> bool \<Rightarrow> 'a word ShiftResult"

definition ShiftLeftOp :: "'a::len shiftfunc" where
  "ShiftLeftOp v b carry =
     (let width = LENGTH('a); count = x86_shift_count b
      in if count = 0 then \<lparr>sh_value = v, sh_count = count, sh_cf = False, sh_of = False\<rparr>
         else let result = (if count < width then push_bit count v else 0);
                  cf = (if count \<le> width then drop_bit (width - count) v AND 1 \<noteq> 0 else False)
              in \<lparr>sh_value = result, sh_count = count, sh_cf = cf,
                  sh_of = (if count = 1 then high_bit result \<noteq> cf else False)\<rparr>)"

definition ShiftRightOp :: "'a::len shiftfunc" where
  "ShiftRightOp v b carry =
     (let width = LENGTH('a); count = x86_shift_count b
      in if count = 0 then \<lparr>sh_value = v, sh_count = count, sh_cf = False, sh_of = False\<rparr>
         else \<lparr>sh_value = (if count < width then drop_bit count v else 0), sh_count = count,
               sh_cf = (if count \<le> width then drop_bit (count - 1) v AND 1 \<noteq> 0 else False),
               sh_of = (if count = 1 then high_bit v else False)\<rparr>)"

definition ShiftArithmeticRightOp :: "'a::len shiftfunc" where
  "ShiftArithmeticRightOp v b carry =
     (let width = LENGTH('a); count = x86_shift_count b
      in if count = 0 then \<lparr>sh_value = v, sh_count = count, sh_cf = False, sh_of = False\<rparr>
         else let sign = high_bit v;
                  result = (if count \<ge> width then (if sign then NOT 0 else 0)
                            else if sign then drop_bit count v OR push_bit (width - count) (NOT 0)
                            else drop_bit count v)
              in \<lparr>sh_value = result, sh_count = count,
                  sh_cf = (if count < width then drop_bit (count - 1) v AND 1 \<noteq> 0 else sign), sh_of = False\<rparr>)"

definition RotateLeftOp :: "'a::len shiftfunc" where
  "RotateLeftOp v b carry =
     (let width = LENGTH('a); count = x86_shift_count b mod width
      in if count = 0 then \<lparr>sh_value = v, sh_count = count, sh_cf = False, sh_of = False\<rparr>
         else let result = word_rotl count v; cf = result AND 1 \<noteq> 0
              in \<lparr>sh_value = result, sh_count = count, sh_cf = cf,
                  sh_of = (if count = 1 then high_bit result \<noteq> cf else False)\<rparr>)"

definition RotateRightOp :: "'a::len shiftfunc" where
  "RotateRightOp v b carry =
     (let width = LENGTH('a); count = x86_shift_count b mod width
      in if count = 0 then \<lparr>sh_value = v, sh_count = count, sh_cf = False, sh_of = False\<rparr>
         else let result = word_rotr count v
              in \<lparr>sh_value = result, sh_count = count, sh_cf = high_bit result,
                  sh_of = (if count = 1
                           then (drop_bit (width - 1) result XOR drop_bit (width - 2) result) AND 1 \<noteq> 0 else False)\<rparr>)"

text \<open>The two loops through the carry, one round per bit of the count.\<close>

fun rotcl_loop :: "nat \<Rightarrow> 'a::len word \<Rightarrow> bool \<Rightarrow> 'a word \<times> bool" where
  "rotcl_loop 0 result cf = (result, cf)"
| "rotcl_loop (Suc n) result cf =
     (let nextcarry = high_bit result in rotcl_loop n (push_bit 1 result OR of_bool cf) nextcarry)"

fun rotcr_loop :: "nat \<Rightarrow> 'a::len word \<Rightarrow> bool \<Rightarrow> 'a word \<times> bool" where
  "rotcr_loop 0 result cf = (result, cf)"
| "rotcr_loop (Suc n) result cf =
     (let nextcarry = result AND 1 \<noteq> 0
      in rotcr_loop n (drop_bit 1 result OR push_bit (LENGTH('a) - 1) (of_bool cf)) nextcarry)"

definition rotc_count :: "'a::len word \<Rightarrow> nat" where
  "rotc_count b =
     (let count = x86_shift_count b in if LENGTH('a) div 8 < 4 then count mod (LENGTH('a) + 1) else count)"

definition RotateCarryLeftOp :: "'a::len shiftfunc" where
  "RotateCarryLeftOp v b carry =
     (let count = rotc_count b
      in if count = 0 then \<lparr>sh_value = v, sh_count = count, sh_cf = False, sh_of = False\<rparr>
         else let (result, cf) = rotcl_loop count v carry
              in \<lparr>sh_value = result, sh_count = count, sh_cf = cf,
                  sh_of = (if count = 1 then high_bit result \<noteq> cf else False)\<rparr>)"

definition RotateCarryRightOp :: "'a::len shiftfunc" where
  "RotateCarryRightOp v b carry =
     (let width = LENGTH('a); count = rotc_count b
      in if count = 0 then \<lparr>sh_value = v, sh_count = count, sh_cf = False, sh_of = False\<rparr>
         else let (result, cf) = rotcr_loop count v carry
              in \<lparr>sh_value = result, sh_count = count, sh_cf = cf,
                  sh_of = (if count = 1
                           then (drop_bit (width - 1) result XOR drop_bit (width - 2) result) AND 1 \<noteq> 0 else False)\<rparr>)"

definition shiftop :: "'a::len shiftfunc \<Rightarrow> W8 \<Rightarrow> UopInputs \<Rightarrow> UopResult" where
  "shiftop f genflags i =
     (let result = f (ucast (ra i)) (ucast (rb i)) (flag_bit (rcflags i) FLAG_CF);
          rt = sh_value result;
          cf = genflags AND SETFLAG_CF \<noteq> 0 \<and> sh_cf result;
          ov = genflags AND SETFLAG_OF \<noteq> 0 \<and> sh_of result;
          allflags = pack_flags cf ov (x86_genflags rt)
      in uop_out (x86_merge TYPE('a) (ra i) (ucast rt)) (if sh_count result = 0 then rcflags i else allflags))"

subsection \<open>Bit fields\<close>

text \<open>A field that reaches past bit 63 (\<open>ms + mc > 64\<close>) makes the source shift by
  at least 64, which is undefined; the statements below exclude it.\<close>

definition exp_op_mask :: "'a::len itself \<Rightarrow> bool \<Rightarrow> bool \<Rightarrow> UopInputs \<Rightarrow> UopResult" where
  "exp_op_mask T ZEROEXT SIGNEXT i =
     (let shmask = bitmask 6;
          shmask = shmask OR push_bit 6 shmask OR push_bit 12 shmask;
          c = rc i AND shmask;
          ms = unat (bits c 0 6); mc = unat (bits c 6 6); ds = unat (bits c 12 6);
          M = ucast (x86_ror (ucast (bitmask mc) :: 'a word) ms);
          rd = ra i AND NOT M OR ucast (x86_ror (ucast (rb i) :: 'a word) ds) AND M;
          rd = (if ZEROEXT then rd AND bitmask (ms + mc)
                else if SIGNEXT then signext64 rd (ms + mc) else rd);
          flags = ucast (x86_genflags (ucast rd :: 'a word)) :: W16;
          sf = bit_macro (ucast flags) (lg 0x80) \<noteq> 0;
          flags = flags OR push_bit (lg 0x001) (of_bool (bit_macro (ucast (raflags i)) (lg 0x001) \<noteq> 0));
          flags = flags OR push_bit (lg 0x800) (of_bool (sf \<noteq> (bit_macro (ucast (raflags i)) (lg 0x800) \<noteq> 0)))
      in uop_out (x86_merge TYPE('a) (ra i) rd) flags)"

text \<open>The packed control word; its bits above 18 are never initialised and never read.\<close>

definition MaskControlInfo :: "nat \<Rightarrow> nat \<Rightarrow> nat \<Rightarrow> W32" where
  "MaskControlInfo ms mc ds =
     take_bit 6 (of_nat ms) OR push_bit 6 (take_bit 6 (of_nat mc)) OR push_bit 12 (take_bit 6 (of_nat ds))"

text \<open>The two micro-operations \<^verbatim>\<open>shrd\<close> and \<^verbatim>\<open>shld\<close> with an immediate count are decoded into
  (\<^verbatim>\<open>decode-complex.cpp\<close>).\<close>

definition double_shift_uops :: "'a::len itself \<Rightarrow> bool \<Rightarrow> W64 \<Rightarrow> W64 \<Rightarrow> nat \<Rightarrow> UopResult" where
  "double_shift_uops T left rdv rav imm =
     (let genflags = SETFLAG_ZF OR SETFLAG_CF OR SETFLAG_OF;
          t = shiftop ((if left then ShiftLeftOp else ShiftRightOp) :: 'a shiftfunc) genflags
                \<lparr>ra = rdv, rb = of_nat imm, rc = 0, raflags = 0, rbflags = 0, rcflags = 0, riptaken = 0, ripseq = 0\<rparr>;
          maskctl = (if left then MaskControlInfo 0 imm (LENGTH('a) - imm) else MaskControlInfo imm imm imm)
      in exp_op_mask TYPE('a) False False
           \<lparr>ra = rddata t, rb = rav, rc = ucast maskctl, raflags = rdflags t, rbflags = 0, rcflags = 0,
            riptaken = 0, ripseq = 0\<rparr>)"

subsection \<open>Byte permutation\<close>

definition byte_of :: "W64 \<Rightarrow> nat \<Rightarrow> W8" where
  "byte_of w i = ucast (drop_bit (8 * i) w)"

definition w64_of_bytes :: "W8 list \<Rightarrow> W64" where
  "w64_of_bytes bs = foldr (\<lambda>b w. push_bit 8 w OR ucast b) bs 0"

definition uop_impl_permb :: "UopInputs \<Rightarrow> UopResult" where
  "uop_impl_permb i =
     (let ab = map (byte_of (ra i)) [0..<8] @ map (byte_of (rb i)) [0..<8];
          d = map (\<lambda>k. ab ! unat (bits (rc i) (k * 4) 4)) [0..<8];
          data = w64_of_bytes d
      in uop_out data (ucast (x86_genflags data)))"


subsection \<open>Shifts are multiplication and division by powers of two\<close>

lemma high_bit_iff: "high_bit v \<longleftrightarrow> bit v (LENGTH('a) - 1)" for v :: "'a::len word"
  by (simp add: high_bit_def and_one_bit)

lemma push_bit_word_beyond: "LENGTH('a) \<le> n \<Longrightarrow> push_bit n v = 0" for v :: "'a::len word"
  by (rule bit_word_eqI) (simp add: bit_push_bit_iff)

lemma drop_bit_word_beyond: "LENGTH('a) \<le> n \<Longrightarrow> drop_bit n v = 0" for v :: "'a::len word"
  by (rule bit_word_eqI) (simp add: bit_drop_bit_eq bit_imp_le_length)

lemma shl_exact:
  "sh_value (ShiftLeftOp v b c) = push_bit (x86_shift_count b) v"
  "x86_shift_count b \<noteq> 0 \<Longrightarrow>
     sh_cf (ShiftLeftOp v b c) \<longleftrightarrow> x86_shift_count b \<le> LENGTH('a) \<and> bit v (LENGTH('a) - x86_shift_count b)"
  for v b :: "'a::len word"
  by (simp_all add: ShiftLeftOp_def Let_def and_one_bit push_bit_word_beyond)

lemma shr_exact:
  "sh_value (ShiftRightOp v b c) = drop_bit (x86_shift_count b) v"
  "x86_shift_count b \<noteq> 0 \<Longrightarrow> sh_cf (ShiftRightOp v b c) \<longleftrightarrow> bit v (x86_shift_count b - 1)"
  for v b :: "'a::len word"
  by (auto simp: ShiftRightOp_def Let_def and_one_bit drop_bit_word_beyond dest: bit_imp_le_length)

lemma sint_signed_drop_bit_div: "sint (signed_drop_bit n w) = sint w div 2 ^ n" for w :: "'a::len word"
  by (simp add: sint_signed_drop_bit_eq drop_bit_eq_div)

lemma sar_exact:
  "sh_value (ShiftArithmeticRightOp v b c) = signed_drop_bit (x86_shift_count b) v"
  "x86_shift_count b \<noteq> 0 \<Longrightarrow>
     sh_cf (ShiftArithmeticRightOp v b c) \<longleftrightarrow> bit (signed_drop_bit (x86_shift_count b - 1) v) 0"
  for v b :: "'a::len word"
proof -
  let ?n = "x86_shift_count b"
  show "sh_value (ShiftArithmeticRightOp v b c) = signed_drop_bit ?n v"
    by (rule bit_word_eqI)
      (auto simp: ShiftArithmeticRightOp_def Let_def high_bit_iff bit_signed_drop_bit_iff bit_simps not_le
        dest: bit_imp_le_length)
  show "?n \<noteq> 0 \<Longrightarrow> sh_cf (ShiftArithmeticRightOp v b c) \<longleftrightarrow> bit (signed_drop_bit (?n - 1) v) 0"
    by (cases "?n = LENGTH('a)") (auto simp: ShiftArithmeticRightOp_def Let_def high_bit_iff
        bit_signed_drop_bit_iff and_one_bit dest: bit_imp_le_length)
qed

lemma uint_drop_bit_div: "uint (drop_bit n w) = uint w div 2 ^ n" for w :: "'a::len word"
proof -
  have "take_bit LENGTH('a) (uint w) = uint w" by (rule take_bit_int_eq_self) auto
  then show ?thesis by (simp add: unsigned_drop_bit_eq flip: drop_bit_eq_div)
qed

lemma bit_word_uint: "bit w n \<longleftrightarrow> odd (uint w div 2 ^ n)" for w :: "'a::len word"
proof -
  have "bit w n \<longleftrightarrow> bit (uint w) n" by (auto simp: bit_uint_iff dest: bit_imp_le_length)
  then show ?thesis by (simp only: bit_iff_odd [of "uint w"])
qed

lemma bit_0_sdrop: "bit (signed_drop_bit n w) 0 \<longleftrightarrow> odd (sint w div 2 ^ n)" for w :: "'a::len word"
proof -
  have "bit (signed_drop_bit n w) 0 \<longleftrightarrow> bit (sint (signed_drop_bit n w)) 0" by (simp only: bit_sint_iff) auto
  then show ?thesis by (simp only: bit_0 sint_signed_drop_bit_div)
qed

lemma shl_carry:
  fixes v :: "'a::len word"
  assumes "n \<noteq> 0"
  shows "n \<le> LENGTH('a) \<and> bit v (LENGTH('a) - n) \<longleftrightarrow> odd (uint v * 2 ^ n div 2 ^ LENGTH('a))"
proof (cases "n \<le> LENGTH('a)")
  case True
  then have "(2 :: int) ^ LENGTH('a) = 2 ^ (LENGTH('a) - n) * 2 ^ n" by (simp flip: power_add)
  then show ?thesis using True by (simp add: bit_word_uint)
next
  case False
  then have "(2 :: int) ^ n = 2 ^ (n - LENGTH('a)) * 2 ^ LENGTH('a)" by (simp flip: power_add)
  then have "uint v * 2 ^ n div 2 ^ LENGTH('a) = uint v * 2 ^ (n - LENGTH('a))" by (simp add: mult.assoc [symmetric])
  then show ?thesis using False by simp
qed

text \<open>Claim C23. At every width and for every masked count, also counts beyond the width of a
  narrow operand: shl multiplies by a power of two modulo the width, shr divides the unsigned
  and sar the signed value rounding down, and for a nonzero count CF is the last bit shifted
  out, which for sar is the lowest bit of the quotient one step earlier.\<close>

theorem shift_exact:
  fixes v b :: "'a::len word"
  assumes "n = x86_shift_count b"
  shows "sh_value (ShiftLeftOp v b c) = word_of_int (uint v * 2 ^ n)
    \<and> uint (sh_value (ShiftRightOp v b c)) = uint v div 2 ^ n
    \<and> sint (sh_value (ShiftArithmeticRightOp v b c)) = sint v div 2 ^ n
    \<and> (n \<noteq> 0 \<longrightarrow>
        (sh_cf (ShiftLeftOp v b c) \<longleftrightarrow> odd (uint v * 2 ^ n div 2 ^ LENGTH('a)))
      \<and> (sh_cf (ShiftRightOp v b c) \<longleftrightarrow> odd (uint v div 2 ^ (n - 1)))
      \<and> (sh_cf (ShiftArithmeticRightOp v b c) \<longleftrightarrow> odd (sint v div 2 ^ (n - 1))))"
proof -
  have "push_bit n v = word_of_int (uint v * 2 ^ n)" by (simp add: push_bit_eq_mult)
  then show ?thesis
    using shl_carry [of n v] bit_word_uint [of v "n - 1"]
    by (simp add: assms shl_exact shr_exact sar_exact uint_drop_bit_div sint_signed_drop_bit_div
      bit_0_sdrop [unfolded bit_0] bit_0_sdrop)
qed

theorem shift_exact_witness:
  "sint (sh_value (ShiftArithmeticRightOp (0x81 :: W8) 9 False)) = -1 \<and>
   uint (sh_value (ShiftRightOp (0x81 :: W8) 9 False)) = 0 \<and> sh_cf (ShiftLeftOp (0x81 :: W8) 1 False)"
proof -
  have "x86_shift_count (9 :: W8) = 9" "x86_shift_count (1 :: W8) = 1"
    by (simp_all add: x86_shift_count_def)
  then show ?thesis
    using shift_exact [of 9 "9 :: W8" "0x81" False] shift_exact [of 1 "1 :: W8" "0x81" False] by simp
qed

subsection \<open>Rotates through the carry\<close>

text \<open>One round of each loop, and the operand with its carry on top as a list of bits.\<close>

definition rcl1 :: "'a::len word \<times> bool \<Rightarrow> 'a word \<times> bool" where
  "rcl1 = (\<lambda>(v, c). (push_bit 1 v OR of_bool c, high_bit v))"

definition rcr1 :: "'a::len word \<times> bool \<Rightarrow> 'a word \<times> bool" where
  "rcr1 = (\<lambda>(v, c). (drop_bit 1 v OR push_bit (LENGTH('a) - 1) (of_bool c), v AND 1 \<noteq> 0))"

definition carry_bits :: "'a::len word \<times> bool \<Rightarrow> bool list" where
  "carry_bits = (\<lambda>(v, c). map (bit v) [0..<LENGTH('a)] @ [c])"

lemma rotcl_loop_iter: "rotcl_loop n v c = (rcl1 ^^ n) (v, c)"
  by (induction n arbitrary: v c) (simp_all add: rcl1_def Let_def funpow_swap1)

lemma rotcr_loop_iter: "rotcr_loop n v c = (rcr1 ^^ n) (v, c)"
  by (induction n arbitrary: v c) (simp_all add: rcr1_def Let_def funpow_swap1)

lemma bit_rcl:
  "bit (push_bit 1 v OR of_bool c) n \<longleftrightarrow> n < LENGTH('a) \<and> (if n = 0 then c else bit v (n - 1))"
  for v :: "'a::len word"
  unfolding bit_or_iff bit_push_bit_iff bit_of_bool_iff by (cases n) auto

lemma rcr1_rcl1: "rcr1 (rcl1 x) = x" for x :: "'a::len word \<times> bool"
proof -
  obtain v c where x: "x = (v, c)" by (cases x)
  have "drop_bit 1 (push_bit 1 v OR of_bool c) OR push_bit (LENGTH('a) - 1) (of_bool (high_bit v)) = v"
  proof (rule bit_word_eqI)
    fix n assume "n < LENGTH('a)"
    then show "bit (drop_bit 1 (push_bit 1 v OR of_bool c) OR push_bit (LENGTH('a) - 1) (of_bool (high_bit v))) n
        \<longleftrightarrow> bit v n"
      unfolding bit_or_iff [of "drop_bit _ _"] bit_drop_bit_eq o_def bit_rcl bit_push_bit_iff [of "LENGTH('a) - 1"]
        bit_of_bool_iff high_bit_iff
      by (cases "n = LENGTH('a) - 1") auto
  qed
  moreover have "(push_bit 1 v OR of_bool c) AND 1 \<noteq> 0 \<longleftrightarrow> c"
    using and_one_bit [of 0 "push_bit 1 v OR of_bool c"] unfolding bit_rcl by simp
  ultimately show ?thesis by (simp only: x rcl1_def rcr1_def prod.case)
qed

lemma carry_bits_rcl1: "carry_bits (rcl1 x) = last (carry_bits x) # butlast (carry_bits x)"
  for x :: "'a::len word \<times> bool"
proof -
  obtain v c where x: "x = (v, c)" by (cases x)
  define w where "w = push_bit 1 v OR of_bool c"
  have w: "bit w n \<longleftrightarrow> n < LENGTH('a) \<and> (if n = 0 then c else bit v (n - 1))" for n
    unfolding w_def by (rule bit_rcl)
  have "map (bit w) [0..<LENGTH('a)] @ [high_bit v] = c # map (bit v) [0..<LENGTH('a)]"
  proof (rule nth_equalityI)
    fix i assume "i < length (map (bit w) [0..<LENGTH('a)] @ [high_bit v])"
    then have "i < LENGTH('a) \<or> i = LENGTH('a)" by auto
    then show "(map (bit w) [0..<LENGTH('a)] @ [high_bit v]) ! i = (c # map (bit v) [0..<LENGTH('a)]) ! i"
      unfolding high_bit_iff by (auto simp: nth_append nth_Cons' w)
  qed simp
  then show ?thesis
    by (simp only: x rcl1_def carry_bits_def prod.case last_snoc butlast_snoc w_def)
qed

lemma carry_bits_inj: "carry_bits x = carry_bits y \<Longrightarrow> x = y" for x y :: "'a::len word \<times> bool"
  by (cases x; cases y) (auto simp: carry_bits_def intro!: bit_word_eqI)

lemma rotate1_carry_bits: "rotate1 (carry_bits (rcl1 x)) = carry_bits x"
  unfolding carry_bits_rcl1 by (simp add: carry_bits_def split: prod.split)

lemma rotate_carry_bits: "rotate n (carry_bits ((rcl1 ^^ n) x)) = carry_bits x"
  by (induction n arbitrary: x)
    (simp_all add: rotate1_carry_bits funpow_swap1 [of rcl1] rotate1_rotate_swap del: rotate_Suc add: rotate_def funpow_Suc_right)

lemma rcl1_period: "(rcl1 ^^ Suc LENGTH('a)) x = x" for x :: "'a::len word \<times> bool"
proof (rule carry_bits_inj)
  have "length (carry_bits y) = Suc LENGTH('a)" for y :: "'a word \<times> bool"
    by (cases y) (simp add: carry_bits_def)
  then show "carry_bits ((rcl1 ^^ Suc LENGTH('a)) x) = carry_bits x"
    using rotate_carry_bits [of "Suc LENGTH('a)" x] by (metis mod_self rotate_id)
qed

lemma rcr1_rcl1_iter: "(rcr1 ^^ n) ((rcl1 ^^ n) x) = x" for x :: "'a::len word \<times> bool"
  by (induction n arbitrary: x) (simp_all add: rcr1_rcl1 funpow_swap1 [of rcr1])

lemma rotc_count_loop: "rotcl_loop (rotc_count b) v c = rotcl_loop (x86_shift_count b) v c"
  for v b :: "'a::len word"
  unfolding rotcl_loop_iter rotc_count_def Let_def
  using funpow_mod_eq [OF rcl1_period, of "x86_shift_count b" "(v, c)"] by simp

text \<open>Claim C24. The rotates through carry are inverse to each other: rotating left and then
  right by the same count restores operand and carry. The reduction of the count modulo the
  width plus one, which the code applies to 8- and 16-bit operands, cannot be observed: the
  result is that of the bit-by-bit rotation with the full count.\<close>

theorem rotate_carry_inverse:
  fixes v b :: "'a::len word"
  assumes "rotc_count b \<noteq> 0" "l = RotateCarryLeftOp v b c" "r = RotateCarryRightOp (sh_value l) b (sh_cf l)"
  shows "sh_value r = v \<and> sh_cf r = c \<and> (sh_value l, sh_cf l) = rotcl_loop (x86_shift_count b) v c"
proof -
  have l: "(sh_value l, sh_cf l) = rotcl_loop (rotc_count b) v c"
    using assms(1,2) by (simp add: RotateCarryLeftOp_def Let_def split: prod.splits)
  moreover have "(sh_value r, sh_cf r) = rotcr_loop (rotc_count b) (sh_value l) (sh_cf l)"
    using assms(1,3) by (simp add: RotateCarryRightOp_def Let_def split: prod.splits)
  ultimately have "(sh_value r, sh_cf r) = (v, c)"
    unfolding rotcl_loop_iter rotcr_loop_iter by (simp add: rcr1_rcl1_iter)
  then show ?thesis using l by (simp add: rotc_count_loop)
qed

theorem rotate_carry_inverse_witness:
  "let l = RotateCarryLeftOp (0xa5 :: W8) 11 True; r = RotateCarryRightOp (sh_value l) 11 (sh_cf l)
   in sh_value r = 0xa5 \<and> sh_cf r"
  using rotate_carry_inverse [of "11 :: W8", OF _ refl refl, of "0xa5" True]
  by (simp add: rotc_count_def x86_shift_count_def Let_def)

subsection \<open>Bit fields and double shifts\<close>

lemma bit_x86_ror: "n < LENGTH('a) \<Longrightarrow> bit (x86_ror w k) n \<longleftrightarrow> bit w ((n + k) mod LENGTH('a))"
  for w :: "'a::len word"
  by (simp add: x86_ror_def bit_word_rotr_iff)

lemma bit_bitmask: "bit (bitmask m) n \<longleftrightarrow> n < 64 \<and> n < m"
proof (cases "m = 64")
  case False
  then have "bitmask m = mask m" by (simp add: bitmask_def mask_eq_exp_minus_1 push_bit_eq_mult)
  then show ?thesis by (simp add: bit_mask_iff)
qed (simp add: bitmask_def)

lemma bits_take_bit: "l \<le> 64 \<Longrightarrow> bits x i l = take_bit l (drop_bit i x)"
  by (rule bit_word_eqI) (auto simp: bits_def bit_and_iff bit_bitmask bit_take_bit_iff)

lemma bit_shmask: "bit (bitmask 6 OR push_bit 6 (bitmask 6) OR push_bit 12 (bitmask 6)) n \<longleftrightarrow> n < 18"
  unfolding bit_or_iff bit_push_bit_iff bit_bitmask by auto

lemma bit_MaskControlInfo:
  "bit (ucast (MaskControlInfo ms mc ds) :: W64) n \<longleftrightarrow>
     (if n < 6 then bit ms n else if n < 12 then bit mc (n - 6) else n < 18 \<and> bit ds (n - 12))"
  unfolding MaskControlInfo_def bit_unsigned_iff bit_or_iff bit_push_bit_iff bit_take_bit_iff bit_of_nat_iff_bit
  by (auto simp: bit_simps)

lemma unat_take_bit_of_nat: "unat (take_bit 6 (of_nat m) :: W64) = take_bit 6 m"
  unfolding unsigned_take_bit_eq unat_of_nat unfolding take_bit_eq_mod by (simp add: mod_mod_cancel)

lemma bit_of_nat_word: "bit (of_nat m :: 'a::len word) n \<longleftrightarrow> n < LENGTH('a) \<and> bit m n"
  by (simp add: bit_simps)

lemma mask_control:
  fixes c :: W64
  assumes "c = ucast (MaskControlInfo ms mc ds) AND (bitmask 6 OR push_bit 6 (bitmask 6) OR push_bit 12 (bitmask 6))"
  shows "unat (bits c 0 6) = take_bit 6 ms" "unat (bits c 6 6) = take_bit 6 mc" "unat (bits c 12 6) = take_bit 6 ds"
proof -
  have "take_bit 6 (drop_bit 0 c) = take_bit 6 (of_nat ms)" "take_bit 6 (drop_bit 6 c) = take_bit 6 (of_nat mc)"
    "take_bit 6 (drop_bit 12 c) = take_bit 6 (of_nat ds)"
    by (rule bit_word_eqI; simp only: assms bit_take_bit_iff bit_drop_bit_eq o_def bit_and_iff bit_shmask
      bit_MaskControlInfo bit_of_nat_word; auto)+
  then show "unat (bits c 0 6) = take_bit 6 ms" "unat (bits c 6 6) = take_bit 6 mc" "unat (bits c 12 6) = take_bit 6 ds"
    by (simp_all only: bits_take_bit [of 6, simplified] unat_take_bit_of_nat)
qed

lemma bit_merge:
  assumes "n < LENGTH('a::len)" "LENGTH('a) \<in> {8, 16, 32, 64}"
  shows "bit (x86_merge TYPE('a) d a) n \<longleftrightarrow> bit a n"
proof -
  have m: "(0xff :: W64) = mask 8" "(0xffff :: W64) = mask 16" "(0xffffffff :: W64) = mask 32"
    by (simp_all add: mask_eq_exp_minus_1)
  show ?thesis
    using assms unfolding x86_merge_def LO32_def m by (auto simp: bit_simps)
qed

text \<open>The bit-field operation without extension, bit by bit.\<close>

lemma mask_bits:
  fixes i :: UopInputs
  assumes n: "n < LENGTH('a::len)" and w: "LENGTH('a) \<in> {8, 16, 32, 64}"
    and c: "rc i = ucast (MaskControlInfo ms mc ds)"
  shows "bit (rddata (exp_op_mask TYPE('a) False False i)) n \<longleftrightarrow>
    (if (n + take_bit 6 ms) mod LENGTH('a) < take_bit 6 mc
     then bit (rb i) ((n + take_bit 6 ds) mod LENGTH('a)) else bit (ra i) n)"
proof -
  have n64: "n < 64" "LENGTH('a) \<le> 64" using n w by auto
  have idx: "k mod LENGTH('a) < LENGTH('a)" "k mod LENGTH('a) < 64" for k
    using less_le_trans [OF mod_less_divisor [OF len_gt_0] n64(2), of k] by simp_all
  have M: "bit (ucast (x86_ror (ucast (bitmask m) :: 'a word) k) :: W64) n \<longleftrightarrow> (n + k) mod LENGTH('a) < m" for m k
    unfolding bit_unsigned_iff bit_x86_ror [OF n] bit_bitmask using n64 idx [of "n + k"] by auto
  have R: "bit (ucast (x86_ror (ucast (rb i) :: 'a word) k) :: W64) n \<longleftrightarrow> bit (rb i) ((n + k) mod LENGTH('a))" for k
    unfolding bit_unsigned_iff bit_x86_ror [OF n] using n64 idx [of "n + k"] by auto
  show ?thesis
    unfolding exp_op_mask_def Let_def c mask_control [OF refl] if_False uop_out_def UopResult.select_convs
      bit_merge [OF n w] bit_or_iff bit_and_iff bit_not_iff M R
    using n64 by auto
qed

lemma lg_flags: "lg 1 = 0" "lg (Suc 0) = 0" "lg 128 = 7" "lg 2048 = 11"
  by (simp_all add: lg.simps)

lemma bit_macro_iff: "bit_macro w n \<noteq> 0 \<longleftrightarrow> bit w n"
  by (simp only: bit_macro_def and_one_bit not_False_eq_True)

lemma mask_flags:
  assumes w: "LENGTH('a::len) \<in> {8, 16, 32, 64}"
  shows "bit (rdflags (exp_op_mask TYPE('a) False False i)) 0 \<longleftrightarrow> bit (raflags i) 0"
    and "bit (rdflags (exp_op_mask TYPE('a) False False i)) 11 \<longleftrightarrow>
      bit (rddata (exp_op_mask TYPE('a) False False i)) (LENGTH('a) - 1) \<noteq> bit (raflags i) 11"
proof -
  have last: "LENGTH('a) - 1 < LENGTH('a)" by simp
  show "bit (rdflags (exp_op_mask TYPE('a) False False i)) 0 \<longleftrightarrow> bit (raflags i) 0"
    unfolding exp_op_mask_def Let_def if_False uop_out_def UopResult.select_convs bit_macro_iff bit_or_iff
      bit_push_bit_iff bit_of_bool_iff bit_unsigned_iff bit_genflags
    by (simp add: lg_flags)
  show "bit (rdflags (exp_op_mask TYPE('a) False False i)) 11 \<longleftrightarrow>
      bit (rddata (exp_op_mask TYPE('a) False False i)) (LENGTH('a) - 1) \<noteq> bit (raflags i) 11"
    unfolding exp_op_mask_def Let_def if_False uop_out_def UopResult.select_convs bit_merge [OF last w]
      bit_macro_iff bit_or_iff [of _ "push_bit _ _"] bit_push_bit_iff bit_of_bool_iff bit_unsigned_iff bit_genflags
    by (simp add: lg_flags)
qed

text \<open>The flags of the shift by one that feed the second micro-operation.\<close>

lemma shiftop_bits:
  assumes "n < LENGTH('a::len)" "LENGTH('a) \<in> {8, 16, 32, 64}"
  shows "bit (rddata (shiftop (f :: 'a shiftfunc) g i)) n \<longleftrightarrow>
    bit (sh_value (f (ucast (ra i)) (ucast (rb i)) (flag_bit (rcflags i) FLAG_CF))) n"
  using assms by (simp add: shiftop_def uop_out_def bit_merge Let_def bit_unsigned_iff) auto

lemma shiftop_flags:
  "sh_count r \<noteq> 0 \<Longrightarrow> r = f (ucast (ra i)) (ucast (rb i)) (flag_bit (rcflags i) FLAG_CF) \<Longrightarrow>
    (bit (rdflags (shiftop f all_flags i)) 0 \<longleftrightarrow> sh_cf r) \<and> (bit (rdflags (shiftop f all_flags i)) 11 \<longleftrightarrow> sh_of r)"
  using setflag_all [OF refl] by (simp add: shiftop_def uop_out_def Let_def bit_pack_flags bit_genflags)

lemma bit_nat_less: "m < 2 ^ k \<Longrightarrow> bit m n \<Longrightarrow> n < k" for m :: nat
  using take_bit_nat_eq_self [of m k] bit_take_bit_iff [of k m n] by auto

lemma shift_count_of_nat:
  assumes "LENGTH('a::len) \<in> {16, 32, 64}" "imm < LENGTH('a)"
  shows "x86_shift_count (ucast (of_nat imm :: W64) :: 'a word) = imm"
proof -
  define k :: nat where "k = (if LENGTH('a) = 64 then 6 else 5)"
  have k: "(if LENGTH('a) = 64 then 0x3f else 0x1f) = (mask k :: W8)"
    by (simp add: k_def mask_eq_exp_minus_1)
  have imm: "imm < 2 ^ k" "k \<le> 6" "imm < 64" using assms by (auto simp: k_def)
  have "(ucast (ucast (of_nat imm :: W64) :: 'a word) :: W8) AND mask k = of_nat imm"
    by (rule bit_word_eqI) (use imm assms bit_nat_less [OF imm(1)] in \<open>auto simp: bit_simps\<close>)
  then show ?thesis
    unfolding x86_shift_count_def k using imm(3) by (simp add: unat_of_nat)
qed

text \<open>The two micro-operations an immediate double shift is decoded into compute it:
  for a 16, 32 or 64-bit operand and a count between 1 and the width, shrd answers the
  destination shifted right with the low bits of the source moved in from the top, shld the
  destination shifted left with the high bits of the source moved in from the bottom; CF is
  the last bit shifted out of the destination.\<close>

theorem double_shift_exact:
  assumes "LENGTH('a::len) \<in> {16, 32, 64}" "0 < imm" "imm < LENGTH('a)"
    and "d = (ucast rdv :: 'a word)" "s = (ucast rav :: 'a word)"
    and "R = double_shift_uops TYPE('a) False rdv rav imm" "L = double_shift_uops TYPE('a) True rdv rav imm"
  shows "ucast (rddata R) = drop_bit imm d OR push_bit (LENGTH('a) - imm) s
    \<and> ucast (rddata L) = push_bit imm d OR drop_bit (LENGTH('a) - imm) s
    \<and> (bit (rdflags R) 0 \<longleftrightarrow> bit d (imm - 1)) \<and> (bit (rdflags L) 0 \<longleftrightarrow> bit d (LENGTH('a) - imm))"
proof -
  have w: "LENGTH('a) \<in> {8, 16, 32, 64}" and imm: "take_bit 6 imm = imm" "take_bit 6 (LENGTH('a) - imm) = LENGTH('a) - imm"
    using assms(1-3) by (auto intro: take_bit_nat_eq_self)
  note cnt = shift_count_of_nat [OF assms(1,3)]
  have zero: "take_bit 6 (0 :: nat) = 0" by simp
  have R: "ucast (rddata R) = drop_bit imm d OR push_bit (LENGTH('a) - imm) s"
  proof (rule bit_word_eqI)
    fix n assume n: "n < LENGTH('a)"
    have "(n + imm) mod LENGTH('a) = (if n + imm < LENGTH('a) then n + imm else n + imm - LENGTH('a))"
      using n assms(3) by (simp add: mod_if)
    then show "bit (ucast (rddata R) :: 'a word) n \<longleftrightarrow> bit (drop_bit imm d OR push_bit (LENGTH('a) - imm) s) n"
      using n assms(2,3,5)
      by (auto simp: assms(4,6) double_shift_uops_def Let_def bit_unsigned_iff mask_bits [OF n w] shiftop_bits [OF n w]
        imm cnt shr_exact bit_or_iff bit_drop_bit_eq bit_push_bit_iff)
  qed
  have L: "ucast (rddata L) = push_bit imm d OR drop_bit (LENGTH('a) - imm) s"
  proof (rule bit_word_eqI)
    fix n assume n: "n < LENGTH('a)"
    have "n < imm \<Longrightarrow> (n + (LENGTH('a) - imm)) mod LENGTH('a) = n + (LENGTH('a) - imm)"
      using n assms(3) by simp
    then show "bit (ucast (rddata L) :: 'a word) n \<longleftrightarrow> bit (push_bit imm d OR drop_bit (LENGTH('a) - imm) s) n"
      using n assms(2,3,5)
      by (auto simp: assms(4,7) double_shift_uops_def Let_def bit_unsigned_iff mask_bits [OF n w] shiftop_bits [OF n w]
        imm zero cnt shl_exact bit_or_iff bit_drop_bit_eq bit_push_bit_iff ac_simps dest: bit_imp_le_length)
  qed
  have "bit (rdflags R) 0 \<longleftrightarrow> bit d (imm - 1)"
    using assms(2) unfolding assms(4,6) double_shift_uops_def Let_def mask_flags(1) [OF w] UopInputs.select_convs if_False
    by (subst shiftop_flags [THEN conjunct1, OF _ refl])
      (use assms(3) in \<open>simp_all add: cnt shr_exact ShiftRightOp_def Let_def and_one_bit\<close>)
  moreover have "bit (rdflags L) 0 \<longleftrightarrow> bit d (LENGTH('a) - imm)"
    using assms(2) unfolding assms(4,7) double_shift_uops_def Let_def mask_flags(1) [OF w] UopInputs.select_convs if_True
    by (subst shiftop_flags [THEN conjunct1, OF _ refl])
      (use assms(3) in \<open>simp_all add: cnt shl_exact ShiftLeftOp_def Let_def and_one_bit\<close>)
  ultimately show ?thesis using R L by simp
qed

theorem double_shift_exact_witness:
  "ucast (rddata (double_shift_uops TYPE(16) False 0x1234 0xabcd 4)) = (0xd123 :: W16) \<and>
   ucast (rddata (double_shift_uops TYPE(16) True 0x1234 0xabcd 4)) = (0x234a :: W16)"
  using double_shift_exact [where 'a = 16, of 4 _ "0x1234" _ "0xabcd", OF _ _ _ refl refl refl refl] by simp

text \<open>The overflow flag of a double shift by one: after shrd it says that the sign
  changed, as the instruction defines it; after shld it is the old sign bit of the destination
  instead, because shl hands over its own overflow flag and not the old sign the second
  micro-operation expects.\<close>

theorem double_shift_overflow:
  assumes "LENGTH('a::len) \<in> {16, 32, 64}" "d = (ucast rdv :: 'a word)"
    and "R = double_shift_uops TYPE('a) False rdv rav 1" "L = double_shift_uops TYPE('a) True rdv rav 1"
  shows "(bit (rdflags R) 11 \<longleftrightarrow> bit (rddata R) (LENGTH('a) - 1) \<noteq> bit d (LENGTH('a) - 1))
    \<and> (bit (rdflags L) 11 \<longleftrightarrow> bit d (LENGTH('a) - 1))
    \<and> (bit (rddata L) (LENGTH('a) - 1) \<noteq> bit d (LENGTH('a) - 1) \<longleftrightarrow>
        bit d (LENGTH('a) - 2) \<noteq> bit d (LENGTH('a) - 1))"
proof -
  have w: "LENGTH('a) \<in> {8, 16, 32, 64}" and one: "1 < LENGTH('a)" using assms(1) by auto
  note cnt = shift_count_of_nat [OF assms(1) one]
  have R: "bit (rdflags R) 11 \<longleftrightarrow> bit (rddata R) (LENGTH('a) - 1) \<noteq> bit d (LENGTH('a) - 1)"
    unfolding assms(2,3) double_shift_uops_def Let_def mask_flags(2) [OF w] UopInputs.select_convs if_False
    by (subst shiftop_flags [THEN conjunct2, OF _ refl])
      (use cnt one in \<open>simp_all add: ShiftRightOp_def Let_def high_bit_iff\<close>)
  define n where "n = LENGTH('a) - 1"
  have n: "n < LENGTH('a)" "0 < n" using one by (simp_all add: n_def)
  have dbl: "bit (v * 2) n \<longleftrightarrow> bit v (n - 1)" for v :: "'a word"
    using n bit_push_bit_iff [of 1 v n] by (simp add: push_bit_eq_mult)
  have top: "bit (rddata L) n \<longleftrightarrow> bit d (n - 1)"
    using n cnt by (simp add: assms(2,4) double_shift_uops_def Let_def mask_bits [OF n(1) w]
      shiftop_bits [OF n(1) w] shl_exact dbl bit_unsigned_iff)
  have "bit (rdflags L) 11 \<longleftrightarrow> bit (rddata L) n \<noteq> (bit d (n - 1) \<noteq> bit d n)"
    unfolding n_def assms(2,4) double_shift_uops_def Let_def mask_flags(2) [OF w] UopInputs.select_convs if_True
    by (subst shiftop_flags [THEN conjunct2, OF _ refl])
      (use cnt one in \<open>simp_all add: ShiftLeftOp_def Let_def high_bit_iff and_one_bit dbl [unfolded n_def, simplified]\<close>)
  moreover have "n - 1 = LENGTH('a) - 2" by (simp add: n_def)
  ultimately show ?thesis using R top by (simp add: n_def) blast
qed

theorem double_shift_overflow_witness:
  "bit (rdflags (double_shift_uops TYPE(16) True 0xc000 0 1)) 11 \<and>
   bit (rddata (double_shift_uops TYPE(16) True 0xc000 0 1)) 15 \<and> bit (0xc000 :: W16) 15"
  using double_shift_overflow [where 'a = 16, of _ "0xc000" _ 0, OF _ refl refl refl] by simp

end
