(* ===== verification/Uop_Vec.thy ===== *)
theory Uop_Vec
  imports Uop_Cond Uop_Shift
begin

text \<open>
  Vector micro-operations of \<^verbatim>\<open>src/x86sim/uopimpl.cpp\<close>: one 64-bit register holding
  packed lanes. \<^verbatim>\<open>std::bit_cast<LaneArray<Lane>>\<close> is \<open>lanes\<close>, least significant lane
  first as on the little-endian hosts the simulator runs on.
\<close>

subsection \<open>Lanes\<close>

definition lanes :: "W64 \<Rightarrow> 'a::len word list" where
  "lanes w = map (\<lambda>i. ucast (drop_bit (i * LENGTH('a)) w)) [0..<64 div LENGTH('a)]"

definition of_lanes :: "'a::len word list \<Rightarrow> W64" where
  "of_lanes ls = foldr (\<lambda>l w. push_bit LENGTH('a) w OR ucast l) ls 0"

definition saturate_u :: "int \<Rightarrow> 'a::len word" where
  "saturate_u v = word_of_int (if v < 0 then 0 else if 2 ^ LENGTH('a) - 1 < v then 2 ^ LENGTH('a) - 1 else v)"

definition saturate_s :: "int \<Rightarrow> 'a::len word" where
  "saturate_s v =
     (let lo = - (2 ^ (LENGTH('a) - 1)); hi = 2 ^ (LENGTH('a) - 1) - 1
      in word_of_int (if v < lo then lo else if hi < v then hi else v))"

definition x86_op_nop :: "UopInputs \<Rightarrow> UopResult" where
  "x86_op_nop i = uop_out 0 0"

definition vecop :: "('a::len word \<Rightarrow> 'a word \<Rightarrow> 'a word) \<Rightarrow> UopInputs \<Rightarrow> UopResult" where
  "vecop f i = uop_out (of_lanes (map2 f (lanes (ra i)) (lanes (rb i)))) 0"

subsection \<open>Lane operations\<close>

text \<open>The 64-bit signed and unsigned intermediates of the source are exact for the 8 and 16-bit
  lanes these operations are dispatched with.\<close>

definition lane_add :: "'a::len word \<Rightarrow> 'a word \<Rightarrow> 'a word" where "lane_add a b = a + b"
definition lane_sub :: "'a::len word \<Rightarrow> 'a word \<Rightarrow> 'a word" where "lane_sub a b = a - b"
definition lane_add_us :: "'a::len word \<Rightarrow> 'a word \<Rightarrow> 'a word" where "lane_add_us a b = saturate_u (uint a + uint b)"
definition lane_sub_us :: "'a::len word \<Rightarrow> 'a word \<Rightarrow> 'a word" where "lane_sub_us a b = saturate_u (uint a - uint b)"
definition lane_add_ss :: "'a::len word \<Rightarrow> 'a word \<Rightarrow> 'a word" where "lane_add_ss a b = saturate_s (sint a + sint b)"
definition lane_sub_ss :: "'a::len word \<Rightarrow> 'a word \<Rightarrow> 'a word" where "lane_sub_ss a b = saturate_s (sint a - sint b)"

definition lane_avg :: "'a::len word \<Rightarrow> 'a word \<Rightarrow> 'a word" where
  "lane_avg a b = word_of_int ((uint a + uint b + 1) div 2)"

definition lane_min :: "'a::len word \<Rightarrow> 'a word \<Rightarrow> 'a word" where "lane_min a b = (if b < a then b else a)"
definition lane_max :: "'a::len word \<Rightarrow> 'a word \<Rightarrow> 'a word" where "lane_max a b = (if a < b then b else a)"
definition lane_min_s :: "'a::len word \<Rightarrow> 'a word \<Rightarrow> 'a word" where "lane_min_s a b = (if b <s a then b else a)"
definition lane_max_s :: "'a::len word \<Rightarrow> 'a word \<Rightarrow> 'a word" where "lane_max_s a b = (if a <s b then b else a)"
definition lane_mull :: "'a::len word \<Rightarrow> 'a word \<Rightarrow> 'a word" where "lane_mull a b = word_of_int (sint a * sint b)"

definition lane_mulh :: "'a::len word \<Rightarrow> 'a word \<Rightarrow> 'a word" where
  "lane_mulh a b = word_of_int (sint a * sint b div 2 ^ LENGTH('a))"

definition lane_mulhu :: "'a::len word \<Rightarrow> 'a word \<Rightarrow> 'a word" where
  "lane_mulhu a b = word_of_int (uint a * uint b div 2 ^ LENGTH('a))"

subsection \<open>Vector shifts and packs\<close>

datatype VecShift = Left | Right | RightArith

definition vecshift :: "'a::len itself \<Rightarrow> VecShift \<Rightarrow> UopInputs \<Rightarrow> UopResult" where
  "vecshift T kind i =
     (let width = of_nat LENGTH('a) :: W64;
          f = (\<lambda>a :: 'a word. case kind of
                 Left \<Rightarrow> if rb i < width then push_bit (unat (rb i)) a else 0
               | Right \<Rightarrow> if rb i < width then drop_bit (unat (rb i)) a else 0
               | RightArith \<Rightarrow> signed_drop_bit (unat (min (rb i) (width - 1))) a)
      in uop_out (of_lanes (map f (lanes (ra i)))) 0)"

definition vecpack :: "'s::len itself \<Rightarrow> 'd::len itself \<Rightarrow> bool \<Rightarrow> UopInputs \<Rightarrow> UopResult" where
  "vecpack Src Lane unsigned_sat i =
     (let sat = (\<lambda>x :: 's word. if unsigned_sat then saturate_u (sint x) else saturate_s (sint x) :: 'd word)
      in uop_out (of_lanes (map sat (lanes (ra i)) @ map sat (lanes (rb i)))) 0)"

definition uop_impl_vmaddp_w :: "UopInputs \<Rightarrow> UopResult" where
  "uop_impl_vmaddp_w i =
     (let a = lanes (ra i) :: W16 list; b = lanes (rb i) :: W16 list;
          prod = (\<lambda>k. word_of_int (sint (a ! k) * sint (b ! k)) :: W32)
      in uop_out (of_lanes (map (\<lambda>k. prod (2 * k) + prod (2 * k + 1)) [0..<2])) 0)"

definition uop_impl_vsad_w :: "UopInputs \<Rightarrow> UopResult" where
  "uop_impl_vsad_w i =
     (let a = lanes (ra i) :: W8 list; b = lanes (rb i) :: W8 list;
          diff = (\<lambda>x y. if y < x then ucast (x - y) else ucast (y - x) :: W64)
      in uop_out (fold (\<lambda>(x, y) s. s + diff x y) (zip a b) 0) 0)"

subsection \<open>Bit test and compare\<close>

definition uop_impl_vbt :: "nat \<Rightarrow> UopInputs \<Rightarrow> UopResult" where
  "uop_impl_vbt sizeshift i =
     (let sizebits = 2 ^ sizeshift * 8;
          b = unat (lowbits (rb i) (3 + sizeshift));
          rd = fold (\<lambda>k r. push_bit 1 r OR of_bool (bit_macro (ra i) (k * sizebits + b) \<noteq> 0))
                 (rev [0..<2 ^ (3 - sizeshift)]) 0 :: W64
      in uop_out rd (ucast (x86_genflags rd)))"

definition compare_and_gen_flags :: "'a::len word \<Rightarrow> 'a word \<Rightarrow> W16" where
  "compare_and_gen_flags a b =
     (let result = a - b;
          sign_bit = push_bit (LENGTH('a) - 1) 1;
          cf = a < b;
          ov = (a XOR b) AND (a XOR result) AND sign_bit \<noteq> 0
      in ucast (x86_genflags result) OR (if cf then FLAG_CF else 0) OR (if ov then FLAG_OF else 0))"

definition vcmp_flags :: "nat \<Rightarrow> W64 \<Rightarrow> W64 \<Rightarrow> W16" where
  "vcmp_flags sizeshift a b =
     (if sizeshift = 0 then compare_and_gen_flags (ucast a :: W8) (ucast b)
      else if sizeshift = 1 then compare_and_gen_flags (ucast a :: W16) (ucast b)
      else if sizeshift = 2 then compare_and_gen_flags (ucast a :: W32) (ucast b)
      else if sizeshift = 3 then compare_and_gen_flags a b
      else 0)"

definition uop_impl_vcmp :: "nat \<Rightarrow> nat \<Rightarrow> UopInputs \<Rightarrow> UopResult" where
  "uop_impl_vcmp sizeshift cond i =
     (let sizebits = 2 ^ sizeshift * 8;
          rd = fold (\<lambda>k r.
                 let flags = vcmp_flags sizeshift (bits (ra i) (k * sizebits) sizebits) (bits (rb i) (k * sizebits) sizebits);
                     z = evaluate_cond cond flags flags
                 in push_bit sizebits r OR (if z then bitmask sizebits else 0))
                 (rev [0..<2 ^ (3 - sizeshift)]) 0
      in uop_out rd (ucast (x86_genflags rd)))"

subsection \<open>Lanes and registers\<close>

lemma bit_of_lanes:
  "bit (of_lanes ls) n \<longleftrightarrow> n < 64 \<and> n div LENGTH('a) < length ls \<and> bit (ls ! (n div LENGTH('a))) (n mod LENGTH('a))"
  for ls :: "'a::len word list"
proof (induction ls arbitrary: n)
  case (Cons l ls)
  have step: "bit (of_lanes (l # ls)) n \<longleftrightarrow>
      (LENGTH('a) \<le> n \<and> n < 64 \<and> bit (of_lanes ls) (n - LENGTH('a))) \<or> (n < 64 \<and> bit l n)"
    by (simp add: of_lanes_def bit_or_iff bit_push_bit_iff bit_unsigned_iff)
  show ?case
  proof (cases "n < LENGTH('a)")
    case True
    then show ?thesis unfolding step by simp
  next
    case False
    then have "\<not> bit l n" "n div LENGTH('a) = Suc ((n - LENGTH('a)) div LENGTH('a))"
      "n mod LENGTH('a) = (n - LENGTH('a)) mod LENGTH('a)"
      by (auto simp: le_div_geq le_mod_geq dest: bit_imp_le_length)
    then show ?thesis unfolding step Cons.IH using False by auto
  qed
qed (simp add: of_lanes_def)

lemma length_lanes [simp]: "length (lanes w :: 'a::len word list) = 64 div LENGTH('a)"
  by (simp add: lanes_def)

lemma bit_lanes_nth:
  "k < 64 div LENGTH('a) \<Longrightarrow>
     bit ((lanes w :: 'a::len word list) ! k) n \<longleftrightarrow> n < LENGTH('a) \<and> bit w (k * LENGTH('a) + n)"
  by (simp add: lanes_def bit_unsigned_iff bit_drop_bit_eq)

lemma lane_index:
  assumes "k < 64 div w" "n < w"
  shows "k * w + n < (64 :: nat)" "(k * w + n) div w = k" "(k * w + n) mod w = n"
proof -
  have "Suc k * w \<le> 64 div w * w" using assms(1) by (intro mult_le_mono1) simp
  also have "\<dots> \<le> 64" by simp
  finally show "k * w + n < 64" using assms(2) by simp
qed (use assms(2) in \<open>simp_all\<close>)

lemma lanes_of_lanes:
  assumes "length ls = 64 div LENGTH('a)"
  shows "lanes (of_lanes ls) = (ls :: 'a::len word list)"
proof (rule nth_equalityI)
  fix k assume "k < length (lanes (of_lanes ls) :: 'a word list)"
  then have k: "k < 64 div LENGTH('a)" by simp
  show "lanes (of_lanes ls) ! k = ls ! k"
    by (rule bit_word_eqI) (simp add: bit_lanes_nth [OF k] bit_of_lanes lane_index [OF k] assms k)
qed (simp add: assms)

lemma of_lanes_lanes:
  assumes "LENGTH('a) dvd 64"
  shows "of_lanes (lanes w :: 'a::len word list) = w"
proof (rule bit_word_eqI)
  fix n :: nat assume n: "n < LENGTH(64)"
  then have k: "n div LENGTH('a) < 64 div LENGTH('a)"
    using assms by (auto elim!: dvdE simp: less_mult_imp_div_less mult.commute)
  then show "bit (of_lanes (lanes w :: 'a word list)) n \<longleftrightarrow> bit w n"
    using n by (simp add: bit_of_lanes bit_lanes_nth [OF k] k)
qed

lemma vecop_lanes: "lanes (rddata (vecop f i)) = map2 f (lanes (ra i)) (lanes (rb i) :: 'a::len word list)"
  by (simp add: vecop_def lanes_of_lanes)

lemma uint_saturate_u: "uint (saturate_u v :: 'a::len word) = max 0 (min (2 ^ LENGTH('a) - 1) v)"
  by (auto simp: saturate_u_def uint_word_of_int mod_pos_pos_trivial)

lemma sint_saturate_s:
  "sint (saturate_s v :: 'a::len word) = max (- (2 ^ (LENGTH('a) - 1))) (min (2 ^ (LENGTH('a) - 1) - 1) v)"
  by (auto simp: saturate_s_def Let_def sint_of_int_small)

text \<open>The saturating vector operations work lane by lane and clamp: for every lane
  width and every lane, the unsigned forms answer the sum or difference clamped to the unsigned
  range of the lane, the signed forms clamped to its signed range.\<close>

theorem vec_saturating:
  assumes "k < 64 div LENGTH('a::len)" "a = (lanes (ra i) :: 'a word list) ! k" "b = (lanes (rb i) :: 'a word list) ! k"
  shows "uint ((lanes (rddata (vecop (lane_add_us :: 'a word \<Rightarrow> _) i)) :: 'a word list) ! k) = min (2 ^ LENGTH('a) - 1) (uint a + uint b)
    \<and> uint ((lanes (rddata (vecop (lane_sub_us :: 'a word \<Rightarrow> _) i)) :: 'a word list) ! k) = max 0 (uint a - uint b)
    \<and> sint ((lanes (rddata (vecop (lane_add_ss :: 'a word \<Rightarrow> _) i)) :: 'a word list) ! k) =
        max (- (2 ^ (LENGTH('a) - 1))) (min (2 ^ (LENGTH('a) - 1) - 1) (sint a + sint b))
    \<and> sint ((lanes (rddata (vecop (lane_sub_ss :: 'a word \<Rightarrow> _) i)) :: 'a word list) ! k) =
        max (- (2 ^ (LENGTH('a) - 1))) (min (2 ^ (LENGTH('a) - 1) - 1) (sint a - sint b))"
proof -
  have "uint a - uint b \<le> 2 ^ LENGTH('a) - 1" using uint_lt2p [of a] uint_ge_0 [of b] by linarith
  then show ?thesis
    using assms by (simp add: vecop_lanes lane_add_us_def lane_sub_us_def lane_add_ss_def lane_sub_ss_def
      uint_saturate_u sint_saturate_s)
qed

theorem vec_saturating_witness:
  "uint ((lanes (rddata (vecop (lane_add_us :: W8 \<Rightarrow> _) (demo_inputs 0xf0ff 0x2001))) :: W8 list) ! 1) = 255"
proof -
  have "(lanes 0xf0ff :: W8 list) ! 1 = 0xf0" "(lanes 0x2001 :: W8 list) ! 1 = 0x20"
    by (simp_all add: lanes_def)
  then show ?thesis
    using vec_saturating [where 'a = 8, OF _ refl refl, of 1 "demo_inputs 0xf0ff 0x2001"]
    by (simp add: demo_inputs_def)
qed

text \<open>The vector compare uses flags of its own; they are at every lane width the
  flags the scalar compare computes, so that the sixteen conditions mean the same in both.\<close>

theorem vector_compare_flags: "compare_and_gen_flags a b = sub_flag_gen_op a b"
  for a b :: "'a::len word"
proof (rule bit_word_eqI)
  fix n :: nat assume "n < LENGTH(16)"
  have mask: "(a XOR b) AND (a XOR (a - b)) AND push_bit (LENGTH('a) - 1) 1 \<noteq> 0 \<longleftrightarrow>
      \<not> fits_signed TYPE('a) (sint a - sint b)"
  proof -
    have "NOT b = - b - 1" by (simp add: not_eq_complement)
    then have d: "a - b = a + NOT b + of_bool True" by simp
    have x: "a XOR b = NOT (a XOR NOT b)" by (simp add: bit_eq_iff bit_simps)
    show ?thesis
      unfolding x d overflow_mask signed_add_overflow by (simp add: sint_not_word)
  qed
  show "bit (compare_and_gen_flags a b) n \<longleftrightarrow> bit (sub_flag_gen_op a b) n"
    unfolding compare_and_gen_flags_def Let_def mask bit_sub_flags
    by (auto simp: bit_or_iff bit_unsigned_iff bit_genflags bit_flag)
qed

text \<open>Claim C30. The sum of absolute byte differences is exact and bounded: the accumulator
  never wraps, because the sum over the eight byte lanes is at most 2040.\<close>

theorem vsad_exact:
  "unat (rddata (uop_impl_vsad_w i)) =
     (\<Sum>(x, y) \<leftarrow> zip (lanes (ra i) :: W8 list) (lanes (rb i) :: W8 list). nat \<bar>uint x - uint y\<bar>)
   \<and> unat (rddata (uop_impl_vsad_w i)) \<le> 2040"
proof -
  define diff where "diff = (\<lambda>x y :: W8. if y < x then ucast (x - y) else ucast (y - x) :: W64)"
  have diff: "unat (diff x y) = nat \<bar>uint x - uint y\<bar>" "nat \<bar>uint x - uint y\<bar> \<le> 255" for x y
  proof -
    have up: "uint (ucast w :: W64) = uint w" for w :: W8 by (simp add: uint_up_ucast is_up)
    have "uint x < 256" "uint y < 256" using uint_lt2p [of x] uint_lt2p [of y] by simp_all
    moreover have "0 \<le> uint x" "0 \<le> uint y" by simp_all
    ultimately have "\<bar>uint x - uint y\<bar> \<le> 255" by linarith
    then show "nat \<bar>uint x - uint y\<bar> \<le> 255" by simp
    have "y < x \<Longrightarrow> uint (x - y) = uint x - uint y" "\<not> y < x \<Longrightarrow> uint (y - x) = uint y - uint x"
      by (simp_all add: uint_minus_simple_alt [symmetric])
    then show "unat (diff x y) = nat \<bar>uint x - uint y\<bar>"
      by (auto simp: diff_def up nat_uint_eq [symmetric] word_less_def simp del: nat_uint_eq)
  qed
  have sum: "unat (fold (\<lambda>(x, y) s. s + diff x y) ps s) = unat s + (\<Sum>(x, y) \<leftarrow> ps. nat \<bar>uint x - uint y\<bar>)"
    if "unat s + 255 * length ps < 2 ^ 64" for ps s
    using that
  proof (induction ps arbitrary: s)
    case (Cons p ps)
    obtain x y where p: "p = (x, y)" by (cases p)
    have "unat (s + diff x y) = unat s + nat \<bar>uint x - uint y\<bar>"
      using Cons.prems diff [of x y] by (subst unat_add_lem [THEN iffD1]) simp_all
    then show ?case using Cons.IH [of "s + diff x y"] Cons.prems diff(2) [of x y] by (simp add: p)
  qed simp
  have "(\<Sum>(x, y) \<leftarrow> ps. nat \<bar>uint x - uint y\<bar>) \<le> 255 * length ps" for ps :: "(W8 \<times> W8) list"
    by (induction ps) (use diff(2) in \<open>auto intro: add_mono simp del: nat_le_iff\<close>)
  from this [of "zip (lanes (ra i)) (lanes (rb i))"] show ?thesis
    using sum [of 0 "zip (lanes (ra i)) (lanes (rb i))"] by (simp add: uop_impl_vsad_w_def diff_def)
qed

end
