(* ===== verification/Uop_Float.thy ===== *)
theory Uop_Float
  imports Uop_Cond
begin

text \<open>
  Floating point micro-operations of \<^verbatim>\<open>src/x86sim/uopimpl.cpp\<close>. The arithmetic of the
  host's \<^verbatim>\<open>float\<close> and \<^verbatim>\<open>double\<close> is a parameter of the model: a record of functions on bit
  patterns, one per width, and the conversions between them. What is modelled is what the code
  builds from it: lane routing, comparisons, the minimum and maximum rules, the fused
  operations and the x86 conversion to integers.
\<close>

subsection \<open>The host's floating point arithmetic\<close>

record 'w FloatOps =
  fl_add :: "'w \<Rightarrow> 'w \<Rightarrow> 'w"
  fl_sub :: "'w \<Rightarrow> 'w \<Rightarrow> 'w"
  fl_mul :: "'w \<Rightarrow> 'w \<Rightarrow> 'w"
  fl_div :: "'w \<Rightarrow> 'w \<Rightarrow> 'w"
  fl_sqrt :: "'w \<Rightarrow> 'w"
  fl_less :: "'w \<Rightarrow> 'w \<Rightarrow> bool"
  fl_leq :: "'w \<Rightarrow> 'w \<Rightarrow> bool"
  fl_equal :: "'w \<Rightarrow> 'w \<Rightarrow> bool"
  fl_isnan :: "'w \<Rightarrow> bool"
  fl_one :: 'w
  fl_of_int :: "int \<Rightarrow> 'w"

text \<open>\<open>fu_trunc\<close> and \<open>fu_nearbyint\<close> round a double to an integer and have no value for a NaN
  or an infinity.\<close>

record FloatUnit =
  fu_single :: "W32 FloatOps"
  fu_double :: "W64 FloatOps"
  fu_widen :: "W32 \<Rightarrow> W64"
  fu_narrow :: "W64 \<Rightarrow> W32"
  fu_trunc :: "W64 \<Rightarrow> int option"
  fu_nearbyint :: "W64 \<Rightarrow> int option"

definition isunordered :: "'w FloatOps \<Rightarrow> 'w \<Rightarrow> 'w \<Rightarrow> bool" where
  "isunordered F x y \<longleftrightarrow> fl_isnan F x \<or> fl_isnan F y"

subsection \<open>Lanes\<close>

datatype SSEFloatType = ScalarSingle | PackedSingle | ScalarDouble | PackedDouble

definition sse_pair :: "W32 \<Rightarrow> W32 \<Rightarrow> W64" where
  "sse_pair hi lo = push_bit 32 (ucast hi) OR ucast lo"

definition sse_lo :: "W64 \<Rightarrow> W32" where "sse_lo w = ucast w"
definition sse_hi :: "W64 \<Rightarrow> W32" where "sse_hi w = ucast (drop_bit 32 w)"

type_synonym floatfunc = "(W32 \<Rightarrow> W32 \<Rightarrow> W32) \<times> (W64 \<Rightarrow> W64 \<Rightarrow> W64)"

definition floatop2 :: "SSEFloatType \<Rightarrow> floatfunc \<Rightarrow> UopInputs \<Rightarrow> UopResult" where
  "floatop2 type op i =
     (case type of
        ScalarSingle \<Rightarrow> uop_out (sse_pair (sse_hi (ra i)) (fst op (sse_lo (ra i)) (sse_lo (rb i)))) 0
      | PackedSingle \<Rightarrow> uop_out (sse_pair (fst op (sse_hi (ra i)) (sse_hi (rb i)))
                                        (fst op (sse_lo (ra i)) (sse_lo (rb i)))) 0
      | _ \<Rightarrow> uop_out (snd op (ra i) (rb i)) 0)"

definition both :: "FloatUnit \<Rightarrow> (W32 FloatOps \<Rightarrow> W32 \<Rightarrow> W32 \<Rightarrow> W32) \<Rightarrow> (W64 FloatOps \<Rightarrow> W64 \<Rightarrow> W64 \<Rightarrow> W64) \<Rightarrow> floatfunc" where
  "both U f g = (f (fu_single U), g (fu_double U))"

subsection \<open>Operations\<close>

definition FloatSqrt :: "'w FloatOps \<Rightarrow> 'w \<Rightarrow> 'w \<Rightarrow> 'w" where
  "FloatSqrt F x y = fl_sqrt F y"

definition FloatReciprocal :: "'w FloatOps \<Rightarrow> 'w \<Rightarrow> 'w \<Rightarrow> 'w" where
  "FloatReciprocal F x y = fl_div F (fl_one F) y"

definition FloatReciprocalSqrt :: "'w FloatOps \<Rightarrow> 'w \<Rightarrow> 'w \<Rightarrow> 'w" where
  "FloatReciprocalSqrt F x y = fl_div F (fl_one F) (fl_sqrt F y)"

definition FloatMin :: "'w FloatOps \<Rightarrow> 'w \<Rightarrow> 'w \<Rightarrow> 'w" where
  "FloatMin F x y =
     (if fl_isnan F x \<or> fl_isnan F y \<or> fl_equal F x y then y else if fl_less F y x then y else x)"

definition FloatMax :: "'w FloatOps \<Rightarrow> 'w \<Rightarrow> 'w \<Rightarrow> 'w" where
  "FloatMax F x y =
     (if fl_isnan F x \<or> fl_isnan F y \<or> fl_equal F x y then y else if fl_less F x y then y else x)"

definition fcmp_result :: "nat \<Rightarrow> 'a::len word FloatOps \<Rightarrow> 'a word \<Rightarrow> 'a word \<Rightarrow> 'a word" where
  "fcmp_result predicate F x y =
     (let unordered = isunordered F x y;
          result = (if predicate = 0 then fl_equal F x y
                    else if predicate = 1 then fl_less F x y
                    else if predicate = 2 then fl_leq F x y
                    else if predicate = 3 then unordered
                    else if predicate = 4 then \<not> fl_equal F x y
                    else if predicate = 5 then \<not> fl_less F x y
                    else if predicate = 6 then \<not> fl_leq F x y
                    else \<not> unordered)
      in if result then NOT 0 else 0)"

definition fused_inputs :: "W64 \<Rightarrow> W64 \<Rightarrow> UopInputs" where
  "fused_inputs a b =
     \<lparr>ra = a, rb = b, rc = 0, raflags = 0, rbflags = 0, rcflags = 0, riptaken = 0, ripseq = 0\<rparr>"

definition x86_op_fmadd :: "FloatUnit \<Rightarrow> SSEFloatType \<Rightarrow> UopInputs \<Rightarrow> UopResult" where
  "x86_op_fmadd U type i =
     (let product = floatop2 type (both U fl_mul fl_mul) (fused_inputs (ra i) (rb i))
      in floatop2 type (both U fl_add fl_add) (fused_inputs (rddata product) (rc i)))"

definition x86_op_fmsub :: "FloatUnit \<Rightarrow> SSEFloatType \<Rightarrow> UopInputs \<Rightarrow> UopResult" where
  "x86_op_fmsub U type i =
     (let product = floatop2 type (both U fl_mul fl_mul) (fused_inputs (ra i) (rb i))
      in floatop2 type (both U fl_sub fl_sub) (fused_inputs (rddata product) (rc i)))"

definition x86_op_fmsubr :: "FloatUnit \<Rightarrow> SSEFloatType \<Rightarrow> UopInputs \<Rightarrow> UopResult" where
  "x86_op_fmsubr U type i =
     (let product = floatop2 type (both U fl_mul fl_mul) (fused_inputs (ra i) (rb i))
      in floatop2 type (both U fl_sub fl_sub) (fused_inputs (rc i) (rddata product)))"

definition uop_impl_fcmpcc :: "FloatUnit \<Rightarrow> nat \<Rightarrow> UopInputs \<Rightarrow> UopResult" where
  "uop_impl_fcmpcc U comptype i =
     (let dbl = comptype \<ge> 2;
          x = (if dbl then ra i else fu_widen U (sse_lo (ra i)));
          y = (if dbl then rb i else fu_widen U (sse_lo (rb i)));
          F = fu_double U;
          (zf, pf, cf) = (if isunordered F x y then (True, True, True) else (fl_equal F x y, False, fl_less F x y));
          flags = push_bit 6 (of_bool zf) + push_bit 2 (of_bool pf) + push_bit 0 (of_bool cf) :: W16
      in uop_out (ucast flags) flags)"

subsection \<open>Conversions\<close>

definition uop_impl_fcvt_i2s_ins :: "FloatUnit \<Rightarrow> UopInputs \<Rightarrow> UopResult" where
  "uop_impl_fcvt_i2s_ins U i = uop_out (sse_pair (sse_hi (ra i)) (fl_of_int (fu_single U) (sint (sse_lo (rb i))))) 0"

definition uop_impl_fcvt_q2s_ins :: "FloatUnit \<Rightarrow> UopInputs \<Rightarrow> UopResult" where
  "uop_impl_fcvt_q2s_ins U i = uop_out (sse_pair (sse_hi (ra i)) (fl_of_int (fu_single U) (sint (rb i)))) 0"

definition uop_impl_fcvt_q2d :: "FloatUnit \<Rightarrow> UopInputs \<Rightarrow> UopResult" where
  "uop_impl_fcvt_q2d U i = uop_out (fl_of_int (fu_double U) (sint (rb i))) 0"

definition uop_impl_fcvt_i2s_p :: "FloatUnit \<Rightarrow> UopInputs \<Rightarrow> UopResult" where
  "uop_impl_fcvt_i2s_p U i =
     uop_out (sse_pair (fl_of_int (fu_single U) (sint (sse_hi (rb i)))) (fl_of_int (fu_single U) (sint (sse_lo (rb i))))) 0"

definition uop_impl_fcvt_i2d_lo :: "FloatUnit \<Rightarrow> UopInputs \<Rightarrow> UopResult" where
  "uop_impl_fcvt_i2d_lo U i = uop_out (fl_of_int (fu_double U) (sint (sse_lo (rb i)))) 0"

definition uop_impl_fcvt_i2d_hi :: "FloatUnit \<Rightarrow> UopInputs \<Rightarrow> UopResult" where
  "uop_impl_fcvt_i2d_hi U i = uop_out (fl_of_int (fu_double U) (sint (sse_hi (rb i)))) 0"

definition uop_impl_fcvt_s2d_lo :: "FloatUnit \<Rightarrow> UopInputs \<Rightarrow> UopResult" where
  "uop_impl_fcvt_s2d_lo U i = uop_out (fu_widen U (sse_lo (rb i))) 0"

definition uop_impl_fcvt_s2d_hi :: "FloatUnit \<Rightarrow> UopInputs \<Rightarrow> UopResult" where
  "uop_impl_fcvt_s2d_hi U i = uop_out (fu_widen U (sse_hi (rb i))) 0"

definition uop_impl_fcvt_d2s_ins :: "FloatUnit \<Rightarrow> UopInputs \<Rightarrow> UopResult" where
  "uop_impl_fcvt_d2s_ins U i = uop_out (sse_pair (sse_hi (ra i)) (fu_narrow U (rb i))) 0"

text \<open>\<^verbatim>\<open>!(r >= -limit && r < limit)\<close> holds for a NaN or infinity too.\<close>

definition x86_fp_to_int :: "FloatUnit \<Rightarrow> W64 \<Rightarrow> bool \<Rightarrow> 'a::len word" where
  "x86_fp_to_int U v trunc =
     (let limit = (if LENGTH('a) div 8 = 4 then 2 ^ 31 else 2 ^ 63)
      in case (if trunc then fu_trunc U v else fu_nearbyint U v) of
           None \<Rightarrow> push_bit (LENGTH('a) - 1) 1
         | Some r \<Rightarrow> if \<not> (- limit \<le> r \<and> r < limit) then push_bit (LENGTH('a) - 1) 1 else word_of_int r)"

definition uop_impl_fcvt_s2i :: "FloatUnit \<Rightarrow> bool \<Rightarrow> UopInputs \<Rightarrow> UopResult" where
  "uop_impl_fcvt_s2i U trunc i = uop_out (ucast (x86_fp_to_int U (fu_widen U (sse_lo (rb i))) trunc :: W32)) 0"

definition uop_impl_fcvt_d2i :: "FloatUnit \<Rightarrow> bool \<Rightarrow> UopInputs \<Rightarrow> UopResult" where
  "uop_impl_fcvt_d2i U trunc i = uop_out (ucast (x86_fp_to_int U (rb i) trunc :: W32)) 0"

definition uop_impl_fcvt_s2q :: "FloatUnit \<Rightarrow> bool \<Rightarrow> UopInputs \<Rightarrow> UopResult" where
  "uop_impl_fcvt_s2q U trunc i = uop_out (x86_fp_to_int U (fu_widen U (sse_lo (rb i))) trunc) 0"

definition uop_impl_fcvt_d2q :: "FloatUnit \<Rightarrow> bool \<Rightarrow> UopInputs \<Rightarrow> UopResult" where
  "uop_impl_fcvt_d2q U trunc i = uop_out (x86_fp_to_int U (rb i) trunc) 0"

definition uop_impl_fcvt_s2i_p :: "FloatUnit \<Rightarrow> bool \<Rightarrow> UopInputs \<Rightarrow> UopResult" where
  "uop_impl_fcvt_s2i_p U trunc i =
     uop_out (sse_pair (x86_fp_to_int U (fu_widen U (sse_hi (rb i))) trunc)
                       (x86_fp_to_int U (fu_widen U (sse_lo (rb i))) trunc)) 0"

definition uop_impl_fcvt_d2i_p :: "FloatUnit \<Rightarrow> bool \<Rightarrow> UopInputs \<Rightarrow> UopResult" where
  "uop_impl_fcvt_d2i_p U trunc i = uop_out (sse_pair (x86_fp_to_int U (ra i) trunc) (x86_fp_to_int U (rb i) trunc)) 0"

definition uop_impl_fcvt_d2s_p :: "FloatUnit \<Rightarrow> UopInputs \<Rightarrow> UopResult" where
  "uop_impl_fcvt_d2s_p U i = uop_out (sse_pair (fu_narrow U (ra i)) (fu_narrow U (rb i))) 0"

subsection \<open>Conditions after an ordered compare\<close>

lemma sse_pair_parts: "sse_lo (sse_pair hi lo) = lo" "sse_hi (sse_pair hi lo) = hi"
  by (rule bit_word_eqI; auto simp: sse_lo_def sse_hi_def sse_pair_def bit_simps dest: bit_imp_le_length)+

lemma bit_fcmp_flags:
  "bit (push_bit 6 (of_bool zf) + push_bit 2 (of_bool pf) + push_bit 0 (of_bool cf) :: W16) n \<longleftrightarrow>
     (n = 6 \<and> zf) \<or> (n = 2 \<and> pf) \<or> (n = 0 \<and> cf)"
proof -
  have "(push_bit 6 (of_bool zf) + push_bit 2 (of_bool pf) + push_bit 0 (of_bool cf) :: W16) =
      push_bit 6 (of_bool zf) OR push_bit 2 (of_bool pf) OR of_bool cf"
    by (cases zf; cases pf; cases cf) simp_all
  then show ?thesis
    by (simp only: bit_or_iff bit_push_bit_iff bit_of_bool_iff) auto
qed

text \<open>After a scalar floating point compare the unsigned conditions order the
  operands, and the parity condition holds exactly when they are unordered: below (or
  unordered), equal (or unordered) and above are carry, zero and neither. The single form
  compares the low lanes, the double form the whole registers.\<close>

theorem fcmpcc_conditions:
  fixes U :: FloatUnit
  assumes "F = fu_double U" "x = (if comptype \<ge> 2 then ra i else fu_widen U (sse_lo (ra i)))"
    "y = (if comptype \<ge> 2 then rb i else fu_widen U (sse_lo (rb i)))" "f = rdflags (uop_impl_fcmpcc U comptype i)"
  shows "(evaluate_cond 10 f f \<longleftrightarrow> isunordered F x y)
    \<and> (evaluate_cond 2 f f \<longleftrightarrow> isunordered F x y \<or> fl_less F x y)
    \<and> (evaluate_cond 4 f f \<longleftrightarrow> isunordered F x y \<or> fl_equal F x y)
    \<and> (evaluate_cond 7 f f \<longleftrightarrow> \<not> isunordered F x y \<and> \<not> fl_less F x y \<and> \<not> fl_equal F x y)
    \<and> \<not> evaluate_cond 0 f f \<and> \<not> evaluate_cond 8 f f"
proof -
  have "bit f n \<longleftrightarrow> (n = 6 \<and> (isunordered F x y \<or> fl_equal F x y)) \<or> (n = 2 \<and> isunordered F x y)
      \<or> (n = 0 \<and> (isunordered F x y \<or> fl_less F x y))" for n
    unfolding assms uop_impl_fcmpcc_def Let_def
    by (cases "isunordered F x y") (simp_all only: assms if_True if_False prod.case out_simps bit_fcmp_flags simp_thms)
  then show ?thesis
    by (auto simp: evaluate_cond_def flag_test)
qed

text \<open>A fixed-point unit whose all-ones pattern plays the NaN.\<close>

definition fixed_ops :: "'a::len word FloatOps" where
  "fixed_ops = \<lparr>fl_add = (+), fl_sub = (-), fl_mul = (*), fl_div = (div), fl_sqrt = id,
     fl_less = (\<lambda>x y. x \<noteq> -1 \<and> y \<noteq> -1 \<and> x < y), fl_leq = (\<lambda>x y. x \<noteq> -1 \<and> y \<noteq> -1 \<and> x \<le> y),
     fl_equal = (\<lambda>x y. x \<noteq> -1 \<and> x = y), fl_isnan = (\<lambda>x. x = -1), fl_one = 1, fl_of_int = word_of_int\<rparr>"

definition fixed_unit :: FloatUnit where
  "fixed_unit = \<lparr>fu_single = fixed_ops, fu_double = fixed_ops, fu_widen = ucast, fu_narrow = ucast,
     fu_trunc = (\<lambda>x. if x = -1 then None else Some (sint x)), fu_nearbyint = (\<lambda>x. if x = -1 then None else Some (sint x))\<rparr>"

theorem fcmpcc_conditions_witness:
  "let f = rdflags (uop_impl_fcmpcc fixed_unit 2 (demo_inputs 3 5)); g = rdflags (uop_impl_fcmpcc fixed_unit 2 (demo_inputs (-1) 5))
   in evaluate_cond 2 f f \<and> \<not> evaluate_cond 10 f f \<and> evaluate_cond 10 g g"
  using fcmpcc_conditions [of fixed_ops fixed_unit _ 2 "demo_inputs 3 5", OF _ refl refl refl]
    fcmpcc_conditions [of fixed_ops fixed_unit _ 2 "demo_inputs (-1) 5", OF _ refl refl refl]
  by (simp add: fixed_unit_def fixed_ops_def isunordered_def demo_inputs_def Let_def)

end
