(* ===== verification/Uop_Dispatch.thy ===== *)
theory Uop_Dispatch
  imports Uop_Vec Uop_Float
begin

text \<open>
  The opcode numbers of \<^verbatim>\<open>src/x86sim/ptlhwdef.h\<close> and the selection of an implementation by
  opcode, operand size, flag setting, condition, shift and exception form,
  \<^verbatim>\<open>get_synthcode_for_uop\<close> in \<^verbatim>\<open>src/x86sim/uopimpl.cpp\<close>. Each group of cases of the
  switch is an association list; an opcode in none of them, an entry the source leaves null and
  an index past the end of an implementation table have no implementation.
\<close>

subsection \<open>Opcodes\<close>

definition OP_nop :: nat where [uop_defs]: "OP_nop = 0"
definition OP_mov :: nat where [uop_defs]: "OP_mov = 1"
definition OP_and :: nat where [uop_defs]: "OP_and = 2"
definition OP_andnot :: nat where [uop_defs]: "OP_andnot = 3"
definition OP_xor :: nat where [uop_defs]: "OP_xor = 4"
definition OP_or :: nat where [uop_defs]: "OP_or = 5"
definition OP_nand :: nat where [uop_defs]: "OP_nand = 6"
definition OP_ornot :: nat where [uop_defs]: "OP_ornot = 7"
definition OP_eqv :: nat where [uop_defs]: "OP_eqv = 8"
definition OP_nor :: nat where [uop_defs]: "OP_nor = 9"
definition OP_maskb :: nat where [uop_defs]: "OP_maskb = 10"
definition OP_add :: nat where [uop_defs]: "OP_add = 11"
definition OP_sub :: nat where [uop_defs]: "OP_sub = 12"
definition OP_adda :: nat where [uop_defs]: "OP_adda = 13"
definition OP_suba :: nat where [uop_defs]: "OP_suba = 14"
definition OP_addm :: nat where [uop_defs]: "OP_addm = 15"
definition OP_subm :: nat where [uop_defs]: "OP_subm = 16"
definition OP_andcc :: nat where [uop_defs]: "OP_andcc = 17"
definition OP_orcc :: nat where [uop_defs]: "OP_orcc = 18"
definition OP_xorcc :: nat where [uop_defs]: "OP_xorcc = 19"
definition OP_ornotcc :: nat where [uop_defs]: "OP_ornotcc = 20"
definition OP_movccr :: nat where [uop_defs]: "OP_movccr = 21"
definition OP_movrcc :: nat where [uop_defs]: "OP_movrcc = 22"
definition OP_collcc :: nat where [uop_defs]: "OP_collcc = 23"
definition OP_shls :: nat where [uop_defs]: "OP_shls = 24"
definition OP_shrs :: nat where [uop_defs]: "OP_shrs = 25"
definition OP_bswap :: nat where [uop_defs]: "OP_bswap = 26"
definition OP_sars :: nat where [uop_defs]: "OP_sars = 27"
definition OP_bt :: nat where [uop_defs]: "OP_bt = 28"
definition OP_bts :: nat where [uop_defs]: "OP_bts = 29"
definition OP_btr :: nat where [uop_defs]: "OP_btr = 30"
definition OP_btc :: nat where [uop_defs]: "OP_btc = 31"
definition OP_set :: nat where [uop_defs]: "OP_set = 32"
definition OP_set_sub :: nat where [uop_defs]: "OP_set_sub = 33"
definition OP_set_and :: nat where [uop_defs]: "OP_set_and = 34"
definition OP_sel :: nat where [uop_defs]: "OP_sel = 35"
definition OP_sel_cmp :: nat where [uop_defs]: "OP_sel_cmp = 36"
definition OP_br :: nat where [uop_defs]: "OP_br = 37"
definition OP_br_sub :: nat where [uop_defs]: "OP_br_sub = 38"
definition OP_br_and :: nat where [uop_defs]: "OP_br_and = 39"
definition OP_jmp :: nat where [uop_defs]: "OP_jmp = 40"
definition OP_bru :: nat where [uop_defs]: "OP_bru = 41"
definition OP_jmpp :: nat where [uop_defs]: "OP_jmpp = 42"
definition OP_brp :: nat where [uop_defs]: "OP_brp = 43"
definition OP_chk :: nat where [uop_defs]: "OP_chk = 44"
definition OP_chk_sub :: nat where [uop_defs]: "OP_chk_sub = 45"
definition OP_chk_and :: nat where [uop_defs]: "OP_chk_and = 46"
definition OP_ld :: nat where [uop_defs]: "OP_ld = 47"
definition OP_ldx :: nat where [uop_defs]: "OP_ldx = 48"
definition OP_ld_pre :: nat where [uop_defs]: "OP_ld_pre = 49"
definition OP_ld_a16 :: nat where [uop_defs]: "OP_ld_a16 = 50"
definition OP_st :: nat where [uop_defs]: "OP_st = 51"
definition OP_st_a16 :: nat where [uop_defs]: "OP_st_a16 = 52"
definition OP_mf :: nat where [uop_defs]: "OP_mf = 53"
definition OP_shl :: nat where [uop_defs]: "OP_shl = 54"
definition OP_shr :: nat where [uop_defs]: "OP_shr = 55"
definition OP_mask :: nat where [uop_defs]: "OP_mask = 56"
definition OP_sar :: nat where [uop_defs]: "OP_sar = 57"
definition OP_rotl :: nat where [uop_defs]: "OP_rotl = 58"
definition OP_rotr :: nat where [uop_defs]: "OP_rotr = 59"
definition OP_rotcl :: nat where [uop_defs]: "OP_rotcl = 60"
definition OP_rotcr :: nat where [uop_defs]: "OP_rotcr = 61"
definition OP_mull :: nat where [uop_defs]: "OP_mull = 62"
definition OP_mulh :: nat where [uop_defs]: "OP_mulh = 63"
definition OP_mulhu :: nat where [uop_defs]: "OP_mulhu = 64"
definition OP_mulhl :: nat where [uop_defs]: "OP_mulhl = 65"
definition OP_ctz :: nat where [uop_defs]: "OP_ctz = 66"
definition OP_clz :: nat where [uop_defs]: "OP_clz = 67"
definition OP_ctpop :: nat where [uop_defs]: "OP_ctpop = 68"
definition OP_permb :: nat where [uop_defs]: "OP_permb = 69"
definition OP_div :: nat where [uop_defs]: "OP_div = 70"
definition OP_rem :: nat where [uop_defs]: "OP_rem = 71"
definition OP_divs :: nat where [uop_defs]: "OP_divs = 72"
definition OP_rems :: nat where [uop_defs]: "OP_rems = 73"
definition OP_min :: nat where [uop_defs]: "OP_min = 74"
definition OP_max :: nat where [uop_defs]: "OP_max = 75"
definition OP_min_s :: nat where [uop_defs]: "OP_min_s = 76"
definition OP_max_s :: nat where [uop_defs]: "OP_max_s = 77"
definition OP_fadd :: nat where [uop_defs]: "OP_fadd = 78"
definition OP_fsub :: nat where [uop_defs]: "OP_fsub = 79"
definition OP_fmul :: nat where [uop_defs]: "OP_fmul = 80"
definition OP_fmadd :: nat where [uop_defs]: "OP_fmadd = 81"
definition OP_fmsub :: nat where [uop_defs]: "OP_fmsub = 82"
definition OP_fmsubr :: nat where [uop_defs]: "OP_fmsubr = 83"
definition OP_fdiv :: nat where [uop_defs]: "OP_fdiv = 84"
definition OP_fsqrt :: nat where [uop_defs]: "OP_fsqrt = 85"
definition OP_frcp :: nat where [uop_defs]: "OP_frcp = 86"
definition OP_frsqrt :: nat where [uop_defs]: "OP_frsqrt = 87"
definition OP_fmin :: nat where [uop_defs]: "OP_fmin = 88"
definition OP_fmax :: nat where [uop_defs]: "OP_fmax = 89"
definition OP_fcmp :: nat where [uop_defs]: "OP_fcmp = 90"
definition OP_fcmpcc :: nat where [uop_defs]: "OP_fcmpcc = 91"
definition OP_fcvt_i2s_ins :: nat where [uop_defs]: "OP_fcvt_i2s_ins = 92"
definition OP_fcvt_i2s_p :: nat where [uop_defs]: "OP_fcvt_i2s_p = 93"
definition OP_fcvt_i2d_lo :: nat where [uop_defs]: "OP_fcvt_i2d_lo = 94"
definition OP_fcvt_i2d_hi :: nat where [uop_defs]: "OP_fcvt_i2d_hi = 95"
definition OP_fcvt_q2s_ins :: nat where [uop_defs]: "OP_fcvt_q2s_ins = 96"
definition OP_fcvt_q2d :: nat where [uop_defs]: "OP_fcvt_q2d = 97"
definition OP_fcvt_s2i :: nat where [uop_defs]: "OP_fcvt_s2i = 98"
definition OP_fcvt_s2q :: nat where [uop_defs]: "OP_fcvt_s2q = 99"
definition OP_fcvt_s2i_p :: nat where [uop_defs]: "OP_fcvt_s2i_p = 100"
definition OP_fcvt_d2i :: nat where [uop_defs]: "OP_fcvt_d2i = 101"
definition OP_fcvt_d2q :: nat where [uop_defs]: "OP_fcvt_d2q = 102"
definition OP_fcvt_d2i_p :: nat where [uop_defs]: "OP_fcvt_d2i_p = 103"
definition OP_fcvt_d2s_ins :: nat where [uop_defs]: "OP_fcvt_d2s_ins = 104"
definition OP_fcvt_d2s_p :: nat where [uop_defs]: "OP_fcvt_d2s_p = 105"
definition OP_fcvt_s2d_lo :: nat where [uop_defs]: "OP_fcvt_s2d_lo = 106"
definition OP_fcvt_s2d_hi :: nat where [uop_defs]: "OP_fcvt_s2d_hi = 107"
definition OP_vadd :: nat where [uop_defs]: "OP_vadd = 108"
definition OP_vsub :: nat where [uop_defs]: "OP_vsub = 109"
definition OP_vadd_us :: nat where [uop_defs]: "OP_vadd_us = 110"
definition OP_vsub_us :: nat where [uop_defs]: "OP_vsub_us = 111"
definition OP_vadd_ss :: nat where [uop_defs]: "OP_vadd_ss = 112"
definition OP_vsub_ss :: nat where [uop_defs]: "OP_vsub_ss = 113"
definition OP_vshl :: nat where [uop_defs]: "OP_vshl = 114"
definition OP_vshr :: nat where [uop_defs]: "OP_vshr = 115"
definition OP_vbt :: nat where [uop_defs]: "OP_vbt = 116"
definition OP_vsar :: nat where [uop_defs]: "OP_vsar = 117"
definition OP_vavg :: nat where [uop_defs]: "OP_vavg = 118"
definition OP_vcmp :: nat where [uop_defs]: "OP_vcmp = 119"
definition OP_vmin :: nat where [uop_defs]: "OP_vmin = 120"
definition OP_vmax :: nat where [uop_defs]: "OP_vmax = 121"
definition OP_vmin_s :: nat where [uop_defs]: "OP_vmin_s = 122"
definition OP_vmax_s :: nat where [uop_defs]: "OP_vmax_s = 123"
definition OP_vmull :: nat where [uop_defs]: "OP_vmull = 124"
definition OP_vmulh :: nat where [uop_defs]: "OP_vmulh = 125"
definition OP_vmulhu :: nat where [uop_defs]: "OP_vmulhu = 126"
definition OP_vmaddp :: nat where [uop_defs]: "OP_vmaddp = 127"
definition OP_vsad :: nat where [uop_defs]: "OP_vsad = 128"
definition OP_vpack_us :: nat where [uop_defs]: "OP_vpack_us = 129"
definition OP_vpack_ss :: nat where [uop_defs]: "OP_vpack_ss = 130"
definition OP_MAX_OPCODE :: nat where [uop_defs]: "OP_MAX_OPCODE = 131"

lemmas opcode_defs =
  OP_nop_def OP_mov_def OP_and_def OP_andnot_def OP_xor_def OP_or_def OP_nand_def
  OP_ornot_def OP_eqv_def OP_nor_def OP_maskb_def OP_add_def OP_sub_def OP_adda_def
  OP_suba_def OP_addm_def OP_subm_def OP_andcc_def OP_orcc_def OP_xorcc_def OP_ornotcc_def
  OP_movccr_def OP_movrcc_def OP_collcc_def OP_shls_def OP_shrs_def OP_bswap_def OP_sars_def
  OP_bt_def OP_bts_def OP_btr_def OP_btc_def OP_set_def OP_set_sub_def OP_set_and_def
  OP_sel_def OP_sel_cmp_def OP_br_def OP_br_sub_def OP_br_and_def OP_jmp_def OP_bru_def
  OP_jmpp_def OP_brp_def OP_chk_def OP_chk_sub_def OP_chk_and_def OP_ld_def OP_ldx_def
  OP_ld_pre_def OP_ld_a16_def OP_st_def OP_st_a16_def OP_mf_def OP_shl_def OP_shr_def
  OP_mask_def OP_sar_def OP_rotl_def OP_rotr_def OP_rotcl_def OP_rotcr_def OP_mull_def
  OP_mulh_def OP_mulhu_def OP_mulhl_def OP_ctz_def OP_clz_def OP_ctpop_def OP_permb_def
  OP_div_def OP_rem_def OP_divs_def OP_rems_def OP_min_def OP_max_def OP_min_s_def
  OP_max_s_def OP_fadd_def OP_fsub_def OP_fmul_def OP_fmadd_def OP_fmsub_def OP_fmsubr_def
  OP_fdiv_def OP_fsqrt_def OP_frcp_def OP_frsqrt_def OP_fmin_def OP_fmax_def OP_fcmp_def
  OP_fcmpcc_def OP_fcvt_i2s_ins_def OP_fcvt_i2s_p_def OP_fcvt_i2d_lo_def OP_fcvt_i2d_hi_def OP_fcvt_q2s_ins_def OP_fcvt_q2d_def
  OP_fcvt_s2i_def OP_fcvt_s2q_def OP_fcvt_s2i_p_def OP_fcvt_d2i_def OP_fcvt_d2q_def OP_fcvt_d2i_p_def OP_fcvt_d2s_ins_def
  OP_fcvt_d2s_p_def OP_fcvt_s2d_lo_def OP_fcvt_s2d_hi_def OP_vadd_def OP_vsub_def OP_vadd_us_def OP_vsub_us_def
  OP_vadd_ss_def OP_vsub_ss_def OP_vshl_def OP_vshr_def OP_vbt_def OP_vsar_def OP_vavg_def
  OP_vcmp_def OP_vmin_def OP_vmax_def OP_vmin_s_def OP_vmax_s_def OP_vmull_def OP_vmulh_def
  OP_vmulhu_def OP_vmaddp_def OP_vsad_def OP_vpack_us_def OP_vpack_ss_def OP_MAX_OPCODE_def

subsection \<open>Implementation tables\<close>

type_synonym UopImpl = "UopInputs \<Rightarrow> host_fault + UopResult"

definition impl :: "(UopInputs \<Rightarrow> UopResult) \<Rightarrow> UopImpl option" where
  "impl f = Some (\<lambda>i. Inr (f i))"

definition pick :: "(UopInputs \<Rightarrow> UopResult) list \<Rightarrow> nat \<Rightarrow> UopImpl option" where
  "pick fs k = (if k < length fs then impl (fs ! k) else None)"

definition flags_if :: "bool \<Rightarrow> W8 \<Rightarrow> W8" where
  "flags_if setflags flagset = (if setflags then flagset else 0)"

definition implmap_alu :: "8 alufunc \<Rightarrow> 16 alufunc \<Rightarrow> 32 alufunc \<Rightarrow> 64 alufunc \<Rightarrow> W8 \<Rightarrow> nat \<Rightarrow> bool \<Rightarrow> UopImpl option" where
  "implmap_alu f8 f16 f32 f64 flagset sz setflags =
     (let g = flags_if setflags flagset in pick [aluop f8 g, aluop f16 g, aluop f32 g, aluop f64 g] sz)"

definition implmap_scan :: "8 alufunc \<Rightarrow> 16 alufunc \<Rightarrow> 32 alufunc \<Rightarrow> 64 alufunc \<Rightarrow> nat \<Rightarrow> bool \<Rightarrow> UopImpl option" where
  "implmap_scan f8 f16 f32 f64 sz setflags =
     (let g = flags_if setflags SETFLAG_ZF in pick [ctzclzop f8 g, ctzclzop f16 g, ctzclzop f32 g, ctzclzop f64 g] sz)"

definition implmap_alu3s ::
  "8 alufunc \<Rightarrow> 16 alufunc \<Rightarrow> 32 alufunc \<Rightarrow> 64 alufunc \<Rightarrow> nat \<Rightarrow> nat \<Rightarrow> UopImpl option" where
  "implmap_alu3s f8 f16 f32 f64 sz extshift =
     (if extshift < 4
      then pick [aluop3s f8 0 extshift, aluop3s f16 0 extshift, aluop3s f32 0 extshift, aluop3s f64 0 extshift] sz
      else None)"

definition implmap_shift ::
  "8 shiftfunc \<Rightarrow> 16 shiftfunc \<Rightarrow> 32 shiftfunc \<Rightarrow> 64 shiftfunc \<Rightarrow> nat \<Rightarrow> bool \<Rightarrow> UopImpl option" where
  "implmap_shift f8 f16 f32 f64 sz setflags =
     (let g = flags_if setflags all_flags in pick [shiftop f8 g, shiftop f16 g, shiftop f32 g, shiftop f64 g] sz)"

definition implmap_mask :: "nat \<Rightarrow> nat \<Rightarrow> UopImpl option" where
  "implmap_mask sz ext =
     (if ext < 3
      then let z = ext = 1; s = ext = 2
           in pick [exp_op_mask TYPE(8) z s, exp_op_mask TYPE(16) z s, exp_op_mask TYPE(32) z s, exp_op_mask TYPE(64) z s] sz
      else None)"

text \<open>A conditional operation has sixteen rows.\<close>

definition cond_row :: "nat \<Rightarrow> UopImpl option \<Rightarrow> UopImpl option" where
  "cond_row cond f = (if cond < 16 then f else None)"

definition compare_sizes ::
  "nat \<Rightarrow> nat \<Rightarrow> (UopInputs \<Rightarrow> UopResult) list list \<Rightarrow> UopImpl option" where
  "compare_sizes sz extshift fss = (if sz < length fss then pick (fss ! sz) extshift else None)"

definition implmap_div :: "(8 divfunc \<Rightarrow> UopInputs \<Rightarrow> UopResult) \<Rightarrow> (16 divfunc \<Rightarrow> UopInputs \<Rightarrow> UopResult) \<Rightarrow>
    (32 divfunc \<Rightarrow> UopInputs \<Rightarrow> UopResult) \<Rightarrow> (64 divfunc \<Rightarrow> UopInputs \<Rightarrow> UopResult) \<Rightarrow> nat \<Rightarrow> UopImpl option" where
  "implmap_div f8 f16 f32 f64 sz = pick [f8 div_rem, f16 div_rem, f32 div_rem, f64 div_rem_W64] sz"

definition implmap_divs :: "(8 sdivfunc \<Rightarrow> UopImpl) \<Rightarrow> (16 sdivfunc \<Rightarrow> UopImpl) \<Rightarrow> (32 sdivfunc \<Rightarrow> UopImpl) \<Rightarrow>
    (64 sdivfunc \<Rightarrow> UopImpl) \<Rightarrow> nat \<Rightarrow> UopImpl option" where
  "implmap_divs f8 f16 f32 f64 sz =
     (let fs = [f8 div_rem_s, f16 div_rem_s, f32 div_rem_s, f64 (\<lambda>h l d. Inr (div_rem_s_W64 h l d))]
      in if sz < 4 then Some (fs ! sz) else None)"

definition implmap_float :: "floatfunc \<Rightarrow> nat \<Rightarrow> UopImpl option" where
  "implmap_float op sz = pick (map (\<lambda>t. floatop2 t op) [ScalarSingle, PackedSingle, ScalarDouble, PackedDouble]) sz"

definition implmap_fused :: "(SSEFloatType \<Rightarrow> UopInputs \<Rightarrow> UopResult) \<Rightarrow> nat \<Rightarrow> UopImpl option" where
  "implmap_fused f sz = pick (map f [ScalarSingle, PackedSingle, ScalarDouble, PackedDouble]) sz"

text \<open>\<^verbatim>\<open>make_vec_implmap\<close>: a lane size outside the mask is a no-op.\<close>

definition make_vec_implmap :: "bool \<Rightarrow> bool \<Rightarrow> bool \<Rightarrow> bool \<Rightarrow> (UopInputs \<Rightarrow> UopResult) list \<Rightarrow> nat \<Rightarrow> UopImpl option" where
  "make_vec_implmap b w d q fs sz =
     pick (map2 (\<lambda>on f. if on then f else x86_op_nop) [b, w, d, q] fs) sz"

subsection \<open>The switch\<close>

definition synth_alu :: "nat \<Rightarrow> bool \<Rightarrow> nat \<Rightarrow> (nat \<times> UopImpl option) list" where
  "synth_alu sz setflags extshift =
    [(OP_nop, impl uop_impl_nop),
     (OP_mov, pick [exp_op_mov TYPE(8), exp_op_mov TYPE(16), exp_op_mov TYPE(32), exp_op_mov TYPE(64)] sz),
     (OP_and, implmap_alu exp_op_and exp_op_and exp_op_and exp_op_and SETFLAG_ZF sz setflags),
     (OP_or, implmap_alu exp_op_or exp_op_or exp_op_or exp_op_or SETFLAG_ZF sz setflags),
     (OP_xor, implmap_alu exp_op_xor exp_op_xor exp_op_xor exp_op_xor SETFLAG_ZF sz setflags),
     (OP_andnot, implmap_alu exp_op_andnot exp_op_andnot exp_op_andnot exp_op_andnot SETFLAG_ZF sz setflags),
     (OP_ornot, implmap_alu exp_op_ornot exp_op_ornot exp_op_ornot exp_op_ornot SETFLAG_ZF sz setflags),
     (OP_nand, implmap_alu exp_op_nand exp_op_nand exp_op_nand exp_op_nand SETFLAG_ZF sz setflags),
     (OP_nor, implmap_alu exp_op_nor exp_op_nor exp_op_nor exp_op_nor SETFLAG_ZF sz setflags),
     (OP_eqv, implmap_alu exp_op_eqv exp_op_eqv exp_op_eqv exp_op_eqv SETFLAG_ZF sz setflags),
     (OP_add, implmap_alu x86_op_add x86_op_add x86_op_add x86_op_add all_flags sz setflags),
     (OP_sub, implmap_alu x86_op_sub x86_op_sub x86_op_sub x86_op_sub all_flags sz setflags),
     (OP_adda, implmap_alu3s exp_op_adda exp_op_adda exp_op_adda exp_op_adda sz extshift),
     (OP_suba, implmap_alu3s exp_op_suba exp_op_suba exp_op_suba exp_op_suba sz extshift),
     (OP_addm, implmap_alu exp_op_addm exp_op_addm exp_op_addm exp_op_addm SETFLAG_ZF sz setflags),
     (OP_subm, implmap_alu exp_op_subm exp_op_subm exp_op_subm exp_op_subm SETFLAG_ZF sz setflags)]"

definition synth_cond :: "nat \<Rightarrow> nat \<Rightarrow> nat \<Rightarrow> bool \<Rightarrow> (nat \<times> UopImpl option) list" where
  "synth_cond sz cond extshift except =
    [(OP_sel, cond_row cond (pick [uop_impl_sel TYPE(8) cond, uop_impl_sel TYPE(16) cond, uop_impl_sel TYPE(32) cond, uop_impl_sel TYPE(64) cond] sz)),
     (OP_sel_cmp, cond_row cond (compare_sizes sz extshift
        [[uop_impl_sel_cmp TYPE(8) TYPE(8) cond, uop_impl_sel_cmp TYPE(8) TYPE(16) cond, uop_impl_sel_cmp TYPE(8) TYPE(32) cond, uop_impl_sel_cmp TYPE(8) TYPE(64) cond],
         [uop_impl_sel_cmp TYPE(16) TYPE(8) cond, uop_impl_sel_cmp TYPE(16) TYPE(16) cond, uop_impl_sel_cmp TYPE(16) TYPE(32) cond, uop_impl_sel_cmp TYPE(16) TYPE(64) cond],
         [uop_impl_sel_cmp TYPE(32) TYPE(8) cond, uop_impl_sel_cmp TYPE(32) TYPE(16) cond, uop_impl_sel_cmp TYPE(32) TYPE(32) cond, uop_impl_sel_cmp TYPE(32) TYPE(64) cond],
         [uop_impl_sel_cmp TYPE(64) TYPE(8) cond, uop_impl_sel_cmp TYPE(64) TYPE(16) cond, uop_impl_sel_cmp TYPE(64) TYPE(32) cond, uop_impl_sel_cmp TYPE(64) TYPE(64) cond]])),
     (OP_set, cond_row cond (pick [uop_impl_set TYPE(8) cond, uop_impl_set TYPE(16) cond, uop_impl_set TYPE(32) cond, uop_impl_set TYPE(64) cond] sz)),
     (OP_set_and, cond_row cond (compare_sizes sz extshift
        [[uop_impl_set_and TYPE(8) TYPE(8) cond, uop_impl_set_and TYPE(8) TYPE(16) cond, uop_impl_set_and TYPE(8) TYPE(32) cond, uop_impl_set_and TYPE(8) TYPE(64) cond],
         [uop_impl_set_and TYPE(16) TYPE(8) cond, uop_impl_set_and TYPE(16) TYPE(16) cond, uop_impl_set_and TYPE(16) TYPE(32) cond, uop_impl_set_and TYPE(16) TYPE(64) cond],
         [uop_impl_set_and TYPE(32) TYPE(8) cond, uop_impl_set_and TYPE(32) TYPE(16) cond, uop_impl_set_and TYPE(32) TYPE(32) cond, uop_impl_set_and TYPE(32) TYPE(64) cond],
         [uop_impl_set_and TYPE(64) TYPE(8) cond, uop_impl_set_and TYPE(64) TYPE(16) cond, uop_impl_set_and TYPE(64) TYPE(32) cond, uop_impl_set_and TYPE(64) TYPE(64) cond]])),
     (OP_set_sub, cond_row cond (compare_sizes sz extshift
        [[uop_impl_set_sub TYPE(8) TYPE(8) cond, uop_impl_set_sub TYPE(8) TYPE(16) cond, uop_impl_set_sub TYPE(8) TYPE(32) cond, uop_impl_set_sub TYPE(8) TYPE(64) cond],
         [uop_impl_set_sub TYPE(16) TYPE(8) cond, uop_impl_set_sub TYPE(16) TYPE(16) cond, uop_impl_set_sub TYPE(16) TYPE(32) cond, uop_impl_set_sub TYPE(16) TYPE(64) cond],
         [uop_impl_set_sub TYPE(32) TYPE(8) cond, uop_impl_set_sub TYPE(32) TYPE(16) cond, uop_impl_set_sub TYPE(32) TYPE(32) cond, uop_impl_set_sub TYPE(32) TYPE(64) cond],
         [uop_impl_set_sub TYPE(64) TYPE(8) cond, uop_impl_set_sub TYPE(64) TYPE(16) cond, uop_impl_set_sub TYPE(64) TYPE(32) cond, uop_impl_set_sub TYPE(64) TYPE(64) cond]])),
     (OP_br, cond_row cond (impl (uop_impl_condbranch cond except))),
     (OP_br_sub, cond_row cond (pick
        [uop_impl_alu_and_condbranch (sub_flag_gen_op :: W8 \<Rightarrow> _) cond except,
         uop_impl_alu_and_condbranch (sub_flag_gen_op :: W16 \<Rightarrow> _) cond except,
         uop_impl_alu_and_condbranch (sub_flag_gen_op :: W32 \<Rightarrow> _) cond except,
         uop_impl_alu_and_condbranch (sub_flag_gen_op :: W64 \<Rightarrow> _) cond except] sz)),
     (OP_br_and, cond_row cond (pick
        [uop_impl_alu_and_condbranch (and_flag_gen_op :: W8 \<Rightarrow> _) cond except,
         uop_impl_alu_and_condbranch (and_flag_gen_op :: W16 \<Rightarrow> _) cond except,
         uop_impl_alu_and_condbranch (and_flag_gen_op :: W32 \<Rightarrow> _) cond except,
         uop_impl_alu_and_condbranch (and_flag_gen_op :: W64 \<Rightarrow> _) cond except] sz)),
     (OP_jmp, impl (if except then uop_impl_jmp_ex else uop_impl_jmp)),
     (OP_bru, impl uop_impl_bru),
     (OP_brp, impl uop_impl_brp),
     (OP_chk, cond_row cond (impl (uop_impl_chk cond))),
     (OP_chk_sub, cond_row cond (pick [uop_impl_chk_sub TYPE(8) cond, uop_impl_chk_sub TYPE(16) cond, uop_impl_chk_sub TYPE(32) cond, uop_impl_chk_sub TYPE(64) cond] sz)),
     (OP_chk_and, cond_row cond (pick [uop_impl_chk_and TYPE(8) cond, uop_impl_chk_and TYPE(16) cond, uop_impl_chk_and TYPE(32) cond, uop_impl_chk_and TYPE(64) cond] sz)),
     (OP_ld, impl uop_impl_nop),
     (OP_ldx, impl uop_impl_nop),
     (OP_ld_pre, impl uop_impl_nop),
     (OP_ld_a16, impl uop_impl_nop),
     (OP_st, impl uop_impl_nop),
     (OP_st_a16, impl uop_impl_nop),
     (OP_mf, impl uop_impl_nop)]"

definition synth_shift :: "nat \<Rightarrow> bool \<Rightarrow> nat \<Rightarrow> (nat \<times> UopImpl option) list" where
  "synth_shift sz setflags cond =
    [(OP_bt, implmap_alu exp_op_bt exp_op_bt exp_op_bt exp_op_bt SETFLAG_CF sz setflags),
     (OP_bts, implmap_alu exp_op_bts exp_op_bts exp_op_bts exp_op_bts SETFLAG_CF sz setflags),
     (OP_btr, implmap_alu exp_op_btr exp_op_btr exp_op_btr exp_op_btr SETFLAG_CF sz setflags),
     (OP_btc, implmap_alu exp_op_btc exp_op_btc exp_op_btc exp_op_btc SETFLAG_CF sz setflags),
     (OP_rotl, implmap_shift RotateLeftOp RotateLeftOp RotateLeftOp RotateLeftOp sz setflags),
     (OP_rotr, implmap_shift RotateRightOp RotateRightOp RotateRightOp RotateRightOp sz setflags),
     (OP_rotcl, implmap_shift RotateCarryLeftOp RotateCarryLeftOp RotateCarryLeftOp RotateCarryLeftOp sz setflags),
     (OP_rotcr, implmap_shift RotateCarryRightOp RotateCarryRightOp RotateCarryRightOp RotateCarryRightOp sz setflags),
     (OP_shl, implmap_shift ShiftLeftOp ShiftLeftOp ShiftLeftOp ShiftLeftOp sz setflags),
     (OP_shr, implmap_shift ShiftRightOp ShiftRightOp ShiftRightOp ShiftRightOp sz setflags),
     (OP_sar, implmap_shift ShiftArithmeticRightOp ShiftArithmeticRightOp ShiftArithmeticRightOp ShiftArithmeticRightOp sz setflags),
     (OP_mask, implmap_mask sz cond),
     (OP_shls, implmap_shift ShiftLeftOp ShiftLeftOp ShiftLeftOp ShiftLeftOp sz setflags),
     (OP_shrs, implmap_shift ShiftRightOp ShiftRightOp ShiftRightOp ShiftRightOp sz setflags),
     (OP_sars, implmap_shift ShiftArithmeticRightOp ShiftArithmeticRightOp ShiftArithmeticRightOp ShiftArithmeticRightOp sz setflags),
     (OP_maskb, implmap_mask sz cond),
     (OP_bswap, implmap_alu exp_op_bswap exp_op_bswap exp_op_bswap exp_op_bswap 0 sz False),
     (OP_collcc, impl uop_impl_collcc),
     (OP_movccr, impl uop_impl_movccr),
     (OP_movrcc, impl uop_impl_movrcc),
     (OP_andcc, impl uop_impl_andcc),
     (OP_orcc, impl uop_impl_orcc),
     (OP_ornotcc, impl uop_impl_ornotcc),
     (OP_xorcc, impl uop_impl_xorcc)]"

definition synth_mul :: "nat \<Rightarrow> bool \<Rightarrow> (nat \<times> UopImpl option) list" where
  "synth_mul sz setflags =
    [(OP_mull, implmap_alu x86_op_mull x86_op_mull x86_op_mull x86_op_mull all_flags sz setflags),
     (OP_mulh, implmap_alu x86_op_mulh x86_op_mulh x86_op_mulh x86_op_mulh all_flags sz setflags),
     (OP_mulhu, implmap_alu x86_op_mulhu x86_op_mulhu x86_op_mulhu x86_op_mulhu all_flags sz setflags),
     (OP_mulhl, pick [uop_impl_mulhl TYPE(8), uop_impl_mulhl TYPE(16), uop_impl_mulhl TYPE(32), uop_impl_mulhl TYPE(64)] sz),
     (OP_ctz, implmap_scan exp_op_ctz exp_op_ctz exp_op_ctz exp_op_ctz sz setflags),
     (OP_clz, implmap_scan exp_op_clz exp_op_clz exp_op_clz exp_op_clz sz setflags),
     (OP_permb, impl uop_impl_permb),
     (OP_div, implmap_div x86_div x86_div x86_div x86_div sz),
     (OP_rem, implmap_div x86_rem x86_rem x86_rem x86_rem sz),
     (OP_divs, implmap_divs x86_divs x86_divs x86_divs x86_divs sz),
     (OP_rems, implmap_divs x86_rems x86_rems x86_rems x86_rems sz),
     (OP_min, pick [uop_impl_min_max TYPE(8) False False, uop_impl_min_max TYPE(16) False False, uop_impl_min_max TYPE(32) False False, uop_impl_min_max TYPE(64) False False] sz),
     (OP_max, pick [uop_impl_min_max TYPE(8) False True, uop_impl_min_max TYPE(16) False True, uop_impl_min_max TYPE(32) False True, uop_impl_min_max TYPE(64) False True] sz),
     (OP_min_s, pick [uop_impl_min_max TYPE(8) True False, uop_impl_min_max TYPE(16) True False, uop_impl_min_max TYPE(32) True False, uop_impl_min_max TYPE(64) True False] sz),
     (OP_max_s, pick [uop_impl_min_max TYPE(8) True True, uop_impl_min_max TYPE(16) True True, uop_impl_min_max TYPE(32) True True, uop_impl_min_max TYPE(64) True True] sz)]"

definition synth_float :: "FloatUnit \<Rightarrow> nat \<Rightarrow> nat \<Rightarrow> (nat \<times> UopImpl option) list" where
  "synth_float U sz cond =
    [(OP_fadd, implmap_float (both U fl_add fl_add) sz),
     (OP_fsub, implmap_float (both U fl_sub fl_sub) sz),
     (OP_fmul, implmap_float (both U fl_mul fl_mul) sz),
     (OP_fmadd, implmap_fused (x86_op_fmadd U) sz),
     (OP_fmsub, implmap_fused (x86_op_fmsub U) sz),
     (OP_fmsubr, implmap_fused (x86_op_fmsubr U) sz),
     (OP_fdiv, implmap_float (both U fl_div fl_div) sz),
     (OP_fsqrt, implmap_float (both U FloatSqrt FloatSqrt) sz),
     (OP_frcp, implmap_float (both U FloatReciprocal FloatReciprocal) sz),
     (OP_frsqrt, implmap_float (both U FloatReciprocalSqrt FloatReciprocalSqrt) sz),
     (OP_fmin, implmap_float (both U FloatMin FloatMin) sz),
     (OP_fmax, implmap_float (both U FloatMax FloatMax) sz),
     (OP_fcmp, if cond < 8 then implmap_float (both U (fcmp_result cond) (fcmp_result cond)) sz else None),
     (OP_fcmpcc, if cond = 0 then pick (map (uop_impl_fcmpcc U) [0, 1, 2, 3]) sz else None),
     (OP_fcvt_i2s_ins, impl (uop_impl_fcvt_i2s_ins U)),
     (OP_fcvt_i2s_p, impl (uop_impl_fcvt_i2s_p U)),
     (OP_fcvt_i2d_lo, impl (uop_impl_fcvt_i2d_lo U)),
     (OP_fcvt_i2d_hi, impl (uop_impl_fcvt_i2d_hi U)),
     (OP_fcvt_q2s_ins, impl (uop_impl_fcvt_q2s_ins U)),
     (OP_fcvt_q2d, impl (uop_impl_fcvt_q2d U)),
     (OP_fcvt_s2i, impl (uop_impl_fcvt_s2i U (odd sz))),
     (OP_fcvt_s2q, impl (uop_impl_fcvt_s2q U (odd sz))),
     (OP_fcvt_s2i_p, impl (uop_impl_fcvt_s2i_p U (odd sz))),
     (OP_fcvt_d2i, impl (uop_impl_fcvt_d2i U (odd sz))),
     (OP_fcvt_d2q, impl (uop_impl_fcvt_d2q U (odd sz))),
     (OP_fcvt_d2i_p, impl (uop_impl_fcvt_d2i_p U (odd sz))),
     (OP_fcvt_d2s_ins, impl (uop_impl_fcvt_d2s_ins U)),
     (OP_fcvt_d2s_p, impl (uop_impl_fcvt_d2s_p U)),
     (OP_fcvt_s2d_lo, impl (uop_impl_fcvt_s2d_lo U)),
     (OP_fcvt_s2d_hi, impl (uop_impl_fcvt_s2d_hi U))]"

definition synth_vec :: "nat \<Rightarrow> nat \<Rightarrow> (nat \<times> UopImpl option) list" where
  "synth_vec sz cond =
    [(OP_vadd, make_vec_implmap True True True True [vecop (lane_add :: W8 \<Rightarrow> _), vecop (lane_add :: W16 \<Rightarrow> _), vecop (lane_add :: W32 \<Rightarrow> _), vecop (lane_add :: W64 \<Rightarrow> _)] sz),
     (OP_vsub, make_vec_implmap True True True True [vecop (lane_sub :: W8 \<Rightarrow> _), vecop (lane_sub :: W16 \<Rightarrow> _), vecop (lane_sub :: W32 \<Rightarrow> _), vecop (lane_sub :: W64 \<Rightarrow> _)] sz),
     (OP_vadd_us, make_vec_implmap True True False False [vecop (lane_add_us :: W8 \<Rightarrow> _), vecop (lane_add_us :: W16 \<Rightarrow> _), vecop (lane_add_us :: W32 \<Rightarrow> _), vecop (lane_add_us :: W64 \<Rightarrow> _)] sz),
     (OP_vsub_us, make_vec_implmap True True False False [vecop (lane_sub_us :: W8 \<Rightarrow> _), vecop (lane_sub_us :: W16 \<Rightarrow> _), vecop (lane_sub_us :: W32 \<Rightarrow> _), vecop (lane_sub_us :: W64 \<Rightarrow> _)] sz),
     (OP_vadd_ss, make_vec_implmap True True False False [vecop (lane_add_ss :: W8 \<Rightarrow> _), vecop (lane_add_ss :: W16 \<Rightarrow> _), vecop (lane_add_ss :: W32 \<Rightarrow> _), vecop (lane_add_ss :: W64 \<Rightarrow> _)] sz),
     (OP_vsub_ss, make_vec_implmap True True False False [vecop (lane_sub_ss :: W8 \<Rightarrow> _), vecop (lane_sub_ss :: W16 \<Rightarrow> _), vecop (lane_sub_ss :: W32 \<Rightarrow> _), vecop (lane_sub_ss :: W64 \<Rightarrow> _)] sz),
     (OP_vshl, make_vec_implmap False True True True [vecshift TYPE(8) Left, vecshift TYPE(16) Left, vecshift TYPE(32) Left, vecshift TYPE(64) Left] sz),
     (OP_vshr, make_vec_implmap False True True True [vecshift TYPE(8) Right, vecshift TYPE(16) Right, vecshift TYPE(32) Right, vecshift TYPE(64) Right] sz),
     (OP_vbt, pick (map uop_impl_vbt [0, 1, 2, 3]) sz),
     (OP_vsar, make_vec_implmap False True True False [vecshift TYPE(8) RightArith, vecshift TYPE(16) RightArith, vecshift TYPE(32) RightArith, vecshift TYPE(64) RightArith] sz),
     (OP_vavg, make_vec_implmap True True False False [vecop (lane_avg :: W8 \<Rightarrow> _), vecop (lane_avg :: W16 \<Rightarrow> _), vecop (lane_avg :: W32 \<Rightarrow> _), vecop (lane_avg :: W64 \<Rightarrow> _)] sz),
     (OP_vcmp, cond_row cond (pick (map (\<lambda>s. uop_impl_vcmp s cond) [0, 1, 2, 3]) sz)),
     (OP_vmin, make_vec_implmap True False False False [vecop (lane_min :: W8 \<Rightarrow> _), vecop (lane_min :: W16 \<Rightarrow> _), vecop (lane_min :: W32 \<Rightarrow> _), vecop (lane_min :: W64 \<Rightarrow> _)] sz),
     (OP_vmax, make_vec_implmap True False False False [vecop (lane_max :: W8 \<Rightarrow> _), vecop (lane_max :: W16 \<Rightarrow> _), vecop (lane_max :: W32 \<Rightarrow> _), vecop (lane_max :: W64 \<Rightarrow> _)] sz),
     (OP_vmin_s, make_vec_implmap False True False False [vecop (lane_min_s :: W8 \<Rightarrow> _), vecop (lane_min_s :: W16 \<Rightarrow> _), vecop (lane_min_s :: W32 \<Rightarrow> _), vecop (lane_min_s :: W64 \<Rightarrow> _)] sz),
     (OP_vmax_s, make_vec_implmap False True False False [vecop (lane_max_s :: W8 \<Rightarrow> _), vecop (lane_max_s :: W16 \<Rightarrow> _), vecop (lane_max_s :: W32 \<Rightarrow> _), vecop (lane_max_s :: W64 \<Rightarrow> _)] sz),
     (OP_vmull, make_vec_implmap False True False False [vecop (lane_mull :: W8 \<Rightarrow> _), vecop (lane_mull :: W16 \<Rightarrow> _), vecop (lane_mull :: W32 \<Rightarrow> _), vecop (lane_mull :: W64 \<Rightarrow> _)] sz),
     (OP_vmulh, make_vec_implmap False True False False [vecop (lane_mulh :: W8 \<Rightarrow> _), vecop (lane_mulh :: W16 \<Rightarrow> _), vecop (lane_mulh :: W32 \<Rightarrow> _), vecop (lane_mulh :: W64 \<Rightarrow> _)] sz),
     (OP_vmulhu, make_vec_implmap False True False False [vecop (lane_mulhu :: W8 \<Rightarrow> _), vecop (lane_mulhu :: W16 \<Rightarrow> _), vecop (lane_mulhu :: W32 \<Rightarrow> _), vecop (lane_mulhu :: W64 \<Rightarrow> _)] sz),
     (OP_vmaddp, pick [x86_op_nop, uop_impl_vmaddp_w, x86_op_nop, x86_op_nop] sz),
     (OP_vsad, pick [x86_op_nop, uop_impl_vsad_w, x86_op_nop, x86_op_nop] sz),
     (OP_vpack_us, pick [vecpack TYPE(16) TYPE(8) True, x86_op_nop, x86_op_nop, x86_op_nop] sz),
     (OP_vpack_ss, pick [vecpack TYPE(16) TYPE(8) False, vecpack TYPE(32) TYPE(16) False, x86_op_nop, x86_op_nop] sz)]"

definition get_synthcode_for_uop ::
  "FloatUnit \<Rightarrow> nat \<Rightarrow> nat \<Rightarrow> bool \<Rightarrow> nat \<Rightarrow> nat \<Rightarrow> bool \<Rightarrow> UopImpl option" where
  "get_synthcode_for_uop U op sz setflags cond extshift except =
     (case map_of (synth_alu sz setflags extshift @ synth_cond sz cond extshift except @ synth_shift sz setflags cond
                   @ synth_mul sz setflags @ synth_float U sz cond @ synth_vec sz cond) op of
        None \<Rightarrow> None
      | Some f \<Rightarrow> f)"

definition get_synthcode_for_cond_branch :: "nat \<Rightarrow> nat \<Rightarrow> nat \<Rightarrow> bool \<Rightarrow> UopImpl option" where
  "get_synthcode_for_cond_branch opcode cond sz except =
     (if opcode \<in> {OP_br_sub, OP_br_and, OP_br}
      then (case map_of (synth_cond sz cond 0 except) opcode of None \<Rightarrow> None | Some f \<Rightarrow> f)
      else None)"

subsection \<open>Every opcode but two has an implementation\<close>

lemmas synth_defs = synth_alu_def synth_cond_def synth_shift_def synth_mul_def synth_float_def synth_vec_def

lemmas implmap_defs = impl_def pick_def implmap_alu_def implmap_scan_def implmap_alu3s_def implmap_shift_def
  implmap_mask_def cond_row_def implmap_div_def implmap_divs_def implmap_float_def
  implmap_fused_def make_vec_implmap_def Let_def

definition all_cases :: "FloatUnit \<Rightarrow> nat \<Rightarrow> bool \<Rightarrow> nat \<Rightarrow> nat \<Rightarrow> bool \<Rightarrow> (nat \<times> UopImpl option) list" where
  "all_cases U sz setflags cond extshift except =
     synth_alu sz setflags extshift @ synth_cond sz cond extshift except @ synth_shift sz setflags cond
     @ synth_mul sz setflags @ synth_float U sz cond @ synth_vec sz cond"

lemma all_keys: "sort (map fst (all_cases U sz setflags cond extshift except)) =
    [0..<OP_jmpp] @ [Suc OP_jmpp..<OP_ctpop] @ [Suc OP_ctpop..<OP_MAX_OPCODE]"
  unfolding all_cases_def synth_defs append.simps list.map fst_conv opcode_defs by code_simp

lemma compare_sizes_not_None:
  "list_all (\<lambda>row. length row = 4) fss \<Longrightarrow> length fss = 4 \<Longrightarrow> sz < 4 \<Longrightarrow> extshift < 4 \<Longrightarrow>
     \<exists>f. compare_sizes sz extshift fss = Some f"
  by (simp add: compare_sizes_def pick_def impl_def list_all_length)

lemma no_null_entries:
  assumes "sz < 4" "cond < 16" "extshift < 4"
  shows "list_all (\<lambda>(k, f). f \<noteq> None \<or> (k \<in> {OP_mask, OP_maskb} \<and> \<not> cond < 3) \<or> (k = OP_fcmp \<and> \<not> cond < 8)
      \<or> (k = OP_fcmpcc \<and> cond \<noteq> 0)) (all_cases U sz setflags cond extshift except)"
  using assms unfolding all_cases_def synth_defs
  by (simp add: implmap_defs compare_sizes_not_None)

text \<open>Claim C29. The dispatcher has an implementation for every micro-operation of the opcode
  enumeration, for every operand size, flag setting, condition and shift in range (the
  bit-field operations have three extension modes, the floating point compare eight predicates
  and the scalar compare one row), except for the two opcodes jmpp and ctpop, on which it fails
  its assertion.\<close>

theorem dispatch_total:
  assumes "op < OP_MAX_OPCODE" "sz < 4" "cond < 16" "extshift < 4"
    and "op \<in> {OP_mask, OP_maskb} \<longrightarrow> cond < 3" "op = OP_fcmp \<longrightarrow> cond < 8" "op = OP_fcmpcc \<longrightarrow> cond = 0"
  shows "get_synthcode_for_uop U op sz setflags cond extshift except = None \<longleftrightarrow> op \<in> {OP_jmpp, OP_ctpop}"
proof -
  let ?t = "all_cases U sz setflags cond extshift except"
  have "set (map fst ?t) = set (sort (map fst ?t))" by simp
  also have "\<dots> = {k. k < OP_MAX_OPCODE \<and> k \<notin> {OP_jmpp, OP_ctpop}}"
    unfolding all_keys set_append set_upt OP_jmpp_def OP_ctpop_def OP_MAX_OPCODE_def by auto
  finally have keys: "op \<in> set (map fst ?t) \<longleftrightarrow> op \<notin> {OP_jmpp, OP_ctpop}" using assms(1) by auto
  have get: "get_synthcode_for_uop U op sz setflags cond extshift except =
      (case map_of ?t op of None \<Rightarrow> None | Some f \<Rightarrow> f)"
    by (simp add: get_synthcode_for_uop_def all_cases_def)
  show ?thesis
  proof (cases "op \<in> set (map fst ?t)")
    case True
    then obtain f where f: "map_of ?t op = Some f" by (metis map_of_eq_None_iff not_None_eq set_map)
    then have "f \<noteq> None"
      using no_null_entries [OF assms(2-4), of U setflags except] assms(5-7) by (fastforce simp: list_all_iff dest: map_of_SomeD)
    moreover have "op \<notin> {OP_jmpp, OP_ctpop}" using True keys by blast
    ultimately show ?thesis using f by (simp add: get)
  next
    case False
    then have "map_of ?t op = None" by (metis map_of_eq_None_iff set_map)
    moreover have "op \<in> {OP_jmpp, OP_ctpop}" using False keys by blast
    ultimately show ?thesis by (simp add: get)
  qed
qed

theorem dispatch_total_witness:
  "get_synthcode_for_uop fixed_unit OP_jmpp 3 True 0 0 False = None \<and>
   get_synthcode_for_uop fixed_unit OP_sub 3 True 0 0 False \<noteq> None"
  using dispatch_total [of OP_jmpp 3 0 0] dispatch_total [of OP_sub 3 0 0] by (simp add: opcode_defs)

end
