(* ===== verification/Cache_Lines.thy ===== *)
theory Cache_Lines
  imports Assoc_Arrays
begin

text \<open>
  The building blocks of the cache hierarchy (\<^verbatim>\<open>dcache.h\<close>): geometry and latency constants,
  cache lines with and without a byte-valid mask, the fill operations of the four cache levels,
  the byte masks of a load and of a store forwarding register, and the translation lookaside
  buffers. The lines have 64 bytes at every level, so a \<^verbatim>\<open>std::bitset<64>\<close> over the bytes of
  a line is a 64-bit word whose bit \<open>i\<close> stands for byte \<open>i\<close>.
\<close>

subsection \<open>Geometry and latencies\<close>

definition MAX_WAKEUPS_PER_CYCLE :: nat where "MAX_WAKEUPS_PER_CYCLE = 2"
definition L1_LINE_SIZE :: nat where "L1_LINE_SIZE = 64"
definition L1_SET_COUNT :: nat where "L1_SET_COUNT = 64"
definition L1_WAY_COUNT :: nat where "L1_WAY_COUNT = 4"
definition L1I_LINE_SIZE :: nat where "L1I_LINE_SIZE = 64"
definition L1I_SET_COUNT :: nat where "L1I_SET_COUNT = 128"
definition L1I_WAY_COUNT :: nat where "L1I_WAY_COUNT = 4"
definition L2_LINE_SIZE :: nat where "L2_LINE_SIZE = 64"
definition L2_SET_COUNT :: nat where "L2_SET_COUNT = 256"
definition L2_WAY_COUNT :: nat where "L2_WAY_COUNT = 16"
definition L2_LATENCY :: nat where "L2_LATENCY = 5"
definition L3_SET_COUNT :: nat where "L3_SET_COUNT = 2048"
definition L3_WAY_COUNT :: nat where "L3_WAY_COUNT = 32"
definition L3_LINE_SIZE :: nat where "L3_LINE_SIZE = 64"
definition L3_LATENCY :: nat where "L3_LATENCY = 8"
definition LFRQ_SIZE :: nat where "LFRQ_SIZE = 64"
definition MISSBUF_COUNT :: nat where "MISSBUF_COUNT = 64"
definition MAIN_MEM_LATENCY :: nat where "MAIN_MEM_LATENCY = 140"
definition ITLB_SIZE :: nat where "ITLB_SIZE = 32"
definition DTLB_SIZE :: nat where "DTLB_SIZE = 32"

lemmas cache_consts = MAX_WAKEUPS_PER_CYCLE_def L1_LINE_SIZE_def L1_SET_COUNT_def L1_WAY_COUNT_def
  L1I_LINE_SIZE_def L1I_SET_COUNT_def L1I_WAY_COUNT_def L2_LINE_SIZE_def L2_SET_COUNT_def
  L2_WAY_COUNT_def L2_LATENCY_def L3_SET_COUNT_def L3_WAY_COUNT_def L3_LINE_SIZE_def L3_LATENCY_def
  LFRQ_SIZE_def MISSBUF_COUNT_def MAIN_MEM_LATENCY_def ITLB_SIZE_def DTLB_SIZE_def

subsection \<open>Cache lines\<close>

text \<open>
  The statistics fields of a line exist under \<^verbatim>\<open>TRACK_LINE_USAGE\<close> only, which the header
  leaves undefined; \<^verbatim>\<open>clearstats\<close> is then empty.
\<close>

record CacheLine =
  cl_dummy :: W8

definition cl_reset :: "CacheLine \<Rightarrow> CacheLine" where
  "cl_reset l = l"

definition cl_fill :: "W64 \<Rightarrow> W64 \<Rightarrow> CacheLine \<Rightarrow> CacheLine" where
  "cl_fill tag valid l = l"

record CacheLineWithValidMask =
  clv_valid :: W64

definition clv_reset :: "CacheLineWithValidMask \<Rightarrow> CacheLineWithValidMask" where
  "clv_reset l = l\<lparr>clv_valid := 0\<rparr>"

definition clv_fill :: "W64 \<Rightarrow> W64 \<Rightarrow> CacheLineWithValidMask \<Rightarrow> CacheLineWithValidMask" where
  "clv_fill tag valid l = l\<lparr>clv_valid := clv_valid l OR valid\<rparr>"

subsection \<open>Cache levels\<close>

type_synonym L1Cache = "CacheLineWithValidMask AssociativeArray"
type_synonym L1ICache = "CacheLine AssociativeArray"
type_synonym L2Cache = "CacheLineWithValidMask AssociativeArray"
type_synonym L3Cache = "CacheLine AssociativeArray"

text \<open>Reading through the pointer that \<^verbatim>\<open>probe\<close> or \<^verbatim>\<open>select\<close> answered.\<close>

definition aa_line :: "nat \<times> int \<Rightarrow> 'v AssociativeArray \<Rightarrow> 'v" where
  "aa_line p a = faa_data (aa_sets a ! fst p) ! nat (snd p)"

definition L1_validate :: "W64 \<Rightarrow> W64 \<Rightarrow> L1Cache \<Rightarrow> L1Cache" where
  "L1_validate addr valid a =
     (let addr = aa_tagof L1_LINE_SIZE addr;
          (line, oldaddr, a) = aa_select L1_LINE_SIZE addr 0 a
      in aa_store line (clv_fill addr valid (aa_line line a)) a)"

definition L1I_validate :: "W64 \<Rightarrow> W64 \<Rightarrow> L1ICache \<Rightarrow> L1ICache" where
  "L1I_validate addr valid a =
     (let addr = aa_tagof L1I_LINE_SIZE addr;
          (line, oldaddr, a) = aa_select L1I_LINE_SIZE addr 0 a
      in aa_store line (cl_fill addr valid (aa_line line a)) a)"

definition L2_validate :: "W64 \<Rightarrow> L2Cache \<Rightarrow> L2Cache" where
  "L2_validate addr a =
     (let (line, oldaddr, a) = aa_select L2_LINE_SIZE addr 0 a
      in aa_store line ((aa_line line a)\<lparr>clv_valid := -1\<rparr>) a)"

definition L3_validate :: "W64 \<Rightarrow> L3Cache \<Rightarrow> L3Cache" where
  "L3_validate addr a = (let (line, oldaddr, a) = aa_select L3_LINE_SIZE addr 0 a in a)"

subsection \<open>Byte masks of a load\<close>

record SFR =
  sfr_data :: W64
  sfr_addrvalid :: bool
  sfr_invalid :: bool
  sfr_datavalid :: bool
  sfr_physaddr :: "45 word"
  sfr_bytemask :: W8
  sfr_tag :: W8
  sfr_smc_mfn :: W64

definition prep_sframask_and_reqmask :: "SFR option \<Rightarrow> W64 \<Rightarrow> nat \<Rightarrow> W64 \<times> W64" where
  "prep_sframask_and_reqmask sfr addr sizeshift =
     ((case sfr of
         None \<Rightarrow> 0
       | Some s \<Rightarrow> push_bit (8 * unat (lowbits (ucast (sfr_physaddr s)) (lg L1_LINE_SIZE - 3))) (ucast (sfr_bytemask s))),
      push_bit (unat (lowbits addr (lg L1_LINE_SIZE))) (bitmask (2 ^ sizeshift)))"

definition prep_L2_sframask_and_reqmask :: "SFR option \<Rightarrow> W64 \<Rightarrow> nat \<Rightarrow> W64 \<times> W64" where
  "prep_L2_sframask_and_reqmask sfr addr sizeshift =
     ((case sfr of
         None \<Rightarrow> 0
       | Some s \<Rightarrow> push_bit (8 * unat (lowbits (ucast (sfr_physaddr s)) (lg L2_LINE_SIZE - 3))) (ucast (sfr_bytemask s))),
      push_bit (unat (lowbits addr (lg L2_LINE_SIZE))) (bitmask (2 ^ sizeshift)))"

definition covered_by_sfr :: "W64 \<Rightarrow> SFR option \<Rightarrow> nat \<Rightarrow> bool" where
  "covered_by_sfr addr sfr sizeshift =
     (let (sframask, reqmask) = prep_sframask_and_reqmask sfr addr sizeshift
      in sframask AND reqmask = reqmask)"

definition probe_cache_and_sfr :: "W64 \<Rightarrow> SFR option \<Rightarrow> nat \<Rightarrow> L1Cache \<Rightarrow> bool \<times> L1Cache" where
  "probe_cache_and_sfr addr sfr sizeshift L1 =
     (let (sframask, reqmask) = prep_sframask_and_reqmask sfr addr sizeshift
      in if sframask AND reqmask = reqmask then (True, L1)
         else case aa_probe L1_LINE_SIZE addr L1 of
                (None, L1) \<Rightarrow> (False, L1)
              | (Some line, L1) \<Rightarrow> (reqmask AND (sframask OR clv_valid (aa_line line L1)) = reqmask, L1))"

subsection \<open>Translation lookaside buffers\<close>

type_synonym TranslationLookasideBuffer = onehot

definition tlb_reset :: "TranslationLookasideBuffer \<Rightarrow> TranslationLookasideBuffer" where
  "tlb_reset s = oh_reset s"

definition tlb_tagof :: "W64 \<Rightarrow> W64 \<Rightarrow> W64" where
  "tlb_tagof addr threadid = bits addr 12 36 OR push_bit 36 threadid"

definition tlb_probe :: "W64 \<Rightarrow> W64 \<Rightarrow> TranslationLookasideBuffer \<Rightarrow> bool \<times> TranslationLookasideBuffer" where
  "tlb_probe addr threadid s = (let (way, s) = oh_probe 40 (tlb_tagof addr threadid) s in (0 \<le> way, s))"

text \<open>
  \<^verbatim>\<open>insert\<close> compares its variable \<^verbatim>\<open>oldtag\<close> with the tag, but \<^verbatim>\<open>select\<close> writes that
  variable on a miss only: on a hit the answer depends on what the variable held before, the
  argument \<open>junk\<close> here.
\<close>

definition tlb_insert :: "W64 \<Rightarrow> W64 \<Rightarrow> W64 \<Rightarrow> TranslationLookasideBuffer \<Rightarrow> bool \<times> TranslationLookasideBuffer" where
  "tlb_insert junk addr threadid s =
     (let addr = floor_align addr 4096;
          tag = tlb_tagof addr threadid;
          (way, oldtag, s) = oh_select 40 tag junk s
      in (oldtag \<noteq> tag, s))"

definition tlb_flush_all :: "TranslationLookasideBuffer \<Rightarrow> nat \<times> TranslationLookasideBuffer" where
  "tlb_flush_all s = (oh_size s, tlb_reset s)"

definition tlb_flush_thread :: "W64 \<Rightarrow> TranslationLookasideBuffer \<Rightarrow> nat \<times> TranslationLookasideBuffer" where
  "tlb_flush_thread threadid s =
     (let tag = push_bit 36 threadid;
          tagmask = push_bit 36 0xf;
          slotmask = oh_masked_match tag tagmask s
      in (bs_count slotmask, oh_masked_invalidate slotmask s))"

definition tlb_flush_virt :: "W64 \<Rightarrow> W64 \<Rightarrow> TranslationLookasideBuffer \<Rightarrow> int \<times> TranslationLookasideBuffer" where
  "tlb_flush_virt virtaddr threadid s = oh_invalidate 40 (tlb_tagof virtaddr threadid) s"

lemma oh_masked_invalidate_upto:
  fixes m :: bitset
  assumes "n \<le> oh_size s" "oh_size s \<le> length (oh_tags s)"
  defines "r \<equiv> fold (\<lambda>i s. if m ! i then oh_invalidateslot (int i) s else s) [0..<n] s"
  shows "oh_size r = oh_size s \<and> oh_evictmap r = oh_evictmap s \<and> length (oh_tags r) = length (oh_tags s)
    \<and> (\<forall>j < oh_size s. oh_valid r ! j = (oh_valid s ! j \<and> \<not> (j < n \<and> m ! j)))
    \<and> (\<forall>j < oh_size s. oh_tags r ! j = (if j < n \<and> m ! j then -1 else oh_tags s ! j))"
  using assms(1,2) unfolding r_def
proof (induction n)
  case (Suc n)
  define q where "q = fold (\<lambda>i s. if m ! i then oh_invalidateslot (int i) s else s) [0..<n] s"
  have "fold (\<lambda>i s. if m ! i then oh_invalidateslot (int i) s else s) [0..<Suc n] s =
      (if m ! n then oh_invalidateslot (int n) q else q)"
    by (simp add: q_def)
  moreover have q: "oh_size q = oh_size s" "oh_evictmap q = oh_evictmap s" "length (oh_tags q) = length (oh_tags s)"
    "\<And>j. j < oh_size s \<Longrightarrow> oh_valid q ! j = (oh_valid s ! j \<and> \<not> (j < n \<and> m ! j))"
    "\<And>j. j < oh_size s \<Longrightarrow> oh_tags q ! j = (if j < n \<and> m ! j then -1 else oh_tags s ! j)"
    using Suc by (simp_all add: q_def)
  moreover have "n < length (oh_valid q)" "n < length (oh_tags q)"
    using Suc.prems q(1,3) by (simp_all add: oh_size_def)
  ultimately show ?case
    by (auto simp: oh_invalidateslot_def oh_size_def less_Suc_eq)
qed simp

lemma oh_masked_invalidate_spec:
  assumes inv: "oh_inv k s"
  shows "oh_inv k (oh_masked_invalidate m s)"
    and "x \<in> oh_resident k (oh_masked_invalidate m s) \<longleftrightarrow>
      (\<exists>j < oh_size s. oh_valid s ! j \<and> \<not> m ! j \<and> oh_stored_tag k (oh_tags s ! j) = x)"
proof -
  have "oh_size s \<le> length (oh_tags s)" using inv by (simp add: oh_inv_def)
  note r = oh_masked_invalidate_upto [OF order.refl this, of m, folded oh_masked_invalidate_def]
  show "x \<in> oh_resident k (oh_masked_invalidate m s) \<longleftrightarrow>
      (\<exists>j < oh_size s. oh_valid s ! j \<and> \<not> m ! j \<and> oh_stored_tag k (oh_tags s ! j) = x)"
    using r by (auto simp: oh_resident_iff)
  show "oh_inv k (oh_masked_invalidate m s)"
    using inv r unfolding oh_inv_def by auto
qed

lemma oh_reset_spec:
  assumes "0 < oh_size s" "oh_size s \<le> length (oh_tags s)"
  shows "oh_inv k (oh_reset s)" "oh_resident k (oh_reset s) = {}"
  using assms by (auto simp: oh_inv_def oh_resident_def oh_reset_def oh_size_def)

lemma bit_tlb_tagof:
  "bit (tlb_tagof a t) n \<longleftrightarrow> (if n < 36 then bit a (n + 12) else n < 64 \<and> bit t (n - 36))"
  by (auto simp: tlb_tagof_def bits_eq_take_drop bit_simps ac_simps dest: bit_imp_le_length)

lemma stored_tag_40: "oh_stored_tag 40 x = take_bit 40 x"
  by (simp add: oh_stored_tag_def oh_storemask_def oh_storewidth_def oh_slices_def take_bit_eq_mask
    mask_eq_exp_minus_1)

lemma thread_bits: "t < 16 \<Longrightarrow> bit t n \<Longrightarrow> n < 4" for t :: W64
proof (rule ccontr)
  assume "t < 16" "bit t n" "\<not> n < 4"
  then have "take_bit 4 t = t" by (simp add: take_bit_eq_mod word_less_nat_alt unat_mod word_unat_eq_iff)
  with \<open>bit t n\<close> \<open>\<not> n < 4\<close> show False by (metis bit_take_bit_iff)
qed

lemma stored_tagof: "t < 16 \<Longrightarrow> oh_stored_tag 40 (tlb_tagof a t) = tlb_tagof a t"
  unfolding stored_tag_40
  by (rule bit_word_eqI) (auto simp: bit_take_bit_iff bit_tlb_tagof dest: thread_bits)

definition same_page :: "W64 \<Rightarrow> W64 \<Rightarrow> bool" where
  "same_page a b \<longleftrightarrow> bits a 12 36 = bits b 12 36"

lemma tagof_floor: "tlb_tagof (floor_align a 4096) t = tlb_tagof a t"
  using floor_align_pow2 [of a 12] by (intro bit_word_eqI) (auto simp: bit_tlb_tagof bit_push_bit_iff bit_drop_bit_eq add.commute dest: bit_imp_le_length)

lemma tagof_eq_iff:
  assumes "t < 16" "u < 16"
  shows "tlb_tagof a t = tlb_tagof b u \<longleftrightarrow> same_page a b \<and> t = u"
proof
  assume eq: "tlb_tagof a t = tlb_tagof b u"
  have "bit (bits a 12 36) n = bit (bits b 12 36) n" for n
    using arg_cong [OF eq, of "\<lambda>w. bit w n"]
    by (auto simp: bit_tlb_tagof bits_eq_take_drop bit_take_bit_iff bit_drop_bit_eq ac_simps split: if_splits)
  moreover have "bit t n = bit u n" for n
    using arg_cong [OF eq, of "\<lambda>w. bit w (n + 36)"] thread_bits [OF assms(1), of n] thread_bits [OF assms(2), of n]
    by (auto simp: bit_tlb_tagof)
  ultimately show "same_page a b \<and> t = u" by (simp add: same_page_def bit_eq_iff)
qed (simp add: same_page_def tlb_tagof_def)

lemma tlb_probe_iff:
  "oh_inv 40 s \<Longrightarrow> fst (tlb_probe a t s) \<longleftrightarrow> oh_stored_tag 40 (tlb_tagof a t) \<in> oh_resident 40 s"
  by (cases rule: oh_probe_cases [of s 40 "tlb_tagof a t"]) (simp_all add: tlb_probe_def)

text \<open>What the buffer holds after each operation.\<close>

lemma tlb_insert_spec:
  assumes inv: "oh_inv 40 s"
  shows "oh_inv 40 (snd (tlb_insert junk a t s))"
    and "oh_stored_tag 40 (tlb_tagof a t) \<in> oh_resident 40 (snd (tlb_insert junk a t s))"
    and "oh_resident 40 (snd (tlb_insert junk a t s)) \<subseteq> insert (oh_stored_tag 40 (tlb_tagof a t)) (oh_resident 40 s)"
proof -
  let ?tag = "tlb_tagof a t"
  have ins: "snd (tlb_insert junk a t s) = snd (snd (oh_select 40 ?tag junk s))"
    by (simp add: tlb_insert_def tagof_floor Let_def split_beta)
  show "oh_inv 40 (snd (tlb_insert junk a t s))"
    and "oh_stored_tag 40 ?tag \<in> oh_resident 40 (snd (tlb_insert junk a t s))"
    and "oh_resident 40 (snd (tlb_insert junk a t s)) \<subseteq> insert (oh_stored_tag 40 ?tag) (oh_resident 40 s)"
    unfolding ins using inv oh_select_miss [OF inv, of ?tag junk]
    by (cases rule: oh_probe_cases [of s 40 ?tag]; fastforce simp: oh_select_def)+
qed

lemma tlb_flush_virt_spec:
  assumes "oh_inv 40 s"
  shows "oh_inv 40 (snd (tlb_flush_virt a t s))"
    and "oh_resident 40 (snd (tlb_flush_virt a t s)) = oh_resident 40 s - {oh_stored_tag 40 (tlb_tagof a t)}"
  using oh.invalidate_inv [OF assms, of "tlb_tagof a t"] by (simp_all add: tlb_flush_virt_def)

definition thread_mask :: W64 where
  "thread_mask = push_bit 36 (mask 4)"

lemma thread_mask_numeral: "0xf000000000 = thread_mask"
  by (simp add: thread_mask_def mask_eq_exp_minus_1)

lemma bit_thread_mask: "bit thread_mask n \<longleftrightarrow> 36 \<le> n \<and> n < 40"
  unfolding thread_mask_def by (simp add: bit_push_bit_iff bit_mask_iff del: push_bit_of_0) linarith

lemma thread_field:
  assumes "t < 16" "u < 16"
  shows "tlb_tagof a u AND thread_mask = push_bit 36 t \<longleftrightarrow> u = t"
proof -
  have "tlb_tagof a u AND thread_mask = push_bit 36 u"
    by (rule bit_word_eqI)
      (auto simp: bit_and_iff bit_tlb_tagof bit_push_bit_iff bit_thread_mask dest: thread_bits [OF assms(2)])
  moreover have "push_bit 36 u = push_bit 36 t \<longleftrightarrow> u = t"
  proof
    assume eq: "push_bit 36 u = push_bit 36 t"
    show "u = t"
    proof (rule bit_word_eqI)
      fix n
      show "bit u n = bit t n"
        using arg_cong [OF eq, of "\<lambda>w. bit w (n + 36)"] thread_bits [OF assms(1), of n] thread_bits [OF assms(2), of n]
        by (auto simp: bit_push_bit_iff)
    qed
  qed simp
  ultimately show ?thesis by simp
qed

lemma field_of_stored: "oh_stored_tag 40 x AND thread_mask = x AND thread_mask"
  unfolding stored_tag_40 by (rule bit_word_eqI) (auto simp: bit_and_iff bit_take_bit_iff bit_thread_mask)

lemma tlb_flush_thread_spec:
  assumes "oh_inv 40 s"
  shows "oh_inv 40 (snd (tlb_flush_thread t s))"
    and "oh_resident 40 (snd (tlb_flush_thread t s)) =
      {x \<in> oh_resident 40 s. x AND thread_mask \<noteq> push_bit 36 t}"
proof -
  show "oh_inv 40 (snd (tlb_flush_thread t s))"
    using oh_masked_invalidate_spec(1) [OF assms] by (simp add: tlb_flush_thread_def thread_mask_numeral Let_def)
  have "x \<in> oh_resident 40 (snd (tlb_flush_thread t s)) \<longleftrightarrow>
      x \<in> oh_resident 40 s \<and> x AND thread_mask \<noteq> push_bit 36 t" for x
    using oh_masked_invalidate_spec(2) [OF assms] field_of_stored
    by (auto simp: tlb_flush_thread_def thread_mask_numeral Let_def oh_masked_match_def oh_resident_iff)
  then show "oh_resident 40 (snd (tlb_flush_thread t s)) =
      {x \<in> oh_resident 40 s. x AND thread_mask \<noteq> push_bit 36 t}" by auto
qed

text \<open>
  A translation lookaside buffer shared by sixteen threads: inserting a page of a
  thread makes it hit and brings nothing else in; flushing a page, a thread or everything
  removes exactly the entries of that page and thread, of that thread, or all of them, and
  every operation keeps the buffer well formed.
\<close>

theorem tlb_entries:
  assumes "oh_inv 40 s" "t < 16" "u < 16"
  shows "fst (tlb_probe a t (snd (tlb_insert junk a t s)))
    \<and> (fst (tlb_probe b u (snd (tlb_insert junk a t s))) \<longrightarrow> fst (tlb_probe b u s) \<or> same_page a b \<and> t = u)
    \<and> (fst (tlb_probe b u (snd (tlb_flush_virt a t s))) \<longleftrightarrow> fst (tlb_probe b u s) \<and> \<not> (same_page a b \<and> t = u))
    \<and> (fst (tlb_probe b u (snd (tlb_flush_thread t s))) \<longleftrightarrow> fst (tlb_probe b u s) \<and> u \<noteq> t)
    \<and> \<not> fst (tlb_probe b u (snd (tlb_flush_all s)))
    \<and> oh_inv 40 (snd (tlb_insert junk a t s)) \<and> oh_inv 40 (snd (tlb_flush_virt a t s))
    \<and> oh_inv 40 (snd (tlb_flush_thread t s)) \<and> oh_inv 40 (snd (tlb_flush_all s))"
proof -
  have "oh_inv 40 (snd (tlb_flush_all s)) \<and> oh_resident 40 (snd (tlb_flush_all s)) = {}"
    using assms(1) oh_reset_spec [of s 40] by (simp add: tlb_flush_all_def tlb_reset_def oh_inv_def)
  moreover note tlb_insert_spec [OF assms(1), where junk = junk and a = a and t = t] tlb_flush_virt_spec [OF assms(1), of a t]
    tlb_flush_thread_spec [OF assms(1), of t]
  moreover have "tlb_tagof b u = tlb_tagof a t \<longleftrightarrow> same_page a b \<and> t = u"
    using tagof_eq_iff [OF assms(2,3), of a b] by auto
  ultimately show ?thesis
    using assms by (auto simp: tlb_probe_iff stored_tagof thread_field)
qed

theorem tlb_entries_witness:
  "let s = oh_reset \<lparr>oh_tags = replicate 32 0, oh_valid = bs_zero 32, oh_evictmap = bs_zero 32\<rparr>
   in fst (tlb_probe 0x1fff 3 (snd (tlb_insert 0 0x1008 3 s)))
      \<and> \<not> fst (tlb_probe 0x1fff 3 (snd (tlb_flush_thread 3 (snd (tlb_insert 0 0x1008 3 s)))))"
proof -
  define s where "s = oh_reset \<lparr>oh_tags = replicate 32 0, oh_valid = bs_zero 32, oh_evictmap = bs_zero 32\<rparr>"
  have inv: "oh_inv 40 s"
    unfolding s_def by (rule oh_reset_spec) (simp_all add: oh_size_def)
  have p: "fst (tlb_probe 0x1fff 3 x) = fst (tlb_probe 0x1008 3 x)" for x
    by (simp add: tlb_probe_def tlb_tagof_def bits_def bitmask_def)
  have "fst (tlb_probe 0x1008 3 (snd (tlb_insert 0 0x1008 3 s)))"
    using tlb_entries [OF inv, where t = 3 and u = 3 and a = "0x1008" and junk = 0 and b = 0] by simp
  moreover have "oh_inv 40 (snd (tlb_insert 0 0x1008 3 s))"
    using tlb_entries [OF inv, where t = 3 and u = 3 and a = "0x1008" and junk = 0 and b = 0] by simp
  then have "\<not> fst (tlb_probe 0x1fff 3 (snd (tlb_flush_thread 3 (snd (tlb_insert 0 0x1008 3 s)))))"
    using tlb_entries [of "snd (tlb_insert 0 0x1008 3 s)" 3 3, where b = "0x1fff"] by simp
  ultimately show ?thesis unfolding s_def [symmetric] by (simp add: p)
qed

subsection \<open>Which loads hit\<close>

definition sfr_byte :: "SFR option \<Rightarrow> nat \<Rightarrow> bool" where
  "sfr_byte sfr n \<longleftrightarrow> (case sfr of None \<Rightarrow> False
     | Some s \<Rightarrow> let start = 8 * (unat (sfr_physaddr s) mod 8)
                in start \<le> n \<and> n < start + 8 \<and> bit (sfr_bytemask s) (n - start))"

definition line_byte :: "L1Cache \<Rightarrow> W64 \<Rightarrow> nat \<Rightarrow> bool" where
  "line_byte L1 addr n \<longleftrightarrow> (case aa_lookup L1_LINE_SIZE addr L1 of None \<Rightarrow> False
     | Some l \<Rightarrow> bit (clv_valid l) n)"

lemma lg_64: "lg 64 = 6"
  using lg_pow2 [of 6] by simp

lemma prep_masks:
  assumes "sizeshift \<le> 3"
  shows "bit (fst (prep_sframask_and_reqmask sfr addr sizeshift)) n \<longleftrightarrow> n < 64 \<and> sfr_byte sfr n"
    and "bit (snd (prep_sframask_and_reqmask sfr addr sizeshift)) n \<longleftrightarrow>
      n < 64 \<and> unat addr mod 64 \<le> n \<and> n < unat addr mod 64 + 2 ^ sizeshift"
proof -
  have ss: "(2 :: nat) ^ sizeshift \<le> 64"
    using power_increasing [of sizeshift 3 "2 :: nat"] assms by simp
  have addr: "unat (lowbits addr 6) = unat addr mod 64"
    by (simp add: unat_lowbits)
  show "bit (snd (prep_sframask_and_reqmask sfr addr sizeshift)) n \<longleftrightarrow>
      n < 64 \<and> unat addr mod 64 \<le> n \<and> n < unat addr mod 64 + 2 ^ sizeshift"
    using ss
    by (auto simp: prep_sframask_and_reqmask_def L1_LINE_SIZE_def lg_64 addr bitmask_eq_mask
      bit_push_bit_iff bit_mask_iff)
  show "bit (fst (prep_sframask_and_reqmask sfr addr sizeshift)) n \<longleftrightarrow> n < 64 \<and> sfr_byte sfr n"
  proof (cases sfr)
    case (Some s)
    have "unat (sfr_physaddr s) < 2 ^ 64"
      using unsigned_less [where 'a = nat, of "sfr_physaddr s"] by simp
    then have "unat (lowbits (ucast (sfr_physaddr s)) 3) = unat (sfr_physaddr s) mod 8"
      by (simp add: unat_lowbits unsigned_ucast_eq take_bit_nat_eq_self)
    then show ?thesis
      using bit_imp_le_length [of "sfr_bytemask s" "n - 8 * (unat (sfr_physaddr s) mod 8)"]
      by (auto simp: Some prep_sframask_and_reqmask_def L1_LINE_SIZE_def lg_64 sfr_byte_def
        bit_push_bit_iff bit_ucast_iff Let_def)
  qed (simp add: prep_sframask_and_reqmask_def sfr_byte_def)
qed

lemma and_eq_iff_bits: "x AND y = y \<longleftrightarrow> (\<forall>n. bit y n \<longrightarrow> bit x n)" for x y :: "'a::len word"
  by (auto simp: bit_eq_iff bit_and_iff dest: bit_imp_le_length)

lemma covered_by_sfr_iff:
  assumes "sizeshift \<le> 3"
  shows "covered_by_sfr addr sfr sizeshift \<longleftrightarrow>
    (\<forall>n. unat addr mod 64 \<le> n \<and> n < unat addr mod 64 + 2 ^ sizeshift \<and> n < 64 \<longrightarrow> sfr_byte sfr n)"
  by (simp add: covered_by_sfr_def split_beta and_eq_iff_bits prep_masks [OF assms]) blast

lemma L1_tag_valid [simp]: "aa_tagof L1_LINE_SIZE addr \<noteq> -1"
  using aa_tagof_valid [of 6 addr] by (simp add: L1_LINE_SIZE_def)

lemma L1_line_pow: "L1_LINE_SIZE = 2 ^ 6" "L2_LINE_SIZE = 2 ^ 6" "L1I_LINE_SIZE = 2 ^ 6" "L3_LINE_SIZE = 2 ^ 6"
  by (simp_all add: cache_consts)

text \<open>The line a probe answers is the looked-up one.\<close>

lemma L1_probe_cases:
  assumes "aa_inv 6 L1"
  obtains (miss) L1' where "aa_probe L1_LINE_SIZE addr L1 = (None, L1')" "aa_lookup L1_LINE_SIZE addr L1 = None"
      "aa_inv 6 L1'" "\<And>x. aa_lookup L1_LINE_SIZE x L1' = aa_lookup L1_LINE_SIZE x L1"
  | (hit) q L1' where "aa_probe L1_LINE_SIZE addr L1 = (Some q, L1')"
      "aa_lookup L1_LINE_SIZE addr L1 = Some (aa_line q L1')"
      "aa_inv 6 L1'" "\<And>x. aa_lookup L1_LINE_SIZE x L1' = aa_lookup L1_LINE_SIZE x L1"
proof -
  note pr = aa_probe_lookup [OF assms, of 6 addr, folded L1_line_pow(1), OF L1_tag_valid]
  obtain p L1' where ap: "aa_probe L1_LINE_SIZE addr L1 = (p, L1')" by fastforce
  have dat: "aa_line q L1' = faa_data (aa_sets L1 ! fst q) ! nat (snd q)" for q
    using aa_probe_data [of L1_LINE_SIZE addr L1 "fst q"] by (simp add: ap aa_line_def)
  show thesis
    using pr ap dat miss hit by (cases p) (auto simp: split_beta)
qed

lemma probe_hit_iff:
  assumes "aa_inv 6 L1" "sizeshift \<le> 3"
  shows "fst (probe_cache_and_sfr addr sfr sizeshift L1) \<longleftrightarrow>
      (\<forall>n. unat addr mod 64 \<le> n \<and> n < unat addr mod 64 + 2 ^ sizeshift \<and> n < 64
         \<longrightarrow> sfr_byte sfr n \<or> line_byte L1 addr n)"
proof -
  obtain sf rq where m: "prep_sframask_and_reqmask sfr addr sizeshift = (sf, rq)" by fastforce
  have cov: "covered_by_sfr addr sfr sizeshift \<longleftrightarrow> sf AND rq = rq"
    by (simp add: covered_by_sfr_def m)
  note masks = prep_masks [OF assms(2), of sfr addr, unfolded m fst_conv snd_conv]
    and covered = covered_by_sfr_iff [OF assms(2), of addr sfr, unfolded cov]
  show ?thesis
  proof (cases "sf AND rq = rq")
    case True
    then show ?thesis using covered by (auto simp: probe_cache_and_sfr_def m)
  next
    case False
    show ?thesis
    proof (cases rule: L1_probe_cases [OF assms(1), of addr, case_names miss hit])
      case (miss L1')
      then show ?thesis using False covered by (simp add: probe_cache_and_sfr_def m line_byte_def)
    next
      case (hit q L1')
      have "fst (probe_cache_and_sfr addr sfr sizeshift L1) \<longleftrightarrow> (sf OR clv_valid (aa_line q L1')) AND rq = rq"
        using False hit(1) by (simp add: probe_cache_and_sfr_def m and.commute)
      then show ?thesis
        by (simp add: and_eq_iff_bits masks bit_or_iff line_byte_def hit(2)) blast
    qed
  qed
qed

text \<open>
  A load of up to eight bytes hits exactly when each of its bytes that lies inside the
  line of its first byte is either supplied by the store forwarding register or marked valid in
  the resident L1 line of the address; it is covered by the register alone exactly when the
  register supplies each of them. The probe leaves the contents of the cache as they are.
\<close>

theorem load_hit_iff:
  assumes "aa_inv 6 L1" "sizeshift \<le> 3"
  shows "(fst (probe_cache_and_sfr addr sfr sizeshift L1) \<longleftrightarrow>
      (\<forall>n. unat addr mod 64 \<le> n \<and> n < unat addr mod 64 + 2 ^ sizeshift \<and> n < 64
         \<longrightarrow> sfr_byte sfr n \<or> line_byte L1 addr n))
    \<and> (covered_by_sfr addr sfr sizeshift \<longleftrightarrow>
      (\<forall>n. unat addr mod 64 \<le> n \<and> n < unat addr mod 64 + 2 ^ sizeshift \<and> n < 64 \<longrightarrow> sfr_byte sfr n))
    \<and> aa_inv 6 (snd (probe_cache_and_sfr addr sfr sizeshift L1))
    \<and> aa_lookup L1_LINE_SIZE x (snd (probe_cache_and_sfr addr sfr sizeshift L1)) = aa_lookup L1_LINE_SIZE x L1"
proof (intro conjI)
  show "aa_inv 6 (snd (probe_cache_and_sfr addr sfr sizeshift L1))"
    and "aa_lookup L1_LINE_SIZE x (snd (probe_cache_and_sfr addr sfr sizeshift L1)) = aa_lookup L1_LINE_SIZE x L1"
    using assms(1) by (cases rule: L1_probe_cases [OF assms(1), of addr];
      simp add: probe_cache_and_sfr_def split_beta)+
qed (rule probe_hit_iff [OF assms], rule covered_by_sfr_iff [OF assms(2)])

lemma aa_lookup_cong:
  "aa_inv sb a \<Longrightarrow> aa_tagof (2 ^ lb) x = aa_tagof (2 ^ lb) y \<Longrightarrow> aa_lookup (2 ^ lb) x a = aa_lookup (2 ^ lb) y a"
  using aa_tagof_setof [of sb lb x y] by (simp add: aa_lookup_def aa_inv_def)

text \<open>A freshly constructed array: the constructors reset every way.\<close>

definition aa_new :: "nat \<Rightarrow> nat \<Rightarrow> 'v \<Rightarrow> 'v AssociativeArray" where
  "aa_new setcount waycount v = aa_reset id \<lparr>aa_sets = replicate setcount
     \<lparr>faa_tags = \<lparr>fat_evictmap = bs_zero waycount, fat_tags = replicate waycount (-1)\<rparr>, faa_data = replicate waycount v\<rparr>\<rparr>"

lemma aa_new_spec:
  assumes "sb < 64" "0 < waycount"
  shows "aa_inv sb (aa_new (2 ^ sb) waycount v)"
    and "aa_tagof (2 ^ lb) j \<noteq> -1 \<Longrightarrow> aa_lookup (2 ^ lb) j (aa_new (2 ^ sb) waycount v) = None"
  using assms unfolding aa_new_def
  by (auto intro!: aa_reset_spec simp: list_all_length faa_shape_def fat_ways_def)

text \<open>
  Delivering a line to the L1 or L2 is a fill of the whole line, whatever the way it lands in
  held before.
\<close>

lemma aa_select_store:
  "aa_store (fst (aa_select ls addr 0 a)) v (snd (snd (aa_select ls addr 0 a))) = aa_put ls addr v a"
  by (simp add: aa_put_def split_beta Let_def)

lemma clv_only_mask: "l\<lparr>clv_valid := v\<rparr> = \<lparr>clv_valid = v\<rparr>" for l :: CacheLineWithValidMask
  by (cases l) simp

lemma L1_validate_full: "L1_validate addr (-1) a = aa_put L1_LINE_SIZE (aa_tagof L1_LINE_SIZE addr) \<lparr>clv_valid = -1\<rparr> a"
  by (simp add: L1_validate_def clv_fill_def clv_only_mask split_beta Let_def aa_select_store)

lemma L2_validate_full: "L2_validate addr a = aa_put L2_LINE_SIZE addr \<lparr>clv_valid = -1\<rparr> a"
  by (simp add: L2_validate_def clv_only_mask split_beta Let_def aa_select_store)

lemma L1_validate_spec:
  assumes "aa_inv 6 L1"
  shows "aa_inv 6 (L1_validate addr (-1) L1)"
    and "line_byte (L1_validate addr (-1) L1) addr n \<longleftrightarrow> n < 64"
proof -
  have [simp]: "aa_tagof L1_LINE_SIZE (aa_tagof L1_LINE_SIZE addr) = aa_tagof L1_LINE_SIZE addr"
    by (simp add: aa_tagof_def floor_align_idem)
  note put = aa.put_inv [of 6 _ 6, folded L1_line_pow(1)] aa.put_same [of 6 _ 6, folded L1_line_pow(1)]
  show "aa_inv 6 (L1_validate addr (-1) L1)"
    using put(1) assms by (simp add: L1_validate_full)
  show "line_byte (L1_validate addr (-1) L1) addr n \<longleftrightarrow> n < 64"
    using put(2) [OF assms, of "aa_tagof L1_LINE_SIZE addr" addr] by (simp add: line_byte_def L1_validate_full)
qed

theorem load_hit_iff_witness:
  "let L1 = L1_validate 0x1000 (-1) (aa_new 64 4 \<lparr>clv_valid = 0\<rparr>)
   in fst (probe_cache_and_sfr 0x1038 None 3 L1) \<and> \<not> covered_by_sfr 0x1038 None 3"
proof -
  define L1 where "L1 = L1_validate 0x1000 (-1) (aa_new 64 4 \<lparr>clv_valid = 0\<rparr>)"
  have inv: "aa_inv 6 L1"
    unfolding L1_def using aa_new_spec(1) [of 6 4] by (intro L1_validate_spec) simp
  have "line_byte L1 0x1038 n = line_byte L1 0x1000 n" for n
    using aa_lookup_cong [OF inv, of 6 "0x1038" "0x1000"]
    by (simp add: line_byte_def L1_LINE_SIZE_def aa_tagof_def floor_align_def)
  moreover have "line_byte L1 0x1000 n \<longleftrightarrow> n < 64" for n
    unfolding L1_def using aa_new_spec(1) [of 6 4] by (intro L1_validate_spec) simp
  ultimately show ?thesis
    using load_hit_iff [OF inv, of 3 "0x1038" None] unfolding L1_def [symmetric] Let_def
    by (auto simp: sfr_byte_def intro!: exI [of _ 60])
qed

end
