(* ===== verification/Load_Fill.thy ===== *)
theory Load_Fill
  imports Cache_Lines Byte_Mask
begin

text \<open>
  The cache hierarchy of \<^verbatim>\<open>dcache.h\<close> and \<^verbatim>\<open>dcache.cpp\<close>: the load fill request queue
  (LFRQ), the miss buffers with their delivery state machine, and the operations the pipeline
  calls on the hierarchy. A failed assertion is \<open>None\<close>. The two callbacks into the core are
  recorded, in order, in \<open>ch_callback\<close>, which is \<open>None\<close> while the callback pointer is null.
  Statistics counters and log messages are left out. An index that the code takes from its
  caller and uses on a bit set without a check counts as a failed assertion when it is out of
  range.
\<close>

subsection \<open>Data\<close>

record LoadStoreInfo =
  lsi_rob :: W16
  lsi_threadid :: W8
  lsi_sizeshift :: "2 word"
  lsi_aligntype :: "2 word"
  lsi_sfrused :: bool
  lsi_internal :: bool
  lsi_signext :: bool

record LoadFillReq =
  lfr_addr :: W64
  lfr_data :: W64
  lfr_lsi :: LoadStoreInfo
  lfr_initcycle :: W32
  lfr_mask :: W8
  lfr_fillL1 :: bool
  lfr_fillL2 :: bool
  lfr_mbidx :: W8

definition LoadFillReq_new :: "W64 \<Rightarrow> W64 \<Rightarrow> W8 \<Rightarrow> LoadStoreInfo \<Rightarrow> W64 \<Rightarrow> LoadFillReq" where
  "LoadFillReq_new addr data bytemask lsi initcycle =
     \<lparr>lfr_addr = addr, lfr_data = data, lfr_lsi = lsi, lfr_initcycle = ucast initcycle, lfr_mask = bytemask,
      lfr_fillL1 = True, lfr_fillL2 = True, lfr_mbidx = -1\<rparr>"

record LoadFillReqQueue =
  lq_freemap :: bitset
  lq_waiting :: bitset
  lq_ready :: bitset
  lq_reqs :: "LoadFillReq list"
  lq_count :: int

datatype mbstate = STATE_IDLE | STATE_DELIVER_TO_L3 | STATE_DELIVER_TO_L2 | STATE_DELIVER_TO_L1

record Entry =
  mb_addr :: W64
  mb_state :: mbstate
  mb_dcache :: bool
  mb_icache :: bool
  mb_cycles :: W32
  mb_rob :: W16
  mb_threadid :: W8
  mb_lfrqmap :: bitset

record MissBuffer =
  mf_missbufs :: "Entry list"
  mf_freemap :: bitset
  mf_count :: int

datatype Wakeup = dcache_wakeup LoadStoreInfo W64 | icache_wakeup LoadStoreInfo W64

record CacheHierarchy =
  ch_lfrq :: LoadFillReqQueue
  ch_missbuf :: MissBuffer
  ch_L1 :: L1Cache
  ch_L1I :: L1ICache
  ch_L2 :: L2Cache
  ch_L3 :: L3Cache
  ch_dtlb :: TranslationLookasideBuffer
  ch_itlb :: TranslationLookasideBuffer
  ch_callback :: "Wakeup list option"

text \<open>A loop over slots whose body may fail an assertion.\<close>

fun each :: "('i \<Rightarrow> 's \<Rightarrow> 's option) \<Rightarrow> 'i list \<Rightarrow> 's \<Rightarrow> 's option" where
  "each f [] s = Some s"
| "each f (i # is) s = (case f i s of None \<Rightarrow> None | Some s1 \<Rightarrow> each f is s1)"

subsection \<open>Load fill request queue\<close>

definition lq_changestate :: "nat \<Rightarrow> bitset \<Rightarrow> bitset \<Rightarrow> bitset \<times> bitset" where
  "lq_changestate idx oldstate newstate = (oldstate[idx := False], newstate[idx := True])"

definition lq_reset :: "LoadFillReqQueue \<Rightarrow> LoadFillReqQueue" where
  "lq_reset q = q\<lparr>lq_freemap := bs_ones LFRQ_SIZE, lq_ready := bs_zero LFRQ_SIZE,
     lq_waiting := bs_zero LFRQ_SIZE, lq_count := 0\<rparr>"

definition lq_free :: "nat \<Rightarrow> LoadFillReqQueue \<Rightarrow> LoadFillReqQueue option" where
  "lq_free lfrqslot q =
     (if \<not> lq_waiting q ! lfrqslot then None
      else let (w, f) = lq_changestate lfrqslot (lq_waiting q) (lq_freemap q)
           in if \<not> 0 < lq_count q then None
              else Some (q\<lparr>lq_waiting := w, lq_freemap := f, lq_count := lq_count q - 1\<rparr>))"

definition lq_full :: "LoadFillReqQueue \<Rightarrow> bool" where
  "lq_full q = bs_none (lq_freemap q)"

definition lq_remaining :: "LoadFillReqQueue \<Rightarrow> int" where
  "lq_remaining q = int LFRQ_SIZE - lq_count q"

definition lq_reset_slot :: "int \<Rightarrow> nat \<Rightarrow> LoadFillReqQueue \<Rightarrow> LoadFillReqQueue option" where
  "lq_reset_slot threadid i q =
     (if \<not> lq_freemap q ! i \<and> uint (lsi_threadid (lfr_lsi (lq_reqs q ! i))) = threadid
      then let q = q\<lparr>lq_waiting := (lq_waiting q)[i := False], lq_ready := (lq_ready q)[i := False],
                     lq_freemap := (lq_freemap q)[i := True], lq_count := lq_count q - 1\<rparr>
           in if 0 \<le> lq_count q then Some q else None
      else Some q)"

definition lq_reset_thread :: "int \<Rightarrow> LoadFillReqQueue \<Rightarrow> LoadFillReqQueue option" where
  "lq_reset_thread threadid q = each (lq_reset_slot threadid) [0..<LFRQ_SIZE] q"

definition lq_add :: "LoadFillReq \<Rightarrow> LoadFillReqQueue \<Rightarrow> (int \<times> LoadFillReqQueue) option" where
  "lq_add req q =
     (if lq_full q then Some (-1, q)
      else let idx = lsb (lq_freemap q);
               (f, w) = lq_changestate idx (lq_freemap q) (lq_waiting q);
               q = q\<lparr>lq_freemap := f, lq_waiting := w, lq_reqs := (lq_reqs q)[idx := req]\<rparr>
           in if lq_count q < int LFRQ_SIZE then Some (int idx, q\<lparr>lq_count := lq_count q + 1\<rparr>) else None)"

definition lq_wakeup :: "W64 \<Rightarrow> bitset \<Rightarrow> LoadFillReqQueue \<Rightarrow> LoadFillReqQueue" where
  "lq_wakeup address lfrqmask q =
     q\<lparr>lq_waiting := bs_and (lq_waiting q) (bs_not lfrqmask), lq_ready := bs_or (lq_ready q) lfrqmask\<rparr>"

definition annul_lfrq :: "nat \<Rightarrow> MissBuffer \<Rightarrow> MissBuffer" where
  "annul_lfrq slot m =
     m\<lparr>mf_missbufs := map (\<lambda>mb. mb\<lparr>mb_lfrqmap := (mb_lfrqmap mb)[slot := False]\<rparr>) (mf_missbufs m)\<rparr>"

definition lq_annul :: "nat \<Rightarrow> CacheHierarchy \<Rightarrow> CacheHierarchy option" where
  "lq_annul lfrqslot h =
     (let m = annul_lfrq lfrqslot (ch_missbuf h);
          q = ch_lfrq h;
          q = q\<lparr>lq_reqs := (lq_reqs q)[lfrqslot := (lq_reqs q ! lfrqslot)\<lparr>lfr_mbidx := -1\<rparr>]\<rparr>
      in if \<not> lfrqslot < LFRQ_SIZE \<or> lq_freemap q ! lfrqslot then None
         else let (r, f) = lq_changestate lfrqslot (lq_ready q) (lq_freemap q);
                  q = q\<lparr>lq_ready := r, lq_freemap := f, lq_count := lq_count q - 1\<rparr>
              in if 0 \<le> lq_count q then Some (h\<lparr>ch_missbuf := m, ch_lfrq := q\<rparr>) else None)"

lemma lq_annul_frees:
  assumes "lq_annul k h = Some h'"
  shows "lq_freemap (ch_lfrq h') = (lq_freemap (ch_lfrq h))[k := True]" "\<not> lq_freemap (ch_lfrq h) ! k"
  using assms by (auto simp: lq_annul_def lq_changestate_def Let_def split: if_splits)

text \<open>\<^verbatim>\<open>restart\<close> annuls the first slot in use until none is.\<close>

function lq_restart_loop :: "CacheHierarchy \<Rightarrow> CacheHierarchy option" where
  "lq_restart_loop h =
     (if bs_all (lq_freemap (ch_lfrq h)) then Some h
      else case lq_annul (lsb (bs_not (lq_freemap (ch_lfrq h)))) h of
             None \<Rightarrow> None
           | Some h1 \<Rightarrow> lq_restart_loop h1)"
  by pat_completeness auto

termination
proof (relation "measure (\<lambda>h. length (lq_freemap (ch_lfrq h)) - bs_count (lq_freemap (ch_lfrq h)))")
  fix h h1 :: CacheHierarchy
  let ?f = "lq_freemap (ch_lfrq h)"
  assume a: "\<not> bs_all ?f" "lq_annul (lsb (bs_not ?f)) h = Some h1"
  have "bs_count (?f[lsb (bs_not ?f) := True]) = Suc (bs_count ?f)"
    using lsb_not_less [OF a(1)] lsb_not_clear [OF a(1)] by (simp add: bs_count_set)
  moreover have "bs_count ?f < length ?f"
    using bs_count_le [of ?f] bs_count_eq_length [of ?f] a(1) by linarith
  ultimately show "(h1, h) \<in> measure (\<lambda>h. length (lq_freemap (ch_lfrq h)) - bs_count (lq_freemap (ch_lfrq h)))"
    using lq_annul_frees(1) [OF a(2)] by simp
qed simp

declare lq_restart_loop.simps [simp del]

definition lq_restart :: "CacheHierarchy \<Rightarrow> CacheHierarchy option" where
  "lq_restart h = map_option (\<lambda>h. h\<lparr>ch_lfrq := lq_reset (ch_lfrq h)\<rparr>) (lq_restart_loop h)"

definition callback :: "Wakeup \<Rightarrow> CacheHierarchy \<Rightarrow> CacheHierarchy" where
  "callback w h = h\<lparr>ch_callback := map_option (\<lambda>log. log @ [w]) (ch_callback h)\<rparr>"

definition lq_wake_slot :: "CacheHierarchy \<Rightarrow> CacheHierarchy option" where
  "lq_wake_slot h =
     (let idx = lsb (lq_ready (ch_lfrq h));
          req = lq_reqs (ch_lfrq h) ! idx;
          h = callback (dcache_wakeup (lfr_lsi req) (lfr_addr req)) h;
          q = ch_lfrq h
      in if lq_freemap q ! idx then None
         else let (r, f) = lq_changestate idx (lq_ready q) (lq_freemap q);
                  q = q\<lparr>lq_ready := r, lq_freemap := f, lq_count := lq_count q - 1\<rparr>
              in if 0 \<le> lq_count q then Some (h\<lparr>ch_lfrq := q\<rparr>) else None)"

fun lq_clock_loop :: "nat \<Rightarrow> CacheHierarchy \<Rightarrow> CacheHierarchy option" where
  "lq_clock_loop 0 h = Some h"
| "lq_clock_loop (Suc n) h =
     (if bs_none (lq_ready (ch_lfrq h)) then Some h
      else case lq_wake_slot h of None \<Rightarrow> None | Some h1 \<Rightarrow> lq_clock_loop n h1)"

definition lq_clock :: "CacheHierarchy \<Rightarrow> CacheHierarchy option" where
  "lq_clock h = lq_clock_loop MAX_WAKEUPS_PER_CYCLE h"

subsection \<open>Miss buffer\<close>

definition mb_reset_entry :: "Entry \<Rightarrow> Entry" where
  "mb_reset_entry mb = mb\<lparr>mb_lfrqmap := bs_zero LFRQ_SIZE, mb_addr := -1, mb_state := STATE_IDLE, mb_cycles := 0,
     mb_icache := False, mb_dcache := False, mb_rob := 0xffff, mb_threadid := 0xff\<rparr>"

definition mf_reset :: "MissBuffer \<Rightarrow> MissBuffer" where
  "mf_reset m = m\<lparr>mf_missbufs := map mb_reset_entry (mf_missbufs m), mf_freemap := bs_ones MISSBUF_COUNT, mf_count := 0\<rparr>"

definition mf_reset_slot :: "LoadFillReqQueue \<Rightarrow> int \<Rightarrow> nat \<Rightarrow> MissBuffer \<Rightarrow> MissBuffer option" where
  "mf_reset_slot q threadid i m =
     (if mf_freemap m ! i then Some m
      else let mb = mf_missbufs m ! i;
               mb = mb\<lparr>mb_lfrqmap := map (\<lambda>l. mb_lfrqmap mb ! l \<and> uint (lsi_threadid (lfr_lsi (lq_reqs q ! l))) \<noteq> threadid)
                                      [0..<LFRQ_SIZE]\<rparr>
           in if bs_none (mb_lfrqmap mb) \<and> uint (mb_threadid mb) = threadid
              then let m = m\<lparr>mf_missbufs := (mf_missbufs m)[i := mb_reset_entry mb], mf_freemap := (mf_freemap m)[i := True],
                             mf_count := mf_count m - 1\<rparr>
                   in if 0 \<le> mf_count m then Some m else None
              else Some (m\<lparr>mf_missbufs := (mf_missbufs m)[i := mb]\<rparr>))"

definition mf_reset_thread :: "LoadFillReqQueue \<Rightarrow> int \<Rightarrow> MissBuffer \<Rightarrow> MissBuffer option" where
  "mf_reset_thread q threadid m = each (mf_reset_slot q threadid) [0..<MISSBUF_COUNT] m"

definition mf_restart :: "MissBuffer \<Rightarrow> MissBuffer" where
  "mf_restart m =
     (if bs_all (mf_freemap m) then m
      else m\<lparr>mf_missbufs := map (\<lambda>mb. mb\<lparr>mb_lfrqmap := bs_zero LFRQ_SIZE\<rparr>) (mf_missbufs m)\<rparr>)"

definition mf_full :: "MissBuffer \<Rightarrow> bool" where
  "mf_full m = bs_none (mf_freemap m)"

definition mf_remaining :: "MissBuffer \<Rightarrow> int" where
  "mf_remaining m = int MISSBUF_COUNT - mf_count m"

definition mf_find :: "W64 \<Rightarrow> MissBuffer \<Rightarrow> int" where
  "mf_find addr m = first_index (\<lambda>i. mb_addr (mf_missbufs m ! i) = addr \<and> \<not> mf_freemap m ! i) [0..<MISSBUF_COUNT]"

definition set_entry :: "nat \<Rightarrow> Entry \<Rightarrow> CacheHierarchy \<Rightarrow> CacheHierarchy" where
  "set_entry i mb h = h\<lparr>ch_missbuf := (ch_missbuf h)\<lparr>mf_missbufs := (mf_missbufs (ch_missbuf h))[i := mb]\<rparr>\<rparr>"

definition initiate_miss ::
  "W64 \<Rightarrow> bool \<Rightarrow> bool \<Rightarrow> int \<Rightarrow> int \<Rightarrow> CacheHierarchy \<Rightarrow> (int \<times> CacheHierarchy) option" where
  "initiate_miss addr hit_in_L2 icache rob threadid h =
     (let addr = floor_align addr (of_nat L1_LINE_SIZE);
          idx = mf_find addr (ch_missbuf h)
      in if 0 \<le> idx
         then let mb = mf_missbufs (ch_missbuf h) ! nat idx
              in Some (idx, set_entry (nat idx)
                   (mb\<lparr>mb_icache := mb_icache mb \<or> icache, mb_dcache := mb_dcache mb \<or> \<not> icache\<rparr>) h)
         else if mf_full (ch_missbuf h) then Some (-1, h)
         else let idx = lsb (mf_freemap (ch_missbuf h));
                  m = (ch_missbuf h)\<lparr>mf_freemap := (mf_freemap (ch_missbuf h))[idx := False]\<rparr>
              in if \<not> mf_count m < int MISSBUF_COUNT then None
                 else let h = h\<lparr>ch_missbuf := m\<lparr>mf_count := mf_count m + 1\<rparr>\<rparr>;
                          mb = (mf_missbufs m ! idx)\<lparr>mb_addr := addr, mb_lfrqmap := bs_zero LFRQ_SIZE, mb_icache := icache,
                            mb_dcache := \<not> icache, mb_rob := word_of_int rob, mb_threadid := word_of_int threadid\<rparr>
                      in if hit_in_L2
                         then Some (int idx, set_entry idx (mb\<lparr>mb_state := STATE_DELIVER_TO_L1, mb_cycles := of_nat L2_LATENCY\<rparr>) h)
                         else let (L3hit, L3) = aa_probe L3_LINE_SIZE addr (ch_L3 h); h = h\<lparr>ch_L3 := L3\<rparr>
                              in if L3hit \<noteq> None
                                 then Some (int idx, set_entry idx (mb\<lparr>mb_state := STATE_DELIVER_TO_L2, mb_cycles := of_nat L3_LATENCY\<rparr>) h)
                                 else Some (int idx, set_entry idx (mb\<lparr>mb_state := STATE_DELIVER_TO_L3, mb_cycles := of_nat MAIN_MEM_LATENCY\<rparr>) h))"

definition initiate_miss_req :: "LoadFillReq \<Rightarrow> bool \<Rightarrow> int \<Rightarrow> CacheHierarchy \<Rightarrow> (int \<times> CacheHierarchy) option" where
  "initiate_miss_req req hit_in_L2 rob h =
     (case lq_add req (ch_lfrq h) of
        None \<Rightarrow> None
      | Some (lfrqslot, q) \<Rightarrow>
          let h = h\<lparr>ch_lfrq := q\<rparr>
          in if lfrqslot < 0 then Some (-1, h)
             else case initiate_miss (lfr_addr req) hit_in_L2 False rob (uint (lsi_threadid (lfr_lsi req))) h of
                    None \<Rightarrow> None
                  | Some (mbidx, h) \<Rightarrow>
                      if mbidx < 0
                      then map_option (\<lambda>q. (-1, h\<lparr>ch_lfrq := q\<rparr>)) (lq_free (nat lfrqslot) (ch_lfrq h))
                      else let missbuf = mf_missbufs (ch_missbuf h) ! nat mbidx;
                               h = set_entry (nat mbidx) (missbuf\<lparr>mb_lfrqmap := (mb_lfrqmap missbuf)[nat lfrqslot := True]\<rparr>) h;
                               q = ch_lfrq h;
                               r = (lq_reqs q ! nat lfrqslot)\<lparr>lfr_mbidx := word_of_int mbidx\<rparr>
                           in Some (lfrqslot, h\<lparr>ch_lfrq := q\<lparr>lq_reqs := (lq_reqs q)[nat lfrqslot := r]\<rparr>\<rparr>))"

definition lsi_zero :: LoadStoreInfo where
  "lsi_zero = \<lparr>lsi_rob = 0, lsi_threadid = 0, lsi_sizeshift = 0, lsi_aligntype = 0, lsi_sfrused = False,
     lsi_internal = False, lsi_signext = False\<rparr>"

text \<open>A line that has reached the L1 level: fill, wake the waiting loads or the fetch unit, free the buffer.\<close>

definition deliver_to_L1 :: "nat \<Rightarrow> CacheHierarchy \<Rightarrow> CacheHierarchy option" where
  "deliver_to_L1 i h =
     (let mb = mf_missbufs (ch_missbuf h) ! i;
          h = (if mb_dcache mb
               then h\<lparr>ch_L1 := L1_validate (mb_addr mb) (-1) (ch_L1 h), ch_lfrq := lq_wakeup (mb_addr mb) (mb_lfrqmap mb) (ch_lfrq h)\<rparr>
               else h);
          h = (if mb_icache mb
               then callback (icache_wakeup (lsi_zero\<lparr>lsi_rob := mb_rob mb, lsi_threadid := mb_threadid mb\<rparr>) (mb_addr mb))
                      (h\<lparr>ch_L1I := L1I_validate (mb_addr mb) (-1) (ch_L1I h)\<rparr>)
               else h)
      in if mf_freemap (ch_missbuf h) ! i then None
         else let m = ch_missbuf h;
                  m = m\<lparr>mf_freemap := (mf_freemap m)[i := True], mf_missbufs := (mf_missbufs m)[i := mb_reset_entry mb],
                        mf_count := mf_count m - 1\<rparr>
              in if 0 \<le> mf_count m then Some (h\<lparr>ch_missbuf := m\<rparr>) else None)"

definition mf_clock_slot :: "nat \<Rightarrow> CacheHierarchy \<Rightarrow> CacheHierarchy option" where
  "mf_clock_slot i h =
     (let mb = mf_missbufs (ch_missbuf h) ! i; mb1 = mb\<lparr>mb_cycles := mb_cycles mb - 1\<rparr>
      in case mb_state mb of
           STATE_IDLE \<Rightarrow> Some h
         | STATE_DELIVER_TO_L3 \<Rightarrow>
             if mb_cycles mb1 = 0
             then Some (set_entry i (mb1\<lparr>mb_cycles := of_nat L3_LATENCY, mb_state := STATE_DELIVER_TO_L2\<rparr>)
                    (h\<lparr>ch_L3 := L3_validate (mb_addr mb) (ch_L3 h)\<rparr>))
             else Some (set_entry i mb1 h)
         | STATE_DELIVER_TO_L2 \<Rightarrow>
             if mb_cycles mb1 = 0
             then Some (set_entry i (mb1\<lparr>mb_cycles := of_nat L2_LATENCY, mb_state := STATE_DELIVER_TO_L1\<rparr>)
                    (h\<lparr>ch_L2 := L2_validate (mb_addr mb) (ch_L2 h)\<rparr>))
             else Some (set_entry i mb1 h)
         | STATE_DELIVER_TO_L1 \<Rightarrow>
             if mb_cycles mb1 = 0 then deliver_to_L1 i (set_entry i mb1 h) else Some (set_entry i mb1 h))"

definition mf_clock :: "CacheHierarchy \<Rightarrow> CacheHierarchy option" where
  "mf_clock h = (if bs_all (mf_freemap (ch_missbuf h)) then Some h else each mf_clock_slot [0..<MISSBUF_COUNT] h)"

subsection \<open>Cache hierarchy\<close>

definition issueload_slowpath ::
  "W64 \<Rightarrow> SFR \<Rightarrow> LoadStoreInfo \<Rightarrow> W64 \<Rightarrow> CacheHierarchy \<Rightarrow> (int \<times> bool \<times> CacheHierarchy) option" where
  "issueload_slowpath physaddr sfra lsi sim_cycle h =
     (let (L1line, L1) = aa_probe L1_LINE_SIZE physaddr (ch_L1 h);
          (L2line, L2) = aa_probe L2_LINE_SIZE physaddr (ch_L2 h);
          L2hit = (case L2line of
                     None \<Rightarrow> False
                   | Some line \<Rightarrow>
                       let (sframask, reqmask) = prep_L2_sframask_and_reqmask (if lsi_sfrused lsi then Some sfra else None)
                             physaddr (unat (lsi_sizeshift lsi));
                           valid = clv_valid (aa_line line L2)
                       in if lsi_sfrused lsi then reqmask AND (sframask OR valid) = reqmask else reqmask AND valid = reqmask);
          req = LoadFillReq_new physaddr (if lsi_sfrused lsi then sfr_data sfra else 0)
                  (if lsi_sfrused lsi then sfr_bytemask sfra else 0) lsi sim_cycle
      in map_option (\<lambda>(lfrqslot, h). (if lfrqslot < 0 then -1 else lfrqslot, L2hit, h))
           (initiate_miss_req req L2hit (uint (lsi_rob lsi)) (h\<lparr>ch_L1 := L1, ch_L2 := L2\<rparr>)))"

definition get_lfrq_mb :: "int \<Rightarrow> CacheHierarchy \<Rightarrow> int option" where
  "get_lfrq_mb lfrqslot h =
     (if 0 \<le> lfrqslot \<and> lfrqslot \<le> int LFRQ_SIZE - 1 then Some (sint (lfr_mbidx (lq_reqs (ch_lfrq h) ! nat lfrqslot))) else None)"

definition get_lfrq_mb_state :: "int \<Rightarrow> CacheHierarchy \<Rightarrow> mbstate option option" where
  "get_lfrq_mb_state lfrqslot h =
     (if \<not> (0 \<le> lfrqslot \<and> lfrqslot \<le> int LFRQ_SIZE - 1) then None
      else let mbidx = sint (lfr_mbidx (lq_reqs (ch_lfrq h) ! nat lfrqslot))
           in if mbidx < 0 then Some None
              else if mf_freemap (ch_missbuf h) ! nat mbidx then None
              else Some (Some (mb_state (mf_missbufs (ch_missbuf h) ! nat mbidx))))"

definition lfrq_or_missbuf_full :: "CacheHierarchy \<Rightarrow> bool" where
  "lfrq_or_missbuf_full h \<longleftrightarrow> lq_full (ch_lfrq h) \<or> mf_full (ch_missbuf h)"

definition annul_lfrq_slot :: "nat \<Rightarrow> CacheHierarchy \<Rightarrow> CacheHierarchy option" where
  "annul_lfrq_slot lfrqslot h = lq_annul lfrqslot h"

definition initiate_prefetch :: "W64 \<Rightarrow> CacheHierarchy \<Rightarrow> CacheHierarchy option" where
  "initiate_prefetch addr h =
     (let addr = floor_align addr (of_nat L1_LINE_SIZE);
          (L1line, L1) = aa_probe L1_LINE_SIZE addr (ch_L1 h);
          h = h\<lparr>ch_L1 := L1\<rparr>
      in if L1line \<noteq> None then Some h
         else let (L2line, L2) = aa_probe L2_LINE_SIZE addr (ch_L2 h)
              in map_option snd (initiate_miss addr (L2line \<noteq> None) False 0xffff 0xfe (h\<lparr>ch_L2 := L2\<rparr>)))"

definition probe_icache :: "W64 \<Rightarrow> W64 \<Rightarrow> CacheHierarchy \<Rightarrow> bool \<times> CacheHierarchy" where
  "probe_icache virtaddr physaddr h =
     (let (L1line, L1I) = aa_probe L1I_LINE_SIZE physaddr (ch_L1I h) in (L1line \<noteq> None, h\<lparr>ch_L1I := L1I\<rparr>))"

definition initiate_icache_miss :: "W64 \<Rightarrow> int \<Rightarrow> int \<Rightarrow> CacheHierarchy \<Rightarrow> (int \<times> CacheHierarchy) option" where
  "initiate_icache_miss addr rob threadid h =
     (let addr = floor_align addr (of_nat L1I_LINE_SIZE);
          (line_in_L2, L2) = aa_probe L2_LINE_SIZE addr (ch_L2 h);
          (L2line, L2) = aa_probe L2_LINE_SIZE addr L2
      in initiate_miss addr (L2line \<noteq> None) True rob threadid (h\<lparr>ch_L2 := L2\<rparr>))"

definition commitstore ::
  "SFR \<Rightarrow> int \<Rightarrow> bool \<Rightarrow> memory \<Rightarrow> CacheHierarchy \<Rightarrow> (W64 \<times> memory \<times> CacheHierarchy) option" where
  "commitstore sfr threadid perform_actual_write mem h =
     (if sfr_invalid sfr \<or> sfr_bytemask sfr = 0 then Some (0, mem, h)
      else let addr = push_bit 3 (ucast (sfr_physaddr sfr));
               (L2line, oldL2, L2) = aa_select L2_LINE_SIZE addr 0 (ch_L2 h);
               mem = (if perform_actual_write then snd (storemask addr (sfr_data sfr) (sfr_bytemask sfr) mem) else mem);
               (L1line, oldL1, L1) = aa_select L1_LINE_SIZE addr 0 (ch_L1 h);
               written = push_bit (unat (lowbits addr 6)) (ucast (sfr_bytemask sfr));
               L1valid = clv_valid (aa_line L1line L1) OR written;
               L2valid = clv_valid (aa_line L2line L2) OR written;
               h = h\<lparr>ch_L1 := aa_store L1line ((aa_line L1line L1)\<lparr>clv_valid := L1valid\<rparr>) L1,
                     ch_L2 := aa_store L2line ((aa_line L2line L2)\<lparr>clv_valid := L2valid\<rparr>) L2\<rparr>
           in if L1valid \<noteq> -1
              then map_option (\<lambda>(mb, h). (0, mem, h)) (initiate_miss addr (L2valid = -1) False 0xffff threadid h)
              else Some (0, mem, h))"

definition speculative_store ::
  "SFR \<Rightarrow> int \<Rightarrow> memory \<Rightarrow> CacheHierarchy \<Rightarrow> (W64 \<times> memory \<times> CacheHierarchy) option" where
  "speculative_store sfr threadid mem h = commitstore sfr threadid False mem h"

definition ch_clock :: "CacheHierarchy \<Rightarrow> CacheHierarchy option" where
  "ch_clock h = (case lq_clock h of None \<Rightarrow> None | Some h1 \<Rightarrow> mf_clock h1)"

definition ch_complete :: "CacheHierarchy \<Rightarrow> CacheHierarchy option" where
  "ch_complete h = map_option (\<lambda>h. h\<lparr>ch_missbuf := mf_restart (ch_missbuf h)\<rparr>) (lq_restart h)"

definition ch_complete_thread :: "int \<Rightarrow> CacheHierarchy \<Rightarrow> CacheHierarchy option" where
  "ch_complete_thread threadid h =
     (case lq_reset_thread threadid (ch_lfrq h) of
        None \<Rightarrow> None
      | Some q \<Rightarrow> map_option (\<lambda>m. h\<lparr>ch_lfrq := q, ch_missbuf := m\<rparr>) (mf_reset_thread q threadid (ch_missbuf h)))"

definition ch_reset :: "CacheHierarchy \<Rightarrow> CacheHierarchy" where
  "ch_reset h = h\<lparr>ch_lfrq := lq_reset (ch_lfrq h), ch_missbuf := mf_reset (ch_missbuf h),
     ch_L3 := aa_reset cl_reset (ch_L3 h), ch_L2 := aa_reset clv_reset (ch_L2 h), ch_L1 := aa_reset clv_reset (ch_L1 h),
     ch_L1I := aa_reset cl_reset (ch_L1I h), ch_itlb := tlb_reset (ch_itlb h), ch_dtlb := tlb_reset (ch_dtlb h)\<rparr>"

end
