(* ===== verification/Fill_Inv.thy ===== *)
theory Fill_Inv
  imports Load_Fill
begin

text \<open>
  The invariant of the load fill request queue and the miss buffers, and that every operation of
  the hierarchy keeps it and fails no assertion. A slot of the queue is free, waiting or ready; a
  miss buffer is idle or on its way with a positive cycle count bounded by the latency of its
  state; the wakeup maps of the buffers and the waiting slots of the queue point at each other.
\<close>

subsection \<open>The invariant\<close>

definition queue_ok :: "LoadFillReqQueue \<Rightarrow> bool" where
  "queue_ok q \<longleftrightarrow> length (lq_freemap q) = LFRQ_SIZE \<and> length (lq_waiting q) = LFRQ_SIZE
     \<and> length (lq_ready q) = LFRQ_SIZE \<and> length (lq_reqs q) = LFRQ_SIZE
     \<and> lq_count q = int LFRQ_SIZE - int (bs_count (lq_freemap q))
     \<and> (\<forall>l < LFRQ_SIZE. lq_ready q ! l \<longrightarrow> \<not> lq_freemap q ! l)
     \<and> (\<forall>l < LFRQ_SIZE. \<not> lq_freemap q ! l \<longrightarrow> lq_waiting q ! l = (\<not> lq_ready q ! l))"

fun latency :: "mbstate \<Rightarrow> nat" where
  "latency STATE_IDLE = 0"
| "latency STATE_DELIVER_TO_L3 = MAIN_MEM_LATENCY"
| "latency STATE_DELIVER_TO_L2 = L3_LATENCY"
| "latency STATE_DELIVER_TO_L1 = L2_LATENCY"

definition entry_ok :: "Entry \<Rightarrow> bool" where
  "entry_ok mb \<longleftrightarrow> length (mb_lfrqmap mb) = LFRQ_SIZE
     \<and> (bs_any (mb_lfrqmap mb) \<longrightarrow> mb_state mb \<noteq> STATE_IDLE \<and> mb_dcache mb)
     \<and> (mb_state mb \<noteq> STATE_IDLE \<longrightarrow> 0 < unat (mb_cycles mb) \<and> unat (mb_cycles mb) \<le> latency (mb_state mb))"

definition buffers_ok :: "MissBuffer \<Rightarrow> bool" where
  "buffers_ok m \<longleftrightarrow> length (mf_missbufs m) = MISSBUF_COUNT \<and> length (mf_freemap m) = MISSBUF_COUNT
     \<and> mf_count m = int MISSBUF_COUNT - int (bs_count (mf_freemap m))
     \<and> (\<forall>i < MISSBUF_COUNT. mf_freemap m ! i \<longleftrightarrow> mb_state (mf_missbufs m ! i) = STATE_IDLE)
     \<and> (\<forall>i < MISSBUF_COUNT. entry_ok (mf_missbufs m ! i))
     \<and> inj_on (\<lambda>i. mb_addr (mf_missbufs m ! i)) {i. i < MISSBUF_COUNT \<and> \<not> mf_freemap m ! i}"

text \<open>
  \<open>X\<close> is the set of waiting slots that no miss buffer has been found for yet: empty but in the
  middle of a miss.
\<close>

definition linked :: "nat set \<Rightarrow> LoadFillReqQueue \<Rightarrow> MissBuffer \<Rightarrow> bool" where
  "linked X q m \<longleftrightarrow>
     (\<forall>i < MISSBUF_COUNT. \<forall>l < LFRQ_SIZE. mb_lfrqmap (mf_missbufs m ! i) ! l \<longrightarrow>
        \<not> lq_freemap q ! l \<and> \<not> lq_ready q ! l \<and> lfr_mbidx (lq_reqs q ! l) = of_nat i)
     \<and> (\<forall>l < LFRQ_SIZE. \<not> lq_freemap q ! l \<longrightarrow> \<not> lq_ready q ! l \<longrightarrow> l \<notin> X \<longrightarrow>
        (\<exists>i < MISSBUF_COUNT. mb_lfrqmap (mf_missbufs m ! i) ! l))"

definition fill_inv :: "nat set \<Rightarrow> CacheHierarchy \<Rightarrow> bool" where
  "fill_inv X h \<longleftrightarrow> queue_ok (ch_lfrq h) \<and> buffers_ok (ch_missbuf h) \<and> linked X (ch_lfrq h) (ch_missbuf h)"

text \<open>The invariant reads the queue and the buffers only.\<close>

lemma fill_inv_cong:
  "ch_lfrq h' = ch_lfrq h \<Longrightarrow> ch_missbuf h' = ch_missbuf h \<Longrightarrow> fill_inv X h' = fill_inv X h"
  by (simp add: fill_inv_def)

subsection \<open>The queue\<close>

lemma queue_count:
  assumes "queue_ok q" "l < LFRQ_SIZE"
  shows "\<not> lq_freemap q ! l \<Longrightarrow> lq_count q - 1 = int LFRQ_SIZE - int (bs_count ((lq_freemap q)[l := True])) \<and> 0 < lq_count q"
    and "lq_freemap q ! l \<Longrightarrow> lq_count q + 1 = int LFRQ_SIZE - int (bs_count ((lq_freemap q)[l := False])) \<and> lq_count q < int LFRQ_SIZE"
proof -
  have len: "length (lq_freemap q) = LFRQ_SIZE" and c: "lq_count q = int LFRQ_SIZE - int (bs_count (lq_freemap q))"
    using assms(1) by (simp_all add: queue_ok_def)
  show "lq_count q - 1 = int LFRQ_SIZE - int (bs_count ((lq_freemap q)[l := True])) \<and> 0 < lq_count q"
    if "\<not> lq_freemap q ! l"
    using bs_count_set [of l "lq_freemap q"] bs_count_le [of "(lq_freemap q)[l := True]"] that assms(2) len c by simp
  show "lq_count q + 1 = int LFRQ_SIZE - int (bs_count ((lq_freemap q)[l := False])) \<and> lq_count q < int LFRQ_SIZE"
    if "lq_freemap q ! l"
    using bs_count_clear [of l "lq_freemap q"] that assms(2) len c by simp
qed

text \<open>Freeing a slot, whatever becomes of its waiting bit.\<close>

lemma queue_free_slot:
  assumes "queue_ok q" "l < LFRQ_SIZE" "\<not> lq_freemap q ! l"
    and "lq_freemap q' = (lq_freemap q)[l := True]" "lq_count q' = lq_count q - 1"
    and "lq_waiting q' = (lq_waiting q)[l := w]" "lq_ready q' = (lq_ready q)[l := False]"
    and "length (lq_reqs q') = LFRQ_SIZE"
  shows "queue_ok q'"
  using assms queue_count(1) [OF assms(1-3)] by (auto simp: queue_ok_def)

lemma lq_add_spec:
  assumes q: "queue_ok q"
  shows "lq_full q \<and> lq_add req q = Some (-1, q)
    \<or> \<not> lq_full q \<and> (\<exists>l q'. lq_add req q = Some (int l, q') \<and> l < LFRQ_SIZE \<and> lq_freemap q ! l \<and> queue_ok q'
        \<and> lq_freemap q' = (lq_freemap q)[l := False] \<and> lq_ready q' = lq_ready q
        \<and> lq_waiting q' = (lq_waiting q)[l := True] \<and> lq_reqs q' = (lq_reqs q)[l := req])"
proof (cases "lq_full q")
  case False
  define l where "l = lsb (lq_freemap q)"
  have l: "l < LFRQ_SIZE" "lq_freemap q ! l"
    using False q lsb_less [of "lq_freemap q"] lsb_set [of "lq_freemap q"]
    by (simp_all add: l_def lq_full_def queue_ok_def)
  note c = queue_count(2) [OF q l]
  have r: "\<not> lq_ready q ! l" using q l by (auto simp: queue_ok_def)
  have "lq_add req q = Some (int l, q\<lparr>lq_freemap := (lq_freemap q)[l := False], lq_waiting := (lq_waiting q)[l := True],
      lq_reqs := (lq_reqs q)[l := req], lq_count := lq_count q + 1\<rparr>)" (is "_ = Some (_, ?q)")
    using False c by (simp add: lq_add_def lq_changestate_def l_def Let_def)
  moreover have "queue_ok ?q" using q l c r by (auto simp: queue_ok_def)
  ultimately show ?thesis using False l by auto
qed (simp add: lq_add_def)

lemma lq_free_spec:
  assumes "queue_ok q" "l < LFRQ_SIZE" "lq_waiting q ! l" "\<not> lq_freemap q ! l"
  obtains q' where "lq_free l q = Some q'" "queue_ok q'" "lq_freemap q' = (lq_freemap q)[l := True]"
    "lq_ready q' = lq_ready q" "lq_reqs q' = lq_reqs q"
proof -
  let ?q = "q\<lparr>lq_waiting := (lq_waiting q)[l := False], lq_freemap := (lq_freemap q)[l := True], lq_count := lq_count q - 1\<rparr>"
  have "\<not> lq_ready q ! l" "length (lq_ready q) = LFRQ_SIZE" using assms by (auto simp: queue_ok_def)
  then have r: "(lq_ready q)[l := False] = lq_ready q" using assms(2) by (simp add: list_eq_iff_nth_eq)
  have "lq_free l q = Some ?q"
    using assms queue_count(1) [OF assms(1,2,4)] by (simp add: lq_free_def lq_changestate_def)
  moreover have "queue_ok ?q"
    using queue_free_slot [OF assms(1,2,4), of ?q False] assms(1) r by (simp add: queue_ok_def)
  ultimately show thesis using that by simp
qed

lemma lq_wakeup_spec:
  assumes q: "queue_ok q" and len: "length lmap = LFRQ_SIZE"
    and m: "\<And>l. l < LFRQ_SIZE \<Longrightarrow> lmap ! l \<Longrightarrow> \<not> lq_freemap q ! l"
  shows "queue_ok (lq_wakeup a lmap q)"
    and "l < LFRQ_SIZE \<Longrightarrow> lq_ready (lq_wakeup a lmap q) ! l = (lq_ready q ! l \<or> lmap ! l)"
    and "lq_freemap (lq_wakeup a lmap q) = lq_freemap q" "lq_reqs (lq_wakeup a lmap q) = lq_reqs q"
  using assms by (auto simp: queue_ok_def lq_wakeup_def)

subsection \<open>The miss buffers\<close>

lemma buffers_count:
  assumes "buffers_ok m" "i < MISSBUF_COUNT"
  shows "\<not> mf_freemap m ! i \<Longrightarrow> mf_count m - 1 = int MISSBUF_COUNT - int (bs_count ((mf_freemap m)[i := True])) \<and> 0 < mf_count m"
    and "mf_freemap m ! i \<Longrightarrow> mf_count m + 1 = int MISSBUF_COUNT - int (bs_count ((mf_freemap m)[i := False])) \<and> mf_count m < int MISSBUF_COUNT"
proof -
  have len: "length (mf_freemap m) = MISSBUF_COUNT" and c: "mf_count m = int MISSBUF_COUNT - int (bs_count (mf_freemap m))"
    using assms(1) by (simp_all add: buffers_ok_def)
  show "mf_count m - 1 = int MISSBUF_COUNT - int (bs_count ((mf_freemap m)[i := True])) \<and> 0 < mf_count m"
    if "\<not> mf_freemap m ! i"
    using bs_count_set [of i "mf_freemap m"] bs_count_le [of "(mf_freemap m)[i := True]"] that assms(2) len c by simp
  show "mf_count m + 1 = int MISSBUF_COUNT - int (bs_count ((mf_freemap m)[i := False])) \<and> mf_count m < int MISSBUF_COUNT"
    if "mf_freemap m ! i"
    using bs_count_clear [of i "mf_freemap m"] that assms(2) len c by simp
qed

text \<open>Rewriting a busy buffer, freeing one, and taking a free one for a new line.\<close>

lemma buffers_update:
  assumes m: "buffers_ok m" and i: "i < MISSBUF_COUNT" "\<not> mf_freemap m ! i"
    and mb: "entry_ok mb" "mb_state mb \<noteq> STATE_IDLE" "mb_addr mb = mb_addr (mf_missbufs m ! i)"
  shows "buffers_ok (m\<lparr>mf_missbufs := (mf_missbufs m)[i := mb]\<rparr>)"
proof -
  have "mb_addr ((mf_missbufs m)[i := mb] ! j) = mb_addr (mf_missbufs m ! j)" for j
    using mb(3) m i(1) by (cases "j = i") (simp_all add: buffers_ok_def)
  then show ?thesis using m i mb(1,2) by (simp add: buffers_ok_def)
qed

lemma buffers_free:
  assumes m: "buffers_ok m" and i: "i < MISSBUF_COUNT" "\<not> mf_freemap m ! i"
    and mb: "entry_ok mb" "mb_state mb = STATE_IDLE"
  shows "buffers_ok (m\<lparr>mf_missbufs := (mf_missbufs m)[i := mb], mf_freemap := (mf_freemap m)[i := True],
    mf_count := mf_count m - 1\<rparr>)"
proof -
  have "inj_on (\<lambda>j. mb_addr ((mf_missbufs m)[i := mb] ! j)) {j. j < MISSBUF_COUNT \<and> \<not> (mf_freemap m)[i := True] ! j}"
    using m i by (auto simp: buffers_ok_def inj_on_def split: if_splits)
  then show ?thesis using m i mb buffers_count(1) [OF m i] by (simp add: buffers_ok_def)
qed

lemma buffers_take:
  assumes m: "buffers_ok m" and i: "i < MISSBUF_COUNT" "mf_freemap m ! i" and mb: "entry_ok mb" "mb_state mb \<noteq> STATE_IDLE"
    and new: "\<And>j. j < MISSBUF_COUNT \<Longrightarrow> \<not> mf_freemap m ! j \<Longrightarrow> mb_addr (mf_missbufs m ! j) \<noteq> mb_addr mb"
  shows "buffers_ok (m\<lparr>mf_missbufs := (mf_missbufs m)[i := mb], mf_freemap := (mf_freemap m)[i := False],
    mf_count := mf_count m + 1\<rparr>)"
proof -
  let ?busy = "{j. j < MISSBUF_COUNT \<and> \<not> mf_freemap m ! j}" and ?xs = "(mf_missbufs m)[i := mb]"
  have busy: "{j. j < MISSBUF_COUNT \<and> \<not> (mf_freemap m)[i := False] ! j} = insert i ?busy"
    using m i by (auto simp: buffers_ok_def split: if_splits)
  have addr: "mb_addr (?xs ! j) = (if j = i then mb_addr mb else mb_addr (mf_missbufs m ! j))" for j
    using m i by (simp add: buffers_ok_def)
  have "inj_on (\<lambda>j. mb_addr (?xs ! j)) ?busy"
    using m i(2) by (auto simp: buffers_ok_def inj_on_def addr)
  moreover have "mb_addr (?xs ! i) \<notin> (\<lambda>j. mb_addr (?xs ! j)) ` (?busy - {i})"
    using new by (auto simp: addr) metis
  ultimately have "inj_on (\<lambda>j. mb_addr (?xs ! j)) {j. j < MISSBUF_COUNT \<and> \<not> (mf_freemap m)[i := False] ! j}"
    unfolding busy by simp
  then show ?thesis using m i mb buffers_count(2) [OF m i] by (simp add: buffers_ok_def)
qed

lemma mf_find_cases:
  obtains (found) i where "i < MISSBUF_COUNT" "mb_addr (mf_missbufs m ! i) = addr" "\<not> mf_freemap m ! i" "mf_find addr m = int i"
  | (none) "mf_find addr m = -1" "\<And>i. i < MISSBUF_COUNT \<Longrightarrow> \<not> mf_freemap m ! i \<Longrightarrow> mb_addr (mf_missbufs m ! i) \<noteq> addr"
  unfolding mf_find_def
  by (rule first_index_cases [of MISSBUF_COUNT "\<lambda>i. mb_addr (mf_missbufs m ! i) = addr \<and> \<not> mf_freemap m ! i"]) blast+

lemma entry_ok_reset [simp]: "entry_ok (mb_reset_entry mb)" "mb_state (mb_reset_entry mb) = STATE_IDLE"
  "mb_lfrqmap (mb_reset_entry mb) = bs_zero LFRQ_SIZE"
  by (simp_all add: entry_ok_def mb_reset_entry_def bs_any_iff)

lemma busy_state: "buffers_ok m \<Longrightarrow> i < MISSBUF_COUNT \<Longrightarrow> \<not> mf_freemap m ! i \<longleftrightarrow> mb_state (mf_missbufs m ! i) \<noteq> STATE_IDLE"
  by (simp add: buffers_ok_def)

lemma entry_of: "buffers_ok m \<Longrightarrow> i < MISSBUF_COUNT \<Longrightarrow> entry_ok (mf_missbufs m ! i)"
  by (simp add: buffers_ok_def)

subsection \<open>Starting a miss\<close>

lemma entry_taken:
  assumes "mb_lfrqmap mb = bs_zero LFRQ_SIZE" "st \<noteq> STATE_IDLE"
  shows "entry_ok (mb\<lparr>mb_state := st, mb_cycles := of_nat (latency st)\<rparr>)"
  using assms by (cases st) (auto simp: entry_ok_def bs_any_iff cache_consts)

lemma take_buffer_inv:
  assumes inv: "fill_inv X h" and i: "i < MISSBUF_COUNT" "mf_freemap (ch_missbuf h) ! i"
    and mb: "entry_ok mb" "mb_state mb \<noteq> STATE_IDLE" "mb_lfrqmap mb = bs_zero LFRQ_SIZE"
    and new: "\<And>j. j < MISSBUF_COUNT \<Longrightarrow> \<not> mf_freemap (ch_missbuf h) ! j \<Longrightarrow>
      mb_addr (mf_missbufs (ch_missbuf h) ! j) \<noteq> mb_addr mb"
    and h': "ch_lfrq h' = ch_lfrq h" "ch_missbuf h' = (ch_missbuf h)\<lparr>mf_missbufs := (mf_missbufs (ch_missbuf h))[i := mb],
      mf_freemap := (mf_freemap (ch_missbuf h))[i := False], mf_count := mf_count (ch_missbuf h) + 1\<rparr>"
  shows "fill_inv X h'"
proof -
  let ?m = "ch_missbuf h"
  have m: "buffers_ok ?m" and lk: "linked X (ch_lfrq h) ?m" and q: "queue_ok (ch_lfrq h)"
    using inv by (simp_all add: fill_inv_def)
  have len: "length (mf_missbufs ?m) = MISSBUF_COUNT" using m by (simp add: buffers_ok_def)
  have "\<not> bs_any (mb_lfrqmap (mf_missbufs ?m ! i))" "length (mb_lfrqmap (mf_missbufs ?m ! i)) = LFRQ_SIZE"
    using entry_of [OF m i(1)] busy_state [OF m i(1)] i(2) by (auto simp: entry_ok_def)
  then have "mb_lfrqmap ((mf_missbufs ?m)[i := mb] ! j) ! l = mb_lfrqmap (mf_missbufs ?m ! j) ! l"
    if "j < MISSBUF_COUNT" "l < LFRQ_SIZE" for j l
    using that i(1) mb(3) len by (cases "j = i") (auto simp: bs_any_iff)
  then have "linked X (ch_lfrq h') (ch_missbuf h')"
    using lk unfolding h' linked_def by (simp cong: conj_cong imp_cong)
  moreover have "buffers_ok (ch_missbuf h')"
    unfolding h' by (rule buffers_take [OF m i mb(1,2) new])
  ultimately show ?thesis using q by (simp add: fill_inv_def h')
qed

lemma initiate_miss_new:
  fixes addr :: W64
  defines "a \<equiv> floor_align addr (of_nat L1_LINE_SIZE)"
  assumes m: "buffers_ok (ch_missbuf h)" and none: "mf_find a (ch_missbuf h) = -1" and nf: "\<not> mf_full (ch_missbuf h)"
  obtains i st mb L3 where "i < MISSBUF_COUNT" "mf_freemap (ch_missbuf h) ! i" "st \<noteq> STATE_IDLE"
    "mb_addr mb = a" "mb_lfrqmap mb = bs_zero LFRQ_SIZE" "mb_dcache mb = (\<not> icache)"
    "initiate_miss addr hit icache rob tid h = Some (int i,
       h\<lparr>ch_missbuf := (ch_missbuf h)\<lparr>mf_missbufs := (mf_missbufs (ch_missbuf h))[i := mb\<lparr>mb_state := st, mb_cycles := of_nat (latency st)\<rparr>],
           mf_freemap := (mf_freemap (ch_missbuf h))[i := False], mf_count := mf_count (ch_missbuf h) + 1\<rparr>, ch_L3 := L3\<rparr>)"
proof -
  let ?m = "ch_missbuf h"
  define i where "i = lsb (mf_freemap ?m)"
  have i: "i < MISSBUF_COUNT" "mf_freemap ?m ! i"
    using nf m lsb_less [of "mf_freemap ?m"] lsb_set [of "mf_freemap ?m"] by (simp_all add: i_def mf_full_def buffers_ok_def)
  note c = buffers_count(2) [OF m i]
  define mb where "mb = (mf_missbufs ?m ! i)\<lparr>mb_addr := a, mb_lfrqmap := bs_zero LFRQ_SIZE, mb_icache := icache,
    mb_dcache := \<not> icache, mb_rob := word_of_int rob, mb_threadid := word_of_int tid\<rparr>"
  obtain p L3' where l3: "aa_probe L3_LINE_SIZE a (ch_L3 h) = (p, L3')" by fastforce
  define st where "st = (if hit then STATE_DELIVER_TO_L1 else if p \<noteq> None then STATE_DELIVER_TO_L2 else STATE_DELIVER_TO_L3)"
  have "initiate_miss addr hit icache rob tid h = Some (int i,
       h\<lparr>ch_missbuf := ?m\<lparr>mf_missbufs := (mf_missbufs ?m)[i := mb\<lparr>mb_state := st, mb_cycles := of_nat (latency st)\<rparr>],
           mf_freemap := (mf_freemap ?m)[i := False], mf_count := mf_count ?m + 1\<rparr>, ch_L3 := if hit then ch_L3 h else L3'\<rparr>)"
    using nf c none l3 unfolding initiate_miss_def a_def [symmetric]
    by (auto simp: i_def [symmetric] mb_def [symmetric] st_def set_entry_def Let_def)
  then show thesis
    using i by (intro that [of i st mb]) (auto simp: st_def mb_def)
qed

text \<open>
  A miss either joins the buffer of its line or takes a free one; it fails, and changes nothing,
  exactly when the line has no buffer and all are busy.
\<close>

lemma initiate_miss_spec:
  assumes inv: "fill_inv X h"
  obtains (full) "initiate_miss addr hit icache rob tid h = Some (-1, h)" "mf_full (ch_missbuf h)"
  | (ok) i h' where "initiate_miss addr hit icache rob tid h = Some (int i, h')" "i < MISSBUF_COUNT" "fill_inv X h'"
      "\<not> mf_freemap (ch_missbuf h') ! i" "\<not> icache \<Longrightarrow> mb_dcache (mf_missbufs (ch_missbuf h') ! i)"
      "mb_addr (mf_missbufs (ch_missbuf h') ! i) = floor_align addr (of_nat L1_LINE_SIZE)"
      "ch_lfrq h' = ch_lfrq h" "ch_callback h' = ch_callback h" "ch_L1 h' = ch_L1 h"
proof -
  let ?m = "ch_missbuf h"
  let ?a = "floor_align addr (of_nat L1_LINE_SIZE)"
  have q: "queue_ok (ch_lfrq h)" and m: "buffers_ok ?m" and lk: "linked X (ch_lfrq h) ?m"
    using inv by (simp_all add: fill_inv_def)
  show thesis
  proof (cases rule: mf_find_cases [of ?m ?a])
    case (found i)
    define mb where "mb = (mf_missbufs ?m ! i)\<lparr>mb_icache := mb_icache (mf_missbufs ?m ! i) \<or> icache,
      mb_dcache := mb_dcache (mf_missbufs ?m ! i) \<or> \<not> icache\<rparr>"
    have mb: "entry_ok mb" "mb_state mb \<noteq> STATE_IDLE" "mb_addr mb = mb_addr (mf_missbufs ?m ! i)"
      "mb_lfrqmap mb = mb_lfrqmap (mf_missbufs ?m ! i)"
      using entry_of [OF m found(1)] busy_state [OF m found(1)] found(3) by (auto simp: mb_def entry_ok_def)
    have r: "initiate_miss addr hit icache rob tid h = Some (int i, set_entry i mb h)"
      by (simp add: initiate_miss_def found Let_def mb_def)
    have "fill_inv X (set_entry i mb h)"
      using q buffers_update [OF m found(1,3) mb(1-3)] lk mb(4) found(1) m
      by (auto simp: fill_inv_def set_entry_def linked_def buffers_ok_def)
    then show thesis
      using found m by (intro ok [OF r]) (simp_all add: set_entry_def buffers_ok_def mb_def)
  next
    case none
    show thesis
    proof (cases "mf_full ?m")
      case True
      then show thesis by (intro full) (simp_all add: initiate_miss_def none Let_def)
    next
      case False
      from initiate_miss_new [OF m none(1) False, of icache hit rob tid] obtain i st mb L3
        where i: "i < MISSBUF_COUNT" "mf_freemap ?m ! i" and st: "st \<noteq> STATE_IDLE"
        and mb: "mb_addr mb = ?a" "mb_lfrqmap mb = bs_zero LFRQ_SIZE" "mb_dcache mb = (\<not> icache)"
        and r: "initiate_miss addr hit icache rob tid h = Some (int i,
          h\<lparr>ch_missbuf := ?m\<lparr>mf_missbufs := (mf_missbufs ?m)[i := mb\<lparr>mb_state := st, mb_cycles := of_nat (latency st)\<rparr>],
            mf_freemap := (mf_freemap ?m)[i := False], mf_count := mf_count ?m + 1\<rparr>, ch_L3 := L3\<rparr>)"
        by metis
      have "fill_inv X (h\<lparr>ch_missbuf := ?m\<lparr>mf_missbufs := (mf_missbufs ?m)[i := mb\<lparr>mb_state := st, mb_cycles := of_nat (latency st)\<rparr>],
            mf_freemap := (mf_freemap ?m)[i := False], mf_count := mf_count ?m + 1\<rparr>, ch_L3 := L3\<rparr>)"
        by (rule take_buffer_inv [OF inv i entry_taken [OF mb(2) st]]) (use st mb none(2) in simp_all)
      then show thesis
        using r i mb m by (intro ok [OF r]) (simp_all add: buffers_ok_def)
    qed
  qed
qed

text \<open>Adding a request opens the link of its slot, a buffer with room closes it, giving the slot back closes it too.\<close>

lemma add_opens_link:
  assumes inv: "fill_inv {} h" and l: "l < LFRQ_SIZE" "lq_freemap (ch_lfrq h) ! l"
    and q': "queue_ok q'" "lq_freemap q' = (lq_freemap (ch_lfrq h))[l := False]" "lq_ready q' = lq_ready (ch_lfrq h)"
      "lq_reqs q' = (lq_reqs (ch_lfrq h))[l := req]"
  shows "fill_inv {l} (h\<lparr>ch_lfrq := q'\<rparr>)"
proof -
  let ?q = "ch_lfrq h" and ?m = "ch_missbuf h"
  have lk: "linked {} ?q ?m" and m: "buffers_ok ?m" and q: "queue_ok ?q" using inv by (simp_all add: fill_inv_def)
  have "\<not> mb_lfrqmap (mf_missbufs ?m ! i) ! l" if "i < MISSBUF_COUNT" for i
    using lk l that by (auto simp: linked_def)
  moreover have "k < LFRQ_SIZE \<Longrightarrow> k \<noteq> l \<Longrightarrow> lq_freemap q' ! k = lq_freemap ?q ! k \<and> lq_reqs q' ! k = lq_reqs ?q ! k" for k
    by (simp add: q')
  ultimately have "linked {l} q' ?m"
    using lk unfolding linked_def q'(3) by (metis empty_iff insertI1)
  then show ?thesis using m q'(1) by (simp add: fill_inv_def)
qed

lemma join_closes_link:
  assumes inv: "fill_inv {l} h" and l: "l < LFRQ_SIZE" "\<not> lq_freemap (ch_lfrq h) ! l" "\<not> lq_ready (ch_lfrq h) ! l"
    and i: "i < MISSBUF_COUNT" "\<not> mf_freemap (ch_missbuf h) ! i" "mb_dcache (mf_missbufs (ch_missbuf h) ! i)"
    and none: "\<And>j. j < MISSBUF_COUNT \<Longrightarrow> \<not> mb_lfrqmap (mf_missbufs (ch_missbuf h) ! j) ! l"
    and h': "ch_lfrq h' = (ch_lfrq h)\<lparr>lq_reqs := (lq_reqs (ch_lfrq h))[l := r\<lparr>lfr_mbidx := of_nat i\<rparr>]\<rparr>"
      "ch_missbuf h' = (ch_missbuf h)\<lparr>mf_missbufs := (mf_missbufs (ch_missbuf h))[i := mb\<lparr>mb_lfrqmap := (mb_lfrqmap mb)[l := True]\<rparr>]\<rparr>"
      "mb = mf_missbufs (ch_missbuf h) ! i"
  shows "fill_inv {} h'"
proof -
  let ?q = "ch_lfrq h" and ?m = "ch_missbuf h"
  have lk: "linked {l} ?q ?m" and m: "buffers_ok ?m" and q: "queue_ok ?q" using inv by (simp_all add: fill_inv_def)
  have len: "length (mf_missbufs ?m) = MISSBUF_COUNT" "length (lq_reqs ?q) = LFRQ_SIZE"
    using m q by (simp_all add: buffers_ok_def queue_ok_def)
  have mb: "entry_ok mb" "mb_state mb \<noteq> STATE_IDLE" "length (mb_lfrqmap mb) = LFRQ_SIZE"
    using entry_of [OF m i(1)] busy_state [OF m i(1)] i(2) h'(3) by (simp_all add: entry_ok_def)
  have map: "mb_lfrqmap (mf_missbufs (ch_missbuf h') ! j) ! k = (mb_lfrqmap (mf_missbufs ?m ! j) ! k \<or> j = i \<and> k = l)"
    if "j < MISSBUF_COUNT" "k < LFRQ_SIZE" for j k
    using that mb(3) len i(1) l(1) by (cases "j = i"; cases "k = l") (simp_all add: h')
  have req: "lfr_mbidx (lq_reqs (ch_lfrq h') ! k) = (if k = l then of_nat i else lfr_mbidx (lq_reqs ?q ! k))" if "k < LFRQ_SIZE" for k
    using that l(1) len by (simp add: h')
  have qq: "lq_freemap (ch_lfrq h') = lq_freemap ?q" "lq_ready (ch_lfrq h') = lq_ready ?q" by (simp_all add: h'(1))
  have "linked {} (ch_lfrq h') (ch_missbuf h')"
    using lk none l i(1) unfolding linked_def qq
    by (simp add: map req cong: conj_cong imp_cong) (metis singletonD)
  moreover have "buffers_ok (ch_missbuf h')"
    unfolding h'(2) by (rule buffers_update [OF m i(1,2)]) (use mb i(3) h'(3) in \<open>simp_all add: entry_ok_def\<close>)
  moreover have "queue_ok (ch_lfrq h')" using q by (simp add: h'(1) queue_ok_def)
  ultimately show ?thesis by (simp add: fill_inv_def)
qed

lemma free_closes_link:
  assumes inv: "fill_inv {l} h" and l: "l < LFRQ_SIZE" and none: "\<And>j. j < MISSBUF_COUNT \<Longrightarrow> \<not> mb_lfrqmap (mf_missbufs (ch_missbuf h) ! j) ! l"
    and q': "queue_ok q'" "lq_freemap q' = (lq_freemap (ch_lfrq h))[l := True]" "lq_ready q' = lq_ready (ch_lfrq h)"
      "lq_reqs q' = lq_reqs (ch_lfrq h)"
  shows "fill_inv {} (h\<lparr>ch_lfrq := q'\<rparr>)"
proof -
  let ?q = "ch_lfrq h" and ?m = "ch_missbuf h"
  have lk: "linked {l} ?q ?m" and m: "buffers_ok ?m" and q: "queue_ok ?q" using inv by (simp_all add: fill_inv_def)
  have "lq_freemap q' ! k = (k = l \<or> lq_freemap ?q ! k)" if "k < LFRQ_SIZE" for k
    using that l q by (simp add: q' queue_ok_def)
  then have "linked {} q' ?m"
    using lk none unfolding linked_def q'(3,4) by (metis singletonD)
  then show ?thesis using m q'(1) by (simp add: fill_inv_def)
qed

lemma unlinked_mbidx:
  assumes "linked X q m" "l < LFRQ_SIZE" "lfr_mbidx (lq_reqs q ! l) = -1" "j < MISSBUF_COUNT"
  shows "\<not> mb_lfrqmap (mf_missbufs m ! j) ! l"
proof
  assume "mb_lfrqmap (mf_missbufs m ! j) ! l"
  then have "of_nat j = (-1 :: W8)" using assms by (auto simp: linked_def)
  then have "unat (of_nat j :: W8) = unat (-1 :: W8)" by simp
  then show False using assms(4) by (simp add: unat_of_nat unat_minus_one_word cache_consts)
qed

lemma initiate_miss_req_spec:
  assumes inv: "fill_inv {} h" and idx: "lfr_mbidx req = -1"
  obtains (full) q where "initiate_miss_req req hit rob h = Some (-1, h\<lparr>ch_lfrq := q\<rparr>)" "fill_inv {} (h\<lparr>ch_lfrq := q\<rparr>)"
      "lq_freemap q = lq_freemap (ch_lfrq h)" "lq_ready q = lq_ready (ch_lfrq h)"
      "\<And>k. k < LFRQ_SIZE \<Longrightarrow> \<not> lq_freemap q ! k \<Longrightarrow> lq_reqs q ! k = lq_reqs (ch_lfrq h) ! k" "lfrq_or_missbuf_full h"
  | (ok) l i h' where "initiate_miss_req req hit rob h = Some (int l, h')" "l < LFRQ_SIZE" "fill_inv {} h'"
      "lq_freemap (ch_lfrq h) ! l" "lq_freemap (ch_lfrq h') = (lq_freemap (ch_lfrq h))[l := False]"
      "lq_ready (ch_lfrq h') = lq_ready (ch_lfrq h)"
      "lq_reqs (ch_lfrq h') = (lq_reqs (ch_lfrq h))[l := req\<lparr>lfr_mbidx := of_nat i\<rparr>]"
      "ch_callback h' = ch_callback h" "ch_L1 h' = ch_L1 h" "i < MISSBUF_COUNT" "\<not> mf_freemap (ch_missbuf h') ! i"
      "mb_lfrqmap (mf_missbufs (ch_missbuf h') ! i) ! l"
      "mb_addr (mf_missbufs (ch_missbuf h') ! i) = floor_align (lfr_addr req) (of_nat L1_LINE_SIZE)"
proof -
  have q: "queue_ok (ch_lfrq h)" and m: "buffers_ok (ch_missbuf h)" using inv by (simp_all add: fill_inv_def)
  show thesis
  proof (cases "lq_full (ch_lfrq h)")
    case True
    then show thesis
      using lq_add_spec [OF q, of req] inv by (intro full [of "ch_lfrq h"]) (simp_all add: initiate_miss_req_def lfrq_or_missbuf_full_def)
  next
    case False
    then obtain l q' where add: "lq_add req (ch_lfrq h) = Some (int l, q')" and l: "l < LFRQ_SIZE" "lq_freemap (ch_lfrq h) ! l"
      and q': "queue_ok q'" "lq_freemap q' = (lq_freemap (ch_lfrq h))[l := False]" "lq_ready q' = lq_ready (ch_lfrq h)"
        "lq_waiting q' = (lq_waiting (ch_lfrq h))[l := True]" "lq_reqs q' = (lq_reqs (ch_lfrq h))[l := req]"
      using lq_add_spec [OF q, of req] by auto
    define h1 where "h1 = h\<lparr>ch_lfrq := q'\<rparr>"
    have inv1: "fill_inv {l} h1" unfolding h1_def by (rule add_opens_link [OF inv l q'(1-3,5)])
    have len: "length (lq_reqs (ch_lfrq h)) = LFRQ_SIZE" "length (lq_freemap (ch_lfrq h)) = LFRQ_SIZE"
      "length (lq_waiting (ch_lfrq h)) = LFRQ_SIZE" using q by (simp_all add: queue_ok_def)
    have at: "lq_waiting q' ! l" "\<not> lq_freemap q' ! l" "\<not> lq_ready q' ! l" "lq_reqs q' ! l = req"
      using l q' len q by (auto simp: queue_ok_def)
    note none = unlinked_mbidx [of "{l}" q' _ l, OF _ l(1), unfolded at(4), OF _ idx]
    note step = initiate_miss_spec [OF inv1, of "lfr_addr req" hit False rob "uint (lsi_threadid (lfr_lsi req))"]
    show thesis
    proof (cases rule: step)
      case 1
      obtain q'' where fr: "lq_free l q' = Some q''" "queue_ok q''" "lq_freemap q'' = (lq_freemap q')[l := True]"
        "lq_ready q'' = lq_ready q'" "lq_reqs q'' = lq_reqs q'"
        using lq_free_spec [OF q'(1) l(1) at(1,2)] by metis
      have "fill_inv {} (h1\<lparr>ch_lfrq := q''\<rparr>)"
        by (rule free_closes_link [OF inv1 l(1)])
          (use none fr inv1 in \<open>simp_all add: h1_def fill_inv_def\<close>)
      moreover have "initiate_miss_req req hit rob h = Some (-1, h\<lparr>ch_lfrq := q''\<rparr>)"
        using 1(1) fr(1) add by (simp add: initiate_miss_req_def h1_def)
      moreover have "lq_freemap q'' = lq_freemap (ch_lfrq h)"
        using fr(3) q'(2) l len by (simp add: list_eq_iff_nth_eq)
      moreover have "k < LFRQ_SIZE \<Longrightarrow> \<not> lq_freemap q'' ! k \<Longrightarrow> lq_reqs q'' ! k = lq_reqs (ch_lfrq h) ! k" for k
        using fr l len by (cases "k = l") (simp_all add: q')
      ultimately show thesis
        using 1(2) fr q' by (intro full [of q'']) (simp_all add: h1_def lfrq_or_missbuf_full_def)
    next
      case (2 i h2)
      define h3 where "h3 = set_entry i ((mf_missbufs (ch_missbuf h2) ! i)\<lparr>mb_lfrqmap :=
          (mb_lfrqmap (mf_missbufs (ch_missbuf h2) ! i))[l := True]\<rparr>) h2
        \<lparr>ch_lfrq := q'\<lparr>lq_reqs := (lq_reqs q')[l := req\<lparr>lfr_mbidx := of_nat i\<rparr>]\<rparr>\<rparr>"
      have r: "initiate_miss_req req hit rob h = Some (int l, h3)"
        using 2(1,7) add at(4) by (simp add: initiate_miss_req_def h1_def h3_def set_entry_def Let_def)
      have q2: "ch_lfrq h2 = q'" using 2(7) by (simp add: h1_def)
      have inv3: "fill_inv {} h3"
        by (rule join_closes_link [OF 2(3) l(1) _ _ 2(2,4) 2(5), where r = req])
          (use at none 2(3) q2 in \<open>auto simp: h3_def set_entry_def fill_inv_def\<close>)
      have "length (mf_missbufs (ch_missbuf h2)) = MISSBUF_COUNT" "length (mb_lfrqmap (mf_missbufs (ch_missbuf h2) ! i)) = LFRQ_SIZE"
        using 2(2,3) by (simp_all add: fill_inv_def buffers_ok_def entry_ok_def)
      then show thesis
        using 2 l q' by (intro ok [OF r l(1) inv3 l(2), of i]) (simp_all add: h3_def set_entry_def h1_def)
    qed
  qed
qed

subsection \<open>Annulling a load\<close>

lemma entry_ok_clear: "entry_ok mb \<Longrightarrow> entry_ok (mb\<lparr>mb_lfrqmap := (mb_lfrqmap mb)[l := False]\<rparr>)"
  by (cases "l < length (mb_lfrqmap mb)") (auto simp: entry_ok_def bs_any_iff split: if_splits)

lemma annul_lfrq_ok: "buffers_ok m \<Longrightarrow> buffers_ok (annul_lfrq l m)"
  by (auto simp: buffers_ok_def annul_lfrq_def entry_ok_clear inj_on_def)

lemma lq_annul_spec:
  assumes inv: "fill_inv {} h" and l: "l < LFRQ_SIZE" "\<not> lq_freemap (ch_lfrq h) ! l"
  obtains q m where "lq_annul l h = Some (h\<lparr>ch_missbuf := m, ch_lfrq := q\<rparr>)" "fill_inv {} (h\<lparr>ch_missbuf := m, ch_lfrq := q\<rparr>)"
    "lq_freemap q = (lq_freemap (ch_lfrq h))[l := True]" "\<And>k. k \<noteq> l \<Longrightarrow> lq_reqs q ! k = lq_reqs (ch_lfrq h) ! k"
proof -
  let ?q = "ch_lfrq h" and ?m = "annul_lfrq l (ch_missbuf h)"
  define q where "q = ?q\<lparr>lq_reqs := (lq_reqs ?q)[l := (lq_reqs ?q ! l)\<lparr>lfr_mbidx := -1\<rparr>],
    lq_ready := (lq_ready ?q)[l := False], lq_freemap := (lq_freemap ?q)[l := True], lq_count := lq_count ?q - 1\<rparr>"
  have qok: "queue_ok ?q" and mok: "buffers_ok (ch_missbuf h)" and lk: "linked {} ?q (ch_missbuf h)"
    using inv by (simp_all add: fill_inv_def)
  have len: "length (lq_freemap ?q) = LFRQ_SIZE" "length (lq_ready ?q) = LFRQ_SIZE" "length (lq_reqs ?q) = LFRQ_SIZE"
    "length (lq_waiting ?q) = LFRQ_SIZE" using qok by (simp_all add: queue_ok_def)
  have ann: "lq_annul l h = Some (h\<lparr>ch_missbuf := ?m, ch_lfrq := q\<rparr>)"
    using l queue_count(1) [OF qok l] by (simp add: lq_annul_def lq_changestate_def q_def Let_def)
  have "queue_ok q"
    by (rule queue_free_slot [OF qok l, where w = "lq_waiting ?q ! l"]) (simp_all add: q_def len)
  moreover have map: "mb_lfrqmap (mf_missbufs ?m ! i) ! k = (k \<noteq> l \<and> mb_lfrqmap (mf_missbufs (ch_missbuf h) ! i) ! k)"
    if "i < MISSBUF_COUNT" "k < LFRQ_SIZE" for i k
    using that l(1) mok by (auto simp: annul_lfrq_def buffers_ok_def entry_ok_def)
  have "linked {} q ?m"
    using lk l unfolding linked_def by (auto simp: map q_def len cong: conj_cong)
  ultimately have "fill_inv {} (h\<lparr>ch_missbuf := ?m, ch_lfrq := q\<rparr>)"
    using annul_lfrq_ok [OF mok] by (simp add: fill_inv_def)
  then show thesis by (rule that [OF ann]) (simp_all add: q_def)
qed

subsection \<open>The clock\<close>

text \<open>Waking the first ready slot reports its load to the core and frees it.\<close>

lemma lq_wake_slot_spec:
  assumes inv: "fill_inv {} h" and some: "\<not> bs_none (lq_ready (ch_lfrq h))"
  obtains l q where "lq_wake_slot h = Some (callback (dcache_wakeup (lfr_lsi (lq_reqs (ch_lfrq h) ! l)) (lfr_addr (lq_reqs (ch_lfrq h) ! l))) (h\<lparr>ch_lfrq := q\<rparr>))"
    "l < LFRQ_SIZE" "lq_ready (ch_lfrq h) ! l" "\<not> lq_freemap (ch_lfrq h) ! l" "fill_inv {} (h\<lparr>ch_lfrq := q\<rparr>)"
    "lq_freemap q = (lq_freemap (ch_lfrq h))[l := True]" "lq_reqs q = lq_reqs (ch_lfrq h)"
    "lq_ready q = (lq_ready (ch_lfrq h))[l := False]"
proof -
  let ?q = "ch_lfrq h"
  define l where "l = lsb (lq_ready ?q)"
  have q: "queue_ok ?q" and lk: "linked {} ?q (ch_missbuf h)" using inv by (simp_all add: fill_inv_def)
  have l: "l < LFRQ_SIZE" "lq_ready ?q ! l" "\<not> lq_freemap ?q ! l"
    using some q lsb_less [of "lq_ready ?q"] lsb_set [of "lq_ready ?q"] by (auto simp: l_def queue_ok_def)
  define q' where "q' = ?q\<lparr>lq_ready := (lq_ready ?q)[l := False], lq_freemap := (lq_freemap ?q)[l := True], lq_count := lq_count ?q - 1\<rparr>"
  have len: "length (lq_freemap ?q) = LFRQ_SIZE" "length (lq_ready ?q) = LFRQ_SIZE" "length (lq_reqs ?q) = LFRQ_SIZE"
    using q by (simp_all add: queue_ok_def)
  have "queue_ok q'"
    by (rule queue_free_slot [OF q l(1,3), where w = "lq_waiting ?q ! l"]) (simp_all add: q'_def len)
  moreover have "linked {} q' (ch_missbuf h)"
    using lk l unfolding linked_def by (auto simp: q'_def len)
  ultimately have "fill_inv {} (h\<lparr>ch_lfrq := q'\<rparr>)" using inv by (simp add: fill_inv_def)
  moreover have "lq_wake_slot h = Some (callback (dcache_wakeup (lfr_lsi (lq_reqs ?q ! l)) (lfr_addr (lq_reqs ?q ! l))) (h\<lparr>ch_lfrq := q'\<rparr>))"
    using l queue_count(1) [OF q l(1,3)]
    by (simp add: lq_wake_slot_def callback_def lq_changestate_def Let_def l_def [symmetric]) (simp add: q'_def)
  ultimately show thesis using l by (intro that [of l q']) (simp_all add: q'_def)
qed

text \<open>The number of clock ticks until a buffer delivers to the L1.\<close>

definition ticks_left :: "Entry \<Rightarrow> nat" where
  "ticks_left mb = (case mb_state mb of
     STATE_IDLE \<Rightarrow> 0
   | STATE_DELIVER_TO_L3 \<Rightarrow> unat (mb_cycles mb) + L3_LATENCY + L2_LATENCY
   | STATE_DELIVER_TO_L2 \<Rightarrow> unat (mb_cycles mb) + L2_LATENCY
   | STATE_DELIVER_TO_L1 \<Rightarrow> unat (mb_cycles mb))"

lemma ticks_left_bound: "entry_ok mb \<Longrightarrow> ticks_left mb \<le> MAIN_MEM_LATENCY + L3_LATENCY + L2_LATENCY"
  by (auto simp: ticks_left_def entry_ok_def cache_consts split: mbstate.split)

lemma ticks_left_zero: "entry_ok mb \<Longrightarrow> ticks_left mb = 0 \<longleftrightarrow> mb_state mb = STATE_IDLE"
  by (auto simp: ticks_left_def entry_ok_def cache_consts split: mbstate.split)

lemma unat_pred: "0 < unat w \<Longrightarrow> unat (w - 1) = unat w - 1" for w :: "'a::len word"
  by (metis less_numeral_extra(3) unat_eq_zero unat_minus_one)

text \<open>A step of a buffer on its way that does not reach the L1 yet.\<close>

lemma tick_inv:
  assumes inv: "fill_inv {} h" and i: "i < MISSBUF_COUNT" "\<not> mf_freemap (ch_missbuf h) ! i"
    and mb: "mb = mf_missbufs (ch_missbuf h) ! i" "st \<noteq> STATE_IDLE" "0 < unat c" "unat c \<le> latency st"
    and h': "ch_lfrq h' = ch_lfrq h" "ch_missbuf h' = (ch_missbuf h)\<lparr>mf_missbufs := (mf_missbufs (ch_missbuf h))[i := mb\<lparr>mb_cycles := c, mb_state := st\<rparr>]\<rparr>"
  shows "fill_inv {} h'"
proof -
  let ?m = "ch_missbuf h"
  have m: "buffers_ok ?m" and lk: "linked {} (ch_lfrq h) ?m" using inv by (simp_all add: fill_inv_def)
  have "entry_ok mb" "mb_state mb \<noteq> STATE_IDLE" using entry_of [OF m i(1)] busy_state [OF m i(1)] i(2) mb(1) by simp_all
  then have "buffers_ok (ch_missbuf h')"
    unfolding h'(2) using mb by (intro buffers_update [OF m i]) (simp_all add: entry_ok_def)
  moreover have "mb_lfrqmap (mf_missbufs (ch_missbuf h') ! j) = mb_lfrqmap (mf_missbufs ?m ! j)" for j
    using i(1) m by (cases "j = i") (simp_all add: h'(2) mb(1) buffers_ok_def)
  then have "linked {} (ch_lfrq h') (ch_missbuf h')" using lk by (simp add: linked_def h'(1))
  ultimately show ?thesis using inv by (simp add: fill_inv_def h'(1))
qed

text \<open>Delivery to the L1 makes the loads of the buffer ready and gives the buffer back.\<close>

lemma deliver_inv:
  assumes inv: "fill_inv {} h" and i: "i < MISSBUF_COUNT" "\<not> mf_freemap (ch_missbuf h) ! i"
    and mb: "mb = mf_missbufs (ch_missbuf h) ! i"
    and q': "q' = (if mb_dcache mb then lq_wakeup a (mb_lfrqmap mb) (ch_lfrq h) else ch_lfrq h)"
    and h': "ch_lfrq h' = q'" "ch_missbuf h' = (ch_missbuf h)\<lparr>mf_missbufs := (mf_missbufs (ch_missbuf h))[i := mb_reset_entry mb'],
      mf_freemap := (mf_freemap (ch_missbuf h))[i := True], mf_count := mf_count (ch_missbuf h) - 1\<rparr>"
  shows "fill_inv {} h'" "lq_freemap q' = lq_freemap (ch_lfrq h)" "lq_reqs q' = lq_reqs (ch_lfrq h)"
proof -
  let ?m = "ch_missbuf h" and ?q = "ch_lfrq h"
  have m: "buffers_ok ?m" and lk: "linked {} ?q ?m" and q: "queue_ok ?q" using inv by (simp_all add: fill_inv_def)
  have mb': "length (mb_lfrqmap mb) = LFRQ_SIZE" "bs_any (mb_lfrqmap mb) \<Longrightarrow> mb_dcache mb"
    using entry_of [OF m i(1)] mb by (simp_all add: entry_ok_def)
  have out: "\<not> lq_freemap ?q ! l \<and> lfr_mbidx (lq_reqs ?q ! l) = of_nat i" if "l < LFRQ_SIZE" "mb_lfrqmap mb ! l" for l
    using lk that i(1) mb by (auto simp: linked_def)
  note w = lq_wakeup_spec [OF q mb'(1), where a = a]
  have q'ok: "queue_ok q'" using q w(1) out by (simp add: q')
  show fr: "lq_freemap q' = lq_freemap ?q" "lq_reqs q' = lq_reqs ?q"
    by (simp_all add: q' lq_wakeup_def)
  have rd: "lq_ready q' ! l = (lq_ready ?q ! l \<or> mb_lfrqmap mb ! l)" if "l < LFRQ_SIZE" for l
    using w(2) [of l] that out mb' by (auto simp: q' bs_any_iff)
  have ent: "mb_lfrqmap (mf_missbufs (ch_missbuf h') ! j) ! l = (j \<noteq> i \<and> mb_lfrqmap (mf_missbufs ?m ! j) ! l)"
    if "j < MISSBUF_COUNT" "l < LFRQ_SIZE" for j l
    using that i(1) m by (cases "j = i") (simp_all add: h'(2) buffers_ok_def)
  have other: "\<not> mb_lfrqmap mb ! l" if "j < MISSBUF_COUNT" "j \<noteq> i" "l < LFRQ_SIZE" "mb_lfrqmap (mf_missbufs ?m ! j) ! l" for j l
  proof
    assume "mb_lfrqmap mb ! l"
    moreover have "lfr_mbidx (lq_reqs ?q ! l) = of_nat j" using lk that by (simp add: linked_def)
    ultimately have "(of_nat i :: W8) = of_nat j" using out [OF that(3)] by simp
    then have "unat (of_nat i :: W8) = unat (of_nat j :: W8)" by simp
    with that i(1) show False by (simp add: unat_of_nat cache_consts)
  qed
  have "linked {} q' (ch_missbuf h')"
    unfolding linked_def fr
  proof (intro conjI allI impI)
    fix j l assume "j < MISSBUF_COUNT" "l < LFRQ_SIZE" "mb_lfrqmap (mf_missbufs (ch_missbuf h') ! j) ! l"
    then show "\<not> lq_freemap ?q ! l" "\<not> lq_ready q' ! l" "lfr_mbidx (lq_reqs ?q ! l) = of_nat j"
      using lk other by (auto simp: ent rd linked_def)
  next
    fix l assume "l < LFRQ_SIZE" "\<not> lq_freemap ?q ! l" "\<not> lq_ready q' ! l"
    moreover from this lk obtain j where "j < MISSBUF_COUNT" "mb_lfrqmap (mf_missbufs ?m ! j) ! l"
      by (auto simp: rd linked_def)
    ultimately show "\<exists>j < MISSBUF_COUNT. mb_lfrqmap (mf_missbufs (ch_missbuf h') ! j) ! l"
      using mb by (intro exI [of _ j]) (auto simp: ent rd)
  qed
  moreover have "buffers_ok (ch_missbuf h')" unfolding h'(2) by (rule buffers_free [OF m i]) simp_all
  ultimately show "fill_inv {} h'" using q'ok by (simp add: fill_inv_def h'(1))
qed

text \<open>What the clock keeps of the loads: no slot is taken or given back by the miss buffers, no request changes.\<close>

definition same_loads :: "CacheHierarchy \<Rightarrow> CacheHierarchy \<Rightarrow> bool" where
  "same_loads h h' \<longleftrightarrow> lq_freemap (ch_lfrq h') = lq_freemap (ch_lfrq h) \<and> lq_reqs (ch_lfrq h') = lq_reqs (ch_lfrq h)"

definition dcache_events :: "CacheHierarchy \<Rightarrow> Wakeup list" where
  "dcache_events h = filter (\<lambda>w. case w of dcache_wakeup lsi a \<Rightarrow> True | icache_wakeup lsi a \<Rightarrow> False) (case ch_callback h of None \<Rightarrow> [] | Some l \<Rightarrow> l)"

text \<open>A tick that does not deliver to the L1 counts down, or hands the line to the next level.\<close>

lemma tick_step:
  assumes mb: "mb = mf_missbufs (ch_missbuf h) ! i" "entry_ok mb" "mb_state mb \<noteq> STATE_IDLE"
    and "\<not> (mb_state mb = STATE_DELIVER_TO_L1 \<and> unat (mb_cycles mb) = 1)"
  obtains st c lo hi where "mf_clock_slot i h = Some (set_entry i (mb\<lparr>mb_cycles := c, mb_state := st\<rparr>) (h\<lparr>ch_L2 := lo, ch_L3 := hi\<rparr>))"
    "st \<noteq> STATE_IDLE" "0 < unat c" "unat c \<le> latency st"
    "ticks_left (mb\<lparr>mb_cycles := c, mb_state := st\<rparr>) = ticks_left mb - 1"
proof -
  have c: "unat (mb_cycles mb - 1) = unat (mb_cycles mb) - 1" "0 < unat (mb_cycles mb)" "unat (mb_cycles mb) \<le> latency (mb_state mb)"
    using mb by (simp_all add: entry_ok_def unat_pred)
  then have zero: "mb_cycles mb - 1 = 0 \<longleftrightarrow> unat (mb_cycles mb) = 1" by (simp add: unat_eq_zero [symmetric] del: unat_eq_zero) linarith
  have same: "mb\<lparr>mb_cycles := x, mb_state := mb_state mb\<rparr> = mb\<lparr>mb_cycles := x\<rparr>" for x by simp
  show thesis
  proof (cases "unat (mb_cycles mb) = 1")
    case True
    then have z: "mb_cycles mb - 1 = 0" using zero by simp
    show thesis
    proof (cases "mb_state mb")
      case STATE_DELIVER_TO_L3
      then show thesis
        using z True by (intro that [where st = STATE_DELIVER_TO_L2 and c = "of_nat L3_LATENCY" and lo = "ch_L2 h"
            and hi = "L3_validate (mb_addr mb) (ch_L3 h)"])
          (simp_all add: mf_clock_slot_def mb(1) [symmetric] ticks_left_def cache_consts)
    next
      case STATE_DELIVER_TO_L2
      then show thesis
        using z True by (intro that [where st = STATE_DELIVER_TO_L1 and c = "of_nat L2_LATENCY"
            and lo = "L2_validate (mb_addr mb) (ch_L2 h)" and hi = "ch_L3 h"])
          (simp_all add: mf_clock_slot_def mb(1) [symmetric] ticks_left_def cache_consts)
    qed (use assms True in simp_all)
  next
    case False
    then have z: "mb_cycles mb - 1 \<noteq> 0" using zero by simp
    then have "mf_clock_slot i h = Some (set_entry i (mb\<lparr>mb_cycles := mb_cycles mb - 1\<rparr>) h)"
      using mb(3) by (cases "mb_state mb") (simp_all add: mf_clock_slot_def mb(1) [symmetric])
    moreover have "ticks_left (mb\<lparr>mb_cycles := mb_cycles mb - 1\<rparr>) = ticks_left mb - 1"
      using mb(3) c by (cases "mb_state mb") (simp_all add: ticks_left_def)
    ultimately show thesis
      using mb(3) c False by (intro that [where st = "mb_state mb" and c = "mb_cycles mb - 1" and lo = "ch_L2 h" and hi = "ch_L3 h"])
        (simp_all add: c(1))
  qed
qed

lemma tick_deliver:
  assumes mb: "mb = mf_missbufs (ch_missbuf h) ! i" "mb_state mb = STATE_DELIVER_TO_L1" "unat (mb_cycles mb) = 1"
    and i: "i < MISSBUF_COUNT" "\<not> mf_freemap (ch_missbuf h) ! i" and m: "buffers_ok (ch_missbuf h)"
  obtains h' where "mf_clock_slot i h = Some h'"
    "ch_lfrq h' = (if mb_dcache mb then lq_wakeup (mb_addr mb) (mb_lfrqmap mb) (ch_lfrq h) else ch_lfrq h)"
    "ch_missbuf h' = (ch_missbuf h)\<lparr>mf_missbufs := (mf_missbufs (ch_missbuf h))[i := mb_reset_entry (mb\<lparr>mb_cycles := 0\<rparr>)],
      mf_freemap := (mf_freemap (ch_missbuf h))[i := True], mf_count := mf_count (ch_missbuf h) - 1\<rparr>"
    "dcache_events h' = dcache_events h" "ch_callback h' = None \<longleftrightarrow> ch_callback h = None"
    "mb_dcache mb \<Longrightarrow> ch_L1 h' = L1_validate (mb_addr mb) (-1) (ch_L1 h)"
proof -
  have z: "mb_cycles mb - 1 = 0" using mb(3) by (metis One_nat_def diff_self unat_1 unsigned_word_eqI)
  have len: "length (mf_missbufs (ch_missbuf h)) = MISSBUF_COUNT" using m by (simp add: buffers_ok_def)
  show thesis
    using z mb(2) i len buffers_count(1) [OF m i]
    by (intro that [of "the (mf_clock_slot i h)"])
      (simp_all add: mf_clock_slot_def mb(1) [symmetric] deliver_to_L1_def set_entry_def callback_def dcache_events_def Let_def
        split: option.split)
qed

lemma mf_clock_slot_spec:
  assumes inv: "fill_inv {} h" and i: "i < MISSBUF_COUNT"
  obtains h' where "mf_clock_slot i h = Some h'" "fill_inv {} h'" "same_loads h h'" "dcache_events h' = dcache_events h"
    "ch_callback h' = None \<longleftrightarrow> ch_callback h = None"
    "ticks_left (mf_missbufs (ch_missbuf h') ! i) = ticks_left (mf_missbufs (ch_missbuf h) ! i) - 1"
    "\<And>j. j \<noteq> i \<Longrightarrow> mf_missbufs (ch_missbuf h') ! j = mf_missbufs (ch_missbuf h) ! j"
proof -
  let ?m = "ch_missbuf h"
  define mb where "mb = mf_missbufs ?m ! i"
  have m: "buffers_ok ?m" using inv by (simp add: fill_inv_def)
  have e: "entry_ok mb" "mf_freemap ?m ! i \<longleftrightarrow> mb_state mb = STATE_IDLE" "length (mf_missbufs ?m) = MISSBUF_COUNT"
    using m i by (simp_all add: buffers_ok_def mb_def)
  consider (idle) "mb_state mb = STATE_IDLE" | (last) "mb_state mb = STATE_DELIVER_TO_L1" "unat (mb_cycles mb) = 1"
    | (tick) "mb_state mb \<noteq> STATE_IDLE" "\<not> (mb_state mb = STATE_DELIVER_TO_L1 \<and> unat (mb_cycles mb) = 1)" by blast
  then show thesis
  proof cases
    case idle
    then show thesis using inv by (intro that [of h]) (simp_all add: mf_clock_slot_def ticks_left_def same_loads_def mb_def [symmetric])
  next
    case last
    then have busy: "\<not> mf_freemap ?m ! i" using e(2) by simp
    from tick_deliver [OF mb_def last i busy m] obtain h' where h': "mf_clock_slot i h = Some h'"
      "ch_lfrq h' = (if mb_dcache mb then lq_wakeup (mb_addr mb) (mb_lfrqmap mb) (ch_lfrq h) else ch_lfrq h)"
      "ch_missbuf h' = ?m\<lparr>mf_missbufs := (mf_missbufs ?m)[i := mb_reset_entry (mb\<lparr>mb_cycles := 0\<rparr>)],
        mf_freemap := (mf_freemap ?m)[i := True], mf_count := mf_count ?m - 1\<rparr>"
      "dcache_events h' = dcache_events h" "ch_callback h' = None \<longleftrightarrow> ch_callback h = None" by metis
    note d = deliver_inv [OF inv i busy mb_def h'(2) refl h'(3)]
    show thesis
      using h' d(1) d(2,3) last i e(3)
      by (intro that [OF h'(1)]) (simp_all add: same_loads_def ticks_left_def mb_def [symmetric])
  next
    case tick
    then have busy: "\<not> mf_freemap ?m ! i" using e(2) by simp
    from tick_step [OF mb_def e(1) tick] obtain st c L2 L3
      where t: "mf_clock_slot i h = Some (set_entry i (mb\<lparr>mb_cycles := c, mb_state := st\<rparr>) (h\<lparr>ch_L2 := L2, ch_L3 := L3\<rparr>))"
      and st: "st \<noteq> STATE_IDLE" "0 < unat c" "unat c \<le> latency st" "ticks_left (mb\<lparr>mb_cycles := c, mb_state := st\<rparr>) = ticks_left mb - 1"
      by metis
    have "fill_inv {} (set_entry i (mb\<lparr>mb_cycles := c, mb_state := st\<rparr>) (h\<lparr>ch_L2 := L2, ch_L3 := L3\<rparr>))"
      by (rule tick_inv [OF inv i busy mb_def st(1-3)]) (simp_all add: set_entry_def)
    then show thesis
      using st(4) i e(3) by (intro that [OF t]) (simp_all add: set_entry_def same_loads_def dcache_events_def mb_def [symmetric])
  qed
qed

end
