(* ===== verification/Cache_Hierarchy.thy ===== *)
theory Cache_Hierarchy
  imports Fill_Inv "HOL-Library.Multiset"
begin

text \<open>
  The behaviour of the cache hierarchy over time: which loads are pending and which have been
  reported to the core, the clock, flushing, the step relation of all operations of the
  hierarchy, and that clocking alone completes every pending load within a fixed number of
  cycles.
\<close>

subsection \<open>Pending and delivered loads\<close>

definition wakeup_of :: "LoadFillReq \<Rightarrow> Wakeup" where
  "wakeup_of r = dcache_wakeup (lfr_lsi r) (lfr_addr r)"

definition slots_in_use :: "CacheHierarchy \<Rightarrow> nat set" where
  "slots_in_use h = {l. l < LFRQ_SIZE \<and> \<not> lq_freemap (ch_lfrq h) ! l}"

definition pending :: "CacheHierarchy \<Rightarrow> Wakeup multiset" where
  "pending h = image_mset (\<lambda>l. wakeup_of (lq_reqs (ch_lfrq h) ! l)) (mset_set (slots_in_use h))"

definition delivered :: "CacheHierarchy \<Rightarrow> Wakeup multiset" where
  "delivered h = mset (dcache_events h)"

lemma finite_slots [simp]: "finite (slots_in_use h)"
  by (simp add: slots_in_use_def)

lemma pending_same: "same_loads h h' \<Longrightarrow> pending h' = pending h"
  by (simp add: pending_def slots_in_use_def same_loads_def)

lemma pending_free_slot:
  assumes "l < LFRQ_SIZE" "\<not> lq_freemap (ch_lfrq h) ! l" "length (lq_freemap (ch_lfrq h)) = LFRQ_SIZE"
    and "lq_freemap (ch_lfrq h') = (lq_freemap (ch_lfrq h))[l := True]"
    and "\<And>k. k < LFRQ_SIZE \<Longrightarrow> k \<noteq> l \<Longrightarrow> lq_reqs (ch_lfrq h') ! k = lq_reqs (ch_lfrq h) ! k"
  shows "pending h = add_mset (wakeup_of (lq_reqs (ch_lfrq h) ! l)) (pending h')"
proof -
  have "slots_in_use h = insert l (slots_in_use h')" "l \<notin> slots_in_use h'"
    using assms(1-4) by (auto simp: slots_in_use_def split: if_splits)
  moreover have "lq_reqs (ch_lfrq h) ! k = lq_reqs (ch_lfrq h') ! k" if "k \<in> slots_in_use h'" for k
    using that assms(5) [of k] \<open>l \<notin> slots_in_use h'\<close> by (cases "k = l") (simp_all add: slots_in_use_def)
  then have "image_mset (\<lambda>k. wakeup_of (lq_reqs (ch_lfrq h) ! k)) (mset_set (slots_in_use h')) = pending h'"
    unfolding pending_def by (intro image_mset_cong) simp
  ultimately show ?thesis by (simp add: pending_def)
qed

lemma pending_take_slot:
  assumes "l < LFRQ_SIZE" "lq_freemap (ch_lfrq h) ! l" "length (lq_freemap (ch_lfrq h)) = LFRQ_SIZE"
    "length (lq_reqs (ch_lfrq h)) = LFRQ_SIZE"
    and "lq_freemap (ch_lfrq h') = (lq_freemap (ch_lfrq h))[l := False]"
    and "lq_reqs (ch_lfrq h') = (lq_reqs (ch_lfrq h))[l := r]"
  shows "pending h' = add_mset (wakeup_of r) (pending h)"
proof -
  have "slots_in_use h' = insert l (slots_in_use h)" "l \<notin> slots_in_use h"
    using assms by (auto simp: slots_in_use_def split: if_splits)
  moreover have "image_mset (\<lambda>k. wakeup_of (lq_reqs (ch_lfrq h') ! k)) (mset_set (slots_in_use h)) = pending h"
    unfolding pending_def using assms(1,4,6) \<open>l \<notin> slots_in_use h\<close>
    by (intro image_mset_cong) (auto simp: slots_in_use_def)
  ultimately show ?thesis using assms(1,4,6) by (simp add: pending_def)
qed

lemma card_unset: "card {l. l < length bs \<and> \<not> bs ! l} = length bs - bs_count bs"
  and card_set: "card {l. l < length bs \<and> bs ! l} = bs_count bs"
proof -
  show c: "card {l. l < length bs \<and> bs ! l} = bs_count bs" for bs
    by (simp add: bs_count_def length_filter_conv_card)
  have "bs_count (bs_not bs) = length bs - bs_count bs"
    by (induction bs) (use bs_count_le in \<open>auto simp: bs_not_def Suc_diff_le\<close>)
  moreover have "{l. l < length bs \<and> \<not> bs ! l} = {l. l < length (bs_not bs) \<and> bs_not bs ! l}" by auto
  ultimately show "card {l. l < length bs \<and> \<not> bs ! l} = length bs - bs_count bs"
    using c [of "bs_not bs"] by simp
qed

lemma size_pending:
  assumes "fill_inv X h"
  shows "int (size (pending h)) = lq_count (ch_lfrq h)"
proof -
  have q: "length (lq_freemap (ch_lfrq h)) = LFRQ_SIZE"
    "lq_count (ch_lfrq h) = int LFRQ_SIZE - int (bs_count (lq_freemap (ch_lfrq h)))"
    using assms by (simp_all add: fill_inv_def queue_ok_def)
  have "size (pending h) = card (slots_in_use h)" by (simp add: pending_def)
  also have "\<dots> = LFRQ_SIZE - bs_count (lq_freemap (ch_lfrq h))"
    using card_unset [of "lq_freemap (ch_lfrq h)"] q by (simp add: slots_in_use_def)
  finally show ?thesis using q bs_count_le [of "lq_freemap (ch_lfrq h)"] by simp
qed

lemma pending_empty_iff:
  assumes "fill_inv X h"
  shows "pending h = {#} \<longleftrightarrow> bs_all (lq_freemap (ch_lfrq h))"
  using assms by (auto simp: pending_def slots_in_use_def bs_all_iff fill_inv_def queue_ok_def mset_set_empty_iff)

subsection \<open>The clock\<close>

lemma each_append: "each f (xs @ ys) s = (case each f xs s of None \<Rightarrow> None | Some s1 \<Rightarrow> each f ys s1)"
  by (induction xs arbitrary: s) (auto split: option.split)

definition ticks :: "CacheHierarchy \<Rightarrow> nat \<Rightarrow> nat" where
  "ticks h i = ticks_left (mf_missbufs (ch_missbuf h) ! i)"

lemma mf_clock_upto:
  assumes "fill_inv {} h" "n \<le> MISSBUF_COUNT"
  shows "\<exists>h'. each mf_clock_slot [0..<n] h = Some h' \<and> fill_inv {} h' \<and> same_loads h h'
    \<and> dcache_events h' = dcache_events h \<and> (ch_callback h' = None \<longleftrightarrow> ch_callback h = None)
    \<and> (\<forall>i < MISSBUF_COUNT. ticks h' i = (if i < n then ticks h i - 1 else ticks h i))"
  using assms(2)
proof (induction n)
  case 0
  then show ?case using assms(1) by (simp add: same_loads_def)
next
  case (Suc n)
  then obtain h1 where h1: "each mf_clock_slot [0..<n] h = Some h1" "fill_inv {} h1" "same_loads h h1"
    "dcache_events h1 = dcache_events h" "ch_callback h1 = None \<longleftrightarrow> ch_callback h = None"
    "\<forall>i < MISSBUF_COUNT. ticks h1 i = (if i < n then ticks h i - 1 else ticks h i)" by auto
  from Suc.prems have n: "n < MISSBUF_COUNT" by simp
  obtain h2 where h2: "mf_clock_slot n h1 = Some h2" "fill_inv {} h2" "same_loads h1 h2" "dcache_events h2 = dcache_events h1"
    "ch_callback h2 = None \<longleftrightarrow> ch_callback h1 = None" "ticks h2 n = ticks h1 n - 1" "\<And>j. j \<noteq> n \<Longrightarrow> ticks h2 j = ticks h1 j"
    using mf_clock_slot_spec [OF h1(2) n] by (metis ticks_def)
  have "\<forall>i < MISSBUF_COUNT. ticks h2 i = (if i < Suc n then ticks h i - 1 else ticks h i)"
    using h1(6) h2(6,7) by (metis less_Suc_eq nat_neq_iff)
  then show ?case
    using h1(1-5) h2(1-5) by (simp add: each_append same_loads_def)
qed

lemma ticks_zero:
  assumes "fill_inv X h" "i < MISSBUF_COUNT"
  shows "ticks h i = 0 \<longleftrightarrow> mf_freemap (ch_missbuf h) ! i"
  using assms ticks_left_zero [of "mf_missbufs (ch_missbuf h) ! i"] by (simp add: ticks_def fill_inv_def buffers_ok_def)

lemma mf_clock_spec:
  assumes inv: "fill_inv {} h"
  obtains h' where "mf_clock h = Some h'" "fill_inv {} h'" "same_loads h h'" "dcache_events h' = dcache_events h"
    "ch_callback h' = None \<longleftrightarrow> ch_callback h = None" "\<And>i. i < MISSBUF_COUNT \<Longrightarrow> ticks h' i = ticks h i - 1"
proof (cases "bs_all (mf_freemap (ch_missbuf h))")
  case True
  then have "ticks h i = 0" if "i < MISSBUF_COUNT" for i
    using ticks_zero [OF inv that] that inv by (simp add: bs_all_iff fill_inv_def buffers_ok_def)
  with True inv show thesis by (intro that [of h]) (simp_all add: mf_clock_def same_loads_def)
next
  case False
  with mf_clock_upto [OF inv order.refl] show thesis by (auto simp: mf_clock_def intro: that)
qed

text \<open>Some pending loads have become delivered ones.\<close>

definition moved :: "CacheHierarchy \<Rightarrow> CacheHierarchy \<Rightarrow> bool" where
  "moved h h' \<longleftrightarrow> (\<exists>W. pending h = pending h' + W \<and> delivered h' = delivered h + W)"

lemma moved_refl [simp]: "moved h h"
  by (simp add: moved_def)

lemma moved_trans:
  assumes "moved h1 h2" "moved h2 h3"
  shows "moved h1 h3"
proof -
  from assms obtain V W where "pending h1 = pending h2 + V" "delivered h2 = delivered h1 + V"
    "pending h2 = pending h3 + W" "delivered h3 = delivered h2 + W" unfolding moved_def by blast
  then show ?thesis unfolding moved_def by (intro exI [of _ "V + W"]) (simp add: add.assoc add.commute)
qed

text \<open>Waking at most \<open>n\<close> ready loads: the pending ones become delivered ones, the miss buffers are not touched.\<close>

definition woken :: "nat \<Rightarrow> CacheHierarchy \<Rightarrow> CacheHierarchy \<Rightarrow> bool" where
  "woken n h h' \<longleftrightarrow> fill_inv {} h' \<and> ch_missbuf h' = ch_missbuf h \<and> (ch_callback h' = None) = (ch_callback h = None)
    \<and> (ch_callback h \<noteq> None \<longrightarrow> moved h h')
    \<and> size (pending h') = size (pending h) - min n (bs_count (lq_ready (ch_lfrq h)))"

lemma lq_clock_loop_spec:
  assumes "fill_inv {} h"
  shows "\<exists>h'. lq_clock_loop n h = Some h' \<and> woken n h h'"
  using assms
proof (induction n arbitrary: h)
  case (Suc n)
  show ?case
  proof (cases "bs_none (lq_ready (ch_lfrq h))")
    case True
    then have "bs_count (lq_ready (ch_lfrq h)) = 0" by (simp add: bs_count_eq_0)
    with True Suc.prems show ?thesis by (simp add: woken_def)
  next
    case False
    obtain l q where wk: "lq_wake_slot h = Some (callback (wakeup_of (lq_reqs (ch_lfrq h) ! l)) (h\<lparr>ch_lfrq := q\<rparr>))"
      and l: "l < LFRQ_SIZE" "lq_ready (ch_lfrq h) ! l" "\<not> lq_freemap (ch_lfrq h) ! l" and inv: "fill_inv {} (h\<lparr>ch_lfrq := q\<rparr>)"
      and q: "lq_freemap q = (lq_freemap (ch_lfrq h))[l := True]" "lq_reqs q = lq_reqs (ch_lfrq h)"
        "lq_ready q = (lq_ready (ch_lfrq h))[l := False]"
      using lq_wake_slot_spec [OF Suc.prems False] unfolding wakeup_of_def by metis
    define h1 where "h1 = callback (wakeup_of (lq_reqs (ch_lfrq h) ! l)) (h\<lparr>ch_lfrq := q\<rparr>)"
    have h1: "ch_lfrq h1 = q" "ch_missbuf h1 = ch_missbuf h" "ch_callback h1 = None \<longleftrightarrow> ch_callback h = None"
      by (auto simp: h1_def callback_def)
    have inv1: "fill_inv {} h1" using inv by (simp add: fill_inv_def h1)
    have len: "length (lq_freemap (ch_lfrq h)) = LFRQ_SIZE" "length (lq_ready (ch_lfrq h)) = LFRQ_SIZE"
      using Suc.prems by (simp_all add: fill_inv_def queue_ok_def)
    have p: "pending h = add_mset (wakeup_of (lq_reqs (ch_lfrq h) ! l)) (pending h1)"
      by (rule pending_free_slot [OF l(1,3) len(1)]) (simp_all add: h1 q)
    have d: "delivered h1 = add_mset (wakeup_of (lq_reqs (ch_lfrq h) ! l)) (delivered h)" if "ch_callback h \<noteq> None"
      using that by (auto simp: delivered_def dcache_events_def h1_def callback_def wakeup_of_def)
    have r: "bs_count (lq_ready (ch_lfrq h)) = Suc (bs_count (lq_ready q))"
      using bs_count_clear [of l "lq_ready (ch_lfrq h)"] l(1,2) len(2) by (simp add: q)
    from Suc.IH [OF inv1] obtain h' where h': "lq_clock_loop n h1 = Some h'" "woken n h1 h'" by blast
    then have "lq_clock_loop (Suc n) h = Some h'" using False wk by (simp add: h1_def)
    moreover have "moved h h1" if "ch_callback h \<noteq> None"
      unfolding moved_def using p d [OF that] by (intro exI [of _ "{#wakeup_of (lq_reqs (ch_lfrq h) ! l)#}"]) simp
    then have "woken (Suc n) h h'" using h'(2) p r h1 moved_trans [of h h1 h'] by (simp add: woken_def)
    ultimately show ?thesis by blast
  qed
qed (simp add: woken_def)

lemma ch_clock_spec:
  assumes inv: "fill_inv {} h"
  obtains h' where "ch_clock h = Some h'" "fill_inv {} h'" "ch_callback h' = None \<longleftrightarrow> ch_callback h = None"
    "ch_callback h \<noteq> None \<Longrightarrow> moved h h'"
    "size (pending h') = size (pending h) - min MAX_WAKEUPS_PER_CYCLE (bs_count (lq_ready (ch_lfrq h)))"
    "\<And>i. i < MISSBUF_COUNT \<Longrightarrow> ticks h' i = ticks h i - 1"
proof -
  obtain h1 where h1: "lq_clock h = Some h1" "woken MAX_WAKEUPS_PER_CYCLE h h1"
    using lq_clock_loop_spec [OF inv] by (auto simp: lq_clock_def)
  obtain h2 where h2: "mf_clock h1 = Some h2" "fill_inv {} h2" "same_loads h1 h2" "dcache_events h2 = dcache_events h1"
    "ch_callback h2 = None \<longleftrightarrow> ch_callback h1 = None" "\<And>i. i < MISSBUF_COUNT \<Longrightarrow> ticks h2 i = ticks h1 i - 1"
    using mf_clock_spec [of h1] h1(2) unfolding woken_def by metis
  have "pending h2 = pending h1" "delivered h2 = delivered h1" "ticks h1 = ticks h"
    using pending_same [OF h2(3)] h2(4) h1(2) by (simp_all add: delivered_def ticks_def fun_eq_iff woken_def)
  then show thesis
    using h1 h2 by (intro that [of h2]) (simp_all add: ch_clock_def woken_def moved_def)
qed

fun ch_clocks :: "nat \<Rightarrow> CacheHierarchy \<Rightarrow> CacheHierarchy option" where
  "ch_clocks 0 h = Some h"
| "ch_clocks (Suc n) h = (case ch_clock h of None \<Rightarrow> None | Some h1 \<Rightarrow> ch_clocks n h1)"

lemma ch_clocks_add: "ch_clocks (m + n) h = (case ch_clocks m h of None \<Rightarrow> None | Some h1 \<Rightarrow> ch_clocks n h1)"
  by (induction m arbitrary: h) (auto split: option.split)

lemma ch_clocks_spec:
  assumes "fill_inv {} h" "ch_callback h \<noteq> None"
  shows "\<exists>h'. ch_clocks n h = Some h' \<and> fill_inv {} h' \<and> ch_callback h' \<noteq> None
    \<and> moved h h'
    \<and> (\<forall>i < MISSBUF_COUNT. ticks h' i = ticks h i - n)"
  using assms
proof (induction n arbitrary: h)
  case (Suc n)
  obtain h1 where h1: "ch_clock h = Some h1" "fill_inv {} h1" "ch_callback h1 \<noteq> None"
    "moved h h1"
    "\<forall>i < MISSBUF_COUNT. ticks h1 i = ticks h i - 1"
    by (rule ch_clock_spec [OF Suc.prems(1)]) (use Suc.prems(2) in auto)
  obtain h2 where h2: "ch_clocks n h1 = Some h2" "fill_inv {} h2" "ch_callback h2 \<noteq> None" "moved h1 h2"
    "\<forall>i < MISSBUF_COUNT. ticks h2 i = ticks h1 i - n"
    using Suc.IH [OF h1(2,3)] by blast
  then show ?case using h1 moved_trans [OF h1(4) h2(4)] by simp
qed simp

text \<open>Once no line is on its way, every load in the queue is ready.\<close>

lemma all_ready:
  assumes inv: "fill_inv {} h" and idle: "\<And>i. i < MISSBUF_COUNT \<Longrightarrow> ticks h i = 0"
  shows "bs_count (lq_ready (ch_lfrq h)) = size (pending h)"
proof -
  let ?q = "ch_lfrq h" and ?m = "ch_missbuf h"
  have q: "queue_ok ?q" and m: "buffers_ok ?m" and lk: "linked {} ?q ?m" using inv by (simp_all add: fill_inv_def)
  have "\<not> mb_lfrqmap (mf_missbufs ?m ! i) ! l" if "i < MISSBUF_COUNT" "l < LFRQ_SIZE" for i l
    using ticks_zero [OF inv that(1)] idle [OF that(1)] entry_of [OF m that(1)] busy_state [OF m that(1)] that(2)
    by (auto simp: entry_ok_def bs_any_iff)
  then have "lq_ready ?q ! l = (\<not> lq_freemap ?q ! l)" if "l < LFRQ_SIZE" for l
    using lk q that by (auto simp: linked_def queue_ok_def)
  then have "slots_in_use h = {l. l < length (lq_ready ?q) \<and> lq_ready ?q ! l}"
    using q by (auto simp: slots_in_use_def queue_ok_def)
  then show ?thesis by (simp add: pending_def card_set)
qed

lemma drain_ready:
  assumes "fill_inv {} h" "ch_callback h \<noteq> None" "\<And>i. i < MISSBUF_COUNT \<Longrightarrow> ticks h i = 0"
  shows "\<exists>h'. ch_clocks n h = Some h' \<and> fill_inv {} h' \<and> moved h h'
    \<and> size (pending h') = size (pending h) - MAX_WAKEUPS_PER_CYCLE * n \<and> (\<forall>i < MISSBUF_COUNT. ticks h' i = 0)"
  using assms
proof (induction n arbitrary: h)
  case (Suc n)
  obtain h1 where h1: "ch_clock h = Some h1" "fill_inv {} h1" "ch_callback h1 \<noteq> None"
    "moved h h1" "size (pending h1) = size (pending h) - MAX_WAKEUPS_PER_CYCLE" "\<And>i. i < MISSBUF_COUNT \<Longrightarrow> ticks h1 i = 0"
    by (rule ch_clock_spec [OF Suc.prems(1)]) (use Suc.prems(2,3) all_ready [OF Suc.prems(1,3)] in auto)
  obtain h2 where h2: "ch_clocks n h1 = Some h2" "fill_inv {} h2" "moved h1 h2"
    "size (pending h2) = size (pending h1) - MAX_WAKEUPS_PER_CYCLE * n" "\<forall>i < MISSBUF_COUNT. ticks h2 i = 0"
    using Suc.IH [OF h1(2,3,6)] by blast
  then show ?case using h1(1,5) moved_trans [OF h1(4) h2(3)] by simp
qed simp

definition drain_cycles :: nat where
  "drain_cycles = MAIN_MEM_LATENCY + L3_LATENCY + L2_LATENCY + LFRQ_SIZE div MAX_WAKEUPS_PER_CYCLE"

lemma clocks_drain:
  assumes "fill_inv {} h" "ch_callback h \<noteq> None"
  shows "\<exists>h'. ch_clocks drain_cycles h = Some h' \<and> fill_inv {} h' \<and> pending h' = {#} \<and> bs_all (mf_freemap (ch_missbuf h'))
    \<and> delivered h' = delivered h + pending h"
proof -
  define n where "n = MAIN_MEM_LATENCY + L3_LATENCY + L2_LATENCY"
  obtain h1 where h1: "ch_clocks n h = Some h1" "fill_inv {} h1" "ch_callback h1 \<noteq> None"
    "moved h h1"
    "\<forall>i < MISSBUF_COUNT. ticks h1 i = ticks h i - n"
    using ch_clocks_spec [OF assms, of n] by blast
  have "ticks h i \<le> n" if "i < MISSBUF_COUNT" for i
    using ticks_left_bound [of "mf_missbufs (ch_missbuf h) ! i"] entry_of [OF _ that] assms(1)
    by (simp add: ticks_def n_def fill_inv_def)
  then have idle: "ticks h1 i = 0" if "i < MISSBUF_COUNT" for i using h1(5) that by simp
  from drain_ready [OF h1(2,3) idle, of "LFRQ_SIZE div MAX_WAKEUPS_PER_CYCLE"] obtain h2
    where h2: "ch_clocks (LFRQ_SIZE div MAX_WAKEUPS_PER_CYCLE) h1 = Some h2" "fill_inv {} h2"
    "moved h1 h2" "size (pending h2) = size (pending h1) - MAX_WAKEUPS_PER_CYCLE * (LFRQ_SIZE div MAX_WAKEUPS_PER_CYCLE)"
    "\<forall>i < MISSBUF_COUNT. ticks h2 i = 0" by blast
  have "int (size (pending h)) \<le> int LFRQ_SIZE"
    using size_pending [OF assms(1)] assms(1) by (simp add: fill_inv_def queue_ok_def)
  moreover have "size (pending h1) \<le> size (pending h)" using h1(4) by (auto simp: moved_def)
  ultimately have "size (pending h2) = 0" using h2(4) by (simp add: cache_consts)
  then have p: "pending h2 = {#}" by simp
  moreover have "bs_all (mf_freemap (ch_missbuf h2))"
    using h2(5) ticks_zero [OF h2(2)] h2(2) by (simp add: bs_all_iff fill_inv_def buffers_ok_def)
  ultimately show ?thesis
    using h1(1) h2(1,2) moved_trans [OF h1(4) h2(3)] unfolding drain_cycles_def n_def [symmetric]
    by (simp add: ch_clocks_add moved_def)
qed

subsection \<open>Flushing\<close>

lemma empty_queue_inv:
  assumes "queue_ok q" "bs_all (lq_freemap q)" "buffers_ok m"
    and "\<And>i l. i < MISSBUF_COUNT \<Longrightarrow> l < LFRQ_SIZE \<Longrightarrow> \<not> mb_lfrqmap (mf_missbufs m ! i) ! l"
  shows "queue_ok q \<and> buffers_ok m \<and> linked {} q m"
  using assms by (auto simp: linked_def queue_ok_def bs_all_iff)

lemma queue_ok_reset: "queue_ok q \<Longrightarrow> queue_ok (lq_reset q)" "bs_all (lq_freemap (lq_reset q))"
  by (simp_all add: queue_ok_def lq_reset_def bs_all_iff)

lemma lq_restart_loop_spec:
  "fill_inv {} h \<Longrightarrow> \<exists>q m. lq_restart_loop h = Some (h\<lparr>ch_missbuf := m, ch_lfrq := q\<rparr>) \<and> fill_inv {} (h\<lparr>ch_missbuf := m, ch_lfrq := q\<rparr>)
     \<and> bs_all (lq_freemap q)"
proof (induction h rule: lq_restart_loop.induct)
  case (1 h)
  let ?f = "lq_freemap (ch_lfrq h)"
  show ?case
  proof (cases "bs_all ?f")
    case True
    then show ?thesis
      using "1.prems" by (intro exI [of _ "ch_lfrq h"] exI [of _ "ch_missbuf h"]) (simp add: lq_restart_loop.simps)
  next
    case False
    have l: "lsb (bs_not ?f) < LFRQ_SIZE" "\<not> ?f ! lsb (bs_not ?f)"
      using lsb_not_less [OF False] lsb_not_clear [OF False] "1.prems" by (simp_all add: fill_inv_def queue_ok_def)
    obtain q m where a: "lq_annul (lsb (bs_not ?f)) h = Some (h\<lparr>ch_missbuf := m, ch_lfrq := q\<rparr>)" "fill_inv {} (h\<lparr>ch_missbuf := m, ch_lfrq := q\<rparr>)"
      using lq_annul_spec [OF "1.prems" l] by metis
    from "1.IH" [OF False a] show ?thesis by (subst lq_restart_loop.simps) (simp add: False a(1))
  qed
qed

lemma mf_restart_ok:
  assumes "buffers_ok m"
  shows "buffers_ok (mf_restart m)" "i < MISSBUF_COUNT \<Longrightarrow> l < LFRQ_SIZE \<Longrightarrow> \<not> mb_lfrqmap (mf_missbufs (mf_restart m) ! i) ! l"
  using assms
  by (auto simp: mf_restart_def buffers_ok_def entry_ok_def bs_any_iff bs_all_iff inj_on_def)

lemma ch_complete_spec:
  assumes inv: "fill_inv {} h"
  obtains h' where "ch_complete h = Some h'" "fill_inv {} h'" "pending h' = {#}"
proof -
  obtain q m where r: "lq_restart_loop h = Some (h\<lparr>ch_missbuf := m, ch_lfrq := q\<rparr>)" "fill_inv {} (h\<lparr>ch_missbuf := m, ch_lfrq := q\<rparr>)"
    using lq_restart_loop_spec [OF inv] by blast
  define h' where "h' = h\<lparr>ch_missbuf := mf_restart m, ch_lfrq := lq_reset q\<rparr>"
  have c: "ch_complete h = Some h'" by (simp add: ch_complete_def lq_restart_def r(1) h'_def)
  have ok: "queue_ok q" "buffers_ok m" using r(2) by (simp_all add: fill_inv_def)
  have "fill_inv {} h'"
    using empty_queue_inv [OF queue_ok_reset(1) [OF ok(1)] queue_ok_reset(2) mf_restart_ok [OF ok(2)]]
    by (simp add: fill_inv_def h'_def)
  then show thesis
    using pending_empty_iff [of "{}" h'] queue_ok_reset(2) [of q] by (intro that [OF c]) (simp_all add: h'_def)
qed

abbreviation thread_of :: "LoadFillReqQueue \<Rightarrow> nat \<Rightarrow> int" where
  "thread_of q l \<equiv> uint (lsi_threadid (lfr_lsi (lq_reqs q ! l)))"

lemma lq_reset_upto:
  assumes "queue_ok q" "n \<le> LFRQ_SIZE"
  shows "\<exists>q'. each (lq_reset_slot t) [0..<n] q = Some q' \<and> queue_ok q' \<and> lq_reqs q' = lq_reqs q
    \<and> (\<forall>l < LFRQ_SIZE. lq_freemap q' ! l = (lq_freemap q ! l \<or> l < n \<and> thread_of q l = t)
         \<and> lq_ready q' ! l = (lq_ready q ! l \<and> \<not> (l < n \<and> thread_of q l = t)))"
  using assms(2)
proof (induction n)
  case 0
  then show ?case using assms(1) by simp
next
  case (Suc n)
  then obtain q1 where q1: "each (lq_reset_slot t) [0..<n] q = Some q1" "queue_ok q1" "lq_reqs q1 = lq_reqs q"
    "\<And>l. l < LFRQ_SIZE \<Longrightarrow> lq_freemap q1 ! l = (lq_freemap q ! l \<or> l < n \<and> thread_of q l = t)
         \<and> lq_ready q1 ! l = (lq_ready q ! l \<and> \<not> (l < n \<and> thread_of q l = t))" by auto
  from Suc.prems have n: "n < LFRQ_SIZE" by simp
  have len: "length (lq_freemap q1) = LFRQ_SIZE" "length (lq_ready q1) = LFRQ_SIZE"
    using q1(2) by (simp_all add: queue_ok_def)
  show ?case
  proof (cases "\<not> lq_freemap q1 ! n \<and> thread_of q1 n = t")
    case True
    define q2 where "q2 = q1\<lparr>lq_waiting := (lq_waiting q1)[n := False], lq_ready := (lq_ready q1)[n := False],
      lq_freemap := (lq_freemap q1)[n := True], lq_count := lq_count q1 - 1\<rparr>"
    have "lq_reset_slot t n q1 = Some q2"
      using True queue_count(1) [OF q1(2) n] by (simp add: lq_reset_slot_def q2_def Let_def)
    moreover have "queue_ok q2"
      by (rule queue_free_slot [OF q1(2) n]) (use True q1(2) in \<open>auto simp: q2_def queue_ok_def\<close>)
    ultimately show ?thesis
      using q1 True n by (auto simp: each_append q2_def len less_Suc_eq)
  next
    case False
    then have "lq_reset_slot t n q1 = Some q1" by (auto simp: lq_reset_slot_def)
    moreover have "\<not> (thread_of q n = t \<and> (\<not> lq_freemap q ! n \<or> lq_ready q ! n))"
      using False q1(3) q1(4) [OF n] assms(1) n by (auto simp: queue_ok_def)
    ultimately show ?thesis using q1 by (auto simp: each_append less_Suc_eq)
  qed
qed

lemma mf_reset_upto:
  assumes "buffers_ok m" "n \<le> MISSBUF_COUNT"
  shows "\<exists>m'. each (mf_reset_slot q t) [0..<n] m = Some m' \<and> buffers_ok m'
    \<and> (\<forall>i < MISSBUF_COUNT. \<forall>l < LFRQ_SIZE. mb_lfrqmap (mf_missbufs m' ! i) ! l =
         (mb_lfrqmap (mf_missbufs m ! i) ! l \<and> \<not> (i < n \<and> thread_of q l = t)))"
  using assms(2)
proof (induction n)
  case 0
  then show ?case using assms(1) by simp
next
  case (Suc n)
  then obtain m1 where m1: "each (mf_reset_slot q t) [0..<n] m = Some m1" "buffers_ok m1"
    "\<And>i l. i < MISSBUF_COUNT \<Longrightarrow> l < LFRQ_SIZE \<Longrightarrow> mb_lfrqmap (mf_missbufs m1 ! i) ! l =
       (mb_lfrqmap (mf_missbufs m ! i) ! l \<and> \<not> (i < n \<and> thread_of q l = t))" by auto
  from Suc.prems have n: "n < MISSBUF_COUNT" by simp
  define mb where "mb = (mf_missbufs m1 ! n)\<lparr>mb_lfrqmap := map (\<lambda>l. mb_lfrqmap (mf_missbufs m1 ! n) ! l \<and> thread_of q l \<noteq> t) [0..<LFRQ_SIZE]\<rparr>"
  have e: "entry_ok (mf_missbufs m1 ! n)" "length (mf_missbufs m1) = MISSBUF_COUNT" using m1(2) n by (simp_all add: buffers_ok_def)
  have "bs_any (mb_lfrqmap mb) \<Longrightarrow> bs_any (mb_lfrqmap (mf_missbufs m1 ! n))"
    using e(1) by (auto simp: bs_any_iff mb_def entry_ok_def)
  then have mb: "entry_ok mb" "mb_state mb = mb_state (mf_missbufs m1 ! n)" "mb_addr mb = mb_addr (mf_missbufs m1 ! n)"
    using e(1) by (auto simp: entry_ok_def mb_def)
  have map: "mb_lfrqmap mb ! l = (mb_lfrqmap (mf_missbufs m ! n) ! l \<and> thread_of q l \<noteq> t)" if "l < LFRQ_SIZE" for l
    using that n m1(3) by (simp add: mb_def)
  have "\<exists>m2. mf_reset_slot q t n m1 = Some m2 \<and> buffers_ok m2
    \<and> (\<forall>i < MISSBUF_COUNT. \<forall>l < LFRQ_SIZE. mb_lfrqmap (mf_missbufs m2 ! i) ! l = (if i = n then mb_lfrqmap mb ! l else mb_lfrqmap (mf_missbufs m1 ! i) ! l))"
  proof (cases "mf_freemap m1 ! n")
    case True
    then have "\<not> mb_lfrqmap (mf_missbufs m1 ! n) ! l" if "l < LFRQ_SIZE" for l
      using e(1) busy_state [OF m1(2) n] that by (auto simp: entry_ok_def bs_any_iff)
    with True m1(2) show ?thesis by (simp add: mf_reset_slot_def mb_def)
  next
    case busy: False
    show ?thesis
    proof (cases "bs_none (mb_lfrqmap mb) \<and> uint (mb_threadid mb) = t")
      case True
      let ?m = "m1\<lparr>mf_missbufs := (mf_missbufs m1)[n := mb_reset_entry mb], mf_freemap := (mf_freemap m1)[n := True], mf_count := mf_count m1 - 1\<rparr>"
      have "mf_reset_slot q t n m1 = Some ?m"
        using busy True buffers_count(1) [OF m1(2) n busy] by (simp add: mf_reset_slot_def Let_def mb_def)
      moreover have "\<not> mb_lfrqmap mb ! l" if "l < LFRQ_SIZE" for l
        using True that mb(1) by (auto simp: bs_none_iff entry_ok_def)
      ultimately show ?thesis
        using buffers_free [OF m1(2) n busy, of "mb_reset_entry mb"] e(2) n by auto
    next
      case False
      then have "mf_reset_slot q t n m1 = Some (m1\<lparr>mf_missbufs := (mf_missbufs m1)[n := mb]\<rparr>)"
        using busy by (auto simp: mf_reset_slot_def Let_def mb_def)
      then show ?thesis
        using buffers_update [OF m1(2) n busy mb(1)] mb(2,3) busy_state [OF m1(2) n] busy e(2) n by auto
    qed
  qed
  then obtain m2 where m2: "mf_reset_slot q t n m1 = Some m2" "buffers_ok m2"
    "\<And>i l. i < MISSBUF_COUNT \<Longrightarrow> l < LFRQ_SIZE \<Longrightarrow> mb_lfrqmap (mf_missbufs m2 ! i) ! l = (if i = n then mb_lfrqmap mb ! l else mb_lfrqmap (mf_missbufs m1 ! i) ! l)"
    by blast
  then have "mb_lfrqmap (mf_missbufs m2 ! i) ! l = (mb_lfrqmap (mf_missbufs m ! i) ! l \<and> \<not> (i < Suc n \<and> thread_of q l = t))"
    if "i < MISSBUF_COUNT" "l < LFRQ_SIZE" for i l
    using that map m1(3) by (auto simp: less_Suc_eq)
  then show ?case using m1(1) m2(1,2) by (simp add: each_append)
qed

fun wakeup_thread :: "Wakeup \<Rightarrow> int" where
  "wakeup_thread (dcache_wakeup lsi a) = uint (lsi_threadid lsi)"
| "wakeup_thread (icache_wakeup lsi a) = uint (lsi_threadid lsi)"

lemma ch_complete_thread_spec:
  assumes inv: "fill_inv {} h"
  obtains h' where "ch_complete_thread t h = Some h'" "fill_inv {} h'" "pending h' = filter_mset (\<lambda>w. wakeup_thread w \<noteq> t) (pending h)"
proof -
  let ?q = "ch_lfrq h" and ?m = "ch_missbuf h"
  have q: "queue_ok ?q" and m: "buffers_ok ?m" and lk: "linked {} ?q ?m" using inv by (simp_all add: fill_inv_def)
  obtain q' where q': "lq_reset_thread t ?q = Some q'" "queue_ok q'" "lq_reqs q' = lq_reqs ?q"
    "\<And>l. l < LFRQ_SIZE \<Longrightarrow> lq_freemap q' ! l = (lq_freemap ?q ! l \<or> thread_of ?q l = t)"
    "\<And>l. l < LFRQ_SIZE \<Longrightarrow> lq_ready q' ! l = (lq_ready ?q ! l \<and> thread_of ?q l \<noteq> t)"
    using lq_reset_upto [OF q order.refl, of t] unfolding lq_reset_thread_def by auto
  obtain m' where m': "mf_reset_thread q' t ?m = Some m'" "buffers_ok m'"
    "\<And>i l. i < MISSBUF_COUNT \<Longrightarrow> l < LFRQ_SIZE \<Longrightarrow> mb_lfrqmap (mf_missbufs m' ! i) ! l = (mb_lfrqmap (mf_missbufs ?m ! i) ! l \<and> thread_of ?q l \<noteq> t)"
    using mf_reset_upto [OF m order.refl, of q' t] unfolding mf_reset_thread_def by (auto simp: q'(3))
  define h' where "h' = h\<lparr>ch_lfrq := q', ch_missbuf := m'\<rparr>"
  have c: "ch_complete_thread t h = Some h'" using q'(1) m'(1) by (simp add: ch_complete_thread_def h'_def)
  have "linked {} q' m'"
    using lk unfolding linked_def by (auto simp: q'(3-5) m'(3) cong: conj_cong)
  then have i: "fill_inv {} h'" using q'(2) m'(2) by (simp add: fill_inv_def h'_def)
  have "slots_in_use h' = {l \<in> slots_in_use h. thread_of ?q l \<noteq> t}"
    by (auto simp: slots_in_use_def h'_def q'(4))
  then have "mset_set (slots_in_use h') = filter_mset (\<lambda>l. thread_of ?q l \<noteq> t) (mset_set (slots_in_use h))"
    by (simp add: filter_mset_mset_set)
  then have "pending h' = filter_mset (\<lambda>w. wakeup_thread w \<noteq> t) (pending h)"
    unfolding pending_def by (simp add: h'_def q'(3) wakeup_of_def filter_mset_image_mset)
  with i show thesis by (rule that [OF c])
qed

subsection \<open>Starting loads, prefetches, fetches and stores\<close>

text \<open>An operation that neither starts nor ends a load.\<close>

definition keeps :: "CacheHierarchy \<Rightarrow> CacheHierarchy \<Rightarrow> bool" where
  "keeps h h' \<longleftrightarrow> fill_inv {} h' \<and> pending h' = pending h \<and> ch_callback h' = ch_callback h"

lemma keeps_trans: "keeps h h1 \<Longrightarrow> keeps h1 h2 \<Longrightarrow> keeps h h2"
  by (simp add: keeps_def)

lemma keeps_caches:
  assumes "fill_inv {} h"
  shows "keeps h (h\<lparr>ch_L1 := A\<rparr>)" "keeps h (h\<lparr>ch_L1I := C\<rparr>)" "keeps h (h\<lparr>ch_L2 := B\<rparr>)" "keeps h (h\<lparr>ch_L1 := A, ch_L2 := B\<rparr>)"
    "keeps h (h\<lparr>ch_dtlb := d, ch_itlb := t\<rparr>)"
  using assms by (simp_all add: keeps_def fill_inv_def pending_def slots_in_use_def)

lemma initiate_miss_keeps:
  assumes "fill_inv {} h"
  obtains r h' where "initiate_miss addr hit icache rob tid h = Some (r, h')" "keeps h h'"
proof (rule initiate_miss_spec [OF assms, of addr hit icache rob tid])
  assume "initiate_miss addr hit icache rob tid h = Some (- 1, h)"
  then show thesis using assms that by (simp add: keeps_def)
next
  fix i h' assume a: "initiate_miss addr hit icache rob tid h = Some (int i, h')" "fill_inv {} h'" "ch_lfrq h' = ch_lfrq h"
    "ch_callback h' = ch_callback h"
  then have "pending h' = pending h" by (intro pending_same) (simp add: same_loads_def)
  with a have "keeps h h'" unfolding keeps_def by blast
  with a(1) show thesis by (rule that)
qed

lemma initiate_prefetch_spec:
  assumes inv: "fill_inv {} h"
  obtains h' where "initiate_prefetch addr h = Some h'" "keeps h h'"
proof -
  let ?a = "floor_align addr (of_nat L1_LINE_SIZE)"
  obtain p A where p: "aa_probe L1_LINE_SIZE ?a (ch_L1 h) = (p, A)" by fastforce
  obtain r B where r: "aa_probe L2_LINE_SIZE ?a (ch_L2 h) = (r, B)" by fastforce
  have k: "keeps h (h\<lparr>ch_L1 := A, ch_L2 := B\<rparr>)" by (rule keeps_caches [OF inv])
  obtain mb h' where m: "initiate_miss ?a (r \<noteq> None) False 0xffff 0xfe (h\<lparr>ch_L1 := A, ch_L2 := B\<rparr>) = Some (mb, h')"
    "keeps (h\<lparr>ch_L1 := A, ch_L2 := B\<rparr>) h'"
    using k initiate_miss_keeps [of "h\<lparr>ch_L1 := A, ch_L2 := B\<rparr>" ?a "r \<noteq> None" False "0xffff" "0xfe"]
    unfolding keeps_def [of h] by metis
  show thesis
    using m keeps_trans [OF k m(2)] keeps_caches(1) [OF inv, of A]
    by (intro that [of "if p = None then h' else h\<lparr>ch_L1 := A\<rparr>"]; cases p)
      (simp_all add: initiate_prefetch_def p r Let_def del: not_None_eq)
qed

lemma initiate_icache_miss_spec:
  assumes inv: "fill_inv {} h"
  obtains mb h' where "initiate_icache_miss addr rob tid h = Some (mb, h')" "keeps h h'"
proof -
  let ?a = "floor_align addr (of_nat L1I_LINE_SIZE)"
  obtain p A where p: "aa_probe L2_LINE_SIZE ?a (ch_L2 h) = (p, A)" by fastforce
  obtain r B where r: "aa_probe L2_LINE_SIZE ?a A = (r, B)" by fastforce
  have k: "keeps h (h\<lparr>ch_L2 := B\<rparr>)" by (rule keeps_caches [OF inv])
  obtain mb h' where m: "initiate_miss ?a (r \<noteq> None) True rob tid (h\<lparr>ch_L2 := B\<rparr>) = Some (mb, h')" "keeps (h\<lparr>ch_L2 := B\<rparr>) h'"
    using k initiate_miss_keeps [of "h\<lparr>ch_L2 := B\<rparr>" ?a "r \<noteq> None" True rob tid] unfolding keeps_def [of h] by metis
  show thesis
    using m(1) keeps_trans [OF k m(2)] by (intro that [of mb h']) (simp_all add: initiate_icache_miss_def p r Let_def del: not_None_eq)
qed

lemma commitstore_spec:
  assumes inv: "fill_inv {} h"
  obtains h' where "commitstore sfr tid w mem h = Some (0,
      if w \<and> \<not> sfr_invalid sfr \<and> sfr_bytemask sfr \<noteq> 0
      then snd (storemask (push_bit 3 (ucast (sfr_physaddr sfr))) (sfr_data sfr) (sfr_bytemask sfr) mem) else mem, h')"
    "keeps h h'"
proof (cases "sfr_invalid sfr \<or> sfr_bytemask sfr = 0")
  case True
  then show thesis using inv that [of h] by (auto simp: commitstore_def keeps_def)
next
  case False
  let ?addr = "push_bit 3 (ucast (sfr_physaddr sfr)) :: W64"
  obtain p o1 A where A: "aa_select L1_LINE_SIZE ?addr 0 (ch_L1 h) = (p, o1, A)" by (metis prod_cases3)
  obtain r o2 B where B: "aa_select L2_LINE_SIZE ?addr 0 (ch_L2 h) = (r, o2, B)" by (metis prod_cases3)
  let ?w = "push_bit (unat (lowbits ?addr 6)) (ucast (sfr_bytemask sfr)) :: W64"
  let ?v1 = "clv_valid (aa_line p A) OR ?w" and ?v2 = "clv_valid (aa_line r B) OR ?w"
  let ?mem = "if w then snd (storemask ?addr (sfr_data sfr) (sfr_bytemask sfr) mem) else mem"
  define h1 where "h1 = h\<lparr>ch_L1 := aa_store p ((aa_line p A)\<lparr>clv_valid := ?v1\<rparr>) A, ch_L2 := aa_store r ((aa_line r B)\<lparr>clv_valid := ?v2\<rparr>) B\<rparr>"
  have c: "commitstore sfr tid w mem h = (if ?v1 \<noteq> -1
      then map_option (\<lambda>(mb, h). (0, ?mem, h)) (initiate_miss ?addr (?v2 = -1) False 0xffff tid h1) else Some (0, ?mem, h1))"
    using False unfolding commitstore_def A B Let_def prod.case h1_def by simp
  have h1: "keeps h h1" unfolding h1_def by (rule keeps_caches [OF inv])
  obtain mb h' where m: "initiate_miss ?addr (?v2 = -1) False 0xffff tid h1 = Some (mb, h')" "keeps h1 h'"
    using initiate_miss_keeps [of h1 ?addr "?v2 = -1" False "0xffff" tid] h1 unfolding keeps_def [of h] by metis
  then show thesis
    using False h1 keeps_trans [OF h1 m(2)] by (intro that [of "if ?v1 = -1 then h1 else h'"]) (simp_all add: c)
qed

lemma issueload_spec:
  assumes inv: "fill_inv {} h"
  obtains (full) hit h' where "issueload_slowpath a sfra lsi cyc h = Some (-1, hit, h')" "keeps h h'" "lfrq_or_missbuf_full h"
  | (ok) l i hit h' where "issueload_slowpath a sfra lsi cyc h = Some (int l, hit, h')" "fill_inv {} h'"
      "pending h' = add_mset (dcache_wakeup lsi a) (pending h)" "ch_callback h' = ch_callback h" "l < LFRQ_SIZE" "\<not> lq_freemap (ch_lfrq h') ! l"
      "i < MISSBUF_COUNT" "\<not> mf_freemap (ch_missbuf h') ! i" "mb_lfrqmap (mf_missbufs (ch_missbuf h') ! i) ! l"
      "mb_addr (mf_missbufs (ch_missbuf h') ! i) = floor_align a (of_nat L1_LINE_SIZE)"
proof -
  obtain p A where p: "aa_probe L1_LINE_SIZE a (ch_L1 h) = (p, A)" by fastforce
  obtain r B where r: "aa_probe L2_LINE_SIZE a (ch_L2 h) = (r, B)" by fastforce
  define h0 where "h0 = h\<lparr>ch_L1 := A, ch_L2 := B\<rparr>"
  define req where "req = LoadFillReq_new a (if lsi_sfrused lsi then sfr_data sfra else 0) (if lsi_sfrused lsi then sfr_bytemask sfra else 0) lsi cyc"
  have h0: "fill_inv {} h0" "pending h0 = pending h" "lfrq_or_missbuf_full h0 = lfrq_or_missbuf_full h" "ch_lfrq h0 = ch_lfrq h"
    "ch_callback h0 = ch_callback h"
    using inv by (simp_all add: h0_def fill_inv_def pending_def slots_in_use_def lfrq_or_missbuf_full_def)
  obtain hit where call: "issueload_slowpath a sfra lsi cyc h =
      map_option (\<lambda>(s, h). (if s < 0 then -1 else s, hit, h)) (initiate_miss_req req hit (uint (lsi_rob lsi)) h0)"
    unfolding issueload_slowpath_def Let_def p r prod.case req_def [symmetric] h0_def [symmetric] by metis
  have q: "length (lq_freemap (ch_lfrq h)) = LFRQ_SIZE" "length (lq_reqs (ch_lfrq h)) = LFRQ_SIZE"
    using inv by (simp_all add: fill_inv_def queue_ok_def)
  have idx: "lfr_mbidx req = -1" "lfr_addr req = a" by (simp_all add: req_def LoadFillReq_new_def)
  show thesis
  proof (cases rule: initiate_miss_req_spec [OF h0(1) idx(1), of hit "uint (lsi_rob lsi)"])
    case (1 q')
    have "slots_in_use (h0\<lparr>ch_lfrq := q'\<rparr>) = slots_in_use h0" using 1(3) by (simp add: slots_in_use_def)
    then have "pending (h0\<lparr>ch_lfrq := q'\<rparr>) = pending h0"
      unfolding pending_def using 1(3,5) h0(4) by (simp, intro image_mset_cong) (auto simp: slots_in_use_def)
    then show thesis using 1(1,2,6) h0 call by (intro full [of hit "h0\<lparr>ch_lfrq := q'\<rparr>"]) (simp_all add: keeps_def)
  next
    case (2 l i h')
    have "pending h' = add_mset (wakeup_of (req\<lparr>lfr_mbidx := of_nat i\<rparr>)) (pending h0)"
      by (rule pending_take_slot) (use 2 h0(4) q in simp_all)
    then have "pending h' = add_mset (dcache_wakeup lsi a) (pending h)"
      by (simp add: wakeup_of_def h0(2) req_def LoadFillReq_new_def)
    moreover have "\<not> lq_freemap (ch_lfrq h') ! l" using 2(2,5) h0(4) q by simp
    ultimately show thesis
      using 2 call idx(2) h0(5) by (intro ok [of l hit h' i]) simp_all
  qed
qed

subsection \<open>All operations as steps\<close>

definition ch_new :: "Wakeup list option \<Rightarrow> CacheHierarchy" where
  "ch_new cb =
     \<lparr>ch_lfrq = lq_reset \<lparr>lq_freemap = [], lq_waiting = [], lq_ready = [],
        lq_reqs = replicate LFRQ_SIZE (LoadFillReq_new 0 0 0 lsi_zero 0), lq_count = 0\<rparr>,
      ch_missbuf = mf_reset \<lparr>mf_missbufs = replicate MISSBUF_COUNT
        \<lparr>mb_addr = 0, mb_state = STATE_IDLE, mb_dcache = False, mb_icache = False, mb_cycles = 0, mb_rob = 0, mb_threadid = 0,
         mb_lfrqmap = bs_zero LFRQ_SIZE\<rparr>, mf_freemap = [], mf_count = 0\<rparr>,
      ch_L1 = aa_new L1_SET_COUNT L1_WAY_COUNT \<lparr>clv_valid = 0\<rparr>, ch_L1I = aa_new L1I_SET_COUNT L1I_WAY_COUNT \<lparr>cl_dummy = 0\<rparr>,
      ch_L2 = aa_new L2_SET_COUNT L2_WAY_COUNT \<lparr>clv_valid = 0\<rparr>, ch_L3 = aa_new L3_SET_COUNT L3_WAY_COUNT \<lparr>cl_dummy = 0\<rparr>,
      ch_dtlb = tlb_reset \<lparr>oh_tags = replicate DTLB_SIZE 0, oh_valid = bs_zero DTLB_SIZE, oh_evictmap = bs_zero DTLB_SIZE\<rparr>,
      ch_itlb = tlb_reset \<lparr>oh_tags = replicate ITLB_SIZE 0, oh_valid = bs_zero ITLB_SIZE, oh_evictmap = bs_zero ITLB_SIZE\<rparr>,
      ch_callback = cb\<rparr>"

text \<open>
  One step is one call of the pipeline on the hierarchy. The pipeline annuls only slots it was
  given and that have not been woken since.
\<close>

inductive ch_step :: "CacheHierarchy \<Rightarrow> CacheHierarchy \<Rightarrow> bool" where
  issue: "issueload_slowpath a sfra lsi cyc h = Some (slot, hit, h') \<Longrightarrow> ch_step h h'"
| prefetch: "initiate_prefetch a h = Some h' \<Longrightarrow> ch_step h h'"
| fetch: "initiate_icache_miss a rob tid h = Some (mb, h') \<Longrightarrow> ch_step h h'"
| store: "commitstore sfr tid w mem h = Some (r, mem', h') \<Longrightarrow> ch_step h h'"
| probe: "ch_step h (h\<lparr>ch_L1 := snd (probe_cache_and_sfr a s n (ch_L1 h))\<rparr>)"
| probe_fetch: "ch_step h (snd (probe_icache v a h))"
| tlb: "ch_step h (h\<lparr>ch_dtlb := d, ch_itlb := t\<rparr>)"
| annul: "l < LFRQ_SIZE \<Longrightarrow> \<not> lq_freemap (ch_lfrq h) ! l \<Longrightarrow> annul_lfrq_slot l h = Some h' \<Longrightarrow> ch_step h h'"
| tick: "ch_clock h = Some h' \<Longrightarrow> ch_step h h'"
| flush: "ch_complete h = Some h' \<Longrightarrow> ch_step h h'"
| flush_thread: "ch_complete_thread threadid h = Some h' \<Longrightarrow> ch_step h h'"
| reset: "ch_step h (ch_reset h)"

inductive reachable :: "CacheHierarchy \<Rightarrow> bool" where
  start: "reachable (ch_new cb)"
| step: "reachable h \<Longrightarrow> ch_step h h' \<Longrightarrow> reachable h'"

text \<open>
  What the loads of the core see of it: a load becomes pending, a pending load is delivered, a
  pending load is dropped. Nothing is delivered that was not pending, nothing twice.
\<close>

inductive load_step :: "Wakeup multiset \<times> Wakeup multiset \<Rightarrow> Wakeup multiset \<times> Wakeup multiset \<Rightarrow> bool" where
  ls_idle: "load_step (P, D) (P, D)"
| ls_issue: "load_step (P, D) (add_mset w P, D)"
| ls_deliver: "load_step (P + W, D) (P, D + W)"
| ls_drop: "load_step (P + W, D) (P, D)"

lemma buffers_ok_reset: "length (mf_missbufs m) = MISSBUF_COUNT \<Longrightarrow> buffers_ok (mf_reset m)"
  by (auto simp: buffers_ok_def mf_reset_def inj_on_def)

lemma reset_inv:
  assumes "length (lq_reqs q) = LFRQ_SIZE" "length (mf_missbufs m) = MISSBUF_COUNT"
    and "ch_lfrq h = lq_reset q" "ch_missbuf h = mf_reset m"
  shows "fill_inv {} h" "pending h = {#}"
proof -
  have "queue_ok (lq_reset q)" using assms(1) by (simp add: queue_ok_def lq_reset_def)
  then show i: "fill_inv {} h"
    using empty_queue_inv [of "lq_reset q" "mf_reset m"] queue_ok_reset(2) [of q] buffers_ok_reset [OF assms(2)] assms(2)
    by (simp add: fill_inv_def assms(3,4) mf_reset_def mb_reset_entry_def)
  show "pending h = {#}"
    using pending_empty_iff [OF i] queue_ok_reset(2) [of q] by (simp add: assms(3))
qed

lemma ch_reset_spec: "fill_inv {} h \<Longrightarrow> fill_inv {} (ch_reset h) \<and> pending (ch_reset h) = {#} \<and> ch_callback (ch_reset h) = ch_callback h"
  using reset_inv [of "ch_lfrq h" "ch_missbuf h" "ch_reset h"]
  by (simp add: ch_reset_def fill_inv_def queue_ok_def buffers_ok_def)

lemma ch_new_inv: "fill_inv {} (ch_new cb)" "pending (ch_new cb) = {#}"
  by (rule reset_inv; simp add: ch_new_def)+

lemma delivered_callback: "ch_callback h' = ch_callback h \<Longrightarrow> delivered h' = delivered h"
  by (simp add: delivered_def dcache_events_def)

lemma keeps_load_step: "keeps h h' \<Longrightarrow> load_step (pending h, delivered h) (pending h', delivered h')"
  using delivered_callback [of h' h] by (simp add: keeps_def ls_idle)

lemma load_step_drop:
  "pending h' \<subseteq># pending h \<Longrightarrow> ch_callback h' = ch_callback h \<Longrightarrow> load_step (pending h, delivered h) (pending h', delivered h')"
  using ls_drop [of "pending h'" "pending h - pending h'" "delivered h"] delivered_callback [of h' h] by simp

text \<open>The dropping operations keep the callback.\<close>

lemma dropping_callback:
  "lq_annul l h = Some h' \<Longrightarrow> ch_callback h' = ch_callback h"
  "ch_complete_thread t h = Some h' \<Longrightarrow> ch_callback h' = ch_callback h"
  "fill_inv {} h \<Longrightarrow> ch_complete h = Some h' \<Longrightarrow> ch_callback h' = ch_callback h"
  using lq_restart_loop_spec [of h]
  by (auto simp: lq_annul_def lq_changestate_def ch_complete_thread_def ch_complete_def lq_restart_def Let_def
    split: if_splits option.splits)

lemma annul_spec:
  assumes "fill_inv {} h" "l < LFRQ_SIZE" "\<not> lq_freemap (ch_lfrq h) ! l"
  obtains h' where "annul_lfrq_slot l h = Some h'" "fill_inv {} h'"
    "pending h = add_mset (wakeup_of (lq_reqs (ch_lfrq h) ! l)) (pending h')"
proof -
  obtain q m where a: "lq_annul l h = Some (h\<lparr>ch_missbuf := m, ch_lfrq := q\<rparr>)" "fill_inv {} (h\<lparr>ch_missbuf := m, ch_lfrq := q\<rparr>)"
    "lq_freemap q = (lq_freemap (ch_lfrq h))[l := True]" "\<And>k. k \<noteq> l \<Longrightarrow> lq_reqs q ! k = lq_reqs (ch_lfrq h) ! k"
    using lq_annul_spec [OF assms] by metis
  have "pending h = add_mset (wakeup_of (lq_reqs (ch_lfrq h) ! l)) (pending (h\<lparr>ch_missbuf := m, ch_lfrq := q\<rparr>))"
    by (rule pending_free_slot [OF assms(2,3)]) (use a assms(1) in \<open>simp_all add: fill_inv_def queue_ok_def\<close>)
  with a show thesis by (intro that) (simp_all add: annul_lfrq_slot_def)
qed

subsection \<open>What holds in every reachable state\<close>

lemma step_inv:
  assumes "ch_step h h'" "fill_inv {} h"
  shows "fill_inv {} h' \<and> (ch_callback h \<noteq> None \<longrightarrow> ch_callback h' \<noteq> None \<and> load_step (pending h, delivered h) (pending h', delivered h'))"
  using assms
proof (induction rule: ch_step.induct)
  case (issue a sfra lsi cyc h slot hit h')
  show ?case
  proof (cases rule: issueload_spec [OF issue(2), of a sfra lsi cyc])
    case (1 hit' h'')
    then show ?thesis using issue(1) keeps_load_step [OF 1(2)] by (simp add: keeps_def)
  next
    case (2 l i hit' h'')
    then show ?thesis using issue(1) ls_issue delivered_callback [OF 2(4)] by simp
  qed
next
  case (prefetch a h h')
  then obtain "keeps h h'" using initiate_prefetch_spec by (metis option.inject)
  then show ?case using keeps_load_step by (simp add: keeps_def)
next
  case (fetch a rob tid h mb h')
  then obtain "keeps h h'" using initiate_icache_miss_spec by (metis option.inject prod.inject)
  then show ?case using keeps_load_step by (simp add: keeps_def)
next
  case (store sfr tid w mem h r mem' h')
  then obtain "keeps h h'" using commitstore_spec by (metis option.inject prod.inject)
  then show ?case using keeps_load_step by (simp add: keeps_def)
next
  case (probe h a s n)
  then show ?case using keeps_load_step [OF keeps_caches(1)] keeps_caches(1) by (simp add: keeps_def)
next
  case (probe_fetch h v a)
  then have "keeps h (snd (probe_icache v a h))" by (simp add: probe_icache_def split_beta Let_def keeps_caches)
  then show ?case using keeps_load_step by (simp add: keeps_def)
next
  case (tlb h d t)
  then show ?case using keeps_load_step [OF keeps_caches(5)] keeps_caches(5) by (simp add: keeps_def)
next
  case (annul l h h')
  obtain h1 where a: "annul_lfrq_slot l h = Some h1" "fill_inv {} h1" "pending h = add_mset (wakeup_of (lq_reqs (ch_lfrq h) ! l)) (pending h1)"
    using annul_spec [OF annul(4,1,2)] by metis
  then show ?case
    using annul(3) dropping_callback(1) [of l h h'] load_step_drop [of h' h] by (simp add: annul_lfrq_slot_def)
next
  case (tick h h')
  obtain "fill_inv {} h'" "ch_callback h' = None \<longleftrightarrow> ch_callback h = None" "ch_callback h \<noteq> None \<longrightarrow> moved h h'"
    using ch_clock_spec [OF tick(2)] tick(1) by (metis option.inject)
  then show ?case using ls_deliver by (auto simp: moved_def)
next
  case (flush h h')
  then obtain "fill_inv {} h'" "pending h' = {#}" using ch_complete_spec by (metis option.inject)
  then show ?case using dropping_callback(3) [OF flush(2,1)] load_step_drop [of h' h] by simp
next
  case (flush_thread t h h')
  then obtain "fill_inv {} h'" "pending h' = filter_mset (\<lambda>w. wakeup_thread w \<noteq> t) (pending h)"
    using ch_complete_thread_spec by (metis option.inject)
  then show ?case using dropping_callback(2) [OF flush_thread(1)] load_step_drop [of h' h] by simp
next
  case (reset h)
  then show ?case using ch_reset_spec [of h] load_step_drop [of "ch_reset h" h] by simp
qed

lemma reachable_inv: "reachable h \<Longrightarrow> fill_inv {} h"
  by (induction rule: reachable.induct) (simp_all add: ch_new_inv step_inv)

inductive_cases load_stepE: "load_step (P, D) s"

lemma load_step_delivered: "load_step s s' \<Longrightarrow> snd s \<subseteq># snd s'"
  by (cases s) (auto elim: load_stepE)

text \<open>The hierarchy is an implementation of the load tracker.\<close>

interpretation tracker: relational_refinement ch_step load_step "\<lambda>h. (pending h, delivered h)"
  "\<lambda>h. fill_inv {} h \<and> ch_callback h \<noteq> None"
  by unfold_locales (use step_inv in blast)+

lemmas delivered_grows = tracker.run_monotone [where f = snd and le = "(\<subseteq>#)", OF load_step_delivered, simplified]

text \<open>
  Claim C14. In every state the cache hierarchy can reach by loads, prefetches, fetch misses, store
  commits, probes, annulments, clock ticks, flushes and resets in any order, the invariant of the
  load fill request queue and the miss buffers holds, and no operation fails an assertion.
\<close>

theorem hierarchy_safe:
  assumes "reachable h"
  shows "fill_inv {} h \<and> issueload_slowpath a sfra lsi cyc h \<noteq> None \<and> initiate_prefetch a h \<noteq> None
    \<and> initiate_icache_miss a rob tid h \<noteq> None \<and> commitstore sfr tid w mem h \<noteq> None
    \<and> (l < LFRQ_SIZE \<and> \<not> lq_freemap (ch_lfrq h) ! l \<longrightarrow> annul_lfrq_slot l h \<noteq> None)
    \<and> ch_clock h \<noteq> None \<and> ch_complete h \<noteq> None \<and> ch_complete_thread tid h \<noteq> None"
proof -
  note inv = reachable_inv [OF assms]
  have "issueload_slowpath a sfra lsi cyc h \<noteq> None" by (rule issueload_spec [OF inv, of a sfra lsi cyc]) simp_all
  moreover have "initiate_prefetch a h \<noteq> None" by (rule initiate_prefetch_spec [OF inv, of a]) simp
  moreover have "initiate_icache_miss a rob tid h \<noteq> None" by (rule initiate_icache_miss_spec [OF inv, of a rob tid]) simp
  moreover have "commitstore sfr tid w mem h \<noteq> None" by (rule commitstore_spec [OF inv, of sfr tid w mem]) simp
  moreover have "l < LFRQ_SIZE \<and> \<not> lq_freemap (ch_lfrq h) ! l \<longrightarrow> annul_lfrq_slot l h \<noteq> None"
    using annul_spec [OF inv, of l] by (metis option.discI)
  moreover have "ch_clock h \<noteq> None" by (rule ch_clock_spec [OF inv]) simp
  moreover have "ch_complete h \<noteq> None" by (rule ch_complete_spec [OF inv]) simp
  moreover have "ch_complete_thread tid h \<noteq> None" by (rule ch_complete_thread_spec [OF inv, of tid]) simp
  ultimately show ?thesis using inv by blast
qed

theorem hierarchy_safe_witness:
  "ch_clock (ch_new (Some [])) \<noteq> None \<and> ch_complete_thread 3 (ch_new None) \<noteq> None"
  using hierarchy_safe [OF start [of "Some []"]] hierarchy_safe [OF start [of None], where tid = 3] by blast

text \<open>
  Claim C13. Clocking alone completes every load: from any reachable state with a connected core,
  after 185 cycles (memory, L3 and L2 latency, plus two wakeups per cycle for 64 slots) the queue
  and the miss buffers are empty, and exactly the pending loads have been reported to the core,
  each of them once.
\<close>

theorem loads_complete:
  assumes "reachable h" "ch_callback h \<noteq> None"
  shows "drain_cycles = 185 \<and> (\<exists>h'. ch_clocks drain_cycles h = Some h' \<and> pending h' = {#} \<and> bs_all (mf_freemap (ch_missbuf h'))
    \<and> delivered h' = delivered h + pending h)"
  using clocks_drain [OF reachable_inv [OF assms(1)] assms(2)] by (auto simp: drain_cycles_def cache_consts)

text \<open>
  A load that misses is queued exactly when it can be: while neither the queue nor the miss
  buffers are full it gets a slot, becomes pending once, and a busy miss buffer for its line will
  wake that slot; when it gets no slot, one of the two was full and nothing pending changes.
\<close>

theorem load_issue:
  assumes "reachable h"
  shows "\<exists>slot hit h'. issueload_slowpath a sfra lsi cyc h = Some (slot, hit, h')
    \<and> (slot < 0 \<longrightarrow> slot = -1 \<and> lfrq_or_missbuf_full h \<and> pending h' = pending h)
    \<and> (0 \<le> slot \<longrightarrow> slot < int LFRQ_SIZE \<and> pending h' = add_mset (dcache_wakeup lsi a) (pending h)
       \<and> (\<exists>i < MISSBUF_COUNT. \<not> mf_freemap (ch_missbuf h') ! i \<and> mb_lfrqmap (mf_missbufs (ch_missbuf h') ! i) ! nat slot
            \<and> mb_addr (mf_missbufs (ch_missbuf h') ! i) = floor_align a (of_nat L1_LINE_SIZE)))
    \<and> (\<not> lfrq_or_missbuf_full h \<longrightarrow> 0 \<le> slot)"
proof (cases rule: issueload_spec [OF reachable_inv [OF assms], of a sfra lsi cyc])
  case (1 hit h')
  then show ?thesis by (intro exI [of _ "-1"] exI [of _ hit] exI [of _ h']) (simp add: keeps_def)
next
  case (2 l i hit h')
  then show ?thesis by (intro exI [of _ "int l"] exI [of _ hit] exI [of _ h']) auto
qed

lemma ch_new_not_full: "\<not> lfrq_or_missbuf_full (ch_new cb)" "ch_callback (ch_new cb) = cb" "delivered (ch_new (Some [])) = {#}"
  by (auto simp: lfrq_or_missbuf_full_def lq_full_def mf_full_def ch_new_def lq_reset_def mf_reset_def bs_none_iff cache_consts
    delivered_def dcache_events_def intro: exI [of _ 0])

definition sfr_zero :: SFR where
  "sfr_zero = \<lparr>sfr_data = 0, sfr_addrvalid = False, sfr_invalid = False, sfr_datavalid = False, sfr_physaddr = 0,
     sfr_bytemask = 0, sfr_tag = 0, sfr_smc_mfn = 0\<rparr>"

theorem load_issue_witness:
  "\<exists>slot hit h'. issueload_slowpath 0x1008 sfr_zero lsi_zero 7 (ch_new None) = Some (slot, hit, h') \<and> 0 \<le> slot
     \<and> pending h' = {#dcache_wakeup lsi_zero 0x1008#}"
  using load_issue [OF start [of None], of "0x1008" sfr_zero lsi_zero 7] ch_new_not_full(1) [of None] ch_new_inv(2) [of None] by auto

theorem loads_complete_witness:
  "\<exists>slot hit h h'. issueload_slowpath 0x1008 sfr_zero lsi_zero 7 (ch_new (Some [])) = Some (slot, hit, h)
     \<and> ch_clocks 185 h = Some h' \<and> delivered h' = {#dcache_wakeup lsi_zero 0x1008#}"
proof -
  obtain slot hit h where h: "issueload_slowpath 0x1008 sfr_zero lsi_zero 7 (ch_new (Some [])) = Some (slot, hit, h)"
    "pending h = {#dcache_wakeup lsi_zero 0x1008#}" "ch_callback h = Some []"
    by (rule issueload_spec [OF ch_new_inv(1) [of "Some []"], of "0x1008" sfr_zero lsi_zero 7])
      (use ch_new_not_full(1,2) [of "Some []"] ch_new_inv(2) [of "Some []"] in auto)
  then have "reachable h" using reachable.step [OF start ch_step.issue] by blast
  moreover have "delivered h = {#}" using delivered_callback [of h "ch_new (Some [])"] h(3) ch_new_not_full by simp
  ultimately show ?thesis using loads_complete [of h] h by auto
qed

text \<open>
  Claim C15. The hierarchy implements the abstract load tracker: along every run from a reachable
  state with a connected core, what is pending and what has been delivered changes only by a load
  becoming pending, pending loads being delivered, or pending loads being dropped, and a
  delivered load stays delivered.
\<close>

theorem hierarchy_refines_loads:
  assumes "reachable h" "ch_callback h \<noteq> None" "rtranclp ch_step h h'"
  shows "rtranclp load_step (pending h, delivered h) (pending h', delivered h') \<and> delivered h \<subseteq># delivered h'"
  using tracker.run_refines [OF assms(3)] delivered_grows [OF _ assms(3)] reachable_inv [OF assms(1)] assms(2)
  by simp

theorem hierarchy_refines_loads_witness:
  "rtranclp load_step (pending (ch_new (Some [])), delivered (ch_new (Some [])))
     (pending (ch_reset (ch_new (Some []))), delivered (ch_reset (ch_new (Some []))))"
  using hierarchy_refines_loads [OF start [of "Some []"], of "ch_reset (ch_new (Some []))"]
    r_into_rtranclp [of ch_step, OF ch_step.reset [of "ch_new (Some [])"]] ch_new_not_full(2) [of "Some []"] by simp

text \<open>
  Claim C25. Flushing: annulling a slot removes exactly its load, completing a thread removes exactly
  the loads of that thread, completing all removes every load; what was delivered stays.
\<close>

theorem flush_drops_loads:
  assumes "reachable h"
  shows "(l < LFRQ_SIZE \<and> \<not> lq_freemap (ch_lfrq h) ! l \<longrightarrow> (\<exists>h'. annul_lfrq_slot l h = Some h'
        \<and> pending h = add_mset (wakeup_of (lq_reqs (ch_lfrq h) ! l)) (pending h') \<and> delivered h' = delivered h))
    \<and> (\<exists>h'. ch_complete_thread tid h = Some h' \<and> pending h' = filter_mset (\<lambda>w. wakeup_thread w \<noteq> tid) (pending h)
        \<and> delivered h' = delivered h)
    \<and> (\<exists>h'. ch_complete h = Some h' \<and> pending h' = {#} \<and> delivered h' = delivered h)"
proof (intro conjI impI)
  note inv = reachable_inv [OF assms]
  show "\<exists>h'. annul_lfrq_slot l h = Some h' \<and> pending h = add_mset (wakeup_of (lq_reqs (ch_lfrq h) ! l)) (pending h')
      \<and> delivered h' = delivered h" if "l < LFRQ_SIZE \<and> \<not> lq_freemap (ch_lfrq h) ! l"
    using annul_spec [OF inv, of l] that dropping_callback(1) [of l h] delivered_callback
    unfolding annul_lfrq_slot_def by metis
  show "\<exists>h'. ch_complete_thread tid h = Some h' \<and> pending h' = filter_mset (\<lambda>w. wakeup_thread w \<noteq> tid) (pending h)
      \<and> delivered h' = delivered h"
    using ch_complete_thread_spec [OF inv, of tid] dropping_callback(2) [of tid h] delivered_callback by metis
  show "\<exists>h'. ch_complete h = Some h' \<and> pending h' = {#} \<and> delivered h' = delivered h"
    using ch_complete_spec [OF inv] dropping_callback(3) [OF inv] delivered_callback by metis
qed

theorem flush_drops_loads_witness:
  "\<exists>slot hit h h'. issueload_slowpath 0x1008 sfr_zero lsi_zero 7 (ch_new (Some [])) = Some (slot, hit, h)
     \<and> ch_complete_thread 0 h = Some h' \<and> pending h = {#dcache_wakeup lsi_zero 0x1008#} \<and> pending h' = {#}"
proof -
  obtain slot hit h where h: "issueload_slowpath 0x1008 sfr_zero lsi_zero 7 (ch_new (Some [])) = Some (slot, hit, h)"
    "pending h = {#dcache_wakeup lsi_zero 0x1008#}"
    by (rule issueload_spec [OF ch_new_inv(1) [of "Some []"], of "0x1008" sfr_zero lsi_zero 7])
      (use ch_new_not_full(1) [of "Some []"] ch_new_inv(2) [of "Some []"] in auto)
  then have "reachable h" using reachable.step [OF start ch_step.issue] by blast
  then show ?thesis using flush_drops_loads [of h, where tid = 0] h by (auto simp: lsi_zero_def)
qed

text \<open>
  Claim C26. Committing a store writes exactly the bytes of its mask to memory when it is asked to
  write, and nothing when it is speculative, invalid or empty; it neither starts nor ends a load.
\<close>

theorem commitstore_effect:
  fixes sfr :: SFR
  defines "addr \<equiv> push_bit 3 (ucast (sfr_physaddr sfr)) :: W64"
  assumes "reachable h"
  shows "\<exists>mem' h'. commitstore sfr tid w mem h = Some (0, mem', h')
    \<and> (\<forall>n < 64. bit (loadphys addr mem') n =
         bit (if w \<and> \<not> sfr_invalid sfr \<and> bit (sfr_bytemask sfr) (n div 8) then sfr_data sfr else loadphys addr mem) n)
    \<and> (\<forall>a. a \<noteq> addr \<longrightarrow> loadphys a mem' = loadphys a mem) \<and> pending h' = pending h \<and> delivered h' = delivered h"
proof -
  obtain h' where h': "commitstore sfr tid w mem h = Some (0,
      if w \<and> \<not> sfr_invalid sfr \<and> sfr_bytemask sfr \<noteq> 0 then snd (storemask addr (sfr_data sfr) (sfr_bytemask sfr) mem) else mem, h')"
    "keeps h h'"
    using commitstore_spec [OF reachable_inv [OF assms(2)], of sfr tid w mem] unfolding addr_def by metis
  moreover have "delivered h' = delivered h" "pending h' = pending h"
    using h'(2) delivered_callback [of h' h] by (simp_all add: keeps_def)
  moreover have "bit (sfr_bytemask sfr) k \<longrightarrow> sfr_bytemask sfr \<noteq> 0" for k by auto
  ultimately show ?thesis
    by (auto simp: bit_storemask storemask_other intro!: exI)
qed

theorem commitstore_effect_witness:
  "\<exists>mem' h'. commitstore (sfr_zero\<lparr>sfr_data := 0x1122, sfr_bytemask := 1\<rparr>) 0 True (\<lambda>a. 0xffff) (ch_new None) = Some (0, mem', h')
     \<and> loadphys 8 mem' = 0xffff \<and> \<not> bit (loadphys 0 mem') 0"
  using commitstore_effect [OF start [of None], of "sfr_zero\<lparr>sfr_data := 0x1122, sfr_bytemask := 1\<rparr>" 0 True "\<lambda>a. 0xffff"]
  by (auto simp: sfr_zero_def loadphys_def bit_1_iff)

text \<open>
  Claim C27. A store to a line that is not in the L1 takes over the byte mask of the line it evicts:
  when the ways of its set have been completely filled before, the new line counts as completely
  valid although only the stored bytes are present, and no miss is started for the rest.
\<close>

theorem store_inherits_mask:
  fixes sfr :: SFR
  defines "addr \<equiv> push_bit 3 (ucast (sfr_physaddr sfr)) :: W64"
  assumes "aa_inv 6 (ch_L1 h)" "\<not> sfr_invalid sfr" "sfr_bytemask sfr \<noteq> 0"
    and "list_all (\<lambda>l. clv_valid l = -1) (faa_data (aa_sets (ch_L1 h) ! aa_setof L1_SET_COUNT L1_LINE_SIZE addr))"
  shows "\<exists>mem' h'. commitstore sfr tid w mem h = Some (0, mem', h') \<and> ch_missbuf h' = ch_missbuf h
    \<and> (\<forall>n < 64. line_byte (ch_L1 h') addr n)"
proof -
  let ?s = "aa_setof L1_SET_COUNT L1_LINE_SIZE addr"
  obtain p o1 A where A: "aa_select L1_LINE_SIZE addr 0 (ch_L1 h) = (p, o1, A)" by (metis prod_cases3)
  obtain r o2 B where B: "aa_select L2_LINE_SIZE addr 0 (ch_L2 h) = (r, o2, B)" by (metis prod_cases3)
  have len: "length (aa_sets (ch_L1 h)) = L1_SET_COUNT" "?s < L1_SET_COUNT"
    using assms(2) aa_setof_less [of 6 L1_LINE_SIZE addr] by (simp_all add: aa_inv_def L1_SET_COUNT_def)
  have f: "faa_inv (aa_sets (ch_L1 h) ! ?s)" using aa_inv_set [OF assms(2), of ?s] len by (simp add: L1_SET_COUNT_def)
  note rg = faa_select_range [OF f L1_tag_valid [of addr], of 0]
  have "aa_line p A = faa_data (aa_sets (ch_L1 h) ! ?s) ! nat (snd p)" "nat (snd p) < length (faa_data (aa_sets (ch_L1 h) ! ?s))"
    using A rg len by (auto simp: aa_select_def aa_line_def Let_def split_beta)
  then have v: "clv_valid (aa_line p A) = -1" using assms(5) by (simp add: list_all_length)
  have L1: "aa_store p \<lparr>clv_valid = -1\<rparr> A = aa_put L1_LINE_SIZE addr \<lparr>clv_valid = -1\<rparr> (ch_L1 h)"
    using aa_select_store [of L1_LINE_SIZE addr "ch_L1 h" "\<lparr>clv_valid = -1\<rparr>"] by (simp add: A)
  have "line_byte (aa_store p \<lparr>clv_valid = -1\<rparr> A) addr n" if "n < 64" for n
    using that aa.put_same [of 6 _ 6, folded L1_line_pow(1), OF assms(2)] by (simp add: L1 line_byte_def)
  then show ?thesis
    using assms(3,4) v unfolding commitstore_def addr_def [symmetric] A B Let_def prod.case
    by (simp add: clv_only_mask)
qed

theorem store_inherits_mask_witness:
  "let h = (ch_new None)\<lparr>ch_L1 := aa_new 64 4 \<lparr>clv_valid = -1\<rparr>\<rparr>; sfr = sfr_zero\<lparr>sfr_bytemask := 1\<rparr>
   in \<exists>mem' h'. commitstore sfr 0 True (\<lambda>a. 0) h = Some (0, mem', h') \<and> line_byte (ch_L1 h') 0 63"
proof -
  let ?h = "(ch_new None)\<lparr>ch_L1 := aa_new 64 4 \<lparr>clv_valid = -1\<rparr>\<rparr>" and ?sfr = "sfr_zero\<lparr>sfr_bytemask := 1\<rparr>"
  have "aa_inv 6 (ch_L1 ?h)" using aa_new_spec(1) [of 6 4] by simp
  moreover have "\<not> sfr_invalid ?sfr" "sfr_bytemask ?sfr \<noteq> 0" by (simp_all add: sfr_zero_def)
  moreover have "list_all (\<lambda>l. clv_valid l = -1) (faa_data (aa_sets (ch_L1 ?h) ! k))" if "k < 64" for k
    using that by (simp add: aa_new_def aa_reset_def faa_reset_def list_all_length)
  moreover have "aa_setof L1_SET_COUNT L1_LINE_SIZE (push_bit 3 (ucast (sfr_physaddr ?sfr))) < 64"
    using aa_setof_less [of 6] by (simp add: L1_SET_COUNT_def)
  ultimately show ?thesis
    using store_inherits_mask [of ?h ?sfr 0 True "\<lambda>a. 0"] unfolding Let_def by (auto simp: sfr_zero_def)
qed

end
