(* ===== verification/Cluster_Tables.thy ===== *)
theory Cluster_Tables
  imports Uop_Dispatch
begin

text \<open>
  The functional unit table and the cluster tables of \<^verbatim>\<open>ooocore.h\<close> with the lookup tables
  \<^verbatim>\<open>init_luts\<close> (\<^verbatim>\<open>ooocore.cpp\<close>) computes from them, and the table of set bits of
  \<^verbatim>\<open>ooopipe.cpp\<close>. \<^verbatim>\<open>MULTI_IQ\<close> is defined: there are four clusters.
\<close>

subsection \<open>Functional units\<close>

definition FU_COUNT :: nat where [uop_defs]: "FU_COUNT = 8"
definition LOADLAT :: nat where [uop_defs]: "LOADLAT = 2"

definition FU_LDU0 :: W32 where [uop_defs]: "FU_LDU0 = push_bit 0 1"
definition FU_STU0 :: W32 where [uop_defs]: "FU_STU0 = push_bit 1 1"
definition FU_LDU1 :: W32 where [uop_defs]: "FU_LDU1 = push_bit 2 1"
definition FU_STU1 :: W32 where [uop_defs]: "FU_STU1 = push_bit 3 1"
definition FU_ALU0 :: W32 where [uop_defs]: "FU_ALU0 = push_bit 4 1"
definition FU_FPU0 :: W32 where [uop_defs]: "FU_FPU0 = push_bit 5 1"
definition FU_ALU1 :: W32 where [uop_defs]: "FU_ALU1 = push_bit 6 1"
definition FU_FPU1 :: W32 where [uop_defs]: "FU_FPU1 = push_bit 7 1"

definition A_LAT :: nat where [uop_defs]: "A_LAT = 1"
definition ANYALU :: W32 where [uop_defs]: "ANYALU = FU_ALU0 OR FU_ALU1"
definition ANYLDU :: W32 where [uop_defs]: "ANYLDU = FU_LDU0 OR FU_LDU1"
definition ANYSTU :: W32 where [uop_defs]: "ANYSTU = FU_STU0 OR FU_STU1"
definition ANYFPU :: W32 where [uop_defs]: "ANYFPU = FU_FPU0 OR FU_FPU1"
definition ANYINT :: W32 where [uop_defs]: "ANYINT = ANYALU OR ANYSTU OR ANYLDU"

text \<open>Opcode, latency in cycles, and the mask of functional units; the mask fits its 16 bits.\<close>

record FunctionalUnitInfo =
  fui_opcode :: nat
  fui_latency :: nat
  fui_fu :: W32

definition fu_entry :: "nat \<times> nat \<times> W32 \<Rightarrow> FunctionalUnitInfo" where
  "fu_entry e = \<lparr>fui_opcode = fst e, fui_latency = fst (snd e), fui_fu = snd (snd e)\<rparr>"

definition fuinfo :: "FunctionalUnitInfo list" where
  "fuinfo = map fu_entry
    [(OP_nop, A_LAT, ANYINT OR ANYFPU),
     (OP_mov, A_LAT, ANYINT OR ANYFPU),
     (OP_and, A_LAT, ANYINT OR ANYFPU),
     (OP_andnot, A_LAT, ANYINT OR ANYFPU),
     (OP_xor, A_LAT, ANYINT OR ANYFPU),
     (OP_or, A_LAT, ANYINT OR ANYFPU),
     (OP_nand, A_LAT, ANYINT OR ANYFPU),
     (OP_ornot, A_LAT, ANYINT OR ANYFPU),
     (OP_eqv, A_LAT, ANYINT OR ANYFPU),
     (OP_nor, A_LAT, ANYINT OR ANYFPU),
     (OP_maskb, A_LAT, ANYINT),
     (OP_add, A_LAT, ANYINT),
     (OP_sub, A_LAT, ANYINT),
     (OP_adda, A_LAT, ANYINT),
     (OP_suba, A_LAT, ANYINT),
     (OP_addm, A_LAT, ANYINT),
     (OP_subm, A_LAT, ANYINT),
     (OP_andcc, A_LAT, ANYINT),
     (OP_orcc, A_LAT, ANYINT),
     (OP_xorcc, A_LAT, ANYINT),
     (OP_ornotcc, A_LAT, ANYINT),
     (OP_movccr, A_LAT, ANYINT),
     (OP_movrcc, A_LAT, ANYINT),
     (OP_collcc, A_LAT, ANYINT),
     (OP_shls, A_LAT, ANYINT),
     (OP_shrs, A_LAT, ANYINT),
     (OP_bswap, A_LAT, ANYINT),
     (OP_sars, A_LAT, ANYINT),
     (OP_bt, A_LAT, ANYALU),
     (OP_bts, A_LAT, ANYALU),
     (OP_btr, A_LAT, ANYALU),
     (OP_btc, A_LAT, ANYALU),
     (OP_set, A_LAT, ANYINT),
     (OP_set_sub, A_LAT, ANYINT),
     (OP_set_and, A_LAT, ANYINT),
     (OP_sel, A_LAT, ANYINT),
     (OP_sel_cmp, A_LAT, ANYINT),
     (OP_br, A_LAT, ANYINT),
     (OP_br_sub, A_LAT, ANYINT),
     (OP_br_and, A_LAT, ANYINT),
     (OP_jmp, A_LAT, ANYINT),
     (OP_bru, A_LAT, ANYINT),
     (OP_jmpp, A_LAT, ANYALU OR ANYLDU),
     (OP_brp, A_LAT, ANYALU OR ANYLDU),
     (OP_chk, A_LAT, ANYINT),
     (OP_chk_sub, A_LAT, ANYINT),
     (OP_chk_and, A_LAT, ANYINT),
     (OP_ld, LOADLAT, ANYLDU),
     (OP_ldx, LOADLAT, ANYLDU),
     (OP_ld_pre, 1, ANYLDU),
     (OP_ld_a16, LOADLAT, ANYLDU),
     (OP_st, 1, ANYSTU),
     (OP_st_a16, 1, ANYSTU),
     (OP_mf, 1, FU_STU0),
     (OP_shl, A_LAT, ANYALU),
     (OP_shr, A_LAT, ANYALU),
     (OP_mask, A_LAT, ANYALU),
     (OP_sar, A_LAT, ANYALU),
     (OP_rotl, A_LAT, ANYALU),
     (OP_rotr, A_LAT, ANYALU),
     (OP_rotcl, A_LAT, ANYALU),
     (OP_rotcr, A_LAT, ANYALU),
     (OP_mull, 4, ANYFPU),
     (OP_mulh, 4, ANYFPU),
     (OP_mulhu, 4, ANYFPU),
     (OP_mulhl, 4, ANYFPU),
     (OP_ctz, 3, ANYFPU),
     (OP_clz, 3, ANYFPU),
     (OP_ctpop, 3, ANYFPU),
     (OP_permb, 4, ANYFPU),
     (OP_div, 32, FU_ALU0),
     (OP_rem, 32, FU_ALU0),
     (OP_divs, 32, FU_ALU0),
     (OP_rems, 32, FU_ALU0),
     (OP_min, A_LAT, ANYALU),
     (OP_max, A_LAT, ANYALU),
     (OP_min_s, A_LAT, ANYALU),
     (OP_max_s, A_LAT, ANYALU),
     (OP_fadd, 6, ANYFPU),
     (OP_fsub, 6, ANYFPU),
     (OP_fmul, 6, ANYFPU),
     (OP_fmadd, 6, ANYFPU),
     (OP_fmsub, 6, ANYFPU),
     (OP_fmsubr, 6, ANYFPU),
     (OP_fdiv, 6, ANYFPU),
     (OP_fsqrt, 6, ANYFPU),
     (OP_frcp, 6, ANYFPU),
     (OP_frsqrt, 6, ANYFPU),
     (OP_fmin, 6, ANYFPU),
     (OP_fmax, 6, ANYFPU),
     (OP_fcmp, 6, ANYFPU),
     (OP_fcmpcc, 4, ANYFPU),
     (OP_fcvt_i2s_ins, 6, ANYFPU),
     (OP_fcvt_i2s_p, 6, ANYFPU),
     (OP_fcvt_i2d_lo, 6, ANYFPU),
     (OP_fcvt_i2d_hi, 6, ANYFPU),
     (OP_fcvt_q2s_ins, 6, ANYFPU),
     (OP_fcvt_q2d, 6, ANYFPU),
     (OP_fcvt_s2i, 6, ANYFPU),
     (OP_fcvt_s2q, 6, ANYFPU),
     (OP_fcvt_s2i_p, 6, ANYFPU),
     (OP_fcvt_d2i, 6, ANYFPU),
     (OP_fcvt_d2q, 6, ANYFPU),
     (OP_fcvt_d2i_p, 6, ANYFPU),
     (OP_fcvt_d2s_ins, 6, ANYFPU),
     (OP_fcvt_d2s_p, 6, ANYFPU),
     (OP_fcvt_s2d_lo, 6, ANYFPU),
     (OP_fcvt_s2d_hi, 6, ANYFPU),
     (OP_vadd, 1, ANYFPU),
     (OP_vsub, 1, ANYFPU),
     (OP_vadd_us, 1, ANYFPU),
     (OP_vsub_us, 1, ANYFPU),
     (OP_vadd_ss, 1, ANYFPU),
     (OP_vsub_ss, 1, ANYFPU),
     (OP_vshl, 1, ANYFPU),
     (OP_vshr, 1, ANYFPU),
     (OP_vbt, 1, ANYFPU),
     (OP_vsar, 1, ANYFPU),
     (OP_vavg, 1, ANYFPU),
     (OP_vcmp, 1, ANYFPU),
     (OP_vmin, 1, ANYFPU),
     (OP_vmax, 1, ANYFPU),
     (OP_vmin_s, 1, ANYFPU),
     (OP_vmax_s, 1, ANYFPU),
     (OP_vmull, 4, ANYFPU),
     (OP_vmulh, 4, ANYFPU),
     (OP_vmulhu, 4, ANYFPU),
     (OP_vmaddp, 4, ANYFPU),
     (OP_vsad, 4, ANYFPU),
     (OP_vpack_us, 2, ANYFPU),
     (OP_vpack_ss, 2, ANYFPU)]"

subsection \<open>States of a physical register\<close>

definition PHYSREG_NONE :: nat where "PHYSREG_NONE = 0"
definition PHYSREG_FREE :: nat where "PHYSREG_FREE = 1"
definition PHYSREG_WAITING :: nat where "PHYSREG_WAITING = 2"
definition PHYSREG_BYPASS :: nat where "PHYSREG_BYPASS = 3"
definition PHYSREG_WRITTEN :: nat where "PHYSREG_WRITTEN = 4"
definition PHYSREG_ARCH :: nat where "PHYSREG_ARCH = 5"
definition PHYSREG_PENDINGFREE :: nat where "PHYSREG_PENDINGFREE = 6"
definition MAX_PHYSREG_STATE :: nat where "MAX_PHYSREG_STATE = 7"

subsection \<open>Clusters\<close>

definition MAX_CLUSTERS :: nat where [uop_defs]: "MAX_CLUSTERS = 4"
definition MAX_FORWARDING_LATENCY :: nat where [uop_defs]: "MAX_FORWARDING_LATENCY = 2"

record Cluster =
  cl_name :: string
  cl_issue_width :: nat
  cl_fu_mask :: W32

definition clusters :: "Cluster list" where
  "clusters =
    [\<lparr>cl_name = ''int0'', cl_issue_width = 2, cl_fu_mask = FU_ALU0 OR FU_STU0\<rparr>,
     \<lparr>cl_name = ''int1'', cl_issue_width = 2, cl_fu_mask = FU_ALU1 OR FU_STU1\<rparr>,
     \<lparr>cl_name = ''ld'', cl_issue_width = 2, cl_fu_mask = FU_LDU0 OR FU_LDU1\<rparr>,
     \<lparr>cl_name = ''fp'', cl_issue_width = 2, cl_fu_mask = FU_FPU0 OR FU_FPU1\<rparr>]"

definition intercluster_latency_map :: "nat list list" where
  "intercluster_latency_map = [[0, 1, 0, 2], [1, 0, 0, 2], [0, 0, 0, 2], [2, 2, 2, 0]]"

text \<open>\<^verbatim>\<open>setbit\<close> and \<^verbatim>\<open>clearbit\<close> of \<^verbatim>\<open>globals.h\<close> on a 32-bit variable, for an index below 32.\<close>

definition setbit32 :: "W32 \<Rightarrow> nat \<Rightarrow> W32" where
  "setbit32 x i = x OR push_bit i 1"

definition clearbit32 :: "W32 \<Rightarrow> nat \<Rightarrow> W32" where
  "clearbit32 x i = x AND NOT (push_bit i 1)"

definition allowed_clusters :: "nat \<Rightarrow> W32" where
  "allowed_clusters i =
     (let allowedfu = fui_fu (fuinfo ! i)
      in fold (\<lambda>cl allowedcl. if cl_fu_mask (clusters ! cl) AND allowedfu \<noteq> 0 then setbit32 allowedcl cl else allowedcl)
           [0..<MAX_CLUSTERS] 0)"

definition uop_executable_on_cluster :: "W8 list" where
  "uop_executable_on_cluster = map (\<lambda>i. ucast (allowed_clusters i)) [0..<OP_MAX_OPCODE]"

definition forward_at_cycle_lut :: "W32 list list" where
  "forward_at_cycle_lut =
     map (\<lambda>srcc. map (\<lambda>lat. fold (\<lambda>destc targets. if lat = intercluster_latency_map ! srcc ! destc
          then setbit32 targets destc else targets) [0..<MAX_CLUSTERS] 0)
        [0..<MAX_FORWARDING_LATENCY + 1]) [0..<MAX_CLUSTERS]"

subsection \<open>A pseudo-random set bit\<close>

definition bit_indices_set_8bits :: "nat list list" where
  "bit_indices_set_8bits =
    [[0, 0, 0, 0, 0, 0, 0, 0], [0, 0, 0, 0, 0, 0, 0, 0], [1, 1, 1, 1, 1, 1, 1, 1],
     [0, 1, 0, 1, 0, 1, 0, 1], [2, 2, 2, 2, 2, 2, 2, 2], [0, 2, 0, 2, 0, 2, 0, 2],
     [1, 2, 1, 2, 1, 2, 1, 2], [0, 1, 2, 0, 1, 2, 0, 1], [3, 3, 3, 3, 3, 3, 3, 3],
     [0, 3, 0, 3, 0, 3, 0, 3], [1, 3, 1, 3, 1, 3, 1, 3], [0, 1, 3, 0, 1, 3, 0, 1],
     [2, 3, 2, 3, 2, 3, 2, 3], [0, 2, 3, 0, 2, 3, 0, 2], [1, 2, 3, 1, 2, 3, 1, 2],
     [0, 1, 2, 3, 0, 1, 2, 3], [4, 4, 4, 4, 4, 4, 4, 4], [0, 4, 0, 4, 0, 4, 0, 4],
     [1, 4, 1, 4, 1, 4, 1, 4], [0, 1, 4, 0, 1, 4, 0, 1], [2, 4, 2, 4, 2, 4, 2, 4],
     [0, 2, 4, 0, 2, 4, 0, 2], [1, 2, 4, 1, 2, 4, 1, 2], [0, 1, 2, 4, 0, 1, 2, 4],
     [3, 4, 3, 4, 3, 4, 3, 4], [0, 3, 4, 0, 3, 4, 0, 3], [1, 3, 4, 1, 3, 4, 1, 3],
     [0, 1, 3, 4, 0, 1, 3, 4], [2, 3, 4, 2, 3, 4, 2, 3], [0, 2, 3, 4, 0, 2, 3, 4],
     [1, 2, 3, 4, 1, 2, 3, 4], [0, 1, 2, 3, 4, 0, 1, 2], [5, 5, 5, 5, 5, 5, 5, 5],
     [0, 5, 0, 5, 0, 5, 0, 5], [1, 5, 1, 5, 1, 5, 1, 5], [0, 1, 5, 0, 1, 5, 0, 1],
     [2, 5, 2, 5, 2, 5, 2, 5], [0, 2, 5, 0, 2, 5, 0, 2], [1, 2, 5, 1, 2, 5, 1, 2],
     [0, 1, 2, 5, 0, 1, 2, 5], [3, 5, 3, 5, 3, 5, 3, 5], [0, 3, 5, 0, 3, 5, 0, 3],
     [1, 3, 5, 1, 3, 5, 1, 3], [0, 1, 3, 5, 0, 1, 3, 5], [2, 3, 5, 2, 3, 5, 2, 3],
     [0, 2, 3, 5, 0, 2, 3, 5], [1, 2, 3, 5, 1, 2, 3, 5], [0, 1, 2, 3, 5, 0, 1, 2],
     [4, 5, 4, 5, 4, 5, 4, 5], [0, 4, 5, 0, 4, 5, 0, 4], [1, 4, 5, 1, 4, 5, 1, 4],
     [0, 1, 4, 5, 0, 1, 4, 5], [2, 4, 5, 2, 4, 5, 2, 4], [0, 2, 4, 5, 0, 2, 4, 5],
     [1, 2, 4, 5, 1, 2, 4, 5], [0, 1, 2, 4, 5, 0, 1, 2], [3, 4, 5, 3, 4, 5, 3, 4],
     [0, 3, 4, 5, 0, 3, 4, 5], [1, 3, 4, 5, 1, 3, 4, 5], [0, 1, 3, 4, 5, 0, 1, 3],
     [2, 3, 4, 5, 2, 3, 4, 5], [0, 2, 3, 4, 5, 0, 2, 3], [1, 2, 3, 4, 5, 1, 2, 3],
     [0, 1, 2, 3, 4, 5, 0, 1], [6, 6, 6, 6, 6, 6, 6, 6], [0, 6, 0, 6, 0, 6, 0, 6],
     [1, 6, 1, 6, 1, 6, 1, 6], [0, 1, 6, 0, 1, 6, 0, 1], [2, 6, 2, 6, 2, 6, 2, 6],
     [0, 2, 6, 0, 2, 6, 0, 2], [1, 2, 6, 1, 2, 6, 1, 2], [0, 1, 2, 6, 0, 1, 2, 6],
     [3, 6, 3, 6, 3, 6, 3, 6], [0, 3, 6, 0, 3, 6, 0, 3], [1, 3, 6, 1, 3, 6, 1, 3],
     [0, 1, 3, 6, 0, 1, 3, 6], [2, 3, 6, 2, 3, 6, 2, 3], [0, 2, 3, 6, 0, 2, 3, 6],
     [1, 2, 3, 6, 1, 2, 3, 6], [0, 1, 2, 3, 6, 0, 1, 2], [4, 6, 4, 6, 4, 6, 4, 6],
     [0, 4, 6, 0, 4, 6, 0, 4], [1, 4, 6, 1, 4, 6, 1, 4], [0, 1, 4, 6, 0, 1, 4, 6],
     [2, 4, 6, 2, 4, 6, 2, 4], [0, 2, 4, 6, 0, 2, 4, 6], [1, 2, 4, 6, 1, 2, 4, 6],
     [0, 1, 2, 4, 6, 0, 1, 2], [3, 4, 6, 3, 4, 6, 3, 4], [0, 3, 4, 6, 0, 3, 4, 6],
     [1, 3, 4, 6, 1, 3, 4, 6], [0, 1, 3, 4, 6, 0, 1, 3], [2, 3, 4, 6, 2, 3, 4, 6],
     [0, 2, 3, 4, 6, 0, 2, 3], [1, 2, 3, 4, 6, 1, 2, 3], [0, 1, 2, 3, 4, 6, 0, 1],
     [5, 6, 5, 6, 5, 6, 5, 6], [0, 5, 6, 0, 5, 6, 0, 5], [1, 5, 6, 1, 5, 6, 1, 5],
     [0, 1, 5, 6, 0, 1, 5, 6], [2, 5, 6, 2, 5, 6, 2, 5], [0, 2, 5, 6, 0, 2, 5, 6],
     [1, 2, 5, 6, 1, 2, 5, 6], [0, 1, 2, 5, 6, 0, 1, 2], [3, 5, 6, 3, 5, 6, 3, 5],
     [0, 3, 5, 6, 0, 3, 5, 6], [1, 3, 5, 6, 1, 3, 5, 6], [0, 1, 3, 5, 6, 0, 1, 3],
     [2, 3, 5, 6, 2, 3, 5, 6], [0, 2, 3, 5, 6, 0, 2, 3], [1, 2, 3, 5, 6, 1, 2, 3],
     [0, 1, 2, 3, 5, 6, 0, 1], [4, 5, 6, 4, 5, 6, 4, 5], [0, 4, 5, 6, 0, 4, 5, 6],
     [1, 4, 5, 6, 1, 4, 5, 6], [0, 1, 4, 5, 6, 0, 1, 4], [2, 4, 5, 6, 2, 4, 5, 6],
     [0, 2, 4, 5, 6, 0, 2, 4], [1, 2, 4, 5, 6, 1, 2, 4], [0, 1, 2, 4, 5, 6, 0, 1],
     [3, 4, 5, 6, 3, 4, 5, 6], [0, 3, 4, 5, 6, 0, 3, 4], [1, 3, 4, 5, 6, 1, 3, 4],
     [0, 1, 3, 4, 5, 6, 0, 1], [2, 3, 4, 5, 6, 2, 3, 4], [0, 2, 3, 4, 5, 6, 0, 2],
     [1, 2, 3, 4, 5, 6, 1, 2], [0, 1, 2, 3, 4, 5, 6, 0], [7, 7, 7, 7, 7, 7, 7, 7],
     [0, 7, 0, 7, 0, 7, 0, 7], [1, 7, 1, 7, 1, 7, 1, 7], [0, 1, 7, 0, 1, 7, 0, 1],
     [2, 7, 2, 7, 2, 7, 2, 7], [0, 2, 7, 0, 2, 7, 0, 2], [1, 2, 7, 1, 2, 7, 1, 2],
     [0, 1, 2, 7, 0, 1, 2, 7], [3, 7, 3, 7, 3, 7, 3, 7], [0, 3, 7, 0, 3, 7, 0, 3],
     [1, 3, 7, 1, 3, 7, 1, 3], [0, 1, 3, 7, 0, 1, 3, 7], [2, 3, 7, 2, 3, 7, 2, 3],
     [0, 2, 3, 7, 0, 2, 3, 7], [1, 2, 3, 7, 1, 2, 3, 7], [0, 1, 2, 3, 7, 0, 1, 2],
     [4, 7, 4, 7, 4, 7, 4, 7], [0, 4, 7, 0, 4, 7, 0, 4], [1, 4, 7, 1, 4, 7, 1, 4],
     [0, 1, 4, 7, 0, 1, 4, 7], [2, 4, 7, 2, 4, 7, 2, 4], [0, 2, 4, 7, 0, 2, 4, 7],
     [1, 2, 4, 7, 1, 2, 4, 7], [0, 1, 2, 4, 7, 0, 1, 2], [3, 4, 7, 3, 4, 7, 3, 4],
     [0, 3, 4, 7, 0, 3, 4, 7], [1, 3, 4, 7, 1, 3, 4, 7], [0, 1, 3, 4, 7, 0, 1, 3],
     [2, 3, 4, 7, 2, 3, 4, 7], [0, 2, 3, 4, 7, 0, 2, 3], [1, 2, 3, 4, 7, 1, 2, 3],
     [0, 1, 2, 3, 4, 7, 0, 1], [5, 7, 5, 7, 5, 7, 5, 7], [0, 5, 7, 0, 5, 7, 0, 5],
     [1, 5, 7, 1, 5, 7, 1, 5], [0, 1, 5, 7, 0, 1, 5, 7], [2, 5, 7, 2, 5, 7, 2, 5],
     [0, 2, 5, 7, 0, 2, 5, 7], [1, 2, 5, 7, 1, 2, 5, 7], [0, 1, 2, 5, 7, 0, 1, 2],
     [3, 5, 7, 3, 5, 7, 3, 5], [0, 3, 5, 7, 0, 3, 5, 7], [1, 3, 5, 7, 1, 3, 5, 7],
     [0, 1, 3, 5, 7, 0, 1, 3], [2, 3, 5, 7, 2, 3, 5, 7], [0, 2, 3, 5, 7, 0, 2, 3],
     [1, 2, 3, 5, 7, 1, 2, 3], [0, 1, 2, 3, 5, 7, 0, 1], [4, 5, 7, 4, 5, 7, 4, 5],
     [0, 4, 5, 7, 0, 4, 5, 7], [1, 4, 5, 7, 1, 4, 5, 7], [0, 1, 4, 5, 7, 0, 1, 4],
     [2, 4, 5, 7, 2, 4, 5, 7], [0, 2, 4, 5, 7, 0, 2, 4], [1, 2, 4, 5, 7, 1, 2, 4],
     [0, 1, 2, 4, 5, 7, 0, 1], [3, 4, 5, 7, 3, 4, 5, 7], [0, 3, 4, 5, 7, 0, 3, 4],
     [1, 3, 4, 5, 7, 1, 3, 4], [0, 1, 3, 4, 5, 7, 0, 1], [2, 3, 4, 5, 7, 2, 3, 4],
     [0, 2, 3, 4, 5, 7, 0, 2], [1, 2, 3, 4, 5, 7, 1, 2], [0, 1, 2, 3, 4, 5, 7, 0],
     [6, 7, 6, 7, 6, 7, 6, 7], [0, 6, 7, 0, 6, 7, 0, 6], [1, 6, 7, 1, 6, 7, 1, 6],
     [0, 1, 6, 7, 0, 1, 6, 7], [2, 6, 7, 2, 6, 7, 2, 6], [0, 2, 6, 7, 0, 2, 6, 7],
     [1, 2, 6, 7, 1, 2, 6, 7], [0, 1, 2, 6, 7, 0, 1, 2], [3, 6, 7, 3, 6, 7, 3, 6],
     [0, 3, 6, 7, 0, 3, 6, 7], [1, 3, 6, 7, 1, 3, 6, 7], [0, 1, 3, 6, 7, 0, 1, 3],
     [2, 3, 6, 7, 2, 3, 6, 7], [0, 2, 3, 6, 7, 0, 2, 3], [1, 2, 3, 6, 7, 1, 2, 3],
     [0, 1, 2, 3, 6, 7, 0, 1], [4, 6, 7, 4, 6, 7, 4, 6], [0, 4, 6, 7, 0, 4, 6, 7],
     [1, 4, 6, 7, 1, 4, 6, 7], [0, 1, 4, 6, 7, 0, 1, 4], [2, 4, 6, 7, 2, 4, 6, 7],
     [0, 2, 4, 6, 7, 0, 2, 4], [1, 2, 4, 6, 7, 1, 2, 4], [0, 1, 2, 4, 6, 7, 0, 1],
     [3, 4, 6, 7, 3, 4, 6, 7], [0, 3, 4, 6, 7, 0, 3, 4], [1, 3, 4, 6, 7, 1, 3, 4],
     [0, 1, 3, 4, 6, 7, 0, 1], [2, 3, 4, 6, 7, 2, 3, 4], [0, 2, 3, 4, 6, 7, 0, 2],
     [1, 2, 3, 4, 6, 7, 1, 2], [0, 1, 2, 3, 4, 6, 7, 0], [5, 6, 7, 5, 6, 7, 5, 6],
     [0, 5, 6, 7, 0, 5, 6, 7], [1, 5, 6, 7, 1, 5, 6, 7], [0, 1, 5, 6, 7, 0, 1, 5],
     [2, 5, 6, 7, 2, 5, 6, 7], [0, 2, 5, 6, 7, 0, 2, 5], [1, 2, 5, 6, 7, 1, 2, 5],
     [0, 1, 2, 5, 6, 7, 0, 1], [3, 5, 6, 7, 3, 5, 6, 7], [0, 3, 5, 6, 7, 0, 3, 5],
     [1, 3, 5, 6, 7, 1, 3, 5], [0, 1, 3, 5, 6, 7, 0, 1], [2, 3, 5, 6, 7, 2, 3, 5],
     [0, 2, 3, 5, 6, 7, 0, 2], [1, 2, 3, 5, 6, 7, 1, 2], [0, 1, 2, 3, 5, 6, 7, 0],
     [4, 5, 6, 7, 4, 5, 6, 7], [0, 4, 5, 6, 7, 0, 4, 5], [1, 4, 5, 6, 7, 1, 4, 5],
     [0, 1, 4, 5, 6, 7, 0, 1], [2, 4, 5, 6, 7, 2, 4, 5], [0, 2, 4, 5, 6, 7, 0, 2],
     [1, 2, 4, 5, 6, 7, 1, 2], [0, 1, 2, 4, 5, 6, 7, 0], [3, 4, 5, 6, 7, 3, 4, 5],
     [0, 3, 4, 5, 6, 7, 0, 3], [1, 3, 4, 5, 6, 7, 1, 3], [0, 1, 3, 4, 5, 6, 7, 0],
     [2, 3, 4, 5, 6, 7, 2, 3], [0, 2, 3, 4, 5, 6, 7, 0], [1, 2, 3, 4, 5, 6, 7, 1],
     [0, 1, 2, 3, 4, 5, 6, 7]]"

definition find_random_set_bit :: "W32 \<Rightarrow> W32 \<Rightarrow> nat" where
  "find_random_set_bit v randsource = bit_indices_set_8bits ! unat (v AND 0xff) ! unat (randsource AND 7)"

subsection \<open>The tables\<close>

definition set_bit_row :: "int \<Rightarrow> nat list" where
  "set_bit_row v =
     (let l = map fst (filter (\<lambda>(i, w). odd (v div w)) [(0, 1), (1, 2), (2, 4), (3, 8), (4, 16), (5, 32), (6, 64), (7, 128)])
      in if l = [] then [0, 0, 0, 0, 0, 0, 0, 0] else take 8 (concat [l, l, l, l, l, l, l, l]))"

lemma bit_indices_rows: "bit_indices_set_8bits = map set_bit_row [0..255]"
  by code_simp

lemma fu_table:
  "map fui_opcode fuinfo = [0..<OP_MAX_OPCODE]"
  by (simp add: fuinfo_def fu_entry_def uop_defs upt_conv_Cons)

lemma fu_masks:
  "list_all (\<lambda>e. 0 < fui_latency e \<and> fui_fu e \<in> {ANYINT OR ANYFPU, ANYINT, ANYALU, ANYALU OR ANYLDU, ANYLDU, ANYSTU,
     FU_STU0, ANYFPU, FU_ALU0}) fuinfo"
  by (simp add: fuinfo_def fu_entry_def LOADLAT_def A_LAT_def)

lemma fu_masks_value:
  "ANYINT OR ANYFPU = 0xff" "ANYINT = 0x5f" "ANYALU = 0x50" "ANYALU OR ANYLDU = 0x55" "ANYLDU = 5" "ANYSTU = 10"
  "FU_STU0 = 2" "ANYFPU = 0xa0" "FU_ALU0 = 16"
  by (simp_all add: uop_defs)

lemma bit_setbit32: "bit (setbit32 x i) j \<longleftrightarrow> bit x j \<or> (j = i \<and> i < 32)"
  by (auto simp: setbit32_def bit_or_iff bit_exp_iff)

lemma bit_clearbit32: "bit (clearbit32 x i) j \<longleftrightarrow> bit x j \<and> j \<noteq> i"
  by (auto simp: clearbit32_def bit_and_iff bit_not_iff bit_exp_iff dest: bit_imp_le_length)

lemma bit_fold_setbit:
  "bit (fold (\<lambda>c m. if P c then setbit32 m c else m) xs w) i \<longleftrightarrow> bit w i \<or> (i \<in> set xs \<and> i < 32 \<and> P i)"
proof (induction xs arbitrary: w)
  case (Cons c xs)
  show ?case unfolding fold.simps comp_apply Cons.IH by (auto simp: bit_setbit32)
qed simp

lemma bit_allowed_clusters:
  "bit (allowed_clusters i) c \<longleftrightarrow> c < MAX_CLUSTERS \<and> cl_fu_mask (clusters ! c) AND fui_fu (fuinfo ! i) \<noteq> 0"
  by (auto simp: allowed_clusters_def bit_fold_setbit MAX_CLUSTERS_def Let_def)

lemma fuinfo_nth:
  assumes "i < OP_MAX_OPCODE"
  shows "fui_opcode (fuinfo ! i) = i" "fuinfo ! i \<in> set fuinfo"
proof -
  have "length fuinfo = OP_MAX_OPCODE" using arg_cong [OF fu_table, of length] by simp
  then show "fui_opcode (fuinfo ! i) = i" "fuinfo ! i \<in> set fuinfo"
    using arg_cong [OF fu_table, of "\<lambda>l. l ! i"] assms by simp_all
qed

lemma some_cluster:
  assumes "i < OP_MAX_OPCODE"
  shows "0 < fui_latency (fuinfo ! i)" "\<exists>c < MAX_CLUSTERS. cl_fu_mask (clusters ! c) AND fui_fu (fuinfo ! i) \<noteq> 0"
proof -
  have m: "0 < fui_latency (fuinfo ! i)" "fui_fu (fuinfo ! i) \<in> {0xff, 0x5f, 0x50, 0x55, 5, 10, 2, 0xa0, 16}"
    using fu_masks fuinfo_nth(2) [OF assms] by (auto simp: list_all_iff fu_masks_value)
  show "0 < fui_latency (fuinfo ! i)" by (rule m(1))
  define hits where "hits c \<longleftrightarrow> cl_fu_mask (clusters ! c) AND fui_fu (fuinfo ! i) \<noteq> 0" for c
  have "hits 0 \<or> hits 2 \<or> hits 3"
    using m(2) unfolding hits_def
    by (auto simp: clusters_def FU_ALU0_def FU_STU0_def FU_LDU0_def FU_LDU1_def FU_FPU0_def FU_FPU1_def)
  moreover have "(0 :: nat) < MAX_CLUSTERS" "2 < MAX_CLUSTERS" "3 < MAX_CLUSTERS" by (simp_all add: MAX_CLUSTERS_def)
  ultimately have "\<exists>c < MAX_CLUSTERS. hits c" by blast
  then show "\<exists>c < MAX_CLUSTERS. cl_fu_mask (clusters ! c) AND fui_fu (fuinfo ! i) \<noteq> 0" by (simp add: hits_def)
qed

lemma bit_executable:
  assumes "i < OP_MAX_OPCODE" "c < MAX_CLUSTERS"
  shows "bit (uop_executable_on_cluster ! i) c \<longleftrightarrow> cl_fu_mask (clusters ! c) AND fui_fu (fuinfo ! i) \<noteq> 0"
  using assms by (simp add: uop_executable_on_cluster_def bit_ucast_iff bit_allowed_clusters MAX_CLUSTERS_def)

text \<open>
  The functional unit table is in step with the opcode enumeration: entry \<open>i\<close> is that of
  opcode \<open>i\<close>, with a latency of at least a cycle. The computed cluster masks name exactly the
  clusters with a unit for the opcode, and there is always one.
\<close>

theorem dispatch_tables:
  assumes "i < OP_MAX_OPCODE"
  shows "fui_opcode (fuinfo ! i) = i \<and> 0 < fui_latency (fuinfo ! i) \<and> uop_executable_on_cluster ! i \<noteq> 0
    \<and> (\<forall>c < MAX_CLUSTERS. bit (uop_executable_on_cluster ! i) c \<longleftrightarrow>
          cl_fu_mask (clusters ! c) AND fui_fu (fuinfo ! i) \<noteq> 0)"
  using fuinfo_nth(1) [OF assms] some_cluster [OF assms] bit_executable [OF assms] by (metis bit_0_eq bot_apply bot_boolE)

theorem dispatch_tables_witness:
  "fui_opcode (fuinfo ! 131) = 131 \<or> fui_opcode (fuinfo ! 53) = 53 \<and> uop_executable_on_cluster ! 53 \<noteq> 0"
  using dispatch_tables [of 53] by (simp add: OP_MAX_OPCODE_def)

text \<open>
  The forwarding table: the result of a producer reaches each cluster in exactly one of
  the cycles 0 to the maximal forwarding latency, and that cycle is the latency between the two
  clusters.
\<close>

theorem forwarding_covers:
  assumes "src < MAX_CLUSTERS" "dest < MAX_CLUSTERS"
  shows "intercluster_latency_map ! src ! dest \<le> MAX_FORWARDING_LATENCY
    \<and> (\<forall>lat \<le> MAX_FORWARDING_LATENCY. bit (forward_at_cycle_lut ! src ! lat) dest \<longleftrightarrow>
         lat = intercluster_latency_map ! src ! dest)"
proof -
  have cases: "src \<in> {0, 1, 2, 3}" "dest \<in> {0, 1, 2, 3}" using assms by (auto simp: MAX_CLUSTERS_def)
  then have "intercluster_latency_map ! src ! dest \<le> 2" by (auto simp: intercluster_latency_map_def)
  then show ?thesis
    using assms by (auto simp: forward_at_cycle_lut_def bit_fold_setbit MAX_CLUSTERS_def MAX_FORWARDING_LATENCY_def)
qed

theorem forwarding_covers_witness:
  "bit (forward_at_cycle_lut ! 0 ! 2) 3 \<and> \<not> bit (forward_at_cycle_lut ! 0 ! 0) 3"
  using forwarding_covers [of 0 3]
  by (auto simp: intercluster_latency_map_def MAX_CLUSTERS_def MAX_FORWARDING_LATENCY_def)

lemma row_bits:
  "list_all (\<lambda>(n, r). length r = 8 \<and> list_all (\<lambda>x. x < 8 \<and> odd (n div 2 ^ x)) r)
     (map (\<lambda>n. (n, set_bit_row n)) [1..255])"
  by code_simp

lemma map_upto_nth: "int k \<le> m \<Longrightarrow> map f [0..m] ! k = f (int k)"
  by (simp add: nth_upto)

lemma find_random_set_bit:
  assumes "v AND 0xff \<noteq> 0"
  shows "find_random_set_bit v r < 8" "bit v (find_random_set_bit v r)"
proof -
  define w where "w = uint (v AND 0xff)"
  have w: "0 < w" "w \<le> 255"
  proof -
    show "0 < w" using assms unfolding w_def by (metis order_le_less uint_0_iff uint_ge_0)
    have "w = uint v AND 255" by (simp add: w_def uint_and)
    then show "w \<le> 255" by (simp add: AND_upper2)
  qed
  define k where "k = unat (r AND 7)"
  have k: "k < 8"
  proof -
    have "uint (r AND 7) \<le> 7" by (simp add: uint_and AND_upper2)
    then show ?thesis unfolding k_def uint_nat by linarith
  qed
  have row: "bit_indices_set_8bits ! unat (v AND 0xff) = set_bit_row w"
    unfolding bit_indices_rows using w(2) by (subst map_upto_nth) (simp_all add: w_def)
  have "length (set_bit_row w) = 8 \<and> list_all (\<lambda>x. x < 8 \<and> odd (w div 2 ^ x)) (set_bit_row w)"
    using row_bits w unfolding list_all_iff set_map set_upto by auto
  then have x: "set_bit_row w ! k < 8" "odd (w div 2 ^ (set_bit_row w ! k))"
    using k by (auto simp: list_all_length)
  have f: "find_random_set_bit v r = set_bit_row w ! k" by (simp add: find_random_set_bit_def row k_def)
  show "find_random_set_bit v r < 8" using x(1) f by simp
  have "bit w (set_bit_row w ! k)" using x(2) bit_iff_odd [of w] by blast
  then have "bit (v AND 0xff) (set_bit_row w ! k)" by (simp only: w_def bit_uint_iff)
  then show "bit v (find_random_set_bit v r)" using f by (simp add: bit_and_iff)
qed

end
