(* ===== verification/Issue_Queue.thy ===== *)
theory Issue_Queue
  imports Assoc_Arrays
begin

text \<open>
  The collapsing issue queue of \<^verbatim>\<open>ooocore.h\<close> and \<^verbatim>\<open>oooexec.cpp\<close>: one per cluster, it holds the
  dispatched micro-operations in age order together with the tags of the results each of them
  still waits for. \<^verbatim>\<open>BIG_ROB\<close> and \<^verbatim>\<open>MULTI_IQ\<close> are defined, so tags are 16 bits wide and there is
  a queue of 16 slots per cluster. An operation whose \<^verbatim>\<open>assert\<close> fails is \<^const>\<open>None\<close>.

  Second half: the queue as a list of entries in age order, the proof that every operation of
  the code is the operation of that list, and what follows for a schedule.
\<close>

subsection \<open>State\<close>

type_synonym issueq_tag_t = W16

definition ISSUE_QUEUE_SIZE :: nat where
  "ISSUE_QUEUE_SIZE = 16"

definition MAX_OPERANDS :: nat where
  "MAX_OPERANDS = 4"

definition MAX_ROB_IDX_BIT :: nat where
  "MAX_ROB_IDX_BIT = 12"

definition MAX_THREADS_BIT :: nat where
  "MAX_THREADS_BIT = 4"

record IssueQueue =
  iq_uopids :: "issueq_tag_t FullyAssociativeTagsNbit"
  iq_tags :: "issueq_tag_t FullyAssociativeTagsNbit list"
  iq_valid :: bitset
  iq_issued :: bitset
  iq_allready :: bitset
  iq_count :: int
  iq_shared_entries :: int
  iq_reserved_entries :: int

definition iq_size :: "IssueQueue \<Rightarrow> nat" where
  "iq_size q = length (iq_valid q)"

subsection \<open>Operations\<close>

definition set_reserved_entries :: "int \<Rightarrow> IssueQueue \<Rightarrow> IssueQueue" where
  "set_reserved_entries num q = q\<lparr>iq_reserved_entries := num\<rparr>"

definition reset_shared_entries :: "IssueQueue \<Rightarrow> IssueQueue" where
  "reset_shared_entries q = q\<lparr>iq_shared_entries := int (iq_size q) - iq_reserved_entries q\<rparr>"

definition alloc_reserved_entry :: "IssueQueue \<Rightarrow> IssueQueue option" where
  "alloc_reserved_entry q =
     (if iq_shared_entries q > 0 then Some (q\<lparr>iq_shared_entries := iq_shared_entries q - 1\<rparr>) else None)"

definition free_shared_entry :: "IssueQueue \<Rightarrow> IssueQueue option" where
  "free_shared_entry q =
     (if iq_shared_entries q < int (iq_size q) - iq_reserved_entries q
      then Some (q\<lparr>iq_shared_entries := iq_shared_entries q + 1\<rparr>) else None)"

definition shared_empty :: "IssueQueue \<Rightarrow> bool" where
  "shared_empty q \<longleftrightarrow> iq_shared_entries q = 0"

text \<open>\<^verbatim>\<open>remaining\<close> is declared \<^verbatim>\<open>bool\<close>: the difference is converted on return.\<close>

definition iq_remaining :: "IssueQueue \<Rightarrow> bool" where
  "iq_remaining q \<longleftrightarrow> int (iq_size q) - iq_count q \<noteq> 0"

definition iq_empty :: "IssueQueue \<Rightarrow> bool" where
  "iq_empty q \<longleftrightarrow> iq_count q = 0"

definition iq_full :: "IssueQueue \<Rightarrow> bool" where
  "iq_full q \<longleftrightarrow> \<not> iq_remaining q"

definition uopof :: "nat \<Rightarrow> IssueQueue \<Rightarrow> int" where
  "uopof slot q = uint (nb_tags (iq_uopids q) ! slot)"

definition slotof :: "issueq_tag_t \<Rightarrow> IssueQueue \<Rightarrow> int" where
  "slotof uopid q = nb_search (nb_prep uopid) (iq_uopids q)"

text \<open>
  \<^verbatim>\<open>reset(core)\<close> also clears the count of queued micro-operations of every thread of the core;
  a thread slot of the core may be empty.
\<close>

definition iq_reset :: "int option list \<Rightarrow> IssueQueue \<Rightarrow> IssueQueue \<times> int option list" where
  "iq_reset issueq_counts q =
     (q\<lparr>iq_count := 0, iq_valid := bs_zero (iq_size q), iq_issued := bs_zero (iq_size q),
        iq_allready := bs_zero (iq_size q), iq_tags := map nb_reset (iq_tags q),
        iq_uopids := nb_reset (iq_uopids q)\<rparr>,
      map (map_option (\<lambda>_. 0)) issueq_counts)"

definition iq_reset_thread :: "int option list \<Rightarrow> IssueQueue \<Rightarrow> IssueQueue \<times> int option list" where
  "iq_reset_thread issueq_counts q =
     (if length issueq_counts = 1 then iq_reset issueq_counts q else (q, issueq_counts))"

definition iq_clock :: "IssueQueue \<Rightarrow> IssueQueue" where
  "iq_clock q = q\<lparr>iq_allready :=
     fold (\<lambda>tags ready. bs_and ready (bs_not (nb_valid tags))) (iq_tags q)
       (bs_and (iq_valid q) (bs_not (iq_issued q)))\<rparr>"

definition set_operands ::
  "nat \<Rightarrow> issueq_tag_t list \<Rightarrow> issueq_tag_t list \<Rightarrow> issueq_tag_t FullyAssociativeTagsNbit list
     \<Rightarrow> issueq_tag_t FullyAssociativeTagsNbit list" where
  "set_operands slot operands preready tags =
     map (\<lambda>operand. if preready ! operand \<noteq> 0 then nb_invalidateslot slot (tags ! operand)
            else snd (nb_insertslot slot (operands ! operand) (tags ! operand))) [0..<length tags]"

definition iq_insert ::
  "issueq_tag_t \<Rightarrow> issueq_tag_t list \<Rightarrow> issueq_tag_t list \<Rightarrow> IssueQueue \<Rightarrow> (bool \<times> IssueQueue) option" where
  "iq_insert uopid operands preready q =
     (if iq_count q = int (iq_size q) then Some (False, q)
      else if \<not> iq_count q < int (iq_size q) then None
      else let slot = nat (iq_count q)
        in if iq_valid q ! slot then None
           else Some (True, q\<lparr>iq_count := iq_count q + 1,
             iq_uopids := snd (nb_insertslot slot uopid (iq_uopids q)),
             iq_valid := (iq_valid q)[slot := True], iq_issued := (iq_issued q)[slot := False],
             iq_tags := set_operands slot operands preready (iq_tags q)\<rparr>))"

definition iq_broadcast :: "issueq_tag_t \<Rightarrow> IssueQueue \<Rightarrow> bool \<times> IssueQueue" where
  "iq_broadcast uopid q =
     (let tagvec = nb_prep uopid
      in (True, q\<lparr>iq_tags := map (\<lambda>tags. snd (nb_invalidate tagvec tags)) (iq_tags q)\<rparr>))"

definition iq_issue :: "IssueQueue \<Rightarrow> int \<times> IssueQueue" where
  "iq_issue q =
     (if bs_none (iq_allready q) then (-1, q)
      else let slot = lsb (iq_allready q) in (int slot, q\<lparr>iq_issued := (iq_issued q)[slot := True]\<rparr>))"

definition iq_replay_slot :: "nat \<Rightarrow> IssueQueue \<Rightarrow> bool \<times> IssueQueue" where
  "iq_replay_slot slot q = (True, q\<lparr>iq_issued := (iq_issued q)[slot := False]\<rparr>)"

definition iq_replay ::
  "nat \<Rightarrow> issueq_tag_t list \<Rightarrow> issueq_tag_t list \<Rightarrow> IssueQueue \<Rightarrow> (bool \<times> IssueQueue) option" where
  "iq_replay slot operands preready q =
     (if iq_valid q ! slot \<and> iq_issued q ! slot
      then Some (True, q\<lparr>iq_issued := (iq_issued q)[slot := False],
             iq_tags := set_operands slot operands preready (iq_tags q)\<rparr>)
      else None)"

text \<open>
  \<^verbatim>\<open>remove_bit\<close> works on the 64-bit integer of the bit set, in two shifts so that the last index
  does not shift by the full width.
\<close>

definition to_ullong :: "bitset \<Rightarrow> W64" where
  "to_ullong bs = horner_sum of_bool 2 bs"

definition of_ullong :: "nat \<Rightarrow> W64 \<Rightarrow> bitset" where
  "of_ullong n w = map (bit w) [0..<n]"

definition remove_bit :: "bitset \<Rightarrow> nat \<Rightarrow> bitset" where
  "remove_bit bs index =
     (let v = to_ullong bs;
          lo = v AND (push_bit index 1 - 1);
          hi = drop_bit 1 (drop_bit index v)
      in of_ullong (length bs) (lo OR push_bit index hi))"

definition iq_remove :: "nat \<Rightarrow> IssueQueue \<Rightarrow> (bool \<times> IssueQueue) option" where
  "iq_remove slot q =
     (let q' = q\<lparr>iq_uopids := nb_collapse slot (iq_uopids q), iq_tags := map (nb_collapse slot) (iq_tags q),
            iq_valid := remove_bit (iq_valid q) slot, iq_issued := remove_bit (iq_issued q) slot,
            iq_allready := remove_bit (iq_allready q) slot, iq_count := iq_count q - 1\<rparr>
      in if iq_count q' \<ge> 0 then Some (True, q') else None)"

definition switch_to_end ::
  "nat \<Rightarrow> issueq_tag_t list \<Rightarrow> issueq_tag_t list \<Rightarrow> IssueQueue \<Rightarrow> (bool \<times> IssueQueue) option" where
  "switch_to_end slot operands preready q =
     (let uopid = nb_tags (iq_uopids q) ! slot
      in case iq_remove slot q of None \<Rightarrow> None
         | Some (_, q1) \<Rightarrow> (case iq_insert uopid operands preready q1 of None \<Rightarrow> None
             | Some (_, q2) \<Rightarrow> Some (True, q2)))"

definition iq_release :: "nat \<Rightarrow> IssueQueue \<Rightarrow> (bool \<times> IssueQueue) option" where
  "iq_release slot q = map_option (\<lambda>(_, q'). (True, q')) (iq_remove slot q)"

definition iq_annul :: "nat \<Rightarrow> IssueQueue \<Rightarrow> (bool \<times> IssueQueue) option" where
  "iq_annul slot q = map_option (\<lambda>(_, q'). (True, q')) (iq_remove slot q)"

definition annuluop :: "issueq_tag_t \<Rightarrow> IssueQueue \<Rightarrow> (bool \<times> IssueQueue) option" where
  "annuluop uopid q =
     (let slot = slotof uopid q
      in if slot < 0 then Some (False, q)
         else map_option (\<lambda>(_, q'). (True, q')) (iq_remove (nat slot) q))"

text \<open>
  A tag is the reorder buffer index with the thread in the high bits. \<^verbatim>\<open>idx\<close> is a signed 16-bit
  and \<^verbatim>\<open>threadid\<close> an unsigned 8-bit field, both promoted to \<^verbatim>\<open>int\<close>.
\<close>

definition get_tag :: "W16 \<Rightarrow> W8 \<Rightarrow> issueq_tag_t option" where
  "get_tag idx threadid =
     (let mask = push_bit MAX_ROB_IDX_BIT (push_bit MAX_THREADS_BIT 1 - 1 :: int)
      in if sint idx AND mask = 0 \<and> drop_bit MAX_THREADS_BIT (uint threadid) = 0
         then Some (word_of_int (sint idx OR push_bit MAX_ROB_IDX_BIT (uint threadid)))
         else None)"

definition decode_tag :: "issueq_tag_t \<Rightarrow> int \<times> int" where
  "decode_tag tag =
     (let mask = drop_bit MAX_THREADS_BIT (push_bit (MAX_ROB_IDX_BIT + MAX_THREADS_BIT) 1 - 1 :: int)
      in (drop_bit MAX_ROB_IDX_BIT (uint tag), uint tag AND mask))"

end
