(* ===== verification/Issue_Order.thy ===== *)
theory Issue_Order
  imports Issue_Queue
begin

text \<open>
  What the collapsing queue promises: it is a list of entries in the order of insertion. Each
  entry has the tags it still waits for, whether it has issued, and whether it was ready at the
  last clock. The parallel arrays and bit sets of \<^verbatim>\<open>IssueQueue\<close> implement the list operations
  below on every sequence of operations, and no assertion of the code fails except that of a
  replay of an entry that has not issued.
\<close>

subsection \<open>Slots of a tag array\<close>

definition nb_ok :: "nat \<Rightarrow> 'a::len word FullyAssociativeTagsNbit \<Rightarrow> bool" where
  "nb_ok n t \<longleftrightarrow> nb_size t = n \<and> n \<le> length (nb_tags t)"

definition nb_slot :: "'a::len word FullyAssociativeTagsNbit \<Rightarrow> nat \<Rightarrow> 'a word option" where
  "nb_slot t i = (if nb_valid t ! i then Some (nb_tags t ! i) else None)"

lemma nb_ok_ops [tag_simps]:
  "nb_ok n t \<Longrightarrow> nb_ok n (snd (nb_insertslot slot v t))"
  "nb_ok n t \<Longrightarrow> nb_ok n (nb_invalidateslot slot t)"
  "nb_ok n t \<Longrightarrow> nb_ok n (snd (nb_invalidate target t))"
  "nb_ok n t \<Longrightarrow> nb_ok n (nb_reset t)"
  by (simp_all add: nb_ok_def nb_size_def nb_insertslot_def nb_invalidateslot_def nb_invalidate_def
      nb_invalidatemask_def nb_match_def nb_reset_def)

lemma nb_ok_collapse [tag_simps]: "nb_ok n t \<Longrightarrow> slot < n \<Longrightarrow> nb_ok n (nb_collapse slot t)"
  by (simp add: nb_ok_def nb_collapse_deletes) (auto simp: nb_size_def)

lemma nb_slot_insertslot [tag_simps]:
  "nb_ok n t \<Longrightarrow> slot < n \<Longrightarrow>
     nb_slot (snd (nb_insertslot slot v t)) i = (if i = slot then Some v else nb_slot t i)"
  by (auto simp: nb_ok_def nb_slot_def nb_insertslot_def nb_size_def)

lemma nb_slot_invalidateslot [tag_simps]:
  "nb_ok n t \<Longrightarrow> slot < n \<Longrightarrow> nb_slot (nb_invalidateslot slot t) i = (if i = slot then None else nb_slot t i)"
  by (auto simp: nb_ok_def nb_slot_def nb_invalidateslot_def nb_size_def)

lemma nb_slot_invalidate [tag_simps]:
  fixes t :: "issueq_tag_t FullyAssociativeTagsNbit"
  assumes "nb_ok n t" "i < n"
  shows "nb_slot (snd (nb_invalidate (nb_prep v) t)) i = (if nb_slot t i = Some v then None else nb_slot t i)"
proof -
  have "nb_match (nb_prep v) t ! i \<longleftrightarrow> nb_valid t ! i \<and> nb_tags t ! i = v"
    using assms by (intro nb_match_nth) (auto simp: nb_ok_def)
  moreover have "length (nb_match (nb_prep v) t) = n"
    using assms by (simp add: nb_match_def nb_ok_def nb_size_def)
  ultimately show ?thesis
    using assms by (auto simp: nb_slot_def nb_invalidate_def nb_invalidatemask_def nb_ok_def nb_size_def)
qed

lemma nb_slot_collapse [tag_simps]:
  assumes "nb_ok n t" "slot < n" "i < n"
  shows "nb_slot (nb_collapse slot t) i =
    (if i = n - 1 then None else if i < slot then nb_slot t i else nb_slot t (Suc i))"
  using assms by (auto simp: nb_ok_def nb_collapse_deletes nb_slot_def nth_append nb_size_def min_def)

lemma nb_slot_reset [tag_simps]: "nb_ok n t \<Longrightarrow> i < n \<Longrightarrow> nb_slot (nb_reset t) i = None"
  by (simp add: nb_ok_def nb_slot_def nb_reset_def nb_size_def)

subsection \<open>Removing a bit\<close>

lemma bit_to_ullong: "length bs \<le> 64 \<Longrightarrow> bit (to_ullong bs) i \<longleftrightarrow> i < length bs \<and> bs ! i"
  by (simp add: to_ullong_def bit_horner_sum_bit_word_iff)

lemma remove_bit_deletes:
  assumes "length bs \<le> 64" "index < length bs"
  shows "remove_bit bs index = take index bs @ drop (Suc index) bs @ [False]"
proof (rule nth_equalityI)
  show "length (remove_bit bs index) = length (take index bs @ drop (Suc index) bs @ [False])"
    using assms by (simp add: remove_bit_def of_ullong_def Let_def)
next
  fix i assume "i < length (remove_bit bs index)"
  then have i: "i < length bs" "i < 64" using assms by (auto simp: remove_bit_def of_ullong_def Let_def)
  have "remove_bit bs index ! i \<longleftrightarrow>
      (if i < index then bs ! i else Suc i < length bs \<and> bs ! Suc i)"
    using i assms
    by (auto simp: remove_bit_def of_ullong_def Let_def bit_or_iff bit_and_iff bit_push_bit_iff
        bit_drop_bit_eq bit_to_ullong mask_eq_exp_minus_1 [symmetric] bit_mask_iff)
  then show "remove_bit bs index ! i = (take index bs @ drop (Suc index) bs @ [False]) ! i"
    using i assms by (auto simp: nth_append min_def nth_Cons')
qed

lemma length_remove_bit [simp]: "length (remove_bit bs index) = length bs"
  by (simp add: remove_bit_def of_ullong_def Let_def)

lemma remove_bit_nth:
  assumes "length bs \<le> 64" "index < length bs" "i < length bs"
  shows "remove_bit bs index ! i \<longleftrightarrow> (if i < index then bs ! i else Suc i < length bs \<and> bs ! Suc i)"
  using assms by (auto simp: remove_bit_deletes nth_append min_def nth_Cons')

subsection \<open>The queue as a list\<close>

record iq_entry =
  ie_uop :: issueq_tag_t
  ie_waits :: "issueq_tag_t option list"
  ie_issued :: bool
  ie_ready :: bool

definition iq_entry_at :: "IssueQueue \<Rightarrow> nat \<Rightarrow> iq_entry" where
  "iq_entry_at q i = \<lparr>ie_uop = nb_tags (iq_uopids q) ! i, ie_waits = map (\<lambda>t. nb_slot t i) (iq_tags q),
     ie_issued = iq_issued q ! i, ie_ready = iq_allready q ! i\<rparr>"

definition iq_entries :: "IssueQueue \<Rightarrow> iq_entry list" where
  "iq_entries q = map (iq_entry_at q) [0..<nat (iq_count q)]"

definition slot_free :: "IssueQueue \<Rightarrow> nat \<Rightarrow> bool" where
  "slot_free q i \<longleftrightarrow> \<not> iq_valid q ! i \<and> \<not> iq_issued q ! i \<and> \<not> iq_allready q ! i
     \<and> nb_slot (iq_uopids q) i = None \<and> (\<forall>t \<in> set (iq_tags q). nb_slot t i = None)"

definition iq_shape :: "nat \<Rightarrow> nat \<Rightarrow> IssueQueue \<Rightarrow> bool" where
  "iq_shape n k q \<longleftrightarrow> 0 < n \<and> n \<le> 64 \<and> iq_size q = n \<and> length (iq_issued q) = n
     \<and> length (iq_allready q) = n \<and> nb_ok n (iq_uopids q) \<and> length (iq_tags q) = k
     \<and> (\<forall>t \<in> set (iq_tags q). nb_ok n t)"

definition iq_ok :: "nat \<Rightarrow> nat \<Rightarrow> IssueQueue \<Rightarrow> bool" where
  "iq_ok n k q \<longleftrightarrow> iq_shape n k q \<and> 0 \<le> iq_count q \<and> iq_count q \<le> int n
     \<and> (\<forall>i < n. if int i < iq_count q then iq_valid q ! i \<and> nb_valid (iq_uopids q) ! i else slot_free q i)"

lemma iq_okD:
  assumes "iq_ok n k q"
  shows "iq_shape n k q" "0 \<le> iq_count q" "iq_count q \<le> int n"
    "\<And>i. int i < iq_count q \<Longrightarrow> iq_valid q ! i \<and> nb_valid (iq_uopids q) ! i"
    "\<And>i. i < n \<Longrightarrow> iq_count q \<le> int i \<Longrightarrow> slot_free q i"
  using assms by (auto simp: iq_ok_def split: if_splits)

lemma iq_okI:
  assumes "iq_shape n k q"
    "\<And>i. i < n \<Longrightarrow> if int i < iq_count q then iq_valid q ! i \<and> nb_valid (iq_uopids q) ! i else slot_free q i"
    "0 \<le> iq_count q" "iq_count q \<le> int n"
  shows "iq_ok n k q"
  using assms by (simp add: iq_ok_def)

lemma length_entries: "iq_ok n k q \<Longrightarrow> int (length (iq_entries q)) = iq_count q"
  by (simp add: iq_ok_def iq_entries_def)

lemma entries_nth: "i < nat (iq_count q) \<Longrightarrow> iq_entries q ! i = iq_entry_at q i"
  by (simp add: iq_entries_def)

lemma entries_eqI:
  assumes "nat (iq_count q) = length es" "\<And>i. i < length es \<Longrightarrow> iq_entry_at q i = es ! i"
  shows "iq_entries q = es"
  using assms by (auto simp: iq_entries_def intro: nth_equalityI)

subsection \<open>The operations of the list\<close>

definition operand_waits :: "nat \<Rightarrow> issueq_tag_t list \<Rightarrow> issueq_tag_t list \<Rightarrow> issueq_tag_t option list" where
  "operand_waits k operands preready =
     map (\<lambda>i. if preready ! i \<noteq> 0 then None else Some (operands ! i)) [0..<k]"

definition al_clock :: "iq_entry list \<Rightarrow> iq_entry list" where
  "al_clock = map (\<lambda>e. e\<lparr>ie_ready := \<not> ie_issued e \<and> list_all (\<lambda>w. w = None) (ie_waits e)\<rparr>)"

definition al_insert ::
  "nat \<Rightarrow> issueq_tag_t \<Rightarrow> issueq_tag_t option list \<Rightarrow> iq_entry list \<Rightarrow> bool \<times> iq_entry list" where
  "al_insert n uopid waits es =
     (if length es = n then (False, es)
      else (True, es @ [\<lparr>ie_uop = uopid, ie_waits = waits, ie_issued = False, ie_ready = False\<rparr>]))"

definition al_broadcast :: "issueq_tag_t \<Rightarrow> iq_entry list \<Rightarrow> iq_entry list" where
  "al_broadcast uopid =
     map (\<lambda>e. e\<lparr>ie_waits := map (\<lambda>w. if w = Some uopid then None else w) (ie_waits e)\<rparr>)"

definition al_issue :: "iq_entry list \<Rightarrow> int \<times> iq_entry list" where
  "al_issue es =
     (let slot = length (takeWhile (Not \<circ> ie_ready) es)
      in if slot = length es then (-1, es) else (int slot, es[slot := (es ! slot)\<lparr>ie_issued := True\<rparr>]))"

definition al_remove :: "nat \<Rightarrow> iq_entry list \<Rightarrow> iq_entry list" where
  "al_remove slot es = take slot es @ drop (Suc slot) es"

definition al_slotof :: "issueq_tag_t \<Rightarrow> iq_entry list \<Rightarrow> int" where
  "al_slotof uopid es =
     (let slot = length (takeWhile (\<lambda>e. ie_uop e \<noteq> uopid) es)
      in if slot = length es then -1 else int slot)"

subsection \<open>One step of the queue and of the list\<close>

text \<open>
  The slot operations are called with a slot the queue has handed out since the last removal;
  with any other slot the step is \<open>Illegal\<close> and does nothing. \<open>Failed\<close> is a failed assertion.
\<close>

datatype iq_op =
    Clock
  | Insert issueq_tag_t "issueq_tag_t list" "issueq_tag_t list"
  | Broadcast issueq_tag_t
  | Issue
  | ReplaySlot nat
  | Replay nat "issueq_tag_t list" "issueq_tag_t list"
  | SwitchToEnd nat "issueq_tag_t list" "issueq_tag_t list"
  | Release nat
  | Annul nat
  | AnnulUop issueq_tag_t
  | Reset

datatype iq_out = Done | Flag bool | Slot int | Failed | Illegal

definition checked :: "'q \<Rightarrow> (bool \<times> 'q) option \<Rightarrow> iq_out \<times> 'q" where
  "checked q r = (case r of None \<Rightarrow> (Failed, q) | Some (b, q') \<Rightarrow> (Flag b, q'))"

definition legal :: "int \<Rightarrow> nat \<Rightarrow> 'q \<Rightarrow> iq_out \<times> 'q \<Rightarrow> iq_out \<times> 'q" where
  "legal count slot q r = (if int slot < count then r else (Illegal, q))"

fun iq_exec :: "iq_op \<Rightarrow> IssueQueue \<Rightarrow> iq_out \<times> IssueQueue" where
  "iq_exec Clock q = (Done, iq_clock q)"
| "iq_exec (Insert u ops pre) q = checked q (iq_insert u ops pre q)"
| "iq_exec (Broadcast u) q = (case iq_broadcast u q of (b, q') \<Rightarrow> (Flag b, q'))"
| "iq_exec Issue q = (case iq_issue q of (i, q') \<Rightarrow> (Slot i, q'))"
| "iq_exec (ReplaySlot slot) q =
     legal (iq_count q) slot q (case iq_replay_slot slot q of (b, q') \<Rightarrow> (Flag b, q'))"
| "iq_exec (Replay slot ops pre) q = legal (iq_count q) slot q (checked q (iq_replay slot ops pre q))"
| "iq_exec (SwitchToEnd slot ops pre) q =
     legal (iq_count q) slot q (checked q (switch_to_end slot ops pre q))"
| "iq_exec (Release slot) q = legal (iq_count q) slot q (checked q (iq_release slot q))"
| "iq_exec (Annul slot) q = legal (iq_count q) slot q (checked q (iq_annul slot q))"
| "iq_exec (AnnulUop u) q = checked q (annuluop u q)"
| "iq_exec Reset q = (Done, fst (iq_reset [] q))"

fun al_exec :: "nat \<Rightarrow> nat \<Rightarrow> iq_op \<Rightarrow> iq_entry list \<Rightarrow> iq_out \<times> iq_entry list" where
  "al_exec n k Clock es = (Done, al_clock es)"
| "al_exec n k (Insert u ops pre) es =
     (case al_insert n u (operand_waits k ops pre) es of (b, es') \<Rightarrow> (Flag b, es'))"
| "al_exec n k (Broadcast u) es = (Flag True, al_broadcast u es)"
| "al_exec n k Issue es = (case al_issue es of (i, es') \<Rightarrow> (Slot i, es'))"
| "al_exec n k (ReplaySlot slot) es =
     legal (int (length es)) slot es (Flag True, es[slot := (es ! slot)\<lparr>ie_issued := False\<rparr>])"
| "al_exec n k (Replay slot ops pre) es =
     legal (int (length es)) slot es (if ie_issued (es ! slot)
       then (Flag True, es[slot := (es ! slot)\<lparr>ie_issued := False, ie_waits := operand_waits k ops pre\<rparr>])
       else (Failed, es))"
| "al_exec n k (SwitchToEnd slot ops pre) es =
     legal (int (length es)) slot es
       (Flag True, snd (al_insert n (ie_uop (es ! slot)) (operand_waits k ops pre) (al_remove slot es)))"
| "al_exec n k (Release slot) es = legal (int (length es)) slot es (Flag True, al_remove slot es)"
| "al_exec n k (Annul slot) es = legal (int (length es)) slot es (Flag True, al_remove slot es)"
| "al_exec n k (AnnulUop u) es =
     (let slot = al_slotof u es
      in if slot < 0 then (Flag False, es) else (Flag True, al_remove (nat slot) es))"
| "al_exec n k Reset es = (Done, [])"

subsection \<open>Each operation implements its list operation\<close>

lemma set_operands_spec:
  assumes "\<forall>t \<in> set tags. nb_ok n t" "slot < n"
  shows "length (set_operands slot ops pre tags) = length tags"
    "\<forall>t \<in> set (set_operands slot ops pre tags). nb_ok n t"
    "map (\<lambda>t. nb_slot t i) (set_operands slot ops pre tags) =
       (if i = slot then operand_waits (length tags) ops pre else map (\<lambda>t. nb_slot t i) tags)"
proof -
  have ok: "nb_ok n (tags ! x)" if "x < length tags" for x using assms(1) that by simp
  show "length (set_operands slot ops pre tags) = length tags" by (simp add: set_operands_def)
  show "\<forall>t \<in> set (set_operands slot ops pre tags). nb_ok n t"
    using ok by (auto simp: set_operands_def tag_simps)
  show "map (\<lambda>t. nb_slot t i) (set_operands slot ops pre tags) =
       (if i = slot then operand_waits (length tags) ops pre else map (\<lambda>t. nb_slot t i) tags)"
    using nb_slot_invalidateslot [OF ok assms(2)] nb_slot_insertslot [OF ok assms(2)]
    by (auto simp: set_operands_def operand_waits_def intro!: nth_equalityI)
qed

lemma clock_length:
  "length bs = n \<Longrightarrow> \<forall>t \<in> set tags. nb_ok n t \<Longrightarrow>
     length (fold (\<lambda>tags ready. bs_and ready (bs_not (nb_valid tags))) tags bs) = n"
  by (induction tags arbitrary: bs) (auto simp: nb_ok_def nb_size_def)

lemma clock_bits:
  assumes "length bs = n" "\<forall>t \<in> set tags. nb_ok n t" "i < n"
  shows "fold (\<lambda>tags ready. bs_and ready (bs_not (nb_valid tags))) tags bs ! i \<longleftrightarrow>
      bs ! i \<and> list_all (\<lambda>w. w = None) (map (\<lambda>t. nb_slot t i) tags)"
  using assms
  by (induction tags arbitrary: bs) (auto simp: nb_ok_def nb_size_def nb_slot_def)

lemma clock_refines:
  assumes "iq_ok n k q"
  shows "iq_ok n k (iq_clock q)" "iq_entries (iq_clock q) = al_clock (iq_entries q)"
proof -
  note sh = iq_okD [OF assms]
  define bs where "bs = bs_and (iq_valid q) (bs_not (iq_issued q))"
  have bs: "length bs = n" "i < n \<Longrightarrow> bs ! i \<longleftrightarrow> iq_valid q ! i \<and> \<not> iq_issued q ! i" for i
    using sh(1) by (auto simp: bs_def iq_shape_def iq_size_def)
  have all: "\<forall>t \<in> set (iq_tags q). nb_ok n t" using sh(1) by (simp add: iq_shape_def)
  note cb = clock_bits [OF bs(1) all] clock_length [OF bs(1) all]
  show "iq_ok n k (iq_clock q)"
    using sh cb bs by (auto simp: iq_ok_def iq_clock_def iq_shape_def iq_size_def slot_free_def bs_def [symmetric])
  show "iq_entries (iq_clock q) = al_clock (iq_entries q)"
  proof (rule entries_eqI)
    show "nat (iq_count (iq_clock q)) = length (al_clock (iq_entries q))"
      using length_entries [OF assms] by (simp add: al_clock_def iq_clock_def)
  next
    fix i assume "i < length (al_clock (iq_entries q))"
    then have i: "int i < iq_count q" "i < n" "i < length (iq_entries q)"
      using length_entries [OF assms] sh(3) by (auto simp: al_clock_def)
    have e: "iq_entries q ! i = iq_entry_at q i" using i(1) by (intro entries_nth) auto
    show "iq_entry_at (iq_clock q) i = al_clock (iq_entries q) ! i"
      using i sh(4) [OF i(1)] cb(1) [OF i(2)] bs(2) [OF i(2)]
      by (simp add: al_clock_def e iq_entry_at_def iq_clock_def bs_def [symmetric])
  qed
qed

lemma insert_refines:
  assumes "iq_ok n k q"
  obtains b q' where "iq_insert u opnds pre q = Some (b, q')" "iq_ok n k q'"
    "al_insert n u (operand_waits k opnds pre) (iq_entries q) = (b, iq_entries q')"
proof (cases "iq_count q = int n")
  case True
  then show ?thesis
    using that [of False q] assms length_entries [OF assms] by (simp add: iq_insert_def al_insert_def iq_ok_def iq_shape_def)
next
  case False
  note sh = iq_okD [OF assms]
  define c where "c = nat (iq_count q)"
  have c: "iq_count q = int c" "c < n" using sh(2,3) False by (auto simp: c_def)
  have free: "slot_free q c" using sh(5) [of c] c by simp
  have n: "iq_size q = n" "length (iq_tags q) = k" "\<forall>t \<in> set (iq_tags q). nb_ok n t" "nb_ok n (iq_uopids q)"
    using sh(1) by (simp_all add: iq_shape_def)
  note so = set_operands_spec [OF n(3) c(2)]
  have so3: "nb_slot t i = None" if "t \<in> set (set_operands c opnds pre (iq_tags q))" "i < n" "c < i" for t i
  proof -
    have "slot_free q i" using sh(5) [of i] c that by simp
    then have "map (\<lambda>t. nb_slot t i) (iq_tags q) = replicate (length (iq_tags q)) None"
      by (auto simp: slot_free_def intro!: nth_equalityI)
    then have "map (\<lambda>t. nb_slot t i) (set_operands c opnds pre (iq_tags q)) = replicate (length (iq_tags q)) None"
      using so(3) [of i] that by simp
    then have "set (map (\<lambda>t. nb_slot t i) (set_operands c opnds pre (iq_tags q))) \<subseteq> {None}" by (simp add: set_replicate_conv_if)
    then show ?thesis using that(1) by auto
  qed
  define q' where "q' = q\<lparr>iq_count := iq_count q + 1, iq_uopids := snd (nb_insertslot c u (iq_uopids q)),
     iq_valid := (iq_valid q)[c := True], iq_issued := (iq_issued q)[c := False],
     iq_tags := set_operands c opnds pre (iq_tags q)\<rparr>"
  have "iq_insert u opnds pre q = Some (True, q')"
    using c n free by (simp add: iq_insert_def q'_def slot_free_def Let_def)
  moreover have "iq_ok n k q'"
  proof -
    have shape: "iq_shape n k q'" using sh(1) so n by (simp add: iq_shape_def q'_def iq_size_def tag_simps)
    have up: "nb_valid (snd (nb_insertslot c u (iq_uopids q))) ! i \<longleftrightarrow> i = c \<or> nb_valid (iq_uopids q) ! i" if "i < n" for i
      using n(4) c(2) that by (auto simp: nb_insertslot_def nb_ok_def nb_size_def)
    have one: "if int i < iq_count q' then iq_valid q' ! i \<and> nb_valid (iq_uopids q') ! i else slot_free q' i" if "i < n" for i
      using that c sh(1) sh(4) [of i] sh(5) [of i] up [OF that] so3 n(4)
      by (auto simp: q'_def iq_shape_def iq_size_def slot_free_def tag_simps)
    show ?thesis by (rule iq_okI [OF shape one]) (use c in \<open>simp_all add: q'_def\<close>)
  qed
  moreover have "al_insert n u (operand_waits k opnds pre) (iq_entries q) = (True, iq_entries q')"
  proof -
    let ?new = "\<lparr>ie_uop = u, ie_waits = operand_waits k opnds pre, ie_issued = False, ie_ready = False\<rparr>"
    have len: "length (iq_entries q) = c" using length_entries [OF assms] c by simp
    have "iq_entries q' = iq_entries q @ [?new]"
    proof (rule entries_eqI)
      fix i assume "i < length (iq_entries q @ [?new])"
      then have i: "i \<le> c" using len by simp
      have t: "map (\<lambda>t. nb_slot t i) (set_operands c opnds pre (iq_tags q)) =
          (if i = c then operand_waits k opnds pre else map (\<lambda>t. nb_slot t i) (iq_tags q))"
        using so(3) [of i] n by simp
      have tg: "nb_tags (snd (nb_insertslot c u (iq_uopids q))) ! i = (if i = c then u else nb_tags (iq_uopids q) ! i)"
        using n(4) c(2) i by (auto simp: nb_insertslot_def nb_ok_def)
      show "iq_entry_at q' i = (iq_entries q @ [?new]) ! i"
      proof (cases "i = c")
        case True
        then show ?thesis using t tg c n sh(1) free len by (simp add: iq_entry_at_def q'_def iq_shape_def slot_free_def nth_append)
      next
        case False
        then have "i < c" using i by simp
        then have "iq_entries q ! i = iq_entry_at q i" using c by (intro entries_nth) simp
        then show ?thesis using \<open>i < c\<close> t tg c n sh(1) len by (simp add: iq_entry_at_def q'_def iq_shape_def nth_append)
      qed
    qed (use c len in \<open>simp add: q'_def\<close>)
    then show ?thesis using len c by (simp add: al_insert_def)
  qed
  ultimately show ?thesis using that by blast
qed

lemma broadcast_refines:
  assumes "iq_ok n k q"
  obtains q' where "iq_broadcast u q = (True, q')" "iq_ok n k q'" "iq_entries q' = al_broadcast u (iq_entries q)"
proof -
  note sh = iq_okD [OF assms]
  define q' where "q' = q\<lparr>iq_tags := map (\<lambda>tags. snd (nb_invalidate (nb_prep u) tags)) (iq_tags q)\<rparr>"
  have all: "nb_ok n t" if "t \<in> set (iq_tags q)" for t using sh(1) that by (simp add: iq_shape_def)
  have slot: "nb_slot (snd (nb_invalidate (nb_prep u) t)) i = (if nb_slot t i = Some u then None else nb_slot t i)"
    if "t \<in> set (iq_tags q)" "i < n" for t i using nb_slot_invalidate [OF all] that by blast
  have "iq_shape n k q'" using sh(1) by (auto simp: iq_shape_def q'_def iq_size_def tag_simps)
  moreover have "if int i < iq_count q' then iq_valid q' ! i \<and> nb_valid (iq_uopids q') ! i else slot_free q' i"
    if "i < n" for i
    using sh(4) [of i] sh(5) [of i] that slot by (auto simp: q'_def slot_free_def)
  ultimately have ok: "iq_ok n k q'" by (rule iq_okI) (use sh(2,3) in \<open>simp_all add: q'_def\<close>)
  have "iq_entries q' = al_broadcast u (iq_entries q)"
  proof (rule entries_eqI)
    show "nat (iq_count q') = length (al_broadcast u (iq_entries q))"
      using length_entries [OF assms] by (simp add: al_broadcast_def q'_def)
  next
    fix i assume "i < length (al_broadcast u (iq_entries q))"
    then have i: "i < length (iq_entries q)" "i < n" "i < nat (iq_count q)"
      using length_entries [OF assms] sh(3) by (auto simp: al_broadcast_def)
    show "iq_entry_at q' i = al_broadcast u (iq_entries q) ! i"
      using i(1) slot [OF _ i(2)] by (simp add: al_broadcast_def entries_nth [OF i(3)] iq_entry_at_def q'_def comp_def)
  qed
  then show ?thesis using that [of q'] ok by (simp add: iq_broadcast_def q'_def)
qed

lemma update_entry:
  assumes "iq_ok n k q" "int slot < iq_count q" "iq_ok n k q'" "iq_count q' = iq_count q"
    and "iq_entry_at q' slot = e" "\<And>i. i \<noteq> slot \<Longrightarrow> i < n \<Longrightarrow> iq_entry_at q' i = iq_entry_at q i"
  shows "iq_entries q' = (iq_entries q)[slot := e]"
proof (rule entries_eqI)
  show "nat (iq_count q') = length ((iq_entries q)[slot := e])"
    using length_entries [OF assms(1)] assms(4) by simp
next
  fix i assume "i < length ((iq_entries q)[slot := e])"
  then have i: "i < nat (iq_count q)" "i < n" "slot < length (iq_entries q)" "i < length (iq_entries q)"
    using length_entries [OF assms(1)] iq_okD(3) [OF assms(1)] assms(2) by auto
  then show "iq_entry_at q' i = (iq_entries q)[slot := e] ! i"
    using assms(5,6) entries_nth [OF i(1)] by (cases "slot = i") simp_all
qed

lemma issued_update:
  assumes "iq_ok n k q" "int slot < iq_count q" "\<forall>t \<in> set tags. nb_ok n t" "length tags = k"
    and "\<And>t i. t \<in> set tags \<Longrightarrow> i < n \<Longrightarrow> iq_count q \<le> int i \<Longrightarrow> nb_slot t i = None"
    and "\<And>i. i \<noteq> slot \<Longrightarrow> map (\<lambda>t. nb_slot t i) tags = map (\<lambda>t. nb_slot t i) (iq_tags q)"
    and "q' = q\<lparr>iq_issued := (iq_issued q)[slot := b], iq_tags := tags\<rparr>"
  shows "iq_ok n k q'"
    "iq_entries q' = (iq_entries q)[slot := (iq_entries q ! slot)
       \<lparr>ie_issued := b, ie_waits := map (\<lambda>t. nb_slot t slot) tags\<rparr>]"
proof -
  note sh = iq_okD [OF assms(1)]
  have n: "slot < n" "length (iq_issued q) = n" using assms(2) sh(1,3) by (auto simp: iq_shape_def)
  have "iq_shape n k q'" using sh(1) assms(3,4) by (auto simp: iq_shape_def assms(7) iq_size_def)
  moreover have "if int i < iq_count q' then iq_valid q' ! i \<and> nb_valid (iq_uopids q') ! i else slot_free q' i"
    if "i < n" for i
    using sh(4) [of i] sh(5) [of i] that assms(2,5) n by (auto simp: assms(7) slot_free_def)
  ultimately show ok: "iq_ok n k q'" by (rule iq_okI) (use sh(2,3) in \<open>simp_all add: assms(7)\<close>)
  have e: "iq_entries q ! slot = iq_entry_at q slot" using assms(2) by (intro entries_nth) simp
  show "iq_entries q' = (iq_entries q)[slot := (iq_entries q ! slot)
       \<lparr>ie_issued := b, ie_waits := map (\<lambda>t. nb_slot t slot) tags\<rparr>]"
  proof (rule update_entry [OF assms(1,2) ok])
    fix i assume "i \<noteq> slot" "i < n"
    then show "iq_entry_at q' i = iq_entry_at q i" using assms(6) [of i] n by (simp add: iq_entry_at_def assms(7))
  qed (use n in \<open>simp_all add: assms(7) e iq_entry_at_def\<close>)
qed

lemma waits_at: "int i < iq_count q \<Longrightarrow> map (\<lambda>t. nb_slot t i) (iq_tags q) = ie_waits (iq_entries q ! i)"
  by (simp add: entries_nth iq_entry_at_def)

lemma issue_refines:
  assumes "iq_ok n k q"
  obtains i q' where "iq_issue q = (i, q')" "iq_ok n k q'" "al_issue (iq_entries q) = (i, iq_entries q')"
proof -
  note sh = iq_okD [OF assms]
  let ?es = "iq_entries q" and ?r = "iq_allready q"
  have len: "int (length ?es) = iq_count q" "length ?r = n" using length_entries [OF assms] sh(1) by (simp_all add: iq_shape_def)
  have low: "int i < iq_count q" if "i < n" "?r ! i" for i using sh(5) [of i] that by (fastforce simp: slot_free_def not_less)
  have rdy: "ie_ready (?es ! i) \<longleftrightarrow> ?r ! i" if "i < length ?es" for i
    using that len by (simp add: entries_nth iq_entry_at_def)
  define k' where "k' = length (takeWhile (Not \<circ> ie_ready) ?es)"
  have k_pre: "\<not> ?r ! i" if "i < k'" for i
    using that set_takeWhileD [of "?es ! i" "Not \<circ> ie_ready" ?es] nth_mem [of i "takeWhile (Not \<circ> ie_ready) ?es"]
      length_takeWhile_le [of "Not \<circ> ie_ready" ?es] rdy [of i] by (auto simp: k'_def takeWhile_nth)
  show ?thesis
  proof (cases "k' = length ?es")
    case True
    then have "bs_none ?r" using low len k_pre by (auto simp: bs_none_iff) (metis len(1) of_nat_less_iff)
    then show ?thesis using that [of "-1" q] assms True by (simp add: iq_issue_def al_issue_def k'_def [symmetric] Let_def)
  next
    case False
    then have k: "k' < length ?es" using length_takeWhile_le [of "Not \<circ> ie_ready" ?es] by (simp add: k'_def)
    then have kr: "?r ! k'" using nth_length_takeWhile [of "Not \<circ> ie_ready" ?es] rdy [OF k] by (simp add: k'_def)
    have kn: "k' < n" using k len(1) sh(3) by simp
    have any: "\<not> bs_none ?r" using kr kn len by (auto simp: bs_none_iff)
    have lsb: "lsb ?r = k'"
      using lsb_set [OF any] lsb_below [OF any, of k'] k_pre [of "lsb ?r"] kr by (meson linorder_neqE_nat)
    have kc: "int k' < iq_count q" using k len(1) by simp
    define q' where "q' = q\<lparr>iq_issued := (iq_issued q)[k' := True], iq_tags := iq_tags q\<rparr>"
    have free: "nb_slot t i = None" if "t \<in> set (iq_tags q)" "i < n" "iq_count q \<le> int i" for t i
      using sh(5) [OF that(2,3)] that(1) by (simp add: slot_free_def)
    have "iq_ok n k q'" "iq_entries q' = ?es[k' := (?es ! k')\<lparr>ie_issued := True, ie_waits := ie_waits (?es ! k')\<rparr>]"
      using issued_update [OF assms kc _ _ free _ q'_def] sh(1) waits_at [OF kc] by (auto simp: iq_shape_def)
    moreover have "iq_issue q = (int k', q')" using any lsb by (simp add: iq_issue_def q'_def)
    moreover have "al_issue ?es = (int k', ?es[k' := (?es ! k')\<lparr>ie_issued := True\<rparr>])"
      using False by (simp add: al_issue_def k'_def [symmetric] Let_def)
    ultimately show ?thesis using that by simp
  qed
qed

lemma free_slots:
  assumes "iq_ok n k q" "t \<in> set (iq_tags q)" "i < n" "iq_count q \<le> int i"
  shows "nb_slot t i = None"
  using iq_okD(5) [OF assms(1,3,4)] assms(2) by (simp add: slot_free_def)

lemma replay_slot_refines:
  assumes "iq_ok n k q" "int slot < iq_count q"
  obtains q' where "iq_replay_slot slot q = (True, q')" "iq_ok n k q'"
    "iq_entries q' = (iq_entries q)[slot := (iq_entries q ! slot)\<lparr>ie_issued := False\<rparr>]"
proof -
  define q' where "q' = q\<lparr>iq_issued := (iq_issued q)[slot := False], iq_tags := iq_tags q\<rparr>"
  have "iq_ok n k q'" "iq_entries q' = (iq_entries q)[slot := (iq_entries q ! slot)
     \<lparr>ie_issued := False, ie_waits := ie_waits (iq_entries q ! slot)\<rparr>]"
    using issued_update [OF assms _ _ free_slots [OF assms(1)] _ q'_def] iq_okD(1) [OF assms(1)] waits_at [OF assms(2)]
    by (auto simp: iq_shape_def)
  then show ?thesis using that [of q'] by (simp add: iq_replay_slot_def q'_def)
qed

lemma replay_refines:
  assumes "iq_ok n k q" "int slot < iq_count q" "ie_issued (iq_entries q ! slot)"
  obtains q' where "iq_replay slot opnds pre q = Some (True, q')" "iq_ok n k q'"
    "iq_entries q' = (iq_entries q)[slot := (iq_entries q ! slot)
       \<lparr>ie_issued := False, ie_waits := operand_waits k opnds pre\<rparr>]"
proof -
  note sh = iq_okD [OF assms(1)]
  let ?t = "set_operands slot opnds pre (iq_tags q)"
  have n: "slot < n" "length (iq_tags q) = k" "\<forall>t \<in> set (iq_tags q). nb_ok n t"
    using sh(1,3) assms(2) by (simp_all add: iq_shape_def)
  note so = set_operands_spec [OF n(3,1), where ops = opnds and pre = pre]
  define q' where "q' = q\<lparr>iq_issued := (iq_issued q)[slot := False], iq_tags := ?t\<rparr>"
  have free: "nb_slot t i = None" if "t \<in> set ?t" "i < n" "iq_count q \<le> int i" for t i
  proof -
    have "i \<noteq> slot" using that(3) assms(2) by simp
    then have "nb_slot t i \<in> set (map (\<lambda>t. nb_slot t i) (iq_tags q))"
      using that(1) so(3) [of i] by (metis image_eqI set_map)
    then show ?thesis using free_slots [OF assms(1) _ that(2,3)] by auto
  qed
  have "iq_ok n k q'" "iq_entries q' = (iq_entries q)[slot := (iq_entries q ! slot)
      \<lparr>ie_issued := False, ie_waits := operand_waits k opnds pre\<rparr>]"
    using issued_update [OF assms(1,2) so(2) _ free _ q'_def] so(1,3) n(2) by simp_all
  moreover have "iq_valid q ! slot" "iq_issued q ! slot"
    using sh(4) [OF assms(2)] assms(2,3) by (auto simp: entries_nth iq_entry_at_def)
  ultimately show ?thesis using that [of q'] by (simp add: iq_replay_def q'_def)
qed

lemma replay_unissued:
  assumes "int slot < iq_count q" "\<not> ie_issued (iq_entries q ! slot)"
  shows "iq_replay slot opnds pre q = None"
  using assms by (auto simp: iq_replay_def entries_nth iq_entry_at_def)

lemma remove_refines:
  assumes "iq_ok n k q" "int slot < iq_count q"
  obtains q' where "iq_remove slot q = Some (True, q')" "iq_ok n k q'"
    "iq_entries q' = al_remove slot (iq_entries q)"
proof -
  note sh = iq_okD [OF assms(1)]
  have slot: "slot < n" using sh(3) assms(2) by simp
  have len: "length (iq_valid q) = n" "length (iq_issued q) = n" "length (iq_allready q) = n" "n \<le> 64" "0 < n"
    using sh(1) by (simp_all add: iq_shape_def iq_size_def)
  have up: "nb_ok n (iq_uopids q)" and tg: "\<And>t. t \<in> set (iq_tags q) \<Longrightarrow> nb_ok n t"
    using sh(1) by (simp_all add: iq_shape_def)
  define q' where "q' = q\<lparr>iq_uopids := nb_collapse slot (iq_uopids q), iq_tags := map (nb_collapse slot) (iq_tags q),
      iq_valid := remove_bit (iq_valid q) slot, iq_issued := remove_bit (iq_issued q) slot,
      iq_allready := remove_bit (iq_allready q) slot, iq_count := iq_count q - 1\<rparr>"
  have rb: "remove_bit bs slot ! i \<longleftrightarrow> (if i < slot then bs ! i else Suc i < n \<and> bs ! Suc i)"
    if "length bs = n" "i < n" for bs i using remove_bit_nth [of bs slot i] that len slot by simp
  have sl: "nb_slot (nb_collapse slot t) i = (if i = n - 1 then None else if i < slot then nb_slot t i else nb_slot t (Suc i))"
    if "t \<in> set (iq_tags q)" "i < n" for t i using nb_slot_collapse [OF tg [OF that(1)] slot that(2)] .
  have su: "nb_slot (nb_collapse slot (iq_uopids q)) i =
      (if i = n - 1 then None else if i < slot then nb_slot (iq_uopids q) i else nb_slot (iq_uopids q) (Suc i))"
    if "i < n" for i using nb_slot_collapse [OF up slot that] .
  have ut: "nb_tags (nb_collapse slot (iq_uopids q)) ! i = nb_tags (iq_uopids q) ! (if i < slot then i else Suc i)"
      "nb_valid (nb_collapse slot (iq_uopids q)) ! i = nb_valid (iq_uopids q) ! (if i < slot then i else Suc i)"
    if "i < n - 1" for i
    using that up slot by (auto simp: nb_ok_def nb_collapse_deletes nth_append min_def nb_size_def)
  have "iq_shape n k q'" using sh(1) tg slot by (auto simp: iq_shape_def q'_def iq_size_def tag_simps)
  moreover have "if int i < iq_count q' then iq_valid q' ! i \<and> nb_valid (iq_uopids q') ! i else slot_free q' i"
    if i: "i < n" for i
  proof (cases "int i < iq_count q'")
    case True
    then have "i < n - 1" using sh(3) by (simp add: q'_def)
    then show ?thesis using True sh(4) [of i] sh(4) [of "Suc i"] rb [OF len(1) i] ut(2) [of i] by (auto simp: q'_def)
  next
    case False
    then have "slot \<le> i" "iq_count q \<le> int (Suc i)" using assms(2) by (auto simp: q'_def)
    then show ?thesis
      using False i sh(5) [of "Suc i"] rb [OF len(1) i] rb [OF len(2) i] rb [OF len(3) i] sl [OF _ i] su [OF i]
      by (auto simp: q'_def slot_free_def)
  qed
  ultimately have ok: "iq_ok n k q'" by (rule iq_okI) (use sh(2,3) assms(2) in \<open>simp_all add: q'_def\<close>)
  have "iq_entries q' = al_remove slot (iq_entries q)"
  proof (rule entries_eqI)
    show "nat (iq_count q') = length (al_remove slot (iq_entries q))"
      using length_entries [OF assms(1)] assms(2) by (auto simp: al_remove_def q'_def)
  next
    fix i assume "i < length (al_remove slot (iq_entries q))"
    then have i: "int i < iq_count q - 1" "Suc i < n" using length_entries [OF assms(1)] assms(2) sh(3) by (auto simp: al_remove_def)
    let ?j = "if i < slot then i else Suc i"
    have j: "al_remove slot (iq_entries q) ! i = iq_entry_at q ?j"
      using i length_entries [OF assms(1)] assms(2)
      by (auto simp: al_remove_def nth_append min_def entries_nth)
    have map: "map (\<lambda>t. nb_slot (nb_collapse slot t) i) (iq_tags q) = map (\<lambda>t. nb_slot t ?j) (iq_tags q)"
      using sl [of _ i] i by auto
    have "i < n" "i < n - 1" using i by auto
    then show "iq_entry_at q' i = al_remove slot (iq_entries q) ! i"
      unfolding j using rb [OF len(2), of i] rb [OF len(3), of i] ut(1) [of i] map i
      by (simp add: iq_entry_at_def q'_def comp_def split del: if_split) (simp split: if_split)
  qed
  then show ?thesis using that [of q'] ok sh(2) assms(2) by (simp add: iq_remove_def q'_def Let_def)
qed

lemma entry_uop: "int i < iq_count q \<Longrightarrow> nb_tags (iq_uopids q) ! i = ie_uop (iq_entries q ! i)"
  by (simp add: entries_nth iq_entry_at_def)

lemma switch_to_end_refines:
  assumes "iq_ok n k q" "int slot < iq_count q"
  obtains q' where "switch_to_end slot opnds pre q = Some (True, q')" "iq_ok n k q'"
    "iq_entries q' = snd (al_insert n (ie_uop (iq_entries q ! slot)) (operand_waits k opnds pre)
       (al_remove slot (iq_entries q)))"
proof -
  obtain q1 where q1: "iq_remove slot q = Some (True, q1)" "iq_ok n k q1" "iq_entries q1 = al_remove slot (iq_entries q)"
    by (rule remove_refines [OF assms])
  obtain b q2 where q2: "iq_insert (ie_uop (iq_entries q ! slot)) opnds pre q1 = Some (b, q2)" "iq_ok n k q2"
      "al_insert n (ie_uop (iq_entries q ! slot)) (operand_waits k opnds pre) (iq_entries q1) = (b, iq_entries q2)"
    by (rule insert_refines [OF q1(2)])
  then show ?thesis using that [of q2] q1 entry_uop [OF assms(2)] by (simp add: switch_to_end_def Let_def)
qed

lemma slotof_entries:
  assumes "iq_ok n k q"
  shows "slotof u q = al_slotof u (iq_entries q)"
proof -
  note sh = iq_okD [OF assms]
  let ?es = "iq_entries q" and ?m = "nb_match (nb_prep u) (iq_uopids q)"
  have up: "nb_size (iq_uopids q) = n" "n \<le> length (nb_tags (iq_uopids q))"
    using sh(1) by (simp_all add: iq_shape_def nb_ok_def)
  have len: "length ?m = n" "int (length ?es) = iq_count q"
    using up length_entries [OF assms] by (simp_all add: nb_match_def nb_size_def)
  have m: "?m ! i \<longleftrightarrow> i < length ?es \<and> ie_uop (?es ! i) = u" if "i < n" for i
  proof -
    have "?m ! i \<longleftrightarrow> nb_valid (iq_uopids q) ! i \<and> nb_tags (iq_uopids q) ! i = u"
      using that up by (intro nb_match_nth) auto
    then show ?thesis
      using sh(4) [of i] sh(5) [OF that] len(2) entry_uop [of i q]
      by (cases "int i < iq_count q") (auto simp: slot_free_def nb_slot_def split: if_splits)
  qed
  define j where "j = length (takeWhile (\<lambda>e. ie_uop e \<noteq> u) ?es)"
  have pre: "ie_uop (?es ! i) \<noteq> u" if "i < j" for i
    using that nth_mem [of i "takeWhile (\<lambda>e. ie_uop e \<noteq> u) ?es"] set_takeWhileD
    by (fastforce simp: j_def takeWhile_nth)
  show ?thesis
  proof (cases "j = length ?es")
    case True
    then have "bs_none ?m" using m pre len by (auto simp: bs_none_iff)
    then show ?thesis using True by (simp add: slotof_def nb_search_def al_slotof_def j_def [symmetric] Let_def)
  next
    case False
    then have j: "j < length ?es" using length_takeWhile_le [of "\<lambda>e. ie_uop e \<noteq> u" ?es] by (simp add: j_def)
    then have "j < n" using len(2) sh(3) by simp
    moreover have "ie_uop (?es ! j) = u" using nth_length_takeWhile [of "\<lambda>e. ie_uop e \<noteq> u" ?es] j by (simp add: j_def)
    ultimately have any: "\<not> bs_none ?m" and mj: "?m ! j" using m [of j] j len by (auto simp: bs_none_iff)
    have "lsb ?m < n" using lsb_less [OF any] len by simp
    then have "lsb ?m = j"
      using lsb_set [OF any] lsb_below [OF any, of j] mj pre [of "lsb ?m"] m by (meson linorder_neqE_nat)
    then show ?thesis using any False by (simp add: slotof_def nb_search_def al_slotof_def j_def [symmetric] Let_def)
  qed
qed

lemma al_slotof_less: "0 \<le> al_slotof u es \<Longrightarrow> al_slotof u es < int (length es)"
  using length_takeWhile_le [of "\<lambda>e. ie_uop e \<noteq> u" es]
  by (auto simp: al_slotof_def Let_def split: if_splits)

lemma annuluop_refines:
  assumes "iq_ok n k q" "al_slotof u (iq_entries q) \<ge> 0"
  obtains q' where "annuluop u q = Some (True, q')" "iq_ok n k q'"
    "iq_entries q' = al_remove (nat (al_slotof u (iq_entries q))) (iq_entries q)"
proof -
  have "int (nat (al_slotof u (iq_entries q))) < iq_count q"
    using al_slotof_less [OF assms(2)] length_entries [OF assms(1)] assms(2) by simp
  then obtain q' where "iq_remove (nat (al_slotof u (iq_entries q))) q = Some (True, q')" "iq_ok n k q'"
      "iq_entries q' = al_remove (nat (al_slotof u (iq_entries q))) (iq_entries q)"
    by (rule remove_refines [OF assms(1)])
  then show ?thesis using that [of q'] assms(2) slotof_entries [OF assms(1)] by (simp add: annuluop_def Let_def)
qed

lemma reset_refines:
  assumes "iq_shape n k q"
  shows "iq_ok n k (fst (iq_reset cs q))" "iq_entries (fst (iq_reset cs q)) = []"
proof -
  let ?q = "fst (iq_reset cs q)"
  have "iq_shape n k ?q" using assms by (auto simp: iq_shape_def iq_reset_def iq_size_def tag_simps)
  moreover have "nb_slot (nb_reset t) i = None" if "t \<in> set (iq_tags q) \<or> t = iq_uopids q" "i < n" for t i
    using assms that nb_slot_reset [of n t i] by (auto simp: iq_shape_def)
  ultimately show "iq_ok n k ?q"
    using assms by (intro iq_okI) (auto simp: slot_free_def iq_reset_def iq_shape_def iq_size_def)
  show "iq_entries ?q = []" by (simp add: iq_entries_def iq_reset_def)
qed

subsection \<open>The queue is the list\<close>

lemma release_step:
  assumes "iq_ok n k q" "r = map_option (\<lambda>(_, q'). (True, q')) (iq_remove slot q)"
  shows "iq_ok n k (snd (legal (iq_count q) slot q (checked q r)))"
    "legal (int (length (iq_entries q))) slot (iq_entries q) (Flag True, al_remove slot (iq_entries q)) =
       map_prod id iq_entries (legal (iq_count q) slot q (checked q r))"
proof -
  note len = length_entries [OF assms(1)]
  have "iq_ok n k (snd (legal (iq_count q) slot q (checked q r))) \<and>
    legal (int (length (iq_entries q))) slot (iq_entries q) (Flag True, al_remove slot (iq_entries q)) =
       map_prod id iq_entries (legal (iq_count q) slot q (checked q r))"
  proof (cases "int slot < iq_count q")
    case True
    obtain q' where "iq_remove slot q = Some (True, q')" "iq_ok n k q'"
        "iq_entries q' = al_remove slot (iq_entries q)"
      by (rule remove_refines [OF assms(1) True])
    then show ?thesis using True len by (simp add: legal_def checked_def assms(2))
  qed (use assms(1) len in \<open>simp add: legal_def\<close>)
  then show "iq_ok n k (snd (legal (iq_count q) slot q (checked q r)))"
    "legal (int (length (iq_entries q))) slot (iq_entries q) (Flag True, al_remove slot (iq_entries q)) =
       map_prod id iq_entries (legal (iq_count q) slot q (checked q r))" by simp_all
qed

lemma exec_refines:
  assumes "iq_ok n k q"
  shows "iq_ok n k (snd (iq_exec opn q))"
    and "al_exec n k opn (iq_entries q) = map_prod id iq_entries (iq_exec opn q)"
proof -
  note len = length_entries [OF assms]
  have "iq_ok n k (snd (iq_exec opn q)) \<and> al_exec n k opn (iq_entries q) = map_prod id iq_entries (iq_exec opn q)"
  proof (cases opn)
    case Clock
    then show ?thesis using clock_refines [OF assms] by simp
  next
    case (Insert u opnds pre)
    obtain b q' where "iq_insert u opnds pre q = Some (b, q')" "iq_ok n k q'"
        "al_insert n u (operand_waits k opnds pre) (iq_entries q) = (b, iq_entries q')"
      by (rule insert_refines [OF assms])
    then show ?thesis using Insert by (simp add: checked_def)
  next
    case (Broadcast u)
    obtain q' where "iq_broadcast u q = (True, q')" "iq_ok n k q'" "iq_entries q' = al_broadcast u (iq_entries q)"
      by (rule broadcast_refines [OF assms])
    then show ?thesis using Broadcast by simp
  next
    case Issue
    obtain i q' where "iq_issue q = (i, q')" "iq_ok n k q'" "al_issue (iq_entries q) = (i, iq_entries q')"
      by (rule issue_refines [OF assms])
    then show ?thesis using Issue by simp
  next
    case (ReplaySlot slot)
    show ?thesis
    proof (cases "int slot < iq_count q")
      case True
      obtain q' where "iq_replay_slot slot q = (True, q')" "iq_ok n k q'"
          "iq_entries q' = (iq_entries q)[slot := (iq_entries q ! slot)\<lparr>ie_issued := False\<rparr>]"
        by (rule replay_slot_refines [OF assms True])
      then show ?thesis using ReplaySlot True len by (simp add: legal_def)
    qed (use ReplaySlot assms len in \<open>simp add: legal_def\<close>)
  next
    case (Replay slot opnds pre)
    show ?thesis
    proof (cases "int slot < iq_count q \<and> ie_issued (iq_entries q ! slot)")
      case True
      then obtain q' where "iq_replay slot opnds pre q = Some (True, q')" "iq_ok n k q'"
          "iq_entries q' = (iq_entries q)[slot := (iq_entries q ! slot)
             \<lparr>ie_issued := False, ie_waits := operand_waits k opnds pre\<rparr>]"
        using replay_refines [OF assms] by metis
      then show ?thesis using Replay True len by (simp add: legal_def checked_def)
    next
      case False
      then show ?thesis using Replay replay_unissued [of slot q opnds pre] assms len
        by (auto simp: legal_def checked_def)
    qed
  next
    case (SwitchToEnd slot opnds pre)
    show ?thesis
    proof (cases "int slot < iq_count q")
      case True
      obtain q' where "switch_to_end slot opnds pre q = Some (True, q')" "iq_ok n k q'"
          "iq_entries q' = snd (al_insert n (ie_uop (iq_entries q ! slot)) (operand_waits k opnds pre)
             (al_remove slot (iq_entries q)))"
        by (rule switch_to_end_refines [OF assms True])
      then show ?thesis using SwitchToEnd True len by (simp add: legal_def checked_def)
    qed (use SwitchToEnd assms len in \<open>simp add: legal_def\<close>)
  next
    case (Release slot)
    then show ?thesis using release_step [OF assms, where slot = slot and r = "iq_release slot q"] assms by (simp add: iq_release_def)
  next
    case (Annul slot)
    then show ?thesis using release_step [OF assms, where slot = slot and r = "iq_annul slot q"] assms by (simp add: iq_annul_def)
  next
    case (AnnulUop u)
    show ?thesis
    proof (cases "al_slotof u (iq_entries q) < 0")
      case False
      then have "0 \<le> al_slotof u (iq_entries q)" by simp
      then obtain q' where "annuluop u q = Some (True, q')" "iq_ok n k q'"
          "iq_entries q' = al_remove (nat (al_slotof u (iq_entries q))) (iq_entries q)"
        by (rule annuluop_refines [OF assms])
      then show ?thesis using AnnulUop False by (simp add: checked_def Let_def)
    qed (use AnnulUop assms slotof_entries [OF assms, of u] in \<open>simp add: checked_def annuluop_def Let_def\<close>)
  next
    case Reset
    then show ?thesis using reset_refines [OF iq_okD(1) [OF assms], of "[]"] by simp
  qed
  then show "iq_ok n k (snd (iq_exec opn q))"
    "al_exec n k opn (iq_entries q) = map_prod id iq_entries (iq_exec opn q)" by simp_all
qed

interpretation issueq: simulation iq_exec "al_exec n k" iq_entries "iq_ok n k" for n k
proof unfold_locales
  fix s s' and opn and out assume "iq_ok n k s" and st: "iq_exec opn s = (out, s')"
  from exec_refines [OF this(1), of opn] show "iq_ok n k s'" "al_exec n k opn (iq_entries s) = (out, iq_entries s')"
    unfolding st by simp_all
qed

text \<open>
  Claim C16. From any state in which the parallel arrays agree (a reset gives one), every sequence of
  operations on the issue queue has the outcomes of the same operations on the list of entries
  in age order, and leaves the queue holding that list. The list operations fail no assertion
  but that of a replay, so neither do those of the code.
\<close>

theorem issue_queue_refines_list:
  assumes "iq_shape n k q"
  shows "run (al_exec n k) ops [] = map_prod id iq_entries (run iq_exec ops (fst (iq_reset cs q)))"
proof -
  have "iq_ok n k (fst (iq_reset cs q))" "iq_entries (fst (iq_reset cs q)) = []"
    using reset_refines [OF assms] by simp_all
  then show ?thesis using issueq.run_sim [of n k "fst (iq_reset cs q)" ops] by simp
qed

definition empty_tags :: "nat \<Rightarrow> issueq_tag_t FullyAssociativeTagsNbit" where
  "empty_tags n = \<lparr>nb_tags = replicate n (-1), nb_valid = replicate n False\<rparr>"

definition empty_queue :: "nat \<Rightarrow> nat \<Rightarrow> IssueQueue" where
  "empty_queue n k = \<lparr>iq_uopids = empty_tags n, iq_tags = replicate k (empty_tags n),
     iq_valid = replicate n False, iq_issued = replicate n False, iq_allready = replicate n False,
     iq_count = 0, iq_shared_entries = 0, iq_reserved_entries = 0\<rparr>"

lemma empty_queue_shape: "0 < n \<Longrightarrow> n \<le> 64 \<Longrightarrow> iq_shape n k (empty_queue n k)"
  by (simp add: iq_shape_def empty_queue_def empty_tags_def iq_size_def nb_ok_def nb_size_def)

theorem issue_queue_refines_list_witness:
  "map_prod id iq_entries (run iq_exec
       [Insert 3 [9, 0] [0, 1], Insert 4 [0, 0] [1, 1], Clock, Issue, Release 1, Broadcast 9, Clock, Issue]
       (fst (iq_reset [] (empty_queue 4 2)))) =
     ([Flag True, Flag True, Done, Slot 1, Flag True, Flag True, Done, Slot 0],
      [\<lparr>ie_uop = 3, ie_waits = [None, None], ie_issued = True, ie_ready = True\<rparr>])"
proof -
  let ?ops = "[Insert 3 [9, 0] [0, 1], Insert 4 [0, 0] [1, 1], Clock, Issue, Release 1, Broadcast 9, Clock, Issue]"
  have "run (al_exec 4 2) ?ops [] =
     ([Flag True, Flag True, Done, Slot 1, Flag True, Flag True, Done, Slot 0],
      [\<lparr>ie_uop = 3, ie_waits = [None, None], ie_issued = True, ie_ready = True\<rparr>])"
    by (simp add: al_insert_def operand_waits_def al_clock_def al_issue_def al_broadcast_def al_remove_def
        legal_def upt_conv_Cons)
  then show ?thesis using issue_queue_refines_list [OF empty_queue_shape, of 4 2 ?ops "[]"] by simp
qed

subsection \<open>Only ready entries issue, the oldest first\<close>

definition waits_done :: "iq_entry \<Rightarrow> bool" where
  "waits_done e \<longleftrightarrow> list_all (\<lambda>w. w = None) (ie_waits e)"

definition ready_sound :: "iq_entry list \<Rightarrow> bool" where
  "ready_sound es \<longleftrightarrow> (\<forall>e \<in> set es. ie_ready e \<longrightarrow> waits_done e)"

fun is_replay :: "iq_op \<Rightarrow> bool" where
  "is_replay (Replay _ _ _) \<longleftrightarrow> True"
| "is_replay _ \<longleftrightarrow> False"

lemma ready_sound_update:
  "ready_sound es \<Longrightarrow> slot < length es \<Longrightarrow> ie_ready e = ie_ready (es ! slot) \<Longrightarrow>
     ie_waits e = ie_waits (es ! slot) \<Longrightarrow> ready_sound (es[slot := e])"
  by (auto simp: ready_sound_def waits_done_def dest!: set_update_subset_insert [THEN subsetD] nth_mem)

lemma ready_sound_remove: "ready_sound es \<Longrightarrow> ready_sound (al_remove slot es)"
  by (auto simp: ready_sound_def al_remove_def dest: in_set_takeD in_set_dropD)

lemma ready_sound_insert: "ready_sound es \<Longrightarrow> ready_sound (snd (al_insert n u w es))"
  by (auto simp: ready_sound_def al_insert_def)

lemma waits_done_broadcast:
  "waits_done e \<Longrightarrow> waits_done (e\<lparr>ie_waits := map (\<lambda>w. if w = Some u then None else w) (ie_waits e)\<rparr>)"
  by (simp add: waits_done_def list.pred_map comp_def) (auto elim: list.pred_mono_strong)

lemma ready_sound_step:
  assumes "ready_sound es" "\<not> is_replay opn"
  shows "ready_sound (snd (al_exec n k opn es))"
proof (cases opn)
  case Clock
  then show ?thesis by (auto simp: ready_sound_def waits_done_def al_clock_def)
next
  case (Broadcast u)
  then show ?thesis using assms(1) waits_done_broadcast by (auto simp: ready_sound_def al_broadcast_def)
next
  case Issue
  have "length (takeWhile (Not \<circ> ie_ready) es) < length es"
    if "length (takeWhile (Not \<circ> ie_ready) es) \<noteq> length es"
    using that length_takeWhile_le [of "Not \<circ> ie_ready" es] by simp
  then show ?thesis using Issue assms(1) by (auto simp: al_issue_def Let_def intro: ready_sound_update)
next
  case (ReplaySlot slot)
  then show ?thesis using assms(1) by (auto simp: legal_def intro: ready_sound_update)
next
  case (AnnulUop u)
  then show ?thesis using assms(1) ready_sound_remove by (simp add: Let_def)
next
  case (Insert u opnds pre)
  then show ?thesis using ready_sound_insert [OF assms(1), of n u "operand_waits k opnds pre"]
    by (simp add: split_beta)
next
  case Reset
  then show ?thesis by (simp add: ready_sound_def)
qed (use assms ready_sound_remove ready_sound_insert in \<open>auto simp: legal_def\<close>)

lemma ready_sound_run:
  "ready_sound es \<Longrightarrow> \<forall>opn \<in> set ops. \<not> is_replay opn \<Longrightarrow> ready_sound (snd (run (al_exec n k) ops es))"
proof (induction ops arbitrary: es)
  case (Cons opn ops)
  then have "ready_sound (snd (run (al_exec n k) ops (snd (al_exec n k opn es))))"
    using ready_sound_step by simp
  then show ?case by (simp add: Let_def split_beta)
qed simp

text \<open>
  Claim C39. Between two clocks, as long as no entry is replayed with new operands, every slot that
  \<^verbatim>\<open>issue\<close> selects holds an entry all of whose operands have been broadcast, and every older
  entry was not ready at the clock.
\<close>

theorem issue_only_ready:
  assumes "iq_ok n k q" "\<forall>opn \<in> set ops. \<not> is_replay opn"
    and "q1 = snd (run iq_exec (Clock # ops) q)" "iq_issue q1 = (i, q2)" "0 \<le> i"
  shows "waits_done (iq_entries q1 ! nat i) \<and> ie_ready (iq_entries q1 ! nat i)
    \<and> (\<forall>j < nat i. \<not> ie_ready (iq_entries q1 ! j))"
proof -
  let ?es = "iq_entries q1"
  have q1: "iq_ok n k q1" unfolding assms(3) by (rule issueq.run_inv [OF assms(1)])
  have "ready_sound (snd (run (al_exec n k) (Clock # ops) (iq_entries q)))"
    using assms(2) ready_sound_run [of "al_clock (iq_entries q)" ops n k]
    by (auto simp: ready_sound_def waits_done_def al_clock_def Let_def split_beta)
  then have sound: "ready_sound ?es" using issueq.run_sim [OF assms(1), of "Clock # ops"] assms(3) by simp
  have "al_issue ?es = (i, iq_entries q2)" using issue_refines [OF q1] assms(4) by (metis prod.inject)
  then have i: "nat i = length (takeWhile (Not \<circ> ie_ready) ?es)" "nat i < length ?es"
    using assms(5) length_takeWhile_le [of "Not \<circ> ie_ready" ?es] by (auto simp: al_issue_def Let_def split: if_splits)
  have "ie_ready (?es ! nat i)" using nth_length_takeWhile [of "Not \<circ> ie_ready" ?es] i by simp
  moreover have "\<not> ie_ready (?es ! j)" if "j < nat i" for j
    using that i(1) nth_mem [of j "takeWhile (Not \<circ> ie_ready) ?es"] set_takeWhileD
    by (fastforce simp: takeWhile_nth)
  ultimately show ?thesis using sound i(2) by (auto simp: ready_sound_def)
qed

theorem issue_only_ready_witness:
  "\<exists>q1 q2. snd (run iq_exec [Clock, Insert 8 [0, 0] [1, 1]] (snd (run iq_exec [Insert 3 [9, 0] [0, 1], Insert 4 [0, 0] [1, 1]]
       (fst (iq_reset [] (empty_queue 4 2)))))) = q1 \<and> iq_issue q1 = (1, q2) \<and> waits_done (iq_entries q1 ! 1)"
proof -
  let ?start = "fst (iq_reset [] (empty_queue 4 2))"
  let ?q = "snd (run iq_exec [Insert 3 [9, 0] [0, 1], Insert 4 [0, 0] [1, 1]] ?start)"
  define q1 where "q1 = snd (run iq_exec [Clock, Insert 8 [0, 0] [1, 1]] ?q)"
  have ok0: "iq_ok 4 2 ?start" by (rule reset_refines(1) [OF empty_queue_shape]) simp_all
  have ok: "iq_ok 4 2 ?q" by (rule issueq.run_inv [OF ok0])
  have "fst (iq_issue q1) = 1" unfolding q1_def by code_simp
  then obtain q2 where q2: "iq_issue q1 = (1, q2)" by (metis prod.collapse)
  have "waits_done (iq_entries q1 ! nat 1)"
    using issue_only_ready [OF ok, of "[Insert 8 [0, 0] [1, 1]]" q1 1 q2] q1_def q2 by simp
  then show ?thesis using q1_def q2 by auto
qed

subsection \<open>Tags and shared entries\<close>

text \<open>A tag decodes to the thread and the reorder buffer index it was made of.\<close>

lemma get_tag_decode:
  assumes "get_tag idx threadid = Some tag"
  shows "decode_tag tag = (uint threadid, sint idx) \<and> 0 \<le> sint idx \<and> sint idx < 4096"
proof -
  have m: "push_bit MAX_ROB_IDX_BIT (push_bit MAX_THREADS_BIT 1 - 1 :: int) = 0xf000"
    by (simp add: MAX_ROB_IDX_BIT_def MAX_THREADS_BIT_def push_bit_eq_mult)
  have a: "sint idx AND 0xf000 = 0" and t: "drop_bit 4 (uint threadid) = 0"
    and tag: "tag = word_of_int (sint idx OR push_bit 12 (uint threadid))"
    using assms unfolding get_tag_def Let_def m
    by (auto simp: MAX_THREADS_BIT_def MAX_ROB_IDX_BIT_def split: if_splits)
  have "uint threadid div 16 = 0" using t by (simp add: drop_bit_eq_div)
  then have t16: "0 \<le> uint threadid" "uint threadid < 16" using uint_ge_0 [of threadid] by (simp, presburger)
  have range: "- 32768 \<le> sint idx" "sint idx < 32768" using sint_ge [of idx] sint_lt [of idx] by simp_all
  have bits: "\<not> bit (sint idx) i" if "i \<in> {12, 13, 14, 15}" for i
  proof -
    have "bit (0xf000 :: int) i" using that by (auto simp: bit_iff_odd)
    moreover have "\<not> bit (sint idx AND 0xf000) i" using a by simp
    ultimately show ?thesis by (simp add: bit_and_iff)
  qed
  have "take_bit 16 (sint idx) = take_bit 12 (sint idx)"
  proof (rule bit_eqI)
    fix i :: nat
    have "i < 12 \<or> i \<in> {12, 13, 14, 15}" if "i < 16" using that by auto
    then show "bit (take_bit 16 (sint idx)) i \<longleftrightarrow> bit (take_bit 12 (sint idx)) i"
      using bits [of i] unfolding bit_take_bit_iff by fastforce
  qed
  then have "sint idx mod 65536 = sint idx mod 4096" by (simp add: take_bit_eq_mod)
  moreover have "sint idx mod 4096 < 4096" "0 \<le> sint idx mod 4096" by simp_all
  moreover have "sint idx mod 65536 = (if sint idx < 0 then sint idx + 65536 else sint idx)"
  proof (cases "sint idx < 0")
    case True
    have "(sint idx + 65536) mod 65536 = sint idx + 65536" using True range by (intro mod_pos_pos_trivial) auto
    then show ?thesis using True by simp
  qed (use range in simp)
  ultimately have s: "0 \<le> sint idx" "sint idx < 4096" using range by (auto split: if_splits)
  have low: "take_bit 12 (sint idx) = sint idx" using s by (simp add: take_bit_eq_mod)
  have "\<not> bit (sint idx) i \<or> \<not> bit (push_bit 12 (uint threadid)) i" for i
    by (subst low [symmetric]) (auto simp: bit_take_bit_iff bit_push_bit_iff)
  then have "sint idx OR push_bit 12 (uint threadid) = sint idx + uint threadid * 4096"
    by (simp add: disjunctive_add [symmetric] push_bit_eq_mult)
  then have "uint tag = (sint idx + uint threadid * 4096) mod 2 ^ LENGTH(16)"
    unfolding tag by (simp only: uint_word_of_int)
  then have "uint tag = sint idx + uint threadid * 4096" using s t16 by simp
  moreover have "x AND 4095 = x mod 4096" for x :: int
    using take_bit_eq_mask [of 12 x] by (simp add: take_bit_eq_mod mask_eq_exp_minus_1)
  moreover have "drop_bit 4 (push_bit 16 1 - 1 :: int) = 4095" by (simp add: drop_bit_eq_div push_bit_eq_mult)
  ultimately show ?thesis using s
    by (simp add: decode_tag_def MAX_ROB_IDX_BIT_def MAX_THREADS_BIT_def Let_def drop_bit_eq_div)
qed

text \<open>The count of shared entries stays within its bounds; an allocation is undone by a free.\<close>

lemma shared_entries_bounds:
  assumes "0 \<le> iq_shared_entries q" "iq_shared_entries q \<le> int (iq_size q) - iq_reserved_entries q"
  shows "alloc_reserved_entry q = None \<longleftrightarrow> shared_empty q"
    "free_shared_entry q = None \<longleftrightarrow> iq_shared_entries q = int (iq_size q) - iq_reserved_entries q"
    "alloc_reserved_entry q = Some q' \<Longrightarrow> free_shared_entry q' = Some q"
  using assms by (auto simp: alloc_reserved_entry_def free_shared_entry_def shared_empty_def iq_size_def split: if_splits)

end
