(* ===== verification/Issue_Stage.thy ===== *)
theory Issue_Stage
  imports Cluster_Tables Issue_Order
begin

text \<open>
  Dispatch and issue: the choice of a cluster in \<^verbatim>\<open>select_cluster\<close> (\<^verbatim>\<open>ooopipe.cpp\<close>), the
  choice of a functional unit in \<^verbatim>\<open>ReorderBufferEntry::issue\<close> and the issue loop of a cluster
  (\<^verbatim>\<open>oooexec.cpp\<close>), over the tables of \<^verbatim>\<open>Cluster_Tables\<close> and the queues of
  \<^verbatim>\<open>Issue_Queue\<close>.
\<close>

subsection \<open>Cluster selection\<close>

definition sched_get_all_issueq_free_slots :: "IssueQueue list \<Rightarrow> int list" where
  "sched_get_all_issueq_free_slots qs = map (\<lambda>q. of_bool (iq_remaining q)) qs"

text \<open>
  \<^verbatim>\<open>select_cluster\<close> looks at the state of an operand's physical register and at the cluster of the
  reorder buffer entry that writes it.
\<close>

definition tally_operand :: "(nat \<times> int) option \<Rightarrow> int list \<Rightarrow> int list" where
  "tally_operand r tally =
     (case r of None \<Rightarrow> tally
      | Some (state, cluster) \<Rightarrow>
          if (state = PHYSREG_WAITING \<or> state = PHYSREG_BYPASS) \<and> cluster \<ge> 0
          then tally[nat cluster := tally ! nat cluster + 1] else tally)"

definition operand_tally :: "(nat \<times> int) option list \<Rightarrow> int list" where
  "operand_tally operands = fold tally_operand operands (replicate MAX_CLUSTERS 0)"

definition select_cluster ::
  "W16 \<Rightarrow> (nat \<times> int) option list \<Rightarrow> int list \<Rightarrow> W64 \<Rightarrow> int option" where
  "select_cluster executable_on_cluster_mask operands avail_count sim_cycle =
     (let executable = ucast executable_on_cluster_mask :: W32;
          tally = operand_tally operands
      in if executable = 0 then None
         else let avail_mask = fold (\<lambda>i m. m OR push_bit i (of_bool (avail_count ! i > 0))) [0..<MAX_CLUSTERS] 0;
                  executable = executable AND avail_mask
           in if executable = 0 then Some (-1)
              else let cluster = int (find_random_set_bit executable (ucast sim_cycle))
                in Some (snd (fold (\<lambda>i (n, cluster). if tally ! i > n \<and> bit executable i
                          then (tally ! i, int i) else (n, cluster)) [0..<MAX_CLUSTERS] (0, cluster))))"

subsection \<open>Issue\<close>

text \<open>
  The functional unit an entry takes: \<open>None\<close> when no unit of its cluster that can execute it is
  free in this cycle (the entry is replayed).
\<close>

definition issue_fu :: "nat \<Rightarrow> nat \<Rightarrow> W32 \<Rightarrow> (nat \<times> W32) option" where
  "issue_fu opcode cluster fu_avail =
     (let executable_on_fu = fui_fu (fuinfo ! opcode) AND cl_fu_mask (clusters ! cluster) AND fu_avail
      in if executable_on_fu = 0 then None
         else let fu = lsbindex64 (ucast executable_on_fu) in Some (fu, clearbit32 fu_avail fu))"

definition ROB_SIZE :: nat where [uop_defs]: "ROB_SIZE = 128"

text \<open>
  \<^verbatim>\<open>OutOfOrderCore::issue\<close> for one cluster. \<open>rob_issue\<close> is what \<^verbatim>\<open>rob.issue()\<close> does to the issue
  queue of the cluster for the entry of a thread and reorder buffer index at a slot, with its
  return code. The result lists the entries in the order of issue; its length is \<^verbatim>\<open>issuecount\<close>.
  \<open>None\<close> is the failed assertion on the index.
\<close>

fun core_issue ::
  "(int \<Rightarrow> int \<Rightarrow> nat \<Rightarrow> IssueQueue \<Rightarrow> int \<times> IssueQueue) \<Rightarrow> nat \<Rightarrow> IssueQueue \<Rightarrow> ((int \<times> int) list \<times> IssueQueue) option" where
  "core_issue rob_issue 0 q = Some ([], q)"
| "core_issue rob_issue (Suc width) q =
     (case iq_issue q of (iqslot, q1) \<Rightarrow>
        if iqslot < 0 then Some ([], q1)
        else let (threadid, idx) = decode_tag (word_of_int (uopof (nat iqslot) q1))
          in if \<not> (0 \<le> idx \<and> idx \<le> int ROB_SIZE - 1) then None
             else case rob_issue threadid idx (nat iqslot) q1 of (ret, q2) \<Rightarrow>
               if ret \<le> 0 then Some ([(threadid, idx)], q2)
               else map_option (map_prod ((#) (threadid, idx)) id) (core_issue rob_issue width q2))"

subsection \<open>What cluster selection answers\<close>

lemma bit_avail_mask:
  "bit (fold (\<lambda>i m. m OR push_bit i (of_bool (P i))) xs (w :: W32)) j \<longleftrightarrow> bit w j \<or> (j \<in> set xs \<and> j < 32 \<and> P j)"
proof (induction xs arbitrary: w)
  case (Cons c xs)
  have "bit (w OR push_bit c (of_bool (P c))) j \<longleftrightarrow> bit w j \<or> (j = c \<and> j < 32 \<and> P c)"
    by (cases "P c") (auto simp: bit_or_iff bit_exp_iff)
  then show ?case unfolding fold.simps comp_apply Cons.IH by auto
qed simp

lemma tally_operand_nonneg:
  "\<forall>x \<in> set l. 0 \<le> x \<Longrightarrow> (\<forall>x \<in> set (tally_operand r l). 0 \<le> x) \<and> length (tally_operand r l) = length l"
proof -
  assume l: "\<forall>x \<in> set l. 0 \<le> x"
  have "\<forall>x \<in> set (l[k := l ! k + 1]). 0 \<le> x" for k
    using l by (cases "k < length l") (auto simp: list_update_beyond dest!: set_update_subset_insert [THEN subsetD] nth_mem)
  then show ?thesis using l by (auto simp: tally_operand_def split: option.split prod.split)
qed

lemma tally_nonneg:
  assumes "i < MAX_CLUSTERS"
  shows "0 \<le> operand_tally operands ! i"
proof -
  have "(\<forall>x \<in> set (fold tally_operand operands l). 0 \<le> x) \<and> length (fold tally_operand operands l) = length l"
    if "\<forall>x \<in> set l. 0 \<le> x" for l
    using that
  proof (induction operands arbitrary: l)
    case (Cons r operands)
    then show ?case using tally_operand_nonneg [OF Cons.prems, of r] Cons.IH [of "tally_operand r l"] by simp
  qed simp
  from this [of "replicate MAX_CLUSTERS 0"] show ?thesis using assms by (simp add: operand_tally_def)
qed

lemma best_cluster_fold:
  assumes "fold (\<lambda>i (n, cluster). if t ! i > n \<and> ok i then (t ! i, int i) else (n, cluster)) xs (n0, c0) = (n, c)"
  shows "n0 \<le> (n :: int) \<and> (\<forall>i \<in> set xs. ok i \<longrightarrow> t ! i \<le> n)
    \<and> ((n, c) = (n0, c0) \<or> (\<exists>i \<in> set xs. ok i \<and> c = int i \<and> t ! i = n))"
  using assms
proof (induction xs arbitrary: n0 c0)
  case (Cons i xs)
  show ?case
  proof (cases "t ! i > n0 \<and> ok i")
    case True
    then have "fold (\<lambda>i (n, cluster). if t ! i > n \<and> ok i then (t ! i, int i) else (n, cluster)) xs (t ! i, int i) = (n, c)"
      using Cons.prems by simp
    from Cons.IH [OF this] show ?thesis using True by auto
  next
    case False
    then have "fold (\<lambda>i (n, cluster). if t ! i > n \<and> ok i then (t ! i, int i) else (n, cluster)) xs (n0, c0) = (n, c)"
      using Cons.prems by (simp add: if_not_P)
    from Cons.IH [OF this] show ?thesis using False by auto
  qed
qed simp

definition eligible :: "W16 \<Rightarrow> int list \<Rightarrow> nat \<Rightarrow> bool" where
  "eligible executable_mask avail_count c \<longleftrightarrow> c < MAX_CLUSTERS \<and> bit executable_mask c \<and> avail_count ! c > 0"

text \<open>
  Claim C18. For a micro-operation that some cluster can execute, \<^verbatim>\<open>select_cluster\<close> fails no
  assertion. It answers -1 exactly when the queue of every such cluster is full, and otherwise a
  cluster that can execute it and has room, with the most operands still in flight there.
\<close>

theorem select_cluster_correct:
  assumes "executable_mask \<noteq> 0"
  shows "\<exists>c. select_cluster executable_mask operands avail_count sim_cycle = Some c
    \<and> (c = -1 \<longleftrightarrow> (\<forall>c'. \<not> eligible executable_mask avail_count c'))
    \<and> (c \<noteq> -1 \<longrightarrow> 0 \<le> c \<and> eligible executable_mask avail_count (nat c)
         \<and> (\<forall>c'. eligible executable_mask avail_count c' \<longrightarrow>
              operand_tally operands ! c' \<le> operand_tally operands ! nat c))"
proof -
  define ex where "ex = (ucast executable_mask AND
     fold (\<lambda>i m. m OR push_bit i (of_bool (avail_count ! i > 0))) [0..<MAX_CLUSTERS] 0 :: W32)"
  have ex: "bit ex i \<longleftrightarrow> eligible executable_mask avail_count i" for i
    by (auto simp: ex_def bit_and_iff bit_ucast_iff bit_avail_mask eligible_def MAX_CLUSTERS_def)
  obtain b where b: "bit executable_mask b" using assms by (auto simp: bit_eq_iff)
  then have "b < 16" using bit_imp_le_length by fastforce
  then have "bit (ucast executable_mask :: W32) b" using b by (simp add: bit_ucast_iff)
  then have nz: "ucast executable_mask \<noteq> (0 :: W32)" by auto
  show ?thesis
  proof (cases "ex = 0")
    case True
    then have "select_cluster executable_mask operands avail_count sim_cycle = Some (-1)"
      using nz by (simp add: select_cluster_def Let_def ex_def [symmetric])
    then show ?thesis using True ex by auto
  next
    case False
    obtain i where i: "bit ex i" using False by (auto simp: bit_eq_iff)
    have low: "ex AND 0xff \<noteq> 0"
    proof
      assume "ex AND 0xff = 0"
      moreover have "i \<in> {0, 1, 2, 3}" using i ex [of i] by (auto simp: eligible_def MAX_CLUSTERS_def)
      then have "bit (ex AND 0xff) i" using i unfolding bit_and_iff by (elim insertE) simp_all
      ultimately show False by simp
    qed
    define c0 where "c0 = find_random_set_bit ex (ucast sim_cycle)"
    have c0: "eligible executable_mask avail_count c0"
      using find_random_set_bit(2) [OF low] ex by (simp add: c0_def)
    obtain n c where f: "fold (\<lambda>i (n, cluster). if operand_tally operands ! i > n \<and> bit ex i
        then (operand_tally operands ! i, int i) else (n, cluster)) [0..<MAX_CLUSTERS] (0, int c0) = (n, c)" by fastforce
    have sel: "select_cluster executable_mask operands avail_count sim_cycle = Some c"
      using nz False f by (simp add: select_cluster_def Let_def ex_def [symmetric] c0_def [symmetric])
    note b = best_cluster_fold [OF f, unfolded ex]
    have "0 \<le> c \<and> eligible executable_mask avail_count (nat c) \<and> n \<le> operand_tally operands ! nat c"
      using b c0 tally_nonneg [of c0 operands] by (auto simp: eligible_def)
    then show ?thesis using sel b c0 by (auto simp: eligible_def intro: order_trans)
  qed
qed

theorem select_cluster_correct_witness:
  "\<exists>c. select_cluster 3 [Some (PHYSREG_WAITING, 1), None] [1, 1, 0, 0] 5 = Some c \<and> c \<noteq> -1 \<and> eligible 3 [1, 1, 0, 0] (nat c)"
proof -
  have "eligible 3 [1, 1, 0, 0] 0" by (simp add: eligible_def MAX_CLUSTERS_def)
  then show ?thesis
    using select_cluster_correct [of 3 "[Some (PHYSREG_WAITING, 1), None]" "[1, 1, 0, 0]" 5] by auto
qed

text \<open>
  The free slots reported to the scheduler are 0 or 1, whatever the number of free slots, since
  \<^verbatim>\<open>remaining\<close> answers a \<^verbatim>\<open>bool\<close>; the comparison with zero above is not affected.
\<close>

lemma free_slots_are_flags:
  "iq_ok n k q \<Longrightarrow> sched_get_all_issueq_free_slots [q] = [if length (iq_entries q) < n then 1 else 0]"
  using length_entries [of n k q] iq_okD [of n k q]
  by (auto simp: sched_get_all_issueq_free_slots_def iq_remaining_def iq_shape_def)

subsection \<open>Functional units in a cycle\<close>

lemma issue_fu_cases:
  fixes opcode cluster fu_avail
  defines "usable u \<equiv> bit (fui_fu (fuinfo ! opcode)) u \<and> bit (cl_fu_mask (clusters ! cluster)) u \<and> bit fu_avail u"
  shows "case issue_fu opcode cluster fu_avail of
      None \<Rightarrow> \<forall>u. \<not> usable u
    | Some (u, fu_avail') \<Rightarrow> usable u \<and> (\<forall>x. bit fu_avail' x \<longleftrightarrow> bit fu_avail x \<and> x \<noteq> u)"
proof -
  define e where "e = fui_fu (fuinfo ! opcode) AND cl_fu_mask (clusters ! cluster) AND fu_avail"
  have b: "bit e u \<longleftrightarrow> usable u" for u by (auto simp: e_def usable_def bit_and_iff)
  show ?thesis
  proof (cases "e = 0")
    case True
    then show ?thesis using b by (simp add: issue_fu_def e_def [symmetric])
  next
    case False
    obtain x where x: "bit e x" using False by (auto simp: bit_eq_iff)
    then have "x < 32" using bit_imp_le_length by fastforce
    then have "bit (ucast e :: W64) x" using x by (simp add: bit_ucast_iff)
    then have nz: "(ucast e :: W64) \<noteq> 0" by auto
    have "bit (ucast e :: W64) (countr_zero (ucast e :: W64))" by (rule countr_zero_set [OF nz])
    then have "bit e (lsbindex64 (ucast e))" using nz by (simp add: lsbindex64_def bit_ucast_iff)
    then show ?thesis using False b by (simp add: issue_fu_def e_def [symmetric] Let_def bit_clearbit32)
  qed
qed

text \<open>
  A micro-operation dispatched to a cluster of its mask finds a functional unit there as
  long as no unit of the cluster has been taken in this cycle; the unit is one that executes the
  opcode, and only that unit is taken.
\<close>

theorem fresh_cluster_issues:
  assumes "opcode < OP_MAX_OPCODE" "cluster < MAX_CLUSTERS" "bit (uop_executable_on_cluster ! opcode) cluster"
    and "\<forall>u. bit (cl_fu_mask (clusters ! cluster)) u \<longrightarrow> bit fu_avail u"
  shows "\<exists>u fu_avail'. issue_fu opcode cluster fu_avail = Some (u, fu_avail')
    \<and> bit (fui_fu (fuinfo ! opcode)) u \<and> bit (cl_fu_mask (clusters ! cluster)) u
    \<and> (\<forall>x. bit fu_avail' x \<longleftrightarrow> bit fu_avail x \<and> x \<noteq> u)"
proof -
  have "cl_fu_mask (clusters ! cluster) AND fui_fu (fuinfo ! opcode) \<noteq> 0"
    using bit_executable [OF assms(1,2)] assms(3) by simp
  then obtain u where "bit (cl_fu_mask (clusters ! cluster) AND fui_fu (fuinfo ! opcode)) u"
    by (auto simp: bit_eq_iff)
  then have "bit (fui_fu (fuinfo ! opcode)) u" "bit (cl_fu_mask (clusters ! cluster)) u" "bit fu_avail u"
    using assms(4) by (auto simp: bit_and_iff)
  then show ?thesis using issue_fu_cases [of opcode cluster fu_avail]
    by (cases "issue_fu opcode cluster fu_avail") auto
qed

theorem fresh_cluster_issues_witness:
  "\<exists>u fu_avail'. issue_fu OP_mf 0 0xff = Some (u, fu_avail') \<and> \<not> bit fu_avail' u"
proof -
  have m: "cl_fu_mask (clusters ! 0) = 0x12" by (simp add: clusters_def FU_ALU0_def FU_STU0_def)
  have b: "bit (0x12 :: W32) u \<Longrightarrow> bit (0xff :: W32) u" for u
  proof -
    assume u: "bit (0x12 :: W32) u"
    have "(0x12 :: W32) AND 0xff = 0x12" by simp
    then have "bit ((0x12 :: W32) AND 0xff) u" using u by simp
    then show ?thesis unfolding bit_and_iff by blast
  qed
  have op: "OP_mf < OP_MAX_OPCODE" by (simp add: OP_mf_def OP_MAX_OPCODE_def)
  have "bit (uop_executable_on_cluster ! OP_mf) 0"
    unfolding bit_executable [OF op, of 0, unfolded MAX_CLUSTERS_def, simplified] m
    by (simp add: OP_mf_def fuinfo_def fu_entry_def FU_STU0_def)
  then show ?thesis using fresh_cluster_issues [OF op, of 0 "0xff"] b m by (auto simp: MAX_CLUSTERS_def)
qed

subsection \<open>The issue loop drains the ready entries in age order\<close>

fun al_drain :: "nat \<Rightarrow> iq_entry list \<Rightarrow> iq_entry list" where
  "al_drain 0 es = es"
| "al_drain (Suc width) [] = []"
| "al_drain (Suc width) (e # es) = (if ie_ready e then al_drain width es else e # al_drain (Suc width) es)"

lemma al_drain_prefix: "\<forall>e \<in> set xs. \<not> ie_ready e \<Longrightarrow> al_drain w (xs @ ys) = xs @ al_drain w ys"
proof (induction xs)
  case (Cons x xs)
  then show ?case by (cases w) simp_all
qed simp

lemma al_drain_none: "\<forall>e \<in> set es. \<not> ie_ready e \<Longrightarrow> al_drain w es = es"
  using al_drain_prefix [of es w "[]"] by (cases w) simp_all

lemma first_ready:
  fixes es :: "iq_entry list"
  defines "slot \<equiv> length (takeWhile (Not \<circ> ie_ready) es)"
  assumes "slot \<noteq> length es"
  shows "slot < length es" "filter ie_ready es = es ! slot # filter ie_ready (al_remove slot es)"
    "al_drain (Suc w) es = al_drain w (al_remove slot es)"
proof -
  let ?pre = "takeWhile (Not \<circ> ie_ready) es" and ?post = "dropWhile (Not \<circ> ie_ready) es"
  show "slot < length es" using assms length_takeWhile_le [of "Not \<circ> ie_ready" es] by simp
  have "?post \<noteq> []"
  proof
    assume "?post = []"
    then have "?pre = es" using takeWhile_dropWhile_id [of "Not \<circ> ie_ready" es] by (metis append_Nil2)
    then have "length ?pre = length es" by (rule arg_cong)
    then show False using assms(2) unfolding slot_def by blast
  qed
  then obtain e post where p: "?post = e # post" by (cases ?post) auto
  have e: "ie_ready e" using hd_dropWhile [of "Not \<circ> ie_ready" es] p by simp
  have es: "es = ?pre @ e # post" using p takeWhile_dropWhile_id [of "Not \<circ> ie_ready" es] by simp
  have pre: "\<forall>e \<in> set ?pre. \<not> ie_ready e" using set_takeWhileD by fastforce
  have "es ! slot = e" by (subst es) (simp add: slot_def nth_append)
  moreover have r: "al_remove slot es = ?pre @ post"
    by (subst es) (simp add: slot_def al_remove_def)
  moreover have f: "filter ie_ready ?pre = []" using pre by (simp add: filter_empty_conv)
  moreover have "filter ie_ready es = filter ie_ready ?pre @ e # filter ie_ready post"
    by (subst es) (simp add: e)
  ultimately show "filter ie_ready es = es ! slot # filter ie_ready (al_remove slot es)" by simp
  have "al_drain (Suc w) es = ?pre @ al_drain (Suc w) (e # post)"
    by (subst es) (rule al_drain_prefix [OF pre])
  also have "\<dots> = al_drain w (al_remove slot es)" using e r al_drain_prefix [OF pre, of w post] by simp
  finally show "al_drain (Suc w) es = al_drain w (al_remove slot es)" .
qed

lemma core_issue_drains:
  assumes "\<And>t i s q. rob_issue t i s q = (1, snd (the (iq_release s q)))"
    and "iq_ok n k q" "\<forall>e \<in> set (iq_entries q). snd (decode_tag (ie_uop e)) < int ROB_SIZE"
  shows "\<exists>q'. core_issue rob_issue w q =
      Some (map (\<lambda>e. decode_tag (ie_uop e)) (take w (filter ie_ready (iq_entries q))), q')
    \<and> iq_ok n k q' \<and> iq_entries q' = al_drain w (iq_entries q)"
  using assms(2,3)
proof (induction w arbitrary: q)
  case (Suc w)
  let ?es = "iq_entries q" and ?s = "length (takeWhile (Not \<circ> ie_ready) (iq_entries q))"
  obtain i q1 where i: "iq_issue q = (i, q1)" "iq_ok n k q1" "al_issue ?es = (i, iq_entries q1)"
    by (rule issue_refines [OF Suc.prems(1)])
  show ?case
  proof (cases "?s = length ?es")
    case True
    then have none: "\<forall>e \<in> set ?es. \<not> ie_ready e"
      by (metis comp_apply length_takeWhile_le takeWhile_eq_all_conv takeWhile_dropWhile_id append_eq_conv_conj take_all_iff order_refl)
    have "i = -1 \<and> iq_entries q1 = ?es" using i(3) True by (simp add: al_issue_def Let_def)
    then show ?thesis using i(1,2) none al_drain_none [OF none] by (auto simp: filter_empty_conv filter_False)
  next
    case False
    note fr = first_ready [OF False]
    have s: "i = int ?s" "iq_entries q1 = ?es[?s := (?es ! ?s)\<lparr>ie_issued := True\<rparr>]"
      using i(3) False by (auto simp: al_issue_def Let_def)
    have c1: "int ?s < iq_count q1" using length_entries [OF i(2)] fr(1) s(2) by simp
    obtain q2 where q2: "iq_remove ?s q1 = Some (True, q2)" "iq_ok n k q2" "iq_entries q2 = al_remove ?s (iq_entries q1)"
      by (rule remove_refines [OF i(2) c1])
    have e2: "iq_entries q2 = al_remove ?s ?es" using q2(3) s(2) by (simp add: al_remove_def)
    have uop: "word_of_int (uopof ?s q1) = ie_uop (?es ! ?s)"
      using entry_uop [OF c1] s(2) fr(1) by (simp add: uopof_def)
    have "?es ! ?s \<in> set ?es" using fr(1) by simp
    then have idx: "snd (decode_tag (ie_uop (?es ! ?s))) < int ROB_SIZE" "0 \<le> snd (decode_tag (ie_uop (?es ! ?s)))"
      using Suc.prems(2) by (auto simp: decode_tag_def Let_def)
    have "\<forall>e \<in> set (iq_entries q2). snd (decode_tag (ie_uop e)) < int ROB_SIZE"
      using Suc.prems(2) e2 by (auto simp: al_remove_def dest: in_set_takeD in_set_dropD)
    from Suc.IH [OF q2(2) this] obtain q' where "core_issue rob_issue w q2 =
        Some (map (\<lambda>e. decode_tag (ie_uop e)) (take w (filter ie_ready (iq_entries q2))), q')"
      "iq_ok n k q'" "iq_entries q' = al_drain w (iq_entries q2)" by blast
    moreover obtain t x where dt: "decode_tag (ie_uop (?es ! ?s)) = (t, x)" by fastforce
    moreover have "rob_issue t x ?s q1 = (1, q2)" using assms(1) q2(1) by (simp add: iq_release_def)
    ultimately show ?thesis using i(1) s(1) uop idx e2 fr(2) fr(3) [of w] by simp
  qed
qed simp



end
