(* ===== verification/Self_Links.thy ===== *)
theory Self_Links
  imports Prelude
begin

text \<open>
  The intrusive doubly linked lists of \<^verbatim>\<open>superstl.h\<close> (\<^verbatim>\<open>selfqueuelink\<close>): every object carries
  its two pointers, a list is a ring through its root, and an object is unlinked without
  knowing its list. The two pointer fields of all objects form a heap over abstract
  addresses; a null pointer is \<^const>\<open>None\<close>. An operation that dereferences a null pointer is \<^const>\<open>None\<close>.

  The second half abstracts a ring to the list of its objects: linking, unlinking and taking
  the head are list operations on the ring they touch and leave every other ring alone.
\<close>

subsection \<open>Operations\<close>

record 'n links =
  lk_next :: "'n \<Rightarrow> 'n option"
  lk_prev :: "'n \<Rightarrow> 'n option"

definition set_next :: "'n \<Rightarrow> 'n option \<Rightarrow> 'n links \<Rightarrow> 'n links" where
  "set_next p v h = h\<lparr>lk_next := (lk_next h)(p := v)\<rparr>"

definition set_prev :: "'n \<Rightarrow> 'n option \<Rightarrow> 'n links \<Rightarrow> 'n links" where
  "set_prev p v h = h\<lparr>lk_prev := (lk_prev h)(p := v)\<rparr>"

definition link_reset :: "'n \<Rightarrow> 'n links \<Rightarrow> 'n links" where
  "link_reset p h = set_prev p (Some p) (set_next p (Some p) h)"

definition unlink :: "'n \<Rightarrow> 'n links \<Rightarrow> 'n links option" where
  "unlink p h =
     (case lk_next h p of None \<Rightarrow> None
      | Some nxt \<Rightarrow>
          let h1 = set_prev nxt (lk_prev h p) h
          in case lk_prev h1 p of None \<Rightarrow> None
             | Some prv \<Rightarrow>
                 let h2 = set_next prv (lk_next h1 p) h1
                 in Some (set_next p (Some p) (set_prev p (Some p) h2)))"

definition addlink :: "'n \<Rightarrow> 'n option \<Rightarrow> 'n option \<Rightarrow> 'n links \<Rightarrow> 'n links option" where
  "addlink p prv nxt h =
     (case (prv, nxt) of
        (Some a, Some b) \<Rightarrow>
          Some (set_next a (Some p) (set_prev p (Some a) (set_next p (Some b) (set_prev b (Some p) h))))
      | _ \<Rightarrow> None)"

definition addhead :: "'n \<Rightarrow> 'n \<Rightarrow> 'n links \<Rightarrow> 'n links option" where
  "addhead p root h = addlink p (Some root) (lk_next h root) h"

definition addtail :: "'n \<Rightarrow> 'n \<Rightarrow> 'n links \<Rightarrow> 'n links option" where
  "addtail p root h = addlink p (lk_prev h root) (Some root) h"

definition link_empty :: "'n \<Rightarrow> 'n links \<Rightarrow> bool" where
  "link_empty p h \<longleftrightarrow> lk_next h p = Some p"

definition unlinked :: "'n \<Rightarrow> 'n links \<Rightarrow> bool" where
  "unlinked p h \<longleftrightarrow> (lk_prev h p = None \<and> lk_next h p = None) \<or> (lk_prev h p = Some p \<and> lk_next h p = Some p)"

definition linked :: "'n \<Rightarrow> 'n links \<Rightarrow> bool" where
  "linked p h \<longleftrightarrow> \<not> unlinked p h"

definition removehead :: "'n \<Rightarrow> 'n links \<Rightarrow> ('n option \<times> 'n links) option" where
  "removehead root h =
     (if link_empty root h then Some (None, h)
      else case lk_next h root of None \<Rightarrow> None
        | Some link \<Rightarrow> map_option (Pair (Some link)) (unlink link h))"

definition removetail :: "'n \<Rightarrow> 'n links \<Rightarrow> ('n option \<times> 'n links) option" where
  "removetail root h =
     (if link_empty root h then Some (None, h)
      else case lk_prev h root of None \<Rightarrow> None
        | Some link \<Rightarrow> map_option (Pair (Some link)) (unlink link h))"

definition link_head :: "'n \<Rightarrow> 'n links \<Rightarrow> 'n option" where
  "link_head p h = lk_next h p"

definition link_tail :: "'n \<Rightarrow> 'n links \<Rightarrow> 'n option" where
  "link_tail p h = lk_prev h p"

subsection \<open>Rings\<close>

fun path :: "'n links \<Rightarrow> 'n list \<Rightarrow> bool" where
  "path h (x # y # zs) \<longleftrightarrow> lk_next h x = Some y \<and> lk_prev h y = Some x \<and> path h (y # zs)"
| "path h _ \<longleftrightarrow> True"

definition ring :: "'n links \<Rightarrow> 'n list \<Rightarrow> bool" where
  "ring h xs \<longleftrightarrow> xs \<noteq> [] \<and> distinct xs \<and> path h (xs @ [hd xs])"

lemma path_append: "path h (xs @ y # zs) \<longleftrightarrow> path h (xs @ [y]) \<and> path h (y # zs)"
proof (induction xs)
  case (Cons x xs)
  then show ?case by (cases xs) auto
qed simp

lemma path_snoc:
  "ys \<noteq> [] \<Longrightarrow> path h (ys @ [z]) \<longleftrightarrow>
     path h ys \<and> lk_next h (last ys) = Some z \<and> lk_prev h z = Some (last ys)"
  by (cases ys rule: rev_cases) (simp_all add: path_append [where zs = "[z]", simplified])

lemma path_cong:
  assumes "\<And>x. x \<in> set (butlast xs) \<Longrightarrow> lk_next h' x = lk_next h x"
    and "\<And>x. x \<in> set (tl xs) \<Longrightarrow> lk_prev h' x = lk_prev h x"
  shows "path h' xs \<longleftrightarrow> path h xs"
  using assms by (induction h xs rule: path.induct) auto

lemma ring_rotate:
  assumes "xs \<noteq> []" "ys \<noteq> []"
  shows "ring h (xs @ ys) \<longleftrightarrow> ring h (ys @ xs)"
proof -
  obtain x xs' y ys' where e: "xs = x # xs'" "ys = y # ys'" using assms by (cases xs; cases ys) auto
  have "path h (xs @ ys @ [x]) \<longleftrightarrow> path h (ys @ xs @ [y])"
    using path_append [of h xs y "ys' @ [x]"] path_append [of h ys x "xs' @ [y]"] e by auto
  then show ?thesis using e by (auto simp: ring_def)
qed

lemma ring_cong:
  assumes "\<And>x. x \<in> set xs \<Longrightarrow> lk_next h' x = lk_next h x \<and> lk_prev h' x = lk_prev h x"
  shows "ring h' xs \<longleftrightarrow> ring h xs"
proof (cases xs)
  case (Cons y ys)
  have "path h' (xs @ [hd xs]) \<longleftrightarrow> path h (xs @ [hd xs])"
    using assms Cons by (intro path_cong) auto
  then show ?thesis by (simp add: ring_def)
qed (simp add: ring_def)

lemma ring_single [simp]: "ring h [p] \<longleftrightarrow> lk_next h p = Some p \<and> lk_prev h p = Some p"
  by (auto simp: ring_def)

lemma ring_Cons:
  "ys \<noteq> [] \<Longrightarrow> ring h (p # ys) \<longleftrightarrow> distinct (p # ys) \<and> path h ys
     \<and> lk_next h p = Some (hd ys) \<and> lk_prev h (hd ys) = Some p
     \<and> lk_next h (last ys) = Some p \<and> lk_prev h p = Some (last ys)"
proof -
  assume ys: "ys \<noteq> []"
  then show ?thesis using path_snoc [of ys h p] by (cases ys) (auto simp: ring_def)
qed

lemma ring_neighbours:
  "ring h (p # ys) \<Longrightarrow> lk_next h p = Some (hd (ys @ [p])) \<and> lk_prev h p = Some (last (p # ys))"
  by (cases "ys = []") (auto simp: ring_Cons)

lemma ring_link_empty: "ring h (p # ys) \<Longrightarrow> link_empty p h \<longleftrightarrow> ys = []"
  by (cases ys) (auto simp: link_empty_def ring_Cons)

lemma ring_linked: "ring h (p # ys) \<Longrightarrow> linked p h \<longleftrightarrow> ys \<noteq> []"
  by (cases ys) (auto simp: linked_def unlinked_def ring_Cons)

definition same_outside :: "'n set \<Rightarrow> 'n links \<Rightarrow> 'n links \<Rightarrow> bool" where
  "same_outside A h h' \<longleftrightarrow> (\<forall>x. x \<notin> A \<longrightarrow> lk_next h' x = lk_next h x \<and> lk_prev h' x = lk_prev h x)"

lemma ring_outside: "same_outside A h h' \<Longrightarrow> set xs \<inter> A = {} \<Longrightarrow> ring h' xs \<longleftrightarrow> ring h xs"
  by (rule ring_cong) (auto simp: same_outside_def)

lemma same_outside_trans [trans]:
  "same_outside A h1 h2 \<Longrightarrow> same_outside A h2 h3 \<Longrightarrow> same_outside A h1 h3"
  by (simp add: same_outside_def)

lemma same_outside_mono: "same_outside A h h' \<Longrightarrow> A \<subseteq> B \<Longrightarrow> same_outside B h h'"
  by (auto simp: same_outside_def)

lemma link_reset_ring: "ring (link_reset p h) [p]" "same_outside {p} h (link_reset p h)"
  by (auto simp: link_reset_def set_next_def set_prev_def same_outside_def)

lemma unlink_head:
  assumes "ring h (p # ys)"
  obtains h' where "unlink p h = Some h'" "ring h' [p]" "ys \<noteq> [] \<longrightarrow> ring h' ys" "same_outside (set (p # ys)) h h'"
proof (cases "ys = []")
  case True
  then have "lk_next h p = Some p" "lk_prev h p = Some p" using assms by auto
  then show ?thesis using that [of "set_next p (Some p) (set_prev p (Some p) (set_next p (Some p) (set_prev p (Some p) h)))"] True
    by (simp add: unlink_def set_next_def set_prev_def same_outside_def)
next
  case False
  note r = assms [unfolded ring_Cons [OF False]]
  let ?a = "hd ys" and ?b = "last ys"
  have ab: "?a \<in> set ys" "?b \<in> set ys" "?a \<noteq> p" "?b \<noteq> p" using False r by auto
  define h' where "h' = set_next p (Some p) (set_prev p (Some p) (set_next ?b (Some ?a) (set_prev ?a (Some ?b) h)))"
  have u: "unlink p h = Some h'"
    using r ab by (simp add: unlink_def h'_def set_next_def set_prev_def Let_def)
  have out: "same_outside (set (p # ys)) h h'"
    using ab by (auto simp: same_outside_def h'_def set_next_def set_prev_def)
  have nb: "x \<noteq> ?b" if "x \<in> set (butlast ys)" for x
    using that r False by (metis append_butlast_last_id distinct_append distinct.simps(2) disjoint_iff list.set_intros(1))
  have na: "x \<noteq> ?a" if "x \<in> set (tl ys)" for x using that r False by (cases ys) auto
  have "path h' ys \<longleftrightarrow> path h ys"
  proof (rule path_cong)
    fix x assume x: "x \<in> set (butlast ys)"
    then have "x \<noteq> p" using r in_set_butlastD by fastforce
    then show "lk_next h' x = lk_next h x" using nb [OF x] by (simp add: h'_def set_next_def set_prev_def)
  next
    fix x assume x: "x \<in> set (tl ys)"
    then have "x \<noteq> p" using r False list.set_sel(2) by fastforce
    then show "lk_prev h' x = lk_prev h x" using na [OF x] by (simp add: h'_def set_next_def set_prev_def)
  qed
  moreover have "path h' (ys @ [?a]) \<longleftrightarrow> path h' ys \<and> lk_next h' ?b = Some ?a \<and> lk_prev h' ?a = Some ?b"
    by (rule path_snoc [OF False])
  ultimately have "ring h' ys" using r ab False by (simp add: ring_def h'_def set_next_def set_prev_def)
  moreover have "ring h' [p]" by (simp add: h'_def set_next_def set_prev_def)
  ultimately show ?thesis using that u out by blast
qed

lemma unlink_ring:
  assumes "ring h (xs @ p # ys)"
  obtains h' where "unlink p h = Some h'" "ring h' [p]" "xs @ ys \<noteq> [] \<longrightarrow> ring h' (xs @ ys)"
    "same_outside (set (xs @ p # ys)) h h'"
proof -
  have "ring h (p # ys @ xs)" using assms ring_rotate [of xs "p # ys" h] by (cases xs) auto
  then obtain h' where h': "unlink p h = Some h'" "ring h' [p]" "ys @ xs \<noteq> [] \<longrightarrow> ring h' (ys @ xs)"
      "same_outside (set (p # ys @ xs)) h h'" by (rule unlink_head)
  have "ring h' (xs @ ys)" if "xs @ ys \<noteq> []"
    using h'(3) ring_rotate [of xs ys h'] that by (cases "xs = []"; cases "ys = []") auto
  then show ?thesis using that [OF h'(1,2)] h'(4) by (auto simp: Un_ac insert_commute)
qed

lemma addhead_ring:
  assumes "ring h (r # xs)" "p \<notin> set (r # xs)"
  obtains h' where "addhead p r h = Some h'" "ring h' (r # p # xs)" "same_outside (set (p # r # xs)) h h'"
proof -
  let ?n = "hd (xs @ [r])"
  have n: "lk_next h r = Some ?n" using ring_neighbours [OF assms(1)] by simp
  define h' where "h' = set_next r (Some p) (set_prev p (Some r) (set_next p (Some ?n) (set_prev ?n (Some p) h)))"
  have a: "addhead p r h = Some h'" by (simp add: addhead_def addlink_def n h'_def)
  have nin: "?n \<in> set (r # xs)" by (cases xs) auto
  have out: "same_outside (set (p # r # xs)) h h'"
    using nin by (auto simp: same_outside_def h'_def set_next_def set_prev_def)
  have "ring h' (r # p # xs)"
  proof (cases xs)
    case Nil
    then show ?thesis using assms by (auto simp: ring_Cons h'_def set_next_def set_prev_def)
  next
    case (Cons x ys)
    have "path h' xs \<longleftrightarrow> path h xs"
    proof (rule path_cong)
      fix z assume "z \<in> set (butlast xs)"
      then have "z \<in> set xs" by (rule in_set_butlastD)
      then show "lk_next h' z = lk_next h z"
        using assms Cons by (auto simp: ring_Cons h'_def set_next_def set_prev_def)
    next
      fix z assume "z \<in> set (tl xs)"
      then show "lk_prev h' z = lk_prev h z"
        using assms Cons by (auto simp: ring_Cons h'_def set_next_def set_prev_def)
    qed
    then show ?thesis using assms Cons by (auto simp: ring_Cons h'_def set_next_def set_prev_def)
  qed
  then show ?thesis using that a out by blast
qed

lemma addtail_ring:
  assumes "ring h (r # xs)" "p \<notin> set (r # xs)"
  obtains h' where "addtail p r h = Some h'" "ring h' (r # xs @ [p])" "same_outside (set (p # r # xs)) h h'"
proof -
  let ?l = "last (r # xs)"
  have rot: "ring h (?l # butlast (r # xs))"
    using assms(1) ring_rotate [of "butlast (r # xs)" "[?l]" h] by (cases xs) auto
  have "set (?l # butlast (r # xs)) = set (r # xs)"
    by (metis append_butlast_last_id list.distinct(1) rotate1.simps(2) set_rotate1)
  then obtain h' where h': "addhead p ?l h = Some h'" "ring h' (?l # p # butlast (r # xs))"
      "same_outside (set (p # r # xs)) h h'"
    using addhead_ring [OF rot, of p] assms(2) by (metis list.simps(15))
  have "lk_prev h r = Some ?l" using ring_neighbours [OF assms(1)] by simp
  moreover have "lk_next h ?l = Some r" using ring_neighbours [OF rot] by (cases xs) auto
  ultimately have "addtail p r h = Some h'" using h'(1) by (simp add: addtail_def addhead_def)
  moreover have "ring h' (r # xs @ [p])"
  proof (cases xs)
    case Nil
    then show ?thesis using h'(2) by simp
  next
    case (Cons x ys)
    then have "ring h' (butlast (r # xs) @ [?l, p])"
      using h'(2) ring_rotate [of "[?l, p]" "butlast (r # xs)" h'] by simp
    moreover have "butlast (r # xs) @ [?l, p] = r # xs @ [p]"
      using append_butlast_last_id [of "r # xs"] by (metis append.assoc append_Cons append_Nil list.distinct(1))
    ultimately show ?thesis by (simp only:)
  qed
  ultimately show ?thesis using that h'(3) by blast
qed

end
