(* ===== verification/State_Lists.thy ===== *)
theory State_Lists
  imports Self_Links
begin

text \<open>
  \<^verbatim>\<open>StateList\<close> and \<^verbatim>\<open>ListOfStateLists\<close> of \<^verbatim>\<open>ooocore.h\<close> and \<^verbatim>\<open>ooocore.cpp\<close>: counted lists of
  linked objects. The list object is itself the root of its ring; its other fields are kept by
  its address. A failed assertion and a null dereference are \<^const>\<open>None\<close>.

  The abstraction gives each list the sequence of its objects; the sequences of different lists are
  disjoint, so an object is on one list at most.
\<close>

subsection \<open>Operations\<close>

record StateList =
  sl_count :: int
  sl_listid :: int
  dispatch_source_counter :: W64
  issue_source_counter :: W64
  sl_flags :: W32

record 'n list_heap =
  lh_links :: "'n links"
  lh_list :: "'n \<Rightarrow> StateList"

definition put_list :: "'n \<Rightarrow> StateList \<Rightarrow> 'n list_heap \<Rightarrow> 'n list_heap" where
  "put_list l sl S = S\<lparr>lh_list := (lh_list S)(l := sl)\<rparr>"

definition add_count :: "'n \<Rightarrow> int \<Rightarrow> 'n list_heap \<Rightarrow> 'n list_heap" where
  "add_count l d S = put_list l ((lh_list S l)\<lparr>sl_count := sl_count (lh_list S l) + d\<rparr>) S"

text \<open>The array of lists: the first \<open>count\<close> of its 64 pointers.\<close>

type_synonym 'n ListOfStateLists = "'n list"

definition lol_add :: "'n \<Rightarrow> 'n ListOfStateLists \<Rightarrow> (int \<times> 'n ListOfStateLists) option" where
  "lol_add l lol = (if length lol < 64 then Some (int (length lol), lol @ [l]) else None)"

definition sl_reset :: "'n \<Rightarrow> 'n list_heap \<Rightarrow> 'n list_heap" where
  "sl_reset l S =
     (let S1 = S\<lparr>lh_links := link_reset l (lh_links S)\<rparr>
      in put_list l ((lh_list S1 l)\<lparr>sl_count := 0, dispatch_source_counter := 0, issue_source_counter := 0\<rparr>) S1)"

definition lol_reset :: "'n ListOfStateLists \<Rightarrow> 'n list_heap \<Rightarrow> 'n list_heap" where
  "lol_reset lol S = fold sl_reset lol S"

definition sl_init :: "'n \<Rightarrow> W32 \<Rightarrow> 'n ListOfStateLists \<Rightarrow> 'n list_heap \<Rightarrow> ('n ListOfStateLists \<times> 'n list_heap) option" where
  "sl_init l flags lol S =
     (case lol_add l lol of None \<Rightarrow> None
      | Some (listid, lol') \<Rightarrow>
          Some (lol', sl_reset l (put_list l ((lh_list S l)\<lparr>sl_flags := flags, sl_listid := listid\<rparr>) S)))"

definition sl_enqueue :: "'n \<Rightarrow> 'n \<Rightarrow> 'n list_heap \<Rightarrow> 'n list_heap option" where
  "sl_enqueue l entry S =
     map_option (\<lambda>k. add_count l 1 (S\<lparr>lh_links := k\<rparr>)) (addtail entry l (lh_links S))"

definition sl_enqueue_after :: "'n \<Rightarrow> 'n \<Rightarrow> 'n option \<Rightarrow> 'n list_heap \<Rightarrow> 'n list_heap option" where
  "sl_enqueue_after l entry preventry S =
     map_option (\<lambda>k. add_count l 1 (S\<lparr>lh_links := k\<rparr>))
       (case preventry of Some p \<Rightarrow> addhead entry p (lh_links S) | None \<Rightarrow> addhead entry l (lh_links S))"

definition sl_remove :: "'n \<Rightarrow> 'n \<Rightarrow> 'n list_heap \<Rightarrow> 'n list_heap option" where
  "sl_remove l entry S =
     (if \<not> linked entry (lh_links S) then None
      else case unlink entry (lh_links S) of None \<Rightarrow> None
        | Some k \<Rightarrow>
            let S' = add_count l (-1) (S\<lparr>lh_links := k\<rparr>)
            in if sl_count (lh_list S' l) \<ge> 0 then Some S' else None)"

definition sl_dequeue :: "'n \<Rightarrow> 'n list_heap \<Rightarrow> ('n option \<times> 'n list_heap) option" where
  "sl_dequeue l S =
     (if link_empty l (lh_links S) then Some (None, S)
      else let S1 = add_count l (-1) S
        in if \<not> sl_count (lh_list S1 l) \<ge> 0 then None
           else map_option (\<lambda>(obj, k). (obj, S1\<lparr>lh_links := k\<rparr>)) (removehead l (lh_links S1)))"

definition sl_peek :: "'n \<Rightarrow> 'n list_heap \<Rightarrow> 'n option" where
  "sl_peek l S = (if link_empty l (lh_links S) then None else link_head l (lh_links S))"

subsection \<open>The contents of the lists\<close>

definition holds :: "'n list_heap \<Rightarrow> 'n \<Rightarrow> 'n list \<Rightarrow> bool" where
  "holds S l xs \<longleftrightarrow> ring (lh_links S) (l # xs) \<and> sl_count (lh_list S l) = int (length xs)"

definition state_lists :: "'n set \<Rightarrow> ('n \<Rightarrow> 'n list) \<Rightarrow> 'n list_heap \<Rightarrow> bool" where
  "state_lists A L S \<longleftrightarrow> (\<forall>l \<in> A. holds S l (L l))
     \<and> (\<forall>l \<in> A. \<forall>l' \<in> A. l \<noteq> l' \<longrightarrow> set (l # L l) \<inter> set (l' # L l') = {})"

lemma state_listsD:
  assumes "state_lists A L S" "l \<in> A"
  shows "ring (lh_links S) (l # L l)" "sl_count (lh_list S l) = int (length (L l))" "distinct (l # L l)"
  using assms by (auto simp: state_lists_def holds_def ring_def)

lemma state_lists_disjoint:
  "state_lists A L S \<Longrightarrow> l \<in> A \<Longrightarrow> l' \<in> A \<Longrightarrow> l \<noteq> l' \<Longrightarrow> set (l # L l) \<inter> set (l' # L l') = {}"
  unfolding state_lists_def by blast

text \<open>A change to one list and to objects on no list keeps the other lists.\<close>

lemma state_lists_update:
  assumes "state_lists A L S" "l \<in> A" "holds S' l xs"
    and "same_outside (set (l # L l) \<union> N) (lh_links S) (lh_links S')"
    and "set (l # xs) \<subseteq> set (l # L l) \<union> N"
    and "\<And>l'. l' \<noteq> l \<Longrightarrow> lh_list S' l' = lh_list S l'"
    and "\<And>l'. l' \<in> A \<Longrightarrow> l' \<noteq> l \<Longrightarrow> N \<inter> set (l' # L l') = {}"
  shows "state_lists A (L(l := xs)) S'"
proof -
  have sep: "(set (l # L l) \<union> N) \<inter> set (l' # L l') = {}" if "l' \<in> A" "l' \<noteq> l" for l'
    using state_lists_disjoint [OF assms(1,2) that(1)] assms(7) [OF that] that(2) by blast
  have other: "holds S' l' (L l')" if "l' \<in> A" "l' \<noteq> l" for l'
    using ring_outside [OF assms(4), of "l' # L l'"] sep [OF that] assms(6) [OF that(2)] that(1) assms(1)
    by (auto simp: state_lists_def holds_def)
  have dis: "set (l # xs) \<inter> set (l' # L l') = {}" if "l' \<in> A" "l' \<noteq> l" for l'
    using sep [OF that] assms(5) by blast
  show ?thesis
    unfolding state_lists_def
  proof (intro conjI ballI impI)
    fix l' assume "l' \<in> A"
    then show "holds S' l' ((L(l := xs)) l')" using other assms(3) by simp
  next
    fix a b assume ab: "a \<in> A" "b \<in> A" "a \<noteq> b"
    consider "a = l" | "b = l" | "a \<noteq> l" "b \<noteq> l" by blast
    then show "set (a # (L(l := xs)) a) \<inter> set (b # (L(l := xs)) b) = {}"
    proof cases
      case 1
      then show ?thesis using dis [OF ab(2)] ab(3) by simp
    next
      case 2
      then show ?thesis using dis [OF ab(1)] ab(3) by (simp add: Int_commute)
    next
      case 3
      then show ?thesis using state_lists_disjoint [OF assms(1) ab] by simp
    qed
  qed
qed

lemma add_count_simps [simp]:
  "lh_links (add_count l d S) = lh_links S"
  "sl_count (lh_list (add_count l d S) l) = sl_count (lh_list S l) + d"
  "l' \<noteq> l \<Longrightarrow> lh_list (add_count l d S) l' = lh_list S l'"
  "lh_list (S\<lparr>lh_links := k\<rparr>) = lh_list S"
  "lh_links (S\<lparr>lh_links := k\<rparr>) = k"
  by (simp_all add: add_count_def put_list_def)

definition on_no_list :: "'n set \<Rightarrow> ('n \<Rightarrow> 'n list) \<Rightarrow> 'n \<Rightarrow> bool" where
  "on_no_list A L e \<longleftrightarrow> (\<forall>l \<in> A. e \<notin> set (l # L l))"

lemma enqueue_lists:
  assumes "state_lists A L S" "l \<in> A" "on_no_list A L e"
  obtains S' where "sl_enqueue l e S = Some S'" "state_lists A (L(l := L l @ [e])) S'"
proof -
  note d = state_listsD [OF assms(1,2)]
  obtain k where k: "addtail e l (lh_links S) = Some k" "ring k (l # L l @ [e])"
      "same_outside (set (e # l # L l)) (lh_links S) k"
    using addtail_ring [OF d(1), of e] assms(2,3) unfolding on_no_list_def by metis
  let ?S = "add_count l 1 (S\<lparr>lh_links := k\<rparr>)"
  have "state_lists A (L(l := L l @ [e])) ?S"
  proof (rule state_lists_update [OF assms(1,2), where N = "{e}"])
    show "holds ?S l (L l @ [e])" using k(2) d(2) by (simp add: holds_def)
    show "same_outside (set (l # L l) \<union> {e}) (lh_links S) (lh_links ?S)"
      using k(3) by (rule_tac same_outside_mono) auto
  qed (use assms(3) in \<open>auto simp: on_no_list_def\<close>)
  then show ?thesis using that [of ?S] k(1) by (simp add: sl_enqueue_def)
qed

lemma enqueue_after_lists:
  assumes "state_lists A L S" "l \<in> A" "on_no_list A L e" "L l = xs @ p # ys"
  obtains S' where "sl_enqueue_after l e (Some p) S = Some S'" "state_lists A (L(l := xs @ p # e # ys)) S'"
proof -
  note d = state_listsD [OF assms(1,2)]
  have r: "ring (lh_links S) (p # ys @ l # xs)"
    using d(1) ring_rotate [of "l # xs" "p # ys" "lh_links S"] assms(4) by simp
  have "e \<notin> set (p # ys @ l # xs)" using assms(2,3,4) unfolding on_no_list_def by auto
  then obtain k where k: "addhead e p (lh_links S) = Some k" "ring k (p # e # ys @ l # xs)"
      "same_outside (set (e # p # ys @ l # xs)) (lh_links S) k"
    by (rule addhead_ring [OF r])
  let ?S = "add_count l 1 (S\<lparr>lh_links := k\<rparr>)"
  have "ring k ((l # xs) @ p # e # ys)" using k(2) ring_rotate [of "p # e # ys" "l # xs" k] by simp
  then have "holds ?S l (xs @ p # e # ys)" using d(2) assms(4) by (simp add: holds_def)
  moreover have "same_outside (set (l # L l) \<union> {e}) (lh_links S) (lh_links ?S)"
    using same_outside_mono [OF k(3), of "set (l # L l) \<union> {e}"] assms(4) by auto
  ultimately have "state_lists A (L(l := xs @ p # e # ys)) ?S"
    by (rule state_lists_update [OF assms(1,2), where N = "{e}"]) (use assms(3,4) in \<open>auto simp: on_no_list_def\<close>)
  then show ?thesis using that [of ?S] k(1) by (simp add: sl_enqueue_after_def)
qed

lemma enqueue_first_lists:
  assumes "state_lists A L S" "l \<in> A" "on_no_list A L e"
  obtains S' where "sl_enqueue_after l e None S = Some S'" "state_lists A (L(l := e # L l)) S'"
proof -
  note d = state_listsD [OF assms(1,2)]
  obtain k where k: "addhead e l (lh_links S) = Some k" "ring k (l # e # L l)"
      "same_outside (set (e # l # L l)) (lh_links S) k"
    using addhead_ring [OF d(1), of e] assms(2,3) unfolding on_no_list_def by metis
  let ?S = "add_count l 1 (S\<lparr>lh_links := k\<rparr>)"
  have "state_lists A (L(l := e # L l)) ?S"
  proof (rule state_lists_update [OF assms(1,2), where N = "{e}"])
    show "holds ?S l (e # L l)" using k(2) d(2) by (simp add: holds_def)
    show "same_outside (set (l # L l) \<union> {e}) (lh_links S) (lh_links ?S)"
      using k(3) by (rule_tac same_outside_mono) auto
  qed (use assms(3) in \<open>auto simp: on_no_list_def\<close>)
  then show ?thesis using that [of ?S] k(1) by (simp add: sl_enqueue_after_def)
qed

lemma remove_lists:
  assumes "state_lists A L S" "l \<in> A" "e \<in> set (L l)"
  obtains S' where "sl_remove l e S = Some S'" "state_lists A (L(l := remove1 e (L l))) S'"
    "on_no_list A (L(l := remove1 e (L l))) e" "ring (lh_links S') [e]"
proof -
  note d = state_listsD [OF assms(1,2)]
  obtain xs ys where xy: "L l = xs @ e # ys" "e \<notin> set xs" using split_list_first [OF assms(3)] by blast
  have rem: "remove1 e (L l) = xs @ ys" using xy by (simp add: remove1_append)
  have r: "ring (lh_links S) ((l # xs) @ e # ys)" using d(1) xy by simp
  obtain k where k: "unlink e (lh_links S) = Some k" "ring k [e]" "(l # xs) @ ys \<noteq> [] \<longrightarrow> ring k ((l # xs) @ ys)"
      "same_outside (set ((l # xs) @ e # ys)) (lh_links S) k" by (rule unlink_ring [OF r])
  have "ring (lh_links S) (e # ys @ l # xs)" using r ring_rotate [of "l # xs" "e # ys"] by simp
  then have lk: "linked e (lh_links S)" by (simp add: ring_linked)
  let ?S = "add_count l (-1) (S\<lparr>lh_links := k\<rparr>)"
  have "holds ?S l (xs @ ys)" using k(3) d(2) xy by (simp add: holds_def)
  moreover have "same_outside (set (l # L l) \<union> {}) (lh_links S) (lh_links ?S)"
    using same_outside_mono [OF k(4), of "set (l # L l)"] xy by auto
  ultimately have "state_lists A (L(l := xs @ ys)) ?S"
    by (rule state_lists_update [OF assms(1,2), where N = "{}"]) (use xy in auto)
  moreover have "on_no_list A (L(l := xs @ ys)) e"
    using state_lists_disjoint [OF assms(1,2)] d(3) xy assms(3) by (fastforce simp: on_no_list_def)
  ultimately show ?thesis using that [of ?S] k(1,2) lk d(2) xy rem by (simp add: sl_remove_def Let_def)
qed

lemma peek_lists:
  assumes "state_lists A L S" "l \<in> A"
  shows "sl_peek l S = (case L l of [] \<Rightarrow> None | e # _ \<Rightarrow> Some e)"
  using ring_neighbours [OF state_listsD(1) [OF assms]] ring_link_empty [OF state_listsD(1) [OF assms]]
  by (cases "L l") (auto simp: sl_peek_def link_head_def)

lemma dequeue_lists:
  assumes "state_lists A L S" "l \<in> A"
  obtains S' where "sl_dequeue l S = Some (case L l of [] \<Rightarrow> None | e # _ \<Rightarrow> Some e, S')"
    "state_lists A (L(l := tl (L l))) S'"
proof (cases "L l")
  case Nil
  then have "L(l := tl (L l)) = L" by (simp add: fun_upd_idem)
  then show ?thesis using that [of S] Nil assms ring_link_empty [OF state_listsD(1) [OF assms]] by (simp add: sl_dequeue_def)
next
  case (Cons e ys)
  note d = state_listsD [OF assms]
  have "ring (lh_links S) ([l] @ e # ys)" using d(1) Cons by simp
  then obtain k where k: "unlink e (lh_links S) = Some k" "ring k [e]" "[l] @ ys \<noteq> [] \<longrightarrow> ring k ([l] @ ys)"
      "same_outside (set ([l] @ e # ys)) (lh_links S) k" by (rule unlink_ring)
  let ?S = "(add_count l (-1) S)\<lparr>lh_links := k\<rparr>"
  have "holds ?S l ys" using k(3) d(2) Cons by (simp add: holds_def)
  moreover have "same_outside (set (l # L l) \<union> {}) (lh_links S) (lh_links ?S)" using k(4) Cons by simp
  ultimately have "state_lists A (L(l := ys)) ?S"
    by (rule state_lists_update [OF assms, where N = "{}"]) (use Cons in auto)
  moreover have "sl_dequeue l S = Some (Some e, ?S)"
    using ring_neighbours [OF d(1)] ring_link_empty [OF d(1)] k(1) d(2) Cons
    by (simp add: sl_dequeue_def removehead_def Let_def)
  ultimately show ?thesis using that Cons by simp
qed

lemma sl_reset_simps [simp]:
  "lh_links (sl_reset l S) = link_reset l (lh_links S)"
  "sl_count (lh_list (sl_reset l S) l) = 0"
  "l' \<noteq> l \<Longrightarrow> lh_list (sl_reset l S) l' = lh_list S l'"
  by (simp_all add: sl_reset_def put_list_def Let_def)

lemma reset_lists:
  assumes "state_lists A L S" "\<forall>l' \<in> A. l' \<noteq> l \<longrightarrow> l \<notin> set (l' # L l')"
  shows "state_lists (insert l A) (L(l := [])) (sl_reset l S)"
proof -
  have out: "same_outside {l} (lh_links S) (lh_links (sl_reset l S))" using link_reset_ring(2) by simp
  have "holds (sl_reset l S) l' (L l')" if "l' \<in> A" "l' \<noteq> l" for l'
    using ring_outside [OF out, of "l' # L l'"] assms that by (auto simp: state_lists_def holds_def)
  moreover have "holds (sl_reset l S) l []" using link_reset_ring(1) by (simp add: holds_def)
  moreover have "set (a # (L(l := [])) a) \<inter> set (b # (L(l := [])) b) = {}"
    if "a \<in> insert l A" "b \<in> insert l A" "a \<noteq> b" for a b
    using that assms(2) state_lists_disjoint [OF assms(1), of a b] by (cases "a = l"; cases "b = l") auto
  ultimately show ?thesis by (auto simp: state_lists_def)
qed

lemma lol_reset_lists:
  "state_lists A (\<lambda>_. []) S \<Longrightarrow> state_lists (A \<union> set ls) (\<lambda>_. []) (lol_reset ls S)"
proof (induction ls arbitrary: A S)
  case (Cons l ls)
  have "state_lists (insert l A) (\<lambda>_. []) (sl_reset l S)"
    using reset_lists [OF Cons.prems, of l] by (simp add: fun_upd_idem)
  from Cons.IH [OF this] show ?case by (simp add: lol_reset_def)
qed (simp add: lol_reset_def)

lemma link_reset_lists:
  assumes "state_lists A L S" "on_no_list A L e"
  shows "state_lists A L (S\<lparr>lh_links := link_reset e (lh_links S)\<rparr>)"
proof -
  have "holds (S\<lparr>lh_links := link_reset e (lh_links S)\<rparr>) l (L l)" if "l \<in> A" for l
    using ring_outside [OF link_reset_ring(2), of "l # L l" e "lh_links S"] assms that
    by (auto simp: state_lists_def holds_def on_no_list_def)
  then show ?thesis using assms(1) by (simp add: state_lists_def)
qed

lemma init_lists:
  assumes "state_lists A L S" "\<forall>l' \<in> A. l' \<noteq> l \<longrightarrow> l \<notin> set (l' # L l')" "length lol < 64"
  obtains S' where "sl_init l flags lol S = Some (lol @ [l], S')" "state_lists (insert l A) (L(l := [])) S'"
proof -
  let ?S = "put_list l ((lh_list S l)\<lparr>sl_flags := flags, sl_listid := int (length lol)\<rparr>) S"
  have "state_lists A L ?S" using assms(1) by (auto simp: state_lists_def holds_def put_list_def)
  then show ?thesis using that [of "sl_reset l ?S"] reset_lists [of A L ?S l] assms(2,3)
    by (simp add: sl_init_def lol_add_def)
qed

end
