(* ===== verification/Phys_Regs.thy ===== *)
theory Phys_Regs
  imports State_Lists Cluster_Tables
begin

text \<open>
  The physical register files of \<^verbatim>\<open>ooocore.h\<close> and \<^verbatim>\<open>ooocore.cpp\<close>. Each register is linked into the
  list of its state in its register file; \<^verbatim>\<open>changestate\<close> moves it to the end of another list. The
  core has one thread (\<^verbatim>\<open>ENABLE_SMT\<close> is not defined), so a reorder buffer entry is its index. The
  reference count is a signed 16-bit integer. A failed assertion is \<^const>\<open>None\<close>.
\<close>

subsection \<open>State\<close>

definition MAX_PHYS_REG_FILE_SIZE :: nat where "MAX_PHYS_REG_FILE_SIZE = 256"
definition PHYS_REG_FILE_SIZE :: nat where "PHYS_REG_FILE_SIZE = 256"
definition PHYS_REG_NULL :: nat where "PHYS_REG_NULL = 0"
definition PHYS_REG_FILE_COUNT :: nat where "PHYS_REG_FILE_COUNT = 4"
definition MAX_BRANCHES_IN_FLIGHT :: nat where "MAX_BRANCHES_IN_FLIGHT = 16"
definition STQ_SIZE :: nat where "STQ_SIZE = 32"
definition MAX_THREADS_PER_CORE :: nat where "MAX_THREADS_PER_CORE = 1"

record PhysicalRegister =
  pr_rob :: "nat option"
  pr_data :: W64
  pr_flags :: W16
  pr_idx :: nat
  pr_rfid :: nat
  pr_state :: nat
  pr_archreg :: nat
  pr_all_consumers_sourced_from_bypass :: bool
  pr_refcount :: W16
  pr_threadid :: W8

record PhysicalRegisterFile =
  pf_regs :: "PhysicalRegister list"
  pf_size :: nat
  pf_rfid :: nat
  pf_allocations :: W64
  pf_frees :: W64

text \<open>The addresses that are linked: the list of a state of a register file, and a register of it.\<close>

datatype reg_node = ListOf nat nat | Reg nat nat

type_synonym preg = "nat \<times> nat"

record RegFiles =
  rf_files :: "PhysicalRegisterFile list"
  rf_heap :: "reg_node list_heap"
  rf_states :: "reg_node ListOfStateLists"

definition preg_of :: "RegFiles \<Rightarrow> preg \<Rightarrow> PhysicalRegister" where
  "preg_of C p = pf_regs (rf_files C ! fst p) ! snd p"

definition upd_file :: "nat \<Rightarrow> (PhysicalRegisterFile \<Rightarrow> PhysicalRegisterFile) \<Rightarrow> RegFiles \<Rightarrow> RegFiles" where
  "upd_file f g C = C\<lparr>rf_files := (rf_files C)[f := g (rf_files C ! f)]\<rparr>"

definition upd_preg :: "preg \<Rightarrow> (PhysicalRegister \<Rightarrow> PhysicalRegister) \<Rightarrow> RegFiles \<Rightarrow> RegFiles" where
  "upd_preg p g C = upd_file (fst p)
     (\<lambda>F. F\<lparr>pf_regs := (pf_regs F)[snd p := g (pf_regs F ! snd p)]\<rparr>) C"

subsection \<open>Operations of a register\<close>

definition get_state_list :: "preg \<Rightarrow> nat \<Rightarrow> RegFiles \<Rightarrow> reg_node" where
  "get_state_list p s C = ListOf (pr_rfid (preg_of C p)) s"

definition node_of :: "preg \<Rightarrow> reg_node" where
  "node_of p = Reg (fst p) (snd p)"

definition changestate :: "preg \<Rightarrow> nat \<Rightarrow> RegFiles \<Rightarrow> RegFiles option" where
  "changestate p newstate C =
     (case (if pr_state (preg_of C p) \<noteq> PHYSREG_NONE
            then sl_remove (get_state_list p (pr_state (preg_of C p)) C) (node_of p) (rf_heap C)
            else Some (rf_heap C)) of
        None \<Rightarrow> None
      | Some k \<Rightarrow>
          let C1 = upd_preg p (\<lambda>r. r\<lparr>pr_state := newstate\<rparr>) (C\<lparr>rf_heap := k\<rparr>)
          in map_option (\<lambda>k'. C1\<lparr>rf_heap := k'\<rparr>)
               (sl_enqueue (get_state_list p (pr_state (preg_of C1 p)) C1) (node_of p) (rf_heap C1)))"

definition addref :: "preg \<Rightarrow> RegFiles \<Rightarrow> RegFiles" where
  "addref p C = upd_preg p (\<lambda>r. r\<lparr>pr_refcount := pr_refcount r + 1\<rparr>) C"

definition unref :: "preg \<Rightarrow> RegFiles \<Rightarrow> RegFiles option" where
  "unref p C =
     (let C' = upd_preg p (\<lambda>r. r\<lparr>pr_refcount := pr_refcount r - 1\<rparr>) C
      in if pr_idx (preg_of C' p) = 0 \<or> sint (pr_refcount (preg_of C' p)) \<ge> 0 then Some C' else None)"

definition referenced :: "preg \<Rightarrow> RegFiles \<Rightarrow> bool" where
  "referenced p C \<longleftrightarrow> sint (pr_refcount (preg_of C p)) > 0"

definition preg_nonnull :: "preg \<Rightarrow> RegFiles \<Rightarrow> bool" where
  "preg_nonnull p C \<longleftrightarrow> pr_idx (preg_of C p) \<noteq> PHYS_REG_NULL"

definition allocated :: "preg \<Rightarrow> RegFiles \<Rightarrow> bool" where
  "allocated p C \<longleftrightarrow> pr_state (preg_of C p) \<noteq> PHYSREG_FREE"

definition preg_commit :: "preg \<Rightarrow> RegFiles \<Rightarrow> RegFiles option" where
  "preg_commit p = changestate p PHYSREG_ARCH"

definition preg_complete :: "preg \<Rightarrow> RegFiles \<Rightarrow> RegFiles option" where
  "preg_complete p = changestate p PHYSREG_BYPASS"

definition preg_writeback :: "preg \<Rightarrow> RegFiles \<Rightarrow> RegFiles option" where
  "preg_writeback p = changestate p PHYSREG_WRITTEN"

definition preg_free :: "preg \<Rightarrow> RegFiles \<Rightarrow> RegFiles option" where
  "preg_free p C = map_option
     (upd_preg p (\<lambda>r. r\<lparr>pr_rob := None, pr_refcount := 0, pr_threadid := 0xff,
        pr_all_consumers_sourced_from_bypass := True\<rparr>)) (changestate p PHYSREG_FREE C)"

definition unlink_reset :: "preg \<Rightarrow> RegFiles \<Rightarrow> RegFiles" where
  "unlink_reset p C = upd_preg p (\<lambda>r. r\<lparr>pr_state := PHYSREG_NONE\<rparr>)
     (C\<lparr>rf_heap := (rf_heap C)\<lparr>lh_links := link_reset (node_of p) (lh_links (rf_heap C))\<rparr>\<rparr>)"

definition preg_reset :: "preg \<Rightarrow> RegFiles \<Rightarrow> RegFiles option" where
  "preg_reset p C = preg_free p (unlink_reset p C)"

definition preg_reset_thread :: "preg \<Rightarrow> W8 \<Rightarrow> bool \<Rightarrow> RegFiles \<Rightarrow> RegFiles option" where
  "preg_reset_thread p threadid check_id C =
     (if check_id \<and> pr_threadid (preg_of C p) \<noteq> threadid then Some C
      else preg_free p (if \<not> check_id then unlink_reset p C else C))"

definition preg_valid :: "preg \<Rightarrow> RegFiles \<Rightarrow> bool" where
  "preg_valid p C \<longleftrightarrow> pr_flags (preg_of C p) AND FLAG_INV = 0"

definition preg_ready :: "preg \<Rightarrow> RegFiles \<Rightarrow> bool" where
  "preg_ready p C \<longleftrightarrow> pr_flags (preg_of C p) AND FLAG_WAIT = 0"

definition preg_init :: "nat \<Rightarrow> nat \<Rightarrow> RegFiles \<Rightarrow> RegFiles option" where
  "preg_init rfid idx C =
     preg_reset (rfid, idx) (upd_preg (rfid, idx) (\<lambda>r. r\<lparr>pr_rfid := rfid, pr_idx := idx\<rparr>) C)"

subsection \<open>Operations of a register file\<close>

fun foreach_reg :: "(nat \<Rightarrow> RegFiles \<Rightarrow> RegFiles option) \<Rightarrow> nat list \<Rightarrow> RegFiles \<Rightarrow> RegFiles option" where
  "foreach_reg f [] C = Some C"
| "foreach_reg f (i # is) C = (case f i C of None \<Rightarrow> None | Some C' \<Rightarrow> foreach_reg f is C')"

definition pf_remaining :: "nat \<Rightarrow> RegFiles \<Rightarrow> bool" where
  "pf_remaining rfid C \<longleftrightarrow> \<not> link_empty (ListOf rfid PHYSREG_FREE) (lh_links (rf_heap C))"

definition pf_alloc :: "nat \<Rightarrow> W8 \<Rightarrow> int \<Rightarrow> RegFiles \<Rightarrow> (preg option \<times> RegFiles) option" where
  "pf_alloc rfid threadid r C =
     (case (if r = 0 then Some (Reg rfid 0) else sl_peek (ListOf rfid PHYSREG_FREE) (rf_heap C)) of
        None \<Rightarrow> Some (None, C)
      | Some (ListOf _ _) \<Rightarrow> None
      | Some (Reg f i) \<Rightarrow>
          (case changestate (f, i) PHYSREG_WAITING C of None \<Rightarrow> None
           | Some C1 \<Rightarrow>
               let C2 = upd_file rfid (\<lambda>F. F\<lparr>pf_allocations := pf_allocations F + 1\<rparr>)
                     (upd_preg (f, i) (\<lambda>r. r\<lparr>pr_flags := FLAG_WAIT, pr_threadid := threadid\<rparr>) C1)
               in if sl_count (lh_list (rf_heap C2) (ListOf rfid PHYSREG_FREE)) \<ge> 0
                  then Some (Some (f, i), C2) else None))"

definition pf_reset_thread :: "nat \<Rightarrow> W8 \<Rightarrow> RegFiles \<Rightarrow> RegFiles option" where
  "pf_reset_thread rfid threadid C =
     foreach_reg (\<lambda>i C. if pr_threadid (preg_of C (rfid, i)) = threadid
        then preg_reset_thread (rfid, i) threadid True C else Some C) [0..<pf_size (rf_files C ! rfid)] C"

definition reset_states :: "nat \<Rightarrow> RegFiles \<Rightarrow> RegFiles" where
  "reset_states rfid C =
     C\<lparr>rf_heap := fold (\<lambda>s. sl_reset (ListOf rfid s)) [0..<MAX_PHYSREG_STATE] (rf_heap C)\<rparr>"

definition pf_reset :: "nat \<Rightarrow> RegFiles \<Rightarrow> RegFiles option" where
  "pf_reset rfid C =
     foreach_reg (\<lambda>i. preg_reset_thread (rfid, i) 0 False) [0..<pf_size (rf_files C ! rfid)] (reset_states rfid C)"

fun init_states :: "nat \<Rightarrow> nat list \<Rightarrow> RegFiles \<Rightarrow> RegFiles option" where
  "init_states rfid [] C = Some C"
| "init_states rfid (s # ss) C =
     (case sl_init (ListOf rfid s) 0 (rf_states C) (rf_heap C) of None \<Rightarrow> None
      | Some (lol, k) \<Rightarrow> init_states rfid ss (C\<lparr>rf_states := lol, rf_heap := k\<rparr>))"

definition pf_init :: "nat \<Rightarrow> nat \<Rightarrow> RegFiles \<Rightarrow> RegFiles option" where
  "pf_init rfid sz C =
     (if \<not> rfid < PHYS_REG_FILE_COUNT \<or> \<not> sz \<le> MAX_PHYS_REG_FILE_SIZE then None
      else case init_states rfid [0..<MAX_PHYSREG_STATE]
               (upd_file rfid (\<lambda>F. F\<lparr>pf_size := sz, pf_rfid := rfid, pf_allocations := 0, pf_frees := 0\<rparr>) C) of
             None \<Rightarrow> None
           | Some C1 \<Rightarrow> foreach_reg (preg_init rfid) [0..<sz] C1)"

definition pf_construct :: "nat \<Rightarrow> nat \<Rightarrow> RegFiles \<Rightarrow> RegFiles option" where
  "pf_construct rfid sz C = (case pf_init rfid sz C of None \<Rightarrow> None | Some C' \<Rightarrow> pf_reset rfid C')"

text \<open>The four register files of the core.\<close>

definition init_physregfiles :: "RegFiles \<Rightarrow> RegFiles option" where
  "init_physregfiles C =
     foreach_reg (\<lambda>rfid. pf_construct rfid ([PHYS_REG_FILE_SIZE, PHYS_REG_FILE_SIZE,
        STQ_SIZE * MAX_THREADS_PER_CORE, MAX_BRANCHES_IN_FLIGHT * MAX_THREADS_PER_CORE] ! rfid)) [0, 1, 2, 3] C"

subsection \<open>The lists of the states\<close>

type_synonym state_contents = "nat \<Rightarrow> nat \<Rightarrow> nat list"

definition node_contents :: "state_contents \<Rightarrow> reg_node \<Rightarrow> reg_node list" where
  "node_contents L n = (case n of ListOf f s \<Rightarrow> map (Reg f) (L f s) | Reg _ _ \<Rightarrow> [])"

definition state_roots :: "reg_node set" where
  "state_roots = {ListOf f s | f s. f < PHYS_REG_FILE_COUNT \<and> s < MAX_PHYSREG_STATE}"

definition in_file :: "RegFiles \<Rightarrow> preg \<Rightarrow> bool" where
  "in_file C p \<longleftrightarrow> fst p < PHYS_REG_FILE_COUNT \<and> snd p < pf_size (rf_files C ! fst p)"

definition live_state :: "nat \<Rightarrow> bool" where
  "live_state s \<longleftrightarrow> PHYSREG_NONE < s \<and> s < MAX_PHYSREG_STATE"

definition files_shape :: "RegFiles \<Rightarrow> bool" where
  "files_shape C \<longleftrightarrow> length (rf_files C) = PHYS_REG_FILE_COUNT
     \<and> (\<forall>f < PHYS_REG_FILE_COUNT. pf_size (rf_files C ! f) \<le> length (pf_regs (rf_files C ! f)))"

definition regs_ok :: "state_contents \<Rightarrow> RegFiles \<Rightarrow> bool" where
  "regs_ok L C \<longleftrightarrow> files_shape C \<and> state_lists state_roots (node_contents L) (rf_heap C)
     \<and> (\<forall>p. in_file C p \<longrightarrow> pr_rfid (preg_of C p) = fst p \<and> pr_idx (preg_of C p) = snd p
          \<and> live_state (pr_state (preg_of C p)))
     \<and> (\<forall>f < PHYS_REG_FILE_COUNT. \<forall>s < MAX_PHYSREG_STATE.
          set (L f s) = {i. in_file C (f, i) \<and> pr_state (preg_of C (f, i)) = s})"

definition move :: "nat \<Rightarrow> nat \<Rightarrow> nat \<Rightarrow> nat \<Rightarrow> state_contents \<Rightarrow> state_contents" where
  "move f i s s' L =
     (let L1 = L(f := (L f)(s := remove1 i (L f s))) in L1(f := (L1 f)(s' := L1 f s' @ [i])))"

text \<open>Only register \<open>p\<close> differs, and it is \<open>g\<close> of what it was.\<close>

definition only_preg :: "preg \<Rightarrow> (PhysicalRegister \<Rightarrow> PhysicalRegister) \<Rightarrow> RegFiles \<Rightarrow> RegFiles \<Rightarrow> bool" where
  "only_preg p g C C' \<longleftrightarrow> preg_of C' p = g (preg_of C p) \<and> (\<forall>q. q \<noteq> p \<longrightarrow> preg_of C' q = preg_of C q)
     \<and> length (rf_files C') = length (rf_files C)
     \<and> (\<forall>f. pf_size (rf_files C' ! f) = pf_size (rf_files C ! f))
     \<and> (\<forall>f. length (pf_regs (rf_files C' ! f)) = length (pf_regs (rf_files C ! f)))"

lemma in_fileD:
  "files_shape C \<Longrightarrow> in_file C p \<Longrightarrow> fst p < length (rf_files C) \<and> snd p < length (pf_regs (rf_files C ! fst p))"
  by (auto simp: files_shape_def in_file_def)

lemma upd_preg_only:
  assumes "files_shape C" "in_file C p"
  shows "only_preg p g C (upd_preg p g C)" "rf_heap (upd_preg p g C) = rf_heap C"
  using in_fileD [OF assms] by (auto simp: only_preg_def upd_preg_def upd_file_def preg_of_def prod_eq_iff nth_list_update)

lemma only_preg_trans:
  "only_preg p g C C1 \<Longrightarrow> only_preg p g' C1 C2 \<Longrightarrow> only_preg p (g' \<circ> g) C C2"
  by (simp add: only_preg_def)

lemma only_preg_in_file: "only_preg p g C C' \<Longrightarrow> in_file C' q \<longleftrightarrow> in_file C q"
  by (simp add: only_preg_def in_file_def)

lemma only_preg_shape: "only_preg p g C C' \<Longrightarrow> files_shape C' \<longleftrightarrow> files_shape C"
  by (simp add: only_preg_def files_shape_def)

lemma only_preg_heap: "only_preg p g C C' \<Longrightarrow> only_preg p g C (C'\<lparr>rf_heap := k\<rparr>)"
  by (simp add: only_preg_def preg_of_def)

lemma node_contents_move:
  "node_contents (L(f := (L f)(s := xs))) = (node_contents L)(ListOf f s := map (Reg f) xs)"
  by (rule ext) (auto simp: node_contents_def split: reg_node.split)

lemma map_Reg_remove1: "map (Reg f) (remove1 i xs) = remove1 (Reg f i) (map (Reg f) xs)"
  by (induction xs) auto

lemma regs_okD:
  assumes "regs_ok L C"
  shows "files_shape C" "state_lists state_roots (node_contents L) (rf_heap C)"
    "\<And>p. in_file C p \<Longrightarrow> pr_rfid (preg_of C p) = fst p \<and> pr_idx (preg_of C p) = snd p \<and> live_state (pr_state (preg_of C p))"
    "\<And>f s i. f < PHYS_REG_FILE_COUNT \<Longrightarrow> s < MAX_PHYSREG_STATE \<Longrightarrow>
       i \<in> set (L f s) \<longleftrightarrow> in_file C (f, i) \<and> pr_state (preg_of C (f, i)) = s"
  using assms by (auto simp: regs_ok_def)

text \<open>A change that keeps the identity and the state of a register keeps everything.\<close>

lemma regs_ok_upd:
  assumes "regs_ok L C" "only_preg p g C C'" "in_file C p" "rf_heap C' = rf_heap C"
    and "\<And>r. pr_state (g r) = pr_state r \<and> pr_rfid (g r) = pr_rfid r \<and> pr_idx (g r) = pr_idx r"
  shows "regs_ok L C'"
proof -
  have e: "pr_state (preg_of C' q) = pr_state (preg_of C q) \<and> pr_rfid (preg_of C' q) = pr_rfid (preg_of C q)
      \<and> pr_idx (preg_of C' q) = pr_idx (preg_of C q)" for q
    using assms(2,5) by (cases "q = p") (simp_all add: only_preg_def del: split_paired_All)
  show ?thesis using assms(1,4) e only_preg_in_file [OF assms(2)] only_preg_shape [OF assms(2)]
    by (simp add: regs_ok_def)
qed

lemma changestate_ok:
  assumes "regs_ok L C" "in_file C (f, i)" "live_state s'" "s = pr_state (preg_of C (f, i))"
  obtains C' where "changestate (f, i) s' C = Some C'" "regs_ok (move f i s s' L) C'"
    "only_preg (f, i) (\<lambda>r. r\<lparr>pr_state := s'\<rparr>) C C'"
proof -
  note d = regs_okD [OF assms(1)]
  let ?p = "(f, i)"
  have f: "f < PHYS_REG_FILE_COUNT" using assms(2) by (simp add: in_file_def)
  have st: "s \<noteq> PHYSREG_NONE" "s < MAX_PHYSREG_STATE" "s' < MAX_PHYSREG_STATE"
    using d(3) [OF assms(2)] assms(3,4) by (auto simp: live_state_def)
  have root: "ListOf f s \<in> state_roots" "ListOf f s' \<in> state_roots" using f st by (auto simp: state_roots_def)
  have "i \<in> set (L f s)" using d(4) [OF f st(2)] assms(2,4) by simp
  then have "Reg f i \<in> set (node_contents L (ListOf f s))" by (simp add: node_contents_def)
  then obtain k where k: "sl_remove (ListOf f s) (Reg f i) (rf_heap C) = Some k"
      "state_lists state_roots ((node_contents L)(ListOf f s := remove1 (Reg f i) (node_contents L (ListOf f s)))) k"
      "on_no_list state_roots ((node_contents L)(ListOf f s := remove1 (Reg f i) (node_contents L (ListOf f s)))) (Reg f i)"
    by (rule remove_lists [OF d(2) root(1)])
  define L1 where "L1 = L(f := (L f)(s := remove1 i (L f s)))"
  have n1: "(node_contents L)(ListOf f s := remove1 (Reg f i) (node_contents L (ListOf f s))) = node_contents L1"
    unfolding L1_def node_contents_move by (simp add: node_contents_def map_Reg_remove1)
  obtain k' where k': "sl_enqueue (ListOf f s') (Reg f i) k = Some k'"
      "state_lists state_roots ((node_contents L1)(ListOf f s' := node_contents L1 (ListOf f s') @ [Reg f i])) k'"
    by (rule enqueue_lists [OF k(2) [unfolded n1] root(2) k(3) [unfolded n1]])
  have n2: "(node_contents L1)(ListOf f s' := node_contents L1 (ListOf f s') @ [Reg f i]) = node_contents (move f i s s' L)"
    unfolding move_def Let_def L1_def [symmetric] node_contents_move by (simp add: node_contents_def)
  let ?C1 = "upd_preg ?p (\<lambda>r. r\<lparr>pr_state := s'\<rparr>) (C\<lparr>rf_heap := k\<rparr>)" and ?C = "upd_preg ?p (\<lambda>r. r\<lparr>pr_state := s'\<rparr>) (C\<lparr>rf_heap := k\<rparr>)\<lparr>rf_heap := k'\<rparr>"
  have sk: "files_shape (C\<lparr>rf_heap := k\<rparr>)" "in_file (C\<lparr>rf_heap := k\<rparr>) ?p"
    using d(1) assms(2) by (simp_all add: files_shape_def in_file_def)
  have only: "only_preg ?p (\<lambda>r. r\<lparr>pr_state := s'\<rparr>) C ?C1"
    using upd_preg_only(1) [OF sk, of "\<lambda>r. r\<lparr>pr_state := s'\<rparr>"] by (simp add: only_preg_def preg_of_def)
  have rf: "pr_rfid (preg_of C ?p) = f" "pr_rfid (preg_of ?C1 ?p) = f" "pr_state (preg_of ?C1 ?p) = s'"
    using d(3) [OF assms(2)] only by (simp_all add: only_preg_def)
  have heap: "rf_heap ?C1 = k" using upd_preg_only(2) [OF sk] by simp
  have c: "changestate ?p s' C = Some ?C"
    using k(1) k'(1) st(1) assms(4) rf heap by (simp add: changestate_def get_state_list_def node_of_def Let_def)
  have only': "only_preg ?p (\<lambda>r. r\<lparr>pr_state := s'\<rparr>) C ?C" by (rule only_preg_heap [OF only])
  have mem: "j \<in> set (move f i s s' L f2 t) \<longleftrightarrow> in_file ?C (f2, j) \<and> pr_state (preg_of ?C (f2, j)) = t"
    if ft: "f2 < PHYS_REG_FILE_COUNT" "t < MAX_PHYSREG_STATE" for f2 t j
  proof -
    have "distinct (L f s)" using state_listsD(3) [OF d(2) root(1)] by (simp add: node_contents_def distinct_map)
    then have m: "j \<in> set (move f i s s' L f2 t) \<longleftrightarrow>
        (if f2 = f \<and> j = i then t = s' else j \<in> set (L f2 t))"
      using d(4) [OF ft, of j] assms(4) by (auto simp: move_def Let_def)
    show ?thesis
      unfolding m only_preg_in_file [OF only'] using d(4) [OF ft, of j] only' assms(2)
      by (cases "f2 = f \<and> j = i") (auto simp: only_preg_def)
  qed
  have "regs_ok (move f i s s' L) ?C"
    unfolding regs_ok_def
  proof (intro conjI allI impI)
    show "files_shape ?C" using only_preg_shape [OF only'] d(1) by simp
    show "state_lists state_roots (node_contents (move f i s s' L)) (rf_heap ?C)" using k'(2) n2 by simp
  next
    fix q assume "in_file ?C q"
    then have "in_file C q" using only_preg_in_file [OF only'] by simp
    from d(3) [OF this] have q: "pr_rfid (preg_of ?C q) = fst q" "pr_idx (preg_of ?C q) = snd q"
        "live_state (pr_state (preg_of ?C q))"
      using only' assms(3) by (cases "q = ?p"; simp add: only_preg_def del: split_paired_All)+
    show "pr_rfid (preg_of ?C q) = fst q" "pr_idx (preg_of ?C q) = snd q" "live_state (pr_state (preg_of ?C q))"
      using q by simp_all
  next
    fix f2 t assume "f2 < PHYS_REG_FILE_COUNT" "t < MAX_PHYSREG_STATE"
    from mem [OF this] show "set (move f i s s' L f2 t) = {j. in_file ?C (f2, j) \<and> pr_state (preg_of ?C (f2, j)) = t}"
      by blast
  qed
  then show ?thesis using that c only' by blast
qed

subsection \<open>What the operations do\<close>

lemma free_ok:
  assumes "regs_ok L C" "in_file C (f, i)" "s = pr_state (preg_of C (f, i))"
  obtains C' where "preg_free (f, i) C = Some C'" "regs_ok (move f i s PHYSREG_FREE L) C'"
    "only_preg (f, i) (\<lambda>r. r\<lparr>pr_state := PHYSREG_FREE, pr_rob := None, pr_refcount := 0, pr_threadid := 0xff,
       pr_all_consumers_sourced_from_bypass := True\<rparr>) C C'"
proof -
  have live: "live_state PHYSREG_FREE" by (simp add: live_state_def PHYSREG_NONE_def PHYSREG_FREE_def MAX_PHYSREG_STATE_def)
  obtain C1 where c: "changestate (f, i) PHYSREG_FREE C = Some C1" "regs_ok (move f i s PHYSREG_FREE L) C1"
      "only_preg (f, i) (\<lambda>r. r\<lparr>pr_state := PHYSREG_FREE\<rparr>) C C1"
    by (rule changestate_ok [OF assms(1,2) live assms(3)])
  let ?g = "\<lambda>r. r\<lparr>pr_rob := None, pr_refcount := 0, pr_threadid := 0xff, pr_all_consumers_sourced_from_bypass := True\<rparr>"
  have in1: "in_file C1 (f, i)" using only_preg_in_file [OF c(3)] assms(2) by simp
  note u = upd_preg_only [OF regs_okD(1) [OF c(2)] in1, of ?g]
  have "regs_ok (move f i s PHYSREG_FREE L) (upd_preg (f, i) ?g C1)"
    by (rule regs_ok_upd [OF c(2) u(1) in1 u(2)]) simp
  moreover have "only_preg (f, i) (?g \<circ> (\<lambda>r. r\<lparr>pr_state := PHYSREG_FREE\<rparr>)) C (upd_preg (f, i) ?g C1)"
    by (rule only_preg_trans [OF c(3) u(1)])
  ultimately show ?thesis using that [of "upd_preg (f, i) ?g C1"] c(1) by (simp add: preg_free_def comp_def)
qed

lemma upd_file_alloc:
  "only_preg p g C C' \<Longrightarrow> only_preg p g C (upd_file f (\<lambda>F. F\<lparr>pf_allocations := v F\<rparr>) C')"
  "regs_ok L C' \<Longrightarrow> regs_ok L (upd_file f (\<lambda>F. F\<lparr>pf_allocations := v F\<rparr>) C')"
  "rf_heap (upd_file f h C') = rf_heap C'"
proof -
  have e: "pf_regs (rf_files (upd_file f (\<lambda>F. F\<lparr>pf_allocations := v F\<rparr>) C') ! x) = pf_regs (rf_files C' ! x)"
    "pf_size (rf_files (upd_file f (\<lambda>F. F\<lparr>pf_allocations := v F\<rparr>) C') ! x) = pf_size (rf_files C' ! x)" for x
  proof -
    consider "f < length (rf_files C')" | "length (rf_files C') \<le> f" by linarith
    then show "pf_regs (rf_files (upd_file f (\<lambda>F. F\<lparr>pf_allocations := v F\<rparr>) C') ! x) = pf_regs (rf_files C' ! x)"
      "pf_size (rf_files (upd_file f (\<lambda>F. F\<lparr>pf_allocations := v F\<rparr>) C') ! x) = pf_size (rf_files C' ! x)"
      by (cases; simp add: upd_file_def list_update_beyond)+
  qed
  have l: "length (rf_files (upd_file f (\<lambda>F. F\<lparr>pf_allocations := v F\<rparr>) C')) = length (rf_files C')"
    by (simp add: upd_file_def)
  have p: "preg_of (upd_file f (\<lambda>F. F\<lparr>pf_allocations := v F\<rparr>) C') = preg_of C'" by (rule ext) (simp add: preg_of_def e)
  have i: "in_file (upd_file f (\<lambda>F. F\<lparr>pf_allocations := v F\<rparr>) C') = in_file C'" by (rule ext) (simp add: in_file_def e)
  show "rf_heap (upd_file f h C') = rf_heap C'" by (simp add: upd_file_def)
  show "only_preg p g C C' \<Longrightarrow> only_preg p g C (upd_file f (\<lambda>F. F\<lparr>pf_allocations := v F\<rparr>) C')"
    by (simp add: only_preg_def e l p)
  show "regs_ok L C' \<Longrightarrow> regs_ok L (upd_file f (\<lambda>F. F\<lparr>pf_allocations := v F\<rparr>) C')"
    unfolding regs_ok_def files_shape_def e l p i by (simp add: upd_file_def)
qed

definition alloc_reg :: "W8 \<Rightarrow> PhysicalRegister \<Rightarrow> PhysicalRegister" where
  "alloc_reg threadid r = r\<lparr>pr_state := PHYSREG_WAITING, pr_flags := FLAG_WAIT, pr_threadid := threadid\<rparr>"

lemma root_FREE: "f < PHYS_REG_FILE_COUNT \<Longrightarrow> ListOf f PHYSREG_FREE \<in> state_roots"
  by (simp add: state_roots_def PHYSREG_FREE_def MAX_PHYSREG_STATE_def)

lemma peek_free:
  assumes "regs_ok L C" "f < PHYS_REG_FILE_COUNT"
  shows "sl_peek (ListOf f PHYSREG_FREE) (rf_heap C) = (case L f PHYSREG_FREE of [] \<Rightarrow> None | i # _ \<Rightarrow> Some (Reg f i))"
    "pf_remaining f C \<longleftrightarrow> L f PHYSREG_FREE \<noteq> []"
  using peek_lists [OF regs_okD(2) [OF assms(1)] root_FREE [OF assms(2)]]
    ring_link_empty [OF state_listsD(1) [OF regs_okD(2) [OF assms(1)] root_FREE [OF assms(2)]]]
  by (auto simp: node_contents_def pf_remaining_def split: list.split)

lemma alloc_none:
  "regs_ok L C \<Longrightarrow> f < PHYS_REG_FILE_COUNT \<Longrightarrow> L f PHYSREG_FREE = [] \<Longrightarrow> pf_alloc f t (-1) C = Some (None, C)"
  by (simp add: pf_alloc_def peek_free)

lemma alloc_at:
  assumes "regs_ok L C" "in_file C (f, i)" "s = pr_state (preg_of C (f, i))"
    and "(if r = 0 then Some (Reg f 0) else sl_peek (ListOf f PHYSREG_FREE) (rf_heap C)) = Some (Reg f i)"
  obtains C' where "pf_alloc f t r C = Some (Some (f, i), C')"
    "regs_ok (move f i s PHYSREG_WAITING L) C'" "only_preg (f, i) (alloc_reg t) C C'"
proof -
  have f: "f < PHYS_REG_FILE_COUNT" using assms(2) by (simp add: in_file_def)
  have live: "live_state PHYSREG_WAITING"
    by (simp add: live_state_def PHYSREG_NONE_def PHYSREG_WAITING_def MAX_PHYSREG_STATE_def)
  obtain C1 where c: "changestate (f, i) PHYSREG_WAITING C = Some C1"
      "regs_ok (move f i s PHYSREG_WAITING L) C1"
      "only_preg (f, i) (\<lambda>r. r\<lparr>pr_state := PHYSREG_WAITING\<rparr>) C C1"
    by (rule changestate_ok [OF assms(1,2) live assms(3)])
  let ?g = "\<lambda>r. r\<lparr>pr_flags := FLAG_WAIT, pr_threadid := t\<rparr>"
  have in1: "in_file C1 (f, i)" using only_preg_in_file [OF c(3)] assms(2) by simp
  note u = upd_preg_only [OF regs_okD(1) [OF c(2)] in1, of ?g]
  have ok: "regs_ok (move f i s PHYSREG_WAITING L) (upd_preg (f, i) ?g C1)"
    by (rule regs_ok_upd [OF c(2) u(1) in1 u(2)]) simp
  let ?C = "upd_file f (\<lambda>F. F\<lparr>pf_allocations := pf_allocations F + 1\<rparr>) (upd_preg (f, i) ?g C1)"
  have "only_preg (f, i) (?g \<circ> (\<lambda>r. r\<lparr>pr_state := PHYSREG_WAITING\<rparr>)) C ?C"
    by (rule upd_file_alloc(1) [OF only_preg_trans [OF c(3) u(1)]])
  moreover have "?g \<circ> (\<lambda>r. r\<lparr>pr_state := PHYSREG_WAITING\<rparr>) = alloc_reg t" by (rule ext) (simp add: alloc_reg_def)
  moreover note ok' = upd_file_alloc(2) [OF ok, of f "\<lambda>F. pf_allocations F + 1"]
  moreover have "0 \<le> sl_count (lh_list (rf_heap ?C) (ListOf f PHYSREG_FREE))"
    using state_listsD(2) [OF regs_okD(2) [OF ok'] root_FREE [OF f]] by simp
  ultimately show ?thesis using that [of ?C] c(1) assms(4) by (simp add: pf_alloc_def Let_def)
qed

lemma alloc_some:
  assumes "regs_ok L C" "f < PHYS_REG_FILE_COUNT" "L f PHYSREG_FREE = i # is"
  obtains C' where "pf_alloc f t (-1) C = Some (Some (f, i), C')" "in_file C (f, i)" "pr_state (preg_of C (f, i)) = PHYSREG_FREE"
    "regs_ok (move f i PHYSREG_FREE PHYSREG_WAITING L) C'" "only_preg (f, i) (alloc_reg t) C C'"
proof -
  have free: "PHYSREG_FREE < MAX_PHYSREG_STATE" by (simp add: PHYSREG_FREE_def MAX_PHYSREG_STATE_def)
  have i: "in_file C (f, i)" "pr_state (preg_of C (f, i)) = PHYSREG_FREE"
    using regs_okD(4) [OF assms(1,2) free, of i] assms(3) by simp_all
  obtain C' where "pf_alloc f t (-1) C = Some (Some (f, i), C')" "regs_ok (move f i PHYSREG_FREE PHYSREG_WAITING L) C'"
      "only_preg (f, i) (alloc_reg t) C C'"
    by (rule alloc_at [where r = "-1", OF assms(1) i(1) i(2) [symmetric]]) (use peek_free [OF assms(1,2)] assms(3) in simp_all)
  then show ?thesis using that i by blast
qed

lemma refs_ok:
  assumes "regs_ok L C" "in_file C p"
  shows "regs_ok L (addref p C)" "only_preg p (\<lambda>r. r\<lparr>pr_refcount := pr_refcount r + 1\<rparr>) C (addref p C)"
    "unref p C = Some C' \<Longrightarrow> regs_ok L C' \<and> only_preg p (\<lambda>r. r\<lparr>pr_refcount := pr_refcount r - 1\<rparr>) C C'"
    "unref p C = None \<longleftrightarrow> snd p \<noteq> 0 \<and> sint (pr_refcount (preg_of C p) - 1) < 0"
proof -
  note a = upd_preg_only [OF regs_okD(1) [OF assms(1)] assms(2), of "\<lambda>r. r\<lparr>pr_refcount := pr_refcount r + 1\<rparr>"]
  note b = upd_preg_only [OF regs_okD(1) [OF assms(1)] assms(2), of "\<lambda>r. r\<lparr>pr_refcount := pr_refcount r - 1\<rparr>"]
  show "regs_ok L (addref p C)" "only_preg p (\<lambda>r. r\<lparr>pr_refcount := pr_refcount r + 1\<rparr>) C (addref p C)"
    unfolding addref_def using regs_ok_upd [OF assms(1) a(1) assms(2) a(2)] a(1) by simp_all
  show "regs_ok L C' \<and> only_preg p (\<lambda>r. r\<lparr>pr_refcount := pr_refcount r - 1\<rparr>) C C'" if "unref p C = Some C'"
    using that regs_ok_upd [OF assms(1) b(1) assms(2) b(2)] b(1) by (auto simp: unref_def Let_def split: if_splits)
  show "unref p C = None \<longleftrightarrow> snd p \<noteq> 0 \<and> sint (pr_refcount (preg_of C p) - 1) < 0"
    using b(1) regs_okD(3) [OF assms] by (auto simp: unref_def Let_def only_preg_def not_le)
qed

end
