(* ===== verification/Phys_Init.thy ===== *)
theory Phys_Init
  imports Phys_Regs
begin

text \<open>
  The construction of the four register files puts every register on the free list of its file, in
  the order of the indices, and establishes the invariant of \<open>Phys_Regs\<close>.
\<close>

definition roots_below :: "nat \<Rightarrow> nat \<Rightarrow> reg_node set" where
  "roots_below f k = {ListOf g s | g s. s < MAX_PHYSREG_STATE \<and> g < f} \<union> {ListOf f s | s. s < k}"

definition filling :: "(nat \<Rightarrow> nat) \<Rightarrow> nat \<Rightarrow> nat \<Rightarrow> reg_node \<Rightarrow> reg_node list" where
  "filling sz f j n =
     (case n of Reg _ _ \<Rightarrow> []
      | ListOf g s \<Rightarrow> if s = PHYSREG_FREE then map (Reg g) [0..<if g < f then sz g else if g = f then j else 0] else [])"

text \<open>A register as \<^verbatim>\<open>free\<close> leaves it.\<close>

definition clean_reg :: "PhysicalRegister \<Rightarrow> bool" where
  "clean_reg r \<longleftrightarrow> pr_state r = PHYSREG_FREE \<and> pr_rob r = None \<and> pr_refcount r = 0"

definition filled :: "(nat \<Rightarrow> nat) \<Rightarrow> nat \<Rightarrow> nat \<Rightarrow> RegFiles \<Rightarrow> bool" where
  "filled sz f j C \<longleftrightarrow> length (rf_files C) = PHYS_REG_FILE_COUNT
     \<and> (\<forall>g < PHYS_REG_FILE_COUNT. length (pf_regs (rf_files C ! g)) = MAX_PHYS_REG_FILE_SIZE)
     \<and> state_lists (roots_below f MAX_PHYSREG_STATE) (filling sz f j) (rf_heap C)
     \<and> (\<forall>g < f. pf_size (rf_files C ! g) = sz g)
     \<and> (\<forall>g i. (g < f \<and> i < sz g) \<or> (g = f \<and> i < j) \<longrightarrow>
          pr_rfid (preg_of C (g, i)) = g \<and> pr_idx (preg_of C (g, i)) = i \<and> clean_reg (preg_of C (g, i)))"

lemma upd_preg_raw:
  assumes "fst p < length (rf_files C)" "snd p < length (pf_regs (rf_files C ! fst p))"
  shows "only_preg p g C (upd_preg p g C)" "rf_heap (upd_preg p g C) = rf_heap C"
  using assms by (auto simp: only_preg_def upd_preg_def upd_file_def preg_of_def prod_eq_iff nth_list_update)

lemma filled_bounds:
  "filled sz f j C \<Longrightarrow> f < PHYS_REG_FILE_COUNT \<Longrightarrow> i < MAX_PHYS_REG_FILE_SIZE \<Longrightarrow>
     fst (f, i) < length (rf_files C) \<and> snd (f, i) < length (pf_regs (rf_files C ! fst (f, i)))"
  by (simp add: filled_def)

lemma filled_only:
  assumes "filled sz f j C" "only_preg (f, i) g C C'" "j \<le> i"
    and "state_lists (roots_below f MAX_PHYSREG_STATE) (filling sz f j) (rf_heap C')"
  shows "filled sz f j C'"
  using assms unfolding filled_def only_preg_def by (auto del: conjI)

lemma not_filled: "on_no_list (roots_below f MAX_PHYSREG_STATE) (filling sz f j) (Reg f j)"
  by (auto simp: on_no_list_def roots_below_def filling_def)

lemma filling_Suc:
  "(filling sz f j)(ListOf f PHYSREG_FREE := filling sz f j (ListOf f PHYSREG_FREE) @ [Reg f j]) = filling sz f (Suc j)"
  by (rule ext) (auto simp: filling_def split: reg_node.split)

text \<open>One register: whatever its links were, it ends on the free list.\<close>

lemma enlist:
  assumes "filled sz f j C" "f < PHYS_REG_FILE_COUNT" "j < MAX_PHYS_REG_FILE_SIZE"
    and "pr_rfid (preg_of C (f, j)) = f" "pr_idx (preg_of C (f, j)) = j"
  obtains C' g where "preg_free (f, j) (unlink_reset (f, j) C) = Some C'" "filled sz f (Suc j) C'"
    "only_preg (f, j) g C C'" "rf_states C' = rf_states C"
proof -
  have b: "fst (f, j) < length (rf_files C)" "snd (f, j) < length (pf_regs (rf_files C ! fst (f, j)))"
    using filled_bounds [OF assms(1-3)] by simp_all
  let ?k = "(rf_heap C)\<lparr>lh_links := link_reset (Reg f j) (lh_links (rf_heap C))\<rparr>"
  let ?A = "roots_below f MAX_PHYSREG_STATE"
  have k: "state_lists ?A (filling sz f j) ?k"
    using link_reset_lists [OF _ not_filled] assms(1) by (simp add: filled_def)
  have root: "ListOf f PHYSREG_FREE \<in> ?A" by (simp add: roots_below_def PHYSREG_FREE_def MAX_PHYSREG_STATE_def)
  obtain k' where k': "sl_enqueue (ListOf f PHYSREG_FREE) (Reg f j) ?k = Some k'"
      "state_lists ?A (filling sz f (Suc j)) k'"
    by (rule enqueue_lists [OF k root not_filled, unfolded filling_Suc])
  let ?g1 = "\<lambda>r. r\<lparr>pr_state := PHYSREG_NONE\<rparr>" and ?g2 = "\<lambda>r. r\<lparr>pr_state := PHYSREG_FREE\<rparr>"
  let ?g3 = "\<lambda>r. r\<lparr>pr_rob := None, pr_refcount := 0, pr_threadid := 0xff, pr_all_consumers_sourced_from_bypass := True\<rparr>"
  define C1 where "C1 = upd_preg (f, j) ?g1 (C\<lparr>rf_heap := ?k\<rparr>)"
  have b0: "fst (f, j) < length (rf_files (C\<lparr>rf_heap := ?k\<rparr>))"
      "snd (f, j) < length (pf_regs (rf_files (C\<lparr>rf_heap := ?k\<rparr>) ! fst (f, j)))" using b by simp_all
  have o1: "only_preg (f, j) ?g1 C C1" "rf_heap C1 = ?k"
    using upd_preg_raw [OF b0, of ?g1] by (simp_all add: C1_def only_preg_def preg_of_def)
  have u: "unlink_reset (f, j) C = C1" by (simp add: unlink_reset_def C1_def node_of_def)
  define C2 where "C2 = upd_preg (f, j) ?g2 (C1\<lparr>rf_heap := ?k\<rparr>)"
  have b1: "fst (f, j) < length (rf_files (C1\<lparr>rf_heap := ?k\<rparr>))"
      "snd (f, j) < length (pf_regs (rf_files (C1\<lparr>rf_heap := ?k\<rparr>) ! fst (f, j)))"
    using b o1(1) by (simp_all add: only_preg_def)
  have o2: "only_preg (f, j) ?g2 C1 C2" "rf_heap C2 = ?k"
    using upd_preg_raw [OF b1, of ?g2] by (simp_all add: C2_def only_preg_def preg_of_def)
  have rf: "pr_rfid (preg_of C2 (f, j)) = f" "pr_state (preg_of C2 (f, j)) = PHYSREG_FREE" "pr_state (preg_of C1 (f, j)) = PHYSREG_NONE"
    using o1(1) o2(1) assms(4) by (simp_all add: only_preg_def)
  have ch: "changestate (f, j) PHYSREG_FREE C1 = Some (C2\<lparr>rf_heap := k'\<rparr>)"
    using k'(1) rf o1(2) o2(2) unfolding changestate_def C2_def by (simp add: get_state_list_def node_of_def Let_def)
  define C3 where "C3 = upd_preg (f, j) ?g3 (C2\<lparr>rf_heap := k'\<rparr>)"
  have b2: "fst (f, j) < length (rf_files (C2\<lparr>rf_heap := k'\<rparr>))"
      "snd (f, j) < length (pf_regs (rf_files (C2\<lparr>rf_heap := k'\<rparr>) ! fst (f, j)))"
    using b1 o2(1) by (simp_all add: only_preg_def)
  have o3: "only_preg (f, j) ?g3 C2 C3" "rf_heap C3 = k'"
    using upd_preg_raw [OF b2, of ?g3] by (simp_all add: C3_def only_preg_def preg_of_def)
  have all: "only_preg (f, j) (?g3 \<circ> (?g2 \<circ> ?g1)) C C3"
    by (rule only_preg_trans [OF only_preg_trans [OF o1(1) o2(1)] o3(1)])
  have st: "rf_states C3 = rf_states C" by (simp add: C3_def C2_def C1_def upd_preg_def upd_file_def)
  have "filled sz f (Suc j) C3"
    using assms(1,4,5) all k'(2) o3(2) unfolding filled_def only_preg_def
    by (auto simp: less_Suc_eq clean_reg_def)
  then show ?thesis using that [OF _ _ all st] ch u by (simp add: preg_free_def C3_def)
qed

lemma fill_loop:
  assumes "\<And>j C. filled sz f j C \<Longrightarrow> R C \<Longrightarrow> j < n \<Longrightarrow> \<exists>C'. opn j C = Some C' \<and> filled sz f (Suc j) C' \<and> R C'"
    and "filled sz f j C" "R C" "j \<le> n"
  shows "\<exists>C'. foreach_reg opn [j..<n] C = Some C' \<and> filled sz f n C' \<and> R C'"
  using assms(2-4)
proof (induction "n - j" arbitrary: j C)
  case 0
  then show ?case by auto
next
  case (Suc d)
  then have j: "j < n" by simp
  obtain C1 where c: "opn j C = Some C1" "filled sz f (Suc j) C1" "R C1" using assms(1) [OF Suc.prems(1,2) j] by blast
  have "d = n - Suc j" using Suc.hyps(2) by simp
  from Suc.hyps(1) [OF this c(2,3)] j obtain C' where
    "foreach_reg opn [Suc j..<n] C1 = Some C'" "filled sz f n C'" "R C'" by auto
  then show ?case using c(1) j by (simp add: upt_conv_Cons)
qed

lemma filling_no_roots: "n' \<in> set (filling sz f j n) \<Longrightarrow> n' \<noteq> ListOf g s"
  by (auto simp: filling_def split: reg_node.splits if_splits)

lemma init_states_filled:
  assumes "state_lists (roots_below f k) (filling sz f 0) (rf_heap C)" "k \<le> MAX_PHYSREG_STATE"
    and "length (rf_states C) + (MAX_PHYSREG_STATE - k) \<le> 64"
  shows "\<exists>C'. init_states f [k..<MAX_PHYSREG_STATE] C = Some C'
    \<and> state_lists (roots_below f MAX_PHYSREG_STATE) (filling sz f 0) (rf_heap C')
    \<and> rf_files C' = rf_files C \<and> length (rf_states C') = length (rf_states C) + (MAX_PHYSREG_STATE - k)"
  using assms
proof (induction "MAX_PHYSREG_STATE - k" arbitrary: k C)
  case 0
  then show ?case by auto
next
  case (Suc d)
  then have k: "k < MAX_PHYSREG_STATE" by simp
  let ?l = "ListOf f k"
  have fresh: "\<forall>l' \<in> roots_below f k. l' \<noteq> ?l \<longrightarrow> ?l \<notin> set (l' # filling sz f 0 l')"
    using filling_no_roots by fastforce
  have len: "length (rf_states C) < 64" using Suc.prems(3) k by simp
  obtain S' where i: "sl_init ?l 0 (rf_states C) (rf_heap C) = Some (rf_states C @ [?l], S')"
      "state_lists (insert ?l (roots_below f k)) ((filling sz f 0)(?l := [])) S'"
    by (rule init_lists [OF Suc.prems(1) fresh len])
  have "(filling sz f 0)(?l := []) = filling sz f 0" by (rule ext) (simp add: filling_def)
  moreover have "insert ?l (roots_below f k) = roots_below f (Suc k)" by (auto simp: roots_below_def less_Suc_eq)
  ultimately have "state_lists (roots_below f (Suc k)) (filling sz f 0) S'" using i(2) by simp
  then have "\<exists>C'. init_states f [Suc k..<MAX_PHYSREG_STATE] (C\<lparr>rf_states := rf_states C @ [?l], rf_heap := S'\<rparr>) = Some C'
      \<and> state_lists (roots_below f MAX_PHYSREG_STATE) (filling sz f 0) (rf_heap C')
      \<and> rf_files C' = rf_files C \<and> length (rf_states C') = Suc (length (rf_states C)) + (MAX_PHYSREG_STATE - Suc k)"
    using Suc.hyps(1) [of "Suc k" "C\<lparr>rf_states := rf_states C @ [?l], rf_heap := S'\<rparr>"] Suc.hyps(2) Suc.prems(3) k by simp
  then show ?case using i(1) k by (auto simp: upt_conv_Cons)
qed

lemma reset_states_lists:
  assumes "state_lists A K S" "\<And>l g s. l \<in> A \<Longrightarrow> ListOf g s \<notin> set (K l)" "ListOf f ` set ss \<subseteq> A"
  shows "state_lists A (\<lambda>n. if n \<in> ListOf f ` set ss then [] else K n) (fold (\<lambda>s. sl_reset (ListOf f s)) ss S)"
  using assms
proof (induction ss arbitrary: K S)
  case (Cons s ss)
  let ?l = "ListOf f s"
  have "state_lists (insert ?l A) (K(?l := [])) (sl_reset ?l S)"
    using Cons.prems by (intro reset_lists) auto
  moreover have "insert ?l A = A" using Cons.prems(3) by auto
  ultimately have "state_lists A (K(?l := [])) (sl_reset ?l S)" by simp
  then have "state_lists A (\<lambda>n. if n \<in> ListOf f ` set ss then [] else (K(?l := [])) n)
      (fold (\<lambda>s. sl_reset (ListOf f s)) ss (sl_reset ?l S))"
  proof (rule Cons.IH)
    show "ListOf g t \<notin> set ((K(?l := [])) l)" if "l \<in> A" for l g t using Cons.prems(2) [OF that] by simp
    show "ListOf f ` set ss \<subseteq> A" using Cons.prems(3) by simp
  qed
  moreover have eq: "(\<lambda>n. if n \<in> ListOf f ` set ss then [] else (K(?l := [])) n) =
      (\<lambda>n. if n \<in> ListOf f ` set (s # ss) then [] else K n)" by (rule ext) auto
  ultimately show ?case unfolding fold.simps comp_apply eq by blast
qed simp

definition ready_files :: "(nat \<Rightarrow> nat) \<Rightarrow> nat \<Rightarrow> RegFiles \<Rightarrow> bool" where
  "ready_files sz f C \<longleftrightarrow> length (rf_files C) = PHYS_REG_FILE_COUNT
     \<and> (\<forall>g < PHYS_REG_FILE_COUNT. length (pf_regs (rf_files C ! g)) = MAX_PHYS_REG_FILE_SIZE)
     \<and> state_lists (roots_below f 0) (filling sz f 0) (rf_heap C)
     \<and> (\<forall>g < f. pf_size (rf_files C ! g) = sz g)
     \<and> (\<forall>g < f. \<forall>i < sz g. pr_rfid (preg_of C (g, i)) = g \<and> pr_idx (preg_of C (g, i)) = i
          \<and> clean_reg (preg_of C (g, i)))
     \<and> length (rf_states C) = MAX_PHYSREG_STATE * f"

lemma pf_init_filled:
  assumes "ready_files sz f C" "f < PHYS_REG_FILE_COUNT" "sz f \<le> MAX_PHYS_REG_FILE_SIZE"
  shows "\<exists>C'. pf_init f (sz f) C = Some C' \<and> filled sz f (sz f) C' \<and> pf_size (rf_files C' ! f) = sz f
    \<and> length (rf_states C') = MAX_PHYSREG_STATE * Suc f"
proof -
  define F where "F = (\<lambda>r :: PhysicalRegisterFile. r\<lparr>pf_size := sz f, pf_rfid := f, pf_allocations := 0, pf_frees := 0\<rparr>)"
  define C0 where "C0 = upd_file f F C"
  have fl: "f < length (rf_files C)" using assms(1,2) by (simp add: ready_files_def)
  have fil: "rf_files C0 ! g = (if g = f then F (rf_files C ! f) else rf_files C ! g)" for g
    using fl by (auto simp: C0_def upd_file_def)
  have c0: "rf_heap C0 = rf_heap C" "rf_states C0 = rf_states C" "length (rf_files C0) = length (rf_files C)"
    by (simp_all add: C0_def upd_file_def)
  have regs: "pf_regs (rf_files C0 ! g) = pf_regs (rf_files C ! g)" for g by (simp add: fil F_def)
  have f4: "Suc f \<le> 4" using assms(2) by (simp add: PHYS_REG_FILE_COUNT_def)
  have "\<exists>C1. init_states f [0..<MAX_PHYSREG_STATE] C0 = Some C1
    \<and> state_lists (roots_below f MAX_PHYSREG_STATE) (filling sz f 0) (rf_heap C1)
    \<and> rf_files C1 = rf_files C0 \<and> length (rf_states C1) = length (rf_states C0) + (MAX_PHYSREG_STATE - 0)"
    using assms(1) f4 by (intro init_states_filled) (auto simp: c0 ready_files_def MAX_PHYSREG_STATE_def)
  then obtain C1 where c1: "init_states f [0..<MAX_PHYSREG_STATE] C0 = Some C1"
      "state_lists (roots_below f MAX_PHYSREG_STATE) (filling sz f 0) (rf_heap C1)"
      "rf_files C1 = rf_files C0" "length (rf_states C1) = MAX_PHYSREG_STATE * Suc f"
    using assms(1) by (auto simp: c0 ready_files_def)
  have pregs: "preg_of C1 q = preg_of C q" for q by (simp add: preg_of_def c1(3) regs)
  have fill: "filled sz f 0 C1"
    using assms(1) c1(2) by (auto simp: filled_def ready_files_def c1(3) c0 pregs fil F_def)
  let ?R = "\<lambda>C. pf_size (rf_files C ! f) = sz f \<and> length (rf_states C) = MAX_PHYSREG_STATE * Suc f"
  have step: "\<exists>C'. preg_init f j C = Some C' \<and> filled sz f (Suc j) C' \<and> ?R C'"
    if fj: "filled sz f j C" "?R C" "j < sz f" for j C
  proof -
    let ?g = "\<lambda>r. r\<lparr>pr_rfid := f, pr_idx := j\<rparr>"
    have j: "j < MAX_PHYS_REG_FILE_SIZE" using fj(3) assms(3) by simp
    note u = upd_preg_raw [of "(f, j)" C ?g, OF filled_bounds [OF fj(1) assms(2) j, THEN conjunct1]
        filled_bounds [OF fj(1) assms(2) j, THEN conjunct2]]
    have fc: "filled sz f j (upd_preg (f, j) ?g C)"
      by (rule filled_only [OF fj(1) u(1)]) (use fj(1) u(2) in \<open>simp_all add: filled_def\<close>)
    have id: "pr_rfid (preg_of (upd_preg (f, j) ?g C) (f, j)) = f" "pr_idx (preg_of (upd_preg (f, j) ?g C) (f, j)) = j"
      using u(1) by (simp_all add: only_preg_def)
    obtain C' g where c: "preg_free (f, j) (unlink_reset (f, j) (upd_preg (f, j) ?g C)) = Some C'" "filled sz f (Suc j) C'"
        "only_preg (f, j) g (upd_preg (f, j) ?g C) C'" "rf_states C' = rf_states (upd_preg (f, j) ?g C)"
      by (rule enlist [OF fc assms(2) j id])
    have "?R C'" using fj(2) u(1) c(3,4) by (simp add: only_preg_def upd_preg_def upd_file_def)
    then show ?thesis using c(1,2) by (simp add: preg_init_def preg_reset_def)
  qed
  have r1: "?R C1" using c1(3,4) by (simp add: fil F_def)
  have "\<exists>C'. foreach_reg (preg_init f) [0..<sz f] C1 = Some C' \<and> filled sz f (sz f) C' \<and> ?R C'"
    by (rule fill_loop [where R = ?R, OF step fill r1]) simp_all
  then obtain C' where
    "foreach_reg (preg_init f) [0..<sz f] C1 = Some C'" "filled sz f (sz f) C'" "?R C'" by blast
  then show ?thesis using c1(1) assms(2,3) by (auto simp: pf_init_def C0_def F_def)
qed

lemma pf_reset_filled:
  assumes "filled sz f n C" "f < PHYS_REG_FILE_COUNT" "sz f \<le> MAX_PHYS_REG_FILE_SIZE" "n = sz f"
    and "pf_size (rf_files C ! f) = n" "length (rf_states C) = m"
  shows "\<exists>C'. pf_reset f C = Some C' \<and> filled sz f n C' \<and> pf_size (rf_files C' ! f) = n \<and> length (rf_states C') = m"
proof -
  let ?C0 = "reset_states f C" and ?A = "roots_below f MAX_PHYSREG_STATE"
  have "state_lists ?A (\<lambda>x. if x \<in> ListOf f ` set [0..<MAX_PHYSREG_STATE] then [] else filling sz f n x)
      (fold (\<lambda>s. sl_reset (ListOf f s)) [0..<MAX_PHYSREG_STATE] (rf_heap C))"
  proof (rule reset_states_lists)
    show "state_lists ?A (filling sz f n) (rf_heap C)" using assms(1) by (simp add: filled_def)
    show "ListOf g s \<notin> set (filling sz f n l)" if "l \<in> ?A" for l g s
      using filling_no_roots [of "ListOf g s"] by blast
    show "ListOf f ` set [0..<MAX_PHYSREG_STATE] \<subseteq> ?A" by (auto simp: roots_below_def)
  qed
  then have "state_lists ?A (\<lambda>x. if x \<in> ListOf f ` set [0..<MAX_PHYSREG_STATE] then [] else filling sz f n x) (rf_heap ?C0)"
    by (simp add: reset_states_def)
  moreover have "state_lists ?A (filling sz f 0) (rf_heap ?C0)" if
    "state_lists ?A (\<lambda>x. if x \<in> ListOf f ` set [0..<MAX_PHYSREG_STATE] then [] else filling sz f n x) (rf_heap ?C0)"
  proof -
    have "filling sz f 0 l = (if l \<in> ListOf f ` set [0..<MAX_PHYSREG_STATE] then [] else filling sz f n l)" if "l \<in> ?A" for l
      using that by (auto simp: roots_below_def filling_def)
    then show ?thesis using that unfolding state_lists_def by simp
  qed
  ultimately have sl: "state_lists ?A (filling sz f 0) (rf_heap ?C0)" by blast
  have same: "rf_files ?C0 = rf_files C" "rf_states ?C0 = rf_states C" "preg_of ?C0 = preg_of C"
    by (simp_all add: reset_states_def preg_of_def [abs_def])
  have fill: "filled sz f 0 ?C0" using assms(1) sl by (auto simp: filled_def same)
  let ?R = "\<lambda>C. pf_size (rf_files C ! f) = n \<and> length (rf_states C) = m
     \<and> (\<forall>i < n. pr_rfid (preg_of C (f, i)) = f \<and> pr_idx (preg_of C (f, i)) = i)"
  have step: "\<exists>C'. preg_reset_thread (f, j) 0 False C = Some C' \<and> filled sz f (Suc j) C' \<and> ?R C'"
    if fj: "filled sz f j C" "?R C" "j < n" for j C
  proof -
    have j: "j < MAX_PHYS_REG_FILE_SIZE" using fj(3) assms(3,4) by simp
    have id: "pr_rfid (preg_of C (f, j)) = f" "pr_idx (preg_of C (f, j)) = j" using fj by simp_all
    obtain C' g where c: "preg_free (f, j) (unlink_reset (f, j) C) = Some C'" "filled sz f (Suc j) C'"
        "only_preg (f, j) g C C'" "rf_states C' = rf_states C" by (rule enlist [OF fj(1) assms(2) j id])
    have "pr_rfid (preg_of C' (f, i)) = f \<and> pr_idx (preg_of C' (f, i)) = i" if "i < n" for i
    proof (cases "i = j")
      case True
      then show ?thesis using c(2) unfolding filled_def by blast
    next
      case False
      then show ?thesis using c(3) fj(2) that by (simp add: only_preg_def)
    qed
    then show ?thesis using c fj(2) by (auto simp: preg_reset_thread_def only_preg_def)
  qed
  have r0: "?R ?C0" using assms(1,5,6) by (auto simp: same filled_def)
  have "\<exists>C'. foreach_reg (\<lambda>i. preg_reset_thread (f, i) 0 False) [0..<n] ?C0 = Some C' \<and> filled sz f n C' \<and> ?R C'"
    by (rule fill_loop [where R = ?R, OF step fill r0]) simp_all
  then obtain C' where
    "foreach_reg (\<lambda>i. preg_reset_thread (f, i) 0 False) [0..<n] ?C0 = Some C'" "filled sz f n C'" "?R C'" by blast
  then show ?thesis using assms(5) by (auto simp: pf_reset_def)
qed

lemma pf_construct_ready:
  assumes "ready_files sz f C" "f < PHYS_REG_FILE_COUNT" "sz f \<le> MAX_PHYS_REG_FILE_SIZE"
  shows "\<exists>C'. pf_construct f (sz f) C = Some C' \<and> ready_files sz (Suc f) C'"
proof -
  obtain C1 where c1: "pf_init f (sz f) C = Some C1" "filled sz f (sz f) C1" "pf_size (rf_files C1 ! f) = sz f"
      "length (rf_states C1) = MAX_PHYSREG_STATE * Suc f"
    using pf_init_filled [OF assms] by blast
  obtain C' where c2: "pf_reset f C1 = Some C'" "filled sz f (sz f) C'" "pf_size (rf_files C' ! f) = sz f"
      "length (rf_states C') = MAX_PHYSREG_STATE * Suc f"
    using pf_reset_filled [OF c1(2) assms(2,3) refl c1(3,4)] by blast
  have "roots_below f MAX_PHYSREG_STATE = roots_below (Suc f) 0" by (auto simp: roots_below_def less_Suc_eq)
  moreover have "filling sz f (sz f) = filling sz (Suc f) 0"
    by (rule ext) (auto simp: filling_def less_Suc_eq split: reg_node.split)
  ultimately have "ready_files sz (Suc f) C'"
    using c2 unfolding filled_def ready_files_def by (auto simp: less_Suc_eq)
  then show ?thesis using c1(1) c2(1) by (simp add: pf_construct_def)
qed

definition physreg_sizes :: "nat \<Rightarrow> nat" where
  "physreg_sizes f = [256, 256, 32, 16] ! f"

definition fresh_contents :: state_contents where
  "fresh_contents f s = (if s = PHYSREG_FREE then [0..<physreg_sizes f] else [])"

lemma init_physregfiles_ok:
  assumes "length (rf_files C) = PHYS_REG_FILE_COUNT"
    and "\<forall>f < PHYS_REG_FILE_COUNT. length (pf_regs (rf_files C ! f)) = MAX_PHYS_REG_FILE_SIZE"
    and "rf_states C = []"
  obtains C' where "init_physregfiles C = Some C'" "regs_ok fresh_contents C'"
    "\<And>f. f < PHYS_REG_FILE_COUNT \<Longrightarrow> pf_size (rf_files C' ! f) = physreg_sizes f"
    "\<And>p. in_file C' p \<Longrightarrow> clean_reg (preg_of C' p)"
proof -
  have r0: "ready_files physreg_sizes 0 C"
    using assms by (simp add: ready_files_def roots_below_def state_lists_def)
  have le: "physreg_sizes f \<le> MAX_PHYS_REG_FILE_SIZE" if "f < PHYS_REG_FILE_COUNT" for f
    using that by (auto simp: physreg_sizes_def MAX_PHYS_REG_FILE_SIZE_def PHYS_REG_FILE_COUNT_def less_Suc_eq numeral_eq_Suc)
  have next': "\<exists>C'. pf_construct f (physreg_sizes f) C = Some C' \<and> ready_files physreg_sizes (Suc f) C'"
    if "ready_files physreg_sizes f C" "f < 4" for f C
    using pf_construct_ready [OF that(1)] le that(2) by (simp add: PHYS_REG_FILE_COUNT_def)
  obtain C1 where c1: "pf_construct 0 (physreg_sizes 0) C = Some C1" "ready_files physreg_sizes 1 C1"
    using next' [OF r0] by auto
  obtain C2 where c2: "pf_construct 1 (physreg_sizes 1) C1 = Some C2" "ready_files physreg_sizes 2 C2"
    using next' [OF c1(2)] by (auto simp: numeral_2_eq_2)
  obtain C3 where c3: "pf_construct 2 (physreg_sizes 2) C2 = Some C3" "ready_files physreg_sizes 3 C3"
    using next' [OF c2(2)] by (auto simp: numeral_3_eq_3)
  obtain C4 where c4: "pf_construct 3 (physreg_sizes 3) C3 = Some C4" "ready_files physreg_sizes 4 C4"
    using next' [OF c3(2)] by auto
  have "init_physregfiles C = Some C4"
    using c1(1) c2(1) c3(1) c4(1)
    by (simp add: init_physregfiles_def physreg_sizes_def PHYS_REG_FILE_SIZE_def STQ_SIZE_def MAX_THREADS_PER_CORE_def
        MAX_BRANCHES_IN_FLIGHT_def)
  moreover have sz: "pf_size (rf_files C4 ! f) = physreg_sizes f" if "f < PHYS_REG_FILE_COUNT" for f
    using c4(2) that by (simp add: ready_files_def PHYS_REG_FILE_COUNT_def)
  moreover have "regs_ok fresh_contents C4"
  proof -
    have roots: "roots_below 4 0 = state_roots" by (auto simp: roots_below_def state_roots_def PHYS_REG_FILE_COUNT_def)
    have cont: "filling physreg_sizes 4 0 l = node_contents fresh_contents l" if "l \<in> state_roots" for l
      using that by (auto simp: filling_def node_contents_def fresh_contents_def state_roots_def PHYS_REG_FILE_COUNT_def)
    have "state_lists state_roots (filling physreg_sizes 4 0) (rf_heap C4)" using c4(2) roots by (simp add: ready_files_def)
    then have "state_lists state_roots (node_contents fresh_contents) (rf_heap C4)"
      unfolding state_lists_def using cont by simp
    then show ?thesis
      using c4(2) sz le unfolding regs_ok_def files_shape_def ready_files_def
      by (auto simp: in_file_def fresh_contents_def live_state_def clean_reg_def PHYS_REG_FILE_COUNT_def PHYSREG_NONE_def
          PHYSREG_FREE_def MAX_PHYSREG_STATE_def)
  qed
  moreover have "clean_reg (preg_of C4 p)" if "in_file C4 p" for p
    using that c4(2) sz by (cases p) (auto simp: in_file_def ready_files_def PHYS_REG_FILE_COUNT_def)
  ultimately show ?thesis using that by blast
qed

end
