(* ===== verification/Pipe_State.thy ===== *)
theory Pipe_State
  imports Phys_Init Issue_Stage Branch_Pred Load_Fill Addr_Space "HOL-Library.Monad_Syntax"
begin

text \<open>
  The state of the out-of-order core that the rename, commit, annul and redispatch operations of
  \<^verbatim>\<open>ooopipe.cpp\<close> and \<^verbatim>\<open>oooexec.cpp\<close> work on: the micro-operation, the reorder buffer entry, the
  load/store queue entry, the register rename tables and the lists of the reorder buffer states,
  with the tables of operation classes (\<^verbatim>\<open>ptlhwdef.cpp\<close>) and of destination registers.

  The core has one thread, so the fields of \<^verbatim>\<open>ThreadContext\<close> and of \<^verbatim>\<open>OutOfOrderCore\<close> are in one
  record. A reorder buffer or load/store queue entry is its index, a physical register is the pair
  of its file and its index. A failed assertion or the use of a null pointer is \<^const>\<open>None\<close>.
\<close>

subsection \<open>Architectural registers\<close>

definition ARCHREG_COUNT :: nat where "ARCHREG_COUNT = 64"
definition TRANSREG_COUNT :: nat where "TRANSREG_COUNT = 64 + 16"
definition REG_xmml0 :: nat where "REG_xmml0 = 16"
definition REG_xmmh15 :: nat where "REG_xmmh15 = 47"
definition REG_fptos :: nat where "REG_fptos = 48"
definition REG_ctx :: nat where "REG_ctx = 55"
definition REG_rip :: nat where "REG_rip = 56"
definition REG_flags :: nat where "REG_flags = 57"
definition REG_zero :: nat where "REG_zero = 63"
definition REG_temp0 :: nat where "REG_temp0 = 64"
definition REG_zf :: nat where "REG_zf = 72"
definition REG_cf :: nat where "REG_cf = 73"
definition REG_of :: nat where "REG_of = 74"
definition REG_imm :: nat where "REG_imm = 75"
definition REG_mem :: nat where "REG_mem = 76"

lemmas reg_numbers = ARCHREG_COUNT_def TRANSREG_COUNT_def REG_xmml0_def REG_xmmh15_def REG_fptos_def REG_ctx_def
  REG_rip_def REG_flags_def REG_zero_def REG_temp0_def REG_zf_def REG_cf_def REG_of_def REG_imm_def REG_mem_def

definition archdest_is_visible :: "bool list" where
  "archdest_is_visible = replicate 16 True @ replicate 16 True @ replicate 16 True
     @ replicate 3 True @ replicate 13 False @ replicate 16 False"

definition archdest_can_commit :: "bool list" where
  "archdest_can_commit = replicate 16 True @ replicate 16 True @ replicate 16 True
     @ replicate 15 True @ [False] @ replicate 16 True"

lemma archdest_can_commit_nth: "r < TRANSREG_COUNT \<Longrightarrow> archdest_can_commit ! r \<longleftrightarrow> r \<noteq> REG_zero"
  by (auto simp: archdest_can_commit_def TRANSREG_COUNT_def REG_zero_def nth_append less_Suc_eq_le nth_Cons')

subsection \<open>Operation classes\<close>

definition OPCLASS_LOGIC :: W32 where "OPCLASS_LOGIC = push_bit 0 1"
definition OPCLASS_ADDSUB :: W32 where "OPCLASS_ADDSUB = push_bit 1 1"
definition OPCLASS_ADDSHIFT :: W32 where "OPCLASS_ADDSHIFT = push_bit 3 1"
definition OPCLASS_SELECT :: W32 where "OPCLASS_SELECT = push_bit 4 1"
definition OPCLASS_COND_BRANCH :: W32 where "OPCLASS_COND_BRANCH = push_bit 6 1"
definition OPCLASS_INDIR_BRANCH :: W32 where "OPCLASS_INDIR_BRANCH = push_bit 7 1"
definition OPCLASS_UNCOND_BRANCH :: W32 where "OPCLASS_UNCOND_BRANCH = push_bit 8 1"
definition OPCLASS_BARRIER :: W32 where "OPCLASS_BARRIER = push_bit 9 1"
definition OPCLASS_BRANCH :: W32 where
  "OPCLASS_BRANCH = OPCLASS_COND_BRANCH OR OPCLASS_INDIR_BRANCH OR OPCLASS_UNCOND_BRANCH OR OPCLASS_BARRIER"
definition OPCLASS_LOAD :: W32 where "OPCLASS_LOAD = push_bit 11 1"
definition OPCLASS_STORE :: W32 where "OPCLASS_STORE = push_bit 12 1"
definition OPCLASS_PREFETCH :: W32 where "OPCLASS_PREFETCH = push_bit 13 1"
definition OPCLASS_FENCE :: W32 where "OPCLASS_FENCE = push_bit 10 1 OR OPCLASS_STORE"
definition OPCLASS_SIMPLE_SHIFT :: W32 where "OPCLASS_SIMPLE_SHIFT = push_bit 14 1"
definition OPCLASS_SHIFTROT :: W32 where "OPCLASS_SHIFTROT = push_bit 15 1"
definition OPCLASS_MULTIPLY :: W32 where "OPCLASS_MULTIPLY = push_bit 16 1"
definition OPCLASS_BITSCAN :: W32 where "OPCLASS_BITSCAN = push_bit 17 1"
definition OPCLASS_FLAGS :: W32 where "OPCLASS_FLAGS = push_bit 18 1"
definition OPCLASS_CHECK :: W32 where "OPCLASS_CHECK = push_bit 19 1"
definition OPCLASS_FP_ALU :: W32 where "OPCLASS_FP_ALU = push_bit 20 1"
definition OPCLASS_FP_DIVSQRT :: W32 where "OPCLASS_FP_DIVSQRT = push_bit 21 1"
definition OPCLASS_FP_COMPARE :: W32 where "OPCLASS_FP_COMPARE = push_bit 22 1"
definition OPCLASS_FP_CONVERTI2F :: W32 where "OPCLASS_FP_CONVERTI2F = push_bit 24 1"
definition OPCLASS_FP_CONVERTF2I :: W32 where "OPCLASS_FP_CONVERTF2I = push_bit 25 1"
definition OPCLASS_FP_CONVERTFP :: W32 where "OPCLASS_FP_CONVERTFP = push_bit 26 1"
definition OPCLASS_VEC_ALU :: W32 where "OPCLASS_VEC_ALU = push_bit 27 1"

text \<open>
  The macro \<^verbatim>\<open>OPCLASS_FP\<close> ends in \<^verbatim>\<open>..., OPCLASS_FP_CONVERTFP)\<close> with a comma before the last class:
  the comma operator makes its value that class alone.
\<close>

definition comma :: "'a \<Rightarrow> 'b \<Rightarrow> 'b" where
  "comma a b = b"

definition OPCLASS_FP :: W32 where
  "OPCLASS_FP = comma (OPCLASS_FP_ALU OR OPCLASS_FP_DIVSQRT OR OPCLASS_FP_COMPARE OR push_bit 23 1 OR OPCLASS_FP_CONVERTI2F
     OR OPCLASS_FP_CONVERTF2I) OPCLASS_FP_CONVERTFP"

lemmas opclass_defs = OPCLASS_LOGIC_def OPCLASS_ADDSUB_def OPCLASS_ADDSHIFT_def OPCLASS_SELECT_def
  OPCLASS_COND_BRANCH_def OPCLASS_INDIR_BRANCH_def OPCLASS_UNCOND_BRANCH_def OPCLASS_BARRIER_def OPCLASS_BRANCH_def
  OPCLASS_LOAD_def OPCLASS_STORE_def OPCLASS_PREFETCH_def OPCLASS_FENCE_def OPCLASS_SIMPLE_SHIFT_def
  OPCLASS_SHIFTROT_def OPCLASS_MULTIPLY_def OPCLASS_BITSCAN_def OPCLASS_FLAGS_def OPCLASS_CHECK_def OPCLASS_FP_ALU_def
  OPCLASS_FP_DIVSQRT_def OPCLASS_FP_COMPARE_def OPCLASS_FP_CONVERTI2F_def OPCLASS_FP_CONVERTF2I_def
  OPCLASS_FP_CONVERTFP_def OPCLASS_VEC_ALU_def OPCLASS_FP_def comma_def

text \<open>The class of each opcode, in the order of the opcodes.\<close>

definition opinfo_opclass :: "W32 list" where
  "opinfo_opclass =
     replicate 10 OPCLASS_LOGIC
     @ replicate 1 OPCLASS_SIMPLE_SHIFT
     @ replicate 2 OPCLASS_ADDSUB
     @ replicate 2 OPCLASS_ADDSHIFT
     @ replicate 2 OPCLASS_ADDSUB
     @ replicate 7 OPCLASS_FLAGS
     @ replicate 2 OPCLASS_SIMPLE_SHIFT
     @ replicate 1 OPCLASS_LOGIC
     @ replicate 1 OPCLASS_SIMPLE_SHIFT
     @ replicate 4 OPCLASS_LOGIC
     @ replicate 5 OPCLASS_SELECT
     @ replicate 3 OPCLASS_COND_BRANCH
     @ replicate 1 OPCLASS_INDIR_BRANCH
     @ replicate 1 OPCLASS_UNCOND_BRANCH
     @ replicate 1 (OPCLASS_INDIR_BRANCH OR OPCLASS_BARRIER)
     @ replicate 1 (OPCLASS_UNCOND_BRANCH OR OPCLASS_BARRIER)
     @ replicate 3 OPCLASS_CHECK
     @ replicate 2 OPCLASS_LOAD
     @ replicate 1 OPCLASS_PREFETCH
     @ replicate 1 OPCLASS_LOAD
     @ replicate 2 OPCLASS_STORE
     @ replicate 1 OPCLASS_FENCE
     @ replicate 8 OPCLASS_SHIFTROT
     @ replicate 4 OPCLASS_MULTIPLY
     @ replicate 3 OPCLASS_BITSCAN
     @ replicate 1 OPCLASS_SHIFTROT
     @ replicate 4 OPCLASS_MULTIPLY
     @ replicate 4 OPCLASS_ADDSUB
     @ replicate 6 OPCLASS_FP_ALU
     @ replicate 4 OPCLASS_FP_DIVSQRT
     @ replicate 4 OPCLASS_FP_COMPARE
     @ replicate 6 OPCLASS_FP_CONVERTI2F
     @ replicate 6 OPCLASS_FP_CONVERTF2I
     @ replicate 4 OPCLASS_FP_CONVERTFP
     @ replicate 23 OPCLASS_VEC_ALU"

definition isclass :: "nat \<Rightarrow> W32 \<Rightarrow> bool" where
  "isclass opcode opclass \<longleftrightarrow> opcode < OP_MAX_OPCODE \<and> opinfo_opclass ! opcode AND opclass \<noteq> 0"

definition isload :: "nat \<Rightarrow> bool" where "isload opcode \<longleftrightarrow> isclass opcode OPCLASS_LOAD"
definition isstore :: "nat \<Rightarrow> bool" where "isstore opcode \<longleftrightarrow> isclass opcode OPCLASS_STORE"
definition isbranch :: "nat \<Rightarrow> bool" where "isbranch opcode \<longleftrightarrow> isclass opcode OPCLASS_BRANCH"

subsection \<open>Micro-operations and queue entries\<close>

record RIPVirtPhys =
  rvp_rip :: W64
  rvp_mfnlo :: W64
  rvp_mfnhi :: W64

text \<open>The fields of \<^verbatim>\<open>TransOp\<close> and of \<^verbatim>\<open>FetchBufferEntry\<close> that the operations below read.\<close>

record FetchBufferEntry =
  op_opcode :: nat
  op_extshift :: nat
  op_setflags :: W8
  op_nouserflags :: bool
  op_datatype :: nat
  op_bytes :: W64
  op_som :: bool
  op_eom :: bool
  op_is_sse :: bool
  op_is_x87 :: bool
  op_rd :: nat
  op_ra :: nat
  op_rb :: nat
  op_rc :: nat
  op_riptaken :: W64
  fb_rip :: RIPVirtPhys
  fb_uuid :: W64
  fb_predinfo :: PredictorUpdate
  fb_bptype :: W32
  ld_st_truly_unaligned :: bool

text \<open>The lists of reorder buffer entries, in the order \<^verbatim>\<open>ThreadContext::init\<close> creates them.\<close>

datatype rob_list = rob_free | rob_frontend | rob_ready_to_dispatch | rob_dispatched nat | rob_ready_to_issue nat
  | rob_ready_to_store nat | rob_ready_to_load nat | rob_issued nat | rob_completed nat | rob_ready_to_writeback nat
  | rob_cache_miss | rob_tlb_miss | rob_memory_fence | rob_ready_to_commit

datatype rob_node = RobList rob_list | Rob nat

record ReorderBufferEntry =
  rb_uop :: FetchBufferEntry
  rb_list :: "rob_list option"
  rb_physreg :: "preg option"
  rb_operands :: "preg list"
  rb_lsq :: "nat option"
  rb_idx :: nat
  rb_cycles_left :: W16
  rb_forward_cycle :: W16
  rb_lfrqslot :: W16
  rb_iqslot :: W16
  rb_executable_on_cluster_mask :: W16
  rb_cluster :: W8
  rb_fu :: W8
  rb_consumer_count :: W8
  rb_pteupdate :: bool
  rb_origvirt :: W64
  rb_virtpage :: W64
  rb_entry_valid :: bool
  rb_load_store_second_phase :: bool
  rb_lock_acquired :: bool
  rb_issued :: bool

record LoadStoreQueueEntry =
  lsq_sfr :: SFR
  lsq_rob :: "nat option"
  lsq_idx :: nat
  lsq_mbtag :: W8
  lsq_store :: bool
  lsq_lfence :: bool
  lsq_sfence :: bool
  lsq_entry_valid :: bool

record MemoryInterlockEntry =
  lk_uuid :: W64
  lk_rob :: W16
  lk_vcpuid :: W8
  lk_threadid :: W8

subsection \<open>The core\<close>

record Core =
  oc_files :: RegFiles
  oc_specrrt :: "preg list"
  oc_commitrrt :: "preg list"
  oc_ROB :: "ReorderBufferEntry FixedQueue"
  oc_rob_lists :: "rob_node list_heap"
  oc_fetchq :: "FetchBufferEntry FixedQueue"
  oc_LSQ :: "LoadStoreQueueEntry FixedQueue"
  oc_loads_in_flight :: int
  oc_stores_in_flight :: int
  oc_round_robin_reg_file_offset :: int
  oc_commitarf :: "W64 list"
  oc_exception :: W32
  oc_error_code :: W32
  oc_cr2 :: W64
  oc_no_sse :: bool
  oc_no_x87 :: bool
  oc_vcpuid :: W8
  oc_smc_invalidate_pending :: bool
  oc_smc_invalidate_rvp :: RIPVirtPhys
  oc_chk_recovery_rip :: W64
  oc_stop_at_next_eom :: bool
  oc_handle_interrupt_at_next_eom :: bool
  oc_stop_at_user_insns :: W64
  oc_total_user_insns_committed :: W64
  oc_total_uops_committed :: W64
  oc_issueq :: "IssueQueue list"
  oc_issueq_count :: int
  oc_branchpred :: CombinedPredictor
  oc_asp :: AddressSpace
  oc_mem :: memory
  oc_caches :: CacheHierarchy
  oc_interlocks :: "MemoryInterlockEntry LockableAssociativeArray"
  oc_queued_mem_lock_release_list :: "W64 list"
  oc_unaligned_predictor :: bitset
  oc_commitcount :: int
  oc_writecount :: int
  oc_fetchrip :: RIPVirtPhys
  oc_stall_frontend :: bool
  oc_waiting_for_icache_fill :: bool
  oc_dispatch_deadlock_countdown :: int

definition check :: "bool \<Rightarrow> unit option" where
  "check b = (if b then Some () else None)"

lemma check_simps [simp]: "check True = Some ()" "check False = None" "check b = None \<longleftrightarrow> \<not> b" "check b = Some u \<longleftrightarrow> b"
  by (auto simp: check_def)

definition rob_at :: "nat \<Rightarrow> Core \<Rightarrow> ReorderBufferEntry" where
  "rob_at i C = slots (oc_ROB C) ! i"

definition upd_rob :: "nat \<Rightarrow> (ReorderBufferEntry \<Rightarrow> ReorderBufferEntry) \<Rightarrow> Core \<Rightarrow> Core" where
  "upd_rob i f C = C\<lparr>oc_ROB := (oc_ROB C)\<lparr>slots := (slots (oc_ROB C))[i := f (slots (oc_ROB C) ! i)]\<rparr>\<rparr>"

definition lsq_at :: "nat \<Rightarrow> Core \<Rightarrow> LoadStoreQueueEntry" where
  "lsq_at i C = slots (oc_LSQ C) ! i"

definition upd_lsq :: "nat \<Rightarrow> (LoadStoreQueueEntry \<Rightarrow> LoadStoreQueueEntry) \<Rightarrow> Core \<Rightarrow> Core" where
  "upd_lsq i f C = C\<lparr>oc_LSQ := (oc_LSQ C)\<lparr>slots := (slots (oc_LSQ C))[i := f (slots (oc_LSQ C) ! i)]\<rparr>\<rparr>"

subsection \<open>Operations of the entries\<close>

definition rob_reset :: "ReorderBufferEntry \<Rightarrow> ReorderBufferEntry" where
  "rob_reset r = r\<lparr>rb_entry_valid := False, rb_cycles_left := 0, rb_physreg := None, rb_lfrqslot := -1, rb_lsq := None,
     rb_load_store_second_phase := False, rb_lock_acquired := False, rb_consumer_count := 0,
     rb_executable_on_cluster_mask := 0, rb_pteupdate := False, rb_cluster := -1, rb_issued := False\<rparr>"

definition lsq_reset :: "LoadStoreQueueEntry \<Rightarrow> LoadStoreQueueEntry" where
  "lsq_reset e = \<lparr>lsq_sfr = \<lparr>sfr_data = 0, sfr_addrvalid = False, sfr_invalid = False, sfr_datavalid = False,
       sfr_physaddr = 0, sfr_bytemask = 0, sfr_tag = 0, sfr_smc_mfn = 0\<rparr>,
     lsq_rob = None, lsq_idx = lsq_idx e, lsq_mbtag = -1, lsq_store = False, lsq_lfence = False, lsq_sfence = False,
     lsq_entry_valid = False\<rparr>"

text \<open>\<^verbatim>\<open>changestate\<close> with \<open>place\<close> the previous entry of the new list when it is placed in its midst.\<close>

definition rob_changestate :: "nat \<Rightarrow> rob_list \<Rightarrow> nat option option \<Rightarrow> Core \<Rightarrow> Core option" where
  "rob_changestate i newqueue place C =
     do {
       k \<leftarrow> (case rb_list (rob_at i C) of None \<Rightarrow> Some (oc_rob_lists C)
             | Some l \<Rightarrow> sl_remove (RobList l) (Rob i) (oc_rob_lists C));
       k' \<leftarrow> (case place of None \<Rightarrow> sl_enqueue (RobList newqueue) (Rob i) k
              | Some prevrob \<Rightarrow> sl_enqueue_after (RobList newqueue) (Rob i) (map_option Rob prevrob) k);
       Some (upd_rob i (\<lambda>r. r\<lparr>rb_list := Some newqueue\<rparr>) (C\<lparr>oc_rob_lists := k'\<rparr>))
     }"

definition ready_to_commit :: "nat \<Rightarrow> Core \<Rightarrow> bool" where
  "ready_to_commit i C \<longleftrightarrow> rb_list (rob_at i C) = Some rob_ready_to_commit"

definition ready_to_issue :: "nat \<Rightarrow> Core \<Rightarrow> bool" where
  "ready_to_issue i C =
     (let r = rob_at i C;
          ready = (\<lambda>k. preg_ready (rb_operands r ! k) (oc_files C))
      in if isstore (op_opcode (rb_uop r))
         then (if rb_load_store_second_phase r then ready 0 \<and> ready 1 \<and> ready 2 \<and> ready 3 else ready 0 \<and> ready 1)
         else if isload (op_opcode (rb_uop r))
         then (if rb_load_store_second_phase r then ready 0 \<and> ready 1 \<and> ready 2 \<and> ready 3 else ready 0 \<and> ready 1 \<and> ready 2)
         else ready 0 \<and> ready 1 \<and> ready 2 \<and> ready 3)"

definition get_ready_to_issue_list :: "nat \<Rightarrow> Core \<Rightarrow> rob_list" where
  "get_ready_to_issue_list i C =
     (let r = rob_at i C; cluster = nat (sint (rb_cluster r))
      in if isload (op_opcode (rb_uop r)) then rob_ready_to_load cluster
         else if isstore (op_opcode (rb_uop r)) then rob_ready_to_store cluster
         else rob_ready_to_issue cluster)"

subsection \<open>Rename tables\<close>

text \<open>
  A table entry gives up its register and takes another one: \<^verbatim>\<open>unspecref\<close>, the assignment and
  \<^verbatim>\<open>addspecref\<close>, and the same for the committed table.
\<close>

definition spec_rename :: "nat \<Rightarrow> preg \<Rightarrow> Core \<Rightarrow> Core option" where
  "spec_rename r p C =
     do { F \<leftarrow> unref (oc_specrrt C ! r) (oc_files C);
          Some (C\<lparr>oc_files := addref p F, oc_specrrt := (oc_specrrt C)[r := p]\<rparr>) }"

definition commit_rename :: "nat \<Rightarrow> preg \<Rightarrow> Core \<Rightarrow> Core option" where
  "commit_rename r p C =
     do { F \<leftarrow> unref (oc_commitrrt C ! r) (oc_files C);
          Some (C\<lparr>oc_files := addref p F, oc_commitrrt := (oc_commitrrt C)[r := p]\<rparr>) }"

definition spec_rename_if :: "bool \<Rightarrow> nat \<Rightarrow> preg \<Rightarrow> Core \<Rightarrow> Core option" where
  "spec_rename_if b r p C = (if b then spec_rename r p C else Some C)"

definition commit_rename_if :: "bool \<Rightarrow> nat \<Rightarrow> preg \<Rightarrow> Core \<Rightarrow> Core option" where
  "commit_rename_if b r p C = (if b then commit_rename r p C else Some C)"

definition sets_flag :: "W8 \<Rightarrow> FetchBufferEntry \<Rightarrow> bool" where
  "sets_flag f uop \<longleftrightarrow> op_setflags uop AND f \<noteq> 0"

definition spec_rename_dests :: "FetchBufferEntry \<Rightarrow> preg \<Rightarrow> Core \<Rightarrow> Core option" where
  "spec_rename_dests uop p C =
     do {
       C \<leftarrow> spec_rename_if (archdest_can_commit ! op_rd uop) (op_rd uop) p C;
       if op_nouserflags uop then Some C
       else do {
         C \<leftarrow> spec_rename_if (sets_flag SETFLAG_ZF uop) REG_zf p C;
         C \<leftarrow> spec_rename_if (sets_flag SETFLAG_CF uop) REG_cf p C;
         spec_rename_if (sets_flag SETFLAG_OF uop) REG_of p C
       }
     }"

definition find_first :: "('a \<Rightarrow> bool) \<Rightarrow> 'a list \<Rightarrow> 'a option" where
  "find_first P xs = (case filter P xs of [] \<Rightarrow> None | x # _ \<Rightarrow> Some x)"

end
