(* ===== verification/Pipe_Rename.thy ===== *)
theory Pipe_Rename
  imports Pipe_State
begin

text \<open>
  The rename stage of \<^verbatim>\<open>ooopipe.cpp\<close>: allocation of the reorder buffer entry, the load/store queue
  entry and the physical register of each fetched micro-operation, the renaming of its operands
  and of its destinations.
  Statistics, the event log and the values that only they read are left out.
\<close>

definition LDQ_SIZE :: int where "LDQ_SIZE = 48"
definition FRONTEND_WIDTH :: nat where "FRONTEND_WIDTH = 4"
definition FRONTEND_STAGES :: W16 where "FRONTEND_STAGES = 5"
definition DATATYPE_INT :: nat where "DATATYPE_INT = 0"
definition MF_TYPE_SFENCE :: nat where "MF_TYPE_SFENCE = 1"
definition MF_TYPE_LFENCE :: nat where "MF_TYPE_LFENCE = 2"
definition PHYS_REG_FILE_INT :: nat where "PHYS_REG_FILE_INT = 0"
definition PHYS_REG_FILE_FP :: nat where "PHYS_REG_FILE_FP = 1"
definition PHYS_REG_FILE_ST :: nat where "PHYS_REG_FILE_ST = 2"
definition PHYS_REG_FILE_BR :: nat where "PHYS_REG_FILE_BR = 3"

lemmas reg_file_numbers = PHYS_REG_FILE_INT_def PHYS_REG_FILE_FP_def PHYS_REG_FILE_ST_def PHYS_REG_FILE_BR_def

subsection \<open>The choice of a register file\<close>

definition phys_reg_files_writable_by_uop :: "FetchBufferEntry \<Rightarrow> W32" where
  "phys_reg_files_writable_by_uop uop =
     (let c = opinfo_opclass ! op_opcode uop
      in push_bit
        (if c AND OPCLASS_STORE \<noteq> 0 then PHYS_REG_FILE_ST
         else if c AND OPCLASS_BRANCH \<noteq> 0 then PHYS_REG_FILE_BR
         else if c AND (OPCLASS_LOAD OR OPCLASS_PREFETCH) \<noteq> 0
         then (if op_datatype uop = DATATYPE_INT then PHYS_REG_FILE_INT else PHYS_REG_FILE_FP)
         else if c AND OPCLASS_FP \<noteq> 0 \<or> (REG_xmml0 \<le> op_rd uop \<and> op_rd uop \<le> REG_xmmh15)
           \<or> (REG_fptos \<le> op_rd uop \<and> op_rd uop \<le> REG_ctx) then PHYS_REG_FILE_FP
         else PHYS_REG_FILE_INT) 1)"

definition rename_reg_file :: "FetchBufferEntry \<Rightarrow> Core \<Rightarrow> nat option" where
  "rename_reg_file uop C =
     find_first (\<lambda>f. bit (phys_reg_files_writable_by_uop uop) f \<and> pf_remaining f (oc_files C))
       (map (\<lambda>i. nat (add_index_modulo (oc_round_robin_reg_file_offset C) (int i) (int PHYS_REG_FILE_COUNT)))
         [0..<PHYS_REG_FILE_COUNT])"

subsection \<open>Renaming one micro-operation\<close>

datatype rename_stall = fetchq_empty | rob_full | physregs_full | ldq_full | stq_full | memq_full

definition rename_blocked :: "Core \<Rightarrow> rename_stall option" where
  "rename_blocked C =
     (if fq_empty (oc_fetchq C) then Some fetchq_empty
      else if fq_remaining (oc_ROB C) = 0 then Some rob_full
      else let uop = slots (oc_fetchq C) ! nat (head (oc_fetchq C));
               ld = isload (op_opcode uop); st = isstore (op_opcode uop)
           in if rename_reg_file uop C = None then Some physregs_full
              else if ld \<and> oc_loads_in_flight C \<ge> LDQ_SIZE then Some ldq_full
              else if st \<and> oc_stores_in_flight C \<ge> int STQ_SIZE then Some stq_full
              else if (ld \<or> st) \<and> fq_remaining (oc_LSQ C) = 0 then Some memq_full
              else None)"

text \<open>The load/store queue entry of a memory operation.\<close>

definition rename_lsq :: "FetchBufferEntry \<Rightarrow> nat \<Rightarrow> Core \<Rightarrow> Core option" where
  "rename_lsq uop i C =
     (let ld = isload (op_opcode uop); st = isstore (op_opcode uop)
      in if \<not> (ld \<or> st) then Some (upd_rob i (\<lambda>r. r\<lparr>rb_lsq := None\<rparr>) C)
         else case queue_alloc (\<lambda>e. e\<lparr>lsq_entry_valid := True\<rparr>) (oc_LSQ C) of
           (None, _) \<Rightarrow> None
         | (Some l, q) \<Rightarrow>
             let fence = op_opcode uop = OP_mf;
                 C = upd_lsq (nat l) (\<lambda>e. e\<lparr>lsq_rob := Some i, lsq_store := st,
                       lsq_lfence := fence \<and> op_extshift uop AND MF_TYPE_LFENCE \<noteq> 0,
                       lsq_sfence := fence \<and> op_extshift uop AND MF_TYPE_SFENCE \<noteq> 0,
                       lsq_sfr := (lsq_sfr e)\<lparr>sfr_datavalid := False, sfr_addrvalid := False, sfr_invalid := False\<rparr>\<rparr>)
                     (upd_rob i (\<lambda>r. r\<lparr>rb_lsq := Some (nat l)\<rparr>) (C\<lparr>oc_LSQ := q\<rparr>))
             in Some (C\<lparr>oc_loads_in_flight := oc_loads_in_flight C + of_bool (\<not> st),
                        oc_stores_in_flight := oc_stores_in_flight C + of_bool st\<rparr>))"

definition RA :: nat where "RA = 0"
definition RB :: nat where "RB = 1"
definition RC :: nat where "RC = 2"
definition RS :: nat where "RS = 3"

definition in_flight :: "nat \<Rightarrow> bool" where
  "in_flight s \<longleftrightarrow> s = PHYSREG_WAITING \<or> s = PHYSREG_BYPASS \<or> s = PHYSREG_WRITTEN"

definition count_consumer :: "preg \<Rightarrow> Core \<Rightarrow> Core option" where
  "count_consumer p C =
     (if in_flight (pr_state (preg_of (oc_files C) p))
      then do { j \<leftarrow> pr_rob (preg_of (oc_files C) p);
                Some (upd_rob j (\<lambda>r. r\<lparr>rb_consumer_count := of_int (min (uint (rb_consumer_count r) + 1) 255)\<rparr>) C) }
      else Some C)"

fun rename_operands :: "preg list \<Rightarrow> Core \<Rightarrow> Core option" where
  "rename_operands [] C = Some C"
| "rename_operands (p # ps) C =
     do {
       C \<leftarrow> Some (C\<lparr>oc_files := addref p (oc_files C)\<rparr>);
       _ \<leftarrow> check (pr_state (preg_of (oc_files C) p) \<noteq> PHYSREG_FREE);
       C \<leftarrow> count_consumer p C;
       rename_operands ps C
     }"

definition source_operands :: "FetchBufferEntry \<Rightarrow> Core \<Rightarrow> preg list" where
  "source_operands uop C =
     [oc_specrrt C ! op_ra uop, oc_specrrt C ! op_rb uop, oc_specrrt C ! op_rc uop, (0, PHYS_REG_NULL)]"

definition rename_dest :: "FetchBufferEntry \<Rightarrow> nat \<Rightarrow> nat \<Rightarrow> Core \<Rightarrow> Core option" where
  "rename_dest uop i rf C =
     do {
       C \<leftarrow> Some (upd_rob i (\<lambda>r. r\<lparr>rb_executable_on_cluster_mask := ucast (uop_executable_on_cluster ! op_opcode uop)\<rparr>) C);
       _ \<leftarrow> check (bit (phys_reg_files_writable_by_uop uop) rf);
       (physreg, F) \<leftarrow> pf_alloc rf 0 (-1) (oc_files C);
       p \<leftarrow> physreg;
       C \<leftarrow> Some (C\<lparr>oc_files := upd_preg p (\<lambda>r. r\<lparr>pr_flags := FLAG_WAIT, pr_data := 0xdeadbeefdeadbeef,
               pr_rob := Some i, pr_archreg := op_rd uop\<rparr>) F\<rparr>);
       C \<leftarrow> Some (upd_rob i (\<lambda>r. r\<lparr>rb_physreg := Some p\<rparr>) C);
       C \<leftarrow> spec_rename_dests uop p C;
       _ \<leftarrow> check (list_all (\<lambda>p. allocated p (oc_files C)) (rb_operands (rob_at i C)));
       Some C
     }"

text \<open>The part of the loop body after the last check that may stop the stage.\<close>

definition rename_uop :: "Core \<Rightarrow> Core option" where
  "rename_uop C =
     (case fq_dequeue (oc_fetchq C) of
        (None, _) \<Rightarrow> None
      | (Some h, fetchq) \<Rightarrow>
         (let uop = slots (oc_fetchq C) ! nat h
          in do {
            rf \<leftarrow> rename_reg_file uop C;
            (i, ROB) \<leftarrow> (case queue_alloc (\<lambda>r. r\<lparr>rb_entry_valid := True\<rparr>) (oc_ROB C) of
                            (None, _) \<Rightarrow> None | (Some i, q) \<Rightarrow> Some (nat i, q));
            C \<leftarrow> Some (C\<lparr>oc_fetchq := fetchq, oc_ROB := ROB\<rparr>);
            C \<leftarrow> Some (upd_rob i (\<lambda>r. (rob_reset r)\<lparr>rb_uop := uop, rb_entry_valid := True,
                    rb_cycles_left := FRONTEND_STAGES\<rparr>) C);
            C \<leftarrow> rename_lsq uop i C;
            C \<leftarrow> Some (upd_rob i (\<lambda>r. r\<lparr>rb_operands := source_operands uop C\<rparr>) C);
            C \<leftarrow> rename_operands (rb_operands (rob_at i C)) C;
            C \<leftarrow> rename_dest uop i rf C;
            rob_changestate i rob_frontend None C
          }))"

text \<open>\<open>n\<close> is \<^verbatim>\<open>FRONTEND_WIDTH - prepcount\<close>.\<close>

fun rename_loop :: "nat \<Rightarrow> Core \<Rightarrow> Core option" where
  "rename_loop 0 C = Some C"
| "rename_loop (Suc n) C =
     (if rename_blocked C \<noteq> None then Some C else do { C \<leftarrow> rename_uop C; rename_loop n C })"

definition rename :: "Core \<Rightarrow> Core option" where
  "rename C = rename_loop FRONTEND_WIDTH C"

end
