(* ===== verification/Pipe_Commit.thy ===== *)
theory Pipe_Commit
  imports Pipe_Rename
begin

text \<open>
  The stages between execution and retirement (\<^verbatim>\<open>complete\<close>, \<^verbatim>\<open>transfer\<close>, \<^verbatim>\<open>writeback\<close>, \<^verbatim>\<open>frontend\<close>) and the
  commit stage of \<^verbatim>\<open>ooopipe.cpp\<close>. Statistics and the event log are left out, as is the line that a
  shot-down macro-op prints; \<^verbatim>\<open>update_pte_acc_dirty\<close> has an empty body.
\<close>

subsection \<open>Traversal of a list that its body changes\<close>

text \<open>
  \<^verbatim>\<open>foreach_list_mutable\<close>: the next entry is read before the body runs. The body says whether it
  leaves the loop. \<open>None\<close> is a null pointer, a failed assertion, or no end within \<open>fuel\<close> rounds.
\<close>

fun foreach_list_mutable ::
  "nat \<Rightarrow> ('s \<Rightarrow> 'n links) \<Rightarrow> ('n \<Rightarrow> 's \<Rightarrow> (bool \<times> 's) option) \<Rightarrow> 'n \<Rightarrow> 'n option \<Rightarrow> 's \<Rightarrow> 's option" where
  "foreach_list_mutable fuel links body root entry S =
     (case entry of None \<Rightarrow> None
      | Some e \<Rightarrow> if e = root then Some S
          else case fuel of 0 \<Rightarrow> None
            | Suc n \<Rightarrow> (let nextentry = lk_next (links S) e in
                case body e S of None \<Rightarrow> None
                | Some (leave, S') \<Rightarrow> if leave then Some S' else foreach_list_mutable n links body root nextentry S'))"

declare foreach_list_mutable.simps [simp del]

definition foreach_rob :: "rob_list \<Rightarrow> (nat \<Rightarrow> Core \<Rightarrow> (bool \<times> Core) option) \<Rightarrow> Core \<Rightarrow> Core option" where
  "foreach_rob l body C =
     foreach_list_mutable ROB_SIZE (\<lambda>C. lh_links (oc_rob_lists C))
       (\<lambda>e C. case e of Rob i \<Rightarrow> body i C | RobList _ \<Rightarrow> None) (RobList l) (lk_next (lh_links (oc_rob_lists C)) (RobList l)) C"

definition foreach_preg :: "nat \<Rightarrow> nat \<Rightarrow> (preg \<Rightarrow> RegFiles \<Rightarrow> RegFiles option) \<Rightarrow> RegFiles \<Rightarrow> RegFiles option" where
  "foreach_preg f s body F =
     foreach_list_mutable MAX_PHYS_REG_FILE_SIZE (\<lambda>F. lh_links (rf_heap F))
       (\<lambda>e F. case e of Reg f i \<Rightarrow> map_option (Pair False) (body (f, i) F) | ListOf _ _ \<Rightarrow> None) (ListOf f s)
       (lk_next (lh_links (rf_heap F)) (ListOf f s)) F"

subsection \<open>Forwarding, completion and writeback\<close>

definition WRITEBACK_WIDTH :: int where "WRITEBACK_WIDTH = 4"
definition COMMIT_WIDTH :: int where "COMMIT_WIDTH = 4"

definition cluster_of :: "ReorderBufferEntry \<Rightarrow> nat" where
  "cluster_of r = nat (sint (rb_cluster r))"

definition forward :: "nat \<Rightarrow> Core \<Rightarrow> Core option" where
  "forward i C =
     (let r = rob_at i C
      in do {
        _ \<leftarrow> check (0 \<le> sint (rb_forward_cycle r) \<and> sint (rb_forward_cycle r) \<le> int MAX_FORWARDING_LATENCY);
        tag \<leftarrow> get_tag (of_nat (rb_idx r)) 0;
        let targets = forward_at_cycle_lut ! cluster_of r ! nat (sint (rb_forward_cycle r))
        in Some (C\<lparr>oc_issueq := map (\<lambda>(c, q). if bit targets c then snd (iq_broadcast tag q) else q)
                      (enumerate 0 (oc_issueq C))\<rparr>)
      })"

definition frontend_one :: "nat \<Rightarrow> Core \<Rightarrow> (bool \<times> Core) option" where
  "frontend_one i C =
     do {
       C \<leftarrow> (if sint (rb_cycles_left (rob_at i C)) \<le> 0
             then rob_changestate i rob_ready_to_dispatch None (upd_rob i (\<lambda>r. r\<lparr>rb_cycles_left := -1\<rparr>) C)
             else Some C);
       Some (False, upd_rob i (\<lambda>r. r\<lparr>rb_cycles_left := rb_cycles_left r - 1\<rparr>) C)
     }"

definition frontend :: "Core \<Rightarrow> Core option" where
  "frontend C = foreach_rob rob_frontend frontend_one C"

definition upd_physreg :: "nat \<Rightarrow> (preg \<Rightarrow> RegFiles \<Rightarrow> RegFiles option) \<Rightarrow> Core \<Rightarrow> Core option" where
  "upd_physreg i f C =
     do { p \<leftarrow> rb_physreg (rob_at i C); F \<leftarrow> f p (oc_files C); Some (C\<lparr>oc_files := F\<rparr>) }"

definition complete_stage_one :: "nat \<Rightarrow> nat \<Rightarrow> Core \<Rightarrow> (bool \<times> Core) option" where
  "complete_stage_one cluster i C =
     do {
       C \<leftarrow> Some (upd_rob i (\<lambda>r. r\<lparr>rb_cycles_left := rb_cycles_left r - 1\<rparr>) C);
       if sint (rb_cycles_left (rob_at i C)) \<le> 0
       then do {
         C \<leftarrow> rob_changestate i (rob_completed cluster) None C;
         C \<leftarrow> upd_physreg i preg_complete C;
         Some (False, upd_rob i (\<lambda>r. r\<lparr>rb_forward_cycle := 0, rb_fu := 0\<rparr>) C)
       }
       else Some (False, C)
     }"

definition complete_stage :: "nat \<Rightarrow> Core \<Rightarrow> Core option" where
  "complete_stage cluster C = foreach_rob (rob_issued cluster) (complete_stage_one cluster) C"

definition transfer_stage_one :: "nat \<Rightarrow> nat \<Rightarrow> Core \<Rightarrow> (bool \<times> Core) option" where
  "transfer_stage_one cluster i C =
     do {
       C \<leftarrow> forward i C;
       C \<leftarrow> Some (upd_rob i (\<lambda>r. r\<lparr>rb_forward_cycle := rb_forward_cycle r + 1\<rparr>) C);
       if sint (rb_forward_cycle (rob_at i C)) > int MAX_FORWARDING_LATENCY
       then do {
         C \<leftarrow> Some (upd_rob i (\<lambda>r. r\<lparr>rb_forward_cycle := of_nat MAX_FORWARDING_LATENCY\<rparr>) C);
         C \<leftarrow> rob_changestate i (rob_ready_to_writeback (cluster_of (rob_at i C))) None C;
         Some (False, C)
       }
       else Some (False, C)
     }"

definition transfer_stage :: "nat \<Rightarrow> Core \<Rightarrow> Core option" where
  "transfer_stage cluster C = foreach_rob (rob_completed cluster) (transfer_stage_one cluster) C"

definition writeback_stage_one :: "nat \<Rightarrow> nat \<Rightarrow> Core \<Rightarrow> (bool \<times> Core) option" where
  "writeback_stage_one cluster i C =
     (if oc_writecount C \<ge> WRITEBACK_WIDTH then Some (True, C)
     else do {
       C \<leftarrow> forward i C;
       C \<leftarrow> Some (C\<lparr>oc_writecount := oc_writecount C + 1\<rparr>);
       C \<leftarrow> upd_physreg i preg_writeback C;
       C \<leftarrow> rob_changestate i rob_ready_to_commit None (upd_rob i (\<lambda>r. r\<lparr>rb_cycles_left := -1\<rparr>) C);
       Some (False, C)
     })"

definition writeback_stage :: "nat \<Rightarrow> Core \<Rightarrow> Core option" where
  "writeback_stage cluster C = foreach_rob (rob_ready_to_writeback cluster) (writeback_stage_one cluster) C"

subsection \<open>Memory locks and fences\<close>

definition INTERLOCK_LINE :: nat where "INTERLOCK_LINE = 8"

definition lock_probe :: "W64 \<Rightarrow> Core \<Rightarrow> MemoryInterlockEntry option \<times> Core" where
  "lock_probe lockaddr C =
     (let (p, a) = laa_probe INTERLOCK_LINE lockaddr (oc_interlocks C)
      in (map_option (\<lambda>(set, way). lka_data (laa_sets a ! set) ! nat way) p, C\<lparr>oc_interlocks := a\<rparr>))"

definition lock_reset :: "MemoryInterlockEntry \<Rightarrow> MemoryInterlockEntry" where
  "lock_reset e = e\<lparr>lk_uuid := 0, lk_rob := 0, lk_vcpuid := 0, lk_threadid := 0\<rparr>"

definition release_mem_lock :: "nat \<Rightarrow> Core \<Rightarrow> (bool \<times> Core) option" where
  "release_mem_lock i C =
     (if \<not> rb_lock_acquired (rob_at i C) then Some (False, C)
      else do {
        l \<leftarrow> rb_lsq (rob_at i C);
        let physaddr = push_bit 3 (ucast (sfr_physaddr (lsq_sfr (lsq_at l C)))) in
        case lock_probe physaddr C of (None, _) \<Rightarrow> None
        | (Some lock, C) \<Rightarrow> do {
            _ \<leftarrow> check (lk_vcpuid lock = oc_vcpuid C);
            _ \<leftarrow> check (lk_uuid lock = fb_uuid (rb_uop (rob_at i C)));
            _ \<leftarrow> check (unat (lk_rob lock) = rb_idx (rob_at i C));
            _ \<leftarrow> check (length (oc_queued_mem_lock_release_list C) < 4);
            Some (True, upd_rob i (\<lambda>r. r\<lparr>rb_lock_acquired := False\<rparr>)
              (C\<lparr>oc_queued_mem_lock_release_list := oc_queued_mem_lock_release_list C @ [physaddr]\<rparr>)) } })"

fun release_locks :: "W64 list \<Rightarrow> Core \<Rightarrow> Core option" where
  "release_locks [] C = Some C"
| "release_locks (lockaddr # as) C =
     (case lock_probe lockaddr C of (None, _) \<Rightarrow> None
      | (Some lock, C) \<Rightarrow> do {
          _ \<leftarrow> check (lk_vcpuid lock = oc_vcpuid C);
          release_locks as (C\<lparr>oc_interlocks := laa_invalidate lock_reset INTERLOCK_LINE lockaddr (oc_interlocks C)\<rparr>) })"

definition flush_mem_lock_release_list :: "nat \<Rightarrow> Core \<Rightarrow> Core option" where
  "flush_mem_lock_release_list start C =
     map_option (\<lambda>C. C\<lparr>oc_queued_mem_lock_release_list := take start (oc_queued_mem_lock_release_list C)\<rparr>)
       (release_locks (drop start (oc_queued_mem_lock_release_list C)) C)"

definition fencewakeup :: "nat \<Rightarrow> Core \<Rightarrow> Core option" where
  "fencewakeup i C =
     do {
       _ \<leftarrow> check (\<not> rb_load_store_second_phase (rob_at i C));
       _ \<leftarrow> check (ready_to_commit i C);
       l \<leftarrow> rb_lsq (rob_at i C);
       _ \<leftarrow> check (\<not> sfr_datavalid (lsq_sfr (lsq_at l C)));
       _ \<leftarrow> check (\<not> sfr_addrvalid (lsq_sfr (lsq_at l C)));
       C \<leftarrow> upd_physreg i (\<lambda>p F. Some (upd_preg p (\<lambda>r. r\<lparr>pr_flags := pr_flags r AND NOT FLAG_WAIT, pr_data := 0\<rparr>) F)) C;
       C \<leftarrow> upd_physreg i preg_complete C;
       C \<leftarrow> Some (upd_lsq l (\<lambda>e. e\<lparr>lsq_sfr := (lsq_sfr e)\<lparr>sfr_datavalid := True, sfr_addrvalid := True\<rparr>\<rparr>) C);
       C \<leftarrow> Some (upd_rob i (\<lambda>r. r\<lparr>rb_cycles_left := 0, rb_lfrqslot := -1, rb_forward_cycle := 0, rb_fu := 0,
               rb_load_store_second_phase := True\<rparr>) C);
       rob_changestate i (rob_completed (cluster_of (rob_at i C))) None C
     }"

subsection \<open>Commit of one entry\<close>

datatype commit_result = COMMIT_NONE | COMMIT_OK | COMMIT_EXCEPTION | COMMIT_BARRIER | COMMIT_SMC | COMMIT_INTERRUPT
  | COMMIT_STOP

definition EXCEPTION_PageFaultOnRead :: W32 where "EXCEPTION_PageFaultOnRead = 4"
definition EXCEPTION_PageFaultOnWrite :: W32 where "EXCEPTION_PageFaultOnWrite = 5"
definition EXCEPTION_SkipBlock :: W32 where "EXCEPTION_SkipBlock = 10"
definition EXCEPTION_FloatingPointNotAvailable :: W64 where "EXCEPTION_FloatingPointNotAvailable = 13"

text \<open>
  The scan over the macro-op: whether all its entries are ready, whether its end was found, and
  whether it has an exception.
\<close>

definition force_fp_exception :: "nat \<Rightarrow> preg \<Rightarrow> Core \<Rightarrow> Core" where
  "force_fp_exception j p C =
     (let C = C\<lparr>oc_files := upd_preg p (\<lambda>r. r\<lparr>pr_data := EXCEPTION_FloatingPointNotAvailable, pr_flags := FLAG_INV\<rparr>)
            (oc_files C)\<rparr>
      in (case rb_lsq (rob_at j C) of None \<Rightarrow> C
          | Some l \<Rightarrow> upd_lsq l (\<lambda>e. e\<lparr>lsq_sfr := (lsq_sfr e)\<lparr>sfr_invalid := True\<rparr>\<rparr>) C))"

definition note_exception :: "nat \<Rightarrow> preg \<Rightarrow> Core \<Rightarrow> Core" where
  "note_exception j p C =
     (let data = pr_data (preg_of (oc_files C) p);
          C = C\<lparr>oc_exception := ucast data, oc_error_code := ucast (drop_bit 32 data)\<rparr>
      in if oc_exception C = EXCEPTION_PageFaultOnRead \<or> oc_exception C = EXCEPTION_PageFaultOnWrite
         then C\<lparr>oc_cr2 := rb_origvirt (rob_at j C)\<rparr> else C)"

fun commit_scan :: "nat list \<Rightarrow> bool \<Rightarrow> Core \<Rightarrow> (bool \<times> bool \<times> bool \<times> Core) option" where
  "commit_scan [] ready C = Some (ready, False, False, C)"
| "commit_scan (j # js) ready C =
     (case rb_physreg (rob_at j C) of None \<Rightarrow> None
      | Some p \<Rightarrow>
          let uop = rb_uop (rob_at j C);
              ready = (ready \<and> ready_to_commit j C);
              force = (op_is_sse uop \<and> oc_no_sse C \<or> op_is_x87 uop \<and> oc_no_x87 C);
              C = (if force then force_fp_exception j p C else C)
          in if pr_flags (preg_of (oc_files C) p) AND FLAG_INV \<noteq> 0 then Some (True, True, True, note_exception j p C)
             else if op_eom uop then Some (ready, True, False, C)
             else commit_scan js ready C)"

definition rob_from :: "nat \<Rightarrow> Core \<Rightarrow> nat list option" where
  "rob_from i C = map_option (map nat) (walk ROB_SIZE (fq_size (oc_ROB C)) 1 (tail (oc_ROB C)) (int i))"

definition page_crossing :: "FetchBufferEntry \<Rightarrow> bool" where
  "page_crossing uop \<longleftrightarrow>
     drop_bit 12 (lowbits (rvp_rip (fb_rip uop)) 12 + (op_bytes uop - 1)) \<noteq> 0"

definition smc_dirty :: "FetchBufferEntry \<Rightarrow> Core \<Rightarrow> bool" where
  "smc_dirty uop C \<longleftrightarrow> isdirty (rvp_mfnlo (fb_rip uop)) (oc_asp C)
     \<or> (page_crossing uop \<and> isdirty (rvp_mfnhi (fb_rip uop)) (oc_asp C))"

definition is_store_uop :: "FetchBufferEntry \<Rightarrow> bool" where
  "is_store_uop uop \<longleftrightarrow> op_opcode uop = OP_st \<or> op_opcode uop = OP_st_a16"

text \<open>A store whose address another processor has locked waits.\<close>

definition store_is_locked :: "nat \<Rightarrow> Core \<Rightarrow> (bool \<times> Core) option" where
  "store_is_locked i C =
     (if \<not> is_store_uop (rb_uop (rob_at i C)) then Some (False, C)
      else do {
        l \<leftarrow> rb_lsq (rob_at i C);
        case lock_probe (push_bit 3 (ucast (sfr_physaddr (lsq_sfr (lsq_at l C))))) C of
          (None, C) \<Rightarrow> Some (False, C)
        | (Some lock, C) \<Rightarrow> Some (lk_vcpuid lock \<noteq> oc_vcpuid C, C) })"

definition setflags_to_x86_flags :: "W16 list" where
  "setflags_to_x86_flags =
     [0 OR 0 OR 0, 0 OR 0 OR FLAG_ZAPS, 0 OR FLAG_CF OR 0, 0 OR FLAG_CF OR FLAG_ZAPS,
      FLAG_OF OR 0 OR 0, FLAG_OF OR 0 OR FLAG_ZAPS, FLAG_OF OR FLAG_CF OR 0, FLAG_OF OR FLAG_CF OR FLAG_ZAPS]"

definition put_arf :: "nat \<Rightarrow> W64 \<Rightarrow> Core \<Rightarrow> Core" where
  "put_arf r v C = C\<lparr>oc_commitarf := (oc_commitarf C)[r := v]\<rparr>"

definition commit_dest :: "FetchBufferEntry \<Rightarrow> preg \<Rightarrow> Core \<Rightarrow> Core option" where
  "commit_dest uop p C =
     (if archdest_can_commit ! op_rd uop
      then do {
        C \<leftarrow> commit_rename (op_rd uop) p C;
        let C = (if op_rd uop < ARCHREG_COUNT then put_arf (op_rd uop) (pr_data (preg_of (oc_files C) p)) C else C)
        in Some (C\<lparr>oc_files := upd_preg p (\<lambda>r. r\<lparr>pr_rob := None\<rparr>) (oc_files C)\<rparr>)
      }
      else Some C)"

definition commit_rip :: "FetchBufferEntry \<Rightarrow> preg \<Rightarrow> Core \<Rightarrow> Core option" where
  "commit_rip uop p C =
     (if \<not> op_eom uop then Some C
      else if op_rd uop = REG_rip
      then do { _ \<leftarrow> check (isbranch (op_opcode uop)); Some (put_arf REG_rip (pr_data (preg_of (oc_files C) p)) C) }
      else do { _ \<leftarrow> check (\<not> isbranch (op_opcode uop));
                Some (put_arf REG_rip (oc_commitarf C ! REG_rip + op_bytes uop) C) })"

definition commit_flags :: "FetchBufferEntry \<Rightarrow> preg \<Rightarrow> Core \<Rightarrow> Core option" where
  "commit_flags uop p C =
     (if isload (op_opcode uop) \<or> isstore (op_opcode uop) \<or> op_nouserflags uop then Some C
      else let flagmask = ucast (setflags_to_x86_flags ! unat (op_setflags uop)) :: W64;
               flags = ucast (pr_flags (preg_of (oc_files C) p)) :: W64;
               C = put_arf REG_flags ((oc_commitarf C ! REG_flags AND NOT flagmask) OR (flags AND flagmask)) C
           in do {
             C \<leftarrow> commit_rename_if (sets_flag SETFLAG_ZF uop) REG_zf p C;
             C \<leftarrow> commit_rename_if (sets_flag SETFLAG_CF uop) REG_cf p C;
             commit_rename_if (sets_flag SETFLAG_OF uop) REG_of p C
           })"

definition commit_memory :: "nat \<Rightarrow> FetchBufferEntry \<Rightarrow> Core \<Rightarrow> Core option" where
  "commit_memory i uop C =
     (if \<not> is_store_uop uop then Some C
      else do {
        l \<leftarrow> rb_lsq (rob_at i C);
        let sfr = lsq_sfr (lsq_at l C);
        C \<leftarrow> Some (C\<lparr>oc_asp := setdirty (sfr_smc_mfn sfr) (oc_asp C)\<rparr>);
        if sfr_bytemask sfr = 0 then Some C
        else do {
          (store_status, mem, caches) \<leftarrow> commitstore sfr 0 True (oc_mem C) (oc_caches C);
          _ \<leftarrow> check (store_status = 0);
          Some (C\<lparr>oc_mem := mem, oc_caches := caches\<rparr>)
        }
      })"

definition UNALIGNED_PREDICTOR_SIZE :: nat where "UNALIGNED_PREDICTOR_SIZE = 4096"

definition hash_unaligned_predictor_slot :: "RIPVirtPhys \<Rightarrow> nat" where
  "hash_unaligned_predictor_slot rvp =
     (let h = ucast (rvp_rip rvp XOR rvp_mfnlo rvp) :: W32
      in unat (lowbits (ucast h :: W64) (lg UNALIGNED_PREDICTOR_SIZE)))"

definition get_unaligned_hint :: "RIPVirtPhys \<Rightarrow> Core \<Rightarrow> bool" where
  "get_unaligned_hint rvp C = oc_unaligned_predictor C ! hash_unaligned_predictor_slot rvp"

definition set_unaligned_hint :: "RIPVirtPhys \<Rightarrow> bool \<Rightarrow> Core \<Rightarrow> Core" where
  "set_unaligned_hint rvp value C =
     C\<lparr>oc_unaligned_predictor := (oc_unaligned_predictor C)[hash_unaligned_predictor_slot rvp := value]\<rparr>"

definition commit_lsq :: "nat \<Rightarrow> FetchBufferEntry \<Rightarrow> Core \<Rightarrow> Core option" where
  "commit_lsq i uop C =
     (if \<not> (isload (op_opcode uop) \<or> isstore (op_opcode uop)) then Some C
      else do {
        l \<leftarrow> rb_lsq (rob_at i C);
        let st = lsq_store (lsq_at l C);
        let C = upd_lsq l lsq_reset (C\<lparr>oc_loads_in_flight := oc_loads_in_flight C - of_bool (\<not> st),
                   oc_stores_in_flight := oc_stores_in_flight C - of_bool st\<rparr>);
        q \<leftarrow> fq_commit (int (lsq_idx (lsq_at l C))) (oc_LSQ C);
        Some (set_unaligned_hint (fb_rip uop) (ld_st_truly_unaligned uop) (C\<lparr>oc_LSQ := q\<rparr>))
      })"

definition commit_free_old :: "preg \<Rightarrow> Core \<Rightarrow> Core option" where
  "commit_free_old oldphysreg C =
     do {
       _ \<leftarrow> check (pr_state (preg_of (oc_files C) oldphysreg) = PHYSREG_ARCH);
       if preg_nonnull oldphysreg (oc_files C)
       then do {
         F \<leftarrow> (if referenced oldphysreg (oc_files C) then changestate oldphysreg PHYSREG_PENDINGFREE (oc_files C)
               else preg_free oldphysreg (oc_files C));
         Some (C\<lparr>oc_files := F\<rparr>)
       }
       else Some C
     }"

fun unref_operands :: "preg list \<Rightarrow> Core \<Rightarrow> Core option" where
  "unref_operands [] C = Some C"
| "unref_operands (p # ps) C = do { F \<leftarrow> unref p (oc_files C); unref_operands ps (C\<lparr>oc_files := F\<rparr>) }"

definition commit_branch :: "FetchBufferEntry \<Rightarrow> Core \<Rightarrow> Core option" where
  "commit_branch uop C =
     (if \<not> isbranch (op_opcode uop) then Some C
      else do {
        _ \<leftarrow> check (op_eom uop);
        Some (C\<lparr>oc_branchpred := bp_update (fb_predinfo uop) (rvp_rip (fb_rip uop) + op_bytes uop)
                (oc_commitarf C ! REG_rip) (oc_branchpred C)\<rparr>)
      })"

text \<open>The entry leaves the reorder buffer.\<close>

definition commit_entry :: "nat \<Rightarrow> Core \<Rightarrow> Core option" where
  "commit_entry i C =
     do {
       C \<leftarrow> rob_changestate i rob_free None C;
       C \<leftarrow> Some (upd_rob i rob_reset C);
       q \<leftarrow> fq_commit (int (rb_idx (rob_at i C))) (oc_ROB C);
       Some (C\<lparr>oc_ROB := q\<rparr>)
     }"

text \<open>
  What happens to the registers when the entry at \<open>i\<close> commits, apart from the load/store queue:
  the tables, the architectural state, the replaced register and the operands.
\<close>

definition commit_state :: "nat \<Rightarrow> FetchBufferEntry \<Rightarrow> preg \<Rightarrow> preg \<Rightarrow> Core \<Rightarrow> Core option" where
  "commit_state i uop oldphysreg p C =
     do {
       C \<leftarrow> commit_dest uop p C;
       C \<leftarrow> commit_rip uop p C;
       C \<leftarrow> commit_flags uop p C;
       C \<leftarrow> commit_memory i uop C;
       C \<leftarrow> commit_lsq i uop C;
       _ \<leftarrow> check (archdest_can_commit ! op_rd uop);
       C \<leftarrow> commit_free_old oldphysreg C;
       F \<leftarrow> changestate p PHYSREG_ARCH (oc_files C);
       unref_operands (rb_operands (rob_at i C)) (C\<lparr>oc_files := F\<rparr>)
     }"

definition commit_outcome :: "FetchBufferEntry \<Rightarrow> Core \<Rightarrow> commit_result \<times> Core" where
  "commit_outcome uop C =
     (if oc_smc_invalidate_pending C then (COMMIT_SMC, C)
      else if isclass (op_opcode uop) OPCLASS_BARRIER then (COMMIT_BARRIER, C)
      else if op_eom uop \<and> (oc_stop_at_next_eom C \<or> oc_total_user_insns_committed C \<ge> oc_stop_at_user_insns C)
      then (COMMIT_STOP, C)
      else if op_eom uop \<and> oc_handle_interrupt_at_next_eom C
      then (COMMIT_INTERRUPT, C\<lparr>oc_handle_interrupt_at_next_eom := False\<rparr>)
      else (COMMIT_OK, C))"

definition commit_ready :: "nat \<Rightarrow> Core \<Rightarrow> (commit_result \<times> Core) option" where
  "commit_ready i C =
     (let uop = rb_uop (rob_at i C); oldphysreg = oc_commitrrt C ! op_rd uop
      in do {
        C \<leftarrow> Some (if op_eom uop \<and> smc_dirty uop C
               then C\<lparr>oc_smc_invalidate_pending := True, oc_smc_invalidate_rvp := fb_rip uop\<rparr> else C);
        _ \<leftarrow> check (ready_to_commit i C);
        (locked, C) \<leftarrow> store_is_locked i C;
        if locked then Some (COMMIT_NONE, C)
        else do {
          (_, C) \<leftarrow> release_mem_lock i C;
          _ \<leftarrow> (if isstore (op_opcode uop)
                then do { l \<leftarrow> rb_lsq (rob_at i C);
                          check (sfr_addrvalid (lsq_sfr (lsq_at l C)) \<and> sfr_datavalid (lsq_sfr (lsq_at l C))) }
                else Some ());
          p \<leftarrow> rb_physreg (rob_at i C);
          _ \<leftarrow> check (oc_commitarf C ! REG_rip = rvp_rip (fb_rip uop));
          C \<leftarrow> commit_state i uop oldphysreg p C;
          C \<leftarrow> commit_branch uop C;
          C \<leftarrow> Some (C\<lparr>oc_total_user_insns_committed := oc_total_user_insns_committed C + of_bool (op_eom uop),
                  oc_total_uops_committed := oc_total_uops_committed C + 1\<rparr>);
          C \<leftarrow> commit_entry i C;
          Some (commit_outcome uop C)
        }
      })"

definition rob_commit :: "nat \<Rightarrow> Core \<Rightarrow> (commit_result \<times> Core) option" where
  "rob_commit i C =
     (let uop = rb_uop (rob_at i C)
      in do {
        C \<leftarrow> (if op_opcode uop = OP_mf \<and> ready_to_commit i C \<and> \<not> rb_load_store_second_phase (rob_at i C)
              then do { C \<leftarrow> fencewakeup i C; flush_mem_lock_release_list 0 C } else Some C);
        js \<leftarrow> rob_from i C;
        (ready, found_eom, exc, C) \<leftarrow> commit_scan js True C;
        if \<not> (ready \<and> found_eom) then Some (COMMIT_NONE, C)
        else if op_som uop \<and> smc_dirty uop C
        then Some (COMMIT_SMC, C\<lparr>oc_smc_invalidate_pending := True, oc_smc_invalidate_rvp := fb_rip uop\<rparr>)
        else if exc
        then Some (COMMIT_EXCEPTION,
          if isclass (op_opcode uop) OPCLASS_CHECK \<and> oc_exception C = EXCEPTION_SkipBlock
          then C\<lparr>oc_chk_recovery_rip := oc_commitarf C ! REG_rip + op_bytes uop\<rparr> else C)
        else commit_ready i C
      })"

subsection \<open>The commit stage\<close>

definition recycle_file :: "nat \<Rightarrow> Core \<Rightarrow> Core option" where
  "recycle_file rfid C =
     map_option (\<lambda>F. C\<lparr>oc_files := F\<rparr>)
       (foreach_preg rfid PHYSREG_PENDINGFREE
          (\<lambda>p F. if \<not> referenced p F then preg_free p F else Some F) (oc_files C))"

definition recycle_pregs :: "Core \<Rightarrow> Core option" where
  "recycle_pregs C =
     do { C \<leftarrow> recycle_file 0 C; C \<leftarrow> recycle_file 1 C; C \<leftarrow> recycle_file 2 C; recycle_file 3 C }"

fun commit_entries :: "nat list \<Rightarrow> commit_result \<Rightarrow> Core \<Rightarrow> (commit_result \<times> Core) option" where
  "commit_entries [] res C = Some (res, C)"
| "commit_entries (i # is) res C =
     (if oc_commitcount C \<ge> COMMIT_WIDTH then Some (res, C)
      else do {
        (res, C) \<leftarrow> rob_commit i C;
        if res = COMMIT_OK then commit_entries is res (C\<lparr>oc_commitcount := oc_commitcount C + 1\<rparr>)
        else Some (res, C)
      })"

definition commit_stage :: "Core \<Rightarrow> (commit_result \<times> Core) option" where
  "commit_stage C =
     do {
       C \<leftarrow> recycle_pregs C;
       js \<leftarrow> rob_from (nat (head (oc_ROB C))) C;
       (res, C) \<leftarrow> commit_entries js COMMIT_OK C;
       _ \<leftarrow> check (oc_commitcount C < COMMIT_WIDTH + 1);
       Some (res, C)
     }"

end
