(* ===== verification/Pipe_Annul.thy ===== *)
theory Pipe_Annul
  imports Pipe_Commit
begin

text \<open>
  Recovery from mis-speculation (\<^verbatim>\<open>oooexec.cpp\<close>): \<^verbatim>\<open>annul\<close> removes a slice of the reorder buffer
  and rebuilds the speculative rename table from the committed one, \<^verbatim>\<open>redispatch\<close> returns an entry to
  the state after its allocation, and \<^verbatim>\<open>redispatch_dependents\<close> does so for every entry that depends on
  a given one.
\<close>

subsection \<open>Pseudo-commit\<close>

definition pseudocommit :: "nat \<Rightarrow> Core \<Rightarrow> (commit_result \<times> Core) option" where
  "pseudocommit i C =
     do {
       let uop = rb_uop (rob_at i C);
       p \<leftarrow> rb_physreg (rob_at i C);
       C \<leftarrow> spec_rename_dests uop p C;
       Some (if isclass (op_opcode uop) OPCLASS_BARRIER then COMMIT_BARRIER else COMMIT_OK, C)
     }"

fun pseudocommits :: "nat list \<Rightarrow> Core \<Rightarrow> Core option" where
  "pseudocommits [] C = Some C"
| "pseudocommits (i # is) C = do { (_, C) \<leftarrow> pseudocommit i C; pseudocommits is C }"

subsection \<open>Annulment\<close>

text \<open>The walks to the start and to the end of the macro-op; \<open>None\<close> is a walk that found none within \<open>fuel\<close>.\<close>

fun find_from :: "nat \<Rightarrow> (FetchBufferEntry \<Rightarrow> bool) \<Rightarrow> int \<Rightarrow> int \<Rightarrow> Core \<Rightarrow> int option" where
  "find_from fuel P step i C =
     (if P (rb_uop (rob_at (nat i) C)) then Some i
      else case fuel of 0 \<Rightarrow> None
        | Suc n \<Rightarrow> find_from n P step (add_index_modulo i step (int ROB_SIZE)) C)"

declare find_from.simps [simp del]

text \<open>The indices a loop visits that runs from one index back to another one, both included.\<close>

definition back_to :: "int \<Rightarrow> int \<Rightarrow> nat list option" where
  "back_to endidx startidx =
     map_option (map nat)
       (walk ROB_SIZE (int ROB_SIZE) (-1) (add_index_modulo startidx (-1) (int ROB_SIZE)) endidx)"

definition upd_issueq :: "nat \<Rightarrow> IssueQueue \<Rightarrow> Core \<Rightarrow> Core" where
  "upd_issueq c q C = C\<lparr>oc_issueq := (oc_issueq C)[c := q]\<rparr>"

text \<open>
  Pass 1. \<open>garbage\<close> is the value of the uninitialised \<^verbatim>\<open>rc\<close>, which keeps it when the entry has no
  cluster yet (\<^verbatim>\<open>cluster\<close> is -1, so the switch has no case for it).
\<close>

definition annul_issueq :: "bool \<Rightarrow> nat \<Rightarrow> Core \<Rightarrow> Core option" where
  "annul_issueq garbage i C =
     do {
       tag \<leftarrow> get_tag (of_nat (rb_idx (rob_at i C))) 0;
       (found, C) \<leftarrow>
         (let c = sint (rb_cluster (rob_at i C))
          in if 0 \<le> c \<and> c < int MAX_CLUSTERS
             then map_option (\<lambda>(found, q). (found, upd_issueq (nat c) q C)) (annuluop tag (oc_issueq C ! nat c))
             else Some (garbage, C));
       let C = (if found then C\<lparr>oc_issueq_count := oc_issueq_count C - 1\<rparr> else C)
       in Some (upd_rob i (\<lambda>r. r\<lparr>rb_iqslot := -1\<rparr>) C)
     }"

fun annul_issueqs :: "bool \<Rightarrow> nat list \<Rightarrow> Core \<Rightarrow> Core option" where
  "annul_issueqs garbage [] C = Some C"
| "annul_issueqs garbage (i # is) C = do { C \<leftarrow> annul_issueq garbage i C; annul_issueqs garbage is C }"

text \<open>Pass 2.\<close>

fun unspecrefs :: "preg list \<Rightarrow> RegFiles \<Rightarrow> RegFiles option" where
  "unspecrefs [] F = Some F"
| "unspecrefs (p # ps) F = do { F \<leftarrow> unref p F; unspecrefs ps F }"

definition addspecrefs :: "preg list \<Rightarrow> RegFiles \<Rightarrow> RegFiles" where
  "addspecrefs ps F = fold addref ps F"

definition restore_specrrt :: "Core \<Rightarrow> Core option" where
  "restore_specrrt C =
     do { F \<leftarrow> unspecrefs (oc_specrrt C) (oc_files C);
          Some (C\<lparr>oc_files := addspecrefs (oc_commitrrt C) F, oc_specrrt := oc_commitrrt C\<rparr>) }"

text \<open>Pass 3.\<close>

definition annul_memory :: "nat \<Rightarrow> nat \<Rightarrow> Core \<Rightarrow> Core option" where
  "annul_memory queued_locks_before i C =
     (if \<not> isclass (op_opcode (rb_uop (rob_at i C))) (OPCLASS_LOAD OR OPCLASS_STORE) then Some C
      else do {
        (released, C) \<leftarrow> release_mem_lock i C;
        C \<leftarrow> (if released then flush_mem_lock_release_list queued_locks_before C else Some C);
        l \<leftarrow> rb_lsq (rob_at i C);
        let st = lsq_store (lsq_at l C);
        let C = upd_lsq l lsq_reset (C\<lparr>oc_loads_in_flight := oc_loads_in_flight C - of_bool (\<not> st),
                   oc_stores_in_flight := oc_stores_in_flight C - of_bool st\<rparr>);
        Some (C\<lparr>oc_LSQ := fq_annul (int (lsq_idx (lsq_at l C))) (oc_LSQ C)\<rparr>)
      })"

definition annul_lfrq_of :: "nat \<Rightarrow> Core \<Rightarrow> Core option" where
  "annul_lfrq_of i C =
     (let s = sint (rb_lfrqslot (rob_at i C))
      in if 0 \<le> s then map_option (\<lambda>h. C\<lparr>oc_caches := h\<rparr>) (annul_lfrq_slot (nat s) (oc_caches C)) else Some C)"

definition annul_ras_of :: "FetchBufferEntry \<Rightarrow> Core \<Rightarrow> Core option" where
  "annul_ras_of uop C =
     (if isbranch (op_opcode uop) \<and> fb_bptype uop AND (BRANCH_HINT_CALL OR BRANCH_HINT_RET) \<noteq> 0
      then map_option (\<lambda>b. C\<lparr>oc_branchpred := b\<rparr>) (cp_annulras (fb_predinfo uop) (oc_branchpred C))
      else Some C)"

definition annul_regs :: "nat \<Rightarrow> Core \<Rightarrow> Core option" where
  "annul_regs i C = do { C \<leftarrow> unref_operands (rb_operands (rob_at i C)) C; upd_physreg i preg_free C }"

definition annul_entry :: "nat \<Rightarrow> nat \<Rightarrow> Core \<Rightarrow> Core option" where
  "annul_entry queued_locks_before i C =
     do {
       C \<leftarrow> annul_regs i C;
       C \<leftarrow> annul_memory queued_locks_before i C;
       C \<leftarrow> annul_lfrq_of i C;
       C \<leftarrow> annul_ras_of (rb_uop (rob_at i C)) C;
       C \<leftarrow> Some (upd_rob i rob_reset C);
       C \<leftarrow> Some (C\<lparr>oc_ROB := fq_annul (int (rb_idx (rob_at i C))) (oc_ROB C)\<rparr>);
       rob_changestate i rob_free None C
     }"

fun annul_entries :: "nat \<Rightarrow> nat list \<Rightarrow> Core \<Rightarrow> Core option" where
  "annul_entries qb [] C = Some C"
| "annul_entries qb (i # is) C = do { C \<leftarrow> annul_entry qb i C; annul_entries qb is C }"

definition annul ::
  "bool \<Rightarrow> nat \<Rightarrow> bool \<Rightarrow> bool \<Rightarrow> Core \<Rightarrow> (W64 \<times> Core) option" where
  "annul garbage i keep_misspec_uop return_first_annulled_rip C =
     do {
       somidx \<leftarrow> find_from ROB_SIZE op_som (-1) (int i) C;
       eomidx \<leftarrow> find_from ROB_SIZE op_eom 1 (int i) C;
       let startidx = (if keep_misspec_uop then add_index_modulo eomidx 1 (int ROB_SIZE) else somidx);
       if startidx = tail (oc_ROB C) then Some (rvp_rip (fb_rip (rb_uop (rob_at i C))), C)
       else do {
         let endidx = add_index_modulo (tail (oc_ROB C)) (-1) (int ROB_SIZE);
         _ \<leftarrow> check (keep_misspec_uop \<longrightarrow> eomidx = int i);
         annulled \<leftarrow> back_to endidx startidx;
         let queued_locks_before = length (oc_queued_mem_lock_release_list C);
         C \<leftarrow> annul_issueqs garbage annulled C;
         C \<leftarrow> restore_specrrt C;
         kept \<leftarrow> map_option (map nat) (walk ROB_SIZE (int ROB_SIZE) 1 startidx (head (oc_ROB C)));
         C \<leftarrow> pseudocommits kept C;
         C \<leftarrow> annul_entries queued_locks_before annulled C;
         let uop = rb_uop (rob_at (nat startidx) C);
         _ \<leftarrow> check (op_som uop);
         Some (if return_first_annulled_rip then rvp_rip (fb_rip uop)
               else if keep_misspec_uop then op_riptaken uop else rvp_rip (fb_rip uop), C)
       }
     }"

subsection \<open>Redispatch\<close>

definition redispatch_issueq :: "nat \<Rightarrow> Core \<Rightarrow> Core option" where
  "redispatch_issueq i C =
     (let c = sint (rb_cluster (rob_at i C))
      in if c < 0 then Some C
         else do {
           tag \<leftarrow> get_tag (of_nat (rb_idx (rob_at i C))) 0;
           (found, C) \<leftarrow> (if c < int MAX_CLUSTERS
               then map_option (\<lambda>(found, q). (found, upd_issueq (nat c) q C)) (annuluop tag (oc_issueq C ! nat c))
               else Some (False, C));
           let C = (if found then C\<lparr>oc_issueq_count := oc_issueq_count C - 1\<rparr> else C)
           in Some (upd_rob i (\<lambda>r. r\<lparr>rb_cluster := -1\<rparr>) C)
         })"

definition drop_rs :: "nat \<Rightarrow> Core \<Rightarrow> Core option" where
  "drop_rs i C =
     (let p = rb_operands (rob_at i C) ! RS
      in if preg_nonnull p (oc_files C)
         then do {
           F \<leftarrow> unref p (oc_files C);
           Some (upd_rob i (\<lambda>r. r\<lparr>rb_operands := (rb_operands r)[RS := (0, PHYS_REG_NULL)]\<rparr>)
             (C\<lparr>oc_files := addref (0, PHYS_REG_NULL) F\<rparr>))
         }
         else Some C)"

definition redispatch_lsq :: "nat \<Rightarrow> Core \<Rightarrow> Core option" where
  "redispatch_lsq i C =
     (case rb_lsq (rob_at i C) of None \<Rightarrow> Some C
      | Some l \<Rightarrow> drop_rs i (upd_lsq l (\<lambda>e. e\<lparr>lsq_mbtag := -1,
            lsq_sfr := (lsq_sfr e)\<lparr>sfr_physaddr := 0, sfr_addrvalid := False, sfr_datavalid := False,
              sfr_data := 0, sfr_invalid := False\<rparr>\<rparr>) C))"

definition redispatch :: "nat \<Rightarrow> nat option \<Rightarrow> Core \<Rightarrow> Core option" where
  "redispatch i prevrob C =
     do {
       C \<leftarrow> Some (upd_rob i (\<lambda>r. r\<lparr>rb_issued := False\<rparr>) C);
       C \<leftarrow> redispatch_issueq i C;
       C \<leftarrow> map_option (\<lambda>C'. if 0 \<le> sint (rb_lfrqslot (rob_at i C))
                then upd_rob i (\<lambda>r. r\<lparr>rb_lfrqslot := -1\<rparr>) C' else C') (annul_lfrq_of i C);
       (_, C) \<leftarrow> release_mem_lock i C;
       C \<leftarrow> flush_mem_lock_release_list 0 C;
       C \<leftarrow> redispatch_lsq i C;
       C \<leftarrow> upd_physreg i (\<lambda>p F. changestate p PHYSREG_WAITING
               (upd_preg p (\<lambda>r. r\<lparr>pr_data := 0, pr_flags := FLAG_WAIT\<rparr>) F)) C;
       C \<leftarrow> Some (upd_rob i (\<lambda>r. r\<lparr>rb_cycles_left := 0, rb_forward_cycle := 0, rb_load_store_second_phase := False\<rparr>) C);
       rob_changestate i rob_ready_to_dispatch (Some prevrob) C
     }"

definition dependent_operands :: "nat \<Rightarrow> bitset \<Rightarrow> Core \<Rightarrow> bool list option" where
  "dependent_operands j depmap C =
     Some (map (\<lambda>p. case pr_rob (preg_of (oc_files C) p) of None \<Rightarrow> False
        | Some k \<Rightarrow> depmap ! rb_idx (rob_at k C)) (rb_operands (rob_at j C)))"

text \<open>The loop of \<^verbatim>\<open>redispatch_dependents\<close>; it returns \<^verbatim>\<open>count\<close> as well.\<close>

fun redispatch_loop :: "nat \<Rightarrow> bool \<Rightarrow> nat list \<Rightarrow> bitset \<Rightarrow> nat option \<Rightarrow> nat \<Rightarrow> Core \<Rightarrow> (nat \<times> bitset \<times> Core) option" where
  "redispatch_loop i inclusive [] depmap prevrob cnt C = Some (cnt, depmap, C)"
| "redispatch_loop i inclusive (j # js) depmap prevrob cnt C =
     (if \<not> inclusive
      then redispatch_loop i inclusive js (depmap[rb_idx (rob_at j C) := True]) prevrob cnt C
      else do {
        deps \<leftarrow> dependent_operands j depmap C;
        if list_ex id deps \<or> j = i \<or> isstore (op_opcode (rb_uop (rob_at i C)))
        then do {
          C \<leftarrow> redispatch j prevrob C;
          redispatch_loop i inclusive js (depmap[rb_idx (rob_at j C) := True]) (Some j) (cnt + 1) C
        }
        else redispatch_loop i inclusive js depmap prevrob cnt C
      })"

definition redispatch_dependents :: "nat \<Rightarrow> bool \<Rightarrow> Core \<Rightarrow> Core option" where
  "redispatch_dependents i inclusive C =
     do {
       js \<leftarrow> rob_from i C;
       (cnt, _, C) \<leftarrow> redispatch_loop i inclusive js ((replicate ROB_SIZE False)[rb_idx (rob_at i C) := True]) None 0 C;
       _ \<leftarrow> check (1 \<le> cnt \<and> cnt \<le> ROB_SIZE);
       Some C
     }"

end
