(* ===== verification/Reg_Refs.thy ===== *)
theory Reg_Refs
  imports Phys_Init "HOL-Library.Multiset"
begin

text \<open>
  Reference counting of the physical registers. The references that are held are a multiset of
  registers; the invariant says that the 16-bit counter of every register is its multiplicity, and
  that a register that is referenced is not on the free list. The
  operations of the register file keep it when they are used as the pipeline uses them: then no
  assertion in them fails.
\<close>

definition refs_inv :: "preg multiset \<Rightarrow> RegFiles \<Rightarrow> bool" where
  "refs_inv R F \<longleftrightarrow> (\<exists>L. regs_ok L F) \<and> size R < 2 ^ 15
     \<and> (\<forall>p \<in># R. in_file F p \<and> pr_state (preg_of F p) \<noteq> PHYSREG_FREE)
     \<and> (\<forall>p. in_file F p \<longrightarrow> sint (pr_refcount (preg_of F p)) = int (Multiset.count R p))
     \<and> (\<forall>p. in_file F p \<and> pr_state (preg_of F p) \<noteq> PHYSREG_FREE \<longrightarrow> pr_threadid (preg_of F p) = 0)
     \<and> (\<forall>f < PHYS_REG_FILE_COUNT. pf_size (rf_files F ! f) = physreg_sizes f)"

text \<open>The reference every null register has from the start.\<close>

definition null_refs :: "nat \<Rightarrow> preg multiset" where
  "null_refs n = mset (map (\<lambda>f. (f, PHYS_REG_NULL)) [0..<n])"

lemma null_refs_simps [simp]: "null_refs 0 = {#}" "null_refs (Suc n) = add_mset (n, PHYS_REG_NULL) (null_refs n)" "size (null_refs n) = n"
  by (simp_all add: null_refs_def)

definition same_regs :: "RegFiles \<Rightarrow> RegFiles \<Rightarrow> bool" where
  "same_regs F F' \<longleftrightarrow> (\<forall>q. in_file F' q = in_file F q \<and> pr_state (preg_of F' q) = pr_state (preg_of F q)
     \<and> pr_rob (preg_of F' q) = pr_rob (preg_of F q) \<and> pr_data (preg_of F' q) = pr_data (preg_of F q)
     \<and> pr_flags (preg_of F' q) = pr_flags (preg_of F q))"

lemma same_regsD:
  assumes "same_regs F F'"
  shows "in_file F' q = in_file F q" "pr_state (preg_of F' q) = pr_state (preg_of F q)"
    "pr_rob (preg_of F' q) = pr_rob (preg_of F q)" "pr_data (preg_of F' q) = pr_data (preg_of F q)"
    "pr_flags (preg_of F' q) = pr_flags (preg_of F q)"
  using assms unfolding same_regs_def by blast+

lemma same_regs_refl [simp]: "same_regs F F"
  by (simp add: same_regs_def)

lemma same_regs_trans [trans]: "same_regs F F' \<Longrightarrow> same_regs F' F'' \<Longrightarrow> same_regs F F''"
  unfolding same_regs_def by simp

lemma only_same:
  assumes "only_preg p g F F'" and "\<And>r. pr_state (g r) = pr_state r \<and> pr_rob (g r) = pr_rob r
    \<and> pr_data (g r) = pr_data r \<and> pr_flags (g r) = pr_flags r"
  shows "same_regs F F'"
  unfolding same_regs_def
proof
  fix q
  show "in_file F' q = in_file F q \<and> pr_state (preg_of F' q) = pr_state (preg_of F q)
     \<and> pr_rob (preg_of F' q) = pr_rob (preg_of F q) \<and> pr_data (preg_of F' q) = pr_data (preg_of F q)
     \<and> pr_flags (preg_of F' q) = pr_flags (preg_of F q)"
    using assms(1) assms(2) [of "preg_of F p"] only_preg_in_file [OF assms(1), of q]
    by (cases "q = p") (auto simp: only_preg_def simp del: split_paired_All)
qed

lemma only_pregD:
  assumes "only_preg p g F F'"
  shows "preg_of F' p = g (preg_of F p)" "q \<noteq> p \<Longrightarrow> preg_of F' q = preg_of F q" "in_file F' q = in_file F q"
    "pf_size (rf_files F' ! f) = pf_size (rf_files F ! f)"
  using assms only_preg_in_file [OF assms] by (auto simp: only_preg_def simp del: split_paired_All)

lemma sint16_inc: "sint (w :: W16) + 1 < 2 ^ 15 \<Longrightarrow> sint (w + 1) = sint w + 1"
  using sint_greater_eq [of w] by (simp add: sint_word_ariths signed_take_bit_int_eq_self)

lemma sint16_dec: "0 < sint (w :: W16) \<Longrightarrow> sint (w - 1) = sint w - 1"
  using sint_less [of w] by (simp add: sint_word_ariths signed_take_bit_int_eq_self)

lemma refs_invD:
  assumes "refs_inv R F"
  shows "\<exists>L. regs_ok L F" "size R < 2 ^ 15" "p \<in># R \<Longrightarrow> in_file F p" "p \<in># R \<Longrightarrow> pr_state (preg_of F p) \<noteq> PHYSREG_FREE"
    "in_file F p \<Longrightarrow> sint (pr_refcount (preg_of F p)) = int (Multiset.count R p)"
    "in_file F p \<Longrightarrow> pr_state (preg_of F p) \<noteq> PHYSREG_FREE \<Longrightarrow> pr_threadid (preg_of F p) = 0"
    "f < PHYS_REG_FILE_COUNT \<Longrightarrow> pf_size (rf_files F ! f) = physreg_sizes f"
  using assms by (auto simp: refs_inv_def simp del: split_paired_All split_paired_Ex)

text \<open>Every change of one register keeps the invariant when it does not touch its identity.\<close>

lemma refs_only:
  assumes "refs_inv R F" "\<exists>L. regs_ok L F'" "only_preg p g F F'" "size R' < 2 ^ 15"
    and "\<And>q. q \<noteq> p \<Longrightarrow> Multiset.count R' q = Multiset.count R q"
    and "p \<in># R' \<Longrightarrow> in_file F p \<and> pr_state (g (preg_of F p)) \<noteq> PHYSREG_FREE"
    and "in_file F p \<Longrightarrow> sint (pr_refcount (g (preg_of F p))) = int (Multiset.count R' p)"
    and "in_file F p \<Longrightarrow> pr_state (g (preg_of F p)) \<noteq> PHYSREG_FREE \<Longrightarrow> pr_threadid (g (preg_of F p)) = 0"
  shows "refs_inv R' F'"
proof -
  note d = refs_invD [OF assms(1)] and o = only_pregD [OF assms(3)]
  have "in_file F' q \<and> pr_state (preg_of F' q) \<noteq> PHYSREG_FREE" if "q \<in># R'" for q
  proof (cases "q = p")
    case True
    then show ?thesis using assms(6) that o by simp
  next
    case False
    then have "q \<in># R" using that assms(5) [OF False] by (metis not_in_iff)
    then show ?thesis using d(3,4) [of q] o(2) [OF False] o(3) [of q] by simp
  qed
  moreover have "sint (pr_refcount (preg_of F' q)) = int (Multiset.count R' q)" if "in_file F' q" for q
    using that assms(5,7) o(1) o(2,3) [of q] d(5) [of q] by (cases "q = p") auto
  moreover have "pr_threadid (preg_of F' q) = 0" if "in_file F' q" "pr_state (preg_of F' q) \<noteq> PHYSREG_FREE" for q
    using that assms(8) o(1) o(2,3) [of q] d(6) [of q] by (cases "q = p") auto
  moreover have "pf_size (rf_files F' ! f) = physreg_sizes f" if "f < PHYS_REG_FILE_COUNT" for f
    using d(7) [OF that] o(4) by simp
  ultimately show ?thesis using assms(2,4) unfolding refs_inv_def by blast
qed

lemma addref_refs:
  assumes "refs_inv R F" "in_file F p" "pr_state (preg_of F p) \<noteq> PHYSREG_FREE" "Suc (size R) < 2 ^ 15"
  shows "refs_inv (add_mset p R) (addref p F)" "same_regs F (addref p F)"
proof -
  obtain L where L: "regs_ok L F" using refs_invD(1) [OF assms(1)] by blast
  note r = refs_ok(1,2) [OF L assms(2)]
  have c: "int (Multiset.count R p) + 1 < 2 ^ 15" 
  proof -
    have "int (Multiset.count R p) \<le> int (size R)" using count_le_size [of R p] by simp
    moreover have "int (size R) + 1 < 2 ^ 15" using assms(4) by simp
    ultimately show ?thesis by linarith
  qed
  show "refs_inv (add_mset p R) (addref p F)"
    by (rule refs_only [OF assms(1) _ r(2)])
      (use r(1) assms(2-4) refs_invD(5,6) [OF assms(1), of p] sint16_inc [of "pr_refcount (preg_of F p)"] c in auto)
  show "same_regs F (addref p F)" by (rule only_same [OF r(2)]) simp
qed

lemma unref_refs:
  assumes "refs_inv (add_mset p R) F"
  obtains F' where "unref p F = Some F'" "refs_inv R F'" "same_regs F F'"
proof -
  note d = refs_invD [OF assms]
  obtain L where L: "regs_ok L F" using d(1) by blast
  have p: "in_file F p" "pr_state (preg_of F p) \<noteq> PHYSREG_FREE" using d(3,4) [of p] by simp_all
  note r = refs_ok(3,4) [OF L p(1)]
  have dec: "sint (pr_refcount (preg_of F p) - 1) = int (Multiset.count R p)"
    using sint16_dec [of "pr_refcount (preg_of F p)"] d(5) [OF p(1)] by simp
  then have "unref p F \<noteq> None" using r(2) by auto
  then obtain F' where F': "unref p F = Some F'" by blast
  note o = r(1) [OF F']
  have "refs_inv R F'"
    by (rule refs_only [OF assms _ o [THEN conjunct2]]) (use o d(2) d(6) [of p] p dec in \<open>auto simp: not_in_iff\<close>)
  moreover have "same_regs F F'" by (rule only_same [OF o [THEN conjunct2]]) simp
  ultimately show ?thesis using that F' by blast
qed

lemma upd_refs:
  assumes "refs_inv R F" "in_file F p"
    and "\<And>r. pr_state (g r) = pr_state r \<and> pr_rfid (g r) = pr_rfid r \<and> pr_idx (g r) = pr_idx r \<and> pr_refcount (g r) = pr_refcount r
      \<and> pr_threadid (g r) = pr_threadid r"
  shows "refs_inv R (upd_preg p g F)" "only_preg p g F (upd_preg p g F)"
proof -
  obtain L where L: "regs_ok L F" using refs_invD(1) [OF assms(1)] by blast
  note u = upd_preg_only [OF regs_okD(1) [OF L] assms(2), of g]
  have "regs_ok L (upd_preg p g F)" by (rule regs_ok_upd [OF L u(1) assms(2) u(2)]) (use assms(3) in simp)
  then show "refs_inv R (upd_preg p g F)"
    by (intro refs_only [OF assms(1) _ u(1)])
      (use assms(3) refs_invD [OF assms(1)] in \<open>auto simp del: split_paired_Ex\<close>)
  show "only_preg p g F (upd_preg p g F)" by (rule u(1))
qed

lemma change_refs:
  assumes "refs_inv R F" "in_file F p" "live_state s" "s \<noteq> PHYSREG_FREE" "pr_state (preg_of F p) \<noteq> PHYSREG_FREE"
  obtains F' where "changestate p s F = Some F'" "refs_inv R F'" "only_preg p (\<lambda>r. r\<lparr>pr_state := s\<rparr>) F F'"
proof -
  obtain L where L: "regs_ok L F" using refs_invD(1) [OF assms(1)] by blast
  obtain f i where p: "p = (f, i)" by (cases p)
  obtain F' where c: "changestate p s F = Some F'" "regs_ok (move f i (pr_state (preg_of F p)) s L) F'"
      "only_preg p (\<lambda>r. r\<lparr>pr_state := s\<rparr>) F F'"
    using changestate_ok [OF L assms(2) [unfolded p] assms(3) refl] unfolding p by metis
  have "refs_inv R F'"
    by (rule refs_only [OF assms(1) _ c(3)]) (use c(2) assms(2,4,5) refs_invD [OF assms(1)] in auto)
  then show ?thesis using that c by blast
qed

definition freed_reg :: "PhysicalRegister \<Rightarrow> PhysicalRegister" where
  "freed_reg r = r\<lparr>pr_state := PHYSREG_FREE, pr_rob := None, pr_refcount := 0, pr_threadid := 0xff,
     pr_all_consumers_sourced_from_bypass := True\<rparr>"

lemma free_refs:
  assumes "refs_inv R F" "in_file F p" "p \<notin># R"
  obtains F' where "preg_free p F = Some F'" "refs_inv R F'" "only_preg p freed_reg F F'"
proof -
  obtain L where L: "regs_ok L F" using refs_invD(1) [OF assms(1)] by blast
  obtain f i where p: "p = (f, i)" by (cases p)
  obtain F' where c: "preg_free p F = Some F'" "regs_ok (move f i (pr_state (preg_of F p)) PHYSREG_FREE L) F'"
      "only_preg p freed_reg F F'"
    using free_ok [OF L assms(2) [unfolded p] refl] unfolding p freed_reg_def by metis
  have "refs_inv R F'"
    by (rule refs_only [OF assms(1) _ c(3)])
      (use c(2) assms(2,3) refs_invD(2) [OF assms(1)] in \<open>auto simp: freed_reg_def not_in_iff\<close>)
  then show ?thesis using that c by blast
qed

lemma alloc_refs:
  assumes "refs_inv R F" "f < PHYS_REG_FILE_COUNT" "pf_remaining f F"
  obtains p F' where "pf_alloc f 0 (-1) F = Some (Some p, F')" "fst p = f" "in_file F p"
    "pr_state (preg_of F p) = PHYSREG_FREE" "p \<notin># R" "refs_inv R F'" "only_preg p (alloc_reg 0) F F'"
proof -
  obtain L where L: "regs_ok L F" using refs_invD(1) [OF assms(1)] by blast
  obtain i js where "L f PHYSREG_FREE = i # js"
    using peek_free(2) [OF L assms(2)] assms(3) by (cases "L f PHYSREG_FREE") auto
  then obtain F' where c: "pf_alloc f 0 (-1) F = Some (Some (f, i), F')" "in_file F (f, i)"
      "pr_state (preg_of F (f, i)) = PHYSREG_FREE" "regs_ok (move f i PHYSREG_FREE PHYSREG_WAITING L) F'"
      "only_preg (f, i) (alloc_reg 0) F F'"
    by (rule alloc_some [OF L assms(2)])
  have n: "(f, i) \<notin># R" using refs_invD(4) [OF assms(1)] c(3) by blast
  have "refs_inv R F'"
    by (rule refs_only [OF assms(1) _ c(5)])
      (use c(2,4) n refs_invD [OF assms(1)] in \<open>auto simp: alloc_reg_def\<close>)
  then show ?thesis using that [of "(f, i)" F'] c n by simp
qed

text \<open>Whether a register is left depends on the states alone.\<close>

lemma remaining_state:
  assumes "regs_ok L F" "f < PHYS_REG_FILE_COUNT"
  shows "pf_remaining f F \<longleftrightarrow> (\<exists>i. in_file F (f, i) \<and> pr_state (preg_of F (f, i)) = PHYSREG_FREE)"
proof -
  have "PHYSREG_FREE < MAX_PHYSREG_STATE" by (simp add: PHYSREG_FREE_def MAX_PHYSREG_STATE_def)
  then show ?thesis
    using peek_free(2) [OF assms] regs_okD(4) [OF assms(1,2)] by (metis list.set_intros(1) list.set_cases empty_iff list.set(1) neq_Nil_conv)
qed

lemma remaining_same:
  assumes "\<exists>L. regs_ok L F" "\<exists>L. regs_ok L F'" "same_regs F F'" "f < PHYS_REG_FILE_COUNT"
  shows "pf_remaining f F' \<longleftrightarrow> pf_remaining f F"
  using assms(1,2) by (auto simp: remaining_state assms(4) same_regsD [OF assms(3)])

end
