(* ===== verification/Rename_Inv.thy ===== *)
theory Rename_Inv
  imports Pipe_Annul Reg_Refs
begin

text \<open>
  The invariant of register renaming, over the register files, the two rename tables and the
  entries of the reorder buffer in program order. The counter of every register counts its uses
  as an operand and in the tables, every register in flight is the destination of exactly one
  entry, an operand is produced by an earlier entry or is committed, and the speculative table is
  what committing the first \<open>k\<close> entries would make of the committed one.
\<close>

subsection \<open>Renaming as a function of the table\<close>

definition flag_dests :: "FetchBufferEntry \<Rightarrow> nat list" where
  "flag_dests uop = (if op_nouserflags uop then [] else
     (if sets_flag SETFLAG_ZF uop then [REG_zf] else []) @ (if sets_flag SETFLAG_CF uop then [REG_cf] else [])
     @ (if sets_flag SETFLAG_OF uop then [REG_of] else []))"

definition dests :: "FetchBufferEntry \<Rightarrow> nat list" where
  "dests uop = (if archdest_can_commit ! op_rd uop then [op_rd uop] else []) @ flag_dests uop"

definition map_regs :: "nat list \<Rightarrow> preg \<Rightarrow> preg list \<Rightarrow> preg list" where
  "map_regs rs p t = fold (\<lambda>r t. t[r := p]) rs t"

definition retire :: "ReorderBufferEntry \<Rightarrow> preg list \<Rightarrow> preg list" where
  "retire e t = map_regs (dests (rb_uop e)) (the (rb_physreg e)) t"

lemma map_regs_simps [simp]:
  "map_regs [] p t = t"
  "map_regs (r # rs) p t = map_regs rs p (t[r := p])"
  "map_regs (rs @ rs') p t = map_regs rs' p (map_regs rs p t)"
  by (simp_all add: map_regs_def)

lemma length_map_regs [simp]: "length (map_regs rs p t) = length t"
  by (induction rs arbitrary: t) auto

lemma map_regs_nth: "r < length t \<Longrightarrow> map_regs rs p t ! r = (if r \<in> set rs then p else t ! r)"
  by (induction rs arbitrary: t) (auto simp: nth_list_update)

lemma length_retire [simp]: "length (retire e t) = length t"
  by (simp add: retire_def)

lemma length_fold_retire [simp]: "length (fold retire es t) = length t"
  by (induction es arbitrary: t) auto

lemma set_map_regs: "set (map_regs rs p t) \<subseteq> insert p (set t)"
proof (induction rs arbitrary: t)
  case (Cons r rs)
  have "set (map_regs rs p (t[r := p])) \<subseteq> insert p (set (t[r := p]))" by (rule Cons)
  then show ?case using set_update_subset_insert [of t r p] by auto
qed auto

lemma set_fold_retire: "set (fold retire es t) \<subseteq> set t \<union> (\<lambda>e. the (rb_physreg e)) ` set es"
proof (induction es arbitrary: t)
  case (Cons e es)
  have "set (retire e t) \<subseteq> insert (the (rb_physreg e)) (set t)" by (simp add: retire_def set_map_regs)
  then show ?case using Cons [of "retire e t"] by auto
qed simp

subsection \<open>The invariant\<close>

definition flag_reg :: "nat \<Rightarrow> bool" where
  "flag_reg r \<longleftrightarrow> r = REG_zf \<or> r = REG_cf \<or> r = REG_of"

lemma set_flag_dests: "r \<in> set (flag_dests uop) \<Longrightarrow> flag_reg r \<and> r < TRANSREG_COUNT"
  by (auto simp: flag_dests_def flag_reg_def reg_numbers split: if_splits)

text \<open>
  What the decoder guarantees of a micro-operation: its registers exist, its destination can
  commit and is not one of the three flag registers, and a load or store sets no flags.
\<close>

definition uop_ok :: "FetchBufferEntry \<Rightarrow> bool" where
  "uop_ok uop \<longleftrightarrow> op_opcode uop < OP_MAX_OPCODE \<and> op_rd uop < TRANSREG_COUNT \<and> op_ra uop < TRANSREG_COUNT
     \<and> op_rb uop < TRANSREG_COUNT \<and> op_rc uop < TRANSREG_COUNT \<and> op_rd uop \<noteq> REG_zero \<and> \<not> flag_reg (op_rd uop)
     \<and> (isload (op_opcode uop) \<or> isstore (op_opcode uop) \<longrightarrow> flag_dests uop = [])"

definition entry_ok :: "RegFiles \<Rightarrow> ReorderBufferEntry \<Rightarrow> bool" where
  "entry_ok F e \<longleftrightarrow> (\<exists>p. rb_physreg e = Some p \<and> in_file F p \<and> snd p \<noteq> 0 \<and> in_flight (pr_state (preg_of F p))
     \<and> pr_rob (preg_of F p) = Some (rb_idx e)) \<and> length (rb_operands e) = 4 \<and> uop_ok (rb_uop e)"

fun sources_ok :: "ReorderBufferEntry list \<Rightarrow> bool" where
  "sources_ok [] \<longleftrightarrow> True"
| "sources_ok (e # es) \<longleftrightarrow>
     set (map rb_physreg (e # es)) \<inter> Some ` set (rb_operands e) = {} \<and> sources_ok es"

definition rob_ok :: "RegFiles \<Rightarrow> ReorderBufferEntry list \<Rightarrow> bool" where
  "rob_ok F es \<longleftrightarrow> (\<forall>e \<in> set es. entry_ok F e) \<and> distinct (map rb_physreg es) \<and> sources_ok es
     \<and> (\<forall>p. in_file F p \<and> in_flight (pr_state (preg_of F p)) \<longrightarrow> Some p \<in> set (map rb_physreg es))"

definition committed_ok :: "RegFiles \<Rightarrow> preg list \<Rightarrow> bool" where
  "committed_ok F t \<longleftrightarrow> length t = TRANSREG_COUNT
     \<and> (\<forall>r < TRANSREG_COUNT. in_file F (t ! r)
          \<and> (pr_state (preg_of F (t ! r)) = PHYSREG_ARCH \<or> flag_reg r \<and> pr_state (preg_of F (t ! r)) = PHYSREG_PENDINGFREE))
     \<and> (\<forall>r < TRANSREG_COUNT. \<forall>r' < TRANSREG_COUNT. \<not> flag_reg r \<and> \<not> flag_reg r' \<and> t ! r = t ! r' \<longrightarrow> r = r' \<or> snd (t ! r) = 0)
     \<and> (\<forall>p. in_file F p \<and> pr_state (preg_of F p) = PHYSREG_ARCH \<and> snd p \<noteq> 0 \<longrightarrow>
          (\<exists>r < TRANSREG_COUNT. \<not> flag_reg r \<and> t ! r = p))
     \<and> (\<forall>f < PHYS_REG_FILE_COUNT. in_file F (f, 0) \<and> pr_state (preg_of F (f, 0)) = PHYSREG_ARCH)
     \<and> (\<forall>p. in_file F p \<and> \<not> in_flight (pr_state (preg_of F p)) \<longrightarrow> pr_rob (preg_of F p) = None)"

definition rob_refs :: "ReorderBufferEntry list \<Rightarrow> preg multiset" where
  "rob_refs es = mset (concat (map rb_operands es))"

definition all_refs :: "preg list \<Rightarrow> preg list \<Rightarrow> ReorderBufferEntry list \<Rightarrow> preg multiset" where
  "all_refs spec commit es = rob_refs es + mset spec + mset commit + null_refs PHYS_REG_FILE_COUNT"

definition ren_ok :: "nat \<Rightarrow> RegFiles \<Rightarrow> preg list \<Rightarrow> preg list \<Rightarrow> ReorderBufferEntry list \<Rightarrow> bool" where
  "ren_ok k F spec commit es \<longleftrightarrow> refs_inv (all_refs spec commit es) F \<and> committed_ok F commit \<and> rob_ok F es
     \<and> length es \<le> ROB_SIZE \<and> k \<le> length es \<and> spec = fold retire (take k es) commit"

lemma rob_refs_simps [simp]:
  "rob_refs [] = {#}" "rob_refs (e # es) = mset (rb_operands e) + rob_refs es"
  "rob_refs (es @ es') = rob_refs es + rob_refs es'"
  by (simp_all add: rob_refs_def)

lemma size_rob_refs: "\<forall>e \<in> set es. length (rb_operands e) = 4 \<Longrightarrow> size (rob_refs es) = 4 * length es"
  by (induction es) auto

lemma live_states [simp]:
  "live_state PHYSREG_ARCH" "live_state PHYSREG_PENDINGFREE" "live_state PHYSREG_BYPASS" "live_state PHYSREG_WRITTEN"
  "live_state PHYSREG_WAITING" "live_state PHYSREG_FREE"
  by (simp_all add: live_state_def PHYSREG_NONE_def PHYSREG_FREE_def PHYSREG_WAITING_def PHYSREG_BYPASS_def
      PHYSREG_WRITTEN_def PHYSREG_ARCH_def PHYSREG_PENDINGFREE_def MAX_PHYSREG_STATE_def)

lemma states_distinct [simp]:
  "in_flight PHYSREG_WAITING" "in_flight PHYSREG_BYPASS" "in_flight PHYSREG_WRITTEN"
  "\<not> in_flight PHYSREG_FREE" "\<not> in_flight PHYSREG_ARCH" "\<not> in_flight PHYSREG_PENDINGFREE"
  "PHYSREG_ARCH \<noteq> PHYSREG_FREE" "PHYSREG_PENDINGFREE \<noteq> PHYSREG_FREE" "PHYSREG_ARCH \<noteq> PHYSREG_PENDINGFREE"
  "PHYSREG_PENDINGFREE \<noteq> PHYSREG_ARCH" "PHYSREG_FREE \<noteq> PHYSREG_ARCH" "PHYSREG_FREE \<noteq> PHYSREG_PENDINGFREE"
  "PHYSREG_WAITING \<noteq> PHYSREG_FREE" "PHYSREG_BYPASS \<noteq> PHYSREG_FREE" "PHYSREG_WRITTEN \<noteq> PHYSREG_FREE"
  by (simp_all add: in_flight_def PHYSREG_FREE_def PHYSREG_WAITING_def PHYSREG_BYPASS_def
      PHYSREG_WRITTEN_def PHYSREG_ARCH_def PHYSREG_PENDINGFREE_def)

lemma in_flightD: "in_flight s \<Longrightarrow> s \<noteq> PHYSREG_FREE \<and> s \<noteq> PHYSREG_ARCH \<and> s \<noteq> PHYSREG_PENDINGFREE"
  by auto

lemma entry_okD:
  assumes "entry_ok F e"
  obtains p where "rb_physreg e = Some p" "in_file F p" "snd p \<noteq> 0" "in_flight (pr_state (preg_of F p))"
    "pr_rob (preg_of F p) = Some (rb_idx e)" "length (rb_operands e) = 4" "uop_ok (rb_uop e)"
  using assms unfolding entry_ok_def by blast

lemma committed_okD:
  assumes "committed_ok F t"
  shows "length t = TRANSREG_COUNT"
    "r < TRANSREG_COUNT \<Longrightarrow> in_file F (t ! r)"
    "r < TRANSREG_COUNT \<Longrightarrow> \<not> flag_reg r \<Longrightarrow> pr_state (preg_of F (t ! r)) = PHYSREG_ARCH"
    "r < TRANSREG_COUNT \<Longrightarrow> pr_state (preg_of F (t ! r)) = PHYSREG_ARCH \<or> pr_state (preg_of F (t ! r)) = PHYSREG_PENDINGFREE"
    "r < TRANSREG_COUNT \<Longrightarrow> r' < TRANSREG_COUNT \<Longrightarrow> \<not> flag_reg r \<Longrightarrow> \<not> flag_reg r' \<Longrightarrow> t ! r = t ! r' \<Longrightarrow> snd (t ! r) \<noteq> 0 \<Longrightarrow> r = r'"
    "in_file F p \<Longrightarrow> pr_state (preg_of F p) = PHYSREG_ARCH \<Longrightarrow> snd p \<noteq> 0 \<Longrightarrow> \<exists>r < TRANSREG_COUNT. \<not> flag_reg r \<and> t ! r = p"
    "f < PHYS_REG_FILE_COUNT \<Longrightarrow> in_file F (f, 0)" "f < PHYS_REG_FILE_COUNT \<Longrightarrow> pr_state (preg_of F (f, 0)) = PHYSREG_ARCH"
    "in_file F p \<Longrightarrow> \<not> in_flight (pr_state (preg_of F p)) \<Longrightarrow> pr_rob (preg_of F p) = None"
proof -
  have c1: "length t = TRANSREG_COUNT"
    and c2: "\<And>r. r < TRANSREG_COUNT \<Longrightarrow> in_file F (t ! r) \<and> (pr_state (preg_of F (t ! r)) = PHYSREG_ARCH
      \<or> flag_reg r \<and> pr_state (preg_of F (t ! r)) = PHYSREG_PENDINGFREE)"
    and c3: "\<And>r r'. r < TRANSREG_COUNT \<Longrightarrow> r' < TRANSREG_COUNT \<Longrightarrow> \<not> flag_reg r \<and> \<not> flag_reg r' \<and> t ! r = t ! r'
      \<Longrightarrow> r = r' \<or> snd (t ! r) = 0"
    and c4: "\<And>p. in_file F p \<and> pr_state (preg_of F p) = PHYSREG_ARCH \<and> snd p \<noteq> 0 \<Longrightarrow>
      \<exists>r < TRANSREG_COUNT. \<not> flag_reg r \<and> t ! r = p"
    and c5: "\<And>f. f < PHYS_REG_FILE_COUNT \<Longrightarrow> in_file F (f, 0) \<and> pr_state (preg_of F (f, 0)) = PHYSREG_ARCH"
    and c6: "\<And>p. in_file F p \<and> \<not> in_flight (pr_state (preg_of F p)) \<Longrightarrow> pr_rob (preg_of F p) = None"
    using assms unfolding committed_ok_def by (simp_all del: split_paired_All)
  show "length t = TRANSREG_COUNT" by (rule c1)
  show "in_file F (t ! r)" if "r < TRANSREG_COUNT" using c2 [OF that] by simp
  show "pr_state (preg_of F (t ! r)) = PHYSREG_ARCH" if "r < TRANSREG_COUNT" "\<not> flag_reg r"
    using c2 [OF that(1)] that(2) by simp
  show "pr_state (preg_of F (t ! r)) = PHYSREG_ARCH \<or> pr_state (preg_of F (t ! r)) = PHYSREG_PENDINGFREE"
    if "r < TRANSREG_COUNT" using c2 [OF that] by blast
  show "r = r'" if "r < TRANSREG_COUNT" "r' < TRANSREG_COUNT" "\<not> flag_reg r" "\<not> flag_reg r'" "t ! r = t ! r'" "snd (t ! r) \<noteq> 0"
    using c3 [OF that(1,2)] that(3-6) by simp
  show "\<exists>r < TRANSREG_COUNT. \<not> flag_reg r \<and> t ! r = p" if "in_file F p" "pr_state (preg_of F p) = PHYSREG_ARCH" "snd p \<noteq> 0"
    using c4 [of p] that by simp
  show "in_file F (f, 0)" "pr_state (preg_of F (f, 0)) = PHYSREG_ARCH" if "f < PHYS_REG_FILE_COUNT"
    using c5 [OF that] by simp_all
  show "pr_rob (preg_of F p) = None" if "in_file F p" "\<not> in_flight (pr_state (preg_of F p))" using c6 [of p] that by simp
qed

lemma ren_okD:
  assumes "ren_ok k F spec commit es"
  shows "refs_inv (all_refs spec commit es) F" "committed_ok F commit" "rob_ok F es" "length es \<le> ROB_SIZE"
    "k \<le> length es" "spec = fold retire (take k es) commit" "length spec = TRANSREG_COUNT"
proof -
  show "refs_inv (all_refs spec commit es) F" "committed_ok F commit" "rob_ok F es" "length es \<le> ROB_SIZE"
    "k \<le> length es" "spec = fold retire (take k es) commit" using assms unfolding ren_ok_def by blast+
  then show "length spec = TRANSREG_COUNT" using committed_okD(1) by simp
qed

lemma rob_okD:
  assumes "rob_ok F es"
  shows "e \<in> set es \<Longrightarrow> entry_ok F e" "distinct (map rb_physreg es)" "sources_ok es"
    "in_file F p \<Longrightarrow> in_flight (pr_state (preg_of F p)) \<Longrightarrow> Some p \<in> set (map rb_physreg es)"
  using assms unfolding rob_ok_def by blast+

lemma size_all_refs:
  assumes "ren_ok k F spec commit es"
  shows "size (all_refs spec commit es) \<le> 4 * ROB_SIZE + 2 * TRANSREG_COUNT + PHYS_REG_FILE_COUNT"
proof -
  have "\<forall>e \<in> set es. length (rb_operands e) = 4"
    using ren_okD(3) [OF assms] by (auto simp: rob_ok_def entry_ok_def)
  then show ?thesis
    using size_rob_refs [of es] ren_okD(4,7) [OF assms] committed_okD(1) [OF ren_okD(2) [OF assms]]
    by (simp add: all_refs_def)
qed

text \<open>The invariant does not see a change that keeps the states and the back pointers.\<close>

lemma entry_ok_cong:
  "\<lbrakk>\<And>p. in_file F' p = in_file F p; \<And>p. rb_physreg e = Some p \<Longrightarrow> pr_rob (preg_of F' p) = pr_rob (preg_of F p)
     \<and> (in_flight (pr_state (preg_of F p)) \<longrightarrow> in_flight (pr_state (preg_of F' p)))\<rbrakk>
   \<Longrightarrow> entry_ok F e \<Longrightarrow> entry_ok F' e"
  by (auto simp: entry_ok_def)

lemma same_regs_ok:
  assumes "same_regs F F'"
  shows "rob_ok F es \<Longrightarrow> rob_ok F' es" "committed_ok F t \<Longrightarrow> committed_ok F' t"
  by (simp_all add: rob_ok_def committed_ok_def entry_ok_def same_regsD [OF assms])

subsection \<open>One table entry changes its register\<close>

lemma swap_ref:
  assumes "refs_inv (R + mset t) F" "r < length t" "in_file F p" "pr_state (preg_of F p) \<noteq> PHYSREG_FREE"
  obtains F' where "unref (t ! r) F = Some F'" "refs_inv (R + mset (t[r := p])) (addref p F')"
    "same_regs F (addref p F')"
proof -
  have t: "R + mset t = add_mset (t ! r) (R + (mset t - {#t ! r#}))"
    using assms(2) by (simp add: union_mset_add_mset_right [symmetric] del: union_mset_add_mset_right)
  obtain F' where F': "unref (t ! r) F = Some F'" "refs_inv (R + (mset t - {#t ! r#})) F'" "same_regs F F'"
    by (rule unref_refs [OF assms(1) [unfolded t]])
  have "Suc (size (R + (mset t - {#t ! r#}))) = size (R + mset t)" unfolding t by simp
  then have small: "Suc (size (R + (mset t - {#t ! r#}))) < 2 ^ 15" using refs_invD(2) [OF assms(1)] by simp
  have in_file: "in_file F' p" "pr_state (preg_of F' p) \<noteq> PHYSREG_FREE"
    using assms(3,4) same_regsD [OF F'(3), of p] by simp_all
  note a = addref_refs [OF F'(2) in_file small]
  have eq: "add_mset p (R + (mset t - {#t ! r#})) = R + mset (t[r := p])" using assms(2) by (simp add: mset_update)
  show ?thesis by (rule that [OF F'(1) a(1) [unfolded eq] same_regs_trans [OF F'(3) a(2)]])
qed

text \<open>Where a table points while uops are in flight.\<close>

lemma committed_in_set:
  assumes "committed_ok F t" "p \<in> set t"
  shows "in_file F p" "\<not> in_flight (pr_state (preg_of F p))" "pr_state (preg_of F p) \<noteq> PHYSREG_FREE"
proof -
  obtain r where r: "r < TRANSREG_COUNT" "p = t ! r"
    using assms(2) committed_okD(1) [OF assms(1)] by (metis in_set_conv_nth)
  show "in_file F p" "\<not> in_flight (pr_state (preg_of F p))" "pr_state (preg_of F p) \<noteq> PHYSREG_FREE"
    using committed_okD(2,4) [OF assms(1) r(1)] r(2) by auto
qed

lemma in_file_alive:
  "p \<in># R \<Longrightarrow> refs_inv R F \<Longrightarrow> in_file F p \<and> pr_state (preg_of F p) \<noteq> PHYSREG_FREE"
  using refs_invD(3,4) by blast

text \<open>
  The counters of \<open>R\<close> plus the entries of a table follow a sequence of table updates.
\<close>

fun swap_refs :: "nat list \<Rightarrow> preg \<Rightarrow> preg list \<Rightarrow> RegFiles \<Rightarrow> (RegFiles \<times> preg list) option" where
  "swap_refs [] p t F = Some (F, t)"
| "swap_refs (r # rs) p t F = do { F' \<leftarrow> unref (t ! r) F; swap_refs rs p (t[r := p]) (addref p F') }"

lemma swap_refs_ok:
  assumes "refs_inv (R + mset t) F" "\<forall>r \<in> set rs. r < length t" "in_file F p" "pr_state (preg_of F p) \<noteq> PHYSREG_FREE"
  shows "\<exists>F'. swap_refs rs p t F = Some (F', map_regs rs p t) \<and> refs_inv (R + mset (map_regs rs p t)) F' \<and> same_regs F F'"
  using assms
proof (induction rs arbitrary: t F)
  case (Cons r rs)
  have r: "r < length t" using Cons.prems(2) by simp
  obtain F1 where f: "unref (t ! r) F = Some F1" "refs_inv (R + mset (t[r := p])) (addref p F1)" "same_regs F (addref p F1)"
    by (rule swap_ref [OF Cons.prems(1) r Cons.prems(3,4)])
  have "\<exists>F'. swap_refs rs p (t[r := p]) (addref p F1) = Some (F', map_regs rs p (t[r := p]))
      \<and> refs_inv (R + mset (map_regs rs p (t[r := p]))) F' \<and> same_regs (addref p F1) F'"
    using Cons.prems same_regsD [OF f(3)] by (intro Cons.IH f(2)) auto
  then show ?case using f(1) same_regs_trans [OF f(3)] by (auto simp del: mset_update)
qed simp

end
