(* ===== verification/Rename_Steps.thy ===== *)
theory Rename_Steps
  imports Rename_Inv
begin

text \<open>
  What renaming, commit and annulment do to the register files and the tables, and that they keep
  the invariant of \<open>Rename_Inv\<close>. The lemmas are about the register operations alone, in the order the
  pipeline stages perform them.
\<close>

subsection \<open>Frames\<close>

definition same_except :: "preg set \<Rightarrow> RegFiles \<Rightarrow> RegFiles \<Rightarrow> bool" where
  "same_except A F F' \<longleftrightarrow> (\<forall>q. in_file F' q = in_file F q)
     \<and> (\<forall>q. q \<notin> A \<longrightarrow> pr_state (preg_of F' q) = pr_state (preg_of F q) \<and> pr_rob (preg_of F' q) = pr_rob (preg_of F q))"

lemma same_exceptD:
  assumes "same_except A F F'"
  shows "in_file F' q = in_file F q" "q \<notin> A \<Longrightarrow> pr_state (preg_of F' q) = pr_state (preg_of F q)"
    "q \<notin> A \<Longrightarrow> pr_rob (preg_of F' q) = pr_rob (preg_of F q)"
  using assms unfolding same_except_def by blast+

lemma same_except_same: "same_regs F F' \<Longrightarrow> same_except A F F'"
  unfolding same_except_def by (simp add: same_regsD)

lemma same_except_only: "only_preg p g F F' \<Longrightarrow> p \<in> A \<Longrightarrow> same_except A F F'"
  unfolding same_except_def using only_pregD(2,3) [of p g F F'] by metis

lemma same_except_trans [trans]: "same_except A F F' \<Longrightarrow> same_except A F' F'' \<Longrightarrow> same_except A F F''"
  unfolding same_except_def by simp

subsection \<open>Operands gain and lose references\<close>

lemma addrefs_refs:
  assumes "refs_inv R F" "\<forall>p \<in> set ps. in_file F p \<and> pr_state (preg_of F p) \<noteq> PHYSREG_FREE" "size R + length ps < 2 ^ 15"
  shows "refs_inv (mset ps + R) (fold addref ps F)" "same_regs F (fold addref ps F)"
proof -
  have "refs_inv (mset ps + R) (fold addref ps F) \<and> same_regs F (fold addref ps F)"
    using assms
  proof (induction ps arbitrary: F R)
    case (Cons p ps)
    have p: "in_file F p" "pr_state (preg_of F p) \<noteq> PHYSREG_FREE" "Suc (size R) < 2 ^ 15" using Cons.prems(2,3) by auto
    note a = addref_refs [OF Cons.prems(1) p]
    have "refs_inv (mset ps + add_mset p R) (fold addref ps (addref p F)) \<and> same_regs (addref p F) (fold addref ps (addref p F))"
      using Cons.prems(2,3) by (intro Cons.IH a(1)) (simp_all add: same_regsD [OF a(2)])
    then show ?case using same_regs_trans [OF a(2)] by simp
  qed simp
  then show "refs_inv (mset ps + R) (fold addref ps F)" "same_regs F (fold addref ps F)" by auto
qed

lemma unrefs_refs:
  assumes "refs_inv (mset ps + R) F"
  obtains F' where "unspecrefs ps F = Some F'" "refs_inv R F'" "same_regs F F'"
proof -
  have "\<exists>F'. unspecrefs ps F = Some F' \<and> refs_inv R F' \<and> same_regs F F'"
    using assms
  proof (induction ps arbitrary: F)
    case (Cons p ps)
    have "refs_inv (add_mset p (mset ps + R)) F" using Cons.prems by simp
    then obtain F1 where f: "unref p F = Some F1" "refs_inv (mset ps + R) F1" "same_regs F F1" by (rule unref_refs)
    from Cons.IH [OF f(2)] show ?case using f(1) same_regs_trans [OF f(3)] by auto
  qed simp
  then show ?thesis using that by blast
qed

subsection \<open>Renaming\<close>

lemma sources_ok_snoc:
  "sources_ok (es @ [e]) \<longleftrightarrow> sources_ok es \<and> (\<forall>x \<in> set (es @ [e]). rb_physreg e \<notin> Some ` set (rb_operands x))"
  by (induction es) auto

lemma fresh_not_used:
  assumes "ren_ok k F spec commit es" "in_file F p" "pr_state (preg_of F p) = PHYSREG_FREE"
  shows "p \<notin> set spec" "p \<notin> set commit" "e \<in> set es \<Longrightarrow> p \<notin> set (rb_operands e)" "Some p \<notin> set (map rb_physreg es)"
    "p \<notin># all_refs spec commit es"
proof -
  show r: "p \<notin># all_refs spec commit es" using refs_invD(4) [OF ren_okD(1) [OF assms(1)]] assms(3) by blast
  then show "p \<notin> set spec" "p \<notin> set commit" "e \<in> set es \<Longrightarrow> p \<notin> set (rb_operands e)"
    by (auto simp: all_refs_def rob_refs_def)
  show "Some p \<notin> set (map rb_physreg es)"
    using rob_okD(1) [OF ren_okD(3) [OF assms(1)]] assms(3) by (fastforce simp: entry_ok_def)
qed

text \<open>The destination of a new entry: what was free before is in flight now.\<close>

lemma entry_ok_except:
  assumes "same_except A F F'" "entry_ok F e" "\<forall>p \<in> A. rb_physreg e \<noteq> Some p"
  shows "entry_ok F' e"
proof -
  obtain p where p: "rb_physreg e = Some p" "in_file F p" "snd p \<noteq> 0" "in_flight (pr_state (preg_of F p))"
      "pr_rob (preg_of F p) = Some (rb_idx e)" "length (rb_operands e) = 4" "uop_ok (rb_uop e)"
    by (rule entry_okD [OF assms(2)])
  have "p \<notin> A" using assms(3) p(1) by blast
  then show ?thesis using p same_exceptD [OF assms(1), of p] by (simp add: entry_ok_def)
qed

lemma committed_ok_alloc:
  assumes "committed_ok F t" "same_except {p} F F'" "in_file F p" "pr_state (preg_of F p) = PHYSREG_FREE"
    "in_flight (pr_state (preg_of F' p))"
  shows "committed_ok F' t"
proof -
  note d = committed_okD [OF assms(1)] and s = same_exceptD [OF assms(2)]
  have ne: "t ! r \<noteq> p" if "r < TRANSREG_COUNT" for r using d(4) [OF that] assms(4) by auto
  have ne0: "(f, 0) \<noteq> p" if "f < PHYS_REG_FILE_COUNT" for f using d(8) [OF that] assms(4) by auto
  show ?thesis
    unfolding committed_ok_def
  proof (intro conjI allI impI)
    fix r assume r: "r < TRANSREG_COUNT"
    show "in_file F' (t ! r)" using d(2) [OF r] s(1) by simp
    show "pr_state (preg_of F' (t ! r)) = PHYSREG_ARCH \<or> flag_reg r \<and> pr_state (preg_of F' (t ! r)) = PHYSREG_PENDINGFREE"
      using s(2) [of "t ! r"] ne [OF r] d(3,4) [OF r] by auto
  next
    fix r r' assume "r < TRANSREG_COUNT" "r' < TRANSREG_COUNT" "\<not> flag_reg r \<and> \<not> flag_reg r' \<and> t ! r = t ! r'"
    then show "r = r' \<or> snd (t ! r) = 0" using d(5) by blast
  next
    fix q assume q: "in_file F' q \<and> pr_state (preg_of F' q) = PHYSREG_ARCH \<and> snd q \<noteq> 0"
    then have "q \<noteq> p" using assms(5) by auto
    then show "\<exists>r < TRANSREG_COUNT. \<not> flag_reg r \<and> t ! r = q" using d(6) [of q] s(1,2) [of q] q by simp
  next
    fix f assume f: "f < PHYS_REG_FILE_COUNT"
    show "in_file F' (f, 0)" "pr_state (preg_of F' (f, 0)) = PHYSREG_ARCH"
      using d(7,8) [OF f] s(1,2) [of "(f, 0)"] ne0 [OF f] by simp_all
  next
    fix q assume q: "in_file F' q \<and> \<not> in_flight (pr_state (preg_of F' q))"
    then have "q \<noteq> p" using assms(5) by auto
    then show "pr_rob (preg_of F' q) = None" using d(9) [of q] s [of q] q by simp
  qed (rule d(1))
qed

lemma rename_ok:
  assumes ok: "ren_ok (length es) F spec commit es" and len: "length es < ROB_SIZE"
    and e: "rb_physreg e = Some p" "length (rb_operands e) = 4" "uop_ok (rb_uop e)"
    and ops: "\<forall>q \<in> set (rb_operands e). in_file F q \<and> pr_state (preg_of F q) \<noteq> PHYSREG_FREE"
    and p: "in_file F p" "pr_state (preg_of F p) = PHYSREG_FREE"
    and F': "same_except {p} F F'" "in_flight (pr_state (preg_of F' p))" "pr_rob (preg_of F' p) = Some (rb_idx e)"
      "refs_inv (all_refs (retire e spec) commit (es @ [e])) F'"
  shows "ren_ok (Suc (length es)) F' (retire e spec) commit (es @ [e])"
proof -
  note d = ren_okD [OF ok] and fresh = fresh_not_used [OF ok p] and s = same_exceptD [OF F'(1)]
  have com: "committed_ok F' commit" by (rule committed_ok_alloc [OF d(2) F'(1) p F'(2)])
  have p0: "snd p \<noteq> 0"
  proof
    assume "snd p = 0"
    then have "p = (fst p, 0)" by (simp add: prod_eq_iff)
    moreover have "fst p < PHYS_REG_FILE_COUNT" using p(1) by (simp add: in_file_def)
    ultimately show False using committed_okD(8) [OF d(2)] p(2) by (metis states_distinct(7))
  qed
  have "rob_ok F' (es @ [e])"
    unfolding rob_ok_def
  proof (intro conjI ballI allI impI)
    fix x assume "x \<in> set (es @ [e])"
    then consider "x \<in> set es" | "x = e" by auto
    then show "entry_ok F' x"
    proof cases
      case 1
      then have "rb_physreg x \<noteq> Some p" using fresh(4) by force
      then show ?thesis using entry_ok_except [OF F'(1)] rob_okD(1) [OF d(3) 1] by simp
    next
      case 2
      then show ?thesis using e F'(2,3) p(1) p0 s(1) by (simp add: entry_ok_def)
    qed
  next
    show "distinct (map rb_physreg (es @ [e]))" using rob_okD(2) [OF d(3)] fresh(4) e(1) by auto
  next
    have "p \<notin> set (rb_operands e)" using ops p(2) by blast
    then show "sources_ok (es @ [e])" using rob_okD(3) [OF d(3)] fresh(3) e(1) by (auto simp: sources_ok_snoc)
  next
    fix q assume q: "in_file F' q \<and> in_flight (pr_state (preg_of F' q))"
    then show "Some q \<in> set (map rb_physreg (es @ [e]))"
      using rob_okD(4) [OF d(3), of q] s(1,2) [of q] e(1) by (cases "q = p") auto
  qed
  then show ?thesis using com F'(4) len d(6) unfolding ren_ok_def by simp
qed

subsection \<open>Commit\<close>

lemma dests_ok:
  assumes "uop_ok uop"
  shows "dests uop = op_rd uop # flag_dests uop" "op_rd uop < TRANSREG_COUNT" "\<not> flag_reg (op_rd uop)"
    "r \<in> set (dests uop) \<Longrightarrow> r < TRANSREG_COUNT" "op_rd uop \<notin> set (flag_dests uop)"
proof -
  have u: "op_rd uop < TRANSREG_COUNT" "op_rd uop \<noteq> REG_zero" "\<not> flag_reg (op_rd uop)" using assms by (simp_all add: uop_ok_def)
  then show d: "dests uop = op_rd uop # flag_dests uop" "op_rd uop < TRANSREG_COUNT" "\<not> flag_reg (op_rd uop)"
    by (simp_all add: dests_def archdest_can_commit_nth)
  show "r \<in> set (dests uop) \<Longrightarrow> r < TRANSREG_COUNT" using u(1) set_flag_dests [of r uop] by (auto simp: d(1))
  show "op_rd uop \<notin> set (flag_dests uop)" using u(3) set_flag_dests [of "op_rd uop" uop] by blast
qed

lemma retire_nth:
  assumes "uop_ok (rb_uop e)" "length t = TRANSREG_COUNT" "r < TRANSREG_COUNT"
  shows "retire e t ! r = (if r = op_rd (rb_uop e) \<or> r \<in> set (flag_dests (rb_uop e)) then the (rb_physreg e) else t ! r)"
  using assms by (simp add: retire_def map_regs_nth dests_ok(1))

text \<open>The committed table after a commit: \<open>p\<close> has become architectural, \<open>old\<close> is on its way out.\<close>

lemma committed_ok_commit:
  assumes c: "committed_ok F t" and e: "uop_ok (rb_uop e)" "rb_physreg e = Some p" and old: "old = t ! op_rd (rb_uop e)"
    and p: "in_file F p" "in_flight (pr_state (preg_of F p))" "snd p \<noteq> 0"
    and F': "same_except {p, old} F F'" "pr_state (preg_of F' p) = PHYSREG_ARCH" "pr_rob (preg_of F' p) = None"
      "snd old \<noteq> 0 \<Longrightarrow> pr_state (preg_of F' old) = PHYSREG_PENDINGFREE \<or> pr_state (preg_of F' old) = PHYSREG_FREE"
      "snd old = 0 \<Longrightarrow> pr_state (preg_of F' old) = PHYSREG_ARCH" "pr_rob (preg_of F' old) = None"
      "\<forall>q \<in> set (retire e t). pr_state (preg_of F' q) \<noteq> PHYSREG_FREE"
  shows "committed_ok F' (retire e t)"
proof -
  note d = committed_okD [OF c] and s = same_exceptD [OF F'(1)] and u = dests_ok [OF e(1)]
  let ?rd = "op_rd (rb_uop e)"
  have nth: "retire e t ! r = (if r = ?rd \<or> r \<in> set (flag_dests (rb_uop e)) then p else t ! r)" if "r < TRANSREG_COUNT" for r
    using retire_nth [OF e(1) d(1) that] e(2) by simp
  have nonflag: "retire e t ! r = (if r = ?rd then p else t ! r)" if "r < TRANSREG_COUNT" "\<not> flag_reg r" for r
    using nth [OF that(1)] that(2) set_flag_dests [of r "rb_uop e"] by auto
  have np: "t ! r \<noteq> p" if "r < TRANSREG_COUNT" for r using d(4) [OF that] p(2) in_flightD by metis
  have old_arch: "pr_state (preg_of F old) = PHYSREG_ARCH" "in_file F old" using d(2,3) [OF u(2)] u(3) old by simp_all
  have alive: "pr_state (preg_of F' (retire e t ! r)) \<noteq> PHYSREG_FREE" if "r < TRANSREG_COUNT" for r
    using F'(7) that d(1) by (simp add: retire_def)
  have kept: "t ! r \<noteq> old \<or> snd old = 0" if "r < TRANSREG_COUNT" "\<not> flag_reg r" "r \<noteq> ?rd" for r
    using d(5) [OF that(1) u(2) that(2) u(3)] that(3) old by auto
  show ?thesis
    unfolding committed_ok_def
  proof (intro conjI allI impI)
    show "length (retire e t) = TRANSREG_COUNT" using d(1) by simp
  next
    fix r assume r: "r < TRANSREG_COUNT"
    show "in_file F' (retire e t ! r)" using nth [OF r] d(2) [OF r] p(1) s(1) by simp
    show "pr_state (preg_of F' (retire e t ! r)) = PHYSREG_ARCH
        \<or> flag_reg r \<and> pr_state (preg_of F' (retire e t ! r)) = PHYSREG_PENDINGFREE"
    proof (cases "retire e t ! r = p")
      case True
      then show ?thesis using F'(2) by simp
    next
      case False
      then have same: "retire e t ! r = t ! r" "r \<noteq> ?rd" using nth [OF r] by (auto split: if_splits)
      show ?thesis
      proof (cases "t ! r = old")
        case True
        then show ?thesis using kept [OF r _ same(2)] F'(4,5) alive [OF r] same(1) by auto
      next
        case False
        then show ?thesis using d(3,4) [OF r] s(2) [of "t ! r"] np [OF r] same(1) by auto
      qed
    qed
  next
    fix r r' assume r: "r < TRANSREG_COUNT" "r' < TRANSREG_COUNT"
      and eq: "\<not> flag_reg r \<and> \<not> flag_reg r' \<and> retire e t ! r = retire e t ! r'"
    then show "r = r' \<or> snd (retire e t ! r) = 0"
      using nonflag [OF r(1)] nonflag [OF r(2)] np [OF r(1)] np [OF r(2)] d(5) [OF r] by (auto split: if_splits)
  next
    fix q assume q: "in_file F' q \<and> pr_state (preg_of F' q) = PHYSREG_ARCH \<and> snd q \<noteq> 0"
    show "\<exists>r < TRANSREG_COUNT. \<not> flag_reg r \<and> retire e t ! r = q"
    proof (cases "q = p")
      case True
      then show ?thesis using nonflag [OF u(2,3)] u(2,3) by auto
    next
      case False
      moreover have "q \<noteq> old" using q F'(4) by auto
      ultimately obtain r where r: "r < TRANSREG_COUNT" "\<not> flag_reg r" "t ! r = q"
        using d(6) [of q] s(1,2) [of q] q by auto
      then have "r \<noteq> ?rd" using \<open>q \<noteq> old\<close> old by auto
      then show ?thesis using r nonflag [OF r(1,2)] by auto
    qed
  next
    fix f assume f: "f < PHYS_REG_FILE_COUNT"
    show "in_file F' (f, 0)" using d(7) [OF f] s(1) by simp
    show "pr_state (preg_of F' (f, 0)) = PHYSREG_ARCH"
    proof (cases "(f, 0) = old")
      case True
      then show ?thesis using F'(5) by (simp add: True [symmetric])
    next
      case False
      moreover have "(f, 0) \<noteq> p" using p(3) by (metis snd_conv)
      ultimately show ?thesis using d(8) [OF f] s(2) [of "(f, 0)"] by simp
    qed
  next
    fix q assume q: "in_file F' q \<and> \<not> in_flight (pr_state (preg_of F' q))"
    show "pr_rob (preg_of F' q) = None"
    proof (cases "q = p \<or> q = old")
      case True
      then show ?thesis using F'(3,6) by auto
    next
      case False
      then show ?thesis using d(9) [of q] s [of q] q by simp
    qed
  qed
qed

lemma commit_ok:
  assumes ok: "ren_ok (Suc k) F spec commit (e # es)" and e: "rb_physreg e = Some p" and old: "old = commit ! op_rd (rb_uop e)"
    and F': "same_except {p, old} F F'" "pr_state (preg_of F' p) = PHYSREG_ARCH" "pr_rob (preg_of F' p) = None"
      "snd old \<noteq> 0 \<Longrightarrow> pr_state (preg_of F' old) = PHYSREG_PENDINGFREE \<or> pr_state (preg_of F' old) = PHYSREG_FREE"
      "snd old = 0 \<Longrightarrow> pr_state (preg_of F' old) = PHYSREG_ARCH" "pr_rob (preg_of F' old) = None"
      "refs_inv (all_refs spec (retire e commit) es) F'"
  shows "ren_ok k F' spec (retire e commit) es"
proof -
  note d = ren_okD [OF ok]
  obtain q where "rb_physreg e = Some q" "in_file F q" "snd q \<noteq> 0" "in_flight (pr_state (preg_of F q))" "uop_ok (rb_uop e)"
    by (rule entry_okD [OF rob_okD(1) [OF d(3), of e]]) simp_all
  then have p: "in_file F p" "snd p \<noteq> 0" "in_flight (pr_state (preg_of F p))" "uop_ok (rb_uop e)" using e by simp_all
  have old_arch: "pr_state (preg_of F old) = PHYSREG_ARCH"
    using committed_okD(3) [OF d(2) dests_ok(2,3) [OF p(4)]] old by simp
  have "\<forall>q \<in> set (retire e commit). pr_state (preg_of F' q) \<noteq> PHYSREG_FREE"
    using refs_invD(4) [OF F'(7)] by (simp add: all_refs_def)
  from committed_ok_commit [OF d(2) p(4) e old p(1,3,2) F'(1-6) this]
  have com: "committed_ok F' (retire e commit)" .
  have old': "\<not> in_flight (pr_state (preg_of F' old))" using F'(4,5) by (cases "snd old = 0") auto
  have "rob_ok F' es"
    unfolding rob_ok_def
  proof (intro conjI ballI allI impI)
    fix x assume x: "x \<in> set es"
    then have x': "entry_ok F x" using rob_okD(1) [OF d(3)] by simp
    have "rb_physreg x \<noteq> Some p" using rob_okD(2) [OF d(3)] x e by force
    moreover have "rb_physreg x \<noteq> Some old" using x' old_arch by (auto simp: entry_ok_def)
    ultimately show "entry_ok F' x" using entry_ok_except [OF F'(1) x'] by simp
  next
    show "distinct (map rb_physreg es)" using rob_okD(2) [OF d(3)] by simp
    show "sources_ok es" using rob_okD(3) [OF d(3)] by simp
  next
    fix q assume q: "in_file F' q \<and> in_flight (pr_state (preg_of F' q))"
    then have "q \<noteq> p" "q \<noteq> old" using F'(2) old' by auto
    then show "Some q \<in> set (map rb_physreg es)"
      using rob_okD(4) [OF d(3), of q] same_exceptD(1,2) [OF F'(1), of q] q e by auto
  qed
  then show ?thesis using com F'(7) d(4-6) by (simp add: ren_ok_def)
qed

subsection \<open>Annulment\<close>

lemma sources_ok_append: "sources_ok (es @ es') \<Longrightarrow> sources_ok es"
  by (induction es) auto

text \<open>The register of the youngest entry is not referenced once its operands are.\<close>

lemma youngest_unreferenced:
  assumes ok: "ren_ok k F spec commit (es @ [e])" and k: "k \<le> length es" and e: "rb_physreg e = Some p"
  shows "p \<notin># all_refs spec commit es" "in_file F p"
proof -
  note d = ren_okD [OF ok]
  obtain q where "rb_physreg e = Some q" "in_file F q" "in_flight (pr_state (preg_of F q))" "snd q \<noteq> 0"
    by (rule entry_okD [OF rob_okD(1) [OF d(3), of e]]) simp_all
  then have p: "in_file F p" "in_flight (pr_state (preg_of F p))" "snd p \<noteq> 0" using e by simp_all
  have null: "p \<notin># null_refs PHYS_REG_FILE_COUNT" using p(3) by (auto simp: null_refs_def PHYS_REG_NULL_def)
  show "in_file F p" by (rule p(1))
  have com: "p \<notin> set commit" using committed_in_set(2) [OF d(2)] p(2) by blast
  have "Some p \<notin> set (map rb_physreg es)" using rob_okD(2) [OF d(3)] e by auto
  then have "p \<notin> (\<lambda>e. the (rb_physreg e)) ` set es"
    using rob_okD(1) [OF d(3)] by (force simp: entry_ok_def)
  moreover have "set spec \<subseteq> set commit \<union> (\<lambda>e. the (rb_physreg e)) ` set es"
    using set_fold_retire [of "take k es" commit] set_take_subset [of k es] d(6) k by auto
  ultimately have spec: "p \<notin> set spec" using com by blast
  have "p \<notin># rob_refs es" using rob_okD(3) [OF d(3)] e by (auto simp: sources_ok_snoc rob_refs_def)
  then show "p \<notin># all_refs spec commit es" using com spec null by (simp add: all_refs_def)
qed

lemma annul_ok:
  assumes ok: "ren_ok k F spec commit (es @ [e])" and k: "k \<le> length es" and e: "rb_physreg e = Some p"
    and F': "same_except {p} F F'" "pr_state (preg_of F' p) = PHYSREG_FREE" "pr_rob (preg_of F' p) = None"
      "refs_inv (all_refs spec commit es) F'"
  shows "ren_ok k F' spec commit es"
proof -
  note d = ren_okD [OF ok] and s = same_exceptD [OF F'(1)]
  obtain q where "rb_physreg e = Some q" "in_file F q" "snd q \<noteq> 0" "in_flight (pr_state (preg_of F q))"
    by (rule entry_okD [OF rob_okD(1) [OF d(3), of e]]) simp_all
  then have p: "in_file F p" "snd p \<noteq> 0" "in_flight (pr_state (preg_of F p))" using e by simp_all
  note c = committed_okD [OF d(2)]
  have np: "commit ! r \<noteq> p" if "r < TRANSREG_COUNT" for r using c(4) [OF that] p(3) in_flightD by metis
  have com: "committed_ok F' commit"
    unfolding committed_ok_def
  proof (intro conjI allI impI)
    fix r assume r: "r < TRANSREG_COUNT"
    show "in_file F' (commit ! r)" using c(2) [OF r] s(1) by simp
    show "pr_state (preg_of F' (commit ! r)) = PHYSREG_ARCH
        \<or> flag_reg r \<and> pr_state (preg_of F' (commit ! r)) = PHYSREG_PENDINGFREE"
      using s(2) [of "commit ! r"] np [OF r] c(3,4) [OF r] by auto
  next
    fix r r' assume "r < TRANSREG_COUNT" "r' < TRANSREG_COUNT" "\<not> flag_reg r \<and> \<not> flag_reg r' \<and> commit ! r = commit ! r'"
    then show "r = r' \<or> snd (commit ! r) = 0" using c(5) by blast
  next
    fix q assume q: "in_file F' q \<and> pr_state (preg_of F' q) = PHYSREG_ARCH \<and> snd q \<noteq> 0"
    then have "q \<noteq> p" using F'(2) by auto
    then show "\<exists>r < TRANSREG_COUNT. \<not> flag_reg r \<and> commit ! r = q" using c(6) [of q] s(1,2) [of q] q by simp
  next
    fix f assume f: "f < PHYS_REG_FILE_COUNT"
    show "in_file F' (f, 0)" "pr_state (preg_of F' (f, 0)) = PHYSREG_ARCH"
      using c(7,8) [OF f] s(1,2) [of "(f, 0)"] p(2) by (metis singletonD snd_conv)+
  next
    fix q assume q: "in_file F' q \<and> \<not> in_flight (pr_state (preg_of F' q))"
    then show "pr_rob (preg_of F' q) = None" using c(9) [of q] s [of q] F'(3) by (cases "q = p") auto
  qed (rule c(1))
  have "rob_ok F' es"
    unfolding rob_ok_def
  proof (intro conjI ballI allI impI)
    fix x assume x: "x \<in> set es"
    have "rb_physreg x \<noteq> Some p" using rob_okD(2) [OF d(3)] x e by force
    then show "entry_ok F' x" using entry_ok_except [OF F'(1)] rob_okD(1) [OF d(3)] x by simp
  next
    show "distinct (map rb_physreg es)" "sources_ok es"
      using rob_okD(2,3) [OF d(3)] sources_ok_append by auto
  next
    fix q assume q: "in_file F' q \<and> in_flight (pr_state (preg_of F' q))"
    then have "q \<noteq> p" using F'(2) by auto
    then show "Some q \<in> set (map rb_physreg es)"
      using rob_okD(4) [OF d(3), of q] s(1,2) [of q] q e by auto
  qed
  then show ?thesis using com F'(4) d(4-6) k by (simp add: ren_ok_def)
qed

end
