(* ===== verification/Core_Inv.thy ===== *)
theory Core_Inv
  imports Rename_Steps
begin

text \<open>
  The invariant of the core that the rename, commit and annul stages keep: the shape of the
  reorder buffer, the register invariant on its entries from head to tail, and the lists of the
  reorder buffer states.
\<close>

subsection \<open>The ring buffer seen through its entries\<close>

text \<open>The fields of an entry that the invariant reads.\<close>

definition rob_view :: "ReorderBufferEntry \<Rightarrow> nat \<times> preg option \<times> preg list \<times> FetchBufferEntry" where
  "rob_view e = (rb_idx e, rb_physreg e, rb_operands e, rb_uop e)"

lemma view_contents:
  assumes "head q' = head q" "tail q' = tail q" "FixedQueue.count q' = FixedQueue.count q" "length (slots q') = length (slots q)"
    and "\<And>i. i < length (slots q) \<Longrightarrow> f (slots q' ! i) = f (slots q ! i)" "fq_inv q"
  shows "map f (contents q') = map f (contents q)" "fq_inv q'"
proof -
  have "fq_size q' = fq_size q" using assms(4) by (simp add: fq_size_def)
  moreover from this have "fq_ix q' = fq_ix q" using assms(1) by (simp add: fq_ix_def fun_eq_iff)
  ultimately show "map f (contents q') = map f (contents q)" "fq_inv q'"
    using assms fq_ix_less [OF assms(6)] by (auto simp: contents_def fq_inv_def)
qed

lemma view_push:
  assumes "fq_inv q" "fq_remaining q \<noteq> 0" "head q' = head q" "tail q' = add_index_modulo (tail q) 1 (fq_size q)"
    and "FixedQueue.count q' = FixedQueue.count q + 1" "length (slots q') = length (slots q)"
    and "\<And>i. i < length (slots q) \<Longrightarrow> i \<noteq> nat (tail q) \<Longrightarrow> f (slots q' ! i) = f (slots q ! i)"
  shows "map f (contents q') = map f (contents q) @ [f (slots q' ! nat (tail q))]" "fq_inv q'"
    "nat (tail q) < length (slots q)" "nat (tail q) = fq_ix q (length (contents q))"
proof -
  let ?x = "slots q' ! nat (tail q)"
  have "length (contents q) < capacity q" using assms(1,2) fq_fullD by blast
  then obtain p q1 where q1: "fq_push ?x q = (Some p, q1)" "fq_inv q1" "contents q1 = contents q @ [?x]"
    using fq_pushD [OF assms(1)] by blast
  have q1_def: "q1 = q\<lparr>tail := add_index_modulo (tail q) 1 (fq_size q), FixedQueue.count := FixedQueue.count q + 1,
      slots := (slots q)[nat (tail q) := ?x]\<rparr>" using q1(1) assms(2) by (auto simp: fq_push_def fq_alloc_def)
  show t: "nat (tail q) < length (slots q)" using fq_invD(4,5) [OF assms(1)] by (simp add: fq_size_def)
  have "f (slots q' ! i) = f (slots q1 ! i)" if "i < length (slots q1)" for i
    using that assms(7) [of i] t by (cases "i = nat (tail q)") (simp_all add: q1_def)
  moreover have "head q' = head q1" "tail q' = tail q1" "FixedQueue.count q' = FixedQueue.count q1"
      "length (slots q') = length (slots q1)" using assms(3-6) by (simp_all add: q1_def)
  ultimately have "map f (contents q') = map f (contents q1)" "fq_inv q'"
    using view_contents [of q' q1 f, OF _ _ _ _ _ q1(2)] by blast+
  then show "map f (contents q') = map f (contents q) @ [f ?x]" "fq_inv q'" using q1(3) by simp_all
  show "nat (tail q) = fq_ix q (length (contents q))"
    using fq_invD [OF assms(1)] length_contents [OF assms(1)] by (simp add: fq_ix_def)
qed

definition entries :: "Core \<Rightarrow> ReorderBufferEntry list" where
  "entries C = contents (oc_ROB C)"

lemma entry_ok_view: "rob_view e' = rob_view e \<Longrightarrow> entry_ok F e' \<longleftrightarrow> entry_ok F e"
  by (simp add: entry_ok_def rob_view_def)

lemma map_view:
  assumes "map rob_view es' = map rob_view es"
  shows "map rb_physreg es' = map rb_physreg es" "map rb_operands es' = map rb_operands es" "length es' = length es"
    "fold retire (take k es') t = fold retire (take k es) t" "sources_ok es' \<longleftrightarrow> sources_ok es" "rob_refs es' = rob_refs es"
    "(\<forall>e \<in> set es'. entry_ok F e) \<longleftrightarrow> (\<forall>e \<in> set es. entry_ok F e)"
proof -
  have a: "list_all2 (\<lambda>a b. rob_view a = rob_view b) es' es"
    using assms by (simp add: list_all2_conv_all_nth list_eq_iff_nth_eq)
  then show "map rb_physreg es' = map rb_physreg es" "map rb_operands es' = map rb_operands es" "length es' = length es"
    by (induction rule: list_all2_induct) (auto simp: rob_view_def)
  then show "rob_refs es' = rob_refs es" by (simp add: rob_refs_def)
  have f: "fold retire es' t = fold retire es t" if "list_all2 (\<lambda>a b. rob_view a = rob_view b) es' es" for es' es t
    using that by (induction arbitrary: t rule: list_all2_induct) (auto simp: rob_view_def retire_def)
  show "(\<forall>e \<in> set es'. entry_ok F e) \<longleftrightarrow> (\<forall>e \<in> set es. entry_ok F e)"
    using a
  proof (induction rule: list_all2_induct)
    case (Cons x xs y ys)
    then show ?case using entry_ok_view [of x y F] by simp
  qed simp
  show "fold retire (take k es') t = fold retire (take k es) t" by (rule f [OF list_all2_takeI [OF a]])
  show "sources_ok es' \<longleftrightarrow> sources_ok es"
    using a
  proof (induction rule: list_all2_induct)
    case (Cons x xs y ys)
    have "map rb_physreg xs = map rb_physreg ys"
      using Cons.hyps(2) by (induction rule: list_all2_induct) (auto simp: rob_view_def)
    then have "set (map rb_physreg (x # xs)) = set (map rb_physreg (y # ys))" "rb_operands x = rb_operands y"
      using Cons.hyps(1) unfolding rob_view_def by (auto dest: arg_cong [where f = set])
    then show ?case using Cons.IH by simp
  qed simp
qed

lemma view_idx: "map rb_idx es = map fst (map rob_view es)" "map rb_uop es = map (snd \<circ> snd \<circ> snd) (map rob_view es)"
  "map rb_operands es = map (fst \<circ> snd \<circ> snd) (map rob_view es)" "map rb_physreg es = map (fst \<circ> snd) (map rob_view es)"
  by (simp_all add: rob_view_def o_def)

lemma ren_ok_view:
  assumes "map rob_view es' = map rob_view es"
  shows "ren_ok k F spec commit es' \<longleftrightarrow> ren_ok k F spec commit es"
  unfolding ren_ok_def rob_ok_def all_refs_def by (simp add: map_view [OF assms])

subsection \<open>The lists of the reorder buffer\<close>

definition rob_list_ok :: "rob_list \<Rightarrow> bool" where
  "rob_list_ok l \<longleftrightarrow> (case l of rob_dispatched c \<Rightarrow> c < MAX_CLUSTERS | rob_ready_to_issue c \<Rightarrow> c < MAX_CLUSTERS
     | rob_ready_to_store c \<Rightarrow> c < MAX_CLUSTERS | rob_ready_to_load c \<Rightarrow> c < MAX_CLUSTERS | rob_issued c \<Rightarrow> c < MAX_CLUSTERS
     | rob_completed c \<Rightarrow> c < MAX_CLUSTERS | rob_ready_to_writeback c \<Rightarrow> c < MAX_CLUSTERS | _ \<Rightarrow> True)"

definition rob_roots :: "rob_node set" where
  "rob_roots = {RobList l | l. rob_list_ok l}"

definition rob_contents :: "(rob_list \<Rightarrow> nat list) \<Rightarrow> rob_node \<Rightarrow> rob_node list" where
  "rob_contents L n = (case n of RobList l \<Rightarrow> map Rob (L l) | Rob _ \<Rightarrow> [])"

definition lists_ok :: "(rob_list \<Rightarrow> nat list) \<Rightarrow> Core \<Rightarrow> bool" where
  "lists_ok L C \<longleftrightarrow> state_lists rob_roots (rob_contents L) (oc_rob_lists C)
     \<and> length (slots (oc_ROB C)) = ROB_SIZE
     \<and> (\<forall>i < ROB_SIZE. \<exists>l. rb_list (rob_at i C) = Some l \<and> rob_list_ok l)
     \<and> (\<forall>l. rob_list_ok l \<longrightarrow> set (L l) = {i. i < ROB_SIZE \<and> rb_list (rob_at i C) = Some l})"

lemma upd_rob_simps [simp]:
  "oc_files (upd_rob i f C) = oc_files C" "oc_specrrt (upd_rob i f C) = oc_specrrt C"
  "oc_commitrrt (upd_rob i f C) = oc_commitrrt C" "oc_rob_lists (upd_rob i f C) = oc_rob_lists C"
  "oc_fetchq (upd_rob i f C) = oc_fetchq C" "oc_LSQ (upd_rob i f C) = oc_LSQ C"
  "slots (oc_ROB (upd_rob i f C)) = (slots (oc_ROB C))[i := f (rob_at i C)]"
  "head (oc_ROB (upd_rob i f C)) = head (oc_ROB C)" "tail (oc_ROB (upd_rob i f C)) = tail (oc_ROB C)"
  "FixedQueue.count (oc_ROB (upd_rob i f C)) = FixedQueue.count (oc_ROB C)"
  "oc_commitarf (upd_rob i f C) = oc_commitarf C" "oc_loads_in_flight (upd_rob i f C) = oc_loads_in_flight C"
  "oc_stores_in_flight (upd_rob i f C) = oc_stores_in_flight C" "oc_branchpred (upd_rob i f C) = oc_branchpred C"
  by (simp_all add: upd_rob_def rob_at_def)

lemma upd_lsq_simps [simp]:
  "oc_files (upd_lsq i g C) = oc_files C" "oc_specrrt (upd_lsq i g C) = oc_specrrt C"
  "oc_commitrrt (upd_lsq i g C) = oc_commitrrt C" "oc_rob_lists (upd_lsq i g C) = oc_rob_lists C"
  "oc_fetchq (upd_lsq i g C) = oc_fetchq C" "oc_ROB (upd_lsq i g C) = oc_ROB C"
  "oc_commitarf (upd_lsq i g C) = oc_commitarf C" "rob_at j (upd_lsq i g C) = rob_at j C"
  by (simp_all add: upd_lsq_def rob_at_def)

lemma rob_at_upd: "i < length (slots (oc_ROB C)) \<Longrightarrow> rob_at j (upd_rob i f C) = (if j = i then f (rob_at i C) else rob_at j C)"
  unfolding rob_at_def upd_rob_def by simp

lemma rob_at_other [simp]: "j \<noteq> i \<Longrightarrow> rob_at j (upd_rob i f C) = rob_at j C"
  unfolding rob_at_def upd_rob_def by simp

lemma rob_at_cong: "oc_ROB C' = oc_ROB C \<Longrightarrow> rob_at i C' = rob_at i C"
  by (simp add: rob_at_def)

lemma upd_rob_eq:
  "upd_rob i f C = C\<lparr>oc_ROB := (oc_ROB C)\<lparr>slots := (slots (oc_ROB C))[i := f (rob_at i C)]\<rparr>\<rparr>"
  by (simp add: upd_rob_def rob_at_def)

lemma rob_contents_move:
  "rob_contents (L(l := xs)) = (rob_contents L)(RobList l := map Rob xs)"
  by (rule ext) (auto simp: rob_contents_def split: rob_node.split)

lemma map_Rob_remove1: "map Rob (remove1 i xs) = remove1 (Rob i) (map Rob xs)"
  by (induction xs) auto

text \<open>An entry moves from the list it is on to any list, at its end or behind an entry of it.\<close>

lemma rob_changestate_ok:
  assumes ok: "lists_ok L C" and i: "i < ROB_SIZE" and l': "rob_list_ok l'"
    and place: "case place of None \<Rightarrow> True | Some None \<Rightarrow> True | Some (Some j) \<Rightarrow> j \<noteq> i \<and> j \<in> set (L l')"
  obtains L' k where "rob_changestate i l' place C = Some (upd_rob i (\<lambda>r. r\<lparr>rb_list := Some l'\<rparr>) (C\<lparr>oc_rob_lists := k\<rparr>))"
    "lists_ok L' (upd_rob i (\<lambda>r. r\<lparr>rb_list := Some l'\<rparr>) (C\<lparr>oc_rob_lists := k\<rparr>))"
    "\<And>m. m \<noteq> l' \<Longrightarrow> L' m = (if rb_list (rob_at i C) = Some m then remove1 i (L m) else L m)"
proof -
  have sl: "state_lists rob_roots (rob_contents L) (oc_rob_lists C)" and len: "length (slots (oc_ROB C)) = ROB_SIZE"
    and mem: "\<And>l. rob_list_ok l \<Longrightarrow> set (L l) = {i. i < ROB_SIZE \<and> rb_list (rob_at i C) = Some l}"
    using ok by (simp_all add: lists_ok_def)
  obtain l where l: "rb_list (rob_at i C) = Some l" "rob_list_ok l" using ok i unfolding lists_ok_def by blast
  have roots: "RobList l \<in> rob_roots" "RobList l' \<in> rob_roots" using l(2) l' by (auto simp: rob_roots_def)
  have "Rob i \<in> set (rob_contents L (RobList l))" using mem [OF l(2)] i l(1) by (simp add: rob_contents_def)
  then obtain k where k: "sl_remove (RobList l) (Rob i) (oc_rob_lists C) = Some k"
      "state_lists rob_roots ((rob_contents L)(RobList l := remove1 (Rob i) (rob_contents L (RobList l)))) k"
      "on_no_list rob_roots ((rob_contents L)(RobList l := remove1 (Rob i) (rob_contents L (RobList l)))) (Rob i)"
    by (rule remove_lists [OF sl roots(1)])
  define L1 where "L1 = L(l := remove1 i (L l))"
  have n1: "(rob_contents L)(RobList l := remove1 (Rob i) (rob_contents L (RobList l))) = rob_contents L1"
    unfolding L1_def rob_contents_move by (simp add: rob_contents_def map_Rob_remove1)
  note k1 = k(2,3) [unfolded n1]
  have "distinct (L l)" using state_listsD(3) [OF sl roots(1)] by (simp add: rob_contents_def distinct_map)
  then have L1: "set (L1 m) = set (L m) - {i}" if "rob_list_ok m" for m
    using mem [OF that] l(1) by (auto simp: L1_def)
  let ?enq = "case place of None \<Rightarrow> sl_enqueue (RobList l') (Rob i) k
      | Some prevrob \<Rightarrow> sl_enqueue_after (RobList l') (Rob i) (map_option Rob prevrob) k"
  have "\<exists>k' xs. ?enq = Some k' \<and> state_lists rob_roots (rob_contents (L1(l' := xs))) k' \<and> set xs = insert i (set (L1 l'))"
  proof (cases place)
    case None
    obtain k' where "sl_enqueue (RobList l') (Rob i) k = Some k'"
        "state_lists rob_roots ((rob_contents L1)(RobList l' := rob_contents L1 (RobList l') @ [Rob i])) k'"
      by (rule enqueue_lists [OF k1(1) roots(2) k1(2)])
    then show ?thesis using None
      by (intro exI [of _ k'] exI [of _ "L1 l' @ [i]"]) (simp add: rob_contents_move, simp add: rob_contents_def)
  next
    case (Some prevrob)
    show ?thesis
    proof (cases prevrob)
      case None
      obtain k' where "sl_enqueue_after (RobList l') (Rob i) None k = Some k'"
          "state_lists rob_roots ((rob_contents L1)(RobList l' := Rob i # rob_contents L1 (RobList l'))) k'"
        by (rule enqueue_first_lists [OF k1(1) roots(2) k1(2)])
      then show ?thesis using Some None
        by (intro exI [of _ k'] exI [of _ "i # L1 l'"]) (simp add: rob_contents_move, simp add: rob_contents_def)
    next
      case j: (Some j)
      then have "j \<in> set (L1 l')" using place Some L1 [OF l'] by simp
      then obtain xs ys where xy: "L1 l' = xs @ j # ys" by (meson split_list)
      then have "rob_contents L1 (RobList l') = map Rob xs @ Rob j # map Rob ys" by (simp add: rob_contents_def)
      then obtain k' where "sl_enqueue_after (RobList l') (Rob i) (Some (Rob j)) k = Some k'"
          "state_lists rob_roots ((rob_contents L1)(RobList l' := map Rob xs @ Rob j # Rob i # map Rob ys)) k'"
        by (rule enqueue_after_lists [OF k1(1) roots(2) k1(2)])
      then show ?thesis using Some j xy
        by (intro exI [of _ k'] exI [of _ "xs @ j # i # ys"]) (simp add: rob_contents_move, auto)
    qed
  qed
  then obtain k' xs where k': "?enq = Some k'" "state_lists rob_roots (rob_contents (L1(l' := xs))) k'"
      "set xs = insert i (set (L1 l'))" by blast
  let ?C = "upd_rob i (\<lambda>r. r\<lparr>rb_list := Some l'\<rparr>) (C\<lparr>oc_rob_lists := k'\<rparr>)"
  have c: "rob_changestate i l' place C = Some ?C"
    using k(1) k'(1) l(1) by (simp add: rob_changestate_def)
  have at: "rb_list (rob_at j ?C) = (if j = i then Some l' else rb_list (rob_at j C))" for j
    using len i by (simp add: rob_at_def upd_rob_def nth_list_update)
  have "lists_ok (L1(l' := xs)) ?C"
    unfolding lists_ok_def
  proof (intro conjI allI impI)
    show "state_lists rob_roots (rob_contents (L1(l' := xs))) (oc_rob_lists ?C)" using k'(2) by simp
    show "length (slots (oc_ROB ?C)) = ROB_SIZE" using len by simp
  next
    fix j assume j: "j < ROB_SIZE"
    show "\<exists>l. rb_list (rob_at j ?C) = Some l \<and> rob_list_ok l"
      using ok j l' unfolding at lists_ok_def by auto
  next
    fix m assume m: "rob_list_ok m"
    show "set ((L1(l' := xs)) m) = {j. j < ROB_SIZE \<and> rb_list (rob_at j ?C) = Some m}"
      unfolding at using k'(3) L1 [OF m] mem [OF m] i by auto
  qed
  moreover have "(L1(l' := xs)) m = (if rb_list (rob_at i C) = Some m then remove1 i (L m) else L m)" if "m \<noteq> l'" for m
    using that l(1) by (auto simp: L1_def)
  ultimately show ?thesis using that c by blast
qed

end
