(* ===== verification/Rename_Core.thy ===== *)
theory Rename_Core
  imports Core_Inv
begin

text \<open>
  The rename stage keeps the invariant of the core and never fails an assertion; what it does to
  the entries and the tables is described exactly.
\<close>

definition valid_ok :: "Core \<Rightarrow> bool" where
  "valid_ok C \<longleftrightarrow> (\<forall>i < ROB_SIZE. (rb_entry_valid (rob_at i C) \<longleftrightarrow> rb_list (rob_at i C) \<noteq> Some rob_free)
     \<and> (rb_entry_valid (rob_at i C) \<longleftrightarrow> i \<in> rb_idx ` set (entries C)))"

definition core_inv :: "Core \<Rightarrow> bool" where
  "core_inv C \<longleftrightarrow> fq_inv (oc_ROB C) \<and> length (slots (oc_ROB C)) = ROB_SIZE
     \<and> (\<forall>i < ROB_SIZE. rb_idx (rob_at i C) = i)
     \<and> ren_ok (length (entries C)) (oc_files C) (oc_specrrt C) (oc_commitrrt C) (entries C)
     \<and> (\<exists>L. lists_ok L C) \<and> valid_ok C
     \<and> 0 \<le> oc_round_robin_reg_file_offset C \<and> oc_round_robin_reg_file_offset C < int PHYS_REG_FILE_COUNT"

definition fetch_inv :: "Core \<Rightarrow> bool" where
  "fetch_inv C \<longleftrightarrow> fq_inv (oc_fetchq C) \<and> (\<forall>uop \<in> set (contents (oc_fetchq C)). uop_ok uop)"

lemma core_invD:
  assumes "core_inv C"
  shows "fq_inv (oc_ROB C)" "length (slots (oc_ROB C)) = ROB_SIZE" "i < ROB_SIZE \<Longrightarrow> rb_idx (rob_at i C) = i"
    "ren_ok (length (entries C)) (oc_files C) (oc_specrrt C) (oc_commitrrt C) (entries C)"
    "\<exists>L. lists_ok L C" "valid_ok C"
  using assms by (simp_all add: core_inv_def)

lemma valid_okD:
  assumes "valid_ok C" "i < ROB_SIZE"
  shows "rb_entry_valid (rob_at i C) \<longleftrightarrow> rb_list (rob_at i C) \<noteq> Some rob_free"
    "rb_entry_valid (rob_at i C) \<longleftrightarrow> i \<in> rb_idx ` set (entries C)"
  using assms unfolding valid_ok_def by blast+

text \<open>The entries are the slots from head to tail, each under its own index.\<close>

lemma entries_at:
  assumes "fq_inv (oc_ROB C)" "length (slots (oc_ROB C)) = ROB_SIZE" "\<And>i. i < ROB_SIZE \<Longrightarrow> rb_idx (rob_at i C) = i"
  shows "entries C = map (\<lambda>k. rob_at (fq_ix (oc_ROB C) k) C) [0..<length (entries C)]"
    "map rb_idx (entries C) = map (fq_ix (oc_ROB C)) [0..<length (entries C)]" "distinct (map rb_idx (entries C))"
    "e \<in> set (entries C) \<Longrightarrow> rb_idx e < ROB_SIZE \<and> rob_at (rb_idx e) C = e"
proof -
  note f = foreach_contents [OF assms(1)]
  have ix: "fq_ix (oc_ROB C) k < ROB_SIZE" for k using fq_ix_less [OF assms(1)] assms(2) by simp
  show a: "entries C = map (\<lambda>k. rob_at (fq_ix (oc_ROB C) k) C) [0..<length (entries C)]"
    using f by (simp add: entries_def rob_at_def)
  have "map rb_idx (map (\<lambda>k. rob_at (fq_ix (oc_ROB C) k) C) [0..<length (entries C)]) = map (fq_ix (oc_ROB C)) [0..<length (entries C)]"
    using assms(3) [OF ix] by simp
  then show b: "map rb_idx (entries C) = map (fq_ix (oc_ROB C)) [0..<length (entries C)]" using a by simp
  show "distinct (map rb_idx (entries C))" unfolding b using f by (simp add: entries_def)
  assume "e \<in> set (entries C)"
  then obtain k where "e = rob_at (fq_ix (oc_ROB C) k) C" by (subst (asm) a) auto
  then show "rb_idx e < ROB_SIZE \<and> rob_at (rb_idx e) C = e" using assms(3) [OF ix] ix by simp
qed

lemma lists_ok_cong:
  assumes "oc_rob_lists C' = oc_rob_lists C" "length (slots (oc_ROB C')) = length (slots (oc_ROB C))"
    and "\<And>i. i < ROB_SIZE \<Longrightarrow> rb_list (rob_at i C') = rb_list (rob_at i C)"
  shows "lists_ok L C' \<longleftrightarrow> lists_ok L C"
proof -
  have "{i. i < ROB_SIZE \<and> rb_list (rob_at i C') = Some l} = {i. i < ROB_SIZE \<and> rb_list (rob_at i C) = Some l}" for l
    using assms(3) by auto
  then show ?thesis using assms by (simp add: lists_ok_def)
qed

subsection \<open>The pieces of a renaming\<close>

lemma swap_refs_append:
  "swap_refs (rs @ rs') p t F = do { (F', t') \<leftarrow> swap_refs rs p t F; swap_refs rs' p t' F' }"
  by (induction rs arbitrary: t F) (auto split: bind_splits)

definition spec_swaps :: "nat list \<Rightarrow> preg \<Rightarrow> Core \<Rightarrow> Core option" where
  "spec_swaps rs p C = map_option (\<lambda>(F, t). C\<lparr>oc_files := F, oc_specrrt := t\<rparr>) (swap_refs rs p (oc_specrrt C) (oc_files C))"

lemma spec_swaps_append: "spec_swaps (rs @ rs') p = (\<lambda>C. Option.bind (spec_swaps rs p C) (spec_swaps rs' p))"
proof
  fix C
  show "spec_swaps (rs @ rs') p C = Option.bind (spec_swaps rs p C) (spec_swaps rs' p)"
    by (cases "swap_refs rs p (oc_specrrt C) (oc_files C)")
      (auto simp: spec_swaps_def swap_refs_append split_beta map_option_case split: option.splits)
qed

lemma spec_rename_if_eq: "spec_rename_if b r p = spec_swaps (if b then [r] else []) p"
  by (rule ext) (auto simp: spec_rename_if_def spec_rename_def spec_swaps_def split: bind_splits)

lemma spec_dests_eq: "spec_rename_dests uop p C = spec_swaps (dests uop) p C"
proof -
  have nil: "spec_swaps [] p C = Some C" for C by (simp add: spec_swaps_def)
  show ?thesis
    by (cases "op_nouserflags uop")
      (simp_all only: spec_rename_dests_def spec_rename_if_eq dests_def flag_dests_def spec_swaps_append if_True if_False
        append_Nil2 Option.bind_assoc not_True_eq_False nil bind_rzero Option.bind_runit bind.bind_lunit append.assoc)
qed

text \<open>An entry up to its counter of consumers.\<close>

definition wipe :: "ReorderBufferEntry \<Rightarrow> ReorderBufferEntry" where
  "wipe r = r\<lparr>rb_consumer_count := 0\<rparr>"

lemma wipe_fields:
  "wipe r' = wipe r \<Longrightarrow> rob_view r' = rob_view r \<and> rb_list r' = rb_list r \<and> rb_entry_valid r' = rb_entry_valid r
     \<and> rb_operands r' = rb_operands r \<and> rb_idx r' = rb_idx r \<and> rb_physreg r' = rb_physreg r \<and> rb_uop r' = rb_uop r
     \<and> rb_lsq r' = rb_lsq r"
  by (cases r; cases r') (simp add: wipe_def rob_view_def)

definition rob_like :: "Core \<Rightarrow> Core \<Rightarrow> bool" where
  "rob_like C C' \<longleftrightarrow> head (oc_ROB C') = head (oc_ROB C) \<and> tail (oc_ROB C') = tail (oc_ROB C)
     \<and> FixedQueue.count (oc_ROB C') = FixedQueue.count (oc_ROB C) \<and> length (slots (oc_ROB C')) = length (slots (oc_ROB C))
     \<and> (\<forall>i. wipe (rob_at i C') = wipe (rob_at i C))"

lemma count_consumer_ok:
  assumes "in_flight (pr_state (preg_of (oc_files C) p)) \<Longrightarrow> pr_rob (preg_of (oc_files C) p) \<noteq> None"
  obtains C' q where "count_consumer p C = Some C'" "rob_like C C'" "C' = C\<lparr>oc_ROB := q\<rparr>"
proof (cases "in_flight (pr_state (preg_of (oc_files C) p))")
  case True
  then obtain j where j: "pr_rob (preg_of (oc_files C) p) = Some j" using assms by auto
  let ?f = "\<lambda>r. r\<lparr>rb_consumer_count := of_int (min (uint (rb_consumer_count r) + 1) 255)\<rparr> :: ReorderBufferEntry"
  have "wipe (rob_at i (upd_rob j ?f C)) = wipe (rob_at i C)" for i
    by (cases "j < length (slots (oc_ROB C))") (auto simp: rob_at_upd wipe_def rob_at_def upd_rob_def list_update_beyond)
  then have "rob_like C (upd_rob j ?f C)" by (simp add: rob_like_def)
  then show ?thesis using that [of "upd_rob j ?f C"] True j by (simp add: count_consumer_def upd_rob_eq)
next
  case False
  then show ?thesis using that [of C "oc_ROB C"] by (simp add: count_consumer_def rob_like_def)
qed

lemma rename_operands_ok:
  assumes "refs_inv R (oc_files C)" "size R + length ps < 2 ^ 15"
    and "\<forall>p \<in> set ps. in_file (oc_files C) p \<and> pr_state (preg_of (oc_files C) p) \<noteq> PHYSREG_FREE"
    and "\<forall>p \<in> set ps. in_flight (pr_state (preg_of (oc_files C) p)) \<longrightarrow> pr_rob (preg_of (oc_files C) p) \<noteq> None"
  shows "\<exists>C'. rename_operands ps C = Some C' \<and> oc_files C' = fold addref ps (oc_files C) \<and> rob_like C C'
    \<and> (\<exists>q. C' = C\<lparr>oc_files := fold addref ps (oc_files C), oc_ROB := q\<rparr>)"
  using assms
proof (induction ps arbitrary: C R)
  case Nil
  have "\<exists>q. C = C\<lparr>oc_files := oc_files C, oc_ROB := q\<rparr>" by (rule exI [of _ "oc_ROB C"]) simp
  then show ?case by (simp add: rob_like_def)
next
  case (Cons p ps)
  let ?C1 = "C\<lparr>oc_files := addref p (oc_files C)\<rparr>"
  have p: "in_file (oc_files C) p" "pr_state (preg_of (oc_files C) p) \<noteq> PHYSREG_FREE" "Suc (size R) < 2 ^ 15"
    using Cons.prems(2,3) by auto
  note a = addref_refs [OF Cons.prems(1) p]
  note s = same_regsD [OF a(2)]
  obtain C2 q where c2: "count_consumer p ?C1 = Some C2" "rob_like ?C1 C2" "C2 = ?C1\<lparr>oc_ROB := q\<rparr>"
    by (rule count_consumer_ok [of ?C1 p]) (use Cons.prems(4) s in auto)
  have f2: "oc_files C2 = addref p (oc_files C)" by (simp add: c2(3))
  have "refs_inv (add_mset p R) (oc_files C2)" using a(1) f2 by simp
  then have "\<exists>C'. rename_operands ps C2 = Some C' \<and> oc_files C' = fold addref ps (oc_files C2) \<and> rob_like C2 C'
      \<and> (\<exists>q. C' = C2\<lparr>oc_files := fold addref ps (oc_files C2), oc_ROB := q\<rparr>)"
    by (rule Cons.IH) (use Cons.prems(2-4) f2 s in auto)
  then obtain C' q' where c': "rename_operands ps C2 = Some C'" "oc_files C' = fold addref ps (oc_files C2)" "rob_like C2 C'"
      "C' = C2\<lparr>oc_files := fold addref ps (oc_files C2), oc_ROB := q'\<rparr>" by blast
  have "rename_operands (p # ps) C = Some C'" using c2(1) c'(1) p(2) s(2) [of p] by simp
  moreover have "rob_like C C'" using c2(2) c'(3) by (simp add: rob_like_def rob_at_def)
  moreover have "C' = C\<lparr>oc_files := fold addref (p # ps) (oc_files C), oc_ROB := q'\<rparr>"
    using c'(4) f2 unfolding c2(3) by simp
  ultimately show ?case using c'(2) f2 by auto
qed

definition keeps_tables :: "Core \<Rightarrow> Core \<Rightarrow> bool" where
  "keeps_tables C C' \<longleftrightarrow> oc_files C' = oc_files C \<and> oc_specrrt C' = oc_specrrt C \<and> oc_commitrrt C' = oc_commitrrt C
     \<and> oc_rob_lists C' = oc_rob_lists C \<and> oc_fetchq C' = oc_fetchq C
     \<and> oc_round_robin_reg_file_offset C' = oc_round_robin_reg_file_offset C"

lemma rename_lsq_ok:
  assumes "isload (op_opcode uop) \<or> isstore (op_opcode uop) \<Longrightarrow> fq_remaining (oc_LSQ C) \<noteq> 0"
  shows "\<exists>C' x. rename_lsq uop i C = Some C' \<and> keeps_tables C C'
    \<and> oc_ROB C' = (oc_ROB C)\<lparr>slots := (slots (oc_ROB C))[i := (rob_at i C)\<lparr>rb_lsq := x\<rparr>]\<rparr>"
proof (cases "isload (op_opcode uop) \<or> isstore (op_opcode uop)")
  case True
  then obtain l q where q: "queue_alloc (\<lambda>e. e\<lparr>lsq_entry_valid := True\<rparr>) (oc_LSQ C) = (Some l, q)"
    using assms by (auto simp: queue_alloc_def fq_alloc_def)
  have "\<exists>C'. rename_lsq uop i C = Some C'" using True q by (auto simp: rename_lsq_def Let_def)
  then obtain C' where C': "rename_lsq uop i C = Some C'" by blast
  then have "keeps_tables C C'"
    "oc_ROB C' = (oc_ROB C)\<lparr>slots := (slots (oc_ROB C))[i := (rob_at i C)\<lparr>rb_lsq := Some (nat l)\<rparr>]\<rparr>"
    using True q by (auto simp: rename_lsq_def Let_def keeps_tables_def upd_rob_def upd_lsq_def rob_at_def)
  then show ?thesis using C' by blast
next
  case False
  then show ?thesis
    by (intro exI [of _ "upd_rob i (\<lambda>r. r\<lparr>rb_lsq := None\<rparr>) C"] exI [of _ None])
      (simp add: rename_lsq_def keeps_tables_def upd_rob_def rob_at_def)
qed

subsection \<open>The destination\<close>

lemma alloc_changes:
  fixes d :: W64 and i a :: nat
  assumes "only_preg p (alloc_reg 0) F F1" "refs_inv R F1" "in_file F1 p"
  defines "g \<equiv> \<lambda>r. r\<lparr>pr_flags := FLAG_WAIT, pr_data := d, pr_rob := Some i, pr_archreg := a\<rparr>"
  shows "refs_inv R (upd_preg p g F1)" "same_except {p} F (upd_preg p g F1)"
    "pr_state (preg_of (upd_preg p g F1) p) = PHYSREG_WAITING" "pr_rob (preg_of (upd_preg p g F1) p) = Some i"
proof -
  have gk: "pr_state (g r) = pr_state r \<and> pr_rfid (g r) = pr_rfid r \<and> pr_idx (g r) = pr_idx r \<and> pr_refcount (g r) = pr_refcount r
      \<and> pr_threadid (g r) = pr_threadid r" for r
    by (simp add: g_def)
  note u = upd_refs [OF assms(2,3) gk]
  show "refs_inv R (upd_preg p g F1)" by (rule u(1))
  show "same_except {p} F (upd_preg p g F1)"
    by (rule same_except_trans [OF same_except_only [OF assms(1)] same_except_only [OF u(2)]]) simp_all
  show "pr_state (preg_of (upd_preg p g F1) p) = PHYSREG_WAITING" "pr_rob (preg_of (upd_preg p g F1) p) = Some i"
    using only_pregD(1) [OF u(2)] only_pregD(1) [OF assms(1)] by (simp_all add: g_def alloc_reg_def)
qed

lemma rename_dest_ok:
  assumes inv: "refs_inv (R + mset (oc_specrrt D)) (oc_files D)"
    and rf: "rf < PHYS_REG_FILE_COUNT" "pf_remaining rf (oc_files D)" "bit (phys_reg_files_writable_by_uop uop) rf"
    and rs: "\<forall>r \<in> set (dests uop). r < length (oc_specrrt D)" and i: "i < length (slots (oc_ROB D))"
    and ops: "\<forall>q \<in> set (rb_operands (rob_at i D)). pr_state (preg_of (oc_files D) q) \<noteq> PHYSREG_FREE"
  obtains p F m where
    "rename_dest uop i rf D = Some ((upd_rob i (\<lambda>r. r\<lparr>rb_executable_on_cluster_mask := m, rb_physreg := Some p\<rparr>) D)
       \<lparr>oc_files := F, oc_specrrt := map_regs (dests uop) p (oc_specrrt D)\<rparr>)"
    "in_file (oc_files D) p" "pr_state (preg_of (oc_files D) p) = PHYSREG_FREE" "same_except {p} (oc_files D) F"
    "pr_state (preg_of F p) = PHYSREG_WAITING" "pr_rob (preg_of F p) = Some i" "fst p = rf"
    "refs_inv (R + mset (map_regs (dests uop) p (oc_specrrt D))) F"
proof -
  let ?F = "oc_files D" and ?t = "oc_specrrt D"
  let ?g = "\<lambda>r. r\<lparr>pr_flags := FLAG_WAIT, pr_data := 0xdeadbeefdeadbeef, pr_rob := Some i, pr_archreg := op_rd uop\<rparr>"
  obtain p F1 where a: "pf_alloc rf 0 (-1) ?F = Some (Some p, F1)" "fst p = rf" "in_file ?F p"
      "pr_state (preg_of ?F p) = PHYSREG_FREE" "p \<notin># R + mset ?t" "refs_inv (R + mset ?t) F1" "only_preg p (alloc_reg 0) ?F F1"
    by (rule alloc_refs [OF inv rf(1,2)])
  have p1: "in_file F1 p" using only_pregD(3) [OF a(7)] a(3) by simp
  note g = alloc_changes [where d = "0xdeadbeefdeadbeef" and i = i and a = "op_rd uop", OF a(7,6) p1]
  have p2: "in_file (upd_preg p ?g F1) p" "pr_state (preg_of (upd_preg p ?g F1) p) \<noteq> PHYSREG_FREE"
    using same_exceptD(1) [OF g(2)] a(3) g(3) by simp_all
  obtain F where f: "swap_refs (dests uop) p ?t (upd_preg p ?g F1) = Some (F, map_regs (dests uop) p ?t)"
      "refs_inv (R + mset (map_regs (dests uop) p ?t)) F" "same_regs (upd_preg p ?g F1) F"
    using swap_refs_ok [OF g(1) rs p2] by blast
  let ?m = "ucast (uop_executable_on_cluster ! op_opcode uop) :: W16"
  let ?D' = "(upd_rob i (\<lambda>r. r\<lparr>rb_executable_on_cluster_mask := ?m, rb_physreg := Some p\<rparr>) D)
       \<lparr>oc_files := F, oc_specrrt := map_regs (dests uop) p ?t\<rparr>"
  have except: "same_except {p} ?F F" by (rule same_except_trans [OF g(2) same_except_same [OF f(3)]])
  have at: "rob_at i ?D' = (rob_at i D)\<lparr>rb_executable_on_cluster_mask := ?m, rb_physreg := Some p\<rparr>"
    using i by (simp add: rob_at_def upd_rob_def)
  have "q \<noteq> p" if "q \<in> set (rb_operands (rob_at i D))" for q using ops that a(4) by auto
  then have alive: "list_all (\<lambda>p. allocated p F) (rb_operands (rob_at i D))"
    using ops same_exceptD(2) [OF except] by (simp add: list_all_iff allocated_def)
  have eq: "(upd_rob i (\<lambda>r. r\<lparr>rb_physreg := Some p\<rparr>)
       ((upd_rob i (\<lambda>r. r\<lparr>rb_executable_on_cluster_mask := ?m\<rparr>) D)\<lparr>oc_files := upd_preg p ?g F1\<rparr>))
       \<lparr>oc_files := F, oc_specrrt := map_regs (dests uop) p ?t\<rparr> = ?D'"
    using i by (simp add: upd_rob_def)
  have "rename_dest uop i rf D = Some ?D'"
    using a(1) f(1) rf(3) alive at by (simp add: rename_dest_def spec_dests_eq spec_swaps_def eq)
  moreover have "pr_state (preg_of F p) = PHYSREG_WAITING" "pr_rob (preg_of F p) = Some i"
    using g(3,4) same_regsD [OF f(3)] by simp_all
  ultimately show ?thesis using that a(2-4) except f(2) by blast
qed

end
