(* ===== verification/Rename_Stage.thy ===== *)
theory Rename_Stage
  imports Rename_Core
begin

text \<open>
  The rename stage as a whole: it never fails an assertion, keeps the invariant of the core, and
  each renamed micro-operation becomes the youngest entry of the reorder buffer.
\<close>

subsection \<open>An entry under construction\<close>

definition opened :: "nat \<Rightarrow> FetchBufferEntry \<Rightarrow> Core \<Rightarrow> Core \<Rightarrow> bool" where
  "opened i uop C D \<longleftrightarrow> head (oc_ROB D) = head (oc_ROB C)
     \<and> tail (oc_ROB D) = add_index_modulo (tail (oc_ROB C)) 1 (fq_size (oc_ROB C))
     \<and> FixedQueue.count (oc_ROB D) = FixedQueue.count (oc_ROB C) + 1
     \<and> length (slots (oc_ROB D)) = length (slots (oc_ROB C))
     \<and> (\<forall>j. j \<noteq> i \<longrightarrow> wipe (rob_at j D) = wipe (rob_at j C))
     \<and> rb_idx (rob_at i D) = rb_idx (rob_at i C) \<and> rb_uop (rob_at i D) = uop \<and> rb_entry_valid (rob_at i D)
     \<and> rb_list (rob_at i D) = rb_list (rob_at i C) \<and> oc_commitrrt D = oc_commitrrt C \<and> oc_rob_lists D = oc_rob_lists C
     \<and> oc_round_robin_reg_file_offset D = oc_round_robin_reg_file_offset C"

lemma openedD:
  assumes "opened i uop C D"
  shows "head (oc_ROB D) = head (oc_ROB C)" "tail (oc_ROB D) = add_index_modulo (tail (oc_ROB C)) 1 (fq_size (oc_ROB C))"
    "FixedQueue.count (oc_ROB D) = FixedQueue.count (oc_ROB C) + 1" "length (slots (oc_ROB D)) = length (slots (oc_ROB C))"
    "j \<noteq> i \<Longrightarrow> wipe (rob_at j D) = wipe (rob_at j C)" "rb_idx (rob_at i D) = rb_idx (rob_at i C)"
    "rb_uop (rob_at i D) = uop" "rb_entry_valid (rob_at i D)" "rb_list (rob_at i D) = rb_list (rob_at i C)"
    "oc_commitrrt D = oc_commitrrt C" "oc_rob_lists D = oc_rob_lists C"
    "oc_round_robin_reg_file_offset D = oc_round_robin_reg_file_offset C"
  using assms unfolding opened_def by blast+

lemma opened_cong:
  assumes "opened i uop C D" "oc_ROB D' = oc_ROB D" "oc_commitrrt D' = oc_commitrrt D" "oc_rob_lists D' = oc_rob_lists D"
    "oc_round_robin_reg_file_offset D' = oc_round_robin_reg_file_offset D"
  shows "opened i uop C D'"
  using assms by (simp add: opened_def rob_at_def)

lemma offset_upd [simp]: "oc_round_robin_reg_file_offset (upd_rob i f C) = oc_round_robin_reg_file_offset C"
  by (simp add: upd_rob_def)

lemma opened_upd:
  assumes "opened i uop C D" "i < length (slots (oc_ROB C))"
    and "\<And>r. rb_idx (f r) = rb_idx r \<and> rb_uop (f r) = rb_uop r \<and> rb_entry_valid (f r) = rb_entry_valid r \<and> rb_list (f r) = rb_list r"
  shows "opened i uop C (upd_rob i f D)"
  using assms by (simp add: opened_def rob_at_upd)

lemma opened_like:
  assumes "opened i uop C D" "rob_like D D'" "oc_commitrrt D' = oc_commitrrt D" "oc_rob_lists D' = oc_rob_lists D"
    "oc_round_robin_reg_file_offset D' = oc_round_robin_reg_file_offset D"
  shows "opened i uop C D'"
  using assms wipe_fields [of "rob_at i D'" "rob_at i D"] by (simp add: opened_def rob_like_def)

lemma rename_reg_file_ok:
  assumes "rename_reg_file uop C = Some rf" "0 \<le> oc_round_robin_reg_file_offset C"
    "oc_round_robin_reg_file_offset C < int PHYS_REG_FILE_COUNT"
  shows "rf < PHYS_REG_FILE_COUNT" "pf_remaining rf (oc_files C)" "bit (phys_reg_files_writable_by_uop uop) rf"
proof -
  let ?xs = "map (\<lambda>i. nat (add_index_modulo (oc_round_robin_reg_file_offset C) (int i) (int PHYS_REG_FILE_COUNT)))
         [0..<PHYS_REG_FILE_COUNT]"
  obtain ys where "filter (\<lambda>f. bit (phys_reg_files_writable_by_uop uop) f \<and> pf_remaining f (oc_files C)) ?xs = rf # ys"
    using assms(1) unfolding rename_reg_file_def find_first_def by (auto split: list.splits)
  then have "rf \<in> set (filter (\<lambda>f. bit (phys_reg_files_writable_by_uop uop) f \<and> pf_remaining f (oc_files C)) ?xs)" by simp
  then show "rf < PHYS_REG_FILE_COUNT" "pf_remaining rf (oc_files C)" "bit (phys_reg_files_writable_by_uop uop) rf"
    using assms(2,3) by (auto simp: add_index_modulo_def Let_def split: if_splits)
qed

lemma alive_operand:
  assumes ok: "ren_ok k F spec commit es" and p: "p \<in> set spec \<or> p = (0, PHYS_REG_NULL)"
  shows "in_file F p" "pr_state (preg_of F p) \<noteq> PHYSREG_FREE"
    "in_flight (pr_state (preg_of F p)) \<Longrightarrow> pr_rob (preg_of F p) \<noteq> None"
proof -
  note d = ren_okD [OF ok]
  have "in_file F (0, 0)" "pr_state (preg_of F (0, 0)) = PHYSREG_ARCH"
    using committed_okD(7,8) [OF d(2), of 0] by (simp_all add: PHYS_REG_FILE_COUNT_def)
  moreover have "p \<in># all_refs spec commit es" if "p \<in> set spec" using that by (simp add: all_refs_def)
  ultimately show *: "in_file F p" "pr_state (preg_of F p) \<noteq> PHYSREG_FREE"
    using p in_file_alive [OF _ d(1), of p] by (auto simp: PHYS_REG_NULL_def)
  assume "in_flight (pr_state (preg_of F p))"
  then have "Some p \<in> set (map rb_physreg es)" by (rule rob_okD(4) [OF d(3) *(1)])
  then obtain e where e: "e \<in> set es" "rb_physreg e = Some p" by auto
  show "pr_rob (preg_of F p) \<noteq> None" using rob_okD(1) [OF d(3) e(1)] e(2) by (auto simp: entry_ok_def)
qed

subsection \<open>One micro-operation\<close>

lemma opened_entries:
  assumes inv: "fq_inv (oc_ROB C)" "fq_remaining (oc_ROB C) \<noteq> 0" and i: "i = nat (tail (oc_ROB C))" and o: "opened i uop C D"
  shows "map rob_view (entries D) = map rob_view (entries C) @ [rob_view (rob_at i D)]" "fq_inv (oc_ROB D)"
    "i < length (slots (oc_ROB C))"
proof -
  have "rob_view (slots (oc_ROB D) ! j) = rob_view (slots (oc_ROB C) ! j)" if "j \<noteq> i" for j
    using wipe_fields [OF openedD(5) [OF o that]] by (simp add: rob_at_def)
  note v = view_push [where f = rob_view, OF inv openedD(1-4) [OF o] this]
  show "map rob_view (entries D) = map rob_view (entries C) @ [rob_view (rob_at i D)]"
    using v(1) i by (simp add: entries_def rob_at_def)
  show "fq_inv (oc_ROB D)" "i < length (slots (oc_ROB C))" using v(2,3) i by simp_all
qed

lemma rename_open:
  assumes C: "core_inv C" "fetch_inv C" and free: "rename_blocked C = None"
  obtains uop us h q R rf i where "fq_dequeue (oc_fetchq C) = (Some h, q)" "slots (oc_fetchq C) ! nat h = uop"
    "contents (oc_fetchq C) = uop # us" "contents q = us" "fq_inv q" "i = nat (tail (oc_ROB C))"
    "rename_reg_file uop C = Some rf" "queue_alloc (\<lambda>r. r\<lparr>rb_entry_valid := True\<rparr>) (oc_ROB C) = (Some (tail (oc_ROB C)), R)"
    "opened i uop C (upd_rob i (\<lambda>r. (rob_reset r)\<lparr>rb_uop := uop, rb_entry_valid := True, rb_cycles_left := FRONTEND_STAGES\<rparr>)
       (C\<lparr>oc_fetchq := q, oc_ROB := R\<rparr>))"
    "fq_remaining (oc_ROB C) \<noteq> 0" "uop_ok uop"
    "isload (op_opcode uop) \<or> isstore (op_opcode uop) \<longrightarrow> fq_remaining (oc_LSQ C) \<noteq> 0"
proof -
  have ne: "\<not> fq_empty (oc_fetchq C)" "fq_remaining (oc_ROB C) \<noteq> 0"
    using free by (auto simp: rename_blocked_def split: if_splits)
  have inv: "fq_inv (oc_fetchq C)" "fq_inv (oc_ROB C)" using C by (simp_all add: fetch_inv_def core_inv_def)
  obtain uop us where us: "contents (oc_fetchq C) = uop # us" using fq_emptyD [OF inv(1)] ne(1) by (cases "contents (oc_fetchq C)") auto
  obtain h q where q: "fq_dequeue (oc_fetchq C) = (Some h, q)" "slots q ! nat h = uop" "fq_inv q" "contents q = us"
    using fq_dequeueD [OF inv(1) us] by blast
  have h: "h = head (oc_fetchq C)" "slots (oc_fetchq C) ! nat h = uop" using q(1,2) ne(1) by (auto simp: fq_dequeue_def)
  obtain rf where rf: "rename_reg_file uop C = Some rf"
    using free ne h by (auto simp: rename_blocked_def Let_def split: if_splits)
  have lsq: "fq_remaining (oc_LSQ C) \<noteq> 0" if "isload (op_opcode uop) \<or> isstore (op_opcode uop)"
    using free ne h that by (auto simp: rename_blocked_def Let_def split: if_splits)
  define i where "i = nat (tail (oc_ROB C))"
  define R where "R = (oc_ROB C)\<lparr>tail := add_index_modulo (tail (oc_ROB C)) 1 (fq_size (oc_ROB C)),
     FixedQueue.count := FixedQueue.count (oc_ROB C) + 1, slots := (slots (oc_ROB C))[i := (rob_at i C)\<lparr>rb_entry_valid := True\<rparr>]\<rparr>"
  have i: "i < length (slots (oc_ROB C))" using fq_invD(4,5) [OF inv(2)] by (simp add: fq_size_def i_def)
  have R: "queue_alloc (\<lambda>r. r\<lparr>rb_entry_valid := True\<rparr>) (oc_ROB C) = (Some (tail (oc_ROB C)), R)"
    using ne(2) by (simp add: queue_alloc_def fq_alloc_def R_def i_def rob_at_def)
  have "opened i uop C (upd_rob i (\<lambda>r. (rob_reset r)\<lparr>rb_uop := uop, rb_entry_valid := True, rb_cycles_left := FRONTEND_STAGES\<rparr>)
       (C\<lparr>oc_fetchq := q, oc_ROB := R\<rparr>))"
    using i by (simp add: opened_def rob_at_def upd_rob_def R_def rob_reset_def)
  moreover have "uop_ok uop" using C(2) us by (simp add: fetch_inv_def)
  ultimately show ?thesis using that q(1,3,4) h(2) us i_def rf R ne(2) lsq by blast
qed

text \<open>The last step of the stage: the entry goes on the list of the front end.\<close>

lemma rename_close:
  assumes C: "core_inv C" and i: "i = nat (tail (oc_ROB C))" and room: "fq_remaining (oc_ROB C) \<noteq> 0" and o: "opened i uop C D"
    and e: "rb_physreg (rob_at i D) = Some p" "length (rb_operands (rob_at i D)) = 4" "uop_ok uop"
    and ops: "\<forall>q \<in> set (rb_operands (rob_at i D)). in_file (oc_files C) q \<and> pr_state (preg_of (oc_files C) q) \<noteq> PHYSREG_FREE"
    and p: "in_file (oc_files C) p" "pr_state (preg_of (oc_files C) p) = PHYSREG_FREE"
    and F: "same_except {p} (oc_files C) (oc_files D)" "in_flight (pr_state (preg_of (oc_files D) p))" "pr_rob (preg_of (oc_files D) p) = Some i"
      "refs_inv (all_refs (retire (rob_at i D) (oc_specrrt C)) (oc_commitrrt C) (entries C @ [rob_at i D])) (oc_files D)"
    and spec: "oc_specrrt D = retire (rob_at i D) (oc_specrrt C)"
  obtains k where "rob_changestate i rob_frontend None D = Some (upd_rob i (\<lambda>r. r\<lparr>rb_list := Some rob_frontend\<rparr>) (D\<lparr>oc_rob_lists := k\<rparr>))"
    "core_inv (upd_rob i (\<lambda>r. r\<lparr>rb_list := Some rob_frontend\<rparr>) (D\<lparr>oc_rob_lists := k\<rparr>))"
    "map rob_view (entries (upd_rob i (\<lambda>r. r\<lparr>rb_list := Some rob_frontend\<rparr>) (D\<lparr>oc_rob_lists := k\<rparr>)))
       = map rob_view (entries C) @ [rob_view (rob_at i D)]"
proof -
  note c = core_invD [OF C] and od = openedD [OF o]
  note v = opened_entries [OF c(1) room i o]
  have iS: "i < ROB_SIZE" using v(3) c(2) by simp
  obtain L where L: "lists_ok L C" using c(5) by blast
  have list: "rb_list (rob_at j D) = rb_list (rob_at j C)" for j
    using od(9) wipe_fields [OF od(5), of j] by (cases "j = i") auto
  have "lists_ok L D" using L lists_ok_cong [OF od(11,4) list] by simp
  then obtain L' k where k: "rob_changestate i rob_frontend None D = Some (upd_rob i (\<lambda>r. r\<lparr>rb_list := Some rob_frontend\<rparr>) (D\<lparr>oc_rob_lists := k\<rparr>))"
      "lists_ok L' (upd_rob i (\<lambda>r. r\<lparr>rb_list := Some rob_frontend\<rparr>) (D\<lparr>oc_rob_lists := k\<rparr>))"
    by (rule rob_changestate_ok [where place = None and l' = rob_frontend, OF _ iS]) (simp_all add: rob_list_ok_def)
  define E where "E = upd_rob i (\<lambda>r. r\<lparr>rb_list := Some rob_frontend\<rparr>) (D\<lparr>oc_rob_lists := k\<rparr>)"
  have at: "rob_at j E = (if j = i then (rob_at i D)\<lparr>rb_list := Some rob_frontend\<rparr> else rob_at j D)" for j
    using v(3) od(4) by (simp add: E_def rob_at_def upd_rob_def)
  have "rob_view (rob_at j E) = rob_view (rob_at j D)" for j by (simp add: at rob_view_def)
  note w = view_contents [of "oc_ROB E" "oc_ROB D" rob_view, OF _ _ _ _ this [unfolded rob_at_def] v(2)]
  have ent: "map rob_view (entries E) = map rob_view (entries C) @ [rob_view (rob_at i D)]" and q: "fq_inv (oc_ROB E)"
    using w v(1) by (simp_all add: E_def entries_def)
  have idx: "rb_idx (rob_at j D) = rb_idx (rob_at j C)" for j
    using od(6) wipe_fields [OF od(5), of j] by (cases "j = i") auto
  have len: "length (entries C) < ROB_SIZE"
    using fq_fullD [OF c(1)] room c(2) by (simp add: entries_def capacity_def)
  have "uop_ok (rb_uop (rob_at i D))" using e(3) od(7) by simp
  moreover have "rb_idx (rob_at i D) = i" using idx c(3) [OF iS] by simp
  ultimately have ren: "ren_ok (Suc (length (entries C))) (oc_files D) (oc_specrrt D) (oc_commitrrt D) (entries C @ [rob_at i D])"
    using rename_ok [OF c(4) len e(1,2) _ ops p F(1,2)] F(3,4) spec od(10) by simp
  have eq: "map rob_view (entries E) = map rob_view (entries C @ [rob_at i D])" using ent by simp
  have "length (entries E) = Suc (length (entries C))" using arg_cong [OF ent, of length] by simp
  then have ren': "ren_ok (length (entries E)) (oc_files E) (oc_specrrt E) (oc_commitrrt E) (entries E)"
    using ren ren_ok_view [OF eq] by (simp add: E_def)
  have "rb_idx (rob_at i D) = i" using idx c(3) [OF iS] by simp
  then have "map rb_idx (entries E) = map rb_idx (entries C) @ [i]" unfolding view_idx(1) ent by (simp add: rob_view_def)
  from arg_cong [OF this, of set] have "rb_idx ` set (entries E) = insert i (rb_idx ` set (entries C))" by simp
  then have "valid_ok E"
    using c(6) od(8) wipe_fields [OF od(5)] unfolding valid_ok_def by (auto simp: at)
  moreover have "\<forall>j < ROB_SIZE. rb_idx (rob_at j E) = j" using idx c(3) by (simp add: at)
  moreover have "length (slots (oc_ROB E)) = ROB_SIZE" using od(4) c(2) by (simp add: E_def)
  moreover have "\<exists>L. lists_ok L E" using k(2) E_def by blast
  moreover have "0 \<le> oc_round_robin_reg_file_offset E \<and> oc_round_robin_reg_file_offset E < int PHYS_REG_FILE_COUNT"
    using C od(12) by (simp add: E_def core_inv_def)
  ultimately have "core_inv E" using q ren' unfolding core_inv_def by blast
  then show ?thesis using that k(1) ent unfolding E_def by blast
qed

text \<open>The operands and the load/store queue entry.\<close>

lemma rename_sources:
  assumes C: "core_inv C" and o: "opened i uop C D" and i: "i < length (slots (oc_ROB C))" and u: "uop_ok uop"
    and D: "oc_files D = oc_files C" "oc_specrrt D = oc_specrrt C"
    and lsq: "isload (op_opcode uop) \<or> isstore (op_opcode uop) \<Longrightarrow> fq_remaining (oc_LSQ D) \<noteq> 0"
  defines "ops \<equiv> source_operands uop C"
  obtains D' D'' where "rename_lsq uop i D = Some D'"
    "rename_operands (rb_operands (rob_at i (upd_rob i (\<lambda>r. r\<lparr>rb_operands := source_operands uop D'\<rparr>) D')))
       (upd_rob i (\<lambda>r. r\<lparr>rb_operands := source_operands uop D'\<rparr>) D') = Some D''"
    "opened i uop C D''" "rb_operands (rob_at i D'') = ops" "oc_specrrt D'' = oc_specrrt C" "oc_fetchq D'' = oc_fetchq D"
    "refs_inv (mset ops + all_refs (oc_specrrt C) (oc_commitrrt C) (entries C)) (oc_files D'')" "same_regs (oc_files C) (oc_files D'')"
    "\<forall>q \<in> set ops. in_file (oc_files C) q \<and> pr_state (preg_of (oc_files C) q) \<noteq> PHYSREG_FREE"
proof -
  note ok = core_invD(4) [OF C]
  let ?R = "all_refs (oc_specrrt C) (oc_commitrrt C) (entries C)"
  obtain D' x where D': "rename_lsq uop i D = Some D'" "keeps_tables D D'"
      "oc_ROB D' = (oc_ROB D)\<lparr>slots := (slots (oc_ROB D))[i := (rob_at i D)\<lparr>rb_lsq := x\<rparr>]\<rparr>"
    using rename_lsq_ok [of uop D i] lsq by blast
  have k: "oc_files D' = oc_files C" "oc_specrrt D' = oc_specrrt C" "oc_commitrrt D' = oc_commitrrt D" "oc_rob_lists D' = oc_rob_lists D"
      "oc_fetchq D' = oc_fetchq D" "oc_round_robin_reg_file_offset D' = oc_round_robin_reg_file_offset D"
    using D'(2) D by (simp_all add: keeps_tables_def)
  have "opened i uop C (upd_rob i (\<lambda>r. r\<lparr>rb_lsq := x\<rparr>) D)" by (rule opened_upd [OF o i]) simp
  then have o1: "opened i uop C D'" by (rule opened_cong) (simp_all add: k D'(3) upd_rob_def rob_at_def)
  define D1 where "D1 = upd_rob i (\<lambda>r. r\<lparr>rb_operands := source_operands uop D'\<rparr>) D'"
  have o2: "opened i uop C D1" unfolding D1_def by (rule opened_upd [OF o1 i]) simp
  have iD': "i < length (slots (oc_ROB D'))" using openedD(4) [OF o1] i by simp
  have ops: "rb_operands (rob_at i D1) = ops"
    unfolding D1_def rob_at_upd [OF iD'] ops_def by (simp add: source_operands_def k(2))
  have f1: "oc_files D1 = oc_files C" by (simp add: D1_def k(1))
  have mem: "q \<in> set (oc_specrrt C) \<or> q = (0, PHYS_REG_NULL)" if "q \<in> set ops" for q
    using that u ren_okD(7) [OF ok] by (auto simp: ops_def source_operands_def uop_ok_def)
  have alive: "\<forall>q \<in> set ops. in_file (oc_files C) q \<and> pr_state (preg_of (oc_files C) q) \<noteq> PHYSREG_FREE"
    using alive_operand(1,2) [OF ok mem] by blast
  have size: "size ?R + length ops < 2 ^ 15"
    using size_all_refs [OF ok] by (simp add: ops_def source_operands_def ROB_SIZE_def TRANSREG_COUNT_def PHYS_REG_FILE_COUNT_def)
  have "\<exists>D''. rename_operands ops D1 = Some D'' \<and> oc_files D'' = fold addref ops (oc_files D1) \<and> rob_like D1 D''
      \<and> (\<exists>q. D'' = D1\<lparr>oc_files := fold addref ops (oc_files D1), oc_ROB := q\<rparr>)"
    by (rule rename_operands_ok [OF _ size]) (use ren_okD(1) [OF ok] f1 alive alive_operand(3) [OF ok mem] in auto)
  then obtain D'' q where D'': "rename_operands ops D1 = Some D''" "oc_files D'' = fold addref ops (oc_files C)" "rob_like D1 D''"
      "D'' = D1\<lparr>oc_files := fold addref ops (oc_files D1), oc_ROB := q\<rparr>" using f1 by auto
  have o3: "opened i uop C D''" by (rule opened_like [OF o2 D''(3)]) (simp_all add: D''(4))
  have "wipe (rob_at i D'') = wipe (rob_at i D1)" using D''(3) by (simp add: rob_like_def)
  then have "rb_operands (rob_at i D'') = ops" using wipe_fields [of "rob_at i D''" "rob_at i D1"] ops by simp
  moreover note a = addrefs_refs [OF ren_okD(1) [OF ok] alive size]
  moreover have "oc_specrrt D'' = oc_specrrt C" "oc_fetchq D'' = oc_fetchq D" by (simp_all add: D''(4) D1_def k)
  ultimately show ?thesis
    by (intro that [of D' D''] D'(1) o3 alive) (use D''(1,2) ops D1_def in simp_all)
qed

text \<open>A slot of the buffer takes a new entry or keeps the one it has.\<close>

definition renamed_slots :: "Core \<Rightarrow> Core \<Rightarrow> bool" where
  "renamed_slots C C' \<longleftrightarrow> (\<forall>j < ROB_SIZE. rb_list (rob_at j C') = Some rob_frontend \<or> wipe (rob_at j C') = wipe (rob_at j C))"

lemma renamed_slots_trans: "renamed_slots C D \<Longrightarrow> renamed_slots D E \<Longrightarrow> renamed_slots C E"
  unfolding renamed_slots_def by (metis wipe_fields)

lemma rename_uop_ok:
  assumes C: "core_inv C" "fetch_inv C" and free: "rename_blocked C = None"
  obtains C' e p where "rename_uop C = Some C'" "core_inv C'" "fetch_inv C'"
    "map rob_view (entries C') = map rob_view (entries C) @ [rob_view e]"
    "contents (oc_fetchq C) = rb_uop e # contents (oc_fetchq C')"
    "oc_specrrt C' = retire e (oc_specrrt C)" "oc_commitrrt C' = oc_commitrrt C"
    "rb_operands e = source_operands (rb_uop e) C" "rb_physreg e = Some p" "pr_state (preg_of (oc_files C) p) = PHYSREG_FREE"
    "pr_state (preg_of (oc_files C') p) = PHYSREG_WAITING" "renamed_slots C C'"
proof -
  obtain uop us h q R rf i where a: "fq_dequeue (oc_fetchq C) = (Some h, q)" "slots (oc_fetchq C) ! nat h = uop"
    "contents (oc_fetchq C) = uop # us" "contents q = us" "fq_inv q" "i = nat (tail (oc_ROB C))"
    "rename_reg_file uop C = Some rf" "queue_alloc (\<lambda>r. r\<lparr>rb_entry_valid := True\<rparr>) (oc_ROB C) = (Some (tail (oc_ROB C)), R)"
    and o: "opened i uop C (upd_rob i (\<lambda>r. (rob_reset r)\<lparr>rb_uop := uop, rb_entry_valid := True, rb_cycles_left := FRONTEND_STAGES\<rparr>)
       (C\<lparr>oc_fetchq := q, oc_ROB := R\<rparr>))"
    and room: "fq_remaining (oc_ROB C) \<noteq> 0" and u: "uop_ok uop"
    and lsq: "isload (op_opcode uop) \<or> isstore (op_opcode uop) \<longrightarrow> fq_remaining (oc_LSQ C) \<noteq> 0"
    by (rule rename_open [OF C free], rule that, assumption+)
  note c = core_invD [OF C(1)]
  define D where "D = upd_rob i (\<lambda>r. (rob_reset r)\<lparr>rb_uop := uop, rb_entry_valid := True, rb_cycles_left := FRONTEND_STAGES\<rparr>)
       (C\<lparr>oc_fetchq := q, oc_ROB := R\<rparr>)"
  note o = o [folded D_def]
  have i: "i < length (slots (oc_ROB C))" by (rule opened_entries(3) [OF c(1) room a(6) o])
  have lsq': "fq_remaining (oc_LSQ D) \<noteq> 0" if "isload (op_opcode uop) \<or> isstore (op_opcode uop)"
    using lsq that by (simp add: D_def)
  let ?ops = "source_operands uop C" and ?F = "oc_files C" and ?spec = "oc_specrrt C" and ?com = "oc_commitrrt C"
  obtain D1 D2 where d: "rename_lsq uop i D = Some D1"
    "rename_operands (rb_operands (rob_at i (upd_rob i (\<lambda>r. r\<lparr>rb_operands := source_operands uop D1\<rparr>) D1)))
       (upd_rob i (\<lambda>r. r\<lparr>rb_operands := source_operands uop D1\<rparr>) D1) = Some D2"
    "opened i uop C D2" "rb_operands (rob_at i D2) = ?ops" "oc_specrrt D2 = ?spec" "oc_fetchq D2 = oc_fetchq D"
    "refs_inv (mset ?ops + all_refs ?spec ?com (entries C)) (oc_files D2)" "same_regs ?F (oc_files D2)"
    "\<forall>q \<in> set ?ops. in_file ?F q \<and> pr_state (preg_of ?F q) \<noteq> PHYSREG_FREE"
    by (rule rename_sources [OF C(1) o i u _ _ lsq']) (simp_all add: D_def)
  have inv: "refs_inv ((mset ?ops + rob_refs (entries C) + mset ?com + null_refs PHYS_REG_FILE_COUNT) + mset (oc_specrrt D2)) (oc_files D2)"
    using d(7) by (simp add: all_refs_def d(5) ac_simps)
  have off: "0 \<le> oc_round_robin_reg_file_offset C" "oc_round_robin_reg_file_offset C < int PHYS_REG_FILE_COUNT"
    using C(1) by (simp_all add: core_inv_def)
  note rf = rename_reg_file_ok [OF a(7) off]
  note s = same_regsD [OF d(8)]
  have rem: "pf_remaining rf (oc_files D2)"
    using rf(2) remaining_same [OF refs_invD(1) [OF ren_okD(1) [OF c(4)]] refs_invD(1) [OF d(7)] d(8) rf(1)] by simp
  have i2: "i < length (slots (oc_ROB D2))" using i openedD(4) [OF d(3)] by simp
  have rs: "\<forall>r \<in> set (dests uop). r < length (oc_specrrt D2)" using dests_ok(4) [OF u] ren_okD(7) [OF c(4)] d(5) by simp
  have live2: "\<forall>q \<in> set (rb_operands (rob_at i D2)). pr_state (preg_of (oc_files D2) q) \<noteq> PHYSREG_FREE"
    using d(9) s(2) d(4) by simp
  obtain p F m where f: "rename_dest uop i rf D2 = Some ((upd_rob i (\<lambda>r. r\<lparr>rb_executable_on_cluster_mask := m, rb_physreg := Some p\<rparr>) D2)
       \<lparr>oc_files := F, oc_specrrt := map_regs (dests uop) p (oc_specrrt D2)\<rparr>)"
    "in_file (oc_files D2) p" "pr_state (preg_of (oc_files D2) p) = PHYSREG_FREE" "same_except {p} (oc_files D2) F"
    "pr_state (preg_of F p) = PHYSREG_WAITING" "pr_rob (preg_of F p) = Some i" "fst p = rf"
    "refs_inv ((mset ?ops + rob_refs (entries C) + mset ?com + null_refs PHYS_REG_FILE_COUNT) + mset (map_regs (dests uop) p (oc_specrrt D2))) F"
    by (rule rename_dest_ok [OF inv rf(1) rem rf(3) rs i2 live2])
  define D3 where "D3 = (upd_rob i (\<lambda>r. r\<lparr>rb_executable_on_cluster_mask := m, rb_physreg := Some p\<rparr>) D2)
       \<lparr>oc_files := F, oc_specrrt := map_regs (dests uop) p (oc_specrrt D2)\<rparr>"
  have "opened i uop C (upd_rob i (\<lambda>r. r\<lparr>rb_executable_on_cluster_mask := m, rb_physreg := Some p\<rparr>) D2)"
    by (rule opened_upd [OF d(3) i]) simp
  then have o3: "opened i uop C D3" by (rule opened_cong) (simp_all add: D3_def)
  have at: "rob_at i D3 = (rob_at i D2)\<lparr>rb_executable_on_cluster_mask := m, rb_physreg := Some p\<rparr>"
    using i2 by (simp add: D3_def rob_at_def upd_rob_def)
  have e: "rb_physreg (rob_at i D3) = Some p" "rb_operands (rob_at i D3) = ?ops" "rb_uop (rob_at i D3) = uop"
    using at d(4) openedD(7) [OF d(3)] by simp_all
  have ret: "oc_specrrt D3 = retire (rob_at i D3) ?spec" using e by (simp add: D3_def d(5) retire_def)
  have refs: "refs_inv (all_refs (retire (rob_at i D3) ?spec) ?com (entries C @ [rob_at i D3])) F"
    using f(8) e by (simp add: all_refs_def retire_def d(5) ac_simps)
  have len4: "length (rb_operands (rob_at i D3)) = 4" using e(2) by (simp add: source_operands_def)
  have F3: "oc_files D3 = F" by (simp add: D3_def)
  have ex: "same_except {p} ?F (oc_files D3)" using same_except_trans [OF same_except_same [OF d(8)] f(4)] F3 by simp
  obtain k where k: "rob_changestate i rob_frontend None D3 = Some (upd_rob i (\<lambda>r. r\<lparr>rb_list := Some rob_frontend\<rparr>) (D3\<lparr>oc_rob_lists := k\<rparr>))"
    "core_inv (upd_rob i (\<lambda>r. r\<lparr>rb_list := Some rob_frontend\<rparr>) (D3\<lparr>oc_rob_lists := k\<rparr>))"
    "map rob_view (entries (upd_rob i (\<lambda>r. r\<lparr>rb_list := Some rob_frontend\<rparr>) (D3\<lparr>oc_rob_lists := k\<rparr>)))
       = map rob_view (entries C) @ [rob_view (rob_at i D3)]"
    by (rule rename_close [OF C(1) a(6) room o3 e(1) len4 u _ _ _ ex _ _ _ ret])
      (use d(9) e s f(2,3,5,6) F3 refs in auto)
  define E where "E = upd_rob i (\<lambda>r. r\<lparr>rb_list := Some rob_frontend\<rparr>) (D3\<lparr>oc_rob_lists := k\<rparr>)"
  have "rename_uop C = Some E"
    unfolding rename_uop_def a(1) prod.case option.case Let_def a(2,7,8) bind.bind_lunit a(6) [symmetric] D_def [symmetric] d(1,2) f(1)
      D3_def [symmetric] k(1) E_def ..
  moreover have "renamed_slots C E"
    unfolding renamed_slots_def
  proof (intro allI impI)
    fix j
    have i3: "i < length (slots (oc_ROB (D3\<lparr>oc_rob_lists := k\<rparr>)))" using i openedD(4) [OF o3] by simp
    have "rob_at j (D3\<lparr>oc_rob_lists := k\<rparr>) = rob_at j D3" by (simp add: rob_at_def)
    then show "rb_list (rob_at j E) = Some rob_frontend \<or> wipe (rob_at j E) = wipe (rob_at j C)"
      using openedD(5) [OF o3, of j] unfolding E_def rob_at_upd [OF i3] by simp
  qed
  moreover have fq: "oc_fetchq E = q" by (simp add: E_def D3_def d(6) D_def)
  then have "fetch_inv E" using C(2) a(3-5) by (simp add: fetch_inv_def)
  ultimately show ?thesis
    by (intro that [of E "rob_at i D3" p])
      (use k(2,3) a(3,4) fq e ret s f(3,5) openedD(10) [OF o3] F3 in \<open>simp_all add: E_def\<close>)
qed

subsection \<open>The stage\<close>

text \<open>The youngest of some entries that writes a register.\<close>

definition last_writer :: "nat \<Rightarrow> ReorderBufferEntry list \<Rightarrow> ReorderBufferEntry option" where
  "last_writer r es = find (\<lambda>e. r \<in> set (dests (rb_uop e))) (rev es)"

definition source_of :: "preg list \<Rightarrow> ReorderBufferEntry list \<Rightarrow> nat \<Rightarrow> preg" where
  "source_of t es r = (case last_writer r es of None \<Rightarrow> t ! r | Some e \<Rightarrow> the (rb_physreg e))"

lemma source_of_snoc:
  "source_of t (es @ [e]) r = (if r \<in> set (dests (rb_uop e)) then the (rb_physreg e) else source_of t es r)"
  by (simp add: source_of_def last_writer_def)

lemma fold_retire_nth: "r < length t \<Longrightarrow> fold retire es t ! r = source_of t es r"
proof (induction es rule: rev_induct)
  case Nil
  then show ?case by (simp add: source_of_def last_writer_def)
next
  case (snoc e es)
  then show ?case using map_regs_nth [of r "fold retire es t"] by (simp add: source_of_snoc retire_def [of e])
qed

lemma rename_loop_ok:
  assumes "core_inv C" "fetch_inv C"
  shows "\<exists>C' es. rename_loop n C = Some C' \<and> core_inv C' \<and> fetch_inv C'
    \<and> map rob_view (entries C') = map rob_view (entries C @ es)
    \<and> contents (oc_fetchq C) = map rb_uop es @ contents (oc_fetchq C')
    \<and> length es \<le> n \<and> (length es = n \<or> rename_blocked C' \<noteq> None)
    \<and> oc_specrrt C' = fold retire es (oc_specrrt C) \<and> oc_commitrrt C' = oc_commitrrt C
    \<and> (\<forall>k < length es. rb_operands (es ! k) =
         map (\<lambda>r. fold retire (take k es) (oc_specrrt C) ! r) [op_ra (rb_uop (es ! k)), op_rb (rb_uop (es ! k)), op_rc (rb_uop (es ! k))]
         @ [(0, PHYS_REG_NULL)])
    \<and> renamed_slots C C'"
  using assms
proof (induction n arbitrary: C)
  case 0
  then show ?case by (intro exI [of _ C] exI [of _ "[]"]) (simp add: renamed_slots_def)
next
  case (Suc n)
  show ?case
  proof (cases "rename_blocked C = None")
    case False
    then show ?thesis using Suc.prems by (intro exI [of _ C] exI [of _ "[]"]) (simp add: renamed_slots_def)
  next
    case True
    obtain D e p where D: "rename_uop C = Some D" "core_inv D" "fetch_inv D"
      "map rob_view (entries D) = map rob_view (entries C) @ [rob_view e]"
      "contents (oc_fetchq C) = rb_uop e # contents (oc_fetchq D)"
      "oc_specrrt D = retire e (oc_specrrt C)" "oc_commitrrt D = oc_commitrrt C"
      "rb_operands e = source_operands (rb_uop e) C" "renamed_slots C D"
      by (rule rename_uop_ok [OF Suc.prems True], rule that, assumption+)
    obtain C' es where C': "rename_loop n D = Some C'" "core_inv C'" "fetch_inv C'"
      "map rob_view (entries C') = map rob_view (entries D @ es)"
      "contents (oc_fetchq D) = map rb_uop es @ contents (oc_fetchq C')"
      "length es \<le> n" "length es = n \<or> rename_blocked C' \<noteq> None"
      "oc_specrrt C' = fold retire es (oc_specrrt D)" "oc_commitrrt C' = oc_commitrrt D"
      and ops: "\<forall>k < length es. rb_operands (es ! k) =
         map (\<lambda>r. fold retire (take k es) (oc_specrrt D) ! r) [op_ra (rb_uop (es ! k)), op_rb (rb_uop (es ! k)), op_rc (rb_uop (es ! k))]
         @ [(0, PHYS_REG_NULL)]" and sl: "renamed_slots D C'"
      using Suc.IH [OF D(2,3)] by blast
    have "rb_operands ((e # es) ! k) =
         map (\<lambda>r. fold retire (take k (e # es)) (oc_specrrt C) ! r)
           [op_ra (rb_uop ((e # es) ! k)), op_rb (rb_uop ((e # es) ! k)), op_rc (rb_uop ((e # es) ! k))] @ [(0, PHYS_REG_NULL)]"
      if "k < length (e # es)" for k
      using that ops D(6,8) by (cases k) (simp_all add: source_operands_def)
    then show ?thesis
      using True D(1,4-7) C' renamed_slots_trans [OF D(9) sl] by (intro exI [of _ C'] exI [of _ "e # es"]) simp
  qed
qed

end
