(* ===== verification/Pipe_Flush.thy ===== *)
theory Pipe_Flush
  imports Pipe_Annul
begin

text \<open>
  The flush of \<^verbatim>\<open>ooopipe.cpp\<close>: the whole pipeline is emptied, every physical register is freed, and
  the register files and rename tables are filled again from the architectural registers
  (\<^verbatim>\<open>external_to_core_state\<close>). \<^verbatim>\<open>check_refcounts\<close> and \<^verbatim>\<open>check_rob\<close> of \<^verbatim>\<open>ooocore.cpp\<close>, the consistency checks
  of the pipeline, are here as well. The fields of the fetch unit that only \<^verbatim>\<open>fetch\<close> reads (the current
  basic block and the buffer of split accesses) are left out.
\<close>

definition DISPATCH_DEADLOCK_COUNTDOWN_CYCLES :: int where "DISPATCH_DEADLOCK_COUNTDOWN_CYCLES = 256"

subsection \<open>The fetch queue\<close>

fun annul_fetchbufs :: "FetchBufferEntry list \<Rightarrow> CombinedPredictor \<Rightarrow> CombinedPredictor option" where
  "annul_fetchbufs [] b = Some b"
| "annul_fetchbufs (uop # uops) b =
     do {
       b \<leftarrow> (if isbranch (op_opcode uop) \<and> fb_bptype uop AND (BRANCH_HINT_CALL OR BRANCH_HINT_RET) \<noteq> 0
            then cp_annulras (fb_predinfo uop) b else Some b);
       annul_fetchbufs uops b
     }"

definition annul_fetchq :: "Core \<Rightarrow> Core option" where
  "annul_fetchq C =
     do {
       js \<leftarrow> foreach_backward (length (slots (oc_fetchq C))) (oc_fetchq C);
       b \<leftarrow> annul_fetchbufs (map (\<lambda>j. slots (oc_fetchq C) ! nat j) js) (oc_branchpred C);
       Some (C\<lparr>oc_branchpred := b\<rparr>)
     }"

text \<open>The two frame numbers are bit fields of 36 bits.\<close>

definition rvp_update :: "int \<Rightarrow> RIPVirtPhys \<Rightarrow> RIPVirtPhys" where
  "rvp_update bytes rvp = rvp\<lparr>rvp_mfnlo := take_bit 36 (drop_bit 12 (rvp_rip rvp)),
     rvp_mfnhi := take_bit 36 (drop_bit 12 (rvp_rip rvp + of_int (bytes - 1)))\<rparr>"

definition reset_fetch_unit :: "W64 \<Rightarrow> Core \<Rightarrow> Core" where
  "reset_fetch_unit realrip C =
     C\<lparr>oc_fetchrip := rvp_update 4096 ((oc_fetchrip C)\<lparr>rvp_rip := realrip\<rparr>), oc_stall_frontend := False,
       oc_waiting_for_icache_fill := False, oc_fetchq := fq_reset (oc_fetchq C)\<rparr>"

subsection \<open>Architectural registers into physical registers\<close>

definition alloc_zeroreg :: "nat \<Rightarrow> RegFiles \<Rightarrow> RegFiles option" where
  "alloc_zeroreg f F =
     do {
       (zeroreg, F) \<leftarrow> pf_alloc f 0 (int PHYS_REG_NULL) F;
       p \<leftarrow> zeroreg;
       F \<leftarrow> preg_commit p (addref p F);
       Some (upd_preg p (\<lambda>r. r\<lparr>pr_data := 0, pr_flags := 0, pr_archreg := REG_zero\<rparr>) F)
     }"

definition archreg_file :: "nat \<Rightarrow> nat" where
  "archreg_file i =
     (if (REG_xmml0 \<le> i \<and> i \<le> REG_xmmh15) \<or> (REG_fptos \<le> i \<and> i \<le> REG_ctx) then PHYS_REG_FILE_FP
      else if i = REG_rip then PHYS_REG_FILE_BR else PHYS_REG_FILE_INT)"

definition alloc_archreg :: "W64 list \<Rightarrow> nat \<Rightarrow> RegFiles \<times> preg list \<Rightarrow> (RegFiles \<times> preg list) option" where
  "alloc_archreg arf i = (\<lambda>(F, t).
     do {
       (physreg, F) \<leftarrow> (if i = REG_zero then Some (Some (0, PHYS_REG_NULL), F) else pf_alloc (archreg_file i) 0 (-1) F);
       p \<leftarrow> physreg;
       Some (upd_preg p (\<lambda>r. r\<lparr>pr_archreg := i, pr_data := arf ! i, pr_flags := 0\<rparr>) F, t[i := p])
     })"

fun alloc_archregs :: "W64 list \<Rightarrow> nat list \<Rightarrow> RegFiles \<times> preg list \<Rightarrow> (RegFiles \<times> preg list) option" where
  "alloc_archregs arf [] Ft = Some Ft"
| "alloc_archregs arf (i # is) Ft = do { Ft \<leftarrow> alloc_archreg arf i Ft; alloc_archregs arf is Ft }"

definition renamable_flags :: "preg list \<Rightarrow> preg list" where
  "renamable_flags t = (let t = fold (\<lambda>i t. t[i := (0, PHYS_REG_NULL)]) [ARCHREG_COUNT..<TRANSREG_COUNT] t
     in t[REG_zf := t ! REG_flags, REG_cf := t ! REG_flags, REG_of := t ! REG_flags])"

fun copy_table :: "preg list \<Rightarrow> RegFiles \<Rightarrow> RegFiles option" where
  "copy_table [] F = Some F"
| "copy_table (p # ps) F = do { F \<leftarrow> preg_commit p F; copy_table ps (addref p (addref p F)) }"

definition external_to_core_state :: "Core \<Rightarrow> Core option" where
  "external_to_core_state C =
     do {
       F \<leftarrow> foreach_reg alloc_zeroreg [0..<PHYS_REG_FILE_COUNT] (oc_files C);
       (F, t) \<leftarrow> alloc_archregs (oc_commitarf C) [0..<ARCHREG_COUNT] (F, oc_commitrrt C);
       let F = upd_preg (t ! REG_flags) (\<lambda>r. r\<lparr>pr_flags := ucast (pr_data r)\<rparr>) F;
       let t = renamable_flags t;
       F \<leftarrow> copy_table t F;
       Some (C\<lparr>oc_files := F, oc_commitrrt := t, oc_specrrt := t\<rparr>)
     }"

subsection \<open>The flush\<close>

fun flush_robs :: "nat list \<Rightarrow> Core \<Rightarrow> Core option" where
  "flush_robs [] C = Some C"
| "flush_robs (i # is) C =
     do {
       (_, C) \<leftarrow> release_mem_lock i C;
       C \<leftarrow> flush_mem_lock_release_list 0 C;
       C \<leftarrow> upd_physreg i (\<lambda>p. preg_reset_thread p 0 True) C;
       flush_robs is C
     }"

definition reset_state :: "nat \<Rightarrow> nat \<Rightarrow> RegFiles \<Rightarrow> RegFiles option" where
  "reset_state s f = foreach_preg f s (\<lambda>p. preg_reset_thread p 0 True)"

definition rob_state_lists :: "rob_list list" where
  "rob_state_lists = [rob_free, rob_frontend, rob_ready_to_dispatch]
     @ map rob_dispatched [0..<MAX_CLUSTERS] @ map rob_ready_to_issue [0..<MAX_CLUSTERS]
     @ map rob_ready_to_store [0..<MAX_CLUSTERS] @ map rob_ready_to_load [0..<MAX_CLUSTERS]
     @ map rob_issued [0..<MAX_CLUSTERS] @ map rob_completed [0..<MAX_CLUSTERS]
     @ map rob_ready_to_writeback [0..<MAX_CLUSTERS]
     @ [rob_cache_miss, rob_tlb_miss, rob_memory_fence, rob_ready_to_commit]"

definition rob_init :: "int \<Rightarrow> ReorderBufferEntry \<Rightarrow> ReorderBufferEntry" where
  "rob_init idx r = rob_reset (r\<lparr>rb_idx := nat idx, rb_entry_valid := False, rb_list := None\<rparr>)"

definition reset_rob :: "Core \<Rightarrow> Core" where
  "reset_rob C = C\<lparr>oc_ROB := queue_reset rob_init (oc_ROB C),
     oc_rob_lists := fold (\<lambda>i k. k\<lparr>lh_links := link_reset (Rob i) (lh_links k)\<rparr>) [0..<length (slots (oc_ROB C))]
       (lol_reset (map RobList rob_state_lists) (oc_rob_lists C))\<rparr>"

fun free_robs :: "nat list \<Rightarrow> Core \<Rightarrow> Core option" where
  "free_robs [] C = Some C"
| "free_robs (i # is) C = do { C \<leftarrow> rob_changestate i rob_free None C; free_robs is C }"

definition reset_issueq :: "nat \<Rightarrow> Core \<Rightarrow> Core" where
  "reset_issueq c C =
     (let (q, counts) = iq_reset_thread [Some (oc_issueq_count C)] (oc_issueq C ! c)
      in (upd_issueq c q C)\<lparr>oc_issueq_count := the (hd counts)\<rparr>)"

definition flush_pipeline :: "Core \<Rightarrow> Core option" where
  "flush_pipeline C =
     do {
       h \<leftarrow> ch_complete_thread 0 (oc_caches C);
       C \<leftarrow> annul_fetchq (C\<lparr>oc_caches := h\<rparr>);
       js \<leftarrow> foreach_forward ROB_SIZE (oc_ROB C);
       C \<leftarrow> flush_robs (map nat js) C;
       F \<leftarrow> foreach_reg (reset_state PHYSREG_ARCH) [0..<PHYS_REG_FILE_COUNT] (oc_files C);
       F \<leftarrow> foreach_reg (reset_state PHYSREG_PENDINGFREE) [0..<PHYS_REG_FILE_COUNT] F;
       C \<leftarrow> Some (reset_rob (reset_fetch_unit (oc_commitarf C ! REG_rip) (C\<lparr>oc_files := F\<rparr>)));
       C \<leftarrow> free_robs [0..<ROB_SIZE] C;
       C \<leftarrow> Some (C\<lparr>oc_LSQ := queue_reset (\<lambda>i e. lsq_reset (e\<lparr>lsq_idx := nat i\<rparr>)) (oc_LSQ C),
               oc_loads_in_flight := 0, oc_stores_in_flight := 0\<rparr>);
       C \<leftarrow> Some (fold reset_issueq [0..<MAX_CLUSTERS] C);
       external_to_core_state (C\<lparr>oc_dispatch_deadlock_countdown := DISPATCH_DEADLOCK_COUNTDOWN_CYCLES\<rparr>)
     }"

subsection \<open>Consistency checks\<close>

text \<open>The registers whose counter is not the number of their uses.\<close>

definition counted_uses :: "Core \<Rightarrow> preg \<Rightarrow> nat \<Rightarrow> int" where
  "counted_uses C p n = int n + of_bool (snd p = PHYS_REG_NULL)"

definition refcount_errors :: "Core \<Rightarrow> preg list option" where
  "refcount_errors C =
     do {
       js \<leftarrow> foreach_forward ROB_SIZE (oc_ROB C);
       let uses = concat (map (\<lambda>j. rb_operands (rob_at (nat j) C)) js) @ oc_commitrrt C @ oc_specrrt C;
       Some (filter (\<lambda>p. sint (pr_refcount (preg_of (oc_files C) p)) \<noteq> counted_uses C p (count_list uses p))
         (concat (map (\<lambda>f. map (Pair f) [0..<pf_size (rf_files (oc_files C) ! f)]) [0..<PHYS_REG_FILE_COUNT])))
     }"

definition check_refcounts :: "Core \<Rightarrow> unit option" where
  "check_refcounts C = do { errors \<leftarrow> refcount_errors C; check (errors = []) }"

definition check_rob_list :: "rob_list \<Rightarrow> Core \<Rightarrow> Core option" where
  "check_rob_list l = foreach_rob l (\<lambda>i C.
     do {
       _ \<leftarrow> check (rb_idx (rob_at i C) < ROB_SIZE);
       _ \<leftarrow> check (rb_list (rob_at i C) = Some l);
       _ \<leftarrow> check (if rb_list (rob_at i C) \<noteq> Some rob_free then rb_entry_valid (rob_at i C) else \<not> rb_entry_valid (rob_at i C));
       Some (False, C)
     })"

fun check_rob_lists :: "rob_list list \<Rightarrow> Core \<Rightarrow> Core option" where
  "check_rob_lists [] C = Some C"
| "check_rob_lists (l # ls) C = do { C \<leftarrow> check_rob_list l C; check_rob_lists ls C }"

definition check_rob :: "Core \<Rightarrow> unit option" where
  "check_rob C =
     do {
       _ \<leftarrow> check (\<forall>r \<in> set (slots (oc_ROB C)). rb_entry_valid r \<longrightarrow>
              0 \<le> sint (rb_forward_cycle r) \<and> sint (rb_forward_cycle r) \<le> int MAX_FORWARDING_LATENCY);
       _ \<leftarrow> check_rob_lists rob_state_lists C;
       Some ()
     }"

end
