(* ===== verification/Flush_Regs.thy ===== *)
theory Flush_Regs
  imports Rename_Inv Pipe_Flush
begin

text \<open>
  \<^verbatim>\<open>external_to_core_state\<close> on the register files: from files whose registers are all free it builds a
  rename table that satisfies the invariant of renaming and holds the architectural values.
\<close>

definition all_clean :: "RegFiles \<Rightarrow> bool" where
  "all_clean F \<longleftrightarrow> (\<exists>L. regs_ok L F) \<and> (\<forall>f < PHYS_REG_FILE_COUNT. pf_size (rf_files F ! f) = physreg_sizes f)
     \<and> (\<forall>p. in_file F p \<longrightarrow> clean_reg (preg_of F p))"

lemma alloc_zero:
  assumes "refs_inv R F" "in_file F (f, 0)" 
  obtains F' where "pf_alloc f 0 (int PHYS_REG_NULL) F = Some (Some (f, 0), F')" "refs_inv R F'"
    "only_preg (f, 0) (alloc_reg 0) F F'"
proof -
  obtain L where L: "regs_ok L F" using refs_invD(1) [OF assms(1)] by blast
  obtain F' where c: "pf_alloc f 0 0 F = Some (Some (f, 0), F')"
      "regs_ok (move f 0 (pr_state (preg_of F (f, 0))) PHYSREG_WAITING L) F'" "only_preg (f, 0) (alloc_reg 0) F F'"
    by (rule alloc_at [where r = 0, OF L assms(2) refl]) simp_all
  have "refs_inv R F'"
    by (rule refs_only [OF assms(1) _ c(3)]) (use c(2) assms(2) refs_invD [OF assms(1)] in \<open>auto simp: alloc_reg_def\<close>)
  then show ?thesis using that c by (simp add: PHYS_REG_NULL_def)
qed

subsection \<open>The null registers\<close>

definition boot_null :: "nat \<Rightarrow> RegFiles \<Rightarrow> bool" where
  "boot_null n F \<longleftrightarrow> refs_inv (null_refs n) F \<and> (\<forall>f < PHYS_REG_FILE_COUNT. pf_size (rf_files F ! f) = physreg_sizes f)
     \<and> (\<forall>p. in_file F p \<longrightarrow> pr_rob (preg_of F p) = None
          \<and> pr_state (preg_of F p) = (if snd p = 0 \<and> fst p < n then PHYSREG_ARCH else PHYSREG_FREE))"

lemma boot_nullD:
  assumes "boot_null n F"
  shows "refs_inv (null_refs n) F" "f < PHYS_REG_FILE_COUNT \<Longrightarrow> pf_size (rf_files F ! f) = physreg_sizes f"
    "in_file F p \<Longrightarrow> pr_rob (preg_of F p) = None"
    "in_file F p \<Longrightarrow> pr_state (preg_of F p) = (if snd p = 0 \<and> fst p < n then PHYSREG_ARCH else PHYSREG_FREE)"
  using assms unfolding boot_null_def by blast+

lemma physreg_sizes_pos: "f < PHYS_REG_FILE_COUNT \<Longrightarrow> 16 \<le> physreg_sizes f"
  by (auto simp: physreg_sizes_def PHYS_REG_FILE_COUNT_def less_Suc_eq numeral_eq_Suc)

lemma null_in_file:
  "\<forall>f < PHYS_REG_FILE_COUNT. pf_size (rf_files F ! f) = physreg_sizes f \<Longrightarrow> f < PHYS_REG_FILE_COUNT \<Longrightarrow> in_file F (f, 0)"
  using physreg_sizes_pos [of f] by (simp add: in_file_def)

lemma boot_null_start:
  assumes "all_clean F"
  shows "boot_null 0 F"
  using assms unfolding all_clean_def boot_null_def refs_inv_def clean_reg_def by auto

lemma alloc_zeroreg_ok:
  assumes F: "boot_null n F" and n: "n < PHYS_REG_FILE_COUNT"
  shows "\<exists>F'. alloc_zeroreg n F = Some F' \<and> boot_null (Suc n) F'"
proof -
  note d = boot_nullD [OF F]
  have p: "in_file F (n, 0)" using null_in_file n d(2) by blast
  obtain F1 where F1: "pf_alloc n 0 (int PHYS_REG_NULL) F = Some (Some (n, 0), F1)" "refs_inv (null_refs n) F1" "only_preg (n, 0) (alloc_reg 0) F F1"
    by (rule alloc_zero [OF d(1) p])
  have p1: "in_file F1 (n, 0)" "pr_state (preg_of F1 (n, 0)) \<noteq> PHYSREG_FREE"
    using only_pregD(1,3) [OF F1(3)] p by (simp_all add: alloc_reg_def)
  have "Suc (size (null_refs n)) < 2 ^ 15" using n by (simp add: PHYS_REG_FILE_COUNT_def)
  note F2 = addref_refs [OF F1(2) p1 this]
  note s2 = same_regsD [OF F2(2)]
  have sz: "pf_size (rf_files (addref (n, 0) F1) ! f) = pf_size (rf_files F1 ! f)" if "f < PHYS_REG_FILE_COUNT" for f
    using refs_invD(7) [OF F1(2) that] refs_invD(7) [OF F2(1) that] by simp
  have "pr_state (preg_of (addref (n, 0) F1) (n, 0)) \<noteq> PHYSREG_FREE"
    using only_pregD(1) [OF F1(3)] s2 by (simp add: alloc_reg_def)
  then obtain F3 where F3: "changestate (n, 0) PHYSREG_ARCH (addref (n, 0) F1) = Some F3" "refs_inv (null_refs (Suc n)) F3"
      "only_preg (n, 0) (\<lambda>r. r\<lparr>pr_state := PHYSREG_ARCH\<rparr>) (addref (n, 0) F1) F3"
    using change_refs [OF F2(1), of "(n, 0)" PHYSREG_ARCH] p1 s2(1) by (auto simp: PHYS_REG_NULL_def)
  have p3: "in_file F3 (n, 0)" using only_pregD(3) [OF F3(3)] s2(1) p1(1) by simp
  let ?g = "\<lambda>r. r\<lparr>pr_data := 0, pr_flags := 0, pr_archreg := REG_zero\<rparr>"
  have gk: "pr_state (?g r) = pr_state r \<and> pr_rfid (?g r) = pr_rfid r \<and> pr_idx (?g r) = pr_idx r \<and> pr_refcount (?g r) = pr_refcount r
      \<and> pr_threadid (?g r) = pr_threadid r" for r by simp
  note F4 = upd_refs [OF F3(2) p3 gk]
  note o = only_pregD [OF F1(3)] only_pregD [OF F3(3)] only_pregD [OF F4(2)]
  have arch: "pr_state (preg_of (upd_preg (n, 0) ?g F3) (n, 0)) = PHYSREG_ARCH" using o by simp
  have other: "pr_state (preg_of (upd_preg (n, 0) ?g F3) q) = pr_state (preg_of F q)" if "q \<noteq> (n, 0)" for q
    using that o s2 by simp
  have "boot_null (Suc n) (upd_preg (n, 0) ?g F3)"
    unfolding boot_null_def
  proof (intro conjI allI impI)
    fix q assume q: "in_file (upd_preg (n, 0) ?g F3) q"
    then have qF: "in_file F q" using o s2 by simp
    show "pr_rob (preg_of (upd_preg (n, 0) ?g F3) q) = None"
      using d(3) [OF qF] o s2 by (cases "q = (n, 0)") (simp_all add: alloc_reg_def)
    show "pr_state (preg_of (upd_preg (n, 0) ?g F3) q) = (if snd q = 0 \<and> fst q < Suc n then PHYSREG_ARCH else PHYSREG_FREE)"
    proof (cases "q = (n, 0)")
      case False
      then have "(snd q = 0 \<and> fst q < Suc n) = (snd q = 0 \<and> fst q < n)" by (auto simp: less_Suc_eq prod_eq_iff)
      then show ?thesis using d(4) [OF qF] other [OF False] by simp
    qed (simp add: arch)
  qed (use F4(1) d(2) o sz in simp_all)
  then show ?thesis using F1(1) F3(1) by (simp add: alloc_zeroreg_def preg_commit_def)
qed

lemma alloc_zeroregs_ok:
  assumes "all_clean F"
  obtains F' where "foreach_reg alloc_zeroreg [0..<PHYS_REG_FILE_COUNT] F = Some F'" "boot_null PHYS_REG_FILE_COUNT F'"
proof -
  have "\<exists>F'. foreach_reg alloc_zeroreg [n..<PHYS_REG_FILE_COUNT] F = Some F' \<and> boot_null PHYS_REG_FILE_COUNT F'"
    if "boot_null n F" "n \<le> PHYS_REG_FILE_COUNT" for n F
    using that
  proof (induction "PHYS_REG_FILE_COUNT - n" arbitrary: n F)
    case (Suc d)
    then have n: "n < PHYS_REG_FILE_COUNT" by simp
    obtain F1 where F1: "alloc_zeroreg n F = Some F1" "boot_null (Suc n) F1" using alloc_zeroreg_ok [OF Suc.prems(1) n] by blast
    have "d = PHYS_REG_FILE_COUNT - Suc n" "Suc n \<le> PHYS_REG_FILE_COUNT" using Suc.hyps(2) n by simp_all
    then show ?case using Suc.hyps(1) [of "Suc n" F1] F1 n by (simp add: upt_conv_Cons)
  qed simp
  then show ?thesis using that boot_null_start [OF assms] by blast
qed

subsection \<open>The architectural registers\<close>

definition booted :: "W64 list \<Rightarrow> nat \<Rightarrow> RegFiles \<Rightarrow> preg list \<Rightarrow> bool" where
  "booted arf i F t \<longleftrightarrow> refs_inv (null_refs PHYS_REG_FILE_COUNT) F \<and> (\<forall>f < PHYS_REG_FILE_COUNT. pf_size (rf_files F ! f) = physreg_sizes f)
     \<and> length t = TRANSREG_COUNT
     \<and> (\<forall>r < i. in_file F (t ! r) \<and> pr_data (preg_of F (t ! r)) = arf ! r \<and> pr_flags (preg_of F (t ! r)) = 0
          \<and> (if r = REG_zero then t ! r = (0, 0) else snd (t ! r) \<noteq> 0 \<and> fst (t ! r) = archreg_file r))
     \<and> inj_on ((!) t) {..<i}
     \<and> (\<forall>p. in_file F p \<longrightarrow> pr_rob (preg_of F p) = None
          \<and> pr_state (preg_of F p) = (if snd p = 0 then PHYSREG_ARCH else if p \<in> (!) t ` {..<i} then PHYSREG_WAITING else PHYSREG_FREE))"

lemma bootedD:
  assumes "booted arf i F t"
  shows "refs_inv (null_refs PHYS_REG_FILE_COUNT) F" "\<forall>f < PHYS_REG_FILE_COUNT. pf_size (rf_files F ! f) = physreg_sizes f" "length t = TRANSREG_COUNT"
    "r < i \<Longrightarrow> in_file F (t ! r)" "r < i \<Longrightarrow> pr_data (preg_of F (t ! r)) = arf ! r" "r < i \<Longrightarrow> pr_flags (preg_of F (t ! r)) = 0"
    "r < i \<Longrightarrow> if r = REG_zero then t ! r = (0, 0) else snd (t ! r) \<noteq> 0 \<and> fst (t ! r) = archreg_file r"
    "inj_on ((!) t) {..<i}" "in_file F p \<Longrightarrow> pr_rob (preg_of F p) = None"
    "in_file F p \<Longrightarrow> pr_state (preg_of F p) = (if snd p = 0 then PHYSREG_ARCH else if p \<in> (!) t ` {..<i} then PHYSREG_WAITING else PHYSREG_FREE)"
  using assms unfolding booted_def by blast+

lemma archreg_file_less: "archreg_file r < PHYS_REG_FILE_COUNT"
  by (simp add: archreg_file_def reg_file_numbers PHYS_REG_FILE_COUNT_def)

lemma archreg_file_room:
  assumes "i \<le> ARCHREG_COUNT"
  shows "card {r. r < i \<and> archreg_file r = archreg_file i'} + 1 < physreg_sizes (archreg_file i')"
proof (cases "archreg_file i' = PHYS_REG_FILE_BR")
  case True
  have "{r. r < i \<and> archreg_file r = PHYS_REG_FILE_BR} \<subseteq> {REG_rip}"
    by (auto simp: archreg_file_def reg_file_numbers split: if_splits)
  then have "card {r. r < i \<and> archreg_file r = archreg_file i'} \<le> card {REG_rip}"
    unfolding True by (rule card_mono [rotated]) simp
  then show ?thesis using True by (simp add: physreg_sizes_def reg_file_numbers)
next
  case False
  have "{r. r < i \<and> archreg_file r = archreg_file i'} \<subseteq> {..<i}" by auto
  then have "card {r. r < i \<and> archreg_file r = archreg_file i'} \<le> card {..<i}" by (rule card_mono [rotated]) simp
  moreover have "physreg_sizes (archreg_file i') = 256"
    using False by (auto simp: archreg_file_def reg_file_numbers physreg_sizes_def reg_numbers split: if_splits)
  ultimately show ?thesis using assms by (simp add: ARCHREG_COUNT_def)
qed

lemma booted_remaining:
  assumes B: "booted arf i F t" and i: "i \<le> ARCHREG_COUNT"
  shows "pf_remaining (archreg_file i') F"
proof (rule ccontr)
  assume no: "\<not> pf_remaining (archreg_file i') F"
  note d = bootedD [OF B]
  let ?f = "archreg_file i'" and ?A = "{r. r < i \<and> archreg_file r = archreg_file i'}"
  obtain L where L: "regs_ok L F" using refs_invD(1) [OF d(1)] by blast
  have sub: "{..<physreg_sizes ?f} \<subseteq> insert 0 ((\<lambda>r. snd (t ! r)) ` ?A)"
  proof
    fix j assume "j \<in> {..<physreg_sizes ?f}"
    then have j: "in_file F (?f, j)" using d(2) archreg_file_less by (simp add: in_file_def)
    then have "pr_state (preg_of F (?f, j)) \<noteq> PHYSREG_FREE" using no remaining_state [OF L archreg_file_less] by blast
    then have "j = 0 \<or> (?f, j) \<in> (!) t ` {..<i}" using d(10) [OF j] by (auto split: if_splits)
    then show "j \<in> insert 0 ((\<lambda>r. snd (t ! r)) ` ?A)"
    proof
      assume "(?f, j) \<in> (!) t ` {..<i}"
      then obtain r where r: "r < i" "t ! r = (?f, j)" by auto
      then have "archreg_file r = ?f \<or> j = 0" using d(7) [OF r(1)] by (auto split: if_splits)
      then show ?thesis using r by (auto intro!: image_eqI [of _ _ r])
    qed simp
  qed
  have fin: "finite ?A" by simp
  have "physreg_sizes ?f \<le> card (insert 0 ((\<lambda>r. snd (t ! r)) ` ?A))" using card_mono [OF _ sub] fin by simp
  also have "\<dots> \<le> Suc (card ((\<lambda>r. snd (t ! r)) ` ?A))" by (rule card_insert_le_m1) simp_all
  also have "\<dots> \<le> Suc (card ?A)" using card_image_le [OF fin] by simp
  finally show False using archreg_file_room [OF i, of i'] by simp
qed

lemma boot_start:
  assumes "boot_null PHYS_REG_FILE_COUNT F" "length t = TRANSREG_COUNT"
  shows "booted arf 0 F t"
  using boot_nullD [OF assms(1)] assms(2) unfolding booted_def by (auto simp: in_file_def)

text \<open>One register: a fresh one, or the null register for \<^verbatim>\<open>REG_zero\<close>.\<close>

lemma booted_step:
  assumes B: "booted arf i F t" and i: "i < ARCHREG_COUNT" and p: "in_file F p" and ref: "refs_inv (null_refs PHYS_REG_FILE_COUNT) F1"
    and o: "only_preg p h F F1" "\<And>r. pr_rob (h r) = pr_rob r"
      "pr_state (h (preg_of F p)) = (if i = REG_zero then PHYSREG_ARCH else PHYSREG_WAITING)"
    and ip: "if i = REG_zero then p = (0, 0) else snd p \<noteq> 0 \<and> fst p = archreg_file i \<and> pr_state (preg_of F p) = PHYSREG_FREE"
  shows "booted arf (Suc i) (upd_preg p (\<lambda>r. r\<lparr>pr_archreg := i, pr_data := arf ! i, pr_flags := 0\<rparr>) F1) (t[i := p])"
proof -
  note d = bootedD [OF B]
  let ?g = "\<lambda>r. r\<lparr>pr_archreg := i, pr_data := arf ! i, pr_flags := 0\<rparr>"
  let ?F = "upd_preg p ?g F1" and ?t = "t[i := p]"
  have p1: "in_file F1 p" using only_pregD(3) [OF o(1)] p by simp
  have gk: "pr_state (?g r) = pr_state r \<and> pr_rfid (?g r) = pr_rfid r \<and> pr_idx (?g r) = pr_idx r \<and> pr_refcount (?g r) = pr_refcount r
      \<and> pr_threadid (?g r) = pr_threadid r" for r by simp
  note u = upd_refs [OF ref p1 gk]
  have all: "only_preg p (?g \<circ> h) F ?F" by (rule only_preg_trans [OF o(1) u(2)])
  note a = only_pregD [OF all]
  have it: "i < length t" using i d(3) by (simp add: ARCHREG_COUNT_def TRANSREG_COUNT_def)
  have nth: "?t ! r = (if r = i then p else t ! r)" for r using it by (simp add: nth_list_update)
  have np: "t ! r \<noteq> p" if "r < i" for r
  proof (cases "i = REG_zero")
    case True
    then show ?thesis using ip d(7) [OF that] that by auto
  next
    case False
    then have "snd p \<noteq> 0" "p \<notin> (!) t ` {..<i}" using ip d(10) [OF p] by (auto split: if_splits)
    then show ?thesis using that by blast
  qed
  have img: "(!) ?t ` {..<Suc i} = insert p ((!) t ` {..<i})" using nth by (auto simp: lessThan_Suc image_iff)
  show ?thesis
    unfolding booted_def
  proof (intro conjI allI impI)
    show "refs_inv (null_refs PHYS_REG_FILE_COUNT) ?F" by (rule u(1))
    show "length ?t = TRANSREG_COUNT" using d(3) by simp
    show "inj_on ((!) ?t) {..<Suc i}"
      using d(8) np by (force simp: inj_on_def nth less_Suc_eq)
  next
    fix f assume "f < PHYS_REG_FILE_COUNT"
    then show "pf_size (rf_files ?F ! f) = physreg_sizes f" using d(2) a(4) by simp
  next
    fix r assume "r < Suc i"
    then consider "r < i" | "r = i" by linarith
    then have "in_file ?F (?t ! r) \<and> pr_data (preg_of ?F (?t ! r)) = arf ! r \<and> pr_flags (preg_of ?F (?t ! r)) = 0
        \<and> (if r = REG_zero then ?t ! r = (0, 0) else snd (?t ! r) \<noteq> 0 \<and> fst (?t ! r) = archreg_file r)"
    proof cases
      case 1
      then show ?thesis using d(4-7) [OF 1] a(2) [OF np [OF 1]] a(3) nth by (auto split: if_splits)
    next
      case 2
      then show ?thesis using p a(1,3) nth ip by (auto split: if_splits)
    qed
    then show "in_file ?F (?t ! r)" "pr_data (preg_of ?F (?t ! r)) = arf ! r" "pr_flags (preg_of ?F (?t ! r)) = 0"
      "if r = REG_zero then ?t ! r = (0, 0) else snd (?t ! r) \<noteq> 0 \<and> fst (?t ! r) = archreg_file r" by blast+
  next
    fix q assume "in_file ?F q"
    then have q: "in_file F q" using a(3) by simp
    show "pr_rob (preg_of ?F q) = None"
      using d(9) [OF q] a(1) a(2) [of q] o(2) by (cases "q = p") simp_all
    show "pr_state (preg_of ?F q) = (if snd q = 0 then PHYSREG_ARCH else if q \<in> (!) ?t ` {..<Suc i} then PHYSREG_WAITING else PHYSREG_FREE)"
    proof (cases "q = p")
      case True
      then show ?thesis using a(1) o(3) ip img by (auto split: if_splits)
    next
      case False
      then show ?thesis using d(10) [OF q] a(2) [OF False] img by auto
    qed
  qed
qed

lemma alloc_archreg_ok:
  assumes B: "booted arf i F t" and i: "i < ARCHREG_COUNT"
  shows "\<exists>F' t'. alloc_archreg arf i (F, t) = Some (F', t') \<and> booted arf (Suc i) F' t'"
proof (cases "i = REG_zero")
  case True
  note d = bootedD [OF B]
  have p: "in_file F (0, 0)" using null_in_file [OF d(2)] by (simp add: PHYS_REG_FILE_COUNT_def)
  have "only_preg (0, 0) id F F" by (simp add: only_preg_def)
  from booted_step [OF B i p d(1) this] d(10) [OF p] True show ?thesis
    by (simp add: alloc_archreg_def PHYS_REG_NULL_def)
next
  case False
  note d = bootedD [OF B]
  obtain p F1 where a: "pf_alloc (archreg_file i) 0 (-1) F = Some (Some p, F1)" "fst p = archreg_file i" "in_file F p"
    "pr_state (preg_of F p) = PHYSREG_FREE" "refs_inv (null_refs PHYS_REG_FILE_COUNT) F1" "only_preg p (alloc_reg 0) F F1"
    by (rule alloc_refs [OF d(1) archreg_file_less [of i] booted_remaining [OF B]]) (use i in auto)
  have "snd p \<noteq> 0" using d(10) [OF a(3)] a(4) by (auto split: if_splits)
  then show ?thesis
    using booted_step [OF B i a(3,5,6)] a(1,2,4) False by (simp add: alloc_archreg_def alloc_reg_def)
qed

lemma alloc_archregs_ok:
  assumes "booted arf i F t" "i \<le> ARCHREG_COUNT"
  shows "\<exists>F' t'. alloc_archregs arf [i..<ARCHREG_COUNT] (F, t) = Some (F', t') \<and> booted arf ARCHREG_COUNT F' t'"
  using assms
proof (induction "ARCHREG_COUNT - i" arbitrary: i F t)
  case (Suc d)
  then have i: "i < ARCHREG_COUNT" by simp
  obtain F1 t1 where F1: "alloc_archreg arf i (F, t) = Some (F1, t1)" "booted arf (Suc i) F1 t1"
    using alloc_archreg_ok [OF Suc.prems(1) i] by blast
  have "d = ARCHREG_COUNT - Suc i" "Suc i \<le> ARCHREG_COUNT" using Suc.hyps(2) i by simp_all
  then show ?case using Suc.hyps(1) [of "Suc i" F1 t1] F1 i by (simp add: upt_conv_Cons)
qed simp

subsection \<open>The tables\<close>

lemma fold_null_nth:
  "r < length t \<Longrightarrow> fold (\<lambda>i t. t[i := v]) is t ! r = (if r \<in> set is then v else t ! r)"
  by (induction "is" arbitrary: t) (auto simp: nth_list_update)

lemma length_fold_null [simp]: "length (fold (\<lambda>i t. t[i := v]) is t) = length t"
  by (induction "is" arbitrary: t) auto

lemma renamable_flags_nth:
  assumes "length t = TRANSREG_COUNT" "r < TRANSREG_COUNT"
  shows "renamable_flags t ! r = (if flag_reg r then t ! REG_flags else if r < ARCHREG_COUNT then t ! r else (0, 0))"
proof -
  define t' where "t' = fold (\<lambda>i t. t[i := (0, PHYS_REG_NULL)]) [ARCHREG_COUNT..<TRANSREG_COUNT] t"
  have t': "length t' = TRANSREG_COUNT" "\<And>r. r < TRANSREG_COUNT \<Longrightarrow> t' ! r = (if r < ARCHREG_COUNT then t ! r else (0, 0))"
    using assms(1) by (auto simp: t'_def fold_null_nth PHYS_REG_NULL_def)
  have "t' ! REG_flags = t ! REG_flags" using t'(2) by (simp add: reg_numbers)
  then have "renamable_flags t = t'[REG_zf := t ! REG_flags, REG_cf := t ! REG_flags, REG_of := t ! REG_flags]"
    by (simp only: renamable_flags_def Let_def t'_def [symmetric])
  moreover have "REG_zf \<noteq> REG_cf" "REG_zf \<noteq> REG_of" "REG_cf \<noteq> REG_of" by (simp_all add: reg_numbers)
  ultimately show ?thesis using t'(1) t'(2) [OF assms(2)] assms(2) by (auto simp: nth_list_update flag_reg_def)
qed

lemma length_renamable_flags [simp]: "length (renamable_flags t) = length t"
  by (simp add: renamable_flags_def Let_def)

definition arch_at :: "preg set \<Rightarrow> RegFiles \<Rightarrow> RegFiles \<Rightarrow> bool" where
  "arch_at A F F' \<longleftrightarrow> (\<forall>q. in_file F' q = in_file F q \<and> pr_rob (preg_of F' q) = pr_rob (preg_of F q)
     \<and> pr_data (preg_of F' q) = pr_data (preg_of F q) \<and> pr_flags (preg_of F' q) = pr_flags (preg_of F q)
     \<and> pr_state (preg_of F' q) = (if q \<in> A then PHYSREG_ARCH else pr_state (preg_of F q)))"

lemma arch_atD:
  assumes "arch_at A F F'"
  shows "in_file F' q = in_file F q" "pr_rob (preg_of F' q) = pr_rob (preg_of F q)" "pr_data (preg_of F' q) = pr_data (preg_of F q)"
    "pr_flags (preg_of F' q) = pr_flags (preg_of F q)"
    "pr_state (preg_of F' q) = (if q \<in> A then PHYSREG_ARCH else pr_state (preg_of F q))"
  using assms unfolding arch_at_def by blast+

lemma copy_table_ok:
  assumes "refs_inv R F" "size R + 2 * length ps < 2 ^ 15" "\<forall>p \<in> set ps. in_file F p \<and> pr_state (preg_of F p) \<noteq> PHYSREG_FREE"
  shows "\<exists>F'. copy_table ps F = Some F' \<and> refs_inv (mset ps + mset ps + R) F' \<and> arch_at (set ps) F F'"
  using assms
proof (induction ps arbitrary: F R)
  case Nil
  then show ?case by (simp add: arch_at_def)
next
  case (Cons p ps)
  have p: "in_file F p" "pr_state (preg_of F p) \<noteq> PHYSREG_FREE" "Suc (Suc (size R)) < 2 ^ 15" using Cons.prems(2,3) by auto
  obtain F1 where F1: "changestate p PHYSREG_ARCH F = Some F1" "refs_inv R F1" "only_preg p (\<lambda>r. r\<lparr>pr_state := PHYSREG_ARCH\<rparr>) F F1"
    by (rule change_refs [OF Cons.prems(1) p(1), of PHYSREG_ARCH]) (use p(2) in simp_all)
  note o = only_pregD [OF F1(3)]
  have p1: "in_file F1 p" "pr_state (preg_of F1 p) \<noteq> PHYSREG_FREE" "Suc (size R) < 2 ^ 15" using o p(1,3) by simp_all
  note F2 = addref_refs [OF F1(2) p1]
  have p2: "in_file (addref p F1) p" "pr_state (preg_of (addref p F1) p) \<noteq> PHYSREG_FREE" "Suc (size (add_mset p R)) < 2 ^ 15"
    using p1(1,2) p(3) same_regsD(1,2) [OF F2(2)] by simp_all
  note F3 = addref_refs [OF F2(1) p2]
  have s: "same_regs F1 (addref p (addref p F1))" by (rule same_regs_trans [OF F2(2) F3(2)])
  note s = same_regsD [OF s]
  have alive: "\<forall>q \<in> set ps. in_file (addref p (addref p F1)) q \<and> pr_state (preg_of (addref p (addref p F1)) q) \<noteq> PHYSREG_FREE"
  proof
    fix q assume "q \<in> set ps"
    then have "in_file F q" "pr_state (preg_of F q) \<noteq> PHYSREG_FREE" using Cons.prems(3) by auto
    then show "in_file (addref p (addref p F1)) q \<and> pr_state (preg_of (addref p (addref p F1)) q) \<noteq> PHYSREG_FREE"
      using s o by (cases "q = p") simp_all
  qed
  have "\<exists>F'. copy_table ps (addref p (addref p F1)) = Some F' \<and> refs_inv (mset ps + mset ps + add_mset p (add_mset p R)) F'
      \<and> arch_at (set ps) (addref p (addref p F1)) F'"
    by (rule Cons.IH [OF F3(1) _ alive]) (use Cons.prems(2) in simp)
  then obtain F' where F': "copy_table ps (addref p (addref p F1)) = Some F'"
      "refs_inv (mset ps + mset ps + add_mset p (add_mset p R)) F'" "arch_at (set ps) (addref p (addref p F1)) F'" by blast
  have "arch_at (set (p # ps)) F F'"
    unfolding arch_at_def
  proof
    fix q
    show "in_file F' q = in_file F q \<and> pr_rob (preg_of F' q) = pr_rob (preg_of F q)
     \<and> pr_data (preg_of F' q) = pr_data (preg_of F q) \<and> pr_flags (preg_of F' q) = pr_flags (preg_of F q)
     \<and> pr_state (preg_of F' q) = (if q \<in> set (p # ps) then PHYSREG_ARCH else pr_state (preg_of F q))"
      using arch_atD [OF F'(3), of q] s [of q] o by (cases "q = p") simp_all
  qed
  then show ?case using F1(1) F'(1,2) by (simp add: preg_commit_def)
qed

lemma external_regs_ok:
  assumes B: "booted arf ARCHREG_COUNT F0 t0" and F: "F = upd_preg (t0 ! REG_flags) (\<lambda>r. r\<lparr>pr_flags := ucast (pr_data r)\<rparr>) F0"
    and t: "t = renamable_flags t0"
  obtains F' where "copy_table t F = Some F'" "ren_ok 0 F' t t []" "\<And>r. r < ARCHREG_COUNT \<Longrightarrow> pr_data (preg_of F' (t ! r)) = arf ! r"
    "pr_flags (preg_of F' (t ! REG_flags)) = ucast (arf ! REG_flags)"
proof -
  note d = bootedD [OF B]
  have fl: "REG_flags < ARCHREG_COUNT" "\<not> flag_reg REG_flags" by (simp_all add: reg_numbers flag_reg_def)
  let ?p = "t0 ! REG_flags" and ?g = "\<lambda>r. r\<lparr>pr_flags := ucast (pr_data r)\<rparr>"
  have gk: "pr_state (?g r) = pr_state r \<and> pr_rfid (?g r) = pr_rfid r \<and> pr_idx (?g r) = pr_idx r \<and> pr_refcount (?g r) = pr_refcount r
      \<and> pr_threadid (?g r) = pr_threadid r" for r by simp
  note u = upd_refs [OF d(1) d(4) [OF fl(1)] gk, folded F]
  note o = only_pregD [OF u(2)]
  have same: "in_file F q = in_file F0 q" "pr_rob (preg_of F q) = pr_rob (preg_of F0 q)" "pr_data (preg_of F q) = pr_data (preg_of F0 q)"
    "pr_state (preg_of F q) = pr_state (preg_of F0 q)" for q
    using o by (cases "q = ?p"; simp)+
  have lt: "length t = TRANSREG_COUNT" by (simp add: t d(3))
  have nth: "t ! r = (if flag_reg r then ?p else if r < ARCHREG_COUNT then t0 ! r else (0, 0))" if "r < TRANSREG_COUNT" for r
    unfolding t by (rule renamable_flags_nth [OF d(3) that])
  have null: "in_file F0 (f, 0)" if "f < PHYS_REG_FILE_COUNT" for f by (rule null_in_file [OF d(2) that])
  have img: "q \<in> set t \<longleftrightarrow> q = (0, 0) \<or> q \<in> (!) t0 ` {..<ARCHREG_COUNT}" for q
  proof
    assume "q \<in> set t"
    then obtain r where "r < TRANSREG_COUNT" "q = t ! r" using lt by (metis in_set_conv_nth)
    then show "q = (0, 0) \<or> q \<in> (!) t0 ` {..<ARCHREG_COUNT}" using nth fl by auto
  next
    have "t ! 64 = (0, 0)" "64 < length t" using nth [of 64] lt by (simp_all add: reg_numbers flag_reg_def)
    moreover have "t ! r = t0 ! r" "r < length t" if "r < ARCHREG_COUNT" for r
      using nth [of r] lt that by (simp_all add: reg_numbers flag_reg_def)
    ultimately show "q = (0, 0) \<or> q \<in> (!) t0 ` {..<ARCHREG_COUNT} \<Longrightarrow> q \<in> set t" using nth_mem by (metis imageE lessThan_iff)
  qed
  have st: "pr_state (preg_of F q) = (if snd q = 0 then PHYSREG_ARCH else if q \<in> (!) t0 ` {..<ARCHREG_COUNT} then PHYSREG_WAITING else PHYSREG_FREE)"
    if "in_file F q" for q using d(10) [of q] that same by simp
  have alive: "\<forall>q \<in> set t. in_file F q \<and> pr_state (preg_of F q) \<noteq> PHYSREG_FREE"
  proof
    fix q assume "q \<in> set t"
    then have "in_file F q" using img [of q] null [of 0] d(4) same(1) by (auto simp: PHYS_REG_FILE_COUNT_def)
    moreover from this have "pr_state (preg_of F q) \<noteq> PHYSREG_FREE"
      using st [of q] \<open>q \<in> set t\<close> img [of q] by (auto split: if_splits)
    ultimately show "in_file F q \<and> pr_state (preg_of F q) \<noteq> PHYSREG_FREE" by simp
  qed
  have "size (null_refs PHYS_REG_FILE_COUNT) + 2 * length t < 2 ^ 15" using lt by (simp add: reg_numbers PHYS_REG_FILE_COUNT_def)
  then obtain F' where F': "copy_table t F = Some F'" "refs_inv (mset t + mset t + null_refs PHYS_REG_FILE_COUNT) F'" "arch_at (set t) F F'"
    using copy_table_ok [OF u(1) _ alive] by blast
  note a = arch_atD [OF F'(3)]
  have st': "pr_state (preg_of F' q) = (if snd q = 0 \<or> q \<in> set t then PHYSREG_ARCH else PHYSREG_FREE)" if "in_file F q" for q
    using a(5) [of q] st [OF that] img [of q] by auto
  have com: "committed_ok F' t"
    unfolding committed_ok_def
  proof (intro conjI allI impI)
    show "length t = TRANSREG_COUNT" by (rule lt)
  next
    fix r assume "r < TRANSREG_COUNT"
    then have "t ! r \<in> set t" using lt by simp
    then show "in_file F' (t ! r)" "pr_state (preg_of F' (t ! r)) = PHYSREG_ARCH \<or>
        flag_reg r \<and> pr_state (preg_of F' (t ! r)) = PHYSREG_PENDINGFREE" using alive a st' by auto
  next
    fix r r' assume r: "r < TRANSREG_COUNT" "r' < TRANSREG_COUNT" "\<not> flag_reg r \<and> \<not> flag_reg r' \<and> t ! r = t ! r'"
    show "r = r' \<or> snd (t ! r) = 0"
      using r nth [OF r(1)] nth [OF r(2)] d(8) by (auto simp: inj_on_def split: if_splits)
  next
    fix q assume q: "in_file F' q \<and> pr_state (preg_of F' q) = PHYSREG_ARCH \<and> snd q \<noteq> 0"
    then have "q \<in> set t" using st' [of q] a(1) by (auto split: if_splits)
    then obtain r where r: "r < ARCHREG_COUNT" "q = t0 ! r" using img [of q] q by auto
    then have "r < TRANSREG_COUNT" "\<not> flag_reg r" by (simp_all add: reg_numbers flag_reg_def)
    then show "\<exists>r < TRANSREG_COUNT. \<not> flag_reg r \<and> t ! r = q" using r nth [of r] by auto
  next
    fix f assume "f < PHYS_REG_FILE_COUNT"
    then show "in_file F' (f, 0)" "pr_state (preg_of F' (f, 0)) = PHYSREG_ARCH"
      using null [of f] a(1) same(1) st' [of "(f, 0)"] by simp_all
  next
    fix q assume "in_file F' q \<and> \<not> in_flight (pr_state (preg_of F' q))"
    then show "pr_rob (preg_of F' q) = None" using a(1,2) [of q] same d(9) [of q] by simp
  qed
  have "\<not> in_flight (pr_state (preg_of F' q))" if "in_file F' q" for q using st' [of q] that a(1) by auto
  then have "rob_ok F' []" by (simp add: rob_ok_def)
  then have ren: "ren_ok 0 F' t t []" using F'(2) com by (simp add: ren_ok_def all_refs_def)
  have data: "pr_data (preg_of F' (t ! r)) = arf ! r" if "r < ARCHREG_COUNT" for r
  proof -
    have "t ! r = t0 ! r" using nth [of r] that by (simp add: reg_numbers flag_reg_def)
    then show ?thesis using a(3) same(3) d(5) [OF that] by simp
  qed
  have "t ! REG_flags = ?p" using nth [of REG_flags] fl by (simp add: reg_numbers)
  then have "pr_flags (preg_of F' (t ! REG_flags)) = ucast (arf ! REG_flags)"
    using a(4) o(1) d(5) [OF fl(1)] by simp
  then show ?thesis using that F'(1) ren data by blast
qed

lemma external_ok:
  assumes "all_clean (oc_files C)" "length (oc_commitrrt C) = TRANSREG_COUNT"
  obtains F t where "external_to_core_state C = Some (C\<lparr>oc_files := F, oc_commitrrt := t, oc_specrrt := t\<rparr>)" "ren_ok 0 F t t []"
    "\<And>r. r < ARCHREG_COUNT \<Longrightarrow> pr_data (preg_of F (t ! r)) = oc_commitarf C ! r"
    "pr_flags (preg_of F (t ! REG_flags)) = ucast (oc_commitarf C ! REG_flags)"
proof -
  obtain F0 where F0: "foreach_reg alloc_zeroreg [0..<PHYS_REG_FILE_COUNT] (oc_files C) = Some F0" "boot_null PHYS_REG_FILE_COUNT F0"
    by (rule alloc_zeroregs_ok [OF assms(1)])
  obtain F1 t1 where F1: "alloc_archregs (oc_commitarf C) [0..<ARCHREG_COUNT] (F0, oc_commitrrt C) = Some (F1, t1)"
      "booted (oc_commitarf C) ARCHREG_COUNT F1 t1"
    using alloc_archregs_ok [OF boot_start [OF F0(2) assms(2)]] by blast
  obtain F' where F': "copy_table (renamable_flags t1) (upd_preg (t1 ! REG_flags) (\<lambda>r. r\<lparr>pr_flags := ucast (pr_data r)\<rparr>) F1) = Some F'"
      "ren_ok 0 F' (renamable_flags t1) (renamable_flags t1) []"
      "\<And>r. r < ARCHREG_COUNT \<Longrightarrow> pr_data (preg_of F' (renamable_flags t1 ! r)) = oc_commitarf C ! r"
      "pr_flags (preg_of F' (renamable_flags t1 ! REG_flags)) = ucast (oc_commitarf C ! REG_flags)"
    by (rule external_regs_ok [OF F1(2) refl refl], rule that, assumption+)
  show ?thesis
    by (rule that [OF _ F'(2-4)]) (simp add: external_to_core_state_def F0(1) F1(1) F'(1) Let_def)
qed

end
