(* ===== verification/List_Walk.thy ===== *)
theory List_Walk
  imports Pipe_Flush Reg_Refs
begin

text \<open>
  The traversal \<^verbatim>\<open>foreach_list_mutable\<close>: it visits the entries the list had when it started, also when
  its body takes the current entry off the list. The rule below is the one all loops over a state
  list are proved with.
\<close>

lemma ring_next: "ring h (xs @ e # ys) \<Longrightarrow> lk_next h e = Some (hd (ys @ [hd (xs @ [e])]))"
proof -
  assume r: "ring h (xs @ e # ys)"
  have "path h ((xs @ e # ys) @ [hd (xs @ e # ys)])" using r by (simp add: ring_def)
  then have "path h (xs @ e # (ys @ [hd (xs @ e # ys)]))" by simp
  then have "path h (e # ys @ [hd (xs @ e # ys)])" by (rule path_append [THEN iffD1, THEN conjunct2])
  moreover have "hd (xs @ e # ys) = hd (xs @ [e])" by (cases xs) simp_all
  ultimately show ?thesis by (cases ys) simp_all
qed

lemma foreach_walk:
  assumes step: "\<And>pre e post S. Inv pre (e # post) S \<Longrightarrow>
      \<exists>leave S' pre'. body e S = Some (leave, S') \<and> (leave \<longrightarrow> Q S') \<and> (\<not> leave \<longrightarrow> Inv pre' post S')"
    and ring: "\<And>pre todo S. Inv pre todo S \<Longrightarrow> ring (links S) (root # pre @ todo)"
    and finish: "\<And>pre S. Inv pre [] S \<Longrightarrow> Q S"
    and start: "Inv pre todo S" "length todo \<le> fuel"
  shows "\<exists>S'. foreach_list_mutable fuel links body root (Some (hd (todo @ [root]))) S = Some S' \<and> Q S'"
  using start
proof (induction todo arbitrary: pre S fuel)
  case Nil
  then show ?case using finish by (auto simp: foreach_list_mutable.simps)
next
  case (Cons e post)
  obtain n where n: "fuel = Suc n" "length post \<le> n" using Cons.prems(2) by (cases fuel) auto
  have r: "ring (links S) ((root # pre) @ e # post)" using ring [OF Cons.prems(1)] by simp
  then have e: "e \<noteq> root" by (auto simp: ring_def)
  have next': "lk_next (links S) e = Some (hd (post @ [root]))" using ring_next [OF r] by simp
  obtain leave S' pre' where b: "body e S = Some (leave, S')" "leave \<longrightarrow> Q S'" "\<not> leave \<longrightarrow> Inv pre' post S'"
    using step [OF Cons.prems(1)] by blast
  show ?case
  proof (cases leave)
    case True
    then show ?thesis using b n(1) e by (simp add: foreach_list_mutable.simps)
  next
    case False
    obtain S'' where "foreach_list_mutable n links body root (Some (hd (post @ [root]))) S' = Some S''" "Q S''"
      using Cons.IH [of pre' S' n] b(3) False n(2) by blast
    then show ?thesis using b(1) False n(1) e next' by (subst foreach_list_mutable.simps) (simp add: Let_def)
  qed
qed

text \<open>Over the registers of one file in one state.\<close>

lemma foreach_preg_walk:
  assumes step: "\<And>pre j post L F. Inv pre (j # post) L F \<Longrightarrow> regs_ok L F \<Longrightarrow> L f s = pre @ j # post \<Longrightarrow>
      \<exists>F' L' pre'. body (f, j) F = Some F' \<and> Inv pre' post L' F' \<and> regs_ok L' F' \<and> L' f s = pre' @ post"
    and f: "f < PHYS_REG_FILE_COUNT" and s: "s < MAX_PHYSREG_STATE" and ok: "regs_ok L F" and start: "Inv [] (L f s) L F"
    and size: "pf_size (rf_files F ! f) \<le> MAX_PHYS_REG_FILE_SIZE"
  shows "\<exists>F' L'. foreach_preg f s body F = Some F' \<and> regs_ok L' F' \<and> Inv (L' f s) [] L' F'"
proof -
  let ?root = "ListOf f s"
  let ?body = "\<lambda>e F. case e of Reg f i \<Rightarrow> map_option (Pair False) (body (f, i) F) | ListOf _ _ \<Rightarrow> None"
  define I where "I = (\<lambda>pre todo F. \<exists>L ps ts. regs_ok L F \<and> L f s = ps @ ts \<and> pre = map (Reg f) ps \<and> todo = map (Reg f) ts \<and> Inv ps ts L F)"
  have root: "?root \<in> state_roots" using f s by (auto simp: state_roots_def)
  have ring: "ring (lh_links (rf_heap F)) (?root # pre @ todo)" if I: "I pre todo F" for pre todo F
  proof -
    obtain L ps ts where L: "regs_ok L F" "L f s = ps @ ts" "pre = map (Reg f) ps" "todo = map (Reg f) ts"
      using I unfolding I_def by (elim exE conjE) (rule that)
    have "ring (lh_links (rf_heap F)) (?root # map (Reg f) (L f s))"
      using state_listsD(1) [OF regs_okD(2) [OF L(1)] root] by (simp add: node_contents_def)
    then show ?thesis using L(2-4) by simp
  qed
  have step': "\<exists>leave F' pre'. ?body e F = Some (leave, F') \<and> (leave \<longrightarrow> (\<exists>L'. regs_ok L' F' \<and> Inv (L' f s) [] L' F'))
      \<and> (\<not> leave \<longrightarrow> I pre' post F')" if I: "I pre (e # post) F" for pre e post F
  proof -
    obtain L ps ts where L: "regs_ok L F" "L f s = ps @ ts" "pre = map (Reg f) ps" "e # post = map (Reg f) ts" "Inv ps ts L F"
      using I unfolding I_def by (elim exE conjE) (rule that)
    obtain j ts' where ts: "ts = j # ts'" "e = Reg f j" "post = map (Reg f) ts'" using L(4) by (cases ts) auto
    have "L f s = ps @ j # ts'" "Inv ps (j # ts') L F" using L(2,5) ts(1) by simp_all
    from step [OF this(2) L(1) this(1)] obtain F' L' pre' where F': "body (f, j) F = Some F'" "Inv pre' ts' L' F'" "regs_ok L' F'"
      "L' f s = pre' @ ts'" by (elim exE conjE) (rule that)
    have "I (map (Reg f) pre') (map (Reg f) ts') F'" unfolding I_def
      by (intro exI [of _ L'] exI [of _ pre'] exI [of _ ts'] conjI refl F'(2-4))
    then show ?thesis using ts F'(1) by auto
  qed
  have fin: "\<exists>L'. regs_ok L' F \<and> Inv (L' f s) [] L' F" if "I pre [] F" for pre F
    using that unfolding I_def by auto
  have start': "I [] (map (Reg f) (L f s)) F" unfolding I_def
    by (intro exI [of _ L] exI [of _ "[]"] exI [of _ "L f s"] conjI refl ok start) simp_all
  have len: "length (map (Reg f) (L f s)) \<le> MAX_PHYS_REG_FILE_SIZE"
  proof -
    have d: "distinct (L f s)" using state_listsD(3) [OF regs_okD(2) [OF ok] root] by (simp add: node_contents_def distinct_map)
    have "set (L f s) \<subseteq> {..<pf_size (rf_files F ! f)}" using regs_okD(4) [OF ok f s] by (auto simp: in_file_def)
    then have "card (set (L f s)) \<le> pf_size (rf_files F ! f)" using card_mono [of "{..<pf_size (rf_files F ! f)}"] by simp
    then show ?thesis using d size by (simp add: distinct_card)
  qed
  have "\<exists>F'. foreach_list_mutable MAX_PHYS_REG_FILE_SIZE (\<lambda>F. lh_links (rf_heap F)) ?body ?root
      (Some (hd (map (Reg f) (L f s) @ [?root]))) F = Some F' \<and> (\<exists>L'. regs_ok L' F' \<and> Inv (L' f s) [] L' F')"
    by (rule foreach_walk [where Inv = I and pre = "[]"]) (erule step' | erule ring | erule fin | rule start' | rule len)+
  then obtain F' where F': "foreach_list_mutable MAX_PHYS_REG_FILE_SIZE (\<lambda>F. lh_links (rf_heap F)) ?body ?root
      (Some (hd (map (Reg f) (L f s) @ [?root]))) F = Some F'" "\<exists>L'. regs_ok L' F' \<and> Inv (L' f s) [] L' F'" by blast
  have "ring (lh_links (rf_heap F)) ([] @ ?root # map (Reg f) (L f s))"
    using state_listsD(1) [OF regs_okD(2) [OF ok] root] by (simp add: node_contents_def)
  then have "lk_next (lh_links (rf_heap F)) ?root = Some (hd (map (Reg f) (L f s) @ [?root]))" using ring_next by fastforce
  then show ?thesis using F' by (auto simp: foreach_preg_def)
qed

end
