(* ===== verification/Flush_Core.thy ===== *)
theory Flush_Core
  imports Rename_Stage Flush_Regs List_Walk
begin

text \<open>
  The flush brings the core into a state that satisfies the invariant of the pipeline, with nothing
  in flight and the architectural values in the register files, from every state that satisfies it
  and from the state the core has when it is built.
\<close>

subsection \<open>Freeing registers\<close>

definition half_clean :: "RegFiles \<Rightarrow> bool" where
  "half_clean F \<longleftrightarrow> (\<exists>L. regs_ok L F) \<and> (\<forall>f < PHYS_REG_FILE_COUNT. pf_size (rf_files F ! f) = physreg_sizes f)
     \<and> (\<forall>p. in_file F p \<longrightarrow> (if pr_state (preg_of F p) = PHYSREG_FREE then clean_reg (preg_of F p) else pr_threadid (preg_of F p) = 0))"

lemma half_cleanD:
  assumes "half_clean F"
  shows "\<exists>L. regs_ok L F" "f < PHYS_REG_FILE_COUNT \<Longrightarrow> pf_size (rf_files F ! f) = physreg_sizes f"
    "in_file F p \<Longrightarrow> pr_state (preg_of F p) = PHYSREG_FREE \<Longrightarrow> clean_reg (preg_of F p)"
    "in_file F p \<Longrightarrow> pr_state (preg_of F p) \<noteq> PHYSREG_FREE \<Longrightarrow> pr_threadid (preg_of F p) = 0"
  using assms unfolding half_clean_def by (blast, blast, metis, metis)

lemma preg_reset_ok:
  assumes "half_clean F" "in_file F (f, j)" "pr_state (preg_of F (f, j)) \<noteq> PHYSREG_FREE" "regs_ok L F"
  obtains F' where "preg_reset_thread (f, j) 0 True F = Some F'" "half_clean F'" "only_preg (f, j) freed_reg F F'"
    "regs_ok (move f j (pr_state (preg_of F (f, j))) PHYSREG_FREE L) F'"
proof -
  obtain F' where F': "preg_free (f, j) F = Some F'" "regs_ok (move f j (pr_state (preg_of F (f, j))) PHYSREG_FREE L) F'"
      "only_preg (f, j) freed_reg F F'"
    using free_ok [OF assms(4,2) refl] unfolding freed_reg_def by metis
  note o = only_pregD [OF F'(3)]
  have "half_clean F'"
    unfolding half_clean_def
  proof (intro conjI allI impI)
    fix q assume q: "in_file F' q"
    show "if pr_state (preg_of F' q) = PHYSREG_FREE then clean_reg (preg_of F' q) else pr_threadid (preg_of F' q) = 0"
    proof (cases "q = (f, j)")
      case True
      then show ?thesis using o(1) by (simp add: freed_reg_def clean_reg_def)
    next
      case False
      then show ?thesis using half_cleanD(3,4) [OF assms(1), of q] o(2) [OF False] o(3) [of q] q by simp
    qed
  qed (use F'(2) half_cleanD(2) [OF assms(1)] o(4) in auto)
  moreover have "preg_reset_thread (f, j) 0 True F = Some F'"
    using F'(1) half_cleanD(4) [OF assms(1-3)] by (simp add: preg_reset_thread_def)
  ultimately show ?thesis using that F'(2,3) by blast
qed

text \<open>The registers of a set are free, the others are as they were.\<close>

definition freed :: "preg set \<Rightarrow> RegFiles \<Rightarrow> RegFiles \<Rightarrow> bool" where
  "freed A F F' \<longleftrightarrow> half_clean F' \<and> (\<forall>q. in_file F' q = in_file F q
     \<and> pr_state (preg_of F' q) = (if q \<in> A then PHYSREG_FREE else pr_state (preg_of F q)))"

lemma freedD:
  assumes "freed A F F'"
  shows "half_clean F'" "in_file F' q = in_file F q"
    "pr_state (preg_of F' q) = (if q \<in> A then PHYSREG_FREE else pr_state (preg_of F q))"
  using assms unfolding freed_def by blast+

lemma freed_trans: "freed A F F' \<Longrightarrow> freed B F' F'' \<Longrightarrow> freed (A \<union> B) F F''"
  unfolding freed_def by auto

lemma freed_one: "half_clean F' \<Longrightarrow> only_preg p freed_reg F F' \<Longrightarrow> freed {p} F F'"
  using only_pregD [of p freed_reg F F'] unfolding freed_def
  by (auto simp: freed_reg_def simp del: split_paired_All)

lemma freed_refl: "half_clean F \<Longrightarrow> freed {} F F"
  by (simp add: freed_def)

definition in_state :: "nat \<Rightarrow> nat \<Rightarrow> RegFiles \<Rightarrow> preg set" where
  "in_state f s F = {(f, j) | j. in_file F (f, j) \<and> pr_state (preg_of F (f, j)) = s}"

lemma reset_state_ok:
  assumes F: "half_clean F" and f: "f < PHYS_REG_FILE_COUNT" and s: "s < MAX_PHYSREG_STATE" "s \<noteq> PHYSREG_FREE"
  shows "\<exists>F'. reset_state s f F = Some F' \<and> freed (in_state f s F) F F'"
proof -
  obtain L where L: "regs_ok L F" using half_cleanD(1) [OF F] by blast
  let ?Inv = "\<lambda>pre todo L G. pre = [] \<and> freed (in_state f s F - Pair f ` set todo) F G \<and> distinct todo \<and> Pair f ` set todo \<subseteq> in_state f s F"
  have "\<exists>F' L'. foreach_preg f s (\<lambda>p. preg_reset_thread p 0 True) F = Some F' \<and> regs_ok L' F' \<and> ?Inv (L' f s) [] L' F'"
  proof (rule foreach_preg_walk [where Inv = ?Inv, OF _ f s(1) L])
    fix pre j post K G assume I: "?Inv pre (j # post) K G" and K: "regs_ok K G" "K f s = pre @ j # post"
    note d = freedD [OF conjunct1 [OF conjunct2 [OF I]]]
    have j: "in_file G (f, j)" "pr_state (preg_of G (f, j)) = s"
      using I d(2,3) [of "(f, j)"] by (auto simp: in_state_def)
    obtain G' where G': "preg_reset_thread (f, j) 0 True G = Some G'" "half_clean G'" "only_preg (f, j) freed_reg G G'"
        "regs_ok (move f j s PHYSREG_FREE K) G'"
      using preg_reset_ok [OF d(1) j(1) _ K(1)] j(2) s(2) by metis
    have "freed ((in_state f s F - Pair f ` set (j # post)) \<union> {(f, j)}) F G'"
      by (rule freed_trans [OF _ freed_one [OF G'(2,3)]]) (use I in blast)
    moreover have "(in_state f s F - Pair f ` set (j # post)) \<union> {(f, j)} = in_state f s F - Pair f ` set post"
      using I by auto
    moreover have "move f j s PHYSREG_FREE K f s = post" using K(2) I s(2) by (simp add: move_def Let_def)
    ultimately have "?Inv [] post (move f j s PHYSREG_FREE K) G'" "move f j s PHYSREG_FREE K f s = [] @ post"
      using I by auto
    then show "\<exists>F' L' pre'. preg_reset_thread (f, j) 0 True G = Some F' \<and> ?Inv pre' post L' F' \<and> regs_ok L' F' \<and> L' f s = pre' @ post"
      using G'(1,4) by blast
  next
    have set: "Pair f ` set (L f s) = in_state f s F" using regs_okD(4) [OF L f s(1)] by (auto simp: in_state_def)
    have "ListOf f s \<in> state_roots" using f s(1) by (auto simp: state_roots_def)
    then have "distinct (L f s)" using state_listsD(3) [OF regs_okD(2) [OF L]] by (fastforce simp: node_contents_def distinct_map)
    then show "?Inv [] (L f s) L F" using F set by (auto simp: freed_def)
    show "pf_size (rf_files F ! f) \<le> MAX_PHYS_REG_FILE_SIZE"
      using half_cleanD(2) [OF F f] f
      by (auto simp: physreg_sizes_def MAX_PHYS_REG_FILE_SIZE_def PHYS_REG_FILE_COUNT_def less_Suc_eq numeral_eq_Suc)
  qed
  then show ?thesis by (auto simp: reset_state_def)
qed

lemma reset_states_ok:
  assumes "half_clean F" "s < MAX_PHYSREG_STATE" "s \<noteq> PHYSREG_FREE"
  shows "\<exists>F'. foreach_reg (reset_state s) [0..<PHYS_REG_FILE_COUNT] F = Some F'
    \<and> freed {q. in_file F q \<and> pr_state (preg_of F q) = s} F F'"
proof -
  have "\<exists>F'. foreach_reg (reset_state s) [f..<PHYS_REG_FILE_COUNT] F = Some F'
      \<and> freed {q. f \<le> fst q \<and> in_file F q \<and> pr_state (preg_of F q) = s} F F'"
    if "half_clean F" "f \<le> PHYS_REG_FILE_COUNT" for f F
    using that
  proof (induction "PHYS_REG_FILE_COUNT - f" arbitrary: f F)
    case 0
    then have e: "{q. f \<le> fst q \<and> in_file F q \<and> pr_state (preg_of F q) = s} = {}" by (auto simp: in_file_def)
    show ?case unfolding e using 0 freed_refl by simp
  next
    case (Suc d)
    then have f: "f < PHYS_REG_FILE_COUNT" by simp
    obtain F1 where F1: "reset_state s f F = Some F1" "freed (in_state f s F) F F1"
      using reset_state_ok [OF Suc.prems(1) f assms(2,3)] by blast
    have "d = PHYS_REG_FILE_COUNT - Suc f" "Suc f \<le> PHYS_REG_FILE_COUNT" using Suc.hyps(2) f by simp_all
    then obtain F' where F': "foreach_reg (reset_state s) [Suc f..<PHYS_REG_FILE_COUNT] F1 = Some F'"
        "freed {q. Suc f \<le> fst q \<and> in_file F1 q \<and> pr_state (preg_of F1 q) = s} F1 F'"
      using Suc.hyps(1) [of "Suc f" F1] freedD(1) [OF F1(2)] by blast
    have "in_state f s F \<union> {q. Suc f \<le> fst q \<and> in_file F1 q \<and> pr_state (preg_of F1 q) = s}
        = {q. f \<le> fst q \<and> in_file F q \<and> pr_state (preg_of F q) = s}"
      using freedD(2,3) [OF F1(2)] assms(3) by (auto simp: in_state_def Suc_le_eq le_less prod_eq_iff)
    then have "freed {q. f \<le> fst q \<and> in_file F q \<and> pr_state (preg_of F q) = s} F F'"
      using freed_trans [OF F1(2) F'(2)] by simp
    then show ?case using F1(1) F'(1) f by (simp add: upt_conv_Cons)
  qed
  from this [OF assms(1), of 0] show ?thesis by simp
qed

end
