(* ===== verification/Lock_Frame.thy ===== *)
theory Lock_Frame
  imports Core_Inv Pipe_Flush
begin

text \<open>
  Releasing memory locks leaves the registers, the tables and the queues alone: it changes only the
  lock controller, the list of queued releases and the lock flags of the entries.
\<close>

definition unlock :: "ReorderBufferEntry \<Rightarrow> ReorderBufferEntry" where
  "unlock r = r\<lparr>rb_lock_acquired := False\<rparr>"

definition lock_like :: "Core \<Rightarrow> Core \<Rightarrow> bool" where
  "lock_like C C' \<longleftrightarrow> (\<exists>a l q. C' = C\<lparr>oc_interlocks := a, oc_queued_mem_lock_release_list := l, oc_ROB := q\<rparr>
     \<and> head q = head (oc_ROB C) \<and> tail q = tail (oc_ROB C) \<and> FixedQueue.count q = FixedQueue.count (oc_ROB C)
     \<and> length (slots q) = length (slots (oc_ROB C))
     \<and> (\<forall>i < length (slots q). unlock (slots q ! i) = unlock (slots (oc_ROB C) ! i)))"

lemma lock_like_refl [simp]: "lock_like C C"
  unfolding lock_like_def by (intro exI [of _ "oc_interlocks C"] exI [of _ "oc_queued_mem_lock_release_list C"] exI [of _ "oc_ROB C"]) simp

lemma lock_like_trans:
  assumes "lock_like C D" "lock_like D E"
  shows "lock_like C E"
proof -
  obtain a l q where D: "D = C\<lparr>oc_interlocks := a, oc_queued_mem_lock_release_list := l, oc_ROB := q\<rparr>"
      "head q = head (oc_ROB C)" "tail q = tail (oc_ROB C)" "FixedQueue.count q = FixedQueue.count (oc_ROB C)"
      "length (slots q) = length (slots (oc_ROB C))" "\<forall>i < length (slots q). unlock (slots q ! i) = unlock (slots (oc_ROB C) ! i)"
    using assms(1) unfolding lock_like_def by blast
  obtain a' l' q' where E: "E = D\<lparr>oc_interlocks := a', oc_queued_mem_lock_release_list := l', oc_ROB := q'\<rparr>"
      "head q' = head (oc_ROB D)" "tail q' = tail (oc_ROB D)" "FixedQueue.count q' = FixedQueue.count (oc_ROB D)"
      "length (slots q') = length (slots (oc_ROB D))" "\<forall>i < length (slots q'). unlock (slots q' ! i) = unlock (slots (oc_ROB D) ! i)"
    using assms(2) unfolding lock_like_def by blast
  show ?thesis
    unfolding lock_like_def
    by (intro exI [of _ a'] exI [of _ l'] exI [of _ q']) (use D E in simp)
qed

lemma unlock_fields:
  "unlock r' = unlock r \<Longrightarrow> rob_view r' = rob_view r \<and> rb_list r' = rb_list r \<and> rb_entry_valid r' = rb_entry_valid r
     \<and> rb_operands r' = rb_operands r \<and> rb_idx r' = rb_idx r \<and> rb_physreg r' = rb_physreg r \<and> rb_uop r' = rb_uop r
     \<and> rb_lsq r' = rb_lsq r \<and> rb_cluster r' = rb_cluster r \<and> rb_lfrqslot r' = rb_lfrqslot r"
  by (cases r; cases r') (simp add: unlock_def rob_view_def)

lemma lock_likeD:
  assumes "lock_like C D"
  shows "oc_files D = oc_files C" "oc_specrrt D = oc_specrrt C" "oc_commitrrt D = oc_commitrrt C" "oc_rob_lists D = oc_rob_lists C"
    "oc_fetchq D = oc_fetchq C" "oc_LSQ D = oc_LSQ C" "oc_commitarf D = oc_commitarf C" "oc_branchpred D = oc_branchpred C"
    "oc_round_robin_reg_file_offset D = oc_round_robin_reg_file_offset C" "oc_caches D = oc_caches C"
    "head (oc_ROB D) = head (oc_ROB C)" "tail (oc_ROB D) = tail (oc_ROB C)" "FixedQueue.count (oc_ROB D) = FixedQueue.count (oc_ROB C)"
    "length (slots (oc_ROB D)) = length (slots (oc_ROB C))"
    "i < length (slots (oc_ROB C)) \<Longrightarrow> unlock (rob_at i D) = unlock (rob_at i C)"
  using assms unfolding lock_like_def rob_at_def by auto

lemma unlock_update: "unlock (xs[i := (xs ! i)\<lparr>rb_lock_acquired := b\<rparr>] ! j) = unlock (xs ! j)"
  by (cases "j = i"; cases "i < length xs") (auto simp: unlock_def list_update_beyond)

lemma lock_probe_like: "lock_probe a C = (r, C') \<Longrightarrow> lock_like C C'"
proof -
  assume "lock_probe a C = (r, C')"
  then obtain b where "C' = C\<lparr>oc_interlocks := b\<rparr>" by (auto simp: lock_probe_def split: prod.splits)
  then show ?thesis unfolding lock_like_def
    by (intro exI [of _ b] exI [of _ "oc_queued_mem_lock_release_list C"] exI [of _ "oc_ROB C"]) simp
qed

lemma release_mem_lock_like: "release_mem_lock i C = Some (b, C') \<Longrightarrow> lock_like C C'"
proof -
  assume r: "release_mem_lock i C = Some (b, C')"
  show ?thesis
  proof (cases "rb_lock_acquired (rob_at i C)")
    case False
    then show ?thesis using r by (simp add: release_mem_lock_def)
  next
    case True
    then obtain l a x where C': "lock_probe a C = (Some l, x)"
        "C' = upd_rob i (\<lambda>r. r\<lparr>rb_lock_acquired := False\<rparr>)
          (x\<lparr>oc_queued_mem_lock_release_list := oc_queued_mem_lock_release_list x @ [a]\<rparr>)"
      using r by (auto simp: release_mem_lock_def Let_def split: prod.splits option.splits bind_splits)
    have "lock_like x C'"
      unfolding lock_like_def C'(2) upd_rob_def
      by (intro exI [of _ "oc_interlocks x"] exI [of _ "oc_queued_mem_lock_release_list x @ [a]"]
          exI [of _ "(oc_ROB x)\<lparr>slots := (slots (oc_ROB x))[i := (slots (oc_ROB x) ! i)\<lparr>rb_lock_acquired := False\<rparr>]\<rparr>"])
        (simp add: unlock_update)
    then show ?thesis using lock_like_trans [OF lock_probe_like [OF C'(1)]] by simp
  qed
qed

lemma release_locks_like: "release_locks as C = Some C' \<Longrightarrow> lock_like C C'"
proof (induction "as" arbitrary: C)
  case (Cons a "as")
  then obtain l x where x: "lock_probe a C = (Some l, x)"
      "release_locks as (x\<lparr>oc_interlocks := laa_invalidate lock_reset INTERLOCK_LINE a (oc_interlocks x)\<rparr>) = Some C'"
    by (auto split: prod.splits option.splits bind_splits)
  let ?y = "x\<lparr>oc_interlocks := laa_invalidate lock_reset INTERLOCK_LINE a (oc_interlocks x)\<rparr>"
  have "lock_like x ?y" unfolding lock_like_def
    by (intro exI [of _ "oc_interlocks ?y"] exI [of _ "oc_queued_mem_lock_release_list x"] exI [of _ "oc_ROB x"]) simp
  then show ?case using lock_like_trans lock_probe_like [OF x(1)] Cons.IH [OF x(2)] by blast
qed simp

lemma flush_list_like: "flush_mem_lock_release_list n C = Some C' \<Longrightarrow> lock_like C C'"
proof -
  assume "flush_mem_lock_release_list n C = Some C'"
  then obtain D where D: "release_locks (drop n (oc_queued_mem_lock_release_list C)) C = Some D"
      "C' = D\<lparr>oc_queued_mem_lock_release_list := take n (oc_queued_mem_lock_release_list D)\<rparr>"
    by (auto simp: flush_mem_lock_release_list_def)
  have "lock_like D C'" unfolding lock_like_def D(2)
    by (intro exI [of _ "oc_interlocks D"] exI [of _ "take n (oc_queued_mem_lock_release_list D)"] exI [of _ "oc_ROB D"]) simp
  then show ?thesis using lock_like_trans [OF release_locks_like [OF D(1)]] by simp
qed

text \<open>Nothing is held: nothing happens.\<close>

lemma no_locks:
  "\<not> rb_lock_acquired (rob_at i C) \<Longrightarrow> release_mem_lock i C = Some (False, C)"
  "oc_queued_mem_lock_release_list C = [] \<Longrightarrow> flush_mem_lock_release_list n C = Some C"
  by (simp_all add: release_mem_lock_def flush_mem_lock_release_list_def)

end
