(* ===== verification/Flush_Inv.thy ===== *)
theory Flush_Inv
  imports Flush_Core Lock_Frame
begin

text \<open>
  The flush as a whole: from every state the pipeline can be in, and from the state the core has
  when it is built, it reaches an empty pipeline that satisfies the invariant and whose registers
  hold the architectural values.
\<close>

definition flush_ready :: "Core \<Rightarrow> bool" where
  "flush_ready C \<longleftrightarrow> fq_inv (oc_ROB C) \<and> length (slots (oc_ROB C)) = ROB_SIZE \<and> half_clean (oc_files C)
     \<and> (\<forall>e \<in> set (entries C). \<exists>p. rb_physreg e = Some p \<and> in_file (oc_files C) p \<and> pr_state (preg_of (oc_files C) p) \<noteq> PHYSREG_FREE)
     \<and> distinct (map rb_physreg (entries C))
     \<and> (\<forall>p. in_file (oc_files C) p \<longrightarrow> pr_state (preg_of (oc_files C) p) = PHYSREG_FREE
          \<or> pr_state (preg_of (oc_files C) p) = PHYSREG_ARCH \<or> pr_state (preg_of (oc_files C) p) = PHYSREG_PENDINGFREE
          \<or> Some p \<in> set (map rb_physreg (entries C)))
     \<and> length (oc_commitrrt C) = TRANSREG_COUNT \<and> slots (oc_fetchq C) \<noteq> []
     \<and> 0 \<le> oc_round_robin_reg_file_offset C \<and> oc_round_robin_reg_file_offset C < int PHYS_REG_FILE_COUNT"

lemma live_cases: "live_state s \<Longrightarrow> s = PHYSREG_FREE \<or> s = PHYSREG_ARCH \<or> s = PHYSREG_PENDINGFREE \<or> in_flight s"
  by (auto simp: live_state_def in_flight_def PHYSREG_NONE_def PHYSREG_FREE_def PHYSREG_WAITING_def PHYSREG_BYPASS_def
      PHYSREG_WRITTEN_def PHYSREG_ARCH_def PHYSREG_PENDINGFREE_def MAX_PHYSREG_STATE_def)

lemma half_clean_inv:
  assumes "ren_ok k F spec commit es"
  shows "half_clean F"
proof -
  note d = refs_invD [OF ren_okD(1) [OF assms]] and c = committed_okD [OF ren_okD(2) [OF assms]]
  have "clean_reg (preg_of F p)" if p: "in_file F p" "pr_state (preg_of F p) = PHYSREG_FREE" for p
  proof -
    have "snd p \<noteq> 0"
    proof
      assume "snd p = 0"
      then have "p = (fst p, 0)" by (simp add: prod_eq_iff)
      moreover have "fst p < PHYS_REG_FILE_COUNT" using p(1) by (simp add: in_file_def)
      ultimately show False using c(8) p(2) by (metis states_distinct(7))
    qed
    moreover have "p \<notin># all_refs spec commit es" using d(4) p(2) by blast
    ultimately have "sint (pr_refcount (preg_of F p)) = 0" using d(5) [OF p(1)] by (simp add: not_in_iff)
    moreover have "pr_refcount (preg_of F p) = word_of_int (sint (pr_refcount (preg_of F p)))" by simp
    ultimately have "pr_refcount (preg_of F p) = 0" by simp
    then show ?thesis using c(9) [OF p(1)] p(2) by (simp add: clean_reg_def)
  qed
  then show ?thesis using d(1,6,7) unfolding half_clean_def by simp
qed

lemma core_flush_ready:
  assumes "core_inv C" "fetch_inv C"
  shows "flush_ready C"
proof -
  note c = core_invD [OF assms(1)]
  note r = ren_okD [OF c(4)]
  obtain L where L: "regs_ok L (oc_files C)" using refs_invD(1) [OF r(1)] by blast
  have "\<exists>p. rb_physreg e = Some p \<and> in_file (oc_files C) p \<and> pr_state (preg_of (oc_files C) p) \<noteq> PHYSREG_FREE"
    if "e \<in> set (entries C)" for e
    using rob_okD(1) [OF r(3) that] in_flightD unfolding entry_ok_def by metis
  moreover have "pr_state (preg_of (oc_files C) p) = PHYSREG_FREE \<or> pr_state (preg_of (oc_files C) p) = PHYSREG_ARCH
      \<or> pr_state (preg_of (oc_files C) p) = PHYSREG_PENDINGFREE \<or> Some p \<in> set (map rb_physreg (entries C))"
    if "in_file (oc_files C) p" for p
    using regs_okD(3) [OF L that] live_cases rob_okD(4) [OF r(3) that] by blast
  moreover have "slots (oc_fetchq C) \<noteq> []" using fq_invD(1) assms(2) by (force simp: fetch_inv_def fq_size_def)
  ultimately show ?thesis
    unfolding flush_ready_def using c(1,2) half_clean_inv [OF c(4)] rob_okD(2) [OF r(3)] committed_okD(1) [OF r(2)] assms(1)
    by (simp add: core_inv_def)
qed

subsection \<open>The entries\<close>

lemma flush_robs_ok:
  assumes "flush_robs js C = Some C'" "half_clean (oc_files C)" "distinct (map (\<lambda>j. rb_physreg (rob_at j C)) js)"
    and "\<forall>j \<in> set js. j < length (slots (oc_ROB C)) \<and> (\<exists>p. rb_physreg (rob_at j C) = Some p \<and> in_file (oc_files C) p
      \<and> pr_state (preg_of (oc_files C) p) \<noteq> PHYSREG_FREE)"
  shows "freed {p. Some p \<in> (\<lambda>j. rb_physreg (rob_at j C)) ` set js} (oc_files C) (oc_files C')"
    "lock_like (C\<lparr>oc_files := oc_files C'\<rparr>) C'"
proof -
  have "freed {p. Some p \<in> (\<lambda>j. rb_physreg (rob_at j C)) ` set js} (oc_files C) (oc_files C')
      \<and> lock_like (C\<lparr>oc_files := oc_files C'\<rparr>) C'"
    using assms
  proof (induction js arbitrary: C)
    case Nil
    then show ?case using freed_refl by simp
  next
    case (Cons j js)
    obtain b C1 C2 C3 where s: "release_mem_lock j C = Some (b, C1)" "flush_mem_lock_release_list 0 C1 = Some C2"
        "upd_physreg j (\<lambda>p. preg_reset_thread p 0 True) C2 = Some C3" "flush_robs js C3 = Some C'"
      using Cons.prems(1) by (auto split: bind_splits)
    have like: "lock_like C C2" by (rule lock_like_trans [OF release_mem_lock_like [OF s(1)] flush_list_like [OF s(2)]])
    note l = lock_likeD [OF like]
    have phys: "rb_physreg (rob_at i C2) = rb_physreg (rob_at i C)" if "i < length (slots (oc_ROB C))" for i
      using unlock_fields [OF l(15) [OF that]] by simp
    obtain p where p: "rb_physreg (rob_at j C) = Some p" "in_file (oc_files C) p" "pr_state (preg_of (oc_files C) p) \<noteq> PHYSREG_FREE"
        "j < length (slots (oc_ROB C))" using Cons.prems(4) by auto
    obtain L where L: "regs_ok L (oc_files C)" using half_cleanD(1) [OF Cons.prems(2)] by blast
    obtain f i where fi: "p = (f, i)" by (cases p)
    obtain F where F: "preg_reset_thread p 0 True (oc_files C) = Some F" "half_clean F" "only_preg p freed_reg (oc_files C) F"
      using preg_reset_ok [OF Cons.prems(2) p(2,3) [unfolded fi] L] fi by metis
    have C3: "C3 = C2\<lparr>oc_files := F\<rparr>" using s(3) phys [OF p(4)] p(1) F(1) l(1) by (simp add: upd_physreg_def)
    note fr = freed_one [OF F(2,3)]
    have at: "rob_at i C3 = rob_at i C2" for i by (simp add: C3 rob_at_def)
    have at3: "rb_physreg (rob_at k C3) = rb_physreg (rob_at k C)" if "k \<in> set (j # js)" for k
      using Cons.prems(4) that phys at by auto
    have m: "map (\<lambda>j. rb_physreg (rob_at j C3)) js = map (\<lambda>j. rb_physreg (rob_at j C)) js" using at3 by simp
    have "freed {p. Some p \<in> (\<lambda>j. rb_physreg (rob_at j C3)) ` set js} (oc_files C3) (oc_files C')
        \<and> lock_like (C3\<lparr>oc_files := oc_files C'\<rparr>) C'"
    proof (rule Cons.IH [OF s(4)])
      show "half_clean (oc_files C3)" using F(2) by (simp add: C3)
      show "distinct (map (\<lambda>j. rb_physreg (rob_at j C3)) js)" unfolding m using Cons.prems(3) by simp
      show "\<forall>j \<in> set js. j < length (slots (oc_ROB C3)) \<and> (\<exists>p. rb_physreg (rob_at j C3) = Some p \<and> in_file (oc_files C3) p
          \<and> pr_state (preg_of (oc_files C3) p) \<noteq> PHYSREG_FREE)"
      proof
        fix k assume k: "k \<in> set js"
        then obtain q where q: "rb_physreg (rob_at k C) = Some q" "in_file (oc_files C) q"
            "pr_state (preg_of (oc_files C) q) \<noteq> PHYSREG_FREE" "k < length (slots (oc_ROB C))" using Cons.prems(4) by auto
        have "rb_physreg (rob_at k C) \<noteq> rb_physreg (rob_at j C)" using Cons.prems(3) k by (auto simp: image_iff)
        then have "q \<noteq> p" using q(1) p(1) by auto
        then show "k < length (slots (oc_ROB C3)) \<and> (\<exists>p. rb_physreg (rob_at k C3) = Some p \<and> in_file (oc_files C3) p
          \<and> pr_state (preg_of (oc_files C3) p) \<noteq> PHYSREG_FREE)"
          using q at3 [of k] k freedD(2,3) [OF fr] l(14) by (simp add: C3)
      qed
    qed
    then have IH: "freed {p. Some p \<in> (\<lambda>j. rb_physreg (rob_at j C3)) ` set js} F (oc_files C')"
        "lock_like (C3\<lparr>oc_files := oc_files C'\<rparr>) C'" by (simp_all add: C3)
    have "{p} \<union> {p. Some p \<in> (\<lambda>j. rb_physreg (rob_at j C3)) ` set js} = {p. Some p \<in> (\<lambda>j. rb_physreg (rob_at j C)) ` set (j # js)}"
      using p(1) arg_cong [OF m, of set] by auto
    then have "freed {p. Some p \<in> (\<lambda>j. rb_physreg (rob_at j C)) ` set (j # js)} (oc_files C) (oc_files C')"
      using freed_trans [OF fr IH(1)] by simp
    moreover have "lock_like (C\<lparr>oc_files := oc_files C'\<rparr>) (C3\<lparr>oc_files := oc_files C'\<rparr>)"
    proof -
      obtain a ls q where "C2 = C\<lparr>oc_interlocks := a, oc_queued_mem_lock_release_list := ls, oc_ROB := q\<rparr>"
          "head q = head (oc_ROB C) \<and> tail q = tail (oc_ROB C) \<and> FixedQueue.count q = FixedQueue.count (oc_ROB C)
           \<and> length (slots q) = length (slots (oc_ROB C))
           \<and> (\<forall>i < length (slots q). unlock (slots q ! i) = unlock (slots (oc_ROB C) ! i))"
        using like unfolding lock_like_def by blast
      then show ?thesis unfolding lock_like_def C3 by (intro exI [of _ a] exI [of _ ls] exI [of _ q]) simp
    qed
    ultimately show ?case using lock_like_trans IH(2) by blast
  qed
  then show "freed {p. Some p \<in> (\<lambda>j. rb_physreg (rob_at j C)) ` set js} (oc_files C) (oc_files C')"
    "lock_like (C\<lparr>oc_files := oc_files C'\<rparr>) C'" by blast+
qed

lemma flush_robs_total:
  assumes "oc_queued_mem_lock_release_list C = []" "half_clean (oc_files C)" "distinct (map (\<lambda>j. rb_physreg (rob_at j C)) js)"
    and "\<forall>j \<in> set js. \<not> rb_lock_acquired (rob_at j C) \<and> (\<exists>p. rb_physreg (rob_at j C) = Some p \<and> in_file (oc_files C) p
      \<and> pr_state (preg_of (oc_files C) p) \<noteq> PHYSREG_FREE)"
  shows "flush_robs js C \<noteq> None"
  using assms
proof (induction js arbitrary: C)
  case (Cons j js)
  obtain p where p: "rb_physreg (rob_at j C) = Some p" "in_file (oc_files C) p" "pr_state (preg_of (oc_files C) p) \<noteq> PHYSREG_FREE"
      "\<not> rb_lock_acquired (rob_at j C)" using Cons.prems(4) by auto
  obtain L where L: "regs_ok L (oc_files C)" using half_cleanD(1) [OF Cons.prems(2)] by blast
  obtain f i where fi: "p = (f, i)" by (cases p)
  obtain F where F: "preg_reset_thread p 0 True (oc_files C) = Some F" "half_clean F" "only_preg p freed_reg (oc_files C) F"
    using preg_reset_ok [OF Cons.prems(2) p(2,3) [unfolded fi] L] fi by metis
  note fr = freedD [OF freed_one [OF F(2,3)]]
  have at: "rob_at k (C\<lparr>oc_files := F\<rparr>) = rob_at k C" for k by (simp add: rob_at_def)
  have "flush_robs js (C\<lparr>oc_files := F\<rparr>) \<noteq> None"
  proof (rule Cons.IH)
    show "\<forall>j \<in> set js. \<not> rb_lock_acquired (rob_at j (C\<lparr>oc_files := F\<rparr>)) \<and> (\<exists>p. rb_physreg (rob_at j (C\<lparr>oc_files := F\<rparr>)) = Some p
        \<and> in_file (oc_files (C\<lparr>oc_files := F\<rparr>)) p \<and> pr_state (preg_of (oc_files (C\<lparr>oc_files := F\<rparr>)) p) \<noteq> PHYSREG_FREE)"
    proof
      fix k assume k: "k \<in> set js"
      then obtain q where q: "rb_physreg (rob_at k C) = Some q" "in_file (oc_files C) q"
          "pr_state (preg_of (oc_files C) q) \<noteq> PHYSREG_FREE" "\<not> rb_lock_acquired (rob_at k C)" using Cons.prems(4) by auto
      have "rb_physreg (rob_at k C) \<noteq> rb_physreg (rob_at j C)" using Cons.prems(3) k by (auto simp: image_iff)
      then have "q \<noteq> p" using q(1) p(1) by auto
      then show "\<not> rb_lock_acquired (rob_at k (C\<lparr>oc_files := F\<rparr>)) \<and> (\<exists>p. rb_physreg (rob_at k (C\<lparr>oc_files := F\<rparr>)) = Some p
        \<and> in_file (oc_files (C\<lparr>oc_files := F\<rparr>)) p \<and> pr_state (preg_of (oc_files (C\<lparr>oc_files := F\<rparr>)) p) \<noteq> PHYSREG_FREE)"
        using q fr(2,3) [of q] at by simp
    qed
  qed (use Cons.prems(1,3) F(2) at in simp_all)
  then show ?case using no_locks(1) [OF p(4)] no_locks(2) [OF Cons.prems(1)] p(1) F(1) by (simp add: upd_physreg_def)
qed simp

subsection \<open>The lists of the reorder buffer\<close>

lemma rob_lists_all: "rob_list_ok l \<longleftrightarrow> l \<in> set rob_state_lists"
  by (cases l) (auto simp: rob_list_ok_def rob_state_lists_def)

lemma rob_roots_eq: "rob_roots = set (map RobList rob_state_lists)"
  by (auto simp: rob_roots_def rob_lists_all)

definition freed_upto :: "nat \<Rightarrow> Core \<Rightarrow> bool" where
  "freed_upto n C \<longleftrightarrow> length (slots (oc_ROB C)) = ROB_SIZE
     \<and> state_lists rob_roots (rob_contents ((\<lambda>_. [])(rob_free := [0..<n]))) (oc_rob_lists C)
     \<and> (\<forall>i < ROB_SIZE. rb_idx (rob_at i C) = i \<and> \<not> rb_entry_valid (rob_at i C)
          \<and> rb_list (rob_at i C) = (if i < n then Some rob_free else None))"

lemma link_resets_lists:
  assumes "state_lists A L k" "\<forall>i \<in> set is. on_no_list A L (g i)"
  shows "state_lists A L (fold (\<lambda>i k. k\<lparr>lh_links := link_reset (g i) (lh_links k)\<rparr>) is k)"
  using assms by (induction "is" arbitrary: k) (auto intro: link_reset_lists)

lemma rob_contents_none: "rob_contents (\<lambda>_. []) = (\<lambda>_. [])"
  by (rule ext) (simp add: rob_contents_def split: rob_node.split)

lemma Rob_not_root: "Rob i \<notin> rob_roots"
  by (auto simp: rob_roots_def)

lemma reset_rob_ok:
  assumes "length (slots (oc_ROB C)) = ROB_SIZE"
  shows "freed_upto 0 (reset_rob C)" "fq_inv (oc_ROB (reset_rob C))" "entries (reset_rob C) = []"
proof -
  let ?k = "lol_reset (map RobList rob_state_lists) (oc_rob_lists C)"
  have e: "state_lists {} (\<lambda>_. []) (oc_rob_lists C)" by (simp add: state_lists_def)
  have k: "state_lists rob_roots (\<lambda>_. []) ?k"
    using lol_reset_lists [OF e, of "map RobList rob_state_lists"] unfolding rob_roots_eq by simp
  have "on_no_list rob_roots (\<lambda>_. []) (Rob i)" for i using Rob_not_root by (auto simp: on_no_list_def)
  then have "state_lists rob_roots (\<lambda>_. []) (oc_rob_lists (reset_rob C))"
    using link_resets_lists [OF k, of "[0..<length (slots (oc_ROB C))]" Rob] by (simp add: reset_rob_def)
  then have "state_lists rob_roots (rob_contents ((\<lambda>_. [])(rob_free := [0..<0]))) (oc_rob_lists (reset_rob C))"
    by (simp add: fun_upd_idem rob_contents_none)
  moreover have "rob_at i (reset_rob C) = rob_init (int i) (rob_at i C)" if "i < ROB_SIZE" for i
    using that assms by (simp add: rob_at_def reset_rob_def queue_reset_def Let_def fq_reset_def)
  ultimately show "freed_upto 0 (reset_rob C)"
    using assms by (simp add: freed_upto_def rob_init_def rob_reset_def reset_rob_def queue_reset_def Let_def fq_reset_def)
  show "fq_inv (oc_ROB (reset_rob C))" "entries (reset_rob C) = []"
    using assms
    by (simp_all add: reset_rob_def queue_reset_def Let_def fq_reset_def fq_inv_def fq_size_def entries_def contents_def ROB_SIZE_def)
qed

lemma free_robs_ok:
  assumes "freed_upto n C" "n \<le> ROB_SIZE"
  shows "\<exists>q k. free_robs [n..<ROB_SIZE] C = Some (C\<lparr>oc_ROB := q, oc_rob_lists := k\<rparr>)
    \<and> freed_upto ROB_SIZE (C\<lparr>oc_ROB := q, oc_rob_lists := k\<rparr>) \<and> head q = head (oc_ROB C) \<and> tail q = tail (oc_ROB C)
    \<and> FixedQueue.count q = FixedQueue.count (oc_ROB C)"
  using assms
proof (induction "ROB_SIZE - n" arbitrary: n C)
  case 0
  then show ?case by (intro exI [of _ "oc_ROB C"] exI [of _ "oc_rob_lists C"]) simp
next
  case (Suc d)
  then have n: "n < ROB_SIZE" by simp
  let ?L = "(\<lambda>_. [])(rob_free := [0..<n])"
  have len: "length (slots (oc_ROB C)) = ROB_SIZE" and sl: "state_lists rob_roots (rob_contents ?L) (oc_rob_lists C)"
    and at: "\<And>i. i < ROB_SIZE \<Longrightarrow> rb_idx (rob_at i C) = i \<and> \<not> rb_entry_valid (rob_at i C)
        \<and> rb_list (rob_at i C) = (if i < n then Some rob_free else None)"
    using Suc.prems(1) by (simp_all add: freed_upto_def)
  have root: "RobList rob_free \<in> rob_roots" by (simp add: rob_roots_def rob_list_ok_def)
  have "on_no_list rob_roots (rob_contents ?L) (Rob n)"
    using Rob_not_root by (auto simp: on_no_list_def rob_contents_def rob_roots_def)
  then obtain k where k: "sl_enqueue (RobList rob_free) (Rob n) (oc_rob_lists C) = Some k"
      "state_lists rob_roots ((rob_contents ?L)(RobList rob_free := rob_contents ?L (RobList rob_free) @ [Rob n])) k"
    by (rule enqueue_lists [OF sl root])
  have "(rob_contents ?L)(RobList rob_free := rob_contents ?L (RobList rob_free) @ [Rob n])
      = rob_contents ((\<lambda>_. [])(rob_free := [0..<Suc n]))"
    by (rule ext) (auto simp: rob_contents_def split: rob_node.split)
  note k2 = k(2) [unfolded this]
  let ?C = "upd_rob n (\<lambda>r. r\<lparr>rb_list := Some rob_free\<rparr>) (C\<lparr>oc_rob_lists := k\<rparr>)"
  have c: "rob_changestate n rob_free None C = Some ?C" using k(1) at [OF n] by (simp add: rob_changestate_def)
  have at': "rob_at j ?C = (if j = n then (rob_at n C)\<lparr>rb_list := Some rob_free\<rparr> else rob_at j C)" for j
    using len n by (simp add: rob_at_def upd_rob_def)
  have "freed_upto (Suc n) ?C"
    unfolding freed_upto_def
  proof (intro conjI allI impI)
    show "length (slots (oc_ROB ?C)) = ROB_SIZE" using len by simp
    show "state_lists rob_roots (rob_contents ((\<lambda>_. [])(rob_free := [0..<Suc n]))) (oc_rob_lists ?C)" using k2 by simp
  qed (use at at' in auto)
  moreover have "d = ROB_SIZE - Suc n" "Suc n \<le> ROB_SIZE" using Suc.hyps(2) n by simp_all
  ultimately obtain q k' where q: "free_robs [Suc n..<ROB_SIZE] ?C = Some (?C\<lparr>oc_ROB := q, oc_rob_lists := k'\<rparr>)"
      "freed_upto ROB_SIZE (?C\<lparr>oc_ROB := q, oc_rob_lists := k'\<rparr>)" "head q = head (oc_ROB ?C)" "tail q = tail (oc_ROB ?C)"
      "FixedQueue.count q = FixedQueue.count (oc_ROB ?C)"
    using Suc.hyps(1) [of "Suc n" ?C] by blast
  have eq: "?C\<lparr>oc_ROB := q, oc_rob_lists := k'\<rparr> = C\<lparr>oc_ROB := q, oc_rob_lists := k'\<rparr>" by (simp add: upd_rob_def)
  show ?case
    by (intro exI [of _ q] exI [of _ k']) (use q c n eq in \<open>simp add: upt_conv_Cons\<close>)
qed

lemma freed_lists_ok: "freed_upto ROB_SIZE C \<Longrightarrow> \<exists>L. lists_ok L C"
  unfolding lists_ok_def freed_upto_def
  by (intro exI [of _ "(\<lambda>_. [])(rob_free := [0..<ROB_SIZE])"]) (auto simp: rob_list_ok_def)

lemma reset_issueqs: "\<exists>qs n. fold reset_issueq cs C = C\<lparr>oc_issueq := qs, oc_issueq_count := n\<rparr>"
proof (induction cs arbitrary: C)
  case Nil
  show ?case by (intro exI [of _ "oc_issueq C"] exI [of _ "oc_issueq_count C"]) simp
next
  case (Cons c cs)
  let ?r = "iq_reset_thread [Some (oc_issueq_count C)] (oc_issueq C ! c)"
  have "reset_issueq c C = C\<lparr>oc_issueq := (oc_issueq C)[c := fst ?r], oc_issueq_count := the (hd (snd ?r))\<rparr>"
    by (simp add: reset_issueq_def upd_issueq_def split_beta)
  then show ?case using Cons [of "reset_issueq c C"] by auto
qed

subsection \<open>The whole flush\<close>

lemma flush_steps:
  assumes ready: "flush_ready C"
    and h: "ch_complete_thread 0 (oc_caches C) = Some h" and a: "annul_fetchq (C\<lparr>oc_caches := h\<rparr>) = Some D"
    and js: "foreach_forward ROB_SIZE (oc_ROB D) = Some js" and r: "flush_robs (map nat js) D = Some E"
  obtains C' where "flush_pipeline C = Some C'" "core_inv C'" "entries C' = []" "contents (oc_fetchq C') = []" "fq_inv (oc_fetchq C')"
    "oc_specrrt C' = oc_commitrrt C'" "oc_commitarf C' = oc_commitarf C" "rvp_rip (oc_fetchrip C') = oc_commitarf C ! REG_rip"
    "\<And>r. r < ARCHREG_COUNT \<Longrightarrow> pr_data (preg_of (oc_files C') (oc_commitrrt C' ! r)) = oc_commitarf C ! r"
    "oc_loads_in_flight C' = 0" "oc_stores_in_flight C' = 0"
proof -
  have inv: "fq_inv (oc_ROB C)" "length (slots (oc_ROB C)) = ROB_SIZE" "half_clean (oc_files C)"
    and ent: "\<And>e. e \<in> set (entries C) \<Longrightarrow> \<exists>p. rb_physreg e = Some p \<and> in_file (oc_files C) p \<and> pr_state (preg_of (oc_files C) p) \<noteq> PHYSREG_FREE"
    and dist: "distinct (map rb_physreg (entries C))"
    and cover: "\<And>p. in_file (oc_files C) p \<Longrightarrow> pr_state (preg_of (oc_files C) p) = PHYSREG_FREE
          \<or> pr_state (preg_of (oc_files C) p) = PHYSREG_ARCH \<or> pr_state (preg_of (oc_files C) p) = PHYSREG_PENDINGFREE
          \<or> Some p \<in> set (map rb_physreg (entries C))"
    and tab: "length (oc_commitrrt C) = TRANSREG_COUNT" "slots (oc_fetchq C) \<noteq> []"
    and off: "0 \<le> oc_round_robin_reg_file_offset C" "oc_round_robin_reg_file_offset C < int PHYS_REG_FILE_COUNT"
    using ready unfolding flush_ready_def by blast+
  obtain b where D: "D = C\<lparr>oc_caches := h, oc_branchpred := b\<rparr>"
    using a by (auto simp: annul_fetchq_def split: bind_splits)
  note f = foreach_contents [OF inv(1), unfolded inv(2)]
  have "js = map (\<lambda>k. int (fq_ix (oc_ROB C) k)) [0..<length (contents (oc_ROB C))]" using js f by (simp add: D)
  then have js': "map nat js = map (fq_ix (oc_ROB C)) [0..<length (contents (oc_ROB C))]" by (simp add: o_def)
  have es: "entries C = map (\<lambda>j. rob_at j D) (map nat js)"
    unfolding js' entries_def using f by (simp add: rob_at_def D o_def)
  have lt: "j < length (slots (oc_ROB D))" if "j \<in> set (map nat js)" for j
    using that fq_ix_less [OF inv(1)] unfolding js' by (auto simp: D)
  have phys: "map rb_physreg (entries C) = map (\<lambda>j. rb_physreg (rob_at j D)) (map nat js)" unfolding es by (simp add: o_def)
  have files: "oc_files D = oc_files C" by (simp add: D)
  have j_ok: "\<forall>j \<in> set (map nat js). j < length (slots (oc_ROB D)) \<and> (\<exists>p. rb_physreg (rob_at j D) = Some p \<and> in_file (oc_files D) p
      \<and> pr_state (preg_of (oc_files D) p) \<noteq> PHYSREG_FREE)"
  proof
    fix j assume j: "j \<in> set (map nat js)"
    have "rob_at j D \<in> (\<lambda>j. rob_at j D) ` set (map nat js)" using j by (rule imageI)
    then have "rob_at j D \<in> set (entries C)" unfolding es by (simp only: set_map)
    from ent [OF this] show "j < length (slots (oc_ROB D)) \<and> (\<exists>p. rb_physreg (rob_at j D) = Some p \<and> in_file (oc_files D) p
      \<and> pr_state (preg_of (oc_files D) p) \<noteq> PHYSREG_FREE)" using lt [OF j] unfolding files by blast
  qed
  note E = flush_robs_ok [OF r _ dist [unfolded phys] j_ok]
  have E1: "freed {p. Some p \<in> (\<lambda>j. rb_physreg (rob_at j D)) ` set (map nat js)} (oc_files C) (oc_files E)"
    and E2: "lock_like (D\<lparr>oc_files := oc_files E\<rparr>) E" using E inv(3) by (simp_all add: files)
  note l = lock_likeD [OF E2]
  obtain F1 where F1: "foreach_reg (reset_state PHYSREG_ARCH) [0..<PHYS_REG_FILE_COUNT] (oc_files E) = Some F1"
      "freed {q. in_file (oc_files E) q \<and> pr_state (preg_of (oc_files E) q) = PHYSREG_ARCH} (oc_files E) F1"
    using reset_states_ok [OF freedD(1) [OF E1], of PHYSREG_ARCH] by (auto simp: PHYSREG_ARCH_def MAX_PHYSREG_STATE_def PHYSREG_FREE_def)
  obtain F2 where F2: "foreach_reg (reset_state PHYSREG_PENDINGFREE) [0..<PHYS_REG_FILE_COUNT] F1 = Some F2"
      "freed {q. in_file F1 q \<and> pr_state (preg_of F1 q) = PHYSREG_PENDINGFREE} F1 F2"
    using reset_states_ok [OF freedD(1) [OF F1(2)], of PHYSREG_PENDINGFREE]
    by (auto simp: PHYSREG_PENDINGFREE_def MAX_PHYSREG_STATE_def PHYSREG_FREE_def)
  note fr = freedD(2,3) [OF E1] freedD(2,3) [OF F1(2)] freedD(2,3) [OF F2(2)]
  have free: "pr_state (preg_of F2 q) = PHYSREG_FREE" if "in_file F2 q" for q
  proof -
    have q: "in_file (oc_files C) q" using that fr by simp
    have "(\<lambda>j. rb_physreg (rob_at j D)) ` set (map nat js) = set (map rb_physreg (entries C))"
      unfolding phys by (simp only: set_map)
    then show ?thesis using cover [OF q] fr [of q] q by auto
  qed
  have clean: "all_clean F2"
    using half_cleanD [OF freedD(1) [OF F2(2)]] free unfolding all_clean_def by blast
  define G where "G = reset_rob (reset_fetch_unit (oc_commitarf E ! REG_rip) (E\<lparr>oc_files := F2\<rparr>))"
  have len: "length (slots (oc_ROB (reset_fetch_unit (oc_commitarf E ! REG_rip) (E\<lparr>oc_files := F2\<rparr>)))) = ROB_SIZE"
    using l(14) inv(2) by (simp add: reset_fetch_unit_def D)
  note g = reset_rob_ok [OF len, folded G_def]
  have arf: "oc_commitarf E = oc_commitarf C" "oc_commitrrt E = oc_commitrrt C" "oc_fetchq E = oc_fetchq C"
      "oc_round_robin_reg_file_offset E = oc_round_robin_reg_file_offset C"
    using l by (simp_all add: D)
  have G: "oc_files G = F2" "oc_commitarf G = oc_commitarf C" "oc_commitrrt G = oc_commitrrt C" "oc_fetchq G = fq_reset (oc_fetchq C)"
      "oc_round_robin_reg_file_offset G = oc_round_robin_reg_file_offset C" "rvp_rip (oc_fetchrip G) = oc_commitarf C ! REG_rip"
    using arf by (simp_all add: G_def reset_rob_def reset_fetch_unit_def rvp_update_def)
  obtain q k where H: "free_robs [0..<ROB_SIZE] G = Some (G\<lparr>oc_ROB := q, oc_rob_lists := k\<rparr>)"
      "freed_upto ROB_SIZE (G\<lparr>oc_ROB := q, oc_rob_lists := k\<rparr>)" "head q = head (oc_ROB G)" "tail q = tail (oc_ROB G)"
      "FixedQueue.count q = FixedQueue.count (oc_ROB G)"
    using free_robs_ok [OF g(1)] by blast
  let ?I = "(G\<lparr>oc_ROB := q, oc_rob_lists := k\<rparr>)\<lparr>oc_LSQ := queue_reset (\<lambda>i e. lsq_reset (e\<lparr>lsq_idx := nat i\<rparr>)) (oc_LSQ G),
               oc_loads_in_flight := 0, oc_stores_in_flight := 0\<rparr>"
  obtain qs n where J: "fold reset_issueq [0..<MAX_CLUSTERS] ?I = ?I\<lparr>oc_issueq := qs, oc_issueq_count := n\<rparr>"
    using reset_issueqs by blast
  define K where "K = ?I\<lparr>oc_issueq := qs, oc_issueq_count := n, oc_dispatch_deadlock_countdown := DISPATCH_DEADLOCK_COUNTDOWN_CYCLES\<rparr>"
  have K: "oc_files K = F2" "oc_commitarf K = oc_commitarf C" "oc_commitrrt K = oc_commitrrt C" "oc_fetchq K = fq_reset (oc_fetchq C)"
      "oc_round_robin_reg_file_offset K = oc_round_robin_reg_file_offset C" "oc_ROB K = q" "oc_rob_lists K = k"
      "rvp_rip (oc_fetchrip K) = oc_commitarf C ! REG_rip" "oc_loads_in_flight K = 0" "oc_stores_in_flight K = 0"
    using G by (simp_all add: K_def)
  have Kclean: "all_clean (oc_files K)" "length (oc_commitrrt K) = TRANSREG_COUNT" using clean tab K by simp_all
  obtain F t where X: "external_to_core_state K = Some (K\<lparr>oc_files := F, oc_commitrrt := t, oc_specrrt := t\<rparr>)" "ren_ok 0 F t t []"
    "\<And>r. r < ARCHREG_COUNT \<Longrightarrow> pr_data (preg_of F (t ! r)) = oc_commitarf K ! r"
    "pr_flags (preg_of F (t ! REG_flags)) = ucast (oc_commitarf K ! REG_flags)"
    by (rule external_ok [OF Kclean], rule that, assumption+)
  define C' where "C' = K\<lparr>oc_files := F, oc_commitrrt := t, oc_specrrt := t\<rparr>"
  have at: "rob_at i C' = rob_at i (G\<lparr>oc_ROB := q, oc_rob_lists := k\<rparr>)" for i by (simp add: C'_def rob_at_def K)
  have up: "freed_upto ROB_SIZE C'" using H(2) at by (simp add: freed_upto_def C'_def K)
  have q: "fq_inv q" "contents q = []" "length (slots q) = ROB_SIZE"
  proof -
    show len: "length (slots q) = ROB_SIZE" using H(2) by (simp add: freed_upto_def)
    then have "fq_size q = fq_size (oc_ROB G)" using g(1) by (simp add: fq_size_def freed_upto_def)
    then show "fq_inv q" using g(2) H(3-5) by (simp add: fq_inv_def)
    have "FixedQueue.count (oc_ROB G) = 0" using length_contents [OF g(2)] g(3) by (simp add: entries_def)
    then show "contents q = []" using H(5) by (simp add: contents_def)
  qed
  have empty: "entries C' = []" using q(2) by (simp add: entries_def C'_def K)
  have "valid_ok C'" using up empty by (simp add: valid_ok_def freed_upto_def)
  moreover have "\<forall>i < ROB_SIZE. rb_idx (rob_at i C') = i" using up by (simp add: freed_upto_def)
  ultimately have "core_inv C'"
    unfolding core_inv_def using q X(2) off empty freed_lists_ok [OF up] by (simp add: C'_def K)
  moreover have "flush_pipeline C = Some C'"
    unfolding flush_pipeline_def h a bind.bind_lunit js r F1(1) F2(1) G_def [symmetric] H(1)
    using J X(1) by (simp add: K_def C'_def)
  moreover have "contents (oc_fetchq C') = []" "fq_inv (oc_fetchq C')"
    using fq_resetD [OF tab(2)] by (simp_all add: C'_def K)
  moreover have "oc_specrrt C' = oc_commitrrt C'" "oc_commitarf C' = oc_commitarf C" "rvp_rip (oc_fetchrip C') = oc_commitarf C ! REG_rip"
    "oc_loads_in_flight C' = 0" "oc_stores_in_flight C' = 0" by (simp_all add: C'_def K)
  moreover have "pr_data (preg_of (oc_files C') (oc_commitrrt C' ! r)) = oc_commitarf C ! r" if "r < ARCHREG_COUNT" for r
    using X(3) [OF that] by (simp add: C'_def K)
  ultimately show ?thesis using that empty by blast
qed

end
