(* ===== verification/Boot_Core.thy ===== *)
theory Boot_Core
  imports Flush_Inv Cache_Hierarchy
begin

text \<open>
  The theorems on the flush, and the state the core has when it is built: the register files are
  those of \<^verbatim>\<open>OutOfOrderCore::init\<close>, the queues are empty and the cache hierarchy is new. Everything
  else (architectural registers, predictor, address space) is whatever it is.
\<close>

definition blank_rob :: ReorderBufferEntry where
  "blank_rob = \<lparr>rb_uop = \<lparr>op_opcode = 0, op_extshift = 0, op_setflags = 0, op_nouserflags = False, op_datatype = 0,
       op_bytes = 0, op_som = False, op_eom = False, op_is_sse = False, op_is_x87 = False, op_rd = 0, op_ra = 0, op_rb = 0,
       op_rc = 0, op_riptaken = 0, fb_rip = \<lparr>rvp_rip = 0, rvp_mfnlo = 0, rvp_mfnhi = 0\<rparr>, fb_uuid = 0,
       fb_predinfo = \<lparr>pu_uuid = 0, pu_cp1 = None, pu_cp2 = None, pu_cpmeta = None, pu_flags = 0, pu_bimodal = False,
         pu_twolevel = False, pu_meta = False, pu_ras_push = False, pu_ras_old = \<lparr>ras_idx = 0, ras_uuid = 0, ras_rip = 0\<rparr>\<rparr>,
       fb_bptype = 0, ld_st_truly_unaligned = False\<rparr>,
     rb_list = None, rb_physreg = None, rb_operands = [], rb_lsq = None, rb_idx = 0, rb_cycles_left = 0, rb_forward_cycle = 0,
     rb_lfrqslot = -1, rb_iqslot = 0, rb_executable_on_cluster_mask = 0, rb_cluster = -1, rb_fu = 0, rb_consumer_count = 0,
     rb_pteupdate = False, rb_origvirt = 0, rb_virtpage = 0, rb_entry_valid = False, rb_load_store_second_phase = False,
     rb_lock_acquired = False, rb_issued = False\<rparr>"

definition FETCH_QUEUE_SIZE :: nat where "FETCH_QUEUE_SIZE = 32"

definition blank_queue :: "nat \<Rightarrow> 'a \<Rightarrow> 'a FixedQueue" where
  "blank_queue n x = \<lparr>slots = replicate n x, head = 0, tail = 0, count = 0\<rparr>"

definition blank_files :: RegFiles where
  "blank_files = \<lparr>rf_files = replicate PHYS_REG_FILE_COUNT \<lparr>pf_regs = replicate MAX_PHYS_REG_FILE_SIZE
       \<lparr>pr_rob = None, pr_data = 0, pr_flags = 0, pr_idx = 0, pr_rfid = 0, pr_state = 0, pr_archreg = 0,
         pr_all_consumers_sourced_from_bypass = False, pr_refcount = 0, pr_threadid = 0\<rparr>,
       pf_size = 0, pf_rfid = 0, pf_allocations = 0, pf_frees = 0\<rparr>,
     rf_heap = \<lparr>lh_links = \<lparr>lk_next = \<lambda>_. None, lk_prev = \<lambda>_. None\<rparr>,
       lh_list = \<lambda>_. \<lparr>sl_count = 0, sl_listid = 0, dispatch_source_counter = 0, issue_source_counter = 0, sl_flags = 0\<rparr>\<rparr>,
     rf_states = []\<rparr>"

definition boot_core :: "Core \<Rightarrow> Core" where
  "boot_core C = C\<lparr>oc_files := the (init_physregfiles blank_files), oc_ROB := blank_queue ROB_SIZE blank_rob,
     oc_fetchq := blank_queue FETCH_QUEUE_SIZE (rb_uop blank_rob), oc_commitrrt := replicate TRANSREG_COUNT (0, PHYS_REG_NULL),
     oc_round_robin_reg_file_offset := 0, oc_queued_mem_lock_release_list := [], oc_caches := ch_new None\<rparr>"

lemma blank_queue_empty: "0 < n \<Longrightarrow> fq_inv (blank_queue n x)" "contents (blank_queue n x) = []" "length (slots (blank_queue n x)) = n"
  by (simp_all add: blank_queue_def fq_inv_def fq_size_def contents_def)

lemma blank_backward: "0 < n \<Longrightarrow> foreach_backward n (blank_queue n x) = Some []"
  using foreach_contents [OF blank_queue_empty(1), of n x] by (simp add: blank_queue_empty(2,3))

lemma all_cleanD: "all_clean F \<Longrightarrow> in_file F p \<Longrightarrow> clean_reg (preg_of F p)"
  unfolding all_clean_def by blast

lemma clean_half: "all_clean F \<Longrightarrow> half_clean F"
  unfolding all_clean_def half_clean_def clean_reg_def by auto

lemma boot_files: "all_clean (the (init_physregfiles blank_files))"
proof -
  have "length (rf_files blank_files) = PHYS_REG_FILE_COUNT" "rf_states blank_files = []"
    "\<forall>f < PHYS_REG_FILE_COUNT. length (pf_regs (rf_files blank_files ! f)) = MAX_PHYS_REG_FILE_SIZE"
    by (simp_all add: blank_files_def)
  then obtain F where "init_physregfiles blank_files = Some F" "regs_ok fresh_contents F"
    "\<And>f. f < PHYS_REG_FILE_COUNT \<Longrightarrow> pf_size (rf_files F ! f) = physreg_sizes f" "\<And>p. in_file F p \<Longrightarrow> clean_reg (preg_of F p)"
    by (metis init_physregfiles_ok)
  then show ?thesis unfolding all_clean_def by (metis option.sel)
qed

lemma boot_ready: "flush_ready (boot_core C)"
proof -
  have "ROB_SIZE > 0" "FETCH_QUEUE_SIZE > 0" by (simp_all add: ROB_SIZE_def FETCH_QUEUE_SIZE_def)
  note q = blank_queue_empty(1) [OF this(1)] blank_queue_empty(1) [OF this(2)]
  have e: "entries (boot_core C) = []" by (simp add: entries_def boot_core_def blank_queue_empty(2))
  have "pr_state (preg_of (oc_files (boot_core C)) p) = PHYSREG_FREE" if "in_file (oc_files (boot_core C)) p" for p
    using all_cleanD [OF boot_files, of p] that by (simp add: boot_core_def clean_reg_def)
  moreover have "half_clean (oc_files (boot_core C))" using clean_half [OF boot_files] by (simp add: boot_core_def)
  moreover have "slots (oc_fetchq (boot_core C)) \<noteq> []" by (simp add: boot_core_def blank_queue_def FETCH_QUEUE_SIZE_def)
  moreover have "fq_inv (oc_ROB (boot_core C))" "length (slots (oc_ROB (boot_core C))) = ROB_SIZE"
    "length (oc_commitrrt (boot_core C)) = TRANSREG_COUNT"
    "0 \<le> oc_round_robin_reg_file_offset (boot_core C)" "oc_round_robin_reg_file_offset (boot_core C) < int PHYS_REG_FILE_COUNT"
    using q(1) by (simp_all add: boot_core_def blank_queue_empty(3) PHYS_REG_FILE_COUNT_def)
  ultimately show ?thesis unfolding flush_ready_def e by simp
qed

text \<open>What a flush leaves.\<close>

definition restored :: "Core \<Rightarrow> Core \<Rightarrow> bool" where
  "restored C C' \<longleftrightarrow> core_inv C' \<and> fetch_inv C' \<and> entries C' = [] \<and> contents (oc_fetchq C') = []
     \<and> oc_specrrt C' = oc_commitrrt C' \<and> oc_commitarf C' = oc_commitarf C \<and> rvp_rip (oc_fetchrip C') = oc_commitarf C ! REG_rip
     \<and> (\<forall>r < ARCHREG_COUNT. pr_data (preg_of (oc_files C') (oc_commitrrt C' ! r)) = oc_commitarf C ! r)
     \<and> oc_loads_in_flight C' = 0 \<and> oc_stores_in_flight C' = 0"

lemma flush_restored:
  assumes "flush_ready C" "flush_pipeline C = Some C'"
  shows "restored C C'"
proof -
  obtain h D js E where s: "ch_complete_thread 0 (oc_caches C) = Some h" "annul_fetchq (C\<lparr>oc_caches := h\<rparr>) = Some D"
    "foreach_forward ROB_SIZE (oc_ROB D) = Some js" "flush_robs (map nat js) D = Some E"
    using assms(2) unfolding flush_pipeline_def by (auto split: bind_splits)
  obtain C'' where c: "flush_pipeline C = Some C''" "core_inv C''" "entries C'' = []" "contents (oc_fetchq C'') = []" "fq_inv (oc_fetchq C'')"
    "oc_specrrt C'' = oc_commitrrt C''" "oc_commitarf C'' = oc_commitarf C" "rvp_rip (oc_fetchrip C'') = oc_commitarf C ! REG_rip"
    "\<And>r. r < ARCHREG_COUNT \<Longrightarrow> pr_data (preg_of (oc_files C'') (oc_commitrrt C'' ! r)) = oc_commitarf C ! r"
    "oc_loads_in_flight C'' = 0" "oc_stores_in_flight C'' = 0"
    by (rule flush_steps [OF assms(1) s], rule that, assumption+)
  then show ?thesis using assms(2) by (simp add: restored_def fetch_inv_def)
qed

lemma flush_returns:
  assumes ready: "flush_ready C" and h: "fill_inv {} (oc_caches C)"
    and locks: "oc_queued_mem_lock_release_list C = []" "\<forall>e \<in> set (entries C). \<not> rb_lock_acquired e"
    and ras: "annul_fetchq C \<noteq> None"
  shows "\<exists>C'. flush_pipeline C = Some C'"
proof -
  obtain h' where h': "ch_complete_thread 0 (oc_caches C) = Some h'" using ch_complete_thread_spec [OF h, of 0] by blast
  obtain D where D: "annul_fetchq (C\<lparr>oc_caches := h'\<rparr>) = Some D" using ras by (auto simp: annul_fetchq_def split: bind_splits)
  then obtain b where Db: "D = C\<lparr>oc_caches := h', oc_branchpred := b\<rparr>" by (auto simp: annul_fetchq_def split: bind_splits)
  have inv: "fq_inv (oc_ROB C)" "length (slots (oc_ROB C)) = ROB_SIZE" "half_clean (oc_files C)"
    and ent: "\<And>e. e \<in> set (entries C) \<Longrightarrow> \<exists>p. rb_physreg e = Some p \<and> in_file (oc_files C) p \<and> pr_state (preg_of (oc_files C) p) \<noteq> PHYSREG_FREE"
    and dist: "distinct (map rb_physreg (entries C))"
    using ready unfolding flush_ready_def by blast+
  note f = foreach_contents [OF inv(1), unfolded inv(2)]
  define js where "js = map (\<lambda>k. int (fq_ix (oc_ROB C) k)) [0..<length (contents (oc_ROB C))]"
  have js: "foreach_forward ROB_SIZE (oc_ROB D) = Some js" using f by (simp add: Db js_def)
  have es: "entries C = map (\<lambda>j. rob_at j D) (map nat js)"
    using f by (simp add: entries_def rob_at_def Db js_def o_def)
  have phys: "map rb_physreg (entries C) = map (\<lambda>j. rb_physreg (rob_at j D)) (map nat js)" unfolding es by (simp add: o_def)
  have "\<not> rb_lock_acquired (rob_at j D) \<and> (\<exists>p. rb_physreg (rob_at j D) = Some p \<and> in_file (oc_files D) p
      \<and> pr_state (preg_of (oc_files D) p) \<noteq> PHYSREG_FREE)" if j: "j \<in> set (map nat js)" for j
  proof -
    have "rob_at j D \<in> (\<lambda>j. rob_at j D) ` set (map nat js)" using j by (rule imageI)
    then have "rob_at j D \<in> set (entries C)" unfolding es by (simp only: set_map)
    then show ?thesis using ent locks(2) by (simp add: Db)
  qed
  then have "flush_robs (map nat js) D \<noteq> None"
    by (intro flush_robs_total) (use locks(1) inv(3) dist [unfolded phys] in \<open>simp_all add: Db\<close>)
  then obtain E where E: "flush_robs (map nat js) D = Some E" by blast
  show ?thesis by (rule flush_steps [OF ready h' D js E]) blast
qed

lemma boot_flush: "\<exists>C'. flush_pipeline (boot_core C) = Some C' \<and> restored (boot_core C) C'"
proof -
  have "foreach_backward FETCH_QUEUE_SIZE (oc_fetchq (boot_core C)) = Some []"
    by (simp add: boot_core_def blank_backward FETCH_QUEUE_SIZE_def)
  then have "annul_fetchq (boot_core C) \<noteq> None"
    by (simp add: annul_fetchq_def boot_core_def blank_queue_empty(3))
  moreover have "entries (boot_core C) = []" by (simp add: entries_def boot_core_def blank_queue_empty(2))
  moreover have "fill_inv {} (oc_caches (boot_core C))" "oc_queued_mem_lock_release_list (boot_core C) = []"
    using ch_new_inv(1) by (simp_all add: boot_core_def)
  ultimately obtain C' where "flush_pipeline (boot_core C) = Some C'"
    using flush_returns [OF boot_ready] by (metis empty_iff list.set(1))
  then show ?thesis using flush_restored [OF boot_ready] by blast
qed

end
