(* ===== verification/Core_Props.thy ===== *)
theory Core_Props
  imports Rename_Stage Boot_Core
begin

text \<open>
  The theorems on the renaming and on the flush of the out-of-order core, with the state they
  start from: the one the first flush of a new core leaves.
\<close>

subsection \<open>A core that satisfies the invariant\<close>

lemma core_inv_cong:
  assumes "oc_files C' = oc_files C" "oc_specrrt C' = oc_specrrt C" "oc_commitrrt C' = oc_commitrrt C" "oc_ROB C' = oc_ROB C"
    "oc_rob_lists C' = oc_rob_lists C" "oc_round_robin_reg_file_offset C' = oc_round_robin_reg_file_offset C"
  shows "core_inv C' \<longleftrightarrow> core_inv C" "entries C' = entries C"
proof -
  have at: "rob_at i C' = rob_at i C" for i using assms(4) by (simp add: rob_at_def)
  show e: "entries C' = entries C" using assms(4) by (simp add: entries_def)
  have "lists_ok L C' \<longleftrightarrow> lists_ok L C" for L by (rule lists_ok_cong) (simp_all add: assms at)
  moreover have "valid_ok C' \<longleftrightarrow> valid_ok C" by (simp add: valid_ok_def at e)
  ultimately show "core_inv C' \<longleftrightarrow> core_inv C" using assms by (simp add: core_inv_def e at)
qed

definition move_uop :: FetchBufferEntry where
  "move_uop = (rb_uop blank_rob)\<lparr>op_opcode := OP_mov, op_som := True, op_eom := True, op_bytes := 3, op_ra := REG_zero,
     op_rb := 3, op_rc := REG_zero, op_rd := 0\<rparr>"

definition fetched :: "FetchBufferEntry list \<Rightarrow> FetchBufferEntry FixedQueue" where
  "fetched us = \<lparr>slots = us @ replicate (FETCH_QUEUE_SIZE - length us) (rb_uop blank_rob), head = 0, tail = int (length us),
     count = int (length us)\<rparr>"

lemma started_core:
  fixes A :: Core
  obtains C where "core_inv C" "fetch_inv C" "contents (oc_fetchq C) = [move_uop]" "entries C = []" "fill_inv {} (oc_caches C)"
    "oc_queued_mem_lock_release_list C = []" "oc_commitarf C = oc_commitarf A"
proof -
  obtain C' where r: "restored (boot_core A) C'" using boot_flush by blast
  define C where "C = C'\<lparr>oc_fetchq := fetched [move_uop], oc_caches := ch_new None, oc_queued_mem_lock_release_list := []\<rparr>"
  have i: "core_inv C \<longleftrightarrow> core_inv C'" "entries C = entries C'" by (rule core_inv_cong; simp add: C_def)+
  have q: "contents (fetched [move_uop]) = [move_uop]" "fq_inv (fetched [move_uop])"
    by (simp_all add: fetched_def contents_def fq_inv_def fq_size_def fq_ix_def FETCH_QUEUE_SIZE_def)
  have "uop_ok move_uop"
    by (simp add: uop_ok_def move_uop_def blank_rob_def flag_dests_def flag_reg_def reg_numbers OP_mov_def OP_MAX_OPCODE_def
      sets_flag_def)
  then show ?thesis
    using r i q ch_new_inv(1) by (intro that [of C]) (simp_all add: restored_def fetch_inv_def C_def boot_core_def)
qed

subsection \<open>Renaming\<close>

text \<open>
  Claim C1. On a core that satisfies the invariant the rename stage fails no assertion and keeps
  the invariant. It moves the oldest fetched micro-operations, up to its width, to the end of the
  reorder buffer and stops early only when a resource is exhausted. Every source operand is the
  physical register of the youngest earlier micro-operation in the pipeline that writes it, and
  the committed register when there is none; the committed table does not change.
\<close>

theorem rename_stage:
  assumes "core_inv C" "fetch_inv C"
  shows "\<exists>C' es. rename C = Some C' \<and> core_inv C' \<and> fetch_inv C'
    \<and> map rob_view (entries C') = map rob_view (entries C @ es)
    \<and> contents (oc_fetchq C) = map rb_uop es @ contents (oc_fetchq C')
    \<and> length es \<le> FRONTEND_WIDTH \<and> (length es = FRONTEND_WIDTH \<or> rename_blocked C' \<noteq> None)
    \<and> oc_commitrrt C' = oc_commitrrt C
    \<and> (\<forall>k < length es. rb_operands (es ! k) =
         map (source_of (oc_commitrrt C) (entries C @ take k es))
           [op_ra (rb_uop (es ! k)), op_rb (rb_uop (es ! k)), op_rc (rb_uop (es ! k))] @ [(0, PHYS_REG_NULL)])"
proof -
  obtain C' es where r: "rename C = Some C'" "core_inv C'" "fetch_inv C'"
      "map rob_view (entries C') = map rob_view (entries C @ es)"
      "contents (oc_fetchq C) = map rb_uop es @ contents (oc_fetchq C')"
      "length es \<le> FRONTEND_WIDTH" "length es = FRONTEND_WIDTH \<or> rename_blocked C' \<noteq> None"
      "oc_commitrrt C' = oc_commitrrt C"
    and ops: "\<forall>k < length es. rb_operands (es ! k) =
         map (\<lambda>r. fold retire (take k es) (oc_specrrt C) ! r) [op_ra (rb_uop (es ! k)), op_rb (rb_uop (es ! k)), op_rc (rb_uop (es ! k))]
         @ [(0, PHYS_REG_NULL)]"
    using rename_loop_ok [OF assms, of FRONTEND_WIDTH] unfolding rename_def by blast
  note ren = ren_okD [OF core_invD(4) [OF assms(1)]]
  have len: "length (oc_commitrrt C) = TRANSREG_COUNT" using committed_okD(1) [OF ren(2)] .
  have spec: "fold retire (take k es) (oc_specrrt C) ! r = source_of (oc_commitrrt C) (entries C @ take k es) r"
    if "r < TRANSREG_COUNT" for k r
    using fold_retire_nth [of r "oc_commitrrt C" "entries C @ take k es"] that len ren(6) by simp
  have "rb_operands (es ! k) = map (source_of (oc_commitrrt C) (entries C @ take k es))
      [op_ra (rb_uop (es ! k)), op_rb (rb_uop (es ! k)), op_rc (rb_uop (es ! k))] @ [(0, PHYS_REG_NULL)]"
    if k: "k < length es" for k
  proof -
    have "rb_uop (es ! k) \<in> set (contents (oc_fetchq C))" using k r(5) by simp
    then have "uop_ok (rb_uop (es ! k))" using assms(2) by (simp add: fetch_inv_def)
    then have "op_ra (rb_uop (es ! k)) < TRANSREG_COUNT" "op_rb (rb_uop (es ! k)) < TRANSREG_COUNT"
      "op_rc (rb_uop (es ! k)) < TRANSREG_COUNT" by (simp_all add: uop_ok_def)
    then show ?thesis using ops k spec by simp
  qed
  then show ?thesis using r by blast
qed

theorem rename_stage_witness:
  "\<exists>C C'. core_inv C \<and> contents (oc_fetchq C) = [move_uop] \<and> rename C = Some C' \<and> core_inv C'"
proof -
  obtain C where C: "core_inv C" "fetch_inv C" "contents (oc_fetchq C) = [move_uop]" by (rule started_core)
  show ?thesis using C(1,3) rename_stage [OF C(1,2)] by blast
qed

subsection \<open>Flush\<close>

text \<open>
  Claim C4. From every state that satisfies the invariant and holds no memory lock, the flush of
  the pipeline returns when the return address stack can be unwound. It leaves an empty pipeline
  that satisfies the invariant, fetching at the committed instruction pointer, with equal rename
  tables whose physical registers hold the architectural values.
\<close>

theorem flush_pipeline_restores:
  assumes "core_inv C" "fetch_inv C" "fill_inv {} (oc_caches C)" "oc_queued_mem_lock_release_list C = []"
    and "\<forall>e \<in> set (entries C). \<not> rb_lock_acquired e" "annul_fetchq C \<noteq> None"
  shows "\<exists>C'. flush_pipeline C = Some C' \<and> core_inv C' \<and> fetch_inv C' \<and> entries C' = [] \<and> contents (oc_fetchq C') = []
    \<and> oc_specrrt C' = oc_commitrrt C' \<and> oc_commitarf C' = oc_commitarf C \<and> rvp_rip (oc_fetchrip C') = oc_commitarf C ! REG_rip
    \<and> (\<forall>r < ARCHREG_COUNT. pr_data (preg_of (oc_files C') (oc_commitrrt C' ! r)) = oc_commitarf C ! r)
    \<and> oc_loads_in_flight C' = 0 \<and> oc_stores_in_flight C' = 0"
proof -
  note ready = core_flush_ready [OF assms(1,2)]
  obtain C' where "flush_pipeline C = Some C'" using flush_returns [OF ready assms(3-6)] by blast
  then show ?thesis using flush_restored [OF ready] unfolding restored_def by blast
qed

theorem flush_pipeline_restores_witness:
  "\<exists>C C'. core_inv C \<and> contents (oc_fetchq C) = [move_uop] \<and> flush_pipeline C = Some C' \<and> contents (oc_fetchq C') = []"
proof -
  obtain C where C: "core_inv C" "fetch_inv C" "contents (oc_fetchq C) = [move_uop]" "entries C = []" "fill_inv {} (oc_caches C)"
    "oc_queued_mem_lock_release_list C = []" by (rule started_core)
  have "\<not> isbranch (op_opcode move_uop)" by code_simp
  then have "annul_fetchbufs [move_uop] b = Some b" for b by simp
  moreover obtain js where "foreach_backward (length (slots (oc_fetchq C))) (oc_fetchq C) = Some js"
      "map (\<lambda>j. slots (oc_fetchq C) ! nat j) js = rev (contents (oc_fetchq C))"
    using foreach_contents [of "oc_fetchq C"] C(2) unfolding fetch_inv_def
    by (metis (no_types, lifting) list.map_comp rev_map nat_int o_def map_cong)
  ultimately have "annul_fetchq C \<noteq> None" using C(3) by (simp add: annul_fetchq_def)
  then show ?thesis using flush_pipeline_restores [OF C(1,2,5,6)] C(1,3,4) by auto
qed

text \<open>
  Claim C5. The core that is built with new register files, empty queues and a new cache hierarchy
  reaches a state that satisfies the invariant with its first flush, whatever the architectural
  registers, the predictor and the memory hold.
\<close>

theorem boot_establishes_invariant:
  "\<exists>C'. flush_pipeline (boot_core C) = Some C' \<and> core_inv C' \<and> fetch_inv C' \<and> entries C' = []
     \<and> oc_commitarf C' = oc_commitarf C \<and> rvp_rip (oc_fetchrip C') = oc_commitarf C ! REG_rip
     \<and> (\<forall>r < ARCHREG_COUNT. pr_data (preg_of (oc_files C') (oc_commitrrt C' ! r)) = oc_commitarf C ! r)"
proof -
  have "oc_commitarf (boot_core C) = oc_commitarf C" by (simp add: boot_core_def)
  then show ?thesis using boot_flush [of C] unfolding restored_def by auto
qed

theorem boot_establishes_invariant_witness:
  "\<exists>C C'. flush_pipeline (boot_core C) = Some C' \<and> oc_commitarf C = map of_nat [0..<ARCHREG_COUNT]
     \<and> pr_data (preg_of (oc_files C') (oc_commitrrt C' ! REG_rip)) = 56"
proof -
  obtain D where "core_inv D" by (rule started_core)
  define C where "C = D\<lparr>oc_commitarf := map of_nat [0..<ARCHREG_COUNT]\<rparr>"
  obtain C' where C': "flush_pipeline (boot_core C) = Some C'"
      "\<forall>r < ARCHREG_COUNT. pr_data (preg_of (oc_files C') (oc_commitrrt C' ! r)) = oc_commitarf C ! r"
    using boot_establishes_invariant [of C] by blast
  then have "pr_data (preg_of (oc_files C') (oc_commitrrt C' ! REG_rip)) = oc_commitarf C ! REG_rip"
    by (simp add: reg_numbers)
  also have "\<dots> = 56" by (simp add: C_def reg_numbers)
  finally show ?thesis using C'(1) by (intro exI [of _ C] exI [of _ C']) (simp add: C_def)
qed

subsection \<open>Reference counts\<close>

lemma count_list_mset: "count_list xs x = Multiset.count (mset xs) x"
  by (induction xs) auto

lemma count_null_refs: "Multiset.count (null_refs n) (f, i) = of_bool (i = PHYS_REG_NULL \<and> f < n)"
  by (induction n) auto



subsection \<open>The file of a floating point result\<close>

text \<open>
  Claim C40. A floating point operation whose destination is an internal register gets a register
  of the integer file: the class \<^verbatim>\<open>OPCLASS_FP\<close> that the choice tests holds the conversions between
  formats only, as its definition has a comma where it should have a bar.
\<close>

theorem fp_result_in_integer_file:
  "op_opcode uop < OP_MAX_OPCODE \<Longrightarrow> REG_temp0 \<le> op_rd uop \<Longrightarrow>
   opinfo_opclass ! op_opcode uop \<in> {OPCLASS_FP_ALU, OPCLASS_FP_DIVSQRT, OPCLASS_FP_COMPARE, OPCLASS_FP_CONVERTI2F, OPCLASS_FP_CONVERTF2I}
   \<Longrightarrow> phys_reg_files_writable_by_uop uop = push_bit PHYS_REG_FILE_INT 1"
  by (auto simp: phys_reg_files_writable_by_uop_def Let_def opclass_defs reg_numbers)

theorem fp_result_in_integer_file_witness:
  "phys_reg_files_writable_by_uop (move_uop\<lparr>op_opcode := OP_fadd, op_rd := REG_temp0\<rparr>) = push_bit PHYS_REG_FILE_INT 1"
proof (rule fp_result_in_integer_file)
  show "opinfo_opclass ! op_opcode (move_uop\<lparr>op_opcode := OP_fadd, op_rd := REG_temp0\<rparr>)
    \<in> {OPCLASS_FP_ALU, OPCLASS_FP_DIVSQRT, OPCLASS_FP_COMPARE, OPCLASS_FP_CONVERTI2F, OPCLASS_FP_CONVERTF2I}"
    by code_simp
qed (simp_all add: OP_fadd_def OP_MAX_OPCODE_def reg_numbers)

end
