(* ===== verification/Commit_Regs.thy ===== *)
theory Commit_Regs
  imports Rename_Core Lock_Frame
begin

text \<open>
  What the commit of the oldest entry does to the register files and to the committed table, and
  that it keeps the invariant of renaming.
\<close>

definition free_old :: "preg \<Rightarrow> RegFiles \<Rightarrow> RegFiles option" where
  "free_old old F =
     (if preg_nonnull old F
      then (if referenced old F then changestate old PHYSREG_PENDINGFREE F else preg_free old F) else Some F)"

lemma commit_free_old_eq:
  "commit_free_old old C =
     (if pr_state (preg_of (oc_files C) old) = PHYSREG_ARCH
      then map_option (\<lambda>F. C\<lparr>oc_files := F\<rparr>) (free_old old (oc_files C)) else None)"
  by (auto simp: commit_free_old_def free_old_def map_option_case split: option.split bind_splits)

lemma unref_operands_eq: "unref_operands ps C = map_option (\<lambda>F. C\<lparr>oc_files := F\<rparr>) (unspecrefs ps (oc_files C))"
  by (induction ps arbitrary: C) (auto simp: map_option_case split: option.split bind_splits)

definition commit_swaps :: "nat list \<Rightarrow> preg \<Rightarrow> Core \<Rightarrow> Core option" where
  "commit_swaps rs p C =
     map_option (\<lambda>(F, t). C\<lparr>oc_files := F, oc_commitrrt := t\<rparr>) (swap_refs rs p (oc_commitrrt C) (oc_files C))"

lemma commit_swaps_append: "commit_swaps (rs @ rs') p = (\<lambda>C. Option.bind (commit_swaps rs p C) (commit_swaps rs' p))"
proof
  fix C
  show "commit_swaps (rs @ rs') p C = Option.bind (commit_swaps rs p C) (commit_swaps rs' p)"
    by (cases "swap_refs rs p (oc_commitrrt C) (oc_files C)")
      (auto simp: commit_swaps_def swap_refs_append split_beta map_option_case split: option.splits)
qed

lemma commit_rename_eq: "commit_rename r p = commit_swaps [r] p"
  by (rule ext) (auto simp: commit_rename_def commit_swaps_def split: bind_splits)

lemma commit_rename_if_eq: "commit_rename_if b r p = commit_swaps (if b then [r] else []) p"
  by (rule ext) (auto simp: commit_rename_if_def commit_rename_def commit_swaps_def split: bind_splits)

lemma commit_flag_swaps:
  "\<not> op_nouserflags uop \<Longrightarrow> do {
       C \<leftarrow> commit_rename_if (sets_flag SETFLAG_ZF uop) REG_zf p C;
       C \<leftarrow> commit_rename_if (sets_flag SETFLAG_CF uop) REG_cf p C;
       commit_rename_if (sets_flag SETFLAG_OF uop) REG_of p C
     } = commit_swaps (flag_dests uop) p C"
  by (simp only: commit_rename_if_eq flag_dests_def commit_swaps_append if_False not_False_eq_True Option.bind_assoc)

lemma nonnull_snd:
  assumes "refs_inv R F" "in_file F p"
  shows "preg_nonnull p F \<longleftrightarrow> snd p \<noteq> 0"
  using refs_invD(1) [OF assms(1)] regs_okD(3) [OF _ assms(2)] by (auto simp: preg_nonnull_def PHYS_REG_NULL_def)

lemma free_old_ok:
  assumes "refs_inv R F" "in_file F old" "pr_state (preg_of F old) = PHYSREG_ARCH"
  obtains F' where "free_old old F = Some F'" "refs_inv R F'" "same_except {old} F F'"
    "snd old \<noteq> 0 \<Longrightarrow> pr_state (preg_of F' old) = PHYSREG_PENDINGFREE \<or> pr_state (preg_of F' old) = PHYSREG_FREE"
    "snd old = 0 \<Longrightarrow> F' = F" "pr_rob (preg_of F' old) = None \<or> pr_rob (preg_of F' old) = pr_rob (preg_of F old)"
proof -
  note nn = nonnull_snd [OF assms(1,2)]
  consider "snd old = 0" | "snd old \<noteq> 0" "referenced old F" | "snd old \<noteq> 0" "\<not> referenced old F" by blast
  then show ?thesis
  proof cases
    case 1
    have "same_except {old} F F" by (rule same_except_same) simp
    then show ?thesis using 1 nn assms(1) that [of F] by (simp add: free_old_def)
  next
    case 2
    obtain F' where F': "changestate old PHYSREG_PENDINGFREE F = Some F'" "refs_inv R F'"
        "only_preg old (\<lambda>r. r\<lparr>pr_state := PHYSREG_PENDINGFREE\<rparr>) F F'"
      by (rule change_refs [OF assms(1,2), of PHYSREG_PENDINGFREE]) (use assms(3) in simp_all)
    note o = only_pregD [OF F'(3)]
    have "free_old old F = Some F'" using 2 F'(1) nn by (simp add: free_old_def)
    then show ?thesis using that [of F'] F'(2) same_except_only [OF F'(3), of "{old}"] 2 o by simp
  next
    case 3
    then have "old \<notin># R" using refs_invD(5) [OF assms(1,2)] by (simp add: referenced_def not_in_iff)
    then obtain F' where F': "preg_free old F = Some F'" "refs_inv R F'" "only_preg old freed_reg F F'"
      by (rule free_refs [OF assms(1,2)])
    note o = only_pregD [OF F'(3)]
    have "free_old old F = Some F'" using 3 F'(1) nn by (simp add: free_old_def)
    then show ?thesis using that [of F'] F'(2) same_except_only [OF F'(3), of "{old}"] 3 o by (simp add: freed_reg_def)
  qed
qed

text \<open>The register part of \<^verbatim>\<open>commit\<close>, in the order of the code.\<close>

definition commit_regs :: "FetchBufferEntry \<Rightarrow> preg \<Rightarrow> preg list \<Rightarrow> preg \<Rightarrow> RegFiles \<times> preg list \<Rightarrow> (RegFiles \<times> preg list) option" where
  "commit_regs uop p ops old = (\<lambda>(F, t).
     do {
       (F, t) \<leftarrow> swap_refs [op_rd uop] p t F;
       (F, t) \<leftarrow> swap_refs (flag_dests uop) p t (upd_preg p (\<lambda>r. r\<lparr>pr_rob := None\<rparr>) F);
       F \<leftarrow> (if pr_state (preg_of F old) = PHYSREG_ARCH then free_old old F else None);
       F \<leftarrow> changestate p PHYSREG_ARCH F;
       F \<leftarrow> unspecrefs ops F;
       Some (F, t)
     })"

lemma commit_regs_ok:
  assumes ok: "ren_ok (Suc k) F spec commit (e # es)" and e: "rb_physreg e = Some p" and old: "old = commit ! op_rd (rb_uop e)"
  obtains F' where "commit_regs (rb_uop e) p (rb_operands e) old (F, commit) = Some (F', retire e commit)"
    "ren_ok k F' spec (retire e commit) es"
proof -
  note d = ren_okD [OF ok]
  let ?uop = "rb_uop e" and ?R = "rob_refs (e # es) + mset spec + null_refs PHYS_REG_FILE_COUNT" and ?t1 = "commit[op_rd (rb_uop e) := p]"
  obtain q where "rb_physreg e = Some q" "in_file F q" "snd q \<noteq> 0" "in_flight (pr_state (preg_of F q))" "uop_ok (rb_uop e)"
    by (rule entry_okD [OF rob_okD(1) [OF d(3), of e]]) simp_all
  then have p: "in_file F p" "snd p \<noteq> 0" "in_flight (pr_state (preg_of F p))" "uop_ok ?uop" using e by simp_all
  note u = dests_ok [OF p(4)] and c = committed_okD [OF d(2)]
  have inv: "refs_inv (?R + mset commit) F" using d(1) by (simp add: all_refs_def ac_simps)
  have oldF: "in_file F old" "pr_state (preg_of F old) = PHYSREG_ARCH" "pr_rob (preg_of F old) = None"
    using c(2,3) [OF u(2)] u(3) c(9) [of old] old by simp_all
  have ne: "old \<noteq> p" using oldF(2) p(3) by auto
  have rd: "\<forall>r \<in> set [op_rd ?uop]. r < length commit" using u(2) c(1) by simp
  obtain F1 where F1: "swap_refs [op_rd ?uop] p commit F = Some (F1, ?t1)" "refs_inv (?R + mset ?t1) F1" "same_regs F F1"
    using swap_refs_ok [OF inv rd p(1) in_flightD [OF p(3), THEN conjunct1]] by auto
  note s1 = same_regsD [OF F1(3)]
  let ?g = "\<lambda>r. r\<lparr>pr_rob := None\<rparr> :: PhysicalRegister" and ?F1 = "upd_preg p (\<lambda>r. r\<lparr>pr_rob := None\<rparr>) F1"
  have gk: "pr_state (?g r) = pr_state r \<and> pr_rfid (?g r) = pr_rfid r \<and> pr_idx (?g r) = pr_idx r \<and> pr_refcount (?g r) = pr_refcount r
      \<and> pr_threadid (?g r) = pr_threadid r" for r by simp
  have p1: "in_file F1 p" using s1(1) p(1) by simp
  note G = upd_refs [OF F1(2) p1 gk]
  note o1 = only_pregD [OF G(2)]
  have pG: "in_file ?F1 p" "pr_state (preg_of ?F1 p) \<noteq> PHYSREG_FREE" using o1 p(1) s1 in_flightD [OF p(3)] by simp_all
  have fl: "\<forall>r \<in> set (flag_dests ?uop). r < length ?t1" using set_flag_dests c(1) by auto
  have ret: "map_regs (flag_dests ?uop) p ?t1 = retire e commit" using e by (simp add: retire_def u(1))
  obtain F2 where F2: "swap_refs (flag_dests ?uop) p ?t1 ?F1 = Some (F2, retire e commit)"
      "refs_inv (?R + mset (retire e commit)) F2" "same_regs ?F1 F2"
    using swap_refs_ok [OF G(1) fl pG] unfolding ret by blast
  note s2 = same_regsD [OF F2(3)]
  have ex2: "same_except {p, old} F F2"
    using same_except_trans [OF same_except_same [OF F1(3)] same_except_trans [OF same_except_only [OF G(2)] same_except_same [OF F2(3)]]]
    by blast
  have old2: "in_file F2 old" "pr_state (preg_of F2 old) = PHYSREG_ARCH" "pr_rob (preg_of F2 old) = None"
    using oldF s1 s2 o1(2) [OF ne] o1(3) by simp_all
  obtain F3 where F3: "free_old old F2 = Some F3" "refs_inv (?R + mset (retire e commit)) F3" "same_except {old} F2 F3"
    "snd old \<noteq> 0 \<Longrightarrow> pr_state (preg_of F3 old) = PHYSREG_PENDINGFREE \<or> pr_state (preg_of F3 old) = PHYSREG_FREE"
    "snd old = 0 \<Longrightarrow> F3 = F2" "pr_rob (preg_of F3 old) = None \<or> pr_rob (preg_of F3 old) = pr_rob (preg_of F2 old)"
    by (rule free_old_ok [OF F2(2) old2(1,2)], rule that, assumption+)
  have p3: "in_file F3 p" "pr_state (preg_of F3 p) = pr_state (preg_of F p)" "pr_rob (preg_of F3 p) = None"
    using same_exceptD [OF F3(3), of p] ne s2 o1(1,3) s1 p(1) by simp_all
  obtain F4 where F4: "changestate p PHYSREG_ARCH F3 = Some F4" "refs_inv (?R + mset (retire e commit)) F4"
      "only_preg p (\<lambda>r. r\<lparr>pr_state := PHYSREG_ARCH\<rparr>) F3 F4"
    by (rule change_refs [OF F3(2) p3(1), of PHYSREG_ARCH]) (use p3(2) in_flightD [OF p(3)] in simp_all)
  note o4 = only_pregD [OF F4(3)]
  have "refs_inv (mset (rb_operands e) + all_refs spec (retire e commit) es) F4"
    using F4(2) by (simp add: all_refs_def ac_simps)
  then obtain F5 where F5: "unspecrefs (rb_operands e) F4 = Some F5" "refs_inv (all_refs spec (retire e commit) es) F5" "same_regs F4 F5"
    by (rule unrefs_refs)
  note s5 = same_regsD [OF F5(3)]
  have "ren_ok k F5 spec (retire e commit) es"
  proof (rule commit_ok [OF ok e old])
    show "same_except {p, old} F F5"
      using same_except_trans [OF ex2 same_except_trans [OF _ same_except_trans [OF same_except_only [OF F4(3)] same_except_same [OF F5(3)]]]]
        F3(3) unfolding same_except_def by blast
    show "pr_state (preg_of F5 p) = PHYSREG_ARCH" "pr_rob (preg_of F5 p) = None" using s5 o4(1) p3(3) by simp_all
    show "snd old \<noteq> 0 \<Longrightarrow> pr_state (preg_of F5 old) = PHYSREG_PENDINGFREE \<or> pr_state (preg_of F5 old) = PHYSREG_FREE"
      using s5 o4(2) [OF ne] F3(4) by simp
    show "snd old = 0 \<Longrightarrow> pr_state (preg_of F5 old) = PHYSREG_ARCH" using s5 o4(2) [OF ne] F3(5) old2(2) by simp
    show "pr_rob (preg_of F5 old) = None" using s5 o4(2) [OF ne] F3(6) old2(3) by auto
  qed (rule F5(2))
  moreover have "commit_regs ?uop p (rb_operands e) old (F, commit) = Some (F5, retire e commit)"
    unfolding commit_regs_def prod.case F1(1) bind.bind_lunit F2(1) by (simp add: old2(2) F3(1) F4(1) F5(1))
  ultimately show ?thesis by (rule that [rotated])
qed

end
