(* ===== verification/Commit_Core.thy ===== *)
theory Commit_Core
  imports Commit_Regs
begin

text \<open>
  The commit of one entry on the state of the core: the oldest entry leaves the reorder buffer, the
  committed table moves over it, and the invariant is kept.
\<close>

subsection \<open>The invariant with part of the entries in the speculative table\<close>

definition core_at :: "nat \<Rightarrow> Core \<Rightarrow> bool" where
  "core_at k C \<longleftrightarrow> fq_inv (oc_ROB C) \<and> length (slots (oc_ROB C)) = ROB_SIZE
     \<and> (\<forall>i < ROB_SIZE. rb_idx (rob_at i C) = i)
     \<and> ren_ok k (oc_files C) (oc_specrrt C) (oc_commitrrt C) (entries C)
     \<and> (\<exists>L. lists_ok L C) \<and> valid_ok C
     \<and> 0 \<le> oc_round_robin_reg_file_offset C \<and> oc_round_robin_reg_file_offset C < int PHYS_REG_FILE_COUNT"

lemma core_inv_at: "core_inv C \<longleftrightarrow> core_at (length (entries C)) C"
  by (simp add: core_inv_def core_at_def)

lemma core_atD:
  assumes "core_at k C"
  shows "fq_inv (oc_ROB C)" "length (slots (oc_ROB C)) = ROB_SIZE" "i < ROB_SIZE \<Longrightarrow> rb_idx (rob_at i C) = i"
    "ren_ok k (oc_files C) (oc_specrrt C) (oc_commitrrt C) (entries C)" "\<exists>L. lists_ok L C" "valid_ok C"
    "0 \<le> oc_round_robin_reg_file_offset C" "oc_round_robin_reg_file_offset C < int PHYS_REG_FILE_COUNT"
  using assms by (simp_all add: core_at_def)

text \<open>The parts of the core that the register operations do not touch.\<close>

definition same_rob :: "Core \<Rightarrow> Core \<Rightarrow> bool" where
  "same_rob C C' \<longleftrightarrow> oc_specrrt C' = oc_specrrt C \<and> oc_ROB C' = oc_ROB C \<and> oc_rob_lists C' = oc_rob_lists C
     \<and> oc_fetchq C' = oc_fetchq C \<and> oc_round_robin_reg_file_offset C' = oc_round_robin_reg_file_offset C"

lemma same_robD:
  assumes "same_rob C C'"
  shows "oc_specrrt C' = oc_specrrt C" "oc_ROB C' = oc_ROB C" "oc_rob_lists C' = oc_rob_lists C" "oc_fetchq C' = oc_fetchq C"
    "oc_round_robin_reg_file_offset C' = oc_round_robin_reg_file_offset C" "entries C' = entries C" "rob_at i C' = rob_at i C"
  using assms by (simp_all add: same_rob_def entries_def rob_at_def)

lemma same_rob_refl [simp]: "same_rob C C"
  by (simp add: same_rob_def)

lemma same_rob_trans [trans]: "same_rob C D \<Longrightarrow> same_rob D E \<Longrightarrow> same_rob C E"
  by (simp add: same_rob_def)

lemma core_at_same_rob:
  assumes "core_at k C" "same_rob C C'" "ren_ok k' (oc_files C') (oc_specrrt C) (oc_commitrrt C') (entries C)"
  shows "core_at k' C'"
proof -
  note s = same_robD [OF assms(2)]
  have "lists_ok L C' \<longleftrightarrow> lists_ok L C" for L by (rule lists_ok_cong) (simp_all add: s)
  moreover have "valid_ok C' \<longleftrightarrow> valid_ok C" by (simp add: valid_ok_def s)
  ultimately show ?thesis using assms(1,3) by (simp add: core_at_def s)
qed

text \<open>A change of the reorder buffer that its views and its lists do not see.\<close>

lemma core_at_rob:
  assumes C: "core_at k C" and C': "oc_files C' = oc_files C" "oc_specrrt C' = oc_specrrt C" "oc_commitrrt C' = oc_commitrrt C"
      "oc_rob_lists C' = oc_rob_lists C" "oc_round_robin_reg_file_offset C' = oc_round_robin_reg_file_offset C"
      "head (oc_ROB C') = head (oc_ROB C)" "tail (oc_ROB C') = tail (oc_ROB C)"
      "FixedQueue.count (oc_ROB C') = FixedQueue.count (oc_ROB C)" "length (slots (oc_ROB C')) = length (slots (oc_ROB C))"
    and at: "\<And>i. i < ROB_SIZE \<Longrightarrow> rob_view (rob_at i C') = rob_view (rob_at i C) \<and> rb_list (rob_at i C') = rb_list (rob_at i C)
      \<and> rb_entry_valid (rob_at i C') = rb_entry_valid (rob_at i C)"
  shows "core_at k C'" "map rob_view (entries C') = map rob_view (entries C)"
proof -
  note c = core_atD [OF C]
  have "rob_view (slots (oc_ROB C') ! i) = rob_view (slots (oc_ROB C) ! i)" if "i < length (slots (oc_ROB C))" for i
    using at [of i] that c(2) by (simp add: rob_at_def)
  note v = view_contents [where f = rob_view, OF C'(6-9) this c(1)]
  show m: "map rob_view (entries C') = map rob_view (entries C)" using v(1) by (simp add: entries_def)
  have "ren_ok k (oc_files C') (oc_specrrt C') (oc_commitrrt C') (entries C')"
    using c(4) ren_ok_view [OF m] by (simp add: C')
  moreover have "lists_ok L C' \<longleftrightarrow> lists_ok L C" for L by (rule lists_ok_cong) (use C' at in simp_all)
  moreover have "map rb_idx (entries C') = map rb_idx (entries C)" unfolding view_idx(1) m ..
  then have "rb_idx ` set (entries C') = rb_idx ` set (entries C)" by (metis list.set_map)
  then have "valid_ok C'" using valid_okD [OF c(6)] at unfolding valid_ok_def by simp
  moreover have "\<forall>i < ROB_SIZE. rb_idx (rob_at i C') = i" using at c(3) by (simp add: rob_view_def)
  ultimately show "core_at k C'" using c v(2) C' unfolding core_at_def by simp
qed

lemma core_at_lock:
  assumes "core_at k C" "lock_like C C'"
  shows "core_at k C'" "map rob_view (entries C') = map rob_view (entries C)"
proof -
  note l = lock_likeD [OF assms(2)] and c = core_atD [OF assms(1)]
  have at: "rob_view (rob_at i C') = rob_view (rob_at i C) \<and> rb_list (rob_at i C') = rb_list (rob_at i C)
      \<and> rb_entry_valid (rob_at i C') = rb_entry_valid (rob_at i C)" if "i < ROB_SIZE" for i
    using unlock_fields [OF l(15)] that c(2) by simp
  show "core_at k C'" "map rob_view (entries C') = map rob_view (entries C)"
    using core_at_rob [OF assms(1) l(1-4,9,11-14) at] by blast+
qed

subsection \<open>The register part of a commit\<close>

lemma commit_dest_regs:
  assumes "commit_dest uop p C = Some C'" "archdest_can_commit ! op_rd uop"
  obtains F where "swap_refs [op_rd uop] p (oc_commitrrt C) (oc_files C) = Some (F, oc_commitrrt C')"
    "oc_files C' = upd_preg p (\<lambda>r. r\<lparr>pr_rob := None\<rparr>) F" "same_rob C C'"
proof -
  obtain D where D: "commit_rename (op_rd uop) p C = Some D"
      "C' = (let C = (if op_rd uop < ARCHREG_COUNT then put_arf (op_rd uop) (pr_data (preg_of (oc_files D) p)) D else D)
        in C\<lparr>oc_files := upd_preg p (\<lambda>r. r\<lparr>pr_rob := None\<rparr>) (oc_files C)\<rparr>)"
    using assms by (auto simp: commit_dest_def Let_def split: bind_splits)
  then obtain F where F: "swap_refs [op_rd uop] p (oc_commitrrt C) (oc_files C) = Some (F, oc_commitrrt D)" "oc_files D = F" "same_rob C D"
    by (auto simp: commit_rename_def same_rob_def split: bind_splits)
  show ?thesis
    by (rule that [of F]) (use F D(2) in \<open>simp_all add: Let_def put_arf_def same_rob_def split: if_splits\<close>)
qed

lemma commit_rip_frame:
  "commit_rip uop p C = Some C' \<Longrightarrow> same_rob C C' \<and> oc_files C' = oc_files C \<and> oc_commitrrt C' = oc_commitrrt C"
  by (auto simp: commit_rip_def put_arf_def same_rob_def split: if_splits bind_splits)

lemma commit_flags_regs:
  assumes c: "commit_flags uop p C = Some C'" and u: "isload (op_opcode uop) \<or> isstore (op_opcode uop) \<longrightarrow> flag_dests uop = []"
  shows "swap_refs (flag_dests uop) p (oc_commitrrt C) (oc_files C) = Some (oc_files C', oc_commitrrt C')" "same_rob C C'"
proof -
  have "swap_refs (flag_dests uop) p (oc_commitrrt C) (oc_files C) = Some (oc_files C', oc_commitrrt C') \<and> same_rob C C'"
  proof (cases "isload (op_opcode uop) \<or> isstore (op_opcode uop) \<or> op_nouserflags uop")
    case True
    moreover have "op_nouserflags uop \<Longrightarrow> flag_dests uop = []" by (simp add: flag_dests_def)
    ultimately have "flag_dests uop = []" using u by blast
    moreover have "C' = C" using c True by (simp add: commit_flags_def)
    ultimately show ?thesis by simp
  next
    case False
    then obtain v where "commit_swaps (flag_dests uop) p (put_arf REG_flags v C) = Some C'"
      using c commit_flag_swaps [of uop p] by (auto simp: commit_flags_def Let_def)
    then show ?thesis by (auto simp: commit_swaps_def put_arf_def same_rob_def)
  qed
  then show "swap_refs (flag_dests uop) p (oc_commitrrt C) (oc_files C) = Some (oc_files C', oc_commitrrt C')" "same_rob C C'" by blast+
qed

lemma commit_memory_frame:
  "commit_memory i uop C = Some C' \<Longrightarrow> same_rob C C' \<and> oc_files C' = oc_files C \<and> oc_commitrrt C' = oc_commitrrt C
     \<and> oc_commitarf C' = oc_commitarf C"
  by (auto simp: commit_memory_def same_rob_def Let_def split: if_splits bind_splits)

lemma commit_lsq_frame:
  "commit_lsq i uop C = Some C' \<Longrightarrow> same_rob C C' \<and> oc_files C' = oc_files C \<and> oc_commitrrt C' = oc_commitrrt C
     \<and> oc_commitarf C' = oc_commitarf C"
  by (auto simp: commit_lsq_def same_rob_def Let_def set_unaligned_hint_def upd_lsq_def split: if_splits bind_splits)

lemma commit_state_regs:
  assumes c: "commit_state i uop old p C = Some C'" and u: "uop_ok uop"
  shows "commit_regs uop p (rb_operands (rob_at i C)) old (oc_files C, oc_commitrrt C) = Some (oc_files C', oc_commitrrt C')"
    "same_rob C C'"
proof -
  have can: "archdest_can_commit ! op_rd uop" using u by (simp add: uop_ok_def archdest_can_commit_nth)
  have fl: "isload (op_opcode uop) \<or> isstore (op_opcode uop) \<longrightarrow> flag_dests uop = []" using u by (simp add: uop_ok_def)
  obtain C1 C2 C3 C4 C5 C6 F7 where s: "commit_dest uop p C = Some C1" "commit_rip uop p C1 = Some C2" "commit_flags uop p C2 = Some C3"
      "commit_memory i uop C3 = Some C4" "commit_lsq i uop C4 = Some C5" "commit_free_old old C5 = Some C6"
      "changestate p PHYSREG_ARCH (oc_files C6) = Some F7" "unref_operands (rb_operands (rob_at i C6)) (C6\<lparr>oc_files := F7\<rparr>) = Some C'"
    using c unfolding commit_state_def by (auto split: bind_splits)
  obtain F1 where d: "swap_refs [op_rd uop] p (oc_commitrrt C) (oc_files C) = Some (F1, oc_commitrrt C1)"
      "oc_files C1 = upd_preg p (\<lambda>r. r\<lparr>pr_rob := None\<rparr>) F1" "same_rob C C1" by (rule commit_dest_regs [OF s(1) can])
  note r = commit_rip_frame [OF s(2)] and f = commit_flags_regs [OF s(3) fl]
  note m = commit_memory_frame [OF s(4)] and l = commit_lsq_frame [OF s(5)]
  obtain F6 where o: "free_old old (oc_files C5) = Some F6" "C6 = C5\<lparr>oc_files := F6\<rparr>" "pr_state (preg_of (oc_files C5) old) = PHYSREG_ARCH"
    using s(6) by (auto simp: commit_free_old_eq split: if_splits)
  obtain F8 where u8: "unspecrefs (rb_operands (rob_at i C6)) F7 = Some F8" "C' = C6\<lparr>oc_files := F8\<rparr>"
    using s(8) by (auto simp: unref_operands_eq)
  have "same_rob C C3" using same_rob_trans [OF d(3) same_rob_trans [OF conjunct1 [OF r] f(2)]] .
  then have "same_rob C C5" using same_rob_trans m l by blast
  moreover have "same_rob C5 C'" by (simp add: o(2) u8(2) same_rob_def)
  ultimately show "same_rob C C'" by (rule same_rob_trans)
  have "rob_at i C6 = rob_at i C" using same_robD(7) [OF \<open>same_rob C C5\<close>] by (simp add: o(2) rob_at_def)
  then have ops: "unspecrefs (rb_operands (rob_at i C)) F7 = Some F8" using u8(1) by simp
  have f3: "swap_refs (flag_dests uop) p (oc_commitrrt C1) (upd_preg p (\<lambda>r. r\<lparr>pr_rob := None\<rparr>) F1) = Some (oc_files C3, oc_commitrrt C3)"
    using f(1) r d(2) by simp
  have f5: "oc_files C5 = oc_files C3" "oc_commitrrt C' = oc_commitrrt C3" "oc_files C' = F8" "oc_files C6 = F6"
    using m l by (simp_all add: o(2) u8(2))
  show "commit_regs uop p (rb_operands (rob_at i C)) old (oc_files C, oc_commitrrt C) = Some (oc_files C', oc_commitrrt C')"
    unfolding commit_regs_def prod.case d(1) bind.bind_lunit f3
    using o(1,3) s(7) ops f5 by simp
qed

end
