(* ===== verification/Stage_Inv.thy ===== *)
theory Stage_Inv
  imports Commit_Core List_Walk
begin

text \<open>
  The steps the stages between renaming and retirement are made of, and that each keeps the
  invariant: a field of an entry changes, an entry moves to another list, a register in flight
  changes its state. The rule for a loop over the entries on one list is here, too.
\<close>

subsection \<open>Registers\<close>

text \<open>
  A register in flight stays in flight, a replaced register nothing refers to may become free, and
  everything else stays as it is.
\<close>

definition ages :: "preg multiset \<Rightarrow> RegFiles \<Rightarrow> RegFiles \<Rightarrow> bool" where
  "ages R F F' \<longleftrightarrow> (\<forall>p. in_file F' p = in_file F p \<and> pr_rob (preg_of F' p) = pr_rob (preg_of F p)
     \<and> (pr_state (preg_of F' p) = pr_state (preg_of F p)
        \<or> in_flight (pr_state (preg_of F p)) \<and> in_flight (pr_state (preg_of F' p))
        \<or> p \<notin># R \<and> pr_state (preg_of F p) = PHYSREG_PENDINGFREE \<and> pr_state (preg_of F' p) = PHYSREG_FREE))"

lemma agesD:
  assumes "ages R F F'"
  shows "in_file F' p = in_file F p" "pr_rob (preg_of F' p) = pr_rob (preg_of F p)"
    "pr_state (preg_of F' p) = pr_state (preg_of F p)
        \<or> in_flight (pr_state (preg_of F p)) \<and> in_flight (pr_state (preg_of F' p))
        \<or> p \<notin># R \<and> pr_state (preg_of F p) = PHYSREG_PENDINGFREE \<and> pr_state (preg_of F' p) = PHYSREG_FREE"
    "in_flight (pr_state (preg_of F' p)) \<longleftrightarrow> in_flight (pr_state (preg_of F p))"
    "pr_state (preg_of F' p) = PHYSREG_ARCH \<longleftrightarrow> pr_state (preg_of F p) = PHYSREG_ARCH"
    "p \<in># R \<Longrightarrow> pr_state (preg_of F p) = PHYSREG_PENDINGFREE \<Longrightarrow> pr_state (preg_of F' p) = PHYSREG_PENDINGFREE"
proof -
  show a: "in_file F' p = in_file F p" "pr_rob (preg_of F' p) = pr_rob (preg_of F p)"
    and b: "pr_state (preg_of F' p) = pr_state (preg_of F p)
        \<or> in_flight (pr_state (preg_of F p)) \<and> in_flight (pr_state (preg_of F' p))
        \<or> p \<notin># R \<and> pr_state (preg_of F p) = PHYSREG_PENDINGFREE \<and> pr_state (preg_of F' p) = PHYSREG_FREE"
    using assms unfolding ages_def by blast+
  show "in_flight (pr_state (preg_of F' p)) \<longleftrightarrow> in_flight (pr_state (preg_of F p))"
    "pr_state (preg_of F' p) = PHYSREG_ARCH \<longleftrightarrow> pr_state (preg_of F p) = PHYSREG_ARCH"
    "p \<in># R \<Longrightarrow> pr_state (preg_of F p) = PHYSREG_PENDINGFREE \<Longrightarrow> pr_state (preg_of F' p) = PHYSREG_PENDINGFREE"
    using b in_flightD by auto
qed

lemma ages_refl [simp]: "ages R F F"
  by (simp add: ages_def)

lemma ages_trans: "ages R F F' \<Longrightarrow> ages R F' F'' \<Longrightarrow> ages R F F''"
  unfolding ages_def by (metis in_flightD)

lemma ren_ok_ages:
  assumes ok: "ren_ok k F s c es" and F': "refs_inv (all_refs s c es) F'" "ages (all_refs s c es) F F'"
  shows "ren_ok k F' s c es"
proof -
  note d = ren_okD [OF ok] and a = agesD [OF F'(2)]
  note e = committed_okD [OF d(2)]
  have "\<not> in_flight PHYSREG_ARCH" "\<not> in_flight PHYSREG_PENDINGFREE" by simp_all
  have "committed_ok F' c"
    unfolding committed_ok_def
  proof (intro conjI allI impI)
    fix r assume r: "r < TRANSREG_COUNT"
    have "c ! r \<in># all_refs s c es" using r e(1) by (simp add: all_refs_def)
    then show "in_file F' (c ! r)" and "pr_state (preg_of F' (c ! r)) = PHYSREG_ARCH
        \<or> flag_reg r \<and> pr_state (preg_of F' (c ! r)) = PHYSREG_PENDINGFREE"
      using e(2,3,4) [OF r] a(1,5,6) by blast+
  next
    fix r r' assume "r < TRANSREG_COUNT" "r' < TRANSREG_COUNT" "\<not> flag_reg r \<and> \<not> flag_reg r' \<and> c ! r = c ! r'"
    then show "r = r' \<or> snd (c ! r) = 0" using e(5) by blast
  next
    fix p assume "in_file F' p \<and> pr_state (preg_of F' p) = PHYSREG_ARCH \<and> snd p \<noteq> 0"
    then show "\<exists>r < TRANSREG_COUNT. \<not> flag_reg r \<and> c ! r = p" using e(6) a(1,5) by blast
  next
    fix f assume "f < PHYS_REG_FILE_COUNT"
    then show "in_file F' (f, 0)" "pr_state (preg_of F' (f, 0)) = PHYSREG_ARCH" using e(7,8) a(1,5) by blast+
  next
    fix p assume "in_file F' p \<and> \<not> in_flight (pr_state (preg_of F' p))"
    then show "pr_rob (preg_of F' p) = None" using e(9) [of p] a(1,2,4) [of p] by simp
  qed (rule e(1))
  moreover have "rob_ok F' es"
    using d(3) entry_ok_cong [of F' F] a(1,2,4) unfolding rob_ok_def by blast
  ultimately show ?thesis using d(4-6) F'(1) by (simp add: ren_ok_def)
qed

lemma ages_state:
  assumes "only_preg p g F F'" "\<And>r. pr_rob (g r) = pr_rob r"
    and "in_flight (pr_state (preg_of F p)) \<and> in_flight (pr_state (g (preg_of F p))) \<or> pr_state (g (preg_of F p)) = pr_state (preg_of F p)"
  shows "ages R F F'"
  unfolding ages_def
proof
  fix q
  note o = only_pregD [OF assms(1)]
  show "in_file F' q = in_file F q \<and> pr_rob (preg_of F' q) = pr_rob (preg_of F q)
     \<and> (pr_state (preg_of F' q) = pr_state (preg_of F q)
        \<or> in_flight (pr_state (preg_of F q)) \<and> in_flight (pr_state (preg_of F' q))
        \<or> q \<notin># R \<and> pr_state (preg_of F q) = PHYSREG_PENDINGFREE \<and> pr_state (preg_of F' q) = PHYSREG_FREE)"
    using o(1,3) o(2) [of q] assms(2,3) by (cases "q = p") auto
qed

subsection \<open>What the stages leave alone\<close>

definition quiet :: "Core \<Rightarrow> Core \<Rightarrow> bool" where
  "quiet C C' \<longleftrightarrow> map rob_view (entries C') = map rob_view (entries C) \<and> oc_specrrt C' = oc_specrrt C
     \<and> oc_commitrrt C' = oc_commitrrt C \<and> oc_fetchq C' = oc_fetchq C \<and> oc_commitarf C' = oc_commitarf C
     \<and> oc_mem C' = oc_mem C \<and> oc_asp C' = oc_asp C"

lemma quiet_refl [simp]: "quiet C C"
  by (simp add: quiet_def)

lemma quiet_trans: "quiet C D \<Longrightarrow> quiet D E \<Longrightarrow> quiet C E"
  by (simp add: quiet_def)

lemma core_at_entry:
  assumes "core_at k C" "i < ROB_SIZE" "rb_list (rob_at i C) \<noteq> Some rob_free"
  shows "rob_at i C \<in> set (entries C)" "rb_idx (rob_at i C) = i" "entry_ok (oc_files C) (rob_at i C)"
proof -
  note c = core_atD [OF assms(1)]
  show i: "rb_idx (rob_at i C) = i" by (rule c(3) [OF assms(2)])
  have "i \<in> rb_idx ` set (entries C)" using valid_okD [OF c(6) assms(2)] assms(3) by blast
  then show "rob_at i C \<in> set (entries C)" using entries_at(4) [OF c(1,2,3)] by force
  then show "entry_ok (oc_files C) (rob_at i C)" using rob_okD(1) [OF ren_okD(3) [OF c(4)]] by blast
qed

text \<open>A field of an entry that the invariant does not read.\<close>

definition minor :: "(ReorderBufferEntry \<Rightarrow> ReorderBufferEntry) \<Rightarrow> bool" where
  "minor f \<longleftrightarrow> (\<forall>r. rob_view (f r) = rob_view r \<and> rb_list (f r) = rb_list r \<and> rb_entry_valid (f r) = rb_entry_valid r)"

lemma minorI [intro]:
  "(\<And>r. rob_view (f r) = rob_view r) \<Longrightarrow> (\<And>r. rb_list (f r) = rb_list r) \<Longrightarrow> (\<And>r. rb_entry_valid (f r) = rb_entry_valid r) \<Longrightarrow> minor f"
  by (simp add: minor_def)

lemma upd_rob_more [simp]:
  "oc_round_robin_reg_file_offset (upd_rob i f C) = oc_round_robin_reg_file_offset C"
  "oc_mem (upd_rob i f C) = oc_mem C" "oc_asp (upd_rob i f C) = oc_asp C" "oc_writecount (upd_rob i f C) = oc_writecount C"
  by (simp_all add: upd_rob_def)

lemma core_at_minor:
  assumes C: "core_at k C" and f: "minor f" and L: "lists_ok L C" and i: "i < ROB_SIZE"
  shows "core_at k (upd_rob i f C)" "quiet C (upd_rob i f C)" "lists_ok L (upd_rob i f C)"
proof -
  note c = core_atD [OF C]
  have at: "rob_view (rob_at j (upd_rob i f C)) = rob_view (rob_at j C) \<and> rb_list (rob_at j (upd_rob i f C)) = rb_list (rob_at j C)
      \<and> rb_entry_valid (rob_at j (upd_rob i f C)) = rb_entry_valid (rob_at j C)" for j
    using f i c(2) by (simp add: rob_at_upd minor_def)
  have "core_at k (upd_rob i f C) \<and> map rob_view (entries (upd_rob i f C)) = map rob_view (entries C)"
    using core_at_rob [OF C _ _ _ _ _ _ _ _ _ at] by simp
  then show "core_at k (upd_rob i f C)" "quiet C (upd_rob i f C)" by (simp_all add: quiet_def)
  show "lists_ok L (upd_rob i f C)" by (rule lists_ok_cong [THEN iffD2, OF _ _ _ L]) (simp_all add: at)
qed

text \<open>An entry of the buffer moves to another list.\<close>

lemma core_at_change:
  assumes C: "core_at k C" and L: "lists_ok L C" and i: "i < ROB_SIZE"
    and l: "rb_list (rob_at i C) = Some l" "l \<noteq> rob_free" and l': "rob_list_ok l'" "l' \<noteq> rob_free"
  obtains L' C' where "rob_changestate i l' None C = Some C'" "core_at k C'" "lists_ok L' C'" "quiet C C'"
    "\<And>m. m \<noteq> l' \<Longrightarrow> L' m = (if m = l then remove1 i (L m) else L m)"
    "\<And>j. rob_at j C' = (if j = i then (rob_at i C)\<lparr>rb_list := Some l'\<rparr> else rob_at j C)" "oc_files C' = oc_files C"
    "oc_writecount C' = oc_writecount C"
proof -
  note c = core_atD [OF C]
  obtain L' h where h: "rob_changestate i l' None C = Some (upd_rob i (\<lambda>r. r\<lparr>rb_list := Some l'\<rparr>) (C\<lparr>oc_rob_lists := h\<rparr>))"
      "lists_ok L' (upd_rob i (\<lambda>r. r\<lparr>rb_list := Some l'\<rparr>) (C\<lparr>oc_rob_lists := h\<rparr>))"
      "\<And>m. m \<noteq> l' \<Longrightarrow> L' m = (if rb_list (rob_at i C) = Some m then remove1 i (L m) else L m)"
    by (rule rob_changestate_ok [where place = None, OF L i l'(1)]) (simp, rule that)
  define C' where "C' = upd_rob i (\<lambda>r. r\<lparr>rb_list := Some l'\<rparr>) (C\<lparr>oc_rob_lists := h\<rparr>)"
  have at: "rob_at j C' = (if j = i then (rob_at i C)\<lparr>rb_list := Some l'\<rparr> else rob_at j C)" for j
    using i c(2) by (simp add: C'_def rob_at_def upd_rob_def)
  have "rob_view (slots (oc_ROB C') ! j) = rob_view (slots (oc_ROB C) ! j)" for j
    using at [of j] by (simp add: rob_at_def rob_view_def)
  note v = view_contents [where q' = "oc_ROB C'" and q = "oc_ROB C" and f = rob_view, OF _ _ _ _ this c(1)]
  have m: "map rob_view (entries C') = map rob_view (entries C)" "fq_inv (oc_ROB C')"
    using v by (simp_all add: entries_def C'_def)
  have r: "ren_ok k (oc_files C') (oc_specrrt C') (oc_commitrrt C') (entries C')"
    using c(4) ren_ok_view [OF m(1)] by (simp add: C'_def)
  have "map rb_idx (entries C') = map rb_idx (entries C)" unfolding view_idx(1) m(1) ..
  then have ids: "rb_idx ` set (entries C') = rb_idx ` set (entries C)" by (metis list.set_map)
  have "valid_ok C'"
    unfolding valid_ok_def
  proof (intro allI impI)
    fix j assume j: "j < ROB_SIZE"
    show "rb_entry_valid (rob_at j C') = (rb_list (rob_at j C') \<noteq> Some rob_free) \<and>
        rb_entry_valid (rob_at j C') = (j \<in> rb_idx ` set (entries C'))"
      using valid_okD [OF c(6) j] l l' unfolding at ids by auto
  qed
  moreover have "lists_ok L' C'" "length (slots (oc_ROB C')) = ROB_SIZE" using h(2) c(2) by (simp_all add: C'_def)
  moreover have "\<forall>j < ROB_SIZE. rb_idx (rob_at j C') = j" using at c(3) by simp
  ultimately have "core_at k C'" using c m r unfolding core_at_def by (auto simp: C'_def)
  moreover have "quiet C C'" using m by (simp add: quiet_def C'_def)
  moreover have "oc_files C' = oc_files C" "oc_writecount C' = oc_writecount C" by (simp_all add: C'_def)
  ultimately show ?thesis
    using that [of C' L'] h(1,3) \<open>lists_ok L' C'\<close> at l(1) by (simp add: C'_def [symmetric])
qed

text \<open>The register files change, and nothing else.\<close>

lemma core_at_files:
  assumes C: "core_at k C" and F: "refs_inv (all_refs (oc_specrrt C) (oc_commitrrt C) (entries C)) F"
      "ages (all_refs (oc_specrrt C) (oc_commitrrt C) (entries C)) (oc_files C) F" and L: "lists_ok L C"
  shows "core_at k (C\<lparr>oc_files := F\<rparr>)" "quiet C (C\<lparr>oc_files := F\<rparr>)" "lists_ok L (C\<lparr>oc_files := F\<rparr>)"
proof -
  let ?C = "C\<lparr>oc_files := F\<rparr>"
  have s: "same_rob C ?C" by (simp add: same_rob_def)
  show "core_at k ?C"
    by (rule core_at_same_rob [OF C s]) (use ren_ok_ages [OF core_atD(4) [OF C] F] in simp)
  show "quiet C ?C" by (simp add: quiet_def entries_def)
  show "lists_ok L ?C" by (rule lists_ok_cong [THEN iffD2, OF _ _ _ L]) (simp_all add: rob_at_def)
qed

lemma core_at_physreg:
  assumes C: "core_at k C" and i: "i < ROB_SIZE" "rb_list (rob_at i C) \<noteq> Some rob_free" and s: "in_flight s" and L: "lists_ok L C"
  obtains F where "upd_physreg i (\<lambda>p. changestate p s) C = Some (C\<lparr>oc_files := F\<rparr>)" "core_at k (C\<lparr>oc_files := F\<rparr>)"
    "quiet C (C\<lparr>oc_files := F\<rparr>)" "lists_ok L (C\<lparr>oc_files := F\<rparr>)" "pr_state (preg_of F (the (rb_physreg (rob_at i C)))) = s"
proof -
  note c = core_atD [OF C]
  obtain p where p: "rb_physreg (rob_at i C) = Some p" "in_file (oc_files C) p" "in_flight (pr_state (preg_of (oc_files C) p))"
    using entry_okD [OF core_at_entry(3) [OF C i]] by metis
  have live: "live_state s" using s by (auto simp: in_flight_def)
  have free: "s \<noteq> PHYSREG_FREE" using s in_flightD by blast
  obtain F where F: "changestate p s (oc_files C) = Some F"
      "refs_inv (all_refs (oc_specrrt C) (oc_commitrrt C) (entries C)) F" "only_preg p (\<lambda>r. r\<lparr>pr_state := s\<rparr>) (oc_files C) F"
    by (rule change_refs [OF ren_okD(1) [OF c(4)] p(2) live free]) (use p(3) in_flightD in blast, rule that)
  have "ages (all_refs (oc_specrrt C) (oc_commitrrt C) (entries C)) (oc_files C) F"
    by (rule ages_state [OF F(3)]) (use p(3) s in simp_all)
  note f = core_at_files [OF C F(2) this L]
  show ?thesis
    by (rule that [of F]) (use f F(1) p(1) only_pregD(1) [OF F(3)] in \<open>simp_all add: upd_physreg_def\<close>)
qed

end
