(* ===== verification/Stage_Flow.thy ===== *)
theory Stage_Flow
  imports Stage_Inv
begin

text \<open>
  The stages \<^verbatim>\<open>frontend\<close>, \<^verbatim>\<open>complete\<close>, \<^verbatim>\<open>transfer\<close> and \<^verbatim>\<open>writeback\<close>: none of their assertions can
  fail, they keep the invariant, and what each does to every entry of the buffer is one function of
  that entry.
\<close>

subsection \<open>What an entry carries through the stages\<close>

definition after_dispatch :: "rob_list \<Rightarrow> bool" where
  "after_dispatch l \<longleftrightarrow> l \<noteq> rob_free \<and> l \<noteq> rob_frontend \<and> l \<noteq> rob_ready_to_dispatch"

definition forwarding :: "rob_list \<Rightarrow> bool" where
  "forwarding l \<longleftrightarrow> (case l of rob_completed _ \<Rightarrow> True | rob_ready_to_writeback _ \<Rightarrow> True | _ \<Rightarrow> False)"

definition flow_entry :: "ReorderBufferEntry \<Rightarrow> bool" where
  "flow_entry r \<longleftrightarrow> (\<forall>l. rb_list r = Some l \<longrightarrow>
     (after_dispatch l \<longrightarrow> 0 \<le> sint (rb_cluster r) \<and> sint (rb_cluster r) < int MAX_CLUSTERS)
     \<and> (forwarding l \<longrightarrow> 0 \<le> sint (rb_forward_cycle r) \<and> sint (rb_forward_cycle r) \<le> int MAX_FORWARDING_LATENCY))"

definition flow_ok :: "Core \<Rightarrow> bool" where
  "flow_ok C \<longleftrightarrow> (\<forall>i < ROB_SIZE. flow_entry (rob_at i C))"

lemma flow_lists [simp]:
  "\<not> after_dispatch rob_free" "\<not> after_dispatch rob_frontend" "\<not> after_dispatch rob_ready_to_dispatch"
  "after_dispatch (rob_issued c)" "after_dispatch (rob_completed c)" "after_dispatch (rob_ready_to_writeback c)"
  "after_dispatch rob_ready_to_commit" "forwarding (rob_completed c)" "forwarding (rob_ready_to_writeback c)"
  "\<not> forwarding rob_free" "\<not> forwarding rob_frontend" "\<not> forwarding rob_ready_to_dispatch" "\<not> forwarding rob_ready_to_commit"
  "\<not> forwarding (rob_issued c)"
  by (simp_all add: after_dispatch_def forwarding_def)

lemma rob_list_oks [simp]:
  "rob_list_ok rob_free" "rob_list_ok rob_frontend" "rob_list_ok rob_ready_to_dispatch" "rob_list_ok rob_ready_to_commit"
  "rob_list_ok (rob_issued c) \<longleftrightarrow> c < MAX_CLUSTERS" "rob_list_ok (rob_completed c) \<longleftrightarrow> c < MAX_CLUSTERS"
  "rob_list_ok (rob_ready_to_writeback c) \<longleftrightarrow> c < MAX_CLUSTERS"
  by (simp_all add: rob_list_ok_def)

subsection \<open>A loop over the entries on one list\<close>

text \<open>One round: the entry at \<open>i\<close> is changed by \<open>g\<close>, and with it only the lists and the register files.\<close>

definition one_step :: "nat \<Rightarrow> rob_list \<Rightarrow> nat \<Rightarrow> (ReorderBufferEntry \<Rightarrow> ReorderBufferEntry) \<Rightarrow> int \<Rightarrow> (rob_list \<Rightarrow> nat list)
    \<Rightarrow> Core \<Rightarrow> (bool \<times> Core) option \<Rightarrow> bool" where
  "one_step k l i g d L C R \<longleftrightarrow> (\<exists>C' L'. R = Some (False, C') \<and> core_at k C' \<and> lists_ok L' C' \<and> quiet C C'
     \<and> oc_writecount C' = oc_writecount C + d
     \<and> (\<forall>j. rob_at j C' = (if j = i then g (rob_at i C) else rob_at j C))
     \<and> L' l = (if rb_list (g (rob_at i C)) = Some l then L l else remove1 i (L l)))"

lemma foreach_rob_map:
  assumes C0: "core_at k C0" "lists_ok L0 C0" "flow_ok C0" and l: "rob_list_ok l" "l \<noteq> rob_free"
    and g: "\<And>r. flow_entry r \<Longrightarrow> rb_list r = Some l \<Longrightarrow> flow_entry (g r)"
    and step: "\<And>L C i. core_at k C \<Longrightarrow> flow_ok C \<Longrightarrow> lists_ok L C \<Longrightarrow> i < ROB_SIZE \<Longrightarrow> rb_list (rob_at i C) = Some l \<Longrightarrow>
      (stop C \<and> body i C = Some (True, C)) \<or>
      one_step k l i g d L C (body i C) \<and> (d = 0 \<or> oc_writecount C + d \<le> w)"
  obtains C' ds ts where "foreach_rob l body C0 = Some C'" "core_at k C'" "flow_ok C'" "quiet C0 C'" "L0 l = ds @ ts"
    "ts \<noteq> [] \<Longrightarrow> stop C'" "oc_writecount C' = oc_writecount C0 + d * int (length ds)"
    "\<And>j. rob_at j C' = (if j \<in> set ds then g (rob_at j C0) else rob_at j C0)"
    "d = 0 \<or> oc_writecount C' \<le> max w (oc_writecount C0)"
proof -
  let ?root = "RobList l"
  let ?body = "\<lambda>e C. case e of Rob i \<Rightarrow> body i C | RobList _ \<Rightarrow> None"
  define J where "J = (\<lambda>ds ts C. core_at k C \<and> flow_ok C \<and> quiet C0 C \<and> L0 l = ds @ ts
      \<and> oc_writecount C = oc_writecount C0 + d * int (length ds)
      \<and> (\<forall>j. rob_at j C = (if j \<in> set ds then g (rob_at j C0) else rob_at j C0))
      \<and> (d = 0 \<or> oc_writecount C \<le> max w (oc_writecount C0)))"
  define I where "I = (\<lambda>pre todo C. \<exists>L ds ps ts. pre = map Rob ps \<and> todo = map Rob ts \<and> L l = ps @ ts \<and> lists_ok L C \<and> J ds ts C)"
  define Q where "Q = (\<lambda>C. \<exists>ds ts. J ds ts C \<and> (ts \<noteq> [] \<longrightarrow> stop C))"
  have root: "?root \<in> rob_roots" using l(1) by (auto simp: rob_roots_def)
  have ringL: "ring (lh_links (oc_rob_lists C)) (?root # map Rob (L l))" "distinct (L l)" "set (L l) = {i. i < ROB_SIZE \<and> rb_list (rob_at i C) = Some l}"
    if "lists_ok L C" for L C
    using state_listsD(1,3) [of rob_roots "rob_contents L" "oc_rob_lists C", OF _ root] that l(1)
    by (simp_all add: lists_ok_def rob_contents_def distinct_map)
  have I_ring: "ring (lh_links (oc_rob_lists C)) (?root # pre @ todo)" if i: "I pre todo C" for pre todo C
  proof -
    obtain L ds ps ts where x: "pre = map Rob ps" "todo = map Rob ts" "L l = ps @ ts" "lists_ok L C"
      using i unfolding I_def by (elim exE conjE) (rule that)
    show ?thesis using ringL(1) [OF x(4)] x(1-3) by simp
  qed
  have I_step: "\<exists>leave C' pre'. ?body e C = Some (leave, C') \<and> (leave \<longrightarrow> Q C') \<and> (\<not> leave \<longrightarrow> I pre' post C')"
    if i: "I pre (e # post) C" for pre e post C
  proof -
    obtain L ds ps ts where x: "pre = map Rob ps" "e # post = map Rob ts" "L l = ps @ ts" "lists_ok L C" "J ds ts C"
      using i unfolding I_def by (elim exE conjE) (rule that)
    obtain i ts' where ts: "ts = i # ts'" "e = Rob i" "post = map Rob ts'" using x(2) by (cases ts) auto
    have j: "core_at k C" "flow_ok C" "quiet C0 C" "L0 l = ds @ i # ts'" "oc_writecount C = oc_writecount C0 + d * int (length ds)"
        "\<And>j. rob_at j C = (if j \<in> set ds then g (rob_at j C0) else rob_at j C0)"
      using x(5) ts(1) unfolding J_def by blast+
    have dist: "distinct (ps @ i # ts')" "distinct (ds @ i # ts')"
      using ringL(2) [OF x(4)] ringL(2) [OF C0(2)] x(3) ts(1) j(4) by simp_all
    have mem: "i < ROB_SIZE" "rb_list (rob_at i C) = Some l" using ringL(3) [OF x(4)] x(3) ts(1) by auto
    have ni: "i \<notin> set ps" "i \<notin> set ds" using dist by auto
    consider "stop C" "body i C = Some (True, C)"
      | C' L' where "body i C = Some (False, C')" "core_at k C'" "lists_ok L' C'" "quiet C C'" "oc_writecount C' = oc_writecount C + d"
        "\<forall>j. rob_at j C' = (if j = i then g (rob_at i C) else rob_at j C)"
        "L' l = (if rb_list (g (rob_at i C)) = Some l then L l else remove1 i (L l))" "d = 0 \<or> oc_writecount C + d \<le> w"
      using step [OF j(1,2) x(4) mem] unfolding one_step_def by blast
    then show ?thesis
    proof cases
      case 1
      then have "Q C" using x(5) unfolding Q_def by blast
      then show ?thesis by (intro exI [of _ True] exI [of _ C]) (use 1 ts(2) in simp)
    next
      case 2
      have "flow_ok C'"
        using j(2) g [of "rob_at i C"] mem 2(6) unfolding flow_ok_def by simp
      moreover have "rob_at j C' = (if j \<in> set (ds @ [i]) then g (rob_at j C0) else rob_at j C0)" for j
        using 2(6) j(6) [of j] j(6) [of i] ni(2) by auto
      moreover have "quiet C0 C'" by (rule quiet_trans [OF j(3) 2(4)])
      moreover have "oc_writecount C' = oc_writecount C0 + d * int (length (ds @ [i]))" using 2(5) j(5) by (simp add: algebra_simps)
      moreover have "d = 0 \<or> oc_writecount C' \<le> max w (oc_writecount C0)" using 2(5,8) by auto
      ultimately have J': "J (ds @ [i]) ts' C'" unfolding J_def using j(4) 2(2) by simp
      have "\<exists>ps'. L' l = ps' @ ts'"
        using 2(7) x(3) ts(1) ni(1) by (auto simp: remove1_append)
      then obtain ps' where "L' l = ps' @ ts'" ..
      then have "I (map Rob ps') post C'" unfolding I_def
        by (intro exI [of _ L'] exI [of _ "ds @ [i]"] exI [of _ ps'] exI [of _ ts']) (use 2(3) J' ts(3) in simp)
      then show ?thesis using 2(1) ts(2) by auto
    qed
  qed
  have I_end: "Q C" if i: "I pre [] C" for pre C
  proof -
    obtain L ds ps ts where "[] = map Rob ts" "J ds ts C" using i unfolding I_def by (elim exE conjE) (rule that)
    then show ?thesis unfolding Q_def by auto
  qed
  have "J [] (L0 l) C0" using C0 by (simp add: J_def)
  then have start: "I [] (map Rob (L0 l)) C0" unfolding I_def
    by (intro exI [of _ L0] exI [of _ "[]"] exI [of _ "[]"] exI [of _ "L0 l"]) (use C0(2) in simp)
  have "card (set (L0 l)) \<le> card {..<ROB_SIZE}" using ringL(3) [OF C0(2)] by (intro card_mono) auto
  then have len: "length (map Rob (L0 l)) \<le> ROB_SIZE" using ringL(2) [OF C0(2)] by (simp add: distinct_card)
  have "\<exists>C'. foreach_list_mutable ROB_SIZE (\<lambda>C. lh_links (oc_rob_lists C)) ?body ?root (Some (hd (map Rob (L0 l) @ [?root]))) C0 = Some C' \<and> Q C'"
    by (rule foreach_walk [where Inv = I and pre = "[]"]) (erule I_step | erule I_ring | erule I_end | rule start | rule len)+
  then obtain C' where C': "foreach_list_mutable ROB_SIZE (\<lambda>C. lh_links (oc_rob_lists C)) ?body ?root (Some (hd (map Rob (L0 l) @ [?root]))) C0 = Some C'" "Q C'"
    by blast
  have "ring (lh_links (oc_rob_lists C0)) ([] @ ?root # map Rob (L0 l))" using ringL(1) [OF C0(2)] by simp
  then have "lk_next (lh_links (oc_rob_lists C0)) ?root = Some (hd (map Rob (L0 l) @ [?root]))" using ring_next by fastforce
  then have "foreach_rob l body C0 = Some C'" using C'(1) by (simp add: foreach_rob_def)
  moreover obtain ds ts where "J ds ts C'" "ts \<noteq> [] \<longrightarrow> stop C'" using C'(2) unfolding Q_def by blast
  ultimately show ?thesis using that [of C' ds ts] unfolding J_def by blast
qed

subsection \<open>The stages\<close>

lemma core_at_issueq:
  assumes "core_at k C" "lists_ok L C"
  shows "core_at k (C\<lparr>oc_issueq := q\<rparr>)" "quiet C (C\<lparr>oc_issueq := q\<rparr>)" "lists_ok L (C\<lparr>oc_issueq := q\<rparr>)"
    "core_at k (C\<lparr>oc_writecount := w\<rparr>)" "quiet C (C\<lparr>oc_writecount := w\<rparr>)" "lists_ok L (C\<lparr>oc_writecount := w\<rparr>)"
proof -
  have s: "same_rob C (C\<lparr>oc_issueq := q\<rparr>)" "same_rob C (C\<lparr>oc_writecount := w\<rparr>)" by (simp_all add: same_rob_def)
  show "core_at k (C\<lparr>oc_issueq := q\<rparr>)" "core_at k (C\<lparr>oc_writecount := w\<rparr>)"
    by (rule core_at_same_rob [OF assms(1)], use s core_atD(4) [OF assms(1)] in simp_all)+
  show "quiet C (C\<lparr>oc_issueq := q\<rparr>)" "quiet C (C\<lparr>oc_writecount := w\<rparr>)" by (simp_all add: quiet_def entries_def)
  show "lists_ok L (C\<lparr>oc_issueq := q\<rparr>)" "lists_ok L (C\<lparr>oc_writecount := w\<rparr>)"
    by (rule lists_ok_cong [THEN iffD2, OF _ _ _ assms(2)], simp_all add: rob_at_def)+
qed

lemma rob_tags: "\<forall>i \<in> set [0..<ROB_SIZE]. get_tag (of_nat i) 0 \<noteq> None"
  by code_simp

lemma forward_total:
  assumes "core_at k C" "i < ROB_SIZE" "flow_entry (rob_at i C)" "rb_list (rob_at i C) = Some l" "forwarding l"
  shows "\<exists>q. forward i C = Some (C\<lparr>oc_issueq := q\<rparr>)"
proof -
  obtain tag where "get_tag (of_nat (rb_idx (rob_at i C))) 0 = Some tag"
    using bspec [OF rob_tags, of i] core_atD(3) [OF assms(1,2)] assms(2) by auto
  moreover have "0 \<le> sint (rb_forward_cycle (rob_at i C)) \<and> sint (rb_forward_cycle (rob_at i C)) \<le> int MAX_FORWARDING_LATENCY"
    using assms(3-5) by (simp add: flow_entry_def)
  ultimately show ?thesis by (simp add: forward_def Let_def) (rule exI, rule refl)
qed

text \<open>\<^verbatim>\<open>frontend\<close>: an entry whose delay has run out may be dispatched.\<close>

definition frontend_entry :: "ReorderBufferEntry \<Rightarrow> ReorderBufferEntry" where
  "frontend_entry r = (if sint (rb_cycles_left r) \<le> 0 then r\<lparr>rb_list := Some rob_ready_to_dispatch, rb_cycles_left := -2\<rparr>
     else r\<lparr>rb_cycles_left := rb_cycles_left r - 1\<rparr>)"

lemma rob_at_upd_core: "core_at k D \<Longrightarrow> i < ROB_SIZE \<Longrightarrow> rob_at j (upd_rob i f D) = (if j = i then f (rob_at i D) else rob_at j D)"
  using core_atD(2) rob_at_upd by metis

lemma minor_fields [simp]:
  "minor (\<lambda>r. r\<lparr>rb_cycles_left := h r\<rparr>)" "minor (\<lambda>r. r\<lparr>rb_forward_cycle := h r\<rparr>)"
  "minor (\<lambda>r. r\<lparr>rb_forward_cycle := h r, rb_fu := h' r\<rparr>)"
  by (auto simp: rob_view_def)

lemma frontend_step:
  assumes C: "core_at k C" "lists_ok L C" "i < ROB_SIZE" and l: "rb_list (rob_at i C) = Some rob_frontend"
  shows "one_step k rob_frontend i frontend_entry 0 L C (frontend_one i C)"
proof -
  note at = rob_at_upd_core [OF _ C(3)]
  show ?thesis
  proof (cases "sint (rb_cycles_left (rob_at i C)) \<le> 0")
    case False
    note u = core_at_minor [OF C(1) minor_fields(1) C(2,3), of "\<lambda>r. rb_cycles_left r - 1"]
    show ?thesis
      unfolding one_step_def
      by (intro exI [of _ "upd_rob i (\<lambda>r. r\<lparr>rb_cycles_left := rb_cycles_left r - 1\<rparr>) C"] exI [of _ L])
        (use u False at [OF C(1)] l in \<open>simp add: frontend_entry_def frontend_one_def\<close>)
  next
    case True
    note u = core_at_minor [OF C(1) minor_fields(1) C(2,3), of "\<lambda>r. -1"]
    let ?D = "upd_rob i (\<lambda>r. r\<lparr>rb_cycles_left := -1\<rparr>) C"
    have l': "rb_list (rob_at i ?D) = Some rob_frontend" using at [OF C(1)] l by simp
    obtain L' E where E: "rob_changestate i rob_ready_to_dispatch None ?D = Some E" "core_at k E" "lists_ok L' E" "quiet ?D E"
      "\<And>m. m \<noteq> rob_ready_to_dispatch \<Longrightarrow> L' m = (if m = rob_frontend then remove1 i (L m) else L m)"
      "\<And>j. rob_at j E = (if j = i then (rob_at i ?D)\<lparr>rb_list := Some rob_ready_to_dispatch\<rparr> else rob_at j ?D)"
      "oc_writecount E = oc_writecount ?D"
      by (rule core_at_change [OF u(1,3) C(3) l' _ rob_list_oks(3)]) simp_all
    note v = core_at_minor [OF E(2) minor_fields(1) E(3) C(3), of "\<lambda>r. rb_cycles_left r - 1"]
    have q: "quiet C (upd_rob i (\<lambda>r. r\<lparr>rb_cycles_left := rb_cycles_left r - 1\<rparr>) E)"
      by (rule quiet_trans [OF u(2) quiet_trans [OF E(4) v(2)]])
    show ?thesis
      unfolding one_step_def
      by (intro exI [of _ "upd_rob i (\<lambda>r. r\<lparr>rb_cycles_left := rb_cycles_left r - 1\<rparr>) E"] exI [of _ L'])
        (use v(1,3) q True E(1,5,6,7) at [OF C(1)] at [OF E(2)] in \<open>simp add: frontend_entry_def frontend_one_def\<close>)
  qed
qed

text \<open>A stage without a limit on its work runs over the whole list.\<close>

lemma whole_list:
  assumes C: "core_at k C" "lists_ok L C" "flow_ok C" and l: "rob_list_ok l" "l \<noteq> rob_free"
    and g: "\<And>r. flow_entry r \<Longrightarrow> rb_list r = Some l \<Longrightarrow> flow_entry (g r)"
    and step: "\<And>L C i. core_at k C \<Longrightarrow> flow_ok C \<Longrightarrow> lists_ok L C \<Longrightarrow> i < ROB_SIZE \<Longrightarrow> rb_list (rob_at i C) = Some l \<Longrightarrow>
      one_step k l i g 0 L C (body i C)"
  obtains C' where "foreach_rob l body C = Some C'" "core_at k C'" "flow_ok C'" "quiet C C'"
    "\<And>j. j < ROB_SIZE \<Longrightarrow> rob_at j C' = (if rb_list (rob_at j C) = Some l then g (rob_at j C) else rob_at j C)"
proof -
  obtain C' ds ts where C': "foreach_rob l body C = Some C'" "core_at k C'" "flow_ok C'" "quiet C C'" "L l = ds @ ts"
    "ts \<noteq> [] \<Longrightarrow> False" "\<And>j. rob_at j C' = (if j \<in> set ds then g (rob_at j C) else rob_at j C)"
    by (rule foreach_rob_map [OF C l, where stop = "\<lambda>_. False" and d = 0 and g = g and body = body])
      (rule g, assumption, assumption, rule disjI2, rule conjI, rule step, assumption+, simp, rule that, assumption+)
  have "j \<in> set ds \<longleftrightarrow> rb_list (rob_at j C) = Some l" if "j < ROB_SIZE" for j
  proof -
    have "L l = ds" using C'(5,6) by (cases ts) auto
    moreover have "set (L l) = {i. i < ROB_SIZE \<and> rb_list (rob_at i C) = Some l}" using C(2) l(1) by (simp add: lists_ok_def)
    ultimately show ?thesis using that by blast
  qed
  then show ?thesis using that [of C'] C'(1-4,7) by simp
qed

lemma frontend_ok:
  assumes "core_at k C" "lists_ok L C" "flow_ok C"
  obtains C' where "frontend C = Some C'" "core_at k C'" "flow_ok C'" "quiet C C'"
    "\<And>j. j < ROB_SIZE \<Longrightarrow> rob_at j C' = (if rb_list (rob_at j C) = Some rob_frontend then frontend_entry (rob_at j C) else rob_at j C)"
proof (rule whole_list [OF assms rob_list_oks(2), where g = frontend_entry and body = frontend_one])
  show "flow_entry (frontend_entry r)" if "flow_entry r" "rb_list r = Some rob_frontend" for r
    using that by (simp add: flow_entry_def frontend_entry_def)
qed (simp, rule frontend_step, assumption+, rule that, unfold frontend_def, assumption+)

text \<open>\<^verbatim>\<open>complete\<close>: the result of an entry whose latency has run out is on the bypass network.\<close>

definition complete_entry :: "nat \<Rightarrow> ReorderBufferEntry \<Rightarrow> ReorderBufferEntry" where
  "complete_entry cluster r = (let r = r\<lparr>rb_cycles_left := rb_cycles_left r - 1\<rparr>
     in if sint (rb_cycles_left r) \<le> 0 then r\<lparr>rb_list := Some (rob_completed cluster), rb_forward_cycle := 0, rb_fu := 0\<rparr> else r)"

lemma complete_step:
  assumes C: "core_at k C" "lists_ok L C" "i < ROB_SIZE" and l: "rb_list (rob_at i C) = Some (rob_issued c)" and c: "c < MAX_CLUSTERS"
  shows "one_step k (rob_issued c) i (complete_entry c) 0 L C (complete_stage_one c i C)"
proof -
  note at = rob_at_upd_core [OF _ C(3)]
  let ?f = "\<lambda>r. r\<lparr>rb_cycles_left := rb_cycles_left r - 1\<rparr>" and ?h = "\<lambda>r. r\<lparr>rb_forward_cycle := 0, rb_fu := 0\<rparr>"
  let ?D = "upd_rob i ?f C"
  note u = core_at_minor [OF C(1) minor_fields(1) C(2,3), of "\<lambda>r. rb_cycles_left r - 1"]
  have l': "rb_list (rob_at i ?D) = Some (rob_issued c)" using at [OF C(1)] l by simp
  show ?thesis
  proof (cases "sint (rb_cycles_left (rob_at i ?D)) \<le> 0")
    case False
    show ?thesis
      unfolding one_step_def
      by (intro exI [of _ ?D] exI [of _ L])
        (use u False at [OF C(1)] l in \<open>simp add: complete_entry_def complete_stage_one_def Let_def\<close>)
  next
    case True
    obtain L' E where E: "rob_changestate i (rob_completed c) None ?D = Some E" "core_at k E" "lists_ok L' E" "quiet ?D E"
      "\<And>m. m \<noteq> rob_completed c \<Longrightarrow> L' m = (if m = rob_issued c then remove1 i (L m) else L m)"
      "\<And>j. rob_at j E = (if j = i then (rob_at i ?D)\<lparr>rb_list := Some (rob_completed c)\<rparr> else rob_at j ?D)"
      "oc_writecount E = oc_writecount ?D"
      by (rule core_at_change [OF u(1,3) C(3) l', of "rob_completed c"]) (use c in simp_all)
    have le: "rb_list (rob_at i E) \<noteq> Some rob_free" using E(6) by simp
    obtain F where F: "upd_physreg i preg_complete E = Some (E\<lparr>oc_files := F\<rparr>)" "core_at k (E\<lparr>oc_files := F\<rparr>)"
      "quiet E (E\<lparr>oc_files := F\<rparr>)" "lists_ok L' (E\<lparr>oc_files := F\<rparr>)"
      unfolding preg_complete_def by (rule core_at_physreg [OF E(2) C(3) le states_distinct(2) E(3)])
    note v = core_at_minor [OF F(2) minor_fields(3) F(4) C(3), of "\<lambda>_. 0" "\<lambda>_. 0"]
    have q: "quiet C (upd_rob i ?h (E\<lparr>oc_files := F\<rparr>))"
      by (rule quiet_trans [OF u(2) quiet_trans [OF E(4) quiet_trans [OF F(3) v(2)]]])
    have fr: "rob_at j (E\<lparr>oc_files := F\<rparr>) = rob_at j E" for j by (simp add: rob_at_def)
    show ?thesis
      unfolding one_step_def
      by (intro exI [of _ "upd_rob i ?h (E\<lparr>oc_files := F\<rparr>)"] exI [of _ L'])
        (use v(1,3) q True E(1,5,6,7) F(1) at [OF C(1)] at [OF F(2)] fr in \<open>simp add: complete_entry_def complete_stage_one_def Let_def\<close>)
  qed
qed

lemma complete_ok:
  assumes "core_at k C" "lists_ok L C" "flow_ok C" "c < MAX_CLUSTERS"
  obtains C' where "complete_stage c C = Some C'" "core_at k C'" "flow_ok C'" "quiet C C'"
    "\<And>j. j < ROB_SIZE \<Longrightarrow> rob_at j C' = (if rb_list (rob_at j C) = Some (rob_issued c) then complete_entry c (rob_at j C) else rob_at j C)"
proof (rule whole_list [OF assms(1-3), where l = "rob_issued c" and g = "complete_entry c" and body = "complete_stage_one c"])
  show "flow_entry (complete_entry c r)" if "flow_entry r" "rb_list r = Some (rob_issued c)" for r
    using that by (simp add: flow_entry_def complete_entry_def Let_def)
  show "rob_list_ok (rob_issued c)" using assms(4) by simp
qed (simp, rule complete_step [OF _ _ _ _ assms(4)], assumption+, rule that, unfold complete_stage_def, assumption+)

text \<open>\<^verbatim>\<open>transfer\<close>: the result is broadcast, one cycle further each time.\<close>

definition transfer_entry :: "ReorderBufferEntry \<Rightarrow> ReorderBufferEntry" where
  "transfer_entry r = (let r = r\<lparr>rb_forward_cycle := rb_forward_cycle r + 1\<rparr>
     in if sint (rb_forward_cycle r) > int MAX_FORWARDING_LATENCY
        then r\<lparr>rb_forward_cycle := of_nat MAX_FORWARDING_LATENCY, rb_list := Some (rob_ready_to_writeback (cluster_of r))\<rparr> else r)"

lemma flow_transfer:
  assumes "flow_entry r" "rb_list r = Some (rob_completed c)"
  shows "flow_entry (transfer_entry r)" "cluster_of r < MAX_CLUSTERS"
proof -
  have f: "0 \<le> sint (rb_forward_cycle r)" "sint (rb_forward_cycle r) \<le> int MAX_FORWARDING_LATENCY"
      "0 \<le> sint (rb_cluster r)" "sint (rb_cluster r) < int MAX_CLUSTERS" using assms by (simp_all add: flow_entry_def)
  have "sint (rb_forward_cycle r + 1) = sint (rb_forward_cycle r) + 1"
    using f(2) by (intro sint16_inc) (simp add: MAX_FORWARDING_LATENCY_def)
  then show "flow_entry (transfer_entry r)"
    using f assms(2) by (simp add: flow_entry_def transfer_entry_def Let_def MAX_FORWARDING_LATENCY_def)
  show "cluster_of r < MAX_CLUSTERS" using f(3,4) by (simp add: cluster_of_def)
qed

lemma transfer_step:
  assumes C: "core_at k C" "lists_ok L C" "i < ROB_SIZE" and l: "rb_list (rob_at i C) = Some (rob_completed c)" and f: "flow_ok C"
  shows "one_step k (rob_completed c) i transfer_entry 0 L C (transfer_stage_one c i C)"
proof -
  have fl: "flow_entry (rob_at i C)" using f C(3) by (simp add: flow_ok_def)
  obtain q where q: "forward i C = Some (C\<lparr>oc_issueq := q\<rparr>)" using forward_total [OF C(1,3) fl l] by auto
  let ?Q = "C\<lparr>oc_issueq := q\<rparr>"
  note w = core_at_issueq(1-3) [OF C(1,2), of q]
  have fr: "rob_at j ?Q = rob_at j C" for j by (simp add: rob_at_def)
  note at = rob_at_upd_core [OF _ C(3)]
  let ?D = "upd_rob i (\<lambda>r. r\<lparr>rb_forward_cycle := rb_forward_cycle r + 1\<rparr>) ?Q"
  note u = core_at_minor [OF w(1) minor_fields(2) w(3) C(3), of "\<lambda>r. rb_forward_cycle r + 1"]
  have q1: "quiet C ?D" by (rule quiet_trans [OF w(2) u(2)])
  show ?thesis
  proof (cases "sint (rb_forward_cycle (rob_at i ?D)) > int MAX_FORWARDING_LATENCY")
    case False
    show ?thesis
      unfolding one_step_def
      by (intro exI [of _ ?D] exI [of _ L])
        (use u q1 q False at [OF w(1)] l fr in \<open>simp add: transfer_entry_def transfer_stage_one_def Let_def\<close>)
  next
    case True
    let ?E = "upd_rob i (\<lambda>r. r\<lparr>rb_forward_cycle := of_nat MAX_FORWARDING_LATENCY\<rparr>) ?D"
    note v = core_at_minor [OF u(1) minor_fields(2) u(3) C(3), of "\<lambda>_. of_nat MAX_FORWARDING_LATENCY"]
    have e: "rob_at i ?E = (rob_at i C)\<lparr>rb_forward_cycle := of_nat MAX_FORWARDING_LATENCY\<rparr>"
      using at [OF u(1)] at [OF w(1)] fr by simp
    have l': "rb_list (rob_at i ?E) = Some (rob_completed c)" using e l by simp
    have c: "cluster_of (rob_at i ?E) = cluster_of (rob_at i C)" "cluster_of (rob_at i C) < MAX_CLUSTERS"
      using e flow_transfer(2) [OF fl l] by (simp_all add: cluster_of_def)
    obtain L' E where E: "rob_changestate i (rob_ready_to_writeback (cluster_of (rob_at i ?E))) None ?E = Some E" "core_at k E" "lists_ok L' E" "quiet ?E E"
      "\<And>m. m \<noteq> rob_ready_to_writeback (cluster_of (rob_at i ?E)) \<Longrightarrow> L' m = (if m = rob_completed c then remove1 i (L m) else L m)"
      "\<And>j. rob_at j E = (if j = i then (rob_at i ?E)\<lparr>rb_list := Some (rob_ready_to_writeback (cluster_of (rob_at i ?E)))\<rparr> else rob_at j ?E)"
      "oc_writecount E = oc_writecount ?E"
      by (rule core_at_change [OF v(1,3) C(3) l', of "rob_ready_to_writeback (cluster_of (rob_at i ?E))"]) (use c in simp_all)
    have q2: "quiet C E" by (rule quiet_trans [OF q1 quiet_trans [OF v(2) E(4)]])
    have r: "transfer_stage_one c i C = Some (False, E)"
      using True q E(1) by (simp add: transfer_stage_one_def)
    have "rob_at j E = (if j = i then transfer_entry (rob_at i C) else rob_at j C)" for j
    proof (cases "j = i")
      case True
      have "sint (rb_forward_cycle (rob_at i C) + 1) > int MAX_FORWARDING_LATENCY"
        using \<open>sint (rb_forward_cycle (rob_at i ?D)) > int MAX_FORWARDING_LATENCY\<close> at [OF w(1)] fr by simp
      then show ?thesis using True E(6) [of i] e c(1) by (simp add: transfer_entry_def Let_def cluster_of_def)
    next
      case False
      then show ?thesis using E(6) [of j] at [OF u(1)] at [OF w(1)] fr by simp
    qed
    moreover from this [of i] have "rb_list (transfer_entry (rob_at i C)) = rb_list (rob_at i E)" by simp
    then have "rb_list (transfer_entry (rob_at i C)) \<noteq> Some (rob_completed c)" using E(6) [of i] by simp
    ultimately show ?thesis
      unfolding one_step_def
      by (intro exI [of _ E] exI [of _ L']) (use r E(2,3,5,7) q2 in simp)
  qed
qed

lemma transfer_ok:
  assumes "core_at k C" "lists_ok L C" "flow_ok C" "c < MAX_CLUSTERS"
  obtains C' where "transfer_stage c C = Some C'" "core_at k C'" "flow_ok C'" "quiet C C'"
    "\<And>j. j < ROB_SIZE \<Longrightarrow> rob_at j C' = (if rb_list (rob_at j C) = Some (rob_completed c) then transfer_entry (rob_at j C) else rob_at j C)"
proof (rule whole_list [OF assms(1-3), where l = "rob_completed c" and g = transfer_entry and body = "transfer_stage_one c"])
  show "flow_entry (transfer_entry r)" if "flow_entry r" "rb_list r = Some (rob_completed c)" for r
    by (rule flow_transfer [OF that])
  show "rob_list_ok (rob_completed c)" using assms(4) by simp
qed (simp, rule transfer_step, assumption+, rule that, unfold transfer_stage_def, assumption+)

text \<open>\<^verbatim>\<open>writeback\<close>: at most \<^const>\<open>WRITEBACK_WIDTH\<close> results in a cycle, in the order of the list.\<close>

definition writeback_entry :: "ReorderBufferEntry \<Rightarrow> ReorderBufferEntry" where
  "writeback_entry r = r\<lparr>rb_cycles_left := -1, rb_list := Some rob_ready_to_commit\<rparr>"

lemma writeback_step:
  assumes C: "core_at k C" "lists_ok L C" "i < ROB_SIZE" and l: "rb_list (rob_at i C) = Some (rob_ready_to_writeback c)" and f: "flow_ok C"
    and w: "\<not> oc_writecount C \<ge> WRITEBACK_WIDTH"
  shows "one_step k (rob_ready_to_writeback c) i writeback_entry 1 L C (writeback_stage_one c i C)"
proof -
  have fl: "flow_entry (rob_at i C)" using f C(3) by (simp add: flow_ok_def)
  obtain q where q: "forward i C = Some (C\<lparr>oc_issueq := q\<rparr>)" using forward_total [OF C(1,3) fl l] by auto
  let ?W = "C\<lparr>oc_issueq := q, oc_writecount := oc_writecount C + 1\<rparr>"
  note a = core_at_issueq(1-3) [OF C(1,2), of q]
  note b = core_at_issueq(4-6) [OF a(1,3), of "oc_writecount C + 1"]
  have w1: "core_at k ?W" "lists_ok L ?W" using b by simp_all
  have fr: "rob_at j ?W = rob_at j C" for j by (simp add: rob_at_def)
  have le: "rb_list (rob_at i ?W) \<noteq> Some rob_free" using fr l by simp
  obtain F where F: "upd_physreg i preg_writeback ?W = Some (?W\<lparr>oc_files := F\<rparr>)" "core_at k (?W\<lparr>oc_files := F\<rparr>)"
      "quiet ?W (?W\<lparr>oc_files := F\<rparr>)" "lists_ok L (?W\<lparr>oc_files := F\<rparr>)"
    unfolding preg_writeback_def by (rule core_at_physreg [OF w1(1) C(3) le states_distinct(3) w1(2)])
  let ?X = "?W\<lparr>oc_files := F\<rparr>" and ?D = "upd_rob i (\<lambda>r. r\<lparr>rb_cycles_left := -1\<rparr>) (?W\<lparr>oc_files := F\<rparr>)"
  have fx: "rob_at j ?X = rob_at j C" for j by (simp add: rob_at_def)
  note at = rob_at_upd_core [OF F(2) C(3)]
  note u = core_at_minor [OF F(2) minor_fields(1) F(4) C(3), of "\<lambda>_. -1"]
  have l': "rb_list (rob_at i ?D) = Some (rob_ready_to_writeback c)" using at fx l by simp
  obtain L' E where E: "rob_changestate i rob_ready_to_commit None ?D = Some E" "core_at k E" "lists_ok L' E" "quiet ?D E"
      "\<And>m. m \<noteq> rob_ready_to_commit \<Longrightarrow> L' m = (if m = rob_ready_to_writeback c then remove1 i (L m) else L m)"
      "\<And>j. rob_at j E = (if j = i then (rob_at i ?D)\<lparr>rb_list := Some rob_ready_to_commit\<rparr> else rob_at j ?D)"
      "oc_writecount E = oc_writecount ?D"
    by (rule core_at_change [OF u(1,3) C(3) l' _ rob_list_oks(4)]) simp_all
  have qu: "quiet C E"
    by (rule quiet_trans [OF a(2) quiet_trans [OF _ quiet_trans [OF F(3) quiet_trans [OF u(2) E(4)]]]]) (use b(2) in simp)
  have r: "writeback_stage_one c i C = Some (False, E)" using w q F(1) E(1) by (simp add: writeback_stage_one_def)
  have "rob_at j E = (if j = i then writeback_entry (rob_at i C) else rob_at j C)" for j
    using E(6) [of j] at fx by (simp add: writeback_entry_def)
  then show ?thesis
    unfolding one_step_def
    by (intro exI [of _ E] exI [of _ L']) (use r E(2,3,5,7) qu in \<open>simp add: writeback_entry_def\<close>)
qed

lemma writeback_ok:
  assumes "core_at k C" "lists_ok L C" "flow_ok C" "c < MAX_CLUSTERS"
  obtains C' ds ts where "writeback_stage c C = Some C'" "core_at k C'" "flow_ok C'" "quiet C C'" "L (rob_ready_to_writeback c) = ds @ ts"
    "ts \<noteq> [] \<Longrightarrow> oc_writecount C' \<ge> WRITEBACK_WIDTH" "oc_writecount C' = oc_writecount C + int (length ds)"
    "\<And>j. rob_at j C' = (if j \<in> set ds then writeback_entry (rob_at j C) else rob_at j C)"
    "oc_writecount C' \<le> max WRITEBACK_WIDTH (oc_writecount C)"
proof (rule foreach_rob_map [OF assms(1-3), where l = "rob_ready_to_writeback c" and g = writeback_entry and d = 1
      and body = "writeback_stage_one c" and stop = "\<lambda>C. oc_writecount C \<ge> WRITEBACK_WIDTH" and w = WRITEBACK_WIDTH])
  show "flow_entry (writeback_entry r)" if "flow_entry r" "rb_list r = Some (rob_ready_to_writeback c)" for r
    using that by (simp add: flow_entry_def writeback_entry_def)
  show "rob_list_ok (rob_ready_to_writeback c)" using assms(4) by simp
  fix L C i
  assume a: "core_at k C" "flow_ok C" "lists_ok L C" "i < ROB_SIZE" "rb_list (rob_at i C) = Some (rob_ready_to_writeback c)"
  show "(WRITEBACK_WIDTH \<le> oc_writecount C \<and> writeback_stage_one c i C = Some (True, C))
      \<or> one_step k (rob_ready_to_writeback c) i writeback_entry 1 L C (writeback_stage_one c i C) \<and> ((1 :: int) = 0 \<or> oc_writecount C + 1 \<le> WRITEBACK_WIDTH)"
    using writeback_step [OF a(1,3,4,5,2)] by (auto simp: writeback_stage_one_def)
qed (simp, rule that, unfold writeback_stage_def, assumption+, simp, assumption, simp)

end
