(* ===== verification/Commit_Stage.thy ===== *)
theory Commit_Stage
  imports Stage_Flow
begin

text \<open>
  The commit stage: the recycling of registers, the scan of a macro-op, the commit of one entry and
  the loop over the oldest entries keep the invariant; the entries that commit are the oldest ones,
  and the committed table moves over exactly them.
\<close>

subsection \<open>The oldest entry leaves the buffer\<close>

lemma contents_update:
  assumes "fq_inv q" "k < length (contents q)"
  shows "contents (q\<lparr>slots := (slots q)[fq_ix q k := y]\<rparr>) = (contents q)[k := y]" "fq_inv (q\<lparr>slots := (slots q)[fq_ix q k := y]\<rparr>)"
proof -
  let ?q = "q\<lparr>slots := (slots q)[fq_ix q k := y]\<rparr>"
  have ix: "fq_ix ?q = fq_ix q" by (rule ext) (simp add: fq_ix_def fq_size_def)
  have d: "distinct (map (fq_ix q) [0..<length (contents q)])" using foreach_contents [OF assms(1)] by blast
  show "contents ?q = (contents q)[k := y]"
  proof (rule nth_equalityI)
    show "length (contents ?q) = length ((contents q)[k := y])" by (simp add: contents_def)
  next
    fix j assume "j < length (contents ?q)"
    then have j: "j < length (contents q)" by (simp add: contents_def)
    have "fq_ix q j = fq_ix q k \<longleftrightarrow> j = k"
      using d assms(2) j by (auto simp: distinct_conv_nth)
    then show "contents ?q ! j = (contents q)[k := y] ! j"
      using j assms(2) fq_ix_less [OF assms(1), of k] ix by (auto simp: contents_def nth_list_update)
  qed
  show "fq_inv ?q" using assms(1) by (simp add: fq_inv_def fq_size_def)
qed

lemma rob_reset_fields [simp]: "rb_idx (rob_reset r) = rb_idx r" "rb_list (rob_reset r) = rb_list r" "\<not> rb_entry_valid (rob_reset r)"
  by (simp_all add: rob_reset_def)

lemma commit_entry_ok:
  assumes q: "fq_inv (oc_ROB D)" "length (slots (oc_ROB D)) = ROB_SIZE" "\<And>i. i < ROB_SIZE \<Longrightarrow> rb_idx (rob_at i D) = i"
    and L: "lists_ok L D" and v: "valid_ok D" and off: "0 \<le> oc_round_robin_reg_file_offset D" "oc_round_robin_reg_file_offset D < int PHYS_REG_FILE_COUNT"
    and es: "entries D = e # es" and i: "i = rb_idx e"
    and ren: "ren_ok k (oc_files D) (oc_specrrt D) (oc_commitrrt D) es"
  obtains C' where "commit_entry i D = Some C'" "core_at k C'" "map rob_view (entries C') = map rob_view es"
    "oc_files C' = oc_files D" "oc_specrrt C' = oc_specrrt D" "oc_commitrrt C' = oc_commitrrt D" "oc_fetchq C' = oc_fetchq D"
    "oc_commitarf C' = oc_commitarf D" "\<And>j. j \<noteq> i \<Longrightarrow> rob_at j C' = rob_at j D" "rb_list (rob_at i C') = Some rob_free"
proof -
  note at = entries_at [OF q]
  have iS: "i < ROB_SIZE" "rob_at i D = e" using at(4) [of e] es i by simp_all
  have head: "i = fq_ix (oc_ROB D) 0" using at(2) es i by (simp add: upt_conv_Cons del: upt_Suc)
  obtain L' h where h: "rob_changestate i rob_free None D = Some (upd_rob i (\<lambda>r. r\<lparr>rb_list := Some rob_free\<rparr>) (D\<lparr>oc_rob_lists := h\<rparr>))"
      "lists_ok L' (upd_rob i (\<lambda>r. r\<lparr>rb_list := Some rob_free\<rparr>) (D\<lparr>oc_rob_lists := h\<rparr>))"
    by (rule rob_changestate_ok [where place = None and l' = rob_free, OF L iS(1)]) (simp_all add: rob_list_ok_def)
  define D2 where "D2 = upd_rob i rob_reset (upd_rob i (\<lambda>r. r\<lparr>rb_list := Some rob_free\<rparr>) (D\<lparr>oc_rob_lists := h\<rparr>))"
  let ?y = "rob_reset (e\<lparr>rb_list := Some rob_free\<rparr>)"
  have at2: "rob_at j D2 = (if j = i then ?y else rob_at j D)" for j
    using iS q(2) by (simp add: D2_def rob_at_def upd_rob_def)
  have rob2: "oc_ROB D2 = (oc_ROB D)\<lparr>slots := (slots (oc_ROB D))[i := ?y]\<rparr>"
    using iS q(2) by (simp add: D2_def rob_at_def upd_rob_def)
  have "0 < length (contents (oc_ROB D))" using es by (simp add: entries_def)
  note cu0 = contents_update [OF q(1) this, of ?y]
  note cu = cu0 [unfolded head [symmetric], folded rob2]
  have c2: "contents (oc_ROB D2) = ?y # es" using cu(1) es by (simp add: entries_def)
  have ne: "contents (oc_ROB D2) \<noteq> []" by (simp add: c2)
  obtain p q' where q': "fq_dequeue (oc_ROB D2) = (Some p, q')" "fq_inv q'" "contents q' = es"
    using fq_dequeueD [OF cu(2) c2] by blast
  have hd: "int (rb_idx (rob_at i D2)) = head (oc_ROB D2)"
    using at2 head i fq_invD(1,2,3) [OF q(1)] iS(2) by (simp add: rob2 fq_ix_def)
  have com: "fq_commit (int (rb_idx (rob_at i D2))) (oc_ROB D2) = Some q'"
    unfolding hd fq_commit_eq_dequeue [OF cu(2) ne] q'(1) by simp
  have sl: "slots q' = slots (oc_ROB D2)" using q'(1) by (auto simp: fq_dequeue_def split: if_splits)
  define C' where "C' = D2\<lparr>oc_ROB := q'\<rparr>"
  have at': "rob_at j C' = rob_at j D2" for j by (simp add: C'_def rob_at_def sl)
  have ent: "entries C' = es" by (simp add: entries_def C'_def q'(3))
  have len: "length (slots (oc_ROB C')) = ROB_SIZE" using q(2) by (simp add: C'_def sl rob2)
  have idx: "\<forall>j < ROB_SIZE. rb_idx (rob_at j C') = j" using q(3) iS i by (simp add: at' at2)
  have "lists_ok L' C'"
  proof (rule lists_ok_cong [THEN iffD2, OF _ _ _ h(2)])
    show "oc_rob_lists C' = oc_rob_lists (upd_rob i (\<lambda>r. r\<lparr>rb_list := Some rob_free\<rparr>) (D\<lparr>oc_rob_lists := h\<rparr>))"
      by (simp add: C'_def D2_def)
    show "length (slots (oc_ROB C')) = length (slots (oc_ROB (upd_rob i (\<lambda>r. r\<lparr>rb_list := Some rob_free\<rparr>) (D\<lparr>oc_rob_lists := h\<rparr>))))"
      using len q(2) by simp
    fix j
    show "rb_list (rob_at j C') = rb_list (rob_at j (upd_rob i (\<lambda>r. r\<lparr>rb_list := Some rob_free\<rparr>) (D\<lparr>oc_rob_lists := h\<rparr>)))"
    proof (cases "j = i")
      case True
      have "rb_list (rob_at i (upd_rob i (\<lambda>r. r\<lparr>rb_list := Some rob_free\<rparr>) (D\<lparr>oc_rob_lists := h\<rparr>))) = Some rob_free"
        using iS(1) q(2) by (simp add: rob_at_upd)
      then show ?thesis using True by (simp add: at' at2)
    next
      case False
      have "rob_at j (D\<lparr>oc_rob_lists := h\<rparr>) = rob_at j D" by (simp add: rob_at_def)
      then show ?thesis using False by (simp add: at' at2)
    qed
  qed
  moreover have "valid_ok C'"
    unfolding valid_ok_def
  proof (intro allI impI)
    fix j assume j: "j < ROB_SIZE"
    have ids: "rb_idx ` set (entries D) = insert i (rb_idx ` set es)" "i \<notin> rb_idx ` set es"
      using at(3) es i by auto
    show "rb_entry_valid (rob_at j C') = (rb_list (rob_at j C') \<noteq> Some rob_free) \<and>
          rb_entry_valid (rob_at j C') = (j \<in> rb_idx ` set (entries C'))"
      using valid_okD [OF v j] ids by (auto simp: at' at2 ent)
  qed
  moreover have fields: "oc_files C' = oc_files D" "oc_specrrt C' = oc_specrrt D" "oc_commitrrt C' = oc_commitrrt D" "oc_fetchq C' = oc_fetchq D"
      "oc_commitarf C' = oc_commitarf D" "oc_round_robin_reg_file_offset C' = oc_round_robin_reg_file_offset D"
    by (simp_all add: C'_def D2_def upd_rob_def)
  moreover have "fq_inv (oc_ROB C')" using q'(2) by (simp add: C'_def)
  ultimately have core: "core_at k C'"
    using len idx ren off ent by (auto simp: core_at_def)
  have "commit_entry i D = Some C'"
    unfolding commit_entry_def h(1) bind.bind_lunit D2_def [symmetric] com C'_def ..
  then show ?thesis using that [of C'] core ent fields at2 at' by simp
qed

subsection \<open>Steps that retire nothing\<close>

lemma flow_ok_cong:
  assumes "flow_ok C" "\<And>i. i < ROB_SIZE \<Longrightarrow> rb_list (rob_at i D) = rb_list (rob_at i C) \<and> rb_cluster (rob_at i D) = rb_cluster (rob_at i C)
      \<and> rb_forward_cycle (rob_at i D) = rb_forward_cycle (rob_at i C)"
  shows "flow_ok D"
  using assms unfolding flow_ok_def flow_entry_def by simp

text \<open>The registers and the fields beside the buffer and the tables change.\<close>

lemma core_at_regs:
  assumes C: "core_at k C" and s: "same_rob C D" "oc_commitrrt D = oc_commitrrt C" "oc_commitarf D = oc_commitarf C"
      "oc_mem D = oc_mem C" "oc_asp D = oc_asp C"
    and F: "refs_inv (all_refs (oc_specrrt C) (oc_commitrrt C) (entries C)) (oc_files D)"
      "ages (all_refs (oc_specrrt C) (oc_commitrrt C) (entries C)) (oc_files C) (oc_files D)"
  shows "core_at k D" "quiet C D" "\<And>j. rob_at j D = rob_at j C"
proof -
  note r = same_robD [OF s(1)]
  show "core_at k D"
    by (rule core_at_same_rob [OF C s(1)]) (use ren_ok_ages [OF core_atD(4) [OF C] F] s(2) in simp)
  show "quiet C D" using s r by (simp add: quiet_def)
  show "\<And>j. rob_at j D = rob_at j C" by (rule r(7))
qed

lemma core_at_frame:
  assumes C: "core_at k C" and s: "same_rob C D" "oc_commitrrt D = oc_commitrrt C" "oc_commitarf D = oc_commitarf C"
      "oc_mem D = oc_mem C" "oc_asp D = oc_asp C" "oc_files D = oc_files C"
  shows "core_at k D" "quiet C D" "\<And>j. rob_at j D = rob_at j C"
  using core_at_regs [OF C s(1-5)] ren_okD(1) [OF core_atD(4) [OF C]] s(6) by simp_all

lemma lock_quiet:
  assumes C: "core_at k C" "flow_ok C" and l: "lock_like C D"
  shows "core_at k D" "quiet C D" "flow_ok D"
proof -
  note d = lock_likeD [OF l] and c = core_at_lock [OF C(1) l]
  show "core_at k D" by (rule c)
  have "oc_mem D = oc_mem C" "oc_asp D = oc_asp C" using l unfolding lock_like_def by auto
  then show "quiet C D" using c(2) d by (simp add: quiet_def)
  show "flow_ok D"
  proof (rule flow_ok_cong [OF C(2)])
    fix i assume "i < ROB_SIZE"
    then have u: "unlock (rob_at i D) = unlock (rob_at i C)" using d(15) core_atD(2) [OF C(1)] by simp
    show "rb_list (rob_at i D) = rb_list (rob_at i C) \<and> rb_cluster (rob_at i D) = rb_cluster (rob_at i C)
      \<and> rb_forward_cycle (rob_at i D) = rb_forward_cycle (rob_at i C)"
      using arg_cong [OF u, of rb_list] arg_cong [OF u, of rb_cluster] arg_cong [OF u, of rb_forward_cycle] by (simp add: unlock_def)
  qed
qed

lemma scan_step:
  assumes C: "core_at k C" and j: "j < ROB_SIZE" "rb_list (rob_at j C) \<noteq> Some rob_free" and p: "rb_physreg (rob_at j C) = Some p"
    and g: "\<And>r. pr_state (g r) = pr_state r \<and> pr_rfid (g r) = pr_rfid r \<and> pr_idx (g r) = pr_idx r \<and> pr_refcount (g r) = pr_refcount r
      \<and> pr_threadid (g r) = pr_threadid r" "\<And>r. pr_rob (g r) = pr_rob r"
  shows "refs_inv (all_refs (oc_specrrt C) (oc_commitrrt C) (entries C)) (upd_preg p g (oc_files C))"
    "ages (all_refs (oc_specrrt C) (oc_commitrrt C) (entries C)) (oc_files C) (upd_preg p g (oc_files C))"
proof -
  have "in_file (oc_files C) p" using entry_okD [OF core_at_entry(3) [OF C j]] p by (metis option.inject)
  note u = upd_refs [OF ren_okD(1) [OF core_atD(4) [OF C]] this, of g, OF g(1)]
  show "refs_inv (all_refs (oc_specrrt C) (oc_commitrrt C) (entries C)) (upd_preg p g (oc_files C))" by (rule u(1))
  show "ages (all_refs (oc_specrrt C) (oc_commitrrt C) (entries C)) (oc_files C) (upd_preg p g (oc_files C))"
    by (rule ages_state [OF u(2)]) (use g in simp_all)
qed

lemma force_frame: "same_rob C (force_fp_exception j p C) \<and> oc_commitrrt (force_fp_exception j p C) = oc_commitrrt C \<and> oc_commitarf (force_fp_exception j p C) = oc_commitarf C
    \<and> oc_mem (force_fp_exception j p C) = oc_mem C \<and> oc_asp (force_fp_exception j p C) = oc_asp C
    \<and> oc_files (force_fp_exception j p C) = upd_preg p (\<lambda>r. r\<lparr>pr_data := EXCEPTION_FloatingPointNotAvailable, pr_flags := FLAG_INV\<rparr>) (oc_files C)"
  by (auto simp: force_fp_exception_def same_rob_def upd_lsq_def Let_def split: option.split)

lemma note_exception_frame: "same_rob C (note_exception j p C) \<and> oc_commitrrt (note_exception j p C) = oc_commitrrt C
    \<and> oc_commitarf (note_exception j p C) = oc_commitarf C \<and> oc_mem (note_exception j p C) = oc_mem C
    \<and> oc_asp (note_exception j p C) = oc_asp C \<and> oc_files (note_exception j p C) = oc_files C"
  by (simp add: note_exception_def same_rob_def Let_def)

lemma commit_scan_quiet:
  assumes "commit_scan js ready C = Some (b, b', b'', C')" "core_at k C" "flow_ok C"
    and "\<forall>j \<in> set js. j < ROB_SIZE \<and> rb_list (rob_at j C) \<noteq> Some rob_free"
  shows "core_at k C' \<and> flow_ok C' \<and> quiet C C' \<and> (\<forall>j. rob_at j C' = rob_at j C)"
  using assms
proof (induction js arbitrary: ready C)
  case (Cons j js)
  obtain p where p: "rb_physreg (rob_at j C) = Some p" using Cons.prems(1) by (auto split: option.splits)
  let ?uop = "rb_uop (rob_at j C)"
  define D where "D = (if op_is_sse ?uop \<and> oc_no_sse C \<or> op_is_x87 ?uop \<and> oc_no_x87 C then force_fp_exception j p C else C)"
  have j: "j < ROB_SIZE" "rb_list (rob_at j C) \<noteq> Some rob_free" using Cons.prems(4) by simp_all
  note f = force_frame [of C j p]
  have "core_at k (force_fp_exception j p C) \<and> quiet C (force_fp_exception j p C) \<and> (\<forall>i. rob_at i (force_fp_exception j p C) = rob_at i C)"
    using core_at_regs [OF Cons.prems(2), of "force_fp_exception j p C"] scan_step [OF Cons.prems(2) j p, of "\<lambda>r. r\<lparr>pr_data := EXCEPTION_FloatingPointNotAvailable, pr_flags := FLAG_INV\<rparr>"] f
    by simp
  then have D: "core_at k D" "quiet C D" "\<And>i. rob_at i D = rob_at i C" using Cons.prems(2) by (auto simp: D_def)
  have fD: "flow_ok D" by (rule flow_ok_cong [OF Cons.prems(3)]) (simp add: D(3))
  consider "C' = note_exception j p D" | "C' = D" | "commit_scan js (ready \<and> ready_to_commit j C) D = Some (b, b', b'', C')"
    using Cons.prems(1) p by (auto simp: Let_def D_def [symmetric] split: if_splits)
  then show ?case
  proof cases
    case 1
    note n = core_at_frame [OF D(1), of "note_exception j p D"]
    have "core_at k C'" "quiet D C'" "\<And>i. rob_at i C' = rob_at i D" using n note_exception_frame [of D j p] 1 by simp_all
    moreover have "flow_ok C'" by (rule flow_ok_cong [OF fD]) (simp add: calculation(3))
    ultimately show ?thesis using D quiet_trans by simp
  next
    case 2
    then show ?thesis using D fD by simp
  next
    case 3
    then show ?thesis using Cons.IH [OF 3 D(1) fD] Cons.prems(4) D quiet_trans by auto
  qed
qed auto

subsection \<open>The commit of the oldest entry\<close>

text \<open>The first \<open>n\<close> entries have left, and the committed table has moved over them.\<close>

definition retired :: "nat \<Rightarrow> Core \<Rightarrow> Core \<Rightarrow> bool" where
  "retired n C C' \<longleftrightarrow> core_at (length (entries C')) C' \<and> flow_ok C' \<and> n \<le> length (entries C)
     \<and> map rob_view (entries C') = map rob_view (drop n (entries C))
     \<and> oc_commitrrt C' = fold retire (take n (entries C)) (oc_commitrrt C) \<and> oc_specrrt C' = oc_specrrt C \<and> oc_fetchq C' = oc_fetchq C"

lemma quiet_length: "quiet C C' \<Longrightarrow> length (entries C') = length (entries C)"
  unfolding quiet_def by (metis length_map)

lemma retired_quiet:
  "core_at (length (entries C)) C' \<Longrightarrow> flow_ok C' \<Longrightarrow> quiet C C' \<Longrightarrow> retired 0 C C'"
  unfolding retired_def using quiet_length [of C C'] by (simp add: quiet_def)

lemma retired_trans:
  assumes a: "retired n C D" and b: "retired m D E"
  shows "retired (n + m) C E"
proof -
  note x = a [unfolded retired_def] and y = b [unfolded retired_def]
  have len: "length (entries D) = length (entries C) - n" using x by (metis length_drop length_map)
  have "fold retire (take m (entries D)) t = fold retire (take m (drop n (entries C))) t" for t
    using map_view(4) [of "entries D" "drop n (entries C)"] x by blast
  moreover have "take n (entries C) @ take m (drop n (entries C)) = take (n + m) (entries C)" by (simp add: take_add)
  then have "fold retire (take (n + m) (entries C)) t = fold retire (take m (drop n (entries C))) (fold retire (take n (entries C)) t)" for t
    by (metis comp_apply fold_append)
  ultimately have "oc_commitrrt E = fold retire (take (n + m) (entries C)) (oc_commitrrt C)" using x y by simp
  moreover have "map rob_view (entries E) = map rob_view (drop (n + m) (entries C))"
    using x y by (metis add.commute drop_drop drop_map)
  moreover have "n + m \<le> length (entries C)" using x y len by linarith
  ultimately show ?thesis unfolding retired_def using x y by simp
qed

lemma fencewakeup_quiet:
  assumes f: "fencewakeup i C = Some C'" and C: "core_at k C" "flow_ok C" and i: "i < ROB_SIZE"
  shows "core_at k C'" "flow_ok C'" "quiet C C'"
proof -
  obtain L where L: "lists_ok L C" using core_atD(5) [OF C(1)] by blast
  let ?g = "\<lambda>r. r\<lparr>pr_flags := pr_flags r AND NOT FLAG_WAIT, pr_data := 0\<rparr>"
  let ?h = "\<lambda>r. r\<lparr>rb_cycles_left := 0, rb_lfrqslot := -1, rb_forward_cycle := 0, rb_fu := 0, rb_load_store_second_phase := True\<rparr>"
  obtain l D E where s: "ready_to_commit i C" "upd_physreg i (\<lambda>p F. Some (upd_preg p ?g F)) C = Some D"
      "upd_physreg i preg_complete D = Some E"
      "rob_changestate i (rob_completed (cluster_of (rob_at i (upd_rob i ?h (upd_lsq l (\<lambda>e. e\<lparr>lsq_sfr := (lsq_sfr e)\<lparr>sfr_datavalid := True, sfr_addrvalid := True\<rparr>\<rparr>) E))))) None
        (upd_rob i ?h (upd_lsq l (\<lambda>e. e\<lparr>lsq_sfr := (lsq_sfr e)\<lparr>sfr_datavalid := True, sfr_addrvalid := True\<rparr>\<rparr>) E)) = Some C'"
    using f unfolding fencewakeup_def by (auto split: bind_splits)
  have ri: "rb_list (rob_at i C) = Some rob_ready_to_commit" using s(1) by (simp add: ready_to_commit_def)
  then have le: "rb_list (rob_at i C) \<noteq> Some rob_free" by simp
  obtain p where p: "rb_physreg (rob_at i C) = Some p" "D = C\<lparr>oc_files := upd_preg p ?g (oc_files C)\<rparr>"
    using s(2) by (auto simp: upd_physreg_def split: bind_splits)
  note st = scan_step [OF C(1) i le p(1), of ?g]
  have D: "core_at k D" "quiet C D" "lists_ok L D" using core_at_files [OF C(1) st L] p(2) by simp_all
  have fD: "rob_at j D = rob_at j C" for j by (simp add: p(2) rob_at_def)
  obtain F where F: "upd_physreg i preg_complete D = Some (D\<lparr>oc_files := F\<rparr>)" "core_at k (D\<lparr>oc_files := F\<rparr>)"
      "quiet D (D\<lparr>oc_files := F\<rparr>)" "lists_ok L (D\<lparr>oc_files := F\<rparr>)"
    unfolding preg_complete_def by (rule core_at_physreg [OF D(1) i _ states_distinct(2) D(3)]) (simp add: fD ri)
  define G where "G = upd_lsq l (\<lambda>e. e\<lparr>lsq_sfr := (lsq_sfr e)\<lparr>sfr_datavalid := True, sfr_addrvalid := True\<rparr>\<rparr>) E"
  have E: "E = D\<lparr>oc_files := F\<rparr>" using s(3) F(1) by simp
  have fr: "same_rob E G \<and> oc_commitrrt G = oc_commitrrt E \<and> oc_commitarf G = oc_commitarf E \<and> oc_mem G = oc_mem E \<and> oc_asp G = oc_asp E
      \<and> oc_files G = oc_files E" by (simp add: G_def upd_lsq_def same_rob_def)
  have G: "core_at k G" "quiet E G" "\<And>j. rob_at j G = rob_at j E" using core_at_frame [of k E G] F(2) fr E by simp_all
  have LG: "lists_ok L G" by (rule lists_ok_cong [THEN iffD2, OF _ _ _ F(4)]) (use fr E G(3) in \<open>simp_all add: same_rob_def\<close>)
  have gC: "rob_at j G = rob_at j C" for j using G(3) fD [of j] E by (simp add: rob_at_def)
  have m: "minor ?h" by (auto simp: rob_view_def)
  note H = core_at_minor [OF G(1) m LG i]
  have hat: "rob_at j (upd_rob i ?h G) = (if j = i then ?h (rob_at i C) else rob_at j C)" for j
    using rob_at_upd_core [OF G(1) i] gC by simp
  have fl: "flow_entry (rob_at i C)" using C(2) i by (simp add: flow_ok_def)
  let ?c = "cluster_of (rob_at i (upd_rob i ?h G))"
  have c: "rob_list_ok (rob_completed ?c)" using fl ri by (auto simp: hat cluster_of_def flow_entry_def)
  have lh: "rb_list (rob_at i (upd_rob i ?h G)) = Some rob_ready_to_commit" using hat ri by simp
  obtain L' Z where Z: "rob_changestate i (rob_completed ?c) None (upd_rob i ?h G) = Some Z" "core_at k Z" "lists_ok L' Z"
      "quiet (upd_rob i ?h G) Z"
      "\<And>j. rob_at j Z = (if j = i then (rob_at i (upd_rob i ?h G))\<lparr>rb_list := Some (rob_completed ?c)\<rparr> else rob_at j (upd_rob i ?h G))"
    by (rule core_at_change [OF H(1,3) i lh _ c]) (simp, simp, rule that)
  have "Z = C'" using s(4) Z(1) unfolding G_def [symmetric] by simp
  then show "core_at k C'" "quiet C C'"
    using Z(2) quiet_trans [OF D(2) quiet_trans [OF F(3) [folded E] quiet_trans [OF G(2) quiet_trans [OF H(2) Z(4)]]]] by simp_all
  show "flow_ok C'"
    using C(2) fl ri unfolding flow_ok_def \<open>Z = C'\<close> [symmetric] Z(5) hat
    by (simp add: flow_entry_def MAX_FORWARDING_LATENCY_def)
qed

lemma commit_branch_frame:
  "commit_branch uop C = Some C' \<Longrightarrow> same_rob C C' \<and> oc_files C' = oc_files C \<and> oc_commitrrt C' = oc_commitrrt C"
  by (auto simp: commit_branch_def same_rob_def split: if_splits bind_splits)

lemma commit_outcome_frame: "same_rob C (snd (commit_outcome uop C)) \<and> oc_files (snd (commit_outcome uop C)) = oc_files C
    \<and> oc_commitrrt (snd (commit_outcome uop C)) = oc_commitrrt C"
  by (simp add: commit_outcome_def same_rob_def)

lemma core_at_same:
  assumes "core_at k C" "same_rob C D" "oc_files D = oc_files C" "oc_commitrrt D = oc_commitrrt C" "flow_ok C"
  shows "core_at k D" "flow_ok D"
proof -
  show "core_at k D" by (rule core_at_same_rob [OF assms(1,2)]) (use assms(3,4) core_atD(4) [OF assms(1)] in simp)
  show "flow_ok D" by (rule flow_ok_cong [OF assms(5)]) (simp add: same_robD(7) [OF assms(2)])
qed

lemma store_is_locked_like: "store_is_locked i C = Some (b, D) \<Longrightarrow> lock_like C D"
  using lock_probe_like by (auto simp: store_is_locked_def Let_def split: if_splits bind_splits prod.splits option.splits)

lemma commit_ready_parts:
  assumes r: "commit_ready i C = Some (res, C')" and uop: "uop = rb_uop (rob_at i C)" and old: "old = oc_commitrrt C ! op_rd uop"
  obtains C1 locked C2 where "C1 = (if op_eom uop \<and> smc_dirty uop C
        then C\<lparr>oc_smc_invalidate_pending := True, oc_smc_invalidate_rvp := fb_rip uop\<rparr> else C)"
    "store_is_locked i C1 = Some (locked, C2)"
    "locked \<Longrightarrow> res = COMMIT_NONE \<and> C' = C2"
    "\<not> locked \<Longrightarrow> \<exists>b C3 p C4 C5 C6. release_mem_lock i C2 = Some (b, C3) \<and> rb_physreg (rob_at i C3) = Some p
        \<and> commit_state i uop old p C3 = Some C4 \<and> commit_branch uop C4 = Some C5
        \<and> commit_entry i (C5\<lparr>oc_total_user_insns_committed := oc_total_user_insns_committed C5 + of_bool (op_eom uop),
                  oc_total_uops_committed := oc_total_uops_committed C5 + 1\<rparr>) = Some C6
        \<and> (res, C') = commit_outcome uop C6"
proof -
  define C1 where "C1 = (if op_eom uop \<and> smc_dirty uop C
        then C\<lparr>oc_smc_invalidate_pending := True, oc_smc_invalidate_rvp := fb_rip uop\<rparr> else C)"
  obtain locked C2 where s: "store_is_locked i C1 = Some (locked, C2)"
    using r unfolding commit_ready_def by (auto simp: uop [symmetric] C1_def Let_def split: bind_splits)
  show ?thesis
    by (rule that [OF C1_def s])
      (use r s in \<open>auto simp: commit_ready_def uop [symmetric] old [symmetric] Let_def C1_def [symmetric] split: bind_splits if_splits\<close>)
qed

lemma commit_ready_retires:
  assumes r: "commit_ready i C = Some (res, C')" and C: "core_inv C" "flow_ok C"
    and es: "entries C = e # es" and i: "i = rb_idx e"
  shows "if res = COMMIT_NONE then retired 0 C C' else retired 1 C C'"
proof -
  have k: "core_at (Suc (length es)) C" using C(1) es by (simp add: core_inv_at)
  note at = entries_at [OF core_atD(1,2,3) [OF k]]
  have iS: "i < ROB_SIZE" "rob_at i C = e" using at(4) [of e] es i by simp_all
  let ?uop = "rb_uop e" and ?old = "oc_commitrrt C ! op_rd (rb_uop e)"
  obtain C1 locked C2 where C1: "C1 = (if op_eom ?uop \<and> smc_dirty ?uop C
        then C\<lparr>oc_smc_invalidate_pending := True, oc_smc_invalidate_rvp := fb_rip ?uop\<rparr> else C)"
    and s: "store_is_locked i C1 = Some (locked, C2)" and rest: "locked \<Longrightarrow> res = COMMIT_NONE \<and> C' = C2"
    "\<not> locked \<Longrightarrow> \<exists>b C3 p C4 C5 C6. release_mem_lock i C2 = Some (b, C3) \<and> rb_physreg (rob_at i C3) = Some p
        \<and> commit_state i ?uop ?old p C3 = Some C4 \<and> commit_branch ?uop C4 = Some C5
        \<and> commit_entry i (C5\<lparr>oc_total_user_insns_committed := oc_total_user_insns_committed C5 + of_bool (op_eom ?uop),
                  oc_total_uops_committed := oc_total_uops_committed C5 + 1\<rparr>) = Some C6
        \<and> (res, C') = commit_outcome ?uop C6"
    by (rule commit_ready_parts [OF r, of ?uop ?old]) (simp add: iS(2), simp, rule that, assumption+)
  have f1: "same_rob C C1" "oc_commitrrt C1 = oc_commitrrt C" "oc_commitarf C1 = oc_commitarf C" "oc_mem C1 = oc_mem C"
      "oc_asp C1 = oc_asp C" "oc_files C1 = oc_files C" by (simp_all add: C1 same_rob_def)
  note q1 = core_at_frame [OF k f1] and k1 = core_at_same [OF k f1(1,6,2) C(2)]
  note l2 = lock_quiet [OF k1 store_is_locked_like [OF s]]
  have q2: "quiet C C2" by (rule quiet_trans [OF q1(2) l2(2)])
  show ?thesis
  proof (cases locked)
    case True
    then show ?thesis using rest retired_quiet [of C C2] l2(1,3) q2 es by simp
  next
    case False
    then obtain b C3 p C4 C5 C6 where t: "release_mem_lock i C2 = Some (b, C3)" "rb_physreg (rob_at i C3) = Some p"
        "commit_state i ?uop ?old p C3 = Some C4" "commit_branch ?uop C4 = Some C5"
        "commit_entry i (C5\<lparr>oc_total_user_insns_committed := oc_total_user_insns_committed C5 + of_bool (op_eom ?uop),
                  oc_total_uops_committed := oc_total_uops_committed C5 + 1\<rparr>) = Some C6"
        "(res, C') = commit_outcome ?uop C6" using rest(2) by blast
    note l3 = lock_quiet [OF l2(1,3) release_mem_lock_like [OF t(1)]]
    have q3: "quiet C C3" by (rule quiet_trans [OF q2 l3(2)])
    note c3 = core_atD [OF l3(1)]
    have v3: "map rob_view (entries C3) = rob_view e # map rob_view es" using q3 es by (simp add: quiet_def)
    then obtain e3 es3 where e3: "entries C3 = e3 # es3" "rob_view e3 = rob_view e" "map rob_view es3 = map rob_view es" by auto
    have i3: "i = rb_idx e3" "rb_uop e3 = ?uop" using e3(2) i by (simp_all add: rob_view_def)
    have at3: "rob_at i C3 = e3" using entries_at(4) [OF c3(1,2,3), of e3] e3(1) i3(1) by simp
    have tab: "oc_commitrrt C3 = oc_commitrrt C" "oc_specrrt C3 = oc_specrrt C" "oc_fetchq C3 = oc_fetchq C" using q3 by (simp_all add: quiet_def)
    have ren3: "ren_ok (Suc (length es)) (oc_files C3) (oc_specrrt C3) (oc_commitrrt C3) (e3 # es3)" using c3(4) e3(1) by simp
    have p3: "rb_physreg e3 = Some p" using t(2) at3 by simp
    have uo: "uop_ok ?uop" using rob_okD(1) [OF ren_okD(3) [OF ren3], of e3] i3(2) unfolding entry_ok_def by simp
    obtain F where F: "commit_regs (rb_uop e3) p (rb_operands e3) (oc_commitrrt C3 ! op_rd (rb_uop e3)) (oc_files C3, oc_commitrrt C3) = Some (F, retire e3 (oc_commitrrt C3))"
        "ren_ok (length es) F (oc_specrrt C3) (retire e3 (oc_commitrrt C3)) es3"
      by (rule commit_regs_ok [OF ren3 p3 refl])
    note cs = commit_state_regs [OF t(3) uo]
    have c4: "oc_files C4 = F" "oc_commitrrt C4 = retire e3 (oc_commitrrt C)" using cs(1) F(1) at3 i3(2) tab(1) by simp_all
    define D where "D = C5\<lparr>oc_total_user_insns_committed := oc_total_user_insns_committed C5 + of_bool (op_eom ?uop),
                  oc_total_uops_committed := oc_total_uops_committed C5 + 1\<rparr>"
    note b5 = commit_branch_frame [OF t(4)]
    have sD: "same_rob C3 D" "oc_files D = F" "oc_commitrrt D = retire e3 (oc_commitrrt C)"
      using same_rob_trans [OF cs(2) conjunct1 [OF b5]] b5 c4 by (simp_all add: D_def same_rob_def)
    note d = same_robD [OF sD(1)]
    obtain L where "lists_ok L C3" using c3(5) by blast
    then have LD: "lists_ok L D" by (rule lists_ok_cong [THEN iffD2, rotated 3]) (simp_all add: d)
    have vD: "valid_ok D" using c3(6) unfolding valid_ok_def d .
    have renD: "ren_ok (length es) (oc_files D) (oc_specrrt D) (oc_commitrrt D) es3" using F(2) sD tab d by simp
    obtain C6' where C6: "commit_entry i D = Some C6'" "core_at (length es) C6'" "map rob_view (entries C6') = map rob_view es3"
        "oc_specrrt C6' = oc_specrrt D" "oc_commitrrt C6' = oc_commitrrt D" "oc_fetchq C6' = oc_fetchq D"
        "\<And>j. j \<noteq> i \<Longrightarrow> rob_at j C6' = rob_at j D" "rb_list (rob_at i C6') = Some rob_free"
      by (rule commit_entry_ok [OF _ _ _ LD vD _ _ _ i3(1) renD]) (use c3 d e3(1) in simp_all)
    have "C6' = C6" using C6(1) t(5) by (simp add: D_def)
    note C6 = C6 [unfolded this]
    have f6: "flow_ok C6"
      unfolding flow_ok_def
    proof (intro allI impI)
      fix j assume j: "j < ROB_SIZE"
      show "flow_entry (rob_at j C6)"
        using C6(7) [of j] C6(8) l3(3) j d(7) by (cases "j = i") (simp_all add: flow_ok_def, simp add: flow_entry_def)
    qed
    have o: "C' = snd (commit_outcome ?uop C6)" "res \<noteq> COMMIT_NONE"
      using t(6) [unfolded commit_outcome_def] t(6) by (auto split: if_splits simp: prod_eq_iff)
    note fo = commit_outcome_frame [of C6 ?uop, folded o(1)]
    note k6 = core_at_same [OF C6(2) _ _ _ f6, of C'] and s6 = same_robD [OF conjunct1 [OF fo]]
    have len: "length (entries C') = length es" using C6(3) e3(3) s6(6) by (metis length_map)
    have "retired 1 C C'"
      unfolding retired_def
      using k6 fo len es C6(3-6) e3 sD(3) d tab s6 q3 by (simp add: retire_def rob_view_def)
    then show ?thesis using o(2) by simp
  qed
qed

text \<open>The scan, the fence at the head and the tests retire nothing.\<close>

lemma rob_from_head:
  assumes "fq_inv (oc_ROB C)" "length (slots (oc_ROB C)) = ROB_SIZE" "\<And>i. i < ROB_SIZE \<Longrightarrow> rb_idx (rob_at i C) = i"
  shows "rob_from (nat (head (oc_ROB C))) C = Some (map rb_idx (entries C))"
proof -
  have "int (nat (head (oc_ROB C))) = head (oc_ROB C)" using fq_invD(2) [OF assms(1)] by simp
  moreover have "walk ROB_SIZE (fq_size (oc_ROB C)) 1 (tail (oc_ROB C)) (head (oc_ROB C)) =
      Some (map (\<lambda>k. int (fq_ix (oc_ROB C) k)) [0..<length (entries C)])"
    using foreach_contents [OF assms(1)] assms(2) by (simp add: foreach_forward_def entries_def)
  ultimately show ?thesis by (simp add: rob_from_def entries_at(2) [OF assms] o_def)
qed

lemma rob_commit_retires:
  assumes r: "rob_commit i C = Some (res, C')" and C: "core_inv C" "flow_ok C"
    and es: "entries C = e # es" and i: "i = rb_idx e"
  shows "if res \<in> {COMMIT_NONE, COMMIT_SMC, COMMIT_EXCEPTION} then \<exists>n \<le> 1. retired n C C' else retired 1 C C'"
proof -
  let ?k = "length (entries C)"
  have k: "core_at ?k C" using C(1) by (simp add: core_inv_at)
  have iS: "i < ROB_SIZE" "rob_at i C = e" using entries_at(4) [OF core_atD(1,2,3) [OF k], of e] es i by simp_all
  let ?uop = "rb_uop e"
  obtain C1 where C1: "(if op_opcode ?uop = OP_mf \<and> ready_to_commit i C \<and> \<not> rb_load_store_second_phase (rob_at i C)
              then do { C \<leftarrow> fencewakeup i C; flush_mem_lock_release_list 0 C } else Some C) = Some C1"
    using r unfolding rob_commit_def Let_def iS(2) by (auto split: bind_splits)
  have q1: "core_at ?k C1 \<and> flow_ok C1 \<and> quiet C C1"
  proof (cases "op_opcode ?uop = OP_mf \<and> ready_to_commit i C \<and> \<not> rb_load_store_second_phase (rob_at i C)")
    case True
    then obtain D where D: "fencewakeup i C = Some D" "flush_mem_lock_release_list 0 D = Some C1" using C1 by (auto split: bind_splits)
    note f = fencewakeup_quiet [OF D(1) k C(2) iS(1)] and l = lock_quiet [OF _ _ flush_list_like [OF D(2)]]
    show ?thesis using l [OF f(1,2)] quiet_trans [OF f(3)] by blast
  next
    case False
    then show ?thesis using C1 k C(2) by auto
  qed
  then have c1: "core_at ?k C1" "flow_ok C1" "quiet C C1" by blast+
  note d1 = core_atD [OF c1(1)]
  have v1: "map rob_view (entries C1) = rob_view e # map rob_view es" using c1(3) es by (simp add: quiet_def)
  then obtain e1 es1 where e1: "entries C1 = e1 # es1" "rob_view e1 = rob_view e" by auto
  have i1: "i = rb_idx e1" "rb_uop e1 = ?uop" using e1(2) i by (simp_all add: rob_view_def)
  have "i = nat (head (oc_ROB C1))"
  proof -
    have "map rb_idx (entries C1) = map (fq_ix (oc_ROB C1)) [0..<length (entries C1)]" by (rule entries_at(2) [OF d1(1,2,3)])
    then have "rb_idx e1 = fq_ix (oc_ROB C1) 0" using e1(1) by (simp add: upt_conv_Cons del: upt_Suc)
    then show ?thesis using fq_invD(2,3) [OF d1(1)] i1 by (simp add: fq_ix_def)
  qed
  then have js: "rob_from i C1 = Some (map rb_idx (entries C1))" using rob_from_head [OF d1(1,2,3)] by simp
  obtain ready eom exc C2 where sc: "commit_scan (map rb_idx (entries C1)) True C1 = Some (ready, eom, exc, C2)"
    using r C1 js unfolding rob_commit_def Let_def iS(2) by (auto split: bind_splits)
  have live: "\<forall>j \<in> set (map rb_idx (entries C1)). j < ROB_SIZE \<and> rb_list (rob_at j C1) \<noteq> Some rob_free"
  proof
    fix j assume "j \<in> set (map rb_idx (entries C1))"
    then obtain x where x: "x \<in> set (entries C1)" "j = rb_idx x" by auto
    then have j: "j < ROB_SIZE" using entries_at(4) [OF d1(1,2,3) x(1)] by simp
    then show "j < ROB_SIZE \<and> rb_list (rob_at j C1) \<noteq> Some rob_free" using valid_okD [OF d1(6) j] x by blast
  qed
  have c2: "core_at ?k C2" "flow_ok C2" "quiet C1 C2" using commit_scan_quiet [OF sc c1(1,2) live] by blast+
  have q2: "quiet C C2" by (rule quiet_trans [OF c1(3) c2(3)])
  have r2: "retired 0 C C2" by (rule retired_quiet [OF c2(1,2) q2])
  have v2: "map rob_view (entries C2) = rob_view e # map rob_view es" using q2 es by (simp add: quiet_def)
  then obtain e2 es2 where e2: "entries C2 = e2 # es2" "rob_view e2 = rob_view e" by auto
  have i2: "i = rb_idx e2" using e2(2) i by (simp add: rob_view_def)
  have inv2: "core_inv C2" using c2(1) quiet_length [OF q2] by (simp add: core_inv_at)
  have other: "retired 0 C D" if "same_rob C2 D" "oc_files D = oc_files C2" "oc_commitrrt D = oc_commitrrt C2" for D
  proof -
    have "retired 0 C2 D"
      unfolding retired_def using core_at_same [OF c2(1) that c2(2)] same_robD [OF that(1)] that(3) quiet_length [OF q2] by simp
    then show ?thesis using retired_trans [OF r2] by fastforce
  qed
  have "(res = COMMIT_NONE \<and> C' = C2) \<or> (res = COMMIT_SMC \<and> C' = C2\<lparr>oc_smc_invalidate_pending := True, oc_smc_invalidate_rvp := fb_rip ?uop\<rparr>)
      \<or> (res = COMMIT_EXCEPTION \<and> (C' = C2 \<or> C' = C2\<lparr>oc_chk_recovery_rip := oc_commitarf C2 ! REG_rip + op_bytes ?uop\<rparr>))
      \<or> commit_ready i C2 = Some (res, C')"
    using r C1 js sc unfolding rob_commit_def Let_def iS(2) by (auto split: if_splits)
  then consider "retired 0 C C'" "res \<in> {COMMIT_NONE, COMMIT_SMC, COMMIT_EXCEPTION}" | "commit_ready i C2 = Some (res, C')"
    using r2 other by (auto simp: same_rob_def)
  then show ?thesis
  proof cases
    case 1
    then show ?thesis by auto
  next
    case 2
    have "if res = COMMIT_NONE then retired 0 C2 C' else retired 1 C2 C'" by (rule commit_ready_retires [OF 2 inv2 c2(2) e2(1) i2])
    then have "retired (if res = COMMIT_NONE then 0 else 1) C C'" using retired_trans [OF r2] by (auto split: if_splits)
    then show ?thesis by (cases "res \<in> {COMMIT_NONE, COMMIT_SMC, COMMIT_EXCEPTION}") (auto split: if_splits intro: exI [of _ 0] exI [of _ 1])
  qed
qed

subsection \<open>Registers nothing refers to are recycled\<close>

lemma remove1_mid: "distinct (xs @ y # ys) \<Longrightarrow> remove1 y (xs @ y # ys) = xs @ ys"
  by (simp add: remove1_append)

definition recycled :: "nat \<Rightarrow> preg multiset \<Rightarrow> RegFiles \<Rightarrow> bool" where
  "recycled f R F \<longleftrightarrow> (\<forall>i. in_file F (f, i) \<and> pr_state (preg_of F (f, i)) = PHYSREG_PENDINGFREE \<longrightarrow> (f, i) \<in># R)"

lemma recycle_regs:
  assumes R: "refs_inv R F" and f: "f < PHYS_REG_FILE_COUNT"
    and none: "\<And>p. in_file F p \<Longrightarrow> pr_state (preg_of F p) = PHYSREG_PENDINGFREE \<Longrightarrow> pr_rob (preg_of F p) = None"
  obtains F' where "foreach_preg f PHYSREG_PENDINGFREE (\<lambda>p F. if \<not> referenced p F then preg_free p F else Some F) F = Some F'"
    "refs_inv R F'" "ages R F F'" "recycled f R F'" "\<And>p. pr_data (preg_of F' p) = pr_data (preg_of F p) \<and> pr_flags (preg_of F' p) = pr_flags (preg_of F p)"
proof -
  let ?s = PHYSREG_PENDINGFREE and ?body = "\<lambda>p F. if \<not> referenced p F then preg_free p F else Some F"
  define Inv where "Inv = (\<lambda>pre (post :: nat list) (L :: state_contents) F'. refs_inv R F' \<and> ages R F F' \<and> (\<forall>j \<in> set pre. (f, j) \<in># R)
      \<and> (\<forall>p. pr_data (preg_of F' p) = pr_data (preg_of F p) \<and> pr_flags (preg_of F' p) = pr_flags (preg_of F p)))"
  obtain L where L: "regs_ok L F" using refs_invD(1) [OF R] by blast
  have s: "?s < MAX_PHYSREG_STATE" by (simp add: PHYSREG_PENDINGFREE_def MAX_PHYSREG_STATE_def)
  have step: "\<exists>G' L' pre'. ?body (f, j) G = Some G' \<and> Inv pre' post L' G' \<and> regs_ok L' G' \<and> L' f ?s = pre' @ post"
    if i: "Inv pre (j # post) K G" and K: "regs_ok K G" and l: "K f ?s = pre @ j # post" for pre j post K G
  proof -
    note v = i [unfolded Inv_def]
    have p: "in_file G (f, j)" "pr_state (preg_of G (f, j)) = ?s" using regs_okD(4) [OF K f s, of j] l by simp_all
    have ref: "referenced (f, j) G \<longleftrightarrow> (f, j) \<in># R"
      using refs_invD(5) [of R G "(f, j)"] v p(1) by (auto simp: referenced_def not_in_iff intro: ccontr)
    show ?thesis
    proof (cases "(f, j) \<in># R")
      case True
      have "Inv (pre @ [j]) post K G" using v True by (simp add: Inv_def)
      then show ?thesis
        by (intro exI [of _ G] exI [of _ K] exI [of _ "pre @ [j]"]) (use True ref K l in simp)
    next
      case False
      obtain G' where G': "preg_free (f, j) G = Some G'" "regs_ok (move f j ?s PHYSREG_FREE K) G'"
        using free_ok [OF K p(1) p(2) [symmetric]] by metis
      obtain G2 where G2: "preg_free (f, j) G = Some G2" "refs_inv R G2" "only_preg (f, j) freed_reg G G2"
        by (rule free_refs [OF conjunct1 [OF v] p(1) False])
      have eq: "G2 = G'" using G'(1) G2(1) by simp
      note o = only_pregD [OF G2(3) [unfolded eq]]
      have a: "ages R F G" using v by blast
      have "pr_rob (preg_of F (f, j)) = None"
        using none [of "(f, j)"] agesD(1,3) [OF a, of "(f, j)"] p by (metis states_distinct(6) states_distinct(8) in_flightD)
      then have rob: "pr_rob (preg_of G (f, j)) = None" using agesD(2) [OF a] by simp
      have "ages R G G'"
        unfolding ages_def
      proof
        fix q
        show "in_file G' q = in_file G q \<and> pr_rob (preg_of G' q) = pr_rob (preg_of G q)
          \<and> (pr_state (preg_of G' q) = pr_state (preg_of G q)
          \<or> in_flight (pr_state (preg_of G q)) \<and> in_flight (pr_state (preg_of G' q))
          \<or> q \<notin># R \<and> pr_state (preg_of G q) = PHYSREG_PENDINGFREE \<and> pr_state (preg_of G' q) = PHYSREG_FREE)"
          using o(1,3) o(2) [of q] rob p(2) False by (cases "q = (f, j)") (auto simp: freed_reg_def)
      qed
      then have ages: "ages R F G'" using ages_trans [OF a] by blast
      have "distinct (pre @ j # post)"
      proof -
        have "ListOf f ?s \<in> state_roots" using f s by (auto simp: state_roots_def)
        from state_listsD(3) [OF regs_okD(2) [OF K] this] have "distinct (map (Reg f) (K f ?s))" by (simp add: node_contents_def)
        then have "distinct (K f ?s)" by (simp only: distinct_map)
        then show ?thesis using l by simp
      qed
      then have "move f j ?s PHYSREG_FREE K f ?s = pre @ post"
        using l by (simp add: move_def Let_def remove1_mid del: distinct_append)
      moreover have "pr_data (preg_of G' q) = pr_data (preg_of G q) \<and> pr_flags (preg_of G' q) = pr_flags (preg_of G q)" for q
        using o(1) o(2) [of q] by (cases "q = (f, j)") (auto simp: freed_reg_def)
      then have "Inv pre post (move f j ?s PHYSREG_FREE K) G'" using v ages G2(2) eq by (simp add: Inv_def)
      ultimately show ?thesis
        by (intro exI [of _ G'] exI [of _ "move f j ?s PHYSREG_FREE K"] exI [of _ pre]) (use G' False ref in simp)
    qed
  qed
  have start: "Inv [] (L f ?s) L F" using R by (simp add: Inv_def)
  have size: "pf_size (rf_files F ! f) \<le> MAX_PHYS_REG_FILE_SIZE"
  proof -
    have "\<forall>f \<in> set [0..<PHYS_REG_FILE_COUNT]. physreg_sizes f \<le> MAX_PHYS_REG_FILE_SIZE" by code_simp
    then show ?thesis using refs_invD(7) [OF R f] f by simp
  qed
  have "\<exists>F' L'. foreach_preg f ?s ?body F = Some F' \<and> regs_ok L' F' \<and> Inv (L' f ?s) [] L' F'"
    by (rule foreach_preg_walk [where Inv = Inv and body = ?body and L = L]) (rule step f s L start size | assumption)+
  then obtain F' L' where F': "foreach_preg f ?s ?body F = Some F'" "regs_ok L' F'" "Inv (L' f ?s) [] L' F'" by blast
  have "recycled f R F'" unfolding recycled_def
    using F'(3) regs_okD(4) [OF F'(2) f s] by (auto simp: Inv_def)
  then show ?thesis using that [OF F'(1)] F'(3) unfolding Inv_def by blast
qed

lemma recycled_ages:
  assumes "recycled f R F" "ages R F F'"
  shows "recycled f R F'"
  unfolding recycled_def
proof (intro allI impI)
  fix i assume i: "in_file F' (f, i) \<and> pr_state (preg_of F' (f, i)) = PHYSREG_PENDINGFREE"
  then have "pr_state (preg_of F (f, i)) = PHYSREG_PENDINGFREE" "in_file F (f, i)"
    using agesD(1,3) [OF assms(2), of "(f, i)"] in_flightD by auto
  then show "(f, i) \<in># R" using assms(1) by (simp add: recycled_def)
qed

lemma recycle_file_ok:
  assumes C: "core_at k C" "flow_ok C" and f: "f < PHYS_REG_FILE_COUNT"
  obtains C' where "recycle_file f C = Some C'" "core_at k C'" "flow_ok C'" "quiet C C'"
    "ages (all_refs (oc_specrrt C) (oc_commitrrt C) (entries C)) (oc_files C) (oc_files C')"
    "recycled f (all_refs (oc_specrrt C) (oc_commitrrt C) (entries C)) (oc_files C')" "\<exists>F. C' = C\<lparr>oc_files := F\<rparr>"
    "\<And>p. pr_data (preg_of (oc_files C') p) = pr_data (preg_of (oc_files C) p) \<and> pr_flags (preg_of (oc_files C') p) = pr_flags (preg_of (oc_files C) p)"
proof -
  let ?R = "all_refs (oc_specrrt C) (oc_commitrrt C) (entries C)"
  note r = ren_okD [OF core_atD(4) [OF C(1)]]
  have none: "pr_rob (preg_of (oc_files C) p) = None" if "in_file (oc_files C) p" "pr_state (preg_of (oc_files C) p) = PHYSREG_PENDINGFREE" for p
    using committed_okD(9) [OF r(2) that(1)] that(2) by simp
  obtain F where F: "foreach_preg f PHYSREG_PENDINGFREE (\<lambda>p F. if \<not> referenced p F then preg_free p F else Some F) (oc_files C) = Some F"
    "refs_inv ?R F" "ages ?R (oc_files C) F" "recycled f ?R F" "\<And>p. pr_data (preg_of F p) = pr_data (preg_of (oc_files C) p) \<and> pr_flags (preg_of F p) = pr_flags (preg_of (oc_files C) p)"
    by (rule recycle_regs [OF r(1) f none], assumption+, rule that, assumption+)
  obtain L where L: "lists_ok L C" using core_atD(5) [OF C(1)] by blast
  note c = core_at_files [OF C(1) F(2,3) L]
  have "flow_ok (C\<lparr>oc_files := F\<rparr>)" by (rule flow_ok_cong [OF C(2)]) (simp add: rob_at_def)
  moreover have "\<exists>F'. C\<lparr>oc_files := F\<rparr> = C\<lparr>oc_files := F'\<rparr>" by blast
  ultimately show ?thesis using that [of "C\<lparr>oc_files := F\<rparr>"] c F by (simp add: recycle_file_def)
qed

lemma recycle_pregs_ok:
  assumes C: "core_at k C" "flow_ok C"
  obtains F where "recycle_pregs C = Some (C\<lparr>oc_files := F\<rparr>)" "core_at k (C\<lparr>oc_files := F\<rparr>)" "flow_ok (C\<lparr>oc_files := F\<rparr>)"
    "quiet C (C\<lparr>oc_files := F\<rparr>)"
    "\<And>f. f < PHYS_REG_FILE_COUNT \<Longrightarrow> recycled f (all_refs (oc_specrrt C) (oc_commitrrt C) (entries C)) F"
    "\<And>p. pr_data (preg_of F p) = pr_data (preg_of (oc_files C) p) \<and> pr_flags (preg_of F p) = pr_flags (preg_of (oc_files C) p)"
proof -
  define P where "P = (\<lambda>n D. \<exists>F. D = C\<lparr>oc_files := F\<rparr> \<and> core_at k D \<and> flow_ok D \<and> quiet C D
    \<and> (\<forall>f < n. recycled f (all_refs (oc_specrrt C) (oc_commitrrt C) (entries C)) F)
    \<and> (\<forall>p. pr_data (preg_of F p) = pr_data (preg_of (oc_files C) p) \<and> pr_flags (preg_of F p) = pr_flags (preg_of (oc_files C) p)))"
  have step: "\<exists>E. recycle_file n D = Some E \<and> P (Suc n) E" if n: "n < PHYS_REG_FILE_COUNT" and D: "P n D" for n D
  proof -
    let ?R = "all_refs (oc_specrrt C) (oc_commitrrt C) (entries C)"
    obtain F where F: "D = C\<lparr>oc_files := F\<rparr>" "core_at k D" "flow_ok D" "quiet C D" "\<forall>f < n. recycled f ?R F"
        "\<forall>p. pr_data (preg_of F p) = pr_data (preg_of (oc_files C) p) \<and> pr_flags (preg_of F p) = pr_flags (preg_of (oc_files C) p)"
      using D unfolding P_def by blast
    have R: "all_refs (oc_specrrt D) (oc_commitrrt D) (entries D) = ?R" by (simp add: F(1) entries_def)
    obtain E where E: "recycle_file n D = Some E" "core_at k E" "flow_ok E" "quiet D E" "ages ?R (oc_files D) (oc_files E)"
      "recycled n ?R (oc_files E)" "\<exists>F. E = D\<lparr>oc_files := F\<rparr>"
      "\<And>p. pr_data (preg_of (oc_files E) p) = pr_data (preg_of (oc_files D) p) \<and> pr_flags (preg_of (oc_files E) p) = pr_flags (preg_of (oc_files D) p)"
      by (rule recycle_file_ok [OF F(2,3) n, unfolded R], rule that, assumption+)
    have "recycled f ?R (oc_files E)" if f: "f < Suc n" for f
    proof (cases "f = n")
      case False
      then show ?thesis using F(5) f recycled_ages [OF _ E(5)] by (simp add: F(1))
    qed (use E(6) in simp)
    moreover have "E = C\<lparr>oc_files := oc_files E\<rparr>" using E(7) by (auto simp: F(1))
    ultimately have "P (Suc n) E" unfolding P_def
      by (intro exI [of _ "oc_files E"]) (use E(2,3,8) quiet_trans [OF F(4) E(4)] F(1,6) in simp)
    then show ?thesis using E(1) by blast
  qed
  have "C = C\<lparr>oc_files := oc_files C\<rparr>" by simp
  then have p0: "P 0 C" unfolding P_def using C by (intro exI [of _ "oc_files C"]) simp
  have n: "0 < PHYS_REG_FILE_COUNT" "Suc 0 < PHYS_REG_FILE_COUNT" "Suc (Suc 0) < PHYS_REG_FILE_COUNT"
      "Suc (Suc (Suc 0)) < PHYS_REG_FILE_COUNT" "PHYS_REG_FILE_COUNT = Suc (Suc (Suc (Suc 0)))"
    by (simp_all add: PHYS_REG_FILE_COUNT_def)
  obtain E1 where E1: "recycle_file 0 C = Some E1" "P (Suc 0) E1" using step [OF n(1) p0] by blast
  obtain E2 where E2: "recycle_file (Suc 0) E1 = Some E2" "P (Suc (Suc 0)) E2" using step [OF n(2) E1(2)] by blast
  obtain E3 where E3: "recycle_file (Suc (Suc 0)) E2 = Some E3" "P (Suc (Suc (Suc 0))) E3" using step [OF n(3) E2(2)] by blast
  obtain E where E4: "recycle_file (Suc (Suc (Suc 0))) E3 = Some E" "P (Suc (Suc (Suc (Suc 0)))) E" using step [OF n(4) E3(2)] by blast
  have "recycle_pregs C = Some E"
    using E1(1) E2(1) E3(1) E4(1) by (simp add: recycle_pregs_def numeral_2_eq_2 numeral_3_eq_3)
  moreover have "P PHYS_REG_FILE_COUNT E" using E4(2) n(5) by simp
  ultimately show ?thesis using that unfolding P_def by blast
qed

subsection \<open>The loop over the oldest entries\<close>

text \<open>Only the loop itself counts the commits.\<close>

lemma lock_like_count: "lock_like C D \<Longrightarrow> oc_commitcount D = oc_commitcount C"
  unfolding lock_like_def by auto

lemma upd_count [simp]: "oc_commitcount (upd_rob i f C) = oc_commitcount C" "oc_commitcount (upd_lsq l g C) = oc_commitcount C"
  "oc_commitcount (put_arf r v C) = oc_commitcount C"
  by (simp_all add: upd_rob_def upd_lsq_def put_arf_def)

lemma fence_count: "fencewakeup i C = Some C' \<Longrightarrow> oc_commitcount C' = oc_commitcount C"
  by (auto simp: fencewakeup_def upd_physreg_def rob_changestate_def split: bind_splits)

lemma scan_count: "commit_scan js ready C = Some (a, b, c, C') \<Longrightarrow> oc_commitcount C' = oc_commitcount C"
proof (induction js arbitrary: ready C)
  case (Cons j js)
  have "oc_commitcount (force_fp_exception j p D) = oc_commitcount D" "oc_commitcount (note_exception j p D) = oc_commitcount D" for p D
    by (simp_all add: force_fp_exception_def note_exception_def Let_def split: option.split)
  then show ?case using Cons by (auto simp: Let_def split: option.splits if_splits)
qed auto

lemma commit_swaps_count: "commit_swaps rs p C = Some C' \<Longrightarrow> oc_commitcount C' = oc_commitcount C"
  by (auto simp: commit_swaps_def)

lemma unref_count: "unref_operands ps C = Some C' \<Longrightarrow> oc_commitcount C' = oc_commitcount C"
  by (auto simp: unref_operands_eq)

lemma commit_parts_count:
  "commit_dest uop p C = Some C' \<Longrightarrow> oc_commitcount C' = oc_commitcount C"
  "commit_rip uop p C = Some C' \<Longrightarrow> oc_commitcount C' = oc_commitcount C"
  "commit_flags uop p C = Some C' \<Longrightarrow> oc_commitcount C' = oc_commitcount C"
  "commit_memory i uop C = Some C' \<Longrightarrow> oc_commitcount C' = oc_commitcount C"
  "commit_lsq i uop C = Some C' \<Longrightarrow> oc_commitcount C' = oc_commitcount C"
  "commit_free_old old C = Some C' \<Longrightarrow> oc_commitcount C' = oc_commitcount C"
  "commit_branch uop C = Some C' \<Longrightarrow> oc_commitcount C' = oc_commitcount C"
  "commit_entry i C = Some C' \<Longrightarrow> oc_commitcount C' = oc_commitcount C"
proof -
  show "commit_dest uop p C = Some C' \<Longrightarrow> oc_commitcount C' = oc_commitcount C"
    by (auto simp: commit_dest_def commit_rename_def Let_def split: if_splits bind_splits)
  show "commit_rip uop p C = Some C' \<Longrightarrow> oc_commitcount C' = oc_commitcount C"
    by (auto simp: commit_rip_def split: if_splits bind_splits)
  show "commit_flags uop p C = Some C' \<Longrightarrow> oc_commitcount C' = oc_commitcount C"
    using commit_swaps_count
    by (auto simp: commit_flags_def commit_rename_if_eq Let_def split: if_splits bind_splits dest!: commit_swaps_count)
  show "commit_memory i uop C = Some C' \<Longrightarrow> oc_commitcount C' = oc_commitcount C"
    by (auto simp: commit_memory_def Let_def split: if_splits bind_splits)
  show "commit_lsq i uop C = Some C' \<Longrightarrow> oc_commitcount C' = oc_commitcount C"
    by (auto simp: commit_lsq_def set_unaligned_hint_def Let_def split: if_splits bind_splits)
  show "commit_free_old old C = Some C' \<Longrightarrow> oc_commitcount C' = oc_commitcount C"
    by (auto simp: commit_free_old_eq split: if_splits)
  show "commit_branch uop C = Some C' \<Longrightarrow> oc_commitcount C' = oc_commitcount C"
    by (auto simp: commit_branch_def split: if_splits bind_splits)
  show "commit_entry i C = Some C' \<Longrightarrow> oc_commitcount C' = oc_commitcount C"
    by (auto simp: commit_entry_def rob_changestate_def split: bind_splits)
qed

lemma commit_state_count: "commit_state i uop old p C = Some C' \<Longrightarrow> oc_commitcount C' = oc_commitcount C"
  unfolding commit_state_def by (auto dest!: commit_parts_count(1-6) unref_count split: bind_splits)

lemma commit_ready_count:
  assumes r: "commit_ready i C = Some (res, C')"
  shows "oc_commitcount C' = oc_commitcount C"
proof (rule commit_ready_parts [OF r refl refl])
  let ?uop = "rb_uop (rob_at i C)"
  fix C1 locked C2
  assume C1: "C1 = (if op_eom ?uop \<and> smc_dirty ?uop C
        then C\<lparr>oc_smc_invalidate_pending := True, oc_smc_invalidate_rvp := fb_rip ?uop\<rparr> else C)"
    and s: "store_is_locked i C1 = Some (locked, C2)" and lk: "locked \<Longrightarrow> res = COMMIT_NONE \<and> C' = C2"
    and rest: "\<not> locked \<Longrightarrow> \<exists>b C3 p C4 C5 C6. release_mem_lock i C2 = Some (b, C3) \<and> rb_physreg (rob_at i C3) = Some p
        \<and> commit_state i ?uop (oc_commitrrt C ! op_rd ?uop) p C3 = Some C4 \<and> commit_branch ?uop C4 = Some C5
        \<and> commit_entry i (C5\<lparr>oc_total_user_insns_committed := oc_total_user_insns_committed C5 + of_bool (op_eom ?uop),
                  oc_total_uops_committed := oc_total_uops_committed C5 + 1\<rparr>) = Some C6
        \<and> (res, C') = commit_outcome ?uop C6"
  have c2: "oc_commitcount C2 = oc_commitcount C" using lock_like_count [OF store_is_locked_like [OF s]] C1 by simp
  show ?thesis
  proof (cases locked)
    case True
    then show ?thesis using lk c2 by simp
  next
    case False
    then obtain b C3 p C4 C5 C6 where t: "release_mem_lock i C2 = Some (b, C3)"
        "commit_state i ?uop (oc_commitrrt C ! op_rd ?uop) p C3 = Some C4" "commit_branch ?uop C4 = Some C5"
        "commit_entry i (C5\<lparr>oc_total_user_insns_committed := oc_total_user_insns_committed C5 + of_bool (op_eom ?uop),
                  oc_total_uops_committed := oc_total_uops_committed C5 + 1\<rparr>) = Some C6"
        "(res, C') = commit_outcome ?uop C6" using rest by blast
    have "oc_commitcount C' = oc_commitcount C6" using t(5) by (simp add: commit_outcome_def split: if_splits)
    then show ?thesis
      using commit_parts_count(7) [OF t(3)] commit_parts_count(8) [OF t(4)] commit_state_count [OF t(2)]
        lock_like_count [OF release_mem_lock_like [OF t(1)]] c2 by simp
  qed
qed

lemma rob_commit_count: "rob_commit i C = Some (res, C') \<Longrightarrow> oc_commitcount C' = oc_commitcount C"
  by (auto simp: rob_commit_def Let_def split: if_splits bind_splits
      dest!: commit_ready_count scan_count fence_count lock_like_count [OF flush_list_like])

lemma retired_idx: "retired n C C' \<Longrightarrow> map rb_idx (entries C') = drop n (map rb_idx (entries C))"
  unfolding retired_def view_idx(1) by (simp add: drop_map)

lemma commit_entries_retires:
  assumes "commit_entries (map rb_idx (entries C)) res0 C = Some (res, C')" "core_inv C" "flow_ok C" "oc_commitcount C \<le> COMMIT_WIDTH"
  shows "\<exists>n. retired n C C' \<and> oc_commitcount C' \<le> COMMIT_WIDTH \<and> int n + oc_commitcount C \<le> COMMIT_WIDTH"
  using assms
proof (induction "map rb_idx (entries C)" arbitrary: C res0)
  case Nil
  then have "retired 0 C C'" using retired_quiet [of C C] by (simp add: core_inv_at)
  then show ?case using Nil by auto
next
  case (Cons i "is")
  have k: "core_at (length (entries C)) C" using Cons.prems(2) by (simp add: core_inv_at)
  show ?case
  proof (cases "oc_commitcount C \<ge> COMMIT_WIDTH")
    case True
    then have "C' = C" using Cons.prems(1) unfolding Cons.hyps(2) [symmetric] by simp
    then show ?thesis using retired_quiet [OF k Cons.prems(3)] Cons.prems(4) by auto
  next
    case False
    obtain e es where es: "entries C = e # es" "i = rb_idx e" "is = map rb_idx es" using Cons.hyps(2) by (cases "entries C") auto
    obtain r D where D: "rob_commit i C = Some (r, D)"
        "(if r = COMMIT_OK then commit_entries is r (D\<lparr>oc_commitcount := oc_commitcount D + 1\<rparr>) else Some (r, D)) = Some (res, C')"
      using Cons.prems(1) False unfolding Cons.hyps(2) [symmetric] by (auto split: bind_splits)
    note rr = rob_commit_retires [OF D(1) Cons.prems(2,3) es(1,2)] and cc = rob_commit_count [OF D(1)]
    show ?thesis
    proof (cases "r = COMMIT_OK")
      case False
      then have "C' = D" using D(2) by simp
      moreover have "\<exists>n \<le> 1. retired n C D" using rr by (auto split: if_splits)
      ultimately show ?thesis using cc \<open>\<not> oc_commitcount C \<ge> COMMIT_WIDTH\<close> by fastforce
    next
      case True
      let ?D = "D\<lparr>oc_commitcount := oc_commitcount D + 1\<rparr>"
      have D1: "retired 1 C D" using rr True by simp
      note x = D1 [unfolded retired_def]
      have s: "same_rob D ?D" by (simp add: same_rob_def)
      have c: "core_at (length (entries D)) ?D" "flow_ok ?D" using core_at_same [OF _ s, of "length (entries D)"] x by simp_all
      have ent: "entries ?D = entries D" by (simp add: entries_def)
      have R1: "retired 1 C ?D" using x c ent by (simp add: retired_def)
      have "is = map rb_idx (entries ?D)" using retired_idx [OF R1] es by simp
      then obtain n where n: "retired n ?D C'" "oc_commitcount C' \<le> COMMIT_WIDTH" "int n + oc_commitcount ?D \<le> COMMIT_WIDTH"
        using Cons.hyps(1) [of ?D r] D(2) True c ent cc False Cons.prems(4) by (auto simp: core_inv_at)
      have "retired (1 + n) C C'" by (rule retired_trans [OF R1 n(1)])
      then show ?thesis using n(2,3) cc by (intro exI [of _ "1 + n"]) simp
    qed
  qed
qed

lemma commit_stage_retires:
  assumes r: "commit_stage C = Some (res, C')" and C: "core_inv C" "flow_ok C" "oc_commitcount C \<le> COMMIT_WIDTH"
  shows "\<exists>n. retired n C C' \<and> oc_commitcount C' \<le> COMMIT_WIDTH \<and> int n + oc_commitcount C \<le> COMMIT_WIDTH"
proof -
  let ?k = "length (entries C)"
  have k: "core_at ?k C" using C(1) by (simp add: core_inv_at)
  obtain F where F: "recycle_pregs C = Some (C\<lparr>oc_files := F\<rparr>)" "core_at ?k (C\<lparr>oc_files := F\<rparr>)" "flow_ok (C\<lparr>oc_files := F\<rparr>)"
      "quiet C (C\<lparr>oc_files := F\<rparr>)" by (rule recycle_pregs_ok [OF k C(2)])
  define D where "D = C\<lparr>oc_files := F\<rparr>"
  have D: "recycle_pregs C = Some D" "core_at ?k D" "flow_ok D" "quiet C D" "entries D = entries C" "oc_commitcount D = oc_commitcount C"
    using F by (simp_all add: D_def entries_def)
  have js: "rob_from (nat (head (oc_ROB D))) D = Some (map rb_idx (entries D))" using rob_from_head core_atD(1,2,3) [OF D(2)] by blast
  have e: "commit_entries (map rb_idx (entries D)) COMMIT_OK D = Some (res, C')"
    using r D(1) js by (auto simp: commit_stage_def split: bind_splits)
  have "core_inv D" using D(2,5) by (simp add: core_inv_at)
  then obtain n where n: "retired n D C'" "oc_commitcount C' \<le> COMMIT_WIDTH" "int n + oc_commitcount D \<le> COMMIT_WIDTH"
    using commit_entries_retires [OF e _ D(3)] C(3) D(6) by auto
  have "retired n C C'" using retired_trans [OF retired_quiet [OF D(2,3,4)] n(1)] by simp
  then show ?thesis using n D(6) by auto
qed

end
