(* ===== verification/Commit_Alu.thy ===== *)
theory Commit_Alu
  imports Commit_Stage
begin

text \<open>
  The commit of a macro-op of one micro-operation that is neither a load, a store nor a branch:
  it cannot fail, and what it does to the architectural registers is written out.
\<close>

lemma nth_update_cases: "P (xs ! j) \<Longrightarrow> (i = j \<Longrightarrow> P y) \<Longrightarrow> P (xs[i := y] ! j)"
  by (cases "i = j"; cases "i < length xs") (auto simp: list_update_beyond)

lemma data_upd:
  assumes "\<And>r. pr_data (g r) = pr_data r \<and> pr_flags (g r) = pr_flags r"
  shows "pr_data (preg_of (upd_preg p g F) q) = pr_data (preg_of F q) \<and> pr_flags (preg_of (upd_preg p g F) q) = pr_flags (preg_of F q)"
proof -
  let ?rf = "rf_files F"
  have r: "pr_data (xs[i := g (xs ! i)] ! j) = pr_data (xs ! j) \<and> pr_flags (xs[i := g (xs ! i)] ! j) = pr_flags (xs ! j)" for xs i j
    by (rule nth_update_cases [where P = "\<lambda>r. pr_data r = pr_data (xs ! j) \<and> pr_flags r = pr_flags (xs ! j)"]) (use assms in auto)
  have "rf_files (upd_preg p g F) = ?rf[fst p := (?rf ! fst p)\<lparr>pf_regs := (pf_regs (?rf ! fst p))[snd p := g (pf_regs (?rf ! fst p) ! snd p)]\<rparr>]"
    by (simp add: upd_preg_def upd_file_def)
  moreover have "pr_data (pf_regs (?rf[fst p := (?rf ! fst p)\<lparr>pf_regs := (pf_regs (?rf ! fst p))[snd p := g (pf_regs (?rf ! fst p) ! snd p)]\<rparr>] ! fst q) ! snd q)
        = pr_data (pf_regs (?rf ! fst q) ! snd q)
      \<and> pr_flags (pf_regs (?rf[fst p := (?rf ! fst p)\<lparr>pf_regs := (pf_regs (?rf ! fst p))[snd p := g (pf_regs (?rf ! fst p) ! snd p)]\<rparr>] ! fst q) ! snd q)
        = pr_flags (pf_regs (?rf ! fst q) ! snd q)"
    by (rule nth_update_cases [where P = "\<lambda>f. pr_data (pf_regs f ! snd q) = pr_data (pf_regs (?rf ! fst q) ! snd q)
        \<and> pr_flags (pf_regs f ! snd q) = pr_flags (pf_regs (?rf ! fst q) ! snd q)"]) (use r in auto)
  ultimately show ?thesis by (simp only: preg_of_def)
qed

lemma swap_refs_data:
  "swap_refs rs p t F = Some (F', t') \<Longrightarrow> pr_data (preg_of F' q) = pr_data (preg_of F q) \<and> pr_flags (preg_of F' q) = pr_flags (preg_of F q)"
proof (induction rs arbitrary: t F)
  case (Cons r rs)
  obtain G where G: "unref (t ! r) F = Some G" "swap_refs rs p (t[r := p]) (addref p G) = Some (F', t')"
    using Cons.prems by (auto split: bind_splits)
  have "G = upd_preg (t ! r) (\<lambda>x. x\<lparr>pr_refcount := pr_refcount x - 1\<rparr>) F" using G(1) by (auto simp: unref_def Let_def split: if_splits)
  then show ?case
    using Cons.IH [OF G(2)] data_upd [of "\<lambda>x. x\<lparr>pr_refcount := pr_refcount x - 1\<rparr>" "t ! r" F q]
      data_upd [of "\<lambda>x. x\<lparr>pr_refcount := pr_refcount x + 1\<rparr>" p G q] by (simp add: addref_def)
qed simp

text \<open>The architectural registers after the commit of a register operation with result \<open>d\<close> and flags \<open>fl\<close>.\<close>

definition alu_arf :: "FetchBufferEntry \<Rightarrow> W64 \<Rightarrow> W16 \<Rightarrow> W64 list \<Rightarrow> W64 list" where
  "alu_arf uop d fl arf =
     (let arf = (if op_rd uop < ARCHREG_COUNT then arf[op_rd uop := d] else arf);
          arf = arf[REG_rip := arf ! REG_rip + op_bytes uop];
          mask = ucast (setflags_to_x86_flags ! unat (op_setflags uop)) :: W64
      in if op_nouserflags uop then arf
         else arf[REG_flags := (arf ! REG_flags AND NOT mask) OR (ucast fl AND mask)])"

lemma commit_state_alu:
  assumes c: "commit_regs uop p (rb_operands (rob_at i C)) old (oc_files C, oc_commitrrt C) = Some (F, t)"
    and u: "uop_ok uop" "\<not> isload (op_opcode uop)" "\<not> isstore (op_opcode uop)" "\<not> isbranch (op_opcode uop)" "\<not> is_store_uop uop"
      "op_eom uop" "op_rd uop \<noteq> REG_rip"
  shows "commit_state i uop old p C = Some (C\<lparr>oc_files := F, oc_commitrrt := t,
     oc_commitarf := alu_arf uop (pr_data (preg_of (oc_files C) p)) (pr_flags (preg_of (oc_files C) p)) (oc_commitarf C)\<rparr>)"
proof -
  have can: "archdest_can_commit ! op_rd uop" using u(1) by (simp add: uop_ok_def archdest_can_commit_nth)
  let ?clear = "\<lambda>r. r\<lparr>pr_rob := None\<rparr> :: PhysicalRegister"
  obtain F1 t1 F2 F3 F4 where s: "swap_refs [op_rd uop] p (oc_commitrrt C) (oc_files C) = Some (F1, t1)"
      "swap_refs (flag_dests uop) p t1 (upd_preg p ?clear F1) = Some (F2, t)" "pr_state (preg_of F2 old) = PHYSREG_ARCH"
      "free_old old F2 = Some F3" "changestate p PHYSREG_ARCH F3 = Some F4" "unspecrefs (rb_operands (rob_at i C)) F4 = Some F"
    using c unfolding commit_regs_def by (auto split: bind_splits if_splits)
  let ?d = "pr_data (preg_of (oc_files C) p)" and ?fl = "pr_flags (preg_of (oc_files C) p)"
  have data: "pr_data (preg_of F1 p) = ?d" "pr_flags (preg_of (upd_preg p ?clear F1) p) = ?fl"
    using swap_refs_data [OF s(1), of p] data_upd [of ?clear p F1 p] by simp_all
  let ?a1 = "if op_rd uop < ARCHREG_COUNT then (oc_commitarf C)[op_rd uop := ?d] else oc_commitarf C"
  let ?C1 = "C\<lparr>oc_files := upd_preg p ?clear F1, oc_commitrrt := t1, oc_commitarf := ?a1\<rparr>"
  have c1: "commit_dest uop p C = Some ?C1"
    using s(1) data(1) can by (simp add: commit_dest_def commit_rename_eq commit_swaps_def put_arf_def)
  let ?a2 = "?a1[REG_rip := ?a1 ! REG_rip + op_bytes uop]"
  have c2: "commit_rip uop p ?C1 = Some (?C1\<lparr>oc_commitarf := ?a2\<rparr>)"
    using u(4,6,7) by (simp add: commit_rip_def put_arf_def)
  let ?C3 = "C\<lparr>oc_files := F2, oc_commitrrt := t, oc_commitarf := alu_arf uop ?d ?fl (oc_commitarf C)\<rparr>"
  have c3: "commit_flags uop p (?C1\<lparr>oc_commitarf := ?a2\<rparr>) = Some ?C3"
  proof (cases "op_nouserflags uop")
    case True
    then have "flag_dests uop = []" by (simp add: flag_dests_def)
    then show ?thesis using True s(2) by (simp add: commit_flags_def alu_arf_def Let_def)
  next
    case False
    let ?mask = "ucast (setflags_to_x86_flags ! unat (op_setflags uop)) :: W64"
    have "commit_flags uop p (?C1\<lparr>oc_commitarf := ?a2\<rparr>) = commit_swaps (flag_dests uop) p
        (put_arf REG_flags ((?a2 ! REG_flags AND NOT ?mask) OR (ucast ?fl AND ?mask)) (?C1\<lparr>oc_commitarf := ?a2\<rparr>))"
      using u(2,3) False commit_flag_swaps [OF False, of p] data(2) by (simp add: commit_flags_def Let_def)
    then show ?thesis using s(2) False by (simp add: commit_swaps_def put_arf_def alu_arf_def Let_def)
  qed
  have c4: "commit_memory i uop ?C3 = Some ?C3" "commit_lsq i uop ?C3 = Some ?C3"
    using u(2,3,5) by (simp_all add: commit_memory_def commit_lsq_def)
  have c5: "commit_free_old old ?C3 = Some (?C3\<lparr>oc_files := F3\<rparr>)" using s(3,4) by (simp add: commit_free_old_eq)
  have c6: "unref_operands (rb_operands (rob_at i (?C3\<lparr>oc_files := F3\<rparr>))) (?C3\<lparr>oc_files := F4\<rparr>) = Some (?C3\<lparr>oc_files := F\<rparr>)"
    using s(6) by (simp add: unref_operands_eq rob_at_def)
  show ?thesis
    unfolding commit_state_def c1 bind.bind_lunit c2 c3 c4 c5
    using can s(5) c6 by simp
qed

subsection \<open>The commit succeeds\<close>

definition alu_op :: "FetchBufferEntry \<Rightarrow> bool" where
  "alu_op uop \<longleftrightarrow> \<not> isload (op_opcode uop) \<and> \<not> isstore (op_opcode uop) \<and> \<not> isbranch (op_opcode uop) \<and> op_eom uop \<and> op_rd uop \<noteq> REG_rip"

text \<open>The entry has its result, raises no exception, and the code it comes from has not been written.\<close>

definition alu_ready :: "ReorderBufferEntry \<Rightarrow> Core \<Rightarrow> bool" where
  "alu_ready e C \<longleftrightarrow> alu_op (rb_uop e) \<and> rb_list e = Some rob_ready_to_commit
     \<and> \<not> (op_is_sse (rb_uop e) \<and> oc_no_sse C \<or> op_is_x87 (rb_uop e) \<and> oc_no_x87 C)
     \<and> pr_flags (preg_of (oc_files C) (the (rb_physreg e))) AND FLAG_INV = 0
     \<and> \<not> smc_dirty (rb_uop e) C \<and> \<not> rb_lock_acquired e \<and> oc_commitarf C ! REG_rip = rvp_rip (fb_rip (rb_uop e))"

lemma store_classes: "isstore OP_st" "isstore OP_st_a16" "isstore OP_mf"
  by code_simp+

lemma rob_commit_alu:
  assumes C: "core_inv C" "flow_ok C" and es: "entries C = e # es" and a: "alu_ready e C"
  obtains res C' where "rob_commit (rb_idx e) C = Some (res, C')" "res \<notin> {COMMIT_NONE, COMMIT_EXCEPTION}" "retired 1 C C'"
    "oc_commitarf C' = alu_arf (rb_uop e) (pr_data (preg_of (oc_files C) (the (rb_physreg e))))
       (pr_flags (preg_of (oc_files C) (the (rb_physreg e)))) (oc_commitarf C)"
    "\<not> oc_smc_invalidate_pending C \<Longrightarrow> \<not> oc_stop_at_next_eom C \<Longrightarrow> \<not> oc_handle_interrupt_at_next_eom C
       \<Longrightarrow> oc_total_user_insns_committed C + 1 < oc_stop_at_user_insns C \<Longrightarrow> res = COMMIT_OK"
proof -
  let ?k = "length (entries C)" and ?i = "rb_idx e" and ?uop = "rb_uop e"
  have k: "core_at ?k C" using C(1) by (simp add: core_inv_at)
  note c = core_atD [OF k]
  note at = entries_at [OF c(1,2,3)]
  have iS: "?i < ROB_SIZE" "rob_at ?i C = e" using at(4) [of e] es by simp_all
  note r = ren_okD [OF c(4)]
  obtain p where p: "rb_physreg e = Some p" and u: "uop_ok ?uop"
    using entry_okD [OF rob_okD(1) [OF r(3), of e]] es by (metis list.set_intros(1))
  have op: "\<not> isload (op_opcode ?uop)" "\<not> isstore (op_opcode ?uop)" "\<not> isbranch (op_opcode ?uop)" "op_eom ?uop" "op_rd ?uop \<noteq> REG_rip"
    and ready: "ready_to_commit ?i C" and quiet: "\<not> (op_is_sse ?uop \<and> oc_no_sse C \<or> op_is_x87 ?uop \<and> oc_no_x87 C)"
      "pr_flags (preg_of (oc_files C) p) AND FLAG_INV = 0" "\<not> smc_dirty ?uop C" "\<not> rb_lock_acquired e"
      "oc_commitarf C ! REG_rip = rvp_rip (fb_rip ?uop)"
    using a iS p by (simp_all add: alu_ready_def alu_op_def ready_to_commit_def)
  have ns: "\<not> is_store_uop ?uop" "op_opcode ?uop \<noteq> OP_mf" using op(2) store_classes unfolding is_store_uop_def by metis+
  have k': "ren_ok (Suc (length es)) (oc_files C) (oc_specrrt C) (oc_commitrrt C) (e # es)" using c(4) es by simp
  let ?old = "oc_commitrrt C ! op_rd ?uop" and ?t = "retire e (oc_commitrrt C)"
  let ?arf = "alu_arf ?uop (pr_data (preg_of (oc_files C) p)) (pr_flags (preg_of (oc_files C) p)) (oc_commitarf C)"
  obtain F where F: "commit_regs ?uop p (rb_operands e) ?old (oc_files C, oc_commitrrt C) = Some (F, ?t)"
      "ren_ok (length es) F (oc_specrrt C) ?t es"
    by (rule commit_regs_ok [OF k' p refl])
  have st: "commit_state ?i ?uop ?old p C = Some (C\<lparr>oc_files := F, oc_commitrrt := ?t, oc_commitarf := ?arf\<rparr>)"
    by (rule commit_state_alu [OF _ u op(1,2,3) ns(1) op(4,5)]) (simp only: iS(2) F(1))
  define D where "D = C\<lparr>oc_files := F, oc_commitrrt := ?t, oc_commitarf := ?arf,
      oc_total_user_insns_committed := oc_total_user_insns_committed C + 1, oc_total_uops_committed := oc_total_uops_committed C + 1\<rparr>"
  have at_D: "rob_at j D = rob_at j C" for j by (simp add: D_def rob_at_def)
  have ent_D: "entries D = entries C" by (simp add: D_def entries_def)
  obtain L where "lists_ok L C" using c(5) by blast
  then have LD: "lists_ok L D" by (rule lists_ok_cong [THEN iffD2, rotated 3]) (simp_all add: at_D, simp_all add: D_def)
  have vD: "valid_ok D" using c(6) unfolding valid_ok_def at_D ent_D .
  obtain C6 where C6: "commit_entry ?i D = Some C6" "oc_commitarf C6 = oc_commitarf D"
    by (rule commit_entry_ok [OF _ _ _ LD vD _ _ _ refl, where k = "length es" and es = es])
      (use c es F(2) ent_D in \<open>simp_all add: D_def rob_at_def\<close>)
  define R where "R = commit_outcome ?uop C6"
  have cr: "commit_ready ?i C = Some R"
    using quiet ready ns op st C6(1) p
    by (simp add: commit_ready_def Let_def iS(2) store_is_locked_def no_locks(1) commit_branch_def D_def R_def)
  have js: "rob_from ?i C = Some (map rb_idx (entries C))"
  proof -
    have "rb_idx e = fq_ix (oc_ROB C) 0" using at(2) es by (simp add: upt_conv_Cons del: upt_Suc)
    then have "?i = nat (head (oc_ROB C))" using fq_invD(2,3) [OF c(1)] by (simp add: fq_ix_def)
    then show ?thesis using rob_from_head [OF c(1,2,3)] by simp
  qed
  have sc: "commit_scan (map rb_idx (entries C)) True C = Some (True, True, False, C)"
    using es p quiet(1,2) op(4) ready iS(2) by (auto simp: Let_def)
  have rc: "rob_commit ?i C = Some R"
    using ns(2) js sc quiet(3) cr by (simp add: rob_commit_def Let_def iS(2))
  have res: "fst R \<notin> {COMMIT_NONE, COMMIT_EXCEPTION}" unfolding R_def commit_outcome_def by simp
  have "commit_ready ?i C = Some (fst R, snd R)" using cr by simp
  from commit_ready_retires [OF this C es refl] have "retired 1 C (snd R)" using res by simp
  moreover have "oc_commitarf (snd R) = ?arf" using C6(2) by (simp add: R_def commit_outcome_def D_def)
  moreover have "fst R = COMMIT_OK" if "\<not> oc_smc_invalidate_pending C" "\<not> oc_stop_at_next_eom C" "\<not> oc_handle_interrupt_at_next_eom C"
      "oc_total_user_insns_committed C + 1 < oc_stop_at_user_insns C"
  proof -
    have "\<not> isclass (op_opcode ?uop) OPCLASS_BARRIER"
    proof
      assume "isclass (op_opcode ?uop) OPCLASS_BARRIER"
      moreover have "\<forall>x \<in> set opinfo_opclass. x AND OPCLASS_BARRIER \<noteq> 0 \<longrightarrow> x AND OPCLASS_BRANCH \<noteq> 0" by code_simp
      moreover have "length opinfo_opclass = OP_MAX_OPCODE" by code_simp
      ultimately show False using op(3) by (auto simp: isclass_def isbranch_def)
    qed
    moreover have "oc_smc_invalidate_pending C6 = oc_smc_invalidate_pending C \<and> oc_stop_at_next_eom C6 = oc_stop_at_next_eom C
        \<and> oc_handle_interrupt_at_next_eom C6 = oc_handle_interrupt_at_next_eom C \<and> oc_stop_at_user_insns C6 = oc_stop_at_user_insns C
        \<and> oc_total_user_insns_committed C6 = oc_total_user_insns_committed C + 1"
      using C6(1) by (auto simp: commit_entry_def rob_changestate_def D_def upd_rob_def split: bind_splits)
    ultimately show ?thesis using that by (simp add: R_def commit_outcome_def not_le)
  qed
  ultimately show ?thesis using that [of "fst R" "snd R"] rc res p by simp
qed

end
