(* ===== verification/Core_Cycle.thy ===== *)
theory Core_Cycle
  imports Core_Props Commit_Alu
begin

text \<open>
  The theorems on the stages from the front end to retirement. The state they are applied to is
  reached from the first flush by a renaming; the result of its one micro-operation is put in place.
\<close>

subsection \<open>The flow of the entries\<close>

lemma empty_flow:
  assumes "core_inv C" "entries C = []"
  shows "flow_ok C"
  unfolding flow_ok_def
proof (intro allI impI)
  fix i assume i: "i < ROB_SIZE"
  have "rb_list (rob_at i C) = Some rob_free" using valid_okD [OF core_invD(6) [OF assms(1)] i] assms(2) by simp
  then show "flow_entry (rob_at i C)" by (simp add: flow_entry_def)
qed

lemma renamed_flow:
  assumes "flow_ok C" "renamed_slots C C'"
  shows "flow_ok C'"
  unfolding flow_ok_def
proof (intro allI impI)
  fix i assume i: "i < ROB_SIZE"
  have "rb_list (rob_at i C') = Some rob_frontend \<or> wipe (rob_at i C') = wipe (rob_at i C)"
    using assms(2) i unfolding renamed_slots_def by blast
  then show "flow_entry (rob_at i C')"
  proof
    assume w: "wipe (rob_at i C') = wipe (rob_at i C)"
    show ?thesis
      using assms(1) i arg_cong [OF w, of rb_list] arg_cong [OF w, of rb_cluster] arg_cong [OF w, of rb_forward_cycle]
      by (simp add: flow_ok_def flow_entry_def wipe_def)
  qed (simp add: flow_entry_def)
qed

subsection \<open>A core with an entry that is ready to commit\<close>

text \<open>With nothing in flight and the registers recycled, both large files have a register left.\<close>

lemma empty_remaining:
  assumes C: "core_inv C" "entries C = []" and r: "recycled 0 (all_refs (oc_specrrt C) (oc_commitrrt C) (entries C)) (oc_files C)"
  shows "pf_remaining 0 (oc_files C)"
proof (rule ccontr)
  assume no: "\<not> pf_remaining 0 (oc_files C)"
  let ?F = "oc_files C" and ?t = "oc_commitrrt C"
  note ren = ren_okD [OF core_invD(4) [OF C(1)]]
  note d = refs_invD [OF ren(1)] and c = committed_okD [OF ren(2)]
  obtain L where L: "regs_ok L ?F" using d(1) by blast
  have spec: "oc_specrrt C = ?t" using ren(6) C(2) by simp
  have n: "0 < PHYS_REG_FILE_COUNT" "pf_size (rf_files ?F ! 0) = 256"
    using d(7) [of 0] by (simp_all add: PHYS_REG_FILE_COUNT_def physreg_sizes_def)
  have "Pair 0 ` {..<256} \<subseteq> set ?t \<union> (\<lambda>f. (f, 0)) ` {..<PHYS_REG_FILE_COUNT}"
  proof
    fix p :: preg assume "p \<in> Pair 0 ` {..<256}"
    then obtain i where p: "p = (0, i)" "i < 256" by blast
    have f: "in_file ?F p" using p n by (simp add: in_file_def)
    have "pr_state (preg_of ?F p) \<noteq> PHYSREG_FREE" using no remaining_state [OF L n(1)] f p(1) by blast
    then consider "pr_state (preg_of ?F p) = PHYSREG_ARCH" | "pr_state (preg_of ?F p) = PHYSREG_PENDINGFREE"
      | "in_flight (pr_state (preg_of ?F p))" using live_cases regs_okD(3) [OF L f] by blast
    then show "p \<in> set ?t \<union> (\<lambda>f. (f, 0)) ` {..<PHYS_REG_FILE_COUNT}"
    proof cases
      case 1
      show ?thesis
      proof (cases "i = 0")
        case True
        then show ?thesis using p n(1) by blast
      next
        case False
        then obtain r where "r < TRANSREG_COUNT" "?t ! r = p" using c(6) [OF f 1] p by auto
        then show ?thesis using c(1) nth_mem by fastforce
      qed
    next
      case 2
      have "p \<in># all_refs (oc_specrrt C) ?t (entries C)" using r f 2 p(1) unfolding recycled_def by blast
      then have "p \<in># mset ?t \<or> p \<in># null_refs PHYS_REG_FILE_COUNT" by (auto simp: all_refs_def spec C(2))
      then show ?thesis by (auto simp: null_refs_def PHYS_REG_NULL_def lessThan_atLeast0)
    next
      case 3
      then show ?thesis using rob_okD(4) [OF ren(3) f] C(2) by simp
    qed
  qed
  from card_mono [OF _ this] have "(256 :: nat) \<le> card (set ?t \<union> (\<lambda>f. (f, 0 :: nat)) ` {..<PHYS_REG_FILE_COUNT})"
    by (simp add: card_image inj_on_def)
  also have "\<dots> \<le> card (set ?t) + card ((\<lambda>f. (f, 0 :: nat)) ` {..<PHYS_REG_FILE_COUNT})" by (rule card_Un_le)
  also have "\<dots> \<le> length ?t + PHYS_REG_FILE_COUNT" using card_length [of ?t] card_image_le [of "{..<PHYS_REG_FILE_COUNT}" "\<lambda>f. (f, 0 :: nat)"] by simp
  also have "\<dots> = 84" using c(1) by (simp add: TRANSREG_COUNT_def PHYS_REG_FILE_COUNT_def)
  finally show False by simp
qed

lemma find_first_some:
  assumes "x \<in> set xs" "P x"
  shows "find_first P xs \<noteq> None"
proof -
  have "x \<in> set (filter P xs)" using assms by simp
  then show ?thesis unfolding find_first_def by (cases "filter P xs") (auto simp del: set_filter)
qed

lemma renamed_core:
  obtains C e where "core_inv C" "flow_ok C" "entries C = [e]" "rb_uop e = move_uop" "rb_list e = Some rob_frontend"
proof -
  obtain C0 where C0: "core_inv C0" "fetch_inv C0" "contents (oc_fetchq C0) = [move_uop]" "entries C0 = []" by (rule started_core)
  have k0: "core_at (length (entries C0)) C0" using C0(1) by (simp add: core_inv_at)
  obtain F where F: "core_at (length (entries C0)) (C0\<lparr>oc_files := F\<rparr>)"
    "\<And>f. f < PHYS_REG_FILE_COUNT \<Longrightarrow> recycled f (all_refs (oc_specrrt C0) (oc_commitrrt C0) (entries C0)) F"
    by (rule recycle_pregs_ok [OF k0 empty_flow [OF C0(1,4)]], rule that, assumption+)
  define C1 where "C1 = C0\<lparr>oc_files := F\<rparr>"
  have ent: "entries C1 = []" using C0(4) by (simp add: C1_def entries_def)
  have C1: "core_inv C1" "fetch_inv C1" "contents (oc_fetchq C1) = [move_uop]"
    using F(1) C0(2-4) ent by (simp_all add: core_inv_at C1_def [symmetric]) (simp_all add: C1_def fetch_inv_def)
  have "recycled 0 (all_refs (oc_specrrt C1) (oc_commitrrt C1) (entries C1)) (oc_files C1)"
    using F(2) [of 0] by (simp add: C1_def entries_def PHYS_REG_FILE_COUNT_def)
  note rem = empty_remaining [OF C1(1) ent this]
  have blocked: "rename_blocked C1 = None"
  proof -
    let ?q = "oc_fetchq C1"
    have q: "fq_inv ?q" using C1(2) by (simp add: fetch_inv_def)
    obtain p q' where dq: "fq_dequeue ?q = (Some p, q')" "slots q' ! nat p = move_uop" using fq_dequeueD [OF q C1(3)] by blast
    then have hd: "\<not> fq_empty ?q" "slots ?q ! nat (head ?q) = move_uop" by (auto simp: fq_dequeue_def split: if_splits)
    have "length (contents (oc_ROB C1)) < capacity (oc_ROB C1)"
      using ent core_invD(2) [OF C1(1)] by (simp add: entries_def capacity_def ROB_SIZE_def)
    then have room: "fq_remaining (oc_ROB C1) \<noteq> 0" using fq_fullD [OF core_invD(1) [OF C1(1)]] by auto
    have off: "0 \<le> oc_round_robin_reg_file_offset C1" "oc_round_robin_reg_file_offset C1 < 4"
      using C1(1) by (simp_all add: core_inv_def PHYS_REG_FILE_COUNT_def)
    have b: "bit (phys_reg_files_writable_by_uop move_uop) 0" "\<not> isload (op_opcode move_uop)" "\<not> isstore (op_opcode move_uop)"
      by code_simp+
    have "\<exists>i < 4. nat (add_index_modulo (oc_round_robin_reg_file_offset C1) (int i) 4) = 0"
    proof -
      have "oc_round_robin_reg_file_offset C1 \<in> {0, 1, 2, 3}" using off by auto
      then have "nat (add_index_modulo (oc_round_robin_reg_file_offset C1) (int (nat ((4 - oc_round_robin_reg_file_offset C1) mod 4))) 4) = 0"
        by (auto simp: add_index_modulo_def)
      moreover have "nat ((4 - oc_round_robin_reg_file_offset C1) mod 4) < 4" by simp
      ultimately show ?thesis by blast
    qed
    then obtain i where i: "i < 4" "nat (add_index_modulo (oc_round_robin_reg_file_offset C1) (int i) 4) = 0" by blast
    have "0 \<in> set (map (\<lambda>i. nat (add_index_modulo (oc_round_robin_reg_file_offset C1) (int i) (int PHYS_REG_FILE_COUNT))) [0..<PHYS_REG_FILE_COUNT])"
      using i by (force simp: PHYS_REG_FILE_COUNT_def)
    then have "rename_reg_file move_uop C1 \<noteq> None"
      unfolding rename_reg_file_def by (rule find_first_some) (use b(1) rem in blast)
    then show ?thesis using hd room b(2,3) by (simp add: rename_blocked_def Let_def)
  qed
  obtain C2 e p where C2: "core_inv C2" "map rob_view (entries C2) = map rob_view (entries C1) @ [rob_view e]"
      "contents (oc_fetchq C1) = rb_uop e # contents (oc_fetchq C2)" "renamed_slots C1 C2"
    by (rule rename_uop_ok [OF C1(1,2) blocked], rule that, assumption+)
  obtain e2 where e2: "entries C2 = [e2]" "rob_view e2 = rob_view e" using C2(2) ent by auto
  have u: "rb_uop e2 = move_uop" using e2(2) C2(3) C1(3) by (simp add: rob_view_def)
  have flow: "flow_ok C2" by (rule renamed_flow [OF empty_flow [OF C1(1) ent] C2(4)])
  note at = entries_at(4) [OF core_invD(1,2,3) [OF C2(1)], of e2]
  have i: "rb_idx e2 < ROB_SIZE" "rob_at (rb_idx e2) C2 = e2" using at e2(1) by simp_all
  have "rb_list (rob_at (rb_idx e2) C1) = Some rob_free" using valid_okD [OF core_invD(6) [OF C1(1)] i(1)] ent by simp
  moreover have "rb_list (rob_at (rb_idx e2) C2) \<noteq> Some rob_free" using valid_okD [OF core_invD(6) [OF C2(1)] i(1)] e2(1) by simp
  ultimately have "rb_list e2 = Some rob_frontend"
    using C2(4) i wipe_fields unfolding renamed_slots_def by metis
  then show ?thesis using that C2(1) flow e2(1) u by blast
qed

text \<open>The entry is put on the list \<open>l\<close>, its register is given the result 42.\<close>

lemma placed_core:
  assumes l: "rob_list_ok l" "l \<noteq> rob_free"
  obtains C e where "core_inv C" "flow_ok C" "entries C = [e]" "rb_list e = Some l" "l = rob_ready_to_commit \<Longrightarrow> alu_ready e C" "rb_uop e = move_uop" "oc_commitcount C = 0"
    "oc_commitarf C = replicate 64 0" "pr_data (preg_of (oc_files C) (the (rb_physreg e))) = 42"
    "\<not> oc_smc_invalidate_pending C" "\<not> oc_stop_at_next_eom C" "\<not> oc_handle_interrupt_at_next_eom C"
    "oc_total_user_insns_committed C + 1 < oc_stop_at_user_insns C" "oc_writecount C = 0"
proof -
  obtain C e where C: "core_inv C" "flow_ok C" "entries C = [e]" "rb_uop e = move_uop" "rb_list e = Some rob_frontend"
    by (rule renamed_core)
  define i where "i = rb_idx e"
  have k: "core_at 1 C" using C(1,3) by (simp add: core_inv_at)
  note at = entries_at(4) [OF core_invD(1,2,3) [OF C(1)], of e]
  have i: "i < ROB_SIZE" "rob_at i C = e" using at C(3) by (simp_all add: i_def)
  obtain L where L: "lists_ok L C" using core_invD(5) [OF C(1)] by blast
  let ?f = "\<lambda>r. r\<lparr>rb_cluster := 0, rb_forward_cycle := 0, rb_lock_acquired := False\<rparr> :: ReorderBufferEntry"
  have m: "minor ?f" by (auto simp: rob_view_def)
  define D where "D = upd_rob i ?f C"
  note u = core_at_minor [OF k m L i(1), folded D_def]
  have atD: "rob_at j D = (if j = i then ?f e else rob_at j C)" for j using rob_at_upd_core [OF k i(1)] i(2) by (simp add: D_def)
  have lD: "rb_list (rob_at i D) = Some rob_frontend" using atD C(5) by simp
  obtain L' E where E: "rob_changestate i l None D = Some E" "core_at 1 E" "lists_ok L' E" "quiet D E"
      "\<And>j. rob_at j E = (if j = i then (rob_at i D)\<lparr>rb_list := Some l\<rparr> else rob_at j D)"
    by (rule core_at_change [OF u(1,3) i(1) lD _ l], simp, rule that, assumption+)
  have atE: "rob_at i E = (?f e)\<lparr>rb_list := Some l\<rparr>" using E(5) atD by simp
  obtain p where p: "rb_physreg (rob_at i E) = Some p" "in_file (oc_files E) p"
    by (rule entry_okD [OF core_at_entry(3) [OF E(2) i(1)]]) (simp add: atE l(2), rule that)
  let ?g = "\<lambda>r. r\<lparr>pr_data := 42, pr_flags := 0\<rparr> :: PhysicalRegister"
  have notfree: "rb_list (rob_at i E) \<noteq> Some rob_free" using atE l(2) by simp
  note st = scan_step [OF E(2) i(1) notfree p(1), of ?g]
  have G: "core_at 1 (E\<lparr>oc_files := upd_preg p ?g (oc_files E)\<rparr>)" using core_at_files(1) [OF E(2) st E(3)] by simp
  have only: "preg_of (upd_preg p ?g (oc_files E)) p = ?g (preg_of (oc_files E) p)"
    using only_pregD(1) [OF upd_refs(2) [OF ren_okD(1) [OF core_atD(4) [OF E(2)]] p(2), of ?g]] by simp
  define H where "H = (E\<lparr>oc_files := upd_preg p ?g (oc_files E)\<rparr>)\<lparr>oc_asp := as_new, oc_commitarf := replicate 64 0, oc_commitcount := 0, oc_writecount := 0,
      oc_smc_invalidate_pending := False, oc_stop_at_next_eom := False, oc_handle_interrupt_at_next_eom := False,
      oc_total_user_insns_committed := 0, oc_stop_at_user_insns := 100\<rparr>"
  have atH: "rob_at j H = rob_at j E" for j by (simp add: H_def rob_at_def)
  have flow: "flow_ok H"
    unfolding flow_ok_def
  proof (intro allI impI)
    fix j assume j: "j < ROB_SIZE"
    show "flow_entry (rob_at j H)"
    proof (cases "j = i")
      case True
      then show ?thesis unfolding atH using atE by (simp add: flow_entry_def MAX_CLUSTERS_def)
    next
      case False
      then show ?thesis using C(2) j E(5) [of j] atD [of j] unfolding atH flow_ok_def by simp
    qed
  qed
  have s: "same_rob (E\<lparr>oc_files := upd_preg p ?g (oc_files E)\<rparr>) H" by (simp add: H_def same_rob_def)
  have kH: "core_at 1 H" by (rule core_at_same_rob [OF G s]) (use core_atD(4) [OF G] in \<open>simp add: H_def entries_def\<close>)
  have q: "quiet C E" by (rule quiet_trans [OF u(2) E(4)])
  have "map rob_view (entries H) = [rob_view e]" using q C(3) by (simp add: quiet_def H_def entries_def)
  then obtain e' where e': "entries H = [e']" "rob_view e' = rob_view e" by auto
  have inv: "core_inv H" using kH e'(1) by (simp add: core_inv_at)
  have "rb_idx e' = i" using e'(2) by (simp add: rob_view_def i_def)
  moreover have "rob_at (rb_idx e') H = e'" using entries_at(4) [OF core_invD(1,2,3) [OF inv], of e'] e'(1) by simp
  ultimately have e1: "e' = (?f e)\<lparr>rb_list := Some l\<rparr>" using atH atE by simp
  have phys: "rb_physreg e' = Some p" using p(1) e1 atE by simp
  have data: "preg_of (oc_files H) p = ?g (preg_of (oc_files E) p)" using only by (simp add: H_def)
  have cls: "alu_op move_uop" "\<not> op_is_sse move_uop" "\<not> op_is_x87 move_uop" "rvp_rip (fb_rip move_uop) = 0" by code_simp+
  have "\<not> isdirty x as_new" for x
    by (simp add: isdirty_def fastcheck_def as_new_def bit_for_page_def split: option.split)
  then have "\<not> smc_dirty move_uop H" by (simp add: smc_dirty_def H_def)
  then have "alu_ready e' H" if "l = rob_ready_to_commit" unfolding alu_ready_def using that e1 C(4) cls phys data by (simp add: H_def REG_rip_def)
  then show ?thesis
    by (intro that [OF inv flow e'(1)]) (use \<open>l = rob_ready_to_commit \<Longrightarrow> alu_ready e' H\<close> e1 C(4) phys data in \<open>simp_all add: H_def\<close>)
qed

lemma ready_core:
  obtains C e where "core_inv C" "flow_ok C" "entries C = [e]" "alu_ready e C" "rb_uop e = move_uop" "oc_commitcount C = 0"
    "oc_commitarf C = replicate 64 0" "pr_data (preg_of (oc_files C) (the (rb_physreg e))) = 42"
    "\<not> oc_smc_invalidate_pending C" "\<not> oc_stop_at_next_eom C" "\<not> oc_handle_interrupt_at_next_eom C"
    "oc_total_user_insns_committed C + 1 < oc_stop_at_user_insns C"
proof (rule placed_core [OF rob_list_oks(4)])
  show "rob_ready_to_commit \<noteq> rob_free" by simp
qed (rule that, assumption+, simp, assumption+)

subsection \<open>Commit\<close>

text \<open>
  Claim C2. The commit stage retires in program order: the entries that leave are the oldest ones,
  at most as many as its width allows, the committed table moves over exactly them, and the
  speculative table, the fetch queue and the other entries stay. The invariant is kept, whatever
  the reason the stage stops for.
\<close>

theorem commit_in_order:
  assumes "core_inv C" "flow_ok C" "oc_commitcount C \<le> COMMIT_WIDTH" "commit_stage C = Some (res, C')"
  shows "\<exists>n \<le> length (entries C). int n \<le> COMMIT_WIDTH - oc_commitcount C \<and> core_inv C' \<and> flow_ok C'
    \<and> map rob_view (entries C') = map rob_view (drop n (entries C))
    \<and> oc_commitrrt C' = fold retire (take n (entries C)) (oc_commitrrt C)
    \<and> oc_specrrt C' = oc_specrrt C \<and> oc_fetchq C' = oc_fetchq C"
proof -
  obtain n where "retired n C C'" "int n + oc_commitcount C \<le> COMMIT_WIDTH"
    using commit_stage_retires [OF assms(4,1,2,3)] by blast
  then show ?thesis by (intro exI [of _ n]) (simp add: retired_def core_inv_at)
qed

lemma ready_core_commits:
  obtains C e C' where "core_inv C" "flow_ok C" "entries C = [e]" "oc_commitcount C = 0" "rb_uop e = move_uop"
    "commit_stage C = Some (COMMIT_OK, C')" "entries C' = []"
proof -
  obtain C e where C: "core_inv C" "flow_ok C" "entries C = [e]" "alu_ready e C" "rb_uop e = move_uop" "oc_commitcount C = 0"
    "\<not> oc_smc_invalidate_pending C" "\<not> oc_stop_at_next_eom C" "\<not> oc_handle_interrupt_at_next_eom C"
    "oc_total_user_insns_committed C + 1 < oc_stop_at_user_insns C"
    by (rule ready_core, rule that, assumption+)
  have k: "core_at (length (entries C)) C" using C(1) by (simp add: core_inv_at)
  obtain F where F: "recycle_pregs C = Some (C\<lparr>oc_files := F\<rparr>)" "core_at (length (entries C)) (C\<lparr>oc_files := F\<rparr>)"
      "flow_ok (C\<lparr>oc_files := F\<rparr>)" "\<And>p. pr_data (preg_of F p) = pr_data (preg_of (oc_files C) p) \<and> pr_flags (preg_of F p) = pr_flags (preg_of (oc_files C) p)"
    by (rule recycle_pregs_ok [OF k C(2)], rule that, assumption+)
  define D where "D = C\<lparr>oc_files := F\<rparr>"
  have D: "core_inv D" "flow_ok D" "entries D = [e]" using F(2,3) C(3) by (simp_all add: core_inv_at D_def entries_def)
  have a: "alu_ready e D" using C(4) F(4) by (simp add: alu_ready_def D_def smc_dirty_def)
  obtain res E where E: "rob_commit (rb_idx e) D = Some (res, E)" "retired 1 D E"
    "\<not> oc_smc_invalidate_pending D \<Longrightarrow> \<not> oc_stop_at_next_eom D \<Longrightarrow> \<not> oc_handle_interrupt_at_next_eom D
       \<Longrightarrow> oc_total_user_insns_committed D + 1 < oc_stop_at_user_insns D \<Longrightarrow> res = COMMIT_OK"
    by (rule rob_commit_alu [OF D a], rule that, assumption, assumption, blast)
  have res: "res = COMMIT_OK" using E(3) C(7-10) by (simp add: D_def)
  have js: "rob_from (nat (head (oc_ROB D))) D = Some [rb_idx e]"
    using rob_from_head [OF core_invD(1,2,3) [OF D(1)]] D(3) by simp
  have n: "oc_commitcount D = 0" "oc_commitcount E = 0" using C(6) rob_commit_count [OF E(1)] by (simp_all add: D_def)
  define C' where "C' = E\<lparr>oc_commitcount := 1\<rparr>"
  have "commit_stage C = Some (COMMIT_OK, C')"
    using F(1) js E(1) res n by (simp add: commit_stage_def D_def [symmetric] C'_def COMMIT_WIDTH_def)
  moreover have "entries C' = []" using E(2) D(3) by (simp add: retired_def C'_def entries_def)
  ultimately show ?thesis using that C(1-3,5,6) by blast
qed

theorem commit_in_order_witness:
  "\<exists>C C' e. entries C = [e] \<and> rb_uop e = move_uop \<and> commit_stage C = Some (COMMIT_OK, C') \<and> entries C' = [] \<and> core_inv C'"
proof -
  obtain C e C' where C: "core_inv C" "flow_ok C" "entries C = [e]" "oc_commitcount C = 0" "rb_uop e = move_uop"
    "commit_stage C = Some (COMMIT_OK, C')" "entries C' = []" by (rule ready_core_commits)
  have "oc_commitcount C \<le> COMMIT_WIDTH" using C(4) by (simp add: COMMIT_WIDTH_def)
  then show ?thesis using commit_in_order [OF C(1,2) _ C(6)] C(3,5-7) by blast
qed

text \<open>
  Claim C3. The commit of a register operation that is alone in its macro-op, has its result and raises no
  exception cannot fail: the architectural destination takes the value of its physical register,
  the instruction pointer moves to the next instruction, the flags it sets are taken over and no
  other architectural register changes; the entry leaves the buffer.
\<close>

theorem commit_register_operation:
  assumes "core_inv C" "flow_ok C" "entries C = e # es" "alu_ready e C" "length (oc_commitarf C) = ARCHREG_COUNT" "op_rd (rb_uop e) \<noteq> REG_flags"
  shows "let reg = preg_of (oc_files C) (the (rb_physreg e));
      fmask = ucast (setflags_to_x86_flags ! unat (op_setflags (rb_uop e))) :: W64
    in \<exists>res C'. rob_commit (rb_idx e) C = Some (res, C') \<and> res \<notin> {COMMIT_NONE, COMMIT_EXCEPTION} \<and> core_inv C'
    \<and> map rob_view (entries C') = map rob_view es \<and> oc_commitrrt C' = retire e (oc_commitrrt C)
    \<and> (\<forall>r < ARCHREG_COUNT. oc_commitarf C' ! r =
         (if r = REG_rip then rvp_rip (fb_rip (rb_uop e)) + op_bytes (rb_uop e)
          else if r = REG_flags \<and> \<not> op_nouserflags (rb_uop e)
          then (oc_commitarf C ! r AND NOT fmask) OR (ucast (pr_flags reg) AND fmask)
          else if r = op_rd (rb_uop e) then pr_data reg else oc_commitarf C ! r))"
proof -
  let ?uop = "rb_uop e"
  define reg fmask where d: "reg = preg_of (oc_files C) (the (rb_physreg e))"
    "fmask = (ucast (setflags_to_x86_flags ! unat (op_setflags (rb_uop e))) :: W64)"
  obtain res C' where r: "rob_commit (rb_idx e) C = Some (res, C')" "res \<notin> {COMMIT_NONE, COMMIT_EXCEPTION}" "retired 1 C C'"
    "oc_commitarf C' = alu_arf ?uop (pr_data reg) (pr_flags reg) (oc_commitarf C)"
    unfolding d by (rule rob_commit_alu [OF assms(1-4)])
  have rip: "oc_commitarf C ! REG_rip = rvp_rip (fb_rip ?uop)" "op_rd ?uop \<noteq> REG_rip"
    using assms(4) by (simp_all add: alu_ready_def alu_op_def)
  have ne: "REG_rip \<noteq> REG_flags" "REG_flags < ARCHREG_COUNT" "REG_rip < ARCHREG_COUNT" by (simp_all add: reg_numbers)
  have "oc_commitarf C' ! r =
         (if r = REG_rip then rvp_rip (fb_rip ?uop) + op_bytes ?uop
          else if r = REG_flags \<and> \<not> op_nouserflags ?uop
          then (oc_commitarf C ! r AND NOT fmask) OR (ucast (pr_flags reg) AND fmask)
          else if r = op_rd ?uop then pr_data reg else oc_commitarf C ! r)" if "r < ARCHREG_COUNT" for r
    using that rip assms(5,6) ne unfolding r(4) alu_arf_def Let_def d(2) [symmetric]
    by (auto simp: nth_list_update)
  then show ?thesis using r(1-3) assms(3) unfolding Let_def d [symmetric] by (simp add: retired_def core_inv_at)
qed

theorem commit_register_operation_witness:
  "\<exists>C e res C'. entries C = [e] \<and> rb_uop e = move_uop \<and> rob_commit (rb_idx e) C = Some (res, C') \<and> oc_commitarf C ! 0 = 0
     \<and> oc_commitarf C' ! 0 = 42 \<and> oc_commitarf C' ! 1 = 0 \<and> oc_commitarf C' ! REG_rip = 3"
proof -
  obtain C e where C: "core_inv C" "flow_ok C" "entries C = [e]" "alu_ready e C" "rb_uop e = move_uop" "oc_commitarf C = replicate 64 0"
    "pr_data (preg_of (oc_files C) (the (rb_physreg e))) = 42" by (rule ready_core, rule that, assumption+)
  have u: "op_rd move_uop = 0" "op_bytes move_uop = 3" "rvp_rip (fb_rip move_uop) = 0" by code_simp+
  have "length (oc_commitarf C) = ARCHREG_COUNT" "op_rd (rb_uop e) \<noteq> REG_flags" using C(5,6) u by (simp_all add: reg_numbers)
  from commit_register_operation [OF C(1-4) this, unfolded Let_def] obtain res C' where r: "rob_commit (rb_idx e) C = Some (res, C')"
    "\<forall>r < ARCHREG_COUNT. oc_commitarf C' ! r =
         (if r = REG_rip then rvp_rip (fb_rip (rb_uop e)) + op_bytes (rb_uop e)
          else if r = REG_flags \<and> \<not> op_nouserflags (rb_uop e)
          then (oc_commitarf C ! r AND NOT (ucast (setflags_to_x86_flags ! unat (op_setflags (rb_uop e))) :: W64))
            OR (ucast (pr_flags (preg_of (oc_files C) (the (rb_physreg e)))) AND (ucast (setflags_to_x86_flags ! unat (op_setflags (rb_uop e))) :: W64))
          else if r = op_rd (rb_uop e) then pr_data (preg_of (oc_files C) (the (rb_physreg e))) else oc_commitarf C ! r)" by blast
  have "oc_commitarf C' ! 0 = 42" "oc_commitarf C' ! 1 = 0" "oc_commitarf C' ! REG_rip = 3"
    using r(2) [THEN spec, of 0] r(2) [THEN spec, of 1] r(2) [THEN spec, of REG_rip] u C(5-7) by (simp_all add: reg_numbers)
  then show ?thesis using C(3,5,6) r(1) by (intro exI [of _ C] exI [of _ e] exI [of _ res] exI [of _ C']) simp
qed

text \<open>
  Claim C8. Before it retires anything, the commit stage recycles the registers: this cannot fail, and
  afterwards every register that waits to be freed is still referred to by a table or an operand;
  the values and the entries are untouched.
\<close>

theorem recycle_complete:
  assumes "core_inv C" "flow_ok C"
  shows "\<exists>F. recycle_pregs C = Some (C\<lparr>oc_files := F\<rparr>) \<and> core_inv (C\<lparr>oc_files := F\<rparr>)
    \<and> (\<forall>p. in_file F p \<and> pr_state (preg_of F p) = PHYSREG_PENDINGFREE \<longrightarrow> referenced p F)
    \<and> (\<forall>p. pr_data (preg_of F p) = pr_data (preg_of (oc_files C) p))"
proof -
  have k: "core_at (length (entries C)) C" using assms(1) by (simp add: core_inv_at)
  let ?R = "all_refs (oc_specrrt C) (oc_commitrrt C) (entries C)"
  obtain F where F: "recycle_pregs C = Some (C\<lparr>oc_files := F\<rparr>)" "core_at (length (entries C)) (C\<lparr>oc_files := F\<rparr>)"
    "\<And>f. f < PHYS_REG_FILE_COUNT \<Longrightarrow> recycled f ?R F"
    "\<And>p. pr_data (preg_of F p) = pr_data (preg_of (oc_files C) p) \<and> pr_flags (preg_of F p) = pr_flags (preg_of (oc_files C) p)"
    by (rule recycle_pregs_ok [OF k assms(2)], rule that, assumption+)
  have "refs_inv ?R F" using ren_okD(1) [OF core_atD(4) [OF F(2)]] by (simp add: entries_def)
  then have ref: "referenced p F" if "in_file F p" "p \<in># ?R" for p
    using refs_invD(5) [of ?R F p] that by (simp add: referenced_def)
  have "referenced p F" if p: "in_file F p" "pr_state (preg_of F p) = PHYSREG_PENDINGFREE" for p
  proof -
    have "fst p < PHYS_REG_FILE_COUNT" using p(1) by (simp add: in_file_def)
    then have "p \<in># ?R" using F(3) [of "fst p"] p by (cases p) (auto simp: recycled_def)
    then show ?thesis by (rule ref [OF p(1)])
  qed
  moreover have "core_inv (C\<lparr>oc_files := F\<rparr>)" using F(2) by (simp add: core_inv_at entries_def)
  ultimately show ?thesis using F(1,4) by (intro exI [of _ F]) (simp del: split_paired_All)
qed

theorem recycle_complete_witness:
  "\<exists>C e F. entries C = [e] \<and> recycle_pregs C = Some (C\<lparr>oc_files := F\<rparr>) \<and> core_inv (C\<lparr>oc_files := F\<rparr>)"
proof -
  obtain C e where C: "core_inv C" "flow_ok C" "entries C = [e]" by (rule ready_core)
  show ?thesis using recycle_complete [OF C(1,2)] C(3) by blast
qed

subsection \<open>Between renaming and commit\<close>

text \<open>
  Claim C6. The front end, the completion and the transfer stage cannot fail on a core that satisfies the
  invariant, and keep it; no architectural state and no rename table changes. What each does to
  every slot of the buffer is one function of the slot: the entries on its list have their
  counters advanced and move on when these run out, all others stay as they are.
\<close>

theorem execution_stages:
  assumes "core_inv C" "flow_ok C" "c < MAX_CLUSTERS"
  shows "(\<exists>C'. frontend C = Some C' \<and> core_inv C' \<and> flow_ok C' \<and> quiet C C' \<and> (\<forall>j < ROB_SIZE. rob_at j C' =
      (if rb_list (rob_at j C) = Some rob_frontend then frontend_entry (rob_at j C) else rob_at j C)))
    \<and> (\<exists>C'. complete_stage c C = Some C' \<and> core_inv C' \<and> flow_ok C' \<and> quiet C C' \<and> (\<forall>j < ROB_SIZE. rob_at j C' =
      (if rb_list (rob_at j C) = Some (rob_issued c) then complete_entry c (rob_at j C) else rob_at j C)))
    \<and> (\<exists>C'. transfer_stage c C = Some C' \<and> core_inv C' \<and> flow_ok C' \<and> quiet C C' \<and> (\<forall>j < ROB_SIZE. rob_at j C' =
      (if rb_list (rob_at j C) = Some (rob_completed c) then transfer_entry (rob_at j C) else rob_at j C)))"
proof (intro conjI)
  have k: "core_at (length (entries C)) C" using assms(1) by (simp add: core_inv_at)
  obtain L where L: "lists_ok L C" using core_invD(5) [OF assms(1)] by blast
  have inv: "core_inv D" if "core_at (length (entries C)) D" "quiet C D" for D
    using that quiet_length [OF that(2)] by (simp add: core_inv_at)
  show "\<exists>C'. frontend C = Some C' \<and> core_inv C' \<and> flow_ok C' \<and> quiet C C' \<and> (\<forall>j < ROB_SIZE. rob_at j C' =
      (if rb_list (rob_at j C) = Some rob_frontend then frontend_entry (rob_at j C) else rob_at j C))"
    by (rule frontend_ok [OF k L assms(2)]) (use inv in blast)
  show "\<exists>C'. complete_stage c C = Some C' \<and> core_inv C' \<and> flow_ok C' \<and> quiet C C' \<and> (\<forall>j < ROB_SIZE. rob_at j C' =
      (if rb_list (rob_at j C) = Some (rob_issued c) then complete_entry c (rob_at j C) else rob_at j C))"
    by (rule complete_ok [OF k L assms(2,3)]) (use inv in blast)
  show "\<exists>C'. transfer_stage c C = Some C' \<and> core_inv C' \<and> flow_ok C' \<and> quiet C C' \<and> (\<forall>j < ROB_SIZE. rob_at j C' =
      (if rb_list (rob_at j C) = Some (rob_completed c) then transfer_entry (rob_at j C) else rob_at j C))"
    by (rule transfer_ok [OF k L assms(2,3)]) (use inv in blast)
qed

theorem execution_stages_witness:
  "\<exists>C e C'. entries C = [e] \<and> rb_list e = Some rob_frontend \<and> frontend C = Some C' \<and> core_inv C'
     \<and> rob_at (rb_idx e) C' = frontend_entry e"
proof -
  obtain C e where C: "core_inv C" "flow_ok C" "entries C = [e]" "rb_list e = Some rob_frontend"
    by (rule renamed_core, rule that, assumption+)
  have i: "rb_idx e < ROB_SIZE" "rob_at (rb_idx e) C = e"
    using entries_at(4) [OF core_invD(1,2,3) [OF C(1)], of e] C(3) by simp_all
  have "(0 :: nat) < MAX_CLUSTERS" by (simp add: MAX_CLUSTERS_def)
  from conjunct1 [OF execution_stages [OF C(1,2) this]] obtain C' where "frontend C = Some C'" "core_inv C'"
    "\<forall>j < ROB_SIZE. rob_at j C' = (if rb_list (rob_at j C) = Some rob_frontend then frontend_entry (rob_at j C) else rob_at j C)" by blast
  then show ?thesis using C(3,4) i by (intro exI [of _ C] exI [of _ e] exI [of _ C']) simp
qed

text \<open>
  Claim C7. The writeback stage cannot fail, keeps the invariant and changes no architectural state and no
  rename table. The entries that are written back are a first part of the list of the cluster; it is
  the whole list unless the writeback ports of the cycle are used up, and never more entries than
  there are ports.
\<close>

theorem writeback_width:
  assumes "core_inv C" "flow_ok C" "c < MAX_CLUSTERS" "oc_writecount C \<le> WRITEBACK_WIDTH" "lists_ok L C"
  shows "\<exists>C' ds ts. writeback_stage c C = Some C' \<and> core_inv C' \<and> flow_ok C' \<and> quiet C C'
    \<and> L (rob_ready_to_writeback c) = ds @ ts \<and> (ts = [] \<or> oc_writecount C' = WRITEBACK_WIDTH)
    \<and> oc_writecount C' = oc_writecount C + int (length ds) \<and> oc_writecount C' \<le> WRITEBACK_WIDTH
    \<and> (\<forall>j. rob_at j C' = (if j \<in> set ds then writeback_entry (rob_at j C) else rob_at j C))"
proof -
  have k: "core_at (length (entries C)) C" using assms(1) by (simp add: core_inv_at)
  obtain C' ds ts where w: "writeback_stage c C = Some C'" "core_at (length (entries C)) C'" "flow_ok C'" "quiet C C'"
    "L (rob_ready_to_writeback c) = ds @ ts" "ts \<noteq> [] \<Longrightarrow> oc_writecount C' \<ge> WRITEBACK_WIDTH"
    "oc_writecount C' = oc_writecount C + int (length ds)"
    "\<And>j. rob_at j C' = (if j \<in> set ds then writeback_entry (rob_at j C) else rob_at j C)"
    "oc_writecount C' \<le> max WRITEBACK_WIDTH (oc_writecount C)"
    by (rule writeback_ok [OF k assms(5,2,3)], rule that, assumption+)
  have "core_inv C'" using w(2) quiet_length [OF w(4)] by (simp add: core_inv_at)
  moreover have "oc_writecount C' \<le> WRITEBACK_WIDTH" using w(9) assms(4) by simp
  moreover have "ts = [] \<or> oc_writecount C' = WRITEBACK_WIDTH" using w(6) calculation(2) by force
  ultimately show ?thesis using w(1,3-5,7,8) by blast
qed

theorem writeback_width_witness:
  "\<exists>C C' e. entries C = [e] \<and> rb_list e = Some (rob_ready_to_writeback 0) \<and> writeback_stage 0 C = Some C' \<and> core_inv C'
     \<and> oc_writecount C' = 1 \<and> ready_to_commit (rb_idx e) C'"
proof -
  have l: "rob_list_ok (rob_ready_to_writeback 0)" "rob_ready_to_writeback 0 \<noteq> rob_free" by (simp_all add: MAX_CLUSTERS_def)
  obtain C e where C: "core_inv C" "flow_ok C" "entries C = [e]" "rb_list e = Some (rob_ready_to_writeback 0)" "oc_writecount C = 0"
    by (rule placed_core [OF l], rule that, assumption+)
  have i: "rb_idx e < ROB_SIZE" "rob_at (rb_idx e) C = e"
    using entries_at(4) [OF core_invD(1,2,3) [OF C(1)], of e] C(3) by simp_all
  obtain L where L: "lists_ok L C" using core_invD(5) [OF C(1)] by blast
  have set: "set (L (rob_ready_to_writeback 0)) = {j. j < ROB_SIZE \<and> rb_list (rob_at j C) = Some (rob_ready_to_writeback 0)}"
    "distinct (L (rob_ready_to_writeback 0))"
    using L l(1) state_listsD(3) [of rob_roots "rob_contents L" "oc_rob_lists C" "RobList (rob_ready_to_writeback 0)"]
    by (auto simp: lists_ok_def rob_roots_def rob_contents_def distinct_map)
  have "set (L (rob_ready_to_writeback 0)) = {rb_idx e}"
  proof -
    have "j = rb_idx e" if "j < ROB_SIZE" "rb_list (rob_at j C) = Some (rob_ready_to_writeback 0)" for j
      using valid_okD [OF core_invD(6) [OF C(1)] that(1)] that(2) C(3) by simp
    moreover have "rb_idx e < ROB_SIZE \<and> rb_list (rob_at (rb_idx e) C) = Some (rob_ready_to_writeback 0)"
      by (simp only: i C(4) simp_thms)
    ultimately show ?thesis unfolding set(1) by blast
  qed
  then have one: "length (L (rob_ready_to_writeback 0)) = 1" using set(2) distinct_card by fastforce
  have "(0 :: nat) < MAX_CLUSTERS" "oc_writecount C \<le> WRITEBACK_WIDTH" using C(5) by (simp_all add: MAX_CLUSTERS_def WRITEBACK_WIDTH_def)
  from writeback_width [OF C(1,2) this L] obtain C' ds ts where w: "writeback_stage 0 C = Some C'" "core_inv C'"
      "L (rob_ready_to_writeback 0) = ds @ ts" "ts = [] \<or> oc_writecount C' = WRITEBACK_WIDTH"
      "oc_writecount C' = oc_writecount C + int (length ds)"
      "\<forall>j. rob_at j C' = (if j \<in> set ds then writeback_entry (rob_at j C) else rob_at j C)"
    by (elim exE conjE) (rule that, assumption+)
  have "ts = []" using w(3-5) one C(5) by (auto simp: WRITEBACK_WIDTH_def)
  then have ds: "set ds = {rb_idx e}" "length ds = 1" using w(3) \<open>set (L (rob_ready_to_writeback 0)) = {rb_idx e}\<close> one by simp_all
  then have "oc_writecount C' = 1" "ready_to_commit (rb_idx e) C'"
    using w(5,6) C(5) by (simp_all add: ready_to_commit_def writeback_entry_def)
  then show ?thesis using C(3,4) w(1,2) by blast
qed

end
