(* ===== verification/Spec2Isabelle.thy ===== *)
theory Spec2Isabelle
  imports Bit_Utils Long_Div Fixed_Queue Assoc_Arrays Branch_Pred Addr_Space Uop_Dispatch Cache_Hierarchy Issue_Stage Core_Cycle
begin

text \<open>
  x86sim is a cycle-accurate simulator of an out-of-order x86-64 processor, derived from PTLsim. This
  library models the parts of it that carry its core logic and proves what makes them correct.
  File names below are under \<^verbatim>\<open>src/src/x86sim\<close> unless they say otherwise.

  \<^bold>\<open>Parts and how they interact.\<close> The decoder turns x86 instructions into micro-operations; the
  out-of-order core renames their registers, dispatches them to the issue queues of four clusters,
  issues them when their operands have been broadcast and commits them in order. Results are
  computed by the micro-operation implementations; branches are predicted by the branch
  predictor; loads and stores go through the cache hierarchy, which keeps its state in the tag
  arrays and associative arrays of \<^verbatim>\<open>logic.h\<close>; the address space maps virtual pages to host memory
  and decides every protection check.

  \<^bold>\<open>Theories.\<close>
  \<^item> \<open>Prelude\<close>: word types, bit sets (\<^verbatim>\<open>std::bitset\<close> as Boolean lists), the collections of facts,
    and the locales \<open>simulation\<close> and \<open>relational_refinement\<close> that lift a per-operation proof to
    every sequence of operations. Each is interpreted on the components that have a contract.
  \<^item> \<open>Bit_Utils\<close>, \<open>Long_Div\<close>: the bit helpers of \<^verbatim>\<open>globals.h\<close>; the 128-bit shift-subtract
    division of \<^verbatim>\<open>superstl.cpp\<close>, equal to the mathematical quotient and remainder.
  \<^item> \<open>Fixed_Queue\<close>: \<^verbatim>\<open>FixedQueue\<close> and \<^verbatim>\<open>Queue\<close> of \<^verbatim>\<open>logic.h\<close>; the ring buffer refines a bounded
    double-ended queue.
  \<^item> \<open>Assoc_Tags\<close>, \<open>Assoc_Arrays\<close>: the tag arrays and associative arrays of \<^verbatim>\<open>logic.h\<close>: uniqueness
    of tags, replacement, locking, and that a lookup never returns stale data.
  \<^item> \<open>Branch_Pred\<close>: \<^verbatim>\<open>branchpred.cpp\<close>: counters, target buffer, return address stack; a mispredicted
    path of calls and returns is undone exactly.
  \<^item> \<open>Addr_Space\<close>: \<^verbatim>\<open>addrspace.cpp\<close>: the page map, the shadow access maps, and the effect of
    mapping, protecting, reading, writing and copying on every address.
  \<^item> \<open>Uop_Alu\<close>, \<open>Uop_Shift\<close>, \<open>Uop_Mul\<close>, \<open>Uop_Cond\<close>, \<open>Uop_Vec\<close>, \<open>Uop_Float\<close>, \<open>Uop_Dispatch\<close>: the
    implementations of \<^verbatim>\<open>uopimpl.cpp\<close> with their flags, against integer arithmetic. The arithmetic
    of the host's floating point unit is a parameter (\<open>FloatUnit\<close>); lane routing, flags and
    comparison conditions are proved for every such unit.
  \<^item> \<open>Cache_Lines\<close>, \<open>Byte_Mask\<close>, \<open>Load_Fill\<close>, \<open>Fill_Inv\<close>, \<open>Cache_Hierarchy\<close>: \<^verbatim>\<open>dcache.h\<close> and
    \<^verbatim>\<open>dcache.cpp\<close>: lines with byte masks, the TLBs, the load fill request queue and the miss buffers.
    The invariant links every waiting load to the miss buffer of its line; clocking alone
    completes every pending load within 185 cycles (\<open>drain_cycles\<close>, the sum of the latencies of
    the memory levels and the queue passes), and the hierarchy refines a tracker of pending loads.
  \<^item> \<open>Issue_Queue\<close>, \<open>Issue_Order\<close>: \<^verbatim>\<open>IssueQueue\<close> of \<^verbatim>\<open>ooocore.h\<close> and \<^verbatim>\<open>oooexec.cpp\<close>; the parallel
    arrays refine a list of entries in age order, and only entries whose operands have arrived issue.
  \<^item> \<open>Cluster_Tables\<close>, \<open>Issue_Stage\<close>: the functional unit and cluster tables of \<^verbatim>\<open>ooocore.h\<close>, the
    lookup tables computed from them, \<^verbatim>\<open>select_cluster\<close> of \<^verbatim>\<open>ooopipe.cpp\<close> and the issue loop of
    \<^verbatim>\<open>oooexec.cpp\<close>, which issues the oldest ready entries up to its width.
  \<^item> \<open>Self_Links\<close>, \<open>State_Lists\<close>: the intrusive links of \<^verbatim>\<open>superstl.h\<close> and the \<^verbatim>\<open>StateList\<close>s of
    \<^verbatim>\<open>ooocore.h\<close> on a heap of nodes, abstracted to one list of entries for each root. \<open>List_Walk\<close> is the
    rule for \<^verbatim>\<open>foreach_list_mutable\<close>: a loop whose body takes the current entry off the list visits the
    entries the list had when it started.
  \<^item> \<open>Phys_Regs\<close>, \<open>Phys_Init\<close>, \<open>Reg_Refs\<close>: the physical registers and register files, their state
    lists and their construction; the reference counter of a register is the multiplicity of the
    register in a multiset of references.
  \<^item> \<open>Pipe_State\<close>, \<open>Pipe_Rename\<close>, \<open>Pipe_Commit\<close>, \<open>Pipe_Annul\<close>, \<open>Pipe_Flush\<close>: the state of the core
    (\<^verbatim>\<open>ReorderBufferEntry\<close>, \<^verbatim>\<open>LoadStoreQueueEntry\<close>, the fields of \<^verbatim>\<open>ThreadContext\<close> and \<^verbatim>\<open>OutOfOrderCore\<close> as
    one record, for there is one thread) and its operations: \<^verbatim>\<open>rename\<close>, \<^verbatim>\<open>frontend\<close>, \<^verbatim>\<open>complete\<close>,
    \<^verbatim>\<open>transfer\<close>, \<^verbatim>\<open>writeback\<close>, \<^verbatim>\<open>commit\<close>, \<^verbatim>\<open>flush_pipeline\<close> and \<^verbatim>\<open>check_refcounts\<close> of \<^verbatim>\<open>ooopipe.cpp\<close>,
    \<^verbatim>\<open>annul\<close>, \<^verbatim>\<open>redispatch\<close>, \<^verbatim>\<open>forward\<close>, the fences and the memory locks of \<^verbatim>\<open>oooexec.cpp\<close>.
  \<^item> \<open>Rename_Inv\<close>, \<open>Rename_Steps\<close>, \<open>Core_Inv\<close>, \<open>Rename_Core\<close>, \<open>Rename_Stage\<close>: the invariant of the core
    (\<open>core_inv\<close>: exact reference counts, every register in flight is the destination of exactly one
    entry, the speculative table is the committed one moved over the entries, the entries are on the
    lists their states say) and that renaming keeps it and finds the right sources.
  \<^item> \<open>Lock_Frame\<close>, \<open>Flush_Core\<close>, \<open>Flush_Regs\<close>, \<open>Flush_Inv\<close>, \<open>Boot_Core\<close>, \<open>Core_Props\<close>: the flush, from any
    state of the pipeline and from the state of a newly built core, and the theorems on it.
  \<^item> \<open>Commit_Regs\<close>, \<open>Commit_Core\<close>, \<open>Stage_Inv\<close>, \<open>Stage_Flow\<close>, \<open>Commit_Stage\<close>, \<open>Commit_Alu\<close>, \<open>Core_Cycle\<close>: the
    stages from the front end to retirement. Completion, transfer and writeback are total on states
    that satisfy the invariant; commit retires the oldest entries in order, and the commit of a register
    operation is total and changes the architectural registers as stated. The theorem on the whole
    commit stage is about the runs in which no assertion of the code fails: those assertions are
    about the load/store queue and the instruction pointer, which the parts outside the model fill.

  \<^bold>\<open>Conventions.\<close> A machine integer is a word of its width, and an index a natural number or an
  integer where the code tests its sign. A failed \<^verbatim>\<open>assert\<close> is \<open>None\<close>; the theorems that an
  operation fails no assertion are stated as such. Statistics, logging and event tracing are left
  out of every operation. Loops over the page map and the queues are folds. A walk of a queue has the size of
  the queue as its fuel, a walk of a state list the number of entries that can be on it
  (\<open>ROB_SIZE\<close>, \<open>MAX_PHYS_REG_FILE_SIZE\<close>); both are shown to visit every element.

  \<^bold>\<open>Not modelled.\<close> Fetch, dispatch (\<^verbatim>\<open>find_sources\<close>), the issue of loads and stores, barriers, exceptions,
  interrupts and the loop over cycles of the out-of-order core: fetch depends on the translation of
  basic blocks, and issue on the page walk and the host's memory. Hence the invariant says of an entry
  that has been dispatched only what the later stages need (\<open>flow_ok\<close>: its cluster exists and its
  forwarding counter is in range). The sequential core and the decoder, which are separate clients of
  the micro-operations. The event trace, statistics, logging, the register interface of the host
  program, the system call and ELF support for Linux programs, the command line programs and the
  Python bindings are input and output around the core and stay outside.
\<close>

end
